(* ===== verification/Prelude.thy ===== *)
theory Prelude
  imports Main "HOL-Library.Word"
begin

unbundle bit_operations_syntax

text \<open>
  Shared vocabulary of the development: the machine types of the Rust sources, results as sums
  (\<open>Inl\<close> for \<open>Err\<close>, \<open>Inr\<close> for \<open>Ok\<close>), checked \<open>usize\<close> arithmetic, the fallible slice reads
  \<open>get(i)\<close> and \<open>get(a..b)\<close>, the byte orders, and the generic interfaces used by the components:
  \<open>fixed_codec\<close> (a fixed-width field that is written by one function and read back by another),
  \<open>invariant_machine\<close> (a state machine whose operations keep an invariant) and its extensions
  \<open>ranked_machine\<close> (a quantity that never decreases) and \<open>guarded_machine\<close> (an absorbing set of
  states).
\<close>

named_theorems result_inv \<open>what a successful (or failed) step says about its parts\<close>
named_theorems wire_len \<open>lengths of encoded fields\<close>

section \<open>Machine types\<close>

type_synonym u8 = "8 word"
type_synonym u16 = "16 word"
type_synonym u32 = "32 word"
type_synonym u64 = "64 word"
type_synonym usize = nat
type_synonym bytes = "u8 list"

text \<open>The targets are 64-bit: \<open>usize\<close> is a natural number with the checked operations bounded.\<close>

definition usize_max :: nat where
  "usize_max = 18446744073709551615"

definition u64_max :: nat where
  "u64_max = 18446744073709551615"

definition usize_add :: "usize \<Rightarrow> usize \<Rightarrow> usize option" where
  "usize_add a b = (if a + b \<le> usize_max then Some (a + b) else None)"

definition u64_checked_add :: "u64 \<Rightarrow> u64 \<Rightarrow> u64 option" where
  "u64_checked_add a b = (if unat a + unat b \<le> u64_max then Some (a + b) else None)"

definition u64_saturating_add :: "u64 \<Rightarrow> u64 \<Rightarrow> u64" where
  "u64_saturating_add a b = (if unat a + unat b \<le> u64_max then a + b else - 1)"

lemma usize_add_Some [simp]: "a + b \<le> usize_max \<Longrightarrow> usize_add a b = Some (a + b)"
  by (simp add: usize_add_def)

lemma usize_add_eq_Some [result_inv]: "usize_add a b = Some c \<longleftrightarrow> c = a + b \<and> a + b \<le> usize_max"
  by (auto simp: usize_add_def)

lemma usize_add_eq_None [result_inv]: "usize_add a b = None \<longleftrightarrow> usize_max < a + b"
  by (auto simp: usize_add_def)

lemma u64_checked_add_SomeD:
  "u64_checked_add a b = Some c \<Longrightarrow> unat c = unat a + unat b"
  by (auto simp: u64_checked_add_def u64_max_def unat_word_ariths split: if_splits)

lemma unat_u64_max: "unat (- 1 :: u64) = u64_max"
  by (simp add: unsigned_minus_1_eq_mask mask_eq_exp_minus_1 u64_max_def)

lemma unat_u64_le: "unat (w :: u64) \<le> u64_max"
  using unsigned_less [where 'a = nat, of w] by (simp add: u64_max_def)

lemma u64_succ:
  "u64_checked_add w 1 = (if w = - 1 then None else Some (w + 1))"
proof -
  have "unat w = u64_max \<longleftrightarrow> w = - 1" by (metis unat_u64_max word_unat_eq_iff)
  with unat_u64_le [of w] show ?thesis by (auto simp: u64_checked_add_def unat_u64_max)
qed

lemma unat_succ: "(w :: u64) \<noteq> - 1 \<Longrightarrow> unat (w + 1) = Suc (unat w)"
  using u64_succ [of w] u64_checked_add_SomeD [of w 1] by simp

lemma less_succ_iff: "(w :: u64) \<noteq> - 1 \<Longrightarrow> v < w + 1 \<longleftrightarrow> v \<le> w"
  by (simp add: word_less_nat_alt word_le_nat_alt unat_succ less_Suc_eq_le)

lemma le_succ: "(w :: u64) \<noteq> - 1 \<Longrightarrow> v \<le> w \<Longrightarrow> v \<le> w + 1"
  using less_succ_iff [of w v] by simp

section \<open>Results\<close>

type_synonym ('e, 'a) result = "'e + 'a"

definition rbind :: "('e, 'a) result \<Rightarrow> ('a \<Rightarrow> ('e, 'b) result) \<Rightarrow> ('e, 'b) result" where
  "rbind m f = (case m of Inl e \<Rightarrow> Inl e | Inr x \<Rightarrow> f x)"

definition ok_or :: "'e \<Rightarrow> 'a option \<Rightarrow> ('e, 'a) result" where
  "ok_or e m = (case m of None \<Rightarrow> Inl e | Some x \<Rightarrow> Inr x)"

definition map_err :: "('e \<Rightarrow> 'f) \<Rightarrow> ('e, 'a) result \<Rightarrow> ('f, 'a) result" where
  "map_err f m = (case m of Inl e \<Rightarrow> Inl (f e) | Inr x \<Rightarrow> Inr x)"

lemma rbind_simps [simp]:
  "rbind (Inl e) f = Inl e"
  "rbind (Inr x) f = f x"
  by (simp_all add: rbind_def)

lemma ok_or_simps [simp]:
  "ok_or e None = Inl e"
  "ok_or e (Some x) = Inr x"
  by (simp_all add: ok_or_def)

lemma map_err_simps [simp]:
  "map_err f (Inl e) = Inl (f e)"
  "map_err f (Inr x) = Inr x"
  by (simp_all add: map_err_def)

lemma rbind_eq_Inr [result_inv]: "rbind m f = Inr y \<longleftrightarrow> (\<exists>x. m = Inr x \<and> f x = Inr y)"
  by (cases m) auto

lemma rbind_eq_Inl: "rbind m f = Inl e \<longleftrightarrow> m = Inl e \<or> (\<exists>x. m = Inr x \<and> f x = Inl e)"
  by (cases m) auto

lemma ok_or_eq_Inr [result_inv]: "ok_or e m = Inr x \<longleftrightarrow> m = Some x"
  by (cases m) auto

lemma ok_or_eq_Inl [result_inv]: "ok_or e m = Inl e' \<longleftrightarrow> m = None \<and> e' = e"
  by (cases m) auto

lemma map_err_eq_Inr [result_inv]: "map_err f m = Inr x \<longleftrightarrow> m = Inr x"
  by (cases m) auto

lemma map_err_eq_Inl: "map_err f m = Inl x \<longleftrightarrow> (\<exists>e. m = Inl e \<and> x = f e)"
  by (cases m) auto

lemma rbind_cong [fundef_cong]:
  "m = m' \<Longrightarrow> (\<And>x. m' = Inr x \<Longrightarrow> f x = g x) \<Longrightarrow> rbind m f = rbind m' g"
  by (cases m') auto

lemma rbind_weak_cong: "m = m' \<Longrightarrow> rbind m f = rbind m' f"
  by simp

lemma rbind_assoc: "rbind (rbind m f) g = rbind m (\<lambda>x. rbind (f x) g)"
  by (cases m) auto

section \<open>Slices\<close>

text \<open>Rust's \<open>slice.get(i)\<close> and \<open>slice.get(a..b)\<close>: out of range, or \<open>b < a\<close>, is \<open>None\<close>.\<close>

definition slice_get :: "'a list \<Rightarrow> usize \<Rightarrow> 'a option" where
  "slice_get xs i = (if i < length xs then Some (xs ! i) else None)"

definition slice_range :: "'a list \<Rightarrow> usize \<Rightarrow> usize \<Rightarrow> 'a list option" where
  "slice_range xs a b = (if a \<le> b \<and> b \<le> length xs then Some (take (b - a) (drop a xs)) else None)"

definition slice_from :: "'a list \<Rightarrow> usize \<Rightarrow> 'a list option" where
  "slice_from xs a = (if a \<le> length xs then Some (drop a xs) else None)"

lemma slice_from_eq_Some [result_inv]: "slice_from xs a = Some ys \<longleftrightarrow> a \<le> length xs \<and> ys = drop a xs"
  by (auto simp: slice_from_def)

lemma slice_from_eq_None [result_inv]: "slice_from xs a = None \<longleftrightarrow> length xs < a"
  by (auto simp: slice_from_def)

lemma slice_from_Some [simp]: "a \<le> length xs \<Longrightarrow> slice_from xs a = Some (drop a xs)"
  by (simp add: slice_from_def)

lemma slice_get_eq_Some [result_inv]: "slice_get xs i = Some x \<longleftrightarrow> i < length xs \<and> xs ! i = x"
  by (auto simp: slice_get_def)

lemma slice_get_eq_None [result_inv]: "slice_get xs i = None \<longleftrightarrow> length xs \<le> i"
  by (auto simp: slice_get_def)

lemma slice_range_eq_Some:
  "slice_range xs a b = Some ys \<longleftrightarrow> a \<le> b \<and> b \<le> length xs \<and> ys = take (b - a) (drop a xs)"
  by (auto simp: slice_range_def)

lemma slice_range_eq_None [result_inv]: "slice_range xs a b = None \<longleftrightarrow> b < a \<or> length xs < b"
  by (auto simp: slice_range_def)

lemma slice_range_SomeD:
  "slice_range xs a b = Some ys \<Longrightarrow> a \<le> b \<and> b \<le> length xs \<and> length ys = b - a"
  by (auto simp: slice_range_def split: if_splits)

lemma slice_get_Some [simp]: "i < length xs \<Longrightarrow> slice_get xs i = Some (xs ! i)"
  by (simp add: slice_get_def)

lemma slice_get_append [simp]: "slice_get (pre @ x # post) (length pre) = Some x"
  by (simp add: slice_get_def)

lemma slice_range_append:
  "n = length pre \<Longrightarrow> m = length pre + length mid \<Longrightarrow>
   slice_range (pre @ mid @ post) n m = Some mid"
  by (simp add: slice_range_def)

lemma slice_range_at:
  "xs = pre @ mid @ post \<Longrightarrow> n = length pre \<Longrightarrow> m = n + length mid \<Longrightarrow>
   slice_range xs n m = Some mid"
  by (simp add: slice_range_def)

lemma slice_from_at: "xs = pre @ mid \<Longrightarrow> n = length pre \<Longrightarrow> slice_from xs n = Some mid"
  by (simp add: slice_from_def)

lemma slice_range_full [simp]: "slice_range xs 0 (length xs) = Some xs"
  by (simp add: slice_range_def)

text \<open>\<open>slice.chunks_exact(n)\<close>.\<close>

definition chunks_exact :: "nat \<Rightarrow> 'a list \<Rightarrow> 'a list list" where
  "chunks_exact n xs = map (\<lambda>i. take n (drop (i * n) xs)) [0..<length xs div n]"

section \<open>Byte orders\<close>

text \<open>
  \<open>le_word\<close> and \<open>le_bytes k\<close> are \<open>from_le_bytes\<close> and \<open>to_le_bytes\<close> of the \<open>k\<close>-byte integer
  types; the big-endian pair reverses the byte list.
\<close>

fun le_word :: "bytes \<Rightarrow> 'w::len word" where
  "le_word [] = 0"
| "le_word (b # bs) = ucast b OR push_bit 8 (le_word bs)"

definition le_bytes :: "nat \<Rightarrow> 'w::len word \<Rightarrow> bytes" where
  "le_bytes k w = map (\<lambda>i. ucast (drop_bit (8 * i) w)) [0..<k]"

definition be_word :: "bytes \<Rightarrow> 'w::len word" where
  "be_word bs = le_word (rev bs)"

definition be_bytes :: "nat \<Rightarrow> 'w::len word \<Rightarrow> bytes" where
  "be_bytes k w = rev (le_bytes k w)"

lemma bit_le_word:
  "bit (le_word bs :: 'w::len word) n \<longleftrightarrow>
     n < LENGTH('w) \<and> n div 8 < length bs \<and> bit (bs ! (n div 8)) (n mod 8)"
proof (induction bs arbitrary: n)
  case Nil
  then show ?case by simp
next
  case (Cons b bs)
  show ?case
  proof (cases "n < 8")
    case True
    then show ?thesis by (auto simp: bit_simps)
  next
    case False
    then have "n div 8 = Suc ((n - 8) div 8)" and "n mod 8 = (n - 8) mod 8"
      by (simp_all add: le_div_geq le_mod_geq)
    with False show ?thesis
      by (auto simp: bit_simps Cons.IH dest: bit_imp_le_length)
  qed
qed

lemma le_word_le_bytes:
  assumes "LENGTH('w::len) = 8 * k"
  shows "le_word (le_bytes k w) = (w :: 'w word)"
proof (rule bit_word_eqI)
  fix n assume "n < LENGTH('w)"
  with assms have "n div 8 < k" and "8 * (n div 8) + n mod 8 = n" by auto
  then show "bit (le_word (le_bytes k w) :: 'w word) n \<longleftrightarrow> bit w n"
    using \<open>n < LENGTH('w)\<close> by (simp add: bit_le_word le_bytes_def bit_simps)
qed

lemma le_bytes_le_word:
  assumes "length bs = k" and "8 * k \<le> LENGTH('w::len)"
  shows "le_bytes k (le_word bs :: 'w word) = bs"
proof (rule nth_equalityI)
  show "length (le_bytes k (le_word bs :: 'w word)) = length bs"
    using assms by (simp add: le_bytes_def)
next
  fix i assume "i < length (le_bytes k (le_word bs :: 'w word))"
  then have i: "i < k" by (simp add: le_bytes_def)
  show "le_bytes k (le_word bs :: 'w word) ! i = bs ! i"
  proof (rule bit_word_eqI)
    fix n assume "n < LENGTH(8)"
    then have "n < 8" by simp
    with i assms show "bit (le_bytes k (le_word bs :: 'w word) ! i) n \<longleftrightarrow> bit (bs ! i) n"
      by (simp add: le_bytes_def bit_simps bit_le_word)
  qed
qed

lemma length_le_bytes [simp, wire_len]: "length (le_bytes k w) = k"
  by (simp add: le_bytes_def)

lemma length_be_bytes [simp, wire_len]: "length (be_bytes k w) = k"
  by (simp add: be_bytes_def)

lemma be_word_be_bytes:
  "LENGTH('w::len) = 8 * k \<Longrightarrow> be_word (be_bytes k w) = (w :: 'w word)"
  by (simp add: be_word_def be_bytes_def le_word_le_bytes)

lemma be_bytes_be_word:
  "length bs = k \<Longrightarrow> 8 * k \<le> LENGTH('w::len) \<Longrightarrow> be_bytes k (be_word bs :: 'w word) = bs"
  by (simp add: be_word_def be_bytes_def le_bytes_le_word)

lemma be_word_widths [simp]:
  "be_word (be_bytes 2 v) = (v :: u16)"
  "be_word (be_bytes 4 w) = (w :: u32)"
  "be_word (be_bytes 8 x) = (x :: u64)"
  by (simp_all add: be_word_be_bytes)

lemma le_word_widths [simp]:
  "le_word (le_bytes 2 v) = (v :: u16)"
  "le_word (le_bytes 4 w) = (w :: u32)"
  "le_word (le_bytes 8 x) = (x :: u64)"
  by (simp_all add: le_word_le_bytes)

lemma byte_bit: "byte AND 2 ^ n \<noteq> 0 \<longleftrightarrow> n < 8 \<and> bit byte n" for byte :: u8
proof
  assume "byte AND 2 ^ n \<noteq> 0"
  then obtain m where "bit (byte AND 2 ^ n) m" by (metis bit_eqI bit_0_eq bot_apply bot_bool_def)
  then show "n < 8 \<and> bit byte n" by (auto simp: bit_simps dest: bit_imp_le_length)
next
  assume "n < 8 \<and> bit byte n"
  then have "bit (byte AND 2 ^ n) n" by (simp add: bit_simps)
  then show "byte AND 2 ^ n \<noteq> 0" by auto
qed

section \<open>Fixed-width fields\<close>

text \<open>
  A fixed-width field is written by \<open>put\<close> and read at an offset by \<open>get\<close>.  What the message codecs
  rely on is that a reader finds the written value wherever the field was placed, that it succeeds
  exactly when the field lies inside the buffer, and that it does not look beyond its bytes.
\<close>

locale fixed_codec =
  fixes put :: "'a \<Rightarrow> bytes"
    and get :: "bytes \<Rightarrow> usize \<Rightarrow> ('e, 'a) result"
    and width :: nat
  assumes put_length: "length (put x) = width"
    and get_put: "length pre + width \<le> usize_max \<Longrightarrow> get (pre @ put x @ post) (length pre) = Inr x"
    and get_bound: "get bs off = Inr x \<Longrightarrow> off + width \<le> length bs"
    and get_total: "off + width \<le> length bs \<Longrightarrow> length bs \<le> usize_max \<Longrightarrow> \<exists>x. get bs off = Inr x"
begin

lemma get_first: "width \<le> usize_max \<Longrightarrow> get (put x @ post) 0 = Inr x"
  using get_put [of "[]" x post] by simp

lemma get_at:
  "off = length pre \<Longrightarrow> length pre + width \<le> usize_max \<Longrightarrow> get (pre @ put x @ post) off = Inr x"
  using get_put by blast

lemma put_inj: "width \<le> usize_max \<Longrightarrow> put x = put y \<Longrightarrow> x = y"
  using get_first [of x "[]"] get_first [of y "[]"] by simp

lemma get_Inr_iff:
  "length bs \<le> usize_max \<Longrightarrow> (\<exists>x. get bs off = Inr x) \<longleftrightarrow> off + width \<le> length bs"
  using get_bound get_total by blast

end

section \<open>State machines\<close>

text \<open>
  A component with mutable state is a total function from a state and an operation to the next
  state (an operation that fails leaves the state its early return leaves).  An invariant kept by
  every operation holds along every sequence of operations.  \<open>ranked_machine\<close> adds a quantity that
  no operation decreases, and \<open>guarded_machine\<close> an absorbing set of states.
\<close>

locale invariant_machine =
  fixes step :: "'s \<Rightarrow> 'op \<Rightarrow> 's"
    and inv :: "'s \<Rightarrow> bool"
  assumes step_inv: "inv s \<Longrightarrow> inv (step s op)"
begin

lemma run_inv: "inv s \<Longrightarrow> inv (foldl step s ops)"
  by (induction ops arbitrary: s) (simp_all add: step_inv)

end

locale ranked_machine = invariant_machine step inv for step :: "'s \<Rightarrow> 'op \<Rightarrow> 's" and inv +
  fixes rank :: "'s \<Rightarrow> nat"
  assumes step_rank: "inv s \<Longrightarrow> rank s \<le> rank (step s op)"
begin

lemma run_rank: "inv s \<Longrightarrow> rank s \<le> rank (foldl step s ops)"
proof (induction ops arbitrary: s)
  case (Cons op ops)
  have "rank s \<le> rank (step s op)" by (rule step_rank [OF Cons.prems])
  also have "\<dots> \<le> rank (foldl step (step s op) ops)" by (rule Cons.IH [OF step_inv [OF Cons.prems]])
  finally show ?case by simp
qed simp

end

text \<open>The same for a step relation: every run keeps the invariant and relates its ends.\<close>

locale monotone_system =
  fixes step :: "'s \<Rightarrow> 's \<Rightarrow> bool"
    and inv :: "'s \<Rightarrow> bool"
    and progress :: "'s \<Rightarrow> 's \<Rightarrow> bool"
  assumes inv_step: "inv s \<Longrightarrow> step s s' \<Longrightarrow> inv s'"
    and progress_step: "inv s \<Longrightarrow> step s s' \<Longrightarrow> progress s s'"
    and progress_refl: "progress s s"
    and progress_trans: "progress s s' \<Longrightarrow> progress s' s'' \<Longrightarrow> progress s s''"
begin

lemma run_progress: "step\<^sup>*\<^sup>* s s' \<Longrightarrow> inv s \<Longrightarrow> inv s' \<and> progress s s'"
proof (induction rule: rtranclp_induct)
  case base
  then show ?case using progress_refl by simp
next
  case (step t u)
  then show ?case using inv_step progress_step progress_trans by blast
qed

end

locale guarded_machine = invariant_machine step inv for step :: "'s \<Rightarrow> 'op \<Rightarrow> 's" and inv +
  fixes final :: "'s \<Rightarrow> bool"
  assumes step_final: "inv s \<Longrightarrow> final s \<Longrightarrow> final (step s op)"
begin

lemma run_final: "inv s \<Longrightarrow> final s \<Longrightarrow> final (foldl step s ops)"
  by (induction ops arbitrary: s) (simp_all add: step_inv step_final)

end

end
