(* ===== verification/Dns_Name.thy ===== *)
theory Dns_Name
  imports Prelude
begin

unbundle bit_operations_syntax

text \<open>
  Names of \<open>hns-dns-wire\<close> (src/crates/hns-dns-wire/src/lib.rs): the parser limits, the error type,
  the \<open>Name\<close> operations and the compression-aware \<open>decode_name\<close>.  The loop of \<open>decode_name\<close> is the
  recursive function \<open>decode_name_loop\<close>; it terminates because every round marks a fresh position of
  \<open>visited\<close>.
\<close>

section \<open>Limits and errors\<close>

definition CLASS_IN :: u16 where "CLASS_IN = 1"

definition MAX_LABEL_LEN :: usize where "MAX_LABEL_LEN = 63"

definition MAX_WIRE_NAME_LEN :: usize where "MAX_WIRE_NAME_LEN = 255"

definition DEFAULT_UDP_PAYLOAD :: u16 where "DEFAULT_UDP_PAYLOAD = 1232"

definition EDNS_DO :: u16 where "EDNS_DO = 0x8000"

definition U16_MAX :: usize where "U16_MAX = 65535"

record parse_limits =
  max_message_len :: usize
  max_questions :: usize
  max_records :: usize
  max_rdata_len :: usize
  max_labels_per_name :: usize
  max_compression_jumps :: usize

definition browser_limits :: parse_limits where
  "browser_limits =
     \<lparr>max_message_len = U16_MAX, max_questions = 4, max_records = 2048,
      max_rdata_len = U16_MAX, max_labels_per_name = 127, max_compression_jumps = 32\<rparr>"

definition requester_limits :: parse_limits where
  "requester_limits =
     \<lparr>max_message_len = U16_MAX, max_questions = 1, max_records = 1024,
      max_rdata_len = 16384, max_labels_per_name = 127, max_compression_jumps = 16\<rparr>"

datatype wire_error =
  UnexpectedEof | MessageTooLong | CountLimit | InvalidLabel | NameLimit | PointerOutOfBounds
| ForwardPointer | CompressionLoop | CompressionJumpLimit | RdataLimit | InvalidRdata
| InvalidEdns | TrailingBytes | LengthOverflow | InvalidQuery | ReservedHeaderBits | NotResponse
| IdMismatch | OpcodeMismatch | QuestionMismatch | Truncated | EncodeLimit | TypeMismatch

section \<open>Names\<close>

datatype dns_name = Name (labels: "bytes list")

definition to_ascii_lowercase :: "u8 \<Rightarrow> u8" where
  "to_ascii_lowercase b = (if 65 \<le> b \<and> b \<le> 90 then b + 32 else b)"

definition canonical_label :: "bytes \<Rightarrow> bytes" where
  "canonical_label label = map to_ascii_lowercase label"

definition root_name :: dns_name where
  "root_name = Name []"

definition is_root :: "dns_name \<Rightarrow> bool" where
  "is_root n \<longleftrightarrow> labels n = []"

fun from_labels_loop :: "bytes list \<Rightarrow> bytes list \<Rightarrow> usize \<Rightarrow> (wire_error, dns_name) result" where
  "from_labels_loop [] canonical wire_len = Inr (Name canonical)"
| "from_labels_loop (label # rest) canonical wire_len =
     (if label = [] \<or> MAX_LABEL_LEN < length label then Inl InvalidLabel
      else rbind (ok_or LengthOverflow (usize_add wire_len (length label + 1))) (\<lambda>wire_len'.
        if MAX_WIRE_NAME_LEN < wire_len' then Inl NameLimit
        else from_labels_loop rest (canonical @ [canonical_label label]) wire_len'))"

definition from_labels :: "bytes list \<Rightarrow> (wire_error, dns_name) result" where
  "from_labels ls = from_labels_loop ls [] 1"

text \<open>Rust's \<open>slice.split\<close> on one byte: an empty input is one empty piece.\<close>

fun split_on :: "u8 \<Rightarrow> bytes \<Rightarrow> bytes list" where
  "split_on d [] = [[]]"
| "split_on d (b # bs) =
     (if b = d then [] # split_on d bs
      else case split_on d bs of [] \<Rightarrow> [[b]] | p # ps \<Rightarrow> (b # p) # ps)"

definition strip_dot :: "bytes \<Rightarrow> bytes" where
  "strip_dot input = (if input \<noteq> [] \<and> last input = 46 then butlast input else input)"

definition from_ascii :: "bytes \<Rightarrow> (wire_error, dns_name) result" where
  "from_ascii input =
     (let input = strip_dot input in
      if input = [] then Inr root_name else from_labels (split_on 46 input))"

definition name_wire_len :: "dns_name \<Rightarrow> usize" where
  "name_wire_len n = foldl (\<lambda>len label. len + length label + 1) 1 (labels n)"

fun encode_labels :: "bytes list \<Rightarrow> bytes \<Rightarrow> (wire_error, bytes) result" where
  "encode_labels [] out = Inr out"
| "encode_labels (label # rest) out =
     (if 255 < length label then Inl InvalidLabel
      else if MAX_LABEL_LEN < length label then Inl InvalidLabel
      else encode_labels rest (out @ of_nat (length label) # label))"

text \<open>\<open>encode\<close> appends to the caller's buffer; the buffer of a failed call is dropped by every caller.\<close>

definition name_encode :: "dns_name \<Rightarrow> bytes \<Rightarrow> (wire_error, bytes) result" where
  "name_encode n out =
     (if MAX_WIRE_NAME_LEN < name_wire_len n then Inl NameLimit
      else rbind (encode_labels (labels n) out) (\<lambda>out'. Inr (out' @ [0])))"

definition is_ascii_alphanumeric :: "u8 \<Rightarrow> bool" where
  "is_ascii_alphanumeric b \<longleftrightarrow>
     48 \<le> b \<and> b \<le> 57 \<or> 65 \<le> b \<and> b \<le> 90 \<or> 97 \<le> b \<and> b \<le> 122"

definition display_byte :: "u8 \<Rightarrow> bytes" where
  "display_byte b =
     (if is_ascii_alphanumeric b \<or> b = 45 \<or> b = 95 then [b]
      else [92, 48 + b div 100, 48 + (b div 10) mod 10, 48 + b mod 10])"

fun display_labels :: "bytes list \<Rightarrow> bytes" where
  "display_labels [] = []"
| "display_labels [label] = concat (map display_byte label)"
| "display_labels (label # rest) = concat (map display_byte label) @ 46 # display_labels rest"

definition name_display :: "dns_name \<Rightarrow> bytes" where
  "name_display n = (if labels n = [] then [46] else display_labels (labels n) @ [46])"

section \<open>Decoding with compression\<close>

function decode_name_loop ::
  "bytes \<Rightarrow> usize \<Rightarrow> parse_limits \<Rightarrow> bytes list \<Rightarrow> usize \<Rightarrow> usize option \<Rightarrow> usize \<Rightarrow> usize \<Rightarrow>
   bool list \<Rightarrow> (wire_error, dns_name \<times> usize) result"
where
  "decode_name_loop message contiguous_end limits ls cursor consumed_end jumps expanded_len visited =
     rbind (ok_or PointerOutOfBounds (slice_get visited cursor)) (\<lambda>was_visited.
     if was_visited then Inl CompressionLoop
     else rbind (ok_or UnexpectedEof (slice_get message cursor)) (\<lambda>len.
     if len AND 0xc0 = 0xc0 then
       rbind (ok_or LengthOverflow (usize_add cursor 2)) (\<lambda>pointer_end.
       if consumed_end = None \<and> contiguous_end < pointer_end then Inl UnexpectedEof
       else rbind (ok_or UnexpectedEof (slice_get message (cursor + 1))) (\<lambda>second.
       let pointer = push_bit 8 (unat (len AND 0x3f)) OR unat second in
       if length message \<le> pointer then Inl PointerOutOfBounds
       else if cursor \<le> pointer then Inl ForwardPointer
       else rbind (ok_or LengthOverflow (usize_add jumps 1)) (\<lambda>jumps'.
       if max_compression_jumps limits < jumps' then Inl CompressionJumpLimit
       else decode_name_loop message contiguous_end limits ls pointer
              (if consumed_end = None then Some pointer_end else consumed_end)
              jumps' expanded_len (visited[cursor := True]))))
     else if len AND 0xc0 = 0 then
       rbind (ok_or LengthOverflow (usize_add cursor 1)) (\<lambda>cursor'.
       if len = 0 then
         Inr (Name ls, case consumed_end of Some e \<Rightarrow> e | None \<Rightarrow> cursor')
       else if MAX_LABEL_LEN < unat len then Inl InvalidLabel
       else rbind (ok_or LengthOverflow (usize_add cursor' (unat len))) (\<lambda>label_end.
       if consumed_end = None \<and> contiguous_end < label_end then Inl UnexpectedEof
       else rbind (ok_or UnexpectedEof (slice_range message cursor' label_end)) (\<lambda>label.
       rbind (ok_or LengthOverflow (usize_add expanded_len (unat len + 1))) (\<lambda>expanded_len'.
       if MAX_WIRE_NAME_LEN < expanded_len' \<or> max_labels_per_name limits \<le> length ls
       then Inl NameLimit
       else decode_name_loop message contiguous_end limits (ls @ [canonical_label label]) label_end
              consumed_end jumps expanded_len' (visited[cursor := True])))))
     else Inl InvalidLabel))"
  by pat_completeness auto

lemma unvisited_decreases:
  "i < length vs \<Longrightarrow> \<not> vs ! i \<Longrightarrow>
   length (filter Not (vs[i := True])) < length (filter Not vs)"
proof (induction vs arbitrary: i)
  case Nil
  then show ?case by simp
next
  case (Cons v vs)
  then show ?case by (cases i) auto
qed

termination decode_name_loop
  by (relation "measure (\<lambda>(m, ce, l, ls, c, co, j, e, visited). length (filter Not visited))")
    (auto simp: unvisited_decreases result_inv)

definition decode_name ::
  "bytes \<Rightarrow> usize \<Rightarrow> usize \<Rightarrow> parse_limits \<Rightarrow> (wire_error, dns_name \<times> usize) result" where
  "decode_name message offset contiguous_end limits =
     (if length message < contiguous_end \<or> contiguous_end \<le> offset then Inl UnexpectedEof
      else decode_name_loop message contiguous_end limits [] offset None 0 1
             (replicate (length message) False))"

declare decode_name_loop.simps [simp del]

section \<open>Well-formed names\<close>

text \<open>
  \<open>wf_name\<close> is what a \<open>Name\<close> of the library promises: labels of 1 to 63 octets in canonical case
  and an expanded wire length of at most 255.
\<close>

definition wf_label :: "bytes \<Rightarrow> bool" where
  "wf_label l \<longleftrightarrow> l \<noteq> [] \<and> length l \<le> MAX_LABEL_LEN \<and> canonical_label l = l"

definition wf_name :: "dns_name \<Rightarrow> bool" where
  "wf_name n \<longleftrightarrow> list_all wf_label (labels n) \<and> name_wire_len n \<le> MAX_WIRE_NAME_LEN"

definition labels_len :: "bytes list \<Rightarrow> nat" where
  "labels_len ls = sum_list (map (\<lambda>l. length l + 1) ls)"

definition labels_wire :: "bytes list \<Rightarrow> bytes" where
  "labels_wire ls = concat (map (\<lambda>l. of_nat (length l) # l) ls)"

definition name_wire :: "dns_name \<Rightarrow> bytes" where
  "name_wire n = labels_wire (labels n) @ [0]"

lemma labels_len_simps [simp]:
  "labels_len [] = 0"
  "labels_len (l # ls) = Suc (length l + labels_len ls)"
  "labels_len (ls @ ls') = labels_len ls + labels_len ls'"
  by (simp_all add: labels_len_def)

lemma labels_wire_simps [simp]:
  "labels_wire [] = []"
  "labels_wire (l # ls) = of_nat (length l) # l @ labels_wire ls"
  by (simp_all add: labels_wire_def)

lemma length_labels_wire [simp, wire_len]: "length (labels_wire ls) = labels_len ls"
  by (induction ls) auto

lemma name_wire_len_eq: "name_wire_len n = Suc (labels_len (labels n))"
proof -
  have "foldl (\<lambda>len label. len + length label + 1) k ls = k + labels_len ls" for k ls
    by (induction ls arbitrary: k) auto
  then show ?thesis by (simp add: name_wire_len_def)
qed

lemma length_name_wire [simp, wire_len]: "length (name_wire n) = name_wire_len n"
  by (simp add: name_wire_def name_wire_len_eq)

lemma to_ascii_lowercase_idem [simp]:
  "to_ascii_lowercase (to_ascii_lowercase b) = to_ascii_lowercase b"
proof (cases "65 \<le> b \<and> b \<le> 90")
  case True
  then have "unat b \<ge> 65" "unat b \<le> 90" by (simp_all add: word_le_nat_alt)
  then have "unat (b + 32) = unat b + 32" by (simp add: unat_word_ariths)
  with \<open>unat b \<ge> 65\<close> have "\<not> b + 32 \<le> 90" by (simp add: word_le_nat_alt)
  with True show ?thesis by (simp add: to_ascii_lowercase_def)
next
  case False
  then show ?thesis by (simp add: to_ascii_lowercase_def)
qed

lemma canonical_label_simps [simp]:
  "canonical_label (canonical_label l) = canonical_label l"
  "length (canonical_label l) = length l"
  "canonical_label l = [] \<longleftrightarrow> l = []"
  by (simp_all add: canonical_label_def)

lemma wf_label_canonical [simp]:
  "wf_label (canonical_label l) \<longleftrightarrow> l \<noteq> [] \<and> length l \<le> MAX_LABEL_LEN"
  by (simp add: wf_label_def)

lemma from_labels_loop_Inr:
  "from_labels_loop ls acc k = Inr n \<longleftrightarrow>
     n = Name (acc @ map canonical_label ls) \<and>
     (\<forall>l \<in> set ls. l \<noteq> [] \<and> length l \<le> MAX_LABEL_LEN) \<and>
     (ls = [] \<or> k + labels_len ls \<le> MAX_WIRE_NAME_LEN)"
proof (induction ls arbitrary: acc k)
  case Nil
  then show ?case by auto
next
  case (Cons l ls)
  show ?case
    by (auto simp: result_inv Cons.IH usize_max_def MAX_WIRE_NAME_LEN_def)
qed

lemma from_labels_Inr:
  "from_labels ls = Inr n \<longleftrightarrow>
     n = Name (map canonical_label ls) \<and> wf_name n"
proof -
  have "labels_len (map canonical_label ls) = labels_len ls"
    by (simp add: labels_len_def comp_def)
  then show ?thesis
    by (auto simp: from_labels_def from_labels_loop_Inr wf_name_def name_wire_len_eq list_all_iff
        MAX_WIRE_NAME_LEN_def)
qed

lemma encode_labels_eq:
  "list_all (\<lambda>l. length l \<le> MAX_LABEL_LEN) ls \<Longrightarrow> encode_labels ls out = Inr (out @ labels_wire ls)"
  by (induction ls arbitrary: out) (auto simp: MAX_LABEL_LEN_def)

lemma name_encode_wf:
  "wf_name n \<Longrightarrow> name_encode n out = Inr (out @ name_wire n)"
  by (simp add: wf_name_def name_encode_def encode_labels_eq name_wire_def wf_label_def
      list_all_iff)

section \<open>Decoding: round trip, bounds, absence of overflow\<close>

lemma small_label_byte:
  assumes "k \<le> MAX_LABEL_LEN"
  shows "(of_nat k :: u8) AND 0xc0 = 0" and "unat (of_nat k :: u8) = k"
proof -
  have "list_all (\<lambda>k. (of_nat k :: u8) AND 0xc0 = 0) [0..<64]" by code_simp
  then show "(of_nat k :: u8) AND 0xc0 = 0"
    using assms by (auto simp: list_all_iff MAX_LABEL_LEN_def)
  show "unat (of_nat k :: u8) = k"
    using assms by (simp add: MAX_LABEL_LEN_def unat_of_nat)
qed

lemma of_nat_label_eq_0:
  "k \<le> MAX_LABEL_LEN \<Longrightarrow> (of_nat k :: u8) = 0 \<longleftrightarrow> k = 0"
  using small_label_byte(2) [of k] by (simp only: word_unat_eq_iff) simp

lemma decode_name_loop_labels:
  assumes "length visited = length message"
    and "message = pre @ labels_wire ls @ 0 # post"
    and "\<forall>i. length pre \<le> i \<longrightarrow> i < length message \<longrightarrow> \<not> visited ! i"
    and "list_all wf_label ls"
    and "length pre + labels_len ls \<le> ce"
    and "length message \<le> usize_max"
    and "expanded_len + labels_len ls \<le> MAX_WIRE_NAME_LEN"
    and "length acc + length ls \<le> max_labels_per_name limits"
  shows "decode_name_loop message ce limits acc (length pre) None jumps expanded_len visited =
    Inr (Name (acc @ ls), length pre + labels_len ls + 1)"
  using assms
proof (induction ls arbitrary: pre acc expanded_len visited)
  case Nil
  then show ?case
    by (subst decode_name_loop.simps) auto
next
  case (Cons l ls)
  let ?pre = "pre @ of_nat (length l) # l"
  let ?visited = "visited[length pre := True]"
  from Cons.prems(4) have l: "l \<noteq> []" "length l \<le> MAX_LABEL_LEN" "canonical_label l = l"
    by (auto simp: wf_label_def)
  have range: "slice_range message (length pre + 1) (length pre + 1 + length l) = Some l"
    using Cons.prems(2) slice_range_append [of "length pre + 1" "pre @ [of_nat (length l)]" _ l]
    by simp
  have IH: "decode_name_loop message ce limits (acc @ [l]) (length ?pre) None jumps
      (expanded_len + (length l + 1)) ?visited =
      Inr (Name ((acc @ [l]) @ ls), length ?pre + labels_len ls + 1)"
    by (rule Cons.IH) (use Cons.prems in auto)
  show ?case
    using Cons.prems IH range l
    by (subst decode_name_loop.simps)
      (simp add: small_label_byte of_nat_label_eq_0 MAX_WIRE_NAME_LEN_def usize_max_def nth_append)
qed
lemma decode_name_wire:
  assumes "wf_name n" and "message = pre @ name_wire n @ post"
    and "length message \<le> usize_max"
    and "length (labels n) \<le> max_labels_per_name limits"
    and "length pre + name_wire_len n \<le> ce" and "ce \<le> length message"
  shows "decode_name message (length pre) ce limits = Inr (n, length pre + name_wire_len n)"
proof -
  have "decode_name_loop message ce limits [] (length pre) None 0 1 (replicate (length message) False)
    = Inr (Name ([] @ labels n), length pre + labels_len (labels n) + 1)"
    by (rule decode_name_loop_labels)
      (use assms in \<open>auto simp: name_wire_def wf_name_def name_wire_len_eq simp del: replicate.simps\<close>)
  moreover have "length pre < ce" using assms by (simp add: name_wire_len_eq)
  ultimately show ?thesis
    using assms by (simp add: decode_name_def name_wire_len_eq)
qed

definition pointer_at :: "bytes \<Rightarrow> usize \<Rightarrow> usize" where
  "pointer_at m c = push_bit 8 (unat (m ! c AND 0x3f)) OR unat (m ! (c + 1))"

lemma decode_name_loop_cases:
  assumes "decode_name_loop message ce limits ls cursor consumed jumps expanded visited = Inr (n, next)"
  obtains
    (pointer) "cursor < length visited" "\<not> visited ! cursor" "message ! cursor AND 0xc0 = 0xc0"
      "cursor + 2 \<le> length message" "consumed = None \<Longrightarrow> cursor + 2 \<le> ce"
      "pointer_at message cursor < cursor" "jumps < max_compression_jumps limits"
      "decode_name_loop message ce limits ls (pointer_at message cursor)
         (if consumed = None then Some (cursor + 2) else consumed)
         (jumps + 1) expanded (visited[cursor := True]) = Inr (n, next)"
  | (root) "cursor < length visited" "cursor < length message" "message ! cursor = 0" "n = Name ls"
      "next = (case consumed of Some e \<Rightarrow> e | None \<Rightarrow> cursor + 1)"
  | (label) label where "cursor < length visited" "\<not> visited ! cursor" "label \<noteq> []"
      "message ! cursor \<noteq> 0" "message ! cursor AND 0xc0 = 0" "unat (message ! cursor) = length label"
      "take (length label) (drop (cursor + 1) message) = label" "length label \<le> MAX_LABEL_LEN"
      "cursor + 1 + length label \<le> length message"
      "consumed = None \<Longrightarrow> cursor + 1 + length label \<le> ce"
      "expanded + (length label + 1) \<le> MAX_WIRE_NAME_LEN" "length ls < max_labels_per_name limits"
      "decode_name_loop message ce limits (ls @ [canonical_label label]) (cursor + 1 + length label)
         consumed jumps (expanded + (length label + 1)) (visited[cursor := True]) = Inr (n, next)"
proof -
  have len: "slice_range message a (a + unat len) = Some xs \<Longrightarrow> len \<noteq> 0 \<Longrightarrow>
      length xs = unat len \<and> xs \<noteq> [] \<and> a + unat len \<le> length message \<and>
      take (length xs) (drop a message) = xs"
    for a xs and len :: u8
    using unat_gt_0 [of len] by (auto simp: slice_range_eq_Some)
  let ?len = "message ! cursor"
  let ?p = "pointer_at message cursor"
  note eq = assms [unfolded decode_name_loop.simps [of message ce limits ls cursor]]
  from eq have c: "cursor < length visited" "\<not> visited ! cursor" "cursor < length message"
    by (auto simp: result_inv split: if_splits)
  show thesis
  proof (cases "?len AND 0xc0 = 0xc0")
    case True
    with eq c have p: "cursor + 2 \<le> length message" "consumed = None \<Longrightarrow> cursor + 2 \<le> ce"
      "?p < cursor" "jumps < max_compression_jumps limits"
      and loop: "decode_name_loop message ce limits ls ?p
         (if consumed = None then Some (cursor + 2) else consumed)
         (jumps + 1) expanded (visited[cursor := True]) = Inr (n, next)"
      by (auto simp: result_inv Let_def pointer_at_def split: if_splits)
    show thesis by (rule pointer [OF c(1,2) True p loop])
  next
    case False
    with eq c have z: "?len AND 0xc0 = 0" by (auto simp: result_inv split: if_splits)
    show thesis
    proof (cases "?len = 0")
      case True
      with eq c z have n: "n = Name ls" "next = (case consumed of Some e \<Rightarrow> e | None \<Rightarrow> cursor + 1)"
        by (auto simp: result_inv split: if_splits option.splits)
      then show thesis using c True root by blast
    next
      case nz: False
      with eq c z False obtain l where l: "slice_range message (cursor + 1) (cursor + 1 + unat ?len) = Some l"
        and le: "unat ?len \<le> MAX_LABEL_LEN" "consumed = None \<Longrightarrow> cursor + 1 + unat ?len \<le> ce"
          "expanded + (unat ?len + 1) \<le> MAX_WIRE_NAME_LEN" "length ls < max_labels_per_name limits"
        and loop: "decode_name_loop message ce limits (ls @ [canonical_label l]) (cursor + 1 + unat ?len)
           consumed jumps (expanded + (unat ?len + 1)) (visited[cursor := True]) = Inr (n, next)"
        by (auto simp: result_inv split: if_splits)
      from len [OF l nz] have "length l = unat ?len" "l \<noteq> []" "cursor + 1 + unat ?len \<le> length message"
        and "take (length l) (drop (cursor + 1) message) = l" by blast+
      then show thesis using c z nz le loop label [of l] by simp
    qed
  qed
qed

lemma decode_name_loop_Inr:
  assumes "decode_name_loop message ce limits ls cursor consumed jumps expanded visited = Inr (n, next)"
    and "length visited = length message" 
    and "list_all wf_label ls" and "expanded = Suc (labels_len ls)" and "expanded \<le> MAX_WIRE_NAME_LEN"
    and "length ls \<le> max_labels_per_name limits"
  shows "wf_name n \<and> length (labels n) \<le> max_labels_per_name limits \<and>
    (case consumed of Some e \<Rightarrow> next = e | None \<Rightarrow> cursor < next \<and> next \<le> length message \<and>
       (cursor \<le> ce \<longrightarrow> next \<le> Suc ce))"
  using assms
proof (induction "length (filter Not visited)" arbitrary: ls cursor consumed jumps expanded visited
    rule: less_induct)
  case less
  note IH = less.hyps and prems = less.prems
  from prems(1) show ?case
  proof (cases rule: decode_name_loop_cases)
    case pointer
    from IH [OF unvisited_decreases [OF pointer(1,2)] pointer(8)] prems pointer
    show ?thesis by (auto split: option.splits if_splits)
  next
    case root
    with prems show ?thesis by (auto simp: wf_name_def name_wire_len_eq split: option.splits)
  next
    case (label l)
    from IH [OF unvisited_decreases [OF label(1,2)] label(13)] prems label
    show ?thesis by (auto split: option.splits)
  qed
qed

lemma decode_name_Inr:
  assumes "decode_name message offset ce limits = Inr (n, next)"
  shows "wf_name n" and "length (labels n) \<le> max_labels_per_name limits"
    and "offset < next" and "next \<le> length message" and "next \<le> Suc ce"
  using assms decode_name_loop_Inr [of message ce limits "[]" offset None 0 1]
  by (auto simp: decode_name_def MAX_WIRE_NAME_LEN_def split: if_splits)

lemma unvisited_update:
  "i < length vs \<Longrightarrow> \<not> vs ! i \<Longrightarrow>
   Suc (length (filter Not (vs[i := True]))) = length (filter Not vs)"
proof (induction vs arbitrary: i)
  case Nil
  then show ?case by simp
next
  case (Cons v vs)
  then show ?case by (cases i) auto
qed

lemma decode_name_loop_no_overflow:
  assumes "length visited = length message" and "length message \<le> U16_MAX"
    and "jumps + length (filter Not visited) \<le> length message"
    and "expanded \<le> MAX_WIRE_NAME_LEN"
  shows "decode_name_loop message ce limits ls cursor consumed jumps expanded visited
    \<noteq> Inl LengthOverflow"
  using assms
proof (induction "length (filter Not visited)" arbitrary: ls cursor consumed jumps expanded visited
    rule: less_induct)
  case less
  show ?case
  proof
    assume "decode_name_loop message ce limits ls cursor consumed jumps expanded visited
      = Inl LengthOverflow"
    note eq = this [unfolded decode_name_loop.simps [of message ce limits ls cursor]]
    then have c: "cursor < length visited" "\<not> visited ! cursor"
      by (auto simp: result_inv rbind_eq_Inl split: if_splits)
    have IH: "decode_name_loop message ce limits ls' cur con j e (visited[cursor := True])
      \<noteq> Inl LengthOverflow" if "j \<le> Suc jumps" "e \<le> 255" for ls' cur con j e
      by (rule less.hyps [OF unvisited_decreases [OF c]])
        (use that less.prems unvisited_update [OF c] in \<open>auto simp: MAX_WIRE_NAME_LEN_def\<close>)
    have "cursor < U16_MAX" using c less.prems by simp
    then show False
      using eq less.prems
      by (auto simp: result_inv rbind_eq_Inl Let_def U16_MAX_def MAX_WIRE_NAME_LEN_def usize_max_def
          MAX_LABEL_LEN_def IH split: if_splits)
  qed
qed

lemma decode_name_no_overflow:
  "length message \<le> U16_MAX \<Longrightarrow> decode_name message offset ce limits \<noteq> Inl LengthOverflow"
  by (auto simp: decode_name_def MAX_WIRE_NAME_LEN_def decode_name_loop_no_overflow)

section \<open>Presentation form\<close>

definition plain_byte :: "u8 \<Rightarrow> bool" where
  "plain_byte b \<longleftrightarrow> is_ascii_alphanumeric b \<or> b = 45 \<or> b = 95"

definition plain_name :: "dns_name \<Rightarrow> bool" where
  "plain_name n \<longleftrightarrow> list_all (list_all plain_byte) (labels n)"

lemma display_plain: "list_all plain_byte l \<Longrightarrow> concat (map display_byte l) = l"
  by (induction l) (auto simp: display_byte_def plain_byte_def)

lemma plain_no_dot: "list_all plain_byte l \<Longrightarrow> 46 \<notin> set l"
  by (auto simp: list_all_iff plain_byte_def is_ascii_alphanumeric_def)

lemma split_on_nonempty [simp]: "split_on d bs \<noteq> []"
  by (induction bs) (auto split: list.splits)

lemma split_on_plain: "d \<notin> set l \<Longrightarrow> split_on d l = [l]"
  by (induction l) auto

lemma split_on_append: "d \<notin> set l \<Longrightarrow> split_on d (l @ d # bs) = l # split_on d bs"
  by (induction l) auto

lemma split_display_labels:
  "ls \<noteq> [] \<Longrightarrow> list_all (list_all plain_byte) ls \<Longrightarrow> split_on 46 (display_labels ls) = ls"
  by (induction ls rule: display_labels.induct)
    (simp_all add: display_plain plain_no_dot split_on_plain split_on_append)

lemma display_labels_nonempty:
  "list_all (\<lambda>l. l \<noteq> []) ls \<Longrightarrow> list_all (list_all plain_byte) ls \<Longrightarrow> ls \<noteq> [] \<Longrightarrow>
   display_labels ls \<noteq> []"
  by (induction ls rule: display_labels.induct) (simp_all add: display_plain)

lemma from_ascii_display:
  assumes "wf_name n" and "plain_name n"
  shows "from_ascii (name_display n) = Inr n"
proof (cases "labels n = []")
  case True
  then have "n = root_name" by (cases n) (simp add: root_name_def)
  then show ?thesis by (simp add: from_ascii_def name_display_def strip_dot_def root_name_def)
next
  case False
  have canon: "map canonical_label (labels n) = labels n"
    using assms(1) by (induction "labels n") (auto simp: wf_name_def wf_label_def list_all_iff intro: map_idI)
  have "from_labels (labels n) = Inr n"
    using assms(1) canon by (cases n) (simp add: from_labels_Inr)
  moreover have "display_labels (labels n) \<noteq> []"
    using assms False by (intro display_labels_nonempty)
      (auto simp: plain_name_def wf_name_def wf_label_def list_all_iff)
  ultimately show ?thesis
    using assms False
    by (simp add: from_ascii_def name_display_def strip_dot_def plain_name_def split_display_labels)
qed
end
