(* ===== verification/Ip_Addr.thy ===== *)
theory Ip_Addr
  imports Prelude
begin

unbundle bit_operations_syntax

text \<open>
  The parts of \<open>std::net\<close> the sources use: addresses built from octets and read back as octets or,
  for IPv6, as eight 16-bit segments.
\<close>

datatype ipv4_addr = Ipv4Addr u8 u8 u8 u8

datatype ipv6_addr = Ipv6Addr u16 u16 u16 u16 u16 u16 u16 u16

datatype ip_addr = V4 ipv4_addr | V6 ipv6_addr

fun v4_octets :: "ipv4_addr \<Rightarrow> bytes" where
  "v4_octets (Ipv4Addr a b c d) = [a, b, c, d]"

fun v4_from_octets :: "bytes \<Rightarrow> ipv4_addr option" where
  "v4_from_octets [a, b, c, d] = Some (Ipv4Addr a b c d)"
| "v4_from_octets _ = None"

fun v6_segments :: "ipv6_addr \<Rightarrow> u16 list" where
  "v6_segments (Ipv6Addr a b c d e f g h) = [a, b, c, d, e, f, g, h]"

definition v6_octets :: "ipv6_addr \<Rightarrow> bytes" where
  "v6_octets a = concat (map (be_bytes 2) (v6_segments a))"

fun v6_from_octets :: "bytes \<Rightarrow> ipv6_addr option" where
  "v6_from_octets [a0, a1, b0, b1, c0, c1, d0, d1, e0, e1, f0, f1, g0, g1, h0, h1] =
     Some (Ipv6Addr (be_word [a0, a1]) (be_word [b0, b1]) (be_word [c0, c1]) (be_word [d0, d1])
                    (be_word [e0, e1]) (be_word [f0, f1]) (be_word [g0, g1]) (be_word [h0, h1]))"
| "v6_from_octets _ = None"

lemma v4_from_octets_octets [simp]: "v4_from_octets (v4_octets a) = Some a"
  by (cases a) simp

lemma v4_octets_from: "v4_from_octets bs = Some a \<Longrightarrow> v4_octets a = bs"
  by (induction bs rule: v4_from_octets.induct) auto

lemma be_bytes_2: "be_bytes 2 (w :: u16) = [ucast (drop_bit 8 w), ucast w]"
  by (simp add: be_bytes_def le_bytes_def numeral_2_eq_2)

lemma be_word_pair [simp]: "be_word [ucast (drop_bit 8 w), ucast w] = (w :: u16)"
  using be_word_widths(1) [of w] by (simp add: be_bytes_2)

lemma v6_from_octets_octets [simp]: "v6_from_octets (v6_octets a) = Some a"
  by (cases a) (simp add: v6_octets_def be_bytes_2)

lemma v6_octets_from: "v6_from_octets bs = Some a \<Longrightarrow> v6_octets a = bs"
  by (induction bs rule: v6_from_octets.induct)
    (auto simp: v6_octets_def be_bytes_be_word)

lemma length_octets [simp, wire_len]: "length (v4_octets a) = 4" "length (v6_octets b) = 16"
  by (cases a, simp) (cases b, simp add: v6_octets_def)

end
