(* ===== verification/Dns_Message.thy ===== *)
theory Dns_Message
  imports Dns_Name Ip_Addr
begin

unbundle bit_operations_syntax

text \<open>
  Messages of \<open>hns-dns-wire\<close> (src/crates/hns-dns-wire/src/lib.rs): flags, header, record types, typed
  RDATA, the bounded parser \<open>parse_with_limits\<close> and the uncompressed encoder.  Every \<open>fn\<close> of the
  source is one definition here; its loops are the \<open>_loop\<close> functions.  The encoders take the output
  buffer and return it extended.
\<close>

section \<open>Fields\<close>

definition be_u16 :: "bytes \<Rightarrow> usize \<Rightarrow> (wire_error, u16) result" where
  "be_u16 bs off =
     rbind (ok_or LengthOverflow (usize_add off 2)) (\<lambda>stop.
     rbind (ok_or UnexpectedEof (slice_range bs off stop)) (\<lambda>v. Inr (be_word v)))"

definition be_u32 :: "bytes \<Rightarrow> usize \<Rightarrow> (wire_error, u32) result" where
  "be_u32 bs off =
     rbind (ok_or LengthOverflow (usize_add off 4)) (\<lambda>stop.
     rbind (ok_or UnexpectedEof (slice_range bs off stop)) (\<lambda>v. Inr (be_word v)))"

definition write_u16 :: "bytes \<Rightarrow> u16 \<Rightarrow> bytes" where
  "write_u16 out v = out @ be_bytes 2 v"

definition write_u32 :: "bytes \<Rightarrow> u32 \<Rightarrow> bytes" where
  "write_u32 out v = out @ be_bytes 4 v"

definition write_count :: "bytes \<Rightarrow> usize \<Rightarrow> (wire_error, bytes) result" where
  "write_count out k = (if U16_MAX < k then Inl CountLimit else Inr (write_u16 out (of_nat k)))"

section \<open>Flags and header\<close>

datatype flags = Flags (bits: u16)

definition is_response :: "flags \<Rightarrow> bool" where
  "is_response f \<longleftrightarrow> bits f AND 0x8000 \<noteq> 0"

definition opcode :: "flags \<Rightarrow> u8" where
  "opcode f = ucast (drop_bit 11 (bits f) AND 0x0f)"

definition authoritative :: "flags \<Rightarrow> bool" where
  "authoritative f \<longleftrightarrow> bits f AND 0x0400 \<noteq> 0"

definition truncated :: "flags \<Rightarrow> bool" where
  "truncated f \<longleftrightarrow> bits f AND 0x0200 \<noteq> 0"

definition recursion_desired :: "flags \<Rightarrow> bool" where
  "recursion_desired f \<longleftrightarrow> bits f AND 0x0100 \<noteq> 0"

definition recursion_available :: "flags \<Rightarrow> bool" where
  "recursion_available f \<longleftrightarrow> bits f AND 0x0080 \<noteq> 0"

definition authenticated_data_claim :: "flags \<Rightarrow> bool" where
  "authenticated_data_claim f \<longleftrightarrow> bits f AND 0x0020 \<noteq> 0"

definition rcode :: "flags \<Rightarrow> u8" where
  "rcode f = ucast (bits f AND 0x000f)"

record header =
  hdr_id :: u16
  hdr_flags :: flags
  question_count :: u16
  answer_count :: u16
  authority_count :: u16
  additional_count :: u16

definition header_parse :: "bytes \<Rightarrow> (wire_error, header) result" where
  "header_parse message =
     rbind (ok_or UnexpectedEof (slice_range message 0 12)) (\<lambda>bs.
     rbind (be_u16 bs 0) (\<lambda>ident.
     rbind (be_u16 bs 2) (\<lambda>fl.
     rbind (be_u16 bs 4) (\<lambda>qd.
     rbind (be_u16 bs 6) (\<lambda>an.
     rbind (be_u16 bs 8) (\<lambda>ns.
     rbind (be_u16 bs 10) (\<lambda>ar.
     Inr \<lparr>hdr_id = ident, hdr_flags = Flags fl, question_count = qd, answer_count = an,
          authority_count = ns, additional_count = ar\<rparr>)))))))"

section \<open>Record types\<close>

datatype record_type =
  RtA | RtNs | RtCname | RtSoa | RtMx | RtTxt | RtAaaa | RtSrv | RtDs | RtOpt | RtRrsig | RtNsec
| RtDnskey | RtNsec3 | RtTlsa | RtSvcb | RtHttps | RtUnknown u16

definition from_code :: "u16 \<Rightarrow> record_type" where
  "from_code c =
     (if c = 1 then RtA else if c = 2 then RtNs else if c = 5 then RtCname else if c = 6 then RtSoa
      else if c = 15 then RtMx else if c = 16 then RtTxt else if c = 28 then RtAaaa
      else if c = 33 then RtSrv else if c = 41 then RtOpt else if c = 43 then RtDs
      else if c = 46 then RtRrsig else if c = 47 then RtNsec else if c = 48 then RtDnskey
      else if c = 50 then RtNsec3 else if c = 52 then RtTlsa else if c = 64 then RtSvcb
      else if c = 65 then RtHttps else RtUnknown c)"

fun code :: "record_type \<Rightarrow> u16" where
  "code RtA = 1" | "code RtNs = 2" | "code RtCname = 5" | "code RtSoa = 6" | "code RtMx = 15"
| "code RtTxt = 16" | "code RtAaaa = 28" | "code RtSrv = 33" | "code RtOpt = 41" | "code RtDs = 43"
| "code RtRrsig = 46" | "code RtNsec = 47" | "code RtDnskey = 48" | "code RtNsec3 = 50"
| "code RtTlsa = 52" | "code RtSvcb = 64" | "code RtHttps = 65" | "code (RtUnknown v) = v"

section \<open>Typed record data\<close>

record question =
  q_name :: dns_name
  q_type :: record_type
  q_class :: u16

record soa =
  soa_mname :: dns_name
  soa_rname :: dns_name
  soa_serial :: u32
  soa_refresh :: u32
  soa_retry :: u32
  soa_expire :: u32
  soa_minimum :: u32

record mx =
  mx_preference :: u16
  mx_exchange :: dns_name

record srv =
  srv_priority :: u16
  srv_weight :: u16
  srv_port :: u16
  srv_target :: dns_name

record ds =
  ds_key_tag :: u16
  ds_algorithm :: u8
  ds_digest_type :: u8
  ds_digest :: bytes

record dnskey =
  dk_flags :: u16
  dk_protocol :: u8
  dk_algorithm :: u8
  dk_public_key :: bytes

record rrsig =
  rs_type_covered :: record_type
  rs_algorithm :: u8
  rs_labels :: u8
  rs_original_ttl :: u32
  rs_expiration :: u32
  rs_inception :: u32
  rs_key_tag :: u16
  rs_signer :: dns_name
  rs_signature :: bytes

record nsec =
  ns_next_domain :: dns_name
  ns_type_bitmaps :: bytes

record nsec3 =
  n3_hash_algorithm :: u8
  n3_flags :: u8
  n3_iterations :: u16
  n3_salt :: bytes
  n3_next_hashed_owner :: bytes
  n3_type_bitmaps :: bytes

record tlsa =
  tlsa_usage :: u8
  tlsa_selector :: u8
  tlsa_matching_type :: u8
  tlsa_association_data :: bytes

record edns_option =
  opt_code :: u16
  opt_data :: bytes

datatype rdata =
  RdA ipv4_addr | RdAaaa ipv6_addr | RdNs dns_name | RdCname dns_name | RdSoa soa | RdMx mx
| RdTxt "bytes list" | RdSrv srv | RdDs ds | RdDnskey dnskey | RdRrsig rrsig | RdNsec nsec
| RdNsec3 nsec3 | RdTlsa tlsa | RdOpt "edns_option list" | RdOpaque bytes

record resource_record =
  rr_name :: dns_name
  rr_type :: record_type
  rr_class :: u16
  rr_ttl :: u32
  rr_rdata :: rdata

record message =
  m_header :: header
  m_questions :: "question list"
  m_answers :: "resource_record list"
  m_authorities :: "resource_record list"
  m_additionals :: "resource_record list"

section \<open>RDATA parsers\<close>

function bitmaps_loop :: "bytes \<Rightarrow> usize \<Rightarrow> u8 option \<Rightarrow> usize \<Rightarrow> (wire_error, usize) result" where
  "bitmaps_loop raw cursor previous_window block_count =
     (if cursor < length raw then
        rbind (ok_or InvalidRdata (slice_get raw cursor)) (\<lambda>window.
        rbind (ok_or InvalidRdata (slice_get raw (cursor + 1))) (\<lambda>len.
        let bitmap_len = unat len in
        if \<not> (1 \<le> bitmap_len \<and> bitmap_len \<le> 32) \<or>
           (case previous_window of None \<Rightarrow> False | Some previous \<Rightarrow> window \<le> previous)
        then Inl InvalidRdata
        else rbind (ok_or LengthOverflow
                (Option.bind (usize_add cursor 2) (\<lambda>v. usize_add v bitmap_len))) (\<lambda>cursor'.
        if length raw < cursor' then Inl InvalidRdata
        else rbind (ok_or LengthOverflow (usize_add block_count 1)) (\<lambda>block_count'.
        if 256 < block_count' then Inl InvalidRdata
        else bitmaps_loop raw cursor' (Some window) block_count'))))
      else Inr block_count)"
  by pat_completeness auto
termination
  by (relation "measure (\<lambda>(raw, cursor, p, k). length raw - cursor)")
    (auto simp: result_inv Option.bind_eq_Some_conv)

definition validate_type_bitmaps :: "bytes \<Rightarrow> (wire_error, unit) result" where
  "validate_type_bitmaps raw =
     rbind (bitmaps_loop raw 0 None 0) (\<lambda>block_count.
     if block_count = 0 then Inl InvalidRdata else Inr ())"

definition parse_soa ::
  "bytes \<Rightarrow> usize \<Rightarrow> usize \<Rightarrow> parse_limits \<Rightarrow> (wire_error, soa) result" where
  "parse_soa message start stop limits =
     rbind (decode_name message start stop limits) (\<lambda>(mname, next).
     rbind (decode_name message next stop limits) (\<lambda>(rname, next).
     rbind (ok_or LengthOverflow (usize_add next 20)) (\<lambda>fixed_end.
     rbind (ok_or InvalidRdata (slice_range message next fixed_end)) (\<lambda>fixed.
     if fixed_end \<noteq> stop then Inl InvalidRdata
     else rbind (be_u32 fixed 0) (\<lambda>serial.
     rbind (be_u32 fixed 4) (\<lambda>refresh.
     rbind (be_u32 fixed 8) (\<lambda>retry.
     rbind (be_u32 fixed 12) (\<lambda>expire.
     rbind (be_u32 fixed 16) (\<lambda>minimum.
     Inr \<lparr>soa_mname = mname, soa_rname = rname, soa_serial = serial, soa_refresh = refresh,
          soa_retry = retry, soa_expire = expire, soa_minimum = minimum\<rparr>)))))))))"

definition parse_mx :: "bytes \<Rightarrow> usize \<Rightarrow> usize \<Rightarrow> parse_limits \<Rightarrow> (wire_error, mx) result" where
  "parse_mx message start stop limits =
     rbind (ok_or InvalidRdata (slice_range message start stop)) (\<lambda>raw.
     rbind (be_u16 raw 0) (\<lambda>preference.
     rbind (ok_or LengthOverflow (usize_add start 2)) (\<lambda>name_start.
     rbind (decode_name message name_start stop limits) (\<lambda>(exchange, next).
     if next \<noteq> stop then Inl InvalidRdata
     else Inr \<lparr>mx_preference = preference, mx_exchange = exchange\<rparr>))))"

function txt_loop :: "bytes \<Rightarrow> usize \<Rightarrow> bytes list \<Rightarrow> (wire_error, bytes list) result" where
  "txt_loop raw cursor strings =
     (if cursor < length raw then
        rbind (ok_or InvalidRdata (slice_get raw cursor)) (\<lambda>len.
        rbind (ok_or LengthOverflow (usize_add cursor 1)) (\<lambda>cursor'.
        rbind (ok_or LengthOverflow (usize_add cursor' (unat len))) (\<lambda>stop.
        rbind (ok_or InvalidRdata (slice_range raw cursor' stop)) (\<lambda>str.
        txt_loop raw stop (strings @ [str])))))
      else Inr strings)"
  by pat_completeness auto
termination
  by (relation "measure (\<lambda>(raw, cursor, s). length raw - cursor)") (auto simp: result_inv)

definition parse_txt :: "bytes \<Rightarrow> (wire_error, bytes list) result" where
  "parse_txt raw =
     rbind (txt_loop raw 0 []) (\<lambda>strings. if strings = [] then Inl InvalidRdata else Inr strings)"

definition parse_srv :: "bytes \<Rightarrow> usize \<Rightarrow> usize \<Rightarrow> parse_limits \<Rightarrow> (wire_error, srv) result" where
  "parse_srv message start stop limits =
     rbind (ok_or InvalidRdata (slice_range message start stop)) (\<lambda>raw.
     rbind (ok_or LengthOverflow (usize_add start 6)) (\<lambda>target_start.
     rbind (decode_name message target_start stop limits) (\<lambda>(target, next).
     if next \<noteq> stop then Inl InvalidRdata
     else rbind (be_u16 raw 0) (\<lambda>priority.
     rbind (be_u16 raw 2) (\<lambda>weight.
     rbind (be_u16 raw 4) (\<lambda>port.
     Inr \<lparr>srv_priority = priority, srv_weight = weight, srv_port = port, srv_target = target\<rparr>))))))"

definition parse_ds :: "bytes \<Rightarrow> (wire_error, ds) result" where
  "parse_ds raw =
     (if length raw < 5 then Inl InvalidRdata
      else rbind (be_u16 raw 0) (\<lambda>key_tag.
      rbind (ok_or InvalidRdata (slice_get raw 2)) (\<lambda>algorithm.
      rbind (ok_or InvalidRdata (slice_get raw 3)) (\<lambda>digest_type.
      rbind (ok_or InvalidRdata (slice_from raw 4)) (\<lambda>digest.
      Inr \<lparr>ds_key_tag = key_tag, ds_algorithm = algorithm, ds_digest_type = digest_type,
           ds_digest = digest\<rparr>)))))"

definition parse_dnskey :: "bytes \<Rightarrow> (wire_error, dnskey) result" where
  "parse_dnskey raw =
     (if length raw < 5 then Inl InvalidRdata
      else rbind (be_u16 raw 0) (\<lambda>fl.
      rbind (ok_or InvalidRdata (slice_get raw 2)) (\<lambda>protocol.
      rbind (ok_or InvalidRdata (slice_get raw 3)) (\<lambda>algorithm.
      rbind (ok_or InvalidRdata (slice_from raw 4)) (\<lambda>public_key.
      Inr \<lparr>dk_flags = fl, dk_protocol = protocol, dk_algorithm = algorithm,
           dk_public_key = public_key\<rparr>)))))"

definition parse_rrsig ::
  "bytes \<Rightarrow> usize \<Rightarrow> usize \<Rightarrow> parse_limits \<Rightarrow> (wire_error, rrsig) result" where
  "parse_rrsig message start stop limits =
     rbind (ok_or LengthOverflow (usize_add start 18)) (\<lambda>fixed_end.
     rbind (ok_or InvalidRdata (slice_range message start fixed_end)) (\<lambda>fixed.
     rbind (decode_name message fixed_end stop limits) (\<lambda>(signer, next).
     rbind (ok_or InvalidRdata (slice_range message next stop)) (\<lambda>signature.
     if signature = [] then Inl InvalidRdata
     else rbind (be_u16 fixed 0) (\<lambda>type_covered.
     rbind (ok_or InvalidRdata (slice_get fixed 2)) (\<lambda>algorithm.
     rbind (ok_or InvalidRdata (slice_get fixed 3)) (\<lambda>lab.
     rbind (be_u32 fixed 4) (\<lambda>original_ttl.
     rbind (be_u32 fixed 8) (\<lambda>expiration.
     rbind (be_u32 fixed 12) (\<lambda>inception.
     rbind (be_u16 fixed 16) (\<lambda>key_tag.
     Inr \<lparr>rs_type_covered = from_code type_covered, rs_algorithm = algorithm, rs_labels = lab,
          rs_original_ttl = original_ttl, rs_expiration = expiration, rs_inception = inception,
          rs_key_tag = key_tag, rs_signer = signer, rs_signature = signature\<rparr>)))))))))))"

definition parse_nsec ::
  "bytes \<Rightarrow> usize \<Rightarrow> usize \<Rightarrow> parse_limits \<Rightarrow> (wire_error, nsec) result" where
  "parse_nsec message start stop limits =
     rbind (decode_name message start stop limits) (\<lambda>(next_domain, next).
     rbind (ok_or InvalidRdata (slice_range message next stop)) (\<lambda>bitmap.
     rbind (validate_type_bitmaps bitmap) (\<lambda>_.
     Inr \<lparr>ns_next_domain = next_domain, ns_type_bitmaps = bitmap\<rparr>)))"

definition parse_nsec3 :: "bytes \<Rightarrow> (wire_error, nsec3) result" where
  "parse_nsec3 raw =
     (if length raw < 6 then Inl InvalidRdata
      else rbind (ok_or InvalidRdata (slice_get raw 4)) (\<lambda>salt_len.
      rbind (ok_or LengthOverflow (usize_add 5 (unat salt_len))) (\<lambda>salt_end.
      rbind (ok_or InvalidRdata (slice_get raw salt_end)) (\<lambda>hash_len.
      if unat hash_len = 0 then Inl InvalidRdata
      else rbind (ok_or LengthOverflow (usize_add salt_end 1)) (\<lambda>hash_start.
      rbind (ok_or LengthOverflow (usize_add hash_start (unat hash_len))) (\<lambda>hash_end.
      rbind (ok_or InvalidRdata (slice_from raw hash_end)) (\<lambda>bitmap.
      rbind (validate_type_bitmaps bitmap) (\<lambda>_.
      rbind (ok_or InvalidRdata (slice_get raw 0)) (\<lambda>hash_algorithm.
      rbind (ok_or InvalidRdata (slice_get raw 1)) (\<lambda>fl.
      rbind (be_u16 raw 2) (\<lambda>iterations.
      rbind (ok_or InvalidRdata (slice_range raw 5 salt_end)) (\<lambda>salt.
      rbind (ok_or InvalidRdata (slice_range raw hash_start hash_end)) (\<lambda>next_hashed_owner.
      Inr \<lparr>n3_hash_algorithm = hash_algorithm, n3_flags = fl, n3_iterations = iterations,
           n3_salt = salt, n3_next_hashed_owner = next_hashed_owner,
           n3_type_bitmaps = bitmap\<rparr>)))))))))))))"

definition parse_tlsa :: "bytes \<Rightarrow> (wire_error, tlsa) result" where
  "parse_tlsa raw =
     (if length raw < 4 then Inl InvalidRdata
      else rbind (ok_or InvalidRdata (slice_get raw 0)) (\<lambda>usage.
      rbind (ok_or InvalidRdata (slice_get raw 1)) (\<lambda>selector.
      rbind (ok_or InvalidRdata (slice_get raw 2)) (\<lambda>matching_type.
      rbind (ok_or InvalidRdata (slice_from raw 3)) (\<lambda>association_data.
      Inr \<lparr>tlsa_usage = usage, tlsa_selector = selector, tlsa_matching_type = matching_type,
           tlsa_association_data = association_data\<rparr>)))))"

function edns_loop :: "bytes \<Rightarrow> usize \<Rightarrow> edns_option list \<Rightarrow> (wire_error, edns_option list) result" where
  "edns_loop raw cursor options =
     (if cursor < length raw then
        rbind (ok_or LengthOverflow (usize_add cursor 4)) (\<lambda>header_end.
        rbind (ok_or InvalidEdns (slice_range raw cursor header_end)) (\<lambda>hdr.
        rbind (map_err (\<lambda>_. InvalidEdns) (be_u16 hdr 0)) (\<lambda>c.
        rbind (map_err (\<lambda>_. InvalidEdns) (be_u16 hdr 2)) (\<lambda>len.
        rbind (ok_or LengthOverflow (usize_add header_end (unat len))) (\<lambda>data_end.
        rbind (ok_or InvalidEdns (slice_range raw header_end data_end)) (\<lambda>data.
        edns_loop raw data_end (options @ [\<lparr>opt_code = c, opt_data = data\<rparr>])))))))
      else Inr options)"
  by pat_completeness auto
termination
  by (relation "measure (\<lambda>(raw, cursor, s). length raw - cursor)") (auto simp: result_inv)

definition parse_edns :: "bytes \<Rightarrow> (wire_error, edns_option list) result" where
  "parse_edns raw = edns_loop raw 0 []"

declare bitmaps_loop.simps [simp del] txt_loop.simps [simp del] edns_loop.simps [simp del]

definition rmap :: "('a \<Rightarrow> 'b) \<Rightarrow> ('e, 'a) result \<Rightarrow> ('e, 'b) result" where
  "rmap f m = rbind m (\<lambda>x. Inr (f x))"

definition parse_rdata ::
  "bytes \<Rightarrow> usize \<Rightarrow> usize \<Rightarrow> record_type \<Rightarrow> parse_limits \<Rightarrow> (wire_error, rdata) result" where
  "parse_rdata message start stop ty limits =
     rbind (ok_or UnexpectedEof (slice_range message start stop)) (\<lambda>raw.
     case ty of
       RtA \<Rightarrow> rmap RdA (ok_or InvalidRdata (v4_from_octets raw))
     | RtAaaa \<Rightarrow> rmap RdAaaa (ok_or InvalidRdata (v6_from_octets raw))
     | RtNs \<Rightarrow> rbind (decode_name message start stop limits) (\<lambda>(n, next).
         if next \<noteq> stop then Inl InvalidRdata else Inr (RdNs n))
     | RtCname \<Rightarrow> rbind (decode_name message start stop limits) (\<lambda>(n, next).
         if next \<noteq> stop then Inl InvalidRdata else Inr (RdCname n))
     | RtSoa \<Rightarrow> rmap RdSoa (parse_soa message start stop limits)
     | RtMx \<Rightarrow> rmap RdMx (parse_mx message start stop limits)
     | RtTxt \<Rightarrow> rmap RdTxt (parse_txt raw)
     | RtSrv \<Rightarrow> rmap RdSrv (parse_srv message start stop limits)
     | RtDs \<Rightarrow> rmap RdDs (parse_ds raw)
     | RtDnskey \<Rightarrow> rmap RdDnskey (parse_dnskey raw)
     | RtRrsig \<Rightarrow> rmap RdRrsig (parse_rrsig message start stop limits)
     | RtNsec \<Rightarrow> rmap RdNsec (parse_nsec message start stop limits)
     | RtNsec3 \<Rightarrow> rmap RdNsec3 (parse_nsec3 raw)
     | RtTlsa \<Rightarrow> rmap RdTlsa (parse_tlsa raw)
     | RtOpt \<Rightarrow> rmap RdOpt (parse_edns raw)
     | RtSvcb \<Rightarrow> Inr (RdOpaque raw)
     | RtHttps \<Rightarrow> Inr (RdOpaque raw)
     | RtUnknown _ \<Rightarrow> Inr (RdOpaque raw))"

section \<open>Message parser\<close>

definition parse_question ::
  "bytes \<Rightarrow> usize \<Rightarrow> parse_limits \<Rightarrow> (wire_error, question \<times> usize) result" where
  "parse_question message off limits =
     rbind (decode_name message off (length message) limits) (\<lambda>(n, cursor).
     rbind (ok_or LengthOverflow (usize_add cursor 4)) (\<lambda>stop.
     rbind (ok_or UnexpectedEof (slice_range message cursor stop)) (\<lambda>fixed.
     rbind (be_u16 fixed 0) (\<lambda>ty.
     rbind (be_u16 fixed 2) (\<lambda>cl.
     Inr (\<lparr>q_name = n, q_type = from_code ty, q_class = cl\<rparr>, stop))))))"

definition parse_record ::
  "bytes \<Rightarrow> usize \<Rightarrow> parse_limits \<Rightarrow> (wire_error, resource_record \<times> usize) result" where
  "parse_record message off limits =
     rbind (decode_name message off (length message) limits) (\<lambda>(n, cursor).
     rbind (ok_or LengthOverflow (usize_add cursor 10)) (\<lambda>fixed_end.
     rbind (ok_or UnexpectedEof (slice_range message cursor fixed_end)) (\<lambda>fixed.
     rbind (be_u16 fixed 0) (\<lambda>ty.
     rbind (be_u16 fixed 2) (\<lambda>cl.
     rbind (be_u32 fixed 4) (\<lambda>ttl.
     rbind (be_u16 fixed 8) (\<lambda>len.
     let rdata_len = unat len in
     if max_rdata_len limits < rdata_len then Inl RdataLimit
     else rbind (ok_or LengthOverflow (usize_add fixed_end rdata_len)) (\<lambda>rdata_end.
     rbind (ok_or UnexpectedEof (slice_range message fixed_end rdata_end)) (\<lambda>_.
     rbind (parse_rdata message fixed_end rdata_end (from_code ty) limits) (\<lambda>rd.
     Inr (\<lparr>rr_name = n, rr_type = from_code ty, rr_class = cl, rr_ttl = ttl, rr_rdata = rd\<rparr>,
          rdata_end)))))))))))"

fun parse_questions ::
  "bytes \<Rightarrow> usize \<Rightarrow> nat \<Rightarrow> parse_limits \<Rightarrow> (wire_error, question list \<times> usize) result" where
  "parse_questions message cursor 0 limits = Inr ([], cursor)"
| "parse_questions message cursor (Suc k) limits =
     rbind (parse_question message cursor limits) (\<lambda>(q, next).
     rbind (parse_questions message next k limits) (\<lambda>(qs, next).
     Inr (q # qs, next)))"

fun parse_records ::
  "bytes \<Rightarrow> usize \<Rightarrow> nat \<Rightarrow> parse_limits \<Rightarrow> (wire_error, resource_record list \<times> usize) result" where
  "parse_records message cursor 0 limits = Inr ([], cursor)"
| "parse_records message cursor (Suc k) limits =
     rbind (parse_record message cursor limits) (\<lambda>(r, next).
     rbind (parse_records message next k limits) (\<lambda>(rs, next).
     Inr (r # rs, next)))"

fun opt_loop :: "resource_record list \<Rightarrow> usize \<Rightarrow> (wire_error, unit) result" where
  "opt_loop [] opt_count = Inr ()"
| "opt_loop (r # rs) opt_count =
     (if rr_type r = RtOpt then
        rbind (ok_or LengthOverflow (usize_add opt_count 1)) (\<lambda>opt_count'.
        if 1 < opt_count' \<or> \<not> is_root (rr_name r) then Inl InvalidEdns else opt_loop rs opt_count')
      else opt_loop rs opt_count)"

definition validate_pseudo_records :: "message \<Rightarrow> (wire_error, unit) result" where
  "validate_pseudo_records m =
     (if list_ex (\<lambda>r. rr_type r = RtOpt) (m_answers m @ m_authorities m) then Inl InvalidEdns
      else opt_loop (m_additionals m) 0)"

definition parse_with_limits :: "bytes \<Rightarrow> parse_limits \<Rightarrow> (wire_error, message) result" where
  "parse_with_limits message limits =
     (if max_message_len limits < length message \<or> U16_MAX < length message then Inl MessageTooLong
      else rbind (header_parse message) (\<lambda>hdr.
      if bits (hdr_flags hdr) AND 0x0040 \<noteq> 0 then Inl ReservedHeaderBits
      else if max_questions limits < unat (question_count hdr) then Inl CountLimit
      else rbind (ok_or LengthOverflow
             (Option.bind (usize_add (unat (answer_count hdr)) (unat (authority_count hdr)))
               (\<lambda>k. usize_add k (unat (additional_count hdr))))) (\<lambda>total_records.
      if max_records limits < total_records then Inl CountLimit
      else rbind (parse_questions message 12 (unat (question_count hdr)) limits) (\<lambda>(qs, cursor).
      rbind (parse_records message cursor (unat (answer_count hdr)) limits) (\<lambda>(an, next).
      rbind (parse_records message next (unat (authority_count hdr)) limits) (\<lambda>(ns, next).
      rbind (parse_records message next (unat (additional_count hdr)) limits) (\<lambda>(ar, next).
      if next \<noteq> length message then Inl TrailingBytes
      else let parsed = \<lparr>m_header = hdr, m_questions = qs, m_answers = an, m_authorities = ns,
                         m_additionals = ar\<rparr> in
      rbind (validate_pseudo_records parsed) (\<lambda>_. Inr parsed))))))))"

definition message_parse :: "bytes \<Rightarrow> (wire_error, message) result" where
  "message_parse message = parse_with_limits message browser_limits"

section \<open>Message encoder\<close>

fun encode_txt :: "bytes list \<Rightarrow> bytes \<Rightarrow> (wire_error, bytes) result" where
  "encode_txt [] out = Inr out"
| "encode_txt (str # rest) out =
     (if 255 < length str then Inl InvalidRdata
      else encode_txt rest (out @ of_nat (length str) # str))"

fun encode_options :: "edns_option list \<Rightarrow> bytes \<Rightarrow> (wire_error, bytes) result" where
  "encode_options [] out = Inr out"
| "encode_options (opt # rest) out =
     (if U16_MAX < length (opt_data opt) then Inl InvalidEdns
      else encode_options rest
        (write_u16 (write_u16 out (opt_code opt)) (of_nat (length (opt_data opt))) @ opt_data opt))"

definition encode_soa :: "soa \<Rightarrow> bytes \<Rightarrow> (wire_error, bytes) result" where
  "encode_soa s out =
     rbind (name_encode (soa_mname s) out) (\<lambda>out.
     rbind (name_encode (soa_rname s) out) (\<lambda>out.
     Inr (foldl write_u32 out
       [soa_serial s, soa_refresh s, soa_retry s, soa_expire s, soa_minimum s])))"

definition encode_rrsig :: "rrsig \<Rightarrow> bytes \<Rightarrow> (wire_error, bytes) result" where
  "encode_rrsig s out =
     (let out = write_u16 out (code (rs_type_covered s)) @ [rs_algorithm s, rs_labels s];
          out = foldl write_u32 out [rs_original_ttl s, rs_expiration s, rs_inception s];
          out = write_u16 out (rs_key_tag s)
      in rbind (name_encode (rs_signer s) out) (\<lambda>out. Inr (out @ rs_signature s)))"

definition encode_nsec3 :: "nsec3 \<Rightarrow> bytes \<Rightarrow> (wire_error, bytes) result" where
  "encode_nsec3 n out =
     (if 255 < length (n3_salt n) then Inl InvalidRdata
      else if 255 < length (n3_next_hashed_owner n) then Inl InvalidRdata
      else if length (n3_next_hashed_owner n) = 0 then Inl InvalidRdata
      else let out = write_u16 (out @ [n3_hash_algorithm n, n3_flags n]) (n3_iterations n);
               out = out @ of_nat (length (n3_salt n)) # n3_salt n;
               out = out @ of_nat (length (n3_next_hashed_owner n)) # n3_next_hashed_owner n
           in rbind (validate_type_bitmaps (n3_type_bitmaps n)) (\<lambda>_. Inr (out @ n3_type_bitmaps n)))"

text \<open>The source matches on the pair of type and data; every pair it does not list is a mismatch.\<close>

definition encode_rdata :: "record_type \<Rightarrow> rdata \<Rightarrow> bytes \<Rightarrow> (wire_error, bytes) result" where
  "encode_rdata ty rd out = (case ty of
     RtA \<Rightarrow> (case rd of RdA a \<Rightarrow> Inr (out @ v4_octets a) | _ \<Rightarrow> Inl TypeMismatch)
   | RtAaaa \<Rightarrow> (case rd of RdAaaa a \<Rightarrow> Inr (out @ v6_octets a) | _ \<Rightarrow> Inl TypeMismatch)
   | RtNs \<Rightarrow> (case rd of RdNs n \<Rightarrow> name_encode n out | _ \<Rightarrow> Inl TypeMismatch)
   | RtCname \<Rightarrow> (case rd of RdCname n \<Rightarrow> name_encode n out | _ \<Rightarrow> Inl TypeMismatch)
   | RtSoa \<Rightarrow> (case rd of RdSoa s \<Rightarrow> encode_soa s out | _ \<Rightarrow> Inl TypeMismatch)
   | RtMx \<Rightarrow> (case rd of
       RdMx m \<Rightarrow> name_encode (mx_exchange m) (write_u16 out (mx_preference m))
     | _ \<Rightarrow> Inl TypeMismatch)
   | RtTxt \<Rightarrow> (case rd of
       RdTxt strings \<Rightarrow> if strings = [] then Inl InvalidRdata else encode_txt strings out
     | _ \<Rightarrow> Inl TypeMismatch)
   | RtSrv \<Rightarrow> (case rd of
       RdSrv s \<Rightarrow> name_encode (srv_target s)
         (write_u16 (write_u16 (write_u16 out (srv_priority s)) (srv_weight s)) (srv_port s))
     | _ \<Rightarrow> Inl TypeMismatch)
   | RtDs \<Rightarrow> (case rd of
       RdDs d \<Rightarrow> Inr (write_u16 out (ds_key_tag d) @ [ds_algorithm d, ds_digest_type d] @ ds_digest d)
     | _ \<Rightarrow> Inl TypeMismatch)
   | RtDnskey \<Rightarrow> (case rd of
       RdDnskey k \<Rightarrow> Inr (write_u16 out (dk_flags k) @ [dk_protocol k, dk_algorithm k] @ dk_public_key k)
     | _ \<Rightarrow> Inl TypeMismatch)
   | RtRrsig \<Rightarrow> (case rd of RdRrsig s \<Rightarrow> encode_rrsig s out | _ \<Rightarrow> Inl TypeMismatch)
   | RtNsec \<Rightarrow> (case rd of
       RdNsec n \<Rightarrow> rbind (name_encode (ns_next_domain n) out) (\<lambda>out.
         rbind (validate_type_bitmaps (ns_type_bitmaps n)) (\<lambda>_. Inr (out @ ns_type_bitmaps n)))
     | _ \<Rightarrow> Inl TypeMismatch)
   | RtNsec3 \<Rightarrow> (case rd of RdNsec3 n \<Rightarrow> encode_nsec3 n out | _ \<Rightarrow> Inl TypeMismatch)
   | RtTlsa \<Rightarrow> (case rd of
       RdTlsa t \<Rightarrow>
         if tlsa_association_data t = [] then Inl InvalidRdata
         else Inr (out @ [tlsa_usage t, tlsa_selector t, tlsa_matching_type t]
                   @ tlsa_association_data t)
     | _ \<Rightarrow> Inl TypeMismatch)
   | RtOpt \<Rightarrow> (case rd of RdOpt options \<Rightarrow> encode_options options out | _ \<Rightarrow> Inl TypeMismatch)
   | RtSvcb \<Rightarrow> (case rd of RdOpaque bs \<Rightarrow> Inr (out @ bs) | _ \<Rightarrow> Inl TypeMismatch)
   | RtHttps \<Rightarrow> (case rd of RdOpaque bs \<Rightarrow> Inr (out @ bs) | _ \<Rightarrow> Inl TypeMismatch)
   | RtUnknown _ \<Rightarrow> (case rd of RdOpaque bs \<Rightarrow> Inr (out @ bs) | _ \<Rightarrow> Inl TypeMismatch))"

definition encode_question :: "question \<Rightarrow> bytes \<Rightarrow> (wire_error, bytes) result" where
  "encode_question q out =
     rbind (name_encode (q_name q) out) (\<lambda>out.
     Inr (write_u16 (write_u16 out (code (q_type q))) (q_class q)))"

definition encode_record :: "resource_record \<Rightarrow> bytes \<Rightarrow> (wire_error, bytes) result" where
  "encode_record r out =
     rbind (name_encode (rr_name r) out) (\<lambda>out.
     let out = write_u32 (write_u16 (write_u16 out (code (rr_type r))) (rr_class r)) (rr_ttl r) in
     rbind (encode_rdata (rr_type r) (rr_rdata r) []) (\<lambda>rd.
     if U16_MAX < length rd then Inl EncodeLimit
     else Inr (write_u16 out (of_nat (length rd)) @ rd)))"

fun encode_all :: "('a \<Rightarrow> bytes \<Rightarrow> (wire_error, bytes) result) \<Rightarrow> 'a list \<Rightarrow> bytes \<Rightarrow>
    (wire_error, bytes) result" where
  "encode_all f [] out = Inr out"
| "encode_all f (x # xs) out = rbind (f x out) (encode_all f xs)"

definition message_encode :: "message \<Rightarrow> usize \<Rightarrow> (wire_error, bytes) result" where
  "message_encode m limit =
     (let out = write_u16 (write_u16 [] (hdr_id (m_header m))) (bits (hdr_flags (m_header m))) in
      rbind (write_count out (length (m_questions m))) (\<lambda>out.
      rbind (write_count out (length (m_answers m))) (\<lambda>out.
      rbind (write_count out (length (m_authorities m))) (\<lambda>out.
      rbind (write_count out (length (m_additionals m))) (\<lambda>out.
      rbind (encode_all encode_question (m_questions m) out) (\<lambda>out.
      rbind (encode_all encode_record (m_answers m @ m_authorities m @ m_additionals m) out) (\<lambda>out.
      if limit < length out then Inl EncodeLimit else Inr out)))))))"

end
