(* ===== verification/Dns_Rdata.thy ===== *)
theory Dns_Rdata
  imports Dns_Message
begin

unbundle bit_operations_syntax

text \<open>
  Typed record data: the well-formedness \<open>wf_rdata\<close> of an RDATA value for its record type, and that
  every RDATA parser of \<open>Dns_Message\<close> reads back what the matching encoder wrote, wherever in the packet
  the bytes were placed.
\<close>

section \<open>Fixed-width fields of the wire format\<close>

lemma be_u16_eq:
  "off + 2 \<le> length bs \<Longrightarrow> off + 2 \<le> usize_max \<Longrightarrow> be_u16 bs off = Inr (be_word (take 2 (drop off bs)))"
  by (simp add: be_u16_def slice_range_def)

lemma be_u32_eq:
  "off + 4 \<le> length bs \<Longrightarrow> off + 4 \<le> usize_max \<Longrightarrow> be_u32 bs off = Inr (be_word (take 4 (drop off bs)))"
  by (simp add: be_u32_def slice_range_def)

interpretation be16: fixed_codec "be_bytes 2 :: u16 \<Rightarrow> bytes" be_u16 2
proof unfold_locales
  show "be_u16 bs off = Inr x \<Longrightarrow> off + 2 \<le> length bs" for bs off x
    by (auto simp: be_u16_def result_inv dest: slice_range_SomeD)
qed (auto simp: be_u16_eq)

interpretation be32: fixed_codec "be_bytes 4 :: u32 \<Rightarrow> bytes" be_u32 4
proof unfold_locales
  show "be_u32 bs off = Inr x \<Longrightarrow> off + 4 \<le> length bs" for bs off x
    by (auto simp: be_u32_def result_inv dest: slice_range_SomeD)
qed (auto simp: be_u32_eq)

lemma from_code_code [simp]: "code (from_code c) = c"
  by (simp add: from_code_def)

definition canonical_type :: "record_type \<Rightarrow> bool" where
  "canonical_type t \<longleftrightarrow> from_code (code t) = t"

lemma canonical_from_code [simp]: "canonical_type (from_code c)"
  by (simp add: canonical_type_def)

lemma canonical_type_iff:
  "canonical_type t \<longleftrightarrow> (\<forall>v. t = RtUnknown v \<longrightarrow>
     v \<notin> {1, 2, 5, 6, 15, 16, 28, 33, 41, 43, 46, 47, 48, 50, 52, 64, 65})"
  by (cases t) (auto simp: canonical_type_def from_code_def)

definition name_ok :: "parse_limits \<Rightarrow> dns_name \<Rightarrow> bool" where
  "name_ok limits n \<longleftrightarrow> wf_name n \<and> length (labels n) \<le> max_labels_per_name limits"

lemmas wire_defs = write_u16_def write_u32_def usize_max_def U16_MAX_def

lemma name_ok_encode [simp]: "name_ok limits n \<Longrightarrow> name_encode n out = Inr (out @ name_wire n)"
  by (simp add: name_ok_def name_encode_wf)

lemma name_ok_decode:
  assumes "name_ok limits n" and "message = pre @ name_wire n @ post" and "off = length pre"
    and "length message \<le> U16_MAX" and "off + name_wire_len n \<le> ce" and "ce \<le> length message"
  shows "decode_name message off ce limits = Inr (n, off + name_wire_len n)"
  using assms by (simp add: name_ok_def decode_name_wire usize_max_def U16_MAX_def)

lemma decode_name_ok: "decode_name m off ce limits = Inr (n, next) \<Longrightarrow> name_ok limits n"
  using decode_name_Inr by (simp add: name_ok_def)

definition bitmaps_ok :: "bytes \<Rightarrow> bool" where
  "bitmaps_ok raw \<longleftrightarrow> validate_type_bitmaps raw = Inr ()"

definition wf_rdata :: "parse_limits \<Rightarrow> record_type \<Rightarrow> rdata \<Rightarrow> bool" where
  "wf_rdata limits ty rd = (case rd of
     RdA _ \<Rightarrow> ty = RtA
   | RdAaaa _ \<Rightarrow> ty = RtAaaa
   | RdNs n \<Rightarrow> ty = RtNs \<and> name_ok limits n
   | RdCname n \<Rightarrow> ty = RtCname \<and> name_ok limits n
   | RdSoa s \<Rightarrow> ty = RtSoa \<and> name_ok limits (soa_mname s) \<and> name_ok limits (soa_rname s)
   | RdMx m \<Rightarrow> ty = RtMx \<and> name_ok limits (mx_exchange m)
   | RdTxt ss \<Rightarrow> ty = RtTxt \<and> ss \<noteq> [] \<and> list_all (\<lambda>s. length s \<le> 255) ss
   | RdSrv s \<Rightarrow> ty = RtSrv \<and> name_ok limits (srv_target s)
   | RdDs d \<Rightarrow> ty = RtDs \<and> ds_digest d \<noteq> []
   | RdDnskey k \<Rightarrow> ty = RtDnskey \<and> dk_public_key k \<noteq> []
   | RdRrsig s \<Rightarrow> ty = RtRrsig \<and> canonical_type (rs_type_covered s) \<and> name_ok limits (rs_signer s) \<and>
       rs_signature s \<noteq> []
   | RdNsec n \<Rightarrow> ty = RtNsec \<and> name_ok limits (ns_next_domain n) \<and> bitmaps_ok (ns_type_bitmaps n)
   | RdNsec3 n \<Rightarrow> ty = RtNsec3 \<and> length (n3_salt n) \<le> 255 \<and> n3_next_hashed_owner n \<noteq> [] \<and>
       length (n3_next_hashed_owner n) \<le> 255 \<and> bitmaps_ok (n3_type_bitmaps n)
   | RdTlsa t \<Rightarrow> ty = RtTlsa \<and> tlsa_association_data t \<noteq> []
   | RdOpt os \<Rightarrow> ty = RtOpt \<and> list_all (\<lambda>opt. length (opt_data opt) \<le> U16_MAX) os
   | RdOpaque _ \<Rightarrow> (ty = RtSvcb \<or> ty = RtHttps \<or> (\<exists>v. ty = RtUnknown v)))"

section \<open>Length-prefixed lists\<close>

definition txt_wire :: "bytes list \<Rightarrow> bytes" where
  "txt_wire ss = concat (map (\<lambda>s. of_nat (length s) # s) ss)"

definition option_wire :: "edns_option \<Rightarrow> bytes" where
  "option_wire opt = be_bytes 2 (opt_code opt) @ be_bytes 2 (of_nat (length (opt_data opt)) :: u16) @ opt_data opt"

lemma encode_txt_eq:
  "list_all (\<lambda>s. length s \<le> 255) ss \<Longrightarrow> encode_txt ss out = Inr (out @ txt_wire ss)"
  by (induction ss arbitrary: out) (auto simp: txt_wire_def)

lemma encode_options_eq:
  "list_all (\<lambda>opt. length (opt_data opt) \<le> U16_MAX) os \<Longrightarrow>
   encode_options os out = Inr (out @ concat (map option_wire os))"
  by (induction os arbitrary: out) (auto simp: option_wire_def write_u16_def)

lemma txt_loop_wire:
  assumes "raw = pre @ txt_wire ss" and "list_all (\<lambda>s. length s \<le> 255) ss" and "length raw \<le> usize_max"
  shows "txt_loop raw (length pre) acc = Inr (acc @ ss)"
  using assms
proof (induction ss arbitrary: pre acc)
  case Nil
  then show ?case by (subst txt_loop.simps) (simp add: txt_wire_def)
next
  case (Cons s ss)
  let ?pre = "pre @ of_nat (length s) # s"
  have IH: "txt_loop raw (length ?pre) (acc @ [s]) = Inr ((acc @ [s]) @ ss)"
    by (rule Cons.IH) (use Cons.prems in \<open>auto simp: txt_wire_def\<close>)
  have len: "unat (of_nat (length s) :: u8) = length s"
    using Cons.prems(2) by (simp add: unat_of_nat)
  have range: "slice_range raw (length pre + 1) (length pre + 1 + length s) = Some s"
    using slice_range_append [of "length pre + 1" "pre @ [of_nat (length s)]" _ s] Cons.prems(1)
    by (simp add: txt_wire_def)
  show ?case
    using IH len range Cons.prems
    by (subst txt_loop.simps) (simp add: txt_wire_def nth_append)
qed

lemma edns_option_collapse:
  "\<lparr>opt_code = opt_code r, opt_data = opt_data r\<rparr> = (r :: edns_option)"
  by simp

lemma edns_loop_wire:
  assumes "raw = pre @ concat (map option_wire os)"
    and "list_all (\<lambda>opt. length (opt_data opt) \<le> U16_MAX) os" and "length raw \<le> usize_max"
  shows "edns_loop raw (length pre) acc = Inr (acc @ os)"
  using assms
proof (induction os arbitrary: pre acc)
  case Nil
  then show ?case by (subst edns_loop.simps) simp
next
  case (Cons opt os)
  let ?len = "of_nat (length (opt_data opt)) :: u16"
  let ?hdr = "be_bytes 2 (opt_code opt) @ be_bytes 2 ?len"
  have "edns_loop raw (length (pre @ option_wire opt)) (acc @ [opt]) = Inr ((acc @ [opt]) @ os)"
    by (rule Cons.IH) (use Cons.prems in auto)
  moreover have "length (pre @ option_wire opt) = length pre + 4 + length (opt_data opt)"
    by (simp add: option_wire_def [of opt])
  ultimately have IH: "edns_loop raw (length pre + 4 + length (opt_data opt))
      (acc @ [opt]) = Inr (acc @ opt # os)"
    by (simp add: add.assoc)
  have len: "unat ?len = length (opt_data opt)"
    using Cons.prems(2) by (simp add: unat_of_nat U16_MAX_def)
  have hdr: "slice_range raw (length pre) (length pre + 4) = Some ?hdr"
    by (rule slice_range_at [where post = "opt_data opt @ concat (map option_wire os)"])
      (use Cons.prems(1) in \<open>simp_all add: option_wire_def [of opt]\<close>)
  have data: "slice_range raw (length pre + 4) (length pre + 4 + length (opt_data opt)) = Some (opt_data opt)"
    by (rule slice_range_at [where pre = "pre @ ?hdr" and post = "concat (map option_wire os)"])
      (use Cons.prems(1) in \<open>simp_all add: option_wire_def [of opt]\<close>)
  have "length pre < length raw" "length pre + 4 + length (opt_data opt) \<le> usize_max"
    using Cons.prems(1,3) by (simp_all add: option_wire_def [of opt])
  then show ?case
    using IH len hdr data
    by (subst edns_loop.simps) (simp add: be_u16_eq usize_max_def edns_option_collapse)
qed

section \<open>RDATA round trips\<close>

lemma parse_soa_wire:
  assumes ok: "name_ok limits (soa_mname s)" "name_ok limits (soa_rname s)"
    and enc: "encode_soa s [] = Inr w"
    and m: "message = pre @ w @ post" "length message \<le> U16_MAX"
  shows "parse_soa message (length pre) (length pre + length w) limits = Inr s"
proof -
  let ?tail = "be_bytes 4 (soa_serial s) @ be_bytes 4 (soa_refresh s) @ be_bytes 4 (soa_retry s) @
    be_bytes 4 (soa_expire s) @ be_bytes 4 (soa_minimum s)"
  let ?M = "name_wire (soa_mname s)" and ?R = "name_wire (soa_rname s)"
  from ok enc have w: "w = ?M @ ?R @ ?tail" by (simp add: encode_soa_def write_u32_def)
  have a: "decode_name message (length pre) (length pre + length w) limits =
      Inr (soa_mname s, length pre + name_wire_len (soa_mname s))"
    by (rule name_ok_decode [where post = "?R @ ?tail @ post"]) (use ok m w in auto)
  have b: "decode_name message (length pre + name_wire_len (soa_mname s)) (length pre + length w) limits =
      Inr (soa_rname s, length pre + name_wire_len (soa_mname s) + name_wire_len (soa_rname s))"
    by (rule name_ok_decode [where pre = "pre @ ?M" and post = "?tail @ post"]) (use ok m w in auto)
  have c: "slice_range message (length pre + name_wire_len (soa_mname s) + name_wire_len (soa_rname s))
      (length pre + name_wire_len (soa_mname s) + name_wire_len (soa_rname s) + 20) = Some ?tail"
    by (rule slice_range_at [where pre = "pre @ ?M @ ?R" and post = post]) (use m(1) w in simp_all)
  show ?thesis
    using a b c m(2) w m(1)
    by (simp add: parse_soa_def be_u32_eq usize_max_def U16_MAX_def)
qed

lemma parse_mx_wire:
  assumes ok: "name_ok limits (mx_exchange x)"
    and w: "w = be_bytes 2 (mx_preference x) @ name_wire (mx_exchange x)"
    and m: "message = pre @ w @ post" "length message \<le> U16_MAX"
  shows "parse_mx message (length pre) (length pre + length w) limits = Inr x"
proof -
  have a: "decode_name message (length pre + 2) (length pre + length w) limits =
      Inr (mx_exchange x, length pre + 2 + name_wire_len (mx_exchange x))"
    by (rule name_ok_decode [where pre = "pre @ be_bytes 2 (mx_preference x)" and post = post])
      (use ok m w in auto)
  have b: "slice_range message (length pre) (length pre + length w) = Some w"
    by (rule slice_range_at [where post = post]) (use m(1) in simp_all)
  have "be_u16 w 0 = Inr (mx_preference x)" by (simp add: w be_u16_eq usize_max_def)
  moreover have "length pre + 2 \<le> usize_max" "length w = 2 + name_wire_len (mx_exchange x)"
    using m w by (simp_all add: U16_MAX_def usize_max_def)
  ultimately show ?thesis using a b by (simp add: parse_mx_def)
qed

lemma parse_srv_wire:
  assumes ok: "name_ok limits (srv_target s)"
    and w: "w = be_bytes 2 (srv_priority s) @ be_bytes 2 (srv_weight s) @
       be_bytes 2 (srv_port s) @ name_wire (srv_target s)"
    and m: "message = pre @ w @ post" "length message \<le> U16_MAX"
  shows "parse_srv message (length pre) (length pre + length w) limits = Inr s"
proof -
  let ?hd = "be_bytes 2 (srv_priority s) @ be_bytes 2 (srv_weight s) @ be_bytes 2 (srv_port s)"
  have a: "decode_name message (length pre + 6) (length pre + length w) limits =
      Inr (srv_target s, length pre + 6 + name_wire_len (srv_target s))"
    by (rule name_ok_decode [where pre = "pre @ ?hd" and post = post]) (use ok m w in auto)
  have b: "slice_range message (length pre) (length pre + length w) = Some w"
    by (rule slice_range_at [where post = post]) (use m(1) in simp_all)
  have c: "be_u16 w 0 = Inr (srv_priority s)" "be_u16 w 2 = Inr (srv_weight s)"
    "be_u16 w 4 = Inr (srv_port s)" by (simp_all add: w be_u16_eq usize_max_def)
  have "length pre + 6 \<le> usize_max" "length w = 6 + name_wire_len (srv_target s)"
    using m w by (simp_all add: U16_MAX_def usize_max_def)
  then show ?thesis using a b c by (simp add: parse_srv_def)
qed

lemma parse_rrsig_wire:
  assumes ok: "canonical_type (rs_type_covered s)" "name_ok limits (rs_signer s)" "rs_signature s \<noteq> []"
    and enc: "encode_rrsig s [] = Inr w"
    and m: "message = pre @ w @ post" "length message \<le> U16_MAX"
  shows "parse_rrsig message (length pre) (length pre + length w) limits = Inr s"
proof -
  let ?hd = "be_bytes 2 (code (rs_type_covered s)) @ [rs_algorithm s, rs_labels s] @
    be_bytes 4 (rs_original_ttl s) @ be_bytes 4 (rs_expiration s) @ be_bytes 4 (rs_inception s) @
    be_bytes 2 (rs_key_tag s)"
  let ?N = "name_wire (rs_signer s)"
  from ok enc have w: "w = ?hd @ ?N @ rs_signature s"
    by (simp add: encode_rrsig_def write_u32_def write_u16_def)
  have a: "slice_range message (length pre) (length pre + 18) = Some ?hd"
    by (rule slice_range_at [where post = "?N @ rs_signature s @ post"]) (use m(1) w in simp_all)
  have b: "decode_name message (length pre + 18) (length pre + length w) limits =
      Inr (rs_signer s, length pre + 18 + name_wire_len (rs_signer s))"
    by (rule name_ok_decode [where pre = "pre @ ?hd" and post = "rs_signature s @ post"])
      (use ok m w in auto)
  have c: "slice_range message (length pre + 18 + name_wire_len (rs_signer s)) (length pre + length w)
      = Some (rs_signature s)"
    by (rule slice_range_at [where pre = "pre @ ?hd @ ?N" and post = post]) (use m(1) w in simp_all)
  have "length pre + 18 \<le> usize_max" using m w by (simp add: U16_MAX_def usize_max_def)
  then show ?thesis
    using a b c ok
    by (simp add: parse_rrsig_def be_u32_eq be_u16_eq usize_max_def canonical_type_def nth_append)
qed

lemma parse_nsec_wire:
  assumes ok: "name_ok limits (ns_next_domain n)" "bitmaps_ok (ns_type_bitmaps n)"
    and m: "message = pre @ name_wire (ns_next_domain n) @ ns_type_bitmaps n @ post"
      "length message \<le> U16_MAX"
    and stop: "stop = length pre + name_wire_len (ns_next_domain n) + length (ns_type_bitmaps n)"
  shows "parse_nsec message (length pre) stop limits = Inr n"
proof -
  have a: "decode_name message (length pre) stop limits =
      Inr (ns_next_domain n, length pre + name_wire_len (ns_next_domain n))"
    by (rule name_ok_decode [where post = "ns_type_bitmaps n @ post"]) (use ok m stop in auto)
  have b: "slice_range message (length pre + name_wire_len (ns_next_domain n)) stop =
      Some (ns_type_bitmaps n)"
    by (rule slice_range_at [where pre = "pre @ name_wire (ns_next_domain n)" and post = post])
      (use m(1) stop in simp_all)
  show ?thesis using a b ok(2) by (simp add: parse_nsec_def bitmaps_ok_def)
qed

lemma parse_nsec3_wire:
  assumes ok: "length (n3_salt n) \<le> 255" "n3_next_hashed_owner n \<noteq> []"
      "length (n3_next_hashed_owner n) \<le> 255" "bitmaps_ok (n3_type_bitmaps n)"
    and enc: "encode_nsec3 n [] = Inr w"
  shows "parse_nsec3 w = Inr n"
proof -
  let ?sl = "of_nat (length (n3_salt n)) :: u8" and ?hl = "of_nat (length (n3_next_hashed_owner n)) :: u8"
  let ?hd = "[n3_hash_algorithm n, n3_flags n] @ be_bytes 2 (n3_iterations n) @ [?sl]"
  from ok enc have w: "w = ?hd @ n3_salt n @ [?hl] @ n3_next_hashed_owner n @ n3_type_bitmaps n"
    by (simp add: encode_nsec3_def write_u16_def bitmaps_ok_def)
  have u: "unat ?sl = length (n3_salt n)" "unat ?hl = length (n3_next_hashed_owner n)"
    using ok by (simp_all add: unat_of_nat)
  let ?se = "5 + length (n3_salt n)"
  have g: "slice_get w 4 = Some ?sl" "slice_get w ?se = Some ?hl" "slice_get w 0 = Some (n3_hash_algorithm n)"
    "slice_get w 1 = Some (n3_flags n)" by (simp_all add: w slice_get_def nth_append)
  have a: "slice_range w 5 ?se = Some (n3_salt n)"
    by (rule slice_range_at [where pre = ?hd and post = "[?hl] @ n3_next_hashed_owner n @ n3_type_bitmaps n"])
      (simp_all add: w)
  have b: "slice_range w (?se + 1) (?se + 1 + length (n3_next_hashed_owner n)) = Some (n3_next_hashed_owner n)"
    by (rule slice_range_at [where pre = "?hd @ n3_salt n @ [?hl]" and post = "n3_type_bitmaps n"])
      (simp_all add: w)
  have c: "slice_from w (?se + 1 + length (n3_next_hashed_owner n)) = Some (n3_type_bitmaps n)"
    by (rule slice_from_at [where pre = "?hd @ n3_salt n @ [?hl] @ n3_next_hashed_owner n"])
      (simp_all add: w)
  have d: "be_u16 w 2 = Inr (n3_iterations n)" by (simp add: w be_u16_eq usize_max_def)
  have "\<not> length w < 6" by (simp add: w)
  with g a b c d u ok show ?thesis by (simp add: parse_nsec3_def bitmaps_ok_def usize_max_def)
qed

lemma parse_edns_wire:
  "list_all (\<lambda>opt. length (opt_data opt) \<le> U16_MAX) os \<Longrightarrow>
   length (concat (map option_wire os)) \<le> usize_max \<Longrightarrow>
   parse_edns (concat (map option_wire os)) = Inr os"
  using edns_loop_wire [of _ "[]" os "[]"] by (simp add: parse_edns_def)

lemma parse_txt_wire:
  "list_all (\<lambda>s. length s \<le> 255) ss \<Longrightarrow> ss \<noteq> [] \<Longrightarrow> length (txt_wire ss) \<le> usize_max \<Longrightarrow>
   parse_txt (txt_wire ss) = Inr ss"
  using txt_loop_wire [of _ "[]" ss "[]"] by (simp add: parse_txt_def)

lemma rmap_simps [simp]: "rmap f (Inr x) = Inr (f x)" "rmap f (Inl e) = Inl e"
  by (simp_all add: rmap_def)

lemma rmap_eq_Inr [result_inv]: "rmap f m = Inr y \<longleftrightarrow> (\<exists>x. m = Inr x \<and> y = f x)"
  by (cases m) auto

lemma rdata_roundtrip:
  assumes wf: "wf_rdata limits ty rd" and enc: "encode_rdata ty rd [] = Inr w"
    and m: "message = pre @ w @ post" "length message \<le> U16_MAX"
  shows "parse_rdata message (length pre) (length pre + length w) ty limits = Inr rd"
proof -
  have raw: "slice_range message (length pre) (length pre + length w) = Some w"
    by (rule slice_range_at [where post = post]) (use m in simp_all)
  have len: "length w \<le> usize_max" using m by (simp add: U16_MAX_def usize_max_def)
  note simps = parse_rdata_def encode_rdata_def wf_rdata_def
  show ?thesis
  proof (cases rd)
    case (RdNs n)
    then show ?thesis using assms raw name_ok_decode [of limits n message pre post]
      by (auto simp: simps)
  next
    case (RdCname n)
    then show ?thesis using assms raw name_ok_decode [of limits n message pre post]
      by (auto simp: simps)
  next
    case (RdSoa s)
    then show ?thesis using assms raw parse_soa_wire [of limits s w message pre post]
      by (auto simp: simps)
  next
    case (RdMx x)
    then have "ty = RtMx" "name_ok limits (mx_exchange x)"
      and w: "w = be_bytes 2 (mx_preference x) @ name_wire (mx_exchange x)"
      using wf enc by (auto simp: simps write_u16_def)
    with RdMx raw parse_mx_wire [OF _ w m] show ?thesis by (simp add: simps)
  next
    case (RdTxt ss)
    then show ?thesis using assms raw len parse_txt_wire [of ss]
      by (auto simp: simps encode_txt_eq)
  next
    case (RdSrv s)
    then have "ty = RtSrv" "name_ok limits (srv_target s)"
      and w: "w = be_bytes 2 (srv_priority s) @ be_bytes 2 (srv_weight s) @ be_bytes 2 (srv_port s) @
        name_wire (srv_target s)"
      using wf enc by (auto simp: simps write_u16_def)
    with RdSrv raw parse_srv_wire [OF _ w m] show ?thesis by (simp add: simps)
  next
    case (RdDs d)
    then show ?thesis using assms raw len
      by (auto simp: simps parse_ds_def write_u16_def be_u16_eq nth_append)
  next
    case (RdDnskey k)
    then show ?thesis using assms raw len
      by (auto simp: simps parse_dnskey_def write_u16_def be_u16_eq nth_append)
  next
    case (RdRrsig s)
    then show ?thesis using assms raw parse_rrsig_wire [of s limits w message pre post]
      by (auto simp: simps)
  next
    case (RdNsec n)
    then show ?thesis using assms raw parse_nsec_wire [of limits n message pre post]
      by (auto simp: simps bitmaps_ok_def add.assoc)
  next
    case (RdNsec3 n)
    then show ?thesis using assms raw parse_nsec3_wire [of n w] by (auto simp: simps)
  next
    case (RdTlsa t)
    then show ?thesis using assms raw by (auto simp: simps parse_tlsa_def)
  next
    case (RdOpt os)
    then show ?thesis using assms raw len parse_edns_wire [of os]
      by (auto simp: simps encode_options_eq)
  qed (use assms raw in \<open>auto simp: simps split: if_splits\<close>)
qed
end
