(* ===== verification/Dns_Roundtrip.thy ===== *)
theory Dns_Roundtrip
  imports Dns_Rdata
begin

unbundle bit_operations_syntax

text \<open>
  Whole messages: what the parser guarantees (\<open>wf_message\<close>), that it reads back every well-formed
  message the encoder writes, and that the length and count arithmetic never overflows.
\<close>

section \<open>Questions and records\<close>

definition wf_question :: "parse_limits \<Rightarrow> question \<Rightarrow> bool" where
  "wf_question limits q \<longleftrightarrow> name_ok limits (q_name q) \<and> canonical_type (q_type q)"

definition wf_record :: "parse_limits \<Rightarrow> resource_record \<Rightarrow> bool" where
  "wf_record limits r \<longleftrightarrow> name_ok limits (rr_name r) \<and> canonical_type (rr_type r) \<and>
     wf_rdata limits (rr_type r) (rr_rdata r)"

definition rdata_fits :: "parse_limits \<Rightarrow> resource_record \<Rightarrow> bool" where
  "rdata_fits limits r = (case encode_rdata (rr_type r) (rr_rdata r) [] of
     Inl _ \<Rightarrow> False | Inr w \<Rightarrow> length w \<le> max_rdata_len limits)"

definition reads_back ::
  "(bytes \<Rightarrow> usize \<Rightarrow> parse_limits \<Rightarrow> (wire_error, 'a \<times> usize) result) \<Rightarrow> parse_limits \<Rightarrow> 'a \<Rightarrow> bytes \<Rightarrow> bool"
where
  "reads_back dec limits x w \<longleftrightarrow> (\<forall>pre post. length (pre @ w @ post) \<le> U16_MAX \<longrightarrow>
     dec (pre @ w @ post) (length pre) limits = Inr (x, length pre + length w))"

lemma question_wire:
  assumes ok: "wf_question limits q" and enc: "encode_question q out = Inr out'"
  shows "\<exists>w. out' = out @ w \<and> reads_back parse_question limits q w"
proof (intro exI conjI)
  let ?t = "be_bytes 2 (code (q_type q)) @ be_bytes 2 (q_class q)"
  let ?w = "name_wire (q_name q) @ ?t"
  show "out' = out @ ?w"
    using ok enc by (auto simp: encode_question_def wf_question_def write_u16_def)
  show "reads_back parse_question limits q ?w"
    unfolding reads_back_def
  proof (intro allI impI)
    fix pre post assume len: "length (pre @ ?w @ post) \<le> U16_MAX"
    let ?m = "pre @ ?w @ post" and ?c = "length pre + name_wire_len (q_name q)"
    have a: "decode_name ?m (length pre) (length ?m) limits = Inr (q_name q, ?c)"
      by (rule name_ok_decode [where post = "?t @ post"])
        (use ok len in \<open>auto simp: wf_question_def\<close>)
    have b: "slice_range ?m ?c (?c + 4) = Some ?t"
      by (rule slice_range_at [where pre = "pre @ name_wire (q_name q)" and post = post]) simp_all
    have "?c + 4 \<le> usize_max" using len by (simp add: U16_MAX_def usize_max_def)
    moreover have "length ?w = name_wire_len (q_name q) + 4" by simp
    ultimately show "parse_question ?m (length pre) limits = Inr (q, length pre + length ?w)"
      using a b ok
      by (simp add: parse_question_def be_u16_eq usize_max_def wf_question_def canonical_type_def)
  qed
qed

lemma record_wire:
  assumes ok: "wf_record limits r" "rdata_fits limits r" and enc: "encode_record r out = Inr out'"
  shows "\<exists>w. out' = out @ w \<and> reads_back parse_record limits r w"
proof -
  from ok(2) obtain rd where rd: "encode_rdata (rr_type r) (rr_rdata r) [] = Inr rd"
      "length rd \<le> max_rdata_len limits"
    by (auto simp: rdata_fits_def split: sum.splits)
  let ?len = "of_nat (length rd) :: u16"
  let ?t = "be_bytes 2 (code (rr_type r)) @ be_bytes 2 (rr_class r) @ be_bytes 4 (rr_ttl r) @
    be_bytes 2 ?len"
  let ?w = "name_wire (rr_name r) @ ?t @ rd"
  have small: "length rd \<le> U16_MAX" and out': "out' = out @ ?w"
    using ok(1) enc rd by (auto simp: encode_record_def wf_record_def wire_defs split: if_splits)
  have u: "unat ?len = length rd" using small by (simp add: unat_of_nat U16_MAX_def)
  have "reads_back parse_record limits r ?w"
    unfolding reads_back_def
  proof (intro allI impI)
    fix pre post assume len: "length (pre @ ?w @ post) \<le> U16_MAX"
    let ?m = "pre @ ?w @ post" and ?c = "length pre + name_wire_len (rr_name r)"
    have a: "decode_name ?m (length pre) (length ?m) limits = Inr (rr_name r, ?c)"
      by (rule name_ok_decode [where post = "?t @ rd @ post"])
        (use ok len in \<open>auto simp: wf_record_def\<close>)
    have b: "slice_range ?m ?c (?c + 10) = Some ?t"
      by (rule slice_range_at [where pre = "pre @ name_wire (rr_name r)" and post = "rd @ post"]) simp_all
    have c: "slice_range ?m (?c + 10) (?c + 10 + length rd) = Some rd"
      by (rule slice_range_at [where pre = "pre @ name_wire (rr_name r) @ ?t" and post = post]) simp_all
    have "parse_rdata ?m (length (pre @ name_wire (rr_name r) @ ?t))
        (length (pre @ name_wire (rr_name r) @ ?t) + length rd) (rr_type r) limits = Inr (rr_rdata r)"
      by (rule rdata_roundtrip [OF _ rd(1), where post = post])
        (use ok len in \<open>auto simp: wf_record_def\<close>)
    moreover have "length (pre @ name_wire (rr_name r) @ ?t) = ?c + 10" by simp
    ultimately have d: "parse_rdata ?m (?c + 10) (?c + 10 + length rd) (rr_type r) limits = Inr (rr_rdata r)"
      by (simp only:)
    have "?c + 10 + length rd \<le> usize_max" using len by (simp add: U16_MAX_def usize_max_def)
    moreover have "length ?w = name_wire_len (rr_name r) + 10 + length rd" by simp
    ultimately show "parse_record ?m (length pre) limits = Inr (r, length pre + length ?w)"
      using a b c d ok(1) rd(2) u
      by (simp add: parse_record_def be_u16_eq be_u32_eq usize_max_def wf_record_def canonical_type_def)
  qed
  with out' show ?thesis by blast
qed
lemma reads_backD:
  "reads_back dec limits x w \<Longrightarrow> m = pre @ w @ post \<Longrightarrow> length m \<le> U16_MAX \<Longrightarrow> off = length pre \<Longrightarrow>
   dec m off limits = Inr (x, off + length w)"
  by (auto simp: reads_back_def)

text \<open>
  The interface between the section loops and the single-item codecs: an item that is well formed and
  fits is read back from wherever it was written, a decoded item is well formed, and a decoder always
  advances.  It gives the round trip and the well-formedness of whole sections, once for questions and
  once for records.
\<close>

locale item_codec =
  fixes enc :: "'a \<Rightarrow> bytes \<Rightarrow> (wire_error, bytes) result"
    and dec :: "bytes \<Rightarrow> usize \<Rightarrow> parse_limits \<Rightarrow> (wire_error, 'a \<times> usize) result"
    and decs :: "bytes \<Rightarrow> usize \<Rightarrow> nat \<Rightarrow> parse_limits \<Rightarrow> (wire_error, 'a list \<times> usize) result"
    and wf :: "parse_limits \<Rightarrow> 'a \<Rightarrow> bool"
    and fits :: "parse_limits \<Rightarrow> 'a \<Rightarrow> bool"
  assumes enc_dec: "wf limits x \<Longrightarrow> fits limits x \<Longrightarrow> enc x out = Inr out' \<Longrightarrow>
      \<exists>w. out' = out @ w \<and> reads_back dec limits x w"
    and dec_wf: "dec m off limits = Inr (x, next) \<Longrightarrow> wf limits x"
    and dec_advances: "dec m off limits = Inr (x, next) \<Longrightarrow> off < next \<and> next \<le> length m"
    and decs_0: "decs m off 0 limits = Inr ([], off)"
    and decs_Suc: "decs m off (Suc k) limits =
      rbind (dec m off limits) (\<lambda>(x, next). rbind (decs m next k limits) (\<lambda>(xs, next).
      Inr (x # xs, next)))"
begin

lemma decs_encode_all:
  assumes "list_all (wf limits) xs" and "list_all (fits limits) xs"
    and "encode_all enc xs out = Inr out'"
  shows "\<exists>w. out' = out @ w \<and> reads_back (\<lambda>m off. decs m off (length xs)) limits xs w"
  using assms
proof (induction xs arbitrary: out)
  case Nil
  then show ?case by (auto simp: reads_back_def decs_0)
next
  case (Cons x xs)
  then obtain out1 where e: "enc x out = Inr out1" "encode_all enc xs out1 = Inr out'"
    by (auto simp: result_inv)
  with Cons.prems enc_dec obtain w1 where w1: "out1 = out @ w1" "reads_back dec limits x w1"
    by fastforce
  from Cons.IH [OF _ _ e(2)] Cons.prems obtain w2 where
    w2: "out' = out1 @ w2" "reads_back (\<lambda>m off. decs m off (length xs)) limits xs w2" by auto
  have "reads_back (\<lambda>m off. decs m off (length (x # xs))) limits (x # xs) (w1 @ w2)"
    unfolding reads_back_def
  proof (intro allI impI)
    fix pre post assume len: "length (pre @ (w1 @ w2) @ post) \<le> U16_MAX"
    let ?m = "pre @ (w1 @ w2) @ post"
    have "dec ?m (length pre) limits = Inr (x, length pre + length w1)"
      by (rule reads_backD [OF w1(2), where post = "w2 @ post"]) (use len in simp_all)
    moreover have "decs ?m (length pre + length w1) (length xs) limits =
        Inr (xs, length pre + length w1 + length w2)"
      by (rule reads_backD [OF w2(2), where pre = "pre @ w1" and post = post]) (use len in simp_all)
    ultimately show "decs ?m (length pre) (length (x # xs)) limits = Inr (x # xs, length pre + length (w1 @ w2))"
      by (simp add: decs_Suc add.assoc)
  qed
  with w1(1) w2(1) show ?case by (metis append.assoc)
qed

lemma decs_wf:
  assumes "decs m off k limits = Inr (xs, next)"
  shows "list_all (wf limits) xs \<and> length xs = k \<and> off \<le> next \<and> (off \<le> length m \<longrightarrow> next \<le> length m)"
  using assms
proof (induction k arbitrary: off xs)
  case 0
  then show ?case by (simp add: decs_0)
next
  case (Suc k)
  then obtain x n1 ys where d: "dec m off limits = Inr (x, n1)" "decs m n1 k limits = Inr (ys, next)"
      "xs = x # ys"
    by (auto simp: decs_Suc result_inv)
  from Suc.IH [OF d(2)] dec_wf [OF d(1)] dec_advances [OF d(1)] d(3) show ?case by simp
qed

end

lemma parse_question_Inr:
  assumes "parse_question m off limits = Inr (q, next)"
  shows "wf_question limits q" and "off < next \<and> next \<le> length m"
proof -
  from assms obtain n c where d: "decode_name m off (length m) limits = Inr (n, c)"
    and q: "q_name q = n" "canonical_type (q_type q)" "next = c + 4" "c + 4 \<le> length m"
    by (auto simp: parse_question_def result_inv dest!: slice_range_SomeD split: prod.splits)
  from decode_name_ok [OF d] q show "wf_question limits q" by (simp add: wf_question_def)
  from decode_name_Inr(3) [OF d] q show "off < next \<and> next \<le> length m" by simp
qed

interpretation questions: item_codec encode_question parse_question parse_questions wf_question
  "\<lambda>_ _. True"
  by unfold_locales (auto simp: question_wire parse_question_Inr)

lemma txt_loop_Inr:
  "txt_loop raw c acc = Inr ss \<Longrightarrow> list_all (\<lambda>s. length s \<le> 255) acc \<Longrightarrow>
   list_all (\<lambda>s. length s \<le> 255) ss"
proof (induction raw c acc rule: txt_loop.induct)
  case (1 raw cursor strings)
  have byte: "unat (b :: u8) \<le> 255" for b
    using unsigned_less [of b, where 'a=nat] by simp
  from "1.prems" "1.IH" show ?case
    by (subst (asm) txt_loop.simps)
      (fastforce simp: result_inv byte split: if_splits dest: slice_range_SomeD)
qed

lemma edns_loop_Inr:
  "edns_loop raw c acc = Inr os \<Longrightarrow> list_all (\<lambda>opt. length (opt_data opt) \<le> U16_MAX) acc \<Longrightarrow>
   list_all (\<lambda>opt. length (opt_data opt) \<le> U16_MAX) os"
proof (induction raw c acc rule: edns_loop.induct)
  case (1 raw cursor options)
  have word: "unat (b :: u16) \<le> U16_MAX" for b
    using unsigned_less [of b, where 'a=nat] by (simp add: U16_MAX_def)
  from "1.prems" "1.IH" show ?case
    by (subst (asm) edns_loop.simps)
      (fastforce simp: result_inv word split: if_splits dest: slice_range_SomeD)
qed

lemma parse_rdata_wf:
  assumes "parse_rdata m start stop ty limits = Inr rd"
  shows "wf_rdata limits ty rd"
proof -
  note defs = parse_rdata_def wf_rdata_def
  show ?thesis
  proof (cases ty)
    case RtSoa
    with assms show ?thesis
      by (auto simp: defs parse_soa_def result_inv dest: decode_name_ok split: prod.splits if_splits)
  next
    case RtMx
    with assms show ?thesis
      by (auto simp: defs parse_mx_def result_inv dest: decode_name_ok split: prod.splits if_splits)
  next
    case RtSrv
    with assms show ?thesis
      by (auto simp: defs parse_srv_def result_inv dest: decode_name_ok split: prod.splits if_splits)
  next
    case RtTxt
    with assms show ?thesis
      by (auto simp: defs parse_txt_def result_inv dest: txt_loop_Inr split: if_splits)
  next
    case RtDs
    with assms show ?thesis by (auto simp: defs parse_ds_def result_inv split: if_splits)
  next
    case RtDnskey
    with assms show ?thesis by (auto simp: defs parse_dnskey_def result_inv split: if_splits)
  next
    case RtRrsig
    with assms show ?thesis
      by (auto simp: defs parse_rrsig_def result_inv dest: decode_name_ok split: prod.splits if_splits)
  next
    case RtNsec
    with assms show ?thesis
      by (auto simp: defs parse_nsec_def bitmaps_ok_def result_inv dest: decode_name_ok split: prod.splits)
  next
    case RtNsec3
    have byte: "unat (b :: u8) \<le> 255" for b
      using unsigned_less [of b, where 'a=nat] by simp
    from RtNsec3 assms show ?thesis
      by (auto simp: defs parse_nsec3_def bitmaps_ok_def result_inv byte split: if_splits
          dest!: slice_range_SomeD)
  next
    case RtTlsa
    with assms show ?thesis by (auto simp: defs parse_tlsa_def result_inv split: if_splits)
  next
    case RtOpt
    with assms show ?thesis by (auto simp: defs parse_edns_def result_inv dest: edns_loop_Inr)
  qed (use assms in \<open>auto simp: defs result_inv dest: decode_name_ok split: prod.splits if_splits\<close>)
qed

lemma parse_record_Inr:
  assumes "parse_record m off limits = Inr (r, next)"
  shows "wf_record limits r" and "off < next \<and> next \<le> length m"
proof -
  from assms obtain n c e where d: "decode_name m off (length m) limits = Inr (n, c)"
    and rd: "parse_rdata m (c + 10) next (rr_type r) limits = Inr (rr_rdata r)"
    and r: "rr_name r = n" "canonical_type (rr_type r)" "c + 10 \<le> next" "next \<le> length m"
    by (auto simp: parse_record_def result_inv Let_def dest!: slice_range_SomeD
        split: prod.splits if_splits)
  from decode_name_ok [OF d] parse_rdata_wf [OF rd] r show "wf_record limits r"
    by (simp add: wf_record_def)
  from decode_name_Inr(3) [OF d] r show "off < next \<and> next \<le> length m" by simp
qed

interpretation records: item_codec encode_record parse_record parse_records wf_record rdata_fits
  by unfold_locales (auto simp: record_wire parse_record_Inr)

section \<open>Messages\<close>

definition pseudo_ok :: "message \<Rightarrow> bool" where
  "pseudo_ok m \<longleftrightarrow> list_all (\<lambda>r. rr_type r \<noteq> RtOpt) (m_answers m @ m_authorities m) \<and>
     length (filter (\<lambda>r. rr_type r = RtOpt) (m_additionals m)) \<le> 1 \<and>
     list_all (\<lambda>r. rr_type r = RtOpt \<longrightarrow> is_root (rr_name r)) (m_additionals m)"

definition wf_message :: "parse_limits \<Rightarrow> message \<Rightarrow> bool" where
  "wf_message limits m \<longleftrightarrow>
     bits (hdr_flags (m_header m)) AND 0x0040 = 0 \<and>
     length (m_questions m) = unat (question_count (m_header m)) \<and>
     length (m_answers m) = unat (answer_count (m_header m)) \<and>
     length (m_authorities m) = unat (authority_count (m_header m)) \<and>
     length (m_additionals m) = unat (additional_count (m_header m)) \<and>
     length (m_questions m) \<le> max_questions limits \<and>
     length (m_answers m @ m_authorities m @ m_additionals m) \<le> max_records limits \<and>
     list_all (wf_question limits) (m_questions m) \<and>
     list_all (wf_record limits) (m_answers m @ m_authorities m @ m_additionals m) \<and> pseudo_ok m"

lemma opt_loop_eq:
  "opt_loop rs k = Inr () \<longleftrightarrow>
     list_all (\<lambda>r. rr_type r = RtOpt \<longrightarrow> is_root (rr_name r)) rs \<and>
     (k \<le> 1 \<or> filter (\<lambda>r. rr_type r = RtOpt) rs = []) \<and>
     k + length (filter (\<lambda>r. rr_type r = RtOpt) rs) \<le> max k 1"
  by (induction rs arbitrary: k) (auto simp: result_inv usize_max_def filter_empty_conv)

lemma validate_pseudo_records_eq: "validate_pseudo_records m = Inr () \<longleftrightarrow> pseudo_ok m"
  by (auto simp: validate_pseudo_records_def pseudo_ok_def opt_loop_eq list_all_iff list_ex_iff)

lemma header_parse_eq:
  assumes "m = be_bytes 2 a @ be_bytes 2 b @ be_bytes 2 c @ be_bytes 2 d @ be_bytes 2 e @ be_bytes 2 f @ rest"
  shows "header_parse m = Inr \<lparr>hdr_id = a, hdr_flags = Flags b, question_count = c, answer_count = d,
    authority_count = e, additional_count = f\<rparr>"
proof -
  let ?h = "be_bytes 2 a @ be_bytes 2 b @ be_bytes 2 c @ be_bytes 2 d @ be_bytes 2 e @ be_bytes 2 f"
  have "slice_range m 0 12 = Some ?h"
    by (rule slice_range_at [where pre = "[]" and post = rest]) (use assms in simp_all)
  then show ?thesis by (simp add: header_parse_def be_u16_eq usize_max_def)
qed

lemma parse_with_limits_wf:
  assumes "parse_with_limits bs limits = Inr m"
  shows "wf_message limits m"
proof -
  from assms obtain hdr qs an ns ar c1 c2 c3 where hdr: "bits (hdr_flags hdr) AND 0x0040 = 0"
      "unat (question_count hdr) \<le> max_questions limits"
      "unat (answer_count hdr) + unat (authority_count hdr) + unat (additional_count hdr)
        \<le> max_records limits"
    and p: "parse_questions bs 12 (unat (question_count hdr)) limits = Inr (qs, c1)"
      "parse_records bs c1 (unat (answer_count hdr)) limits = Inr (an, c2)"
      "parse_records bs c2 (unat (authority_count hdr)) limits = Inr (ns, c3)"
      "parse_records bs c3 (unat (additional_count hdr)) limits = Inr (ar, length bs)"
    and m: "m = \<lparr>m_header = hdr, m_questions = qs, m_answers = an, m_authorities = ns,
        m_additionals = ar\<rparr>" "validate_pseudo_records m = Inr ()"
    by (auto simp: parse_with_limits_def result_inv Option.bind_eq_Some_conv Let_def
        split: if_splits prod.splits)
  from questions.decs_wf [OF p(1)] records.decs_wf [OF p(2)] records.decs_wf [OF p(3)]
    records.decs_wf [OF p(4)] hdr m
  show ?thesis by (simp add: wf_message_def validate_pseudo_records_eq)
qed

lemma encode_all_append:
  "encode_all f (xs @ ys) out = rbind (encode_all f xs out) (encode_all f ys)"
proof (induction xs arbitrary: out)
  case (Cons x xs)
  then show ?case by (cases "f x out") simp_all
qed simp

lemma write_count_Inr [result_inv]:
  "write_count out k = Inr out' \<longleftrightarrow> k \<le> U16_MAX \<and> out' = out @ be_bytes 2 (of_nat k :: u16)"
  by (auto simp: write_count_def write_u16_def)

definition header_wire :: "header \<Rightarrow> bytes" where
  "header_wire h = be_bytes 2 (hdr_id h) @ be_bytes 2 (bits (hdr_flags h)) @
     be_bytes 2 (question_count h) @ be_bytes 2 (answer_count h) @ be_bytes 2 (authority_count h) @
     be_bytes 2 (additional_count h)"

lemma length_header_wire [simp, wire_len]: "length (header_wire h) = 12"
  by (simp add: header_wire_def)

lemma header_parse_wire [simp]: "header_parse (header_wire h @ rest) = Inr h"
proof (cases h)
  case (fields a b c d e f)
  then show ?thesis
    by (cases b) (subst header_parse_eq [where rest = rest], simp_all add: header_wire_def)
qed

lemma message_encode_sections:
  assumes "wf_message limits m" and "message_encode m L = Inr bs"
  obtains c1 c2 c3 where
    "encode_all encode_question (m_questions m) (header_wire (m_header m)) = Inr c1"
    "encode_all encode_record (m_answers m) c1 = Inr c2"
    "encode_all encode_record (m_authorities m) c2 = Inr c3"
    "encode_all encode_record (m_additionals m) c3 = Inr bs"
    "length bs \<le> L"
  using assms
  by (auto simp: message_encode_def wf_message_def result_inv encode_all_append Let_def write_u16_def
      header_wire_def split: if_splits)

lemma message_collapse:
  "\<lparr>m_header = m_header m, m_questions = m_questions m, m_answers = m_answers m,
    m_authorities = m_authorities m, m_additionals = m_additionals m\<rparr> = (m :: message)"
  by simp

lemma message_roundtrip_aux:
  assumes wf: "wf_message limits m"
    and fits: "list_all (rdata_fits limits) (m_answers m @ m_authorities m @ m_additionals m)"
    and enc: "message_encode m L = Inr bs"
    and len: "length bs \<le> max_message_len limits" "length bs \<le> U16_MAX"
  shows "parse_with_limits bs limits = Inr m"
proof -
  let ?h = "header_wire (m_header m)"
  from message_encode_sections [OF wf enc] obtain c1 c2 c3 where e:
    "encode_all encode_question (m_questions m) ?h = Inr c1"
    "encode_all encode_record (m_answers m) c1 = Inr c2"
    "encode_all encode_record (m_authorities m) c2 = Inr c3"
    "encode_all encode_record (m_additionals m) c3 = Inr bs" .
  note all = wf [unfolded wf_message_def, simplified] fits [simplified]
  from questions.decs_encode_all [OF _ _ e(1)] all obtain w0 where
    w0: "c1 = ?h @ w0" "reads_back (\<lambda>b off. parse_questions b off (length (m_questions m))) limits (m_questions m) w0"
    by (auto simp: list_all_iff)
  from records.decs_encode_all [OF _ _ e(2)] all obtain w1 where
    w1: "c2 = c1 @ w1" "reads_back (\<lambda>b off. parse_records b off (length (m_answers m))) limits (m_answers m) w1"
    by auto
  from records.decs_encode_all [OF _ _ e(3)] all obtain w2 where
    w2: "c3 = c2 @ w2" "reads_back (\<lambda>b off. parse_records b off (length (m_authorities m))) limits (m_authorities m) w2"
    by auto
  from records.decs_encode_all [OF _ _ e(4)] all obtain w3 where
    w3: "bs = c3 @ w3" "reads_back (\<lambda>b off. parse_records b off (length (m_additionals m))) limits (m_additionals m) w3"
    by auto
  have bs: "bs = ?h @ w0 @ w1 @ w2 @ w3" using w0(1) w1(1) w2(1) w3(1) by simp
  let ?c1 = "12 + length w0" 
  let ?c2 = "?c1 + length w1"
  let ?c3 = "?c2 + length w2"
  have p0: "parse_questions bs 12 (length (m_questions m)) limits = Inr (m_questions m, ?c1)"
    by (rule reads_backD [OF w0(2), where pre = ?h and post = "w1 @ w2 @ w3"]) (use bs len in simp_all)
  have p1: "parse_records bs ?c1 (length (m_answers m)) limits = Inr (m_answers m, ?c2)"
    by (rule reads_backD [OF w1(2), where pre = "?h @ w0" and post = "w2 @ w3"]) (use bs len in simp_all)
  have p2: "parse_records bs ?c2 (length (m_authorities m)) limits = Inr (m_authorities m, ?c3)"
    by (rule reads_backD [OF w2(2), where pre = "?h @ w0 @ w1" and post = w3]) (use bs len in simp_all)
  have p3: "parse_records bs ?c3 (length (m_additionals m)) limits = Inr (m_additionals m, ?c3 + length w3)"
    by (rule reads_backD [OF w3(2), where pre = "?h @ w0 @ w1 @ w2" and post = "[]"]) (use bs len in simp_all)
  have "validate_pseudo_records m = Inr ()" using all by (simp add: validate_pseudo_records_eq)
  moreover have "length bs = ?c3 + length w3" by (simp add: bs)
  moreover have "header_parse bs = Inr (m_header m)" by (simp add: bs)
  moreover have "Option.bind (usize_add (length (m_answers m)) (length (m_authorities m)))
      (\<lambda>k. usize_add k (length (m_additionals m))) =
      Some (length (m_answers m) + length (m_authorities m) + length (m_additionals m))"
    using all unsigned_less [where 'a = nat, of "answer_count (m_header m)"]
      unsigned_less [where 'a = nat, of "authority_count (m_header m)"]
      unsigned_less [where 'a = nat, of "additional_count (m_header m)"]
    by (simp add: usize_max_def)
  ultimately show ?thesis
    using all len p0 p1 p2 p3 by (simp add: parse_with_limits_def message_collapse)
qed
section \<open>No arithmetic overflow\<close>

declare map_err_eq_Inl [result_inv]

lemma rmap_eq_Inl [result_inv]: "rmap f m = Inl e \<longleftrightarrow> m = Inl e"
  by (cases m) auto

lemma be_no_overflow:
  "off \<le> 65536 \<Longrightarrow> be_u16 bs off \<noteq> Inl LengthOverflow"
  "off \<le> 65536 \<Longrightarrow> be_u32 bs off \<noteq> Inl LengthOverflow"
  by (auto simp: be_u16_def be_u32_def rbind_eq_Inl result_inv usize_max_def)

lemma unat_u8_le: "unat (b :: u8) \<le> 255"
  using unsigned_less [of b, where 'a=nat] by simp

lemma unat_u16_le: "unat (b :: u16) \<le> 65535"
  using unsigned_less [of b, where 'a=nat] by simp

lemma decode_name_next_le:
  "decode_name m off ce limits = Inr (n, next) \<Longrightarrow> length m \<le> U16_MAX \<Longrightarrow> next \<le> 65535"
  using decode_name_Inr(4) by (force simp: U16_MAX_def)



definition overflow_free :: "(wire_error, 'a) result \<Rightarrow> bool" where
  "overflow_free r \<longleftrightarrow> r \<noteq> Inl LengthOverflow"

lemma overflow_free_simps [simp]:
  "overflow_free (Inr x)"
  "overflow_free (Inl e) \<longleftrightarrow> e \<noteq> LengthOverflow"
  "overflow_free (ok_or e m) \<longleftrightarrow> m \<noteq> None \<or> e \<noteq> LengthOverflow"
  "overflow_free (rmap f r) \<longleftrightarrow> overflow_free r"
  "e \<noteq> LengthOverflow \<Longrightarrow> overflow_free (map_err (\<lambda>_. e) r)"
  by (auto simp: overflow_free_def result_inv)

lemma overflow_free_bind [intro!]:
  "overflow_free m \<Longrightarrow> (\<And>x. m = Inr x \<Longrightarrow> overflow_free (f x)) \<Longrightarrow> overflow_free (rbind m f)"
  by (cases m) (auto simp: overflow_free_def)

lemma overflow_free_bind_pair [intro!]:
  "overflow_free m \<Longrightarrow> (\<And>x y. m = Inr (x, y) \<Longrightarrow> overflow_free (f x y)) \<Longrightarrow>
   overflow_free (rbind m (\<lambda>(x, y). f x y))"
  by (cases m) (auto simp: overflow_free_def)

lemma overflow_free_be [simp]:
  "off \<le> 65536 \<Longrightarrow> overflow_free (be_u16 bs off)"
  "off \<le> 65536 \<Longrightarrow> overflow_free (be_u32 bs off)"
  using be_no_overflow by (simp_all add: overflow_free_def)

lemma overflow_free_decode_name [simp]:
  "length m \<le> U16_MAX \<Longrightarrow> overflow_free (decode_name m off ce limits)"
  by (simp add: overflow_free_def decode_name_no_overflow)

lemma usize_add_unat [simp]:
  "a \<le> 1000000 \<Longrightarrow> usize_add a (unat (b :: u8)) = Some (a + unat b)"
  "a \<le> 1000000 \<Longrightarrow> usize_add a (unat (c :: u16)) = Some (a + unat c)"
  using unat_u8_le [of b] unat_u16_le [of c] by (simp_all add: usize_add_def usize_max_def)

lemma small_le_usize: "a \<le> 1000000 \<Longrightarrow> a \<le> usize_max"
  by (simp add: usize_max_def)

lemmas overflow_arith = small_le_usize U16_MAX_def result_inv

lemma overflow_free_txt_loop: "length raw \<le> U16_MAX \<Longrightarrow> overflow_free (txt_loop raw c acc)"
proof (induction raw c acc rule: txt_loop.induct)
  case (1 raw cursor strings)
  show ?case
    using "1.prems" by (subst txt_loop.simps) (auto intro!: "1.IH" simp: overflow_arith)
qed

lemma overflow_free_edns_loop: "length raw \<le> U16_MAX \<Longrightarrow> overflow_free (edns_loop raw c acc)"
proof (induction raw c acc rule: edns_loop.induct)
  case (1 raw cursor options)
  show ?case
    using "1.prems" by (subst edns_loop.simps) (auto intro!: "1.IH" simp: overflow_arith)
qed

lemma overflow_free_bitmaps_loop:
  "length raw \<le> U16_MAX \<Longrightarrow> k \<le> 256 \<Longrightarrow> overflow_free (bitmaps_loop raw c p k)"
proof (induction raw c p k rule: bitmaps_loop.induct)
  case (1 raw c p k)
  show ?case
    using "1.prems" by (subst bitmaps_loop.simps)
      (auto intro!: "1.IH" simp: overflow_arith Let_def)
qed

lemma overflow_free_validate: "length raw \<le> U16_MAX \<Longrightarrow> overflow_free (validate_type_bitmaps raw)"
  by (auto simp: validate_type_bitmaps_def overflow_free_bitmaps_loop)

lemma overflow_free_soa: "length m \<le> U16_MAX \<Longrightarrow> overflow_free (parse_soa m s e limits)"
  by (auto simp: parse_soa_def overflow_arith dest!: decode_name_next_le)

lemma overflow_free_mx:
  "length m \<le> U16_MAX \<Longrightarrow> s \<le> length m \<Longrightarrow> overflow_free (parse_mx m s e limits)"
  by (auto simp: parse_mx_def overflow_arith)

lemma overflow_free_srv:
  "length m \<le> U16_MAX \<Longrightarrow> s \<le> length m \<Longrightarrow> overflow_free (parse_srv m s e limits)"
  by (auto simp: parse_srv_def overflow_arith)

lemma overflow_free_rrsig:
  "length m \<le> U16_MAX \<Longrightarrow> s \<le> length m \<Longrightarrow> overflow_free (parse_rrsig m s e limits)"
  by (auto simp: parse_rrsig_def overflow_arith)

lemma overflow_free_nsec: "length m \<le> U16_MAX \<Longrightarrow> overflow_free (parse_nsec m s e limits)"
  by (auto simp: parse_nsec_def overflow_arith overflow_free_validate dest!: slice_range_SomeD)

lemma overflow_free_nsec3: "length raw \<le> U16_MAX \<Longrightarrow> overflow_free (parse_nsec3 raw)"
  by (auto simp: parse_nsec3_def overflow_arith overflow_free_validate)

lemma overflow_free_flat:
  "overflow_free (parse_ds raw)" "overflow_free (parse_dnskey raw)" "overflow_free (parse_tlsa raw)"
  by (auto simp: parse_ds_def parse_dnskey_def parse_tlsa_def)

lemmas overflow_free_rdata = overflow_free_soa overflow_free_mx overflow_free_srv overflow_free_rrsig
  overflow_free_nsec overflow_free_nsec3 overflow_free_flat overflow_free_txt_loop
  overflow_free_edns_loop

lemma overflow_free_parse_rdata:
  "length m \<le> U16_MAX \<Longrightarrow> overflow_free (parse_rdata m s e ty limits)"
  by (cases ty)
    (auto simp: parse_rdata_def overflow_free_rdata parse_txt_def parse_edns_def result_inv
      dest!: slice_range_SomeD)

lemma overflow_free_question:
  "length m \<le> U16_MAX \<Longrightarrow> overflow_free (parse_question m off limits)"
  by (auto simp: parse_question_def overflow_arith dest!: decode_name_next_le)

lemma overflow_free_record:
  "length m \<le> U16_MAX \<Longrightarrow> overflow_free (parse_record m off limits)"
  by (auto simp: parse_record_def overflow_arith Let_def overflow_free_parse_rdata
      dest!: decode_name_next_le)

lemma overflow_free_questions:
  "length m \<le> U16_MAX \<Longrightarrow> overflow_free (parse_questions m off k limits)"
  by (induction k arbitrary: off) (auto simp: overflow_free_question)

lemma overflow_free_records:
  "length m \<le> U16_MAX \<Longrightarrow> overflow_free (parse_records m off k limits)"
  by (induction k arbitrary: off) (auto simp: overflow_free_record)

lemma overflow_free_opt_loop: "k \<le> 1 \<Longrightarrow> overflow_free (opt_loop rs k)"
  by (induction rs arbitrary: k) (auto simp: overflow_arith)

lemma overflow_free_header: "overflow_free (header_parse m)"
  by (auto simp: header_parse_def)

lemma overflow_free_parse: "overflow_free (parse_with_limits m limits)"
proof -
  have c: "Option.bind (usize_add (unat (a :: u16)) (unat (b :: u16))) (\<lambda>k. usize_add k (unat (c :: u16)))
    = Some (unat a + unat b + unat c)" for a b c
    using unat_u16_le [of a] unat_u16_le [of b] unat_u16_le [of c] by (simp add: usize_max_def)
  show ?thesis
    by (auto simp: parse_with_limits_def c overflow_free_header overflow_free_questions
        overflow_free_records Let_def validate_pseudo_records_def overflow_free_opt_loop)
qed
end
