(* ===== verification/Dns_Query.thy ===== *)
theory Dns_Query
  imports Dns_Roundtrip
begin

unbundle bit_operations_syntax

text \<open>
  Queries of \<open>hns-dns-wire\<close> (src/crates/hns-dns-wire/src/lib.rs): construction, strict parsing,
  encoding and the correlation of a response with the query it answers.
\<close>

record query =
  query_id :: u16
  query_question :: question

record correlated_response =
  cr_message :: message
  cr_untrusted_ad_claim :: bool

definition query_new :: "u16 \<Rightarrow> dns_name \<Rightarrow> record_type \<Rightarrow> (wire_error, query) result" where
  "query_new ident n ty =
     (if is_root n \<or> ty = RtOpt then Inl InvalidQuery
      else Inr \<lparr>query_id = ident,
                query_question = \<lparr>q_name = n, q_type = ty, q_class = CLASS_IN\<rparr>\<rparr>)"

definition has_client_subnet :: "resource_record \<Rightarrow> bool" where
  "has_client_subnet r =
     (case rr_rdata r of RdOpt options \<Rightarrow> list_ex (\<lambda>opt. opt_code opt = 8) options | _ \<Rightarrow> False)"

definition query_parse :: "bytes \<Rightarrow> parse_limits \<Rightarrow> (wire_error, query) result" where
  "query_parse message limits =
     rbind (parse_with_limits message limits) (\<lambda>parsed.
     let fl = hdr_flags (m_header parsed) in
     if is_response fl \<or> opcode fl \<noteq> 0 \<or> truncated fl \<or> bits fl AND NOT 0x0130 \<noteq> 0 \<or>
        length (m_questions parsed) \<noteq> 1 \<or> m_answers parsed \<noteq> [] \<or> m_authorities parsed \<noteq> [] \<or>
        1 < length (m_additionals parsed)
     then Inl InvalidQuery
     else rbind (ok_or InvalidQuery (slice_get (m_questions parsed) 0)) (\<lambda>q.
     if q_class q \<noteq> CLASS_IN \<or> is_root (q_name q) \<or> q_type q = RtOpt then Inl InvalidQuery
     else if (case slice_get (m_additionals parsed) 0 of
                None \<Rightarrow> False
              | Some opt \<Rightarrow> \<not> is_root (rr_name opt) \<or> rr_type opt \<noteq> RtOpt)
     then Inl InvalidQuery
     else if list_ex has_client_subnet (m_additionals parsed) then Inl InvalidQuery
     else Inr \<lparr>query_id = hdr_id (m_header parsed), query_question = q\<rparr>))"

definition query_message :: "query \<Rightarrow> message" where
  "query_message q =
     \<lparr>m_header = \<lparr>hdr_id = query_id q, hdr_flags = Flags 0, question_count = 1, answer_count = 0,
                 authority_count = 0, additional_count = 1\<rparr>,
      m_questions = [query_question q], m_answers = [], m_authorities = [],
      m_additionals = [\<lparr>rr_name = root_name, rr_type = RtOpt, rr_class = DEFAULT_UDP_PAYLOAD,
                        rr_ttl = ucast EDNS_DO, rr_rdata = RdOpt []\<rparr>]\<rparr>"

definition query_encode :: "query \<Rightarrow> usize \<Rightarrow> (wire_error, bytes) result" where
  "query_encode q limit = message_encode (query_message q) limit"

definition correlate :: "query \<Rightarrow> message \<Rightarrow> (wire_error, correlated_response) result" where
  "correlate q response =
     (let fl = hdr_flags (m_header response) in
      if \<not> is_response fl then Inl NotResponse
      else if hdr_id (m_header response) \<noteq> query_id q then Inl IdMismatch
      else if opcode fl \<noteq> 0 then Inl OpcodeMismatch
      else if truncated fl then Inl Truncated
      else if m_questions response \<noteq> [query_question q] then Inl QuestionMismatch
      else Inr \<lparr>cr_message = response, cr_untrusted_ad_claim = authenticated_data_claim fl\<rparr>)"

section \<open>Encoding and parsing a query\<close>

definition wf_query :: "parse_limits \<Rightarrow> query \<Rightarrow> bool" where
  "wf_query limits q \<longleftrightarrow> wf_question limits (query_question q) \<and>
     q_class (query_question q) = CLASS_IN \<and> \<not> is_root (q_name (query_question q)) \<and>
     q_type (query_question q) \<noteq> RtOpt"

lemma root_name_ok [simp]: "name_ok limits root_name"
  by (simp add: name_ok_def wf_name_def root_name_def name_wire_len_eq MAX_WIRE_NAME_LEN_def)

lemma query_message_wf:
  "wf_query limits q \<Longrightarrow> 1 \<le> max_questions limits \<Longrightarrow> 1 \<le> max_records limits \<Longrightarrow>
   wf_message limits (query_message q)"
  by (simp add: wf_message_def query_message_def wf_query_def wf_record_def wf_rdata_def
      canonical_type_def from_code_def pseudo_ok_def is_root_def root_name_def
      root_name_ok [unfolded root_name_def])

lemma query_message_fits:
  "list_all (rdata_fits limits)
     (m_answers (query_message q) @ m_authorities (query_message q) @ m_additionals (query_message q))"
  by (simp add: query_message_def rdata_fits_def encode_rdata_def)

lemma query_parse_message:
  assumes "parse_with_limits bs limits = Inr (query_message q)" and "wf_query limits q"
  shows "query_parse bs limits = Inr q"
  using assms
  by (simp add: query_parse_def query_message_def wf_query_def is_response_def opcode_def
      truncated_def slice_get_def has_client_subnet_def is_root_def root_name_def)

lemma query_encode_small:
  assumes "wf_query limits q" and "282 \<le> L"
  shows "query_encode q L = Inr (header_wire (m_header (query_message q)) @
    name_wire (q_name (query_question q)) @ be_bytes 2 (code (q_type (query_question q))) @
    be_bytes 2 CLASS_IN @ [0] @ be_bytes 2 (41 :: u16) @ be_bytes 2 DEFAULT_UDP_PAYLOAD @
    be_bytes 4 (ucast EDNS_DO :: u32) @ be_bytes 2 (0 :: u16))"
proof -
  from assms have n: "wf_name (q_name (query_question q))"
    by (simp add: wf_query_def wf_question_def name_ok_def)
  then have "name_wire_len (q_name (query_question q)) \<le> 255"
    by (simp add: wf_name_def MAX_WIRE_NAME_LEN_def)
  then show ?thesis
    using assms name_encode_wf [OF n]
    by (simp add: query_encode_def message_encode_def query_message_def write_count_def U16_MAX_def
        encode_question_def encode_record_def encode_rdata_def write_u16_def write_u32_def
        header_wire_def wf_query_def name_encode_def root_name_def name_wire_len_def
        MAX_WIRE_NAME_LEN_def Let_def)
qed

end
