(* ===== verification/Dns_Name_Spec.thy ===== *)
theory Dns_Name_Spec
  imports Dns_Name
begin

unbundle bit_operations_syntax

text \<open>
  An abstract reading of compressed names.  \<open>expands m c ls j d\<close> says that the packet \<open>m\<close> denotes the
  label sequence \<open>ls\<close> at position \<open>c\<close>, through \<open>j\<close> pointers and \<open>d\<close> steps in all; a pointer must
  point backwards.  There is no bookkeeping of visited positions in it: a looping packet simply has no
  finite expansion.  \<open>decode_name_iff_expands\<close> shows that the decoder, with its \<open>visited\<close> table, accepts
  exactly the expansions that respect the limits.
\<close>

inductive expands :: "bytes \<Rightarrow> usize \<Rightarrow> bytes list \<Rightarrow> nat \<Rightarrow> nat \<Rightarrow> bool" for m where
  expands_root: "c < length m \<Longrightarrow> m ! c = 0 \<Longrightarrow> expands m c [] 0 0"
| expands_label: "m ! c \<noteq> 0 \<Longrightarrow> m ! c AND 0xc0 = 0 \<Longrightarrow> c + 1 + unat (m ! c) \<le> length m \<Longrightarrow>
     l = canonical_label (take (unat (m ! c)) (drop (c + 1) m)) \<Longrightarrow>
     expands m (c + 1 + unat (m ! c)) ls j d \<Longrightarrow> expands m c (l # ls) j (Suc d)"
| expands_pointer: "c + 2 \<le> length m \<Longrightarrow> m ! c AND 0xc0 = 0xc0 \<Longrightarrow> pointer_at m c < c \<Longrightarrow>
     expands m (pointer_at m c) ls j d \<Longrightarrow> expands m c ls (Suc j) (Suc d)"

lemma expands_depth_unique:
  "expands m c ls j d \<Longrightarrow> expands m c ls' j' d' \<Longrightarrow> d = d'"
proof (induction arbitrary: ls' j' d' rule: expands.induct)
  case (expands_root c)
  from expands_root.prems expands_root.hyps show ?case
    by (cases rule: expands.cases) simp_all
next
  case (expands_label c l ls j d)
  from expands_label.prems show ?case
  proof (cases rule: expands.cases)
    case expands_root
    with expands_label.hyps show ?thesis by simp
  next
    case expands_label
    with \<open>\<And>ls' j' d'. expands m (c + 1 + unat (m ! c)) ls' j' d' \<Longrightarrow> d = d'\<close> show ?thesis by blast
  next
    case expands_pointer
    with expands_label.hyps show ?thesis by simp
  qed
next
  case (expands_pointer c ls j d)
  from expands_pointer.prems show ?case
  proof (cases rule: expands.cases)
    case expands_root
    with expands_pointer.hyps show ?thesis by simp
  next
    case expands_label
    with expands_pointer.hyps show ?thesis by simp
  next
    case expands_pointer
    with \<open>\<And>ls' j' d'. expands m (pointer_at m c) ls' j' d' \<Longrightarrow> d = d'\<close> show ?thesis by blast
  qed
qed

lemma expands_bounded: "expands m c ls j d \<Longrightarrow> c < length m"
  by (induction rule: expands.induct) auto

lemma label_byte_le_63:
  assumes "(b :: u8) AND 0xc0 = 0"
  shows "unat b \<le> MAX_LABEL_LEN"
proof -
  have "list_all (\<lambda>k. (of_nat k :: u8) AND 0xc0 = 0 \<longrightarrow> k \<le> 63) [0..<256]" by code_simp
  moreover have "unat b \<in> set [0..<256]" using unsigned_less [of b, where 'a=nat] by simp
  ultimately have "(of_nat (unat b) :: u8) AND 0xc0 = 0 \<longrightarrow> unat b \<le> 63"
    unfolding list_all_iff by blast
  with assms show ?thesis by (simp add: MAX_LABEL_LEN_def)
qed

lemma decode_name_loop_expands:
  assumes "decode_name_loop m ce limits ls c consumed jumps expanded visited = Inr (n, next)"
    and "length visited = length m" and "jumps \<le> max_compression_jumps limits"
  shows "\<exists>ls' j d. labels n = ls @ ls' \<and> expands m c ls' j d \<and> jumps + j \<le> max_compression_jumps limits"
  using assms
proof (induction "length (filter Not visited)" arbitrary: ls c consumed jumps expanded visited
    rule: less_induct)
  case less
  note IH = less.hyps and prems = less.prems
  from prems(1) show ?case
  proof (cases rule: decode_name_loop_cases)
    case pointer
    from IH [OF unvisited_decreases [OF pointer(1,2)] pointer(8)] prems pointer
    obtain ls' j d where n: "labels n = ls @ ls'" "jumps + 1 + j \<le> max_compression_jumps limits"
      and e: "expands m (pointer_at m c) ls' j d" by auto
    from expands_pointer [OF pointer(4,3,6) e] n show ?thesis by fastforce
  next
    case root
    then show ?thesis using prems expands_root [of c m] by fastforce
  next
    case (label l)
    from IH [OF unvisited_decreases [OF label(1,2)] label(13)] prems label
    obtain ls' j d where n: "labels n = (ls @ [canonical_label l]) @ ls'" "jumps + j \<le> max_compression_jumps limits"
      and e: "expands m (c + 1 + unat (m ! c)) ls' j d" by auto
    have "expands m c (canonical_label l # ls') j (Suc d)"
      by (rule expands_label [OF label(4,5) _ _ e]) (use label in simp_all)
    with n show ?thesis by fastforce
  qed
qed

lemma expands_fresh_update:
  assumes "\<forall>i < length m. visited ! i \<longrightarrow> (\<exists>ls j d'. expands m i ls j d' \<and> Suc d < d')"
    and "expands m c ls j (Suc d)" and "length visited = length m"
  shows "\<forall>i < length m. visited[c := True] ! i \<longrightarrow> (\<exists>ls j d'. expands m i ls j d' \<and> d < d')"
proof (intro allI impI)
  fix i assume "i < length m" and "visited[c := True] ! i"
  with assms show "\<exists>ls j d'. expands m i ls j d' \<and> d < d'"
    by (cases "i = c") (force dest: Suc_lessD)+
qed

lemma expands_decode_name_loop:
  assumes "expands m c ls' j d"
    and "length visited = length m" and "length m \<le> U16_MAX"
    and "\<forall>i < length m. visited ! i \<longrightarrow> (\<exists>ls j d'. expands m i ls j d' \<and> d < d')"
    and "expanded + labels_len ls' \<le> MAX_WIRE_NAME_LEN"
    and "length ls + length ls' \<le> max_labels_per_name limits"
    and "jumps + j \<le> max_compression_jumps limits"
    and "max_compression_jumps limits \<le> usize_max"
  shows "\<exists>next. decode_name_loop m (length m) limits ls c consumed jumps expanded visited
    = Inr (Name (ls @ ls'), next)"
  using assms
proof (induction arbitrary: visited expanded ls jumps consumed rule: expands.induct)
  case (expands_root c)
  then have "\<not> visited ! c"
    using expands_depth_unique [OF expands.expands_root] by (metis less_irrefl)
  with expands_root show ?case
    by (subst decode_name_loop.simps) (simp add: U16_MAX_def usize_max_def)
next
  case (expands_label c l ls' j d)
  have e: "expands m c (l # ls') j (Suc d)" using expands_label.hyps by (rule expands.expands_label)
  let ?raw = "take (unat (m ! c)) (drop (c + 1) m)"
  from expands_bounded [OF e] have c: "c < length m" .
  have nv: "\<not> visited ! c"
    using expands_depth_unique [OF e] expands_label.prems(3) c by (metis less_irrefl)
  have raw: "slice_range m (c + 1) (c + 1 + unat (m ! c)) = Some ?raw"
    using expands_label.hyps(3) by (simp add: slice_range_def)
  note fresh = expands_fresh_update [OF expands_label.prems(3) e expands_label.prems(1)]
  have "length l = unat (m ! c)" using expands_label.hyps(3,4) by simp
  then have "\<exists>next. decode_name_loop m (length m) limits (ls @ [l]) (c + 1 + unat (m ! c)) consumed jumps
      (expanded + (unat (m ! c) + 1)) (visited[c := True]) = Inr (Name ((ls @ [l]) @ ls'), next)"
    by (intro expands_label.IH fresh) (use expands_label.prems in auto)
  then show ?case
    using nv c raw expands_label.hyps expands_label.prems label_byte_le_63 [OF expands_label.hyps(2)]
      \<open>length l = unat (m ! c)\<close>
    by (subst decode_name_loop.simps) (simp add: U16_MAX_def usize_max_def MAX_WIRE_NAME_LEN_def)
next
  case (expands_pointer c ls' j d)
  have e: "expands m c ls' (Suc j) (Suc d)" using expands_pointer.hyps by (rule expands.expands_pointer)
  from expands_bounded [OF e] have c: "c < length m" .
  have nv: "\<not> visited ! c"
    using expands_depth_unique [OF e] expands_pointer.prems(3) c by (metis less_irrefl)
  note fresh = expands_fresh_update [OF expands_pointer.prems(3) e expands_pointer.prems(1)]
  have "\<exists>next. decode_name_loop m (length m) limits ls (pointer_at m c)
      (if consumed = None then Some (c + 2) else consumed) (jumps + 1)
      expanded (visited[c := True]) = Inr (Name (ls @ ls'), next)"
    by (intro expands_pointer.IH fresh) (use expands_pointer.prems in auto)
  then show ?case
    using nv c expands_pointer.hyps expands_pointer.prems
    by (subst decode_name_loop.simps)
      (auto simp: U16_MAX_def usize_max_def Let_def pointer_at_def)
qed

lemma decode_name_iff_expands:
  assumes "length m \<le> U16_MAX" and "max_compression_jumps limits \<le> usize_max"
  shows "(\<exists>next. decode_name m offset (length m) limits = Inr (n, next)) \<longleftrightarrow>
    (\<exists>j d. expands m offset (labels n) j d \<and> j \<le> max_compression_jumps limits) \<and>
    name_wire_len n \<le> MAX_WIRE_NAME_LEN \<and> length (labels n) \<le> max_labels_per_name limits"
    (is "?dec \<longleftrightarrow> ?spec")
proof
  assume ?dec
  then obtain nxt where dec: "decode_name m offset (length m) limits = Inr (n, nxt)" ..
  from decode_name_Inr [OF dec] have "wf_name n" "length (labels n) \<le> max_labels_per_name limits"
    by blast+
  moreover from dec have "\<exists>ls' j d. labels n = [] @ ls' \<and> expands m offset ls' j d \<and>
      0 + j \<le> max_compression_jumps limits"
    by (intro decode_name_loop_expands) (auto simp: decode_name_def split: if_splits)
  ultimately show ?spec by (auto simp: wf_name_def)
next
  assume ?spec
  then obtain j d where e: "expands m offset (labels n) j d" "j \<le> max_compression_jumps limits"
    and b: "name_wire_len n \<le> MAX_WIRE_NAME_LEN" "length (labels n) \<le> max_labels_per_name limits"
    by blast
  have "\<exists>next. decode_name_loop m (length m) limits [] offset None 0 1 (replicate (length m) False)
      = Inr (Name ([] @ labels n), next)"
    by (rule expands_decode_name_loop [OF e(1)]) (use assms e b in \<open>auto simp: name_wire_len_eq\<close>)
  moreover have "offset < length m" using expands_bounded e(1) .
  ultimately show ?dec by (auto simp: decode_name_def)
qed
end
