(* ===== verification/Dns_Properties.thy ===== *)
theory Dns_Properties
  imports Dns_Query Dns_Name_Spec
begin

unbundle bit_operations_syntax

text \<open>
  The properties of the DNS wire codec (src/crates/hns-dns-wire/src/lib.rs), with the concrete
  messages they are evaluated on: a compressed 35-byte response and its parsed form.
\<close>

section \<open>Which errors the encoder can report\<close>

lemma wf_rdata_encodes: "wf_rdata limits ty rd \<Longrightarrow> \<exists>w. encode_rdata ty rd [] = Inr w"
  by (cases rd)
    (auto simp: wf_rdata_def encode_rdata_def encode_soa_def encode_rrsig_def encode_nsec3_def
      encode_txt_eq encode_options_eq bitmaps_ok_def Let_def)

lemma encode_record_error:
  "wf_record limits r \<Longrightarrow> encode_record r out = Inl e \<Longrightarrow> e = EncodeLimit"
  using wf_rdata_encodes [of limits "rr_type r" "rr_rdata r"]
  by (auto simp: wf_record_def encode_record_def Let_def split: if_splits)

lemma encode_question_total:
  "wf_question limits q \<Longrightarrow> encode_question q out \<noteq> Inl e"
  using name_encode_wf [of "q_name q"]
  by (auto simp: wf_question_def name_ok_def encode_question_def)

lemma encode_all_error:
  "encode_all f xs out = Inl e \<Longrightarrow> \<exists>x \<in> set xs. \<exists>out. f x out = Inl e"
  by (induction xs arbitrary: out) (auto simp: rbind_eq_Inl)

lemma message_encode_error:
  assumes "wf_message limits m" and "message_encode m L = Inl e"
  shows "e = EncodeLimit"
proof -
  have q: "encode_all encode_question (m_questions m) out \<noteq> Inl e'" for out e'
    using encode_all_error [of encode_question "m_questions m" out e'] assms(1)
      encode_question_total [of limits]
    by (auto simp: wf_message_def list_all_iff)
  have r: "encode_all encode_record (m_answers m @ m_authorities m @ m_additionals m) out = Inl e' \<Longrightarrow>
      e' = EncodeLimit" for out e'
    using encode_all_error [of encode_record "m_answers m @ m_authorities m @ m_additionals m" out e']
      assms(1) encode_record_error
    by (fastforce simp: wf_message_def list_all_iff)
  have "length (m_questions m) \<le> U16_MAX" "length (m_answers m) \<le> U16_MAX"
      "length (m_authorities m) \<le> U16_MAX" "length (m_additionals m) \<le> U16_MAX"
    using assms(1) by (simp_all add: wf_message_def U16_MAX_def unat_u16_le)
  with assms(2) q r show ?thesis
    by (auto simp: message_encode_def rbind_eq_Inl Let_def write_count_def split: if_splits)
qed

lemma parsed_rdata_fits:
  assumes "message_encode m L = Inr bs" and "U16_MAX \<le> max_rdata_len limits" and "wf_message limits m"
  shows "list_all (rdata_fits limits) (m_answers m @ m_authorities m @ m_additionals m)"
proof -
  have "encode_all encode_record rs out = Inr bs \<Longrightarrow> list_all (rdata_fits limits) rs" for rs out bs
    using assms(2)
    by (induction rs arbitrary: out)
      (auto simp: result_inv encode_record_def rdata_fits_def Let_def split: if_splits)
  moreover obtain c1 c2 c3 where
    "encode_all encode_record (m_answers m) c1 = Inr c2"
    "encode_all encode_record (m_authorities m) c2 = Inr c3"
    "encode_all encode_record (m_additionals m) c3 = Inr bs"
    using message_encode_sections [OF assms(3,1)] by metis
  ultimately show ?thesis by simp
qed

section \<open>Concrete messages\<close>

definition sample_response :: bytes where
  "sample_response =
     [0x12, 0x34, 0x84, 0x20, 0, 1, 0, 1, 0, 0, 0, 0,
      1, 65, 0, 0, 1, 0, 1,
      0xc0, 12, 0, 1, 0, 1, 0, 0, 0, 60, 0, 4, 1, 2, 3, 4]"

definition sample_message :: message where
  "sample_message =
     \<lparr>m_header = \<lparr>hdr_id = 0x1234, hdr_flags = Flags 0x8420, question_count = 1, answer_count = 1,
        authority_count = 0, additional_count = 0\<rparr>,
      m_questions = [\<lparr>q_name = Name [[97]], q_type = RtA, q_class = 1\<rparr>],
      m_answers = [\<lparr>rr_name = Name [[97]], rr_type = RtA, rr_class = 1, rr_ttl = 60,
        rr_rdata = RdA (Ipv4Addr 1 2 3 4)\<rparr>],
      m_authorities = [], m_additionals = []\<rparr>"

definition sample_wire :: bytes where
  "sample_wire =
     [0x12, 0x34, 0x84, 0x20, 0, 1, 0, 1, 0, 0, 0, 0, 1, 97, 0, 0, 1, 0, 1,
      1, 97, 0, 0, 1, 0, 1, 0, 0, 0, 60, 0, 4, 1, 2, 3, 4]"

definition sample_query :: query where
  "sample_query = \<lparr>query_id = 0x1234,
     query_question = \<lparr>q_name = Name [[97]], q_type = RtA, q_class = CLASS_IN\<rparr>\<rparr>"

lemma browser_limits_fields [simp]:
  "max_message_len browser_limits = 65535" "max_questions browser_limits = 4"
  "max_records browser_limits = 2048" "max_rdata_len browser_limits = 65535"
  "max_labels_per_name browser_limits = 127" "max_compression_jumps browser_limits = 32"
  by (simp_all add: browser_limits_def U16_MAX_def)

lemmas eval_defs = usize_max_def U16_MAX_def MAX_LABEL_LEN_def MAX_WIRE_NAME_LEN_def
  slice_get_def slice_range_def slice_from_def be_u16_def be_u32_def be_word_def
  canonical_label_def to_ascii_lowercase_def

lemma sample_length: "length sample_response = 35"
  by (simp add: sample_response_def)

lemma sample_names:
  "decode_name sample_response 12 35 browser_limits = Inr (Name [[97]], 15)"
  "decode_name sample_response 19 35 browser_limits = Inr (Name [[97]], 21)"
  by (simp_all add: sample_response_def eval_defs decode_name_def decode_name_loop.simps
      cong: rbind_weak_cong let_weak_cong)

lemma sample_header: "header_parse sample_response = Inr (m_header sample_message)"
  by (simp add: header_parse_def sample_message_def sample_response_def eval_defs cong: rbind_weak_cong)

lemma sample_question:
  "parse_question sample_response 12 browser_limits =
     Inr (\<lparr>q_name = Name [[97]], q_type = RtA, q_class = 1\<rparr>, 19)"
  unfolding parse_question_def sample_length sample_names
  by (simp add: sample_response_def eval_defs from_code_def cong: rbind_weak_cong)

lemma sample_record:
  "parse_record sample_response 19 browser_limits =
     Inr (\<lparr>rr_name = Name [[97]], rr_type = RtA, rr_class = 1, rr_ttl = 60,
           rr_rdata = RdA (Ipv4Addr 1 2 3 4)\<rparr>, 35)"
  unfolding parse_record_def sample_length sample_names
  by (simp add: sample_response_def eval_defs from_code_def parse_rdata_def rmap_def Let_def
      cong: rbind_weak_cong)

lemma sample_parse: "message_parse sample_response = Inr sample_message"
  by (simp add: message_parse_def parse_with_limits_def sample_length sample_header sample_question
      sample_record sample_message_def usize_max_def U16_MAX_def validate_pseudo_records_def
      cong: rbind_weak_cong)

lemma sample_encode: "message_encode sample_message 512 = Inr sample_wire"
  by (simp add: message_encode_def sample_message_def sample_wire_def write_count_def write_u16_def
      write_u32_def encode_question_def encode_record_def encode_rdata_def name_encode_def
      name_wire_len_def eval_defs be_bytes_def le_bytes_def upt_rec)

lemma sample_wf: "wf_message browser_limits sample_message"
  using parse_with_limits_wf sample_parse unfolding message_parse_def by blast

section \<open>Properties\<close>

text \<open>C2: Encoding then parsing a well-formed message gives the message back: whenever the message
  satisfies the parser's invariant, every record's data fits the RDATA limit and the encoder returns
  bytes within the message limits, the parser accepts exactly these bytes and returns the message.\<close>

theorem message_roundtrip:
  assumes "wf_message limits m"
    and "list_all (rdata_fits limits) (m_answers m @ m_authorities m @ m_additionals m)"
    and "message_encode m L = Inr bs"
    and "length bs \<le> max_message_len limits" and "length bs \<le> U16_MAX"
  shows "parse_with_limits bs limits = Inr m"
  using assms by (rule message_roundtrip_aux)

theorem message_roundtrip_witness: "parse_with_limits sample_wire browser_limits = Inr sample_message"
  by (rule message_roundtrip [OF sample_wf parsed_rdata_fits [OF sample_encode _ sample_wf] sample_encode])
    (simp_all add: sample_wire_def U16_MAX_def)

text \<open>C19: Every message the parser accepts, under any limits, satisfies the message invariant: section
  lengths equal the header's counts and respect the limits, names are lower-cased with labels of 1 to
  63 bytes and at most 255 wire bytes, each RDATA is of the type its record declares with its
  structural constraints, and the OPT pseudo-record occurs at most once, at the root, in the
  additional section.\<close>

theorem parse_establishes_invariant:
  assumes "parse_with_limits bs limits = Inr m"
  shows "wf_message limits m"
  using assms by (rule parse_with_limits_wf)

theorem parse_establishes_invariant_witness:
  "wf_message browser_limits sample_message \<and> length (m_answers sample_message) = 1"
  using parse_establishes_invariant [of sample_response browser_limits sample_message] sample_parse
  by (simp add: message_parse_def sample_message_def)

text \<open>Re-encoding is stable: a message parsed from the network, name compression included, can be
  encoded under a limit of at most 65535 bytes and parsed again with the same result, or the encoder
  reports \<open>EncodeLimit\<close>; no other outcome exists.\<close>

lemma reencode_stable:
  assumes "message_parse bs = Inr m" and "L \<le> U16_MAX"
  shows "message_encode m L = Inl EncodeLimit \<or>
    (\<exists>bs'. message_encode m L = Inr bs' \<and> length bs' \<le> L \<and> message_parse bs' = Inr m)"
proof (cases "message_encode m L")
  case (Inl e)
  with message_encode_error parse_with_limits_wf assms(1) show ?thesis
    unfolding message_parse_def by blast
next
  case (Inr bs')
  have wf: "wf_message browser_limits m"
    using assms(1) parse_with_limits_wf unfolding message_parse_def by blast
  from message_encode_sections [OF wf Inr] have len: "length bs' \<le> L" by metis
  have "parse_with_limits bs' browser_limits = Inr m"
    by (rule message_roundtrip_aux [OF wf parsed_rdata_fits [OF Inr _ wf] Inr])
      (use len assms(2) in \<open>simp_all add: U16_MAX_def\<close>)
  with Inr len show ?thesis by (simp add: message_parse_def)
qed

lemma reencode_stable_witness:
  "\<exists>bs'. message_encode sample_message 512 = Inr bs' \<and> message_parse bs' = Inr sample_message"
  using reencode_stable [OF sample_parse, of 512] sample_encode by (auto simp: U16_MAX_def)

text \<open>C18: The name decoder implements the abstract expansion relation: at any offset of a message of
  at most 65535 bytes it returns a name exactly when following labels and strictly backward
  compression pointers yields these labels, lower-cased, using no more pointers than the limit, at
  most 255 wire bytes and no more labels than the limit.  In particular the loop always ends.\<close>

theorem decode_name_refines_expansion:
  assumes "length m \<le> U16_MAX" and "max_compression_jumps limits \<le> usize_max"
  shows "(\<exists>next. decode_name m offset (length m) limits = Inr (n, next)) \<longleftrightarrow>
    (\<exists>j d. expands m offset (labels n) j d \<and> j \<le> max_compression_jumps limits) \<and>
    name_wire_len n \<le> MAX_WIRE_NAME_LEN \<and> length (labels n) \<le> max_labels_per_name limits"
  using assms by (rule decode_name_iff_expands)

theorem decode_name_refines_expansion_witness:
  "\<exists>j d. expands sample_response 19 [[97]] j d \<and> j \<le> 32"
  using decode_name_refines_expansion [of sample_response browser_limits 19 "Name [[97]]"]
    sample_names(2) by (auto simp: sample_length U16_MAX_def usize_max_def)

text \<open>The checked additions of the parser never overflow: no input, of any length and under any
  limits, makes it report \<open>LengthOverflow\<close>.\<close>

lemma parse_never_overflows: "parse_with_limits bs limits \<noteq> Inl LengthOverflow"
  using overflow_free_parse [of bs limits] by (simp add: overflow_free_def)

text \<open>A query built from a well-formed question always encodes when 282 bytes of space are allowed, and
  the strict query parser returns the same query from the encoded bytes.\<close>

lemma query_roundtrip:
  assumes "wf_query limits q" and "1 \<le> max_questions limits" and "1 \<le> max_records limits"
    and "282 \<le> L" and "282 \<le> max_message_len limits"
  shows "\<exists>bs. query_encode q L = Inr bs \<and> query_parse bs limits = Inr q"
proof -
  from query_encode_small [OF assms(1,4)] obtain bs where
    enc: "query_encode q L = Inr bs" by blast
  have n: "name_wire_len (q_name (query_question q)) \<le> 255"
    using assms(1) by (simp add: wf_query_def wf_question_def name_ok_def wf_name_def MAX_WIRE_NAME_LEN_def)
  have "query_encode q 282 = Inr bs"
    using query_encode_small [OF assms(1,4)] query_encode_small [OF assms(1), of 282] enc by simp
  then have "length bs \<le> 282"
    using message_encode_sections [OF query_message_wf [OF assms(1-3)]]
    unfolding query_encode_def by metis
  with assms(5) have "parse_with_limits bs limits = Inr (query_message q)"
    using message_roundtrip_aux [OF query_message_wf [OF assms(1-3)] query_message_fits]
      enc unfolding query_encode_def by (simp add: U16_MAX_def)
  from query_parse_message [OF this assms(1)] enc show ?thesis by blast
qed

lemma query_roundtrip_witness:
  "\<exists>bs. query_encode sample_query 512 = Inr bs \<and> query_parse bs requester_limits = Inr sample_query"
  by (rule query_roundtrip)
    (simp_all add: sample_query_def wf_query_def wf_question_def name_ok_def wf_name_def wf_label_def
      requester_limits_def U16_MAX_def MAX_LABEL_LEN_def MAX_WIRE_NAME_LEN_def canonical_label_def
      to_ascii_lowercase_def name_wire_len_def canonical_type_def from_code_def is_root_def root_name_def)

text \<open>A response is correlated with a query exactly when it is a response, carries the query's
  identifier, has opcode 0, is not truncated and repeats precisely the one question asked; the
  result is the response itself with the server's AD bit kept as an untrusted claim.\<close>

lemma correlate_iff:
  "correlate q response = Inr c \<longleftrightarrow>
     is_response (hdr_flags (m_header response)) \<and> hdr_id (m_header response) = query_id q \<and>
     opcode (hdr_flags (m_header response)) = 0 \<and> \<not> truncated (hdr_flags (m_header response)) \<and>
     m_questions response = [query_question q] \<and> cr_message c = response \<and>
     cr_untrusted_ad_claim c = authenticated_data_claim (hdr_flags (m_header response))"
  by (cases c) (auto simp: correlate_def Let_def)

text \<open>The presentation form of a name reads back: for a well-formed name whose labels consist of
  letters, digits, hyphens and underscores, \<open>from_ascii\<close> applied to \<open>Display\<close>'s output returns the
  name.\<close>

lemma name_display_roundtrip:
  assumes "wf_name n" and "plain_name n"
  shows "from_ascii (name_display n) = Inr n"
  using assms by (rule from_ascii_display)

theorem name_display_roundtrip_witness:
  "from_ascii (name_display (Name [[97, 45], [95, 48]])) = Inr (Name [[97, 45], [95, 48]])"
  by (rule name_display_roundtrip)
    (simp_all add: wf_name_def wf_label_def plain_name_def plain_byte_def is_ascii_alphanumeric_def
      MAX_LABEL_LEN_def MAX_WIRE_NAME_LEN_def canonical_label_def to_ascii_lowercase_def
      name_wire_len_def)

end
