(* ===== verification/Runtime.thy ===== *)
theory Runtime
  imports Prelude "HOL-Library.Sublist"
begin

text \<open>
  The browser runtime's authority life cycle (src/crates/hns-browser-runtime/src/lib.rs): the session
  identity, the two monotonic \<open>u64\<close> counters, the transition graph, and the admission stamps that tie
  a unit of work to a session, a generation and the last invalidation.  An operation is a function to
  the next state and its result; the sequences of operations a client may issue are lists of
  \<open>runtime_op\<close>.
\<close>

section \<open>Data\<close>

datatype runtime_error =
  ZeroSession | InvalidAuthorityTransition | CounterExhausted | RuntimeStopped | AuthorityNotReady

datatype authority_state =
  Uninitialized | LocalStateOpened | HeaderSyncing | HeaderCurrent | ProofReady
| ResolutionTransportReady | DnssecVerified | DaneOriginVerified | BrowserBridgeReady | Active
| Degraded | Revoked | Stopped

definition RUNTIME_SCHEMA_VERSION :: u16 where
  "RUNTIME_SCHEMA_VERSION = 2"

datatype runtime_session_id = RuntimeSessionId (session_bytes: bytes)

definition session_id_new :: "bytes \<Rightarrow> (runtime_error, runtime_session_id) result" where
  "session_id_new bs =
     (if (be_word bs :: 128 word) = 0 then Inl ZeroSession else Inr (RuntimeSessionId bs))"

record runtime_snapshot =
  snap_schema_version :: u16
  snap_session :: runtime_session_id
  snap_generation :: u64
  snap_event_sequence :: u64
  snap_authority_state :: authority_state

record runtime_stamp =
  stamp_session :: runtime_session_id
  stamp_generation :: u64
  stamp_event_sequence :: u64

record browser_runtime =
  rt_session :: runtime_session_id
  rt_generation :: u64
  rt_event_sequence :: u64
  rt_invalidation_sequence :: u64
  rt_authority_state :: authority_state

section \<open>Operations\<close>

definition runtime_new :: "runtime_session_id \<Rightarrow> browser_runtime" where
  "runtime_new session =
     \<lparr>rt_session = session, rt_generation = 1, rt_event_sequence = 0,
      rt_invalidation_sequence = 0, rt_authority_state = Uninitialized\<rparr>"

definition snapshot :: "browser_runtime \<Rightarrow> runtime_snapshot" where
  "snapshot rt =
     \<lparr>snap_schema_version = RUNTIME_SCHEMA_VERSION, snap_session = rt_session rt,
      snap_generation = rt_generation rt, snap_event_sequence = rt_event_sequence rt,
      snap_authority_state = rt_authority_state rt\<rparr>"

definition ensure_policy_change_capacity :: "browser_runtime \<Rightarrow> (runtime_error, unit) result" where
  "ensure_policy_change_capacity rt =
     (if rt_generation rt = - 1 \<or> rt_event_sequence rt = - 1 then Inl CounterExhausted else Inr ())"

definition policy_changed ::
  "browser_runtime \<Rightarrow> browser_runtime \<times> (runtime_error, runtime_snapshot) result" where
  "policy_changed rt =
     (case ensure_policy_change_capacity rt of
        Inl e \<Rightarrow> (rt, Inl e)
      | Inr _ \<Rightarrow>
          let rt = rt\<lparr>rt_generation := rt_generation rt + 1\<rparr>;
              rt = rt\<lparr>rt_event_sequence := rt_event_sequence rt + 1\<rparr>;
              rt = rt\<lparr>rt_invalidation_sequence := rt_event_sequence rt\<rparr>;
              rt = (if rt_authority_state rt \<noteq> Stopped then rt\<lparr>rt_authority_state := Revoked\<rparr> else rt)
          in (rt, Inr (snapshot rt)))"

definition authority_admits_work :: "authority_state \<Rightarrow> bool" where
  "authority_admits_work st \<longleftrightarrow>
     (case st of ResolutionTransportReady \<Rightarrow> True | DnssecVerified \<Rightarrow> True | DaneOriginVerified \<Rightarrow> True
      | BrowserBridgeReady \<Rightarrow> True | Active \<Rightarrow> True | _ \<Rightarrow> False)"

definition is_invalidating :: "authority_state \<Rightarrow> bool" where
  "is_invalidating st \<longleftrightarrow>
     (case st of Degraded \<Rightarrow> True | Revoked \<Rightarrow> True | Stopped \<Rightarrow> True | _ \<Rightarrow> False)"

definition valid_authority_transition :: "authority_state \<Rightarrow> authority_state \<Rightarrow> bool" where
  "valid_authority_transition current nxt \<longleftrightarrow>
     (case current of
        Uninitialized \<Rightarrow> nxt = LocalStateOpened \<or> is_invalidating nxt
      | LocalStateOpened \<Rightarrow> nxt = HeaderSyncing \<or> is_invalidating nxt
      | HeaderSyncing \<Rightarrow> nxt = HeaderCurrent \<or> is_invalidating nxt
      | HeaderCurrent \<Rightarrow> nxt = ProofReady \<or> is_invalidating nxt
      | ProofReady \<Rightarrow> nxt = ResolutionTransportReady \<or> is_invalidating nxt
      | ResolutionTransportReady \<Rightarrow>
          nxt = DnssecVerified \<or> nxt = BrowserBridgeReady \<or> is_invalidating nxt
      | DnssecVerified \<Rightarrow> nxt = DaneOriginVerified \<or> nxt = BrowserBridgeReady \<or> is_invalidating nxt
      | DaneOriginVerified \<Rightarrow> nxt = BrowserBridgeReady \<or> is_invalidating nxt
      | BrowserBridgeReady \<Rightarrow> nxt = Active \<or> is_invalidating nxt
      | Active \<Rightarrow> is_invalidating nxt
      | Degraded \<Rightarrow> nxt = HeaderSyncing \<or> nxt = Stopped
      | Revoked \<Rightarrow> nxt = HeaderSyncing \<or> nxt = Stopped
      | Stopped \<Rightarrow> False)"

definition transition ::
  "browser_runtime \<Rightarrow> authority_state \<Rightarrow> browser_runtime \<times> (runtime_error, runtime_snapshot) result"
where
  "transition rt nxt =
     (if \<not> valid_authority_transition (rt_authority_state rt) nxt
      then (rt, Inl InvalidAuthorityTransition)
      else case u64_checked_add (rt_event_sequence rt) 1 of
        None \<Rightarrow> (rt, Inl CounterExhausted)
      | Some event_sequence \<Rightarrow>
          let rt = rt\<lparr>rt_event_sequence := event_sequence\<rparr>;
              rt = (if is_invalidating nxt then rt\<lparr>rt_invalidation_sequence := event_sequence\<rparr> else rt);
              rt = rt\<lparr>rt_authority_state := nxt\<rparr>
          in (rt, Inr (snapshot rt)))"

definition admit_event :: "browser_runtime \<Rightarrow> browser_runtime \<times> (runtime_error, runtime_stamp) result" where
  "admit_event rt =
     (if rt_authority_state rt = Stopped then (rt, Inl RuntimeStopped)
      else if \<not> (case rt_authority_state rt of ResolutionTransportReady \<Rightarrow> True | DnssecVerified \<Rightarrow> True
                 | DaneOriginVerified \<Rightarrow> True | BrowserBridgeReady \<Rightarrow> True | Active \<Rightarrow> True | _ \<Rightarrow> False)
      then (rt, Inl AuthorityNotReady)
      else case u64_checked_add (rt_event_sequence rt) 1 of
        None \<Rightarrow> (rt, Inl CounterExhausted)
      | Some event_sequence \<Rightarrow>
          let rt = rt\<lparr>rt_event_sequence := event_sequence\<rparr>
          in (rt, Inr \<lparr>stamp_session = rt_session rt, stamp_generation = rt_generation rt,
                       stamp_event_sequence = rt_event_sequence rt\<rparr>))"

definition admits :: "browser_runtime \<Rightarrow> runtime_stamp \<Rightarrow> bool" where
  "admits rt stamp \<longleftrightarrow>
     authority_admits_work (rt_authority_state rt) \<and> stamp_session stamp = rt_session rt \<and>
     stamp_generation stamp = rt_generation rt \<and>
     rt_invalidation_sequence rt < stamp_event_sequence stamp \<and>
     stamp_event_sequence stamp \<le> rt_event_sequence rt"

section \<open>Sequences of operations\<close>

datatype runtime_op = OpPolicyChanged | OpTransition authority_state | OpAdmitEvent

definition runtime_exec :: "browser_runtime \<Rightarrow> runtime_op \<Rightarrow> browser_runtime" where
  "runtime_exec rt op =
     (case op of OpPolicyChanged \<Rightarrow> fst (policy_changed rt) | OpTransition st \<Rightarrow> fst (transition rt st)
      | OpAdmitEvent \<Rightarrow> fst (admit_event rt))"

text \<open>Whether an operation succeeds and invalidates the work admitted so far.\<close>

definition invalidates :: "browser_runtime \<Rightarrow> runtime_op \<Rightarrow> bool" where
  "invalidates rt op =
     (case op of
        OpPolicyChanged \<Rightarrow> \<not> isl (snd (policy_changed rt))
      | OpTransition st \<Rightarrow> is_invalidating st \<and> \<not> isl (snd (transition rt st))
      | OpAdmitEvent \<Rightarrow> False)"

fun some_invalidates :: "browser_runtime \<Rightarrow> runtime_op list \<Rightarrow> bool" where
  "some_invalidates rt [] = False"
| "some_invalidates rt (op # ops) = (invalidates rt op \<or> some_invalidates (runtime_exec rt op) ops)"

inductive runtime_reachable :: "runtime_session_id \<Rightarrow> browser_runtime \<Rightarrow> bool" for sid where
  reachable_new: "runtime_reachable sid (runtime_new sid)"
| reachable_exec: "runtime_reachable sid rt \<Longrightarrow> runtime_reachable sid (runtime_exec rt op)"

section \<open>What one operation does\<close>

lemmas exec_defs = runtime_exec_def policy_changed_def transition_def admit_event_def
  ensure_policy_change_capacity_def u64_succ Let_def snapshot_def

definition runtime_inv :: "runtime_session_id \<Rightarrow> browser_runtime \<Rightarrow> bool" where
  "runtime_inv sid rt \<longleftrightarrow> rt_session rt = sid \<and> 1 \<le> unat (rt_generation rt) \<and>
     rt_invalidation_sequence rt \<le> rt_event_sequence rt \<and>
     unat (rt_generation rt) \<le> Suc (unat (rt_event_sequence rt))"

lemma runtime_inv_exec: "runtime_inv sid rt \<Longrightarrow> runtime_inv sid (runtime_exec rt op)"
  by (cases op) (auto simp: exec_defs runtime_inv_def unat_succ le_succ split: authority_state.split)

lemma runtime_events_mono: "rt_event_sequence rt \<le> rt_event_sequence (runtime_exec rt op)"
  by (cases op) (auto simp: exec_defs le_succ split: authority_state.split)

lemma runtime_generation_mono: "rt_generation rt \<le> rt_generation (runtime_exec rt op)"
  by (cases op) (auto simp: exec_defs le_succ split: authority_state.split)

lemma runtime_invalidation_mono:
  "runtime_inv sid rt \<Longrightarrow> rt_invalidation_sequence rt \<le> rt_invalidation_sequence (runtime_exec rt op)"
  by (cases op) (auto simp: exec_defs runtime_inv_def le_succ split: authority_state.split)

lemma stopped_exec:
  "rt_authority_state rt = Stopped \<Longrightarrow> rt_authority_state (runtime_exec rt op) = Stopped"
  by (cases op) (auto simp: exec_defs valid_authority_transition_def)

text \<open>A stamp of this session is dead once an invalidation is at least as recent as the stamp.\<close>

definition stamp_dead :: "runtime_stamp \<Rightarrow> browser_runtime \<Rightarrow> bool" where
  "stamp_dead stamp rt \<longleftrightarrow> stamp_event_sequence stamp \<le> rt_invalidation_sequence rt"

interpretation life_cycle: ranked_machine runtime_exec "runtime_inv sid"
    "\<lambda>rt. unat (rt_event_sequence rt)" for sid
  by unfold_locales (simp_all add: runtime_inv_exec runtime_events_mono word_le_nat_alt [symmetric])

interpretation generations: ranked_machine runtime_exec "runtime_inv sid"
    "\<lambda>rt. unat (rt_generation rt)" for sid
  by unfold_locales (simp_all add: runtime_generation_mono word_le_nat_alt [symmetric])

interpretation shutdown: guarded_machine runtime_exec "runtime_inv sid"
    "\<lambda>rt. rt_authority_state rt = Stopped" for sid
  by unfold_locales (rule stopped_exec)

interpretation dead_stamps: guarded_machine runtime_exec "runtime_inv sid" "stamp_dead stamp"
    for sid stamp
  by unfold_locales (unfold stamp_dead_def, meson runtime_invalidation_mono order_trans)

lemma reachable_inv: "runtime_reachable sid rt \<Longrightarrow> runtime_inv sid rt"
  by (induction rule: runtime_reachable.induct)
    (simp_all add: runtime_inv_exec, simp add: runtime_inv_def runtime_new_def)

section \<open>Stamps\<close>

lemma admits_exec:
  assumes "admits rt stamp" and "\<not> invalidates rt op"
  shows "admits (runtime_exec rt op) stamp"
proof (cases op)
  case OpPolicyChanged
  with assms show ?thesis by (auto simp: exec_defs invalidates_def split: if_splits)
next
  case (OpTransition st)
  with assms show ?thesis
    by (auto simp: exec_defs invalidates_def admits_def valid_authority_transition_def le_succ
        authority_admits_work_def split: if_splits authority_state.splits)
next
  case OpAdmitEvent
  with assms show ?thesis
    by (auto simp: exec_defs admits_def le_succ split: authority_state.splits)
qed

lemma invalidates_kills:
  assumes "admits rt stamp" and "invalidates rt op"
  shows "stamp_dead stamp (runtime_exec rt op)"
  using assms
  by (cases op)
    (auto simp: exec_defs invalidates_def admits_def stamp_dead_def le_succ split: if_splits)

lemma dead_not_admitted: "stamp_dead stamp rt \<Longrightarrow> \<not> admits rt stamp"
  by (simp add: stamp_dead_def admits_def linorder_not_less)

lemma run_inv_reachable: "runtime_reachable sid rt \<Longrightarrow> runtime_inv sid (foldl runtime_exec rt ops)"
  by (rule life_cycle.run_inv [OF reachable_inv])

lemma stamp_admission:
  assumes "runtime_inv sid rt" and "admits rt stamp"
  shows "admits (foldl runtime_exec rt ops) stamp \<longleftrightarrow> \<not> some_invalidates rt ops"
  using assms
proof (induction ops arbitrary: rt)
  case (Cons op ops)
  note inv' = runtime_inv_exec [OF Cons.prems(1), of op]
  show ?case
  proof (cases "invalidates rt op")
    case True
    have "stamp_dead stamp (foldl runtime_exec (runtime_exec rt op) ops)"
      by (rule dead_stamps.run_final [OF inv' invalidates_kills [OF Cons.prems(2) True]])
    with True show ?thesis by (simp add: dead_not_admitted)
  next
    case False
    with Cons.IH [OF inv' admits_exec [OF Cons.prems(2) False]] show ?thesis by simp
  qed
qed simp

lemma admit_event_admits:
  assumes "runtime_inv sid rt" and "admit_event rt = (rt', Inr stamp)"
  shows "admits rt' stamp" and "rt' = runtime_exec rt OpAdmitEvent"
    and "stamp_event_sequence stamp = rt_event_sequence rt'"
    and "unat (rt_event_sequence rt') = Suc (unat (rt_event_sequence rt))"
  using assms
  by (auto simp: admit_event_def runtime_exec_def admits_def authority_admits_work_def u64_succ Let_def
      runtime_inv_def less_succ_iff unat_succ split: if_splits authority_state.splits)

section \<open>The path to readiness\<close>

text \<open>
  The transitions still to be taken before work can be admitted.  \<open>LocalStateOpened\<close> is not among
  them: the graph lets a runtime pass from \<open>Uninitialized\<close> through \<open>Degraded\<close> or \<open>Revoked\<close> to
  \<open>HeaderSyncing\<close>.
\<close>

fun pending :: "authority_state \<Rightarrow> authority_state list" where
  "pending Uninitialized = [HeaderSyncing, HeaderCurrent, ProofReady, ResolutionTransportReady]"
| "pending LocalStateOpened = [HeaderSyncing, HeaderCurrent, ProofReady, ResolutionTransportReady]"
| "pending HeaderSyncing = [HeaderCurrent, ProofReady, ResolutionTransportReady]"
| "pending HeaderCurrent = [ProofReady, ResolutionTransportReady]"
| "pending ProofReady = [ResolutionTransportReady]"
| "pending Degraded = [HeaderSyncing, HeaderCurrent, ProofReady, ResolutionTransportReady]"
| "pending Revoked = [HeaderSyncing, HeaderCurrent, ProofReady, ResolutionTransportReady]"
| "pending Stopped = [HeaderSyncing, HeaderCurrent, ProofReady, ResolutionTransportReady]"
| "pending _ = []"

lemma pending_exec:
  "subseq (pending (rt_authority_state rt))
     ((case op of OpTransition st \<Rightarrow> [st] | _ \<Rightarrow> []) @ pending (rt_authority_state (runtime_exec rt op)))"
  by (cases op; cases "rt_authority_state rt")
    (auto simp: exec_defs valid_authority_transition_def is_invalidating_def split: authority_state.splits)

definition transitions :: "runtime_op list \<Rightarrow> authority_state list" where
  "transitions ops = concat (map (\<lambda>op. case op of OpTransition st \<Rightarrow> [st] | _ \<Rightarrow> []) ops)"

lemma pending_run:
  "subseq (pending (rt_authority_state rt))
     (transitions ops @ pending (rt_authority_state (foldl runtime_exec rt ops)))"
proof (induction ops arbitrary: rt)
  case (Cons op ops)
  let ?t = "case op of OpTransition st \<Rightarrow> [st] | _ \<Rightarrow> []"
  have "subseq (pending (rt_authority_state rt)) (?t @ pending (rt_authority_state (runtime_exec rt op)))"
    by (rule pending_exec)
  also have "subseq (?t @ pending (rt_authority_state (runtime_exec rt op)))
      (?t @ transitions ops @ pending (rt_authority_state (foldl runtime_exec (runtime_exec rt op) ops)))"
    by (rule list_emb_append_mono [OF _ Cons.IH]) simp_all
  finally show ?case by (simp add: transitions_def)
qed (simp add: transitions_def)

lemma admits_work_pending: "authority_admits_work st \<Longrightarrow> pending st = []"
  by (cases st) (simp_all add: authority_admits_work_def)

section \<open>Properties\<close>

text \<open>C7: Exact life time of an admission stamp: in every reachable runtime, a stamp issued by
  \<open>admit_event\<close> is admitted after any further sequence of operations if and only if none of them was
  a successful policy change or a successful transition to \<open>Degraded\<close>, \<open>Revoked\<close> or \<open>Stopped\<close>.  In
  particular revoked work is never admitted again, whatever follows.\<close>

theorem stamp_lifetime:
  assumes "runtime_reachable sid rt" and "admit_event rt = (rt', Inr stamp)"
  shows "admits (foldl runtime_exec rt' ops) stamp \<longleftrightarrow> \<not> some_invalidates rt' ops"
proof -
  note inv = reachable_inv [OF assms(1)]
  note ev = admit_event_admits [OF inv assms(2)]
  have "runtime_inv sid rt'" using runtime_inv_exec [OF inv] ev(2) by simp
  from stamp_admission [OF this ev(1)] show ?thesis .
qed

definition sample_session :: runtime_session_id where
  "sample_session = RuntimeSessionId (replicate 15 0 @ [7])"

definition ready_ops :: "runtime_op list" where
  "ready_ops = map OpTransition
     [LocalStateOpened, HeaderSyncing, HeaderCurrent, ProofReady, ResolutionTransportReady]"

definition ready_runtime :: browser_runtime where
  "ready_runtime = \<lparr>rt_session = sample_session, rt_generation = 1, rt_event_sequence = 5,
     rt_invalidation_sequence = 0, rt_authority_state = ResolutionTransportReady\<rparr>"

lemma ready_run: "foldl runtime_exec (runtime_new sample_session) ready_ops = ready_runtime"
  by (simp add: ready_ops_def ready_runtime_def runtime_new_def exec_defs valid_authority_transition_def
      is_invalidating_def)

lemma reachable_run: "runtime_reachable sid rt \<Longrightarrow> runtime_reachable sid (foldl runtime_exec rt ops)"
  by (induction ops arbitrary: rt) (simp_all add: reachable_exec)

lemma ready_reachable: "runtime_reachable sample_session ready_runtime"
  using reachable_run [OF reachable_new, of sample_session ready_ops] by (simp add: ready_run)

lemmas ready_eval = exec_defs ready_runtime_def valid_authority_transition_def is_invalidating_def

theorem stamp_lifetime_witness:
  "\<exists>rt' stamp. admit_event ready_runtime = (rt', Inr stamp) \<and>
     admits (foldl runtime_exec rt' [OpTransition DnssecVerified, OpAdmitEvent]) stamp \<and>
     \<not> admits (foldl runtime_exec rt' [OpPolicyChanged, OpTransition HeaderSyncing]) stamp"
proof -
  let ?rt' = "ready_runtime\<lparr>rt_event_sequence := 6\<rparr>"
  let ?s = "\<lparr>stamp_session = sample_session, stamp_generation = 1, stamp_event_sequence = 6\<rparr>"
  have e: "admit_event ready_runtime = (?rt', Inr ?s)" by (simp add: ready_eval)
  from stamp_lifetime [OF ready_reachable e, of "[OpTransition DnssecVerified, OpAdmitEvent]"]
    stamp_lifetime [OF ready_reachable e, of "[OpPolicyChanged, OpTransition HeaderSyncing]"]
  have "admits (foldl runtime_exec ?rt' [OpTransition DnssecVerified, OpAdmitEvent]) ?s"
      "\<not> admits (foldl runtime_exec ?rt' [OpPolicyChanged, OpTransition HeaderSyncing]) ?s"
    by (simp_all add: ready_eval invalidates_def)
  with e show ?thesis by blast
qed

text \<open>No work is admitted before the authority path has been walked: if some sequence of operations
  leads a runtime that is new, has only opened its local state, or was degraded or revoked to a
  successful \<open>admit_event\<close>, then the requested transitions contain, in this order, header
  synchronisation, header currency, proof readiness and transport readiness.\<close>

lemma admission_requires_path:
  assumes "rt_authority_state rt \<in> {Uninitialized, LocalStateOpened, Degraded, Revoked}"
    and "snd (admit_event (foldl runtime_exec rt ops)) = Inr stamp"
  shows "subseq [HeaderSyncing, HeaderCurrent, ProofReady, ResolutionTransportReady] (transitions ops)"
proof -
  let ?rt' = "foldl runtime_exec rt ops"
  from assms(2) have "authority_admits_work (rt_authority_state ?rt')"
    by (auto simp: admit_event_def authority_admits_work_def split: if_splits authority_state.splits)
  with pending_run [of rt ops] have "subseq (pending (rt_authority_state rt)) (transitions ops)"
    by (simp add: admits_work_pending)
  with assms(1) show ?thesis by auto
qed

lemma admission_requires_path_witness:
  "subseq [HeaderSyncing, HeaderCurrent, ProofReady, ResolutionTransportReady] (transitions ready_ops)"
  using admission_requires_path [of "runtime_new sample_session" ready_ops
      "\<lparr>stamp_session = sample_session, stamp_generation = 1, stamp_event_sequence = 6\<rparr>"]
  unfolding ready_run
  by (simp add: runtime_new_def ready_eval)

text \<open>\<open>Stopped\<close> is terminal and silent: once a reachable runtime is stopped, it stays stopped under
  every sequence of operations and \<open>admit_event\<close> and \<open>transition\<close> are refused, with the state
  unchanged.\<close>

lemma stopped_is_terminal:
  assumes "runtime_reachable sid rt" and "rt_authority_state rt = Stopped"
    and "rt' = foldl runtime_exec rt ops"
  shows "rt_authority_state rt' = Stopped \<and> admit_event rt' = (rt', Inl RuntimeStopped) \<and>
    transition rt' st = (rt', Inl InvalidAuthorityTransition)"
proof -
  have "rt_authority_state rt' = Stopped"
    unfolding assms(3) by (rule shutdown.run_final [OF reachable_inv [OF assms(1)] assms(2)])
  then show ?thesis by (simp add: admit_event_def transition_def valid_authority_transition_def)
qed

lemma stopped_is_terminal_witness:
  "snd (admit_event (foldl runtime_exec (runtime_exec ready_runtime (OpTransition Stopped))
     [OpPolicyChanged, OpTransition HeaderSyncing])) = Inl RuntimeStopped"
  using stopped_is_terminal [OF reachable_exec [OF ready_reachable, of "OpTransition Stopped"] _ refl,
      of "[OpPolicyChanged, OpTransition HeaderSyncing]"]
  by (simp add: ready_eval)

text \<open>The two counters never wrap: along every sequence of operations from a reachable runtime,
  generation and event sequence do not decrease as natural numbers, the session is kept, and the last
  invalidation never lies in the future of the event clock.\<close>

lemma counters_monotone:
  assumes "runtime_reachable sid rt" and "rt' = foldl runtime_exec rt ops"
  shows "unat (rt_generation rt) \<le> unat (rt_generation rt') \<and>
    unat (rt_event_sequence rt) \<le> unat (rt_event_sequence rt') \<and> rt_session rt' = sid \<and>
    rt_invalidation_sequence rt' \<le> rt_event_sequence rt'"
  using run_inv_reachable [OF assms(1)] life_cycle.run_rank [OF reachable_inv [OF assms(1)]]
    generations.run_rank [OF reachable_inv [OF assms(1)]]
  by (simp add: assms(2) runtime_inv_def)

lemma counters_monotone_witness:
  "5 \<le> unat (rt_event_sequence (foldl runtime_exec ready_runtime [OpPolicyChanged, OpAdmitEvent]))"
  using counters_monotone [OF ready_reachable refl, of "[OpPolicyChanged, OpAdmitEvent]"]
  by (simp add: ready_runtime_def)

text \<open>A refused operation changes nothing, and the only reasons for refusal are the documented ones:
  a policy change fails only when a counter is at its maximum, a transition fails exactly outside the
  graph or when the event counter is at its maximum.\<close>

lemma refused_operations_are_inert:
  "(case policy_changed rt of
      (rt', Inl e) \<Rightarrow> rt' = rt \<and> e = CounterExhausted \<and>
        (unat (rt_generation rt) = u64_max \<or> unat (rt_event_sequence rt) = u64_max)
    | (rt', Inr snap) \<Rightarrow> snap = snapshot rt' \<and>
        unat (rt_generation rt') = Suc (unat (rt_generation rt)) \<and>
        unat (rt_event_sequence rt') = Suc (unat (rt_event_sequence rt))) \<and>
   (case transition rt st of
      (rt', Inl e) \<Rightarrow> rt' = rt \<and>
        e = (if valid_authority_transition (rt_authority_state rt) st then CounterExhausted
             else InvalidAuthorityTransition)
    | (rt', Inr snap) \<Rightarrow> snap = snapshot rt' \<and> rt_authority_state rt' = st \<and>
        unat (rt_event_sequence rt') = Suc (unat (rt_event_sequence rt)))"
  by (auto simp: policy_changed_def transition_def ensure_policy_change_capacity_def u64_succ Let_def
      unat_u64_max unat_succ split: prod.splits sum.splits)

end
