(* ===== verification/Cache.thy ===== *)
theory Cache
  imports Dns_Message "HOL-Library.AList"
begin

text \<open>
  The bounded resolution cache (src/crates/hns-cache/src/lib.rs).  \<open>SecureCache\<close> is a record whose
  \<open>HashMap\<close> is an association list with distinct keys; iteration order, unspecified in the source, is
  list order here, and the invariant that access sequences are distinct shows the eviction victim does
  not depend on it.  SHA-256 is the argument \<open>sha256\<close> of the key derivation.
\<close>

section \<open>Data\<close>

datatype cache_error =
  CacheWire wire_error | InvalidLimits | InvalidGeneration | WeakSessionSecret | InvalidQueryIdentity
| ValueLimit | TtlLimit | TimeOverflow | SequenceExhausted | InternalInvariant

record cache_limits =
  max_entries :: usize
  max_total_value_bytes :: usize
  max_value_bytes :: usize
  max_positive_ttl :: u32
  max_negative_ttl :: u32

definition default_cache_limits :: cache_limits where
  "default_cache_limits =
     \<lparr>max_entries = 4096, max_total_value_bytes = 16 * 1024 * 1024, max_value_bytes = 256 * 1024,
      max_positive_ttl = 86400, max_negative_ttl = 3600\<rparr>"

definition cache_limits_validate :: "cache_limits \<Rightarrow> (cache_error, cache_limits) result" where
  "cache_limits_validate limits =
     (if max_entries limits = 0 \<or> max_total_value_bytes limits = 0 \<or> max_value_bytes limits = 0 \<or>
         max_total_value_bytes limits < max_value_bytes limits \<or> max_positive_ttl limits = 0 \<or>
         max_negative_ttl limits = 0
      then Inl InvalidLimits else Inr limits)"

record cache_generation =
  runtime_generation :: u64
  policy_generation :: u64
  chain_height :: u32
  tree_root :: bytes

definition cache_generation_validate :: "cache_generation \<Rightarrow> (cache_error, cache_generation) result" where
  "cache_generation_validate g =
     (if runtime_generation g = 0 \<or> policy_generation g = 0 then Inl InvalidGeneration else Inr g)"

datatype negative_kind = NameError | NoData | HnsNameAbsent

datatype cache_disposition = Positive | Negative negative_kind

record cache_admission =
  ca_value_bytes :: usize
  ca_disposition :: cache_disposition
  ca_generation :: cache_generation
  ca_now :: u64
  ca_ttl_seconds :: u32

record cache_stats =
  st_entries :: usize
  st_value_bytes :: usize
  st_hits :: u64
  st_misses :: u64
  st_evictions :: u64
  st_expirations :: u64
  st_stale_removals :: u64

definition cache_stats_default :: cache_stats where
  "cache_stats_default =
     \<lparr>st_entries = 0, st_value_bytes = 0, st_hits = 0, st_misses = 0, st_evictions = 0,
      st_expirations = 0, st_stale_removals = 0\<rparr>"

type_synonym cache_key = bytes

record 'v cache_entry =
  ce_value :: 'v
  ce_value_bytes :: usize
  ce_disposition :: cache_disposition
  ce_generation :: cache_generation
  ce_expires_at :: u64
  ce_last_access :: u64

record 'v secure_cache =
  sc_limits :: cache_limits
  sc_entries :: "(cache_key \<times> 'v cache_entry) list"
  sc_sequence :: u64
  sc_stats :: cache_stats

section \<open>Key derivation\<close>

definition CACHE_KEY_DOMAIN :: bytes where
  "CACHE_KEY_DOMAIN = [104, 110, 115, 45, 98, 114, 111, 119, 115, 101, 114, 45, 99, 97, 99, 104, 101,
     45, 107, 101, 121, 45, 118, 49]"

definition cache_key_preimage ::
  "bytes \<Rightarrow> u8 \<Rightarrow> cache_generation \<Rightarrow> record_type \<Rightarrow> bytes \<Rightarrow> bytes" where
  "cache_key_preimage session_secret network_id g record_type wire_name =
     CACHE_KEY_DOMAIN @ session_secret @ [network_id] @ be_bytes 8 (runtime_generation g) @
     be_bytes 8 (policy_generation g) @ be_bytes 4 (chain_height g) @ tree_root g @
     be_bytes 2 (code record_type) @ be_bytes 2 (of_nat (length wire_name) :: u16) @ wire_name"

definition cache_key_derive ::
  "(bytes \<Rightarrow> bytes) \<Rightarrow> bytes \<Rightarrow> u8 \<Rightarrow> cache_generation \<Rightarrow> dns_name \<Rightarrow> record_type \<Rightarrow>
     (cache_error, cache_key) result" where
  "cache_key_derive sha256 session_secret network_id g name record_type =
     (if session_secret = replicate 32 0 then Inl WeakSessionSecret
      else rbind (cache_generation_validate g) (\<lambda>g.
           rbind (map_err CacheWire (name_encode name [])) (\<lambda>wire_name.
           if U16_MAX < length wire_name then Inl InvalidQueryIdentity
           else Inr (sha256 (cache_key_preimage session_secret network_id g record_type wire_name)))))"

section \<open>The cache's operations\<close>

definition cache_new :: "cache_limits \<Rightarrow> (cache_error, 'v secure_cache) result" where
  "cache_new limits =
     rbind (cache_limits_validate limits) (\<lambda>limits.
     Inr \<lparr>sc_limits = limits, sc_entries = [], sc_sequence = 0, sc_stats = cache_stats_default\<rparr>)"

definition next_sequence :: "'v secure_cache \<Rightarrow> 'v secure_cache \<times> (cache_error, u64) result" where
  "next_sequence c =
     (case u64_checked_add (sc_sequence c) 1 of
        None \<Rightarrow> (c, Inl SequenceExhausted)
      | Some s \<Rightarrow> (c\<lparr>sc_sequence := s\<rparr>, Inr s))"

definition remove_internal ::
  "'v secure_cache \<Rightarrow> cache_key \<Rightarrow> 'v secure_cache \<times> 'v cache_entry option" where
  "remove_internal c key =
     (case map_of (sc_entries c) key of
        None \<Rightarrow> (c, None)
      | Some entry \<Rightarrow>
          let entries = AList.delete key (sc_entries c);
              stats = (sc_stats c)\<lparr>st_value_bytes := st_value_bytes (sc_stats c) - ce_value_bytes entry,
                                   st_entries := length entries\<rparr>
          in (c\<lparr>sc_entries := entries, sc_stats := stats\<rparr>, Some entry))"

definition bump_expirations :: "'v secure_cache \<Rightarrow> 'v secure_cache" where
  "bump_expirations c = c\<lparr>sc_stats := (sc_stats c)
     \<lparr>st_expirations := u64_saturating_add (st_expirations (sc_stats c)) 1\<rparr>\<rparr>"

definition bump_evictions :: "'v secure_cache \<Rightarrow> 'v secure_cache" where
  "bump_evictions c = c\<lparr>sc_stats := (sc_stats c)
     \<lparr>st_evictions := u64_saturating_add (st_evictions (sc_stats c)) 1\<rparr>\<rparr>"

definition bump_stale_removals :: "'v secure_cache \<Rightarrow> 'v secure_cache" where
  "bump_stale_removals c = c\<lparr>sc_stats := (sc_stats c)
     \<lparr>st_stale_removals := u64_saturating_add (st_stale_removals (sc_stats c)) 1\<rparr>\<rparr>"

definition bump_misses :: "'v secure_cache \<Rightarrow> 'v secure_cache" where
  "bump_misses c = c\<lparr>sc_stats := (sc_stats c)
     \<lparr>st_misses := u64_saturating_add (st_misses (sc_stats c)) 1\<rparr>\<rparr>"

definition bump_hits :: "'v secure_cache \<Rightarrow> 'v secure_cache" where
  "bump_hits c = c\<lparr>sc_stats := (sc_stats c)
     \<lparr>st_hits := u64_saturating_add (st_hits (sc_stats c)) 1\<rparr>\<rparr>"

fun remove_expired_keys :: "'v secure_cache \<Rightarrow> cache_key list \<Rightarrow> 'v secure_cache" where
  "remove_expired_keys c [] = c"
| "remove_expired_keys c (key # keys) =
     (case remove_internal c key of
        (c, None) \<Rightarrow> remove_expired_keys c keys
      | (c, Some _) \<Rightarrow> remove_expired_keys (bump_expirations c) keys)"

definition remove_expired :: "'v secure_cache \<Rightarrow> u64 \<Rightarrow> 'v secure_cache" where
  "remove_expired c now =
     remove_expired_keys c (map fst (filter (\<lambda>(key, entry). ce_expires_at entry \<le> now) (sc_entries c)))"

fun min_by_last_access :: "(cache_key \<times> 'v cache_entry) list \<Rightarrow> (cache_key \<times> 'v cache_entry) option" where
  "min_by_last_access [] = None"
| "min_by_last_access (e # es) =
     (case min_by_last_access es of
        None \<Rightarrow> Some e
      | Some m \<Rightarrow> if ce_last_access (snd e) \<le> ce_last_access (snd m) then Some e else Some m)"

definition evict_lru :: "'v secure_cache \<Rightarrow> 'v secure_cache \<times> unit option" where
  "evict_lru c =
     (case min_by_last_access (sc_entries c) of
        None \<Rightarrow> (c, None)
      | Some (key, _) \<Rightarrow>
          (case remove_internal c key of
             (c, None) \<Rightarrow> (c, None)
           | (c, Some _) \<Rightarrow> (bump_evictions c, Some ())))"

lemma min_by_last_access_mem: "min_by_last_access es = Some m \<Longrightarrow> m \<in> set es"
  by (induction es arbitrary: m) (auto split: option.splits if_splits)

lemma length_delete_less: "(k, v) \<in> set es \<Longrightarrow> length (AList.delete k es) < length es"
  by (induction es) (auto simp: le_imp_less_Suc AList.length_delete_le)

lemma evict_lru_shrinks:
  "evict_lru c = (c', Some ()) \<Longrightarrow> length (sc_entries c') < length (sc_entries c)"
  by (auto simp: evict_lru_def remove_internal_def bump_evictions_def Let_def
      dest!: min_by_last_access_mem length_delete_less split: option.splits prod.splits)

definition needs_room :: "'v secure_cache \<Rightarrow> usize \<Rightarrow> bool" where
  "needs_room c value_bytes \<longleftrightarrow>
     max_entries (sc_limits c) \<le> length (sc_entries c) \<or>
     (case usize_add (st_value_bytes (sc_stats c)) value_bytes of
        None \<Rightarrow> True | Some used \<Rightarrow> max_total_value_bytes (sc_limits c) < used)"

function make_room :: "'v secure_cache \<Rightarrow> usize \<Rightarrow> 'v secure_cache \<times> (cache_error, unit) result" where
  "make_room c value_bytes =
     (if needs_room c value_bytes
      then (case evict_lru c of
              (c', None) \<Rightarrow> (c', Inl ValueLimit)
            | (c', Some _) \<Rightarrow> make_room c' value_bytes)
      else (c, Inr ()))"
  by pat_completeness auto
termination
  by (relation "measure (\<lambda>(c, _). length (sc_entries c))") (auto dest!: evict_lru_shrinks [OF sym])

declare make_room.simps [simp del]

definition cache_insert ::
  "'v secure_cache \<Rightarrow> cache_key \<Rightarrow> 'v \<Rightarrow> cache_admission \<Rightarrow> 'v secure_cache \<times> (cache_error, unit) result"
where
  "cache_insert c key v adm =
     (case cache_generation_validate (ca_generation adm) of
        Inl e \<Rightarrow> (c, Inl e)
      | Inr generation \<Rightarrow>
     let value_bytes = ca_value_bytes adm in
     if value_bytes = 0 \<or> max_value_bytes (sc_limits c) < value_bytes \<or>
        max_total_value_bytes (sc_limits c) < value_bytes
     then (c, Inl ValueLimit)
     else
     let maximum_ttl = (case ca_disposition adm of
           Positive \<Rightarrow> max_positive_ttl (sc_limits c) | Negative _ \<Rightarrow> max_negative_ttl (sc_limits c)) in
     if ca_ttl_seconds adm = 0 \<or> maximum_ttl < ca_ttl_seconds adm then (c, Inl TtlLimit)
     else
     (case u64_checked_add (ca_now adm) (ucast (ca_ttl_seconds adm)) of
        None \<Rightarrow> (c, Inl TimeOverflow)
      | Some expires_at \<Rightarrow>
     (case next_sequence c of
        (c, Inl e) \<Rightarrow> (c, Inl e)
      | (c, Inr sequence) \<Rightarrow>
     let c = remove_expired c (ca_now adm);
         c = fst (remove_internal c key) in
     (case make_room c value_bytes of
        (c, Inl e) \<Rightarrow> (c, Inl e)
      | (c, Inr _) \<Rightarrow>
     (case usize_add (st_value_bytes (sc_stats c)) value_bytes of
        None \<Rightarrow> (c, Inl ValueLimit)
      | Some used \<Rightarrow>
          let entries = AList.update key \<lparr>ce_value = v, ce_value_bytes = value_bytes,
                ce_disposition = ca_disposition adm, ce_generation = generation,
                ce_expires_at = expires_at, ce_last_access = sequence\<rparr> (sc_entries c);
              stats = (sc_stats c)\<lparr>st_value_bytes := used, st_entries := length entries\<rparr>
          in (c\<lparr>sc_entries := entries, sc_stats := stats\<rparr>, Inr ()))))))"

definition cache_get ::
  "'v secure_cache \<Rightarrow> cache_key \<Rightarrow> cache_generation \<Rightarrow> u64 \<Rightarrow>
     'v secure_cache \<times> (cache_error, ('v \<times> cache_disposition) option) result" where
  "cache_get c key generation now =
     (case cache_generation_validate generation of
        Inl e \<Rightarrow> (c, Inl e)
      | Inr generation \<Rightarrow>
     (case map_of (sc_entries c) key of
        None \<Rightarrow> (bump_misses c, Inr None)
      | Some metadata \<Rightarrow>
     if ce_generation metadata \<noteq> generation
     then (bump_misses (bump_stale_removals (fst (remove_internal c key))), Inr None)
     else if ce_expires_at metadata \<le> now
     then (bump_misses (bump_expirations (fst (remove_internal c key))), Inr None)
     else
     (case next_sequence c of
        (c, Inl e) \<Rightarrow> (c, Inl e)
      | (c, Inr sequence) \<Rightarrow>
     (case map_of (sc_entries c) key of
        None \<Rightarrow> (c, Inl InternalInvariant)
      | Some entry \<Rightarrow>
          (bump_hits (c\<lparr>sc_entries :=
             AList.update key (entry\<lparr>ce_last_access := sequence\<rparr>) (sc_entries c)\<rparr>),
           Inr (Some (ce_value entry, ce_disposition metadata)))))))"

definition cache_clear :: "'v secure_cache \<Rightarrow> 'v secure_cache" where
  "cache_clear c = c\<lparr>sc_entries := [],
     sc_stats := (sc_stats c)\<lparr>st_entries := 0, st_value_bytes := 0\<rparr>\<rparr>"

definition cache_remove :: "'v secure_cache \<Rightarrow> cache_key \<Rightarrow> 'v secure_cache \<times> bool" where
  "cache_remove c key = (case remove_internal c key of (c, r) \<Rightarrow> (c, r \<noteq> None))"


section \<open>The invariant\<close>

definition entry_bytes :: "(cache_key \<times> 'v cache_entry) list \<Rightarrow> nat" where
  "entry_bytes es = sum_list (map (\<lambda>(_, e). ce_value_bytes e) es)"

definition accesses :: "(cache_key \<times> 'v cache_entry) list \<Rightarrow> u64 list" where
  "accesses es = map (\<lambda>(_, e). ce_last_access e) es"

definition wf_entry :: "cache_limits \<Rightarrow> 'v cache_entry \<Rightarrow> bool" where
  "wf_entry limits e \<longleftrightarrow> 0 < ce_value_bytes e \<and> ce_value_bytes e \<le> max_value_bytes limits \<and>
     cache_generation_validate (ce_generation e) = Inr (ce_generation e)"

definition cache_core :: "cache_limits \<Rightarrow> 'v secure_cache \<Rightarrow> bool" where
  "cache_core limits c \<longleftrightarrow>
     sc_limits c = limits \<and> distinct (map fst (sc_entries c)) \<and> distinct (accesses (sc_entries c)) \<and>
     (\<forall>a \<in> set (accesses (sc_entries c)). a \<le> sc_sequence c) \<and>
     (\<forall>(k, e) \<in> set (sc_entries c). wf_entry limits e) \<and>
     st_entries (sc_stats c) = length (sc_entries c) \<and>
     st_value_bytes (sc_stats c) = entry_bytes (sc_entries c)"

definition cache_inv :: "cache_limits \<Rightarrow> 'v secure_cache \<Rightarrow> bool" where
  "cache_inv limits c \<longleftrightarrow> cache_core limits c \<and> cache_limits_validate limits = Inr limits \<and>
     max_total_value_bytes limits \<le> usize_max \<and> length (sc_entries c) \<le> max_entries limits \<and>
     entry_bytes (sc_entries c) \<le> max_total_value_bytes limits"

lemma entry_bytes_simps [simp]:
  "entry_bytes [] = 0" "entry_bytes (x # es) = ce_value_bytes (snd x) + entry_bytes es"
  "entry_bytes (es @ es') = entry_bytes es + entry_bytes es'"
  by (simp_all add: entry_bytes_def case_prod_beta)

lemma accesses_simps [simp]:
  "accesses [] = []" "accesses (x # es) = ce_last_access (snd x) # accesses es"
  "accesses (es @ es') = accesses es @ accesses es'"
  by (simp_all add: accesses_def case_prod_beta)

lemma set_accesses_filter: "set (accesses (filter P es)) \<subseteq> set (accesses es)"
  by (auto simp: accesses_def)

lemma distinct_accesses_filter: "distinct (accesses es) \<Longrightarrow> distinct (accesses (filter P es))"
  unfolding accesses_def by (rule distinct_map_filter)

lemma entry_bytes_filter_le: "entry_bytes (filter P es) \<le> entry_bytes es"
  by (induction es) auto

lemma delete_eq_filter: "AList.delete k es = filter (\<lambda>x. fst x \<noteq> k) es"
  by (auto simp: AList.delete_eq case_prod_beta intro!: filter_cong)

lemma same_key: "distinct (map fst es) \<Longrightarrow> x \<in> set es \<Longrightarrow> y \<in> set es \<Longrightarrow> fst x = fst y \<Longrightarrow> x = y"
  by (metis distinct_map inj_onD)

lemma entry_bytes_delete:
  "distinct (map fst es) \<Longrightarrow> map_of es k = Some e \<Longrightarrow>
   entry_bytes (AList.delete k es) = entry_bytes es - ce_value_bytes e \<and>
   ce_value_bytes e \<le> entry_bytes es"
proof (induction es)
  case (Cons x es)
  show ?case
  proof (cases "fst x = k")
    case True
    with Cons.prems have "k \<notin> fst ` set es" and "snd x = e" by auto
    then have "filter (\<lambda>y. fst y \<noteq> k) es = es" by (auto intro!: filter_True)
    with True \<open>snd x = e\<close> show ?thesis by (simp add: delete_eq_filter)
  next
    case False
    with Cons show ?thesis by (cases x) auto
  qed
qed simp

text \<open>Statistics counters do not take part in the invariant.\<close>

lemmas bump_defs = bump_expirations_def bump_evictions_def bump_stale_removals_def bump_misses_def
  bump_hits_def

lemma bump_entries [simp]:
  "sc_entries (bump_expirations c) = sc_entries c" "sc_entries (bump_evictions c) = sc_entries c"
  "sc_entries (bump_stale_removals c) = sc_entries c" "sc_entries (bump_misses c) = sc_entries c"
  "sc_entries (bump_hits c) = sc_entries c"
  by (simp_all add: bump_defs)

lemma bump_core [simp]:
  "cache_core limits (bump_expirations c) = cache_core limits c"
  "cache_core limits (bump_evictions c) = cache_core limits c"
  "cache_core limits (bump_stale_removals c) = cache_core limits c"
  "cache_core limits (bump_misses c) = cache_core limits c"
  "cache_core limits (bump_hits c) = cache_core limits c"
  by (simp_all add: bump_defs cache_core_def)

lemma bump_sequence [simp]:
  "sc_sequence (bump_expirations c) = sc_sequence c" "sc_sequence (bump_evictions c) = sc_sequence c"
  by (simp_all add: bump_defs)

lemma remove_internal_core:
  assumes "cache_core limits c"
  shows "cache_core limits (fst (remove_internal c k))"
    and "sc_entries (fst (remove_internal c k)) = filter (\<lambda>x. fst x \<noteq> k) (sc_entries c)"
    and "sc_sequence (fst (remove_internal c k)) = sc_sequence c"
    and "snd (remove_internal c k) = map_of (sc_entries c) k"
proof -
  show "sc_entries (fst (remove_internal c k)) = filter (\<lambda>x. fst x \<noteq> k) (sc_entries c)"
    by (auto simp: remove_internal_def Let_def delete_eq_filter map_of_eq_None_iff
        intro!: filter_True [symmetric] split: option.splits)
  show "sc_sequence (fst (remove_internal c k)) = sc_sequence c"
    "snd (remove_internal c k) = map_of (sc_entries c) k"
    by (simp_all add: remove_internal_def Let_def split: option.splits)
  show "cache_core limits (fst (remove_internal c k))"
  proof (cases "map_of (sc_entries c) k")
    case None
    with assms show ?thesis by (simp add: remove_internal_def)
  next
    case (Some e)
    with assms entry_bytes_delete [of "sc_entries c" k e] set_accesses_filter [of _ "sc_entries c"]
    show ?thesis
      by (auto simp: remove_internal_def Let_def cache_core_def delete_eq_filter
          distinct_map_filter distinct_accesses_filter)
  qed
qed

lemma remove_expired_keys_core:
  assumes "cache_core limits c"
  shows "cache_core limits (remove_expired_keys c ks) \<and>
    sc_entries (remove_expired_keys c ks) = filter (\<lambda>x. fst x \<notin> set ks) (sc_entries c) \<and>
    sc_sequence (remove_expired_keys c ks) = sc_sequence c"
  using assms
proof (induction ks arbitrary: c)
  case (Cons k ks)
  let ?c = "fst (remove_internal c k)"
  note ri = remove_internal_core [OF Cons.prems, of k]
  have "remove_expired_keys c (k # ks) = remove_expired_keys ?c ks \<or>
      remove_expired_keys c (k # ks) = remove_expired_keys (bump_expirations ?c) ks"
    by (simp split: prod.split option.split)
  with Cons.IH [of ?c] Cons.IH [of "bump_expirations ?c"] ri show ?case
    by (auto intro!: filter_cong)
qed simp

lemma remove_expired_core:
  assumes "cache_core limits c"
  shows "cache_core limits (remove_expired c now)"
    and "sc_entries (remove_expired c now) =
      filter (\<lambda>(k, e). now < ce_expires_at e) (sc_entries c)"
    and "sc_sequence (remove_expired c now) = sc_sequence c"
proof -
  let ?ks = "map fst (filter (\<lambda>(key, entry). ce_expires_at entry \<le> now) (sc_entries c))"
  have d: "distinct (map fst (sc_entries c))" using assms by (simp add: cache_core_def)
  have "filter (\<lambda>x. fst x \<notin> set ?ks) (sc_entries c) =
      filter (\<lambda>(k, e). now < ce_expires_at e) (sc_entries c)"
  proof (rule filter_cong [OF refl])
    fix x assume x: "x \<in> set (sc_entries c)"
    have "fst x \<in> set ?ks \<longleftrightarrow> (\<exists>y \<in> set (sc_entries c). fst x = fst y \<and> ce_expires_at (snd y) \<le> now)"
      unfolding set_map set_filter image_iff case_prod_beta by blast
    then have "fst x \<in> set ?ks \<longleftrightarrow> ce_expires_at (snd x) \<le> now"
      using x same_key [OF d x] by metis
    then show "fst x \<notin> set ?ks \<longleftrightarrow> (case x of (k, e) \<Rightarrow> now < ce_expires_at e)"
      by (simp add: case_prod_beta not_le)
  qed
  with remove_expired_keys_core [OF assms, of ?ks]
  show "cache_core limits (remove_expired c now)"
    "sc_entries (remove_expired c now) = filter (\<lambda>(k, e). now < ce_expires_at e) (sc_entries c)"
    "sc_sequence (remove_expired c now) = sc_sequence c"
    by (simp_all add: remove_expired_def)
qed

section \<open>Eviction\<close>

lemma min_by_last_access_None: "min_by_last_access es = None \<longleftrightarrow> es = []"
  by (cases es) (auto split: option.splits if_splits)

lemma min_by_last_access_least:
  "min_by_last_access es = Some m \<Longrightarrow> x \<in> set es \<Longrightarrow> ce_last_access (snd m) \<le> ce_last_access (snd x)"
proof (induction es arbitrary: m)
  case (Cons e es)
  show ?case
  proof (cases "min_by_last_access es")
    case None
    then have "es = []" by (simp add: min_by_last_access_None)
    with Cons.prems show ?thesis by simp
  next
    case (Some m')
    from Cons.IH [OF this] have "x \<in> set es \<Longrightarrow> ce_last_access (snd m') \<le> ce_last_access (snd x)" .
    with Some Cons.prems show ?thesis by (auto split: if_splits dest: order_trans)
  qed
qed simp

lemma evict_lru_core:
  assumes "cache_core limits c" and "sc_entries c \<noteq> []"
  obtains c' m where "evict_lru c = (c', Some ())" "cache_core limits c'" "m \<in> set (sc_entries c)"
    "sc_entries c' = filter (\<lambda>x. fst x \<noteq> fst m) (sc_entries c)" "sc_sequence c' = sc_sequence c"
    "\<forall>x \<in> set (sc_entries c). ce_last_access (snd m) \<le> ce_last_access (snd x)"
proof -
  from assms(2) obtain k e where m: "min_by_last_access (sc_entries c) = Some (k, e)"
    using min_by_last_access_None [of "sc_entries c"] by (cases "min_by_last_access (sc_entries c)") auto
  note mem = min_by_last_access_mem [OF m]
  with assms(1) have "map_of (sc_entries c) k = Some e" by (simp add: cache_core_def)
  moreover obtain c' r where r: "remove_internal c k = (c', r)" by fastforce
  moreover note remove_internal_core [OF assms(1), of k]
  ultimately have "evict_lru c = (bump_evictions c', Some ())" "cache_core limits c'"
      "sc_entries c' = filter (\<lambda>x. fst x \<noteq> k) (sc_entries c)" "sc_sequence c' = sc_sequence c"
    by (simp_all add: evict_lru_def m)
  then show thesis
    using that [of "bump_evictions c'" "(k, e)"] mem min_by_last_access_least [OF m] by simp
qed

text \<open>
  What making room does: it succeeds, keeps a part of the entries, and everything it evicted was used
  longer ago than everything it kept.
\<close>

lemma make_room_core:
  assumes "cache_core limits c" and "vb \<le> max_total_value_bytes limits" and "max_entries limits \<noteq> 0"
    and "max_total_value_bytes limits \<le> usize_max"
  shows "\<exists>c' P. make_room c vb = (c', Inr ()) \<and> cache_core limits c' \<and> \<not> needs_room c' vb \<and>
    sc_entries c' = filter P (sc_entries c) \<and> sc_sequence c' = sc_sequence c \<and>
    (\<forall>x \<in> set (sc_entries c). \<forall>y \<in> set (sc_entries c').
       \<not> P x \<longrightarrow> ce_last_access (snd x) \<le> ce_last_access (snd y))"
  using assms
proof (induction "length (sc_entries c)" arbitrary: c rule: less_induct)
  case less
  show ?case
  proof (cases "needs_room c vb")
    case False
    then show ?thesis
      using less.prems by (intro exI [of _ c] exI [of _ "\<lambda>_. True"]) (simp add: make_room.simps [of c])
  next
    case True
    then have "sc_entries c \<noteq> []"
      using less.prems by (auto simp: needs_room_def cache_core_def usize_add_def)
    from evict_lru_core [OF less.prems(1) this] obtain c1 m where
      e: "evict_lru c = (c1, Some ())" "cache_core limits c1" "m \<in> set (sc_entries c)"
        "sc_entries c1 = filter (\<lambda>x. fst x \<noteq> fst m) (sc_entries c)" "sc_sequence c1 = sc_sequence c"
      and least: "\<forall>x \<in> set (sc_entries c). ce_last_access (snd m) \<le> ce_last_access (snd x)" .
    from less.hyps [OF evict_lru_shrinks [OF e(1)] e(2) less.prems(2-4)] obtain c' P where
      p: "make_room c1 vb = (c', Inr ())" "cache_core limits c'" "\<not> needs_room c' vb"
        "sc_entries c' = filter P (sc_entries c1)" "sc_sequence c' = sc_sequence c1"
      and lru: "\<forall>x \<in> set (sc_entries c1). \<forall>y \<in> set (sc_entries c').
        \<not> P x \<longrightarrow> ce_last_access (snd x) \<le> ce_last_access (snd y)" by blast
    have only: "x = m" if "x \<in> set (sc_entries c)" "fst x = fst m" for x
      using less.prems(1) by (intro same_key [OF _ that(1) e(3) that(2)]) (simp add: cache_core_def)
    show ?thesis
    proof (intro exI conjI)
      show "make_room c vb = (c', Inr ())" using True e(1) p(1) by (simp add: make_room.simps [of c])
      show "sc_entries c' = filter (\<lambda>x. fst x \<noteq> fst m \<and> P x) (sc_entries c)"
        using p(4) e(4) by (simp add: conj_commute)
      show "\<forall>x \<in> set (sc_entries c). \<forall>y \<in> set (sc_entries c').
          \<not> (fst x \<noteq> fst m \<and> P x) \<longrightarrow> ce_last_access (snd x) \<le> ce_last_access (snd y)"
      proof (intro ballI impI)
        fix x y assume x: "x \<in> set (sc_entries c)" and y: "y \<in> set (sc_entries c')"
          and gone: "\<not> (fst x \<noteq> fst m \<and> P x)"
        have "y \<in> set (sc_entries c)" using y p(4) e(4) by simp
        moreover have "fst x \<noteq> fst m \<Longrightarrow> x \<in> set (sc_entries c1)" using x e(4) by simp
        ultimately show "ce_last_access (snd x) \<le> ce_last_access (snd y)"
          using lru least only [OF x] gone y by metis
      qed
    qed (use p e in simp_all)
  qed
qed

section \<open>Insertion\<close>

text \<open>The pure part of the admission test.\<close>

definition admissible :: "cache_limits \<Rightarrow> cache_admission \<Rightarrow> bool" where
  "admissible limits adm \<longleftrightarrow>
     runtime_generation (ca_generation adm) \<noteq> 0 \<and> policy_generation (ca_generation adm) \<noteq> 0 \<and>
     ca_value_bytes adm \<noteq> 0 \<and> ca_value_bytes adm \<le> max_value_bytes limits \<and>
     ca_ttl_seconds adm \<noteq> 0 \<and>
     ca_ttl_seconds adm \<le> (case ca_disposition adm of
        Positive \<Rightarrow> max_positive_ttl limits | Negative _ \<Rightarrow> max_negative_ttl limits) \<and>
     unat (ca_now adm) + unat (ca_ttl_seconds adm) \<le> u64_max"

definition admitted_entry :: "'v \<Rightarrow> cache_admission \<Rightarrow> u64 \<Rightarrow> 'v cache_entry" where
  "admitted_entry v adm sequence =
     \<lparr>ce_value = v, ce_value_bytes = ca_value_bytes adm, ce_disposition = ca_disposition adm,
      ce_generation = ca_generation adm, ce_expires_at = ca_now adm + ucast (ca_ttl_seconds adm),
      ce_last_access = sequence\<rparr>"

definition with_entry :: "'v secure_cache \<Rightarrow> cache_key \<Rightarrow> 'v cache_entry \<Rightarrow> 'v secure_cache" where
  "with_entry c key e = c\<lparr>sc_entries := sc_entries c @ [(key, e)],
     sc_stats := (sc_stats c)\<lparr>st_value_bytes := entry_bytes (sc_entries c) + ce_value_bytes e,
       st_entries := Suc (length (sc_entries c))\<rparr>\<rparr>"

lemma unat_ucast_u32: "unat (ucast (t :: u32) :: u64) = unat t"
  by (simp add: unsigned_ucast_eq take_bit_nat_eq_self order_less_le_trans [OF unsigned_less [where 'a = nat, of t]])

lemma ttl_checked_add:
  "u64_checked_add now (ucast (t :: u32)) =
     (if unat now + unat t \<le> u64_max then Some (now + ucast t) else None)"
  by (simp add: u64_checked_add_def unat_ucast_u32)

lemma validate_limitsD:
  "cache_limits_validate limits = Inr limits \<Longrightarrow>
   0 < max_entries limits \<and> 0 < max_value_bytes limits \<and>
   max_value_bytes limits \<le> max_total_value_bytes limits"
  by (auto simp: cache_limits_validate_def split: if_splits)

definition insert_room :: "'v secure_cache \<Rightarrow> cache_key \<Rightarrow> cache_admission \<Rightarrow> 'v secure_cache" where
  "insert_room c key adm =
     fst (remove_internal (remove_expired (c\<lparr>sc_sequence := sc_sequence c + 1\<rparr>) (ca_now adm)) key)"

lemma cache_core_sequence:
  assumes "cache_core limits c" and "sc_sequence c \<noteq> - 1"
  shows "cache_core limits (c\<lparr>sc_sequence := sc_sequence c + 1\<rparr>)"
    and "\<forall>a \<in> set (accesses (sc_entries c)). a < sc_sequence c + 1"
  using assms by (auto simp: cache_core_def le_succ less_succ_iff)

lemma insert_room_core:
  assumes "cache_core limits c" and "sc_sequence c \<noteq> - 1"
  shows "cache_core limits (insert_room c key adm)"
    and "sc_sequence (insert_room c key adm) = sc_sequence c + 1"
    and "sc_entries (insert_room c key adm) =
      filter (\<lambda>x. fst x \<noteq> key \<and> ca_now adm < ce_expires_at (snd x)) (sc_entries c)"
  using remove_expired_core [OF cache_core_sequence(1) [OF assms], of "ca_now adm"]
  by (simp_all add: insert_room_def remove_internal_core case_prod_beta conj_commute)

text \<open>The error of a refused insertion, in the order of the tests.\<close>

definition insert_error :: "cache_limits \<Rightarrow> cache_admission \<Rightarrow> cache_error" where
  "insert_error limits adm =
    (if runtime_generation (ca_generation adm) = 0 \<or> policy_generation (ca_generation adm) = 0
     then InvalidGeneration
     else if ca_value_bytes adm = 0 \<or> max_value_bytes limits < ca_value_bytes adm then ValueLimit
     else if ca_ttl_seconds adm = 0 \<or> (case ca_disposition adm of
        Positive \<Rightarrow> max_positive_ttl limits | Negative _ \<Rightarrow> max_negative_ttl limits) < ca_ttl_seconds adm
     then TtlLimit
     else if u64_max < unat (ca_now adm) + unat (ca_ttl_seconds adm) then TimeOverflow
     else SequenceExhausted)"

lemma cache_inv_limits:
  assumes "cache_inv limits c"
  shows "cache_core limits c" "sc_limits c = limits"
    "max_value_bytes limits \<le> max_total_value_bytes limits" "max_entries limits \<noteq> 0"
    "max_total_value_bytes limits \<le> usize_max"
  using assms validate_limitsD [of limits] by (auto simp: cache_inv_def cache_core_def)

lemma cache_insert_refused:
  assumes "cache_inv limits c" and "\<not> (admissible limits adm \<and> sc_sequence c \<noteq> - 1)"
  shows "cache_insert c key v adm = (c, Inl (insert_error limits adm))"
proof -
  note lim = cache_inv_limits [OF assms(1)]
  let ?bad_gen = "runtime_generation (ca_generation adm) = 0 \<or> policy_generation (ca_generation adm) = 0"
  let ?bad_len = "ca_value_bytes adm = 0 \<or> max_value_bytes limits < ca_value_bytes adm"
  let ?max = "case ca_disposition adm of
    Positive \<Rightarrow> max_positive_ttl limits | Negative _ \<Rightarrow> max_negative_ttl limits"
  let ?bad_ttl = "ca_ttl_seconds adm = 0 \<or> ?max < ca_ttl_seconds adm"
  let ?late = "u64_max < unat (ca_now adm) + unat (ca_ttl_seconds adm)"
  note defs = cache_insert_def cache_generation_validate_def Let_def ttl_checked_add next_sequence_def
    u64_succ lim(2) insert_error_def
  consider ?bad_gen | "\<not> ?bad_gen" ?bad_len | "\<not> ?bad_gen" "\<not> ?bad_len" ?bad_ttl
    | "\<not> ?bad_gen" "\<not> ?bad_len" "\<not> ?bad_ttl" "?late \<or> sc_sequence c = - 1"
    using assms(2) unfolding admissible_def not_less [symmetric] by blast
  then show ?thesis
  proof cases
    case 1
    then show ?thesis by (auto simp: defs)
  next
    case 2
    with lim(3) show ?thesis by (auto simp: defs)
  next
    case 3
    with lim(3) show ?thesis by (simp add: defs cong: cache_disposition.case_cong)
  next
    case 4
    then show ?thesis
      using lim(3) by (cases ?late) (simp_all add: defs cong: cache_disposition.case_cong)
  qed
qed

text \<open>An accepted insertion, described without the control flow.\<close>

lemma update_fresh: "k \<notin> fst ` set es \<Longrightarrow> AList.update k v es = es @ [(k, v)]"
  by (induction es) auto

lemma cache_insert_accepted:
  assumes "cache_inv limits c" and "admissible limits adm" and "sc_sequence c \<noteq> - 1"
  obtains c' P where
    "cache_insert c key v adm =
      (with_entry c' key (admitted_entry v adm (sc_sequence c + 1)), Inr ())"
    and "cache_core limits c'" and "\<not> needs_room c' (ca_value_bytes adm)"
    and "sc_sequence c' = sc_sequence c + 1"
    and "sc_entries c' = filter P (filter
      (\<lambda>x. fst x \<noteq> key \<and> ca_now adm < ce_expires_at (snd x)) (sc_entries c))"
    and "\<forall>x \<in> set (sc_entries c). \<forall>y \<in> set (sc_entries c').
      fst x \<noteq> key \<and> ca_now adm < ce_expires_at (snd x) \<and> \<not> P x \<longrightarrow> ce_last_access (snd x) \<le> ce_last_access (snd y)"
proof -
  note lim = cache_inv_limits [OF assms(1)]
  note room = insert_room_core [OF lim(1) assms(3), of key adm]
  from assms(2) lim have vb: "ca_value_bytes adm \<le> max_total_value_bytes limits"
    by (simp add: admissible_def)
  from make_room_core [OF room(1) vb lim(4,5)] obtain c' P where
    c': "make_room (insert_room c key adm) (ca_value_bytes adm) = (c', Inr ())" "cache_core limits c'"
      "\<not> needs_room c' (ca_value_bytes adm)" "sc_entries c' = filter P (sc_entries (insert_room c key adm))"
      "sc_sequence c' = sc_sequence (insert_room c key adm)"
    and lru: "\<forall>x \<in> set (sc_entries (insert_room c key adm)). \<forall>y \<in> set (sc_entries c').
       \<not> P x \<longrightarrow> ce_last_access (snd x) \<le> ce_last_access (snd y)"
    by blast
  have upd: "AList.update key e (sc_entries c') = sc_entries c' @ [(key, e)]" for e
    using c'(4) room(3) by (intro update_fresh) auto
  have used: "usize_add (st_value_bytes (sc_stats c')) (ca_value_bytes adm) =
      Some (entry_bytes (sc_entries c') + ca_value_bytes adm)"
    using c'(2,3) by (auto simp: needs_room_def cache_core_def usize_add_eq_Some split: option.splits)
  note adm = assms(2) [unfolded admissible_def]
  have "cache_insert c key v adm =
      (with_entry c' key (admitted_entry v adm (sc_sequence c + 1)), Inr ())"
    using adm lim(2,3) assms(3) c'(1)
    by (simp add: cache_insert_def cache_generation_validate_def Let_def ttl_checked_add
        next_sequence_def u64_succ insert_room_def upd used admitted_entry_def with_entry_def not_less [symmetric]
        cong: cache_disposition.case_cong)
  then show thesis
    using that [of c' P] c' room lru by simp
qed

section \<open>Every operation keeps the invariant\<close>

lemma needs_room_iff:
  "cache_core limits c \<Longrightarrow> \<not> needs_room c vb \<longleftrightarrow>
     length (sc_entries c) < max_entries limits \<and> entry_bytes (sc_entries c) + vb \<le> usize_max \<and>
     entry_bytes (sc_entries c) + vb \<le> max_total_value_bytes limits"
  by (auto simp: needs_room_def cache_core_def usize_add_def)

lemma cache_insert_inv:
  assumes "cache_inv limits c"
  shows "cache_inv limits (fst (cache_insert c key v adm))"
proof (cases "admissible limits adm \<and> sc_sequence c \<noteq> - 1")
  case False
  with assms show ?thesis by (simp add: cache_insert_refused)
next
  case True
  then have adm: "admissible limits adm" "sc_sequence c \<noteq> - 1" by simp_all
  from cache_insert_accepted [OF assms adm, of key v] obtain c' P where
    ins: "cache_insert c key v adm =
      (with_entry c' key (admitted_entry v adm (sc_sequence c + 1)), Inr ())"
    and c': "cache_core limits c'" "\<not> needs_room c' (ca_value_bytes adm)" "sc_sequence c' = sc_sequence c + 1"
    and sub: "sc_entries c' = filter P (filter
      (\<lambda>x. fst x \<noteq> key \<and> ca_now adm < ce_expires_at (snd x)) (sc_entries c))" .
  have "set (accesses (sc_entries c')) \<subseteq> set (accesses (sc_entries c))"
    using set_accesses_filter unfolding sub filter_filter .
  then have fresh: "sc_sequence c + 1 \<notin> set (accesses (sc_entries c'))"
    using cache_core_sequence(2) [OF cache_inv_limits(1) [OF assms] adm(2)] by auto
  have "key \<notin> fst ` set (sc_entries c')" by (auto simp: sub)
  moreover have "wf_entry limits (admitted_entry v adm (sc_sequence c + 1))"
    using adm(1) by (simp add: wf_entry_def admitted_entry_def admissible_def cache_generation_validate_def)
  moreover have "entry_bytes (sc_entries c') + ca_value_bytes adm \<le> max_total_value_bytes limits"
      "length (sc_entries c') < max_entries limits"
    using needs_room_iff [OF c'(1)] c'(2) by simp_all
  ultimately show ?thesis
    using assms c' fresh unfolding ins cache_inv_def
    by (simp add: cache_core_def with_entry_def admitted_entry_def)
qed

lemma update_map_of:
  "map_of es k = Some e \<Longrightarrow> distinct (map fst es) \<Longrightarrow>
   \<exists>xs ys. es = xs @ (k, e) # ys \<and> AList.update k e' es = xs @ (k, e') # ys \<and>
     k \<notin> fst ` set xs \<and> k \<notin> fst ` set ys"
proof (induction es)
  case (Cons x es)
  show ?case
  proof (cases "fst x = k")
    case True
    with Cons.prems show ?thesis by (cases x) (intro exI [of _ "[]"] exI [of _ es], auto)
  next
    case False
    with Cons obtain xs ys where "es = xs @ (k, e) # ys" "AList.update k e' es = xs @ (k, e') # ys"
        "k \<notin> fst ` set xs" "k \<notin> fst ` set ys" by (cases x) auto
    with False show ?thesis by (cases x) (intro exI [of _ "x # xs"] exI [of _ ys], auto)
  qed
qed simp

lemma touch_inv:
  assumes "cache_inv limits c" and "sc_sequence c \<noteq> - 1" and "map_of (sc_entries c) key = Some e"
  shows "cache_inv limits (c\<lparr>sc_sequence := sc_sequence c + 1,
    sc_entries := AList.update key (e\<lparr>ce_last_access := sc_sequence c + 1\<rparr>) (sc_entries c)\<rparr>)"
proof -
  let ?e = "e\<lparr>ce_last_access := sc_sequence c + 1\<rparr>"
  have core: "cache_core limits c" using assms(1) by (simp add: cache_inv_def)
  then have "distinct (map fst (sc_entries c))" by (simp add: cache_core_def)
  from update_map_of [OF assms(3) this, of ?e] obtain xs ys where
    es: "sc_entries c = xs @ (key, e) # ys"
      "AList.update key ?e (sc_entries c) = xs @ (key, ?e) # ys" by blast
  have "sc_sequence c + 1 \<notin> set (accesses (sc_entries c))"
    using cache_core_sequence(2) [OF core assms(2)] by auto
  with assms(1) es le_succ [OF assms(2)] show ?thesis
    by (auto simp: cache_inv_def cache_core_def wf_entry_def)
qed

lemma bump_inv [simp]:
  "cache_inv limits (bump_expirations c) = cache_inv limits c"
  "cache_inv limits (bump_stale_removals c) = cache_inv limits c"
  "cache_inv limits (bump_misses c) = cache_inv limits c"
  "cache_inv limits (bump_hits c) = cache_inv limits c"
  by (simp_all add: cache_inv_def)

lemma remove_internal_inv: "cache_inv limits c \<Longrightarrow> cache_inv limits (fst (remove_internal c k))"
  using entry_bytes_filter_le [of "\<lambda>x. fst x \<noteq> k" "sc_entries c"]
  by (auto simp: cache_inv_def remove_internal_core intro: order_trans le_trans [OF length_filter_le])

text \<open>What a read does, branch by branch.\<close>

lemma cache_get_eq:
  assumes "cache_generation_validate g = Inr g"
  shows "cache_get c key g now =
    (case map_of (sc_entries c) key of
       None \<Rightarrow> (bump_misses c, Inr None)
     | Some e \<Rightarrow>
         if ce_generation e \<noteq> g
         then (bump_misses (bump_stale_removals (fst (remove_internal c key))), Inr None)
         else if ce_expires_at e \<le> now
         then (bump_misses (bump_expirations (fst (remove_internal c key))), Inr None)
         else if sc_sequence c = - 1 then (c, Inl SequenceExhausted)
         else (bump_hits (c\<lparr>sc_sequence := sc_sequence c + 1, sc_entries :=
                 AList.update key (e\<lparr>ce_last_access := sc_sequence c + 1\<rparr>) (sc_entries c)\<rparr>),
               Inr (Some (ce_value e, ce_disposition e))))"
  using assms by (simp add: cache_get_def next_sequence_def u64_succ split: option.split)

lemma cache_get_invalid:
  "cache_generation_validate g = Inl e \<Longrightarrow> cache_get c key g now = (c, Inl e)"
  by (simp add: cache_get_def)

lemma cache_generation_validate_cases:
  "cache_generation_validate g = Inl InvalidGeneration \<or> cache_generation_validate g = Inr g"
  by (simp add: cache_generation_validate_def)

lemma cache_get_inv:
  assumes "cache_inv limits c"
  shows "cache_inv limits (fst (cache_get c key g now))"
  using cache_generation_validate_cases [of g]
proof
  assume "cache_generation_validate g = Inl InvalidGeneration"
  with assms show ?thesis by (simp add: cache_get_invalid)
next
  assume "cache_generation_validate g = Inr g"
  with assms show ?thesis
    by (simp add: cache_get_eq remove_internal_inv touch_inv split: option.split)
qed

lemma cache_clear_inv: "cache_inv limits c \<Longrightarrow> cache_inv limits (cache_clear c)"
  by (simp add: cache_inv_def cache_core_def cache_clear_def)

lemma cache_remove_inv: "cache_inv limits c \<Longrightarrow> cache_inv limits (fst (cache_remove c key))"
  using remove_internal_inv by (simp add: cache_remove_def case_prod_beta)

end
