(* ===== verification/Cache_Laws.thy ===== *)
theory Cache_Laws
  imports Cache Dns_Name
begin

text \<open>
  The contract of \<open>SecureCache\<close>: the invariant along every sequence of operations, the refinement of
  an unbounded map, the exact conditions under which an insertion is accepted, the eviction policy, and
  the binding of keys to the session, the authority state and the question.
\<close>

section \<open>Sequences of operations\<close>

datatype 'v cache_op =
  CacheInsert cache_key 'v cache_admission
| CacheGet cache_key cache_generation u64
| CacheClear
| CacheRemove cache_key

definition cache_exec :: "'v secure_cache \<Rightarrow> 'v cache_op \<Rightarrow> 'v secure_cache" where
  "cache_exec c op =
     (case op of
        CacheInsert key v adm \<Rightarrow> fst (cache_insert c key v adm)
      | CacheGet key g now \<Rightarrow> fst (cache_get c key g now)
      | CacheClear \<Rightarrow> cache_clear c
      | CacheRemove key \<Rightarrow> fst (cache_remove c key))"

lemma cache_exec_inv: "cache_inv limits c \<Longrightarrow> cache_inv limits (cache_exec c op)"
  by (cases op)
    (simp_all add: cache_exec_def cache_insert_inv cache_get_inv cache_clear_inv cache_remove_inv)

interpretation cache_machine: invariant_machine cache_exec "cache_inv limits" for limits
  by unfold_locales (rule cache_exec_inv)

lemma cache_new_inv:
  "cache_new limits = Inr c \<Longrightarrow> max_total_value_bytes limits \<le> usize_max \<Longrightarrow> cache_inv limits c"
  by (auto simp: cache_new_def cache_limits_validate_def cache_inv_def cache_core_def
      cache_stats_default_def split: if_splits)

section \<open>The ideal cache\<close>

text \<open>
  The specification is an unbounded map that remembers, for each key, the last value a client was told
  was inserted, with its disposition, authority state and expiry, and forgets only on \<open>clear\<close> and
  \<open>remove\<close>.
\<close>

type_synonym 'v ideal = "cache_key \<rightharpoonup> 'v \<times> cache_disposition \<times> cache_generation \<times> u64"

definition cache_abs :: "'v secure_cache \<Rightarrow> 'v ideal" where
  "cache_abs c key = map_option
     (\<lambda>e. (ce_value e, ce_disposition e, ce_generation e, ce_expires_at e)) (map_of (sc_entries c) key)"

definition ideal_exec :: "'v secure_cache \<Rightarrow> 'v ideal \<Rightarrow> 'v cache_op \<Rightarrow> 'v ideal" where
  "ideal_exec c m op =
     (case op of
        CacheInsert key v adm \<Rightarrow>
          if snd (cache_insert c key v adm) = Inr ()
          then m(key \<mapsto> (v, ca_disposition adm, ca_generation adm, ca_now adm + ucast (ca_ttl_seconds adm)))
          else m
      | CacheGet key g now \<Rightarrow> m
      | CacheClear \<Rightarrow> Map.empty
      | CacheRemove key \<Rightarrow> m(key := None))"

definition track :: "'v secure_cache \<times> 'v ideal \<Rightarrow> 'v cache_op \<Rightarrow> 'v secure_cache \<times> 'v ideal" where
  "track s op = (cache_exec (fst s) op, ideal_exec (fst s) (snd s) op)"

definition tracks :: "cache_limits \<Rightarrow> 'v secure_cache \<times> 'v ideal \<Rightarrow> bool" where
  "tracks limits s \<longleftrightarrow> cache_inv limits (fst s) \<and> cache_abs (fst s) \<subseteq>\<^sub>m snd s"

lemma map_of_filter_Some:
  "map_of (filter P es) k = Some e \<Longrightarrow> distinct (map fst es) \<Longrightarrow> map_of es k = Some e \<and> P (k, e)"
  by (auto simp: distinct_map_filter dest!: map_of_SomeD)

lemma map_le_Some: "m \<subseteq>\<^sub>m m' \<Longrightarrow> m k = Some x \<Longrightarrow> m' k = Some x"
  by (force simp: map_le_def)

lemma cache_abs_filter:
  assumes "distinct (map fst (sc_entries c))" and "sc_entries c' = filter P (sc_entries c)"
  shows "cache_abs c' \<subseteq>\<^sub>m cache_abs c"
  using map_of_filter_Some [OF _ assms(1)] assms(2)
  by (auto simp: map_le_def cache_abs_def dom_def)

lemma cache_abs_bump [simp]:
  "cache_abs (bump_expirations c) = cache_abs c" "cache_abs (bump_stale_removals c) = cache_abs c"
  "cache_abs (bump_misses c) = cache_abs c" "cache_abs (bump_hits c) = cache_abs c"
  by (simp_all add: fun_eq_iff cache_abs_def)

lemma cache_inv_core: "cache_inv limits c \<Longrightarrow> cache_core limits c \<and> distinct (map fst (sc_entries c))"
  by (simp add: cache_inv_def cache_core_def)

lemma map_of_filter_neq:
  "map_of (filter (\<lambda>x. fst x \<noteq> key) es) k = (if k = key then None else map_of es k)"
  by (induction es) auto

lemma cache_abs_remove:
  assumes "cache_inv limits c"
  shows "cache_abs (fst (remove_internal c key)) = (cache_abs c)(key := None)"
  using remove_internal_core(2) [of limits c key] cache_inv_core [OF assms]
  by (simp add: fun_eq_iff cache_abs_def map_of_filter_neq)

lemma cache_abs_get:
  assumes "cache_inv limits c"
  shows "cache_abs (fst (cache_get c key g now)) \<subseteq>\<^sub>m cache_abs c"
  using cache_generation_validate_cases [of g]
proof
  assume "cache_generation_validate g = Inl InvalidGeneration"
  then show ?thesis by (simp add: cache_get_invalid)
next
  assume g: "cache_generation_validate g = Inr g"
  have "cache_abs (c\<lparr>sc_sequence := s, sc_entries :=
      AList.update key (e\<lparr>ce_last_access := s\<rparr>) (sc_entries c)\<rparr>) = cache_abs c"
    if "map_of (sc_entries c) key = Some e" for e s
    using that by (simp add: fun_eq_iff cache_abs_def AList.update_conv')
  moreover have "(cache_abs c)(key := None) \<subseteq>\<^sub>m cache_abs c" by (simp add: map_le_def)
  ultimately show ?thesis
    using g by (simp add: cache_get_eq cache_abs_remove [OF assms] split: option.split)
qed

lemma cache_insert_status:
  assumes "cache_inv limits c"
  shows "snd (cache_insert c key v adm) = (if admissible limits adm \<and> sc_sequence c \<noteq> - 1 then Inr ()
     else Inl (insert_error limits adm))"
proof (cases "admissible limits adm \<and> sc_sequence c \<noteq> - 1")
  case True
  then show ?thesis by (auto intro: cache_insert_accepted [OF assms, of adm key v])
next
  case False
  then show ?thesis by (simp add: cache_insert_refused [OF assms])
qed

lemma cache_abs_insert:
  assumes "cache_inv limits c" and "snd (cache_insert c key v adm) = Inr ()"
  shows "cache_abs (fst (cache_insert c key v adm)) \<subseteq>\<^sub>m (cache_abs c)
    (key \<mapsto> (v, ca_disposition adm, ca_generation adm, ca_now adm + ucast (ca_ttl_seconds adm)))"
proof -
  from assms have adm: "admissible limits adm" "sc_sequence c \<noteq> - 1"
    by (auto simp: cache_insert_status split: if_splits)
  from cache_insert_accepted [OF assms(1) adm, of key v] obtain c' P where
    ins: "cache_insert c key v adm = (with_entry c' key (admitted_entry v adm (sc_sequence c + 1)), Inr ())"
    and sub: "sc_entries c' = filter P (filter
      (\<lambda>x. fst x \<noteq> key \<and> ca_now adm < ce_expires_at (snd x)) (sc_entries c))" .
  have abs: "cache_abs c' \<subseteq>\<^sub>m cache_abs c"
    using cache_inv_core [OF assms(1)] by (intro cache_abs_filter) (simp_all add: sub filter_filter)
  have fresh: "map_of (sc_entries c') key = None" by (auto simp: sub map_of_eq_None_iff)
  have "cache_abs (with_entry c' key e) = (cache_abs c')
      (key \<mapsto> (ce_value e, ce_disposition e, ce_generation e, ce_expires_at e))" for e
    using fresh by (auto simp: fun_eq_iff cache_abs_def with_entry_def map_add_def split: option.splits)
  with abs show ?thesis
    by (simp add: ins admitted_entry_def map_le_upd)
qed

lemma tracks_step: "tracks limits s \<Longrightarrow> tracks limits (track s op)"
proof (cases s)
  case (Pair c m)
  assume "tracks limits s"
  with Pair have inv: "cache_inv limits c" and sub: "cache_abs c \<subseteq>\<^sub>m m" by (simp_all add: tracks_def)
  note up = map_le_trans [OF _ sub]
  have "cache_abs (cache_exec c op) \<subseteq>\<^sub>m ideal_exec c m op"
  proof (cases op)
    case (CacheInsert key v adm)
    show ?thesis
    proof (cases "snd (cache_insert c key v adm) = Inr ()")
      case True
      with CacheInsert cache_abs_insert [OF inv True] sub show ?thesis
        by (auto simp: cache_exec_def ideal_exec_def intro: map_le_trans map_le_upd)
    next
      case False
      then have "fst (cache_insert c key v adm) = c"
        by (subst cache_insert_refused [OF inv]) (auto simp: cache_insert_status [OF inv] split: if_splits)
      with CacheInsert False sub show ?thesis by (simp add: cache_exec_def ideal_exec_def)
    qed
  next
    case (CacheGet key g now)
    with up [OF cache_abs_get [OF inv]] show ?thesis by (simp add: cache_exec_def ideal_exec_def)
  next
    case CacheClear
    then show ?thesis by (simp add: cache_exec_def ideal_exec_def cache_clear_def cache_abs_def map_le_def dom_def)
  next
    case (CacheRemove key)
    with sub show ?thesis
      by (simp add: cache_exec_def ideal_exec_def cache_remove_def case_prod_beta cache_abs_remove [OF inv]
          map_le_def)
  qed
  with inv show ?thesis by (simp add: tracks_def track_def Pair cache_exec_inv)
qed

interpretation ideal_machine: invariant_machine track "tracks limits" for limits
  by unfold_locales (rule tracks_step)


section \<open>Key material\<close>

lemma name_wire_inj:
  assumes "wf_name n" and "wf_name n'" and "name_wire n = name_wire n'"
  shows "n = n'"
proof -
  let ?l = "browser_limits\<lparr>max_labels_per_name := max (length (labels n)) (length (labels n'))\<rparr>"
  have dec: "decode_name (name_wire x) 0 (name_wire_len x) ?l = Inr (x, name_wire_len x)"
    if "wf_name x" "length (labels x) \<le> max_labels_per_name ?l" for x
    using decode_name_wire [OF that(1), of "name_wire x" "[]" "[]" ?l "name_wire_len x"] that
    by (simp add: usize_max_def wf_name_def MAX_WIRE_NAME_LEN_def)
  have "Inr (n, name_wire_len n) = (Inr (n', name_wire_len n') :: (wire_error, dns_name \<times> usize) result)"
    using dec [OF assms(1)] dec [OF assms(2)] assms(3)
    by (metis length_name_wire max.cobounded1 max.cobounded2 parse_limits.select_convs(5)
        parse_limits.update_convs(5) parse_limits.surjective)
  then show ?thesis by simp
qed

lemma preimage_inj:
  assumes "cache_key_preimage s n g t w = cache_key_preimage s' n' g' t' w'"
    and "length s = 32" "length s' = 32" "length (tree_root g) = 32" "length (tree_root g') = 32"
  shows "s = s' \<and> n = n' \<and> g = g' \<and> code t = code t' \<and> w = w'"
proof -
  have split: "a = a' \<and> b = b'" if "a @ b = a' @ b'" "length a = length a'" for a b a' b' :: bytes
    using that by simp
  from assms have "be_bytes 8 (runtime_generation g) = be_bytes 8 (runtime_generation g')"
      "be_bytes 8 (policy_generation g) = be_bytes 8 (policy_generation g')"
      "be_bytes 4 (chain_height g) = be_bytes 4 (chain_height g')" "tree_root g = tree_root g'"
      "be_bytes 2 (code t) = be_bytes 2 (code t')"
    and rest: "s = s'" "n = n'" "w = w'"
    by (auto simp: cache_key_preimage_def)
  then have "runtime_generation g = runtime_generation g'" "policy_generation g = policy_generation g'"
      "chain_height g = chain_height g'" "code t = code t'"
    by (metis be_word_widths)+
  with rest \<open>tree_root g = tree_root g'\<close> show ?thesis by simp
qed

lemma cache_key_derive_Inr:
  assumes "cache_key_derive sha256 s n g nm t = Inr k" and "wf_name nm"
  shows "k = sha256 (cache_key_preimage s n g t (name_wire nm))"
  using assms by (auto simp: cache_key_derive_def name_encode_wf result_inv cache_generation_validate_def
      split: if_splits)

section \<open>Concrete caches\<close>

definition sample_generation :: cache_generation where
  "sample_generation = \<lparr>runtime_generation = 1, policy_generation = 2, chain_height = 100,
     tree_root = replicate 32 5\<rparr>"

definition sample_admission :: cache_admission where
  "sample_admission = \<lparr>ca_value_bytes = 10, ca_disposition = Positive, ca_generation = sample_generation,
     ca_now = 1000, ca_ttl_seconds = 60\<rparr>"

definition tiny_limits :: cache_limits where
  "tiny_limits = \<lparr>max_entries = 2, max_total_value_bytes = 100, max_value_bytes = 50,
     max_positive_ttl = 3600, max_negative_ttl = 60\<rparr>"

definition empty_cache :: "nat secure_cache" where
  "empty_cache = \<lparr>sc_limits = tiny_limits, sc_entries = [], sc_sequence = 0, sc_stats = cache_stats_default\<rparr>"

lemma empty_cache_new: "cache_new tiny_limits = Inr empty_cache"
  by (simp add: cache_new_def cache_limits_validate_def tiny_limits_def empty_cache_def)

lemma tiny_fits: "max_total_value_bytes tiny_limits \<le> usize_max"
  by (simp add: tiny_limits_def usize_max_def)

lemmas cache_eval = cache_insert_def cache_get_def cache_generation_validate_def next_sequence_def
  remove_internal_def remove_expired_def make_room.simps needs_room_def evict_lru_def bump_defs
  sample_admission_def sample_generation_def tiny_limits_def empty_cache_def cache_stats_default_def
  u64_checked_add_def u64_max_def usize_add_def usize_max_def Let_def

section \<open>Properties\<close>

text \<open>C20: Bounds of the cache: from a freshly created cache, after every sequence of insertions, reads,
  removals and clears, the number of entries and the total of their reported sizes are within the
  configured limits, the statistics equal the real numbers, each entry is within the per-value limit,
  and keys and access sequences are distinct.\<close>

theorem cache_bounds:
  assumes "cache_new limits = Inr c0" and "max_total_value_bytes limits \<le> usize_max"
    and "c = foldl cache_exec c0 ops"
  shows "length (sc_entries c) \<le> max_entries limits \<and>
    entry_bytes (sc_entries c) \<le> max_total_value_bytes limits \<and>
    st_entries (sc_stats c) = length (sc_entries c) \<and>
    st_value_bytes (sc_stats c) = entry_bytes (sc_entries c) \<and>
    (\<forall>(k, e) \<in> set (sc_entries c). ce_value_bytes e \<le> max_value_bytes limits) \<and>
    distinct (map fst (sc_entries c)) \<and> distinct (accesses (sc_entries c))"
  using cache_machine.run_inv [OF cache_new_inv [OF assms(1,2)], of ops]
  by (auto simp: assms(3) cache_inv_def cache_core_def wf_entry_def)

theorem cache_bounds_witness:
  "st_entries (sc_stats (foldl cache_exec empty_cache
     [CacheInsert [1] 7 sample_admission, CacheInsert [2] 8 sample_admission,
      CacheInsert [3] 9 sample_admission, CacheRemove [9]])) \<le> 2"
  using cache_bounds [OF empty_cache_new tiny_fits refl, of "[CacheInsert [1] 7 sample_admission,
      CacheInsert [2] 8 sample_admission, CacheInsert [3] 9 sample_admission, CacheRemove [9]]"]
  by (simp add: tiny_limits_def)

text \<open>C6: A hit is always the last acknowledged value: run any sequence of operations from an empty
  cache next to an unbounded map that records every acknowledged insertion; whenever \<open>get\<close> then returns
  a value, the map holds exactly this value and disposition for the key, recorded under the very
  authority generation presented, and its expiry lies in the future.  So no stale, expired, removed or
  foreign-generation value is ever served.\<close>

theorem cache_hit_is_ideal:
  assumes "cache_new limits = Inr c0" and "max_total_value_bytes limits \<le> usize_max"
    and "(c, m) = foldl track (c0, Map.empty) ops"
    and "snd (cache_get c key g now) = Inr (Some (v, d))"
  shows "\<exists>expires. m key = Some (v, d, g, expires) \<and> now < expires"
proof -
  have "tracks limits (c0, Map.empty)"
    using cache_new_inv [OF assms(1,2)] assms(1)
    by (auto simp: tracks_def cache_abs_def map_le_def dom_def cache_new_def result_inv)
  from ideal_machine.run_inv [OF this, of ops] have sub: "cache_abs c \<subseteq>\<^sub>m m"
    by (simp add: tracks_def assms(3) [symmetric])
  from assms(4) have valid: "cache_generation_validate g = Inr g"
    using cache_generation_validate_cases [of g] by (auto simp: cache_get_invalid)
  from assms(4) obtain e where "map_of (sc_entries c) key = Some e" "ce_generation e = g"
      "now < ce_expires_at e" "v = ce_value e" "d = ce_disposition e"
    by (auto simp: cache_get_eq [OF valid] split: option.splits if_splits)
  then have "cache_abs c key = Some (v, d, g, ce_expires_at e)" "now < ce_expires_at e"
    by (simp_all add: cache_abs_def)
  with map_le_Some [OF sub] show ?thesis by blast
qed

theorem cache_hit_is_ideal_witness:
  "\<exists>expires. snd (foldl track (empty_cache, Map.empty) [CacheInsert [1] 7 sample_admission]) [1]
     = Some (7, Positive, sample_generation, expires) \<and> 1059 < expires"
proof -
  let ?s = "foldl track (empty_cache, Map.empty) [CacheInsert [1] 7 sample_admission]"
  have "snd (cache_get (fst ?s) [1] sample_generation 1059) = Inr (Some (7, Positive))"
    by (simp add: track_def cache_exec_def cache_eval)
  from cache_hit_is_ideal [OF empty_cache_new tiny_fits _ this, of "snd ?s"] show ?thesis
    by (metis prod.collapse)
qed

text \<open>When an insertion is accepted: in every state reached from a new cache it is refused exactly
  for a zero generation, a size of zero or beyond the per-value limit, a TTL of zero or beyond the limit
  for its disposition, an expiry beyond \<open>u64\<close>, or an exhausted access sequence, in this order, and then
  the cache is unchanged; making room never fails.\<close>

lemma cache_insert_outcome:
  assumes "cache_new limits = Inr c0" and "max_total_value_bytes limits \<le> usize_max"
    and "c = foldl cache_exec c0 ops"
  shows "if admissible limits adm \<and> sc_sequence c \<noteq> - 1
    then snd (cache_insert c key v adm) = Inr ()
    else cache_insert c key v adm = (c, Inl (insert_error limits adm))"
proof -
  have inv: "cache_inv limits c"
    using cache_machine.run_inv [OF cache_new_inv [OF assms(1,2)]] assms(3) by simp
  show ?thesis
    using cache_insert_refused [OF inv] cache_insert_status [OF inv] by simp
qed

lemma cache_insert_outcome_witness:
  "snd (cache_insert (foldl cache_exec empty_cache [CacheClear]) [1] 7 sample_admission) = Inr ()"
  using cache_insert_outcome [OF empty_cache_new tiny_fits refl, of sample_admission "[CacheClear]" "[1]" 7]
  by (simp add: admissible_def cache_exec_def cache_clear_def cache_eval)

text \<open>What was just inserted can be read: after an acknowledged insertion, a read of the same key
  under the same generation before the expiry returns the value and its disposition (unless the 64-bit
  access sequence is exhausted).\<close>

lemma cache_insert_get:
  assumes "cache_inv limits c" and "cache_insert c key v adm = (c', Inr ())"
    and "unat now < unat (ca_now adm) + unat (ca_ttl_seconds adm)" and "sc_sequence c' \<noteq> - 1"
  shows "snd (cache_get c' key (ca_generation adm) now) = Inr (Some (v, ca_disposition adm))"
proof -
  have adm: "admissible limits adm" "sc_sequence c \<noteq> - 1"
    using cache_insert_status [OF assms(1), of key v adm] assms(2) by (auto split: if_splits)
  from cache_insert_accepted [OF assms(1) adm, of key v] obtain c1 P where
    ins: "cache_insert c key v adm = (with_entry c1 key (admitted_entry v adm (sc_sequence c + 1)), Inr ())"
    and sub: "sc_entries c1 = filter P (filter
      (\<lambda>x. fst x \<noteq> key \<and> ca_now adm < ce_expires_at (snd x)) (sc_entries c))" .
  have "map_of (sc_entries c1) key = None" by (auto simp: sub map_of_eq_None_iff)
  then have entry: "map_of (sc_entries c') key = Some (admitted_entry v adm (sc_sequence c + 1))"
    using ins assms(2) by (auto simp: with_entry_def map_add_def)
  have "unat (ca_now adm) + unat (ca_ttl_seconds adm) \<le> u64_max" using adm(1) by (simp add: admissible_def)
  then have "u64_checked_add (ca_now adm) (ucast (ca_ttl_seconds adm)) =
      Some (ca_now adm + ucast (ca_ttl_seconds adm))" by (simp only: ttl_checked_add if_True)
  then have "unat (ca_now adm + ucast (ca_ttl_seconds adm)) = unat (ca_now adm) + unat (ca_ttl_seconds adm)"
    using u64_checked_add_SomeD by (metis unat_ucast_u32)
  with assms(3) have "now < ca_now adm + ucast (ca_ttl_seconds adm)" by (simp only: word_less_nat_alt)
  moreover have "cache_generation_validate (ca_generation adm) = Inr (ca_generation adm)"
    using adm(1) by (simp add: admissible_def cache_generation_validate_def)
  ultimately show ?thesis
    using entry assms(4) by (simp add: cache_get_eq admitted_entry_def)
qed

lemma cache_insert_get_witness:
  "\<exists>c'. cache_insert empty_cache [1] 7 sample_admission = (c', Inr ()) \<and>
     snd (cache_get c' [1] sample_generation 1059) = Inr (Some (7, Positive))"
proof -
  obtain c' where e: "cache_insert empty_cache [1] 7 sample_admission = (c', Inr ())"
      and s: "sc_sequence c' \<noteq> - 1"
    by (simp add: cache_eval)
  from cache_insert_get [OF cache_new_inv [OF empty_cache_new tiny_fits] e _ s, of 1059] e show ?thesis
    by (simp add: sample_admission_def)
qed

text \<open>Eviction is least-recently-used: if an accepted insertion drops an entry of another key that
  has not expired, then every entry that survives, other than the new one, was accessed later than the
  dropped one.\<close>

lemma cache_eviction_is_lru:
  assumes "cache_inv limits c" and "cache_insert c key v adm = (c', Inr ())"
    and "(k, e) \<in> set (sc_entries c)" and "k \<noteq> key" and "ca_now adm < ce_expires_at e"
    and "k \<notin> fst ` set (sc_entries c')"
    and "(k', e') \<in> set (sc_entries c')" and "k' \<noteq> key"
  shows "(k', e') \<in> set (sc_entries c) \<and> ce_last_access e < ce_last_access e'"
proof -
  have adm: "admissible limits adm" "sc_sequence c \<noteq> - 1"
    using cache_insert_status [OF assms(1), of key v adm] assms(2) by (auto split: if_splits)
  from cache_insert_accepted [OF assms(1) adm, of key v] obtain c1 P where
    ins: "cache_insert c key v adm = (with_entry c1 key (admitted_entry v adm (sc_sequence c + 1)), Inr ())"
    and sub: "sc_entries c1 = filter P (filter
      (\<lambda>x. fst x \<noteq> key \<and> ca_now adm < ce_expires_at (snd x)) (sc_entries c))"
    and lru: "\<forall>x \<in> set (sc_entries c). \<forall>y \<in> set (sc_entries c1).
      fst x \<noteq> key \<and> ca_now adm < ce_expires_at (snd x) \<and> \<not> P x \<longrightarrow> ce_last_access (snd x) \<le> ce_last_access (snd y)" .
  have kept: "(k', e') \<in> set (sc_entries c1)" and gone: "k \<notin> fst ` set (sc_entries c1)"
    using ins assms(2,6,7,8) by (auto simp: with_entry_def)
  then have mem: "(k', e') \<in> set (sc_entries c)" by (simp add: sub)
  have "\<not> P (k, e)" using gone assms(3-5) by (force simp: sub)
  with bspec [OF bspec [OF lru assms(3)] kept] assms(4,5)
  have le: "ce_last_access e \<le> ce_last_access e'" by simp
  have ne: "k \<noteq> k'" using kept gone by force
  have inj: "inj_on (\<lambda>(_, e). ce_last_access e) (set (sc_entries c))"
    using assms(1) by (simp add: cache_inv_def cache_core_def accesses_def distinct_map)
  have "ce_last_access e \<noteq> ce_last_access e'"
    using inj_onD [OF inj _ assms(3) mem] ne by auto
  with le mem show ?thesis by simp
qed

lemma cache_eviction_is_lru_witness:
  "\<exists>c c'. c = foldl cache_exec empty_cache
       [CacheInsert [1] 7 sample_admission, CacheInsert [2] 8 sample_admission] \<and>
     cache_insert c [3] 9 sample_admission = (c', Inr ()) \<and> map fst (sc_entries c') = [[2], [3]] \<and>
     ce_last_access (snd (sc_entries c ! 0)) < ce_last_access (snd (sc_entries c' ! 0))"
proof -
  let ?c = "foldl cache_exec empty_cache
    [CacheInsert [1] 7 sample_admission, CacheInsert [2] 8 sample_admission]"
  let ?e = "\<lambda>v s. \<lparr>ce_value = v :: nat, ce_value_bytes = 10, ce_disposition = Positive,
    ce_generation = sample_generation, ce_expires_at = 1060, ce_last_access = s\<rparr>"
  have inv: "cache_inv tiny_limits ?c"
    by (rule cache_machine.run_inv [OF cache_new_inv [OF empty_cache_new tiny_fits]])
  obtain c' where i: "cache_insert ?c [3] 9 sample_admission = (c', Inr ())"
      and e: "sc_entries ?c = [([1], ?e 7 1), ([2], ?e 8 2)]"
      and e': "sc_entries c' = [([2], ?e 8 2), ([3], ?e 9 3)]"
    by (simp add: cache_exec_def cache_eval)
  have "ce_last_access (snd (sc_entries ?c ! 0)) < ce_last_access (snd (sc_entries c' ! 0))"
    using cache_eviction_is_lru [OF inv i, of "[1]" "?e 7 1" "[2]" "?e 8 2"] e e'
    by (simp add: sample_admission_def)
  with i e' show ?thesis by (intro exI [of _ ?c] exI [of _ c']) simp
qed

text \<open>Keys are bound to their context: two derivations under a hash that has no collision on the two
  inputs give the same key only for the same session secret, network, authority generation, DNS name and
  record-type code.\<close>

lemma cache_key_binding:
  assumes "cache_key_derive sha256 s n g nm t = Inr k" and "cache_key_derive sha256 s' n' g' nm' t' = Inr k"
    and "wf_name nm" and "wf_name nm'" and "length s = 32" and "length s' = 32"
    and "length (tree_root g) = 32" and "length (tree_root g') = 32"
    and "inj_on sha256 {cache_key_preimage s n g t (name_wire nm),
                        cache_key_preimage s' n' g' t' (name_wire nm')}"
  shows "s = s' \<and> n = n' \<and> g = g' \<and> nm = nm' \<and> code t = code t'"
proof -
  have "cache_key_preimage s n g t (name_wire nm) = cache_key_preimage s' n' g' t' (name_wire nm')"
    using cache_key_derive_Inr [OF assms(1,3)] cache_key_derive_Inr [OF assms(2,4)] assms(9)
    by (auto dest: inj_onD)
  from preimage_inj [OF this assms(5-8)] name_wire_inj [OF assms(3,4)] show ?thesis by simp
qed

lemma cache_key_binding_witness:
  "\<exists>k. cache_key_derive (\<lambda>bs. take 32 (drop 24 bs)) (replicate 32 1) 0 sample_generation
     (Name [[97]]) RtA = Inr k \<and> (Name [[97]] :: dns_name) = Name [[97]] \<and> code RtA = code (RtUnknown 1)"
proof -
  let ?h = "\<lambda>bs :: bytes. take 32 (drop 24 bs)"
  let ?s = "replicate 32 1 :: bytes"
  have wf: "wf_name (Name [[97]])"
    by (simp add: wf_name_def wf_label_def MAX_LABEL_LEN_def canonical_label_def to_ascii_lowercase_def
        name_wire_len_def MAX_WIRE_NAME_LEN_def)
  obtain k where a: "cache_key_derive ?h ?s 0 sample_generation (Name [[97]]) RtA = Inr k"
    using name_encode_wf [OF wf, of "[]"]
    by (simp add: cache_key_derive_def sample_generation_def cache_generation_validate_def
        name_wire_len_def U16_MAX_def)
  have b: "cache_key_derive ?h ?s 0 sample_generation (Name [[97]]) (RtUnknown 1) = Inr k"
    using a unfolding cache_key_derive_def cache_key_preimage_def code.simps .
  from cache_key_binding [OF a b wf wf] a show ?thesis
    by (simp add: sample_generation_def cache_key_preimage_def)
qed

end
