(* ===== verification/Expiring_Lru.thy ===== *)
theory Expiring_Lru
  imports Cache
begin

text \<open>
  \<open>ExpiringLru\<close> (src/crates/hns-cache/src/lib.rs), the small process-local cache with a queue of keys in
  order of use.  \<open>Instant::now()\<close> is an argument of each operation (the insertion reads the clock twice);
  an instant is a number of nanoseconds, and \<open>checked_add\<close> fails beyond the representable range.  The
  abstract specification is one list of keyed values in order of use.
\<close>

section \<open>Model\<close>

definition INSTANT_MAX :: nat where
  "INSTANT_MAX = 9223372036854775807999999999"

definition instant_checked_add :: "nat \<Rightarrow> nat \<Rightarrow> nat option" where
  "instant_checked_add t d = (if t + d \<le> INSTANT_MAX then Some (t + d) else None)"

record 'v timed_entry =
  te_value :: 'v
  te_expires_at :: nat

record ('k, 'v) expiring_lru =
  el_max_entries :: usize
  el_entries :: "('k \<times> 'v timed_entry) list"
  el_order :: "'k list"

definition lru_new :: "usize \<Rightarrow> ('k, 'v) expiring_lru" where
  "lru_new limit = \<lparr>el_max_entries = limit, el_entries = [], el_order = []\<rparr>"

definition prune_expired :: "('k, 'v) expiring_lru \<Rightarrow> nat \<Rightarrow> ('k, 'v) expiring_lru" where
  "prune_expired c now =
     (let c = c\<lparr>el_entries := filter (\<lambda>(_, e). now < te_expires_at e) (el_entries c)\<rparr>
      in c\<lparr>el_order := filter (\<lambda>k. map_of (el_entries c) k \<noteq> None) (el_order c)\<rparr>)"

definition promote :: "('k, 'v) expiring_lru \<Rightarrow> 'k \<Rightarrow> ('k, 'v) expiring_lru" where
  "promote c key = c\<lparr>el_order := filter (\<lambda>candidate. candidate \<noteq> key) (el_order c)\<rparr>"

fun evict_loop :: "usize \<Rightarrow> ('k \<times> 'v timed_entry) list \<Rightarrow> 'k list \<Rightarrow>
    ('k \<times> 'v timed_entry) list \<times> 'k list" where
  "evict_loop limit entries [] = (entries, [])"
| "evict_loop limit entries (key # order) =
     (if limit < length entries then evict_loop limit (AList.delete key entries) order
      else (entries, key # order))"

definition evict_over_limit :: "('k, 'v) expiring_lru \<Rightarrow> ('k, 'v) expiring_lru" where
  "evict_over_limit c =
     (case evict_loop (el_max_entries c) (el_entries c) (el_order c) of
        (entries, order) \<Rightarrow> c\<lparr>el_entries := entries, el_order := order\<rparr>)"

definition lru_insert ::
  "('k, 'v) expiring_lru \<Rightarrow> 'k \<Rightarrow> 'v \<Rightarrow> nat \<Rightarrow> nat \<Rightarrow> nat \<Rightarrow>
     ('k, 'v) expiring_lru \<times> (cache_error, unit) result" where
  "lru_insert c key v ttl now now' =
     (if ttl = 0 then (c, Inl TtlLimit)
      else case instant_checked_add now ttl of
        None \<Rightarrow> (c, Inl TimeOverflow)
      | Some expires_at \<Rightarrow>
          let c = promote (prune_expired c now') key;
              c = c\<lparr>el_order := el_order c @ [key]\<rparr>;
              c = c\<lparr>el_entries :=
                     AList.update key \<lparr>te_value = v, te_expires_at = expires_at\<rparr> (el_entries c)\<rparr>
          in (evict_over_limit c, Inr ()))"

definition lru_get :: "('k, 'v) expiring_lru \<Rightarrow> 'k \<Rightarrow> nat \<Rightarrow> ('k, 'v) expiring_lru \<times> 'v option" where
  "lru_get c key now =
     (let c = prune_expired c now in
      case map_of (el_entries c) key of
        None \<Rightarrow> (c, None)
      | Some e \<Rightarrow>
          let c = promote c key in (c\<lparr>el_order := el_order c @ [key]\<rparr>, Some (te_value e)))"

definition lru_len :: "('k, 'v) expiring_lru \<Rightarrow> nat \<Rightarrow> ('k, 'v) expiring_lru \<times> usize" where
  "lru_len c now = (let c = prune_expired c now in (c, length (el_entries c)))"

definition lru_is_empty :: "('k, 'v) expiring_lru \<Rightarrow> nat \<Rightarrow> ('k, 'v) expiring_lru \<times> bool" where
  "lru_is_empty c now = (case lru_len c now of (c, n) \<Rightarrow> (c, n = 0))"

definition lru_clear :: "('k, 'v) expiring_lru \<Rightarrow> ('k, 'v) expiring_lru" where
  "lru_clear c = c\<lparr>el_entries := [], el_order := []\<rparr>"

section \<open>The recency list\<close>

definition lru_inv :: "usize \<Rightarrow> ('k, 'v) expiring_lru \<Rightarrow> bool" where
  "lru_inv limit c \<longleftrightarrow> el_max_entries c = limit \<and> 0 < limit \<and> distinct (map fst (el_entries c)) \<and>
     distinct (el_order c) \<and> set (el_order c) = fst ` set (el_entries c) \<and> length (el_entries c) \<le> limit"

definition lru_abs :: "('k, 'v) expiring_lru \<Rightarrow> ('k \<times> 'v timed_entry) list" where
  "lru_abs c = map (\<lambda>k. (k, the (map_of (el_entries c) k))) (el_order c)"

definition spec_live :: "nat \<Rightarrow> ('k \<times> 'v timed_entry) list \<Rightarrow> ('k \<times> 'v timed_entry) list" where
  "spec_live now L = filter (\<lambda>(_, e). now < te_expires_at e) L"

definition spec_insert ::
  "usize \<Rightarrow> nat \<Rightarrow> 'k \<Rightarrow> 'v timed_entry \<Rightarrow> ('k \<times> 'v timed_entry) list \<Rightarrow> ('k \<times> 'v timed_entry) list" where
  "spec_insert limit now key e L =
     (let L' = filter (\<lambda>(k, _). k \<noteq> key) (spec_live now L) @ [(key, e)] in drop (length L' - limit) L')"

definition spec_get ::
  "nat \<Rightarrow> 'k \<Rightarrow> ('k \<times> 'v timed_entry) list \<Rightarrow> ('k \<times> 'v timed_entry) list \<times> 'v option" where
  "spec_get now key L =
     (let L = spec_live now L in
      case map_of L key of
        None \<Rightarrow> (L, None)
      | Some e \<Rightarrow> (filter (\<lambda>(k, _). k \<noteq> key) L @ [(key, e)], Some (te_value e)))"

lemma lru_order_length: "lru_inv limit c \<Longrightarrow> length (el_order c) = length (el_entries c)"
  by (metis distinct_card length_map list.set_map lru_inv_def)

lemma map_of_lru_abs:
  assumes "set (el_order c) = fst ` set (el_entries c)"
  shows "map_of (lru_abs c) = map_of (el_entries c)"
proof
  fix k
  have "map_of (map (\<lambda>k. (k, f k)) ks) k = (if k \<in> set ks then Some (f k) else None)"
    for f :: "'a \<Rightarrow> 'b timed_entry" and ks
    by (induction ks) auto
  then show "map_of (lru_abs c) k = map_of (el_entries c) k"
    using assms by (simp add: lru_abs_def map_of_eq_None_iff) (metis map_of_eq_None_iff option.collapse)
qed

lemma fst_lru_abs [simp]: "map fst (lru_abs c) = el_order c"
  by (simp add: lru_abs_def comp_def)

text \<open>Two caches with the same order whose entries agree on it have the same recency list.\<close>

lemma lru_abs_cong:
  "el_order c = el_order c' \<Longrightarrow> (\<And>k. k \<in> set (el_order c) \<Longrightarrow> map_of (el_entries c) k = map_of (el_entries c') k) \<Longrightarrow>
   lru_abs c = lru_abs c'"
  by (simp add: lru_abs_def)

lemma map_of_filter_entry:
  "distinct (map fst es) \<Longrightarrow>
   map_of (filter (\<lambda>(_, e). P e) es) k = (case map_of es k of None \<Rightarrow> None | Some e \<Rightarrow> if P e then Some e else None)"
  by (induction es) (auto simp: map_of_eq_None_iff image_iff split: option.splits)

lemma prune_inv:
  assumes "lru_inv limit c"
  shows "lru_inv limit (prune_expired c now)"
proof -
  have "length (filter P (el_entries c)) \<le> limit" for P
    using assms by (meson length_filter_le le_trans lru_inv_def)
  with assms show ?thesis
    by (auto simp: lru_inv_def prune_expired_def Let_def distinct_map_filter map_of_filter_entry
        split: option.splits if_splits dest: map_of_SomeD eq_key_imp_eq_value intro: rev_image_eqI)
qed

lemma prune_abs:
  assumes "lru_inv limit c"
  shows "lru_abs (prune_expired c now) = spec_live now (lru_abs c)"
proof -
  have d: "distinct (map fst (el_entries c))" and s: "set (el_order c) = fst ` set (el_entries c)"
    using assms by (simp_all add: lru_inv_def)
  have "map (\<lambda>k. (k, the (map_of (filter (\<lambda>(_, e). now < te_expires_at e) (el_entries c)) k)))
      (filter (\<lambda>k. map_of (filter (\<lambda>(_, e). now < te_expires_at e) (el_entries c)) k \<noteq> None) ks) =
    filter (\<lambda>(_, e). now < te_expires_at e) (map (\<lambda>k. (k, the (map_of (el_entries c) k))) ks)"
    if "set ks \<subseteq> fst ` set (el_entries c)" for ks
    using that
    by (induction ks) (auto simp: map_of_filter_entry [OF d] map_of_eq_None_iff split: option.splits)
  from this [of "el_order c"] s show ?thesis
    by (simp add: lru_abs_def prune_expired_def spec_live_def Let_def)
qed


section \<open>Eviction and the operations\<close>

definition keyed :: "('k \<times> 'e) list \<Rightarrow> 'k list \<Rightarrow> bool" where
  "keyed es order \<longleftrightarrow> distinct (map fst es) \<and> distinct order \<and> set order = fst ` set es"

lemma keyed_length: "keyed es order \<Longrightarrow> length order = length es"
  unfolding keyed_def by (metis distinct_card length_map list.set_map)

lemma evict_loop_spec:
  assumes "keyed es order"
  shows "\<exists>es'. evict_loop limit es order = (es', drop (length order - limit) order) \<and>
    keyed es' (drop (length order - limit) order) \<and>
    (\<forall>k \<in> set (drop (length order - limit) order). map_of es' k = map_of es k)"
  using assms
proof (induction order arbitrary: es)
  case (Cons key order)
  note len = keyed_length [OF Cons.prems]
  show ?case
  proof (cases "limit < length es")
    case True
    have del: "keyed (AList.delete key es) order"
      using Cons.prems by (auto simp: keyed_def delete_eq_filter distinct_map_filter)
    have "map_of (AList.delete key es) k = map_of es k" if "k \<in> set order" for k
      using that Cons.prems by (auto simp: keyed_def AList.delete_conv')
    moreover have "drop (length (key # order) - limit) (key # order) = drop (length order - limit) order"
      using True len by (simp add: drop_Cons split: nat.split) (metis Suc_diff_le diff_Suc_Suc less_Suc_eq_le nat.inject)
    moreover note Cons.IH [OF del] in_set_dropD [of _ "length order - limit" order]
    ultimately show ?thesis using True by fastforce
  next
    case False
    with Cons.prems len show ?thesis by auto
  qed
qed (simp add: keyed_def)

lemma lru_inv_keyed: "lru_inv limit c \<longleftrightarrow> el_max_entries c = limit \<and> 0 < limit \<and>
    keyed (el_entries c) (el_order c) \<and> length (el_entries c) \<le> limit"
  by (auto simp: lru_inv_def keyed_def)

lemma evict_over_limit_spec:
  assumes "keyed (el_entries c) (el_order c)" and "el_max_entries c = limit" and "0 < limit"
  shows "lru_inv limit (evict_over_limit c)"
    and "lru_abs (evict_over_limit c) = drop (length (lru_abs c) - limit) (lru_abs c)"
proof -
  let ?n = "length (el_order c) - limit"
  from evict_loop_spec [OF assms(1), of limit] assms(2) obtain es' where
    e: "evict_over_limit c = c\<lparr>el_entries := es', el_order := drop ?n (el_order c)\<rparr>"
      "keyed es' (drop ?n (el_order c))"
      "\<forall>k \<in> set (drop ?n (el_order c)). map_of es' k = map_of (el_entries c) k"
    by (auto simp: evict_over_limit_def)
  from keyed_length [OF e(2)] have "length es' \<le> limit" by simp
  with e assms show "lru_inv limit (evict_over_limit c)" by (simp add: lru_inv_keyed)
  from e show "lru_abs (evict_over_limit c) = drop (length (lru_abs c) - limit) (lru_abs c)"
    by (simp add: lru_abs_def drop_map)
qed

lemma promoted_keyed:
  assumes "keyed es order" and "key \<in> fst ` set es'" and "distinct (map fst es')"
    and "fst ` set es' = insert key (fst ` set es)"
  shows "keyed es' (filter (\<lambda>k. k \<noteq> key) order @ [key])"
  using assms by (auto simp: keyed_def)

lemma lru_insert_spec:
  assumes inv: "lru_inv limit c"
  shows "lru_inv limit (fst (lru_insert c key v ttl now now'))"
    and "ttl \<noteq> 0 \<Longrightarrow> now + ttl \<le> INSTANT_MAX \<Longrightarrow>
      snd (lru_insert c key v ttl now now') = Inr () \<and>
      lru_abs (fst (lru_insert c key v ttl now now')) =
        spec_insert limit now' key \<lparr>te_value = v, te_expires_at = now + ttl\<rparr> (lru_abs c)"
proof -
  let ?p = "prune_expired c now'"
  let ?e = "\<lparr>te_value = v, te_expires_at = now + ttl\<rparr>"
  let ?q = "?p\<lparr>el_order := filter (\<lambda>k. k \<noteq> key) (el_order ?p) @ [key],
    el_entries := AList.update key ?e (el_entries ?p)\<rparr>"
  note p = prune_inv [OF inv, of now']
  have k: "keyed (el_entries ?q) (el_order ?q)"
    using p by (auto simp: lru_inv_keyed AList.dom_update AList.distinct_update
        intro!: promoted_keyed [of "el_entries ?p"] simp: keyed_def)
  have q: "el_max_entries ?q = limit" "0 < limit" using p by (simp_all add: lru_inv_def)
  have abs: "lru_abs ?q = filter (\<lambda>(k, _). k \<noteq> key) (lru_abs ?p) @ [(key, ?e)]"
    by (auto simp: lru_abs_def AList.update_conv' filter_map comp_def)
  show "lru_inv limit (fst (lru_insert c key v ttl now now'))"
    using inv evict_over_limit_spec(1) [OF k q]
    by (simp add: lru_insert_def instant_checked_add_def promote_def Let_def)
  show "snd (lru_insert c key v ttl now now') = Inr () \<and>
      lru_abs (fst (lru_insert c key v ttl now now')) = spec_insert limit now' key ?e (lru_abs c)"
    if "ttl \<noteq> 0" "now + ttl \<le> INSTANT_MAX"
    using that evict_over_limit_spec(2) [OF k q] abs
    by (simp add: lru_insert_def instant_checked_add_def promote_def Let_def spec_insert_def
        prune_abs [OF inv])
qed

lemma lru_get_spec:
  assumes inv: "lru_inv limit c"
  shows "lru_inv limit (fst (lru_get c key now))"
    and "(lru_abs (fst (lru_get c key now)), snd (lru_get c key now)) = spec_get now key (lru_abs c)"
proof -
  let ?p = "prune_expired c now"
  note p = prune_inv [OF inv, of now]
  have m: "map_of (spec_live now (lru_abs c)) = map_of (el_entries ?p)"
    using map_of_lru_abs [of ?p] p prune_abs [OF inv, of now] by (simp add: lru_inv_def)
  show "lru_inv limit (fst (lru_get c key now))"
  proof (cases "map_of (el_entries ?p) key")
    case (Some e)
    then have "key \<in> fst ` set (el_entries ?p)" by (metis domI dom_map_of_conv_image_fst)
    with p Some show ?thesis
      by (auto simp: lru_get_def promote_def Let_def lru_inv_keyed keyed_def)
  qed (use p in \<open>simp add: lru_get_def Let_def\<close>)
  show "(lru_abs (fst (lru_get c key now)), snd (lru_get c key now)) = spec_get now key (lru_abs c)"
  proof (cases "map_of (el_entries ?p) key")
    case None
    with m show ?thesis by (simp add: lru_get_def spec_get_def Let_def prune_abs [OF inv])
  next
    case (Some e)
    have "lru_abs (?p\<lparr>el_order := filter (\<lambda>k. k \<noteq> key) (el_order ?p) @ [key]\<rparr>) =
        filter (\<lambda>(k, _). k \<noteq> key) (lru_abs ?p) @ [(key, e)]"
      using Some by (simp add: lru_abs_def filter_map comp_def)
    with Some m show ?thesis
      by (simp add: lru_get_def spec_get_def promote_def Let_def prune_abs [OF inv])
  qed
qed


section \<open>Properties\<close>

datatype ('k, 'v) lru_op =
  LruInsert 'k 'v nat nat nat | LruGet 'k nat | LruLen nat | LruIsEmpty nat | LruClear

definition lru_exec :: "('k, 'v) expiring_lru \<Rightarrow> ('k, 'v) lru_op \<Rightarrow> ('k, 'v) expiring_lru" where
  "lru_exec c op =
     (case op of
        LruInsert key v ttl now now' \<Rightarrow> fst (lru_insert c key v ttl now now')
      | LruGet key now \<Rightarrow> fst (lru_get c key now)
      | LruLen now \<Rightarrow> fst (lru_len c now)
      | LruIsEmpty now \<Rightarrow> fst (lru_is_empty c now)
      | LruClear \<Rightarrow> lru_clear c)"

interpretation lru_machine: invariant_machine lru_exec "lru_inv limit" for limit
proof
  fix c :: "('k, 'v) expiring_lru" and op
  assume inv: "lru_inv limit c"
  have "lru_inv limit (lru_clear c)" using inv by (simp add: lru_clear_def lru_inv_def)
  with inv show "lru_inv limit (lru_exec c op)"
    by (cases op) (simp_all add: lru_exec_def lru_insert_spec(1) lru_get_spec(1) lru_len_def
        lru_is_empty_def prune_inv Let_def)
qed

lemma lru_new_inv: "0 < limit \<Longrightarrow> lru_inv limit (lru_new limit)"
  by (simp add: lru_new_def lru_inv_def)

text \<open>C23: The expiring LRU refines a recency list: after any sequence of operations on a cache with a
  nonzero bound, an accepted insertion drops expired entries and the old entry of the key, appends the
  new one and keeps the most recently used entries up to the bound, and a read returns the live value of
  the key, if any, and moves it to the end; the queue and the table never diverge and never exceed the
  bound.\<close>

theorem lru_refines_recency_list:
  assumes "0 < limit" and "c = foldl lru_exec (lru_new limit) ops"
    and "ttl \<noteq> 0" and "now + ttl \<le> INSTANT_MAX"
  shows "lru_abs (fst (lru_insert c key v ttl now now')) =
      spec_insert limit now' key \<lparr>te_value = v, te_expires_at = now + ttl\<rparr> (lru_abs c) \<and>
    (lru_abs (fst (lru_get c key now)), snd (lru_get c key now)) = spec_get now key (lru_abs c) \<and>
    length (el_entries c) \<le> limit \<and> set (el_order c) = fst ` set (el_entries c)"
proof -
  have inv: "lru_inv limit c"
    using lru_machine.run_inv [OF lru_new_inv [OF assms(1)]] assms(2) by simp
  then show ?thesis
    using lru_insert_spec(2) [OF inv assms(3,4)] lru_get_spec(2) [OF inv] by (simp add: lru_inv_def)
qed

theorem lru_refines_recency_list_witness:
  "lru_abs (fst (lru_insert (foldl lru_exec (lru_new 2)
      [LruInsert ''a'' (1 :: nat) 100 0 0, LruInsert ''b'' 2 100 1 1, LruGet ''a'' 2]) ''c'' 3 100 3 3)) =
     [(''a'', \<lparr>te_value = 1, te_expires_at = 100\<rparr>), (''c'', \<lparr>te_value = 3, te_expires_at = 103\<rparr>)]"
proof -
  let ?c = "foldl lru_exec (lru_new 2)
      [LruInsert ''a'' (1 :: nat) 100 0 0, LruInsert ''b'' 2 100 1 1, LruGet ''a'' 2]"
  have "lru_abs ?c = [(''b'', \<lparr>te_value = 2, te_expires_at = 101\<rparr>), (''a'', \<lparr>te_value = 1, te_expires_at = 100\<rparr>)]"
    by (simp add: lru_exec_def lru_insert_def lru_get_def lru_new_def prune_expired_def promote_def
        evict_over_limit_def instant_checked_add_def INSTANT_MAX_def lru_abs_def Let_def)
  then show ?thesis
    using lru_refines_recency_list [of 2 ?c _ 100 3 "''c''" 3 3, OF _ refl]
    by (simp add: spec_insert_def spec_live_def INSTANT_MAX_def)
qed

text \<open>A freshly inserted entry survives its own insertion: it is never the one evicted, and a read
  before its expiry returns it.\<close>

lemma lru_insert_get:
  assumes "lru_inv limit c" and "ttl \<noteq> 0" and "now + ttl \<le> INSTANT_MAX" and "later < now + ttl"
  shows "snd (lru_get (fst (lru_insert c key v ttl now now')) key later) = Some v"
proof -
  let ?c = "fst (lru_insert c key v ttl now now')"
  let ?L = "filter (\<lambda>(k, _). k \<noteq> key) (spec_live now' (lru_abs c))"
  let ?e = "\<lparr>te_value = v, te_expires_at = now + ttl\<rparr>"
  note ins = lru_insert_spec [OF assms(1), where ttl = ttl and now = now and key = key and v = v]
  have "0 < limit" using assms(1) by (simp add: lru_inv_def)
  then have "lru_abs ?c = drop (Suc (length ?L) - limit) ?L @ [(key, ?e)]"
    using ins(2) assms(2,3) by (simp add: spec_insert_def Let_def)
  then have live: "spec_live later (lru_abs ?c) = spec_live later (drop (Suc (length ?L) - limit) ?L) @ [(key, ?e)]"
    using assms(4) by (simp add: spec_live_def)
  have "key \<notin> fst ` set (spec_live later (drop (Suc (length ?L) - limit) ?L))"
    by (auto simp: spec_live_def dest!: in_set_dropD)
  then have "map_of (spec_live later (lru_abs ?c)) key = Some ?e"
    unfolding live by (simp add: map_add_def map_of_eq_None_iff [symmetric])
  with lru_get_spec(2) [OF ins(1), where key = key and now = later] show ?thesis
    by (simp add: spec_get_def Let_def prod_eq_iff)
qed

theorem lru_insert_get_witness:
  "snd (lru_get (fst (lru_insert (lru_new 1) ''k'' (5 :: nat) 10 100 101)) ''k'' 109) = Some 5"
  by (rule lru_insert_get [OF lru_new_inv]) (simp_all add: INSTANT_MAX_def)

end
