(* ===== verification/Hash.thy ===== *)
theory Hash
  imports Prelude
begin

text \<open>
  Hashes and Handshake names (src/crates/hns-browser-primitives/src/hash.rs).  A \<open>Hash\<close> is its 32 bytes.
  The digest algorithms belong to external crates: they are functions from the concatenated input to the
  digest, passed as arguments; \<open>update\<close> over several parts hashes their concatenation.
\<close>

type_synonym hash = bytes
type_synonym digest = "bytes \<Rightarrow> bytes"

datatype hash_error = InvalidLength | InvalidHex

datatype name_hash_error =
  NameEmpty | NameTooLong | NameUppercase | NameInvalidCharacter | NameInvalidBoundary | NameBlacklisted

definition MAX_HANDSHAKE_NAME_LEN :: usize where
  "MAX_HANDSHAKE_NAME_LEN = 63"

definition hash_zero :: hash where
  "hash_zero = replicate 32 0"

definition hash_from_slice :: "bytes \<Rightarrow> (hash_error, hash) result" where
  "hash_from_slice bs = (if length bs \<noteq> 32 then Inl InvalidLength else Inr bs)"

definition blake2b_256 :: "digest \<Rightarrow> bytes list \<Rightarrow> hash" where
  "blake2b_256 blake2b parts = blake2b (concat parts)"

definition sha3_256 :: "digest \<Rightarrow> bytes list \<Rightarrow> hash" where
  "sha3_256 sha3 parts = sha3 (concat parts)"

definition ascii :: "string \<Rightarrow> bytes" where
  "ascii s = map (\<lambda>c. of_nat (of_char c)) s"

definition name_blacklist :: "bytes list" where
  "name_blacklist = map ascii [''example'', ''invalid'', ''local'', ''localhost'', ''test'']"

fun validate_name_bytes :: "nat \<Rightarrow> nat \<Rightarrow> bytes \<Rightarrow> (name_hash_error, unit) result" where
  "validate_name_bytes index len [] = Inr ()"
| "validate_name_bytes index len (b # bs) =
     (if (0x30 \<le> b \<and> b \<le> 0x39) \<or> (0x61 \<le> b \<and> b \<le> 0x7a) then validate_name_bytes (index + 1) len bs
      else if 0x41 \<le> b \<and> b \<le> 0x5a then Inl NameUppercase
      else if b = 0x2d \<or> b = 0x5f
      then (if index = 0 \<or> index + 1 = len then Inl NameInvalidBoundary
            else validate_name_bytes (index + 1) len bs)
      else Inl NameInvalidCharacter)"

definition validate_handshake_name :: "bytes \<Rightarrow> (name_hash_error, unit) result" where
  "validate_handshake_name name =
     (if name = [] then Inl NameEmpty
      else if MAX_HANDSHAKE_NAME_LEN < length name then Inl NameTooLong
      else if name \<in> set name_blacklist then Inl NameBlacklisted
      else validate_name_bytes 0 (length name) name)"

definition name_hash_from_name :: "digest \<Rightarrow> bytes \<Rightarrow> (name_hash_error, hash) result" where
  "name_hash_from_name sha3 name =
     rbind (validate_handshake_name name) (\<lambda>_. Inr (sha3_256 sha3 [name]))"

section \<open>Which names are accepted\<close>

definition name_char :: "u8 \<Rightarrow> bool" where
  "name_char b \<longleftrightarrow> (0x30 \<le> b \<and> b \<le> 0x39) \<or> (0x61 \<le> b \<and> b \<le> 0x7a)"

lemma name_char_not_hyphen: "name_char b \<Longrightarrow> b \<noteq> 0x2d \<and> b \<noteq> 0x5f"
  by (auto simp: name_char_def)

lemma hyphen_not_upper: "b = 0x2d \<or> b = 0x5f \<Longrightarrow> \<not> (0x41 \<le> b \<and> b \<le> (0x5a :: u8))"
  by auto

lemma validate_name_bytes_iff:
  "i + length bs = len \<Longrightarrow> validate_name_bytes i len bs = Inr () \<longleftrightarrow>
     (\<forall>j < length bs. name_char (bs ! j) \<or>
        (bs ! j = 0x2d \<or> bs ! j = 0x5f) \<and> 0 < i + j \<and> i + j + 1 < len)"
proof (induction bs arbitrary: i)
  case (Cons b bs)
  have IH: "validate_name_bytes (i + 1) len bs = Inr () \<longleftrightarrow>
     (\<forall>j < length bs. name_char (bs ! j) \<or>
        (bs ! j = 0x2d \<or> bs ! j = 0x5f) \<and> 0 < (i + 1) + j \<and> (i + 1) + j + 1 < len)"
    using Cons.IH [of "i + 1"] Cons.prems by simp
  have head: "validate_name_bytes i len (b # bs) = Inr () \<longleftrightarrow>
      (name_char b \<or> (b = 0x2d \<or> b = 0x5f) \<and> 0 < i \<and> i + 1 < len) \<and>
      validate_name_bytes (i + 1) len bs = Inr ()"
    using name_char_not_hyphen [of b] hyphen_not_upper [of b] Cons.prems
    by (auto simp: name_char_def [symmetric])
  show ?case
    unfolding head IH
    by (auto simp: nth_Cons less_Suc_eq_0_disj split: nat.splits)
qed simp

text \<open>The accepted Handshake names: between 1 and 63 bytes, not one of the five reserved names,
  every byte a digit or lower-case letter, or a hyphen or underscore that is neither the first nor the
  last byte.\<close>

lemma handshake_name_iff:
  "validate_handshake_name name = Inr () \<longleftrightarrow>
     name \<noteq> [] \<and> length name \<le> 63 \<and>
     name \<notin> {ascii ''example'', ascii ''invalid'', ascii ''local'', ascii ''localhost'', ascii ''test''} \<and>
     (\<forall>j < length name.
        (0x30 \<le> name ! j \<and> name ! j \<le> 0x39) \<or> (0x61 \<le> name ! j \<and> name ! j \<le> 0x7a) \<or>
        (name ! j = 0x2d \<or> name ! j = 0x5f) \<and> 0 < j \<and> j + 1 < length name)"
  using validate_name_bytes_iff [of 0 name "length name"]
  by (simp add: validate_handshake_name_def MAX_HANDSHAKE_NAME_LEN_def name_blacklist_def name_char_def
      disj_assoc not_less)

lemma handshake_name_iff_witness: "validate_handshake_name [0x61, 0x2d, 0x62] = Inr ()"
  unfolding handshake_name_iff by (auto simp: ascii_def less_Suc_eq)

end
