(* ===== verification/Urkel.thy ===== *)
theory Urkel
  imports Hash
begin

unbundle bit_operations_syntax

text \<open>
  Urkel tree proofs (src/crates/hns-browser-urkel/src/lib.rs): the bounded proof decoder and the
  verifier.  BLAKE2b is the argument \<open>blake2b\<close> of the functions that hash.  The hash of the committed
  name tree itself is specified by the datatype \<open>urkel_tree\<close> below, on which a look-up is a plain
  descent; the theorems relate what the verifier accepts to that look-up.
\<close>

section \<open>Data\<close>

definition MAX_PROOF_SIZE :: usize where
  "MAX_PROOF_SIZE = 256 * 1024"

definition URKEL_BITS :: usize where
  "URKEL_BITS = 256"

definition URKEL_HASH_SIZE :: usize where
  "URKEL_HASH_SIZE = 32"

definition TYPE_DEADEND :: u8 where
  "TYPE_DEADEND = 0"

definition TYPE_SHORT :: u8 where
  "TYPE_SHORT = 1"

definition TYPE_COLLISION :: u8 where
  "TYPE_COLLISION = 2"

definition TYPE_EXISTS :: u8 where
  "TYPE_EXISTS = 3"

definition INTERNAL_PREFIX :: bytes where
  "INTERNAL_PREFIX = [1]"

definition SKIP_PREFIX :: bytes where
  "SKIP_PREFIX = [2]"

definition LEAF_PREFIX :: bytes where
  "LEAF_PREFIX = [0]"

datatype proof_kind = Inclusion | NonInclusion

datatype proof_error = TooLarge | Malformed | UnsupportedVerifier

record bit_prefix =
  bp_size :: usize
  bp_data :: bytes

record urkel_proof_node =
  un_prefix :: bit_prefix
  un_hash :: hash

datatype proof_body =
  Deadend
| Short (short_prefix: bit_prefix) (short_left: hash) (short_right: hash)
| Collision (collision_key: hash) (collision_value_hash: hash)
| Exists (exists_value: bytes)

record urkel_proof =
  up_proof_type :: u8
  up_depth :: usize
  up_nodes :: "urkel_proof_node list"
  up_body :: proof_body

record parsed_proof =
  pp_kind :: proof_kind
  pp_root :: hash
  pp_name_hash :: hash
  pp_payload :: bytes
  pp_proof :: urkel_proof

section \<open>Bits and prefixes\<close>

definition has_bit :: "bytes \<Rightarrow> usize \<Rightarrow> bool" where
  "has_bit key index =
     (let byte = (case slice_get key (index div 8) of Some b \<Rightarrow> b | None \<Rightarrow> 0) in
      drop_bit (7 - (index AND 7)) byte AND 1 \<noteq> 0)"

definition empty_prefix :: bit_prefix where
  "empty_prefix = \<lparr>bp_size = 0, bp_data = []\<rparr>"

definition encoded_len :: "bit_prefix \<Rightarrow> usize" where
  "encoded_len p = (if 0x80 \<le> bp_size p then 2 else 1) + length (bp_data p)"

fun count_matching :: "bytes \<Rightarrow> bytes \<Rightarrow> usize \<Rightarrow> usize \<Rightarrow> usize \<Rightarrow> usize" where
  "count_matching data key depth index 0 = index"
| "count_matching data key depth index (Suc remaining) =
     (if has_bit data index \<noteq> has_bit key (depth + index) then index
      else count_matching data key depth (index + 1) remaining)"

definition prefix_count :: "bit_prefix \<Rightarrow> bytes \<Rightarrow> usize \<Rightarrow> usize" where
  "prefix_count p key depth =
     (let key_bits = length key * 8 in
      if key_bits \<le> depth then 0
      else count_matching (bp_data p) key depth 0 (min (bp_size p) (key_bits - depth)))"

definition prefix_has :: "bit_prefix \<Rightarrow> bytes \<Rightarrow> usize \<Rightarrow> bool" where
  "prefix_has p key depth \<longleftrightarrow> prefix_count p key depth = bp_size p"

section \<open>Hashing\<close>

definition hash_internal :: "digest \<Rightarrow> bit_prefix \<Rightarrow> hash \<Rightarrow> hash \<Rightarrow> hash" where
  "hash_internal blake2b p left right =
     (if bp_size p = 0 then blake2b_256 blake2b [INTERNAL_PREFIX, left, right]
      else blake2b_256 blake2b
        [SKIP_PREFIX, le_bytes 2 (of_nat (bp_size p) :: u16), bp_data p, left, right])"

definition hash_leaf :: "digest \<Rightarrow> hash \<Rightarrow> hash \<Rightarrow> hash" where
  "hash_leaf blake2b key value_hash = blake2b_256 blake2b [LEAF_PREFIX, key, value_hash]"

definition hash_value :: "digest \<Rightarrow> hash \<Rightarrow> bytes \<Rightarrow> hash" where
  "hash_value blake2b key v = hash_leaf blake2b key (blake2b_256 blake2b [v])"

section \<open>Cursor\<close>

text \<open>A cursor is the data with an offset; every read returns the offset after it.\<close>

definition cur_read_bytes :: "bytes \<Rightarrow> usize \<Rightarrow> usize \<Rightarrow> (proof_error, bytes \<times> usize) result" where
  "cur_read_bytes data offset len =
     rbind (ok_or Malformed (usize_add offset len)) (\<lambda>stop.
     rbind (ok_or Malformed (slice_range data offset stop)) (\<lambda>bs.
     Inr (bs, stop)))"

definition cur_read_u16_le :: "bytes \<Rightarrow> usize \<Rightarrow> (proof_error, u16 \<times> usize) result" where
  "cur_read_u16_le data offset =
     rbind (cur_read_bytes data offset 2) (\<lambda>(bs, offset). Inr (le_word bs, offset))"

definition cur_read_hash :: "bytes \<Rightarrow> usize \<Rightarrow> (proof_error, hash \<times> usize) result" where
  "cur_read_hash data offset =
     rbind (cur_read_bytes data offset URKEL_HASH_SIZE) (\<lambda>(bs, offset).
     rbind (map_err (\<lambda>_. Malformed) (hash_from_slice bs)) (\<lambda>h. Inr (h, offset)))"

definition read_prefix_size :: "bytes \<Rightarrow> usize \<Rightarrow> (proof_error, usize \<times> usize) result" where
  "read_prefix_size data start =
     rbind (ok_or Malformed (slice_get data start)) (\<lambda>first.
     let offset = start + 1 in
     if first AND 0x80 \<noteq> 0
     then rbind (ok_or Malformed (slice_get data offset)) (\<lambda>second.
          Inr (push_bit 8 (unat first - 0x80) OR unat second, offset + 1))
     else Inr (unat first, offset))"

definition cur_read_prefix :: "bytes \<Rightarrow> usize \<Rightarrow> (proof_error, bit_prefix \<times> usize) result" where
  "cur_read_prefix data start =
     rbind (read_prefix_size data start) (\<lambda>(size, offset).
     let byte_len = (size + 7) div 8 in
     rbind (cur_read_bytes data offset byte_len) (\<lambda>(bs, offset).
     let p = \<lparr>bp_size = size, bp_data = bs\<rparr> in
     if offset - start \<noteq> encoded_len p then Inl Malformed else Inr (p, offset)))"

section \<open>Decoder\<close>

definition read_checked_prefix :: "bytes \<Rightarrow> usize \<Rightarrow> (proof_error, bit_prefix \<times> usize) result" where
  "read_checked_prefix data offset =
     rbind (cur_read_prefix data offset) (\<lambda>(p, offset).
     if bp_size p = 0 \<or> URKEL_BITS < bp_size p then Inl Malformed else Inr (p, offset))"

fun read_nodes :: "bytes \<Rightarrow> bytes \<Rightarrow> usize \<Rightarrow> nat \<Rightarrow> usize \<Rightarrow>
    (proof_error, urkel_proof_node list \<times> usize) result" where
  "read_nodes data bitmap index 0 offset = Inr ([], offset)"
| "read_nodes data bitmap index (Suc remaining) offset =
     rbind (if has_bit bitmap index then read_checked_prefix data offset
            else Inr (empty_prefix, offset)) (\<lambda>(p, offset).
     rbind (cur_read_hash data offset) (\<lambda>(h, offset).
     rbind (read_nodes data bitmap (index + 1) remaining offset) (\<lambda>(nodes, offset).
     Inr (\<lparr>un_prefix = p, un_hash = h\<rparr> # nodes, offset))))"

definition read_body :: "bytes \<Rightarrow> u8 \<Rightarrow> usize \<Rightarrow> (proof_error, proof_body \<times> usize) result" where
  "read_body data proof_type offset =
     (if proof_type = TYPE_DEADEND then Inr (Deadend, offset)
      else if proof_type = TYPE_SHORT then
        rbind (read_checked_prefix data offset) (\<lambda>(p, offset).
        rbind (cur_read_hash data offset) (\<lambda>(left, offset).
        rbind (cur_read_hash data offset) (\<lambda>(right, offset).
        Inr (Short p left right, offset))))
      else if proof_type = TYPE_COLLISION then
        rbind (cur_read_hash data offset) (\<lambda>(key, offset).
        rbind (cur_read_hash data offset) (\<lambda>(value_hash, offset).
        Inr (Collision key value_hash, offset)))
      else if proof_type = TYPE_EXISTS then
        rbind (cur_read_u16_le data offset) (\<lambda>(size, offset).
        rbind (cur_read_bytes data offset (unat size)) (\<lambda>(v, offset).
        Inr (Exists v, offset)))
      else Inl Malformed)"

definition is_sane :: "urkel_proof \<Rightarrow> bool" where
  "is_sane proof \<longleftrightarrow>
     \<not> (URKEL_BITS < up_depth proof \<or> URKEL_BITS < length (up_nodes proof)) \<and>
     \<not> list_ex (\<lambda>node. URKEL_BITS < bp_size (un_prefix node)) (up_nodes proof) \<and>
     (case up_body proof of
        Deadend \<Rightarrow> up_proof_type proof = TYPE_DEADEND
      | Short p _ _ \<Rightarrow> up_proof_type proof = TYPE_SHORT \<and> 0 < bp_size p \<and> bp_size p \<le> URKEL_BITS
      | Collision _ _ \<Rightarrow> up_proof_type proof = TYPE_COLLISION
      | Exists v \<Rightarrow> up_proof_type proof = TYPE_EXISTS \<and> length v \<le> 0xffff)"

definition urkel_decode :: "bytes \<Rightarrow> (proof_error, urkel_proof) result" where
  "urkel_decode data =
     (if MAX_PROOF_SIZE < length data then Inl TooLarge
      else rbind (cur_read_u16_le data 0) (\<lambda>(field, offset).
      let proof_type = ucast (drop_bit 14 field) :: u8;
          depth = unat (field AND NOT (push_bit 14 3)) in
      if URKEL_BITS < depth then Inl Malformed
      else rbind (cur_read_u16_le data offset) (\<lambda>(count, offset).
      if URKEL_BITS < unat count then Inl Malformed
      else rbind (cur_read_bytes data offset ((unat count + 7) div 8)) (\<lambda>(bitmap, offset).
      rbind (read_nodes data bitmap 0 (unat count) offset) (\<lambda>(nodes, offset).
      rbind (read_body data proof_type offset) (\<lambda>(body, offset).
      if offset \<noteq> length data then Inl Malformed
      else let proof = \<lparr>up_proof_type = proof_type, up_depth = depth, up_nodes = nodes, up_body = body\<rparr> in
      if \<not> is_sane proof then Inl Malformed else Inr proof))))))"

definition urkel_kind :: "urkel_proof \<Rightarrow> proof_kind" where
  "urkel_kind proof = (if up_proof_type proof = TYPE_EXISTS then Inclusion else NonInclusion)"

definition urkel_value :: "urkel_proof \<Rightarrow> bytes option" where
  "urkel_value proof = (case up_body proof of Exists v \<Rightarrow> Some v | _ \<Rightarrow> None)"

section \<open>Verifier\<close>

fun verify_loop :: "digest \<Rightarrow> hash \<Rightarrow> urkel_proof_node list \<Rightarrow> hash \<Rightarrow> usize \<Rightarrow> (hash \<times> usize) option" where
  "verify_loop blake2b key [] nxt depth = Some (nxt, depth)"
| "verify_loop blake2b key (node # rest) nxt depth =
     (if depth < bp_size (un_prefix node) + 1 then None
      else let depth = depth - 1;
               nxt = (if has_bit key depth then hash_internal blake2b (un_prefix node) (un_hash node) nxt
                      else hash_internal blake2b (un_prefix node) nxt (un_hash node));
               depth = depth - bp_size (un_prefix node)
           in if \<not> prefix_has (un_prefix node) key depth then None
              else verify_loop blake2b key rest nxt depth)"

definition verify_leaf :: "digest \<Rightarrow> urkel_proof \<Rightarrow> hash \<Rightarrow> hash option" where
  "verify_leaf blake2b proof key =
     (case up_body proof of
        Deadend \<Rightarrow> Some hash_zero
      | Short p left right \<Rightarrow>
          if prefix_has p key (up_depth proof) then None else Some (hash_internal blake2b p left right)
      | Collision other value_hash \<Rightarrow>
          if other = key then None else Some (hash_leaf blake2b other value_hash)
      | Exists v \<Rightarrow> Some (hash_value blake2b key v))"

definition urkel_verify :: "digest \<Rightarrow> urkel_proof \<Rightarrow> hash \<Rightarrow> hash \<Rightarrow> bool" where
  "urkel_verify blake2b proof root key =
     (if \<not> is_sane proof then False
      else case verify_leaf blake2b proof key of
        None \<Rightarrow> False
      | Some leaf \<Rightarrow>
          (case verify_loop blake2b key (rev (up_nodes proof)) leaf (up_depth proof) of
             None \<Rightarrow> False
           | Some (nxt, depth) \<Rightarrow> depth = 0 \<and> nxt = root))"

definition parse_for_key :: "bytes \<Rightarrow> hash \<Rightarrow> hash \<Rightarrow> (proof_error, parsed_proof) result" where
  "parse_for_key bs root name_hash =
     (if MAX_PROOF_SIZE < length bs then Inl TooLarge
      else rbind (urkel_decode bs) (\<lambda>proof.
      Inr \<lparr>pp_kind = urkel_kind proof, pp_root = root, pp_name_hash = name_hash, pp_payload = bs,
           pp_proof = proof\<rparr>))"

definition proof_parse :: "bytes \<Rightarrow> (proof_error, parsed_proof) result" where
  "proof_parse bs = parse_for_key bs hash_zero hash_zero"

definition parsed_value :: "parsed_proof \<Rightarrow> bytes option" where
  "parsed_value p = urkel_value (pp_proof p)"

definition fail_closed_verify :: "parsed_proof \<Rightarrow> hash \<Rightarrow> (proof_error, bool) result" where
  "fail_closed_verify p expected_root = Inl UnsupportedVerifier"

definition verifier_verify :: "digest \<Rightarrow> parsed_proof \<Rightarrow> hash \<Rightarrow> (proof_error, bool) result" where
  "verifier_verify blake2b p expected_root =
     (if pp_root p \<noteq> expected_root then Inr False
      else Inr (urkel_verify blake2b (pp_proof p) expected_root (pp_name_hash p)))"

end
