(* ===== verification/Urkel_Soundness.thy ===== *)
theory Urkel_Soundness
  imports Urkel
begin

unbundle bit_operations_syntax

text \<open>
  What an accepted Urkel proof means.  The committed tree is a datatype whose subtrees and leaf values
  may be revealed or known by hash only; its look-up is a descent along the bits of the key.  Under a
  digest with 32-byte outputs that has no collisions and no zero output on the inputs hashed, an accepted
  proof reports exactly the look-up of the tree; every revealed tree has an accepted proof; and two
  accepted proofs against one root agree.
\<close>

section \<open>The committed tree\<close>

datatype urkel_tree =
  UNull
| UHash hash
| ULeaf hash "hash + bytes"
| UNode bit_prefix urkel_tree urkel_tree

definition leaf_value_hash :: "digest \<Rightarrow> hash + bytes \<Rightarrow> hash" where
  "leaf_value_hash H v = (case v of Inl h \<Rightarrow> h | Inr bs \<Rightarrow> H bs)"

fun tree_hash :: "digest \<Rightarrow> urkel_tree \<Rightarrow> hash" where
  "tree_hash H UNull = hash_zero"
| "tree_hash H (UHash h) = h"
| "tree_hash H (ULeaf k v) = hash_leaf H k (leaf_value_hash H v)"
| "tree_hash H (UNode p l r) = hash_internal H p (tree_hash H l) (tree_hash H r)"

fun tree_lookup :: "urkel_tree \<Rightarrow> hash \<Rightarrow> nat \<Rightarrow> bytes option" where
  "tree_lookup UNull key d = None"
| "tree_lookup (UHash h) key d = None"
| "tree_lookup (ULeaf k v) key d = (if k = key then (case v of Inl _ \<Rightarrow> None | Inr bs \<Rightarrow> Some bs) else None)"
| "tree_lookup (UNode p l r) key d =
     (if prefix_has p key d
      then tree_lookup (if has_bit key (d + bp_size p) then r else l) key (d + bp_size p + 1)
      else None)"

text \<open>The path of a key is revealed when the descent meets no subtree or value known by hash only.\<close>

fun revealed :: "urkel_tree \<Rightarrow> hash \<Rightarrow> nat \<Rightarrow> bool" where
  "revealed UNull key d = True"
| "revealed (UHash h) key d = False"
| "revealed (ULeaf k v) key d = (k = key \<longrightarrow> \<not> isl v)"
| "revealed (UNode p l r) key d =
     (prefix_has p key d \<longrightarrow> revealed (if has_bit key (d + bp_size p) then r else l) key (d + bp_size p + 1))"

definition wf_prefix :: "bit_prefix \<Rightarrow> bool" where
  "wf_prefix p \<longleftrightarrow> bp_size p \<le> URKEL_BITS \<and> length (bp_data p) = (bp_size p + 7) div 8"

fun wf_tree :: "urkel_tree \<Rightarrow> bool" where
  "wf_tree UNull = True"
| "wf_tree (UHash h) = (length h = 32)"
| "wf_tree (ULeaf k v) = (length k = 32 \<and> (case v of Inl h \<Rightarrow> length h = 32 | Inr _ \<Rightarrow> True))"
| "wf_tree (UNode p l r) = (wf_prefix p \<and> wf_tree l \<and> wf_tree r)"

definition wf_body :: "proof_body \<Rightarrow> bool" where
  "wf_body b = (case b of
     Deadend \<Rightarrow> True
   | Short p l r \<Rightarrow> wf_prefix p \<and> length l = 32 \<and> length r = 32
   | Collision k h \<Rightarrow> length k = 32 \<and> length h = 32
   | Exists v \<Rightarrow> True)"

definition wf_proof :: "urkel_proof \<Rightarrow> bool" where
  "wf_proof p \<longleftrightarrow> is_sane p \<and> wf_body (up_body p) \<and>
     list_all (\<lambda>n. wf_prefix (un_prefix n) \<and> length (un_hash n) = 32) (up_nodes p)"

section \<open>Hash inputs\<close>

definition node_input :: "bit_prefix \<Rightarrow> hash \<Rightarrow> hash \<Rightarrow> bytes" where
  "node_input p l r =
     (if bp_size p = 0 then 1 # l @ r
      else 2 # le_bytes 2 (of_nat (bp_size p) :: u16) @ bp_data p @ l @ r)"

definition leaf_input :: "hash \<Rightarrow> hash \<Rightarrow> bytes" where
  "leaf_input k h = 0 # k @ h"

lemma hash_internal_input: "hash_internal H p l r = H (node_input p l r)"
  by (simp add: hash_internal_def node_input_def blake2b_256_def INTERNAL_PREFIX_def SKIP_PREFIX_def)

lemma hash_leaf_input: "hash_leaf H k h = H (leaf_input k h)"
  by (simp add: hash_leaf_def leaf_input_def blake2b_256_def LEAF_PREFIX_def)

lemma hash_value_input: "hash_value H k v = H (leaf_input k (H v))"
  by (simp add: hash_value_def hash_leaf_input) (simp add: blake2b_256_def)

lemma le_size_inj:
  assumes "le_bytes 2 (of_nat a :: u16) = le_bytes 2 (of_nat b :: u16)" and "a \<le> 256" and "b \<le> 256"
  shows "a = b"
proof -
  have "(of_nat a :: u16) = of_nat b" using assms(1) le_word_widths(1) by metis
  moreover have "unat (of_nat n :: u16) = n" if "n \<le> 256" for n
    using that by (simp add: unsigned_of_nat take_bit_nat_eq_self)
  ultimately show ?thesis using assms by metis
qed

lemma node_input_inj:
  assumes "node_input p l r = node_input p' l' r'" and "wf_prefix p" and "wf_prefix p'"
    and "length l = 32" and "length l' = 32"
  shows "p = p' \<and> l = l' \<and> r = r'"
proof (cases "bp_size p = 0")
  case True
  then have z: "bp_size p' = 0" using assms(1) by (auto simp: node_input_def split: if_splits)
  then have "bp_data p = []" "bp_data p' = []" using True assms(2,3) by (simp_all add: wf_prefix_def)
  with True z have "p = p'" by (cases p, cases p') simp
  with assms True z show ?thesis by (simp add: node_input_def)
next
  case False
  then have z: "bp_size p' \<noteq> 0" using assms(1) by (auto simp: node_input_def split: if_splits)
  with False assms(1) have "le_bytes 2 (of_nat (bp_size p) :: u16) = le_bytes 2 (of_nat (bp_size p') :: u16)"
      and rest: "bp_data p @ l @ r = bp_data p' @ l' @ r'"
    by (simp_all add: node_input_def)
  with assms(2,3) have s: "bp_size p = bp_size p'" by (intro le_size_inj) (simp_all add: wf_prefix_def URKEL_BITS_def)
  with rest assms have "bp_data p = bp_data p' \<and> l = l' \<and> r = r'" by (simp add: wf_prefix_def)
  with s show ?thesis by (cases p, cases p') simp
qed

lemma leaf_input_inj: "leaf_input k h = leaf_input k' h' \<Longrightarrow> length k = 32 \<Longrightarrow> length k' = 32 \<Longrightarrow> k = k' \<and> h = h'"
  by (simp add: leaf_input_def)

lemma leaf_not_node: "leaf_input k h \<noteq> node_input p l r" "node_input p l r \<noteq> leaf_input k h"
  by (simp_all add: leaf_input_def node_input_def)

section \<open>The verifier's loop, from the root down\<close>

fun climb :: "digest \<Rightarrow> hash \<Rightarrow> urkel_proof_node list \<Rightarrow> nat \<Rightarrow> hash \<Rightarrow> hash" where
  "climb H key [] d leaf = leaf"
| "climb H key (n # ns) d leaf =
     (let below = climb H key ns (d + bp_size (un_prefix n) + 1) leaf in
      if has_bit key (d + bp_size (un_prefix n)) then hash_internal H (un_prefix n) (un_hash n) below
      else hash_internal H (un_prefix n) below (un_hash n))"

fun path_ok :: "hash \<Rightarrow> urkel_proof_node list \<Rightarrow> nat \<Rightarrow> nat \<Rightarrow> bool" where
  "path_ok key [] d D \<longleftrightarrow> d = D"
| "path_ok key (n # ns) d D \<longleftrightarrow>
     prefix_has (un_prefix n) key d \<and> path_ok key ns (d + bp_size (un_prefix n) + 1) D"

lemma verify_loop_append:
  "verify_loop H key (xs @ ys) nxt d =
     (case verify_loop H key xs nxt d of None \<Rightarrow> None | Some (nxt', d') \<Rightarrow> verify_loop H key ys nxt' d')"
  by (induction xs arbitrary: nxt d) (simp_all add: Let_def)

lemma verify_loop_iff:
  "verify_loop H key (rev ns) leaf D = Some (r, d) \<longleftrightarrow> path_ok key ns d D \<and> r = climb H key ns d leaf"
proof (induction ns arbitrary: r d)
  case (Cons n ns)
  let ?s = "bp_size (un_prefix n)"
  have "verify_loop H key (rev (n # ns)) leaf D = Some (r, d) \<longleftrightarrow>
      (\<exists>x d'. verify_loop H key (rev ns) leaf D = Some (x, d') \<and> verify_loop H key [n] x d' = Some (r, d))"
    by (auto simp: verify_loop_append split: option.splits)
  also have "\<dots> \<longleftrightarrow> (\<exists>d'. path_ok key ns d' D \<and> verify_loop H key [n] (climb H key ns d' leaf) d' = Some (r, d))"
    by (auto simp: Cons.IH)
  also have "\<dots> \<longleftrightarrow> path_ok key (n # ns) d D \<and> r = climb H key (n # ns) d leaf"
  proof
    assume "\<exists>d'. path_ok key ns d' D \<and> verify_loop H key [n] (climb H key ns d' leaf) d' = Some (r, d)"
    then obtain d' where "path_ok key ns d' D" "verify_loop H key [n] (climb H key ns d' leaf) d' = Some (r, d)"
      by blast
    then show "path_ok key (n # ns) d D \<and> r = climb H key (n # ns) d leaf"
      by (auto simp: Let_def split: if_splits)
  qed (auto simp: Let_def intro!: exI [of _ "d + ?s + 1"])
  finally show ?case .
qed auto

lemma urkel_verify_iff:
  "urkel_verify H p root key \<longleftrightarrow> is_sane p \<and> (\<exists>leaf. verify_leaf H p key = Some leaf \<and>
     path_ok key (up_nodes p) 0 (up_depth p) \<and> root = climb H key (up_nodes p) 0 leaf)"
proof -
  have "(case r of None \<Rightarrow> False | Some (nxt, depth) \<Rightarrow> depth = 0 \<and> nxt = root) \<longleftrightarrow> r = Some (root, 0 :: nat)" for r
    by (auto split: option.splits)
  then show ?thesis by (auto simp: urkel_verify_def verify_loop_iff split: option.splits)
qed

section \<open>Soundness\<close>

fun tree_inputs :: "digest \<Rightarrow> urkel_tree \<Rightarrow> bytes set" where
  "tree_inputs H UNull = {}"
| "tree_inputs H (UHash h) = {}"
| "tree_inputs H (ULeaf k v) =
     insert (leaf_input k (leaf_value_hash H v)) (case v of Inl _ \<Rightarrow> {} | Inr bs \<Rightarrow> {bs})"
| "tree_inputs H (UNode p l r) =
     insert (node_input p (tree_hash H l) (tree_hash H r)) (tree_inputs H l \<union> tree_inputs H r)"

fun climb_inputs :: "digest \<Rightarrow> hash \<Rightarrow> urkel_proof_node list \<Rightarrow> nat \<Rightarrow> hash \<Rightarrow> bytes set" where
  "climb_inputs H key [] d leaf = {}"
| "climb_inputs H key (n # ns) d leaf =
     (let d' = d + bp_size (un_prefix n) + 1; below = climb H key ns d' leaf in
      insert (if has_bit key (d + bp_size (un_prefix n)) then node_input (un_prefix n) (un_hash n) below
              else node_input (un_prefix n) below (un_hash n))
        (climb_inputs H key ns d' leaf))"

definition leaf_inputs :: "digest \<Rightarrow> proof_body \<Rightarrow> hash \<Rightarrow> bytes set" where
  "leaf_inputs H b key = (case b of
     Deadend \<Rightarrow> {}
   | Short p l r \<Rightarrow> {node_input p l r}
   | Collision k h \<Rightarrow> {leaf_input k h}
   | Exists v \<Rightarrow> {leaf_input key (H v), v})"

text \<open>The inputs the verifier passes to the digest.\<close>

definition proof_inputs :: "digest \<Rightarrow> urkel_proof \<Rightarrow> hash \<Rightarrow> bytes set" where
  "proof_inputs H p key = leaf_inputs H (up_body p) key \<union>
     (case verify_leaf H p key of None \<Rightarrow> {} | Some leaf \<Rightarrow> climb_inputs H key (up_nodes p) 0 leaf)"

text \<open>What the theorems assume of BLAKE2b-256 on a set of inputs.\<close>

definition good_digest :: "digest \<Rightarrow> bytes set \<Rightarrow> bool" where
  "good_digest H A \<longleftrightarrow> (\<forall>x. length (H x) = 32) \<and> inj_on H A \<and> (\<forall>x \<in> A. H x \<noteq> hash_zero)"

lemma good_digestD:
  assumes "good_digest H A"
  shows "length (H x) = 32" and "x \<in> A \<Longrightarrow> y \<in> A \<Longrightarrow> H x = H y \<longleftrightarrow> x = y"
    and "x \<in> A \<Longrightarrow> H x \<noteq> hash_zero" and "x \<in> A \<Longrightarrow> hash_zero \<noteq> H x"
  using assms unfolding good_digest_def by (auto dest: inj_onD)

lemma length_tree_hash: "good_digest H A \<Longrightarrow> wf_tree t \<Longrightarrow> length (tree_hash H t) = 32"
  by (cases t) (simp_all add: hash_zero_def hash_leaf_input hash_internal_input good_digestD(1))

lemma leaf_sound:
  assumes good: "good_digest H A" and sub: "leaf_inputs H (up_body p) key \<subseteq> A" "tree_inputs H t \<subseteq> A"
    and wf: "wf_tree t" "wf_body (up_body p)" "length key = 32"
    and path: "revealed t key (up_depth p)"
    and leaf: "verify_leaf H p key = Some (tree_hash H t)"
  shows "tree_lookup t key (up_depth p) = urkel_value p"
proof (cases t)
  case UNull
  with leaf sub good_digestD(3,4) [OF good] show ?thesis
    by (auto simp: verify_leaf_def urkel_value_def leaf_inputs_def hash_value_input hash_leaf_input
        hash_internal_input split: proof_body.splits if_splits)
next
  case (UHash h)
  with path show ?thesis by simp
next
  case (ULeaf k v)
  with leaf sub wf path good_digestD [OF good] show ?thesis
    by (auto simp: verify_leaf_def urkel_value_def leaf_inputs_def hash_value_input hash_leaf_input
        hash_internal_input leaf_not_node leaf_value_hash_def wf_body_def
        dest!: leaf_input_inj split: proof_body.splits if_splits sum.splits)
next
  case (UNode q l r)
  note len = length_tree_hash [OF good]
  from UNode leaf sub wf len [of l] len [of r] good_digestD [OF good] show ?thesis
    by (auto simp: verify_leaf_def urkel_value_def leaf_inputs_def hash_value_input hash_leaf_input
        hash_internal_input leaf_not_node wf_body_def
        dest!: node_input_inj split: proof_body.splits if_splits)
qed

lemma climb_sound:
  assumes good: "good_digest H A" and wf: "wf_body (up_body p)" "length key = 32"
    and leaf: "verify_leaf H p key = Some leaf" "leaf_inputs H (up_body p) key \<subseteq> A"
    and nodes: "list_all (\<lambda>n. wf_prefix (un_prefix n) \<and> length (un_hash n) = 32) ns"
    and path: "path_ok key ns d (up_depth p)" and sub: "climb_inputs H key ns d leaf \<subseteq> A"
    and tree: "tree_inputs H t \<subseteq> A" "wf_tree t" "revealed t key d" "climb H key ns d leaf = tree_hash H t"
  shows "tree_lookup t key d = urkel_value p"
  using nodes path sub tree
proof (induction ns arbitrary: d t)
  case Nil
  with leaf_sound [OF good leaf(2) Nil.prems(4,5) wf] leaf(1) show ?case by simp
next
  case (Cons n ns)
  let ?q = "un_prefix n"
  let ?d' = "d + bp_size ?q + 1"
  let ?below = "climb H key ns ?d' leaf"
  let ?in = "if has_bit key (d + bp_size ?q) then node_input ?q (un_hash n) ?below
    else node_input ?q ?below (un_hash n)"
  have h: "H ?in = tree_hash H t" "?in \<in> A" "wf_prefix ?q" "length (un_hash n) = 32"
    using Cons.prems by (auto simp: hash_internal_input Let_def split: if_splits)
  have leaf_len: "length leaf = 32"
    using leaf(1) good_digestD(1) [OF good] by (auto simp: verify_leaf_def hash_zero_def hash_value_input
        hash_leaf_input hash_internal_input split: proof_body.splits if_splits)
  have below_len: "length ?below = 32"
    using leaf_len good_digestD(1) [OF good] by (cases ns) (simp_all add: hash_internal_input Let_def)
  show ?case
  proof (cases t)
    case (UNode q l r)
    note len = length_tree_hash [OF good, of l] length_tree_hash [OF good, of r]
    have "?in = node_input q (tree_hash H l) (tree_hash H r)"
      using h(1,2) Cons.prems(4) UNode good_digestD(2) [OF good] by (simp add: hash_internal_input)
    then have "?q = q \<and> ?below = tree_hash H (if has_bit key (d + bp_size ?q) then r else l)"
      using node_input_inj [of ?q "un_hash n" ?below q "tree_hash H l" "tree_hash H r"]
        node_input_inj [of ?q ?below "un_hash n" q "tree_hash H l" "tree_hash H r"]
        h(3,4) below_len len Cons.prems(5) UNode
      by (cases "has_bit key (d + bp_size ?q)") auto
    then have q: "q = ?q" and kid: "?below = tree_hash H (if has_bit key (d + bp_size ?q) then r else l)"
      by blast+
    have "tree_lookup (if has_bit key (d + bp_size ?q) then r else l) key ?d' = urkel_value p"
      using Cons.IH [of ?d' "if has_bit key (d + bp_size ?q) then r else l"] Cons.prems kid UNode q
      by (auto simp: Let_def split: if_splits)
    with UNode q Cons.prems(2) show ?thesis by simp
  next
    case (ULeaf k v)
    with h(1,2) Cons.prems(4) good_digestD(2) [OF good] show ?thesis
      by (auto simp: hash_leaf_input leaf_not_node split: if_splits)
  qed (use h Cons.prems good_digestD(3,4) [OF good] in \<open>auto split: if_splits\<close>)
qed

lemma verify_sound:
  assumes "good_digest H (proof_inputs H p key \<union> tree_inputs H t)"
    and "wf_proof p" and "wf_tree t" and "length key = 32" and "revealed t key 0"
    and "urkel_verify H p (tree_hash H t) key"
  shows "urkel_value p = tree_lookup t key 0"
proof -
  from assms(6) obtain leaf where v: "verify_leaf H p key = Some leaf"
      "path_ok key (up_nodes p) 0 (up_depth p)" "tree_hash H t = climb H key (up_nodes p) 0 leaf"
    by (auto simp: urkel_verify_iff)
  have "tree_lookup t key 0 = urkel_value p"
    by (rule climb_sound [OF assms(1) _ assms(4) v(1) _ _ v(2) _ _ assms(3,5) v(3) [symmetric]])
      (use assms(2) v(1) in \<open>auto simp: wf_proof_def proof_inputs_def\<close>)
  then show ?thesis by simp
qed

section \<open>The proof as a partly revealed tree\<close>

fun body_tree :: "hash \<Rightarrow> proof_body \<Rightarrow> urkel_tree" where
  "body_tree key Deadend = UNull"
| "body_tree key (Short p l r) = UNode p (UHash l) (UHash r)"
| "body_tree key (Collision k h) = ULeaf k (Inl h)"
| "body_tree key (Exists v) = ULeaf key (Inr v)"

fun path_tree :: "hash \<Rightarrow> urkel_proof_node list \<Rightarrow> nat \<Rightarrow> urkel_tree \<Rightarrow> urkel_tree" where
  "path_tree key [] d t = t"
| "path_tree key (n # ns) d t =
     (let below = path_tree key ns (d + bp_size (un_prefix n) + 1) t in
      if has_bit key (d + bp_size (un_prefix n)) then UNode (un_prefix n) (UHash (un_hash n)) below
      else UNode (un_prefix n) below (UHash (un_hash n)))"

definition proof_tree :: "urkel_proof \<Rightarrow> hash \<Rightarrow> urkel_tree" where
  "proof_tree p key = path_tree key (up_nodes p) 0 (body_tree key (up_body p))"

lemma path_tree_facts:
  assumes "path_ok key ns d D"
  shows "tree_hash H (path_tree key ns d t) = climb H key ns d (tree_hash H t)"
    and "tree_lookup (path_tree key ns d t) key d = tree_lookup t key D"
    and "revealed (path_tree key ns d t) key d = revealed t key D"
    and "tree_inputs H (path_tree key ns d t) = climb_inputs H key ns d (tree_hash H t) \<union> tree_inputs H t"
    and "list_all (\<lambda>n. wf_prefix (un_prefix n) \<and> length (un_hash n) = 32) ns \<Longrightarrow> wf_tree t \<Longrightarrow>
      wf_tree (path_tree key ns d t)"
proof -
  have h: "tree_hash H (path_tree key ns d t) = climb H key ns d (tree_hash H t)" for ns d
    by (induction ns arbitrary: d) (simp_all add: Let_def)
  show "tree_hash H (path_tree key ns d t) = climb H key ns d (tree_hash H t)" by (rule h)
  show "tree_inputs H (path_tree key ns d t) = climb_inputs H key ns d (tree_hash H t) \<union> tree_inputs H t"
    by (induction ns arbitrary: d) (auto simp: Let_def h)
qed (use assms in \<open>induction ns arbitrary: d; simp add: Let_def\<close>)+

lemma body_tree_facts:
  assumes "verify_leaf H p key = Some leaf" and "wf_body (up_body p)" and "length key = 32"
  shows "tree_hash H (body_tree key (up_body p)) = leaf"
    and "tree_lookup (body_tree key (up_body p)) key (up_depth p) = urkel_value p"
    and "revealed (body_tree key (up_body p)) key (up_depth p)"
    and "tree_inputs H (body_tree key (up_body p)) = leaf_inputs H (up_body p) key"
    and "wf_tree (body_tree key (up_body p))"
  using assms
  by (auto simp: verify_leaf_def urkel_value_def wf_body_def leaf_inputs_def leaf_value_hash_def
      hash_value_def blake2b_256_def split: proof_body.splits if_splits)

lemma proof_tree_facts:
  assumes "wf_proof p" and "length key = 32" and "urkel_verify H p root key"
  shows "tree_hash H (proof_tree p key) = root" and "tree_lookup (proof_tree p key) key 0 = urkel_value p"
    and "revealed (proof_tree p key) key 0" and "wf_tree (proof_tree p key)"
    and "tree_inputs H (proof_tree p key) = proof_inputs H p key"
proof -
  from assms(3) obtain leaf where v: "verify_leaf H p key = Some leaf"
      "path_ok key (up_nodes p) 0 (up_depth p)" "root = climb H key (up_nodes p) 0 leaf"
    by (auto simp: urkel_verify_iff)
  have "wf_body (up_body p)" using assms(1) by (simp add: wf_proof_def)
  note b = body_tree_facts [OF v(1) this assms(2)]
  note t = path_tree_facts [OF v(2), where t = "body_tree key (up_body p)"]
  show "tree_hash H (proof_tree p key) = root" by (simp add: proof_tree_def t(1) b(1) v(3))
  show "tree_lookup (proof_tree p key) key 0 = urkel_value p" by (simp add: proof_tree_def t(2) b(2))
  show "revealed (proof_tree p key) key 0" by (simp add: proof_tree_def t(3) b(3))
  show "wf_tree (proof_tree p key)" using assms(1) by (simp add: proof_tree_def t(5) b(5) wf_proof_def)
  show "tree_inputs H (proof_tree p key) = proof_inputs H p key"
    by (auto simp: proof_tree_def t(4) b(1,4) proof_inputs_def v(1))
qed

section \<open>Completeness\<close>

text \<open>The proof a holder of the tree sends.\<close>

fun reveal :: "digest \<Rightarrow> urkel_tree \<Rightarrow> hash \<Rightarrow> nat \<Rightarrow> urkel_proof_node list \<times> proof_body \<times> nat" where
  "reveal H (ULeaf k v) key d =
     ([], if k = key then Exists (case v of Inl _ \<Rightarrow> [] | Inr bs \<Rightarrow> bs) else Collision k (leaf_value_hash H v), d)"
| "reveal H (UNode p l r) key d =
     (if prefix_has p key d
      then (if has_bit key (d + bp_size p)
            then case reveal H r key (d + bp_size p + 1) of (ns, b, D) \<Rightarrow>
                   (\<lparr>un_prefix = p, un_hash = tree_hash H l\<rparr> # ns, b, D)
            else case reveal H l key (d + bp_size p + 1) of (ns, b, D) \<Rightarrow>
                   (\<lparr>un_prefix = p, un_hash = tree_hash H r\<rparr> # ns, b, D))
      else ([], Short p (tree_hash H l) (tree_hash H r), d))"
| "reveal H _ key d = ([], Deadend, d)"

definition body_type :: "proof_body \<Rightarrow> u8" where
  "body_type b = (case b of Deadend \<Rightarrow> TYPE_DEADEND | Short _ _ _ \<Rightarrow> TYPE_SHORT
     | Collision _ _ \<Rightarrow> TYPE_COLLISION | Exists _ \<Rightarrow> TYPE_EXISTS)"

definition reveal_proof :: "digest \<Rightarrow> urkel_tree \<Rightarrow> hash \<Rightarrow> urkel_proof" where
  "reveal_proof H t key = (case reveal H t key 0 of (ns, b, D) \<Rightarrow>
     \<lparr>up_proof_type = body_type b, up_depth = D, up_nodes = ns, up_body = b\<rparr>)"

text \<open>Every inner node of the tree decides a bit of the key, and values fit their length field.\<close>

fun shallow :: "urkel_tree \<Rightarrow> nat \<Rightarrow> bool" where
  "shallow (UNode p l r) d \<longleftrightarrow> d + bp_size p < URKEL_BITS \<and> shallow l (d + bp_size p + 1) \<and> shallow r (d + bp_size p + 1)"
| "shallow (ULeaf k v) d \<longleftrightarrow> (case v of Inl _ \<Rightarrow> True | Inr bs \<Rightarrow> length bs \<le> 0xffff)"
| "shallow _ d \<longleftrightarrow> True"

lemma prefix_has_empty: "bp_size p = 0 \<Longrightarrow> prefix_has p key d"
  by (simp add: prefix_has_def prefix_count_def Let_def)

lemma reveal_facts:
  assumes "reveal H t key d = (ns, b, D)" and "revealed t key d" and "shallow t d" and "wf_tree t"
    and "d \<le> URKEL_BITS"
  shows "path_ok key ns d D \<and> D \<le> URKEL_BITS \<and> length ns \<le> D - d \<and>
    list_all (\<lambda>n. bp_size (un_prefix n) \<le> URKEL_BITS) ns \<and>
    (\<forall>p. up_body p = b \<longrightarrow> up_depth p = D \<longrightarrow>
       (\<exists>leaf. verify_leaf H p key = Some leaf \<and> climb H key ns d leaf = tree_hash H t) \<and>
       urkel_value p = tree_lookup t key d) \<and>
    (case b of Short q _ _ \<Rightarrow> 0 < bp_size q \<and> bp_size q \<le> URKEL_BITS | Exists v \<Rightarrow> length v \<le> 0xffff | _ \<Rightarrow> True)"
  using assms
proof (induction t arbitrary: d ns b D)
  case (UNode q l r)
  show ?case
  proof (cases "prefix_has q key d")
    case True
    let ?d' = "d + bp_size q + 1"
    let ?c = "if has_bit key (d + bp_size q) then r else l"
    obtain ns' b' D' where rv: "reveal H ?c key ?d' = (ns', b', D')" by (cases "reveal H ?c key ?d'") auto
    have IH: "path_ok key ns' ?d' D' \<and> D' \<le> URKEL_BITS \<and> length ns' \<le> D' - ?d' \<and>
        list_all (\<lambda>n. bp_size (un_prefix n) \<le> URKEL_BITS) ns' \<and>
        (\<forall>p. up_body p = b' \<longrightarrow> up_depth p = D' \<longrightarrow>
          (\<exists>leaf. verify_leaf H p key = Some leaf \<and> climb H key ns' ?d' leaf = tree_hash H ?c) \<and>
          urkel_value p = tree_lookup ?c key ?d') \<and>
        (case b' of Short q _ _ \<Rightarrow> 0 < bp_size q \<and> bp_size q \<le> URKEL_BITS | Exists v \<Rightarrow> length v \<le> 0xffff | _ \<Rightarrow> True)"
      using UNode.IH [of ?d' ns' b' D'] rv UNode.prems True by (auto split: if_splits)
    have "length ns' + 1 \<le> D' - d" if "D' \<ge> ?d'"
      using IH that by linarith
    moreover have "?d' \<le> D'" using IH by (induction ns' arbitrary: d) auto
    ultimately show ?thesis
      using IH rv UNode.prems True by (auto simp: Let_def wf_prefix_def split: if_splits prod.splits)
  next
    case False
    then have "0 < bp_size q" using prefix_has_empty [of q key d] by (cases "bp_size q = 0") auto
    with UNode.prems False show ?thesis
      by (auto simp: verify_leaf_def urkel_value_def wf_prefix_def)
  qed
qed (auto simp: verify_leaf_def urkel_value_def leaf_value_hash_def hash_value_def blake2b_256_def
    split: sum.splits if_splits)

lemma reveal_verifies:
  assumes "revealed t key 0" and "shallow t 0" and "wf_tree t"
  shows "urkel_verify H (reveal_proof H t key) (tree_hash H t) key"
    and "urkel_value (reveal_proof H t key) = tree_lookup t key 0"
proof -
  obtain ns b D where rv: "reveal H t key 0 = (ns, b, D)" by (cases "reveal H t key 0") auto
  note f = reveal_facts [OF rv assms, simplified]
  have sane: "is_sane (reveal_proof H t key)"
    using f rv by (auto simp: is_sane_def reveal_proof_def body_type_def list_ex_iff list_all_iff not_less
        split: proof_body.splits)
  have shape: "up_body (reveal_proof H t key) = b" "up_depth (reveal_proof H t key) = D"
      "up_nodes (reveal_proof H t key) = ns"
    using rv by (simp_all add: reveal_proof_def)
  with f obtain leaf where "verify_leaf H (reveal_proof H t key) key = Some leaf"
      "climb H key ns 0 leaf = tree_hash H t" by metis
  with sane f shape show "urkel_verify H (reveal_proof H t key) (tree_hash H t) key"
    by (auto simp: urkel_verify_iff)
  from f rv show "urkel_value (reveal_proof H t key) = tree_lookup t key 0" by (simp add: reveal_proof_def)
qed

section \<open>Decoded proofs are well-formed\<close>

lemma cur_read_bytes_Inr [result_inv]:
  "cur_read_bytes data off len = Inr (bs, off') \<longleftrightarrow>
     off' = off + len \<and> off + len \<le> usize_max \<and> off + len \<le> length data \<and> bs = take len (drop off data)"
  by (auto simp: cur_read_bytes_def result_inv slice_range_eq_Some)

lemma cur_read_hash_Inr: "cur_read_hash data off = Inr (h, off') \<Longrightarrow> length h = 32"
  by (auto simp: cur_read_hash_def result_inv hash_from_slice_def split: if_splits)

lemma cur_read_prefix_Inr:
  "cur_read_prefix data off = Inr (p, off') \<Longrightarrow> length (bp_data p) = (bp_size p + 7) div 8"
  by (auto simp: cur_read_prefix_def result_inv Let_def split: if_splits)

lemma read_checked_prefix_Inr:
  "read_checked_prefix data off = Inr (p, off') \<Longrightarrow> wf_prefix p"
  by (auto simp: read_checked_prefix_def wf_prefix_def result_inv dest: cur_read_prefix_Inr split: if_splits)

lemma wf_empty_prefix: "wf_prefix empty_prefix"
  by (simp add: wf_prefix_def empty_prefix_def)

lemma read_nodes_Inr:
  "read_nodes data bitmap i k off = Inr (ns, off') \<Longrightarrow>
   length ns = k \<and> list_all (\<lambda>n. wf_prefix (un_prefix n) \<and> length (un_hash n) = 32) ns"
  by (induction k arbitrary: i off ns off')
    (auto simp: result_inv wf_empty_prefix dest!: cur_read_hash_Inr read_checked_prefix_Inr split: if_splits)

lemma read_body_Inr: "read_body data ty off = Inr (b, off') \<Longrightarrow> wf_body b"
  by (auto simp: read_body_def wf_body_def result_inv
      dest!: cur_read_hash_Inr read_checked_prefix_Inr split: if_splits)

lemma decode_wf:
  assumes "urkel_decode data = Inr p"
  shows "wf_proof p"
  using assms
  by (auto simp: urkel_decode_def wf_proof_def result_inv Let_def
      dest!: read_nodes_Inr read_body_Inr split: if_splits)

section \<open>Properties\<close>

text \<open>C3: Soundness of accepted proofs: if bytes decode to a proof that the verifier accepts for a key
  against the root hash of a tree in which the path of the key is known, then the value the proof carries
  is the look-up of the key in the tree: an inclusion proof shows the committed value and a
  non-inclusion proof shows that the key is absent.  The digest is assumed to have 32-byte outputs and,
  on the inputs hashed for the proof and the tree, no collision and no zero output.\<close>

theorem urkel_proof_sound:
  assumes "urkel_decode data = Inr p" and "urkel_verify H p (tree_hash H t) key"
    and "length key = 32" and "wf_tree t" and "revealed t key 0"
    and "good_digest H (proof_inputs H p key \<union> tree_inputs H t)"
  shows "urkel_value p = tree_lookup t key 0 \<and>
    (urkel_kind p = Inclusion \<longleftrightarrow> tree_lookup t key 0 \<noteq> None)"
proof -
  have wf: "wf_proof p" by (rule decode_wf [OF assms(1)])
  then have "urkel_kind p = Inclusion \<longleftrightarrow> urkel_value p \<noteq> None"
    by (auto simp: wf_proof_def is_sane_def urkel_kind_def urkel_value_def TYPE_EXISTS_def TYPE_DEADEND_def
        TYPE_SHORT_def TYPE_COLLISION_def split: proof_body.splits)
  with verify_sound [OF assms(6) wf assms(4,3,5,2)] show ?thesis by simp
qed

definition sample_key :: hash where
  "sample_key = 0x80 # replicate 31 0"

definition sample_digest :: digest where
  "sample_digest x = (if x = [7] then replicate 32 2 else replicate 32 3)"

definition sample_proof :: urkel_proof where
  "sample_proof = \<lparr>up_proof_type = TYPE_EXISTS, up_depth = 0, up_nodes = [], up_body = Exists [7]\<rparr>"

definition sample_tree :: urkel_tree where
  "sample_tree = ULeaf sample_key (Inr [7])"

lemma sample_key_length: "length sample_key = 32"
  by (simp add: sample_key_def)

lemma sample_decode: "urkel_decode [0x00, 0xc0, 0, 0, 1, 0, 7] = Inr sample_proof"
  by (simp add: urkel_decode_def cur_read_u16_le_def cur_read_bytes_def slice_range_def usize_max_def
      MAX_PROOF_SIZE_def URKEL_BITS_def TYPE_EXISTS_def TYPE_DEADEND_def TYPE_SHORT_def TYPE_COLLISION_def
      read_body_def is_sane_def sample_proof_def cong: rbind_weak_cong let_weak_cong if_weak_cong)

lemma sample_verify: "urkel_verify sample_digest sample_proof (tree_hash sample_digest sample_tree) sample_key"
  by (simp add: urkel_verify_def is_sane_def sample_proof_def verify_leaf_def sample_tree_def
      leaf_value_hash_def hash_value_def blake2b_256_def URKEL_BITS_def)

lemma sample_good:
  "good_digest sample_digest (proof_inputs sample_digest sample_proof sample_key \<union> tree_inputs sample_digest sample_tree)"
  by (auto simp: good_digest_def proof_inputs_def leaf_inputs_def sample_proof_def sample_tree_def
      verify_leaf_def leaf_value_hash_def leaf_input_def sample_digest_def hash_zero_def inj_on_def)

theorem urkel_proof_sound_witness:
  "urkel_value sample_proof = tree_lookup sample_tree sample_key 0 \<and> tree_lookup sample_tree sample_key 0 = Some [7]"
  using urkel_proof_sound [OF sample_decode sample_verify sample_key_length _ _ sample_good]
  by (simp add: sample_tree_def sample_key_length)

text \<open>Two accepted proofs for one key against one root, whatever the tree behind it, carry the same
  value and are of the same kind: nobody can exhibit both an inclusion and a non-inclusion proof, nor two
  different values, without a digest collision (or a zero digest) among the inputs of the two
  verifications.\<close>

lemma urkel_proofs_agree:
  assumes "urkel_decode data = Inr p" and "urkel_decode data' = Inr p'" and "length key = 32"
    and "urkel_verify H p root key" and "urkel_verify H p' root key"
    and "good_digest H (proof_inputs H p key \<union> proof_inputs H p' key)"
  shows "urkel_value p = urkel_value p'"
proof -
  note t = proof_tree_facts [OF decode_wf [OF assms(2)] assms(3,5)]
  have "urkel_value p = tree_lookup (proof_tree p' key) key 0"
    by (rule verify_sound [where H = H, OF _ decode_wf [OF assms(1)] t(4) assms(3) t(3)])
      (use assms(4,6) in \<open>simp_all add: t(1,5)\<close>)
  then show ?thesis by (simp add: t(2))
qed

lemma urkel_proofs_agree_witness:
  "\<exists>p. urkel_decode [0x00, 0xc0, 0, 0, 1, 0, 7] = Inr p \<and>
     urkel_verify sample_digest p (tree_hash sample_digest sample_tree) sample_key \<and>
     urkel_value p = urkel_value sample_proof"
proof -
  have "urkel_value sample_proof = urkel_value sample_proof"
    by (rule urkel_proofs_agree [OF sample_decode sample_decode sample_key_length sample_verify sample_verify])
      (use sample_good in \<open>simp add: good_digest_def inj_on_def\<close>)
  with sample_decode sample_verify show ?thesis by blast
qed

text \<open>C22: Completeness: for every well-formed tree of at most 256 decided bits in which the path of the
  key is known, the proof read off the tree is accepted against its root hash and carries the look-up of
  the key; this holds for every digest.\<close>

theorem urkel_verify_complete:
  assumes "revealed t key 0" and "shallow t 0" and "wf_tree t"
  shows "urkel_verify H (reveal_proof H t key) (tree_hash H t) key \<and>
    urkel_value (reveal_proof H t key) = tree_lookup t key 0"
  using reveal_verifies [OF assms] by blast

theorem urkel_verify_complete_witness:
  "urkel_verify sample_digest (reveal_proof sample_digest (UNode empty_prefix UNull sample_tree) sample_key)
     (tree_hash sample_digest (UNode empty_prefix UNull sample_tree)) sample_key"
  using urkel_verify_complete [of "UNode empty_prefix UNull sample_tree" sample_key sample_digest]
  by (simp add: sample_tree_def wf_empty_prefix sample_key_length) (simp add: empty_prefix_def URKEL_BITS_def)

text \<open>What the decoder accepts: at most 256 KiB, depth and node count at most 256, every prefix of
  at most 256 bits with exactly as many bytes as its bits need, every hash of 32 bytes, a body whose
  kind is the declared proof type, and a value of at most 65535 bytes.\<close>

lemma urkel_decode_bounds:
  assumes "urkel_decode data = Inr p"
  shows "length data \<le> MAX_PROOF_SIZE \<and> is_sane p \<and> wf_body (up_body p) \<and> up_depth p \<le> 256 \<and>
    length (up_nodes p) \<le> 256 \<and>
    list_all (\<lambda>n. wf_prefix (un_prefix n) \<and> length (un_hash n) = 32) (up_nodes p)"
  using decode_wf [OF assms] assms
  by (auto simp: wf_proof_def urkel_decode_def is_sane_def URKEL_BITS_def split: if_splits)

lemma urkel_decode_bounds_witness: "is_sane sample_proof \<and> up_depth sample_proof \<le> 256"
  using urkel_decode_bounds [OF sample_decode] by simp

end
