(* ===== verification/Pow.thy ===== *)
theory Pow
  imports Hash
begin

unbundle bit_operations_syntax

text \<open>
  Proof of work (src/crates/hns-browser-primitives/src/pow.rs).  \<open>BigUint\<close> is \<open>nat\<close>; a compact target is
  a \<open>u32\<close>.  Where the source would panic (a failed \<open>expect\<close>, a slice copy of the wrong length) the model
  returns \<open>None\<close>, and the theorems show that this does not happen.
\<close>

section \<open>Big integers\<close>

text \<open>\<open>BigUint::to_bytes_be\<close>: the shortest big-endian digits in base 256, a single zero for zero.\<close>

fun to_bytes_be :: "nat \<Rightarrow> bytes" where
  "to_bytes_be n = (if n < 256 then [of_nat n] else to_bytes_be (n div 256) @ [of_nat (n mod 256)])"

declare to_bytes_be.simps [simp del]

definition biguint_to_u32 :: "nat \<Rightarrow> u32 option" where
  "biguint_to_u32 n = (if n < 2 ^ 32 then Some (of_nat n) else None)"

section \<open>Targets and work\<close>

datatype pow_error = NegativeTarget | ZeroTarget | TargetOverflow | InvalidChainworkHex

definition compact_to_target :: "u32 \<Rightarrow> (pow_error, nat) result" where
  "compact_to_target bits =
     (if bits AND 0x00800000 \<noteq> 0 then Inl NegativeTarget
      else let exponent = unat (drop_bit 24 bits); mantissa = bits AND 0x007fffff in
      if mantissa = 0 then Inl ZeroTarget
      else let target = unat mantissa;
               target = (if exponent \<le> 3 then target div 2 ^ (8 * (3 - exponent))
                         else target * 2 ^ (8 * (exponent - 3))) in
      if target = 0 then Inl ZeroTarget
      else if 2 ^ 256 \<le> target then Inl TargetOverflow
      else Inr target)"

definition to_be_bytes_32 :: "nat \<Rightarrow> bytes option" where
  "to_be_bytes_32 target =
     (let bs = to_bytes_be target in
      if 32 < length bs then None else Some (replicate (32 - length bs) 0 @ bs))"

definition work_for_target :: "nat \<Rightarrow> (pow_error, nat) result" where
  "work_for_target target = (if target = 0 then Inl ZeroTarget else Inr (2 ^ 256 div (target + 1)))"

definition target_for_work :: "nat \<Rightarrow> (pow_error, nat) result" where
  "target_for_work work =
     (if work = 0 then Inl ZeroTarget
      else let target = 2 ^ 256 div work in
      if target = 0 then Inl ZeroTarget else Inr (target - 1))"

definition target_to_compact :: "nat \<Rightarrow> u32 option" where
  "target_to_compact target =
     (if target = 0 then Some 0
      else let exponent = of_nat (length (to_bytes_be target)) :: u32 in
      Option.bind
        (if exponent \<le> 3
         then map_option (\<lambda>m. push_bit (8 * (3 - unat exponent)) m) (biguint_to_u32 target)
         else biguint_to_u32 (target div 2 ^ (8 * (unat exponent - 3)))) (\<lambda>mantissa.
      let (mantissa, exponent) =
            (if mantissa AND 0x00800000 \<noteq> 0 then (drop_bit 8 mantissa, exponent + 1)
             else (mantissa, exponent)) in
      Some (push_bit 24 exponent OR mantissa)))"

definition chainwork_from_bits :: "u32 \<Rightarrow> (pow_error, nat) result" where
  "chainwork_from_bits bits = rbind (compact_to_target bits) work_for_target"

definition chainwork_checked_add :: "nat \<Rightarrow> nat \<Rightarrow> nat" where
  "chainwork_checked_add a b = a + b"

definition chainwork_checked_sub :: "nat \<Rightarrow> nat \<Rightarrow> nat option" where
  "chainwork_checked_sub a b = (if a < b then None else Some (a - b))"

definition chainwork_mul_u64 :: "nat \<Rightarrow> u64 \<Rightarrow> nat" where
  "chainwork_mul_u64 a factor = a * unat factor"

definition chainwork_div_u64 :: "nat \<Rightarrow> u64 \<Rightarrow> nat option" where
  "chainwork_div_u64 a divisor = (if divisor = 0 then None else Some (a div unat divisor))"

section \<open>Verification\<close>

text \<open>The derived order on byte arrays is lexicographic.\<close>

fun bytes_le :: "bytes \<Rightarrow> bytes \<Rightarrow> bool" where
  "bytes_le [] bs = True"
| "bytes_le (a # as) [] = False"
| "bytes_le (a # as) (b # bs) = (a < b \<or> a = b \<and> bytes_le as bs)"

definition target_bytes_from_compact :: "u32 \<Rightarrow> (pow_error, bytes) result option" where
  "target_bytes_from_compact bits =
     (if bits AND 0x00800000 \<noteq> 0 then Some (Inl NegativeTarget)
      else let exponent = unat (drop_bit 24 bits); mantissa = bits AND 0x007fffff in
      if mantissa = 0 then Some (Inl ZeroTarget)
      else if 32 < exponent then
        (case compact_to_target bits of
           Inl e \<Rightarrow> Some (Inl e)
         | Inr target \<Rightarrow> map_option Inr (to_be_bytes_32 target))
      else let out = replicate 32 0 in
      if exponent \<le> 3 then
        let target = drop_bit (8 * (3 - exponent)) mantissa in
        Some (Inr (take 28 out @ be_bytes 4 target))
      else if 32 < exponent then Some (Inl TargetOverflow)
      else let offset = 32 - exponent;
               out = out[offset := ucast (drop_bit 16 mantissa)];
               out = out[offset + 1 := ucast (drop_bit 8 mantissa)];
               out = out[offset + 2 := ucast mantissa] in
      Some (Inr out))"

definition verify_pow :: "hash \<Rightarrow> u32 \<Rightarrow> (pow_error, bool) result option" where
  "verify_pow h bits =
     map_option (\<lambda>r. rbind r (\<lambda>target. Inr (bytes_le h target))) (target_bytes_from_compact bits)"

section \<open>Byte strings as numbers\<close>

fun be_nat :: "bytes \<Rightarrow> nat" where
  "be_nat [] = 0"
| "be_nat (b # bs) = unat b * 256 ^ length bs + be_nat bs"

lemma be_nat_append [simp]: "be_nat (xs @ ys) = be_nat xs * 256 ^ length ys + be_nat ys"
  by (induction xs) (simp_all add: power_add algebra_simps)

lemma be_nat_zeros [simp]: "be_nat (replicate n 0) = 0"
  by (induction n) simp_all

lemma be_nat_less: "be_nat bs < 256 ^ length bs"
proof (induction bs)
  case (Cons b bs)
  have "unat b * 256 ^ length bs + be_nat bs < (unat b + 1) * 256 ^ length bs" using Cons by simp
  also have "\<dots> \<le> 256 * 256 ^ length bs" using unsigned_less [where 'a = nat, of b] by (intro mult_right_mono) simp_all
  finally show ?case by simp
qed simp

lemma bytes_le_iff: "length a = length b \<Longrightarrow> bytes_le a b \<longleftrightarrow> be_nat a \<le> be_nat b"
proof (induction a b rule: bytes_le.induct)
  case (3 x xs y ys)
  have lx: "be_nat xs < 256 ^ length ys" using be_nat_less [of xs] 3(2) by simp
  have ly: "be_nat ys < 256 ^ length ys" by (rule be_nat_less)
  consider "x = y" | "unat x < unat y" | "unat y < unat x" by (metis linorder_neqE_nat word_unat_eq_iff)
  then show ?case
  proof cases
    case 1
    with 3 show ?thesis by simp
  next
    case 2
    then have "unat x * 256 ^ length ys + 256 ^ length ys \<le> unat y * 256 ^ length ys"
      by (metis Suc_leI add.commute mult_Suc mult_le_mono1)
    with 2 3(2) lx show ?thesis by (simp add: word_less_nat_alt)
  next
    case 3
    then have "unat y * 256 ^ length ys + 256 ^ length ys \<le> unat x * 256 ^ length ys"
      by (metis Suc_leI add.commute mult_Suc mult_le_mono1)
    with 3 \<open>length (x # xs) = length (y # ys)\<close> ly show ?thesis by (auto simp: word_less_nat_alt)
  qed
qed auto

lemma be_nat_to_bytes_be [simp]: "be_nat (to_bytes_be n) = n"
proof (induction n rule: to_bytes_be.induct)
  case (1 n)
  have u: "m < 256 \<Longrightarrow> unat (of_nat m :: u8) = m" for m
    by (simp add: unsigned_of_nat take_bit_nat_eq_self)
  show ?case
    using 1 u [of n] u [of "n mod 256"] by (subst to_bytes_be.simps) simp
qed

lemma length_to_bytes_be:
  "n < 256 ^ k \<Longrightarrow> 0 < k \<Longrightarrow> length (to_bytes_be n) \<le> k"
proof (induction n arbitrary: k rule: to_bytes_be.induct)
  case (1 n)
  show ?case
  proof (cases "n < 256")
    case True
    then show ?thesis using 1(3) by (subst to_bytes_be.simps) simp
  next
    case False
    obtain j where k: "k = Suc j" using 1(3) by (cases k) auto
    have "n div 256 < 256 ^ j" using 1(2) k by (simp add: less_mult_imp_div_less mult.commute)
    moreover have "j \<noteq> 0" using False 1(2) k by (cases j) auto
    ultimately show ?thesis using 1(1) [OF False, of j] False k by (subst to_bytes_be.simps) simp
  qed
qed

lemma to_bytes_be_nonempty: "0 < length (to_bytes_be n)"
  by (subst to_bytes_be.simps) simp

lemma to_bytes_be_lower: "0 < n \<Longrightarrow> 256 ^ (length (to_bytes_be n) - 1) \<le> n"
proof (induction n rule: to_bytes_be.induct)
  case (1 n)
  show ?case
  proof (cases "n < 256")
    case True
    then show ?thesis using 1(2) by (subst to_bytes_be.simps) simp
  next
    case False
    then have "256 ^ (length (to_bytes_be (n div 256)) - 1) \<le> n div 256" using 1 by simp
    then have "256 * 256 ^ (length (to_bytes_be (n div 256)) - 1) \<le> n" by linarith
    moreover have "256 * 256 ^ (length (to_bytes_be (n div 256)) - 1) =
        (256 :: nat) ^ length (to_bytes_be (n div 256))"
      using to_bytes_be_nonempty [of "n div 256"] by (metis Suc_pred' power_Suc)
    ultimately show ?thesis using False by (subst to_bytes_be.simps) simp
  qed
qed

lemma to_be_bytes_32_value:
  assumes "n < 2 ^ 256"
  obtains bs where "to_be_bytes_32 n = Some bs" and "length bs = 32" and "be_nat bs = n"
proof -
  have "n < 256 ^ 32" using assms by simp
  from length_to_bytes_be [OF this] have "length (to_bytes_be n) \<le> 32" by simp
  then show thesis using that by (simp add: to_be_bytes_32_def Let_def)
qed

section \<open>The two readings of a compact target\<close>

definition exponent_of :: "u32 \<Rightarrow> nat" where
  "exponent_of bits = unat (drop_bit 24 bits)"

definition mantissa_of :: "u32 \<Rightarrow> nat" where
  "mantissa_of bits = unat (bits AND 0x007fffff)"

definition expand :: "nat \<Rightarrow> nat \<Rightarrow> nat" where
  "expand e m = (if e \<le> 3 then m div 256 ^ (3 - e) else m * 256 ^ (e - 3))"

lemma two_pow_8: "(2 :: nat) ^ (8 * k) = 256 ^ k"
  by (simp add: power_mult)

lemma mantissa_less: "mantissa_of bits < 2 ^ 23"
proof -
  have "bits AND 0x007fffff = take_bit 23 bits"
    by (simp add: take_bit_eq_mask mask_eq_exp_minus_1)
  then show ?thesis
    using take_bit_nat_less_exp [of 23 "unat bits"] by (simp add: mantissa_of_def unsigned_take_bit_eq)
qed

lemma compact_to_target_eq:
  "compact_to_target bits =
     (if bits AND 0x00800000 \<noteq> 0 then Inl NegativeTarget
      else if expand (exponent_of bits) (mantissa_of bits) = 0 then Inl ZeroTarget
      else if 2 ^ 256 \<le> expand (exponent_of bits) (mantissa_of bits) then Inl TargetOverflow
      else Inr (expand (exponent_of bits) (mantissa_of bits)))"
  by (simp add: compact_to_target_def expand_def exponent_of_def mantissa_of_def Let_def two_pow_8
      unat_eq_0)

lemma unat_drop: "unat (drop_bit k (w :: u32)) = unat w div 2 ^ k"
  unfolding drop_bit_eq_div [symmetric, where 'a = nat]
  using unsigned_less [where 'a = nat, of w] by (simp add: unsigned_drop_bit_eq take_bit_nat_eq_self)

lemma unat_byte: "unat (ucast (drop_bit k (w :: u32)) :: u8) = unat w div 2 ^ k mod 256"
  by (simp add: unsigned_ucast_eq take_bit_eq_mod flip: unat_drop)

lemma unat_low_byte: "unat (ucast (w :: u32) :: u8) = unat w mod 256"
  using unat_byte [of 0 w] by simp

lemma digits_base_256:
  "(n :: nat) div 16777216 * 16777216 + (n div 65536 mod 256 * 65536 + (n div 256 mod 256 * 256 + n mod 256)) = n"
  "(n :: nat) div 65536 * 65536 + (n div 256 mod 256 * 256 + n mod 256) = n"
proof -
  have d: "n div 65536 = n div 256 div 256" "n div 16777216 = n div 256 div 256 div 256"
    by (simp_all flip: div_mult2_eq)
  have e: "m = m div 256 * 256 + m mod 256" for m :: nat by simp
  show "n div 16777216 * 16777216 + (n div 65536 mod 256 * 65536 + (n div 256 mod 256 * 256 + n mod 256)) = n"
    unfolding d using e [of n] e [of "n div 256"] e [of "n div 256 div 256"] by linarith
  show "n div 65536 * 65536 + (n div 256 mod 256 * 256 + n mod 256) = n"
    unfolding d using e [of n] e [of "n div 256"] by linarith
qed

lemma be_nat_4: "be_nat (be_bytes 4 (w :: u32)) = unat w"
proof -
  have "be_bytes 4 w = [ucast (drop_bit 24 w), ucast (drop_bit 16 w), ucast (drop_bit 8 w), ucast w]"
    by (simp add: be_bytes_def le_bytes_def upt_rec numeral_eq_Suc)
  moreover have "unat w < 2 ^ 32" using unsigned_less [where 'a = nat, of w] by simp
  ultimately show ?thesis by (simp add: unat_byte unat_low_byte unat_drop digits_base_256)
qed

lemma be_nat_3:
  assumes "unat (w :: u32) < 2 ^ 24"
  shows "be_nat [ucast (drop_bit 16 w), ucast (drop_bit 8 w), ucast w] = unat w"
proof -
  have "unat w div 65536 < 256" using assms by (simp add: less_mult_imp_div_less)
  then show ?thesis by (simp add: unat_byte unat_low_byte unat_drop digits_base_256)
qed

lemma three_updates:
  assumes "k + 3 \<le> n"
  shows "(replicate n z)[k := a, k + 1 := b, k + 2 := c] = replicate k z @ [a, b, c] @ replicate (n - k - 3) z"
proof -
  have "replicate n z = replicate k z @ [z, z, z] @ replicate (n - k - 3) z"
    using assms by (simp add: numeral_eq_Suc flip: replicate_Suc replicate_add)
  then show ?thesis by (simp add: list_update_append)
qed

text \<open>What the fast path computes, as a number.\<close>

lemma target_bytes_value:
  assumes "bits AND 0x00800000 = 0" and "mantissa_of bits \<noteq> 0" and "exponent_of bits \<le> 32"
  obtains bs where "target_bytes_from_compact bits = Some (Inr bs)" and "length bs = 32"
    and "be_nat bs = expand (exponent_of bits) (mantissa_of bits)"
proof (cases "exponent_of bits \<le> 3")
  case True
  let ?t = "drop_bit (8 * (3 - exponent_of bits)) (bits AND 0x007fffff)"
  let ?bs = "replicate 28 0 @ be_bytes 4 ?t"
  have "target_bytes_from_compact bits = Some (Inr ?bs)"
    using assms True by (simp add: target_bytes_from_compact_def exponent_of_def mantissa_of_def unat_eq_0 Let_def)
  moreover have "be_nat ?bs = unat ?t" by (simp only: be_nat_append be_nat_zeros be_nat_4)
  then have "be_nat ?bs = expand (exponent_of bits) (mantissa_of bits)"
    using True by (simp only: unat_drop expand_def mantissa_of_def two_pow_8 if_True)
  ultimately show thesis using that [of ?bs] by simp
next
  case False
  let ?m = "bits AND 0x007fffff"
  let ?k = "32 - exponent_of bits"
  let ?bs = "replicate ?k 0 @ [ucast (drop_bit 16 ?m), ucast (drop_bit 8 ?m), ucast ?m] @ replicate (32 - ?k - 3) 0"
  have k: "?k + 3 \<le> 32" using False by simp
  have "target_bytes_from_compact bits = Some (Inr ?bs)"
    using assms False three_updates [OF k, of 0 "ucast (drop_bit 16 ?m)" "ucast (drop_bit 8 ?m)" "ucast ?m"]
    by (simp add: target_bytes_from_compact_def exponent_of_def mantissa_of_def unat_eq_0 Let_def)
  moreover have "be_nat [ucast (drop_bit 16 ?m), ucast (drop_bit 8 ?m), ucast ?m] = mantissa_of bits"
    unfolding mantissa_of_def by (rule be_nat_3) (use mantissa_less [of bits] in \<open>simp add: mantissa_of_def\<close>)
  then have "be_nat ?bs = mantissa_of bits * 256 ^ (32 - ?k - 3)"
    by (simp only: be_nat_append be_nat_zeros length_replicate)
  moreover have "32 - ?k - 3 = exponent_of bits - 3" using assms(3) by simp
  ultimately show thesis using that [of ?bs] False k by (simp add: expand_def)
qed

lemma expand_bounded:
  assumes "exponent_of bits \<le> 32"
  shows "expand (exponent_of bits) (mantissa_of bits) < 2 ^ 256"
proof -
  have "expand (exponent_of bits) (mantissa_of bits) \<le> mantissa_of bits * 256 ^ 29"
  proof (cases "exponent_of bits \<le> 3")
    case True
    have "mantissa_of bits div 256 ^ (3 - exponent_of bits) \<le> mantissa_of bits * 1"
      by (simp add: div_le_dividend)
    also have "\<dots> \<le> mantissa_of bits * 256 ^ 29" by (intro mult_left_mono) simp_all
    finally show ?thesis using True by (simp only: expand_def if_True)
  next
    case False
    have "(256 :: nat) ^ (exponent_of bits - 3) \<le> 256 ^ 29"
      using assms by (intro power_increasing) simp_all
    with False show ?thesis by (simp only: expand_def if_False mult_le_mono2)
  qed
  also have "\<dots> < 2 ^ 23 * 256 ^ 29" using mantissa_less [of bits] by (intro mult_strict_right_mono) simp_all
  also have "\<dots> \<le> (2 :: nat) ^ 256" by simp
  finally show ?thesis .
qed

lemma expand_zero_mantissa: "expand e 0 = 0"
  by (simp add: expand_def)

section \<open>Compact encoding of a target\<close>

lemma unat_small_u32: "n < 2 ^ 32 \<Longrightarrow> unat (of_nat n :: u32) = n"
  by (simp add: unsigned_of_nat take_bit_nat_eq_self)

lemma sign_bit_iff: "unat (m :: u32) < 2 ^ 24 \<Longrightarrow> m AND 0x00800000 \<noteq> 0 \<longleftrightarrow> 2 ^ 23 \<le> unat m"
proof -
  assume "unat m < 2 ^ 24"
  then have "unat m div 2 ^ 23 = 1 \<or> unat m div 2 ^ 23 = 0" by (simp add: div_less le_div_geq) linarith
  moreover have "m AND 0x00800000 \<noteq> 0 \<longleftrightarrow> bit m 23"
    using and_exp_eq_0_iff_not_bit [of m 23] by simp
  moreover have "bit m 23 \<longleftrightarrow> bit (unat m) 23" by (simp add: bit_unsigned_iff)
  then have "bit m 23 \<longleftrightarrow> odd (unat m div 2 ^ 23)" by (simp only: bit_iff_odd)
  ultimately show ?thesis by (auto simp: div_eq_0_iff)
qed

lemma pack_compact:
  assumes "e < 256" and "unat (m :: u32) < 2 ^ 23"
  shows "exponent_of (push_bit 24 (of_nat e) OR m) = e" and "mantissa_of (push_bit 24 (of_nat e) OR m) = unat m"
    and "(push_bit 24 (of_nat e) OR m) AND 0x00800000 = 0"
proof -
  let ?x = "of_nat e :: u32"
  have ux: "unat ?x = e" using assms(1) by (intro unat_small_u32) simp
  have bm: "n < 23" if "bit m n" for n
  proof -
    have "take_bit 23 m = m" using assms(2)
      by (simp add: word_unat_eq_iff unsigned_take_bit_eq take_bit_nat_eq_self)
    then show ?thesis using that by (metis bit_take_bit_iff)
  qed
  have bx: "n < 8" if "bit ?x n" for n
  proof -
    have "take_bit 8 ?x = ?x" using assms(1) ux
      by (simp add: word_unat_eq_iff unsigned_take_bit_eq take_bit_nat_eq_self)
    then show ?thesis using that by (metis bit_take_bit_iff)
  qed
  have "drop_bit 24 (push_bit 24 ?x OR m) = ?x"
    by (rule bit_word_eqI) (use bm bx in \<open>fastforce simp: bit_simps\<close>)
  with ux show "exponent_of (push_bit 24 (of_nat e) OR m) = e" by (simp only: exponent_of_def)
  have "(push_bit 24 ?x OR m) AND mask 23 = m"
    by (rule bit_word_eqI) (use bm in \<open>auto simp: bit_simps\<close>)
  then show "mantissa_of (push_bit 24 (of_nat e) OR m) = unat m"
    by (simp add: mantissa_of_def mask_eq_exp_minus_1)
  show "(push_bit 24 (of_nat e) OR m) AND 0x00800000 = 0"
    using and_exp_eq_0_iff_not_bit [of "push_bit 24 ?x OR m" 23] bm [of 23] by (auto simp: bit_simps)
qed

text \<open>The mantissa and exponent that the encoder starts from.\<close>

lemma compact_start:
  assumes "0 < t" and "t < 2 ^ 256" and "L = length (to_bytes_be t)"
    and "M = (if L \<le> 3 then t * 256 ^ (3 - L) else t div 256 ^ (L - 3))"
  shows "M < 2 ^ 24" and "0 < L" and "L \<le> 32" and "t < 256 ^ L"
    and "target_to_compact t = (let (m, e) = (if 2 ^ 23 \<le> M then (M div 256, L + 1) else (M, L)) in
           Some (push_bit 24 (of_nat e) OR of_nat m))"
proof -
  show pos: "0 < L" using assms(3) to_bytes_be_nonempty by simp
  show up: "t < 256 ^ L" using be_nat_less [of "to_bytes_be t"] assms(3) by simp
  have "t < 256 ^ 32" using assms(2) by simp
  then show le: "L \<le> 32" using length_to_bytes_be [of t 32] assms(3) by simp
  have uL: "unat (of_nat L :: u32) = L" using le by (intro unat_small_u32) simp
  show M24: "M < 2 ^ 24"
  proof (cases "L \<le> 3")
    case True
    have "t * 256 ^ (3 - L) < 256 ^ L * 256 ^ (3 - L)" using up by simp
    also have "\<dots> = 256 ^ 3" using True by (simp flip: power_add)
    finally show ?thesis using True assms(4) by simp
  next
    case False
    have "256 ^ L = (256 :: nat) ^ (3 + (L - 3))" using False by simp
    then have "256 ^ L = (256 :: nat) ^ 3 * 256 ^ (L - 3)" by (simp only: power_add)
    then show ?thesis using False assms(4) up by (simp add: less_mult_imp_div_less)
  qed
  have uM: "unat (of_nat M :: u32) = M" using M24 by (intro unat_small_u32) simp
  have le3: "(of_nat L :: u32) \<le> 3 \<longleftrightarrow> L \<le> 3" using uL by (simp add: word_le_nat_alt)
  have mant: "(if L \<le> 3 then map_option (\<lambda>m. push_bit (8 * (3 - L)) m) (biguint_to_u32 t)
      else biguint_to_u32 (t div 2 ^ (8 * (L - 3)))) = Some (of_nat M)"
  proof (cases "L \<le> 3")
    case True
    have "t \<le> M" using True assms(4) by simp
    then have "t < 2 ^ 32" using M24 by simp
    then show ?thesis
      using True assms(4) by (simp add: biguint_to_u32_def push_bit_eq_mult power_mult)
  next
    case False
    then show ?thesis using M24 assms(4) by (simp add: biguint_to_u32_def two_pow_8)
  qed
  have "M div 256 < 2 ^ 32" using M24 by simp
  then have "drop_bit 8 (of_nat M :: u32) = of_nat (M div 256)"
    using unat_drop [of 8 "of_nat M"] uM unat_small_u32 [of "M div 256"] by (simp add: word_unat_eq_iff)
  then show "target_to_compact t = (let (m, e) = (if 2 ^ 23 \<le> M then (M div 256, L + 1) else (M, L)) in
           Some (push_bit 24 (of_nat e) OR of_nat m))"
    unfolding target_to_compact_def Let_def assms(3) [symmetric] uL le3 mant
    using assms(1) sign_bit_iff [of "of_nat M"] uM M24 by (simp add: add.commute)
qed

lemma compact_reencode:
  assumes t: "0 < t" "t < 2 ^ 256" and m: "t = expand e m" "m < 2 ^ 23"
  obtains bits where "target_to_compact t = Some bits" and "compact_to_target bits = Inr t"
proof -
  define L where "L = length (to_bytes_be t)"
  define M where "M = (if L \<le> 3 then t * 256 ^ (3 - L) else t div 256 ^ (L - 3))"
  note st = compact_start [OF t L_def M_def]
  have small: "m < 256 ^ 3" using m(2) by simp
  have big_e: "3 < e" if "\<not> L \<le> 3"
  proof (rule ccontr)
    assume "\<not> 3 < e"
    with m(1) have "t \<le> m" by (simp add: expand_def div_le_dividend)
    with small have "t < 256 ^ 3" by linarith
    from length_to_bytes_be [OF this] that show False by (simp add: L_def)
  qed
  have L_le: "L \<le> e" if "3 < e"
  proof -
    have "t < 256 ^ 3 * 256 ^ (e - 3)" using m(1) small that by (simp add: expand_def)
    also have "\<dots> = 256 ^ (3 + (e - 3))" by (simp only: power_add)
    also have "\<dots> = 256 ^ e" using that by simp
    finally show ?thesis using length_to_bytes_be [of t e] that by (simp add: L_def)
  qed
  have exact: "expand L M = t"
  proof (cases "L \<le> 3")
    case False
    then have "t = m * 256 ^ (e - L) * 256 ^ (L - 3)"
      using m(1) big_e L_le by (simp add: expand_def mult.assoc flip: power_add)
    with False show ?thesis by (simp add: expand_def M_def)
  qed (simp add: expand_def M_def)
  have shifted: "expand (L + 1) (M div 256) = t" if sign: "2 ^ 23 \<le> M"
  proof (cases "L < 3")
    case True
    then have "3 - L = Suc (2 - L)" by simp
    then have "M = t * 256 ^ (2 - L) * 256" using True by (simp add: M_def)
    with True show ?thesis by (simp add: expand_def)
  next
    case False
    have "e > L"
    proof (rule ccontr)
      assume "\<not> L < e"
      then have "M \<le> m" using m(1) False L_le by (auto simp: M_def expand_def intro: order_trans [OF div_le_dividend])
      with sign m(2) show False by linarith
    qed
    then have "e - 3 = (e - L - 1) + 1 + (L - 3)" using False by simp
    then have "(256 :: nat) ^ (e - 3) = 256 ^ (e - L - 1) * 256 * 256 ^ (L - 3)"
      by (metis power_add power_one_right)
    then have te: "t = m * 256 ^ (e - L - 1) * 256 * 256 ^ (L - 3)"
      using m(1) False \<open>L < e\<close> by (simp only: expand_def mult.assoc) simp
    then have "M = m * 256 ^ (e - L - 1) * 256" using False by (auto simp: M_def)
    moreover have "L + 1 - 3 = Suc (L - 3)" using False by simp
    ultimately show ?thesis using False te by (simp add: expand_def)
  qed
  show thesis
  proof (cases "2 ^ 23 \<le> M")
    case True
    have u: "unat (of_nat (M div 256) :: u32) = M div 256" using st(1) by (intro unat_small_u32) simp
    have "unat (of_nat (M div 256) :: u32) < 2 ^ 23" unfolding u using st(1) by simp
    note pack = pack_compact [of "L + 1", OF _ this]
    from True st(5) have "target_to_compact t = Some (push_bit 24 (of_nat (L + 1)) OR of_nat (M div 256))"
      by simp
    moreover have "compact_to_target (push_bit 24 (of_nat (L + 1)) OR of_nat (M div 256)) = Inr t"
      using pack st(3) u shifted [OF True] t by (simp only: compact_to_target_eq) simp
    ultimately show thesis by (rule that)
  next
    case False
    have u: "unat (of_nat M :: u32) = M" using st(1) by (intro unat_small_u32) simp
    have "unat (of_nat M :: u32) < 2 ^ 23" unfolding u using False by simp
    note pack = pack_compact [of L, OF _ this]
    from False st(5) have "target_to_compact t = Some (push_bit 24 (of_nat L) OR of_nat M)" by simp
    moreover have "compact_to_target (push_bit 24 (of_nat L) OR of_nat M) = Inr t"
      using pack st(3) u exact t by (simp only: compact_to_target_eq) simp
    ultimately show thesis by (rule that)
  qed
qed

section \<open>Properties\<close>

text \<open>C21: Proof-of-work verification compares numbers: for a 32-byte hash, \<open>verify_pow\<close> never panics, and
  it answers whether the hash, read as a big-endian number, is at most the target that
  \<open>compact_to_target\<close> decodes, with the same error when there is no target.  The one exception is a
  nonzero mantissa shifted out entirely by an exponent below 3: \<open>compact_to_target\<close> reports \<open>ZeroTarget\<close>
  while \<open>verify_pow\<close> compares with the target zero.\<close>

theorem verify_pow_correct:
  assumes "length h = 32"
  shows "verify_pow h bits =
    Some (if bits AND 0x00800000 = 0 \<and> mantissa_of bits \<noteq> 0 \<and> exponent_of bits \<le> 3 \<and>
             mantissa_of bits div 256 ^ (3 - exponent_of bits) = 0
          then Inr (be_nat h = 0)
          else rbind (compact_to_target bits) (\<lambda>target. Inr (be_nat h \<le> target)))"
proof (cases "bits AND 0x00800000 = 0 \<and> mantissa_of bits \<noteq> 0")
  case False
  then show ?thesis
    by (auto simp: verify_pow_def target_bytes_from_compact_def compact_to_target_def mantissa_of_def
        unat_eq_0 Let_def)
next
  case True
  show ?thesis
  proof (cases "exponent_of bits \<le> 32")
    case small: True
    from target_bytes_value [OF conjunct1 [OF True] conjunct2 [OF True] small] obtain bs where
      bs: "target_bytes_from_compact bits = Some (Inr bs)" "length bs = 32"
        "be_nat bs = expand (exponent_of bits) (mantissa_of bits)" .
    have le: "bytes_le h bs \<longleftrightarrow> be_nat h \<le> expand (exponent_of bits) (mantissa_of bits)"
      using bytes_le_iff [of h bs] assms bs by simp
    have z: "expand (exponent_of bits) (mantissa_of bits) = 0 \<longleftrightarrow> exponent_of bits \<le> 3 \<and>
        mantissa_of bits div 256 ^ (3 - exponent_of bits) = 0"
      using True by (simp add: expand_def)
    show ?thesis
      using True expand_bounded [OF small]
      unfolding verify_pow_def bs(1) compact_to_target_eq z [symmetric] by (auto simp: le)
  next
    case large: False
    then have e: "32 < unat (drop_bit 24 bits)" by (simp add: exponent_of_def)
    show ?thesis
    proof (cases "compact_to_target bits")
      case (Inl er)
      with True large e show ?thesis
        by (auto simp: verify_pow_def target_bytes_from_compact_def mantissa_of_def unat_eq_0 Let_def)
    next
      case (Inr t)
      then have "t < 2 ^ 256" by (auto simp: compact_to_target_eq split: if_splits)
      from to_be_bytes_32_value [OF this] obtain bs where
        "to_be_bytes_32 t = Some bs" "length bs = 32" "be_nat bs = t" .
      with True large e Inr bytes_le_iff [of h bs] assms show ?thesis
        by (auto simp: verify_pow_def target_bytes_from_compact_def mantissa_of_def unat_eq_0 Let_def)
    qed
  qed
qed

theorem verify_pow_correct_witness:
  "verify_pow (replicate 29 0 @ [1, 0, 0]) 0x03012345 = Some (Inr True) \<and>
   verify_pow (replicate 32 0) 0x01000001 = Some (Inr True)"
  using verify_pow_correct [of "replicate 29 0 @ [1, 0, 0]" "0x03012345"]
    verify_pow_correct [of "replicate 32 0" "0x01000001"]
  by (simp add: compact_to_target_eq expand_def exponent_of_def mantissa_of_def)

text \<open>Re-encoding a decoded target loses nothing: every target that some compact form decodes to is
  encoded again by \<open>target_to_compact\<close>, which does not panic, into a compact form that decodes to it.\<close>

lemma compact_reencode_stable:
  assumes "compact_to_target bits = Inr t"
  shows "\<exists>bits'. target_to_compact t = Some bits' \<and> compact_to_target bits' = Inr t"
proof -
  from assms have "0 < t" "t < 2 ^ 256" "t = expand (exponent_of bits) (mantissa_of bits)"
    by (auto simp: compact_to_target_eq split: if_splits)
  from compact_reencode [OF this mantissa_less] show ?thesis by blast
qed

lemma compact_reencode_stable_witness:
  "\<exists>bits'. target_to_compact 0x9234 = Some bits' \<and> compact_to_target bits' = Inr 0x9234"
  by (rule compact_reencode_stable [of "0x03009234"])
    (simp add: compact_to_target_eq expand_def exponent_of_def mantissa_of_def)

text \<open>Work and targets are inverse in the way chain selection needs: work is positive, a smaller
  target never has less work, and \<open>target_for_work\<close> returns the largest target with the given work.\<close>

lemma work_target_galois:
  assumes "0 < t" and "t < 2 ^ 256"
  shows "\<exists>w t'. work_for_target t = Inr w \<and> 0 < w \<and> target_for_work w = Inr t' \<and> t \<le> t' \<and>
    2 ^ 256 div (t' + 1) = w \<and> (\<forall>s. t' < s \<longrightarrow> 2 ^ 256 div (s + 1) < w)"
proof -
  let ?N = "2 ^ 256 :: nat"
  define w where "w = ?N div (t + 1)"
  define q where "q = ?N div w"
  have pos: "0 < w" using assms(2) by (simp add: w_def div_greater_zero_iff)
  have "w * (t + 1) \<le> ?N" unfolding w_def by (rule div_times_less_eq_dividend)
  then have tq: "t + 1 \<le> q" using pos by (simp add: q_def less_eq_div_iff_mult_less_eq mult.commute)
  then have q: "0 < q" by simp
  have "q * w \<le> ?N" unfolding q_def by (rule div_times_less_eq_dividend)
  then have "w \<le> ?N div q" using q by (simp add: less_eq_div_iff_mult_less_eq mult.commute)
  moreover have "?N div q \<le> w" using tq unfolding w_def by (intro div_le_mono2) simp_all
  ultimately have eq: "?N div q = w" by simp
  have lt: "?N div (s + 1) < w" if "q - 1 < s" for s
  proof -
    have "?N < w * (q + 1)" unfolding q_def using pos by (metis add.commute dividend_less_times_div plus_1_eq_Suc mult_Suc_right)
    also have "\<dots> \<le> w * (s + 1)" using that q by (intro mult_left_mono) simp_all
    finally show ?thesis by (simp add: less_mult_imp_div_less)
  qed
  have "work_for_target t = Inr w" using assms by (simp add: work_for_target_def w_def)
  moreover have "target_for_work w = Inr (q - 1)" using pos q by (simp add: target_for_work_def q_def)
  ultimately show ?thesis using pos tq q eq lt by (intro exI [of _ w] exI [of _ "q - 1"]) simp
qed

lemma work_target_galois_witness:
  "\<exists>w t'. work_for_target 255 = Inr w \<and> target_for_work w = Inr t' \<and> 255 \<le> t'"
  using work_target_galois [of 255] by (simp add: less_le_trans [of 255 256]) blast

end
