(* ===== verification/Header.thy ===== *)
theory Header
  imports Pow
begin

unbundle bit_operations_syntax

text \<open>
  Block headers (src/crates/hns-browser-primitives/src/header.rs), the byte reader they are parsed with
  (bytes.rs) and the network parameters (network.rs).  The digests are arguments; a fixed-size array is
  a byte list whose length the well-formedness predicate states.
\<close>

section \<open>The reader\<close>

datatype parse_error =
  ReadUnexpectedEof | ReadTrailingBytes | ReadLengthLimit | InvalidDnsLabel | InvalidDnsPointer | InvalidSvcb

record reader =
  rd_data :: bytes
  rd_offset :: usize

definition reader_new :: "bytes \<Rightarrow> reader" where
  "reader_new data = \<lparr>rd_data = data, rd_offset = 0\<rparr>"

definition reader_remaining :: "reader \<Rightarrow> usize" where
  "reader_remaining r = length (rd_data r) - rd_offset r"

definition ensure_finished :: "reader \<Rightarrow> (parse_error, unit) result" where
  "ensure_finished r = (if reader_remaining r = 0 then Inr () else Inl ReadTrailingBytes)"

definition read_bytes :: "reader \<Rightarrow> usize \<Rightarrow> (parse_error, bytes \<times> reader) result" where
  "read_bytes r len =
     rbind (ok_or ReadLengthLimit (usize_add (rd_offset r) len)) (\<lambda>stop.
     if length (rd_data r) < stop then Inl ReadUnexpectedEof
     else Inr (take (stop - rd_offset r) (drop (rd_offset r) (rd_data r)), r\<lparr>rd_offset := stop\<rparr>))"

definition read_array :: "usize \<Rightarrow> reader \<Rightarrow> (parse_error, bytes \<times> reader) result" where
  "read_array n r = read_bytes r n"

definition read_u8 :: "reader \<Rightarrow> (parse_error, u8 \<times> reader) result" where
  "read_u8 r = rbind (read_array 1 r) (\<lambda>(bs, r). Inr (bs ! 0, r))"

definition read_u16_be :: "reader \<Rightarrow> (parse_error, u16 \<times> reader) result" where
  "read_u16_be r = rbind (read_array 2 r) (\<lambda>(bs, r). Inr (be_word bs, r))"

definition read_u32_be :: "reader \<Rightarrow> (parse_error, u32 \<times> reader) result" where
  "read_u32_be r = rbind (read_array 4 r) (\<lambda>(bs, r). Inr (be_word bs, r))"

definition read_u32_le :: "reader \<Rightarrow> (parse_error, u32 \<times> reader) result" where
  "read_u32_le r = rbind (read_array 4 r) (\<lambda>(bs, r). Inr (le_word bs, r))"

definition read_u64_le :: "reader \<Rightarrow> (parse_error, u64 \<times> reader) result" where
  "read_u64_le r = rbind (read_array 8 r) (\<lambda>(bs, r). Inr (le_word bs, r))"

section \<open>Headers\<close>

definition HEADER_SIZE :: usize where
  "HEADER_SIZE = 236"

definition EXTRA_NONCE_SIZE :: usize where
  "EXTRA_NONCE_SIZE = 24"

record block_header =
  bh_nonce :: u32
  bh_time :: u64
  bh_prev_block :: hash
  bh_tree_root :: hash
  bh_extra_nonce :: bytes
  bh_reserved_root :: hash
  bh_witness_root :: hash
  bh_merkle_root :: hash
  bh_version :: u32
  bh_bits :: u32
  bh_mask :: hash

definition block_header_parse :: "bytes \<Rightarrow> (parse_error, block_header) result" where
  "block_header_parse data =
     (if length data \<noteq> HEADER_SIZE then Inl ReadUnexpectedEof
      else
      rbind (read_u32_le (reader_new data)) (\<lambda>(nonce, r).
      rbind (read_u64_le r) (\<lambda>(time, r).
      rbind (read_array 32 r) (\<lambda>(prev_block, r).
      rbind (read_array 32 r) (\<lambda>(tree_root, r).
      rbind (read_array EXTRA_NONCE_SIZE r) (\<lambda>(extra_nonce, r).
      rbind (read_array 32 r) (\<lambda>(reserved_root, r).
      rbind (read_array 32 r) (\<lambda>(witness_root, r).
      rbind (read_array 32 r) (\<lambda>(merkle_root, r).
      rbind (read_u32_le r) (\<lambda>(version, r).
      rbind (read_u32_le r) (\<lambda>(bits, r).
      rbind (read_array 32 r) (\<lambda>(mask, r).
      rbind (ensure_finished r) (\<lambda>_.
      Inr \<lparr>bh_nonce = nonce, bh_time = time, bh_prev_block = prev_block, bh_tree_root = tree_root,
           bh_extra_nonce = extra_nonce, bh_reserved_root = reserved_root,
           bh_witness_root = witness_root, bh_merkle_root = merkle_root, bh_version = version,
           bh_bits = bits, bh_mask = mask\<rparr>)))))))))))))"

text \<open>\<open>write_bytes\<close> copies into a fixed array at the running offset.\<close>

definition write_bytes :: "bytes \<times> usize \<Rightarrow> bytes \<Rightarrow> bytes \<times> usize" where
  "write_bytes s bs =
     (case s of (out, offset) \<Rightarrow>
       (take offset out @ bs @ drop (offset + length bs) out, offset + length bs))"

definition serialize :: "block_header \<Rightarrow> bytes" where
  "serialize h =
     fst (foldl write_bytes (replicate HEADER_SIZE 0, 0)
       [le_bytes 4 (bh_nonce h), le_bytes 8 (bh_time h), bh_prev_block h, bh_tree_root h,
        bh_extra_nonce h, bh_reserved_root h, bh_witness_root h, bh_merkle_root h,
        le_bytes 4 (bh_version h), le_bytes 4 (bh_bits h), bh_mask h])"

definition to_subhead :: "block_header \<Rightarrow> bytes" where
  "to_subhead h =
     fst (foldl write_bytes (replicate 128 0, 0)
       [bh_extra_nonce h, bh_reserved_root h, bh_witness_root h, bh_merkle_root h,
        le_bytes 4 (bh_version h), le_bytes 4 (bh_bits h)])"

definition padding :: "block_header \<Rightarrow> nat \<Rightarrow> bytes" where
  "padding h n = map (\<lambda>index. bh_prev_block h ! (index mod 32) XOR bh_tree_root h ! (index mod 32)) [0..<n]"

definition sub_hash :: "digest \<Rightarrow> block_header \<Rightarrow> hash" where
  "sub_hash blake2b h = blake2b_256 blake2b [to_subhead h]"

definition mask_hash :: "digest \<Rightarrow> block_header \<Rightarrow> hash" where
  "mask_hash blake2b h = blake2b_256 blake2b [bh_prev_block h, bh_mask h]"

definition commit_hash :: "digest \<Rightarrow> block_header \<Rightarrow> hash" where
  "commit_hash blake2b h = blake2b_256 blake2b [sub_hash blake2b h, mask_hash blake2b h]"

definition to_prehead :: "digest \<Rightarrow> block_header \<Rightarrow> bytes" where
  "to_prehead blake2b h =
     fst (foldl write_bytes (replicate 128 0, 0)
       [le_bytes 4 (bh_nonce h), le_bytes 8 (bh_time h), padding h 20, bh_prev_block h,
        bh_tree_root h, commit_hash blake2b h])"

definition blake2b_512 :: "digest \<Rightarrow> bytes list \<Rightarrow> bytes" where
  "blake2b_512 blake2b64 parts = blake2b64 (concat parts)"

definition share_hash :: "digest \<Rightarrow> digest \<Rightarrow> digest \<Rightarrow> block_header \<Rightarrow> hash" where
  "share_hash blake2b blake2b64 sha3 h =
     (let prehead = to_prehead blake2b h;
          left = blake2b_512 blake2b64 [prehead];
          right = sha3_256 sha3 [prehead, padding h 8]
      in blake2b_256 blake2b [left, padding h 32, right])"

definition pow_hash :: "digest \<Rightarrow> digest \<Rightarrow> digest \<Rightarrow> block_header \<Rightarrow> hash" where
  "pow_hash blake2b blake2b64 sha3 h =
     map (\<lambda>(byte, mask). byte XOR mask) (zip (share_hash blake2b blake2b64 sha3 h) (bh_mask h))"

definition header_hash :: "digest \<Rightarrow> digest \<Rightarrow> digest \<Rightarrow> block_header \<Rightarrow> hash" where
  "header_hash blake2b blake2b64 sha3 h = pow_hash blake2b blake2b64 sha3 h"

section \<open>Networks and genesis headers\<close>

datatype network_kind = Mainnet | Testnet | Regtest

definition genesis_witness_root :: hash where
  "genesis_witness_root =
     [0x1a, 0x2c, 0x60, 0xb9, 0x43, 0x92, 0x06, 0x93, 0x8f, 0x8d, 0x78, 0x23, 0x78, 0x2a, 0xbd, 0xb8,
      0xb2, 0x11, 0xa5, 0x74, 0x31, 0xe9, 0xc9, 0xb6, 0xa6, 0x36, 0x5d, 0x8d, 0x42, 0x89, 0x33, 0x51]"

definition genesis_merkle_root :: hash where
  "genesis_merkle_root =
     [0x8e, 0x4c, 0x97, 0x56, 0xfe, 0xf2, 0xad, 0x10, 0x37, 0x5f, 0x36, 0x0e, 0x05, 0x60, 0xfc, 0xc7,
      0x58, 0x7e, 0xb5, 0x22, 0x3d, 0xdf, 0x8c, 0xd7, 0xc7, 0xe0, 0x6e, 0x60, 0xa1, 0x14, 0x0b, 0x15]"

definition genesis_template :: block_header where
  "genesis_template =
     \<lparr>bh_nonce = 0, bh_time = 1580745078, bh_prev_block = hash_zero, bh_tree_root = hash_zero,
      bh_extra_nonce = replicate EXTRA_NONCE_SIZE 0, bh_reserved_root = hash_zero,
      bh_witness_root = genesis_witness_root, bh_merkle_root = genesis_merkle_root, bh_version = 0,
      bh_bits = 0x1c00ffff, bh_mask = hash_zero\<rparr>"

definition mainnet_genesis :: block_header where
  "mainnet_genesis =
     \<lparr>bh_nonce = 0, bh_time = 1580745078, bh_prev_block = hash_zero, bh_tree_root = hash_zero,
      bh_extra_nonce = replicate EXTRA_NONCE_SIZE 0, bh_reserved_root = hash_zero,
      bh_witness_root = genesis_witness_root, bh_merkle_root = genesis_merkle_root, bh_version = 0,
      bh_bits = 0x1c00ffff, bh_mask = hash_zero\<rparr>"

definition testnet_genesis :: block_header where
  "testnet_genesis = genesis_template\<lparr>bh_time := 1580745079, bh_bits := 0x1d00ffff\<rparr>"

definition regtest_genesis :: block_header where
  "regtest_genesis = genesis_template\<lparr>bh_time := 1580745080, bh_bits := 0x207fffff\<rparr>"

definition genesis_for_network :: "network_kind \<Rightarrow> block_header" where
  "genesis_for_network n =
     (case n of Mainnet \<Rightarrow> mainnet_genesis | Testnet \<Rightarrow> testnet_genesis | Regtest \<Rightarrow> regtest_genesis)"

definition network_as_str :: "network_kind \<Rightarrow> string" where
  "network_as_str n = (case n of Mainnet \<Rightarrow> ''mainnet'' | Testnet \<Rightarrow> ''testnet'' | Regtest \<Rightarrow> ''regtest'')"

record network =
  nw_name :: string
  nw_magic :: u32
  nw_port :: u16
  nw_brontide_port :: u16
  nw_dns_seeds :: "string list"
  nw_pow_bits :: u32
  nw_pow_limit_hex :: string
  nw_genesis_hash :: hash

definition mainnet :: network where
  "mainnet =
     \<lparr>nw_name = ''mainnet'', nw_magic = 1533997779, nw_port = 12038, nw_brontide_port = 44806,
      nw_dns_seeds = [''hs-mainnet.bcoin.ninja'', ''seed.htools.work''], nw_pow_bits = 0x1c00ffff,
      nw_pow_limit_hex = ''0000000000ffff00000000000000000000000000000000000000000000000000'',
      nw_genesis_hash =
        [0x5b, 0x6e, 0xf2, 0xd3, 0xc1, 0xf3, 0xcd, 0xca, 0xdf, 0xd9, 0xa0, 0x30, 0xba, 0x18, 0x11, 0xef,
         0xdd, 0x17, 0x74, 0x0f, 0x14, 0xe1, 0x66, 0x48, 0x97, 0x60, 0x74, 0x1d, 0x07, 0x59, 0x92, 0xe0]\<rparr>"

definition testnet :: network where
  "testnet =
     \<lparr>nw_name = ''testnet'', nw_magic = 2974944722, nw_port = 13038, nw_brontide_port = 45806,
      nw_dns_seeds = [''hs-testnet.bcoin.ninja''], nw_pow_bits = 0x1d00ffff,
      nw_pow_limit_hex = ''00000000ffff0000000000000000000000000000000000000000000000000000'',
      nw_genesis_hash =
        [0xb1, 0x52, 0x0d, 0xd2, 0x43, 0x72, 0xf8, 0x2e, 0xc9, 0x4e, 0xbf, 0x8c, 0xf9, 0xd9, 0xb0, 0x37,
         0xd4, 0x19, 0xc4, 0xaa, 0x35, 0x75, 0xd0, 0x5d, 0xec, 0x70, 0xae, 0xdd, 0x1b, 0x42, 0x79, 0x01]\<rparr>"

definition regtest :: network where
  "regtest =
     \<lparr>nw_name = ''regtest'', nw_magic = 2922943951, nw_port = 14038, nw_brontide_port = 46806,
      nw_dns_seeds = [], nw_pow_bits = 0x207fffff,
      nw_pow_limit_hex = ''7fffff0000000000000000000000000000000000000000000000000000000000'',
      nw_genesis_hash =
        [0xae, 0x38, 0x95, 0xcf, 0x59, 0x7e, 0xff, 0x05, 0xb1, 0x9e, 0x02, 0xa7, 0x0c, 0xee, 0xee, 0xcb,
         0x9d, 0xc7, 0x2d, 0xbf, 0xe6, 0x50, 0x4a, 0x50, 0xe9, 0x34, 0x3a, 0x72, 0xf0, 0x6a, 0x87, 0xc5]\<rparr>"

definition network_of :: "network_kind \<Rightarrow> network" where
  "network_of n = (case n of Mainnet \<Rightarrow> mainnet | Testnet \<Rightarrow> testnet | Regtest \<Rightarrow> regtest)"

section \<open>Serialisation is concatenation\<close>

definition wf_header :: "block_header \<Rightarrow> bool" where
  "wf_header h \<longleftrightarrow> length (bh_prev_block h) = 32 \<and> length (bh_tree_root h) = 32 \<and>
     length (bh_extra_nonce h) = 24 \<and> length (bh_reserved_root h) = 32 \<and>
     length (bh_witness_root h) = 32 \<and> length (bh_merkle_root h) = 32 \<and> length (bh_mask h) = 32"

lemma write_all:
  assumes "length (concat parts) + length pre \<le> length pre + length rest"
  shows "foldl write_bytes (pre @ rest, length pre) parts =
    (pre @ concat parts @ drop (length (concat parts)) rest, length pre + length (concat parts))"
  using assms
proof (induction parts arbitrary: pre rest)
  case (Cons p parts)
  have "write_bytes (pre @ rest, length pre) p = ((pre @ p) @ drop (length p) rest, length (pre @ p))"
    by (simp add: write_bytes_def)
  then show ?case using Cons.IH [of "pre @ p" "drop (length p) rest"] Cons.prems
    by (simp add: algebra_simps)
qed simp

lemma write_array:
  assumes "length (concat parts) = n"
  shows "fst (foldl write_bytes (replicate n 0, 0) parts) = concat parts"
  using write_all [of parts "[]" "replicate n 0"] assms by simp

lemma serialize_concat:
  assumes "wf_header h"
  shows "serialize h = le_bytes 4 (bh_nonce h) @ le_bytes 8 (bh_time h) @ bh_prev_block h @
    bh_tree_root h @ bh_extra_nonce h @ bh_reserved_root h @ bh_witness_root h @ bh_merkle_root h @
    le_bytes 4 (bh_version h) @ le_bytes 4 (bh_bits h) @ bh_mask h"
  unfolding serialize_def using assms
  by (subst write_array) (simp_all add: wf_header_def HEADER_SIZE_def)

lemma to_subhead_concat:
  assumes "wf_header h"
  shows "to_subhead h = bh_extra_nonce h @ bh_reserved_root h @ bh_witness_root h @ bh_merkle_root h @
    le_bytes 4 (bh_version h) @ le_bytes 4 (bh_bits h)"
  unfolding to_subhead_def using assms by (subst write_array) (simp_all add: wf_header_def)

lemma to_prehead_concat:
  assumes "wf_header h" and "\<And>x. length (H x) = 32"
  shows "to_prehead H h = le_bytes 4 (bh_nonce h) @ le_bytes 8 (bh_time h) @ padding h 20 @
    bh_prev_block h @ bh_tree_root h @ commit_hash H h"
  unfolding to_prehead_def using assms
  by (subst write_array) (simp_all add: wf_header_def padding_def commit_hash_def blake2b_256_def)

section \<open>The reader as a codec\<close>

lemma read_bytes_at:
  assumes "length data \<le> usize_max" and "data = pre @ bs @ post" and "length pre = off"
  shows "read_bytes \<lparr>rd_data = data, rd_offset = off\<rparr> (length bs) =
    Inr (bs, \<lparr>rd_data = data, rd_offset = off + length bs\<rparr>)"
  using assms by (simp add: read_bytes_def)

lemma read_array_Inr [result_inv]:
  "read_array n r = Inr (bs, r') \<longleftrightarrow>
     rd_offset r + n \<le> usize_max \<and> rd_offset r + n \<le> length (rd_data r) \<and>
     bs = take n (drop (rd_offset r) (rd_data r)) \<and> r' = r\<lparr>rd_offset := rd_offset r + n\<rparr>"
  by (auto simp: read_array_def read_bytes_def result_inv)

lemma read_u32_le_Inr [result_inv]:
  "read_u32_le r = Inr (w, r') \<longleftrightarrow>
     rd_offset r + 4 \<le> usize_max \<and> rd_offset r + 4 \<le> length (rd_data r) \<and>
     w = le_word (take 4 (drop (rd_offset r) (rd_data r))) \<and> r' = r\<lparr>rd_offset := rd_offset r + 4\<rparr>"
  by (auto simp: read_u32_le_def result_inv)

lemma read_u64_le_Inr [result_inv]:
  "read_u64_le r = Inr (w, r') \<longleftrightarrow>
     rd_offset r + 8 \<le> usize_max \<and> rd_offset r + 8 \<le> length (rd_data r) \<and>
     w = le_word (take 8 (drop (rd_offset r) (rd_data r))) \<and> r' = r\<lparr>rd_offset := rd_offset r + 8\<rparr>"
  by (auto simp: read_u64_le_def result_inv)

text \<open>What parsing accepts, field by field.\<close>

lemma block_header_parse_Inr:
  "block_header_parse d = Inr h \<longleftrightarrow> length d = 236 \<and>
     h = \<lparr>bh_nonce = le_word (take 4 d), bh_time = le_word (take 8 (drop 4 d)),
       bh_prev_block = take 32 (drop 12 d), bh_tree_root = take 32 (drop 44 d),
       bh_extra_nonce = take 24 (drop 76 d), bh_reserved_root = take 32 (drop 100 d),
       bh_witness_root = take 32 (drop 132 d), bh_merkle_root = take 32 (drop 164 d),
       bh_version = le_word (take 4 (drop 196 d)), bh_bits = le_word (take 4 (drop 200 d)),
       bh_mask = take 32 (drop 204 d)\<rparr>"
  by (auto simp: block_header_parse_def HEADER_SIZE_def EXTRA_NONCE_SIZE_def result_inv reader_new_def
      ensure_finished_def reader_remaining_def usize_max_def)

lemma join_slice: "take n (drop k d) @ drop (k + n) d = drop k d"
  by (metis add.commute append_take_drop_id drop_drop)

lemma parsed_header_wf: "block_header_parse d = Inr h \<Longrightarrow> wf_header h"
  by (auto simp: block_header_parse_Inr wf_header_def)

lemma serialize_parsed:
  assumes "block_header_parse d = Inr h"
  shows "serialize h = d"
proof -
  have len: "length d = 236" using assms by (simp add: block_header_parse_Inr)
  have w: "le_bytes 4 (le_word (take 4 (drop k d)) :: u32) = take 4 (drop k d)" if "k \<le> 232" for k
    using that len by (intro le_bytes_le_word) simp_all
  have x: "le_bytes 8 (le_word (take 8 (drop k d)) :: u64) = take 8 (drop k d)" if "k \<le> 228" for k
    using that len by (intro le_bytes_le_word) simp_all
  note j = join_slice [of 4 200 d] join_slice [of 4 196 d] join_slice [of 32 164 d] join_slice [of 32 132 d]
    join_slice [of 32 100 d] join_slice [of 24 76 d] join_slice [of 32 44 d] join_slice [of 32 12 d]
    join_slice [of 8 4 d] join_slice [of 4 0 d]
  have "take 32 (drop 204 d) = drop 204 d" using len by simp
  moreover have "le_bytes 4 (le_word (take 4 d) :: u32) = take 4 d" using w [of 0] by simp
  ultimately show ?thesis
    unfolding serialize_concat [OF parsed_header_wf [OF assms]]
    using assms j by (simp add: block_header_parse_Inr w x)
qed

section \<open>Binding\<close>

lemma padding_length [simp]: "length (padding h n) = n"
  by (simp add: padding_def)

definition header_inputs :: "digest \<Rightarrow> digest \<Rightarrow> digest \<Rightarrow> block_header \<Rightarrow> bytes set" where
  "header_inputs H H64 S h = {to_subhead h, bh_prev_block h @ bh_mask h, sub_hash H h @ mask_hash H h,
     H64 (to_prehead H h) @ padding h 32 @ S (to_prehead H h @ padding h 8)}"

text \<open>A header's share hash determines the header when the digests have no collision on its inputs.\<close>

lemma share_hash_binds:
  assumes wf: "wf_header h" "wf_header h'" and len: "\<And>x. length (H x) = 32" "\<And>x. length (H64 x) = 64"
    and inj: "inj_on H (header_inputs H H64 S h \<union> header_inputs H H64 S h')"
      "inj_on H64 {to_prehead H h, to_prehead H h'}"
    and eq: "share_hash H H64 S h = share_hash H H64 S h'"
  shows "h = h'"
proof -
  note d = blake2b_256_def blake2b_512_def sha3_256_def
  have "H64 (to_prehead H h) @ padding h 32 @ S (to_prehead H h @ padding h 8) =
      H64 (to_prehead H h') @ padding h' 32 @ S (to_prehead H h' @ padding h' 8)"
    by (rule inj_onD [OF inj(1)]) (use eq in \<open>simp_all add: share_hash_def d Let_def header_inputs_def\<close>)
  then have "to_prehead H h = to_prehead H h'" using inj(2) len by (auto dest: inj_onD)
  then have pre: "le_bytes 4 (bh_nonce h) = le_bytes 4 (bh_nonce h')" "le_bytes 8 (bh_time h) = le_bytes 8 (bh_time h')"
      "bh_prev_block h = bh_prev_block h'" "bh_tree_root h = bh_tree_root h'" "commit_hash H h = commit_hash H h'"
    using wf by (simp_all add: to_prehead_concat [OF _ len(1)] wf_header_def)
  have "sub_hash H h @ mask_hash H h = sub_hash H h' @ mask_hash H h'"
    using inj_onD [OF inj(1), of "sub_hash H h @ mask_hash H h" "sub_hash H h' @ mask_hash H h'"] pre(5)
    by (simp add: commit_hash_def d header_inputs_def)
  then have c: "H (to_subhead h) = H (to_subhead h')" "H (bh_prev_block h @ bh_mask h) = H (bh_prev_block h' @ bh_mask h')"
    using len by (simp_all add: sub_hash_def mask_hash_def d)
  have "to_subhead h = to_subhead h'" "bh_prev_block h @ bh_mask h = bh_prev_block h' @ bh_mask h'"
    using c by (auto intro!: inj_onD [OF inj(1)] simp: header_inputs_def)
  then have "bh_extra_nonce h = bh_extra_nonce h'" "bh_reserved_root h = bh_reserved_root h'"
      "bh_witness_root h = bh_witness_root h'" "bh_merkle_root h = bh_merkle_root h'"
      "le_bytes 4 (bh_version h) = le_bytes 4 (bh_version h')" "le_bytes 4 (bh_bits h) = le_bytes 4 (bh_bits h')"
      "bh_mask h = bh_mask h'"
    using wf pre(3) by (simp_all add: to_subhead_concat wf_header_def)
  moreover have "bh_nonce h = bh_nonce h'" "bh_time h = bh_time h'"
      "bh_version h = bh_version h'" "bh_bits h = bh_bits h'"
    using pre(1,2) calculation(5,6) le_word_widths by metis+
  ultimately show ?thesis using pre(3,4) by simp
qed

section \<open>Properties\<close>

text \<open>Headers and 236-byte strings correspond one to one: serialising a header whose arrays have their
  sizes and parsing the result gives the header back, and whatever the parser accepts is 236 bytes that
  the parsed header serialises to.\<close>

lemma header_roundtrip:
  "(wf_header h \<longrightarrow> block_header_parse (serialize h) = Inr h) \<and>
   (block_header_parse d = Inr h \<longrightarrow> wf_header h \<and> length d = HEADER_SIZE \<and> serialize h = d)"
proof (intro conjI impI)
  assume wf: "wf_header h"
  show "block_header_parse (serialize h) = Inr h"
    unfolding block_header_parse_Inr serialize_concat [OF wf] using wf by (simp add: wf_header_def)
next
  assume "block_header_parse d = Inr h"
  then show "wf_header h" "length d = HEADER_SIZE" "serialize h = d"
    by (simp_all add: parsed_header_wf serialize_parsed) (simp add: block_header_parse_Inr HEADER_SIZE_def)
qed

lemma genesis_wf: "wf_header mainnet_genesis"
  by (simp add: wf_header_def mainnet_genesis_def hash_zero_def EXTRA_NONCE_SIZE_def
      genesis_witness_root_def genesis_merkle_root_def)

lemma header_roundtrip_witness: "block_header_parse (serialize mainnet_genesis) = Inr mainnet_genesis"
  using header_roundtrip [of mainnet_genesis] genesis_wf by blast

text \<open>The share hash commits to every field of the header: two headers with the same share hash are
  equal, if the 32-byte and 64-byte BLAKE2b digests have no collision on the inputs hashed for the two
  headers.\<close>

lemma share_hash_commits:
  assumes "wf_header h" and "wf_header h'" and "\<forall>x. length (H x) = 32" and "\<forall>x. length (H64 x) = 64"
    and "inj_on H (header_inputs H H64 S h \<union> header_inputs H H64 S h')"
    and "inj_on H64 {to_prehead H h, to_prehead H h'}"
    and "share_hash H H64 S h = share_hash H H64 S h'"
  shows "h = h'"
  using share_hash_binds [of h h' H H64 S] assms by blast

definition toy_digest :: digest where
  "toy_digest x = [of_nat (length x), if x = [] then 0 else hd x] @ replicate 30 7"

lemma share_hash_commits_witness:
  "\<exists>h. block_header_parse (serialize mainnet_genesis) = Inr h \<and> h = mainnet_genesis"
proof (intro exI conjI)
  show "block_header_parse (serialize mainnet_genesis) = Inr mainnet_genesis"
    unfolding block_header_parse_Inr serialize_concat [OF genesis_wf]
    using genesis_wf by (simp add: wf_header_def)
  show "mainnet_genesis = mainnet_genesis"
  proof (rule share_hash_commits [OF genesis_wf genesis_wf, of toy_digest "\<lambda>_. replicate 64 5" "\<lambda>_. replicate 32 0"])
    have sub: "length (to_subhead mainnet_genesis) = 128" "hd (to_subhead mainnet_genesis) = 0"
        "to_subhead mainnet_genesis \<noteq> []"
      unfolding to_subhead_concat [OF genesis_wf]
      by (simp_all add: mainnet_genesis_def EXTRA_NONCE_SIZE_def hash_zero_def genesis_witness_root_def
          genesis_merkle_root_def numeral_eq_Suc)
    have mask: "bh_prev_block mainnet_genesis @ bh_mask mainnet_genesis = replicate 64 0"
      by (simp add: mainnet_genesis_def hash_zero_def flip: replicate_add)
    have hashes: "sub_hash toy_digest mainnet_genesis @ mask_hash toy_digest mainnet_genesis =
        128 # 0 # replicate 30 7 @ [64, 0] @ replicate 30 7"
      using sub mask by (simp add: sub_hash_def mask_hash_def blake2b_256_def toy_digest_def)
    show "inj_on toy_digest (header_inputs toy_digest (\<lambda>_. replicate 64 5) (\<lambda>_. replicate 32 0) mainnet_genesis \<union>
        header_inputs toy_digest (\<lambda>_. replicate 64 5) (\<lambda>_. replicate 32 0) mainnet_genesis)"
      unfolding header_inputs_def Un_absorb mask hashes
      using sub by (auto simp: inj_on_def toy_digest_def)
  qed (simp_all add: toy_digest_def)
qed

text \<open>The proof-of-work hash is the share hash under the mask: it has 32 bytes and masking it again
  gives the share hash back.\<close>

lemma pow_hash_unmask:
  assumes "wf_header h" and "\<forall>x. length (H x) = 32"
  shows "length (pow_hash H H64 S h) = 32 \<and>
    map (\<lambda>(byte, mask). byte XOR mask) (zip (pow_hash H H64 S h) (bh_mask h)) = share_hash H H64 S h"
proof -
  have "length (share_hash H H64 S h) = 32" using assms(2) by (simp add: share_hash_def blake2b_256_def Let_def)
  with assms(1) show ?thesis
    by (auto simp: pow_hash_def wf_header_def xor.assoc intro!: nth_equalityI)
qed

definition hex_digit :: "char \<Rightarrow> nat" where
  "hex_digit c = (let n = of_char c in if n < 58 then n - 48 else n - 87)"

definition hex_value :: "string \<Rightarrow> nat" where
  "hex_value s = foldl (\<lambda>n c. 16 * n + hex_digit c) 0 s"

text \<open>The network constants are consistent: on every network the compact proof-of-work limit decodes
  to the number its hexadecimal limit denotes, and the genesis header carries that limit and the
  network's own name.\<close>

lemma network_constants_consistent:
  "compact_to_target (nw_pow_bits (network_of n)) = Inr (hex_value (nw_pow_limit_hex (network_of n))) \<and>
   bh_bits (genesis_for_network n) = nw_pow_bits (network_of n) \<and>
   wf_header (genesis_for_network n) \<and> nw_name (network_of n) = network_as_str n"
  by (cases n)
    (simp_all add: network_of_def mainnet_def testnet_def regtest_def genesis_for_network_def
      mainnet_genesis_def testnet_genesis_def regtest_genesis_def genesis_template_def network_as_str_def
      compact_to_target_eq expand_def exponent_of_def mantissa_of_def hex_value_def hex_digit_def wf_header_def
      hash_zero_def EXTRA_NONCE_SIZE_def genesis_witness_root_def genesis_merkle_root_def)

end
