(* ===== verification/Net_Policy.thy ===== *)
theory Net_Policy
  imports Ip_Addr Dns_Name Hash
begin

unbundle bit_operations_syntax

text \<open>
  The network policy of the browser transports (src/crates/hns-browser-primitives/src/network_policy.rs):
  which addresses an untrusted endpoint may have, which hosts are special-use names and which ports are
  blocked.  A host is its sequence of UTF-8 bytes.  The address checks are written with patterns and masks
  in the code; here they are compared with a list of CIDR blocks, from which they differ in one documentation
  block only.
\<close>

definition BROWSER_SPECIAL_USE_SUFFIXES :: "string list" where
  "BROWSER_SPECIAL_USE_SUFFIXES =
     [''alt'', ''arpa'', ''example'', ''internal'', ''invalid'', ''local'', ''localhost'', ''onion'', ''test'']"

definition browser_special_use_suffixes :: "string list" where
  "browser_special_use_suffixes = BROWSER_SPECIAL_USE_SUFFIXES"

text \<open>The pieces of the standard library: \<open>strip_suffix('.')\<close>, the first item of \<open>rsplit('.')\<close> (the part
  after the last dot; always present) and \<open>eq_ignore_ascii_case\<close>.\<close>

definition strip_suffix_dot :: "bytes \<Rightarrow> bytes option" where
  "strip_suffix_dot s = (if s \<noteq> [] \<and> last s = 46 then Some (butlast s) else None)"

definition rsplit_dot_next :: "bytes \<Rightarrow> bytes option" where
  "rsplit_dot_next s = Some (rev (takeWhile (\<lambda>b. b \<noteq> 46) (rev s)))"

definition eq_ignore_ascii_case :: "bytes \<Rightarrow> bytes \<Rightarrow> bool" where
  "eq_ignore_ascii_case a b \<longleftrightarrow> map to_ascii_lowercase a = map to_ascii_lowercase b"

definition is_browser_special_use_host :: "bytes \<Rightarrow> bool" where
  "is_browser_special_use_host host0 =
     (let host = (case strip_suffix_dot host0 of Some h \<Rightarrow> h | None \<Rightarrow> host0)
      in case rsplit_dot_next host of
           None \<Rightarrow> False
         | Some suffix \<Rightarrow>
             list_ex (\<lambda>candidate. eq_ignore_ascii_case suffix (ascii candidate)) BROWSER_SPECIAL_USE_SUFFIXES)"

fun is_public_ipv4 :: "ipv4_addr \<Rightarrow> bool" where
  "is_public_ipv4 (Ipv4Addr a b c d) =
     (\<not> (a = 0
       \<or> a = 10
       \<or> a = 100 \<and> 64 \<le> b \<and> b \<le> 127
       \<or> a = 127
       \<or> a = 169 \<and> b = 254
       \<or> a = 172 \<and> 16 \<le> b \<and> b \<le> 31
       \<or> a = 192 \<and> b = 0 \<and> c = 0
       \<or> a = 192 \<and> b = 0 \<and> c = 2
       \<or> a = 192 \<and> b = 88 \<and> c = 99
       \<or> a = 192 \<and> b = 168
       \<or> a = 198 \<and> 18 \<le> b \<and> b \<le> 19
       \<or> a = 198 \<and> b = 51 \<and> c = 100
       \<or> a = 203 \<and> b = 0 \<and> c = 113
       \<or> 224 \<le> a \<and> a \<le> 255))"

text \<open>\<open>Ipv6Addr::to_ipv4_mapped\<close>: the addresses ::ffff:a.b.c.d.\<close>

fun to_ipv4_mapped :: "ipv6_addr \<Rightarrow> ipv4_addr option" where
  "to_ipv4_mapped (Ipv6Addr s0 s1 s2 s3 s4 s5 s6 s7) =
     (if s0 = 0 \<and> s1 = 0 \<and> s2 = 0 \<and> s3 = 0 \<and> s4 = 0 \<and> s5 = 0xffff
      then Some (Ipv4Addr (ucast (drop_bit 8 s6)) (ucast s6) (ucast (drop_bit 8 s7)) (ucast s7))
      else None)"

definition is_public_ipv6 :: "ipv6_addr \<Rightarrow> bool" where
  "is_public_ipv6 address =
     (case to_ipv4_mapped address of
        Some mapped \<Rightarrow> is_public_ipv4 mapped
      | None \<Rightarrow>
          let segments = v6_segments address in
          if take 6 segments = [0x0064, 0xff9b, 0, 0, 0, 0] then
            is_public_ipv4 (Ipv4Addr (ucast (drop_bit 8 (segments ! 6))) (ucast (segments ! 6))
                                     (ucast (drop_bit 8 (segments ! 7))) (ucast (segments ! 7)))
          else if segments ! 0 AND 0xe000 \<noteq> 0x2000 then False
          else
            \<not> (segments ! 0 = 0x2001 \<and> segments ! 1 = 0x0000
              \<or> take 3 segments = [0x2001, 0x0002, 0]
              \<or> segments ! 0 = 0x2001 \<and> segments ! 1 AND 0xfff0 = 0x0010
              \<or> segments ! 0 = 0x2001 \<and> segments ! 1 AND 0xfff0 = 0x0020
              \<or> take 2 segments = [0x2001, 0x0db8]
              \<or> segments ! 0 = 0x2002
              \<or> segments ! 0 AND 0xfff0 = 0x3ff0))"

definition is_publicly_routable :: "ip_addr \<Rightarrow> bool" where
  "is_publicly_routable address =
     (case address of V4 a \<Rightarrow> is_public_ipv4 a | V6 a \<Rightarrow> is_public_ipv6 a)"

definition is_browser_blocked_port :: "u16 \<Rightarrow> bool" where
  "is_browser_blocked_port port \<longleftrightarrow>
     port \<in> set [0, 1, 7, 9, 11, 13, 15, 17, 19, 20, 21, 22, 23, 25, 37, 42, 43, 53, 69, 77, 79, 87, 95, 101,
       102, 103, 104, 109, 110, 111, 113, 115, 117, 119, 123, 135, 137, 139, 143, 161, 179, 389, 427, 465,
       512, 513, 514, 515, 526, 530, 531, 532, 540, 548, 554, 556, 563, 587, 601, 636, 989, 990, 993, 995,
       1719, 1720, 1723, 2049, 3659, 4045, 4190, 5060, 5061, 6000, 6566] \<or>
     6665 \<le> port \<and> port \<le> 6669 \<or> port = 6679 \<or> port = 6697 \<or> port = 10080"

section \<open>Addresses as numbers and CIDR blocks\<close>

fun v4_num :: "ipv4_addr \<Rightarrow> nat" where
  "v4_num (Ipv4Addr a b c d) = ((unat a * 256 + unat b) * 256 + unat c) * 256 + unat d"

fun v6_num :: "ipv6_addr \<Rightarrow> nat" where
  "v6_num (Ipv6Addr a b c d e f g h) =
     ((((((unat a * 65536 + unat b) * 65536 + unat c) * 65536 + unat d) * 65536 + unat e) * 65536 + unat f)
       * 65536 + unat g) * 65536 + unat h"

text \<open>\<open>base/len\<close> holds the addresses of \<open>width\<close> bits that share their first \<open>len\<close> bits with \<open>base\<close>.\<close>

definition in_cidr :: "nat \<Rightarrow> nat \<Rightarrow> nat \<times> nat \<Rightarrow> bool" where
  "in_cidr width n block =
     (case block of (base, len) \<Rightarrow> n div 2 ^ (width - len) = base div 2 ^ (width - len))"

definition ipv4_blocks :: "(nat \<times> nat) list" where
  "ipv4_blocks =
     [(v4_num (Ipv4Addr 0 0 0 0), 8), (v4_num (Ipv4Addr 10 0 0 0), 8), (v4_num (Ipv4Addr 100 64 0 0), 10),
      (v4_num (Ipv4Addr 127 0 0 0), 8), (v4_num (Ipv4Addr 169 254 0 0), 16),
      (v4_num (Ipv4Addr 172 16 0 0), 12), (v4_num (Ipv4Addr 192 0 0 0), 24),
      (v4_num (Ipv4Addr 192 0 2 0), 24), (v4_num (Ipv4Addr 192 88 99 0), 24),
      (v4_num (Ipv4Addr 192 168 0 0), 16), (v4_num (Ipv4Addr 198 18 0 0), 15),
      (v4_num (Ipv4Addr 198 51 100 0), 24), (v4_num (Ipv4Addr 203 0 113 0), 24),
      (v4_num (Ipv4Addr 224 0 0 0), 3)]"

text \<open>The excluded blocks as the comments of the code give them; the last one is the documentation block 3fff::/20.\<close>

definition ipv6_blocks :: "(nat \<times> nat) list" where
  "ipv6_blocks =
     [(v6_num (Ipv6Addr 0x2001 0 0 0 0 0 0 0), 32), (v6_num (Ipv6Addr 0x2001 2 0 0 0 0 0 0), 48),
      (v6_num (Ipv6Addr 0x2001 0x10 0 0 0 0 0 0), 28), (v6_num (Ipv6Addr 0x2001 0x20 0 0 0 0 0 0), 28),
      (v6_num (Ipv6Addr 0x2001 0xdb8 0 0 0 0 0 0), 32), (v6_num (Ipv6Addr 0x2002 0 0 0 0 0 0 0), 16),
      (v6_num (Ipv6Addr 0x3fff 0 0 0 0 0 0 0), 20)]"

text \<open>What the mask of the code refuses in place of the documentation block.\<close>

definition ipv6_masked_block :: "nat \<times> nat" where
  "ipv6_masked_block = (v6_num (Ipv6Addr 0x3ff0 0 0 0 0 0 0 0), 12)"

definition ipv4_mapped_block :: "nat \<times> nat" where
  "ipv4_mapped_block = (v6_num (Ipv6Addr 0 0 0 0 0 0xffff 0 0), 96)"

definition nat64_block :: "nat \<times> nat" where
  "nat64_block = (v6_num (Ipv6Addr 0x64 0xff9b 0 0 0 0 0 0), 96)"

definition global_unicast_block :: "nat \<times> nat" where
  "global_unicast_block = (v6_num (Ipv6Addr 0x2000 0 0 0 0 0 0 0), 3)"

definition v4_public_num :: "nat \<Rightarrow> bool" where
  "v4_public_num n \<longleftrightarrow> list_all (\<lambda>b. \<not> in_cidr 32 n b) ipv4_blocks"


lemma div_digit: "d < m \<Longrightarrow> (x * m + d) div (m * k) = x div (k :: nat)"
  by (simp add: div_mult2_eq)

lemma u8_bound: "unat (w :: u8) < 256"
  using unsigned_less [where 'a = nat, of w] by simp

lemma u16_bound: "unat (w :: u16) < 65536"
  using unsigned_less [where 'a = nat, of w] by simp

lemma v4_base:
  "v4_num (Ipv4Addr 0 0 0 0) = 0" "v4_num (Ipv4Addr 10 0 0 0) = 10 * 16777216"
  "v4_num (Ipv4Addr 100 64 0 0) = 401 * 4194304" "v4_num (Ipv4Addr 127 0 0 0) = 127 * 16777216"
  "v4_num (Ipv4Addr 169 254 0 0) = 43518 * 65536" "v4_num (Ipv4Addr 172 16 0 0) = 2753 * 1048576"
  "v4_num (Ipv4Addr 192 0 0 0) = 12582912 * 256" "v4_num (Ipv4Addr 192 0 2 0) = 12582914 * 256"
  "v4_num (Ipv4Addr 192 88 99 0) = 12605539 * 256" "v4_num (Ipv4Addr 192 168 0 0) = 49320 * 65536"
  "v4_num (Ipv4Addr 198 18 0 0) = 25353 * 131072" "v4_num (Ipv4Addr 198 51 100 0) = 12989284 * 256"
  "v4_num (Ipv4Addr 203 0 113 0) = 13303921 * 256" "v4_num (Ipv4Addr 224 0 0 0) = 7 * 536870912"
  by simp_all

lemma v4_num_div:
  assumes "n = ((A * 256 + B) * 256 + C) * 256 + D" and "B < 256" and "C < 256" and "D < (256 :: nat)"
  shows "n div 256 = (A * 256 + B) * 256 + C" "n div 65536 = A * 256 + B" "n div 16777216 = A"
    "n div 131072 = A * 128 + B div 2" "n div 1048576 = A * 16 + B div 16"
    "n div 4194304 = A * 4 + B div 64" "n div 536870912 = A div 32"
proof -
  have d: "n div (256 * k) = ((A * 256 + B) * 256 + C) div k" for k
    unfolding assms(1) by (rule div_digit [OF assms(4)])
  have c: "n div (65536 * k) = (A * 256 + B) div k" for k
    using d [of "256 * k"] div_digit [OF assms(3), of "A * 256 + B" k] by (simp add: mult.assoc [symmetric])
  have b: "n div (16777216 * k) = A div k" for k
    using c [of "256 * k"] div_digit [OF assms(2), of A k] by (simp add: mult.assoc [symmetric])
  show "n div 256 = (A * 256 + B) * 256 + C" "n div 65536 = A * 256 + B" "n div 16777216 = A"
    "n div 536870912 = A div 32"
    using d [of 1] c [of 1] b [of 1] b [of 32] by simp_all
  show "n div 131072 = A * 128 + B div 2" "n div 1048576 = A * 16 + B div 16"
    "n div 4194304 = A * 4 + B div 64"
    using c [of 2] c [of 16] c [of 64] by simp_all
qed

lemma digit_eq: "y < q \<Longrightarrow> j < q \<Longrightarrow> A * q + y = X * q + j \<longleftrightarrow> A = X \<and> y = (j :: nat)"
  by (metis add.commute add_diff_cancel_right' div_less div_mult_self1 mod_less mod_mult_self1
      add_cancel_right_left less_nat_zero_code)

lemma ipv4_pattern:
  assumes "B < (256 :: nat)"
  shows "(A :: nat) * 4 + B div 64 = 401 \<longleftrightarrow> A = 100 \<and> 64 \<le> B \<and> B \<le> 127"
    "A * 16 + B div 16 = 2753 \<longleftrightarrow> A = 172 \<and> 16 \<le> B \<and> B \<le> 31"
    "A * 128 + B div 2 = 25353 \<longleftrightarrow> A = 198 \<and> 18 \<le> B \<and> B \<le> 19"
    "A * 256 + B = 43518 \<longleftrightarrow> A = 169 \<and> B = 254"
    "A * 256 + B = 49320 \<longleftrightarrow> A = 192 \<and> B = 168"
proof -
  show "A * 4 + B div 64 = 401 \<longleftrightarrow> A = 100 \<and> 64 \<le> B \<and> B \<le> 127"
    using digit_eq [of "B div 64" 4 1 A 100] assms by (auto simp: less_mult_imp_div_less)
  show "A * 16 + B div 16 = 2753 \<longleftrightarrow> A = 172 \<and> 16 \<le> B \<and> B \<le> 31"
    using digit_eq [of "B div 16" 16 1 A 172] assms by (auto simp: less_mult_imp_div_less)
  show "A * 128 + B div 2 = 25353 \<longleftrightarrow> A = 198 \<and> 18 \<le> B \<and> B \<le> 19"
    using digit_eq [of "B div 2" 128 9 A 198] assms by (auto simp: less_mult_imp_div_less)
  show "A * 256 + B = 43518 \<longleftrightarrow> A = 169 \<and> B = 254" "A * 256 + B = 49320 \<longleftrightarrow> A = 192 \<and> B = 168"
    using digit_eq [of B 256 254 A 169] digit_eq [of B 256 168 A 192] assms by simp_all
qed

lemma ipv4_pattern3:
  assumes "B < 256" and "C < (256 :: nat)" and "Y < 256" and "Z < 256"
  shows "(A * 256 + B) * 256 + C = (X * 256 + Y) * 256 + Z \<longleftrightarrow> A = X \<and> B = Y \<and> C = Z"
  using digit_eq [of C 256 Z "A * 256 + B" "X * 256 + Y"] digit_eq [of B 256 Y A X] assms by simp

lemma is_public_ipv4_num: "is_public_ipv4 a = v4_public_num (v4_num a)"
proof (cases a)
  case (Ipv4Addr a b c d)
  have n: "v4_num (Ipv4Addr a b c d) = ((unat a * 256 + unat b) * 256 + unat c) * 256 + unat d" by simp
  note div = v4_num_div [OF n u8_bound u8_bound u8_bound]
  note pat = ipv4_pattern [OF u8_bound, of "unat a" b]
    ipv4_pattern3 [OF u8_bound u8_bound, of 0 0 "unat a" b c 192, simplified]
    ipv4_pattern3 [OF u8_bound u8_bound, of 0 2 "unat a" b c 192, simplified]
    ipv4_pattern3 [OF u8_bound u8_bound, of 88 99 "unat a" b c 192, simplified]
    ipv4_pattern3 [OF u8_bound u8_bound, of 51 100 "unat a" b c 198, simplified]
    ipv4_pattern3 [OF u8_bound u8_bound, of 0 113 "unat a" b c 203, simplified]
  have "unat a div 32 = 7 \<longleftrightarrow> 224 \<le> unat a" using u8_bound [of a] by auto
  then show ?thesis
    unfolding Ipv4Addr v4_public_num_def ipv4_blocks_def in_cidr_def
    using u8_bound [of a] by (simp add: div pat word_le_nat_alt word_unat_eq_iff v4_base del: v4_num.simps)
qed

lemma u16_bit: "bit (s :: u16) n \<Longrightarrow> n < 16"
  using bit_imp_le_length [of s n] by simp

lemma high_mask:
  assumes "m = NOT (mask k)" and "v = push_bit k j" and "drop_bit k v = j"
  shows "(s :: u16) AND m = v \<longleftrightarrow> drop_bit k s = j"
proof
  have "s AND m = push_bit k (drop_bit k s)"
    unfolding assms(1) by (auto intro!: bit_eqI simp: bit_simps)
  moreover assume "drop_bit k s = j"
  ultimately show "s AND m = v" using assms(2) by simp
next
  assume "s AND m = v"
  then have "drop_bit k (s AND m) = j" using assms(3) by simp
  moreover have "drop_bit k (s AND m) = drop_bit k s"
    unfolding assms(1) by (auto intro!: bit_eqI simp: bit_simps dest: u16_bit)
  ultimately show "drop_bit k s = j" by simp
qed

lemma high_bits:
  "(s :: u16) AND 0xe000 = 0x2000 \<longleftrightarrow> unat s div 8192 = 1"
  "s AND 0xfff0 = 0x10 \<longleftrightarrow> unat s div 16 = 1"
  "s AND 0xfff0 = 0x20 \<longleftrightarrow> unat s div 16 = 2"
  "s AND 0xfff0 = 0x3ff0 \<longleftrightarrow> unat s div 16 = 0x3ff"
proof -
  have d: "drop_bit k s = j \<longleftrightarrow> unat s div 2 ^ k = unat j" for k and j :: u16
    unfolding word_unat_eq_iff unsigned_drop_bit_eq using u16_bound [of s] by (simp add: drop_bit_eq_div take_bit_nat_eq_self)
  show  "(s :: u16) AND 0xe000 = 0x2000 \<longleftrightarrow> unat s div 8192 = 1"
    by (subst high_mask [where k = 13 and j = 1]) (simp_all add: d mask_eq_exp_minus_1)
  show "s AND 0xfff0 = 0x10 \<longleftrightarrow> unat s div 16 = 1"
  by (subst high_mask [where k = 4 and j = 1]) (simp_all add: d mask_eq_exp_minus_1)
  show  "s AND 0xfff0 = 0x20 \<longleftrightarrow> unat s div 16 = 2"
  by (subst high_mask [where k = 4 and j = 2]) (simp_all add: d mask_eq_exp_minus_1)
  show "s AND 0xfff0 = 0x3ff0 \<longleftrightarrow> unat s div 16 = 0x3ff"
  by (subst high_mask [where k = 4 and j = "0x3ff"]) (simp_all add: d mask_eq_exp_minus_1)
qed

lemma v6_num_div:
  "v6_num (Ipv6Addr a b c d e f g h) div 2 ^ 32 =
     ((((unat a * 65536 + unat b) * 65536 + unat c) * 65536 + unat d) * 65536 + unat e) * 65536 + unat f"
  "v6_num (Ipv6Addr a b c d e f g h) div 2 ^ 80 = (unat a * 65536 + unat b) * 65536 + unat c"
  "v6_num (Ipv6Addr a b c d e f g h) div 2 ^ 96 = unat a * 65536 + unat b"
  "v6_num (Ipv6Addr a b c d e f g h) div 2 ^ 100 = unat a * 4096 + unat b div 16"
  "v6_num (Ipv6Addr a b c d e f g h) div 2 ^ 108 = unat a * 16 + unat b div 4096"
  "v6_num (Ipv6Addr a b c d e f g h) div 2 ^ 112 = unat a"
  "v6_num (Ipv6Addr a b c d e f g h) div 2 ^ 116 = unat a div 16"
  "v6_num (Ipv6Addr a b c d e f g h) div 2 ^ 125 = unat a div 8192"
proof -
  let ?n = "v6_num (Ipv6Addr a b c d e f g h)"
  have step: "(x * 65536 + unat w) div (2 ^ 16 * k) = x div k" for x k and w :: u16
    using div_digit [OF u16_bound, of x w k] by simp
  have f: "?n div (2 ^ 16 * (2 ^ 16 * k)) =
      (((((unat a * 65536 + unat b) * 65536 + unat c) * 65536 + unat d) * 65536 + unat e) * 65536 + unat f) div k" for k
    unfolding v6_num.simps step ..
  have c: "?n div (2 ^ 16 * (2 ^ 16 * (2 ^ 16 * (2 ^ 16 * (2 ^ 16 * k))))) =
      ((unat a * 65536 + unat b) * 65536 + unat c) div k" for k
    unfolding f step ..
  have b: "?n div (2 ^ 16 * (2 ^ 16 * (2 ^ 16 * (2 ^ 16 * (2 ^ 16 * (2 ^ 16 * k)))))) =
      (unat a * 65536 + unat b) div k" for k
    unfolding c step ..
  have a: "?n div (2 ^ 16 * (2 ^ 16 * (2 ^ 16 * (2 ^ 16 * (2 ^ 16 * (2 ^ 16 * (2 ^ 16 * k))))))) = unat a div k" for k
    unfolding b step ..
  show "?n div 2 ^ 32 = ((((unat a * 65536 + unat b) * 65536 + unat c) * 65536 + unat d) * 65536 + unat e) * 65536 + unat f"
    using f [of 1] by (simp del: v6_num.simps)
  show "?n div 2 ^ 80 = (unat a * 65536 + unat b) * 65536 + unat c"
    using c [of 1] by (simp del: v6_num.simps)
  show "?n div 2 ^ 96 = unat a * 65536 + unat b" "?n div 2 ^ 100 = unat a * 4096 + unat b div 16"
    "?n div 2 ^ 108 = unat a * 16 + unat b div 4096"
    using b [of 1] b [of 16] b [of 4096] by (simp_all del: v6_num.simps)
  show "?n div 2 ^ 112 = unat a" "?n div 2 ^ 116 = unat a div 16" "?n div 2 ^ 125 = unat a div 8192"
    using a [of 1] a [of 16] a [of 8192] by (simp_all del: v6_num.simps)
qed

lemma digit16_eq: "A * 65536 + unat (w :: u16) = X * 65536 + unat (v :: u16) \<longleftrightarrow> A = X \<and> w = v"
  using digit_eq [OF u16_bound u16_bound, of A w X v] by (simp add: word_unat_eq_iff)

lemma v6_prefix:
  "in_cidr 128 (v6_num (Ipv6Addr a b c d e f g h)) (v6_num (Ipv6Addr a' b' c' d' e' f' g' h'), 96) \<longleftrightarrow>
     [a, b, c, d, e, f] = [a', b', c', d', e', f']"
  "in_cidr 128 (v6_num (Ipv6Addr a b c d e f g h)) (v6_num (Ipv6Addr a' b' c' d' e' f' g' h'), 48) \<longleftrightarrow>
     [a, b, c] = [a', b', c']"
  "in_cidr 128 (v6_num (Ipv6Addr a b c d e f g h)) (v6_num (Ipv6Addr a' b' c' d' e' f' g' h'), 32) \<longleftrightarrow>
     [a, b] = [a', b']"
  "in_cidr 128 (v6_num (Ipv6Addr a b c d e f g h)) (v6_num (Ipv6Addr a' b' c' d' e' f' g' h'), 16) \<longleftrightarrow>
     a = a'"
  "in_cidr 128 (v6_num (Ipv6Addr a b c d e f g h)) (v6_num (Ipv6Addr a' b' c' d' e' f' g' h'), 28) \<longleftrightarrow>
     a = a' \<and> unat b div 16 = unat b' div 16"
  "in_cidr 128 (v6_num (Ipv6Addr a b c d e f g h)) (v6_num (Ipv6Addr a' b' c' d' e' f' g' h'), 20) \<longleftrightarrow>
     a = a' \<and> unat b div 4096 = unat b' div 4096"
  "in_cidr 128 (v6_num (Ipv6Addr a b c d e f g h)) (v6_num (Ipv6Addr a' b' c' d' e' f' g' h'), 12) \<longleftrightarrow>
     unat a div 16 = unat a' div 16"
  "in_cidr 128 (v6_num (Ipv6Addr a b c d e f g h)) (v6_num (Ipv6Addr a' b' c' d' e' f' g' h'), 3) \<longleftrightarrow>
     unat a div 8192 = unat a' div 8192"
proof -
  let ?p = "v6_num (Ipv6Addr a b c d e f g h)" and ?q = "v6_num (Ipv6Addr a' b' c' d' e' f' g' h')"
  have e: "in_cidr 128 ?p (?q, l) \<longleftrightarrow> ?p div 2 ^ (128 - l) = ?q div 2 ^ (128 - l)" for l
    by (simp only: in_cidr_def prod.case)
  have s: "128 - 96 = (32::nat)" "128 - 48 = (80::nat)" "128 - 32 = (96::nat)" "128 - 16 = (112::nat)"
    "128 - 28 = (100::nat)" "128 - 20 = (108::nat)" "128 - 12 = (116::nat)" "128 - 3 = (125::nat)" by simp_all
  have u: "unat x = unat y \<longleftrightarrow> x = y" for x y :: u16 by (simp add: word_unat_eq_iff)
  show "in_cidr 128 ?p (?q, 96) \<longleftrightarrow> [a, b, c, d, e, f] = [a', b', c', d', e', f']"
    unfolding e s v6_num_div digit16_eq u by auto
  show "in_cidr 128 ?p (?q, 48) \<longleftrightarrow> [a, b, c] = [a', b', c']"
    unfolding e s v6_num_div digit16_eq u by auto
  show "in_cidr 128 ?p (?q, 32) \<longleftrightarrow> [a, b] = [a', b']"
    unfolding e s v6_num_div digit16_eq u by auto
  show "in_cidr 128 ?p (?q, 28) \<longleftrightarrow> a = a' \<and> unat b div 16 = unat b' div 16"
    unfolding e s v6_num_div
    by (subst digit_eq) (use u16_bound [of b] u16_bound [of b'] in \<open>simp_all add: u less_mult_imp_div_less\<close>)
  show "in_cidr 128 ?p (?q, 20) \<longleftrightarrow> a = a' \<and> unat b div 4096 = unat b' div 4096"
    unfolding e s v6_num_div
    by (subst digit_eq) (use u16_bound [of b] u16_bound [of b'] in \<open>simp_all add: u less_mult_imp_div_less\<close>)
  show "in_cidr 128 ?p (?q, 16) \<longleftrightarrow> a = a'" "in_cidr 128 ?p (?q, 12) \<longleftrightarrow> unat a div 16 = unat a' div 16"
    "in_cidr 128 ?p (?q, 3) \<longleftrightarrow> unat a div 8192 = unat a' div 8192"
    unfolding e s v6_num_div u by (rule refl)+
qed

text \<open>The IPv4 address in the last 32 bits.\<close>

lemma v6_num_low:
  "v6_num (Ipv6Addr a b c d e f g h) mod 2 ^ 32 =
     v4_num (Ipv4Addr (ucast (drop_bit 8 g)) (ucast g) (ucast (drop_bit 8 h)) (ucast h))"
proof -
  have w: "unat w = unat (ucast (drop_bit 8 w) :: u8) * 256 + unat (ucast w :: u8)" for w :: u16
  proof -
    have "unat (ucast (drop_bit 8 w) :: u8) = unat w div 256"
      unfolding unsigned_ucast_eq unsigned_drop_bit_eq using u16_bound [of w]
      by (simp add: drop_bit_eq_div take_bit_eq_mod less_mult_imp_div_less)
    moreover have "unat (ucast w :: u8) = unat w mod 256"
      by (simp add: unsigned_ucast_eq take_bit_eq_mod)
    ultimately show ?thesis by simp
  qed
  have m: "(x * 65536 + y) * 65536 + z = x * 2 ^ 32 + (y * 65536 + z)" for x y z :: nat
    by (simp add: algebra_simps)
  have "v6_num (Ipv6Addr a b c d e f g h) mod 2 ^ 32 = (unat g * 65536 + unat h) mod 2 ^ 32"
    unfolding v6_num.simps
    by (subst m) (rule mod_mult_self3)
  also have "\<dots> = unat g * 65536 + unat h"
    using u16_bound [of g] u16_bound [of h] by simp
  also have "\<dots> = v4_num (Ipv4Addr (ucast (drop_bit 8 g)) (ucast g) (ucast (drop_bit 8 h)) (ucast h))"
    by (subst w [of g], subst w [of h]) simp
  finally show ?thesis .
qed

section \<open>Host suffixes\<close>

definition without_final_dot :: "bytes \<Rightarrow> bytes" where
  "without_final_dot host = (if host \<noteq> [] \<and> last host = 46 then butlast host else host)"

lemma last_label_iff:
  assumes "(46 :: u8) \<notin> set s"
  shows "rev (takeWhile (\<lambda>b. b \<noteq> 46) (rev host)) = s \<longleftrightarrow> host = s \<or> (\<exists>p. host = p @ [46] @ s)"
    (is "?last = s \<longleftrightarrow> _")
proof
  assume eq: "?last = s"
  show "host = s \<or> (\<exists>p. host = p @ [46] @ s)"
  proof (cases "dropWhile (\<lambda>b. b \<noteq> 46) (rev host)")
    case Nil
    then show ?thesis using eq takeWhile_dropWhile_id [of "\<lambda>b. b \<noteq> 46" "rev host"]
      by (metis append_Nil2 rev_rev_ident)
  next
    case (Cons x xs)
    then have "x = 46" using hd_dropWhile [of "\<lambda>b. b \<noteq> 46" "rev host"] by (metis list.distinct(1) list.sel(1))
    then have "rev host = rev s @ 46 # xs"
      using Cons eq takeWhile_dropWhile_id [of "\<lambda>b. b \<noteq> 46" "rev host"] by auto
    then have "host = rev (rev s @ 46 # xs)" by (metis rev_rev_ident)
    then show ?thesis by simp
  qed
next
  have t: "takeWhile (\<lambda>b. b \<noteq> 46) (rev s) = rev s" using assms by (auto simp: takeWhile_eq_all_conv)
  assume "host = s \<or> (\<exists>p. host = p @ [46] @ s)"
  then show "?last = s"
  proof
    assume "host = s"
    then show ?thesis unfolding t [symmetric] by (simp only: t rev_rev_ident)
  next
    assume "\<exists>p. host = p @ [46] @ s"
    then obtain p where "host = p @ [46] @ s" ..
    then have "takeWhile (\<lambda>b. b \<noteq> 46) (rev host) = takeWhile (\<lambda>b. b \<noteq> 46) (rev s @ 46 # rev p)" by simp
    also have "\<dots> = rev s" using assms by (subst takeWhile_append2) auto
    finally show ?thesis by simp
  qed
qed

lemma lower_dot: "to_ascii_lowercase b = 46 \<longleftrightarrow> b = 46"
proof -
  have "b + 32 \<noteq> 46" if "65 \<le> b" "b \<le> 90"
  proof
    assume "b + 32 = 46"
    then have "b = 46 - 32" by (simp add: eq_diff_eq)
    with that show False by (simp add: word_le_nat_alt)
  qed
  then show ?thesis by (auto simp: to_ascii_lowercase_def)
qed

lemma map_lower_last_label:
  "map to_ascii_lowercase (rev (takeWhile (\<lambda>b. b \<noteq> 46) (rev host))) =
     rev (takeWhile (\<lambda>b. b \<noteq> 46) (rev (map to_ascii_lowercase host)))"
  by (simp add: rev_map takeWhile_map comp_def lower_dot)

section \<open>Properties\<close>

text \<open>C24: The address policy is a CIDR block list, wider than documented in one place.  An IPv4 address is public
  iff it lies in none of fourteen blocks; an IPv6 address is public iff it is an IPv4-mapped or NAT64 address
  whose embedded IPv4 address is public, or it lies in 2000::/3, outside the seven documented blocks and
  outside 3ff0::/12.  The last condition is where code and comment disagree: the comment names the block
  3fff::/20, the mask refuses all of 3ff0::/12, so that for example 3ff0::1 is refused although it is a global
  unicast address outside every documented block.  No address form lets a private IPv4 destination through.\<close>

theorem publicly_routable_iff_blocks:
  "(is_publicly_routable address \<longleftrightarrow>
     (case address of
        V4 a \<Rightarrow> v4_public_num (v4_num a)
      | V6 a \<Rightarrow>
          let n = v6_num a in
          if in_cidr 128 n ipv4_mapped_block \<or> in_cidr 128 n nat64_block
          then v4_public_num (n mod 2 ^ 32)
          else in_cidr 128 n global_unicast_block \<and> list_all (\<lambda>b. \<not> in_cidr 128 n b) ipv6_blocks \<and>
            \<not> in_cidr 128 n ipv6_masked_block)) \<and>
   (let a = Ipv6Addr 0x3ff0 0 0 0 0 0 0 1 in
      \<not> is_publicly_routable (V6 a) \<and> in_cidr 128 (v6_num a) global_unicast_block \<and>
      list_all (\<lambda>b. \<not> in_cidr 128 (v6_num a) b) ipv6_blocks)"
proof
  show "is_publicly_routable address \<longleftrightarrow>
     (case address of
        V4 a \<Rightarrow> v4_public_num (v4_num a)
      | V6 a \<Rightarrow>
          let n = v6_num a in
          if in_cidr 128 n ipv4_mapped_block \<or> in_cidr 128 n nat64_block
          then v4_public_num (n mod 2 ^ 32)
          else in_cidr 128 n global_unicast_block \<and> list_all (\<lambda>b. \<not> in_cidr 128 n b) ipv6_blocks \<and>
            \<not> in_cidr 128 n ipv6_masked_block)"
  proof (cases address)
    case (V4 a)
    then show ?thesis by (simp add: is_publicly_routable_def is_public_ipv4_num)
  next
    case (V6 x)
    obtain a b c d e f g h where x: "x = Ipv6Addr a b c d e f g h" by (cases x) auto
    have inner: "(a = 0x3fff \<longrightarrow> P) \<and> unat a div 16 \<noteq> 0x3ff \<longleftrightarrow> unat a div 16 \<noteq> 0x3ff" for P
      by auto
    show ?thesis
      unfolding V6 x is_publicly_routable_def is_public_ipv6_def ip_addr.case Let_def ipv4_mapped_block_def
        nat64_block_def global_unicast_block_def ipv6_blocks_def ipv6_masked_block_def list.pred_inject v6_prefix
        v6_num_low is_public_ipv4_num high_bits
      by (simp add: high_bits is_public_ipv4_num inner del: v4_num.simps v6_num.simps)
  qed
  show "let a = Ipv6Addr 0x3ff0 0 0 0 0 0 0 1 in
      \<not> is_publicly_routable (V6 a) \<and> in_cidr 128 (v6_num a) global_unicast_block \<and>
      list_all (\<lambda>b. \<not> in_cidr 128 (v6_num a) b) ipv6_blocks"
    unfolding Let_def is_publicly_routable_def is_public_ipv6_def ip_addr.case global_unicast_block_def ipv6_blocks_def
      list.pred_inject v6_prefix by simp
qed

text \<open>A host is special-use exactly when, after one trailing dot is dropped and letters are lowered, it
  is one of the reserved suffixes or a subdomain of one.\<close>

lemma special_use_host_iff:
  "is_browser_special_use_host host \<longleftrightarrow>
     (\<exists>s \<in> set browser_special_use_suffixes.
        map to_ascii_lowercase (without_final_dot host) = ascii s \<or>
        (\<exists>p. map to_ascii_lowercase (without_final_dot host) = p @ [46] @ ascii s))"
proof -
  have lower: "map to_ascii_lowercase (ascii s) = ascii s \<and> 46 \<notin> set (ascii s)"
    if "s \<in> set BROWSER_SPECIAL_USE_SUFFIXES" for s
    using that by (auto simp: BROWSER_SPECIAL_USE_SUFFIXES_def ascii_def to_ascii_lowercase_def)
  have h: "(case strip_suffix_dot host of Some h \<Rightarrow> h | None \<Rightarrow> host) = without_final_dot host"
    by (simp add: strip_suffix_dot_def without_final_dot_def)
  have "is_browser_special_use_host host \<longleftrightarrow>
      (\<exists>s \<in> set BROWSER_SPECIAL_USE_SUFFIXES.
         rev (takeWhile (\<lambda>b. b \<noteq> 46) (rev (map to_ascii_lowercase (without_final_dot host)))) = ascii s)"
    using lower by (auto simp: is_browser_special_use_host_def h rsplit_dot_next_def eq_ignore_ascii_case_def
        map_lower_last_label list_ex_iff)
  also have "\<dots> \<longleftrightarrow> (\<exists>s \<in> set browser_special_use_suffixes.
        map to_ascii_lowercase (without_final_dot host) = ascii s \<or>
        (\<exists>p. map to_ascii_lowercase (without_final_dot host) = p @ [46] @ ascii s))"
    unfolding browser_special_use_suffixes_def using lower by (intro bex_cong refl last_label_iff) blast
  finally show ?thesis .
qed

end
