(* ===== verification/Light_Chain.thy ===== *)
theory Light_Chain
  imports Hash
begin

text \<open>
  The header chain of the light client (src/crates/hns-light-chain/src/lib.rs): admission of headers on top
  of a network's genesis, the retained history, difficulty look-back, currency checks and block locators.

  Header validation, retargeting and chainwork arithmetic come from the crates hns-header-consensus and
  hns-primitives, which are not part of the repository.  They are the fields of the record \<open>consensus\<close>,
  an argument of every definition that uses them; \<open>consensus_laws\<close> states what the chain relies on.  A
  method with \<open>&mut self\<close> returns the chain it leaves behind together with its result.
\<close>

section \<open>Interfaces of the external crates\<close>

datatype light_network = MainNet | TestNet | RegTest | SimNet

record 'w difficulty_point =
  dp_height :: u32
  dp_time :: u64
  dp_bits :: u32
  dp_chainwork :: 'w

record header_validation_context =
  ctx_height :: u32
  ctx_previous_block :: hash
  ctx_median_time :: u64
  ctx_now :: u64
  ctx_expected_bits :: u32

record ('h, 'w, 'x) consensus =
  cs_network_id :: "light_network \<Rightarrow> u8"
  cs_genesis_header :: "light_network \<Rightarrow> 'h"
  cs_genesis_hash :: "light_network \<Rightarrow> hash"
  cs_genesis_time :: "light_network \<Rightarrow> u64"
  cs_pow_bits :: "light_network \<Rightarrow> u32"
  cs_target_window :: "light_network \<Rightarrow> u32"
  cs_validate_header :: "light_network \<Rightarrow> 'h \<Rightarrow> header_validation_context \<Rightarrow> ('x, 'w) result"
  cs_expected_next_bits ::
    "light_network \<Rightarrow> u64 \<Rightarrow> 'w difficulty_point \<Rightarrow> 'w difficulty_point option \<Rightarrow>
     'w difficulty_point option \<Rightarrow> ('x, u32) result"
  cs_work_add :: "'w \<Rightarrow> 'w \<Rightarrow> ('x, 'w) result"
  cs_block_hash :: "'h \<Rightarrow> hash"
  cs_previous_block :: "'h \<Rightarrow> hash"
  cs_tree_root :: "'h \<Rightarrow> hash"
  cs_merkle_root :: "'h \<Rightarrow> hash"
  cs_time :: "'h \<Rightarrow> u64"
  cs_bits :: "'h \<Rightarrow> u32"

section \<open>Entries, limits and errors\<close>

definition MEDIAN_TIME_SPAN :: usize where
  "MEDIAN_TIME_SPAN = 11"

definition REQUIRED_DIFFICULTY_HISTORY :: usize where
  "REQUIRED_DIFFICULTY_HISTORY = 147"

definition DEFAULT_MAX_HEADERS_PER_BATCH :: usize where
  "DEFAULT_MAX_HEADERS_PER_BATCH = 4096"

definition MAX_HEADERS_PER_BATCH_LIMIT :: usize where
  "MAX_HEADERS_PER_BATCH_LIMIT = 4096"

definition MAX_LOCATOR_HASHES :: usize where
  "MAX_LOCATOR_HASHES = 43"

datatype (plugins only: code) 'x light_chain_error =
  LcHeader 'x
| LcArithmetic 'x
| LcCovenant 'x
| LcUrkel 'x
| LcNameStateDecode 'x
| InvalidLimit
| HeaderBatchLimit
| InvalidSnapshot
| SnapshotTooLarge
| SnapshotChecksumMismatch
| UnsupportedSnapshot
| SnapshotNetworkMismatch
| SnapshotRollback
| HeightOverflow
| MissingDifficultyHistory
| TimeOverflow
| InsufficientHeight
| InsufficientChainwork
| StaleTip
| FutureTip
| NameNotFound
| NameStateNameMismatch
| MissingResource
| ResourceTooLarge usize
| UnknownNameStateField
| FutureNameState
| InvalidNameStateValue
| UnsupportedResourceVersion
| UnknownResourceRecord u8
| ResourceTruncated
| InvalidResourceName
| InvalidResourceNamePointer
| ResourceNameCompressionLoop
| ResourceNameJumpLimit

record 'w header_entry =
  he_height :: u32
  he_hash :: hash
  he_previous_block :: hash
  he_tree_root :: hash
  he_merkle_root :: hash
  he_time :: u64
  he_bits :: u32
  he_chainwork :: 'w

definition entry_difficulty_point :: "'w header_entry \<Rightarrow> 'w difficulty_point" where
  "entry_difficulty_point e =
     \<lparr>dp_height = he_height e, dp_time = he_time e, dp_bits = he_bits e, dp_chainwork = he_chainwork e\<rparr>"

record chain_limits =
  max_headers_per_batch :: usize

definition default_chain_limits :: chain_limits where
  "default_chain_limits = \<lparr>max_headers_per_batch = DEFAULT_MAX_HEADERS_PER_BATCH\<rparr>"

definition chain_limits_validate :: "chain_limits \<Rightarrow> ('x light_chain_error, chain_limits) result" where
  "chain_limits_validate l =
     (if max_headers_per_batch l = 0 \<or> max_headers_per_batch l > MAX_HEADERS_PER_BATCH_LIMIT
      then Inl InvalidLimit else Inr l)"

record 'w currency_policy =
  cp_now :: u64
  cp_maximum_tip_age_seconds :: u64
  cp_minimum_height :: u32
  cp_minimum_chainwork :: 'w

record 'w light_chain =
  lc_network :: light_network
  lc_limits :: chain_limits
  lc_history :: "'w header_entry list"
  lc_tip :: "'w header_entry"

record 'w hns_anchor =
  an_network :: light_network
  an_height :: u32
  an_block_hash :: hash
  an_tree_root :: hash
  an_chainwork :: 'w
  an_validated_at :: u64
  an_valid_until :: u64

record 'w current_chain =
  cc_anchor :: "'w hns_anchor"

section \<open>Operations\<close>

definition entry_from_header ::
  "('h, 'w, 'x) consensus \<Rightarrow> u32 \<Rightarrow> 'h \<Rightarrow> 'w \<Rightarrow> 'w header_entry" where
  "entry_from_header C height header chainwork =
     \<lparr>he_height = height, he_hash = cs_block_hash C header,
      he_previous_block = cs_previous_block C header, he_tree_root = cs_tree_root C header,
      he_merkle_root = cs_merkle_root C header, he_time = cs_time C header,
      he_bits = cs_bits C header, he_chainwork = chainwork\<rparr>"

definition from_genesis ::
  "('h, 'w, 'x) consensus \<Rightarrow> light_network \<Rightarrow> u64 \<Rightarrow> chain_limits \<Rightarrow>
   ('x light_chain_error, 'w light_chain) result" where
  "from_genesis C network now limits =
     rbind (chain_limits_validate limits) (\<lambda>limits.
     let header = cs_genesis_header C network in
     rbind (map_err LcHeader (cs_validate_header C network header
       \<lparr>ctx_height = 0, ctx_previous_block = hash_zero, ctx_median_time = 0, ctx_now = now,
        ctx_expected_bits = cs_pow_bits C network\<rparr>)) (\<lambda>proof.
     let tip = entry_from_header C 0 header proof in
     Inr \<lparr>lc_network = network, lc_limits = limits, lc_history = [tip], lc_tip = tip\<rparr>))"

definition entry_at :: "'w light_chain \<Rightarrow> u32 \<Rightarrow> ('x light_chain_error, 'w header_entry) result" where
  "entry_at c height =
     ok_or MissingDifficultyHistory (find (\<lambda>e. he_height e = height) (lc_history c))"

definition u32_checked_sub :: "u32 \<Rightarrow> u32 \<Rightarrow> u32 option" where
  "u32_checked_sub a b = (if b \<le> a then Some (a - b) else None)"

definition u32_saturating_sub :: "u32 \<Rightarrow> u32 \<Rightarrow> u32" where
  "u32_saturating_sub a b = (if b \<le> a then a - b else 0)"

definition u32_checked_add :: "u32 \<Rightarrow> u32 \<Rightarrow> u32 option" where
  "u32_checked_add a b = (if unat a + unat b < 2 ^ 32 then Some (a + b) else None)"

definition u32_saturating_add :: "u32 \<Rightarrow> u32 \<Rightarrow> u32" where
  "u32_saturating_add a b = (if unat a + unat b < 2 ^ 32 then a + b else - 1)"

definition u32_saturating_mul :: "u32 \<Rightarrow> u32 \<Rightarrow> u32" where
  "u32_saturating_mul a b = (if unat a * unat b < 2 ^ 32 then a * b else - 1)"

definition suitable_entry :: "'w light_chain \<Rightarrow> u32 \<Rightarrow> ('x light_chain_error, 'w header_entry) result" where
  "suitable_entry c height =
     rbind (ok_or MissingDifficultyHistory (u32_checked_sub height 2)) (\<lambda>first_height.
     rbind (entry_at c first_height) (\<lambda>e0.
     rbind (entry_at c (first_height + 1)) (\<lambda>e1.
     rbind (entry_at c height) (\<lambda>e2.
     Inr (sort_key he_time [e0, e1, e2] ! 1)))))"

definition median_time_past :: "'w light_chain \<Rightarrow> u64" where
  "median_time_past c =
     (let times = sort (map he_time (take MEDIAN_TIME_SPAN (rev (lc_history c))))
      in case slice_get times (length times div 2) of Some t \<Rightarrow> t | None \<Rightarrow> he_time (lc_tip c))"

fun trim_history :: "'w header_entry list \<Rightarrow> 'w header_entry list" where
  "trim_history [] = []"
| "trim_history (e # es) =
     (if length (e # es) > REQUIRED_DIFFICULTY_HISTORY then trim_history es else e # es)"

definition difficulty_points ::
  "('h, 'w, 'x) consensus \<Rightarrow> 'w light_chain \<Rightarrow>
   ('x light_chain_error, 'w difficulty_point option \<times> 'w difficulty_point option) result" where
  "difficulty_points C c =
     (let tip = lc_tip c; window = cs_target_window C (lc_network c) in
      if he_height tip \<ge> u32_saturating_add window 2 then
        rbind (ok_or MissingDifficultyHistory (u32_checked_sub (he_height tip) window)) (\<lambda>ancestor_height.
        rbind (suitable_entry c ancestor_height) (\<lambda>first.
        rbind (suitable_entry c (he_height tip)) (\<lambda>last.
        Inr (Some (entry_difficulty_point first), Some (entry_difficulty_point last)))))
      else Inr (None, None))"

definition append_entry ::
  "('h, 'w, 'x) consensus \<Rightarrow> 'w light_chain \<Rightarrow> 'h \<Rightarrow> u64 \<Rightarrow> ('x light_chain_error, 'w header_entry) result" where
  "append_entry C c header now =
     (let tip = lc_tip c in
      rbind (ok_or HeightOverflow (u32_checked_add (he_height tip) 1)) (\<lambda>next_height.
      rbind (difficulty_points C c) (\<lambda>(first_suitable, last_suitable).
      rbind (map_err LcHeader (cs_expected_next_bits C (lc_network c) (cs_time C header)
        (entry_difficulty_point tip) first_suitable last_suitable)) (\<lambda>expected_bits.
      rbind (map_err LcHeader (cs_validate_header C (lc_network c) header
        \<lparr>ctx_height = next_height, ctx_previous_block = he_hash tip,
         ctx_median_time = median_time_past c, ctx_now = now, ctx_expected_bits = expected_bits\<rparr>)) (\<lambda>proof.
      rbind (map_err LcArithmetic (cs_work_add C (he_chainwork tip) proof)) (\<lambda>chainwork.
      Inr (entry_from_header C next_height header chainwork)))))))"

definition append_header ::
  "('h, 'w, 'x) consensus \<Rightarrow> 'w light_chain \<Rightarrow> 'h \<Rightarrow> u64 \<Rightarrow>
   'w light_chain \<times> ('x light_chain_error, 'w header_entry) result" where
  "append_header C c header now =
     (case append_entry C c header now of
        Inl e \<Rightarrow> (c, Inl e)
      | Inr entry \<Rightarrow>
          (c\<lparr>lc_history := trim_history (lc_history c @ [entry]), lc_tip := entry\<rparr>, Inr entry))"

fun append_all ::
  "('h, 'w, 'x) consensus \<Rightarrow> 'w light_chain \<Rightarrow> 'h list \<Rightarrow> u64 \<Rightarrow>
   'w light_chain \<times> ('x light_chain_error, unit) result" where
  "append_all C c [] now = (c, Inr ())"
| "append_all C c (header # headers) now =
     (case append_header C c header now of
        (c', Inl e) \<Rightarrow> (c', Inl e)
      | (c', Inr _) \<Rightarrow> append_all C c' headers now)"

definition append_batch ::
  "('h, 'w, 'x) consensus \<Rightarrow> 'w light_chain \<Rightarrow> 'h list \<Rightarrow> u64 \<Rightarrow>
   'w light_chain \<times> ('x light_chain_error, 'w header_entry) result" where
  "append_batch C c headers now =
     (if headers = [] \<or> length headers > max_headers_per_batch (lc_limits c)
      then (c, Inl HeaderBatchLimit)
      else case append_all C c headers now of
             (_, Inl e) \<Rightarrow> (c, Inl e)
           | (candidate, Inr _) \<Rightarrow> (candidate, Inr (lc_tip candidate)))"

definition require_current ::
  "'w :: linorder light_chain \<Rightarrow> 'w currency_policy \<Rightarrow> ('x light_chain_error, 'w current_chain) result" where
  "require_current c policy =
     (let tip = lc_tip c in
      if he_height tip < cp_minimum_height policy then Inl InsufficientHeight
      else if he_chainwork tip < cp_minimum_chainwork policy then Inl InsufficientChainwork
      else rbind (ok_or TimeOverflow (u64_checked_add (he_time tip) (cp_maximum_tip_age_seconds policy)))
        (\<lambda>valid_until.
      if cp_now policy > valid_until then Inl StaleTip
      else if he_time tip > u64_saturating_add (cp_now policy) 7200 then Inl FutureTip
      else Inr \<lparr>cc_anchor =
        \<lparr>an_network = lc_network c, an_height = he_height tip, an_block_hash = he_hash tip,
         an_tree_root = he_tree_root tip, an_chainwork = he_chainwork tip,
         an_validated_at = cp_now policy, an_valid_until = valid_until\<rparr>\<rparr>))"

text \<open>The loop of \<open>locator\<close>: \<open>None\<close> would mean that it does not end.\<close>

partial_function (option) locator_loop ::
  "'w light_chain \<Rightarrow> u32 \<Rightarrow> u32 \<Rightarrow> hash list \<Rightarrow> hash list option" where
  "locator_loop c height step locator =
     (case (entry_at c height :: (unit light_chain_error, 'w header_entry) result) of
        Inl _ \<Rightarrow> Some locator
      | Inr entry \<Rightarrow>
          let locator = locator @ [he_hash entry] in
          if height = 0 then Some locator
          else
            let step = (if length locator \<ge> 10 then u32_saturating_mul step 2 else step)
            in locator_loop c (u32_saturating_sub height step) step locator)"

definition locator :: "('h, 'w, 'x) consensus \<Rightarrow> 'w light_chain \<Rightarrow> hash list option" where
  "locator C c =
     (case locator_loop c (he_height (lc_tip c)) 1 [] of
        None \<Rightarrow> None
      | Some locator \<Rightarrow>
          let genesis = cs_genesis_hash C (lc_network c) in
          Some (if locator = [] \<or> last locator \<noteq> genesis then locator @ [genesis] else locator))"

end
