(* ===== verification/Light_Chain_Laws.thy ===== *)
theory Light_Chain_Laws
  imports Light_Chain
begin

text \<open>
  Correctness of the light header chain: every reachable chain is linked, keeps exactly the required
  history and gains work with every header; batches are all or nothing; the retained history is enough
  for every difficulty look-back; and block locators are short, end at genesis and always returned.
\<close>

section \<open>What the chain relies on\<close>

text \<open>
  An accepted header names the block of its context as its parent and its proof adds work; the
  genesis hash is the hash of the genesis header; the retarget window is at most 144 blocks.
\<close>

definition consensus_laws :: "('h, 'w :: linorder, 'x) consensus \<Rightarrow> bool" where
  "consensus_laws C \<longleftrightarrow>
     (\<forall>n h ctx p. cs_validate_header C n h ctx = Inr p \<longrightarrow>
        cs_previous_block C h = ctx_previous_block ctx \<and>
        (\<forall>w s. cs_work_add C w p = Inr s \<longrightarrow> w < s)) \<and>
     (\<forall>n. cs_block_hash C (cs_genesis_header C n) = cs_genesis_hash C n \<and> cs_target_window C n \<le> 144)"

lemma consensus_linkD:
  "consensus_laws C \<Longrightarrow> cs_validate_header C n h ctx = Inr p \<Longrightarrow>
     cs_previous_block C h = ctx_previous_block ctx"
  unfolding consensus_laws_def by blast

lemma consensus_workD:
  "consensus_laws C \<Longrightarrow> cs_validate_header C n h ctx = Inr p \<Longrightarrow> cs_work_add C w p = Inr s \<Longrightarrow> w < s"
  unfolding consensus_laws_def by blast

section \<open>The invariant\<close>

definition extends :: "'w :: linorder header_entry \<Rightarrow> 'w header_entry \<Rightarrow> bool" where
  "extends a b \<longleftrightarrow> unat (he_height b) = Suc (unat (he_height a)) \<and>
     he_previous_block b = he_hash a \<and> he_chainwork a < he_chainwork b"

definition chain_wf :: "('h, 'w :: linorder, 'x) consensus \<Rightarrow> 'w light_chain \<Rightarrow> bool" where
  "chain_wf C c \<longleftrightarrow>
     lc_history c \<noteq> [] \<and> lc_tip c = last (lc_history c) \<and>
     length (lc_history c) = min (Suc (unat (he_height (lc_tip c)))) REQUIRED_DIFFICULTY_HISTORY \<and>
     successively extends (lc_history c) \<and>
     (he_height (hd (lc_history c)) = 0 \<longrightarrow> he_hash (hd (lc_history c)) = cs_genesis_hash C (lc_network c)) \<and>
     1 \<le> max_headers_per_batch (lc_limits c) \<and> max_headers_per_batch (lc_limits c) \<le> MAX_HEADERS_PER_BATCH_LIMIT"

lemma trim_history_drop: "trim_history es = drop (length es - REQUIRED_DIFFICULTY_HISTORY) es"
  by (induction es) (auto simp: Suc_diff_le)

lemma successively_drop: "successively P xs \<Longrightarrow> successively P (drop n xs)"
  by (metis append_take_drop_id successively_append_iff)

lemma extends_heights:
  "successively extends es \<Longrightarrow> i < length es \<Longrightarrow> unat (he_height (es ! i)) = unat (he_height (hd es)) + i"
proof (induction es arbitrary: i)
  case (Cons e es)
  show ?case
  proof (cases i)
    case (Suc j)
    then have "es \<noteq> []" using Cons.prems(2) by auto
    then have "unat (he_height (hd es)) = Suc (unat (he_height e))" "successively extends es"
      using Cons.prems(1) by (cases es; simp add: extends_def)+
    then show ?thesis using Cons.IH [of j] Cons.prems(2) Suc by simp
  qed simp
qed simp

lemma u32_bound: "unat (w :: u32) < 2 ^ 32"
  using unsigned_less [where 'a = nat, of w] by simp

lemma u32_checked_add_Some:
  "u32_checked_add a b = Some s \<longleftrightarrow> unat a + unat b < 2 ^ 32 \<and> s = a + b"
  by (auto simp: u32_checked_add_def)

lemma u32_add_unat: "unat a + unat b < 2 ^ 32 \<Longrightarrow> unat (a + b :: u32) = unat a + unat b"
  by (simp add: unat_word_ariths)

text \<open>The retained heights are the consecutive ones up to the tip.\<close>

lemma chain_base:
  assumes "chain_wf C c"
  shows "unat (he_height (lc_tip c)) = unat (he_height (hd (lc_history c))) + (length (lc_history c) - 1)"
proof -
  have "lc_history c \<noteq> []" "lc_tip c = last (lc_history c)" "successively extends (lc_history c)"
    using assms by (simp_all add: chain_wf_def)
  moreover from this(1) have "last (lc_history c) = lc_history c ! (length (lc_history c) - 1)"
      "length (lc_history c) - 1 < length (lc_history c)" by (rule last_conv_nth) (use calculation in simp)
  ultimately show ?thesis by (metis extends_heights)
qed

lemma entry_at_Inr:
  assumes wf: "chain_wf C c"
  shows "entry_at c k = Inr e \<longleftrightarrow>
    (\<exists>i < length (lc_history c). e = lc_history c ! i \<and> unat k = unat (he_height (hd (lc_history c))) + i)"
proof -
  let ?h = "lc_history c"
  have hs: "unat (he_height (?h ! i)) = unat (he_height (hd ?h)) + i" if "i < length ?h" for i
    using wf that by (intro extends_heights) (simp_all add: chain_wf_def)
  have at: "he_height (?h ! i) = k \<longleftrightarrow> unat k = unat (he_height (hd ?h)) + i" if "i < length ?h" for i
    using hs [OF that] by (auto simp: word_unat_eq_iff)
  have "entry_at c k = Inr e \<longleftrightarrow> find (\<lambda>e. he_height e = k) ?h = Some e"
    by (simp add: entry_at_def result_inv)
  also have "\<dots> \<longleftrightarrow> (\<exists>i < length ?h. he_height (?h ! i) = k \<and> e = ?h ! i \<and> (\<forall>j<i. he_height (?h ! j) \<noteq> k))"
    by (simp add: find_Some_iff)
  also have "\<dots> \<longleftrightarrow> (\<exists>i < length ?h. e = ?h ! i \<and> unat k = unat (he_height (hd ?h)) + i)"
  proof (intro iffI; elim exE conjE)
    fix i assume "i < length ?h" and "he_height (?h ! i) = k" and "e = ?h ! i"
    then show "\<exists>i < length ?h. e = ?h ! i \<and> unat k = unat (he_height (hd ?h)) + i" using at by blast
  next
    fix i assume i: "i < length ?h" and e: "e = ?h ! i" and k: "unat k = unat (he_height (hd ?h)) + i"
    have "he_height (?h ! j) \<noteq> k" if "j < i" for j using at [of j] that i k by simp
    with i e k at show "\<exists>i < length ?h. he_height (?h ! i) = k \<and> e = ?h ! i \<and> (\<forall>j<i. he_height (?h ! j) \<noteq> k)"
      by blast
  qed
  finally show ?thesis .
qed

lemma entry_at_exists:
  assumes wf: "chain_wf C c" and "unat (he_height (hd (lc_history c))) \<le> unat k" and "k \<le> he_height (lc_tip c)"
  shows "\<exists>e. entry_at c k = Inr e"
proof -
  let ?i = "unat k - unat (he_height (hd (lc_history c)))"
  have "lc_history c \<noteq> []" using wf by (simp add: chain_wf_def)
  then have "0 < length (lc_history c)" by simp
  then have "?i < length (lc_history c)"
    using chain_base [OF wf] assms(3) unfolding word_le_nat_alt by linarith
  then show ?thesis using assms(2) entry_at_Inr [OF wf] by (metis le_add_diff_inverse)
qed

text \<open>The oldest retained height is 0 or 146 below the tip.\<close>

lemma chain_oldest:
  assumes "chain_wf C c"
  shows "unat (he_height (hd (lc_history c))) = unat (he_height (lc_tip c)) - 146"
proof -
  have "0 < length (lc_history c)" "length (lc_history c) = min (Suc (unat (he_height (lc_tip c)))) 147"
    using assms by (simp_all add: chain_wf_def REQUIRED_DIFFICULTY_HISTORY_def)
  then show ?thesis using chain_base [OF assms] by linarith
qed

section \<open>Appending\<close>

lemma append_entry_Inr:
  assumes "consensus_laws C" and "append_entry C c header now = Inr entry"
  shows "extends (lc_tip c) entry"
  using assms by (auto simp: append_entry_def Let_def result_inv entry_from_header_def extends_def
      u32_checked_add_Some u32_add_unat dest: consensus_linkD consensus_workD)

lemma append_header_wf:
  assumes laws: "consensus_laws C" and wf: "chain_wf C c"
  shows "chain_wf C (fst (append_header C c header now))"
proof (cases "append_entry C c header now")
  case (Inr entry)
  let ?h = "lc_history c"
  have ne: "?h \<noteq> []" and last: "lc_tip c = last ?h" and succ: "successively extends ?h"
    and len: "length ?h = min (Suc (unat (he_height (lc_tip c)))) 147"
    using wf by (simp_all add: chain_wf_def REQUIRED_DIFFICULTY_HISTORY_def)
  have ext: "extends (lc_tip c) entry" by (rule append_entry_Inr [OF laws Inr])
  have new: "successively extends (?h @ [entry])" using succ ext ne last by (simp add: successively_append_iff)
  have height: "unat (he_height entry) = Suc (unat (he_height (lc_tip c)))" using ext by (simp add: extends_def)
  have hd: "hd (?h @ [entry]) = hd ?h" using ne by simp
  have base: "he_height (hd ?h) = 0 \<longrightarrow> he_hash (hd ?h) = cs_genesis_hash C (lc_network c)"
    using wf by (simp add: chain_wf_def)
  have first: "he_height (hd (trim_history (?h @ [entry]))) = 0 \<longrightarrow>
      he_hash (hd (trim_history (?h @ [entry]))) = cs_genesis_hash C (lc_network c)"
  proof (cases "length ?h < 147")
    case True
    then show ?thesis using base hd by (simp add: trim_history_drop REQUIRED_DIFFICULTY_HISTORY_def)
  next
    case False
    then have "length (?h @ [entry]) = 148" using len by simp
    then have "hd (trim_history (?h @ [entry])) = (?h @ [entry]) ! 1"
      by (simp add: trim_history_drop REQUIRED_DIFFICULTY_HISTORY_def hd_drop_conv_nth nth_append)
    moreover have "unat (he_height ((?h @ [entry]) ! 1)) \<noteq> 0"
      using extends_heights [OF new, of 1] ne \<open>length (?h @ [entry]) = 148\<close> by simp
    ultimately show ?thesis by (metis unsigned_0)
  qed
  have "successively extends (trim_history (?h @ [entry]))"
    using successively_drop [OF new] by (simp only: trim_history_drop)
  moreover have "length (trim_history (?h @ [entry])) = min (Suc (unat (he_height entry))) 147"
      "trim_history (?h @ [entry]) \<noteq> []" "last (trim_history (?h @ [entry])) = entry"
    using len height by (auto simp: trim_history_drop REQUIRED_DIFFICULTY_HISTORY_def)
  ultimately show ?thesis
    using wf first by (simp add: append_header_def Inr chain_wf_def REQUIRED_DIFFICULTY_HISTORY_def)
qed (simp add: append_header_def wf)

lemma append_header_fields:
  "lc_network (fst (append_header C c header now)) = lc_network c"
  "lc_limits (fst (append_header C c header now)) = lc_limits c"
  by (simp_all add: append_header_def split: sum.splits)

lemma append_all_wf:
  "consensus_laws C \<Longrightarrow> chain_wf C c \<Longrightarrow> chain_wf C (fst (append_all C c headers now))"
proof (induction headers arbitrary: c)
  case (Cons h hs)
  obtain c' r where step: "append_header C c h now = (c', r)" by fastforce
  then have "chain_wf C c'" using append_header_wf [OF Cons.prems, of h now] by simp
  then show ?case using Cons.IH [OF Cons.prems(1)] step by (cases r) simp_all
qed simp

lemma append_batch_wf:
  assumes "consensus_laws C" and "chain_wf C c"
  shows "chain_wf C (fst (append_batch C c headers now))"
proof (cases "headers = [] \<or> max_headers_per_batch (lc_limits c) < length headers")
  case False
  obtain c' r where all: "append_all C c headers now = (c', r)" by fastforce
  then have "chain_wf C c'" using append_all_wf [OF assms, of headers now] by simp
  then show ?thesis using assms(2) False all by (cases r) (simp_all add: append_batch_def)
qed (auto simp: append_batch_def assms(2))

lemma from_genesis_wf:
  assumes "consensus_laws C" and "from_genesis C n now limits = Inr c"
  shows "chain_wf C c" "lc_network c = n" "he_height (lc_tip c) = 0"
  using assms by (auto simp: from_genesis_def chain_limits_validate_def Let_def result_inv chain_wf_def
      entry_from_header_def REQUIRED_DIFFICULTY_HISTORY_def consensus_laws_def split: if_splits)

section \<open>Reachable chains\<close>

text \<open>The public operations that change a chain, as one step function.\<close>

datatype 'h light_op = DoAppend 'h u64 | DoAppendBatch "'h list" u64

fun light_exec :: "('h, 'w, 'x) consensus \<Rightarrow> 'w light_chain \<Rightarrow> 'h light_op \<Rightarrow> 'w light_chain" where
  "light_exec C c (DoAppend h now) = fst (append_header C c h now)"
| "light_exec C c (DoAppendBatch hs now) = fst (append_batch C c hs now)"

inductive light_reachable :: "('h, 'w :: linorder, 'x) consensus \<Rightarrow> light_network \<Rightarrow> 'w light_chain \<Rightarrow> bool"
  for C n where
  genesis: "from_genesis C n now limits = Inr c \<Longrightarrow> light_reachable C n c"
| exec: "light_reachable C n c \<Longrightarrow> light_reachable C n (light_exec C c op)"

lemma append_all_fields:
  "lc_network (fst (append_all C c headers now)) = lc_network c \<and>
   lc_limits (fst (append_all C c headers now)) = lc_limits c"
proof (induction headers arbitrary: c)
  case (Cons h hs)
  obtain c' r where step: "append_header C c h now = (c', r)" by fastforce
  then show ?case using append_header_fields [of C c h now] Cons.IH [of c'] by (cases r) simp_all
qed simp

lemma append_batch_fields:
  "lc_network (fst (append_batch C c headers now)) = lc_network c \<and>
   lc_limits (fst (append_batch C c headers now)) = lc_limits c"
proof -
  obtain c' r where all: "append_all C c headers now = (c', r)" by fastforce
  then show ?thesis using append_all_fields [of C c headers now] by (cases r) (simp_all add: append_batch_def)
qed

lemma light_exec_wf: "consensus_laws C \<Longrightarrow> chain_wf C c \<Longrightarrow> chain_wf C (light_exec C c op)"
  by (cases op) (simp_all add: append_header_wf append_batch_wf)

lemma light_exec_network: "lc_network (light_exec C c op) = lc_network c"
  by (cases op) (simp_all add: append_header_fields append_batch_fields)

lemma append_header_height:
  assumes "consensus_laws C"
  shows "he_height (lc_tip c) \<le> he_height (lc_tip (fst (append_header C c h now)))"
  using append_entry_Inr [OF assms, of c h now]
  by (cases "append_entry C c h now") (simp_all add: append_header_def extends_def word_le_nat_alt)

lemma append_all_height:
  assumes "consensus_laws C"
  shows "he_height (lc_tip c) \<le> he_height (lc_tip (fst (append_all C c hs now)))"
proof (induction hs arbitrary: c)
  case (Cons h hs)
  obtain c' r where step: "append_header C c h now = (c', r)" by fastforce
  then have "he_height (lc_tip c) \<le> he_height (lc_tip c')" using append_header_height [OF assms, of c h now] by simp
  then show ?case using step Cons.IH [of c'] by (cases r) auto
qed simp

lemma light_exec_height:
  assumes "consensus_laws C"
  shows "he_height (lc_tip c) \<le> he_height (lc_tip (light_exec C c op))"
proof (cases op)
  case (DoAppendBatch hs now)
  obtain c' r where all: "append_all C c hs now = (c', r)" by fastforce
  then show ?thesis using append_all_height [OF assms, of c hs now] DoAppendBatch
    by (cases r) (simp_all add: append_batch_def)
qed (simp add: append_header_height [OF assms])

text \<open>Chains form a machine with an invariant whose tip height never decreases.\<close>

interpretation header_chain: ranked_machine "light_exec C" "\<lambda>c. consensus_laws C \<and> chain_wf C c"
    "\<lambda>c. unat (he_height (lc_tip c))" for C :: "('h, 'w :: linorder, 'x) consensus"
  by unfold_locales (simp_all add: light_exec_wf light_exec_height word_le_nat_alt [symmetric])

lemma light_reachable_wf:
  assumes laws: "consensus_laws C" and "light_reachable C n c"
  shows "chain_wf C c \<and> lc_network c = n"
  using assms(2)
  by (induction rule: light_reachable.induct)
    (simp_all add: from_genesis_wf [OF laws] light_exec_wf [OF laws] light_exec_network)

section \<open>Difficulty look-back\<close>

lemma suitable_entry_exists:
  fixes C :: "('h, 'w :: linorder, 'x) consensus"
  assumes wf: "chain_wf C c" and "unat (he_height (hd (lc_history c))) + 2 \<le> unat k" and "k \<le> he_height (lc_tip c)"
  shows "\<exists>e. suitable_entry c k = (Inr e :: ('x light_chain_error, 'w header_entry) result)"
proof -
  have k2: "2 \<le> k" using assms(2) by (simp add: word_le_nat_alt)
  then have u: "unat (k - 2) = unat k - 2" "unat (k - 2 + 1) = unat k - 1"
    using u32_bound [of k] by (simp_all add: unat_sub word_le_nat_alt unat_word_ariths)
  have le: "k - 2 \<le> he_height (lc_tip c)" "k - 2 + 1 \<le> he_height (lc_tip c)"
    using assms(3) u by (simp_all add: word_le_nat_alt)
  have "unat (he_height (hd (lc_history c))) \<le> unat (k - 2)" "unat (he_height (hd (lc_history c))) \<le> unat (k - 2 + 1)"
      "unat (he_height (hd (lc_history c))) \<le> unat k"
    using assms(2) u by simp_all
  then obtain e0 e1 e2 where "entry_at c (k - 2) = (Inr e0 :: ('x light_chain_error, _) result)"
      "entry_at c (k - 2 + 1) = (Inr e1 :: ('x light_chain_error, _) result)"
      "entry_at c k = (Inr e2 :: ('x light_chain_error, _) result)"
    using entry_at_exists [OF wf] le assms(3) by metis
  then show ?thesis using k2 by (simp add: suitable_entry_def u32_checked_sub_def)
qed

lemma difficulty_points_exist:
  assumes laws: "consensus_laws C" and wf: "chain_wf C c"
  shows "\<exists>p. difficulty_points C c = Inr p"
proof (cases "u32_saturating_add (cs_target_window C (lc_network c)) 2 \<le> he_height (lc_tip c)")
  case True
  let ?w = "cs_target_window C (lc_network c)" and ?t = "he_height (lc_tip c)"
  have w: "unat ?w \<le> 144" using laws by (simp add: consensus_laws_def word_le_nat_alt)
  then have "unat (?w + 2) = unat ?w + 2" by (simp add: unat_word_ariths)
  with True w have t: "unat ?w + 2 \<le> unat ?t" by (simp add: u32_saturating_add_def word_le_nat_alt)
  then have "?w \<le> ?t" by (simp add: word_le_nat_alt)
  then have u: "unat (?t - ?w) = unat ?t - unat ?w" by (simp add: unat_sub)
  have "unat (he_height (hd (lc_history c))) + 2 \<le> unat (?t - ?w)"
      "unat (he_height (hd (lc_history c))) + 2 \<le> unat ?t" "?t - ?w \<le> ?t"
    using chain_oldest [OF wf] w t u by (simp_all add: word_le_nat_alt)
  then show ?thesis
    using suitable_entry_exists [OF wf, of "?t - ?w"] suitable_entry_exists [OF wf, of ?t] True \<open>?w \<le> ?t\<close>
    by (auto simp: difficulty_points_def Let_def u32_checked_sub_def)
qed (simp add: difficulty_points_def Let_def)

section \<open>Block locators\<close>

definition oldest :: "'w light_chain \<Rightarrow> nat" where
  "oldest c = unat (he_height (hd (lc_history c)))"

text \<open>What the locator loop adds from height \<open>h\<close> on: at most \<open>n\<close> hashes of retained entries, starting
  with the entry at \<open>h\<close> and, when genesis is retained, ending with it.\<close>

definition locator_ext :: "'w light_chain \<Rightarrow> u32 \<Rightarrow> hash list \<Rightarrow> nat \<Rightarrow> hash list \<Rightarrow> bool" where
  "locator_ext c h acc n out \<longleftrightarrow>
     (\<exists>ext. out = acc @ ext \<and> length ext \<le> n \<and> set ext \<subseteq> he_hash ` set (lc_history c) \<and>
       (oldest c \<le> unat h \<longrightarrow> ext \<noteq> [] \<and> hd ext = he_hash (lc_history c ! (unat h - oldest c))) \<and>
       (oldest c = 0 \<longrightarrow> last ext = he_hash (hd (lc_history c))))"

lemma locator_stop:
  assumes wf: "chain_wf C c" and le: "h \<le> he_height (lc_tip c)"
    and no: "entry_at c h = (Inl e :: (unit light_chain_error, _) result)"
  shows "locator_loop c h step acc = Some acc \<and> locator_ext c h acc n acc"
proof -
  have "unat h < oldest c"
    using entry_at_exists [OF wf _ le] no unfolding oldest_def by (metis Inr_Inl_False not_le_imp_less)
  then show ?thesis using no by (subst locator_loop.simps) (simp add: locator_ext_def)
qed

lemma locator_push:
  assumes wf: "chain_wf C c" and at: "entry_at c h = (Inr e :: (unit light_chain_error, _) result)"
    and step': "step' = (if length (acc @ [he_hash e]) \<ge> 10 then u32_saturating_mul step 2 else step)"
    and rest: "h \<noteq> 0 \<Longrightarrow> \<exists>out. locator_loop c (u32_saturating_sub h step') step' (acc @ [he_hash e]) = Some out \<and>
      locator_ext c (u32_saturating_sub h step') (acc @ [he_hash e]) n out"
  shows "\<exists>out. locator_loop c h step acc = Some out \<and> locator_ext c h acc (Suc n) out"
proof -
  obtain i where i: "i < length (lc_history c)" "e = lc_history c ! i" "unat h = oldest c + i"
    using at entry_at_Inr [OF wf] unfolding oldest_def by metis
  then have e: "he_hash e \<in> he_hash ` set (lc_history c)" "he_hash e = he_hash (lc_history c ! (unat h - oldest c))" by auto
  show ?thesis
  proof (cases "h = 0")
    case True
    then have "e = hd (lc_history c)" using i by (simp add: hd_conv_nth)
    then have "locator_ext c h acc (Suc n) (acc @ [he_hash e])" using e by (auto simp: locator_ext_def)
    then show ?thesis using at True by (subst locator_loop.simps) simp
  next
    case False
    obtain out where out: "locator_loop c (u32_saturating_sub h step') step' (acc @ [he_hash e]) = Some out"
        "locator_ext c (u32_saturating_sub h step') (acc @ [he_hash e]) n out" using rest [OF False] by blast
    obtain ext where ext: "out = (acc @ [he_hash e]) @ ext" "length ext \<le> n"
        "set ext \<subseteq> he_hash ` set (lc_history c)"
        "oldest c = 0 \<longrightarrow> ext \<noteq> [] \<and> last ext = he_hash (hd (lc_history c))"
      using out(2) unfolding locator_ext_def by auto
    have "locator_ext c h acc (Suc n) out"
      unfolding locator_ext_def using ext e by (intro exI [of _ "he_hash e # ext"]) auto
    moreover have "locator_loop c h step acc = Some out"
      using at False out(1) step' by (subst locator_loop.simps) (simp add: Let_def)
    ultimately show ?thesis by blast
  qed
qed

lemma sub_le_tip: "h \<le> t \<Longrightarrow> u32_saturating_sub h s \<le> t"
  by (auto simp: u32_saturating_sub_def word_le_nat_alt unat_sub)

lemma unat_saturating_sub: "unat (u32_saturating_sub h s) = unat h - unat s"
  by (auto simp: u32_saturating_sub_def word_le_nat_alt unat_sub)

lemma unat_saturating_double:
  fixes h s :: u32
  shows "unat (u32_saturating_mul s 2) = 2 * unat s \<or> unat h \<le> unat (u32_saturating_mul s 2)"
proof (cases "unat s * 2 < 2 ^ 32")
  case False
  then have "unat (u32_saturating_mul s 2) = 2 ^ 32 - 1"
    by (simp add: u32_saturating_mul_def unsigned_minus_1_eq_mask mask_eq_exp_minus_1)
  then show ?thesis using u32_bound [of h] by simp
qed (simp add: u32_saturating_mul_def unat_word_ariths)

lemma double_pos: "0 < unat s \<Longrightarrow> 0 < unat (u32_saturating_mul s 2)"
  using unat_saturating_double [of s "- 1"]
  by (auto simp: unsigned_minus_1_eq_mask mask_eq_exp_minus_1)

lemma locator_last:
  assumes wf: "chain_wf C c" and le: "h \<le> he_height (lc_tip c)" and h: "h = 0 \<or> unat h < oldest c"
  shows "\<exists>out. locator_loop c h step acc = Some out \<and> locator_ext c h acc (Suc n) out"
proof (cases "entry_at c h :: (unit light_chain_error, _) result")
  case (Inl e)
  then show ?thesis using locator_stop [OF wf le Inl] by blast
next
  case (Inr e)
  then have "oldest c \<le> unat h" using entry_at_Inr [OF wf] unfolding oldest_def by (metis le_add1)
  with h show ?thesis by (intro locator_push [OF wf Inr refl]) auto
qed

text \<open>From the tenth hash on the step doubles: the walk leaves the window after logarithmically many
  hashes.\<close>

lemma locator_doubling:
  assumes wf: "chain_wf C c"
  shows "9 \<le> length acc \<Longrightarrow> 0 < unat step \<Longrightarrow> h \<le> he_height (lc_tip c) \<Longrightarrow>
    unat h < oldest c + unat step * 2 ^ j \<Longrightarrow>
    \<exists>out. locator_loop c h step acc = Some out \<and> locator_ext c h acc (j + 2) out"
proof (induction j arbitrary: acc step h)
  case (0 acc step h)
  let ?h = "u32_saturating_sub h (u32_saturating_mul step 2)"
  show ?case
  proof (cases "entry_at c h :: (unit light_chain_error, _) result")
    case (Inl e)
    then show ?thesis using locator_stop [OF wf 0(3) Inl] by blast
  next
    case (Inr e)
    have "unat ?h = 0 \<or> unat ?h < oldest c"
      using unat_saturating_double [of step h] 0(4) by (auto simp: unat_saturating_sub)
    then have "?h = 0 \<or> unat ?h < oldest c" by (simp add: unat_eq_zero)
    then show ?thesis
      using locator_push [OF wf Inr refl, of acc step "Suc 0"] locator_last [OF wf sub_le_tip [OF 0(3)]] 0(1) by simp
  qed
next
  case (Suc j acc step h)
  let ?s = "u32_saturating_mul step 2"
  let ?h = "u32_saturating_sub h ?s"
  show ?case
  proof (cases "entry_at c h :: (unit light_chain_error, _) result")
    case (Inl e)
    then show ?thesis using locator_stop [OF wf Suc.prems(3) Inl] by blast
  next
    case (Inr e)
    have "\<exists>out. locator_loop c ?h ?s (acc @ [he_hash e]) = Some out \<and> locator_ext c ?h (acc @ [he_hash e]) (j + 2) out"
    proof (cases "unat h \<le> unat ?s")
      case True
      then have "?h = 0" by (simp add: unat_saturating_sub word_unat_eq_iff)
      then show ?thesis using locator_last [OF wf sub_le_tip [OF Suc.prems(3)], of ?s] by fastforce
    next
      case False
      then have "unat ?s = 2 * unat step" using unat_saturating_double [of step h] by simp
      then have "unat ?h < oldest c + unat ?s * 2 ^ j" using Suc.prems(2,4) by (simp add: unat_saturating_sub)
      then show ?thesis
        using Suc.IH [of "acc @ [he_hash e]" ?s ?h] Suc.prems sub_le_tip [OF Suc.prems(3)] double_pos by simp
    qed
    then show ?thesis using locator_push [OF wf Inr refl, of acc step "j + 2"] Suc.prems(1) by simp
  qed
qed

text \<open>The first nine hashes go back one block each.\<close>

lemma locator_linear:
  assumes wf: "chain_wf C c"
  shows "length acc + i = 9 \<Longrightarrow> h \<le> he_height (lc_tip c) \<Longrightarrow>
    \<exists>out. locator_loop c h 1 acc = Some out \<and> locator_ext c h acc (i + 10) out"
proof (induction i arbitrary: acc h)
  case (0 acc h)
  have "unat h \<le> unat (he_height (lc_tip c))" using 0(2) by (simp add: word_le_nat_alt)
  then have "unat h < oldest c + unat (1 :: u32) * 2 ^ 8"
    using chain_oldest [OF wf] unfolding oldest_def by simp
  then show ?case using locator_doubling [OF wf, of acc 1 h 8] 0 by simp
next
  case (Suc i acc h)
  show ?case
  proof (cases "entry_at c h :: (unit light_chain_error, _) result")
    case (Inl e)
    then show ?thesis using locator_stop [OF wf Suc.prems(2) Inl] by blast
  next
    case (Inr e)
    then show ?thesis
      using locator_push [OF wf Inr refl, of acc 1 "i + 10"] Suc.IH [of "acc @ [he_hash e]"]
        sub_le_tip [OF Suc.prems(2)] Suc.prems(1) by simp
  qed
qed

section \<open>A concrete consensus\<close>

text \<open>Headers are pairs of a parent hash and an own hash; a header is valid when its parent is the
  expected one, and adds one unit of work.\<close>

definition toy_consensus :: "(hash \<times> hash, nat, unit) consensus" where
  "toy_consensus =
     \<lparr>cs_network_id = (\<lambda>_. 0), cs_genesis_header = (\<lambda>_. (hash_zero, [1])), cs_genesis_hash = (\<lambda>_. [1]),
      cs_genesis_time = (\<lambda>_. 5), cs_pow_bits = (\<lambda>_. 7), cs_target_window = (\<lambda>_. 144),
      cs_validate_header = (\<lambda>_ h ctx. if fst h = ctx_previous_block ctx then Inr 1 else Inl ()),
      cs_expected_next_bits = (\<lambda>_ _ tip _ _. Inr (dp_bits tip)), cs_work_add = (\<lambda>a b. Inr (a + b)),
      cs_block_hash = snd, cs_previous_block = fst, cs_tree_root = fst, cs_merkle_root = snd,
      cs_time = (\<lambda>_. 5), cs_bits = (\<lambda>_. 7)\<rparr>"

definition toy_entry :: "u32 \<Rightarrow> hash \<Rightarrow> hash \<Rightarrow> nat \<Rightarrow> nat header_entry" where
  "toy_entry height prev own work =
     \<lparr>he_height = height, he_hash = own, he_previous_block = prev, he_tree_root = prev,
      he_merkle_root = own, he_time = 5, he_bits = 7, he_chainwork = work\<rparr>"

definition toy_genesis :: "nat light_chain" where
  "toy_genesis =
     \<lparr>lc_network = RegTest, lc_limits = \<lparr>max_headers_per_batch = 2\<rparr>,
      lc_history = [toy_entry 0 hash_zero [1] 1], lc_tip = toy_entry 0 hash_zero [1] 1\<rparr>"

definition toy_chain :: "nat light_chain" where
  "toy_chain = toy_genesis\<lparr>lc_history := [toy_entry 0 hash_zero [1] 1, toy_entry 1 [1] [2] 2],
     lc_tip := toy_entry 1 [1] [2] 2\<rparr>"

lemma toy_laws: "consensus_laws toy_consensus"
  by (simp add: consensus_laws_def toy_consensus_def)

lemma toy_from_genesis:
  "from_genesis toy_consensus RegTest 9 \<lparr>max_headers_per_batch = 2\<rparr> = Inr toy_genesis"
  by (simp add: from_genesis_def chain_limits_validate_def MAX_HEADERS_PER_BATCH_LIMIT_def toy_consensus_def
      entry_from_header_def toy_genesis_def toy_entry_def Let_def)

lemma toy_append: "append_header toy_consensus toy_genesis ([1], [2]) 9 = (toy_chain, Inr (toy_entry 1 [1] [2] 2))"
  by (simp add: append_header_def append_entry_def difficulty_points_def u32_checked_add_def
      u32_saturating_add_def toy_consensus_def toy_genesis_def toy_chain_def toy_entry_def
      entry_from_header_def entry_difficulty_point_def REQUIRED_DIFFICULTY_HISTORY_def Let_def)

lemma toy_reachable: "light_reachable toy_consensus RegTest toy_chain"
  using light_reachable.exec [OF light_reachable.genesis [OF toy_from_genesis], of "DoAppend ([1], [2]) 9"]
  by (simp add: toy_append)

section \<open>Properties\<close>

lemma append_all_foldl:
  "append_all C c headers now = (c', Inr u) \<Longrightarrow> c' = foldl (\<lambda>c h. fst (append_header C c h now)) c headers"
proof (induction headers arbitrary: c)
  case (Cons h hs)
  obtain d r where "append_header C c h now = (d, r)" by fastforce
  then show ?case using Cons by (cases r) simp_all
qed simp

lemma u32_top: "u32_checked_add w 1 = None \<longleftrightarrow> w = - 1"
proof -
  have "unat w = 2 ^ 32 - 1 \<longleftrightarrow> w = - 1"
    by (auto simp: word_unat_eq_iff unsigned_minus_1_eq_mask mask_eq_exp_minus_1)
  then show ?thesis using u32_bound [of w] by (auto simp: u32_checked_add_def)
qed

lemma u64_saturating_add_le: "t \<le> u64_saturating_add a b \<longleftrightarrow> unat t \<le> unat a + unat b"
proof (cases "unat a + unat b \<le> u64_max")
  case True
  then show ?thesis by (simp add: u64_saturating_add_def word_le_nat_alt unat_word_ariths u64_max_def)
next
  case False
  then show ?thesis using unat_u64_le [of t] by (simp add: u64_saturating_add_def)
qed

text \<open>C25: Every reachable chain is a contiguous window of validated headers: its tip is the last retained
  entry, it keeps exactly the last 147 entries (or all of them), consecutive entries have consecutive
  heights, name their predecessor's hash and strictly gain work, and a retained entry at height 0 is the
  network's genesis block.\<close>

theorem light_chain_invariant:
  assumes "consensus_laws C" and "light_reachable C n c"
  shows "lc_network c = n \<and> lc_history c \<noteq> [] \<and> lc_tip c = last (lc_history c) \<and>
    length (lc_history c) = min (Suc (unat (he_height (lc_tip c)))) REQUIRED_DIFFICULTY_HISTORY \<and>
    (\<forall>i. Suc i < length (lc_history c) \<longrightarrow> extends (lc_history c ! i) (lc_history c ! Suc i)) \<and>
    (he_height (hd (lc_history c)) = 0 \<longrightarrow> he_hash (hd (lc_history c)) = cs_genesis_hash C n)"
  using light_reachable_wf [OF assms] by (auto simp: chain_wf_def successively_conv_nth)

theorem light_chain_invariant_witness:
  "length (lc_history toy_chain) = 2 \<and> extends (lc_history toy_chain ! 0) (lc_history toy_chain ! 1)"
  using light_chain_invariant [OF toy_laws toy_reachable]
  by (auto simp: toy_chain_def toy_genesis_def)

text \<open>A batch is admitted as a whole or not at all: on an error the chain is unchanged; on success the
  batch was within its bound and the chain is the one that appending all its headers one by one leaves.\<close>

lemma append_batch_atomic:
  "(case append_batch C c headers now of
      (c', Inl e) \<Rightarrow> c' = c \<and>
        (e = HeaderBatchLimit \<and> (headers = [] \<or> max_headers_per_batch (lc_limits c) < length headers) \<or>
         snd (append_all C c headers now) = Inl e)
    | (c', Inr tip) \<Rightarrow> headers \<noteq> [] \<and> length headers \<le> max_headers_per_batch (lc_limits c) \<and>
        tip = lc_tip c' \<and> append_all C c headers now = (c', Inr ()) \<and>
        c' = foldl (\<lambda>c h. fst (append_header C c h now)) c headers)"
proof -
  obtain c' r where all: "append_all C c headers now = (c', r)" by fastforce
  then show ?thesis
    using append_all_foldl [of C c headers now c'] by (cases r) (auto simp: append_batch_def)
qed

text \<open>In a reachable chain the retained history is enough for every retarget: appending a header is
  refused only because the height would overflow or because consensus or the work arithmetic rejects it,
  never for missing difficulty history; and a refused header leaves the chain unchanged.\<close>

lemma append_refusals:
  assumes "consensus_laws C" and "light_reachable C n c" and "append_header C c header now = (c', Inl e)"
  shows "c' = c \<and> (e = HeightOverflow \<and> he_height (lc_tip c) = - 1 \<or> (\<exists>x. e = LcHeader x) \<or> (\<exists>x. e = LcArithmetic x))"
proof (cases "append_entry C c header now")
  case (Inl x)
  then have e: "e = x" "c' = c" using assms(3) by (simp_all add: append_header_def)
  obtain p q where p: "difficulty_points C c = Inr (p, q)"
    using difficulty_points_exist light_reachable_wf assms(1,2) by (metis surj_pair)
  have "he_height (lc_tip c) = - 1" if "u32_checked_add (he_height (lc_tip c)) 1 = None"
    using that u32_top [of "he_height (lc_tip c)"] by simp
  then show ?thesis
    using Inl e p by (auto simp: append_entry_def Let_def rbind_eq_Inl result_inv map_err_eq_Inl split: prod.splits)
qed (use assms(3) in \<open>simp add: append_header_def\<close>)

lemma append_refusals_witness:
  "\<exists>c' e. append_header toy_consensus toy_chain ([1], [3]) 9 = (c', Inl e) \<and> c' = toy_chain \<and> e \<noteq> MissingDifficultyHistory"
proof -
  have "append_header toy_consensus toy_chain ([1], [3]) 9 = (toy_chain, Inl (LcHeader ()))"
    by (simp add: append_header_def append_entry_def difficulty_points_def u32_checked_add_def
        u32_saturating_add_def toy_consensus_def toy_chain_def toy_genesis_def toy_entry_def Let_def word_le_nat_alt)
  then show ?thesis using append_refusals [OF toy_laws toy_reachable, of "([1], [3])" 9 toy_chain] by auto
qed

text \<open>C26: Block locators always exist and are short: the loop returns, the result has at most 20 hashes
  (within the bound of 43 the code reserves), starts with the tip, ends with the network's genesis hash
  and otherwise holds hashes of retained entries.\<close>

theorem locator_correct:
  assumes "consensus_laws C" and "light_reachable C n c"
  shows "\<exists>l. locator C c = Some l \<and> length l \<le> 20 \<and> length l \<le> MAX_LOCATOR_HASHES \<and>
    hd l = he_hash (lc_tip c) \<and> last l = cs_genesis_hash C n \<and>
    set l \<subseteq> insert (cs_genesis_hash C n) (he_hash ` set (lc_history c)) \<and>
    (he_height (hd (lc_history c)) = 0 \<longrightarrow> set l \<subseteq> he_hash ` set (lc_history c))"
proof -
  have wf: "chain_wf C c" "lc_network c = n" using light_reachable_wf [OF assms] by simp_all
  obtain l where l: "locator_loop c (he_height (lc_tip c)) 1 [] = Some l"
      "locator_ext c (he_height (lc_tip c)) [] 19 l"
    using locator_linear [OF wf(1), of "[]" 9] by auto
  have ne: "lc_history c \<noteq> []" "lc_tip c = last (lc_history c)" using wf(1) by (simp_all add: chain_wf_def)
  have old: "unat (he_height (lc_tip c)) - oldest c = length (lc_history c) - 1" "oldest c \<le> unat (he_height (lc_tip c))"
    using chain_base [OF wf(1)] unfolding oldest_def by simp_all
  then have ext: "length l \<le> 19" "set l \<subseteq> he_hash ` set (lc_history c)" "l \<noteq> []" "hd l = he_hash (lc_tip c)"
    using l(2) ne by (auto simp: locator_ext_def last_conv_nth)
  moreover have "last l = cs_genesis_hash C n" if "he_height (hd (lc_history c)) = 0"
    using l(2) that wf by (auto simp: locator_ext_def oldest_def chain_wf_def)
  ultimately show ?thesis
    using l(1) wf(2) by (auto simp: locator_def Let_def MAX_LOCATOR_HASHES_def)
qed

theorem locator_correct_witness:
  "\<exists>l. locator toy_consensus toy_chain = Some l \<and> hd l = [2] \<and> last l = [1]"
  using locator_correct [OF toy_laws toy_reachable] by (auto simp: toy_chain_def toy_entry_def toy_consensus_def)

text \<open>A chain is current exactly when its tip reaches the required height and work, its time plus the
  permitted age does not overflow and is not past, and it is at most two hours ahead of the clock; the
  anchor then carries the tip and the exact expiry.\<close>

lemma require_current_iff:
  "require_current c policy = Inr cc \<longleftrightarrow>
     cp_minimum_height policy \<le> he_height (lc_tip c) \<and> cp_minimum_chainwork policy \<le> he_chainwork (lc_tip c) \<and>
     unat (he_time (lc_tip c)) + unat (cp_maximum_tip_age_seconds policy) \<le> u64_max \<and>
     unat (cp_now policy) \<le> unat (he_time (lc_tip c)) + unat (cp_maximum_tip_age_seconds policy) \<and>
     unat (he_time (lc_tip c)) \<le> unat (cp_now policy) + 7200 \<and>
     cc_anchor cc =
       \<lparr>an_network = lc_network c, an_height = he_height (lc_tip c), an_block_hash = he_hash (lc_tip c),
        an_tree_root = he_tree_root (lc_tip c), an_chainwork = he_chainwork (lc_tip c),
        an_validated_at = cp_now policy,
        an_valid_until = he_time (lc_tip c) + cp_maximum_tip_age_seconds policy\<rparr>"
proof -
  let ?t = "he_time (lc_tip c)" and ?a = "cp_maximum_tip_age_seconds policy" and ?n = "cp_now policy"
  have sat: "u64_saturating_add ?n 7200 < ?t \<longleftrightarrow> \<not> unat ?t \<le> unat ?n + 7200"
    using u64_saturating_add_le [of ?t ?n 7200] by (simp add: not_le [symmetric])
  have sum: "?t + ?a < ?n \<longleftrightarrow> \<not> unat ?n \<le> unat ?t + unat ?a" if "unat ?t + unat ?a \<le> u64_max"
    using that by (simp add: word_less_nat_alt unat_word_ariths u64_max_def not_le)
  show ?thesis
    by (cases cc) (auto simp: require_current_def Let_def result_inv u64_checked_add_def not_less sat sum split: if_splits)
qed

end
