(* ===== verification/Policy.thy ===== *)
theory Policy
  imports Prelude
begin

unbundle bit_operations_syntax

text \<open>
  The resolution policy (src/crates/hns-resolution-policy/src/lib.rs): the typed requester and provider
  controls, their persisted form with its CRC-32, the ordered transport plan a policy admits, and the
  controller that binds admissions to policy generations.  The evidence record a resolution carries and
  the check that all of it is verified are at the end.
\<close>

datatype policy_error =
  InvalidEncoding | UnsupportedSchema | ChecksumMismatch | ZeroGeneration | StaleGeneration
| GenerationExhausted | TransportDisabled | UnverifiedEvidence | ConflictingPolicies

section \<open>Requester and provider controls\<close>

datatype dns_relay_requester_policy = RelayAuto | RelayDisabled | RelayRequired

fun relay_code :: "dns_relay_requester_policy \<Rightarrow> u8" where
  "relay_code RelayAuto = 0"
| "relay_code RelayDisabled = 1"
| "relay_code RelayRequired = 2"

definition relay_try_from :: "u8 \<Rightarrow> (policy_error, dns_relay_requester_policy) result" where
  "relay_try_from b =
     (if b = 0 then Inr RelayAuto else if b = 1 then Inr RelayDisabled
      else if b = 2 then Inr RelayRequired else Inl InvalidEncoding)"

datatype oblivious_dns_policy = OdohRequired | OdohPreferred | OdohDirectRelayAllowed | OdohDisabled

fun oblivious_code :: "oblivious_dns_policy \<Rightarrow> u8" where
  "oblivious_code OdohRequired = 0"
| "oblivious_code OdohPreferred = 1"
| "oblivious_code OdohDirectRelayAllowed = 2"
| "oblivious_code OdohDisabled = 3"

definition oblivious_try_from :: "u8 \<Rightarrow> (policy_error, oblivious_dns_policy) result" where
  "oblivious_try_from b =
     (if b = 0 then Inr OdohRequired else if b = 1 then Inr OdohPreferred
      else if b = 2 then Inr OdohDirectRelayAllowed else if b = 3 then Inr OdohDisabled
      else Inl InvalidEncoding)"

datatype wire_profile = ShakescapeV1 | Official | WireAuto

fun wire_code :: "wire_profile \<Rightarrow> u8" where
  "wire_code ShakescapeV1 = 0"
| "wire_code Official = 1"
| "wire_code WireAuto = 2"

definition wire_try_from :: "u8 \<Rightarrow> (policy_error, wire_profile) result" where
  "wire_try_from b =
     (if b = 0 then Inr ShakescapeV1 else if b = 1 then Inr Official
      else if b = 2 then Inr WireAuto else Inl InvalidEncoding)"

text \<open>The independent HNSR roles are bits of one byte.\<close>

record hnsr_policy =
  hnsr_bits :: u8

definition HNSR_CLIENT :: u8 where "HNSR_CLIENT = 1"

definition HNSR_ENDPOINT :: u8 where "HNSR_ENDPOINT = 2"

definition HNSR_RELAY :: u8 where "HNSR_RELAY = 4"

definition HNSR_RENDEZVOUS :: u8 where "HNSR_RENDEZVOUS = 8"

definition HNSR_KNOWN_BITS :: u8 where
  "HNSR_KNOWN_BITS = HNSR_CLIENT OR HNSR_ENDPOINT OR HNSR_RELAY OR HNSR_RENDEZVOUS"

definition set_flag :: "u8 \<Rightarrow> u8 \<Rightarrow> bool \<Rightarrow> u8" where
  "set_flag bs flag enabled = (if enabled then bs OR flag else bs AND NOT flag)"

definition hnsr_disabled :: hnsr_policy where
  "hnsr_disabled = \<lparr>hnsr_bits = 0\<rparr>"

definition relay_default :: hnsr_policy where
  "relay_default = \<lparr>hnsr_bits = HNSR_RELAY\<rparr>"

definition with_requester :: "hnsr_policy \<Rightarrow> bool \<Rightarrow> hnsr_policy" where
  "with_requester h enabled = h\<lparr>hnsr_bits := set_flag (hnsr_bits h) HNSR_CLIENT enabled\<rparr>"

definition with_endpoint :: "hnsr_policy \<Rightarrow> bool \<Rightarrow> hnsr_policy" where
  "with_endpoint h enabled = h\<lparr>hnsr_bits := set_flag (hnsr_bits h) HNSR_ENDPOINT enabled\<rparr>"

definition with_relay :: "hnsr_policy \<Rightarrow> bool \<Rightarrow> hnsr_policy" where
  "with_relay h enabled = h\<lparr>hnsr_bits := set_flag (hnsr_bits h) HNSR_RELAY enabled\<rparr>"

definition with_rendezvous :: "hnsr_policy \<Rightarrow> bool \<Rightarrow> hnsr_policy" where
  "with_rendezvous h enabled = h\<lparr>hnsr_bits := set_flag (hnsr_bits h) HNSR_RENDEZVOUS enabled\<rparr>"

definition client_relay_default :: hnsr_policy where
  "client_relay_default = with_requester relay_default True"

definition requester_enabled :: "hnsr_policy \<Rightarrow> bool" where
  "requester_enabled h \<longleftrightarrow> hnsr_bits h AND HNSR_CLIENT \<noteq> 0"

definition endpoint_enabled :: "hnsr_policy \<Rightarrow> bool" where
  "endpoint_enabled h \<longleftrightarrow> hnsr_bits h AND HNSR_ENDPOINT \<noteq> 0"

definition relay_enabled :: "hnsr_policy \<Rightarrow> bool" where
  "relay_enabled h \<longleftrightarrow> hnsr_bits h AND HNSR_RELAY \<noteq> 0"

definition rendezvous_enabled :: "hnsr_policy \<Rightarrow> bool" where
  "rendezvous_enabled h \<longleftrightarrow> hnsr_bits h AND HNSR_RENDEZVOUS \<noteq> 0"

definition hnsr_provider_bits :: "hnsr_policy \<Rightarrow> u8" where
  "hnsr_provider_bits h = hnsr_bits h AND (HNSR_ENDPOINT OR HNSR_RELAY OR HNSR_RENDEZVOUS)"

definition provider_enabled :: "hnsr_policy \<Rightarrow> bool" where
  "provider_enabled h \<longleftrightarrow> hnsr_provider_bits h \<noteq> 0"

definition hnsr_from_bits :: "u8 \<Rightarrow> (policy_error, hnsr_policy) result" where
  "hnsr_from_bits b = (if b AND NOT HNSR_KNOWN_BITS \<noteq> 0 then Inl InvalidEncoding else Inr \<lparr>hnsr_bits = b\<rparr>)"

definition legacy_hnsr_policy :: "u8 \<Rightarrow> (policy_error, hnsr_policy) result" where
  "legacy_hnsr_policy v =
     (if v = 0 then Inr hnsr_disabled
      else if v = 1 then Inr (with_requester hnsr_disabled True)
      else if v = 2 then Inr (with_endpoint hnsr_disabled True)
      else if v = 3 then Inr (with_relay hnsr_disabled True)
      else if v = 4 then Inr (with_rendezvous hnsr_disabled True)
      else if v = 5 then Inr (with_endpoint (with_requester hnsr_disabled True) True)
      else if v = 6 then
        Inr (with_rendezvous (with_relay (with_endpoint (with_requester hnsr_disabled True) True) True) True)
      else Inl InvalidEncoding)"

record provider_policy =
  pv_dns_relay :: bool
  pv_odoh_proxy :: bool
  pv_odoh_target :: bool
  pv_market_gossip :: bool

definition default_providers :: provider_policy where
  "default_providers =
     \<lparr>pv_dns_relay = False, pv_odoh_proxy = True, pv_odoh_target = False, pv_market_gossip = False\<rparr>"

definition PROVIDER_KNOWN_BITS :: u16 where "PROVIDER_KNOWN_BITS = 1 OR 2 OR 4 OR 8"

definition provider_bits :: "provider_policy \<Rightarrow> u16" where
  "provider_bits p =
     (if pv_dns_relay p then 1 else 0) OR (if pv_odoh_proxy p then 2 else 0) OR
     (if pv_odoh_target p then 4 else 0) OR (if pv_market_gossip p then 8 else 0)"

definition provider_from_bits :: "u16 \<Rightarrow> (policy_error, provider_policy) result" where
  "provider_from_bits b =
     (if b AND NOT PROVIDER_KNOWN_BITS \<noteq> 0 then Inl InvalidEncoding
      else Inr \<lparr>pv_dns_relay = b AND 1 \<noteq> 0, pv_odoh_proxy = b AND 2 \<noteq> 0,
                pv_odoh_target = b AND 4 \<noteq> 0, pv_market_gossip = b AND 8 \<noteq> 0\<rparr>)"

section \<open>Configuration and snapshots\<close>

record policy_config =
  pc_dns_relay_requester :: dns_relay_requester_policy
  pc_oblivious_dns :: oblivious_dns_policy
  pc_hnsr :: hnsr_policy
  pc_authenticated_authoritative_doh :: bool
  pc_user_configured_recursive_hns_doh :: bool
  pc_providers :: provider_policy
  pc_wire_profile :: wire_profile
  pc_allow_legacy_regtest_compatibility :: bool

definition default_policy :: policy_config where
  "default_policy =
     \<lparr>pc_dns_relay_requester = RelayAuto, pc_oblivious_dns = OdohDirectRelayAllowed,
      pc_hnsr = client_relay_default, pc_authenticated_authoritative_doh = True,
      pc_user_configured_recursive_hns_doh = False, pc_providers = default_providers,
      pc_wire_profile = WireAuto, pc_allow_legacy_regtest_compatibility = True\<rparr>"

definition policy_validate :: "policy_config \<Rightarrow> (policy_error, unit) result" where
  "policy_validate c =
     (if (pc_oblivious_dns c = OdohRequired \<or> pc_oblivious_dns c = OdohPreferred) \<and>
         pc_dns_relay_requester c = RelayRequired
      then Inl ConflictingPolicies else Inr ())"

record policy_snapshot =
  ps_generation :: u64
  ps_config :: policy_config

definition default_snapshot :: policy_snapshot where
  "default_snapshot = \<lparr>ps_generation = 1, ps_config = default_policy\<rparr>"

definition snapshot_new :: "u64 \<Rightarrow> policy_config \<Rightarrow> (policy_error, policy_snapshot) result" where
  "snapshot_new generation config =
     (if generation = 0 then Inl ZeroGeneration
      else case policy_validate config of
             Inl _ \<Rightarrow> Inl ConflictingPolicies
           | Inr _ \<Rightarrow> Inr \<lparr>ps_generation = generation, ps_config = config\<rparr>)"

definition PERSISTED_MAGIC :: bytes where
  "PERSISTED_MAGIC = [72, 78, 83, 80, 79, 76, 49, 0]"

definition PERSISTED_SCHEMA :: u16 where "PERSISTED_SCHEMA = 3"

definition PERSISTED_SCHEMA_V2 :: u16 where "PERSISTED_SCHEMA_V2 = 2"

definition LEGACY_PERSISTED_SCHEMA :: u16 where "LEGACY_PERSISTED_SCHEMA = 1"

definition PERSISTED_PAYLOAD_LEN :: u16 where "PERSISTED_PAYLOAD_LEN = 16"

definition PERSISTED_POLICY_LEN :: usize where "PERSISTED_POLICY_LEN = 32"

definition crc_round :: "u32 \<Rightarrow> u32" where
  "crc_round crc = drop_bit 1 crc XOR (0xedb88320 AND (0 - (crc AND 1)))"

definition crc_byte :: "u32 \<Rightarrow> u8 \<Rightarrow> u32" where
  "crc_byte crc b = (crc_round ^^ 8) (crc XOR ucast b)"

definition crc32 :: "bytes \<Rightarrow> u32" where
  "crc32 input = NOT (foldl crc_byte (- 1) input)"

text \<open>\<open>output[a..a + n].copy_from_slice(bs)\<close> on the fixed array.\<close>

definition copy_slice :: "usize \<Rightarrow> bytes \<Rightarrow> bytes \<Rightarrow> bytes" where
  "copy_slice a bs out = take a out @ bs @ drop (a + length bs) out"

definition policy_settings :: "policy_config \<Rightarrow> u16" where
  "policy_settings c =
     (if pc_authenticated_authoritative_doh c then 1 else 0) OR
     push_bit 1 (if pc_allow_legacy_regtest_compatibility c then 1 else 0) OR
     push_bit 2 (if pc_user_configured_recursive_hns_doh c then 1 else 0)"

definition snapshot_encode :: "policy_snapshot \<Rightarrow> bytes" where
  "snapshot_encode s =
     (let c = ps_config s;
          output = replicate PERSISTED_POLICY_LEN 0;
          output = copy_slice 0 PERSISTED_MAGIC output;
          output = copy_slice 8 (be_bytes 2 PERSISTED_SCHEMA) output;
          output = copy_slice 10 (be_bytes 2 PERSISTED_PAYLOAD_LEN) output;
          output = copy_slice 12 (be_bytes 8 (ps_generation s)) output;
          output = output[20 := relay_code (pc_dns_relay_requester c)];
          output = output[21 := oblivious_code (pc_oblivious_dns c)];
          output = output[22 := hnsr_bits (pc_hnsr c)];
          output = output[23 := wire_code (pc_wire_profile c)];
          output = copy_slice 24 (be_bytes 2 (provider_bits (pc_providers c))) output;
          output = copy_slice 26 (be_bytes 2 (policy_settings c)) output;
          checksum = crc32 (take 28 output)
      in copy_slice 28 (be_bytes 4 checksum) output)"

definition policy_byte :: "bytes \<Rightarrow> usize \<Rightarrow> (policy_error, u8) result" where
  "policy_byte input offset = ok_or InvalidEncoding (slice_get input offset)"

definition policy_read_u16 :: "bytes \<Rightarrow> usize \<Rightarrow> (policy_error, u16) result" where
  "policy_read_u16 input offset =
     rbind (ok_or InvalidEncoding (slice_range input offset (offset + 2))) (\<lambda>bs. Inr (be_word bs))"

definition policy_read_u32 :: "bytes \<Rightarrow> usize \<Rightarrow> (policy_error, u32) result" where
  "policy_read_u32 input offset =
     rbind (ok_or InvalidEncoding (slice_range input offset (offset + 4))) (\<lambda>bs. Inr (be_word bs))"

definition policy_read_u64 :: "bytes \<Rightarrow> usize \<Rightarrow> (policy_error, u64) result" where
  "policy_read_u64 input offset =
     rbind (ok_or InvalidEncoding (slice_range input offset (offset + 8))) (\<lambda>bs. Inr (be_word bs))"

definition decode_config :: "u16 \<Rightarrow> u16 \<Rightarrow> u16 \<Rightarrow> bytes \<Rightarrow> (policy_error, policy_config) result" where
  "decode_config schema provider settings input =
     rbind (rbind (policy_byte input 22)
       (if schema = LEGACY_PERSISTED_SCHEMA then legacy_hnsr_policy else hnsr_from_bits)) (\<lambda>hnsr.
     rbind (rbind (policy_byte input 20) relay_try_from) (\<lambda>relay.
     rbind (rbind (policy_byte input 21) oblivious_try_from) (\<lambda>oblivious.
     rbind (rbind (policy_byte input 23) wire_try_from) (\<lambda>wire.
     rbind (provider_from_bits provider) (\<lambda>providers.
     Inr \<lparr>pc_dns_relay_requester = relay, pc_oblivious_dns = oblivious, pc_hnsr = hnsr,
          pc_authenticated_authoritative_doh = settings AND 1 \<noteq> 0,
          pc_user_configured_recursive_hns_doh = schema = PERSISTED_SCHEMA \<and> settings AND 4 \<noteq> 0,
          pc_providers = providers, pc_wire_profile = wire,
          pc_allow_legacy_regtest_compatibility = settings AND 2 \<noteq> 0\<rparr>)))))"

definition snapshot_decode :: "bytes \<Rightarrow> (policy_error, policy_snapshot) result" where
  "snapshot_decode input =
     (if length input \<noteq> PERSISTED_POLICY_LEN \<or> slice_range input 0 8 \<noteq> Some PERSISTED_MAGIC
      then Inl InvalidEncoding
      else
      rbind (policy_read_u16 input 8) (\<lambda>schema.
      rbind (if schema \<in> {LEGACY_PERSISTED_SCHEMA, PERSISTED_SCHEMA_V2, PERSISTED_SCHEMA}
             then rbind (policy_read_u16 input 10) (\<lambda>len.
               if len \<noteq> PERSISTED_PAYLOAD_LEN then Inl UnsupportedSchema else Inr ())
             else Inl UnsupportedSchema) (\<lambda>_.
      rbind (policy_read_u32 input 28) (\<lambda>expected_crc.
      rbind (ok_or InvalidEncoding (slice_range input 0 28)) (\<lambda>payload.
      if crc32 payload \<noteq> expected_crc then Inl ChecksumMismatch
      else
      rbind (policy_read_u64 input 12) (\<lambda>generation.
      if generation = 0 then Inl ZeroGeneration
      else
      rbind (policy_read_u16 input 24) (\<lambda>provider.
      rbind (policy_read_u16 input 26) (\<lambda>settings.
      if settings AND NOT (if schema = PERSISTED_SCHEMA then 7 else 3) \<noteq> 0 then Inl InvalidEncoding
      else
      rbind (decode_config schema provider settings input) (\<lambda>config.
      snapshot_new generation config)))))))))"

section \<open>Transports, plans and the controller\<close>

datatype resolution_transport =
  DirectAuthoritativeUdp | DirectAuthoritativeTcp | AuthenticatedAuthoritativeDoh | HandshakeP2pOdoh
| HandshakeP2pDnsRelay | TransportUnavailable | ValidatingIcannDoh | UserConfiguredRecursiveHnsDoh
| LocalHnsProof

definition transport_try_from :: "u8 \<Rightarrow> (policy_error, resolution_transport) result" where
  "transport_try_from b =
     (if b = 0 then Inr DirectAuthoritativeUdp else if b = 1 then Inr DirectAuthoritativeTcp
      else if b = 2 then Inr AuthenticatedAuthoritativeDoh else if b = 3 then Inr HandshakeP2pOdoh
      else if b = 4 then Inr HandshakeP2pDnsRelay else if b = 5 then Inr TransportUnavailable
      else if b = 6 then Inr ValidatingIcannDoh else if b = 7 then Inr UserConfiguredRecursiveHnsDoh
      else if b = 8 then Inr LocalHnsProof else Inl InvalidEncoding)"

record transport_plan =
  tp_transports :: "resolution_transport list"

definition for_policy :: "policy_config \<Rightarrow> transport_plan" where
  "for_policy c =
     (let transports = [DirectAuthoritativeUdp, DirectAuthoritativeTcp];
          transports = transports @
            (if pc_authenticated_authoritative_doh c then [AuthenticatedAuthoritativeDoh] else []);
          transports = transports @ (if pc_oblivious_dns c \<noteq> OdohDisabled then [HandshakeP2pOdoh] else []);
          relay_allowed =
            (case pc_oblivious_dns c of
               OdohRequired \<Rightarrow> False
             | OdohPreferred \<Rightarrow> False
             | OdohDirectRelayAllowed \<Rightarrow> pc_dns_relay_requester c \<noteq> RelayDisabled
             | OdohDisabled \<Rightarrow> pc_dns_relay_requester c \<noteq> RelayDisabled);
          transports = transports @ (if relay_allowed then [HandshakeP2pDnsRelay] else []);
          transports = transports @
            (if pc_user_configured_recursive_hns_doh c then [UserConfiguredRecursiveHnsDoh] else [])
      in \<lparr>tp_transports = transports\<rparr>)"

definition plan_contains :: "transport_plan \<Rightarrow> resolution_transport \<Rightarrow> bool" where
  "plan_contains p t \<longleftrightarrow> t \<in> set (tp_transports p)"

record admission =
  ad_policy_generation :: u64
  ad_transport :: resolution_transport

record policy_change_effects =
  ef_stop_admitting_disabled_work :: bool
  ef_cancel_or_drain_inflight :: bool
  ef_clear_requester_selections :: bool
  ef_withdraw_advertisements :: bool
  ef_withdraw_hnsr_routes :: bool
  ef_revoke_target_configurations :: bool
  ef_renegotiate_peer_connections :: bool
  ef_update_structured_status :: bool

definition no_effects :: policy_change_effects where
  "no_effects =
     \<lparr>ef_stop_admitting_disabled_work = False, ef_cancel_or_drain_inflight = False,
      ef_clear_requester_selections = False, ef_withdraw_advertisements = False,
      ef_withdraw_hnsr_routes = False, ef_revoke_target_configurations = False,
      ef_renegotiate_peer_connections = False, ef_update_structured_status = False\<rparr>"

record policy_transition =
  pt_previous :: policy_snapshot
  pt_current :: policy_snapshot
  pt_changed :: bool
  pt_effects :: policy_change_effects

record policy_controller =
  ctl_current :: policy_snapshot

definition controller_new :: "policy_snapshot \<Rightarrow> policy_controller" where
  "controller_new s = \<lparr>ctl_current = s\<rparr>"

definition controller_plan :: "policy_controller \<Rightarrow> transport_plan" where
  "controller_plan k = for_policy (ps_config (ctl_current k))"

definition controller_admit ::
  "policy_controller \<Rightarrow> resolution_transport \<Rightarrow> (policy_error, admission) result" where
  "controller_admit k t =
     (if t = TransportUnavailable \<or> \<not> plan_contains (controller_plan k) t then Inl TransportDisabled
      else Inr \<lparr>ad_policy_generation = ps_generation (ctl_current k), ad_transport = t\<rparr>)"

definition accept_completion :: "policy_controller \<Rightarrow> admission \<Rightarrow> (policy_error, unit) result" where
  "accept_completion k a =
     (if ad_policy_generation a \<noteq> ps_generation (ctl_current k) then Inl StaleGeneration
      else if \<not> plan_contains (controller_plan k) (ad_transport a) then Inl TransportDisabled
      else Inr ())"

definition transition_effects :: "policy_config \<Rightarrow> policy_config \<Rightarrow> policy_change_effects" where
  "transition_effects previous current =
     (let requester_changed =
            pc_dns_relay_requester previous \<noteq> pc_dns_relay_requester current \<or>
            pc_oblivious_dns previous \<noteq> pc_oblivious_dns current \<or>
            pc_authenticated_authoritative_doh previous \<noteq> pc_authenticated_authoritative_doh current \<or>
            pc_user_configured_recursive_hns_doh previous \<noteq> pc_user_configured_recursive_hns_doh current \<or>
            requester_enabled (pc_hnsr previous) \<noteq> requester_enabled (pc_hnsr current);
          hnsr_providers_changed =
            hnsr_provider_bits (pc_hnsr previous) \<noteq> hnsr_provider_bits (pc_hnsr current);
          providers_changed = (pc_providers previous \<noteq> pc_providers current \<or> hnsr_providers_changed);
          removed_provider =
            (provider_bits (pc_providers previous) AND NOT (provider_bits (pc_providers current)) \<noteq> 0 \<or>
             hnsr_provider_bits (pc_hnsr previous) AND NOT (hnsr_provider_bits (pc_hnsr current)) \<noteq> 0)
      in \<lparr>ef_stop_admitting_disabled_work = True,
          ef_cancel_or_drain_inflight = True,
          ef_clear_requester_selections = requester_changed,
          ef_withdraw_advertisements = removed_provider,
          ef_withdraw_hnsr_routes =
            hnsr_provider_bits (pc_hnsr previous) AND NOT (hnsr_provider_bits (pc_hnsr current)) \<noteq> 0,
          ef_revoke_target_configurations =
            pv_odoh_target (pc_providers previous) \<and> \<not> pv_odoh_target (pc_providers current),
          ef_renegotiate_peer_connections =
            providers_changed \<or> pc_wire_profile previous \<noteq> pc_wire_profile current,
          ef_update_structured_status = True\<rparr>)"

definition controller_replace ::
  "policy_controller \<Rightarrow> u64 \<Rightarrow> policy_config \<Rightarrow> policy_controller \<times> (policy_error, policy_transition) result" where
  "controller_replace k expected_generation next_config =
     (if expected_generation \<noteq> ps_generation (ctl_current k) then (k, Inl StaleGeneration)
      else case policy_validate next_config of
             Inl e \<Rightarrow> (k, Inl e)
           | Inr _ \<Rightarrow>
               let previous = ctl_current k in
               if ps_config previous = next_config then
                 (k, Inr \<lparr>pt_previous = previous, pt_current = previous, pt_changed = False,
                          pt_effects = no_effects\<rparr>)
               else case u64_checked_add (ps_generation previous) 1 of
                      None \<Rightarrow> (k, Inl GenerationExhausted)
                    | Some generation \<Rightarrow>
                        let current = \<lparr>ps_generation = generation, ps_config = next_config\<rparr>;
                            effects = transition_effects (ps_config previous) next_config
                        in (k\<lparr>ctl_current := current\<rparr>,
                            Inr \<lparr>pt_previous = previous, pt_current = current, pt_changed = True,
                                 pt_effects = effects\<rparr>))"

section \<open>Evidence\<close>

datatype evidence_state = Verified | Failed | EvUnavailable | Unsupported | NotAttempted | Stale | EvRevoked

record validation_evidence =
  ve_hns_proof :: evidence_state
  ve_dnssec :: evidence_state
  ve_tlsa :: evidence_state
  ve_dane :: evidence_state
  ve_chain_current :: evidence_state
  ve_origin_sni :: evidence_state

definition evidence_not_attempted :: validation_evidence where
  "evidence_not_attempted =
     \<lparr>ve_hns_proof = NotAttempted, ve_dnssec = NotAttempted, ve_tlsa = NotAttempted,
      ve_dane = NotAttempted, ve_chain_current = NotAttempted, ve_origin_sni = NotAttempted\<rparr>"

definition evidence_revoked :: validation_evidence where
  "evidence_revoked =
     \<lparr>ve_hns_proof = EvRevoked, ve_dnssec = EvRevoked, ve_tlsa = EvRevoked,
      ve_dane = EvRevoked, ve_chain_current = EvRevoked, ve_origin_sni = EvRevoked\<rparr>"

definition fully_verified :: "validation_evidence \<Rightarrow> bool" where
  "fully_verified v \<longleftrightarrow>
     ve_hns_proof v = Verified \<and> ve_dnssec v = Verified \<and> ve_tlsa v = Verified \<and>
     ve_dane v = Verified \<and> ve_chain_current v = Verified \<and> ve_origin_sni v = Verified"

datatype policy_network = PolMainnet | PolTestnet | PolRegtest | PolSimnet

record chain_anchor =
  ca_height :: u32
  ca_tree_root :: bytes

record resolution_provenance =
  rp_schema_version :: u16
  rp_runtime_session :: bytes
  rp_runtime_generation :: u64
  rp_policy_generation :: u64
  rp_event_sequence :: u64
  rp_network :: policy_network
  rp_chain_anchor :: "chain_anchor option"
  rp_transport :: resolution_transport
  rp_peer_identity :: "bytes option"
  rp_proxy_identity :: "bytes option"
  rp_target_identity :: "bytes option"
  rp_direct_relay_fallback :: bool
  rp_registry_profile :: wire_profile
  rp_evidence :: validation_evidence
  rp_untrusted_ad_claim :: bool

definition require_verified_hns_https :: "resolution_provenance \<Rightarrow> (policy_error, unit) result" where
  "require_verified_hns_https p =
     (if fully_verified (rp_evidence p) then Inr () else Inl UnverifiedEvidence)"

end
