(* ===== verification/Policy_Laws.thy ===== *)
theory Policy_Laws
  imports Policy
begin

unbundle bit_operations_syntax

text \<open>
  Correctness of the resolution policy: the persisted form round-trips and detects every single-byte
  corruption, plans are ordered and fail closed, admissions live exactly as long as the policy they were
  given under, and the effects of a change name every withdrawn role.
\<close>

section \<open>The checksum\<close>

lemma crc_round_eq: "crc_round w = drop_bit 1 w XOR (if bit w 0 then 0xedb88320 else 0)"
proof -
  have "w AND 1 = (if bit w 0 then 1 else 0)" by (simp add: and_one_eq mod_2_eq_odd bit_0)
  then show ?thesis by (simp add: crc_round_def)
qed

lemma xor_cancel: "a XOR c = b XOR c \<Longrightarrow> a = (b :: 'w::len word)"
proof -
  assume "a XOR c = b XOR c"
  then have "(a XOR c) XOR c = (b XOR c) XOR c" by (rule arg_cong)
  then show ?thesis by (simp add: xor.assoc)
qed

lemma crc_round_inj: "crc_round v = crc_round w \<Longrightarrow> v = w"
proof -
  assume eq: "crc_round v = crc_round w"
  have top: "bit (crc_round u) 31 = bit u 0" for u
  proof -
    have "bit (drop_bit 1 u) 31 = False" using bit_imp_le_length [of u 32] by (auto simp: bit_drop_bit_eq)
    moreover have "bit (0xedb88320 :: u32) 31" by simp
    ultimately show ?thesis by (simp add: crc_round_eq bit_xor_iff)
  qed
  then have low: "bit v 0 = bit w 0" using eq by metis
  then have "drop_bit 1 v = drop_bit 1 w" using eq xor_cancel by (auto simp: crc_round_eq split: if_splits)
  then have "bit v (Suc n) = bit w (Suc n)" for n by (metis bit_drop_bit_eq comp_apply plus_1_eq_Suc)
  with low have "bit v n = bit w n" for n by (cases n) auto
  then show "v = w" by (intro bit_eqI) simp
qed

lemma crc_rounds_inj: "(crc_round ^^ n) v = (crc_round ^^ n) w \<Longrightarrow> v = w"
  by (induction n) (auto dest: crc_round_inj)

lemma ucast_u8_u32_inj: "(ucast a :: u32) = ucast b \<Longrightarrow> a = (b :: u8)"
proof -
  assume "(ucast a :: u32) = ucast b"
  moreover have "unat (ucast c :: u32) = unat c" for c :: u8
    using unsigned_less [where 'a = nat, of c] by (simp add: unsigned_ucast_eq take_bit_nat_eq_self)
  ultimately show "a = b" by (metis word_unat_eq_iff)
qed

lemma crc_byte_inj:
  "crc_byte c a = crc_byte d a \<Longrightarrow> c = d"
  "crc_byte c a = crc_byte c b \<Longrightarrow> a = b"
proof -
  assume "crc_byte c a = crc_byte d a"
  then have "c XOR ucast a = d XOR ucast a" unfolding crc_byte_def by (rule crc_rounds_inj)
  then show "c = d" by (rule xor_cancel)
next
  assume "crc_byte c a = crc_byte c b"
  then have "c XOR ucast a = c XOR ucast b" unfolding crc_byte_def by (rule crc_rounds_inj)
  then have "ucast a XOR c = ucast b XOR c" by (simp only: xor.commute)
  then have "(ucast a :: u32) = ucast b" by (rule xor_cancel)
  then show "a = b" by (rule ucast_u8_u32_inj)
qed

lemma crc_fold_inj: "foldl crc_byte c bs = foldl crc_byte d bs \<Longrightarrow> c = d"
  by (induction bs arbitrary: c d) (auto dest: crc_byte_inj)

lemma crc32_update:
  assumes "i < length bs" and "b \<noteq> bs ! i"
  shows "crc32 (bs[i := b]) \<noteq> crc32 bs"
proof
  assume "crc32 (bs[i := b]) = crc32 bs"
  then have "foldl crc_byte (- 1) (bs[i := b]) = foldl crc_byte (- 1) bs" by (simp add: crc32_def)
  then have "foldl crc_byte (- 1) (take i bs @ b # drop (Suc i) bs) = foldl crc_byte (- 1) (take i bs @ bs ! i # drop (Suc i) bs)"
    using assms(1) by (simp only: upd_conv_take_nth_drop id_take_nth_drop [symmetric])
  then have "crc_byte (foldl crc_byte (- 1) (take i bs)) b = crc_byte (foldl crc_byte (- 1) (take i bs)) (bs ! i)"
    by (auto intro: crc_fold_inj)
  then show False using assms(2) crc_byte_inj(2) by blast
qed

section \<open>The persisted form\<close>

definition policy_payload :: "policy_snapshot \<Rightarrow> bytes" where
  "policy_payload s = (let c = ps_config s in
     PERSISTED_MAGIC @ be_bytes 2 PERSISTED_SCHEMA @ be_bytes 2 PERSISTED_PAYLOAD_LEN @
     be_bytes 8 (ps_generation s) @
     [relay_code (pc_dns_relay_requester c), oblivious_code (pc_oblivious_dns c), hnsr_bits (pc_hnsr c),
      wire_code (pc_wire_profile c)] @
     be_bytes 2 (provider_bits (pc_providers c)) @ be_bytes 2 (policy_settings c))"

lemma copy_slice_at:
  "length pre = a \<Longrightarrow> copy_slice a bs (pre @ rest) = (pre @ bs) @ drop (length bs) rest"
  by (simp add: copy_slice_def)

lemma update_at: "length pre = a \<Longrightarrow> (pre @ x # rest)[a := y] = (pre @ [y]) @ rest"
  by (simp add: list_update_append)

lemma snapshot_encode_eq:
  "snapshot_encode s = policy_payload s @ be_bytes 4 (crc32 (policy_payload s))" "length (policy_payload s) = 28"
proof -
  let ?c = "ps_config s"
  have magic: "length PERSISTED_MAGIC = 8" by (simp add: PERSISTED_MAGIC_def)
  then show len: "length (policy_payload s) = 28" by (simp add: policy_payload_def Let_def)
  let ?o1 = "PERSISTED_MAGIC @ be_bytes 2 PERSISTED_SCHEMA @ be_bytes 2 PERSISTED_PAYLOAD_LEN @ be_bytes 8 (ps_generation s)"
  have o1: "copy_slice 12 (be_bytes 8 (ps_generation s)) (copy_slice 10 (be_bytes 2 PERSISTED_PAYLOAD_LEN)
      (copy_slice 8 (be_bytes 2 PERSISTED_SCHEMA) (copy_slice 0 PERSISTED_MAGIC (replicate 32 0)))) =
      ?o1 @ replicate 12 0"
    using magic copy_slice_at [of "[]" 0 PERSISTED_MAGIC "replicate 32 0"]
    by (simp add: copy_slice_at del: append_assoc)
  have o2: "((((?o1 @ replicate 12 0)[20 := a])[21 := b])[22 := c])[23 := d] = (?o1 @ [a, b, c, d]) @ replicate 8 0" for a b c d
    using magic by (simp add: list_update_append numeral_eq_Suc)
  have o3: "copy_slice 26 q (copy_slice 24 p ((?o1 @ [a, b, c, d]) @ replicate 8 0)) =
      (?o1 @ [a, b, c, d] @ p @ q) @ replicate 4 0" if "length p = 2" "length q = 2" for a b c d p q
    using magic that by (simp add: copy_slice_at del: append_assoc)
  have payload: "policy_payload s = ?o1 @ [relay_code (pc_dns_relay_requester ?c), oblivious_code (pc_oblivious_dns ?c),
      hnsr_bits (pc_hnsr ?c), wire_code (pc_wire_profile ?c)] @ be_bytes 2 (provider_bits (pc_providers ?c)) @
      be_bytes 2 (policy_settings ?c)"
    by (simp add: policy_payload_def Let_def)
  have "snapshot_encode s = copy_slice 28 (be_bytes 4 (crc32 (take 28 (policy_payload s @ replicate 4 0))))
      (policy_payload s @ replicate 4 0)"
    unfolding snapshot_encode_def Let_def PERSISTED_POLICY_LEN_def o1 o2 payload
    by (subst (1 2) o3) simp_all
  then show "snapshot_encode s = policy_payload s @ be_bytes 4 (crc32 (policy_payload s))"
    using len by (simp add: copy_slice_at)
qed

lemma code_roundtrips [simp]:
  "relay_try_from (relay_code r) = Inr r" "oblivious_try_from (oblivious_code v) = Inr v"
  "wire_try_from (wire_code w) = Inr w"
proof -
  show "relay_try_from (relay_code r) = Inr r" by (cases r) (simp_all add: relay_try_from_def)
  show "oblivious_try_from (oblivious_code v) = Inr v" by (cases v) (simp_all add: oblivious_try_from_def)
  show "wire_try_from (wire_code w) = Inr w" by (cases w) (simp_all add: wire_try_from_def)
qed

lemma try_from_code:
  "relay_try_from b = Inr r \<Longrightarrow> relay_code r = b" "oblivious_try_from b = Inr v \<Longrightarrow> oblivious_code v = b"
  "wire_try_from b = Inr w \<Longrightarrow> wire_code w = b"
  by (auto simp: relay_try_from_def oblivious_try_from_def wire_try_from_def split: if_splits)

lemma provider_from_bits_bits [simp]: "provider_from_bits (provider_bits p) = Inr p"
  by (cases p) (auto simp: provider_from_bits_def provider_bits_def PROVIDER_KNOWN_BITS_def)

lemma small_word:
  assumes "(b :: u16) AND NOT m = 0" and "m = mask k"
  shows "\<exists>n < 2 ^ k. b = of_nat n"
proof -
  have "b = take_bit k b"
  proof (rule bit_eqI)
    fix n
    have "\<not> bit (b AND NOT m) n" using assms(1) by simp
    then show "bit b n = bit (take_bit k b) n"
      unfolding assms(2) by (auto simp: bit_simps dest: bit_imp_le_length)
  qed
  then have "unat b = take_bit k (unat b)" by (metis unsigned_take_bit_eq)
  then have "unat b < 2 ^ k" by (metis take_bit_nat_less_exp)
  then show ?thesis by (intro exI [of _ "unat b"]) simp
qed

lemma small_word_cases:
  assumes "n < 2 ^ k" and "b = (of_nat n :: u16)"
  shows "list_ex (\<lambda>v. b = v) (map of_nat [0..<2 ^ k])"
  using assms by (auto simp: list_ex_iff)

lemma bits_provider: "provider_from_bits b = Inr p \<Longrightarrow> provider_bits p = b"
proof -
  assume p: "provider_from_bits b = Inr p"
  then have known: "b AND NOT 15 = 0" by (simp add: provider_from_bits_def PROVIDER_KNOWN_BITS_def split: if_splits)
  obtain n where n: "n < 2 ^ 4" "b = of_nat n"
    using small_word [OF known, of 4] by (simp only: mask_eq_exp_minus_1) auto
  have "list_ex (\<lambda>v. b = v) (map of_nat [0..<2 ^ 4])" using small_word_cases [OF n] .
  then have "b \<in> set (map of_nat [0..<16])" by (simp add: list_ex_iff)
  then show ?thesis using p
    by (simp add: upt_rec, elim disjE) (auto simp: provider_from_bits_def provider_bits_def PROVIDER_KNOWN_BITS_def)
qed

lemma policy_reads:
  assumes "length bs = 32"
  shows "off + 2 \<le> 32 \<Longrightarrow> policy_read_u16 bs off = Inr (be_word (take 2 (drop off bs)))"
    "off + 4 \<le> 32 \<Longrightarrow> policy_read_u32 bs off = Inr (be_word (take 4 (drop off bs)))"
    "off + 8 \<le> 32 \<Longrightarrow> policy_read_u64 bs off = Inr (be_word (take 8 (drop off bs)))"
    "off < 32 \<Longrightarrow> policy_byte bs off = Inr (bs ! off)"
  using assms by (simp_all add: policy_read_u16_def policy_read_u32_def policy_read_u64_def policy_byte_def
      slice_range_def slice_get_def)

definition wf_snapshot :: "policy_snapshot \<Rightarrow> bool" where
  "wf_snapshot s \<longleftrightarrow> ps_generation s \<noteq> 0 \<and> policy_validate (ps_config s) = Inr () \<and>
     hnsr_bits (pc_hnsr (ps_config s)) AND NOT HNSR_KNOWN_BITS = 0"

lemma snapshot_collapse [simp]: "\<lparr>ps_generation = ps_generation s, ps_config = ps_config s\<rparr> = s"
  by simp

lemma snapshot_new_Inr [result_inv]:
  "snapshot_new g c = Inr s \<longleftrightarrow> g \<noteq> 0 \<and> policy_validate c = Inr () \<and> s = \<lparr>ps_generation = g, ps_config = c\<rparr>"
  by (auto simp: snapshot_new_def split: sum.splits)

lemma settings_bits:
  "policy_settings c AND NOT 7 = 0" "policy_settings c AND - 8 = 0"
  "policy_settings c AND 1 \<noteq> 0 \<longleftrightarrow> pc_authenticated_authoritative_doh c"
  "policy_settings c AND 2 \<noteq> 0 \<longleftrightarrow> pc_allow_legacy_regtest_compatibility c"
  "policy_settings c AND 4 \<noteq> 0 \<longleftrightarrow> pc_user_configured_recursive_hns_doh c"
  by (simp_all add: policy_settings_def)

lemma snapshot_decode_encode:
  assumes "wf_snapshot s"
  shows "snapshot_decode (snapshot_encode s) = Inr s"
proof -
  let ?c = "ps_config s" and ?bs = "policy_payload s @ be_bytes 4 (crc32 (policy_payload s))"
  have len: "length ?bs = 32" using snapshot_encode_eq(2) by simp
  have magic: "length PERSISTED_MAGIC = 8" by (simp add: PERSISTED_MAGIC_def)
  note p = policy_payload_def Let_def
  have fields: "take 8 ?bs = PERSISTED_MAGIC" "take 2 (drop 8 ?bs) = be_bytes 2 PERSISTED_SCHEMA"
      "take 2 (drop 10 ?bs) = be_bytes 2 PERSISTED_PAYLOAD_LEN" "take 8 (drop 12 ?bs) = be_bytes 8 (ps_generation s)"
      "?bs ! 20 = relay_code (pc_dns_relay_requester ?c)" "?bs ! 21 = oblivious_code (pc_oblivious_dns ?c)"
      "?bs ! 22 = hnsr_bits (pc_hnsr ?c)" "?bs ! 23 = wire_code (pc_wire_profile ?c)"
      "take 2 (drop 24 ?bs) = be_bytes 2 (provider_bits (pc_providers ?c))"
      "take 2 (drop 26 ?bs) = be_bytes 2 (policy_settings ?c)"
    using magic by (simp_all add: p nth_append)
  have crc: "take 4 (drop 28 ?bs) = be_bytes 4 (crc32 (policy_payload s))" "take 28 ?bs = policy_payload s"
    using snapshot_encode_eq(2) by simp_all
  have config: "decode_config PERSISTED_SCHEMA (provider_bits (pc_providers ?c)) (policy_settings ?c) ?bs = Inr ?c"
    using assms fields len
    by (simp add: decode_config_def policy_reads hnsr_from_bits_def wf_snapshot_def LEGACY_PERSISTED_SCHEMA_def
        PERSISTED_SCHEMA_def settings_bits)
  show ?thesis
    unfolding snapshot_encode_eq snapshot_decode_def
    using assms len fields crc config
    by (simp add: PERSISTED_POLICY_LEN_def slice_range_def policy_reads settings_bits wf_snapshot_def
        snapshot_new_def PERSISTED_SCHEMA_def PERSISTED_PAYLOAD_LEN_def)
qed

text \<open>What an accepted encoding looks like.\<close>

lemma snapshot_decode_Inr:
  assumes "snapshot_decode bs = Inr s"
  shows "length bs = 32" "take 8 bs = PERSISTED_MAGIC" "be_word (take 2 (drop 8 bs)) \<in> {1, 2, 3 :: u16}"
    "be_word (take 2 (drop 10 bs)) = PERSISTED_PAYLOAD_LEN" "crc32 (take 28 bs) = be_word (take 4 (drop 28 bs))"
    "ps_generation s = be_word (take 8 (drop 12 bs))" "ps_generation s \<noteq> 0"
    "policy_validate (ps_config s) = Inr ()"
    "be_word (take 2 (drop 26 bs)) AND NOT (if be_word (take 2 (drop 8 bs)) = (3 :: u16) then 7 else 3) = (0 :: u16)"
    "decode_config (be_word (take 2 (drop 8 bs))) (be_word (take 2 (drop 24 bs))) (be_word (take 2 (drop 26 bs))) bs =
       Inr (ps_config s)"
proof -
  show len: "length bs = 32" using assms by (simp add: snapshot_decode_def PERSISTED_POLICY_LEN_def split: if_splits)
  note d = assms [unfolded snapshot_decode_def PERSISTED_POLICY_LEN_def]
  show "take 8 bs = PERSISTED_MAGIC" "be_word (take 2 (drop 8 bs)) \<in> {1, 2, 3 :: u16}"
    "be_word (take 2 (drop 10 bs)) = PERSISTED_PAYLOAD_LEN" "crc32 (take 28 bs) = be_word (take 4 (drop 28 bs))"
    "ps_generation s = be_word (take 8 (drop 12 bs))" "ps_generation s \<noteq> 0"
    "policy_validate (ps_config s) = Inr ()"
    "be_word (take 2 (drop 26 bs)) AND NOT (if be_word (take 2 (drop 8 bs)) = (3 :: u16) then 7 else 3) = (0 :: u16)"
    "decode_config (be_word (take 2 (drop 8 bs))) (be_word (take 2 (drop 24 bs))) (be_word (take 2 (drop 26 bs))) bs =
       Inr (ps_config s)"
    using d len by (auto simp: slice_range_def policy_reads result_inv PERSISTED_SCHEMA_def PERSISTED_SCHEMA_V2_def
        LEGACY_PERSISTED_SCHEMA_def split: if_splits)
qed

lemma decode_config_Inr:
  assumes "decode_config schema provider settings bs = Inr c" and "length bs = 32" and "schema \<noteq> LEGACY_PERSISTED_SCHEMA"
  shows "relay_code (pc_dns_relay_requester c) = bs ! 20" "oblivious_code (pc_oblivious_dns c) = bs ! 21"
    "hnsr_bits (pc_hnsr c) = bs ! 22" "hnsr_bits (pc_hnsr c) AND NOT HNSR_KNOWN_BITS = 0"
    "wire_code (pc_wire_profile c) = bs ! 23" "provider_bits (pc_providers c) = provider"
  using assms by (auto simp: decode_config_def policy_reads result_inv hnsr_from_bits_def
      dest: try_from_code bits_provider split: if_splits)

lemma settings_from_bits:
  assumes "settings AND NOT 7 = 0" and "decode_config PERSISTED_SCHEMA provider settings bs = Inr c"
  shows "policy_settings c = settings"
proof -
  obtain n where n: "n < 2 ^ 3" "settings = of_nat n"
    using small_word [OF assms(1), of 3] by (simp only: mask_eq_exp_minus_1) auto
  have "list_ex (\<lambda>v. settings = v) (map of_nat [0..<2 ^ 3])" using small_word_cases [OF n] .
  then have "settings \<in> {0, 1, 2, 3, 4, 5, 6, 7}" by (simp add: upt_rec)
  moreover have "pc_authenticated_authoritative_doh c = (settings AND 1 \<noteq> 0)"
      "pc_user_configured_recursive_hns_doh c = (settings AND 4 \<noteq> 0)"
      "pc_allow_legacy_regtest_compatibility c = (settings AND 2 \<noteq> 0)"
    using assms(2) by (auto simp: decode_config_def result_inv)
  ultimately show ?thesis by (elim insertE emptyE) (simp_all add: policy_settings_def)
qed

lemma split_policy:
  "length bs = 32 \<Longrightarrow>
   bs = take 8 bs @ take 2 (drop 8 bs) @ take 2 (drop 10 bs) @ take 8 (drop 12 bs) @
     [bs ! 20, bs ! 21, bs ! 22, bs ! 23] @ take 2 (drop 24 bs) @ take 2 (drop 26 bs) @ drop 28 bs"
  by (rule nth_equalityI) (auto simp: nth_append nth_Cons' intro!: arg_cong [where f = "(!) bs"])

lemma snapshot_encode_decode:
  assumes "snapshot_decode bs = Inr s" and "be_word (take 2 (drop 8 bs)) = PERSISTED_SCHEMA"
  shows "snapshot_encode s = bs" "wf_snapshot s"
proof -
  note d = snapshot_decode_Inr [OF assms(1)]
  have "PERSISTED_SCHEMA \<noteq> LEGACY_PERSISTED_SCHEMA" by (simp add: PERSISTED_SCHEMA_def LEGACY_PERSISTED_SCHEMA_def)
  note c = decode_config_Inr [OF d(10) [unfolded assms(2)] d(1) this]
  show "wf_snapshot s" using d(7,8) c(4) by (simp add: wf_snapshot_def)
  have st: "policy_settings (ps_config s) = be_word (take 2 (drop 26 bs))"
    using settings_from_bits d(9,10) assms(2) by (simp add: PERSISTED_SCHEMA_def)
  have be: "be_bytes 2 (be_word (take 2 (drop k bs)) :: u16) = take 2 (drop k bs)" if "k \<le> 30" for k
    using that d(1) by (intro be_bytes_be_word) simp_all
  have be8: "be_bytes 8 (be_word (take 8 (drop 12 bs)) :: u64) = take 8 (drop 12 bs)"
    using d(1) by (intro be_bytes_be_word) simp_all
  have "policy_payload s = take 8 bs @ take 2 (drop 8 bs) @ take 2 (drop 10 bs) @ take 8 (drop 12 bs) @
     [bs ! 20, bs ! 21, bs ! 22, bs ! 23] @ take 2 (drop 24 bs) @ take 2 (drop 26 bs)"
    unfolding policy_payload_def Let_def
    by (simp add: d(2) assms(2) [symmetric] d(4) [symmetric] d(6) c st be be8)
  then have split: "policy_payload s @ drop 28 bs = bs" using split_policy [OF d(1)] by simp
  then have "take 28 bs = policy_payload s" using snapshot_encode_eq(2) [of s] by (metis append_eq_conv_conj)
  moreover have "be_bytes 4 (be_word (take 4 (drop 28 bs)) :: u32) = drop 28 bs"
    using d(1) be_bytes_be_word [of "drop 28 bs" 4, where ?'w = 32] by simp
  ultimately show "snapshot_encode s = bs" using d(5) split by (simp add: snapshot_encode_eq(1))
qed

lemma be_word4_inj:
  "length xs = 4 \<Longrightarrow> length ys = 4 \<Longrightarrow> be_word xs = (be_word ys :: u32) \<Longrightarrow> xs = ys"
proof -
  assume len: "length xs = 4" "length ys = 4" and eq: "be_word xs = (be_word ys :: u32)"
  have be: "be_bytes 4 (be_word zs :: u32) = zs" if "length zs = 4" for zs
    using that by (rule be_bytes_be_word) simp
  show "xs = ys" using be [OF len(1)] be [OF len(2)] eq by metis
qed

section \<open>The controller as a machine\<close>

fun controller_exec :: "policy_controller \<Rightarrow> u64 \<times> policy_config \<Rightarrow> policy_controller" where
  "controller_exec k (g, c) = fst (controller_replace k g c)"

lemma controller_replace_cases:
  "fst (controller_replace k g c) = k \<or>
   ps_generation (ctl_current k) \<noteq> - 1 \<and> policy_validate c = Inr () \<and> ps_config (ctl_current k) \<noteq> c \<and>
   fst (controller_replace k g c) = k\<lparr>ctl_current := \<lparr>ps_generation = ps_generation (ctl_current k) + 1, ps_config = c\<rparr>\<rparr>"
  by (auto simp: controller_replace_def Let_def u64_succ split: sum.splits option.splits if_splits)

definition controller_rank :: "policy_controller \<Rightarrow> nat" where
  "controller_rank k = unat (ps_generation (ctl_current k))"

lemma controller_exec_rank: "controller_exec k op = k \<or> controller_rank k < controller_rank (controller_exec k op)"
proof (cases op)
  case (Pair g c)
  then show ?thesis using controller_replace_cases [of k g c] by (auto simp: controller_rank_def unat_succ)
qed

lemma controller_exec_mono: "controller_rank k \<le> controller_rank (controller_exec k op)"
  using controller_exec_rank [of k op] by auto

interpretation policy_machine: ranked_machine controller_exec "\<lambda>_. True" controller_rank
  by unfold_locales (simp_all only: controller_exec_mono)

lemma run_same_rank:
  "controller_rank (foldl controller_exec k ops) = controller_rank k \<Longrightarrow> foldl controller_exec k ops = k"
proof (induction ops arbitrary: k)
  case (Cons op ops)
  have le: "controller_rank (controller_exec k op) \<le> controller_rank (foldl controller_exec k (op # ops))"
    using policy_machine.run_rank [of "controller_exec k op" ops] by simp
  then have "controller_exec k op = k" using controller_exec_rank [of k op] Cons.prems by auto
  then show ?case using Cons by simp
qed simp

lemma run_unchanged_iff:
  "foldl controller_exec k ops = k \<longleftrightarrow>
     (\<forall>pre op post. ops = pre @ op # post \<longrightarrow> controller_exec (foldl controller_exec k pre) op = foldl controller_exec k pre)"
  (is "?l = ?r")
proof
  assume l: ?l
  have same: "foldl controller_exec k pre = k" if "ops = pre @ post" for pre post
  proof (rule run_same_rank)
    have "controller_rank (foldl controller_exec k pre) \<le> controller_rank k"
      using policy_machine.run_rank [of "foldl controller_exec k pre" post] that l by simp
    then show "controller_rank (foldl controller_exec k pre) = controller_rank k"
      using policy_machine.run_rank [of k pre] by simp
  qed
  show ?r
  proof (intro allI impI)
    fix pre op post assume ops: "ops = pre @ op # post"
    have "foldl controller_exec k pre = k" "foldl controller_exec k (pre @ [op]) = k"
      using same [of pre "op # post"] same [of "pre @ [op]" post] ops by simp_all
    then show "controller_exec (foldl controller_exec k pre) op = foldl controller_exec k pre" by simp
  qed
next
  assume ?r
  then show ?l
  proof (induction ops rule: rev_induct)
    case (snoc op ops)
    have "controller_exec (foldl controller_exec k pre) x = foldl controller_exec k pre" if "ops = pre @ x # post" for pre x post
      using snoc.prems [rule_format, of pre x "post @ [op]"] that by simp
    then have "foldl controller_exec k ops = k" using snoc.IH by blast
    then show ?case using snoc.prems [rule_format, of ops op "[]"] by simp
  qed simp
qed

section \<open>Plans\<close>

definition plan_front :: "resolution_transport list" where
  "plan_front = [DirectAuthoritativeUdp, DirectAuthoritativeTcp, AuthenticatedAuthoritativeDoh, HandshakeP2pOdoh,
     HandshakeP2pDnsRelay]"

fun plan_allows :: "policy_config \<Rightarrow> resolution_transport \<Rightarrow> bool" where
  "plan_allows c AuthenticatedAuthoritativeDoh = pc_authenticated_authoritative_doh c"
| "plan_allows c HandshakeP2pOdoh = (pc_oblivious_dns c \<noteq> OdohDisabled)"
| "plan_allows c HandshakeP2pDnsRelay =
     (pc_oblivious_dns c \<in> {OdohDirectRelayAllowed, OdohDisabled} \<and> pc_dns_relay_requester c \<noteq> RelayDisabled)"
| "plan_allows c UserConfiguredRecursiveHnsDoh = pc_user_configured_recursive_hns_doh c"
| "plan_allows c _ = True"

text \<open>A plan is the fixed preference order restricted to what the policy allows.\<close>

lemma plan_filter:
  "tp_transports (for_policy c) = filter (plan_allows c) (plan_front @ [UserConfiguredRecursiveHnsDoh])"
proof -
  have "(case pc_oblivious_dns c of OdohRequired \<Rightarrow> False | OdohPreferred \<Rightarrow> False
      | OdohDirectRelayAllowed \<Rightarrow> pc_dns_relay_requester c \<noteq> RelayDisabled
      | OdohDisabled \<Rightarrow> pc_dns_relay_requester c \<noteq> RelayDisabled) = plan_allows c HandshakeP2pDnsRelay"
    by (cases "pc_oblivious_dns c") simp_all
  then show ?thesis unfolding for_policy_def Let_def plan_front_def by simp
qed

section \<open>Withdrawn roles\<close>

lemma lost_bits: "p AND NOT q \<noteq> 0 \<longleftrightarrow> (\<exists>n. bit p n \<and> \<not> bit q n)" for p q :: "'w::len word"
  by (auto simp: bit_eq_iff bit_simps dest: bit_imp_le_length)

lemma bit_powers:
  "bit (1 :: 'w::len word) n \<longleftrightarrow> n = 0" "3 < LENGTH('w) \<Longrightarrow> bit (2 :: 'w word) n \<longleftrightarrow> n = 1"
  "3 < LENGTH('w) \<Longrightarrow> bit (4 :: 'w word) n \<longleftrightarrow> n = 2" "3 < LENGTH('w) \<Longrightarrow> bit (8 :: 'w word) n \<longleftrightarrow> n = 3"
  using bit_exp_iff [of 1 n, where 'a = "'w word"] bit_exp_iff [of 2 n, where 'a = "'w word"]
    bit_exp_iff [of 3 n, where 'a = "'w word"]
  by (auto simp: bit_1_iff)

lemma bits_u16: "bit (1 :: u16) n \<longleftrightarrow> n = 0" "bit (2 :: u16) n \<longleftrightarrow> n = 1" "bit (4 :: u16) n \<longleftrightarrow> n = 2" "bit (8 :: u16) n \<longleftrightarrow> n = 3"
  by (rule bit_powers; simp)+

lemma bits_u8: "bit (1 :: u8) n \<longleftrightarrow> n = 0" "bit (2 :: u8) n \<longleftrightarrow> n = 1" "bit (4 :: u8) n \<longleftrightarrow> n = 2" "bit (8 :: u8) n \<longleftrightarrow> n = 3"
  by (rule bit_powers; simp)+

lemma bit_flag: "bit (if b then w else 0) n \<longleftrightarrow> b \<and> bit (w :: 'w::len word) n"
  by simp

lemma and_power:
  "(w :: 'w::len word) AND 1 \<noteq> 0 \<longleftrightarrow> bit w 0" "w AND 2 \<noteq> 0 \<longleftrightarrow> bit w 1" "w AND 4 \<noteq> 0 \<longleftrightarrow> bit w 2"
  "w AND 8 \<noteq> 0 \<longleftrightarrow> bit w 3"
  using and_exp_eq_0_iff_not_bit [of w 0] and_exp_eq_0_iff_not_bit [of w 1] and_exp_eq_0_iff_not_bit [of w 2]
    and_exp_eq_0_iff_not_bit [of w 3] by simp_all

lemma provider_lost:
  "provider_bits p AND NOT (provider_bits q) \<noteq> 0 \<longleftrightarrow>
     pv_dns_relay p \<and> \<not> pv_dns_relay q \<or> pv_odoh_proxy p \<and> \<not> pv_odoh_proxy q \<or>
     pv_odoh_target p \<and> \<not> pv_odoh_target q \<or> pv_market_gossip p \<and> \<not> pv_market_gossip q"
proof -
  have "bit (provider_bits r) n \<longleftrightarrow>
      n = 0 \<and> pv_dns_relay r \<or> n = 1 \<and> pv_odoh_proxy r \<or> n = 2 \<and> pv_odoh_target r \<or> n = 3 \<and> pv_market_gossip r" for r n
    by (simp only: provider_bits_def bit_or_iff bit_flag bits_u16) auto
  then show ?thesis unfolding lost_bits by auto
qed

lemma hnsr_lost:
  "hnsr_provider_bits p AND NOT (hnsr_provider_bits q) \<noteq> 0 \<longleftrightarrow>
     endpoint_enabled p \<and> \<not> endpoint_enabled q \<or> relay_enabled p \<and> \<not> relay_enabled q \<or>
     rendezvous_enabled p \<and> \<not> rendezvous_enabled q"
proof -
  have "bit (hnsr_provider_bits r) n \<longleftrightarrow> bit (hnsr_bits r) n \<and> (n = 1 \<or> n = 2 \<or> n = 3)" for r n
    by (simp only: hnsr_provider_bits_def bit_and_iff bit_or_iff HNSR_ENDPOINT_def HNSR_RELAY_def HNSR_RENDEZVOUS_def)
      (simp only: bits_u8 conj_disj_distribL)
  then show ?thesis
    unfolding lost_bits endpoint_enabled_def relay_enabled_def rendezvous_enabled_def HNSR_ENDPOINT_def HNSR_RELAY_def
      HNSR_RENDEZVOUS_def and_power by auto
qed

section \<open>Properties\<close>

text \<open>Persisting a policy is lossless: decoding the encoding of a well-formed snapshot returns it, and
  whatever the decoder accepts under the current schema is exactly the 32-byte encoding of a well-formed
  snapshot.\<close>

lemma policy_snapshot_roundtrip:
  "(wf_snapshot s \<longrightarrow> snapshot_decode (snapshot_encode s) = Inr s) \<and>
   (snapshot_decode bs = Inr s \<and> be_word (take 2 (drop 8 bs)) = PERSISTED_SCHEMA \<longrightarrow>
      wf_snapshot s \<and> snapshot_encode s = bs)"
  using snapshot_decode_encode snapshot_encode_decode by blast

lemma default_snapshot_wf: "wf_snapshot default_snapshot"
  by (simp add: wf_snapshot_def default_snapshot_def default_policy_def policy_validate_def client_relay_default_def
      with_requester_def relay_default_def set_flag_def HNSR_KNOWN_BITS_def HNSR_CLIENT_def HNSR_ENDPOINT_def
      HNSR_RELAY_def HNSR_RENDEZVOUS_def)

lemma policy_snapshot_roundtrip_witness:
  "snapshot_decode (snapshot_encode default_snapshot) = Inr default_snapshot"
  using policy_snapshot_roundtrip [of default_snapshot "[]"] default_snapshot_wf by blast

text \<open>Corruption of a single byte is always detected: changing any one byte of an accepted persisted
  policy, checksum bytes included, makes the decoder refuse it.\<close>

lemma policy_corruption_detected:
  assumes "snapshot_decode bs = Inr s" and "i < length bs" and "b \<noteq> bs ! i"
  shows "\<exists>e. snapshot_decode (bs[i := b]) = Inl e"
proof (cases "snapshot_decode (bs[i := b])")
  case (Inr t)
  have len: "length bs = 32" by (rule snapshot_decode_Inr(1) [OF assms(1)])
  have crc: "crc32 (take 28 bs) = be_word (take 4 (drop 28 bs))"
      "crc32 (take 28 (bs[i := b])) = be_word (take 4 (drop 28 (bs[i := b])))"
    by (rule snapshot_decode_Inr(5) [OF assms(1)], rule snapshot_decode_Inr(5) [OF Inr])
  show ?thesis
  proof (cases "i < 28")
    case True
    then have "take 28 (bs[i := b]) = (take 28 bs)[i := b]" "drop 28 (bs[i := b]) = drop 28 bs"
      by (simp_all add: take_update_swap)
    then show ?thesis using crc crc32_update [of i "take 28 bs" b] True assms(2,3) by simp
  next
    case False
    then have "take 28 (bs[i := b]) = take 28 bs" by simp
    then have "be_word (take 4 (drop 28 bs)) = (be_word (take 4 (drop 28 (bs[i := b]))) :: u32)" using crc by simp
    then have "take 4 (drop 28 bs) = take 4 (drop 28 (bs[i := b]))"
      using len by (intro be_word4_inj) simp_all
    then have "take 4 (drop 28 bs) ! (i - 28) = take 4 (drop 28 (bs[i := b])) ! (i - 28)" by (rule arg_cong)
    then have "bs ! i = (bs[i := b]) ! i" using False assms(2) len by simp
    then show ?thesis using assms(2,3) by simp
  qed
qed blast

lemma default_decodes: "snapshot_decode (snapshot_encode default_snapshot) = Inr default_snapshot"
  by (rule snapshot_decode_encode [OF default_snapshot_wf])

lemma policy_corruption_detected_witness:
  "\<exists>e. snapshot_decode ((snapshot_encode default_snapshot)[0 := 0]) = Inl e"
  by (rule policy_corruption_detected [OF default_decodes])
    (simp_all add: snapshot_encode_eq policy_payload_def PERSISTED_MAGIC_def Let_def)

text \<open>Plans are ordered and fail closed: a plan starts with direct authoritative UDP and TCP, never
  repeats a transport, never contains an unavailable, ICANN or local-proof transport; the relay is in it
  only if neither oblivious mode that forbids downgrade nor the relay switch excludes it, and recursive
  DoH only with the user's consent, and then last.\<close>

lemma transport_plan_shape:
  "take 2 (tp_transports (for_policy c)) = [DirectAuthoritativeUdp, DirectAuthoritativeTcp] \<and>
   distinct (tp_transports (for_policy c)) \<and>
   \<not> plan_contains (for_policy c) TransportUnavailable \<and> \<not> plan_contains (for_policy c) ValidatingIcannDoh \<and>
   \<not> plan_contains (for_policy c) LocalHnsProof \<and>
   (plan_contains (for_policy c) AuthenticatedAuthoritativeDoh \<longleftrightarrow> pc_authenticated_authoritative_doh c) \<and>
   (plan_contains (for_policy c) HandshakeP2pOdoh \<longleftrightarrow> pc_oblivious_dns c \<noteq> OdohDisabled) \<and>
   (plan_contains (for_policy c) HandshakeP2pDnsRelay \<longleftrightarrow>
      pc_oblivious_dns c \<in> {OdohDirectRelayAllowed, OdohDisabled} \<and> pc_dns_relay_requester c \<noteq> RelayDisabled) \<and>
   (plan_contains (for_policy c) UserConfiguredRecursiveHnsDoh \<longleftrightarrow> pc_user_configured_recursive_hns_doh c) \<and>
   (last (tp_transports (for_policy c)) = UserConfiguredRecursiveHnsDoh \<longleftrightarrow> pc_user_configured_recursive_hns_doh c)"
proof -
  have rec: "UserConfiguredRecursiveHnsDoh \<notin> set plan_front" by (simp add: plan_front_def)
  have "last (tp_transports (for_policy c)) = UserConfiguredRecursiveHnsDoh \<longleftrightarrow> pc_user_configured_recursive_hns_doh c"
  proof (cases "pc_user_configured_recursive_hns_doh c")
    case False
    have "filter (plan_allows c) plan_front \<noteq> []" by (simp add: plan_front_def)
    then have "last (filter (plan_allows c) plan_front) \<in> set plan_front" using last_in_set by fastforce
    then show ?thesis using rec False by (auto simp: plan_filter)
  qed (simp add: plan_filter)
  moreover have "take 2 (tp_transports (for_policy c)) = [DirectAuthoritativeUdp, DirectAuthoritativeTcp]"
    by (simp add: plan_filter plan_front_def)
  moreover have "distinct (tp_transports (for_policy c))"
    unfolding plan_filter by (rule distinct_filter) (simp add: plan_front_def)
  ultimately show ?thesis by (simp add: plan_contains_def plan_filter plan_front_def)
qed

text \<open>C27: An admission lives exactly as long as the policy it was given under: after any sequence of
  replacements its completion is accepted if and only if none of them changed the policy, so a path that
  was disabled and enabled again does not revive it; otherwise it is refused as stale.\<close>

theorem completion_lifetime:
  assumes "controller_admit k t = Inr a"
  shows "accept_completion (foldl controller_exec k ops) a =
    (if foldl controller_exec k ops = k then Inr () else Inl StaleGeneration) \<and>
    (foldl controller_exec k ops = k \<longleftrightarrow>
       (\<forall>pre op post. ops = pre @ op # post \<longrightarrow> controller_exec (foldl controller_exec k pre) op = foldl controller_exec k pre))"
proof
  have a: "ad_policy_generation a = ps_generation (ctl_current k)" "plan_contains (controller_plan k) (ad_transport a)"
    using assms by (auto simp: controller_admit_def split: if_splits)
  show "accept_completion (foldl controller_exec k ops) a =
    (if foldl controller_exec k ops = k then Inr () else Inl StaleGeneration)"
    using a run_same_rank [of k ops] by (auto simp: accept_completion_def controller_rank_def)
  show "foldl controller_exec k ops = k \<longleftrightarrow>
       (\<forall>pre op post. ops = pre @ op # post \<longrightarrow> controller_exec (foldl controller_exec k pre) op = foldl controller_exec k pre)"
    by (rule run_unchanged_iff)
qed

theorem completion_lifetime_witness:
  "accept_completion (foldl controller_exec (controller_new default_snapshot)
     [(1, default_policy\<lparr>pc_oblivious_dns := OdohDisabled\<rparr>), (2, default_policy)])
     \<lparr>ad_policy_generation = 1, ad_transport = HandshakeP2pOdoh\<rparr> = Inl StaleGeneration"
proof -
  let ?k = "controller_new default_snapshot"
  let ?ops = "[(1, default_policy\<lparr>pc_oblivious_dns := OdohDisabled\<rparr>), (2, default_policy)]"
  have ad: "controller_admit ?k HandshakeP2pOdoh = Inr \<lparr>ad_policy_generation = 1, ad_transport = HandshakeP2pOdoh\<rparr>"
    by (simp add: controller_admit_def controller_plan_def controller_new_def default_snapshot_def default_policy_def
        for_policy_def plan_contains_def Let_def)
  have "foldl controller_exec ?k ?ops \<noteq> ?k"
    by (simp add: controller_new_def default_snapshot_def controller_replace_def policy_validate_def default_policy_def
        u64_succ Let_def)
  then show ?thesis using completion_lifetime [OF ad, of ?ops] by simp
qed

text \<open>The effects of a change are complete: advertisements are withdrawn exactly when some provider role
  was on before and is off after, HNSR routes exactly when that role is an HNSR role, target configurations
  exactly when the target role is given up, peers are renegotiated whenever a provider role or the wire
  profile differs, and cached selections are cleared whenever the transport plan differs.\<close>

lemma change_effects_complete:
  assumes "controller_replace k g c = (k', Inr t)" and "pt_changed t" and old_def: "old = ps_config (ctl_current k)"
  shows "ps_config (ctl_current k') = c \<and> ps_generation (ctl_current k') = ps_generation (ctl_current k) + 1 \<and>
    (ef_withdraw_hnsr_routes (pt_effects t) \<longleftrightarrow>
       endpoint_enabled (pc_hnsr old) \<and> \<not> endpoint_enabled (pc_hnsr c) \<or>
       relay_enabled (pc_hnsr old) \<and> \<not> relay_enabled (pc_hnsr c) \<or>
       rendezvous_enabled (pc_hnsr old) \<and> \<not> rendezvous_enabled (pc_hnsr c)) \<and>
    (ef_withdraw_advertisements (pt_effects t) \<longleftrightarrow>
       ef_withdraw_hnsr_routes (pt_effects t) \<or>
       pv_dns_relay (pc_providers old) \<and> \<not> pv_dns_relay (pc_providers c) \<or>
       pv_odoh_proxy (pc_providers old) \<and> \<not> pv_odoh_proxy (pc_providers c) \<or>
       pv_odoh_target (pc_providers old) \<and> \<not> pv_odoh_target (pc_providers c) \<or>
       pv_market_gossip (pc_providers old) \<and> \<not> pv_market_gossip (pc_providers c)) \<and>
    (ef_revoke_target_configurations (pt_effects t) \<longleftrightarrow>
       pv_odoh_target (pc_providers old) \<and> \<not> pv_odoh_target (pc_providers c)) \<and>
    (ef_withdraw_advertisements (pt_effects t) \<longrightarrow> ef_renegotiate_peer_connections (pt_effects t)) \<and>
    (for_policy old \<noteq> for_policy c \<longrightarrow> ef_clear_requester_selections (pt_effects t))"
proof -
  have t: "pt_effects t = transition_effects old c" "ps_config (ctl_current k') = c"
      "ps_generation (ctl_current k') = ps_generation (ctl_current k) + 1"
    using assms(1,2) by (auto simp: controller_replace_def old_def Let_def u64_succ split: if_splits sum.splits option.splits)
  have plan: "for_policy old = for_policy c" if "\<not> ef_clear_requester_selections (transition_effects old c)"
  proof -
    have "pc_oblivious_dns old = pc_oblivious_dns c" "pc_dns_relay_requester old = pc_dns_relay_requester c"
        "pc_authenticated_authoritative_doh old = pc_authenticated_authoritative_doh c"
        "pc_user_configured_recursive_hns_doh old = pc_user_configured_recursive_hns_doh c"
      using that by (simp_all add: transition_effects_def Let_def)
    then show ?thesis by (simp only: for_policy_def)
  qed
  have W: "ef_withdraw_hnsr_routes (transition_effects old c) \<longleftrightarrow>
      hnsr_provider_bits (pc_hnsr old) AND NOT (hnsr_provider_bits (pc_hnsr c)) \<noteq> 0"
    and A: "ef_withdraw_advertisements (transition_effects old c) \<longleftrightarrow>
      ef_withdraw_hnsr_routes (transition_effects old c) \<or>
      provider_bits (pc_providers old) AND NOT (provider_bits (pc_providers c)) \<noteq> 0"
    and R: "ef_revoke_target_configurations (transition_effects old c) \<longleftrightarrow>
      pv_odoh_target (pc_providers old) \<and> \<not> pv_odoh_target (pc_providers c)"
    and N: "ef_withdraw_advertisements (transition_effects old c) \<longrightarrow> ef_renegotiate_peer_connections (transition_effects old c)"
    by (auto simp: transition_effects_def Let_def)
  show ?thesis
    unfolding t using W A R N plan
    unfolding provider_lost hnsr_lost by blast
qed

lemma change_effects_complete_witness:
  "ef_withdraw_advertisements (pt_effects (projr (snd (controller_replace (controller_new default_snapshot) 1
     (default_policy\<lparr>pc_providers := default_providers\<lparr>pv_odoh_proxy := False\<rparr>\<rparr>)))))"
proof -
  let ?k = "controller_new default_snapshot" and ?c = "default_policy\<lparr>pc_providers := default_providers\<lparr>pv_odoh_proxy := False\<rparr>\<rparr>"
  have "policy_validate ?c = Inr ()" "ps_config (ctl_current ?k) \<noteq> ?c" "ps_generation (ctl_current ?k) = 1"
    by (simp_all add: policy_validate_def default_policy_def default_providers_def controller_new_def default_snapshot_def)
  then obtain k' t where r: "controller_replace ?k 1 ?c = (k', Inr t)" "pt_changed t"
    by (simp add: controller_replace_def u64_succ Let_def)
  have "ef_withdraw_advertisements (pt_effects t)"
    using change_effects_complete [OF r refl]
    by (simp add: controller_new_def default_snapshot_def default_policy_def default_providers_def)
  then show ?thesis by (simp add: r)
qed

end
