(* ===== verification/Namespace.thy ===== *)
theory Namespace
  imports Net_Policy "HOL-Library.Product_Lexorder" "HOL-Library.List_Lexorder"
begin

unbundle bit_operations_syntax

text \<open>
  The dual-root namespace decision (src/crates/hns-namespace-resolution/src/lib.rs): canonical hosts and
  origin queries, normalised service bindings, validated single-root origin plans, authenticated absence
  and root failures, the comparison of two plans, and the five-way decision with its precedence rules.

  A host is its sequence of bytes.  \<open>NonZeroU16\<close> ports are 16-bit words whose being non-zero is part of
  the well-formedness predicates.  The structures that hold unvalidated input have the same fields as the
  validated ones and share a record with them.  \<open>unreachable!\<close> branches are \<open>None\<close>.
\<close>

section \<open>The standard library\<close>

text \<open>\<open>IpAddr\<close> and \<open>SocketAddr\<close> are ordered as derived: IPv4 before IPv6, then by address, then by port
  and, for IPv6, flow label and scope.\<close>

fun ip_key :: "ip_addr \<Rightarrow> nat" where
  "ip_key (V4 a) = v4_num a"
| "ip_key (V6 a) = 2 ^ 32 + v6_num a"

lemma v4_num_less: "v4_num a < 2 ^ 32"
proof (cases a)
  case (Ipv4Addr p q r s)
  then show ?thesis using u8_bound [of p] u8_bound [of q] u8_bound [of r] u8_bound [of s] by simp
qed

lemma v4_num_inj: "v4_num a = v4_num b \<Longrightarrow> a = b"
  by (cases a; cases b) (simp only: v4_num.simps digit_eq u8_bound word_unat_eq_iff ipv4_addr.inject)

lemma v6_num_inj: "v6_num a = v6_num b \<Longrightarrow> a = b"
  by (cases a; cases b) (simp only: v6_num.simps digit16_eq word_unat_eq_iff [symmetric] ipv6_addr.inject)

lemma ip_key_inj: "ip_key a = ip_key b \<Longrightarrow> a = b"
  using v4_num_inj v6_num_inj v4_num_less
  by (cases a; cases b) (auto simp: not_less dest: less_imp_neq, (metis le_add1 leD)+)

instantiation ip_addr :: linorder
begin

definition less_eq_ip_addr :: "ip_addr \<Rightarrow> ip_addr \<Rightarrow> bool" where
  "a \<le> b \<longleftrightarrow> ip_key a \<le> ip_key b"

definition less_ip_addr :: "ip_addr \<Rightarrow> ip_addr \<Rightarrow> bool" where
  "a < b \<longleftrightarrow> ip_key a < ip_key b"

instance
  by standard (auto simp: less_eq_ip_addr_def less_ip_addr_def intro: ip_key_inj)

end

datatype socket_addr = SocketV4 ipv4_addr u16 | SocketV6 ipv6_addr u16 u32 u32

fun socket_ip :: "socket_addr \<Rightarrow> ip_addr" where
  "socket_ip (SocketV4 a _) = V4 a"
| "socket_ip (SocketV6 a _ _ _) = V6 a"

fun socket_port :: "socket_addr \<Rightarrow> u16" where
  "socket_port (SocketV4 _ p) = p"
| "socket_port (SocketV6 _ p _ _) = p"

fun socket_key :: "socket_addr \<Rightarrow> nat \<times> nat \<times> nat \<times> nat" where
  "socket_key (SocketV4 a p) = (ip_key (V4 a), unat p, 0, 0)"
| "socket_key (SocketV6 a p flow scope) = (ip_key (V6 a), unat p, unat flow, unat scope)"

lemma socket_key_inj: "socket_key a = socket_key b \<Longrightarrow> a = b"
  by (cases a; cases b) (auto simp: word_unat_eq_iff simp del: ip_key.simps dest: ip_key_inj)

instantiation socket_addr :: linorder
begin

definition less_eq_socket_addr :: "socket_addr \<Rightarrow> socket_addr \<Rightarrow> bool" where
  "a \<le> b \<longleftrightarrow> socket_key a \<le> socket_key b"

definition less_socket_addr :: "socket_addr \<Rightarrow> socket_addr \<Rightarrow> bool" where
  "a < b \<longleftrightarrow> socket_key a < socket_key b"

instance
  by standard (auto simp: less_eq_socket_addr_def less_socket_addr_def intro: socket_key_inj)

end

text \<open>\<open>slice.windows(2).any(...)\<close>.\<close>

fun windows2_any :: "('a \<Rightarrow> 'a \<Rightarrow> bool) \<Rightarrow> 'a list \<Rightarrow> bool" where
  "windows2_any f (x # y # zs) = (f x y \<or> windows2_any f (y # zs))"
| "windows2_any f _ = False"

definition ascii_whitespace :: "u8 \<Rightarrow> bool" where
  "ascii_whitespace b \<longleftrightarrow> 9 \<le> b \<and> b \<le> 13 \<or> b = 32"

text \<open>\<open>str::trim\<close> on ASCII text.\<close>

definition str_trim :: "bytes \<Rightarrow> bytes" where
  "str_trim s = rev (dropWhile ascii_whitespace (rev (dropWhile ascii_whitespace s)))"

definition is_ascii :: "bytes \<Rightarrow> bool" where
  "is_ascii s \<longleftrightarrow> list_all (\<lambda>b. b < 128) s"

text \<open>
  \<open>IpAddr::from_str\<close> on text without a colon reads a dotted IPv4 address: four decimal numbers of at most
  three digits without a leading zero.  Text with a colon is refused by the label check in any case.
\<close>

definition ascii_digit :: "u8 \<Rightarrow> bool" where
  "ascii_digit b \<longleftrightarrow> 48 \<le> b \<and> b \<le> 57"

definition decimal :: "bytes \<Rightarrow> nat" where
  "decimal s = foldl (\<lambda>n b. 10 * n + (unat b - 48)) 0 s"

definition ipv4_octet_text :: "bytes \<Rightarrow> bool" where
  "ipv4_octet_text s \<longleftrightarrow> s \<noteq> [] \<and> length s \<le> 3 \<and> list_all ascii_digit s \<and> (hd s = 48 \<longrightarrow> length s = 1) \<and> decimal s \<le> 255"

definition ipv4_text :: "bytes \<Rightarrow> bool" where
  "ipv4_text s \<longleftrightarrow> length (split_on 46 s) = 4 \<and> list_all ipv4_octet_text (split_on 46 s)"

section \<open>Errors and bounds\<close>

datatype validation_error = InvalidHost | InvalidQuery | BoundExceeded | InvalidPlan | InvalidEvidence

definition COMPARISON_SCHEMA_VERSION :: u16 where "COMPARISON_SCHEMA_VERSION = 1"

definition MAX_HOST_BYTES :: usize where "MAX_HOST_BYTES = 253"

definition MAX_ALIAS_STEPS :: usize where "MAX_ALIAS_STEPS = 8"

definition MAX_ENDPOINTS :: usize where "MAX_ENDPOINTS = 32"

definition MAX_ALPN_IDS :: usize where "MAX_ALPN_IDS = 16"

definition MAX_ALPN_ID_BYTES :: usize where "MAX_ALPN_ID_BYTES = 255"

definition MAX_SERVICE_PARAMETERS :: usize where "MAX_SERVICE_PARAMETERS = 32"

definition MAX_PARAMETER_BYTES :: usize where "MAX_PARAMETER_BYTES = 65535"

definition MAX_TLSA_RECORDS :: usize where "MAX_TLSA_RECORDS = 32"

section \<open>Hosts and queries\<close>

datatype namespace = Hns | Icann

fun namespace_tag :: "namespace \<Rightarrow> u8" where
  "namespace_tag Hns = 1"
| "namespace_tag Icann = 2"

datatype hns_network = HnsMainnet | HnsTestnet | HnsRegtest | HnsSimnet

fun hns_network_tag :: "hns_network \<Rightarrow> u8" where
  "hns_network_tag HnsMainnet = 0"
| "hns_network_tag HnsTestnet = 1"
| "hns_network_tag HnsRegtest = 2"
| "hns_network_tag HnsSimnet = 3"

type_synonym canonical_host = bytes

definition host_label_ok :: "bytes \<Rightarrow> bool" where
  "host_label_ok label \<longleftrightarrow>
     \<not> (label = [] \<or> length label > 63 \<or> hd label = 45 \<or> last label = 45 \<or>
        \<not> list_all (\<lambda>b. ascii_digit b \<or> 65 \<le> b \<and> b \<le> 90 \<or> 97 \<le> b \<and> b \<le> 122 \<or> b = 45) label)"

definition canonical_host_parse :: "bytes \<Rightarrow> (validation_error, canonical_host) result" where
  "canonical_host_parse input =
     (if str_trim input \<noteq> input \<or> input = [] \<or> \<not> is_ascii input then Inl InvalidHost
      else
      let without_root = (case strip_suffix_dot input of Some h \<Rightarrow> h | None \<Rightarrow> input) in
      if without_root = [] \<or> last without_root = 46 \<or> length without_root > MAX_HOST_BYTES \<or>
         ipv4_text without_root
      then Inl InvalidHost
      else
      let normalized = map to_ascii_lowercase without_root in
      if list_all host_label_ok (split_on 46 normalized) then Inr normalized else Inl InvalidHost)"

datatype origin_scheme = Http | Https | Ws | Wss

fun scheme_tag :: "origin_scheme \<Rightarrow> u8" where
  "scheme_tag Http = 1"
| "scheme_tag Https = 2"
| "scheme_tag Ws = 3"
| "scheme_tag Wss = 4"

fun default_port :: "origin_scheme \<Rightarrow> u16" where
  "default_port Http = 80"
| "default_port Ws = 80"
| "default_port Https = 443"
| "default_port Wss = 443"

fun uses_tls :: "origin_scheme \<Rightarrow> bool" where
  "uses_tls Https = True"
| "uses_tls Wss = True"
| "uses_tls _ = False"

datatype application_protocol = Http11 | Http2 | Http3

fun protocol_tag :: "application_protocol \<Rightarrow> u8" where
  "protocol_tag Http11 = 1"
| "protocol_tag Http2 = 2"
| "protocol_tag Http3 = 3"

record protocol_capabilities =
  cap_http11 :: bool
  cap_http2 :: bool
  cap_http3 :: bool

definition capabilities_new :: "bool \<Rightarrow> bool \<Rightarrow> bool \<Rightarrow> (validation_error, protocol_capabilities) result" where
  "capabilities_new http11 http2 http3 =
     (if http11 \<or> http2 \<or> http3
      then Inr \<lparr>cap_http11 = http11, cap_http2 = http2, cap_http3 = http3\<rparr> else Inl InvalidQuery)"

definition capabilities_all :: protocol_capabilities where
  "capabilities_all = \<lparr>cap_http11 = True, cap_http2 = True, cap_http3 = True\<rparr>"

definition supports :: "protocol_capabilities \<Rightarrow> application_protocol \<Rightarrow> bool" where
  "supports c p = (case p of Http11 \<Rightarrow> cap_http11 c | Http2 \<Rightarrow> cap_http2 c | Http3 \<Rightarrow> cap_http3 c)"

definition capability_flags :: "protocol_capabilities \<Rightarrow> u8" where
  "capability_flags c =
     (if cap_http11 c then 1 else 0) OR push_bit 1 (if cap_http2 c then 1 else 0) OR
     push_bit 2 (if cap_http3 c then 1 else 0)"

record origin_query =
  oq_host :: canonical_host
  oq_scheme :: origin_scheme
  oq_explicit_port :: "u16 option"
  oq_supported_protocols :: protocol_capabilities

definition origin_port :: "origin_query \<Rightarrow> u16" where
  "origin_port q = (case oq_explicit_port q of Some p \<Rightarrow> p | None \<Rightarrow> default_port (oq_scheme q))"

datatype alias_kind = AliasCname | AliasHttps

fun alias_tag :: "alias_kind \<Rightarrow> u8" where
  "alias_tag AliasCname = 1"
| "alias_tag AliasHttps = 2"

record alias_step =
  al_kind :: alias_kind
  al_owner :: canonical_host
  al_target :: canonical_host

definition alias_step_new ::
  "alias_kind \<Rightarrow> canonical_host \<Rightarrow> canonical_host \<Rightarrow> (validation_error, alias_step) result" where
  "alias_step_new kind owner target =
     (if owner = target then Inl InvalidPlan
      else Inr \<lparr>al_kind = kind, al_owner = owner, al_target = target\<rparr>)"

section \<open>Service bindings\<close>

datatype service_transport = Tcp | Udp

fun transport_tag :: "service_transport \<Rightarrow> u8" where
  "transport_tag Tcp = 1"
| "transport_tag Udp = 2"

datatype service_parameter = ServiceParameter (sp_key: u16) (sp_value: bytes)

instantiation service_parameter :: linorder
begin

definition less_eq_service_parameter :: "service_parameter \<Rightarrow> service_parameter \<Rightarrow> bool" where
  "a \<le> b \<longleftrightarrow> (sp_key a, sp_value a) \<le> (sp_key b, sp_value b)"

definition less_service_parameter :: "service_parameter \<Rightarrow> service_parameter \<Rightarrow> bool" where
  "a < b \<longleftrightarrow> (sp_key a, sp_value a) < (sp_key b, sp_value b)"

instance
proof
  fix a b c :: service_parameter
  show "a < b \<longleftrightarrow> a \<le> b \<and> \<not> b \<le> a"
    unfolding less_eq_service_parameter_def less_service_parameter_def by (rule less_le_not_le)
  show "a \<le> a" unfolding less_eq_service_parameter_def by (rule order_refl)
  show "a \<le> b \<Longrightarrow> b \<le> c \<Longrightarrow> a \<le> c" unfolding less_eq_service_parameter_def by (rule order_trans)
  show "a \<le> b \<Longrightarrow> b \<le> a \<Longrightarrow> a = b"
    unfolding less_eq_service_parameter_def by (metis order_antisym Pair_inject service_parameter.expand)
  show "a \<le> b \<or> b \<le> a" unfolding less_eq_service_parameter_def by (rule linear)
qed

end

definition service_parameter_new :: "u16 \<Rightarrow> bytes \<Rightarrow> (validation_error, service_parameter) result" where
  "service_parameter_new key val =
     (if length val > MAX_PARAMETER_BYTES then Inl BoundExceeded else Inr (ServiceParameter key val))"

record service_binding =
  sb_priority :: "u16 option"
  sb_service_target :: canonical_host
  sb_mandatory_keys :: "u16 list"
  sb_advertised_alpn :: "bytes list"
  sb_selected_protocol :: application_protocol
  sb_effective_port :: u16
  sb_transport :: service_transport
  sb_connection_hints :: "ip_addr list"
  sb_ech_config :: "bytes option"
  sb_parameters :: "service_parameter list"

fun has_duplicate_alpn :: "bytes list \<Rightarrow> bool" where
  "has_duplicate_alpn [] = False"
| "has_duplicate_alpn (v # vs) = (v \<in> set vs \<or> has_duplicate_alpn vs)"

definition has_service_parameter :: "service_parameter list \<Rightarrow> u16 \<Rightarrow> bool" where
  "has_service_parameter ps key = list_ex (\<lambda>p. sp_key p = key) ps"

definition service_parameter_value :: "service_parameter list \<Rightarrow> u16 \<Rightarrow> bytes option" where
  "service_parameter_value ps key = map_option sp_value (find (\<lambda>p. sp_key p = key) ps)"

definition selected_alpn_is_valid :: "application_protocol \<Rightarrow> bytes list \<Rightarrow> service_parameter list \<Rightarrow> bool" where
  "selected_alpn_is_valid selected advertised ps =
     (let no_default_alpn = service_parameter_value ps 2 \<noteq> None in
      if selected = Http11 \<and> \<not> no_default_alpn then True
      else list_ex (\<lambda>identifier.
        case selected of
          Http11 \<Rightarrow> identifier = ascii ''http/1.1''
        | Http2 \<Rightarrow> identifier = ascii ''h2''
        | Http3 \<Rightarrow> identifier = ascii ''h3'' \<or> take 3 identifier = ascii ''h3-'') advertised)"

function alpn_loop :: "bytes \<Rightarrow> usize \<Rightarrow> bytes list \<Rightarrow> (validation_error, bytes list) result" where
  "alpn_loop wire offset parsed =
     (if offset < length wire then
        rbind (ok_or InvalidPlan (slice_get wire offset)) (\<lambda>len.
        rbind (ok_or InvalidPlan (usize_add offset 1)) (\<lambda>start.
        if len = 0 then Inl InvalidPlan
        else
        rbind (ok_or InvalidPlan (usize_add start (unat len))) (\<lambda>stop.
        rbind (ok_or InvalidPlan (slice_range wire start stop)) (\<lambda>identifier.
        alpn_loop wire stop (parsed @ [identifier])))))
      else Inr parsed)"
  by pat_completeness auto

termination
  by (relation "measure (\<lambda>(wire, offset, _). length wire - offset)") (auto simp: result_inv)

definition alpn_wire_matches :: "bytes \<Rightarrow> bytes list \<Rightarrow> (validation_error, bool) result" where
  "alpn_wire_matches wire advertised =
     (if wire = [] then Inl InvalidPlan
      else rbind (alpn_loop wire 0 []) (\<lambda>parsed.
        Inr (length parsed = length advertised \<and> list_all (\<lambda>(l, r). l = r) (zip parsed advertised))))"

definition service_parameters_contain_hint :: "service_parameter list \<Rightarrow> ip_addr \<Rightarrow> bool" where
  "service_parameters_contain_hint ps hint =
     (case hint of
        V4 a \<Rightarrow> (case service_parameter_value ps 4 of
                  None \<Rightarrow> False | Some wire \<Rightarrow> list_ex (\<lambda>c. c = v4_octets a) (chunks_exact 4 wire))
      | V6 a \<Rightarrow> (case service_parameter_value ps 6 of
                  None \<Rightarrow> False | Some wire \<Rightarrow> list_ex (\<lambda>c. c = v6_octets a) (chunks_exact 16 wire)))"

definition bad_address_wire :: "nat \<Rightarrow> bytes option \<Rightarrow> bool" where
  "bad_address_wire n w = (case w of None \<Rightarrow> False | Some wire \<Rightarrow> wire = [] \<or> length wire mod n \<noteq> 0)"

definition known_service_parameters_match :: "service_binding \<Rightarrow> (validation_error, bool) result" where
  "known_service_parameters_match input =
     (let ps = sb_parameters input in
      rbind (case service_parameter_value ps 1 of
               Some val \<Rightarrow> alpn_wire_matches val (sb_advertised_alpn input)
             | None \<Rightarrow> Inr (sb_advertised_alpn input = [])) (\<lambda>alpn_ok.
      if \<not> alpn_ok then Inr False
      else if (case service_parameter_value ps 2 of None \<Rightarrow> False | Some val \<Rightarrow> val \<noteq> []) then Inr False
      else if (case service_parameter_value ps 3 of
                 None \<Rightarrow> False | Some val \<Rightarrow> val \<noteq> be_bytes 2 (sb_effective_port input)) then Inr False
      else if service_parameter_value ps 5 \<noteq> sb_ech_config input then Inr False
      else if bad_address_wire 4 (service_parameter_value ps 4) \<or>
              bad_address_wire 16 (service_parameter_value ps 6) then Inr False
      else Inr (list_all (service_parameters_contain_hint ps) (sb_connection_hints input))))"

text \<open>The guards of \<open>ServiceBinding::new\<close>, in the order it evaluates them.\<close>

definition binding_out_of_bounds :: "service_binding \<Rightarrow> bool" where
  "binding_out_of_bounds input \<longleftrightarrow>
     length (sb_advertised_alpn input) > MAX_ALPN_IDS \<or>
     length (sb_mandatory_keys input) > MAX_SERVICE_PARAMETERS \<or>
     length (sb_connection_hints input) > MAX_ENDPOINTS \<or>
     length (sb_parameters input) > MAX_SERVICE_PARAMETERS \<or>
     list_ex (\<lambda>i. i = [] \<or> length i > MAX_ALPN_ID_BYTES) (sb_advertised_alpn input) \<or>
     (case sb_ech_config input of None \<Rightarrow> False | Some v \<Rightarrow> v = [] \<or> length v > MAX_PARAMETER_BYTES)"

definition binding_transport_ok :: "service_binding \<Rightarrow> bool" where
  "binding_transport_ok input \<longleftrightarrow>
     (sb_selected_protocol input = Http11 \<or> sb_selected_protocol input = Http2) \<and> sb_transport input = Tcp \<or>
     sb_selected_protocol input = Http3 \<and> sb_transport input = Udp"

definition binding_mode_bad :: "service_binding \<Rightarrow> bool" where
  "binding_mode_bad input \<longleftrightarrow>
     sb_priority input = Some 0 \<or>
     (sb_priority input = None \<and>
       (sb_mandatory_keys input \<noteq> [] \<or> sb_advertised_alpn input \<noteq> [] \<or> sb_connection_hints input \<noteq> [] \<or>
        sb_ech_config input \<noteq> None \<or> sb_parameters input \<noteq> []))"

definition binding_parameters_bad :: "service_binding \<Rightarrow> bool" where
  "binding_parameters_bad input \<longleftrightarrow>
     windows2_any (\<lambda>a b. sp_key a = sp_key b) (sb_parameters input) \<or>
     (sb_parameters input \<noteq> [] \<and> sp_key (hd (sb_parameters input)) = 0)"

definition binding_protocol_bad :: "service_binding \<Rightarrow> bool" where
  "binding_protocol_bad input \<longleftrightarrow>
     list_ex (\<lambda>key. \<not> (1 \<le> key \<and> key \<le> 6) \<or> \<not> has_service_parameter (sb_parameters input) key)
       (sb_mandatory_keys input) \<or>
     \<not> selected_alpn_is_valid (sb_selected_protocol input) (sb_advertised_alpn input) (sb_parameters input)"

definition service_binding_new :: "service_binding \<Rightarrow> (validation_error, service_binding) result" where
  "service_binding_new input0 =
     (if binding_out_of_bounds input0 then Inl BoundExceeded
      else if \<not> binding_transport_ok input0 then Inl InvalidPlan
      else if binding_mode_bad input0 then Inl InvalidPlan
      else
      let input1 = input0\<lparr>sb_mandatory_keys := sort (sb_mandatory_keys input0)\<rparr> in
      if windows2_any (=) (sb_mandatory_keys input1) \<or> has_duplicate_alpn (sb_advertised_alpn input1) then Inl InvalidPlan
      else
      let input = input1\<lparr>sb_connection_hints := remdups_adj (sort (sb_connection_hints input1)),
                         sb_parameters := sort (sb_parameters input1)\<rparr> in
      if binding_parameters_bad input then Inl InvalidPlan
      else if binding_protocol_bad input then Inl InvalidPlan
      else rbind (known_service_parameters_match input) (\<lambda>matches.
        if \<not> matches then Inl InvalidPlan else Inr input))"

end
