(* ===== verification/Namespace_Decision.thy ===== *)
theory Namespace_Decision
  imports Namespace
begin

unbundle bit_operations_syntax

text \<open>
  The second half of src/crates/hns-namespace-resolution/src/lib.rs: trust policies and evidence, validated
  origin plans, absences and failures of one root, the divergence mask of two plans, and the decision.
\<close>

section \<open>Trust and evidence\<close>

datatype tls_trust_policy =
  Cleartext | Dane | WebPkiAuthenticatedAbsence | WebPkiInsecureDelegation | StatelessDane

fun tls_tag :: "tls_trust_policy \<Rightarrow> u8" where
  "tls_tag Cleartext = 1"
| "tls_tag Dane = 2"
| "tls_tag WebPkiAuthenticatedAbsence = 3"
| "tls_tag WebPkiInsecureDelegation = 4"
| "tls_tag StatelessDane = 5"

type_synonym canonical_tlsa = bytes

definition canonical_tlsa_new :: "bytes \<Rightarrow> (validation_error, canonical_tlsa) result" where
  "canonical_tlsa_new rdata =
     (if length rdata > MAX_PARAMETER_BYTES then Inl BoundExceeded
      else case rdata of
        usage # selector # matching # association \<Rightarrow>
          if usage \<notin> {2, 3} \<or> selector \<notin> {0, 1} \<or>
             \<not> (matching = 0 \<and> 1 \<le> length association \<or> matching = 1 \<and> length association = 32 \<or>
                matching = 2 \<and> length association = 64)
          then Inl InvalidPlan else Inr rdata
      | _ \<Rightarrow> Inl InvalidPlan)"

datatype icann_chain_state = ChainSecure | ChainProvenInsecure

datatype evidence_provenance = HnsEvidence hns_network bytes u32 | IcannDohEvidence icann_chain_state

definition provenance_validate_for :: "evidence_provenance \<Rightarrow> namespace \<Rightarrow> (validation_error, unit) result" where
  "provenance_validate_for e n =
     (case (n, e) of
        (Hns, HnsEvidence _ _ _) \<Rightarrow> Inr ()
      | (Icann, IcannDohEvidence _) \<Rightarrow> Inr ()
      | _ \<Rightarrow> Inl InvalidEvidence)"

definition provenance_hns_network :: "evidence_provenance \<Rightarrow> hns_network option" where
  "provenance_hns_network e = (case e of HnsEvidence n _ _ \<Rightarrow> Some n | IcannDohEvidence _ \<Rightarrow> None)"

record freshness =
  fr_observed_at :: u64
  fr_expires_at :: u64

definition freshness_new :: "u64 \<Rightarrow> u64 \<Rightarrow> (validation_error, freshness) result" where
  "freshness_new observed expires =
     (if expires \<le> observed then Inl InvalidEvidence
      else Inr \<lparr>fr_observed_at = observed, fr_expires_at = expires\<rparr>)"

definition fresh_at :: "freshness \<Rightarrow> u64 \<Rightarrow> bool" where
  "fresh_at f now \<longleftrightarrow> now \<ge> fr_observed_at f \<and> now < fr_expires_at f"

section \<open>Origin plans\<close>

record origin_plan =
  op_namespace :: namespace
  op_query :: origin_query
  op_alias_path :: "alias_step list"
  op_terminal_target :: canonical_host
  op_endpoint_alias_path :: "alias_step list"
  op_endpoint_target :: canonical_host
  op_endpoints :: "socket_addr list"
  op_service :: service_binding
  op_tls_policy :: tls_trust_policy
  op_tlsa_records :: "canonical_tlsa list"
  op_provenance :: evidence_provenance
  op_freshness :: freshness

fun alias_walk :: "canonical_host \<Rightarrow> canonical_host list \<Rightarrow> alias_step list \<Rightarrow> (validation_error, canonical_host) result" where
  "alias_walk expected_owner seen [] = Inr expected_owner"
| "alias_walk expected_owner seen (a # as) =
     (if al_owner a \<noteq> expected_owner \<or> al_target a \<in> set seen then Inl InvalidPlan
      else alias_walk (al_target a) (seen @ [al_target a]) as)"

definition validate_alias_path ::
  "canonical_host \<Rightarrow> alias_step list \<Rightarrow> canonical_host \<Rightarrow> (validation_error, unit) result" where
  "validate_alias_path origin_host aliases terminal_target =
     rbind (alias_walk origin_host [origin_host] aliases) (\<lambda>expected_owner.
       if expected_owner \<noteq> terminal_target then Inl InvalidPlan else Inr ())"

fun unseen_targets :: "canonical_host list \<Rightarrow> alias_step list \<Rightarrow> (validation_error, unit) result" where
  "unseen_targets seen [] = Inr ()"
| "unseen_targets seen (a # as) =
     (if al_target a \<in> set seen then Inl InvalidPlan else unseen_targets (seen @ [al_target a]) as)"

definition validate_plan_aliases :: "origin_plan \<Rightarrow> (validation_error, unit) result" where
  "validate_plan_aliases input =
     rbind (validate_alias_path (oq_host (op_query input)) (op_alias_path input) (op_terminal_target input)) (\<lambda>_.
     if list_ex (\<lambda>a. al_kind a \<noteq> AliasCname) (op_endpoint_alias_path input) then Inl InvalidPlan
     else
     rbind (validate_alias_path (sb_service_target (op_service input)) (op_endpoint_alias_path input)
              (op_endpoint_target input)) (\<lambda>_.
     let seen = oq_host (op_query input) # map al_target (op_alias_path input);
         target = sb_service_target (op_service input)
     in if target \<noteq> op_terminal_target input \<and> target \<in> set seen then Inl InvalidPlan
        else
        let seen = (if target \<in> set seen then seen else seen @ [target])
        in unseen_targets seen (op_endpoint_alias_path input)))"

definition validate_plan_endpoints_and_service :: "origin_plan \<Rightarrow> (validation_error, unit) result" where
  "validate_plan_endpoints_and_service input =
     (let service = op_service input; query = op_query input;
          endpoint_mismatch =
            (length (op_endpoints input) > MAX_ENDPOINTS \<or>
             list_ex (\<lambda>e. socket_port e \<noteq> sb_effective_port service) (op_endpoints input) \<or>
             list_ex (\<lambda>h. \<not> list_ex (\<lambda>e. socket_ip e = h) (op_endpoints input)) (sb_connection_hints service));
          query_mismatch =
            (\<not> supports (oq_supported_protocols query) (sb_selected_protocol service) \<or>
             (\<not> uses_tls (oq_scheme query) \<and>
               (sb_priority service \<noteq> None \<or> sb_selected_protocol service \<noteq> Http11 \<or> sb_transport service \<noteq> Tcp)) \<or>
             (uses_tls (oq_scheme query) \<and> op_tls_policy input = Cleartext) \<or>
             (\<not> uses_tls (oq_scheme query) \<and> op_tls_policy input \<noteq> Cleartext) \<or>
             (sb_priority service = None \<and>
               (sb_service_target service \<noteq> op_terminal_target input \<or>
                sb_effective_port service \<noteq> origin_port query)) \<or>
             (sb_priority service \<noteq> None \<and> \<not> has_service_parameter (sb_parameters service) 3 \<and>
               sb_effective_port service \<noteq> origin_port query))
      in if endpoint_mismatch \<or> query_mismatch then Inl InvalidPlan else Inr ())"

definition validate_plan_tls :: "origin_plan \<Rightarrow> (validation_error, unit) result" where
  "validate_plan_tls input =
     (let invalid_records =
            (case op_tls_policy input of
               Dane \<Rightarrow> op_tlsa_records input = []
             | _ \<Rightarrow> op_tlsa_records input \<noteq> [])
      in if invalid_records \<or>
            (op_namespace input = Hns \<and>
              op_tls_policy input \<in> {WebPkiAuthenticatedAbsence, WebPkiInsecureDelegation})
         then Inl InvalidPlan
         else if (case op_provenance input of
                    IcannDohEvidence ChainSecure \<Rightarrow> op_tls_policy input \<in> {Dane, WebPkiAuthenticatedAbsence, Cleartext}
                  | IcannDohEvidence ChainProvenInsecure \<Rightarrow> op_tls_policy input \<in> {WebPkiInsecureDelegation, Cleartext}
                  | HnsEvidence _ _ _ \<Rightarrow> op_tls_policy input \<in> {Dane, StatelessDane, Cleartext})
         then Inr () else Inl InvalidEvidence)"

definition origin_plan_new :: "origin_plan \<Rightarrow> (validation_error, origin_plan) result" where
  "origin_plan_new input0 =
     rbind (provenance_validate_for (op_provenance input0) (op_namespace input0)) (\<lambda>_.
     if length (op_alias_path input0) > MAX_ALIAS_STEPS \<or> length (op_endpoint_alias_path input0) > MAX_ALIAS_STEPS \<or>
        op_endpoints input0 = [] \<or> length (op_endpoints input0) > MAX_ENDPOINTS \<or>
        length (op_tlsa_records input0) > MAX_TLSA_RECORDS
     then Inl BoundExceeded
     else
     rbind (validate_plan_aliases input0) (\<lambda>_.
     let input1 = input0\<lparr>op_endpoints := remdups_adj (sort (op_endpoints input0))\<rparr> in
     rbind (validate_plan_endpoints_and_service input1) (\<lambda>_.
     let input = input1\<lparr>op_tlsa_records := remdups_adj (sort (op_tlsa_records input1))\<rparr> in
     rbind (validate_plan_tls input) (\<lambda>_. Inr input))))"

section \<open>Divergence\<close>

type_synonym divergence_mask = u32

definition set_if :: "divergence_mask \<Rightarrow> u32 \<Rightarrow> bool \<Rightarrow> divergence_mask" where
  "set_if dm b condition = (if condition then dm OR b else dm)"

definition mask_is_empty :: "divergence_mask \<Rightarrow> bool" where
  "mask_is_empty dm \<longleftrightarrow> dm = 0"

definition mask_contains :: "divergence_mask \<Rightarrow> divergence_mask \<Rightarrow> bool" where
  "mask_contains dm other \<longleftrightarrow> dm AND other = other"

definition difference_bits :: "origin_plan \<Rightarrow> origin_plan \<Rightarrow> (nat \<times> bool) list" where
  "difference_bits a b =
     (let s = op_service a; t = op_service b in
      [(0, op_query a \<noteq> op_query b),
       (1, op_alias_path a \<noteq> op_alias_path b),
       (2, op_terminal_target a \<noteq> op_terminal_target b),
       (3, op_endpoints a \<noteq> op_endpoints b),
       (4, sb_priority s \<noteq> sb_priority t),
       (5, sb_service_target s \<noteq> sb_service_target t),
       (6, op_endpoint_alias_path a \<noteq> op_endpoint_alias_path b),
       (7, op_endpoint_target a \<noteq> op_endpoint_target b),
       (8, sb_mandatory_keys s \<noteq> sb_mandatory_keys t),
       (9, sb_advertised_alpn s \<noteq> sb_advertised_alpn t),
       (10, sb_selected_protocol s \<noteq> sb_selected_protocol t),
       (11, sb_effective_port s \<noteq> sb_effective_port t),
       (12, sb_transport s \<noteq> sb_transport t),
       (13, sb_connection_hints s \<noteq> sb_connection_hints t),
       (14, sb_ech_config s \<noteq> sb_ech_config t),
       (15, sb_parameters s \<noteq> sb_parameters t),
       (16, op_tls_policy a \<noteq> op_tls_policy b),
       (17, op_tlsa_records a \<noteq> op_tlsa_records b)])"

definition differences :: "origin_plan \<Rightarrow> origin_plan \<Rightarrow> divergence_mask" where
  "differences a b = foldl (\<lambda>dm (n, condition). set_if dm (push_bit n 1) condition) 0 (difference_bits a b)"

definition equivalent_to :: "origin_plan \<Rightarrow> origin_plan \<Rightarrow> bool" where
  "equivalent_to a b = mask_is_empty (differences a b)"

section \<open>Absence, failure and lookups\<close>

datatype absence_kind =
  HnsCurrentUrkelNonInclusion | DnssecAuthenticatedNxDomain | DnssecAuthenticatedNoUsableEndpoint
| IcannInsecureNxDomain | IcannInsecureNoUsableEndpoint

fun absence_tag :: "absence_kind \<Rightarrow> u8" where
  "absence_tag HnsCurrentUrkelNonInclusion = 1"
| "absence_tag DnssecAuthenticatedNxDomain = 2"
| "absence_tag DnssecAuthenticatedNoUsableEndpoint = 3"
| "absence_tag IcannInsecureNxDomain = 4"
| "absence_tag IcannInsecureNoUsableEndpoint = 5"

record validated_absence =
  ab_namespace :: namespace
  ab_query :: origin_query
  ab_kind :: absence_kind
  ab_provenance :: evidence_provenance
  ab_freshness :: freshness

definition absence_new ::
  "namespace \<Rightarrow> origin_query \<Rightarrow> absence_kind \<Rightarrow> evidence_provenance \<Rightarrow> freshness \<Rightarrow>
   (validation_error, validated_absence) result" where
  "absence_new n query kind provenance f =
     rbind (provenance_validate_for provenance n) (\<lambda>_.
     if (case provenance of
           HnsEvidence _ _ _ \<Rightarrow>
             n = Hns \<and> kind \<in> {HnsCurrentUrkelNonInclusion, DnssecAuthenticatedNxDomain, DnssecAuthenticatedNoUsableEndpoint}
         | IcannDohEvidence ChainSecure \<Rightarrow>
             n = Icann \<and> kind \<in> {DnssecAuthenticatedNxDomain, DnssecAuthenticatedNoUsableEndpoint}
         | IcannDohEvidence ChainProvenInsecure \<Rightarrow>
             n = Icann \<and> kind \<in> {IcannInsecureNxDomain, IcannInsecureNoUsableEndpoint})
     then Inr \<lparr>ab_namespace = n, ab_query = query, ab_kind = kind, ab_provenance = provenance, ab_freshness = f\<rparr>
     else Inl InvalidEvidence)"

datatype root_failure_kind =
  FailTimeout | FailTransport | StaleHnsAnchor | BogusDnssec | IndeterminateDnssec | UnauthenticatedResolver
| MalformedResponse | FailUnsupported | Cancelled | FailInternal | FailStaleEvidence

record root_failure =
  rf_namespace :: namespace
  rf_query :: origin_query
  rf_kind :: root_failure_kind
  rf_retry_after :: "u64 option"

datatype root_lookup =
  LookupPresent origin_plan | LookupAbsent validated_absence | LookupFailed root_failure

datatype root_resolution_disposition = DispPresent | DispAbsent | DispFailed

datatype root_resolution_state = StatePresent | StateAbsent | StateFailed root_failure

fun state_from_lookup :: "root_lookup \<Rightarrow> root_resolution_state" where
  "state_from_lookup (LookupPresent _) = StatePresent"
| "state_from_lookup (LookupAbsent _) = StateAbsent"
| "state_from_lookup (LookupFailed f) = StateFailed f"

fun state_disposition :: "root_resolution_state \<Rightarrow> root_resolution_disposition" where
  "state_disposition StatePresent = DispPresent"
| "state_disposition StateAbsent = DispAbsent"
| "state_disposition (StateFailed _) = DispFailed"

fun state_failure :: "root_resolution_state \<Rightarrow> root_failure option" where
  "state_failure (StateFailed f) = Some f"
| "state_failure _ = None"

section \<open>Selection policy and decision\<close>

datatype default_precedence = PreferIcann | FailClosed

fun precedence_tag :: "default_precedence \<Rightarrow> u8" where
  "precedence_tag PreferIcann = 1"
| "precedence_tag FailClosed = 2"

record selection_policy =
  sel_explicit_pin :: "namespace option"
  sel_sticky_binding :: "namespace option"
  sel_default_precedence :: default_precedence
  sel_revision :: u64

definition selection_policy_new :: "default_precedence \<Rightarrow> u64 \<Rightarrow> selection_policy" where
  "selection_policy_new precedence revision =
     \<lparr>sel_explicit_pin = None, sel_sticky_binding = None, sel_default_precedence = precedence, sel_revision = revision\<rparr>"

definition with_explicit_pin :: "selection_policy \<Rightarrow> namespace option \<Rightarrow> selection_policy" where
  "with_explicit_pin p n = p\<lparr>sel_explicit_pin := n\<rparr>"

definition with_sticky_binding :: "selection_policy \<Rightarrow> namespace option \<Rightarrow> selection_policy" where
  "with_sticky_binding p n = p\<lparr>sel_sticky_binding := n\<rparr>"

definition default_selection_policy :: selection_policy where
  "default_selection_policy = selection_policy_new PreferIcann 0"

datatype selection_reason = SingleRoot | ExplicitPin | StickyBinding | IcannDefault

fun reason_tag :: "selection_reason \<Rightarrow> u8" where
  "reason_tag SingleRoot = 1"
| "reason_tag ExplicitPin = 2"
| "reason_tag StickyBinding = 3"
| "reason_tag IcannDefault = 4"

datatype namespace_outcome =
  HnsOnly origin_plan validated_absence selection_reason
| IcannOnly origin_plan validated_absence selection_reason
| BothConvergent namespace selection_reason origin_plan origin_plan
| BothDivergent namespace selection_reason origin_plan origin_plan divergence_mask
| Neither validated_absence validated_absence

fun outcome_code :: "namespace_outcome \<Rightarrow> u8" where
  "outcome_code (HnsOnly _ _ _) = 1"
| "outcome_code (IcannOnly _ _ _) = 2"
| "outcome_code (BothConvergent _ _ _ _) = 3"
| "outcome_code (BothDivergent _ _ _ _ _) = 4"
| "outcome_code (Neither _ _) = 5"

fun selected_namespace :: "namespace_outcome \<Rightarrow> namespace option" where
  "selected_namespace (HnsOnly _ _ _) = Some Hns"
| "selected_namespace (IcannOnly _ _ _) = Some Icann"
| "selected_namespace (BothConvergent s _ _ _) = Some s"
| "selected_namespace (BothDivergent s _ _ _ _) = Some s"
| "selected_namespace (Neither _ _) = None"

fun outcome_reason :: "namespace_outcome \<Rightarrow> selection_reason option" where
  "outcome_reason (HnsOnly _ _ r) = Some r"
| "outcome_reason (IcannOnly _ _ r) = Some r"
| "outcome_reason (BothConvergent _ r _ _) = Some r"
| "outcome_reason (BothDivergent _ r _ _ _) = Some r"
| "outcome_reason (Neither _ _) = None"

fun selected_plan :: "namespace_outcome \<Rightarrow> origin_plan option" where
  "selected_plan (HnsOnly plan _ _) = Some plan"
| "selected_plan (IcannOnly plan _ _) = Some plan"
| "selected_plan (BothConvergent s _ hns icann) = Some (case s of Hns \<Rightarrow> hns | Icann \<Rightarrow> icann)"
| "selected_plan (BothDivergent s _ hns icann _) = Some (case s of Hns \<Rightarrow> hns | Icann \<Rightarrow> icann)"
| "selected_plan (Neither _ _) = None"

fun divergence :: "namespace_outcome \<Rightarrow> divergence_mask option" where
  "divergence (BothDivergent _ _ _ _ d) = Some d"
| "divergence _ = None"

fun outcome_hns_network :: "namespace_outcome \<Rightarrow> hns_network option" where
  "outcome_hns_network (HnsOnly plan _ _) = provenance_hns_network (op_provenance plan)"
| "outcome_hns_network (BothConvergent _ _ hns _) = provenance_hns_network (op_provenance hns)"
| "outcome_hns_network (BothDivergent _ _ hns _ _) = provenance_hns_network (op_provenance hns)"
| "outcome_hns_network (IcannOnly _ hns_absence _) = provenance_hns_network (ab_provenance hns_absence)"
| "outcome_hns_network (Neither hns _) = provenance_hns_network (ab_provenance hns)"

fun outcome_freshness :: "namespace_outcome \<Rightarrow> freshness \<times> freshness" where
  "outcome_freshness (HnsOnly plan absence _) = (op_freshness plan, ab_freshness absence)"
| "outcome_freshness (IcannOnly plan absence _) = (op_freshness plan, ab_freshness absence)"
| "outcome_freshness (BothConvergent _ _ hns icann) = (op_freshness hns, op_freshness icann)"
| "outcome_freshness (BothDivergent _ _ hns icann _) = (op_freshness hns, op_freshness icann)"
| "outcome_freshness (Neither hns icann) = (ab_freshness hns, ab_freshness icann)"

definition outcome_expires_at :: "namespace_outcome \<Rightarrow> u64" where
  "outcome_expires_at out = (case outcome_freshness out of (a, b) \<Rightarrow> min (fr_expires_at a) (fr_expires_at b))"

definition outcome_fresh_at :: "namespace_outcome \<Rightarrow> u64 \<Rightarrow> bool" where
  "outcome_fresh_at out now \<longleftrightarrow>
     now < outcome_expires_at out \<and> (case outcome_freshness out of (a, b) \<Rightarrow> fresh_at a now \<and> fresh_at b now)"

record namespace_decision =
  nd_query :: origin_query
  nd_policy :: selection_policy
  nd_outcome :: namespace_outcome

datatype classification_error =
  RootFailed root_resolution_state root_resolution_state
| RootPositionMismatch namespace namespace
| QueryMismatch namespace
| StaleEvidence namespace
| SelectedNamespaceUnavailable namespace selection_reason
| DivergenceRequiresSelection

fun lookup_namespace :: "root_lookup \<Rightarrow> namespace" where
  "lookup_namespace (LookupPresent p) = op_namespace p"
| "lookup_namespace (LookupAbsent a) = ab_namespace a"
| "lookup_namespace (LookupFailed f) = rf_namespace f"

fun lookup_query :: "root_lookup \<Rightarrow> origin_query" where
  "lookup_query (LookupPresent p) = op_query p"
| "lookup_query (LookupAbsent a) = ab_query a"
| "lookup_query (LookupFailed f) = rf_query f"

fun lookup_fresh :: "u64 \<Rightarrow> root_lookup \<Rightarrow> bool option" where
  "lookup_fresh now (LookupPresent p) = Some (fresh_at (op_freshness p) now)"
| "lookup_fresh now (LookupAbsent a) = Some (fresh_at (ab_freshness a) now)"
| "lookup_fresh now (LookupFailed f) = None"

definition validate_lookup ::
  "origin_query \<Rightarrow> namespace \<Rightarrow> root_lookup \<Rightarrow> u64 \<Rightarrow> (classification_error, unit) result" where
  "validate_lookup query expected l now =
     (if lookup_namespace l \<noteq> expected then Inl (RootPositionMismatch expected (lookup_namespace l))
      else if lookup_query l \<noteq> query then Inl (QueryMismatch expected)
      else if lookup_fresh now l = Some False then Inl (StaleEvidence expected)
      else Inr ())"

definition select_namespace ::
  "selection_policy \<Rightarrow> bool \<Rightarrow> (classification_error, namespace \<times> selection_reason) result" where
  "select_namespace policy convergent =
     (case sel_explicit_pin policy of
        Some n \<Rightarrow> Inr (n, ExplicitPin)
      | None \<Rightarrow>
          (case sel_sticky_binding policy of
             Some n \<Rightarrow> Inr (n, StickyBinding)
           | None \<Rightarrow>
               (case sel_default_precedence policy of
                  PreferIcann \<Rightarrow> Inr (Icann, IcannDefault)
                | FailClosed \<Rightarrow>
                    if convergent then Inr (Icann, IcannDefault) else Inl DivergenceRequiresSelection)))"

definition select_single_namespace ::
  "selection_policy \<Rightarrow> namespace \<Rightarrow> (classification_error, selection_reason) result" where
  "select_single_namespace policy available =
     (case sel_explicit_pin policy of
        Some n \<Rightarrow> if n = available then Inr ExplicitPin else Inl (SelectedNamespaceUnavailable n ExplicitPin)
      | None \<Rightarrow>
          (case sel_sticky_binding policy of
             Some n \<Rightarrow> if n = available then Inr StickyBinding else Inl (SelectedNamespaceUnavailable n StickyBinding)
           | None \<Rightarrow> Inr SingleRoot))"

definition lookup_failed :: "root_lookup \<Rightarrow> bool" where
  "lookup_failed l = (case l of LookupFailed _ \<Rightarrow> True | _ \<Rightarrow> False)"

text \<open>The match on both lookups; a failed lookup has been refused before.\<close>

definition classify :: "selection_policy \<Rightarrow> root_lookup \<Rightarrow> root_lookup \<Rightarrow> (classification_error, namespace_outcome) result" where
  "classify policy hns icann =
     (case (hns, icann) of
        (LookupPresent plan, LookupAbsent absence) \<Rightarrow>
          rbind (select_single_namespace policy Hns) (\<lambda>reason. Inr (HnsOnly plan absence reason))
      | (LookupAbsent absence, LookupPresent plan) \<Rightarrow>
          rbind (select_single_namespace policy Icann) (\<lambda>reason. Inr (IcannOnly plan absence reason))
      | (LookupAbsent a, LookupAbsent b) \<Rightarrow> Inr (Neither a b)
      | (LookupPresent p, LookupPresent q) \<Rightarrow>
          let d = differences p q in
          rbind (select_namespace policy (mask_is_empty d)) (\<lambda>(selected, reason).
            if mask_is_empty d then Inr (BothConvergent selected reason p q)
            else Inr (BothDivergent selected reason p q d))
      | _ \<Rightarrow> Inl (RootFailed (state_from_lookup hns) (state_from_lookup icann)))"

definition decide_namespace ::
  "origin_query \<Rightarrow> root_lookup \<Rightarrow> root_lookup \<Rightarrow> selection_policy \<Rightarrow> u64 \<Rightarrow>
   (classification_error, namespace_decision) result" where
  "decide_namespace query hns icann policy now =
     rbind (validate_lookup query Hns hns now) (\<lambda>_.
     rbind (validate_lookup query Icann icann now) (\<lambda>_.
     if lookup_failed hns \<or> lookup_failed icann
     then Inl (RootFailed (state_from_lookup hns) (state_from_lookup icann))
     else rbind (classify policy hns icann) (\<lambda>outcome.
       Inr \<lparr>nd_query = query, nd_policy = policy, nd_outcome = outcome\<rparr>)))"

end
