(* ===== verification/Sha256.thy ===== *)
theory Sha256
  imports Prelude
begin

unbundle bit_operations_syntax

text \<open>
  The SHA-256 routine of src/crates/hns-namespace-resolution/src/lib.rs and its equivalence with the
  algorithm of FIPS 180-4: the padding loop against the closed form of the padded message, the message
  schedule filled by index against the recurrence, the round loop against the iterated round, and the two
  tables of constants against the roots of the first primes, which define the constants of the standard.
\<close>

section \<open>The routine\<close>

definition rotate_right :: "u32 \<Rightarrow> nat \<Rightarrow> u32" where
  "rotate_right w n = word_rotr n w"

text \<open>The two tables, in decimal.\<close>

definition INITIAL :: "u32 list" where
  "INITIAL =
     [1779033703, 3144134277, 1013904242, 2773480762, 1359893119, 2600822924, 528734635, 1541459225]"

definition ROUND :: "u32 list" where
  "ROUND =
     [1116352408, 1899447441, 3049323471, 3921009573, 961987163, 1508970993, 2453635748, 2870763221,
      3624381080, 310598401, 607225278, 1426881987, 1925078388, 2162078206, 2614888103, 3248222580,
      3835390401, 4022224774, 264347078, 604807628, 770255983, 1249150122, 1555081692, 1996064986,
      2554220882, 2821834349, 2952996808, 3210313671, 3336571891, 3584528711, 113926993, 338241895,
      666307205, 773529912, 1294757372, 1396182291, 1695183700, 1986661051, 2177026350, 2456956037,
      2730485921, 2820302411, 3259730800, 3345764771, 3516065817, 3600352804, 4094571909, 275423344,
      430227734, 506948616, 659060556, 883997877, 958139571, 1322822218, 1537002063, 1747873779,
      1955562222, 2024104815, 2227730452, 2361852424, 2428436474, 2756734187, 3204031479, 3329325298]"

definition pad_left :: "nat \<Rightarrow> nat" where
  "pad_left n = (if n mod 64 \<le> 56 then 56 - n mod 64 else 120 - n mod 64)"

lemma pad_left_Suc: "n mod 64 \<noteq> 56 \<Longrightarrow> pad_left n = Suc (pad_left (Suc n))"
proof -
  define k where "k = n mod 64"
  have "k < 64" by (simp add: k_def)
  moreover assume "n mod 64 \<noteq> 56"
  ultimately show ?thesis unfolding pad_left_def mod_Suc k_def [symmetric] by auto
qed

function pad_loop :: "bytes \<Rightarrow> bytes" where
  "pad_loop padded = (if length padded mod 64 \<noteq> 56 then pad_loop (padded @ [0]) else padded)"
  by pat_completeness auto

termination
  by (relation "measure (\<lambda>padded. pad_left (length padded))") (auto simp: pad_left_Suc)

definition bit_len :: "bytes \<Rightarrow> u64" where
  "bit_len input = (if length input \<le> u64_max then of_nat (length input) else - 1) * 8"

definition pad :: "bytes \<Rightarrow> bytes" where
  "pad input = pad_loop (input @ [0x80]) @ be_bytes 8 (bit_len input)"

definition schedule_step :: "u32 list \<Rightarrow> nat \<Rightarrow> u32 list" where
  "schedule_step words index =
     (let s0 = rotate_right (words ! (index - 15)) 7 XOR rotate_right (words ! (index - 15)) 18 XOR
               drop_bit 3 (words ! (index - 15));
          s1 = rotate_right (words ! (index - 2)) 17 XOR rotate_right (words ! (index - 2)) 19 XOR
               drop_bit 10 (words ! (index - 2))
      in words[index := words ! (index - 16) + s0 + words ! (index - 7) + s1])"

definition schedule :: "bytes \<Rightarrow> u32 list" where
  "schedule chunk =
     (let words = foldl (\<lambda>ws (index, bs). ws[index := be_word bs]) (replicate 64 0) (enumerate 0 (chunks_exact 4 chunk))
      in foldl schedule_step words [16..<64])"

type_synonym working = "u32 \<times> u32 \<times> u32 \<times> u32 \<times> u32 \<times> u32 \<times> u32 \<times> u32"

definition round_step :: "u32 list \<Rightarrow> working \<Rightarrow> nat \<Rightarrow> working" where
  "round_step words v index =
     (case v of (a, b, c, d, e, f, g, h) \<Rightarrow>
      let sum1 = rotate_right e 6 XOR rotate_right e 11 XOR rotate_right e 25;
          choice = (e AND f) XOR ((NOT e) AND g);
          temporary1 = h + sum1 + choice + ROUND ! index + words ! index;
          sum0 = rotate_right a 2 XOR rotate_right a 13 XOR rotate_right a 22;
          majority = (a AND b) XOR (a AND c) XOR (b AND c);
          temporary2 = sum0 + majority
      in (temporary1 + temporary2, a, b, c, d + temporary1, e, f, g))"

fun working_of :: "u32 list \<Rightarrow> working" where
  "working_of state = (state ! 0, state ! 1, state ! 2, state ! 3, state ! 4, state ! 5, state ! 6, state ! 7)"

fun working_list :: "working \<Rightarrow> u32 list" where
  "working_list (a, b, c, d, e, f, g, h) = [a, b, c, d, e, f, g, h]"

definition compress :: "u32 list \<Rightarrow> bytes \<Rightarrow> u32 list" where
  "compress state chunk =
     map2 (+) state (working_list (foldl (round_step (schedule chunk)) (working_of state) [0..<64]))"

definition sha256 :: "bytes \<Rightarrow> bytes" where
  "sha256 input = concat (map (be_bytes 4) (foldl compress INITIAL (chunks_exact 64 (pad input))))"

section \<open>Padding\<close>

lemma pad_left_56: "n mod 64 = 56 \<Longrightarrow> pad_left n = 0"
  by (simp add: pad_left_def)

lemma pad_loop_eq: "pad_loop padded = padded @ replicate (pad_left (length padded)) 0"
proof (induction padded rule: pad_loop.induct)
  case (1 padded)
  show ?case
  proof (cases "length padded mod 64 = 56")
    case False
    then show ?thesis
      using 1 pad_left_Suc [of "length padded"] by (simp add: pad_loop.simps [of padded])
  qed (simp add: pad_loop.simps [of padded] pad_left_56)
qed

declare pad_loop.simps [simp del]

lemma pad_left_mod: "(n + pad_left n) mod 64 = 56"
proof -
  have "(n + pad_left n) mod 64 = (n mod 64 + pad_left n) mod 64" by (simp add: mod_add_left_eq)
  moreover have "n mod 64 + pad_left n \<in> {56, 120}"
    using mod_less_divisor [of 64 n] by (auto simp: pad_left_def)
  ultimately show ?thesis by auto
qed

lemma length_pad: "length (pad input) mod 64 = 0"
proof -
  let ?n = "Suc (length input)"
  have "length (pad input) = ?n + pad_left ?n + 8"
    by (simp add: pad_def pad_loop_eq)
  also have "\<dots> mod 64 = ((?n + pad_left ?n) mod 64 + 8) mod 64" by (rule mod_add_left_eq [symmetric])
  finally show ?thesis unfolding pad_left_mod by simp
qed

section \<open>The standard\<close>

text \<open>FIPS 180-4, sections 4.1.2, 5.1.1, 5.2.1 and 6.2.2.\<close>

definition ROTR :: "nat \<Rightarrow> u32 \<Rightarrow> u32" where
  "ROTR n x = drop_bit n x OR push_bit (32 - n) x"

definition Ch :: "u32 \<Rightarrow> u32 \<Rightarrow> u32 \<Rightarrow> u32" where
  "Ch x y z = (x AND y) XOR ((NOT x) AND z)"

definition Maj :: "u32 \<Rightarrow> u32 \<Rightarrow> u32 \<Rightarrow> u32" where
  "Maj x y z = (x AND y) XOR (x AND z) XOR (y AND z)"

definition Sigma0 :: "u32 \<Rightarrow> u32" where "Sigma0 x = ROTR 2 x XOR ROTR 13 x XOR ROTR 22 x"
definition Sigma1 :: "u32 \<Rightarrow> u32" where "Sigma1 x = ROTR 6 x XOR ROTR 11 x XOR ROTR 25 x"
definition sigma0 :: "u32 \<Rightarrow> u32" where "sigma0 x = ROTR 7 x XOR ROTR 18 x XOR drop_bit 3 x"
definition sigma1 :: "u32 \<Rightarrow> u32" where "sigma1 x = ROTR 17 x XOR ROTR 19 x XOR drop_bit 10 x"

text \<open>
  The constants of the standard: the initial hash value is made of the first 32 bits of the fractional parts of
  the square roots of the first eight primes, the round constants of those of the cube roots of the first
  sixty-four, which are the primes up to 311.  The 32 bits are those of the integral part of \<open>2\<^sup>32\<close> times the
  root, modulo \<open>2\<^sup>32\<close>.  Nothing of the tables of the routine enters here.
\<close>

definition is_prime :: "nat \<Rightarrow> bool" where
  "is_prime n \<longleftrightarrow> 2 \<le> n \<and> list_all (\<lambda>d. n mod d \<noteq> 0) [2..<n]"

definition fips_primes :: "nat list" where
  "fips_primes = filter is_prime [2..<312]"

definition fips_root :: "nat \<Rightarrow> nat \<Rightarrow> u32" where
  "fips_root k p = of_nat (GREATEST n. n ^ k \<le> p * 2 ^ (32 * k))"

definition fips_H0 :: "u32 list" where
  "fips_H0 = map (fips_root 2) (take 8 fips_primes)"

definition fips_K :: "u32 list" where
  "fips_K = map (fips_root 3) fips_primes"

definition fips_pad :: "bytes \<Rightarrow> bytes" where
  "fips_pad m = m @ [0x80] @ replicate (LEAST k. (length m + 1 + k) mod 64 = 56) 0 @ be_bytes 8 (of_nat (8 * length m) :: u64)"

fun fips_blocks :: "bytes \<Rightarrow> bytes list" where
  "fips_blocks m = (if length m < 64 then [] else take 64 m # fips_blocks (drop 64 m))"

declare fips_blocks.simps [simp del]

fun fips_W :: "bytes \<Rightarrow> nat \<Rightarrow> u32" where
  "fips_W m t =
     (if t < 16 then be_word (take 4 (drop (4 * t) m))
      else sigma1 (fips_W m (t - 2)) + fips_W m (t - 7) + sigma0 (fips_W m (t - 15)) + fips_W m (t - 16))"

declare fips_W.simps [simp del]

definition fips_round :: "u32 \<Rightarrow> u32 \<Rightarrow> working \<Rightarrow> working" where
  "fips_round k w v =
     (case v of (a, b, c, d, e, f, g, h) \<Rightarrow>
      let T1 = h + Sigma1 e + Ch e f g + k + w; T2 = Sigma0 a + Maj a b c
      in (T1 + T2, a, b, c, d + T1, e, f, g))"

fun fips_rounds :: "bytes \<Rightarrow> nat \<Rightarrow> working \<Rightarrow> working" where
  "fips_rounds m 0 v = v"
| "fips_rounds m (Suc t) v = fips_round (fips_K ! t) (fips_W m t) (fips_rounds m t v)"

fun fips_hash :: "working \<Rightarrow> bytes list \<Rightarrow> working" where
  "fips_hash v [] = v"
| "fips_hash (a, b, c, d, e, f, g, h) (m # ms) =
     (case fips_rounds m 64 (a, b, c, d, e, f, g, h) of (a', b', c', d', e', f', g', h') \<Rightarrow>
        fips_hash (a' + a, b' + b, c' + c, d' + d, e' + e, f' + f, g' + g, h' + h) ms)"

definition fips_sha256 :: "bytes \<Rightarrow> bytes" where
  "fips_sha256 m = concat (map (be_bytes 4) (working_list (fips_hash (working_of fips_H0) (fips_blocks (fips_pad m)))))"

section \<open>Equivalence\<close>

lemma rotate_right_ROTR: "n < 32 \<Longrightarrow> rotate_right w n = ROTR n w"
proof (rule bit_word_eqI)
  fix k assume "n < 32" and "k < LENGTH(32)"
  then have k: "k < 32" "n < 32" by simp_all
  show "bit (rotate_right w n) k \<longleftrightarrow> bit (ROTR n w) k"
  proof (cases "k + n < 32")
    case True
    then have "\<not> 32 - n \<le> k" by simp
    then show ?thesis using k True
      by (simp add: rotate_right_def ROTR_def bit_word_rotr_iff bit_or_iff bit_drop_bit_eq bit_push_bit_iff add.commute)
  next
    case False
    have "\<not> bit w (n + k)" using False bit_imp_le_length [of w "n + k"] by auto
    moreover have "(k + n) mod 32 = k - (32 - n)" using False k by (simp add: le_mod_geq)
    moreover have "32 - n \<le> k" using False by simp
    ultimately show ?thesis using k False
      by (simp add: rotate_right_def ROTR_def bit_word_rotr_iff bit_or_iff bit_drop_bit_eq bit_push_bit_iff)
  qed
qed

lemma mod_64_below: "x < 128 \<Longrightarrow> x mod 64 = (if x < 64 then x else x - 64)" for x :: nat
  by (simp add: le_mod_geq)

lemma pad_left_least: "(LEAST k. (n + k) mod 64 = 56) = pad_left n"
proof (rule Least_equality)
  show "(n + pad_left n) mod 64 = 56" by (rule pad_left_mod)
  fix k assume k: "(n + k) mod 64 = 56"
  show "pad_left n \<le> k"
  proof (rule ccontr)
    assume "\<not> pad_left n \<le> k"
    then have "k < pad_left n" by simp
    moreover have "(n mod 64 + k) mod 64 = 56" using k by (simp add: mod_add_left_eq)
    moreover define r where "r = n mod 64"
    moreover have "r < 64" by (simp add: r_def)
    ultimately have "(r + k) mod 64 = 56" "r + k < 56 \<or> 56 < r + k \<and> r + k < 120"
      by (auto simp: pad_left_def split: if_splits)
    then show False using mod_64_below [of "r + k"] by (auto split: if_splits)
  qed
qed

lemma pad_fips: "length m < 2 ^ 61 \<Longrightarrow> pad m = fips_pad m"
  using pad_left_least [of "Suc (length m)"]
  by (simp add: pad_def fips_pad_def pad_loop_eq bit_len_def u64_max_def mult.commute)

lemma sigma_code:
  "rotate_right x 7 XOR rotate_right x 18 XOR drop_bit 3 x = sigma0 x"
  "rotate_right x 17 XOR rotate_right x 19 XOR drop_bit 10 x = sigma1 x"
  "rotate_right x 2 XOR rotate_right x 13 XOR rotate_right x 22 = Sigma0 x"
  "rotate_right x 6 XOR rotate_right x 11 XOR rotate_right x 25 = Sigma1 x"
  by (simp_all add: rotate_right_ROTR sigma0_def sigma1_def Sigma0_def Sigma1_def)

subsection \<open>The constants\<close>

text \<open>The first primes, with the integral parts of their square and cube roots.\<close>

definition square_roots :: "(nat \<times> nat) list" where
  "square_roots = [(2, 1), (3, 1), (5, 2), (7, 2), (11, 3), (13, 3), (17, 4), (19, 4)]"

definition cube_roots :: "(nat \<times> nat) list" where
  "cube_roots =
     [(2, 1), (3, 1), (5, 1), (7, 1), (11, 2), (13, 2), (17, 2), (19, 2), (23, 2), (29, 3), (31, 3), (37, 3),
      (41, 3), (43, 3), (47, 3), (53, 3), (59, 3), (61, 3), (67, 4), (71, 4), (73, 4), (79, 4), (83, 4), (89, 4),
      (97, 4), (101, 4), (103, 4), (107, 4), (109, 4), (113, 4), (127, 5), (131, 5), (137, 5), (139, 5), (149, 5), (151, 5),
      (157, 5), (163, 5), (167, 5), (173, 5), (179, 5), (181, 5), (191, 5), (193, 5), (197, 5), (199, 5), (211, 5), (223, 6),
      (227, 6), (229, 6), (233, 6), (239, 6), (241, 6), (251, 6), (257, 6), (263, 6), (269, 6), (271, 6), (277, 6), (281, 6),
      (283, 6), (293, 6), (307, 6), (311, 6)]"

text \<open>\<open>w\<close> is the first 32 bits of the fractional part of the \<open>k\<close>-th root of \<open>p\<close>, whose integral part is \<open>q\<close>.\<close>

definition root_bits :: "nat \<Rightarrow> nat \<times> nat \<Rightarrow> u32 \<Rightarrow> bool" where
  "root_bits k = (\<lambda>(p, q) w.
     (q * 2 ^ 32 + unat w) ^ k \<le> p * 2 ^ (32 * k) \<and> p * 2 ^ (32 * k) < (q * 2 ^ 32 + unat w + 1) ^ k)"

lemma is_prime_small:
  assumes "n < 324"
  shows "is_prime n \<longleftrightarrow> 2 \<le> n \<and> list_all (\<lambda>p. n \<le> p \<or> n mod p \<noteq> 0) [2, 3, 5, 7, 11, 13, 17]"
proof -
  have "\<exists>p \<in> {2, 3, 5, 7, 11, 13, 17}. p < n \<and> n mod p = 0" if d: "2 \<le> d" "d < n" "n mod d = 0" for d
  proof -
    obtain e where e: "n = d * e" using d(3) by (auto simp: mod_eq_0_iff_dvd)
    have "2 \<le> e" using d e by (cases e; cases "e - 1") auto
    moreover have "d < 18 \<or> e < 18" using assms e mult_le_mono [of 18 d 18 e] by linarith
    moreover have "e < n" "0 < n" using d e \<open>2 \<le> e\<close> by auto
    ultimately obtain x where x: "2 \<le> x" "x < 18" "x dvd n" "x < n" using d(1,2) e by (metis dvd_triv_left dvd_triv_right)
    have "list_all (\<lambda>x. \<exists>p \<in> {2, 3, 5, 7, 11, 13, 17}. p dvd x) [2 ..< 18 :: nat]" by simp
    with x(1,2) have "\<exists>p \<in> {2, 3, 5, 7, 11, 13, 17}. p dvd x" by (simp add: list_all_iff del: upt_rec_numeral)
    then obtain p where "p \<in> {2, 3, 5, 7, 11, 13, 17}" "p dvd x" by blast
    then show ?thesis using x by (meson dvd_imp_le dvd_trans dvd_imp_mod_0 le_less_trans less_le_trans zero_less_numeral)
  qed
  then show ?thesis unfolding is_prime_def list_all_iff by fastforce
qed
lemma fips_primes: "fips_primes = map fst cube_roots" "take 8 fips_primes = map fst square_roots"
proof -
  show p: "fips_primes = map fst cube_roots"
    unfolding fips_primes_def cube_roots_def by (simp add: is_prime_small cong: filter_cong)
  show "take 8 fips_primes = map fst square_roots" by (simp add: p cube_roots_def square_roots_def)
qed

lemma root_bits_root:
  assumes "root_bits k (p, q) w"
  shows "fips_root k p = w"
proof -
  let ?n = "q * 2 ^ 32 + unat w"
  have b: "?n ^ k \<le> p * 2 ^ (32 * k)" "p * 2 ^ (32 * k) < (?n + 1) ^ k" using assms by (simp_all add: root_bits_def)
  have "(GREATEST n. n ^ k \<le> p * 2 ^ (32 * k)) = ?n"
  proof (rule Greatest_equality)
    show "?n ^ k \<le> p * 2 ^ (32 * k)" by (rule b(1))
  next
    fix y :: nat
    assume "y ^ k \<le> p * 2 ^ (32 * k)"
    then have "y ^ k < (?n + 1) ^ k" using b(2) by (rule le_less_trans)
    then have "y < ?n + 1" by (rule power_less_imp_less_base) simp
    then show "y \<le> ?n" by simp
  qed
  moreover have "of_nat (2 ^ 32) = (0 :: u32)" by simp
  ultimately show ?thesis unfolding fips_root_def by (simp only: of_nat_add of_nat_mult) simp
qed

lemma root_bits_table: "list_all2 (root_bits k) rs ws \<Longrightarrow> ws = map (fips_root k) (map fst rs)"
  by (induction rs ws rule: list_all2_induct) (auto simp: root_bits_root)

text \<open>The two tables of the routine are the constants of the standard.\<close>

lemma tables_fips: "INITIAL = fips_H0" "ROUND = fips_K"
proof -
  have "list_all2 (root_bits 2) square_roots INITIAL"
    by (simp add: root_bits_def square_roots_def INITIAL_def)
  then show "INITIAL = fips_H0" unfolding fips_H0_def fips_primes(2) by (rule root_bits_table)
  have "list_all2 (root_bits 3) cube_roots ROUND"
    by (simp add: root_bits_def cube_roots_def ROUND_def)
  then show "ROUND = fips_K" unfolding fips_K_def fips_primes(1) by (rule root_bits_table)
qed

subsection \<open>Rounds and blocks\<close>

lemma round_step_fips: "round_step words v t = fips_round (fips_K ! t) (words ! t) v"
  by (cases v) (simp add: round_step_def fips_round_def Let_def sigma_code Ch_def Maj_def tables_fips)

text \<open>The words copied from the block, and the invariant of the loop that fills the rest.\<close>

lemma copy_words:
  assumes "length xs \<le> n"
  shows "foldl (\<lambda>ws (index, bs). ws[index := f bs]) (replicate n z) (enumerate 0 xs) =
    map f xs @ replicate (n - length xs) z"
  using assms
proof (induction xs rule: rev_induct)
  case (snoc x xs)
  then have "replicate (n - length xs) z = z # replicate (n - Suc (length xs)) z"
    by (metis Suc_diff_Suc Suc_le_lessD length_append_singleton replicate_Suc)
  then show ?case using snoc by (simp add: enumerate_append_eq list_update_append)
qed simp

lemma schedule_prefix:
  assumes "length chunk = 64"
  shows "k \<le> 48 \<Longrightarrow>
    foldl schedule_step (map be_word (chunks_exact 4 chunk) @ replicate 48 0) [16..<16 + k] =
      map (fips_W chunk) [0..<16 + k] @ replicate (48 - k) 0"
proof (induction k)
  case 0
  have "map be_word (chunks_exact 4 chunk) = map (fips_W chunk) [0..<16]"
    using assms by (simp add: chunks_exact_def fips_W.simps [of chunk] mult.commute)
  then show ?case by simp
next
  case (Suc k)
  let ?ws = "map (fips_W chunk) [0..<16 + k] @ replicate (48 - k) 0"
  have "replicate (48 - k) (0 :: u32) = 0 # replicate (48 - Suc k) 0"
    using Suc.prems by (metis Suc_diff_Suc Suc_le_lessD replicate_Suc)
  moreover have "fips_W chunk (16 + k) =
      sigma1 (fips_W chunk (14 + k)) + fips_W chunk (9 + k) + sigma0 (fips_W chunk (1 + k)) + fips_W chunk k"
    by (subst fips_W.simps) simp
  then have "schedule_step ?ws (16 + k) = ?ws[16 + k := fips_W chunk (16 + k)]"
    by (simp add: schedule_step_def Let_def sigma_code nth_append algebra_simps)
  moreover have "map (fips_W chunk) [0..<16 + Suc k] = map (fips_W chunk) [0..<16 + k] @ [fips_W chunk (16 + k)]"
    by (simp only: add_Suc_right upt_Suc_append le0 map_append list.map)
  ultimately have "schedule_step ?ws (16 + k) = map (fips_W chunk) [0..<16 + Suc k] @ replicate (48 - Suc k) 0"
    by (simp only: list_update_append) simp
  moreover have "[16..<16 + Suc k] = [16..<16 + k] @ [16 + k]"
    by (simp only: add_Suc_right upt_Suc_append le_add1)
  ultimately show ?case using Suc by (simp only: foldl_append foldl_Cons foldl_Nil Suc_leD)
qed

lemma schedule_fips:
  assumes "length chunk = 64"
  shows "schedule chunk = map (fips_W chunk) [0..<64]"
proof -
  have "length (chunks_exact 4 chunk) = 16" using assms by (simp add: chunks_exact_def)
  then have "foldl (\<lambda>ws (index, bs). ws[index := be_word bs]) (replicate 64 (0 :: u32)) (enumerate 0 (chunks_exact 4 chunk)) =
      map be_word (chunks_exact 4 chunk) @ replicate 48 0"
    by (simp add: copy_words)
  then show ?thesis using schedule_prefix [OF assms, of 48] by (simp add: schedule_def del: upt_rec_numeral)
qed

lemma rounds_fips:
  assumes "length chunk = 64" and "t \<le> 64"
  shows "foldl (round_step (schedule chunk)) v [0..<t] = fips_rounds chunk t v"
  using assms(2)
  by (induction t) (simp_all add: round_step_fips schedule_fips [OF assms(1)] del: upt_rec_numeral)

lemma compress_fips:
  assumes "length chunk = 64" and "length state = 8"
  shows "working_of (compress state chunk) =
    (case (working_of state, fips_rounds chunk 64 (working_of state)) of
       ((a, b, c, d, e, f, g, h), (a', b', c', d', e', f', g', h')) \<Rightarrow>
         (a' + a, b' + b, c' + c, d' + d, e' + e, f' + f, g' + g, h' + h))"
    and "length (compress state chunk) = 8"
proof -
  obtain a b c d e f g h where s: "state = [a, b, c, d, e, f, g, h]"
    using assms(2) by (auto simp: length_Suc_conv eval_nat_numeral)
  obtain a' b' c' d' e' f' g' h' where
    r: "fips_rounds chunk 64 (a, b, c, d, e, f, g, h) = (a', b', c', d', e', f', g', h')"
    by (metis prod.exhaust)
  then have c: "compress state chunk = [a + a', b + b', c + c', d + d', e + e', f + f', g + g', h + h']"
    using rounds_fips [OF assms(1), of 64] by (simp add: compress_def s del: upt_rec_numeral)
  show "working_of (compress state chunk) =
    (case (working_of state, fips_rounds chunk 64 (working_of state)) of
       ((a, b, c, d, e, f, g, h), (a', b', c', d', e', f', g', h')) \<Rightarrow>
         (a' + a, b' + b, c' + c, d' + d, e' + e, f' + f, g' + g, h' + h))"
    unfolding c by (simp add: s r add.commute)
  show "length (compress state chunk) = 8" by (simp add: c)
qed

lemma fold_fips:
  assumes "\<forall>c \<in> set cs. length c = 64" and "length state = 8"
  shows "working_of (foldl compress state cs) = fips_hash (working_of state) cs \<and> length (foldl compress state cs) = 8"
  using assms
proof (induction cs arbitrary: state)
  case (Cons c cs)
  have "working_of (compress state c) = fips_hash (working_of (compress state c)) []" by simp
  then show ?case
    using Cons.IH [of "compress state c"] Cons.prems compress_fips [of c state]
    by (simp split: prod.splits)
qed simp

lemma blocks_fips: "length m mod 64 = 0 \<Longrightarrow> chunks_exact 64 m = fips_blocks m"
proof (induction m rule: fips_blocks.induct)
  case (1 m)
  show ?case
  proof (cases "length m < 64")
    case False
    then have "length m div 64 = Suc (length (drop 64 m) div 64)" by (simp add: le_div_geq)
    moreover have "length (drop 64 m) mod 64 = 0" using 1(2) False by (simp add: le_mod_geq)
    ultimately show ?thesis
      using 1(1) False
      by (simp add: chunks_exact_def fips_blocks.simps [of m] upt_conv_Cons map_Suc_upt [symmetric] o_def add.commute
          del: upt_Suc map_Suc_upt)
  qed (simp add: chunks_exact_def fips_blocks.simps)
qed

lemma block_length: "b \<in> set (chunks_exact n m) \<Longrightarrow> length b = n"
proof -
  assume "b \<in> set (chunks_exact n m)"
  then obtain i where i: "i < length m div n" "b = take n (drop (i * n) m)" by (auto simp: chunks_exact_def)
  then have "Suc i * n \<le> length m" by (metis Suc_leI div_times_less_eq_dividend le_trans mult_le_mono1)
  then show ?thesis using i by simp
qed

lemma working_list_of: "length xs = 8 \<Longrightarrow> working_list (working_of xs) = xs"
  by (auto simp: length_Suc_conv eval_nat_numeral)

text \<open>C28: On every message of the standard's domain (fewer than \<open>2\<^sup>64\<close> bits) the routine computes SHA-256 of
  FIPS 180-4, whose initial hash value and round constants are defined by the roots of the first primes, and
  its result has 32 bytes.\<close>

theorem sha256_fips:
  assumes "length m < 2 ^ 61"
  shows "sha256 m = fips_sha256 m \<and> length (sha256 m) = 32"
proof -
  have "length INITIAL = 8" by (simp add: INITIAL_def)
  moreover have "\<forall>c \<in> set (chunks_exact 64 (pad m)). length c = 64" by (simp add: block_length)
  ultimately have f: "working_of (foldl compress INITIAL (chunks_exact 64 (pad m))) =
      fips_hash (working_of INITIAL) (chunks_exact 64 (pad m))"
    and l: "length (foldl compress INITIAL (chunks_exact 64 (pad m))) = 8"
    using fold_fips by blast+
  have "foldl compress INITIAL (chunks_exact 64 (pad m)) =
      working_list (fips_hash (working_of INITIAL) (fips_blocks (fips_pad m)))"
    using working_list_of [OF l] f blocks_fips [OF length_pad] pad_fips [OF assms] by metis
  then show ?thesis using l by (simp add: sha256_def fips_sha256_def tables_fips [symmetric] length_concat o_def sum_list_triv)
qed

section \<open>Padding determines the message\<close>

lemma pad_inj:
  assumes "pad m = pad n" and "length m < 2 ^ 61" and "length n < 2 ^ 61"
  shows "m = n"
proof -
  let ?l = "\<lambda>x. of_nat (8 * length x) :: u64"
  have *: "pad x = (x @ [0x80] @ replicate (pad_left (Suc (length x))) 0) @ be_bytes 8 (?l x)" if "length x < 2 ^ 61" for x
    using that by (simp add: pad_def pad_loop_eq bit_len_def u64_max_def mult.commute)
  have e: "(m @ [0x80] @ replicate (pad_left (Suc (length m))) 0) @ be_bytes 8 (?l m) =
     (n @ [0x80] @ replicate (pad_left (Suc (length n))) 0) @ be_bytes 8 (?l n)"
    using assms * by metis
  moreover have "length (be_bytes 8 (?l m)) = length (be_bytes 8 (?l n))" by simp
  ultimately have "be_bytes 8 (?l m) = be_bytes 8 (?l n)" using append_eq_append_conv by blast
  then have "?l m = ?l n" by (metis be_word_be_bytes be_word_widths)
  moreover have "unat (?l x) = 8 * length x" if "length x < 2 ^ 61" for x
    unfolding unat_of_nat using that by simp
  ultimately have "8 * length m = 8 * length n" using assms(2,3) by metis
  then have "length m = length n" by simp
  then show ?thesis using e by (simp add: append_eq_append_conv)
qed

theorem sha256_fips_witness:
  "length (sha256 [0x61, 0x62, 0x63]) = 32 \<and> sha256 [0x61, 0x62, 0x63] = fips_sha256 [0x61, 0x62, 0x63]"
proof -
  have "length ([0x61, 0x62, 0x63] :: bytes) < 2 ^ 61" by simp
  from sha256_fips [OF this] show ?thesis by blast
qed

end
