(* ===== verification/Fingerprint.thy ===== *)
theory Fingerprint
  imports Namespace_Decision Sha256
begin

unbundle bit_operations_syntax

text \<open>
  Decision fingerprints and cache keys (src/crates/hns-namespace-resolution/src/lib.rs).  Every method of
  \<open>FingerprintInput\<close> appends to one byte vector; it is modelled by the bytes it appends, and a sequence of
  calls by their concatenation.
\<close>

section \<open>Encoders\<close>

definition len64 :: "nat \<Rightarrow> u64" where
  "len64 n = (if n \<le> u64_max then of_nat n else - 1)"

definition put_u8 :: "u8 \<Rightarrow> bytes" where "put_u8 b = [b]"

definition put_u16 :: "u16 \<Rightarrow> bytes" where "put_u16 w = be_bytes 2 w"

definition put_u32 :: "u32 \<Rightarrow> bytes" where "put_u32 w = be_bytes 4 w"

definition put_u64 :: "u64 \<Rightarrow> bytes" where "put_u64 w = be_bytes 8 w"

definition put_bytes :: "bytes \<Rightarrow> bytes" where
  "put_bytes v = put_u64 (len64 (length v)) @ v"

definition put_list :: "('a \<Rightarrow> bytes) \<Rightarrow> 'a list \<Rightarrow> bytes" where
  "put_list put xs = put_u64 (len64 (length xs)) @ concat (map put xs)"

definition put_option_namespace :: "namespace option \<Rightarrow> bytes" where
  "put_option_namespace v = put_u8 (case v of None \<Rightarrow> 0 | Some n \<Rightarrow> namespace_tag n)"

definition put_option_selection_reason :: "selection_reason option \<Rightarrow> bytes" where
  "put_option_selection_reason v = put_u8 (case v of None \<Rightarrow> 0 | Some r \<Rightarrow> reason_tag r)"

definition put_query :: "origin_query \<Rightarrow> bytes" where
  "put_query q = put_bytes (oq_host q) @ put_u8 (scheme_tag (oq_scheme q)) @ put_u16 (origin_port q) @
     put_u8 (capability_flags (oq_supported_protocols q))"

definition put_provenance_authority :: "evidence_provenance \<Rightarrow> bytes" where
  "put_provenance_authority e =
     (case e of
        HnsEvidence network _ _ \<Rightarrow> put_u8 1 @ put_u8 (hns_network_tag network)
      | IcannDohEvidence _ \<Rightarrow> put_u8 2)"

definition put_absence :: "validated_absence \<Rightarrow> bytes" where
  "put_absence a = put_u8 (namespace_tag (ab_namespace a)) @ put_provenance_authority (ab_provenance a) @
     put_query (ab_query a) @ put_u8 (absence_tag (ab_kind a))"

definition put_ip :: "ip_addr \<Rightarrow> bytes" where
  "put_ip ip = (case ip of V4 a \<Rightarrow> put_u8 4 @ put_bytes (v4_octets a) | V6 a \<Rightarrow> put_u8 6 @ put_bytes (v6_octets a))"

definition put_socket_addr :: "socket_addr \<Rightarrow> bytes" where
  "put_socket_addr e = put_ip (socket_ip e) @ put_u16 (socket_port e)"

definition put_service :: "service_binding \<Rightarrow> bytes" where
  "put_service s =
     (case sb_priority s of Some priority \<Rightarrow> put_u8 1 @ put_u16 priority | None \<Rightarrow> put_u8 0) @
     put_bytes (sb_service_target s) @
     put_list put_u16 (sb_mandatory_keys s) @
     put_list put_bytes (sb_advertised_alpn s) @
     put_u8 (protocol_tag (sb_selected_protocol s)) @
     put_u16 (sb_effective_port s) @
     put_u8 (transport_tag (sb_transport s)) @
     put_list put_ip (sb_connection_hints s) @
     (case sb_ech_config s of Some ech \<Rightarrow> put_u8 1 @ put_bytes ech | None \<Rightarrow> put_u8 0) @
     put_list (\<lambda>p. put_u16 (sp_key p) @ put_bytes (sp_value p)) (sb_parameters s)"

definition put_alias :: "alias_step \<Rightarrow> bytes" where
  "put_alias a = put_u8 (alias_tag (al_kind a)) @ put_bytes (al_owner a) @ put_bytes (al_target a)"

definition put_plan :: "origin_plan \<Rightarrow> bytes" where
  "put_plan p =
     put_u8 (namespace_tag (op_namespace p)) @ put_provenance_authority (op_provenance p) @ put_query (op_query p) @
     put_list put_alias (op_alias_path p) @ put_bytes (op_terminal_target p) @
     put_list put_alias (op_endpoint_alias_path p) @ put_bytes (op_endpoint_target p) @
     put_list put_socket_addr (op_endpoints p) @ put_service (op_service p) @
     put_u8 (tls_tag (op_tls_policy p)) @ put_list put_bytes (op_tlsa_records p)"

fun put_outcome :: "namespace_outcome \<Rightarrow> bytes" where
  "put_outcome (HnsOnly plan absence _) = put_plan plan @ put_absence absence"
| "put_outcome (IcannOnly plan absence _) = put_plan plan @ put_absence absence"
| "put_outcome (BothConvergent _ _ hns icann) = put_plan hns @ put_plan icann"
| "put_outcome (BothDivergent _ _ hns icann dm) = put_plan hns @ put_plan icann @ put_u32 dm"
| "put_outcome (Neither hns icann) = put_absence hns @ put_absence icann"

section \<open>Fingerprints and cache keys\<close>

definition decision_input :: "namespace_decision \<Rightarrow> bytes" where
  "decision_input d =
     put_bytes (ascii ''hns-namespace-decision-v1'') @ put_u16 COMPARISON_SCHEMA_VERSION @ put_query (nd_query d) @
     put_u64 (sel_revision (nd_policy d)) @
     put_option_namespace (sel_explicit_pin (nd_policy d)) @ put_option_namespace (sel_sticky_binding (nd_policy d)) @
     put_u8 (precedence_tag (sel_default_precedence (nd_policy d))) @
     put_u8 (outcome_code (nd_outcome d)) @ put_option_namespace (selected_namespace (nd_outcome d)) @
     put_option_selection_reason (outcome_reason (nd_outcome d)) @ put_outcome (nd_outcome d)"

type_synonym decision_fingerprint = bytes

definition decision_fingerprint :: "namespace_decision \<Rightarrow> decision_fingerprint" where
  "decision_fingerprint d = sha256 (decision_input d)"

definition hex_table :: bytes where
  "hex_table = ascii ''0123456789abcdef''"

definition to_hex :: "decision_fingerprint \<Rightarrow> bytes" where
  "to_hex f = concat (map (\<lambda>b. [hex_table ! unat (drop_bit 4 b), hex_table ! unat (b AND 0x0f)]) f)"

record decision_cache_key =
  dk_decision_fingerprint :: decision_fingerprint
  dk_query :: origin_query
  dk_hns_network :: hns_network
  dk_resolver_configuration :: bytes
  dk_trust_anchor_generation :: u64
  dk_binding_revision :: u64
  dk_comparison_schema_version :: u16

text \<open>\<open>None\<close> stands for the panic on a decision without Handshake evidence.\<close>

definition cache_key_new :: "namespace_decision \<Rightarrow> bytes \<Rightarrow> u64 \<Rightarrow> decision_cache_key option" where
  "cache_key_new d resolver_configuration trust_anchor_generation =
     map_option (\<lambda>network.
       \<lparr>dk_decision_fingerprint = decision_fingerprint d, dk_query = nd_query d, dk_hns_network = network,
        dk_resolver_configuration = resolver_configuration,
        dk_trust_anchor_generation = trust_anchor_generation,
        dk_binding_revision = sel_revision (nd_policy d),
        dk_comparison_schema_version = COMPARISON_SCHEMA_VERSION\<rparr>) (outcome_hns_network (nd_outcome d))"

definition cache_key_input :: "decision_cache_key \<Rightarrow> bytes" where
  "cache_key_input k =
     put_bytes (ascii ''hns-namespace-cache-key-v1'') @ put_u16 (dk_comparison_schema_version k) @
     put_bytes (dk_decision_fingerprint k) @ put_query (dk_query k) @ put_u8 (hns_network_tag (dk_hns_network k)) @
     put_bytes (dk_resolver_configuration k) @ put_u64 (dk_trust_anchor_generation k) @
     put_u64 (dk_binding_revision k)"

definition cache_key_fingerprint :: "decision_cache_key \<Rightarrow> decision_fingerprint" where
  "cache_key_fingerprint k = sha256 (cache_key_input k)"

end
