(* ===== verification/Namespace_Laws.thy ===== *)
theory Namespace_Laws
  imports Namespace_Decision "HOL-Library.Multiset"
begin

unbundle bit_operations_syntax

text \<open>
  What the namespace decision promises: a validated plan describes one root, one acyclic route and one
  trust table; validation normalises, so that record order is irrelevant and a second validation changes
  nothing; the divergence mask records exactly the fields that differ; and the decision is made only from
  two fresh, matching, successful lookups, honours a pin or a sticky binding, and stays fresh until its
  expiry.
\<close>

section \<open>Normalisation\<close>

lemma distinct_remdups_adj: "sorted xs \<Longrightarrow> distinct (remdups_adj xs)" for xs :: "'a::linorder list"
  by (induction xs rule: remdups_adj.induct) (auto simp: less_le)

lemma remdups_adj_sort_set:
  "set xs = set ys \<Longrightarrow> remdups_adj (sort xs) = remdups_adj (sort ys)" for xs ys :: "'a::linorder list"
  by (rule sorted_distinct_set_unique) (simp_all add: sorted_remdups_adj distinct_remdups_adj)

lemma remdups_adj_sort_idem [simp]:
  "remdups_adj (sort (remdups_adj (sort xs))) = remdups_adj (sort xs)" for xs :: "'a::linorder list"
  by (rule remdups_adj_sort_set) simp

lemma sort_mset: "mset xs = mset ys \<Longrightarrow> sort xs = sort ys" for xs ys :: "'a::linorder list"
  by (metis mset_sort properties_for_sort sorted_sort)

lemma mset_nil: "mset xs = mset ys \<Longrightarrow> xs = [] \<longleftrightarrow> ys = []"
  by (cases xs; cases ys) auto

lemma set_nil: "set xs = set ys \<Longrightarrow> xs = [] \<longleftrightarrow> ys = []"
  by (cases xs; cases ys) auto

section \<open>Service bindings\<close>

lemma sort_nil [simp]: "sort xs = [] \<longleftrightarrow> xs = []" for xs :: "'a::linorder list"
  by (metis set_empty set_sort)

lemma remdups_adj_sort_nil: "remdups_adj (sort xs) = [] \<longleftrightarrow> xs = []" for xs :: "'a::linorder list"
  by (metis remdups_adj_set set_empty set_sort)

lemma length_remdups_adj_sort: "length xs \<le> n \<Longrightarrow> length (remdups_adj (sort xs)) \<le> n" for xs :: "'a::linorder list"
  by (rule order_trans [OF remdups_adj_length]) simp

definition normal_binding :: "service_binding \<Rightarrow> service_binding" where
  "normal_binding i = i\<lparr>sb_mandatory_keys := sort (sb_mandatory_keys i),
                       sb_connection_hints := remdups_adj (sort (sb_connection_hints i)),
                       sb_parameters := sort (sb_parameters i)\<rparr>"

definition same_records :: "service_binding \<Rightarrow> service_binding \<Rightarrow> bool" where
  "same_records i j \<longleftrightarrow>
     mset (sb_mandatory_keys i) = mset (sb_mandatory_keys j) \<and> mset (sb_parameters i) = mset (sb_parameters j) \<and>
     set (sb_connection_hints i) = set (sb_connection_hints j) \<and>
     j = i\<lparr>sb_mandatory_keys := sb_mandatory_keys j, sb_connection_hints := sb_connection_hints j,
           sb_parameters := sb_parameters j\<rparr>"

lemma service_binding_new_eq:
  "service_binding_new i =
     (if binding_out_of_bounds i then Inl BoundExceeded
      else if \<not> binding_transport_ok i \<or> binding_mode_bad i \<or> windows2_any (=) (sort (sb_mandatory_keys i)) \<or>
              has_duplicate_alpn (sb_advertised_alpn i) \<or>
              binding_parameters_bad (normal_binding i) \<or> binding_protocol_bad (normal_binding i)
      then Inl InvalidPlan
      else rbind (known_service_parameters_match (normal_binding i)) (\<lambda>ok.
        if \<not> ok then Inl InvalidPlan else Inr (normal_binding i)))"
  by (simp add: service_binding_new_def normal_binding_def Let_def cong: if_cong)

lemma same_records_guards:
  assumes "same_records i j"
  shows "normal_binding i = normal_binding j"
    and "binding_transport_ok i = binding_transport_ok j"
    and "binding_mode_bad i = binding_mode_bad j"
    and "sb_advertised_alpn i = sb_advertised_alpn j"
    and "sort (sb_mandatory_keys i) = sort (sb_mandatory_keys j)"
proof -
  obtain ks hs ps where j: "j = i\<lparr>sb_mandatory_keys := ks, sb_connection_hints := hs, sb_parameters := ps\<rparr>"
    using assms unfolding same_records_def by blast
  have m: "mset (sb_mandatory_keys i) = mset ks" "mset (sb_parameters i) = mset ps" "set (sb_connection_hints i) = set hs"
    using assms by (simp_all add: same_records_def j)
  have nil: "sb_mandatory_keys i = [] \<longleftrightarrow> ks = []" "sb_parameters i = [] \<longleftrightarrow> ps = []"
    "sb_connection_hints i = [] \<longleftrightarrow> hs = []"
    by (rule mset_nil [OF m(1)], rule mset_nil [OF m(2)], rule set_nil [OF m(3)])
  show "normal_binding i = normal_binding j"
    by (simp add: normal_binding_def j sort_mset [OF m(1)] sort_mset [OF m(2)] remdups_adj_sort_set [OF m(3)])
  show "binding_transport_ok i = binding_transport_ok j" by (simp add: binding_transport_ok_def j)
  show "binding_mode_bad i = binding_mode_bad j" by (simp add: binding_mode_bad_def j nil)
  show "sb_advertised_alpn i = sb_advertised_alpn j" by (simp add: j)
  show "sort (sb_mandatory_keys i) = sort (sb_mandatory_keys j)" by (simp add: j sort_mset [OF m(1)])
qed

lemma normal_binding_idem [simp]: "normal_binding (normal_binding i) = normal_binding i"
  by (simp add: normal_binding_def sort_mset [OF mset_sort])

lemma same_records_normal: "same_records i (normal_binding i)"
  by (simp add: same_records_def normal_binding_def)

lemma normal_binding_bounds: "\<not> binding_out_of_bounds i \<Longrightarrow> \<not> binding_out_of_bounds (normal_binding i)"
  by (simp add: binding_out_of_bounds_def normal_binding_def not_less length_remdups_adj_sort)

text \<open>Validating a service binding normalises it.  Two inputs within the bounds that differ only in the
  order of the mandatory keys and the parameters and in order and repetition of the connection hints give
  the same result, errors included; an accepted result is the normal form of its input, and validating it
  again returns it unchanged.\<close>

lemma service_binding_normalises:
  "(same_records i j \<and> \<not> binding_out_of_bounds i \<and> \<not> binding_out_of_bounds j \<longrightarrow>
      service_binding_new i = service_binding_new j) \<and>
   (service_binding_new i = Inr s \<longrightarrow> s = normal_binding i \<and> service_binding_new s = Inr s)"
proof (intro conjI impI)
  have *: "service_binding_new i = service_binding_new j"
    if "same_records i j" "\<not> binding_out_of_bounds i" "\<not> binding_out_of_bounds j" for i j
    using that same_records_guards [OF that(1)]
    by (simp add: service_binding_new_eq cong: if_cong)
  show "service_binding_new i = service_binding_new j"
    if "same_records i j \<and> \<not> binding_out_of_bounds i \<and> \<not> binding_out_of_bounds j"
    using * that by blast
  assume i: "service_binding_new i = Inr s"
  then show s: "s = normal_binding i"
    by (auto simp: service_binding_new_eq result_inv split: if_splits)
  have "\<not> binding_out_of_bounds i" using i by (auto simp: service_binding_new_eq)
  then show "service_binding_new s = Inr s"
    using * [OF same_records_normal] normal_binding_bounds i s by metis
qed

section \<open>Origin plans\<close>

fun alias_chain :: "canonical_host \<Rightarrow> alias_step list \<Rightarrow> canonical_host \<Rightarrow> bool" where
  "alias_chain h [] t \<longleftrightarrow> h = t"
| "alias_chain h (a # as) t \<longleftrightarrow> al_owner a = h \<and> alias_chain (al_target a) as t"

lemma alias_walk_Inr [result_inv]:
  "alias_walk h seen as = Inr t \<longleftrightarrow>
     alias_chain h as t \<and> distinct (map al_target as) \<and> set (map al_target as) \<inter> set seen = {}"
  by (induction h seen as rule: alias_walk.induct) auto

lemma validate_alias_path_Inr [result_inv]:
  "validate_alias_path h as t = Inr u \<longleftrightarrow> alias_chain h as t \<and> distinct (h # map al_target as)"
  by (auto simp: validate_alias_path_def result_inv)

lemma unseen_targets_Inr [result_inv]:
  "unseen_targets seen as = Inr u \<longleftrightarrow> distinct (map al_target as) \<and> set (map al_target as) \<inter> set seen = {}"
  by (induction seen as rule: unseen_targets.induct) auto

lemma alias_chain_end: "alias_chain h as t \<Longrightarrow> t \<in> set (h # map al_target as)"
  by (induction h as t rule: alias_chain.induct) auto

text \<open>Every name a plan passes through, in order.\<close>

definition plan_route :: "origin_plan \<Rightarrow> canonical_host list" where
  "plan_route p =
     oq_host (op_query p) # map al_target (op_alias_path p) @
     (if sb_service_target (op_service p) = op_terminal_target p then [] else [sb_service_target (op_service p)]) @
     map al_target (op_endpoint_alias_path p)"

definition aliases_ok :: "origin_plan \<Rightarrow> bool" where
  "aliases_ok p \<longleftrightarrow>
     alias_chain (oq_host (op_query p)) (op_alias_path p) (op_terminal_target p) \<and>
     alias_chain (sb_service_target (op_service p)) (op_endpoint_alias_path p) (op_endpoint_target p) \<and>
     (\<forall>a \<in> set (op_endpoint_alias_path p). al_kind a = AliasCname) \<and> distinct (plan_route p)"

lemma validate_plan_aliases_Inr: "validate_plan_aliases p = Inr u \<longleftrightarrow> aliases_ok p"
proof -
  have "op_terminal_target p \<in> set (oq_host (op_query p) # map al_target (op_alias_path p))"
    if "alias_chain (oq_host (op_query p)) (op_alias_path p) (op_terminal_target p)"
    using that by (rule alias_chain_end)
  then show ?thesis
    unfolding validate_plan_aliases_def aliases_ok_def plan_route_def
    by (auto simp: result_inv Let_def list_ex_iff)
qed

text \<open>The trust policies each kind of evidence may carry.\<close>

fun trust_allowed :: "evidence_provenance \<Rightarrow> tls_trust_policy set" where
  "trust_allowed (HnsEvidence _ _ _) = {Cleartext, Dane, StatelessDane}"
| "trust_allowed (IcannDohEvidence ChainSecure) = {Cleartext, Dane, WebPkiAuthenticatedAbsence}"
| "trust_allowed (IcannDohEvidence ChainProvenInsecure) = {Cleartext, WebPkiInsecureDelegation}"

fun evidence_root :: "evidence_provenance \<Rightarrow> namespace" where
  "evidence_root (HnsEvidence _ _ _) = Hns"
| "evidence_root (IcannDohEvidence _) = Icann"

definition service_ok :: "origin_plan \<Rightarrow> bool" where
  "service_ok p \<longleftrightarrow>
     (let s = op_service p; q = op_query p in
      (\<forall>e \<in> set (op_endpoints p). socket_port e = sb_effective_port s) \<and>
      set (sb_connection_hints s) \<subseteq> socket_ip ` set (op_endpoints p) \<and>
      supports (oq_supported_protocols q) (sb_selected_protocol s) \<and>
      (op_tls_policy p = Cleartext \<longleftrightarrow> \<not> uses_tls (oq_scheme q)) \<and>
      (op_tls_policy p = Cleartext \<longrightarrow>
         sb_priority s = None \<and> sb_selected_protocol s = Http11 \<and> sb_transport s = Tcp) \<and>
      (sb_priority s = None \<longrightarrow> sb_service_target s = op_terminal_target p) \<and>
      (sb_priority s = None \<or> \<not> has_service_parameter (sb_parameters s) 3 \<longrightarrow>
         sb_effective_port s = origin_port q))"

definition plan_ok :: "origin_plan \<Rightarrow> bool" where
  "plan_ok p \<longleftrightarrow>
     evidence_root (op_provenance p) = op_namespace p \<and>
     length (op_alias_path p) \<le> 8 \<and> length (op_endpoint_alias_path p) \<le> 8 \<and> aliases_ok p \<and>
     op_endpoints p \<noteq> [] \<and> length (op_endpoints p) \<le> 32 \<and> sorted_wrt (<) (op_endpoints p) \<and>
     length (op_tlsa_records p) \<le> 32 \<and> sorted_wrt (<) (op_tlsa_records p) \<and>
     service_ok p \<and> op_tls_policy p \<in> trust_allowed (op_provenance p) \<and>
     (op_tlsa_records p \<noteq> [] \<longleftrightarrow> op_tls_policy p = Dane)"

definition normal_plan :: "origin_plan \<Rightarrow> origin_plan" where
  "normal_plan i = i\<lparr>op_endpoints := remdups_adj (sort (op_endpoints i)),
                     op_tlsa_records := remdups_adj (sort (op_tlsa_records i))\<rparr>"

lemma provenance_validate_for_Inr [result_inv]:
  "provenance_validate_for e n = Inr u \<longleftrightarrow> evidence_root e = n"
  by (cases e; cases n) (auto simp: provenance_validate_for_def)

lemma validate_endpoints_Inr:
  "validate_plan_endpoints_and_service p = Inr u \<longleftrightarrow> length (op_endpoints p) \<le> 32 \<and> service_ok p"
  unfolding validate_plan_endpoints_and_service_def service_ok_def
  by (auto simp: Let_def list_ex_iff MAX_ENDPOINTS_def image_iff)

lemma validate_tls_Inr:
  assumes "evidence_root (op_provenance p) = op_namespace p"
  shows "validate_plan_tls p = Inr u \<longleftrightarrow>
     op_tls_policy p \<in> trust_allowed (op_provenance p) \<and> (op_tlsa_records p \<noteq> [] \<longleftrightarrow> op_tls_policy p = Dane)"
proof (cases "op_provenance p")
  case (HnsEvidence n t h)
  then show ?thesis using assms
    by (cases "op_tls_policy p") (simp_all add: validate_plan_tls_def)
next
  case (IcannDohEvidence c)
  then show ?thesis using assms
    by (cases c; cases "op_tls_policy p") (simp_all add: validate_plan_tls_def)
qed

lemma strict_remdups_adj_sort: "sorted_wrt (<) (remdups_adj (sort xs))" for xs :: "'a::linorder list"
  by (simp add: strict_sorted_iff sorted_remdups_adj distinct_remdups_adj)

lemma strict_normal: "sorted_wrt (<) xs \<Longrightarrow> remdups_adj (sort xs) = xs" for xs :: "'a::linorder list"
  by (simp add: strict_sorted_iff sorted_sort_id remdups_adj_distinct)

lemma normal_plan_fields [simp]:
  "op_namespace (normal_plan i) = op_namespace i" "op_query (normal_plan i) = op_query i"
  "op_alias_path (normal_plan i) = op_alias_path i" "op_terminal_target (normal_plan i) = op_terminal_target i"
  "op_endpoint_alias_path (normal_plan i) = op_endpoint_alias_path i"
  "op_endpoint_target (normal_plan i) = op_endpoint_target i" "op_service (normal_plan i) = op_service i"
  "op_tls_policy (normal_plan i) = op_tls_policy i" "op_provenance (normal_plan i) = op_provenance i"
  "op_freshness (normal_plan i) = op_freshness i"
  "op_endpoints (normal_plan i) = remdups_adj (sort (op_endpoints i))"
  "op_tlsa_records (normal_plan i) = remdups_adj (sort (op_tlsa_records i))"
  by (simp_all add: normal_plan_def)

lemma normal_plan_aliases [simp]: "aliases_ok (normal_plan i) = aliases_ok i"
  by (simp add: aliases_ok_def plan_route_def)

lemma normal_plan_service [simp]: "service_ok (normal_plan i) = service_ok i"
  by (simp add: service_ok_def)

lemma normal_plan_ok [simp]: "plan_ok p \<Longrightarrow> normal_plan p = p"
  by (simp add: plan_ok_def normal_plan_def strict_normal)

definition plan_input_bounds :: "origin_plan \<Rightarrow> bool" where
  "plan_input_bounds i \<longleftrightarrow> length (op_endpoints i) \<le> 32 \<and> length (op_tlsa_records i) \<le> 32"

lemma origin_plan_new_Inr:
  "origin_plan_new i = Inr p \<longleftrightarrow> p = normal_plan i \<and> plan_input_bounds i \<and> plan_ok p"
proof -
  let ?e = "i\<lparr>op_endpoints := remdups_adj (sort (op_endpoints i))\<rparr>"
  have n: "?e\<lparr>op_tlsa_records := remdups_adj (sort (op_tlsa_records ?e))\<rparr> = normal_plan i"
    by (simp add: normal_plan_def)
  have s: "service_ok ?e = service_ok i" by (simp add: service_ok_def)
  have t: "validate_plan_tls (normal_plan i) = Inr u \<longleftrightarrow>
     op_tls_policy i \<in> trust_allowed (op_provenance i) \<and> (op_tlsa_records i \<noteq> [] \<longleftrightarrow> op_tls_policy i = Dane)"
    if "evidence_root (op_provenance i) = op_namespace i" for u
    using validate_tls_Inr [of "normal_plan i"] that by simp
  have "origin_plan_new i = Inr p \<longleftrightarrow>
      evidence_root (op_provenance i) = op_namespace i \<and>
      \<not> (length (op_alias_path i) > MAX_ALIAS_STEPS \<or> length (op_endpoint_alias_path i) > MAX_ALIAS_STEPS \<or>
        op_endpoints i = [] \<or> length (op_endpoints i) > MAX_ENDPOINTS \<or>
        length (op_tlsa_records i) > MAX_TLSA_RECORDS) \<and>
      validate_plan_aliases i = Inr () \<and> validate_plan_endpoints_and_service ?e = Inr () \<and>
      validate_plan_tls (normal_plan i) = Inr () \<and> p = normal_plan i"
    unfolding origin_plan_new_def Let_def n by (auto simp: result_inv)
  also have "\<dots> \<longleftrightarrow> p = normal_plan i \<and> plan_input_bounds i \<and> plan_ok (normal_plan i)"
    by (auto simp: validate_plan_aliases_Inr validate_endpoints_Inr s t plan_input_bounds_def plan_ok_def
        MAX_ALIAS_STEPS_def MAX_ENDPOINTS_def MAX_TLSA_RECORDS_def strict_remdups_adj_sort
        intro: length_remdups_adj_sort)
  finally show ?thesis by blast
qed

text \<open>A plan is accepted exactly when its input is within the bounds and its normal form (endpoints and
  TLSA records sorted and without repetition) is well formed: its evidence is of its own root; the two
  alias paths are connected chains from the queried host to the service and from the service to the
  endpoints, over pairwise different names; every endpoint has the effective port and every hint is an
  endpoint; the protocol is one the client supports; TLS is used exactly for the TLS schemes; the trust
  policy is one that the evidence allows, so that a Handshake plan never uses the Web PKI; and TLSA records
  are present exactly under DANE.  The accepted plan is that normal form, and is accepted again unchanged.\<close>

lemma origin_plan_validated:
  "(origin_plan_new i = Inr p \<longleftrightarrow> p = normal_plan i \<and> plan_input_bounds i \<and> plan_ok p) \<and>
   (plan_ok p \<longrightarrow> origin_plan_new p = Inr p)"
  by (auto simp: origin_plan_new_Inr plan_input_bounds_def) (simp_all add: plan_ok_def)

section \<open>Divergence\<close>

lemma set_if_bit: "bit (set_if m (push_bit n 1) c) k \<longleftrightarrow> bit m k \<or> (c \<and> k = n \<and> k < 32)"
  by (auto simp: set_if_def bit_or_iff bit_exp_iff possible_bit_word)

lemma foldl_bits:
  "bit (foldl (\<lambda>m (n, c). set_if m (push_bit n 1) c) m0 cs :: u32) k \<longleftrightarrow>
     bit m0 k \<or> (k < 32 \<and> (k, True) \<in> set cs)"
proof (induction cs arbitrary: m0)
  case (Cons x cs)
  show ?case
    unfolding foldl_Cons Cons.IH by (cases x) (simp only: set_if_bit prod.case set_simps insert_iff prod.inject, blast)
qed simp

lemma difference_fields: "map fst (difference_bits a b) = [0..<18]"
  by (simp add: difference_bits_def Let_def upt_rec)

lemma difference_range: "(k, c) \<in> set (difference_bits a b) \<Longrightarrow> k < 18"
  using difference_fields [of a b] by (metis atLeastLessThan_iff fst_conv image_eqI list.set_map set_upt)

lemma differences_bit: "bit (differences a b) k \<longleftrightarrow> (k, True) \<in> set (difference_bits a b)"
  unfolding differences_def foldl_bits using difference_range [of k True a b] by auto

lemma word_zero_iff: "w = 0 \<longleftrightarrow> (\<forall>k. \<not> bit w k)" for w :: "'w::len word"
  by (metis bit_word_eqI bit_0_eq bot_apply bot_bool_def)

lemma difference_bits_sym: "difference_bits a b = difference_bits b a"
  unfolding difference_bits_def Let_def by (simp only: eq_commute)

text \<open>Everything about a plan except the root it came from, the evidence behind it and its lifetime.\<close>

definition rebased :: "origin_plan \<Rightarrow> origin_plan \<Rightarrow> origin_plan" where
  "rebased a b = b\<lparr>op_namespace := op_namespace a, op_provenance := op_provenance a, op_freshness := op_freshness a\<rparr>"

lemma equivalent_iff: "equivalent_to a b \<longleftrightarrow> rebased a b = a"
proof -
  have "equivalent_to a b \<longleftrightarrow> (\<forall>k. \<not> bit (differences a b) k)"
    by (simp add: equivalent_to_def mask_is_empty_def word_zero_iff)
  also have "\<dots> \<longleftrightarrow> (\<forall>(k, c) \<in> set (difference_bits a b). \<not> c)"
    by (auto simp: differences_bit)
  also have "\<dots> \<longleftrightarrow> op_query a = op_query b \<and> op_alias_path a = op_alias_path b \<and>
     op_terminal_target a = op_terminal_target b \<and> op_endpoints a = op_endpoints b \<and>
     op_endpoint_alias_path a = op_endpoint_alias_path b \<and> op_endpoint_target a = op_endpoint_target b \<and>
     op_service a = op_service b \<and> op_tls_policy a = op_tls_policy b \<and> op_tlsa_records a = op_tlsa_records b"
    by (auto simp: difference_bits_def Let_def intro: service_binding.equality)
  also have "\<dots> \<longleftrightarrow> rebased a b = a"
    by (cases a; cases b) (auto simp: rebased_def)
  finally show ?thesis .
qed

text \<open>Bit \<open>k\<close> of the divergence mask is set exactly when the \<open>k\<close>-th compared field differs, no bit is
  lost to another, and two plans are equivalent exactly when they agree in everything but their root,
  their evidence and their lifetime.\<close>

lemma divergence_exact:
  "(bit (differences a b) k \<longleftrightarrow> (k, True) \<in> set (difference_bits a b)) \<and>
   map fst (difference_bits a b) = [0..<18] \<and>
   (equivalent_to a b \<longleftrightarrow> rebased a b = a) \<and> differences a b = differences b a"
  by (simp add: differences_bit equivalent_iff difference_fields)
    (simp add: differences_def difference_bits_sym [of a b])

section \<open>The decision\<close>

definition preferred :: "selection_policy \<Rightarrow> namespace option" where
  "preferred p = (case sel_explicit_pin p of Some n \<Rightarrow> Some n | None \<Rightarrow> sel_sticky_binding p)"

definition admissible :: "origin_query \<Rightarrow> namespace \<Rightarrow> root_lookup \<Rightarrow> u64 \<Rightarrow> bool" where
  "admissible q n l now \<longleftrightarrow> lookup_namespace l = n \<and> lookup_query l = q \<and> lookup_fresh now l = Some True"

fun permitted :: "selection_policy \<Rightarrow> root_lookup \<Rightarrow> root_lookup \<Rightarrow> bool" where
  "permitted p (LookupPresent a) (LookupPresent b) \<longleftrightarrow>
     preferred p \<noteq> None \<or> sel_default_precedence p = PreferIcann \<or> equivalent_to a b"
| "permitted p (LookupPresent a) l \<longleftrightarrow> preferred p \<noteq> Some Icann"
| "permitted p l (LookupPresent b) \<longleftrightarrow> preferred p \<noteq> Some Hns"
| "permitted p _ _ \<longleftrightarrow> True"

lemma validate_lookup_Inr [result_inv]:
  "validate_lookup q n l now = Inr u \<longleftrightarrow>
     lookup_namespace l = n \<and> lookup_query l = q \<and> lookup_fresh now l \<noteq> Some False"
  by (auto simp: validate_lookup_def)

lemma fresh_none: "lookup_fresh now l = None \<longleftrightarrow> lookup_failed l"
  by (cases l) (simp_all add: lookup_failed_def)

lemma admissible_iff:
  "validate_lookup q n l now = Inr () \<and> \<not> lookup_failed l \<longleftrightarrow> admissible q n l now"
  by (cases l) (auto simp: validate_lookup_Inr admissible_def lookup_failed_def)

lemma decide_Inr:
  "decide_namespace q hns icann policy now = Inr d \<longleftrightarrow>
     admissible q Hns hns now \<and> admissible q Icann icann now \<and>
     (\<exists>out. classify policy hns icann = Inr out \<and> d = \<lparr>nd_query = q, nd_policy = policy, nd_outcome = out\<rparr>)"
  unfolding decide_namespace_def admissible_iff [symmetric] by (auto simp: rbind_eq_Inr)

lemma select_single_Inr:
  "select_single_namespace policy n = Inr r \<longleftrightarrow>
     preferred policy \<in> {None, Some n} \<and>
     r = (if sel_explicit_pin policy \<noteq> None then ExplicitPin
          else if sel_sticky_binding policy \<noteq> None then StickyBinding else SingleRoot)"
  by (auto simp: select_single_namespace_def preferred_def split: option.splits)

lemma select_namespace_Inr:
  "select_namespace policy c = Inr (n, r) \<longleftrightarrow>
     (preferred policy = Some n \<or> preferred policy = None \<and> n = Icann \<and> (c \<or> sel_default_precedence policy = PreferIcann)) \<and>
     r = (if sel_explicit_pin policy \<noteq> None then ExplicitPin
          else if sel_sticky_binding policy \<noteq> None then StickyBinding else IcannDefault)"
  by (cases "sel_default_precedence policy") (auto simp: select_namespace_def preferred_def split: option.splits)

lemma not_failed: "admissible q n l now \<Longrightarrow> (\<exists>p. l = LookupPresent p) \<or> (\<exists>a. l = LookupAbsent a)"
  by (cases l) (auto simp: admissible_def)

lemma classify_success:
  assumes "\<not> lookup_failed hns" and "\<not> lookup_failed icann"
  shows "(\<exists>out. classify policy hns icann = Inr out) \<longleftrightarrow> permitted policy hns icann"
proof (cases hns; cases icann)
  fix p q assume h: "hns = LookupPresent p" "icann = LookupPresent q"
  have "(\<exists>out. classify policy hns icann = Inr out) \<longleftrightarrow>
      (\<exists>n r. select_namespace policy (mask_is_empty (differences p q)) = Inr (n, r))"
    by (cases "mask_is_empty (differences p q)") (auto simp: classify_def h Let_def rbind_eq_Inr)
  then show ?thesis
    by (cases "preferred policy") (auto simp: h select_namespace_Inr equivalent_to_def)
next
  fix p a assume h: "hns = LookupPresent p" "icann = LookupAbsent a"
  have "(\<exists>out. classify policy hns icann = Inr out) \<longleftrightarrow> (\<exists>r. select_single_namespace policy Hns = Inr r)"
    by (simp add: classify_def h rbind_eq_Inr)
  then show ?thesis
    by (cases "preferred policy") (auto simp: h select_single_Inr dest: namespace.exhaust, (metis namespace.exhaust)?)
next
  fix p a assume h: "hns = LookupAbsent a" "icann = LookupPresent p"
  have "(\<exists>out. classify policy hns icann = Inr out) \<longleftrightarrow> (\<exists>r. select_single_namespace policy Icann = Inr r)"
    by (simp add: classify_def h rbind_eq_Inr)
  then show ?thesis
    by (cases "preferred policy") (auto simp: h select_single_Inr, (metis namespace.exhaust)?)
qed (use assms in \<open>auto simp: classify_def lookup_failed_def\<close>)

text \<open>A decision is made exactly when both roots answered, each in its own position, for this query and
  with evidence fresh at this moment, and the policy permits it: a pin or sticky binding is served by the
  root it names or, with both roots absent, by neither; without one, two divergent plans need the ICANN
  default.  In every other case the decision is an error; there is no fallback.\<close>

lemma decide_namespace_iff:
  "(\<exists>d. decide_namespace q hns icann policy now = Inr d) \<longleftrightarrow>
     admissible q Hns hns now \<and> admissible q Icann icann now \<and> permitted policy hns icann"
proof (cases "admissible q Hns hns now \<and> admissible q Icann icann now")
  case True
  then have "\<not> lookup_failed hns" "\<not> lookup_failed icann" by (auto simp: admissible_iff [symmetric])
  then show ?thesis using True classify_success by (simp add: decide_Inr)
qed (auto simp: decide_Inr)

definition plan_of :: "namespace \<Rightarrow> root_lookup \<Rightarrow> root_lookup \<Rightarrow> root_lookup" where
  "plan_of n hns icann = (case n of Hns \<Rightarrow> hns | Icann \<Rightarrow> icann)"

lemma classify_selected:
  assumes "classify policy hns icann = Inr out"
  shows "case selected_namespace out of
           None \<Rightarrow> selected_plan out = None \<and> outcome_reason out = None \<and>
             (\<exists>a b. hns = LookupAbsent a \<and> icann = LookupAbsent b)
         | Some n \<Rightarrow> (\<exists>plan. selected_plan out = Some plan \<and> plan_of n hns icann = LookupPresent plan) \<and>
             preferred policy \<in> {None, Some n}"
  using assms
  by (cases hns; cases icann)
    (auto simp: classify_def plan_of_def Let_def rbind_eq_Inr select_single_Inr select_namespace_Inr
      split: if_splits namespace.splits)

fun lookup_freshness :: "root_lookup \<Rightarrow> freshness option" where
  "lookup_freshness (LookupPresent p) = Some (op_freshness p)"
| "lookup_freshness (LookupAbsent a) = Some (ab_freshness a)"
| "lookup_freshness (LookupFailed f) = None"

lemma classify_freshness:
  "classify policy hns icann = Inr out \<Longrightarrow>
     {lookup_freshness hns, lookup_freshness icann} =
     {Some (fst (outcome_freshness out)), Some (snd (outcome_freshness out))}"
  by (cases hns; cases icann) (auto simp: classify_def Let_def rbind_eq_Inr split: if_splits)

lemma lookup_fresh_freshness: "lookup_fresh now l = map_option (\<lambda>f. fresh_at f now) (lookup_freshness l)"
  by (cases l) simp_all

lemma outcome_fresh_iff:
  "outcome_fresh_at out t \<longleftrightarrow> fresh_at (fst (outcome_freshness out)) t \<and> fresh_at (snd (outcome_freshness out)) t"
  by (auto simp: outcome_fresh_at_def outcome_expires_at_def fresh_at_def split: prod.splits)

lemma decided_fresh:
  assumes "decide_namespace q hns icann policy now = Inr d"
  shows "outcome_fresh_at (nd_outcome d) now"
proof -
  obtain out where out: "classify policy hns icann = Inr out" "nd_outcome d = out"
    and "lookup_fresh now hns = Some True" "lookup_fresh now icann = Some True"
    using assms by (auto simp: decide_Inr admissible_def)
  then have "\<forall>f \<in> {lookup_freshness hns, lookup_freshness icann}. \<exists>g. f = Some g \<and> fresh_at g now"
    by (auto simp: lookup_fresh_freshness)
  then show ?thesis using out(2) classify_freshness [OF out(1)] by (simp add: outcome_fresh_iff)
qed

lemma fresh_until_expiry:
  assumes "outcome_fresh_at out now" and "now \<le> t"
  shows "outcome_fresh_at out t \<longleftrightarrow> t < outcome_expires_at out"
  using assms by (auto simp: outcome_fresh_at_def outcome_expires_at_def fresh_at_def split: prod.splits)

text \<open>C14: What a decision says is what the lookups said: it carries the query and the policy it was made
  for; the selected plan is the plan of the selected root, and no plan is selected exactly when both roots
  proved absence; a pin or sticky binding is never replaced by the other root; and the decision is fresh
  now and from now on exactly until its expiry.\<close>

theorem decision_sound:
  assumes "decide_namespace q hns icann policy now = Inr d"
  shows "nd_query d = q \<and> nd_policy d = policy \<and>
    (case selected_namespace (nd_outcome d) of
       None \<Rightarrow> selected_plan (nd_outcome d) = None \<and> (\<exists>a b. hns = LookupAbsent a \<and> icann = LookupAbsent b)
     | Some n \<Rightarrow> (\<exists>plan. selected_plan (nd_outcome d) = Some plan \<and> plan_of n hns icann = LookupPresent plan) \<and>
         preferred policy \<in> {None, Some n}) \<and>
    (\<forall>t \<ge> now. outcome_fresh_at (nd_outcome d) t \<longleftrightarrow> t < outcome_expires_at (nd_outcome d))"
proof -
  obtain out where out: "classify policy hns icann = Inr out"
    and d: "d = \<lparr>nd_query = q, nd_policy = policy, nd_outcome = out\<rparr>"
    using assms by (auto simp: decide_Inr)
  show ?thesis
    using classify_selected [OF out] fresh_until_expiry [OF decided_fresh [OF assms]]
    by (simp add: d split: option.splits)
qed

text \<open>What each error of a decision means for its inputs.\<close>

fun refusal_explained ::
  "origin_query \<Rightarrow> root_lookup \<Rightarrow> root_lookup \<Rightarrow> selection_policy \<Rightarrow> u64 \<Rightarrow> classification_error \<Rightarrow> bool" where
  "refusal_explained q hns icann policy now (RootPositionMismatch n m) \<longleftrightarrow>
     n \<noteq> m \<and> lookup_namespace (plan_of n hns icann) = m"
| "refusal_explained q hns icann policy now (QueryMismatch n) \<longleftrightarrow>
     lookup_namespace (plan_of n hns icann) = n \<and> lookup_query (plan_of n hns icann) \<noteq> q"
| "refusal_explained q hns icann policy now (StaleEvidence n) \<longleftrightarrow>
     (\<exists>f. lookup_freshness (plan_of n hns icann) = Some f \<and> \<not> fresh_at f now)"
| "refusal_explained q hns icann policy now (RootFailed a b) \<longleftrightarrow>
     a = state_from_lookup hns \<and> b = state_from_lookup icann \<and> (state_failure a \<noteq> None \<or> state_failure b \<noteq> None)"
| "refusal_explained q hns icann policy now (SelectedNamespaceUnavailable n r) \<longleftrightarrow>
     preferred policy = Some n \<and> r = (if sel_explicit_pin policy = None then StickyBinding else ExplicitPin) \<and>
     (\<exists>a. plan_of n hns icann = LookupAbsent a)"
| "refusal_explained q hns icann policy now DivergenceRequiresSelection \<longleftrightarrow>
     preferred policy = None \<and> sel_default_precedence policy = FailClosed \<and>
     (\<exists>a b. hns = LookupPresent a \<and> icann = LookupPresent b \<and> \<not> equivalent_to a b)"

lemma validate_lookup_Inl:
  "validate_lookup q n (plan_of n hns icann) now = Inl e \<Longrightarrow> refusal_explained q hns icann policy now e"
  by (auto simp: validate_lookup_def lookup_fresh_freshness split: if_splits)

lemma select_single_Inl:
  "select_single_namespace policy n = Inl e \<longleftrightarrow>
     (\<exists>m. m \<noteq> n \<and> preferred policy = Some m \<and>
       e = SelectedNamespaceUnavailable m (if sel_explicit_pin policy = None then StickyBinding else ExplicitPin))"
  by (auto simp: select_single_namespace_def preferred_def split: option.splits)

lemma select_namespace_Inl:
  "select_namespace policy c = Inl e \<longleftrightarrow>
     e = DivergenceRequiresSelection \<and> preferred policy = None \<and> sel_default_precedence policy = FailClosed \<and> \<not> c"
  by (cases "sel_default_precedence policy") (auto simp: select_namespace_def preferred_def split: option.splits)

lemma classify_Inl:
  assumes "classify policy hns icann = Inl e" and "\<not> lookup_failed hns" and "\<not> lookup_failed icann"
  shows "refusal_explained q hns icann policy now e"
proof (cases hns; cases icann)
  fix p r assume h: "hns = LookupPresent p" "icann = LookupPresent r"
  then show ?thesis using assms(1)
    by (auto simp: classify_def Let_def rbind_eq_Inl select_namespace_Inl equivalent_to_def split: if_splits)
next
  fix p a assume h: "hns = LookupPresent p" "icann = LookupAbsent a"
  then obtain m where "m \<noteq> Hns" "preferred policy = Some m"
      "e = SelectedNamespaceUnavailable m (if sel_explicit_pin policy = None then StickyBinding else ExplicitPin)"
    using assms(1) by (auto simp: classify_def rbind_eq_Inl select_single_Inl)
  then show ?thesis using h by (cases m) (simp_all add: plan_of_def)
next
  fix p a assume h: "hns = LookupAbsent a" "icann = LookupPresent p"
  then obtain m where "m \<noteq> Icann" "preferred policy = Some m"
      "e = SelectedNamespaceUnavailable m (if sel_explicit_pin policy = None then StickyBinding else ExplicitPin)"
    using assms(1) by (auto simp: classify_def rbind_eq_Inl select_single_Inl)
  then show ?thesis using h by (cases m) (simp_all add: plan_of_def)
qed (use assms in \<open>auto simp: classify_def lookup_failed_def\<close>)

text \<open>Every refusal names its cause: the root whose answer was misplaced, for another query or stale; the
  two root states, one of which failed; the pinned or bound root, which is absent; or, without a pin or
  binding and under the fail-closed policy, two plans that are not equivalent.\<close>

lemma decision_refusals:
  assumes "decide_namespace q hns icann policy now = Inl e"
  shows "refusal_explained q hns icann policy now e"
proof -
  consider "validate_lookup q Hns (plan_of Hns hns icann) now = Inl e"
    | "validate_lookup q Icann (plan_of Icann hns icann) now = Inl e"
    | "lookup_failed hns \<or> lookup_failed icann"
      "e = RootFailed (state_from_lookup hns) (state_from_lookup icann)"
    | "\<not> lookup_failed hns" "\<not> lookup_failed icann" "classify policy hns icann = Inl e"
    using assms by (auto simp: decide_namespace_def rbind_eq_Inl plan_of_def split: if_splits)
  then show ?thesis
  proof cases
    case 3
    then show ?thesis by (cases hns; cases icann) (simp_all add: lookup_failed_def)
  qed (blast intro: validate_lookup_Inl classify_Inl)+
qed

section \<open>The Handshake network of a decision\<close>

fun lookup_rooted :: "root_lookup \<Rightarrow> bool" where
  "lookup_rooted (LookupPresent p) \<longleftrightarrow> evidence_root (op_provenance p) = op_namespace p"
| "lookup_rooted (LookupAbsent a) \<longleftrightarrow> evidence_root (ab_provenance a) = ab_namespace a"
| "lookup_rooted (LookupFailed f) \<longleftrightarrow> True"

lemma absence_new_rooted: "absence_new n q k e f = Inr a \<Longrightarrow> lookup_rooted (LookupAbsent a)"
  by (auto simp: absence_new_def result_inv split: if_splits)

lemma plan_new_rooted: "origin_plan_new i = Inr p \<Longrightarrow> lookup_rooted (LookupPresent p)"
  by (auto simp: origin_plan_new_Inr plan_ok_def)

lemma hns_network_root: "evidence_root e = Hns \<Longrightarrow> \<exists>n. provenance_hns_network e = Some n"
  by (cases e) (simp_all add: provenance_hns_network_def)

lemma decision_hns_network:
  assumes "decide_namespace q hns icann policy now = Inr d" and "lookup_rooted hns"
  shows "outcome_hns_network (nd_outcome d) \<noteq> None"
proof -
  have "classify policy hns icann = Inr (nd_outcome d)" "lookup_namespace hns = Hns"
    using assms(1) by (auto simp: decide_Inr admissible_def)
  moreover have "outcome_hns_network out \<noteq> None"
    if "classify policy hns icann = Inr out" "lookup_namespace hns = Hns" for out
    using that assms(2)
    by (cases hns; cases icann) (auto simp: classify_def Let_def rbind_eq_Inr hns_network_root split: if_splits)
  ultimately show ?thesis by blast
qed

section \<open>A concrete decision\<close>

definition sample_query :: origin_query where
  "sample_query = \<lparr>oq_host = ascii ''example'', oq_scheme = Https, oq_explicit_port = None,
                   oq_supported_protocols = capabilities_all\<rparr>"

definition sample_service :: service_binding where
  "sample_service = \<lparr>sb_priority = None, sb_service_target = ascii ''example'', sb_mandatory_keys = [],
     sb_advertised_alpn = [], sb_selected_protocol = Http11, sb_effective_port = 443, sb_transport = Tcp,
     sb_connection_hints = [], sb_ech_config = None, sb_parameters = []\<rparr>"

definition sample_freshness :: freshness where
  "sample_freshness = \<lparr>fr_observed_at = 10, fr_expires_at = 20\<rparr>"

definition sample_plan :: origin_plan where
  "sample_plan = \<lparr>op_namespace = Icann, op_query = sample_query, op_alias_path = [],
     op_terminal_target = ascii ''example'', op_endpoint_alias_path = [], op_endpoint_target = ascii ''example'',
     op_endpoints = [SocketV4 (Ipv4Addr 93 184 216 34) 443], op_service = sample_service,
     op_tls_policy = WebPkiAuthenticatedAbsence, op_tlsa_records = [],
     op_provenance = IcannDohEvidence ChainSecure, op_freshness = sample_freshness\<rparr>"

definition sample_absence :: validated_absence where
  "sample_absence = \<lparr>ab_namespace = Hns, ab_query = sample_query, ab_kind = HnsCurrentUrkelNonInclusion,
     ab_provenance = HnsEvidence HnsMainnet (replicate 32 0) 7, ab_freshness = sample_freshness\<rparr>"

definition sample_decision :: namespace_decision where
  "sample_decision = \<lparr>nd_query = sample_query, nd_policy = default_selection_policy,
     nd_outcome = IcannOnly sample_plan sample_absence SingleRoot\<rparr>"

lemmas sample_defs = sample_query_def sample_service_def sample_freshness_def sample_plan_def sample_absence_def
  default_selection_policy_def selection_policy_new_def

lemma sample_plan_ok: "plan_ok sample_plan"
  by (simp add: plan_ok_def aliases_ok_def plan_route_def service_ok_def sample_defs supports_def
      capabilities_all_def origin_port_def)

lemma sample_decided:
  "decide_namespace sample_query (LookupAbsent sample_absence) (LookupPresent sample_plan) default_selection_policy 15 =
     Inr sample_decision"
  by (simp add: decide_namespace_def validate_lookup_def classify_def select_single_namespace_def lookup_failed_def
      sample_defs sample_decision_def fresh_at_def)

lemma sample_pinned:
  "decide_namespace sample_query (LookupAbsent sample_absence) (LookupPresent sample_plan)
     (with_explicit_pin default_selection_policy (Some Hns)) 15 = Inl (SelectedNamespaceUnavailable Hns ExplicitPin)"
  by (simp add: decide_namespace_def validate_lookup_def classify_def select_single_namespace_def lookup_failed_def
      sample_defs with_explicit_pin_def fresh_at_def)

lemma service_binding_normalises_witness:
  "service_binding_new (sample_service\<lparr>sb_priority := Some 1\<rparr>) = Inr (sample_service\<lparr>sb_priority := Some 1\<rparr>) \<and>
   service_binding_new (normal_binding (sample_service\<lparr>sb_priority := Some 1\<rparr>)) =
     Inr (normal_binding (sample_service\<lparr>sb_priority := Some 1\<rparr>))"
proof -
  have "service_binding_new (sample_service\<lparr>sb_priority := Some 1\<rparr>) = Inr (sample_service\<lparr>sb_priority := Some 1\<rparr>)"
    by (simp add: service_binding_new_def binding_out_of_bounds_def binding_transport_ok_def binding_mode_bad_def
        binding_parameters_bad_def binding_protocol_bad_def sample_service_def selected_alpn_is_valid_def
        service_parameter_value_def known_service_parameters_match_def bad_address_wire_def)
  then show ?thesis using service_binding_normalises [of "sample_service\<lparr>sb_priority := Some 1\<rparr>"] by metis
qed

lemma origin_plan_validated_witness: "plan_ok sample_plan \<and> origin_plan_new sample_plan = Inr sample_plan"
  using origin_plan_validated [of sample_plan sample_plan] sample_plan_ok by blast

theorem decision_sound_witness:
  "selected_plan (nd_outcome sample_decision) = Some sample_plan \<and> outcome_fresh_at (nd_outcome sample_decision) 19"
proof -
  have "(15 :: u64) \<le> 19" by simp
  then have "outcome_fresh_at (nd_outcome sample_decision) 19 \<longleftrightarrow> 19 < outcome_expires_at (nd_outcome sample_decision)"
    using decision_sound [OF sample_decided] by blast
  then show ?thesis by (simp add: sample_decision_def outcome_expires_at_def sample_defs)
qed

lemma decision_refusals_witness:
  "refusal_explained sample_query (LookupAbsent sample_absence) (LookupPresent sample_plan)
     (with_explicit_pin default_selection_policy (Some Hns)) 15 (SelectedNamespaceUnavailable Hns ExplicitPin)"
  using decision_refusals [OF sample_pinned] .

end
