(* ===== verification/Fingerprint_Laws.thy ===== *)
theory Fingerprint_Laws
  imports Fingerprint Namespace_Laws
begin

unbundle bit_operations_syntax

text \<open>
  The fingerprint input determines what it is meant to determine and nothing else.  Every encoder is a
  prefix code for a view of its argument: an encoding followed by anything can be read back to the view and
  the rest.  The codes are composed from those of words, tags, byte strings, options and lists.
\<close>

section \<open>Prefix codes\<close>

locale prefix_code =
  fixes put :: "'a \<Rightarrow> bytes" and view :: "'a \<Rightarrow> 'b" and sized :: "'a \<Rightarrow> bool"
  assumes put_iff: "sized x \<Longrightarrow> sized y \<Longrightarrow> put x @ s = put y @ t \<longleftrightarrow> view x = view y \<and> s = t"
begin

lemma put_inj: "sized x \<Longrightarrow> sized y \<Longrightarrow> put x = put y \<longleftrightarrow> view x = view y"
  using put_iff [of x y "[]" "[]"] by simp

end

lemma code_fixed:
  assumes "\<And>x. length (put x) = n" and "\<And>x y. put x = put y \<Longrightarrow> x = y"
  shows "prefix_code put (\<lambda>x. x) (\<lambda>_. True)"
  by unfold_locales (metis assms append_eq_append_conv)

lemma code_view:
  assumes "prefix_code p v a" and "\<And>x y. v x = v y \<longleftrightarrow> w x = w y"
  shows "prefix_code p w a"
  by unfold_locales (simp add: prefix_code.put_iff [OF assms(1)] assms(2))

lemma code_option:
  assumes "prefix_code p v a"
  shows "prefix_code (\<lambda>o'. case o' of Some x \<Rightarrow> put_u8 1 @ p x | None \<Rightarrow> put_u8 0) (map_option v)
           (pred_option a)"
proof
  fix x y s t
  assume "pred_option a x" and "pred_option a y"
  then show "(case x of Some x \<Rightarrow> put_u8 1 @ p x | None \<Rightarrow> put_u8 0) @ s =
      (case y of Some x \<Rightarrow> put_u8 1 @ p x | None \<Rightarrow> put_u8 0) @ t \<longleftrightarrow> map_option v x = map_option v y \<and> s = t"
    by (cases x; cases y) (simp_all add: put_u8_def prefix_code.put_iff [OF assms])
qed

lemma be_bytes_inj:
  "be_bytes 2 (a :: u16) = be_bytes 2 b \<longleftrightarrow> a = b" "be_bytes 4 (c :: u32) = be_bytes 4 d \<longleftrightarrow> c = d"
  "be_bytes 8 (e :: u64) = be_bytes 8 f \<longleftrightarrow> e = f"
  by (metis be_word_widths)+

interpretation code_u8: prefix_code put_u8 "\<lambda>x. x" "\<lambda>_. True"
  by (rule code_fixed [where n = 1]) (simp_all add: put_u8_def)

interpretation code_u16: prefix_code put_u16 "\<lambda>x. x" "\<lambda>_. True"
  by (rule code_fixed [where n = 2]) (simp_all add: put_u16_def be_bytes_inj)

interpretation code_u32: prefix_code put_u32 "\<lambda>x. x" "\<lambda>_. True"
  by (rule code_fixed [where n = 4]) (simp_all add: put_u32_def be_bytes_inj)

interpretation code_u64: prefix_code put_u64 "\<lambda>x. x" "\<lambda>_. True"
  by (rule code_fixed [where n = 8]) (simp_all add: put_u64_def be_bytes_inj)

lemma code_tag:
  assumes "\<And>x y. tag x = tag y \<Longrightarrow> x = y"
  shows "prefix_code (\<lambda>x. put_u8 (tag x)) (\<lambda>x. x) (\<lambda>_. True)"
  by unfold_locales (auto simp: code_u8.put_iff dest: assms)

definition vec_sized :: "'a list \<Rightarrow> bool" where
  "vec_sized xs \<longleftrightarrow> length xs \<le> u64_max"

lemma len64_inj: "vec_sized xs \<Longrightarrow> vec_sized ys \<Longrightarrow> len64 (length xs) = len64 (length ys) \<longleftrightarrow> length xs = length ys"
proof -
  have "unat (of_nat n :: u64) = n" if "n \<le> u64_max" for n
    unfolding unat_of_nat using that by (simp add: u64_max_def)
  then show "vec_sized xs \<Longrightarrow> vec_sized ys \<Longrightarrow> len64 (length xs) = len64 (length ys) \<longleftrightarrow> length xs = length ys"
    unfolding vec_sized_def len64_def by (metis (mono_tags))
qed

interpretation code_bytes: prefix_code put_bytes "\<lambda>x. x" vec_sized
  by unfold_locales (auto simp: put_bytes_def code_u64.put_iff len64_inj)

lemma concat_code:
  assumes "prefix_code p v a"
  shows "\<forall>x \<in> set xs. a x \<Longrightarrow> \<forall>y \<in> set ys. a y \<Longrightarrow> length xs = length ys \<Longrightarrow>
    concat (map p xs) @ s = concat (map p ys) @ t \<longleftrightarrow> map v xs = map v ys \<and> s = t"
proof (induction xs arbitrary: ys)
  case (Cons x xs)
  then obtain y zs where "ys = y # zs" by (cases ys) auto
  then show ?case using Cons by (simp add: prefix_code.put_iff [OF assms])
qed simp

definition list_sized :: "('a \<Rightarrow> bool) \<Rightarrow> 'a list \<Rightarrow> bool" where
  "list_sized sized xs \<longleftrightarrow> vec_sized xs \<and> (\<forall>x \<in> set xs. sized x)"

lemma code_list:
  assumes "prefix_code p v a"
  shows "prefix_code (put_list p) (map v) (list_sized a)"
proof
  fix xs ys s t
  assume *: "list_sized a xs" "list_sized a ys"
  show "put_list p xs @ s = put_list p ys @ t \<longleftrightarrow> map v xs = map v ys \<and> s = t"
  proof (cases "length xs = length ys")
    case True
    then show ?thesis using * concat_code [OF assms] by (simp add: put_list_def list_sized_def)
  next
    case False
    then have "map v xs \<noteq> map v ys" using map_eq_imp_length_eq by blast
    then show ?thesis using * False by (simp add: put_list_def code_u64.put_iff len64_inj list_sized_def)
  qed
qed

lemma code_list_id: "prefix_code p (\<lambda>x. x) a \<Longrightarrow> prefix_code (put_list p) (\<lambda>xs. xs) (list_sized a)"
  by (erule code_view [OF code_list]) simp

lemma code_option_id:
  "prefix_code p (\<lambda>x. x) a \<Longrightarrow>
   prefix_code (\<lambda>o'. case o' of Some x \<Rightarrow> put_u8 1 @ p x | None \<Rightarrow> put_u8 0) (\<lambda>x. x) (pred_option a)"
  by (erule code_view [OF code_option]) (simp add: option.map_ident)

section \<open>What each encoder determines\<close>

lemma tags_inj:
  "namespace_tag a = namespace_tag b \<Longrightarrow> a = b" "scheme_tag c = scheme_tag d \<Longrightarrow> c = d"
  "hns_network_tag e = hns_network_tag f \<Longrightarrow> e = f" "protocol_tag g = protocol_tag h \<Longrightarrow> g = h"
  "transport_tag i = transport_tag j \<Longrightarrow> i = j" "alias_tag k = alias_tag l \<Longrightarrow> k = l"
  "tls_tag m = tls_tag n \<Longrightarrow> m = n" "absence_tag q = absence_tag r \<Longrightarrow> q = r"
  "precedence_tag s = precedence_tag t \<Longrightarrow> s = t"
  by ((cases a; cases b; simp),
    (cases c; cases d; simp),
    (cases e; cases f; simp),
    (cases g; cases h; simp),
    (cases i; cases j; simp),
    (cases k; cases l; simp),
    (cases m; cases n; simp),
    (cases q; cases r; simp),
    (cases s; cases t; simp))

lemma flags_inj: "capability_flags a = capability_flags b \<Longrightarrow> a = b"
proof -
  have "cap_http11 c = bit (capability_flags c) 0" "cap_http2 c = bit (capability_flags c) 1"
    "cap_http3 c = bit (capability_flags c) 2" for c
    by (cases "cap_http11 c"; cases "cap_http2 c"; cases "cap_http3 c"; simp add: capability_flags_def)+
  then show "capability_flags a = capability_flags b \<Longrightarrow> a = b" by (metis protocol_capabilities.equality old.unit.exhaust)
qed

lemma option_tags_inj:
  "(case a of None \<Rightarrow> 0 | Some n \<Rightarrow> namespace_tag n) = (case b of None \<Rightarrow> 0 | Some n \<Rightarrow> namespace_tag n) \<Longrightarrow> a = b"
  "(case c of None \<Rightarrow> 0 | Some n \<Rightarrow> reason_tag n) = (case d of None \<Rightarrow> 0 | Some n \<Rightarrow> reason_tag n) \<Longrightarrow> c = d"
proof -
  have n: "namespace_tag x \<noteq> 0" for x by (cases x) simp_all
  have r: "reason_tag x \<noteq> 0" "reason_tag x = reason_tag y \<Longrightarrow> x = y" for x y
    by (cases x; simp) (cases x; cases y; simp)
  show "(case a of None \<Rightarrow> 0 | Some n \<Rightarrow> namespace_tag n) = (case b of None \<Rightarrow> 0 | Some n \<Rightarrow> namespace_tag n) \<Longrightarrow> a = b"
    using n by (cases a; cases b) (auto dest: tags_inj(1) sym)
  show "(case c of None \<Rightarrow> 0 | Some n \<Rightarrow> reason_tag n) = (case d of None \<Rightarrow> 0 | Some n \<Rightarrow> reason_tag n) \<Longrightarrow> c = d"
    using r by (cases c; cases d) (auto dest: sym)
qed

interpretation code_namespace: prefix_code put_option_namespace "\<lambda>x. x" "\<lambda>_. True"
  unfolding put_option_namespace_def [abs_def] by (rule code_tag) (rule option_tags_inj)

interpretation code_reason: prefix_code put_option_selection_reason "\<lambda>x. x" "\<lambda>_. True"
  unfolding put_option_selection_reason_def [abs_def] by (rule code_tag) (rule option_tags_inj)

definition query_view :: "origin_query \<Rightarrow> canonical_host \<times> origin_scheme \<times> u16 \<times> protocol_capabilities" where
  "query_view q = (oq_host q, oq_scheme q, origin_port q, oq_supported_protocols q)"

definition query_sized :: "origin_query \<Rightarrow> bool" where
  "query_sized q \<longleftrightarrow> vec_sized (oq_host q)"

interpretation code_query: prefix_code put_query query_view query_sized
proof
  fix x y s t assume "query_sized x" "query_sized y"
  then show "put_query x @ s = put_query y @ t \<longleftrightarrow> query_view x = query_view y \<and> s = t"
    unfolding put_query_def query_view_def query_sized_def
    by (auto simp: code_bytes.put_iff code_u8.put_iff code_u16.put_iff dest: tags_inj flags_inj)
qed

interpretation code_authority: prefix_code put_provenance_authority provenance_hns_network "\<lambda>_. True"
proof
  fix x y s t
  show "put_provenance_authority x @ s = put_provenance_authority y @ t \<longleftrightarrow>
    provenance_hns_network x = provenance_hns_network y \<and> s = t"
    by (cases x; cases y)
      (auto simp: put_provenance_authority_def put_u8_def provenance_hns_network_def dest: tags_inj)
qed

definition absence_view ::
  "validated_absence \<Rightarrow> namespace \<times> hns_network option \<times> (canonical_host \<times> origin_scheme \<times> u16 \<times> protocol_capabilities) \<times> absence_kind" where
  "absence_view a = (ab_namespace a, provenance_hns_network (ab_provenance a), query_view (ab_query a), ab_kind a)"

definition absence_sized :: "validated_absence \<Rightarrow> bool" where
  "absence_sized a \<longleftrightarrow> query_sized (ab_query a)"

interpretation code_absence: prefix_code put_absence absence_view absence_sized
proof
  fix x y s t assume "absence_sized x" "absence_sized y"
  then show "put_absence x @ s = put_absence y @ t \<longleftrightarrow> absence_view x = absence_view y \<and> s = t"
    unfolding put_absence_def absence_view_def absence_sized_def
    by (auto simp: code_query.put_iff code_authority.put_iff code_u8.put_iff dest: tags_inj)
qed

interpretation code_ip: prefix_code put_ip "\<lambda>x. x" "\<lambda>_. True"
proof
  fix x y s t
  have "vec_sized (v4_octets a)" "vec_sized (v6_octets b)" for a b
    by (cases a; cases b; simp add: vec_sized_def u64_max_def)+
  moreover have "v4_octets a = v4_octets b \<Longrightarrow> a = b" "v6_octets c = v6_octets d \<Longrightarrow> c = d" for a b c d
    by (metis v4_from_octets_octets option.inject) (metis v6_from_octets_octets option.inject)
  ultimately show "put_ip x @ s = put_ip y @ t \<longleftrightarrow> x = y \<and> s = t"
    by (cases x; cases y) (auto simp: put_ip_def put_u8_def code_bytes.put_iff)
qed

interpretation code_socket: prefix_code put_socket_addr "\<lambda>e. (socket_ip e, socket_port e)" "\<lambda>_. True"
  by unfold_locales (simp add: put_socket_addr_def code_ip.put_iff code_u16.put_iff)

definition alias_sized :: "alias_step \<Rightarrow> bool" where
  "alias_sized a \<longleftrightarrow> vec_sized (al_owner a) \<and> vec_sized (al_target a)"

interpretation code_alias: prefix_code put_alias "\<lambda>a. a" alias_sized
proof
  fix x y s t assume "alias_sized x" "alias_sized y"
  then show "put_alias x @ s = put_alias y @ t \<longleftrightarrow> x = y \<and> s = t"
    by (cases x; cases y)
      (auto simp: put_alias_def alias_sized_def code_bytes.put_iff code_u8.put_iff dest: tags_inj)
qed

definition parameter_sized :: "service_parameter \<Rightarrow> bool" where
  "parameter_sized p \<longleftrightarrow> vec_sized (sp_value p)"

interpretation code_parameter: prefix_code "\<lambda>p. put_u16 (sp_key p) @ put_bytes (sp_value p)" "\<lambda>p. p" parameter_sized
proof
  fix x y s t assume "parameter_sized x" "parameter_sized y"
  then show "(put_u16 (sp_key x) @ put_bytes (sp_value x)) @ s = (put_u16 (sp_key y) @ put_bytes (sp_value y)) @ t \<longleftrightarrow>
      x = y \<and> s = t"
    by (cases x; cases y) (auto simp: parameter_sized_def code_bytes.put_iff code_u16.put_iff)
qed

interpretation code_keys: prefix_code "put_list put_u16" "\<lambda>x. x" "list_sized (\<lambda>_. True)"
  by (rule code_list_id) unfold_locales

interpretation code_strings: prefix_code "put_list put_bytes" "\<lambda>x. x" "list_sized vec_sized"
  by (rule code_list_id) unfold_locales

interpretation code_hints: prefix_code "put_list put_ip" "\<lambda>x. x" "list_sized (\<lambda>_. True)"
  by (rule code_list_id) unfold_locales

interpretation code_parameters:
  prefix_code "put_list (\<lambda>p. put_u16 (sp_key p) @ put_bytes (sp_value p))" "\<lambda>x. x" "list_sized parameter_sized"
  by (rule code_list_id) unfold_locales

interpretation code_aliases: prefix_code "put_list put_alias" "\<lambda>x. x" "list_sized alias_sized"
  by (rule code_list_id) unfold_locales

interpretation code_endpoints:
  prefix_code "put_list put_socket_addr" "map (\<lambda>e. (socket_ip e, socket_port e))" "list_sized (\<lambda>_. True)"
  by (rule code_list) unfold_locales

interpretation code_priority:
  prefix_code "\<lambda>v. case v of Some x \<Rightarrow> put_u8 1 @ put_u16 x | None \<Rightarrow> put_u8 0" "\<lambda>x. x" "pred_option (\<lambda>_. True)"
  by (rule code_option_id) unfold_locales

interpretation code_ech:
  prefix_code "\<lambda>v. case v of Some x \<Rightarrow> put_u8 1 @ put_bytes x | None \<Rightarrow> put_u8 0" "\<lambda>x. x" "pred_option vec_sized"
  by (rule code_option_id) unfold_locales

lemma no_limit [simp]: "pred_option (\<lambda>_. True) x" "list_sized (\<lambda>_. True) xs = vec_sized xs"
  by (simp_all add: pred_option_def list_sized_def)

lemmas put_iffs = code_u8.put_iff code_u16.put_iff code_u32.put_iff code_u64.put_iff code_bytes.put_iff
  code_namespace.put_iff code_reason.put_iff code_query.put_iff code_authority.put_iff code_keys.put_iff
  code_strings.put_iff code_hints.put_iff code_parameters.put_iff code_aliases.put_iff code_endpoints.put_iff
  code_priority.put_iff code_ech.put_iff

definition service_sized :: "service_binding \<Rightarrow> bool" where
  "service_sized s \<longleftrightarrow> vec_sized (sb_service_target s) \<and> vec_sized (sb_mandatory_keys s) \<and>
     list_sized vec_sized (sb_advertised_alpn s) \<and> vec_sized (sb_connection_hints s) \<and>
     pred_option vec_sized (sb_ech_config s) \<and> list_sized parameter_sized (sb_parameters s)"

interpretation code_service: prefix_code put_service "\<lambda>s. s" service_sized
proof
  fix x y s t assume "service_sized x" "service_sized y"
  then have "put_service x @ s = put_service y @ t \<longleftrightarrow>
     sb_priority x = sb_priority y \<and> sb_service_target x = sb_service_target y \<and>
     sb_mandatory_keys x = sb_mandatory_keys y \<and> sb_advertised_alpn x = sb_advertised_alpn y \<and>
     protocol_tag (sb_selected_protocol x) = protocol_tag (sb_selected_protocol y) \<and>
     sb_effective_port x = sb_effective_port y \<and> transport_tag (sb_transport x) = transport_tag (sb_transport y) \<and>
     sb_connection_hints x = sb_connection_hints y \<and> sb_ech_config x = sb_ech_config y \<and>
     sb_parameters x = sb_parameters y \<and> s = t"
    unfolding put_service_def service_sized_def
    by (simp add: put_iffs)
  also have "\<dots> \<longleftrightarrow> x = y \<and> s = t"
    by (auto dest: tags_inj intro: service_binding.equality)
  finally show "put_service x @ s = put_service y @ t \<longleftrightarrow> x = y \<and> s = t" .
qed

definition plan_view where
  "plan_view p = (op_namespace p, provenance_hns_network (op_provenance p), query_view (op_query p), op_alias_path p,
     op_terminal_target p, op_endpoint_alias_path p, op_endpoint_target p,
     map (\<lambda>e. (socket_ip e, socket_port e)) (op_endpoints p), op_service p, op_tls_policy p, op_tlsa_records p)"

definition plan_sized :: "origin_plan \<Rightarrow> bool" where
  "plan_sized p \<longleftrightarrow> query_sized (op_query p) \<and> list_sized alias_sized (op_alias_path p) \<and>
     vec_sized (op_terminal_target p) \<and> list_sized alias_sized (op_endpoint_alias_path p) \<and>
     vec_sized (op_endpoint_target p) \<and> vec_sized (op_endpoints p) \<and> service_sized (op_service p) \<and>
     list_sized vec_sized (op_tlsa_records p)"

interpretation code_plan: prefix_code put_plan plan_view plan_sized
proof
  fix x y s t assume "plan_sized x" "plan_sized y"
  then have "put_plan x @ s = put_plan y @ t \<longleftrightarrow>
      namespace_tag (op_namespace x) = namespace_tag (op_namespace y) \<and>
      tls_tag (op_tls_policy x) = tls_tag (op_tls_policy y) \<and>
      plan_view (x\<lparr>op_namespace := Hns, op_tls_policy := Dane\<rparr>) =
      plan_view (y\<lparr>op_namespace := Hns, op_tls_policy := Dane\<rparr>) \<and> s = t"
    unfolding put_plan_def plan_sized_def plan_view_def
    by (simp add: put_iffs code_service.put_iff conj_ac)
  also have "\<dots> \<longleftrightarrow> plan_view x = plan_view y \<and> s = t"
    unfolding plan_view_def by (auto dest: tags_inj)
  finally show "put_plan x @ s = put_plan y @ t \<longleftrightarrow> plan_view x = plan_view y \<and> s = t" .
qed

section \<open>Decisions and cache keys\<close>

fun outcome_plans :: "namespace_outcome \<Rightarrow> origin_plan list" where
  "outcome_plans (HnsOnly plan _ _) = [plan]"
| "outcome_plans (IcannOnly plan _ _) = [plan]"
| "outcome_plans (BothConvergent _ _ hns icann) = [hns, icann]"
| "outcome_plans (BothDivergent _ _ hns icann _) = [hns, icann]"
| "outcome_plans (Neither _ _) = []"

fun outcome_absences :: "namespace_outcome \<Rightarrow> validated_absence list" where
  "outcome_absences (HnsOnly _ absence _) = [absence]"
| "outcome_absences (IcannOnly _ absence _) = [absence]"
| "outcome_absences (Neither hns icann) = [hns, icann]"
| "outcome_absences _ = []"

definition outcome_view where
  "outcome_view out = (outcome_code out, selected_namespace out, outcome_reason out, map plan_view (outcome_plans out),
     map absence_view (outcome_absences out), divergence out)"

definition outcome_sized :: "namespace_outcome \<Rightarrow> bool" where
  "outcome_sized out \<longleftrightarrow> list_all plan_sized (outcome_plans out) \<and> list_all absence_sized (outcome_absences out)"

interpretation code_outcome:
  prefix_code "\<lambda>out. put_u8 (outcome_code out) @ put_option_namespace (selected_namespace out) @
      put_option_selection_reason (outcome_reason out) @ put_outcome out" outcome_view outcome_sized
proof
  fix x y s t assume "outcome_sized x" "outcome_sized y"
  then show "(put_u8 (outcome_code x) @ put_option_namespace (selected_namespace x) @
      put_option_selection_reason (outcome_reason x) @ put_outcome x) @ s =
    (put_u8 (outcome_code y) @ put_option_namespace (selected_namespace y) @
      put_option_selection_reason (outcome_reason y) @ put_outcome y) @ t \<longleftrightarrow>
    outcome_view x = outcome_view y \<and> s = t"
    unfolding outcome_sized_def outcome_view_def
    by (cases x; cases y)
      (simp_all add: put_iffs code_plan.put_iff code_absence.put_iff conj_assoc)
qed

definition decision_view where
  "decision_view d = (query_view (nd_query d), nd_policy d, outcome_view (nd_outcome d))"

definition decision_sized :: "namespace_decision \<Rightarrow> bool" where
  "decision_sized d \<longleftrightarrow> query_sized (nd_query d) \<and> outcome_sized (nd_outcome d)"

lemma decision_input_iff:
  assumes "decision_sized d" and "decision_sized e"
  shows "decision_input d = decision_input e \<longleftrightarrow> decision_view d = decision_view e"
proof -
  have "decision_input d = decision_input e \<longleftrightarrow>
     query_view (nd_query d) = query_view (nd_query e) \<and> sel_revision (nd_policy d) = sel_revision (nd_policy e) \<and>
     sel_explicit_pin (nd_policy d) = sel_explicit_pin (nd_policy e) \<and>
     sel_sticky_binding (nd_policy d) = sel_sticky_binding (nd_policy e) \<and>
     precedence_tag (sel_default_precedence (nd_policy d)) = precedence_tag (sel_default_precedence (nd_policy e)) \<and>
     outcome_view (nd_outcome d) = outcome_view (nd_outcome e)"
    using assms code_outcome.put_inj [of "nd_outcome d" "nd_outcome e"]
    unfolding decision_input_def decision_sized_def by (simp add: put_iffs)
  also have "\<dots> \<longleftrightarrow> decision_view d = decision_view e"
    unfolding decision_view_def by (auto dest: tags_inj intro: selection_policy.equality)
  finally show ?thesis .
qed

definition cache_key_view where
  "cache_key_view k = (dk_comparison_schema_version k, dk_decision_fingerprint k, query_view (dk_query k),
     dk_hns_network k, dk_resolver_configuration k, dk_trust_anchor_generation k, dk_binding_revision k)"

definition cache_key_sized :: "decision_cache_key \<Rightarrow> bool" where
  "cache_key_sized k \<longleftrightarrow> vec_sized (dk_decision_fingerprint k) \<and> query_sized (dk_query k) \<and>
     vec_sized (dk_resolver_configuration k)"

lemma cache_key_input_iff:
  assumes "cache_key_sized k" and "cache_key_sized l"
  shows "cache_key_input k = cache_key_input l \<longleftrightarrow> cache_key_view k = cache_key_view l"
  using assms unfolding cache_key_input_def cache_key_sized_def cache_key_view_def
  by (auto simp: put_iffs code_u64.put_inj dest: tags_inj)

text \<open>The bytes hashed for a decision determine, and are determined by, exactly the query, the policy
  snapshot, the kind of outcome with the selected root and its reason, every connection and trust field of
  the plans, the kinds of the absences and the authority (the Handshake network or ICANN) behind each;
  neither the lifetime nor the proof matters, and no field can be confused with another.  The same holds of
  the bytes hashed for a cache key, and the two kinds of input never coincide.\<close>

lemma fingerprint_inputs_exact:
  assumes "decision_sized d" and "decision_sized e" and "cache_key_sized k" and "cache_key_sized l"
  shows "(decision_input d = decision_input e \<longleftrightarrow> decision_view d = decision_view e) \<and>
    (cache_key_input k = cache_key_input l \<longleftrightarrow> cache_key_view k = cache_key_view l) \<and>
    decision_input d \<noteq> cache_key_input k"
proof -
  have "vec_sized (ascii ''hns-namespace-decision-v1'')" "vec_sized (ascii ''hns-namespace-cache-key-v1'')"
    by (simp_all add: vec_sized_def ascii_def u64_max_def)
  moreover have "ascii ''hns-namespace-decision-v1'' \<noteq> ascii ''hns-namespace-cache-key-v1''"
    by (simp add: ascii_def)
  ultimately have "decision_input d \<noteq> cache_key_input k"
    unfolding decision_input_def cache_key_input_def by (simp add: code_bytes.put_iff)
  then show ?thesis using decision_input_iff cache_key_input_iff assms by blast
qed

text \<open>A later observation of the same answers, and the same answers under another policy revision.\<close>

definition refreshed_decision :: namespace_decision where
  "refreshed_decision = \<lparr>nd_query = sample_query, nd_policy = default_selection_policy,
     nd_outcome = IcannOnly (sample_plan\<lparr>op_freshness := \<lparr>fr_observed_at = 30, fr_expires_at = 40\<rparr>\<rparr>) sample_absence SingleRoot\<rparr>"

definition sample_key :: "u64 \<Rightarrow> decision_cache_key" where
  "sample_key g = \<lparr>dk_decision_fingerprint = replicate 32 0, dk_query = sample_query, dk_hns_network = HnsMainnet,
     dk_resolver_configuration = replicate 32 1, dk_trust_anchor_generation = g, dk_binding_revision = 0,
     dk_comparison_schema_version = 1\<rparr>"

lemma sample_sized:
  "decision_sized sample_decision" "decision_sized refreshed_decision" "cache_key_sized (sample_key g)"
  by (simp_all add: decision_sized_def outcome_sized_def plan_sized_def absence_sized_def query_sized_def
      service_sized_def list_sized_def vec_sized_def cache_key_sized_def sample_key_def refreshed_decision_def
      sample_decision_def sample_defs u64_max_def ascii_def)

lemma fingerprint_inputs_exact_witness:
  "decision_input sample_decision = decision_input refreshed_decision \<and>
   cache_key_input (sample_key 1) \<noteq> cache_key_input (sample_key 2) \<and>
   decision_input sample_decision \<noteq> cache_key_input (sample_key 1)"
proof -
  have "decision_view sample_decision = decision_view refreshed_decision"
    by (simp add: decision_view_def outcome_view_def plan_view_def sample_decision_def refreshed_decision_def)
  moreover have "cache_key_view (sample_key 1) \<noteq> cache_key_view (sample_key 2)"
    by (simp add: cache_key_view_def sample_key_def)
  ultimately show ?thesis
    using fingerprint_inputs_exact [OF sample_sized(1) sample_sized(2) sample_sized(3) [of 1] sample_sized(3) [of 2]]
    by blast
qed

end
