(* ===== verification/Gateway.thy ===== *)
theory Gateway
  imports Policy_Laws
begin

text \<open>
  The transport gateway (src/crates/hns-gateway/src/lib.rs): one resolution walks the transport plan of the
  policy in order, one attempt at a time.  A gateway is a record; every operation returns the gateway it
  leaves and its result, and the process-wide instance counter is passed explicitly.  Identities are byte
  strings.  The laws at the end describe every sequence of operations on a gateway.
\<close>

section \<open>Limits and outcomes\<close>

definition DEFAULT_ATTEMPT_TIMEOUT_SECONDS :: u64 where "DEFAULT_ATTEMPT_TIMEOUT_SECONDS = 10"

definition DEFAULT_MAXIMUM_RESPONSE_BYTES :: usize where "DEFAULT_MAXIMUM_RESPONSE_BYTES = 65535"

definition DEFAULT_MAXIMUM_IDENTITY_BYTES :: usize where "DEFAULT_MAXIMUM_IDENTITY_BYTES = 256"

record gateway_limits =
  gl_attempt_timeout_seconds :: u64
  gl_maximum_response_bytes :: usize
  gl_maximum_identity_bytes :: usize

definition default_gateway_limits :: gateway_limits where
  "default_gateway_limits =
     \<lparr>gl_attempt_timeout_seconds = DEFAULT_ATTEMPT_TIMEOUT_SECONDS,
      gl_maximum_response_bytes = DEFAULT_MAXIMUM_RESPONSE_BYTES,
      gl_maximum_identity_bytes = DEFAULT_MAXIMUM_IDENTITY_BYTES\<rparr>"

datatype transport_failure =
  Unreachable | TransportTimeout | TransportUnsupported | TransportTruncated | TransportMalformed
| AuthenticationFailed | TransportCancelled

datatype gateway_error =
  InvalidGatewayLimits | StalePolicy | AttemptAlreadyActive | NoActiveAttempt | AttemptMismatch | NoCandidate
| GatewayTerminal | SequenceExhausted | InstanceSequenceExhausted | TimeOverflow
| TerminalTransportFailure transport_failure | InvalidResponseSize | MissingIdentity | InvalidIdentity
| InvalidIdentityTopology | UnavailableTransport

definition gateway_limits_validate :: "gateway_limits \<Rightarrow> (gateway_error, gateway_limits) result" where
  "gateway_limits_validate l =
     (if gl_attempt_timeout_seconds l = 0 \<or> gl_attempt_timeout_seconds l > 300 \<or>
         gl_maximum_response_bytes l = 0 \<or> gl_maximum_response_bytes l > DEFAULT_MAXIMUM_RESPONSE_BYTES \<or>
         gl_maximum_identity_bytes l = 0 \<or> gl_maximum_identity_bytes l > 4096
      then Inl InvalidGatewayLimits else Inr l)"

definition permits_fallback_from :: "transport_failure \<Rightarrow> resolution_transport \<Rightarrow> bool" where
  "permits_fallback_from f t \<longleftrightarrow>
     f \<in> {Unreachable, TransportTimeout, TransportUnsupported} \<or>
     (f = TransportTruncated \<and> t = DirectAuthoritativeUdp)"

record gateway_identities =
  gi_peer :: "bytes option"
  gi_proxy :: "bytes option"
  gi_target :: "bytes option"

definition default_identities :: gateway_identities where
  "default_identities = \<lparr>gi_peer = None, gi_proxy = None, gi_target = None\<rparr>"

datatype attempt_outcome = GatewayResponse bytes gateway_identities | GatewayFailure transport_failure

record gateway_attempt =
  ga_instance_id :: u64
  ga_policy_generation :: u64
  ga_sequence :: u64
  ga_candidate_index :: usize
  ga_transport :: resolution_transport
  ga_deadline :: u64

record gateway_selection =
  gs_policy_generation :: u64
  gs_transport :: resolution_transport
  gs_response :: bytes
  gs_identities :: gateway_identities
  gs_direct_relay_fallback :: bool

datatype gateway_step = RetryAvailable | Selected gateway_selection | GatewayUnavailable

record gateway =
  gw_instance_id :: u64
  gw_limits :: gateway_limits
  gw_policy :: policy_snapshot
  gw_plan :: transport_plan
  gw_next_candidate :: usize
  gw_sequence :: u64
  gw_active :: "gateway_attempt option"
  gw_terminal :: bool
  gw_odoh_attempted :: bool

section \<open>Operations\<close>

text \<open>\<open>NEXT_GATEWAY_ID\<close> is advanced unless it would overflow.\<close>

definition gateway_new ::
  "u64 \<Rightarrow> policy_snapshot \<Rightarrow> gateway_limits \<Rightarrow> u64 \<times> (gateway_error, gateway) result" where
  "gateway_new counter policy limits0 =
     (case gateway_limits_validate limits0 of
        Inl e \<Rightarrow> (counter, Inl e)
      | Inr limits \<Rightarrow>
          (case u64_checked_add counter 1 of
             None \<Rightarrow> (counter, Inl InstanceSequenceExhausted)
           | Some next \<Rightarrow>
               (next,
                Inr \<lparr>gw_instance_id = counter, gw_limits = limits, gw_policy = policy,
                     gw_plan = for_policy (ps_config policy), gw_next_candidate = 0, gw_sequence = 0,
                     gw_active = None, gw_terminal = False, gw_odoh_attempted = False\<rparr>)))"

definition gateway_revoke :: "gateway \<Rightarrow> gateway" where
  "gateway_revoke g = g\<lparr>gw_active := None, gw_terminal := True\<rparr>"

definition ensure_current_policy :: "gateway \<Rightarrow> policy_snapshot \<Rightarrow> gateway \<times> (gateway_error, unit) result" where
  "ensure_current_policy g current =
     (if ps_generation current \<noteq> ps_generation (gw_policy g) \<or> ps_config current \<noteq> ps_config (gw_policy g)
      then (gateway_revoke g, Inl StalePolicy) else (g, Inr ()))"

definition attempt_for :: "gateway \<Rightarrow> u64 \<Rightarrow> (gateway_error, gateway_attempt) result" where
  "attempt_for g now =
     (if gw_terminal g then Inl GatewayTerminal
      else if gw_active g \<noteq> None then Inl AttemptAlreadyActive
      else
      rbind (ok_or NoCandidate (slice_get (tp_transports (gw_plan g)) (gw_next_candidate g))) (\<lambda>transport.
      rbind (ok_or SequenceExhausted (u64_checked_add (gw_sequence g) 1)) (\<lambda>sequence.
      rbind (ok_or TimeOverflow (u64_checked_add now (gl_attempt_timeout_seconds (gw_limits g)))) (\<lambda>deadline.
      Inr \<lparr>ga_instance_id = gw_instance_id g, ga_policy_generation = ps_generation (gw_policy g),
           ga_sequence = sequence, ga_candidate_index = gw_next_candidate g, ga_transport = transport,
           ga_deadline = deadline\<rparr>))))"

definition next_attempt ::
  "gateway \<Rightarrow> policy_snapshot \<Rightarrow> u64 \<Rightarrow> gateway \<times> (gateway_error, gateway_attempt) result" where
  "next_attempt g current_policy now =
     (case ensure_current_policy g current_policy of
        (g, Inl e) \<Rightarrow> (g, Inl e)
      | (g, Inr _) \<Rightarrow>
          (case attempt_for g now of
             Inl e \<Rightarrow> (g, Inl e)
           | Inr attempt \<Rightarrow>
               (g\<lparr>gw_next_candidate := gw_next_candidate g + 1, gw_sequence := ga_sequence attempt,
                  gw_odoh_attempted := gw_odoh_attempted g \<or> ga_transport attempt = HandshakeP2pOdoh,
                  gw_active := Some attempt\<rparr>, Inr attempt)))"

definition retry_or_unavailable ::
  "gateway \<Rightarrow> transport_failure \<Rightarrow> resolution_transport \<Rightarrow> gateway \<times> (gateway_error, gateway_step) result" where
  "retry_or_unavailable g failure transport =
     (if \<not> permits_fallback_from failure transport
      then (g\<lparr>gw_terminal := True\<rparr>, Inl (TerminalTransportFailure failure))
      else if gw_next_candidate g < length (tp_transports (gw_plan g)) then (g, Inr RetryAvailable)
      else (g\<lparr>gw_terminal := True\<rparr>, Inr GatewayUnavailable))"

definition identity_bad :: "gateway_limits \<Rightarrow> bytes option \<Rightarrow> bool" where
  "identity_bad l i = (case i of None \<Rightarrow> False | Some s \<Rightarrow> s = [] \<or> length s > gl_maximum_identity_bytes l)"

definition validate_response ::
  "gateway \<Rightarrow> bytes \<Rightarrow> gateway_identities \<Rightarrow> resolution_transport \<Rightarrow> (gateway_error, unit) result" where
  "validate_response g bs ids transport =
     (if bs = [] \<or> length bs > gl_maximum_response_bytes (gw_limits g) then Inl InvalidResponseSize
      else if list_ex (identity_bad (gw_limits g)) [gi_peer ids, gi_proxy ids, gi_target ids] then Inl InvalidIdentity
      else case transport of
        HandshakeP2pOdoh \<Rightarrow>
          rbind (ok_or MissingIdentity (gi_proxy ids)) (\<lambda>proxy.
          rbind (ok_or MissingIdentity (gi_target ids)) (\<lambda>target.
          if gi_peer ids \<noteq> None \<or> proxy = target then Inl InvalidIdentityTopology else Inr ()))
      | HandshakeP2pDnsRelay \<Rightarrow>
          if gi_peer ids = None \<or> gi_proxy ids \<noteq> None \<or> gi_target ids \<noteq> None
          then Inl InvalidIdentityTopology else Inr ()
      | DirectAuthoritativeUdp \<Rightarrow> if ids \<noteq> default_identities then Inl InvalidIdentityTopology else Inr ()
      | DirectAuthoritativeTcp \<Rightarrow> if ids \<noteq> default_identities then Inl InvalidIdentityTopology else Inr ()
      | AuthenticatedAuthoritativeDoh \<Rightarrow> if ids \<noteq> default_identities then Inl InvalidIdentityTopology else Inr ()
      | UserConfiguredRecursiveHnsDoh \<Rightarrow> if ids \<noteq> default_identities then Inl InvalidIdentityTopology else Inr ()
      | _ \<Rightarrow> Inl UnavailableTransport)"

definition complete_active ::
  "gateway \<Rightarrow> gateway_attempt \<Rightarrow> attempt_outcome \<Rightarrow> u64 \<Rightarrow> gateway \<times> (gateway_error, gateway_step) result" where
  "complete_active g attempt outcome now =
     (if now > ga_deadline attempt then retry_or_unavailable g TransportTimeout (ga_transport attempt)
      else case outcome of
        GatewayFailure failure \<Rightarrow> retry_or_unavailable g failure (ga_transport attempt)
      | GatewayResponse bs ids \<Rightarrow>
          (g\<lparr>gw_terminal := True\<rparr>,
           rbind (validate_response g bs ids (ga_transport attempt)) (\<lambda>_.
           Inr (Selected \<lparr>gs_policy_generation = ps_generation (gw_policy g), gs_transport = ga_transport attempt,
                          gs_response = bs, gs_identities = ids,
                          gs_direct_relay_fallback =
                            (ga_transport attempt = HandshakeP2pDnsRelay \<and> gw_odoh_attempted g)\<rparr>))))"

definition gateway_complete ::
  "gateway \<Rightarrow> policy_snapshot \<Rightarrow> gateway_attempt \<Rightarrow> attempt_outcome \<Rightarrow> u64 \<Rightarrow>
   gateway \<times> (gateway_error, gateway_step) result" where
  "gateway_complete g current_policy attempt outcome now =
     (case ensure_current_policy g current_policy of
        (g, Inl e) \<Rightarrow> (g, Inl e)
      | (g, Inr _) \<Rightarrow>
          (case gw_active g of
             None \<Rightarrow> (g, Inl NoActiveAttempt)
           | Some active \<Rightarrow>
               if active \<noteq> attempt then (g, Inl AttemptMismatch)
               else complete_active (g\<lparr>gw_active := None\<rparr>) attempt outcome now))"

section \<open>Histories\<close>

text \<open>
  \<open>gateway_trace policy limits h g\<close>: the gateway \<open>g\<close> is reached from a new gateway for \<open>policy\<close> and
  \<open>limits\<close> by any operations with any arguments, and \<open>h\<close> lists the attempts that ended in a failure other
  attempts may follow, with that failure.
\<close>

definition effective_failure :: "gateway_attempt \<Rightarrow> attempt_outcome \<Rightarrow> u64 \<Rightarrow> transport_failure option" where
  "effective_failure a out now =
     (if now > ga_deadline a then Some TransportTimeout
      else case out of GatewayFailure f \<Rightarrow> Some f | GatewayResponse _ _ \<Rightarrow> None)"

inductive gateway_trace ::
  "policy_snapshot \<Rightarrow> gateway_limits \<Rightarrow> (resolution_transport \<times> transport_failure) list \<Rightarrow> gateway \<Rightarrow> bool"
  for policy limits where
  start: "snd (gateway_new n policy limits) = Inr g \<Longrightarrow> gateway_trace policy limits [] g"
| attempt: "gateway_trace policy limits h g \<Longrightarrow> gateway_trace policy limits h (fst (next_attempt g current now))"
| failed: "gateway_trace policy limits h g \<Longrightarrow> gateway_complete g current a out now = (g', Inr st) \<Longrightarrow>
    effective_failure a out now = Some f \<Longrightarrow> gateway_trace policy limits (h @ [(ga_transport a, f)]) g'"
| selected: "gateway_trace policy limits h g \<Longrightarrow> gateway_complete g current a out now = (g', Inr st) \<Longrightarrow>
    effective_failure a out now = None \<Longrightarrow> gateway_trace policy limits h g'"
| refused: "gateway_trace policy limits h g \<Longrightarrow> gateway_complete g current a out now = (g', Inl e) \<Longrightarrow>
    gateway_trace policy limits h g'"
| revoke: "gateway_trace policy limits h g \<Longrightarrow> gateway_trace policy limits h (gateway_revoke g)"

definition plan_list :: "gateway \<Rightarrow> resolution_transport list" where
  "plan_list g = tp_transports (gw_plan g)"

text \<open>The invariant: the failed attempts are a prefix of the plan, each with a failure that permits the next
  one; an active attempt is for the following candidate.\<close>

definition gateway_inv ::
  "policy_snapshot \<Rightarrow> gateway_limits \<Rightarrow> (resolution_transport \<times> transport_failure) list \<Rightarrow> gateway \<Rightarrow> bool" where
  "gateway_inv policy limits h g \<longleftrightarrow>
     gw_policy g = policy \<and> gw_limits g = limits \<and> gw_plan g = for_policy (ps_config policy) \<and>
     length h \<le> gw_next_candidate g \<and> gw_next_candidate g \<le> length (plan_list g) \<and>
     map fst h = take (length h) (plan_list g) \<and> list_all (\<lambda>(t, f). permits_fallback_from f t) h \<and>
     unat (gw_sequence g) = gw_next_candidate g \<and>
     (gw_odoh_attempted g \<longleftrightarrow> HandshakeP2pOdoh \<in> set (take (gw_next_candidate g) (plan_list g))) \<and>
     (case gw_active g of
        None \<Rightarrow> gw_terminal g \<or> gw_next_candidate g = length h \<and> length h < length (plan_list g)
      | Some a \<Rightarrow> \<not> gw_terminal g \<and> gw_next_candidate g = length h + 1 \<and> ga_transport a = plan_list g ! length h \<and>
          ga_candidate_index a = length h \<and> ga_instance_id a = gw_instance_id g \<and>
          ga_policy_generation a = ps_generation policy)"

lemma plan_nonempty: "tp_transports (for_policy c) \<noteq> []"
  by (simp add: for_policy_def Let_def)

lemma gateway_inv_new: "snd (gateway_new n policy limits) = Inr g \<Longrightarrow> gateway_inv policy limits [] g"
  using plan_nonempty
  by (auto simp: gateway_new_def gateway_inv_def plan_list_def gateway_limits_validate_def
      split: sum.splits option.splits if_splits)

lemma gateway_inv_revoke: "gateway_inv policy limits h g \<Longrightarrow> gateway_inv policy limits h (gateway_revoke g)"
  by (auto simp: gateway_inv_def gateway_revoke_def plan_list_def)

lemma ensure_current_policy_cases:
  "ensure_current_policy g current = (if current = gw_policy g then (g, Inr ()) else (gateway_revoke g, Inl StalePolicy))"
  by (cases current; cases "gw_policy g") (auto simp: ensure_current_policy_def)

lemma attempt_for_Inr:
  "attempt_for g now = Inr a \<longleftrightarrow> \<not> gw_terminal g \<and> gw_active g = None \<and> gw_next_candidate g < length (plan_list g) \<and>
     (\<exists>s d. u64_checked_add (gw_sequence g) 1 = Some s \<and>
        u64_checked_add now (gl_attempt_timeout_seconds (gw_limits g)) = Some d \<and>
        a = \<lparr>ga_instance_id = gw_instance_id g, ga_policy_generation = ps_generation (gw_policy g), ga_sequence = s,
             ga_candidate_index = gw_next_candidate g, ga_transport = plan_list g ! gw_next_candidate g,
             ga_deadline = d\<rparr>)"
  by (auto simp: attempt_for_def plan_list_def result_inv split: if_splits)

lemma gateway_inv_next:
  assumes inv: "gateway_inv policy limits h g"
  shows "gateway_inv policy limits h (fst (next_attempt g current now))"
proof (cases "current = gw_policy g")
  case True
  show ?thesis
  proof (cases "attempt_for g now")
    case (Inl e)
    then show ?thesis using inv True by (simp add: next_attempt_def ensure_current_policy_cases)
  next
    case (Inr a)
    have act: "gw_active g = None" "\<not> gw_terminal g" and lt: "gw_next_candidate g < length (plan_list g)"
      and seq: "u64_checked_add (gw_sequence g) 1 = Some (ga_sequence a)"
      and a: "ga_transport a = plan_list g ! gw_next_candidate g" "ga_candidate_index a = gw_next_candidate g"
        "ga_instance_id a = gw_instance_id g" "ga_policy_generation a = ps_generation (gw_policy g)"
      using Inr by (auto simp: attempt_for_Inr)
    have "unat (ga_sequence a) = unat (gw_sequence g) + 1" using u64_checked_add_SomeD [OF seq] by simp
    then show ?thesis using inv True Inr act lt a
      by (auto simp: next_attempt_def ensure_current_policy_cases gateway_inv_def plan_list_def take_Suc_conv_app_nth)
  qed
qed (simp add: next_attempt_def ensure_current_policy_cases gateway_inv_revoke [OF inv])

text \<open>How an attempt ends.\<close>

lemma complete_cases:
  assumes "gateway_complete g current a out now = (g', r)"
  obtains (stale) "current \<noteq> gw_policy g" "g' = gateway_revoke g" "r = Inl StalePolicy"
  | (inactive) "current = gw_policy g" "gw_active g = None" "g' = g" "r = Inl NoActiveAttempt"
  | (mismatch) b where "current = gw_policy g" "gw_active g = Some b" "b \<noteq> a" "g' = g" "r = Inl AttemptMismatch"
  | (failure) f where "current = gw_policy g" "gw_active g = Some a" "effective_failure a out now = Some f"
      "(g', r) = retry_or_unavailable (g\<lparr>gw_active := None\<rparr>) f (ga_transport a)"
  | (response) bs ids where "current = gw_policy g" "gw_active g = Some a" "out = GatewayResponse bs ids"
      "now \<le> ga_deadline a" "g' = g\<lparr>gw_active := None, gw_terminal := True\<rparr>"
      "r = rbind (validate_response (g\<lparr>gw_active := None\<rparr>) bs ids (ga_transport a)) (\<lambda>_.
           Inr (Selected \<lparr>gs_policy_generation = ps_generation (gw_policy g), gs_transport = ga_transport a,
                          gs_response = bs, gs_identities = ids,
                          gs_direct_relay_fallback = (ga_transport a = HandshakeP2pDnsRelay \<and> gw_odoh_attempted g)\<rparr>))"
  using assms
  by (cases out)
    (auto simp: gateway_complete_def ensure_current_policy_cases complete_active_def effective_failure_def not_less
      split: if_splits option.splits)

lemma retry_cases:
  assumes "(g', r) = retry_or_unavailable g f t"
  obtains (terminal) "\<not> permits_fallback_from f t" "g' = g\<lparr>gw_terminal := True\<rparr>" "r = Inl (TerminalTransportFailure f)"
  | (retry) "permits_fallback_from f t" "gw_next_candidate g < length (plan_list g)" "g' = g" "r = Inr RetryAvailable"
  | (unavailable) "permits_fallback_from f t" "\<not> gw_next_candidate g < length (plan_list g)"
      "g' = g\<lparr>gw_terminal := True\<rparr>" "r = Inr GatewayUnavailable"
  using assms by (auto simp: retry_or_unavailable_def plan_list_def split: if_splits)

lemma inv_active:
  assumes "gateway_inv policy limits h g" and "gw_active g = Some a"
  shows "\<not> gw_terminal g" "gw_next_candidate g = length h + 1" "ga_transport a = plan_list g ! length h"
    "length h < length (plan_list g)"
  using assms by (auto simp: gateway_inv_def)

text \<open>An active attempt is over without a failure that others may follow: the gateway is terminal.\<close>

lemma inv_ended:
  assumes "gateway_inv policy limits h g"
  shows "gateway_inv policy limits h (g\<lparr>gw_active := None, gw_terminal := True\<rparr>)"
  using gateway_inv_revoke [OF assms] by (simp add: gateway_revoke_def)

lemma inv_failed:
  assumes inv: "gateway_inv policy limits h g" and act: "gw_active g = Some a"
    and f: "permits_fallback_from f (ga_transport a)"
    and g': "g' = g\<lparr>gw_active := None\<rparr> \<and> gw_next_candidate g < length (plan_list g) \<or>
             g' = g\<lparr>gw_active := None, gw_terminal := True\<rparr>"
  shows "gateway_inv policy limits (h @ [(ga_transport a, f)]) g'"
proof -
  note active = inv_active [OF inv act]
  have "take (Suc (length h)) (plan_list g) = take (length h) (plan_list g) @ [ga_transport a]"
    using active by (simp add: take_Suc_conv_app_nth)
  then show ?thesis using inv f g' active by (auto simp: gateway_inv_def plan_list_def)
qed

definition history_after ::
  "(resolution_transport \<times> transport_failure) list \<Rightarrow> gateway_attempt \<Rightarrow> transport_failure option \<Rightarrow>
   (gateway_error, gateway_step) result \<Rightarrow> (resolution_transport \<times> transport_failure) list" where
  "history_after h a f r = (case (r, f) of (Inr _, Some f) \<Rightarrow> h @ [(ga_transport a, f)] | _ \<Rightarrow> h)"

lemma inv_completed:
  assumes inv: "gateway_inv policy limits h g" and c: "gateway_complete g current a out now = (g', r)"
  shows "gateway_inv policy limits (history_after h a (effective_failure a out now) r) g'"
  using c
proof (cases rule: complete_cases)
  case (failure f)
  from failure(4) show ?thesis
  proof (cases rule: retry_cases)
    case terminal
    then show ?thesis using inv_ended [OF inv] by (simp add: history_after_def)
  next
    case retry
    then show ?thesis using inv_failed [OF inv failure(2) retry(1)] failure(3)
      by (simp add: history_after_def plan_list_def)
  next
    case unavailable
    then show ?thesis using inv_failed [OF inv failure(2) unavailable(1)] failure(3)
      by (simp add: history_after_def)
  qed
next
  case (response bs ids)
  then have "effective_failure a out now = None" by (simp add: effective_failure_def)
  then show ?thesis using inv_ended [OF inv] response(5) by (simp add: history_after_def split: sum.splits)
qed (simp_all add: history_after_def inv gateway_inv_revoke)

lemma gateway_trace_inv: "gateway_trace policy limits h g \<Longrightarrow> gateway_inv policy limits h g"
proof (induction rule: gateway_trace.induct)
  case (failed h g current a out now g' st f)
  then show ?case using inv_completed [OF failed(4,2)] by (simp add: history_after_def)
next
  case (selected h g current a out now g' st)
  then show ?case using inv_completed [OF selected(4,2)] by (simp add: history_after_def)
next
  case (refused h g current a out now g' e)
  then show ?case using inv_completed [OF refused(3,2)] by (simp add: history_after_def)
qed (simp_all add: gateway_inv_new gateway_inv_next gateway_inv_revoke)

section \<open>Selection\<close>

fun identities_match :: "resolution_transport \<Rightarrow> gateway_identities \<Rightarrow> bool" where
  "identities_match HandshakeP2pOdoh ids \<longleftrightarrow>
     gi_peer ids = None \<and> (\<exists>p t. gi_proxy ids = Some p \<and> gi_target ids = Some t \<and> p \<noteq> t)"
| "identities_match HandshakeP2pDnsRelay ids \<longleftrightarrow> gi_peer ids \<noteq> None \<and> gi_proxy ids = None \<and> gi_target ids = None"
| "identities_match TransportUnavailable ids \<longleftrightarrow> False"
| "identities_match ValidatingIcannDoh ids \<longleftrightarrow> False"
| "identities_match LocalHnsProof ids \<longleftrightarrow> False"
| "identities_match _ ids \<longleftrightarrow> gi_peer ids = None \<and> gi_proxy ids = None \<and> gi_target ids = None"

lemma validate_response_Inr:
  "validate_response g bs ids t = Inr u \<longleftrightarrow>
     bs \<noteq> [] \<and> length bs \<le> gl_maximum_response_bytes (gw_limits g) \<and> identities_match t ids \<and>
     (\<forall>i \<in> {gi_peer ids, gi_proxy ids, gi_target ids}. \<not> identity_bad (gw_limits g) i)"
  by (cases t; cases ids) (auto simp: validate_response_def result_inv not_less default_identities_def)

text \<open>C15: Whatever operations came before, a response is selected only under the very policy the gateway was
  created for, within the deadline of the active attempt and within the size bounds, with exactly the
  intermediary identities its transport calls for.  Its transport is the next one of the policy's plan
  after the transports that were tried, in plan order, and each of those failed in a way that permits the
  next one: authentication and protocol failures never lead to another transport.  The downgrade flag is
  set exactly when a relay answered after an oblivious attempt, and nothing follows a selection.\<close>

theorem gateway_selection_safe:
  assumes trace: "gateway_trace policy limits h g"
    and c: "gateway_complete g current a out now = (g', Inr (Selected sel))"
    and plan: "plan = tp_transports (for_policy (ps_config policy))"
  shows "current = policy \<and> gs_policy_generation sel = ps_generation policy \<and> now \<le> ga_deadline a \<and>
    length h < length plan \<and> gs_transport sel = plan ! length h \<and> map fst h = take (length h) plan \<and>
    list_all (\<lambda>(t, f). f = Unreachable \<or> f = TransportTimeout \<or> f = TransportUnsupported \<or>
      f = TransportTruncated \<and> t = DirectAuthoritativeUdp) h \<and>
    gs_response sel \<noteq> [] \<and> length (gs_response sel) \<le> gl_maximum_response_bytes limits \<and>
    identities_match (gs_transport sel) (gs_identities sel) \<and>
    (gs_direct_relay_fallback sel \<longleftrightarrow> gs_transport sel = HandshakeP2pDnsRelay \<and> HandshakeP2pOdoh \<in> fst ` set h) \<and>
    gw_terminal g'"
proof -
  note inv = gateway_trace_inv [OF trace]
  have pl: "plan_list g = plan" and pol: "gw_policy g = policy" "gw_limits g = limits"
    using inv by (simp_all add: gateway_inv_def plan_list_def plan)
  from c obtain bs ids where r: "current = gw_policy g" "gw_active g = Some a" "now \<le> ga_deadline a"
      "g' = g\<lparr>gw_active := None, gw_terminal := True\<rparr>"
      "validate_response (g\<lparr>gw_active := None\<rparr>) bs ids (ga_transport a) = Inr ()"
    and sel: "sel = \<lparr>gs_policy_generation = ps_generation (gw_policy g), gs_transport = ga_transport a,
        gs_response = bs, gs_identities = ids,
        gs_direct_relay_fallback = (ga_transport a = HandshakeP2pDnsRelay \<and> gw_odoh_attempted g)\<rparr>"
    by (cases rule: complete_cases) (auto simp: result_inv eq_commute [of "Inr _" "rbind _ _"] elim: retry_cases)
  note active = inv_active [OF inv r(2), unfolded pl]
  have hist: "map fst h = take (length h) plan" "list_all (\<lambda>(t, f). f = Unreachable \<or> f = TransportTimeout \<or>
      f = TransportUnsupported \<or> f = TransportTruncated \<and> t = DirectAuthoritativeUdp) h"
    and odoh: "gw_odoh_attempted g \<longleftrightarrow> HandshakeP2pOdoh \<in> set (take (gw_next_candidate g) plan)"
    using inv by (auto simp: gateway_inv_def pl permits_fallback_from_def list_all_iff)
  have "take (length h + 1) plan = map fst h @ [ga_transport a]"
    using active by (simp add: hist take_Suc_conv_app_nth)
  then have "ga_transport a = HandshakeP2pDnsRelay \<Longrightarrow> gw_odoh_attempted g \<longleftrightarrow> HandshakeP2pOdoh \<in> fst ` set h"
    using odoh active(2) by simp
  then show ?thesis
    using r active hist pol by (auto simp: sel validate_response_Inr)
qed

section \<open>Progress\<close>

lemma plan_length: "length (tp_transports (for_policy c)) \<le> 6"
  by (simp add: for_policy_def Let_def)

text \<open>A gateway makes progress and stops.  The next attempt is refused only under another policy, after a
  terminal result, while an attempt is active, or when its deadline would overflow; in particular the plan
  is never exhausted without a terminal result and the attempt counter never overflows.  Otherwise it is
  the attempt for the next transport of the plan.  At most as many attempts are made as the plan has
  transports, at most six, and after a terminal result every operation is refused.\<close>

lemma gateway_progress:
  assumes trace: "gateway_trace policy limits h g"
    and plan: "plan = tp_transports (for_policy (ps_config policy))"
  shows "(case snd (next_attempt g current now) of
       Inl e \<Rightarrow> e = StalePolicy \<and> current \<noteq> policy \<or> e = GatewayTerminal \<and> gw_terminal g \<or>
         e = AttemptAlreadyActive \<and> gw_active g \<noteq> None \<or>
         e = TimeOverflow \<and> unat now + unat (gl_attempt_timeout_seconds limits) > u64_max
     | Inr a \<Rightarrow> current = policy \<and> length h < length plan \<and> ga_transport a = plan ! length h \<and>
         unat (ga_deadline a) = unat now + unat (gl_attempt_timeout_seconds limits) \<and>
         gw_active (fst (next_attempt g current now)) = Some a) \<and>
    unat (gw_sequence g) \<le> length plan \<and> length plan \<le> 6 \<and>
    (gw_terminal g \<longrightarrow> (\<exists>e. snd (next_attempt g current now) = Inl e) \<and>
       (\<exists>e. snd (gateway_complete g current a out now) = Inl e) \<and>
       gw_terminal (fst (next_attempt g current now)) \<and> gw_terminal (fst (gateway_complete g current a out now)))"
proof -
  note inv = gateway_trace_inv [OF trace]
  have pl: "plan_list g = plan" and pol: "gw_policy g = policy" "gw_limits g = limits"
    and seq: "unat (gw_sequence g) = gw_next_candidate g" "gw_next_candidate g \<le> length plan"
    using inv by (auto simp: gateway_inv_def plan_list_def plan)
  have "length plan \<le> 6" using plan_length by (simp add: plan)
  have terminal: "gw_terminal g \<Longrightarrow> gw_active g = None"
    using inv by (auto simp: gateway_inv_def split: option.splits)
  have pos: "\<not> gw_terminal g \<and> gw_active g = None \<Longrightarrow> gw_next_candidate g = length h \<and> length h < length plan"
    using inv by (auto simp: gateway_inv_def pl)
  have step: "u64_checked_add (gw_sequence g) 1 \<noteq> None"
    using seq \<open>length plan \<le> 6\<close> by (simp add: u64_checked_add_def u64_max_def)
  have late: "u64_checked_add now (gl_attempt_timeout_seconds limits) = None \<longleftrightarrow>
      unat now + unat (gl_attempt_timeout_seconds limits) > u64_max"
    by (auto simp: u64_checked_add_def)
  show ?thesis
  proof (intro conjI impI)
    show "case snd (next_attempt g current now) of
       Inl e \<Rightarrow> e = StalePolicy \<and> current \<noteq> policy \<or> e = GatewayTerminal \<and> gw_terminal g \<or>
         e = AttemptAlreadyActive \<and> gw_active g \<noteq> None \<or>
         e = TimeOverflow \<and> unat now + unat (gl_attempt_timeout_seconds limits) > u64_max
     | Inr a \<Rightarrow> current = policy \<and> length h < length plan \<and> ga_transport a = plan ! length h \<and>
         unat (ga_deadline a) = unat now + unat (gl_attempt_timeout_seconds limits) \<and>
         gw_active (fst (next_attempt g current now)) = Some a"
      using pos step late u64_checked_add_SomeD
      by (auto simp: next_attempt_def ensure_current_policy_cases pol attempt_for_def pl [unfolded plan_list_def]
          split: sum.splits if_splits option.splits)
  qed (use seq terminal \<open>length plan \<le> 6\<close> in
      \<open>auto simp: next_attempt_def gateway_complete_def ensure_current_policy_cases gateway_revoke_def attempt_for_def\<close>)
qed

section \<open>A concrete resolution\<close>

definition sample_gateway :: gateway where
  "sample_gateway = \<lparr>gw_instance_id = 1, gw_limits = default_gateway_limits, gw_policy = default_snapshot,
     gw_plan = for_policy (ps_config default_snapshot), gw_next_candidate = 0, gw_sequence = 0, gw_active = None,
     gw_terminal = False, gw_odoh_attempted = False\<rparr>"

definition sample_attempt :: gateway_attempt where
  "sample_attempt = \<lparr>ga_instance_id = 1, ga_policy_generation = ps_generation default_snapshot, ga_sequence = 1,
     ga_candidate_index = 0, ga_transport = DirectAuthoritativeUdp, ga_deadline = 110\<rparr>"

definition attempted_gateway :: gateway where
  "attempted_gateway = sample_gateway\<lparr>gw_next_candidate := 1, gw_sequence := 1, gw_active := Some sample_attempt\<rparr>"

lemma sample_trace: "gateway_trace default_snapshot default_gateway_limits [] sample_gateway"
  by (rule gateway_trace.start [of 1])
    (simp add: gateway_new_def gateway_limits_validate_def default_gateway_limits_def sample_gateway_def
      DEFAULT_ATTEMPT_TIMEOUT_SECONDS_def DEFAULT_MAXIMUM_RESPONSE_BYTES_def DEFAULT_MAXIMUM_IDENTITY_BYTES_def
      u64_checked_add_def u64_max_def)

lemma sample_next: "next_attempt sample_gateway default_snapshot 100 = (attempted_gateway, Inr sample_attempt)"
  by (simp add: next_attempt_def ensure_current_policy_def attempt_for_def sample_gateway_def attempted_gateway_def
      sample_attempt_def for_policy_def Let_def u64_checked_add_def u64_max_def default_gateway_limits_def
      DEFAULT_ATTEMPT_TIMEOUT_SECONDS_def slice_get_def)

lemma attempted_trace: "gateway_trace default_snapshot default_gateway_limits [] attempted_gateway"
  using gateway_trace.attempt [OF sample_trace, of default_snapshot 100] by (simp add: sample_next)

definition sample_selection :: gateway_selection where
  "sample_selection = \<lparr>gs_policy_generation = ps_generation default_snapshot, gs_transport = DirectAuthoritativeUdp,
     gs_response = [1], gs_identities = default_identities, gs_direct_relay_fallback = False\<rparr>"

lemma sample_complete:
  "gateway_complete attempted_gateway default_snapshot sample_attempt (GatewayResponse [1] default_identities) 105 =
     (attempted_gateway\<lparr>gw_active := None, gw_terminal := True\<rparr>, Inr (Selected sample_selection))"
  by (simp add: gateway_complete_def ensure_current_policy_def complete_active_def attempted_gateway_def
      sample_gateway_def sample_attempt_def validate_response_def sample_selection_def default_gateway_limits_def
      DEFAULT_MAXIMUM_RESPONSE_BYTES_def identity_bad_def default_identities_def)

theorem gateway_selection_safe_witness:
  "gs_transport sample_selection = tp_transports (for_policy (ps_config default_snapshot)) ! 0 \<and>
   identities_match (gs_transport sample_selection) (gs_identities sample_selection)"
  using gateway_selection_safe [OF attempted_trace sample_complete refl] by auto

lemma gateway_progress_witness:
  "snd (next_attempt sample_gateway default_snapshot 100) = Inr sample_attempt \<and>
   ga_transport sample_attempt = tp_transports (for_policy (ps_config default_snapshot)) ! 0 \<and>
   unat (gw_sequence sample_gateway) \<le> length (tp_transports (for_policy (ps_config default_snapshot)))"
  using gateway_progress [OF sample_trace refl, of default_snapshot 100] by (simp add: sample_next)

end
