(* ===== verification/Icann_Dane.thy ===== *)
theory Icann_Dane
  imports Namespace
begin

text \<open>
  Automatic DANE discovery for ICANN names (src/crates/hns-icann-dane/src/lib.rs): the TLSA owner name of an
  origin, and the trust decision from the evidence of a validating resolver.  Text is its ASCII bytes; text
  outside ASCII is refused by the host check whatever the earlier steps make of it.
\<close>

section \<open>TLSA owners\<close>

definition MAX_DNS_NAME_BYTES :: usize where "MAX_DNS_NAME_BYTES = 253"

definition MAX_DNS_LABEL_BYTES :: usize where "MAX_DNS_LABEL_BYTES = 63"

datatype tlsa_transport = TlsaTcp | TlsaUdp | TlsaSctp

fun transport_label :: "tlsa_transport \<Rightarrow> bytes" where
  "transport_label TlsaTcp = ascii ''_tcp''"
| "transport_label TlsaUdp = ascii ''_udp''"
| "transport_label TlsaSctp = ascii ''_sctp''"

datatype discovery_error =
  DiscoveryInvalidHost | DiscoveryInvalidPort | NameTooLong | UnauthenticatedResolverEvidence | ValidationBypassed
| BogusDnssecEvidence | IndeterminateDnssecEvidence | MissingAuthenticatedDenial | ConflictingEvidence

record tlsa_owner =
  to_host :: bytes
  to_resolver_name :: bytes
  to_fqdn :: bytes
  to_port :: u16
  to_transport :: tlsa_transport

definition dns_label_ok :: "bytes \<Rightarrow> bool" where
  "dns_label_ok label \<longleftrightarrow>
     \<not> (label = [] \<or> length label > MAX_DNS_LABEL_BYTES \<or> hd label = 45 \<or> last label = 45 \<or>
        \<not> list_all (\<lambda>b. ascii_digit b \<or> 65 \<le> b \<and> b \<le> 90 \<or> 97 \<le> b \<and> b \<le> 122 \<or> b = 45) label)"

definition validate_host :: "bytes \<Rightarrow> (discovery_error, unit) result" where
  "validate_host host =
     (if host = [] \<or> \<not> is_ascii host \<or> length host > MAX_DNS_NAME_BYTES \<or> ipv4_text host
      then Inl DiscoveryInvalidHost
      else if list_all dns_label_ok (split_on 46 host) then Inr () else Inl DiscoveryInvalidHost)"

text \<open>\<open>Display\<close> of an unsigned integer.\<close>

fun decimal_digits :: "nat \<Rightarrow> bytes" where
  "decimal_digits n = (if n < 10 then [of_nat (48 + n)] else decimal_digits (n div 10) @ [of_nat (48 + n mod 10)])"

declare decimal_digits.simps [simp del]

definition tlsa_owner_derive :: "bytes \<Rightarrow> u16 \<Rightarrow> tlsa_transport \<Rightarrow> (discovery_error, tlsa_owner) result" where
  "tlsa_owner_derive host port transport =
     (if port = 0 then Inl DiscoveryInvalidPort
      else if str_trim host \<noteq> host then Inl DiscoveryInvalidHost
      else
      let without_root = (case strip_suffix_dot host of Some h \<Rightarrow> h | None \<Rightarrow> host) in
      if without_root \<noteq> [] \<and> last without_root = 46 then Inl DiscoveryInvalidHost
      else
      let normalized = map to_ascii_lowercase without_root in
      rbind (validate_host normalized) (\<lambda>_.
      let resolver_name = 95 # decimal_digits (unat port) @ 46 # transport_label transport @ 46 # normalized in
      if length resolver_name > MAX_DNS_NAME_BYTES then Inl NameTooLong
      else Inr \<lparr>to_host = normalized, to_resolver_name = resolver_name, to_fqdn = resolver_name @ [46],
                to_port = port, to_transport = transport\<rparr>))"

section \<open>Trust decisions\<close>

datatype icann_dnssec_status = StatusSecure | StatusInsecureDelegation | StatusBogus | StatusIndeterminate

datatype resolver_authentication = ResolverAuthenticated | ResolverUnauthenticated

datatype dnssec_query_mode = QueryValidate | QueryCheckingDisabled | QueryRecordsNotRequested

datatype tlsa_denial = DenialNone | DenialAuthenticated

record validating_doh_evidence =
  ve_resolver_authentication :: resolver_authentication
  ve_query_mode :: dnssec_query_mode
  ve_dnssec :: icann_dnssec_status
  ve_tlsa_record_count :: usize
  ve_denial :: tlsa_denial

datatype browser_tls_decision = EnforceDane usize | UseWebPkiAuthenticatedAbsence | UseWebPkiInsecureDelegation

definition enforces_dane :: "browser_tls_decision \<Rightarrow> bool" where
  "enforces_dane d = (case d of EnforceDane _ \<Rightarrow> True | _ \<Rightarrow> False)"

definition permits_webpki :: "browser_tls_decision \<Rightarrow> bool" where
  "permits_webpki d \<longleftrightarrow> d \<in> {UseWebPkiAuthenticatedAbsence, UseWebPkiInsecureDelegation}"

definition decide_browser_tls :: "validating_doh_evidence \<Rightarrow> (discovery_error, browser_tls_decision) result" where
  "decide_browser_tls e =
     (if ve_resolver_authentication e \<noteq> ResolverAuthenticated then Inl UnauthenticatedResolverEvidence
      else if ve_query_mode e \<noteq> QueryValidate then Inl ValidationBypassed
      else case ve_dnssec e of
        StatusBogus \<Rightarrow> Inl BogusDnssecEvidence
      | StatusIndeterminate \<Rightarrow> Inl IndeterminateDnssecEvidence
      | StatusInsecureDelegation \<Rightarrow>
          if ve_denial e = DenialAuthenticated then Inl ConflictingEvidence else Inr UseWebPkiInsecureDelegation
      | StatusSecure \<Rightarrow>
          (case (if ve_tlsa_record_count e = 0 then None else Some (ve_tlsa_record_count e), ve_denial e) of
             (Some record_count, DenialNone) \<Rightarrow> Inr (EnforceDane record_count)
           | (None, DenialAuthenticated) \<Rightarrow> Inr UseWebPkiAuthenticatedAbsence
           | (Some _, DenialAuthenticated) \<Rightarrow> Inl ConflictingEvidence
           | (None, DenialNone) \<Rightarrow> Inl MissingAuthenticatedDenial))"

section \<open>The owner of an origin\<close>

lemma dns_label_host_label: "dns_label_ok = host_label_ok"
  by (intro ext) (simp add: dns_label_ok_def host_label_ok_def MAX_DNS_LABEL_BYTES_def)

lemma lowercase_range:
  "to_ascii_lowercase b = 46 \<longleftrightarrow> b = 46" "ascii_digit (to_ascii_lowercase b) \<longleftrightarrow> ascii_digit b"
  "ascii_digit b \<Longrightarrow> to_ascii_lowercase b = b" "to_ascii_lowercase b < 128 \<longleftrightarrow> b < 128"
proof -
  have up: "97 \<le> b + 32 \<and> b + 32 \<le> 122" if "65 \<le> b \<and> b \<le> 90"
  proof -
    from that have "65 \<le> unat b" "unat b \<le> 90" by (simp_all add: word_le_nat_alt)
    then have "unat (b + 32) = unat b + 32" by (simp add: unat_word_ariths)
    with \<open>65 \<le> unat b\<close> \<open>unat b \<le> 90\<close> show ?thesis by (simp add: word_le_nat_alt)
  qed
  show "to_ascii_lowercase b = 46 \<longleftrightarrow> b = 46" using up by (auto simp: to_ascii_lowercase_def)
  show "ascii_digit (to_ascii_lowercase b) \<longleftrightarrow> ascii_digit b"
    using up by (auto simp: to_ascii_lowercase_def ascii_digit_def word_le_nat_alt)
  show "ascii_digit b \<Longrightarrow> to_ascii_lowercase b = b"
    by (auto simp: to_ascii_lowercase_def ascii_digit_def word_le_nat_alt)
  show "to_ascii_lowercase b < 128 \<longleftrightarrow> b < 128"
    using up by (auto simp: to_ascii_lowercase_def word_le_nat_alt word_less_nat_alt)
qed

lemma split_lowercase: "split_on 46 (map to_ascii_lowercase s) = map (map to_ascii_lowercase) (split_on 46 s)"
  by (induction s) (auto simp: lowercase_range split: list.splits)

lemma octet_lowercase: "ipv4_octet_text (map to_ascii_lowercase l) = ipv4_octet_text l"
proof (cases "list_all ascii_digit l")
  case True
  then have "map to_ascii_lowercase l = l" by (intro map_idI) (auto simp: list_all_iff lowercase_range)
  then show ?thesis by simp
qed (auto simp: ipv4_octet_text_def list_all_iff lowercase_range)

lemma ipv4_lowercase [simp]: "ipv4_text (map to_ascii_lowercase s) = ipv4_text s"
  by (simp add: ipv4_text_def split_lowercase list_all_iff octet_lowercase)

lemma is_ascii_lowercase [simp]: "is_ascii (map to_ascii_lowercase s) = is_ascii s"
  by (simp add: is_ascii_def list_all_iff lowercase_range)

lemma is_ascii_strip: "is_ascii (case strip_suffix_dot s of Some h \<Rightarrow> h | None \<Rightarrow> s) = is_ascii s"
  by (cases s rule: rev_cases) (auto simp: strip_suffix_dot_def is_ascii_def)

definition owner_name :: "canonical_host \<Rightarrow> u16 \<Rightarrow> tlsa_transport \<Rightarrow> bytes" where
  "owner_name h port transport = 95 # decimal_digits (unat port) @ 46 # transport_label transport @ 46 # h"

lemma tlsa_owner_derive_Inr:
  "tlsa_owner_derive host port transport = Inr out \<longleftrightarrow>
     port \<noteq> 0 \<and> (\<exists>h. canonical_host_parse host = Inr h \<and> length (owner_name h port transport) \<le> 253 \<and>
       out = \<lparr>to_host = h, to_resolver_name = owner_name h port transport,
              to_fqdn = owner_name h port transport @ [46], to_port = port, to_transport = transport\<rparr>)"
proof -
  define w where "w = (case strip_suffix_dot host of Some h \<Rightarrow> h | None \<Rightarrow> host)"
  have nil: "host = [] \<Longrightarrow> w = []" by (simp add: w_def strip_suffix_dot_def)
  have asc: "is_ascii host = is_ascii w" using is_ascii_strip [of host] by (simp add: w_def)
  show ?thesis
    unfolding tlsa_owner_derive_def canonical_host_parse_def validate_host_def owner_name_def Let_def
      w_def [symmetric] dns_label_host_label
    using nil asc by (auto simp: MAX_DNS_NAME_BYTES_def MAX_HOST_BYTES_def not_less split: if_splits)
qed

lemma decimal_digits_digits: "list_all ascii_digit (decimal_digits n)"
proof (induction n rule: decimal_digits.induct)
  case (1 n)
  have "ascii_digit (of_nat (48 + k))" if "k < 10" for k
  proof -
    have "unat (of_nat (48 + k) :: u8) = 48 + k" unfolding unat_of_nat using that by simp
    then show ?thesis using that by (simp add: ascii_digit_def word_le_nat_alt)
  qed
  then show ?case using 1 by (cases "n < 10") (simp_all add: decimal_digits.simps [of n])
qed

lemma length_decimal_digits: "n < 10 ^ Suc k \<Longrightarrow> length (decimal_digits n) \<le> Suc k"
proof (induction k arbitrary: n)
  case 0
  then show ?case by (simp add: decimal_digits.simps [of n])
next
  case (Suc k)
  then have "n div 10 < 10 ^ Suc k" by (simp add: div_less_iff_less_mult mult.commute)
  then show ?case using Suc.IH [of "n div 10"] by (simp add: decimal_digits.simps [of n])
qed

lemma digits_label: "46 \<notin> set (decimal_digits n)" "map to_ascii_lowercase (decimal_digits n) = decimal_digits n"
  using decimal_digits_digits [of n]
  by (auto simp: list_all_iff ascii_digit_def word_le_nat_alt intro!: map_idI dest: lowercase_range(3) [rotated])
    (simp add: lowercase_range ascii_digit_def word_le_nat_alt)

lemma labels_len_split: "labels_len (split_on d s) = Suc (length s)"
  by (induction s) (auto split: list.splits)

lemma concat_split: "set (concat (split_on d s)) \<subseteq> set s"
proof (induction s)
  case (Cons b s)
  then show ?case by (cases "split_on d s") auto
qed simp

lemma split_subset: "l \<in> set (split_on d s) \<Longrightarrow> set l \<subseteq> set s"
  using concat_split [of d s] by auto

lemma host_labels_wf:
  assumes "canonical_host_parse host = Inr h"
  shows "list_all wf_label (split_on 46 h)"
proof -
  obtain w where h: "h = map to_ascii_lowercase w" and ok: "list_all host_label_ok (split_on 46 h)"
    using assms by (auto simp: canonical_host_parse_def Let_def split: if_splits)
  have "canonical_label l = l" if "l \<in> set (split_on 46 h)" for l
    unfolding canonical_label_def using split_subset [OF that] h by (intro map_idI) auto
  then show ?thesis using ok by (auto simp: list_all_iff wf_label_def host_label_ok_def MAX_LABEL_LEN_def)
qed

definition service_labels :: "u16 \<Rightarrow> tlsa_transport \<Rightarrow> bytes list" where
  "service_labels port transport = [95 # decimal_digits (unat port), transport_label transport]"

lemma transport_label_plain:
  "46 \<notin> set (transport_label t)" "wf_label (transport_label t)"
  by (cases t; simp add: ascii_def)
    (cases t; simp add: ascii_def wf_label_def canonical_label_def to_ascii_lowercase_def MAX_LABEL_LEN_def)

lemma owner_labels: "split_on 46 (owner_name h port t) = service_labels port t @ split_on 46 h"
  using split_on_append [of 46 "95 # decimal_digits (unat port)" "transport_label t @ 46 # h"]
    split_on_append [OF transport_label_plain(1), of t h] digits_label(1)
  by (simp add: owner_name_def service_labels_def)

lemma service_labels_wf: "list_all wf_label (service_labels port t)"
proof -
  have "unat port < 10 ^ Suc 4" using unsigned_less [of port, where ?'a = nat] by simp
  from length_decimal_digits [OF this] have "length (decimal_digits (unat port)) \<le> 5" by simp
  then have "wf_label (95 # decimal_digits (unat port))"
    by (simp add: wf_label_def canonical_label_def digits_label MAX_LABEL_LEN_def) (simp add: to_ascii_lowercase_def)
  then show ?thesis by (simp add: service_labels_def transport_label_plain)
qed

text \<open>A TLSA owner is derived exactly for a non-zero port and the hosts that the namespace resolver
  accepts as canonical, with the same normal form, as long as the owner fits 253 bytes.  Read as a DNS name
  the derived owner is well formed, and its labels are the port label, the transport label and the labels
  of the host, in this order; it is never truncated, escaped or given another meaning on the wire.\<close>

lemma tlsa_owner_correct:
  "((\<exists>out. tlsa_owner_derive host port transport = Inr out) \<longleftrightarrow>
     port \<noteq> 0 \<and> (\<exists>h. canonical_host_parse host = Inr h \<and> length (owner_name h port transport) \<le> 253)) \<and>
   (tlsa_owner_derive host port transport = Inr out \<longrightarrow>
     canonical_host_parse host = Inr (to_host out) \<and> to_fqdn out = to_resolver_name out @ [46] \<and>
     from_ascii (to_fqdn out) = Inr (Name (service_labels port transport @ split_on 46 (to_host out))))"
proof (intro conjI impI)
  show "(\<exists>out. tlsa_owner_derive host port transport = Inr out) \<longleftrightarrow>
     port \<noteq> 0 \<and> (\<exists>h. canonical_host_parse host = Inr h \<and> length (owner_name h port transport) \<le> 253)"
    by (auto simp: tlsa_owner_derive_Inr)
  assume "tlsa_owner_derive host port transport = Inr out"
  then obtain h where h: "canonical_host_parse host = Inr h" and len: "length (owner_name h port transport) \<le> 253"
    and out: "to_host out = h" "to_resolver_name out = owner_name h port transport"
      "to_fqdn out = owner_name h port transport @ [46]"
    by (auto simp: tlsa_owner_derive_Inr)
  let ?ls = "service_labels port transport @ split_on 46 h"
  have wf: "list_all wf_label ?ls" using host_labels_wf [OF h] service_labels_wf by simp
  moreover have "labels_len ?ls \<le> 254"
    using len labels_len_split [of 46 "owner_name h port transport"] by (simp only: owner_labels)
  ultimately have "wf_name (Name ?ls)" by (simp add: wf_name_def name_wire_len_eq MAX_WIRE_NAME_LEN_def)
  moreover have "map canonical_label ?ls = ?ls" using wf by (intro map_idI) (auto simp: list_all_iff wf_label_def)
  ultimately have "from_labels (split_on 46 (owner_name h port transport)) = Inr (Name ?ls)"
    by (simp add: from_labels_Inr owner_labels del: map_append)
  then show "from_ascii (to_fqdn out) = Inr (Name (service_labels port transport @ split_on 46 (to_host out)))"
    by (simp add: out from_ascii_def strip_dot_def, simp add: owner_name_def)
  show "canonical_host_parse host = Inr (to_host out)" "to_fqdn out = to_resolver_name out @ [46]"
    using h by (simp_all add: out)
qed

text \<open>The trust decision fails closed.  DANE is enforced exactly for an authenticated, validating lookup
  with a secure, non-empty TLSA set and no denial; the Web PKI is permitted exactly for an authenticated,
  validating lookup that either securely denies TLSA or proves the delegation insecure without a denial.
  In particular no evidence yields both, bogus or indeterminate evidence yields neither, and an empty
  secure answer without a proof of absence is an error.\<close>

lemma browser_tls_fails_closed:
  "(decide_browser_tls e = Inr (EnforceDane n) \<longleftrightarrow>
      ve_resolver_authentication e = ResolverAuthenticated \<and> ve_query_mode e = QueryValidate \<and>
      ve_dnssec e = StatusSecure \<and> ve_denial e = DenialNone \<and> n = ve_tlsa_record_count e \<and> n \<noteq> 0) \<and>
   ((\<exists>d. decide_browser_tls e = Inr d \<and> permits_webpki d) \<longleftrightarrow>
      ve_resolver_authentication e = ResolverAuthenticated \<and> ve_query_mode e = QueryValidate \<and>
      (ve_dnssec e = StatusSecure \<and> ve_denial e = DenialAuthenticated \<and> ve_tlsa_record_count e = 0 \<or>
       ve_dnssec e = StatusInsecureDelegation \<and> ve_denial e = DenialNone)) \<and>
   ((\<exists>d. decide_browser_tls e = Inr d \<and> permits_webpki d \<and> enforces_dane d) \<longleftrightarrow> False)"
proof (intro conjI)
  have deny: "ve_denial e = DenialNone \<or> ve_denial e = DenialAuthenticated" by (cases "ve_denial e") simp_all
  show "decide_browser_tls e = Inr (EnforceDane n) \<longleftrightarrow>
      ve_resolver_authentication e = ResolverAuthenticated \<and> ve_query_mode e = QueryValidate \<and>
      ve_dnssec e = StatusSecure \<and> ve_denial e = DenialNone \<and> n = ve_tlsa_record_count e \<and> n \<noteq> 0"
    by (cases "ve_dnssec e"; cases "ve_denial e") (auto simp: decide_browser_tls_def)
  show "(\<exists>d. decide_browser_tls e = Inr d \<and> permits_webpki d) \<longleftrightarrow>
      ve_resolver_authentication e = ResolverAuthenticated \<and> ve_query_mode e = QueryValidate \<and>
      (ve_dnssec e = StatusSecure \<and> ve_denial e = DenialAuthenticated \<and> ve_tlsa_record_count e = 0 \<or>
       ve_dnssec e = StatusInsecureDelegation \<and> ve_denial e = DenialNone)"
    by (cases "ve_dnssec e"; cases "ve_denial e") (auto simp: decide_browser_tls_def permits_webpki_def)
  show "(\<exists>d. decide_browser_tls e = Inr d \<and> permits_webpki d \<and> enforces_dane d) \<longleftrightarrow> False"
    by (auto simp: permits_webpki_def enforces_dane_def)
qed

definition sample_owner :: tlsa_owner where
  "sample_owner = \<lparr>to_host = ascii ''a.b'', to_resolver_name = ascii ''_443._tcp.a.b'',
     to_fqdn = ascii ''_443._tcp.a.b.'', to_port = 443, to_transport = TlsaTcp\<rparr>"

lemma sample_derived: "tlsa_owner_derive (ascii ''A.b.'') 443 TlsaTcp = Inr sample_owner"
  by code_simp

lemma tlsa_owner_correct_witness:
  "from_ascii (ascii ''_443._tcp.a.b.'') = Inr (Name (service_labels 443 TlsaTcp @ split_on 46 (ascii ''a.b'')))"
proof -
  have "from_ascii (to_fqdn sample_owner) = Inr (Name (service_labels 443 TlsaTcp @ split_on 46 (to_host sample_owner)))"
    using tlsa_owner_correct [of "ascii ''A.b.''" 443 TlsaTcp sample_owner] sample_derived by blast
  then show ?thesis by (simp add: sample_owner_def)
qed

end
