(* ===== verification/Dane.thy ===== *)
theory Dane
  imports Dns_Message
begin

unbundle bit_operations_syntax

text \<open>
  TLSA matching (src/crates/hns-dane/src/lib.rs): the strict DER reader, the extraction of the subject public
  key from a certificate, record checking and matching, and the verification of a leaf or of a chain.

  The SHA-2 digests and OpenSSL are not part of the repository.  The digests are arguments, and the record
  \<open>x509_lib\<close> names what is used of OpenSSL: parsing and re-encoding a certificate, and the verification of a
  path with the flags the code sets (partial chains, trusted first, strict, no partial wildcards).
\<close>

section \<open>Limits and records\<close>

definition DEFAULT_MAX_CERTIFICATE_LEN :: usize where "DEFAULT_MAX_CERTIFICATE_LEN = 256 * 1024"

definition DEFAULT_MAX_SPKI_LEN :: usize where "DEFAULT_MAX_SPKI_LEN = 64 * 1024"

definition MAX_TLSA_ASSOCIATION_LEN :: usize where "MAX_TLSA_ASSOCIATION_LEN = 65532"

record dane_limits =
  dl_max_certificate_len :: usize
  dl_max_spki_len :: usize
  dl_max_tlsa_records :: usize
  dl_max_association_len :: usize
  dl_max_chain_certificates :: usize

definition default_dane_limits :: dane_limits where
  "default_dane_limits =
     \<lparr>dl_max_certificate_len = DEFAULT_MAX_CERTIFICATE_LEN, dl_max_spki_len = DEFAULT_MAX_SPKI_LEN,
      dl_max_tlsa_records = 64, dl_max_association_len = MAX_TLSA_ASSOCIATION_LEN, dl_max_chain_certificates = 16\<rparr>"

datatype certificate_usage = DaneTa | DaneEe

fun usage_code :: "certificate_usage \<Rightarrow> u8" where
  "usage_code DaneTa = 2"
| "usage_code DaneEe = 3"

datatype dane_selector = FullCertificate | SubjectPublicKeyInfo

datatype dane_matching = MatchExact | MatchSha256 | MatchSha512

record dane_match =
  dm_record_index :: usize
  dm_usage :: certificate_usage
  dm_selector :: dane_selector
  dm_matching_type :: dane_matching

datatype dane_error =
  MissingTlsa | TooManyTlsaRecords | CertificateLength | MalformedCertificate | SpkiLength | UnsupportedUsage u8
| UnsupportedSelector u8 | UnsupportedMatchingType u8 | InvalidAssociationLength | Mismatch | ChainLength
| ChainValidation | InvalidServerName

section \<open>The DER reader\<close>

definition TAG_INTEGER :: u8 where "TAG_INTEGER = 0x02"
definition TAG_BIT_STRING :: u8 where "TAG_BIT_STRING = 0x03"
definition TAG_OBJECT_IDENTIFIER :: u8 where "TAG_OBJECT_IDENTIFIER = 0x06"
definition TAG_SEQUENCE :: u8 where "TAG_SEQUENCE = 0x30"
definition TAG_UTC_TIME :: u8 where "TAG_UTC_TIME = 0x17"
definition TAG_GENERALIZED_TIME :: u8 where "TAG_GENERALIZED_TIME = 0x18"
definition TAG_ISSUER_UNIQUE_ID :: u8 where "TAG_ISSUER_UNIQUE_ID = 0x81"
definition TAG_SUBJECT_UNIQUE_ID :: u8 where "TAG_SUBJECT_UNIQUE_ID = 0x82"
definition TAG_EXTENSIONS :: u8 where "TAG_EXTENSIONS = 0xa3"
definition TAG_EXPLICIT_VERSION :: u8 where "TAG_EXPLICIT_VERSION = 0xa0"

record tlv =
  tlv_tag :: u8
  tlv_full :: bytes
  tlv_value :: bytes

record der_reader =
  der_input :: bytes
  der_cursor :: usize

definition der_new :: "bytes \<Rightarrow> der_reader" where
  "der_new input = \<lparr>der_input = input, der_cursor = 0\<rparr>"

definition der_is_empty :: "der_reader \<Rightarrow> bool" where
  "der_is_empty r \<longleftrightarrow> der_cursor r = length (der_input r)"

definition peek_tag :: "der_reader \<Rightarrow> u8 option" where
  "peek_tag r = slice_get (der_input r) (der_cursor r)"

text \<open>\<open>checked_mul(256)\<close> and \<open>checked_add\<close> over the length octets.\<close>

fun length_octets :: "bytes \<Rightarrow> usize \<Rightarrow> (dane_error, usize) result" where
  "length_octets [] len = Inr len"
| "length_octets (b # bs) len =
     (if len * 256 > usize_max then Inl MalformedCertificate
      else rbind (ok_or MalformedCertificate (usize_add (len * 256) (unat b))) (\<lambda>len'. length_octets bs len'))"

text \<open>The length of a TLV whose length octets start at \<open>cursor\<close>, with the cursor behind them.\<close>

definition read_length :: "bytes \<Rightarrow> usize \<Rightarrow> (dane_error, usize \<times> usize) result" where
  "read_length input cursor0 =
     rbind (ok_or MalformedCertificate (slice_get input cursor0)) (\<lambda>first_length.
     rbind (ok_or MalformedCertificate (usize_add cursor0 1)) (\<lambda>cursor.
     if first_length AND 0x80 = 0 then Inr (unat first_length, cursor)
     else
     let octets = unat (first_length AND 0x7f) in
     if octets = 0 \<or> octets > 4 then Inl MalformedCertificate
     else
     rbind (ok_or MalformedCertificate (usize_add cursor octets)) (\<lambda>length_end.
     rbind (ok_or MalformedCertificate (slice_range input cursor length_end)) (\<lambda>encoded.
     if slice_get encoded 0 = Some 0 then Inl MalformedCertificate
     else
     rbind (length_octets encoded 0) (\<lambda>len.
     if len < 128 then Inl MalformedCertificate else Inr (len, length_end))))))"

definition read_tlv :: "der_reader \<Rightarrow> (dane_error, tlv \<times> der_reader) result" where
  "read_tlv r =
     (let input = der_input r; start = der_cursor r in
      rbind (ok_or MalformedCertificate (slice_get input start)) (\<lambda>tag.
      if tag AND 0x1f = 0x1f then Inl MalformedCertificate
      else
      rbind (ok_or MalformedCertificate (usize_add start 1)) (\<lambda>cursor.
      rbind (read_length input cursor) (\<lambda>(len, value_start).
      rbind (ok_or MalformedCertificate (usize_add value_start len)) (\<lambda>stop.
      rbind (ok_or MalformedCertificate (slice_range input value_start stop)) (\<lambda>val.
      rbind (ok_or MalformedCertificate (slice_range input start stop)) (\<lambda>full.
      Inr (\<lparr>tlv_tag = tag, tlv_full = full, tlv_value = val\<rparr>, r\<lparr>der_cursor := stop\<rparr>))))))))"

definition read_expected :: "der_reader \<Rightarrow> u8 \<Rightarrow> (dane_error, tlv \<times> der_reader) result" where
  "read_expected r expected =
     rbind (read_tlv r) (\<lambda>(t, r'). if tlv_tag t \<noteq> expected then Inl MalformedCertificate else Inr (t, r'))"

lemma read_tlv_advances:
  assumes "read_tlv r = Inr (t, r')"
  shows "der_cursor r < der_cursor r' \<and> der_cursor r' \<le> length (der_input r) \<and> der_input r' = der_input r"
  using assms
  by (auto simp: read_tlv_def read_length_def result_inv Let_def slice_range_eq_Some split: if_splits)

section \<open>Certificate fields\<close>

definition validate_version :: "bytes \<Rightarrow> (dane_error, unit) result" where
  "validate_version input =
     rbind (read_expected (der_new input) TAG_INTEGER) (\<lambda>(version, reader).
     if \<not> der_is_empty reader \<or> length (tlv_value version) \<noteq> 1 \<or>
        (case slice_get (tlv_value version) 0 of None \<Rightarrow> True | Some v \<Rightarrow> v > 2)
     then Inl MalformedCertificate else Inr ())"

definition validate_integer :: "bytes \<Rightarrow> (dane_error, unit) result" where
  "validate_integer input =
     (if input = [] then Inl MalformedCertificate
      else if length input > 1 then
        rbind (ok_or MalformedCertificate (slice_get input 0)) (\<lambda>first.
        rbind (ok_or MalformedCertificate (slice_get input 1)) (\<lambda>second.
        if (first = 0 \<and> second AND 0x80 = 0) \<or> (first = 0xff \<and> second AND 0x80 \<noteq> 0)
        then Inl MalformedCertificate else Inr ()))
      else Inr ())"

definition validate_algorithm_identifier :: "bytes \<Rightarrow> (dane_error, unit) result" where
  "validate_algorithm_identifier input =
     rbind (read_expected (der_new input) TAG_OBJECT_IDENTIFIER) (\<lambda>(oid, reader0).
     if tlv_value oid = [] then Inl MalformedCertificate
     else
     rbind (if \<not> der_is_empty reader0 then rbind (read_tlv reader0) (\<lambda>(_, r). Inr r) else Inr reader0) (\<lambda>reader.
     if \<not> der_is_empty reader then Inl MalformedCertificate else Inr ()))"

definition validate_bit_string :: "bytes \<Rightarrow> (dane_error, unit) result" where
  "validate_bit_string input =
     rbind (ok_or MalformedCertificate (slice_get input 0)) (\<lambda>unused_bits.
     if unused_bits > 7 \<or> length input < 2 then Inl MalformedCertificate
     else if unused_bits \<noteq> 0 \<and> last input AND (push_bit (unat unused_bits) 1 - 1) \<noteq> 0
     then Inl MalformedCertificate else Inr ())"

function validate_name_loop :: "der_reader \<Rightarrow> (dane_error, unit) result" where
  "validate_name_loop reader =
     (if \<not> der_is_empty reader
      then (case read_tlv reader of Inl e \<Rightarrow> Inl e | Inr (_, reader') \<Rightarrow> validate_name_loop reader')
      else Inr ())"
  by pat_completeness auto

termination
  by (relation "measure (\<lambda>r. length (der_input r) - der_cursor r)") (auto dest: read_tlv_advances)

declare validate_name_loop.simps [simp del]

definition validate_name :: "bytes \<Rightarrow> (dane_error, unit) result" where
  "validate_name input = validate_name_loop (der_new input)"

definition read_time :: "der_reader \<Rightarrow> (dane_error, der_reader) result" where
  "read_time reader =
     rbind (read_tlv reader) (\<lambda>(time, reader').
     if tlv_tag time \<notin> {TAG_UTC_TIME, TAG_GENERALIZED_TIME} \<or> tlv_value time = []
     then Inl MalformedCertificate else Inr reader')"

definition validate_validity :: "bytes \<Rightarrow> (dane_error, unit) result" where
  "validate_validity input =
     rbind (read_time (der_new input)) (\<lambda>reader1.
     rbind (read_time reader1) (\<lambda>reader.
     if \<not> der_is_empty reader then Inl MalformedCertificate else Inr ()))"

definition validate_spki :: "bytes \<Rightarrow> (dane_error, unit) result" where
  "validate_spki input =
     rbind (read_expected (der_new input) TAG_SEQUENCE) (\<lambda>(alg, reader1).
     rbind (validate_algorithm_identifier (tlv_value alg)) (\<lambda>_.
     rbind (read_expected reader1 TAG_BIT_STRING) (\<lambda>(key, reader).
     rbind (validate_bit_string (tlv_value key)) (\<lambda>_.
     if \<not> der_is_empty reader then Inl MalformedCertificate else Inr ()))))"

function validate_tbs_tail :: "der_reader \<Rightarrow> u8 \<Rightarrow> (dane_error, unit) result" where
  "validate_tbs_tail reader last_tag =
     (if \<not> der_is_empty reader
      then (case read_tlv reader of
              Inl e \<Rightarrow> Inl e
            | Inr (field, reader') \<Rightarrow>
                if tlv_tag field \<notin> {TAG_ISSUER_UNIQUE_ID, TAG_SUBJECT_UNIQUE_ID, TAG_EXTENSIONS} \<or>
                   tlv_tag field \<le> last_tag
                then Inl MalformedCertificate else validate_tbs_tail reader' (tlv_tag field))
      else Inr ())"
  by pat_completeness auto

termination
  by (relation "measure (\<lambda>(r, _). length (der_input r) - der_cursor r)") (auto dest: read_tlv_advances)

declare validate_tbs_tail.simps [simp del]

text \<open>\<open>constant_time_eq\<close> accumulates the differences of all bytes.\<close>

definition constant_time_eq :: "bytes \<Rightarrow> bytes \<Rightarrow> bool" where
  "constant_time_eq left right =
     (if length left \<noteq> length right then False
      else foldl (\<lambda>difference (l, r). difference OR (l XOR r)) 0 (zip left right) = 0)"

definition read_tbs_prefix :: "der_reader \<Rightarrow> bytes \<Rightarrow> (dane_error, der_reader) result" where
  "read_tbs_prefix fields0 outer_algorithm =
     rbind (if peek_tag fields0 = Some TAG_EXPLICIT_VERSION
            then rbind (read_expected fields0 TAG_EXPLICIT_VERSION) (\<lambda>(version, f).
                   rbind (validate_version (tlv_value version)) (\<lambda>_. Inr f))
            else Inr fields0) (\<lambda>fields1.
     rbind (read_expected fields1 TAG_INTEGER) (\<lambda>(serial, fields2).
     rbind (validate_integer (tlv_value serial)) (\<lambda>_.
     rbind (read_expected fields2 TAG_SEQUENCE) (\<lambda>(tbs_algorithm, fields3).
     rbind (validate_algorithm_identifier (tlv_value tbs_algorithm)) (\<lambda>_.
     if \<not> constant_time_eq (tlv_full tbs_algorithm) outer_algorithm then Inl MalformedCertificate
     else
     rbind (read_expected fields3 TAG_SEQUENCE) (\<lambda>(issuer, fields4).
     rbind (validate_name (tlv_value issuer)) (\<lambda>_.
     rbind (read_expected fields4 TAG_SEQUENCE) (\<lambda>(validity, fields5).
     rbind (validate_validity (tlv_value validity)) (\<lambda>_.
     rbind (read_expected fields5 TAG_SEQUENCE) (\<lambda>(subject, fields6).
     rbind (validate_name (tlv_value subject)) (\<lambda>_. Inr fields6)))))))))))"

definition extract_subject_public_key_info :: "bytes \<Rightarrow> (dane_error, bytes) result" where
  "extract_subject_public_key_info certificate_der =
     rbind (read_expected (der_new certificate_der) TAG_SEQUENCE) (\<lambda>(certificate, document).
     if \<not> der_is_empty document then Inl MalformedCertificate
     else
     rbind (read_expected (der_new (tlv_value certificate)) TAG_SEQUENCE) (\<lambda>(tbs, certificate_fields1).
     rbind (read_expected certificate_fields1 TAG_SEQUENCE) (\<lambda>(outer_algorithm, certificate_fields2).
     rbind (validate_algorithm_identifier (tlv_value outer_algorithm)) (\<lambda>_.
     rbind (read_expected certificate_fields2 TAG_BIT_STRING) (\<lambda>(signature, certificate_fields).
     rbind (validate_bit_string (tlv_value signature)) (\<lambda>_.
     if \<not> der_is_empty certificate_fields then Inl MalformedCertificate
     else
     rbind (read_tbs_prefix (der_new (tlv_value tbs)) (tlv_full outer_algorithm)) (\<lambda>fields1.
     rbind (read_expected fields1 TAG_SEQUENCE) (\<lambda>(spki, fields).
     rbind (validate_spki (tlv_value spki)) (\<lambda>_.
     rbind (validate_tbs_tail fields 0) (\<lambda>_. Inr (tlv_full spki)))))))))))"

section \<open>Matching\<close>

record parsed_record =
  pr_usage :: certificate_usage
  pr_selector :: dane_selector
  pr_matching_type :: dane_matching
  pr_association_data :: bytes

definition dane_parse_record :: "dane_limits \<Rightarrow> tlsa \<Rightarrow> (dane_error, parsed_record) result" where
  "dane_parse_record limits rec =
     rbind (if tlsa_usage rec = 2 then Inr DaneTa else if tlsa_usage rec = 3 then Inr DaneEe
            else Inl (UnsupportedUsage (tlsa_usage rec))) (\<lambda>usage.
     rbind (if tlsa_selector rec = 0 then Inr FullCertificate else if tlsa_selector rec = 1 then Inr SubjectPublicKeyInfo
            else Inl (UnsupportedSelector (tlsa_selector rec))) (\<lambda>selector.
     rbind (if tlsa_matching_type rec = 0 then Inr MatchExact else if tlsa_matching_type rec = 1 then Inr MatchSha256
            else if tlsa_matching_type rec = 2 then Inr MatchSha512
            else Inl (UnsupportedMatchingType (tlsa_matching_type rec))) (\<lambda>matching_type.
     let len = length (tlsa_association_data rec) in
     if len = 0 \<or> len > dl_max_association_len limits \<or>
        (matching_type = MatchSha256 \<and> len \<noteq> 32) \<or> (matching_type = MatchSha512 \<and> len \<noteq> 64)
     then Inl InvalidAssociationLength
     else Inr \<lparr>pr_usage = usage, pr_selector = selector, pr_matching_type = matching_type,
               pr_association_data = tlsa_association_data rec\<rparr>)))"

fun parse_dane_records :: "dane_limits \<Rightarrow> tlsa list \<Rightarrow> (dane_error, parsed_record list) result" where
  "parse_dane_records limits [] = Inr []"
| "parse_dane_records limits (r # rs) =
     rbind (dane_parse_record limits r) (\<lambda>p. rbind (parse_dane_records limits rs) (\<lambda>ps. Inr (p # ps)))"

type_synonym digest_fn = "bytes \<Rightarrow> bytes"

record match_material =
  mm_certificate :: bytes
  mm_spki :: bytes
  mm_certificate_sha256 :: bytes
  mm_certificate_sha512 :: bytes
  mm_spki_sha256 :: bytes
  mm_spki_sha512 :: bytes

definition material_new :: "digest_fn \<Rightarrow> digest_fn \<Rightarrow> bytes \<Rightarrow> bytes \<Rightarrow> match_material" where
  "material_new sha256 sha512 certificate spki =
     \<lparr>mm_certificate = certificate, mm_spki = spki,
      mm_certificate_sha256 = sha256 certificate, mm_certificate_sha512 = sha512 certificate,
      mm_spki_sha256 = sha256 spki, mm_spki_sha512 = sha512 spki\<rparr>"

definition material_matches :: "match_material \<Rightarrow> parsed_record \<Rightarrow> bool" where
  "material_matches m rec =
     (let candidate =
            (case (pr_selector rec, pr_matching_type rec) of
               (FullCertificate, MatchExact) \<Rightarrow> mm_certificate m
             | (FullCertificate, MatchSha256) \<Rightarrow> mm_certificate_sha256 m
             | (FullCertificate, MatchSha512) \<Rightarrow> mm_certificate_sha512 m
             | (SubjectPublicKeyInfo, MatchExact) \<Rightarrow> mm_spki m
             | (SubjectPublicKeyInfo, MatchSha256) \<Rightarrow> mm_spki_sha256 m
             | (SubjectPublicKeyInfo, MatchSha512) \<Rightarrow> mm_spki_sha512 m)
      in constant_time_eq candidate (pr_association_data rec))"

definition match_of :: "usize \<Rightarrow> parsed_record \<Rightarrow> dane_match" where
  "match_of index rec =
     \<lparr>dm_record_index = index, dm_usage = pr_usage rec, dm_selector = pr_selector rec,
      dm_matching_type = pr_matching_type rec\<rparr>"

fun find_match :: "(parsed_record \<Rightarrow> bool) \<Rightarrow> usize \<Rightarrow> parsed_record list \<Rightarrow> dane_match option" where
  "find_match accept index [] = None"
| "find_match accept index (r # rs) =
     (if accept r then Some (match_of index r) else find_match accept (index + 1) rs)"

definition verify_dane_ee ::
  "digest_fn \<Rightarrow> digest_fn \<Rightarrow> bytes \<Rightarrow> tlsa list \<Rightarrow> dane_limits \<Rightarrow> (dane_error, dane_match) result" where
  "verify_dane_ee sha256 sha512 certificate_der records limits =
     (if certificate_der = [] \<or> length certificate_der > dl_max_certificate_len limits then Inl CertificateLength
      else if records = [] then Inl MissingTlsa
      else if length records > dl_max_tlsa_records limits then Inl TooManyTlsaRecords
      else
      rbind (parse_dane_records limits records) (\<lambda>parsed_records.
      case find (\<lambda>r. pr_usage r \<noteq> DaneEe) parsed_records of
        Some r \<Rightarrow> Inl (UnsupportedUsage (usage_code (pr_usage r)))
      | None \<Rightarrow>
          rbind (extract_subject_public_key_info certificate_der) (\<lambda>spki.
          if length spki > dl_max_spki_len limits then Inl SpkiLength
          else
          let material = material_new sha256 sha512 certificate_der spki in
          ok_or Mismatch (find_match (material_matches material) 0 parsed_records))))"

section \<open>Chains\<close>

record 'x x509_lib =
  xl_from_der :: "bytes \<Rightarrow> 'x option"
  xl_to_der :: "'x \<Rightarrow> bytes option"
  xl_verify :: "'x \<Rightarrow> 'x list \<Rightarrow> 'x \<Rightarrow> bytes \<Rightarrow> int \<Rightarrow> nat \<Rightarrow> bool"

definition validate_chain_inputs ::
  "bytes list \<Rightarrow> bytes \<Rightarrow> tlsa list \<Rightarrow> dane_limits \<Rightarrow> (dane_error, unit) result" where
  "validate_chain_inputs chain base_domain records limits =
     (if chain = [] \<or> length chain > dl_max_chain_certificates limits then Inl ChainLength
      else if base_domain = [] \<or> length base_domain > 253 \<or> 0 \<in> set base_domain then Inl InvalidServerName
      else if list_ex (\<lambda>c. c = [] \<or> length c > dl_max_certificate_len limits) chain then Inl CertificateLength
      else if records = [] then Inl MissingTlsa
      else if length records > dl_max_tlsa_records limits then Inl TooManyTlsaRecords
      else Inr ())"

fun parse_chain :: "'x x509_lib \<Rightarrow> bytes list \<Rightarrow> (dane_error, 'x list) result" where
  "parse_chain lib [] = Inr []"
| "parse_chain lib (c # cs) =
     rbind (ok_or MalformedCertificate (xl_from_der lib c)) (\<lambda>x. rbind (parse_chain lib cs) (\<lambda>xs. Inr (x # xs)))"

text \<open>The certificates after the leaf that differ from the anchor; \<open>None\<close> when one cannot be re-encoded.\<close>

fun untrusted_chain :: "'x x509_lib \<Rightarrow> bytes \<Rightarrow> 'x list \<Rightarrow> 'x list option" where
  "untrusted_chain lib anchor_der [] = Some []"
| "untrusted_chain lib anchor_der (x # xs) =
     (case xl_to_der lib x of
        None \<Rightarrow> None
      | Some der \<Rightarrow>
          map_option (\<lambda>rest. if \<not> constant_time_eq der anchor_der then x # rest else rest)
            (untrusted_chain lib anchor_der xs))"

text \<open>\<open>i32::MAX\<close> bounds the depth; every failing OpenSSL call makes the result false.\<close>

definition validate_private_chain ::
  "'x x509_lib \<Rightarrow> 'x \<Rightarrow> 'x list \<Rightarrow> 'x \<Rightarrow> bytes \<Rightarrow> bytes \<Rightarrow> int \<Rightarrow> dane_limits \<Rightarrow> bool" where
  "validate_private_chain lib leaf presented anchor anchor_der server_name time limits =
     (if dl_max_chain_certificates limits > 2 ^ 31 - 1 then False
      else case untrusted_chain lib anchor_der (drop 1 presented) of
        None \<Rightarrow> False
      | Some untrusted \<Rightarrow> xl_verify lib leaf untrusted anchor server_name time (dl_max_chain_certificates limits))"

fun match_chain ::
  "digest_fn \<Rightarrow> digest_fn \<Rightarrow> dane_limits \<Rightarrow> parsed_record \<Rightarrow> bytes list \<Rightarrow> (dane_error, bytes option) result" where
  "match_chain sha256 sha512 limits rec [] = Inr None"
| "match_chain sha256 sha512 limits rec (c # cs) =
     rbind (extract_subject_public_key_info c) (\<lambda>spki.
     if length spki > dl_max_spki_len limits then Inl SpkiLength
     else if material_matches (material_new sha256 sha512 c spki) rec then Inr (Some c)
     else match_chain sha256 sha512 limits rec cs)"

text \<open>The anchor a trust-anchor record designates, \<open>None\<close> when no presented certificate matches.\<close>

definition anchor_for ::
  "digest_fn \<Rightarrow> digest_fn \<Rightarrow> dane_limits \<Rightarrow> bytes \<Rightarrow> bytes list \<Rightarrow> parsed_record \<Rightarrow> (dane_error, bytes option) result" where
  "anchor_for sha256 sha512 limits leaf chain rec =
     (if pr_selector rec = FullCertificate \<and> pr_matching_type rec = MatchExact then
        if \<not> constant_time_eq (pr_association_data rec) leaf \<and>
           list_all (\<lambda>c. \<not> constant_time_eq (pr_association_data rec) c) chain
        then Inr (Some (pr_association_data rec))
        else rbind (ok_or Mismatch (find (\<lambda>c. constant_time_eq (pr_association_data rec) c) chain)) (\<lambda>c. Inr (Some c))
      else match_chain sha256 sha512 limits rec chain)"

fun trust_anchor_loop ::
  "digest_fn \<Rightarrow> digest_fn \<Rightarrow> 'x x509_lib \<Rightarrow> dane_limits \<Rightarrow> bytes \<Rightarrow> bytes list \<Rightarrow> 'x \<Rightarrow> 'x list \<Rightarrow> bytes \<Rightarrow> int \<Rightarrow>
   usize \<Rightarrow> bool \<Rightarrow> parsed_record list \<Rightarrow> (dane_error, dane_match) result" where
  "trust_anchor_loop sha256 sha512 lib limits leaf chain leaf_certificate parsed_chain base_domain time index saw [] =
     (if saw then Inl ChainValidation else Inl Mismatch)"
| "trust_anchor_loop sha256 sha512 lib limits leaf chain leaf_certificate parsed_chain base_domain time index saw (r # rs) =
     (if pr_usage r \<noteq> DaneTa
      then trust_anchor_loop sha256 sha512 lib limits leaf chain leaf_certificate parsed_chain base_domain time
             (index + 1) saw rs
      else
      rbind (anchor_for sha256 sha512 limits leaf chain r) (\<lambda>found.
      case found of
        None \<Rightarrow> trust_anchor_loop sha256 sha512 lib limits leaf chain leaf_certificate parsed_chain base_domain time
                  (index + 1) saw rs
      | Some anchor_der \<Rightarrow>
          rbind (ok_or MalformedCertificate (xl_from_der lib anchor_der)) (\<lambda>anchor.
          if validate_private_chain lib leaf_certificate parsed_chain anchor anchor_der base_domain time limits
          then Inr (match_of index r)
          else trust_anchor_loop sha256 sha512 lib limits leaf chain leaf_certificate parsed_chain base_domain time
                 (index + 1) True rs)))"

definition verify_dane_chain ::
  "digest_fn \<Rightarrow> digest_fn \<Rightarrow> 'x x509_lib \<Rightarrow> bytes list \<Rightarrow> bytes \<Rightarrow> tlsa list \<Rightarrow> int \<Rightarrow> dane_limits \<Rightarrow>
   (dane_error, dane_match) result" where
  "verify_dane_chain sha256 sha512 lib chain base_domain records time limits =
     rbind (validate_chain_inputs chain base_domain records limits) (\<lambda>_.
     rbind (parse_dane_records limits records) (\<lambda>parsed_records.
     rbind (ok_or ChainLength (slice_get chain 0)) (\<lambda>leaf.
     rbind (extract_subject_public_key_info leaf) (\<lambda>leaf_spki.
     if length leaf_spki > dl_max_spki_len limits then Inl SpkiLength
     else
     let leaf_material = material_new sha256 sha512 leaf leaf_spki in
     case find_match (\<lambda>r. pr_usage r = DaneEe \<and> material_matches leaf_material r) 0 parsed_records of
       Some m \<Rightarrow> Inr m
     | None \<Rightarrow>
         rbind (parse_chain lib chain) (\<lambda>parsed_chain.
         rbind (ok_or ChainLength (slice_get parsed_chain 0)) (\<lambda>leaf_certificate.
         trust_anchor_loop sha256 sha512 lib limits leaf chain leaf_certificate parsed_chain base_domain time
           0 False parsed_records))))))"

end
