(* ===== verification/Dane_Laws.thy ===== *)
theory Dane_Laws
  imports Dane
begin

unbundle bit_operations_syntax

text \<open>
  What TLSA matching promises.  The DER reader accepts exactly the distinguished encodings of a
  tag-length-value triple and returns the triple; the extracted public key is the subject public key field
  of the signed part; a leaf is accepted exactly when every record is a supported end-entity record and one
  of them matches; and a chain is accepted only through a matching record, never through another store.
\<close>

section \<open>Distinguished encodings\<close>

fun be_octets :: "nat \<Rightarrow> bytes" where
  "be_octets n = (if n < 256 then [of_nat n] else be_octets (n div 256) @ [of_nat (n mod 256)])"

declare be_octets.simps [simp del]

definition der_length :: "nat \<Rightarrow> bytes" where
  "der_length n = (if n < 128 then [of_nat n] else of_nat (128 + length (be_octets n)) # be_octets n)"

definition der_encode :: "u8 \<Rightarrow> bytes \<Rightarrow> bytes" where
  "der_encode tag v = tag # der_length (length v) @ v"

definition be_value :: "bytes \<Rightarrow> nat" where
  "be_value bs = foldl (\<lambda>n b. n * 256 + unat b) 0 bs"

lemma be_value_simps [simp]: "be_value [] = 0" "be_value (bs @ [b]) = be_value bs * 256 + unat b"
  by (simp_all add: be_value_def)

lemma unat_u8 [simp]: "n < 256 \<Longrightarrow> unat (of_nat n :: u8) = n"
  unfolding unat_of_nat by simp

lemma u8_less: "unat (b :: u8) < 256"
  using unsigned_less [of b, where 'a = nat] by simp

lemma be_value_octets [simp]: "be_value (be_octets n) = n"
proof (induction n rule: be_octets.induct)
  case (1 n)
  show ?case
  proof (cases "n < 256")
    case True
    then show ?thesis using be_value_simps(2) [of "[]"] by (simp add: be_octets.simps [of n] del: be_value_simps(2))
  next
    case False
    then show ?thesis using 1 by (simp add: be_octets.simps [of n])
  qed
qed

lemma be_octets_value: "bs \<noteq> [] \<Longrightarrow> hd bs \<noteq> 0 \<Longrightarrow> be_octets (be_value bs) = bs \<and> be_value bs \<noteq> 0"
proof (induction bs rule: rev_induct)
  case (snoc b bs)
  show ?case
  proof (cases "bs = []")
    case True
    then show ?thesis using snoc.prems be_value_simps(2) [of "[]" b] u8_less [of b]
      by (simp add: be_octets.simps [of "unat b"] unat_eq_0 del: be_value_simps(2))
  next
    case False
    then have IH: "be_octets (be_value bs) = bs" "be_value bs \<noteq> 0" using snoc by auto
    then have "\<not> be_value bs * 256 + unat b < 256" by simp
    then show ?thesis using IH u8_less [of b]
      by (simp add: be_octets.simps [of "be_value bs * 256 + unat b"])
  qed
qed simp

lemma be_octets_hd: "n \<noteq> 0 \<Longrightarrow> be_octets n \<noteq> [] \<and> hd (be_octets n) \<noteq> 0"
proof (induction n rule: be_octets.induct)
  case (1 n)
  show ?case
  proof (cases "n < 256")
    case True
    then show ?thesis using 1 by (simp add: be_octets.simps [of n] unat_eq_0 [symmetric])
  next
    case False
    then have "n div 256 \<noteq> 0" by (simp add: div_eq_0_iff)
    then show ?thesis using 1(1) False by (simp add: be_octets.simps [of n])
  qed
qed

lemma length_be_octets: "n < 256 ^ Suc k \<Longrightarrow> length (be_octets n) \<le> Suc k"
proof (induction k arbitrary: n)
  case 0
  then show ?case by (simp add: be_octets.simps [of n])
next
  case (Suc k)
  then have "n div 256 < 256 ^ Suc k" by (simp add: div_less_iff_less_mult mult.commute)
  then show ?case using Suc.IH [of "n div 256"] by (simp add: be_octets.simps [of n])
qed

lemma be_value_less: "be_value bs < 256 ^ length bs"
proof (induction bs rule: rev_induct)
  case (snoc b bs)
  then have "Suc (be_value bs) * 256 \<le> 256 ^ length bs * 256" by (intro mult_le_mono1) simp
  then show ?case using u8_less [of b] by simp
qed simp

lemma length_octets_value:
  "k + length bs \<le> 4 \<Longrightarrow> len < 256 ^ k \<Longrightarrow> length_octets bs len = Inr (foldl (\<lambda>n b. n * 256 + unat b) len bs)"
proof (induction bs arbitrary: len k)
  case (Cons b bs)
  have "Suc len * 256 \<le> 256 ^ k * 256" using Cons.prems by (intro mult_le_mono1) simp
  then have lt: "len * 256 + unat b < 256 ^ Suc k" using u8_less [of b] by simp
  have "(256 :: nat) ^ Suc k \<le> 256 ^ 4" using Cons.prems(1) by (intro power_increasing) auto
  then have "len * 256 + unat b \<le> usize_max" using lt by (simp add: usize_max_def)
  then show ?case using Cons.IH [of "Suc k" "len * 256 + unat b"] Cons.prems(1) lt by simp
qed simp

lemma length_byte:
  "(b :: u8) AND 0x80 = 0 \<longleftrightarrow> unat b < 128" "unat (b AND 0x7f) = unat b mod 128"
proof -
  have "list_all (\<lambda>k. ((of_nat k :: u8) AND 0x80 = 0 \<longleftrightarrow> k < 128) \<and> unat ((of_nat k :: u8) AND 0x7f) = k mod 128) [0..<256]"
    by code_simp
  moreover have "unat b \<in> set [0..<256]" using u8_less by simp
  ultimately have "((of_nat (unat b) :: u8) AND 0x80 = 0 \<longleftrightarrow> unat b < 128) \<and>
      unat ((of_nat (unat b) :: u8) AND 0x7f) = unat b mod 128"
    unfolding list_all_iff by blast
  then show "b AND 0x80 = 0 \<longleftrightarrow> unat b < 128" "unat (b AND 0x7f) = unat b mod 128" by simp_all
qed

lemma drop_split: "c < length xs \<Longrightarrow> drop c xs = xs ! c # drop (Suc c) xs"
  by (rule Cons_nth_drop_Suc [symmetric])

lemma drop_prefix:
  assumes "drop c xs = ys @ zs"
  shows "drop (c + length ys) xs = zs" "ys \<noteq> [] \<Longrightarrow> c + length ys \<le> length xs"
proof -
  have "drop (c + length ys) xs = drop (length ys) (drop c xs)" by (simp add: add.commute)
  then show "drop (c + length ys) xs = zs" by (simp add: assms)
  have "length (drop c xs) = length ys + length zs" by (simp add: assms)
  then show "ys \<noteq> [] \<Longrightarrow> c + length ys \<le> length xs" by (cases ys) auto
qed

text \<open>Reading a long-form length.\<close>

lemma read_length_Inr:
  assumes "read_length input c = Inr (n, c')"
  shows "n < 2 ^ 32 \<and> c' = c + length (der_length n) \<and> c' \<le> length input \<and> drop c input = der_length n @ drop c' input"
proof -
  obtain b where b: "c < length input" "input ! c = b" using assms by (auto simp: read_length_def result_inv)
  show ?thesis
  proof (cases "unat b < 128")
    case True
    then have "n = unat b" "c' = Suc c"
      using assms b by (auto simp: read_length_def result_inv length_byte)
    then show ?thesis using b True by (simp add: der_length_def drop_split)
  next
    case False
    let ?k = "unat b mod 128"
    let ?bs = "take ?k (drop (Suc c) input)"
    have k: "?k \<noteq> 0" "?k \<le> 4" and e: "c' = Suc c + ?k" "c' \<le> length input"
      and hd: "slice_get ?bs 0 \<noteq> Some 0" and len: "length_octets ?bs 0 = Inr n" "\<not> n < 128"
      using assms b False
      by (auto simp: read_length_def result_inv length_byte slice_range_eq_Some Let_def split: if_splits)
    have bs: "length ?bs = ?k" using e by simp
    then have ne: "?bs \<noteq> []" "hd ?bs \<noteq> 0" using k(1) hd by (auto simp: slice_get_def hd_conv_nth)
    have n: "n = be_value ?bs" using len(1) length_octets_value [of 0 ?bs 0] bs k(2) by (simp add: be_value_def)
    then have oct: "be_octets n = ?bs" using be_octets_value [OF ne] by simp
    have "n < 256 ^ ?k" using be_value_less [of ?bs] bs n by simp
    also have "(256 :: nat) ^ ?k \<le> 256 ^ 4" using k(2) by (intro power_increasing) auto
    finally have "n < 2 ^ 32" by simp
    moreover have "unat b = 128 + ?k" using False u8_less [of b] by (simp add: le_mod_geq)
    then have "of_nat (128 + length ?bs) = b" using bs by (metis of_nat_unat ucast_id)
    then have "der_length n = b # ?bs" using len(2) by (simp only: der_length_def if_False oct)
    moreover have "drop (Suc c) input = ?bs @ drop (Suc c + ?k) input"
      by (metis append_take_drop_id drop_drop add.commute)
    ultimately show ?thesis using e b bs by (simp add: drop_split)
  qed
qed

lemma read_length_encoded:
  assumes d: "drop c input = der_length n @ rest" and n: "n < 2 ^ 32" and max: "length input \<le> usize_max"
  shows "read_length input c = Inr (n, c + length (der_length n))"
proof (cases "n < 128")
  case True
  then have "drop c input = of_nat n # rest" using d by (simp add: der_length_def)
  then have "c < length input" "input ! c = of_nat n"
    by (metis drop_eq_Nil list.distinct(1) not_le, metis drop_eq_Nil hd_drop_conv_nth list.distinct(1) list.sel(1) not_le)
  then show ?thesis using True max by (simp add: read_length_def length_byte der_length_def)
next
  case False
  let ?k = "length (be_octets n)"
  let ?b = "of_nat (128 + ?k) :: u8"
  have k: "?k \<noteq> 0" "?k \<le> 4" using be_octets_hd [of n] length_be_octets [of n 3] n False by auto
  have b: "unat ?b = 128 + ?k" unfolding unat_of_nat using k by simp
  have d': "drop c input = ?b # be_octets n @ rest" using d False by (simp add: der_length_def)
  then have c: "c < length input" "input ! c = ?b"
    by (metis drop_eq_Nil list.distinct(1) not_le, metis d' drop_eq_Nil hd_drop_conv_nth list.distinct(1) list.sel(1) not_le)
  have "drop (Suc c) input = be_octets n @ rest" using drop_prefix(1) [of c input "[?b]"] d' by simp
  then have r: "slice_range input (Suc c) (Suc c + ?k) = Some (be_octets n)" and l: "Suc c + ?k \<le> length input"
    using drop_prefix(2) [of "Suc c" input "be_octets n" rest] k by (auto simp: slice_range_def)
  have "slice_get (be_octets n) 0 \<noteq> Some 0"
    using be_octets_hd [of n] hd_conv_nth [of "be_octets n"] False by (simp add: slice_get_def)
  moreover have "length_octets (be_octets n) 0 = Inr n"
    using length_octets_value [of 0 "be_octets n" 0] k be_value_octets [of n] by (simp add: be_value_def)
  moreover have "?k \<le> usize_max" using l max by simp
  ultimately show ?thesis using False b c r l k max
    by (simp add: read_length_def length_byte der_length_def Let_def del: of_nat_add)
qed

section \<open>The reader\<close>

lemma read_tlv_Inr:
  assumes "read_tlv r = Inr (t, r')"
  shows "tlv_full t = der_encode (tlv_tag t) (tlv_value t) \<and> tlv_tag t AND 0x1f \<noteq> 0x1f \<and> length (tlv_value t) < 2 ^ 32 \<and>
    r' = r\<lparr>der_cursor := der_cursor r + length (tlv_full t)\<rparr> \<and>
    drop (der_cursor r) (der_input r) = tlv_full t @ drop (der_cursor r') (der_input r)"
proof -
  let ?i = "der_input r" and ?c = "der_cursor r"
  obtain n v where l: "read_length ?i (Suc ?c) = Inr (n, v)" and t: "tlv_tag t = ?i ! ?c" "?c < length ?i"
    and tag: "?i ! ?c AND 0x1f \<noteq> 0x1f"
    and val: "tlv_value t = take n (drop v ?i)" "v + n \<le> length ?i" and full: "tlv_full t = take (v + n - ?c) (drop ?c ?i)"
    and r': "r' = r\<lparr>der_cursor := v + n\<rparr>"
    using assms by (auto simp: read_tlv_def result_inv Let_def slice_range_eq_Some split: if_splits)
  note L = read_length_Inr [OF l]
  have len: "length (tlv_value t) = n" using val by simp
  have "drop ?c ?i = tlv_tag t # der_length n @ drop v ?i" using t L drop_split [of ?c ?i] by simp
  also have "drop v ?i = tlv_value t @ drop (v + n) ?i" using val by (metis append_take_drop_id drop_drop add.commute)
  finally have d: "drop ?c ?i = der_encode (tlv_tag t) (tlv_value t) @ drop (v + n) ?i"
    by (simp add: der_encode_def len)
  have "length (der_encode (tlv_tag t) (tlv_value t)) = v + n - ?c" using L len by (simp add: der_encode_def)
  then have "tlv_full t = der_encode (tlv_tag t) (tlv_value t)" using full d by simp
  then show ?thesis using t tag L len d r' by (simp add: der_encode_def)
qed

lemma read_tlv_encoded:
  assumes d: "drop (der_cursor r) (der_input r) = der_encode tag v @ rest"
    and tag: "tag AND 0x1f \<noteq> 0x1f" and v: "length v < 2 ^ 32" and max: "length (der_input r) \<le> usize_max"
  shows "read_tlv r = Inr (\<lparr>tlv_tag = tag, tlv_full = der_encode tag v, tlv_value = v\<rparr>,
    r\<lparr>der_cursor := der_cursor r + length (der_encode tag v)\<rparr>)"
proof -
  let ?i = "der_input r" and ?c = "der_cursor r"
  let ?l = "length (der_length (length v))"
  have c: "?c < length ?i" "?i ! ?c = tag"
    using d by (auto simp: der_encode_def) (metis drop_eq_Nil list.distinct(1) not_le,
      metis append_Cons d der_encode_def drop_eq_Nil hd_drop_conv_nth list.distinct(1) list.sel(1) not_le)
  have d1: "drop (Suc ?c) ?i = der_length (length v) @ v @ rest"
    using drop_prefix(1) [of ?c ?i "[tag]"] d by (simp add: der_encode_def)
  have d2: "drop (Suc ?c + ?l) ?i = v @ rest" using drop_prefix(1) [OF d1] .
  have e: "?c + length (der_encode tag v) \<le> length ?i" using drop_prefix(2) [OF d] by (simp add: der_encode_def)
  then have e': "Suc ?c + ?l + length v \<le> length ?i" by (simp add: der_encode_def)
  have "slice_range ?i (Suc ?c + ?l) (Suc ?c + ?l + length v) = Some v"
    using e' d2 by (simp add: slice_range_def)
  moreover have "slice_range ?i ?c (Suc ?c + ?l + length v) = Some (der_encode tag v)"
    using e' d by (simp add: slice_range_def der_encode_def)
  ultimately show ?thesis
    using c tag read_length_encoded [OF d1 v max] e' max
    by (simp add: read_tlv_def Let_def der_encode_def)
qed

text \<open>C29: The DER reader accepts exactly the distinguished encodings.  On an input that memory can hold, a
  successful read returns a triple whose full bytes are the unique DER encoding of its tag and value, are
  what the input holds at the cursor, and are exactly what the cursor moves over; and whenever the input
  holds the encoding of a low-numbered tag and a value below four gigabytes, it is read.\<close>

theorem der_reader_exact:
  assumes "length (der_input r) \<le> usize_max"
  shows "read_tlv r = Inr (t, r') \<longleftrightarrow>
    (\<exists>rest. drop (der_cursor r) (der_input r) = der_encode (tlv_tag t) (tlv_value t) @ rest) \<and>
    tlv_full t = der_encode (tlv_tag t) (tlv_value t) \<and> tlv_tag t AND 0x1f \<noteq> 0x1f \<and> length (tlv_value t) < 2 ^ 32 \<and>
    r' = r\<lparr>der_cursor := der_cursor r + length (tlv_full t)\<rparr>"
proof
  assume "read_tlv r = Inr (t, r')"
  from read_tlv_Inr [OF this] show "(\<exists>rest. drop (der_cursor r) (der_input r) = der_encode (tlv_tag t) (tlv_value t) @ rest) \<and>
    tlv_full t = der_encode (tlv_tag t) (tlv_value t) \<and> tlv_tag t AND 0x1f \<noteq> 0x1f \<and> length (tlv_value t) < 2 ^ 32 \<and>
    r' = r\<lparr>der_cursor := der_cursor r + length (tlv_full t)\<rparr>" by metis
next
  assume "(\<exists>rest. drop (der_cursor r) (der_input r) = der_encode (tlv_tag t) (tlv_value t) @ rest) \<and>
    tlv_full t = der_encode (tlv_tag t) (tlv_value t) \<and> tlv_tag t AND 0x1f \<noteq> 0x1f \<and> length (tlv_value t) < 2 ^ 32 \<and>
    r' = r\<lparr>der_cursor := der_cursor r + length (tlv_full t)\<rparr>"
  then show "read_tlv r = Inr (t, r')" using read_tlv_encoded [of r "tlv_tag t" "tlv_value t"] assms by (cases t) auto
qed

theorem der_reader_exact_witness:
  "read_tlv (der_new [0x30, 0x02, 0x05, 0x00]) =
     Inr (\<lparr>tlv_tag = 0x30, tlv_full = [0x30, 0x02, 0x05, 0x00], tlv_value = [0x05, 0x00]\<rparr>,
          \<lparr>der_input = [0x30, 0x02, 0x05, 0x00], der_cursor = 4\<rparr>)"
proof -
  have "length (der_input (der_new [0x30, 0x02, 0x05, 0x00])) \<le> usize_max" by (simp add: der_new_def usize_max_def)
  from der_reader_exact [OF this, of "\<lparr>tlv_tag = 0x30, tlv_full = [0x30, 0x02, 0x05, 0x00], tlv_value = [0x05, 0x00]\<rparr>"]
  show ?thesis by (simp add: der_new_def der_encode_def der_length_def)
qed

section \<open>Comparison and records\<close>

lemma xor_eq_0: "a XOR b = 0 \<longleftrightarrow> a = b" for a b :: u8
proof
  assume *: "a XOR b = 0"
  show "a = b"
  proof (rule bit_word_eqI)
    fix n
    have "\<not> bit (a XOR b) n" by (simp add: *)
    then show "bit a n = bit b n" by (simp add: bit_xor_iff)
  qed
qed simp

lemma difference_fold:
  "length l = length r \<Longrightarrow>
   foldl (\<lambda>difference (x, y). difference OR (x XOR y)) d (zip l r) = 0 \<longleftrightarrow> d = 0 \<and> l = (r :: bytes)"
proof (induction l r arbitrary: d rule: list_induct2)
  case (Cons x l y r)
  then show ?case by (simp add: or_eq_0_iff xor_eq_0 conj_assoc)
qed simp

lemma constant_time_eq_iff: "constant_time_eq l r \<longleftrightarrow> l = r"
  by (auto simp: constant_time_eq_def difference_fold)

text \<open>What a record selects of a certificate, and how it is compared.\<close>

fun selected_bytes :: "dane_selector \<Rightarrow> bytes \<Rightarrow> bytes \<Rightarrow> bytes" where
  "selected_bytes FullCertificate certificate spki = certificate"
| "selected_bytes SubjectPublicKeyInfo certificate spki = spki"

fun association_of :: "digest_fn \<Rightarrow> digest_fn \<Rightarrow> dane_matching \<Rightarrow> bytes \<Rightarrow> bytes" where
  "association_of sha256 sha512 MatchExact bs = bs"
| "association_of sha256 sha512 MatchSha256 bs = sha256 bs"
| "association_of sha256 sha512 MatchSha512 bs = sha512 bs"

definition tlsa_matches :: "digest_fn \<Rightarrow> digest_fn \<Rightarrow> parsed_record \<Rightarrow> bytes \<Rightarrow> bytes \<Rightarrow> bool" where
  "tlsa_matches sha256 sha512 p certificate spki \<longleftrightarrow>
     pr_association_data p =
       association_of sha256 sha512 (pr_matching_type p) (selected_bytes (pr_selector p) certificate spki)"

lemma material_matches_iff:
  "material_matches (material_new sha256 sha512 c k) p \<longleftrightarrow> tlsa_matches sha256 sha512 p c k"
  by (cases "pr_selector p"; cases "pr_matching_type p")
    (auto simp: material_matches_def material_new_def tlsa_matches_def constant_time_eq_iff)

lemma parse_dane_records_Inr:
  "parse_dane_records limits rs = Inr ps \<longleftrightarrow> list_all2 (\<lambda>r p. dane_parse_record limits r = Inr p) rs ps"
  by (induction rs arbitrary: ps) (auto simp: result_inv list_all2_Cons1)

lemma find_match_Some:
  "find_match accept k rs = Some m \<longleftrightarrow>
     (\<exists>i < length rs. accept (rs ! i) \<and> (\<forall>j < i. \<not> accept (rs ! j)) \<and> m = match_of (k + i) (rs ! i))"
proof (induction rs arbitrary: k)
  case (Cons r rs)
  show ?case
  proof (cases "accept r")
    case True
    then show ?thesis by (auto simp: less_Suc_eq_0_disj)
  next
    case False
    then show ?thesis by (simp add: Cons.IH Ex_less_Suc2 All_less_Suc2)
  qed
qed simp

lemma find_match_None: "find_match accept k rs = None \<longleftrightarrow> (\<forall>r \<in> set rs. \<not> accept r)"
  by (induction rs arbitrary: k) auto

lemma find_ee_None: "find (\<lambda>r. pr_usage r \<noteq> DaneEe) ps = None \<longleftrightarrow> (\<forall>p \<in> set ps. pr_usage p = DaneEe)"
  by (auto simp: find_None_iff)

section \<open>End-entity verification\<close>

text \<open>A leaf certificate is accepted exactly when it is within its bound, the record set is neither empty
  nor too large, every record of the set is well formed and of the end-entity usage (one unsupported record
  refuses the whole set), the certificate is well-formed DER with a public key within its bound, and some
  record's association data equal the selected bytes or their digest; the reported match is the first such
  record.\<close>

lemma dane_ee_exact:
  "verify_dane_ee sha256 sha512 certificate records limits = Inr m \<longleftrightarrow>
     certificate \<noteq> [] \<and> length certificate \<le> dl_max_certificate_len limits \<and>
     records \<noteq> [] \<and> length records \<le> dl_max_tlsa_records limits \<and>
     (\<exists>ps spki. list_all2 (\<lambda>r p. dane_parse_record limits r = Inr p) records ps \<and>
        (\<forall>p \<in> set ps. pr_usage p = DaneEe) \<and>
        extract_subject_public_key_info certificate = Inr spki \<and> length spki \<le> dl_max_spki_len limits \<and>
        (\<exists>i < length ps. tlsa_matches sha256 sha512 (ps ! i) certificate spki \<and>
           (\<forall>j < i. \<not> tlsa_matches sha256 sha512 (ps ! j) certificate spki) \<and> m = match_of i (ps ! i)))"
proof -
  have "verify_dane_ee sha256 sha512 certificate records limits = Inr m \<longleftrightarrow>
     certificate \<noteq> [] \<and> length certificate \<le> dl_max_certificate_len limits \<and>
     records \<noteq> [] \<and> length records \<le> dl_max_tlsa_records limits \<and>
     (\<exists>ps spki. parse_dane_records limits records = Inr ps \<and> find (\<lambda>r. pr_usage r \<noteq> DaneEe) ps = None \<and>
        extract_subject_public_key_info certificate = Inr spki \<and> length spki \<le> dl_max_spki_len limits \<and>
        find_match (material_matches (material_new sha256 sha512 certificate spki)) 0 ps = Some m)"
    by (auto simp: verify_dane_ee_def result_inv Let_def not_less split: if_splits option.splits)
  then show ?thesis
    unfolding find_match_Some find_ee_None parse_dane_records_Inr material_matches_iff by simp
qed

section \<open>The extracted key\<close>

definition der_from :: "der_reader \<Rightarrow> bytes" where
  "der_from r = drop (der_cursor r) (der_input r)"

lemma der_from_new [simp]: "der_from (der_new bs) = bs"
  by (simp add: der_from_def der_new_def)

lemma read_tlv_from:
  assumes "read_tlv r = Inr (t, r')"
  shows "der_from r = der_encode (tlv_tag t) (tlv_value t) @ der_from r' \<and> tlv_full t = der_encode (tlv_tag t) (tlv_value t)"
  using read_tlv_Inr [OF assms] by (simp add: der_from_def)

lemma read_expected_Inr [result_inv]:
  "read_expected r tag = Inr (t, r') \<longleftrightarrow> read_tlv r = Inr (t, r') \<and> tlv_tag t = tag"
  by (auto simp: read_expected_def result_inv split: if_splits)

lemma read_expected_from:
  "read_tlv r = Inr (t, r') \<Longrightarrow> tlv_tag t = tag \<Longrightarrow> der_from r = der_encode tag (tlv_value t) @ der_from r'"
  "read_tlv r = Inr (t, r') \<Longrightarrow> tlv_tag t = tag \<Longrightarrow> tlv_full t = der_encode tag (tlv_value t)"
  using read_tlv_from by blast+

lemma der_empty_from: "der_is_empty r \<Longrightarrow> der_from r = []"
  by (simp add: der_is_empty_def der_from_def)

lemma tbs_prefix_from:
  assumes "read_tbs_prefix rd alg = Inr rd'"
  shows "\<exists>version serial issuer validity subject. der_from rd =
      version @ der_encode TAG_INTEGER serial @ alg @ der_encode TAG_SEQUENCE issuer @
      der_encode TAG_SEQUENCE validity @ der_encode TAG_SEQUENCE subject @ der_from rd' \<and>
      (version = [] \<or> (\<exists>v. version = der_encode TAG_EXPLICIT_VERSION v))"
proof -
  obtain f1 serial f2 a f3 issuer f4 validity f5 subject where
    v: "(if peek_tag rd = Some TAG_EXPLICIT_VERSION
         then rbind (read_expected rd TAG_EXPLICIT_VERSION) (\<lambda>(version, f).
                rbind (validate_version (tlv_value version)) (\<lambda>_. Inr f)) else Inr rd) = Inr f1"
    and r: "read_tlv f1 = Inr (serial, f2)" "tlv_tag serial = TAG_INTEGER" "read_tlv f2 = Inr (a, f3)"
      "tlv_tag a = TAG_SEQUENCE" "read_tlv f3 = Inr (issuer, f4)" "tlv_tag issuer = TAG_SEQUENCE"
      "read_tlv f4 = Inr (validity, f5)" "tlv_tag validity = TAG_SEQUENCE" "read_tlv f5 = Inr (subject, rd')"
      "tlv_tag subject = TAG_SEQUENCE"
    and a: "alg = tlv_full a"
    using assms unfolding read_tbs_prefix_def
    by (auto simp: rbind_eq_Inr read_expected_Inr constant_time_eq_iff split: if_splits)
  have "\<exists>version. der_from rd = version @ der_from f1 \<and>
      (version = [] \<or> (\<exists>v. version = der_encode TAG_EXPLICIT_VERSION v))"
    using v by (auto simp: rbind_eq_Inr read_expected_Inr dest: read_expected_from split: if_splits)
  then show ?thesis
    using read_expected_from(1) [OF r(1,2)] read_expected_from [OF r(3,4)] read_expected_from(1) [OF r(5,6)]
      read_expected_from(1) [OF r(7,8)] read_expected_from(1) [OF r(9,10)] a by (metis append_assoc)
qed

text \<open>The extracted key is the subject public key field of the signed part: an accepted certificate is
  exactly the DER encoding of a signed part, a signature algorithm and a signature, the signed part names
  the same signature algorithm, and the returned bytes are the complete field that follows serial number,
  algorithm, issuer, validity and subject, nothing before or after it being skipped.\<close>

lemma extracted_key_position:
  assumes "extract_subject_public_key_info certificate = Inr spki"
  shows "\<exists>version serial alg issuer validity subject key tail signature.
    certificate = der_encode TAG_SEQUENCE
      (der_encode TAG_SEQUENCE
         (version @ der_encode TAG_INTEGER serial @ der_encode TAG_SEQUENCE alg @ der_encode TAG_SEQUENCE issuer @
          der_encode TAG_SEQUENCE validity @ der_encode TAG_SEQUENCE subject @ der_encode TAG_SEQUENCE key @ tail) @
       der_encode TAG_SEQUENCE alg @ der_encode TAG_BIT_STRING signature) \<and>
    spki = der_encode TAG_SEQUENCE key \<and> (version = [] \<or> (\<exists>v. version = der_encode TAG_EXPLICIT_VERSION v))"
proof -
  obtain c document tbs f1 outer f2 signature f3 f4 key f5 where
    r: "read_tlv (der_new certificate) = Inr (c, document)" "tlv_tag c = TAG_SEQUENCE" "der_is_empty document"
      "read_tlv (der_new (tlv_value c)) = Inr (tbs, f1)" "tlv_tag tbs = TAG_SEQUENCE"
      "read_tlv f1 = Inr (outer, f2)" "tlv_tag outer = TAG_SEQUENCE"
      "read_tlv f2 = Inr (signature, f3)" "tlv_tag signature = TAG_BIT_STRING" "der_is_empty f3"
      "read_tbs_prefix (der_new (tlv_value tbs)) (tlv_full outer) = Inr f4"
      "read_tlv f4 = Inr (key, f5)" "tlv_tag key = TAG_SEQUENCE"
    and spki: "spki = tlv_full key"
    using assms unfolding extract_subject_public_key_info_def
    by (auto simp: rbind_eq_Inr read_expected_Inr split: if_splits)
  have cert: "certificate = der_encode TAG_SEQUENCE (tlv_value c)"
    using read_expected_from(1) [OF r(1,2)] der_empty_from [OF r(3)] by simp
  have val: "tlv_value c = der_encode TAG_SEQUENCE (tlv_value tbs) @ der_encode TAG_SEQUENCE (tlv_value outer) @
      der_encode TAG_BIT_STRING (tlv_value signature)"
    using read_expected_from(1) [OF r(4,5)] read_expected_from(1) [OF r(6,7)] read_expected_from(1) [OF r(8,9)]
      der_empty_from [OF r(10)] by simp
  obtain version serial issuer validity subject where tbs: "tlv_value tbs =
      version @ der_encode TAG_INTEGER serial @ der_encode TAG_SEQUENCE (tlv_value outer) @
      der_encode TAG_SEQUENCE issuer @ der_encode TAG_SEQUENCE validity @ der_encode TAG_SEQUENCE subject @ der_from f4"
    and version: "version = [] \<or> (\<exists>v. version = der_encode TAG_EXPLICIT_VERSION v)"
    using tbs_prefix_from [OF r(11)] unfolding der_from_new read_expected_from(2) [OF r(6,7)] by blast
  have "der_from f4 = der_encode TAG_SEQUENCE (tlv_value key) @ der_from f5" "spki = der_encode TAG_SEQUENCE (tlv_value key)"
    using read_expected_from [OF r(12,13)] spki by simp_all
  then show ?thesis using cert val tbs version by metis
qed

section \<open>Chain verification\<close>

text \<open>A certificate that a trust-anchor record designates: one of the presented certificates that matches, or
  the complete certificate that the record itself carries.\<close>

definition designated_anchor ::
  "digest_fn \<Rightarrow> digest_fn \<Rightarrow> bytes list \<Rightarrow> parsed_record \<Rightarrow> bytes \<Rightarrow> bool" where
  "designated_anchor sha256 sha512 chain p anchor \<longleftrightarrow>
     pr_selector p = FullCertificate \<and> pr_matching_type p = MatchExact \<and> anchor = pr_association_data p \<or>
     anchor \<in> set chain \<and>
       (\<exists>spki. extract_subject_public_key_info anchor = Inr spki \<and> tlsa_matches sha256 sha512 p anchor spki)"

lemma match_chain_Some:
  "match_chain sha256 sha512 limits p cs = Inr (Some c) \<Longrightarrow>
     c \<in> set cs \<and> (\<exists>spki. extract_subject_public_key_info c = Inr spki \<and> tlsa_matches sha256 sha512 p c spki)"
  by (induction cs) (auto simp: result_inv material_matches_iff split: if_splits)

lemma anchor_for_Some:
  assumes "anchor_for sha256 sha512 limits leaf chain p = Inr (Some anchor)"
  shows "designated_anchor sha256 sha512 chain p anchor"
  using assms match_chain_Some
  by (auto simp: anchor_for_def designated_anchor_def result_inv constant_time_eq_iff find_Some_iff split: if_splits)

definition anchored_path ::
  "digest_fn \<Rightarrow> digest_fn \<Rightarrow> 'x x509_lib \<Rightarrow> dane_limits \<Rightarrow> bytes list \<Rightarrow> 'x \<Rightarrow> 'x list \<Rightarrow> bytes \<Rightarrow> int \<Rightarrow> parsed_record \<Rightarrow> bool" where
  "anchored_path sha256 sha512 lib limits chain leaf presented base_domain time p \<longleftrightarrow>
     (\<exists>anchor_der anchor untrusted.
        designated_anchor sha256 sha512 chain p anchor_der \<and> xl_from_der lib anchor_der = Some anchor \<and>
        untrusted_chain lib anchor_der (drop 1 presented) = Some untrusted \<and>
        xl_verify lib leaf untrusted anchor base_domain time (dl_max_chain_certificates limits))"

lemma trust_anchor_loop_Inr:
  assumes "trust_anchor_loop sha256 sha512 lib limits leaf chain leafx presented base_domain time k saw ps = Inr m"
  shows "\<exists>i < length ps. pr_usage (ps ! i) = DaneTa \<and> m = match_of (k + i) (ps ! i) \<and>
    anchored_path sha256 sha512 lib limits chain leafx presented base_domain time (ps ! i)"
  using assms
proof (induction ps arbitrary: k saw)
  case (Cons p ps)
  have later: ?case if "trust_anchor_loop sha256 sha512 lib limits leaf chain leafx presented base_domain time (k + 1) s ps = Inr m" for s
    using Cons.IH [OF that] by (metis Suc_less_eq add.assoc add.commute length_Cons nth_Cons_Suc plus_1_eq_Suc)
  show ?case
  proof (cases "pr_usage p = DaneTa")
    case True
    then obtain found where f: "anchor_for sha256 sha512 limits leaf chain p = Inr found"
      using Cons.prems by (auto simp: result_inv)
    show ?thesis
    proof (cases found)
      case None
      then show ?thesis using Cons.prems True f later by simp
    next
      case (Some anchor_der)
      then obtain anchor where x: "xl_from_der lib anchor_der = Some anchor"
        using Cons.prems True f by (auto simp: result_inv)
      show ?thesis
      proof (cases "validate_private_chain lib leafx presented anchor anchor_der base_domain time limits")
        case valid: True
        then have "anchored_path sha256 sha512 lib limits chain leafx presented base_domain time p"
          using anchor_for_Some [of sha256 sha512 limits leaf chain p anchor_der] f Some x
          by (auto simp: anchored_path_def validate_private_chain_def split: if_splits option.splits)
        then show ?thesis using Cons.prems True f Some x valid by (intro exI [of _ 0]) simp
      next
        case False
        then show ?thesis using Cons.prems True f Some x later by simp
      qed
    qed
  next
    case False
    then show ?thesis using Cons.prems later by simp
  qed
qed (simp split: if_splits)

text \<open>C13: A server chain is accepted only through a record of the TLSA set, every record of which is supported:
  either an end-entity record matches the leaf itself, or no end-entity record matches the leaf and OpenSSL
  verified a path from the leaf, at the given time and for the given name, to an anchor that a trust-anchor
  record designates, as the only trusted certificate.  The match reports that record.  No public root and
  no other trust store can make a chain acceptable.\<close>

theorem dane_chain_sound:
  assumes "verify_dane_chain sha256 sha512 lib chain base_domain records time limits = Inr m"
  shows "\<exists>ps i leaf spki. list_all2 (\<lambda>r p. dane_parse_record limits r = Inr p) records ps \<and>
    i < length ps \<and> m = match_of i (ps ! i) \<and> chain \<noteq> [] \<and> leaf = hd chain \<and>
    extract_subject_public_key_info leaf = Inr spki \<and>
    (pr_usage (ps ! i) = DaneEe \<and> tlsa_matches sha256 sha512 (ps ! i) leaf spki \<or>
     pr_usage (ps ! i) = DaneTa \<and>
       (\<forall>p \<in> set ps. pr_usage p = DaneEe \<longrightarrow> \<not> tlsa_matches sha256 sha512 p leaf spki) \<and>
       (\<exists>presented. parse_chain lib chain = Inr presented \<and> presented \<noteq> [] \<and>
          anchored_path sha256 sha512 lib limits chain (hd presented) presented base_domain time (ps ! i)))"
proof -
  obtain ps leaf spki where ps: "parse_dane_records limits records = Inr ps"
    and leaf: "chain \<noteq> []" "leaf = hd chain" and spki: "extract_subject_public_key_info leaf = Inr spki"
    and rest: "(case find_match (\<lambda>r. pr_usage r = DaneEe \<and> tlsa_matches sha256 sha512 r leaf spki) 0 ps of
       Some m \<Rightarrow> Inr m
     | None \<Rightarrow> rbind (parse_chain lib chain) (\<lambda>parsed_chain.
         rbind (ok_or ChainLength (slice_get parsed_chain 0)) (\<lambda>leaf_certificate.
         trust_anchor_loop sha256 sha512 lib limits leaf chain leaf_certificate parsed_chain base_domain time 0 False ps))) = Inr m"
    using assms
    by (auto simp: verify_dane_chain_def result_inv Let_def material_matches_iff hd_conv_nth split: if_splits)
  show ?thesis
  proof (cases "find_match (\<lambda>r. pr_usage r = DaneEe \<and> tlsa_matches sha256 sha512 r leaf spki) 0 ps")
    case (Some m')
    then have "m' = m" using rest by simp
    with Some obtain i where "i < length ps" "pr_usage (ps ! i) = DaneEe" "tlsa_matches sha256 sha512 (ps ! i) leaf spki"
        "m = match_of i (ps ! i)"
      unfolding find_match_Some by auto
    then show ?thesis using ps leaf spki by (auto simp: parse_dane_records_Inr)
  next
    case None
    then obtain presented where p: "parse_chain lib chain = Inr presented" "presented \<noteq> []"
      and loop: "trust_anchor_loop sha256 sha512 lib limits leaf chain (hd presented) presented base_domain time 0 False ps = Inr m"
      using rest by (auto simp: result_inv hd_conv_nth)
    obtain i where "i < length ps" "pr_usage (ps ! i) = DaneTa" "m = match_of i (ps ! i)"
        "anchored_path sha256 sha512 lib limits chain (hd presented) presented base_domain time (ps ! i)"
      using trust_anchor_loop_Inr [OF loop] by auto
    moreover have "\<forall>p \<in> set ps. pr_usage p = DaneEe \<longrightarrow> \<not> tlsa_matches sha256 sha512 p leaf spki"
      using None by (auto simp: find_match_None)
    ultimately show ?thesis using ps p leaf spki unfolding parse_dane_records_Inr by blast
  qed
qed

section \<open>A concrete certificate\<close>

definition sample_spki :: bytes where
  "sample_spki = [0x30, 9, 0x30, 3, 6, 1, 0x2a, 3, 2, 0, 1]"

definition sample_certificate :: bytes where
  "sample_certificate =
     [0x30, 0x2a, 0x30, 0x1f, 2, 1, 1, 0x30, 3, 6, 1, 0x2a, 0x30, 0, 0x30, 6, 0x17, 1, 0x30, 0x17, 1, 0x31, 0x30, 0] @
     sample_spki @ [0x30, 3, 6, 1, 0x2a, 3, 2, 0, 0]"

definition sample_tlsa :: tlsa where
  "sample_tlsa = \<lparr>tlsa_usage = 3, tlsa_selector = 1, tlsa_matching_type = 0, tlsa_association_data = sample_spki\<rparr>"

definition sample_lib :: "bytes x509_lib" where
  "sample_lib = \<lparr>xl_from_der = Some, xl_to_der = Some, xl_verify = (\<lambda>_ _ _ _ _ _. False)\<rparr>"

lemmas certificate_eval = read_tlv_def read_length_def slice_get_def slice_range_def usize_add_def usize_max_def
  der_is_empty_def der_new_def read_expected_def validate_version_def validate_integer_def
  validate_algorithm_identifier_def validate_bit_string_def validate_name_def validate_name_loop.simps read_time_def
  validate_validity_def validate_spki_def validate_tbs_tail.simps constant_time_eq_def read_tbs_prefix_def peek_tag_def
  TAG_INTEGER_def TAG_BIT_STRING_def TAG_OBJECT_IDENTIFIER_def TAG_SEQUENCE_def TAG_UTC_TIME_def
  TAG_GENERALIZED_TIME_def TAG_EXPLICIT_VERSION_def Let_def

lemma sample_extract: "extract_subject_public_key_info sample_certificate = Inr sample_spki"
  by (simp add: extract_subject_public_key_info_def sample_certificate_def sample_spki_def certificate_eval
      cong: rbind_weak_cong let_weak_cong if_weak_cong)

lemma sample_chain:
  "verify_dane_chain (\<lambda>x. x) (\<lambda>x. x) sample_lib [sample_certificate] [0x61] [sample_tlsa] 0 default_dane_limits =
     Inr \<lparr>dm_record_index = 0, dm_usage = DaneEe, dm_selector = SubjectPublicKeyInfo, dm_matching_type = MatchExact\<rparr>"
proof -
  have len: "length sample_certificate = 44" "length sample_spki = 11" "sample_spki \<noteq> []"
    by (simp_all add: sample_certificate_def sample_spki_def)
  then have "sample_certificate \<noteq> []" by auto
  then show ?thesis
    using len
    by (simp add: verify_dane_chain_def validate_chain_inputs_def dane_parse_record_def sample_tlsa_def sample_extract
        default_dane_limits_def DEFAULT_MAX_CERTIFICATE_LEN_def DEFAULT_MAX_SPKI_LEN_def MAX_TLSA_ASSOCIATION_LEN_def
        material_matches_iff tlsa_matches_def match_of_def Let_def slice_get_def)
qed

lemma extracted_key_position_witness:
  "\<exists>pre key post. sample_certificate = pre @ sample_spki @ post \<and> sample_spki = der_encode TAG_SEQUENCE key"
proof -
  obtain key where "sample_spki = der_encode TAG_SEQUENCE key" using extracted_key_position [OF sample_extract] by blast
  moreover have "\<exists>pre post. sample_certificate = pre @ sample_spki @ post" unfolding sample_certificate_def by blast
  ultimately show ?thesis by blast
qed

lemma sample_end_entity:
  "\<exists>m. verify_dane_ee (\<lambda>x. x) (\<lambda>x. x) sample_certificate [sample_tlsa] default_dane_limits = Inr m"
proof -
  have len: "length sample_certificate = 44" "length sample_spki = 11" "sample_spki \<noteq> []"
    by (simp_all add: sample_certificate_def sample_spki_def)
  then have "sample_certificate \<noteq> []" by auto
  with len show ?thesis
    by (simp add: verify_dane_ee_def dane_parse_record_def sample_tlsa_def sample_extract
        default_dane_limits_def DEFAULT_MAX_CERTIFICATE_LEN_def DEFAULT_MAX_SPKI_LEN_def MAX_TLSA_ASSOCIATION_LEN_def
        material_matches_iff tlsa_matches_def Let_def slice_get_def)
qed

lemma dane_ee_exact_witness:
  "\<exists>p. dane_parse_record default_dane_limits sample_tlsa = Inr p \<and> pr_usage p = DaneEe \<and>
     tlsa_matches (\<lambda>x. x) (\<lambda>x. x) p sample_certificate sample_spki"
proof -
  obtain m where "verify_dane_ee (\<lambda>x. x) (\<lambda>x. x) sample_certificate [sample_tlsa] default_dane_limits = Inr m"
    using sample_end_entity by blast
  then show ?thesis
    unfolding dane_ee_exact by (auto simp: list_all2_Cons1 sample_extract)
qed

theorem dane_chain_sound_witness:
  "\<exists>p. dane_parse_record default_dane_limits sample_tlsa = Inr p \<and> pr_usage p = DaneEe \<and>
     tlsa_matches (\<lambda>x. x) (\<lambda>x. x) p sample_certificate sample_spki"
  using dane_chain_sound [OF sample_chain] sample_extract
  by (auto simp: list_all2_Cons1 match_of_def)

end
