(* ===== verification/Dnssec.thy ===== *)
theory Dnssec
  imports Dns_Message "HOL-Library.List_Lexorder"
begin

unbundle bit_operations_syntax

text \<open>
  Local DNSSEC validation (src/crates/hns-dnssec/src/lib.rs): RRset signatures, authenticated key sets,
  delegations, and the NSEC and NSEC3 denial proofs.

  OpenSSL is a parameter, the record \<open>openssl\<close>: the message digests, the constant-time comparison
  (\<open>None\<close> when the call panics), the key constructors, the DER form of an ECDSA signature and the two
  verifiers; a failing call is \<open>None\<close>.  What is relied on is stated as \<open>openssl_laws\<close>.  A call that
  panics makes the operation that contains it \<open>None\<close>.  Failing allocations are not modelled.
\<close>

section \<open>Parameters and types\<close>

definition ALGORITHM_RSASHA1 :: u8 where "ALGORITHM_RSASHA1 = 5"
definition ALGORITHM_RSASHA1_NSEC3 :: u8 where "ALGORITHM_RSASHA1_NSEC3 = 7"
definition ALGORITHM_RSASHA256 :: u8 where "ALGORITHM_RSASHA256 = 8"
definition ALGORITHM_RSASHA512 :: u8 where "ALGORITHM_RSASHA512 = 10"
definition ALGORITHM_ECDSA_P256_SHA256 :: u8 where "ALGORITHM_ECDSA_P256_SHA256 = 13"
definition ALGORITHM_ECDSA_P384_SHA384 :: u8 where "ALGORITHM_ECDSA_P384_SHA384 = 14"
definition ALGORITHM_ED25519 :: u8 where "ALGORITHM_ED25519 = 15"
definition ALGORITHM_ED448 :: u8 where "ALGORITHM_ED448 = 16"

lemmas algorithm_numbers = ALGORITHM_RSASHA1_def ALGORITHM_RSASHA1_NSEC3_def ALGORITHM_RSASHA256_def
  ALGORITHM_RSASHA512_def ALGORITHM_ECDSA_P256_SHA256_def ALGORITHM_ECDSA_P384_SHA384_def
  ALGORITHM_ED25519_def ALGORITHM_ED448_def

datatype message_digest = MdSha1 | MdSha256 | MdSha384 | MdSha512

datatype ec_curve = Prime256v1 | Secp384r1

datatype ed_id = Ed25519 | Ed448

record 'key openssl =
  os_hash :: "message_digest \<Rightarrow> bytes \<Rightarrow> bytes option"
  os_memcmp_eq :: "bytes \<Rightarrow> bytes \<Rightarrow> bool option"
  os_rsa_key :: "bytes \<Rightarrow> bytes \<Rightarrow> 'key option"
  os_ec_key :: "ec_curve \<Rightarrow> bytes \<Rightarrow> 'key option"
  os_raw_key :: "ed_id \<Rightarrow> bytes \<Rightarrow> 'key option"
  os_ecdsa_der :: "bytes \<Rightarrow> bytes \<Rightarrow> bytes option"
  os_verify_digest :: "message_digest \<Rightarrow> 'key \<Rightarrow> bool \<Rightarrow> bytes \<Rightarrow> bytes \<Rightarrow> bool option"
  os_verify_oneshot :: "'key \<Rightarrow> bytes \<Rightarrow> bytes \<Rightarrow> bool option"

record dnssec_limits =
  sl_max_rrset_records :: usize
  sl_max_signatures :: usize
  sl_max_keys :: usize
  sl_max_signed_data_len :: usize
  sl_max_nsec3_iterations :: u16
  sl_max_denial_records :: usize

definition default_dnssec_limits :: dnssec_limits where
  "default_dnssec_limits =
     \<lparr>sl_max_rrset_records = 1024, sl_max_signatures = 64, sl_max_keys = 64,
      sl_max_signed_data_len = 4 * 1024 * 1024, sl_max_nsec3_iterations = 500, sl_max_denial_records = 256\<rparr>"

record verified_rrset =
  vr_owner :: dns_name
  vr_record_type :: record_type
  vr_key_tag :: u16
  vr_algorithm :: u8
  vr_inception :: u32
  vr_expiration :: u32
  vr_observed_at_unix :: u64
  vr_expires_at_unix :: u64

definition rrset_fresh_at :: "verified_rrset \<Rightarrow> u64 \<Rightarrow> bool" where
  "rrset_fresh_at v now \<longleftrightarrow> vr_observed_at_unix v \<le> now \<and> now < vr_expires_at_unix v"

record authenticated_dnskeys =
  ak_zone :: dns_name
  ak_records :: "resource_record list"
  ak_delegation_key_tag :: u16
  ak_delegation_algorithm :: u8
  ak_observed_at_unix :: u64
  ak_expires_at_unix :: u64

definition keys_fresh_at :: "authenticated_dnskeys \<Rightarrow> u64 \<Rightarrow> bool" where
  "keys_fresh_at k now \<longleftrightarrow> ak_observed_at_unix k \<le> now \<and> now < ak_expires_at_unix k"

record signed_rrset =
  sr_records :: "resource_record list"
  sr_signatures :: "resource_record list"

datatype denial = NoData | NameError

datatype dnssec_error =
  EmptyRrset | DnssecLimit | RrsetMismatch | MissingSignature | MissingKey | InvalidKey
| UnsupportedAlgorithm u8 | UnsupportedDigest u8 | SignatureTime | SignatureMismatch | UnsupportedRdata
| DsMismatch | DenialMismatch

definition usize_saturating_add :: "usize \<Rightarrow> usize \<Rightarrow> usize" where
  "usize_saturating_add a b = min (a + b) usize_max"

section \<open>Selection of records\<close>

definition rrsig_for :: "resource_record \<Rightarrow> dns_name \<Rightarrow> record_type \<Rightarrow> rrsig option" where
  "rrsig_for record owner record_type =
     (if rr_name record \<noteq> owner \<or> rr_class record \<noteq> CLASS_IN \<or> rr_type record \<noteq> RtRrsig then None
      else case rr_rdata record of
        RdRrsig signature \<Rightarrow> if rs_type_covered signature = record_type then Some signature else None
      | _ \<Rightarrow> None)"

definition dnskey_for :: "resource_record \<Rightarrow> dns_name \<Rightarrow> dnskey option" where
  "dnskey_for record owner =
     (if rr_name record \<noteq> owner \<or> rr_class record \<noteq> CLASS_IN \<or> rr_type record \<noteq> RtDnskey then None
      else case rr_rdata record of RdDnskey key \<Rightarrow> Some key | _ \<Rightarrow> None)"

definition supported_algorithm :: "u8 \<Rightarrow> bool" where
  "supported_algorithm algorithm \<longleftrightarrow>
     algorithm \<in> {ALGORITHM_RSASHA1, ALGORITHM_RSASHA1_NSEC3, ALGORITHM_RSASHA256, ALGORITHM_RSASHA512,
       ALGORITHM_ECDSA_P256_SHA256, ALGORITHM_ECDSA_P384_SHA384, ALGORITHM_ED25519, ALGORITHM_ED448}"

definition serial_le :: "u32 \<Rightarrow> u32 \<Rightarrow> bool" where
  "serial_le left right \<longleftrightarrow> left = right \<or> right - left < 0x80000000"

definition serial_in_window :: "u32 \<Rightarrow> u32 \<Rightarrow> u32 \<Rightarrow> bool" where
  "serial_in_window now inception expiration \<longleftrightarrow> serial_le inception now \<and> serial_le now expiration"

definition iter_min :: "u32 list \<Rightarrow> u32" where
  "iter_min xs = (case xs of [] \<Rightarrow> 0 | x # xs \<Rightarrow> foldl min x xs)"

text \<open>The additions of two or three 32-bit values do not overflow a \<open>u64\<close>.\<close>

definition records_expire_at :: "resource_record list \<Rightarrow> u32 \<Rightarrow> u64" where
  "records_expire_at records observed_at = ucast observed_at + ucast (iter_min (map rr_ttl records))"

definition rrset_expires_at :: "resource_record list \<Rightarrow> resource_record \<Rightarrow> rrsig \<Rightarrow> u32 \<Rightarrow> u64" where
  "rrset_expires_at records signature_record signature validation_time =
     (let ttl_deadline = ucast validation_time +
            ucast (iter_min (map rr_ttl records @ [rr_ttl signature_record, rs_original_ttl signature]));
          signature_deadline = ucast validation_time + ucast (rs_expiration signature - validation_time) + 1
      in min ttl_deadline signature_deadline)"

section \<open>Canonical form\<close>

definition encode_ds :: "ds \<Rightarrow> bytes" where
  "encode_ds d = write_u16 [] (ds_key_tag d) @ [ds_algorithm d, ds_digest_type d] @ ds_digest d"

definition encode_dnskey :: "dnskey \<Rightarrow> bytes" where
  "encode_dnskey key = write_u16 [] (dk_flags key) @ [dk_protocol key, dk_algorithm key] @ dk_public_key key"

definition encode_name :: "dns_name \<Rightarrow> bytes \<Rightarrow> (dnssec_error, bytes) result" where
  "encode_name name out = map_err (\<lambda>_. UnsupportedRdata) (name_encode name out)"

definition signature_prefix :: "rrsig \<Rightarrow> (dnssec_error, bytes) result" where
  "signature_prefix signature =
     (let out = write_u16 [] (code (rs_type_covered signature)) @ [rs_algorithm signature, rs_labels signature];
          out = write_u32 out (rs_original_ttl signature);
          out = write_u32 out (rs_expiration signature);
          out = write_u32 out (rs_inception signature);
          out = write_u16 out (rs_key_tag signature)
      in encode_name (rs_signer signature) out)"

definition sec_encode_rrsig :: "rrsig \<Rightarrow> (dnssec_error, bytes) result" where
  "sec_encode_rrsig signature = rbind (signature_prefix signature) (\<lambda>out. Inr (out @ rs_signature signature))"

fun canonical_txt :: "bytes list \<Rightarrow> bytes \<Rightarrow> (dnssec_error, bytes) result" where
  "canonical_txt [] out = Inr out"
| "canonical_txt (str # rest) out =
     (if 255 < length str then Inl UnsupportedRdata else canonical_txt rest (out @ of_nat (length str) # str))"

definition canonical_nsec3 :: "nsec3 \<Rightarrow> (dnssec_error, bytes) result" where
  "canonical_nsec3 n =
     (let out = write_u16 [n3_hash_algorithm n, n3_flags n] (n3_iterations n) in
      if 255 < length (n3_salt n) then Inl UnsupportedRdata
      else let out = out @ of_nat (length (n3_salt n)) # n3_salt n in
      if 255 < length (n3_next_hashed_owner n) then Inl UnsupportedRdata
      else Inr (out @ of_nat (length (n3_next_hashed_owner n)) # n3_next_hashed_owner n @ n3_type_bitmaps n))"

definition canonical_soa :: "soa \<Rightarrow> (dnssec_error, bytes) result" where
  "canonical_soa s =
     rbind (encode_name (soa_mname s) []) (\<lambda>out.
     rbind (encode_name (soa_rname s) out) (\<lambda>out.
     Inr (foldl write_u32 out [soa_serial s, soa_refresh s, soa_retry s, soa_expire s, soa_minimum s])))"

text \<open>The source matches on the pair of type and data; every pair it does not list is refused.\<close>

definition canonical_pair :: "record_type \<Rightarrow> rdata \<Rightarrow> (dnssec_error, bytes) result" where
  "canonical_pair ty rd = (case ty of
     RtA \<Rightarrow> (case rd of RdA address \<Rightarrow> Inr (v4_octets address) | _ \<Rightarrow> Inl UnsupportedRdata)
   | RtAaaa \<Rightarrow> (case rd of RdAaaa address \<Rightarrow> Inr (v6_octets address) | _ \<Rightarrow> Inl UnsupportedRdata)
   | RtNs \<Rightarrow> (case rd of RdNs name \<Rightarrow> encode_name name [] | _ \<Rightarrow> Inl UnsupportedRdata)
   | RtCname \<Rightarrow> (case rd of RdCname name \<Rightarrow> encode_name name [] | _ \<Rightarrow> Inl UnsupportedRdata)
   | RtSoa \<Rightarrow> (case rd of RdSoa soa \<Rightarrow> canonical_soa soa | _ \<Rightarrow> Inl UnsupportedRdata)
   | RtMx \<Rightarrow> (case rd of
       RdMx mx \<Rightarrow> encode_name (mx_exchange mx) (write_u16 [] (mx_preference mx)) | _ \<Rightarrow> Inl UnsupportedRdata)
   | RtTxt \<Rightarrow> (case rd of RdTxt strings \<Rightarrow> canonical_txt strings [] | _ \<Rightarrow> Inl UnsupportedRdata)
   | RtSrv \<Rightarrow> (case rd of
       RdSrv srv \<Rightarrow> encode_name (srv_target srv)
         (write_u16 (write_u16 (write_u16 [] (srv_priority srv)) (srv_weight srv)) (srv_port srv))
     | _ \<Rightarrow> Inl UnsupportedRdata)
   | RtDs \<Rightarrow> (case rd of RdDs ds \<Rightarrow> Inr (encode_ds ds) | _ \<Rightarrow> Inl UnsupportedRdata)
   | RtDnskey \<Rightarrow> (case rd of RdDnskey key \<Rightarrow> Inr (encode_dnskey key) | _ \<Rightarrow> Inl UnsupportedRdata)
   | RtRrsig \<Rightarrow> (case rd of RdRrsig signature \<Rightarrow> sec_encode_rrsig signature | _ \<Rightarrow> Inl UnsupportedRdata)
   | RtNsec \<Rightarrow> (case rd of
       RdNsec nsec \<Rightarrow> rbind (encode_name (ns_next_domain nsec) []) (\<lambda>out. Inr (out @ ns_type_bitmaps nsec))
     | _ \<Rightarrow> Inl UnsupportedRdata)
   | RtNsec3 \<Rightarrow> (case rd of RdNsec3 nsec3 \<Rightarrow> canonical_nsec3 nsec3 | _ \<Rightarrow> Inl UnsupportedRdata)
   | RtTlsa \<Rightarrow> (case rd of
       RdTlsa t \<Rightarrow> Inr ([tlsa_usage t, tlsa_selector t, tlsa_matching_type t] @ tlsa_association_data t)
     | _ \<Rightarrow> Inl UnsupportedRdata)
   | RtSvcb \<Rightarrow> (case rd of RdOpaque raw \<Rightarrow> Inr raw | _ \<Rightarrow> Inl UnsupportedRdata)
   | RtHttps \<Rightarrow> (case rd of RdOpaque raw \<Rightarrow> Inr raw | _ \<Rightarrow> Inl UnsupportedRdata)
   | RtUnknown _ \<Rightarrow> (case rd of RdOpaque raw \<Rightarrow> Inr raw | _ \<Rightarrow> Inl UnsupportedRdata)
   | RtOpt \<Rightarrow> Inl UnsupportedRdata)"

definition canonical_rdata :: "resource_record \<Rightarrow> (dnssec_error, bytes) result" where
  "canonical_rdata record = canonical_pair (rr_type record) (rr_rdata record)"

fun owner_labels_loop :: "bytes list \<Rightarrow> bytes \<Rightarrow> (dnssec_error, bytes) result" where
  "owner_labels_loop [] out = Inr (out @ [0])"
| "owner_labels_loop (label # rest) out =
     (if 255 < length label then Inl UnsupportedRdata
      else owner_labels_loop rest (out @ of_nat (length label) # label))"

definition canonical_owner :: "dns_name \<Rightarrow> usize \<Rightarrow> (dnssec_error, bytes) result" where
  "canonical_owner owner n =
     (let owner_labels = labels owner in
      if n > length owner_labels then Inl RrsetMismatch
      else let out = (if n < length owner_labels then [1, 42] else []);
               start = length owner_labels - n
      in rbind (ok_or RrsetMismatch (slice_from owner_labels start)) (\<lambda>ls. owner_labels_loop ls out))"

definition canonical_record :: "resource_record \<Rightarrow> rrsig \<Rightarrow> (dnssec_error, bytes) result" where
  "canonical_record record signature =
     rbind (canonical_owner (rr_name record) (unat (rs_labels signature))) (\<lambda>out.
     let out = write_u32 (write_u16 (write_u16 out (code (rr_type record))) (rr_class record)) (rs_original_ttl signature) in
     rbind (canonical_rdata record) (\<lambda>rdata.
     if U16_MAX < length rdata then Inl DnssecLimit
     else Inr (write_u16 out (of_nat (length rdata)) @ rdata)))"

text \<open>\<open>collect::<Result<Vec<_>, _>>\<close>: the first error, or all values.\<close>

fun collect_results :: "('e, 'a) result list \<Rightarrow> ('e, 'a list) result" where
  "collect_results [] = Inr []"
| "collect_results (r # rs) = rbind r (\<lambda>x. rbind (collect_results rs) (\<lambda>xs. Inr (x # xs)))"

fun append_bounded :: "usize \<Rightarrow> bytes list \<Rightarrow> bytes \<Rightarrow> (dnssec_error, bytes) result" where
  "append_bounded maximum [] out = Inr out"
| "append_bounded maximum (record # rest) out =
     (if usize_saturating_add (length out) (length record) > maximum then Inl DnssecLimit
      else append_bounded maximum rest (out @ record))"

definition canonical_signed_data :: "resource_record list \<Rightarrow> rrsig \<Rightarrow> usize \<Rightarrow> (dnssec_error, bytes) result" where
  "canonical_signed_data records signature maximum =
     rbind (signature_prefix signature) (\<lambda>out.
     rbind (collect_results (map (\<lambda>record. canonical_record record signature) records)) (\<lambda>canonical.
     append_bounded maximum (sort canonical) out))"

definition rrsig_signed_data :: "resource_record list \<Rightarrow> rrsig \<Rightarrow> usize \<Rightarrow> (dnssec_error, bytes) result" where
  "rrsig_signed_data records signature maximum = canonical_signed_data records signature maximum"

definition dnskey_tag :: "dnskey \<Rightarrow> u16" where
  "dnskey_tag key =
     (let accumulator = foldl (\<lambda>accumulator (index, byte).
            accumulator + (if index mod 2 = 0 then push_bit 8 (ucast byte) else ucast byte))
            (0 :: u32) (enumerate (0 :: nat) (encode_dnskey key));
          accumulator = accumulator + (drop_bit 16 accumulator AND 0xffff)
      in ucast (accumulator AND 0xffff))"

section \<open>Signatures\<close>

definition digest_ds :: "'key openssl \<Rightarrow> u8 \<Rightarrow> bytes \<Rightarrow> (dnssec_error, bytes) result" where
  "digest_ds os digest_type data =
     rbind (if digest_type = 1 then Inr MdSha1 else if digest_type = 2 then Inr MdSha256
            else if digest_type = 4 then Inr MdSha384 else Inl (UnsupportedDigest digest_type)) (\<lambda>digest.
     ok_or (UnsupportedDigest digest_type) (os_hash os digest data))"

definition rsa_components :: "bytes \<Rightarrow> (bytes \<times> bytes) option" where
  "rsa_components raw =
     Option.bind (slice_get raw 0) (\<lambda>first.
     Option.bind (if first = 0 then
         Option.bind (slice_get raw 1) (\<lambda>high. Option.bind (slice_get raw 2) (\<lambda>low.
         Some (unat (be_word [high, low] :: u16), 3)))
       else Some (unat first, 1)) (\<lambda>(exponent_size, offset).
     if exponent_size = 0 then None
     else Option.bind (usize_add offset exponent_size) (\<lambda>exponent_end.
     Option.bind (slice_range raw offset exponent_end) (\<lambda>exponent.
     Option.bind (slice_from raw exponent_end) (\<lambda>modulus.
     if modulus \<noteq> [] then Some (exponent, modulus) else None)))))"

definition verify_digest :: "'key openssl \<Rightarrow> message_digest \<Rightarrow> 'key \<Rightarrow> bytes \<Rightarrow> bytes \<Rightarrow> bool \<Rightarrow> bool" where
  "verify_digest os digest key data signature rsa =
     (case os_verify_digest os digest key rsa data signature of None \<Rightarrow> False | Some ok \<Rightarrow> ok)"

definition verify_rsa :: "'key openssl \<Rightarrow> message_digest \<Rightarrow> bytes \<Rightarrow> bytes \<Rightarrow> bytes \<Rightarrow> bool" where
  "verify_rsa os digest public_key data signature =
     (case rsa_components public_key of None \<Rightarrow> False
      | Some (exponent, modulus) \<Rightarrow>
          (case os_rsa_key os exponent modulus of None \<Rightarrow> False
           | Some key \<Rightarrow> verify_digest os digest key data signature True))"

definition verify_ecdsa ::
  "'key openssl \<Rightarrow> ec_curve \<Rightarrow> usize \<Rightarrow> message_digest \<Rightarrow> bytes \<Rightarrow> bytes \<Rightarrow> bytes \<Rightarrow> bool" where
  "verify_ecdsa os curve coordinate_size digest public_key data signature =
     (if length public_key \<noteq> min (coordinate_size * 2) usize_max \<or>
         length signature \<noteq> min (coordinate_size * 2) usize_max then False
      else case os_ec_key os curve (4 # public_key) of None \<Rightarrow> False
      | Some key \<Rightarrow>
          (case os_ecdsa_der os (take coordinate_size signature) (drop coordinate_size signature) of
             None \<Rightarrow> False
           | Some der \<Rightarrow> verify_digest os digest key data der False))"

definition verify_ed :: "'key openssl \<Rightarrow> ed_id \<Rightarrow> bytes \<Rightarrow> bytes \<Rightarrow> bytes \<Rightarrow> bool" where
  "verify_ed os i public_key data signature =
     (case os_raw_key os i public_key of None \<Rightarrow> False
      | Some key \<Rightarrow> (case os_verify_oneshot os key signature data of None \<Rightarrow> False | Some ok \<Rightarrow> ok))"

definition verify_signature :: "'key openssl \<Rightarrow> u8 \<Rightarrow> bytes \<Rightarrow> bytes \<Rightarrow> bytes \<Rightarrow> bool" where
  "verify_signature os algorithm public_key data signature =
     (if algorithm = ALGORITHM_RSASHA1 \<or> algorithm = ALGORITHM_RSASHA1_NSEC3
      then verify_rsa os MdSha1 public_key data signature
      else if algorithm = ALGORITHM_RSASHA256 then verify_rsa os MdSha256 public_key data signature
      else if algorithm = ALGORITHM_RSASHA512 then verify_rsa os MdSha512 public_key data signature
      else if algorithm = ALGORITHM_ECDSA_P256_SHA256
      then verify_ecdsa os Prime256v1 32 MdSha256 public_key data signature
      else if algorithm = ALGORITHM_ECDSA_P384_SHA384
      then verify_ecdsa os Secp384r1 48 MdSha384 public_key data signature
      else if algorithm = ALGORITHM_ED25519 then verify_ed os Ed25519 public_key data signature
      else if algorithm = ALGORITHM_ED448 then verify_ed os Ed448 public_key data signature
      else False)"

section \<open>RRsets\<close>

text \<open>The loop over the keys for one signature: whether some key verified, and whether one matched.\<close>

fun key_loop :: "'key openssl \<Rightarrow> rrsig \<Rightarrow> bytes \<Rightarrow> resource_record list \<Rightarrow> bool \<Rightarrow> bool \<times> bool" where
  "key_loop os signature signed_data [] saw_key = (False, saw_key)"
| "key_loop os signature signed_data (key_record # keys) saw_key =
     (case dnskey_for key_record (rs_signer signature) of
        None \<Rightarrow> key_loop os signature signed_data keys saw_key
      | Some key \<Rightarrow>
          if dk_protocol key \<noteq> 3 \<or> dk_flags key AND 0x0080 \<noteq> 0 then key_loop os signature signed_data keys saw_key
          else if dk_algorithm key \<noteq> rs_algorithm signature \<or> dnskey_tag key \<noteq> rs_key_tag signature
          then key_loop os signature signed_data keys saw_key
          else if verify_signature os (rs_algorithm signature) (dk_public_key key) signed_data (rs_signature signature)
          then (True, True)
          else key_loop os signature signed_data keys True)"

record rrset_scan =
  scan_covering :: usize
  scan_current :: bool
  scan_supported :: bool
  scan_key :: bool
  scan_unsupported :: "u8 option"

definition scan_start :: rrset_scan where
  "scan_start = \<lparr>scan_covering = 0, scan_current = False, scan_supported = False, scan_key = False,
     scan_unsupported = None\<rparr>"

definition verified_of :: "resource_record list \<Rightarrow> resource_record \<Rightarrow> resource_record \<Rightarrow> rrsig \<Rightarrow> u32 \<Rightarrow> verified_rrset" where
  "verified_of records rec1 signature_record signature validation_time =
     \<lparr>vr_owner = rr_name rec1, vr_record_type = rr_type rec1, vr_key_tag = rs_key_tag signature,
      vr_algorithm = rs_algorithm signature, vr_inception = rs_inception signature,
      vr_expiration = rs_expiration signature, vr_observed_at_unix = ucast validation_time,
      vr_expires_at_unix = rrset_expires_at records signature_record signature validation_time\<rparr>"

definition scan_error :: "rrset_scan \<Rightarrow> dnssec_error" where
  "scan_error s =
     (if scan_covering s = 0 then MissingSignature
      else if \<not> scan_current s then SignatureTime
      else if \<not> scan_supported s
      then UnsupportedAlgorithm (case scan_unsupported s of None \<Rightarrow> 0 | Some a \<Rightarrow> a)
      else if \<not> scan_key s then MissingKey
      else SignatureMismatch)"

fun signature_loop ::
  "'key openssl \<Rightarrow> resource_record list \<Rightarrow> resource_record \<Rightarrow> resource_record list \<Rightarrow> u32 \<Rightarrow> dnssec_limits \<Rightarrow>
   resource_record list \<Rightarrow> rrset_scan \<Rightarrow> (dnssec_error, verified_rrset) result"
where
  "signature_loop os records rec1 keys validation_time limits [] s = Inl (scan_error s)"
| "signature_loop os records rec1 keys validation_time limits (signature_record # rest) s =
     (case rrsig_for signature_record (rr_name rec1) (rr_type rec1) of
        None \<Rightarrow> signature_loop os records rec1 keys validation_time limits rest s
      | Some signature \<Rightarrow>
          if unat (rs_labels signature) \<noteq> length (labels (rr_name rec1))
          then signature_loop os records rec1 keys validation_time limits rest s
          else
          let s = s\<lparr>scan_covering := usize_saturating_add (scan_covering s) 1\<rparr> in
          if \<not> serial_in_window validation_time (rs_inception signature) (rs_expiration signature)
          then signature_loop os records rec1 keys validation_time limits rest s
          else
          let s = s\<lparr>scan_current := True\<rparr> in
          if \<not> supported_algorithm (rs_algorithm signature)
          then signature_loop os records rec1 keys validation_time limits rest
                 (s\<lparr>scan_unsupported := (case scan_unsupported s of None \<Rightarrow> Some (rs_algorithm signature) | Some a \<Rightarrow> Some a)\<rparr>)
          else
          let s = s\<lparr>scan_supported := True\<rparr> in
          rbind (rrsig_signed_data records signature (sl_max_signed_data_len limits)) (\<lambda>signed_data.
          case key_loop os signature signed_data keys (scan_key s) of
            (True, _) \<Rightarrow> Inr (verified_of records rec1 signature_record signature validation_time)
          | (False, saw_key) \<Rightarrow>
              signature_loop os records rec1 keys validation_time limits rest (s\<lparr>scan_key := saw_key\<rparr>)))"

definition verify_rrset ::
  "'key openssl \<Rightarrow> resource_record list \<Rightarrow> resource_record list \<Rightarrow> resource_record list \<Rightarrow> u32 \<Rightarrow> dnssec_limits \<Rightarrow>
   (dnssec_error, verified_rrset) result" where
  "verify_rrset os records signatures keys validation_time limits =
     (case records of
        [] \<Rightarrow> Inl EmptyRrset
      | rec1 # _ \<Rightarrow>
          if length records > sl_max_rrset_records limits \<or> length signatures > sl_max_signatures limits \<or>
             length keys > sl_max_keys limits then Inl DnssecLimit
          else if rr_class rec1 \<noteq> CLASS_IN \<or> rr_type rec1 = RtRrsig \<or> rr_type rec1 = RtOpt \<or>
             list_ex (\<lambda>record. rr_name record \<noteq> rr_name rec1 \<or> rr_type record \<noteq> rr_type rec1 \<or>
               rr_class record \<noteq> CLASS_IN) records then Inl RrsetMismatch
          else signature_loop os records rec1 keys validation_time limits signatures scan_start)"

section \<open>Delegations\<close>

fun ds_loop ::
  "'key openssl \<Rightarrow> dns_name \<Rightarrow> dnskey \<Rightarrow> bytes \<Rightarrow> resource_record list \<Rightarrow> bool \<Rightarrow> u8 option \<Rightarrow>
   (dnssec_error, unit) result option" where
  "ds_loop os owner key digest_input [] saw_candidate unsupported =
     Some (Inl (if saw_candidate \<and> unsupported \<noteq> None then UnsupportedDigest (the unsupported) else DsMismatch))"
| "ds_loop os owner key digest_input (record # rest) saw_candidate unsupported =
     (case rr_rdata record of
        RdDs ds \<Rightarrow>
          if rr_name record \<noteq> owner \<or> rr_class record \<noteq> CLASS_IN \<or> rr_type record \<noteq> RtDs \<or>
             ds_key_tag ds \<noteq> dnskey_tag key \<or> ds_algorithm ds \<noteq> dk_algorithm key
          then ds_loop os owner key digest_input rest saw_candidate unsupported
          else (case digest_ds os (ds_digest_type ds) digest_input of
                  Inr digest \<Rightarrow>
                    Option.bind (os_memcmp_eq os digest (ds_digest ds)) (\<lambda>eq.
                    if eq then Some (Inr ()) else ds_loop os owner key digest_input rest True unsupported)
                | Inl (UnsupportedDigest val) \<Rightarrow>
                    ds_loop os owner key digest_input rest True
                      (case unsupported of None \<Rightarrow> Some val | Some u \<Rightarrow> Some u)
                | Inl e \<Rightarrow> Some (Inl e))
      | _ \<Rightarrow> ds_loop os owner key digest_input rest saw_candidate unsupported)"

definition verify_ds ::
  "'key openssl \<Rightarrow> dns_name \<Rightarrow> dnskey \<Rightarrow> resource_record list \<Rightarrow> (dnssec_error, unit) result option" where
  "verify_ds os owner key records =
     (if dk_protocol key \<noteq> 3 \<or> dk_flags key AND 0x0080 \<noteq> 0 then Some (Inl InvalidKey)
      else case map_err (\<lambda>_. UnsupportedRdata) (name_encode owner []) of
        Inl e \<Rightarrow> Some (Inl e)
      | Inr digest_input \<Rightarrow> ds_loop os owner key (digest_input @ encode_dnskey key) records False None)"

fun dnskeys_loop ::
  "'key openssl \<Rightarrow> dns_name \<Rightarrow> resource_record list \<Rightarrow> resource_record list \<Rightarrow> resource_record list \<Rightarrow> u32 \<Rightarrow>
   dnssec_limits \<Rightarrow> resource_record list \<Rightarrow> bool \<Rightarrow> (dnssec_error, authenticated_dnskeys) result option" where
  "dnskeys_loop os zone trusted_ds dnskeys signatures validation_time limits [] saw_ds_match =
     Some (Inl (if saw_ds_match then SignatureMismatch else DsMismatch))"
| "dnskeys_loop os zone trusted_ds dnskeys signatures validation_time limits (key_record # rest) saw_ds_match =
     (case dnskey_for key_record zone of
        None \<Rightarrow> dnskeys_loop os zone trusted_ds dnskeys signatures validation_time limits rest saw_ds_match
      | Some key \<Rightarrow>
          if dk_flags key AND 0x0100 = 0
          then dnskeys_loop os zone trusted_ds dnskeys signatures validation_time limits rest saw_ds_match
          else Option.bind (verify_ds os zone key trusted_ds) (\<lambda>r.
          case r of
            Inl _ \<Rightarrow> dnskeys_loop os zone trusted_ds dnskeys signatures validation_time limits rest saw_ds_match
          | Inr _ \<Rightarrow>
              let key_tag = dnskey_tag key;
                  covering = filter (\<lambda>record. case rrsig_for record zone RtDnskey of None \<Rightarrow> False
                    | Some signature \<Rightarrow> rs_key_tag signature = key_tag \<and> rs_algorithm signature = dk_algorithm key) signatures
              in case verify_rrset os dnskeys covering [key_record] validation_time limits of
                   Inr verified \<Rightarrow>
                     Some (Inr \<lparr>ak_zone = zone, ak_records = dnskeys, ak_delegation_key_tag = key_tag,
                       ak_delegation_algorithm = dk_algorithm key, ak_observed_at_unix = ucast validation_time,
                       ak_expires_at_unix = min (vr_expires_at_unix verified) (records_expire_at trusted_ds validation_time)\<rparr>)
                 | Inl _ \<Rightarrow> dnskeys_loop os zone trusted_ds dnskeys signatures validation_time limits rest True))"

definition authenticate_dnskeys ::
  "'key openssl \<Rightarrow> dns_name \<Rightarrow> resource_record list \<Rightarrow> resource_record list \<Rightarrow> resource_record list \<Rightarrow> u32 \<Rightarrow>
   dnssec_limits \<Rightarrow> (dnssec_error, authenticated_dnskeys) result option" where
  "authenticate_dnskeys os zone trusted_ds dnskeys signatures validation_time limits =
     (if dnskeys = [] then Some (Inl EmptyRrset)
      else dnskeys_loop os zone trusted_ds dnskeys signatures validation_time limits dnskeys False)"

definition verify_rrset_with_keys ::
  "'key openssl \<Rightarrow> authenticated_dnskeys \<Rightarrow> resource_record list \<Rightarrow> resource_record list \<Rightarrow> u32 \<Rightarrow> dnssec_limits \<Rightarrow>
   (dnssec_error, verified_rrset) result" where
  "verify_rrset_with_keys os keys records signatures validation_time limits =
     (if \<not> keys_fresh_at keys (ucast validation_time) then Inl SignatureTime
      else rbind (verify_rrset os records signatures (ak_records keys) validation_time limits) (\<lambda>verified.
      Inr (verified\<lparr>vr_expires_at_unix := min (vr_expires_at_unix verified) (ak_expires_at_unix keys)\<rparr>)))"

definition authenticate_child_dnskeys ::
  "'key openssl \<Rightarrow> authenticated_dnskeys \<Rightarrow> dns_name \<Rightarrow> signed_rrset \<Rightarrow> signed_rrset \<Rightarrow> u32 \<Rightarrow> dnssec_limits \<Rightarrow>
   (dnssec_error, authenticated_dnskeys) result option" where
  "authenticate_child_dnskeys os parent child_zone child_ds child_dnskeys validation_time limits =
     (case verify_rrset_with_keys os parent (sr_records child_ds) (sr_signatures child_ds) validation_time limits of
        Inl e \<Rightarrow> Some (Inl e)
      | Inr verified \<Rightarrow>
          if vr_owner verified \<noteq> child_zone \<or> vr_record_type verified \<noteq> RtDs then Some (Inl RrsetMismatch)
          else map_option (\<lambda>r. rbind r (\<lambda>child.
            Inr (child\<lparr>
              ak_observed_at_unix := max (max (ak_observed_at_unix child) (ak_observed_at_unix parent)) (vr_observed_at_unix verified),
              ak_expires_at_unix := min (min (ak_expires_at_unix child) (ak_expires_at_unix parent)) (vr_expires_at_unix verified)\<rparr>)))
            (authenticate_dnskeys os child_zone (sr_records child_ds) (sr_records child_dnskeys)
               (sr_signatures child_dnskeys) validation_time limits))"

end
