(* ===== verification/Dnssec_Laws.thy ===== *)
theory Dnssec_Laws
  imports Dnssec
begin

unbundle bit_operations_syntax

text \<open>
  What an accepted RRset signature, key set and chain of delegations say: the exact condition under which
  \<open>verify_rrset\<close> accepts and what each of its errors means, soundness of the DS check, the path of digests
  and signatures behind every authenticated key set, and the lifetime of the evidence.
\<close>

section \<open>Library laws\<close>

text \<open>The documented behaviour of \<open>memcmp::eq\<close>: it compares slices of the same length and panics otherwise.\<close>

definition openssl_laws :: "'key openssl \<Rightarrow> bool" where
  "openssl_laws os \<longleftrightarrow> (\<forall>a b. os_memcmp_eq os a b = (if length a = length b then Some (a = b) else None))"

section \<open>Searches\<close>

text \<open>A search that passes over elements with \<open>Q\<close> reaches one with \<open>P\<close>.\<close>

definition reaches :: "('a \<Rightarrow> bool) \<Rightarrow> ('a \<Rightarrow> bool) \<Rightarrow> 'a list \<Rightarrow> bool" where
  "reaches Q P xs \<longleftrightarrow> (\<exists>pre x post. xs = pre @ x # post \<and> P x \<and> (\<forall>p \<in> set pre. Q p))"

lemma reaches_Nil [simp]: "\<not> reaches Q P []"
  by (simp add: reaches_def)

lemma reaches_Cons: "reaches Q P (x # xs) \<longleftrightarrow> P x \<or> Q x \<and> reaches Q P xs" (is "?l \<longleftrightarrow> ?r")
proof
  assume ?l
  then obtain pre y post where f: "x # xs = pre @ y # post" "P y" "\<forall>p \<in> set pre. Q p"
    unfolding reaches_def by blast
  then show ?r
  proof (cases pre)
    case (Cons p ps)
    then have "reaches Q P xs" using f unfolding reaches_def by (intro exI [of _ ps] exI [of _ y] exI [of _ post]) simp
    with f Cons show ?thesis by simp
  qed simp
next
  assume ?r
  then show ?l
  proof
    assume "P x"
    then show ?l unfolding reaches_def by (intro exI [of _ "[]"] exI [of _ x] exI [of _ xs]) simp
  next
    assume "Q x \<and> reaches Q P xs"
    then obtain pre y post where "xs = pre @ y # post" "P y" "\<forall>p \<in> set (x # pre). Q p"
      unfolding reaches_def by auto
    then show ?l unfolding reaches_def by (intro exI [of _ "x # pre"] exI [of _ y] exI [of _ post]) simp
  qed
qed

lemma reachesE:
  assumes "reaches Q P xs"
  obtains x where "x \<in> set xs" and "P x"
  using assms unfolding reaches_def by (metis in_set_conv_decomp)

section \<open>Keys and signatures\<close>

definition usable_key :: "rrsig \<Rightarrow> resource_record \<Rightarrow> dnskey \<Rightarrow> bool" where
  "usable_key sig r key \<longleftrightarrow>
     dnskey_for r (rs_signer sig) = Some key \<and> dk_protocol key = 3 \<and> dk_flags key AND 0x0080 = 0 \<and>
     dk_algorithm key = rs_algorithm sig \<and> dnskey_tag key = rs_key_tag sig"

definition key_accepts :: "'key openssl \<Rightarrow> rrsig \<Rightarrow> bytes \<Rightarrow> resource_record \<Rightarrow> bool" where
  "key_accepts os sig data r \<longleftrightarrow>
     (\<exists>key. usable_key sig r key \<and> verify_signature os (rs_algorithm sig) (dk_public_key key) data (rs_signature sig))"

lemma key_loop_eq:
  "key_loop os sig data keys saw =
     (if list_ex (key_accepts os sig data) keys then (True, True)
      else (False, saw \<or> list_ex (\<lambda>r. \<exists>key. usable_key sig r key) keys))"
  by (induction keys arbitrary: saw) (auto simp: key_accepts_def usable_key_def split: option.split)

definition covering_signature :: "resource_record \<Rightarrow> resource_record \<Rightarrow> rrsig \<Rightarrow> bool" where
  "covering_signature rec1 s sig \<longleftrightarrow>
     rrsig_for s (rr_name rec1) (rr_type rec1) = Some sig \<and> unat (rs_labels sig) = length (labels (rr_name rec1))"

definition current_signature :: "resource_record \<Rightarrow> u32 \<Rightarrow> resource_record \<Rightarrow> rrsig \<Rightarrow> bool" where
  "current_signature rec1 time s sig \<longleftrightarrow>
     covering_signature rec1 s sig \<and> serial_in_window time (rs_inception sig) (rs_expiration sig)"

definition usable_signature :: "resource_record \<Rightarrow> u32 \<Rightarrow> resource_record \<Rightarrow> rrsig \<Rightarrow> bool" where
  "usable_signature rec1 time s sig \<longleftrightarrow> current_signature rec1 time s sig \<and> supported_algorithm (rs_algorithm sig)"

definition signature_accepts ::
  "'key openssl \<Rightarrow> resource_record list \<Rightarrow> resource_record list \<Rightarrow> dnssec_limits \<Rightarrow> rrsig \<Rightarrow> bool" where
  "signature_accepts os records keys limits sig \<longleftrightarrow>
     (\<exists>data. rrsig_signed_data records sig (sl_max_signed_data_len limits) = Inr data \<and>
       list_ex (key_accepts os sig data) keys)"

lemmas signature_defs = usable_signature_def current_signature_def covering_signature_def

lemma usable_signature_unique: "usable_signature rec1 time s a \<Longrightarrow> usable_signature rec1 time s b \<Longrightarrow> a = b"
  by (simp add: signature_defs)

text \<open>One step of the loop: an unusable signature record is passed over, a usable one fails, accepts or is
  passed over.\<close>

lemma signature_loop_skip:
  assumes "\<nexists>sig. usable_signature rec1 time s sig"
  shows "\<exists>st'. signature_loop os records rec1 keys time limits (s # rest) st =
    signature_loop os records rec1 keys time limits rest st' \<and> scan_supported st' = scan_supported st \<and>
    scan_key st' = scan_key st"
  using assms by (auto simp: signature_defs Let_def split: option.split)

lemma signature_loop_usable:
  assumes "usable_signature rec1 time s sig"
  shows "\<exists>st'. signature_loop os records rec1 keys time limits (s # rest) st =
    rbind (rrsig_signed_data records sig (sl_max_signed_data_len limits)) (\<lambda>data.
      if list_ex (key_accepts os sig data) keys then Inr (verified_of records rec1 s sig time)
      else signature_loop os records rec1 keys time limits rest
        (st'\<lparr>scan_key := scan_key st \<or> list_ex (\<lambda>r. \<exists>key. usable_key sig r key) keys\<rparr>)) \<and> scan_supported st'"
  using assms
  by (intro exI [of _ "st\<lparr>scan_covering := usize_saturating_add (scan_covering st) 1, scan_current := True,
    scan_supported := True\<rparr>"])
    (auto simp: signature_defs Let_def key_loop_eq intro!: rbind_cong)

text \<open>A usable signature that the loop passes over: its signed data are within bounds and no key accepts it.\<close>

definition passed_signature ::
  "'key openssl \<Rightarrow> resource_record list \<Rightarrow> resource_record list \<Rightarrow> u32 \<Rightarrow> dnssec_limits \<Rightarrow> resource_record \<Rightarrow> bool" where
  "passed_signature os records keys time limits s \<longleftrightarrow>
     (\<forall>sig. usable_signature (hd records) time s sig \<longrightarrow>
        (\<exists>data. rrsig_signed_data records sig (sl_max_signed_data_len limits) = Inr data \<and>
          \<not> list_ex (key_accepts os sig data) keys))"

lemma signature_loop_Inr:
  "signature_loop os records (hd records) keys time limits signatures st = Inr v \<longleftrightarrow>
     reaches (passed_signature os records keys time limits)
       (\<lambda>s. \<exists>sig. usable_signature (hd records) time s sig \<and> signature_accepts os records keys limits sig \<and>
          v = verified_of records (hd records) s sig time) signatures"
proof (induction signatures arbitrary: st)
  case Nil
  show ?case by simp
next
  case (Cons s rest)
  show ?case
  proof (cases "\<exists>sig. usable_signature (hd records) time s sig")
    case False
    obtain st' where "signature_loop os records (hd records) keys time limits (s # rest) st =
        signature_loop os records (hd records) keys time limits rest st'"
      using signature_loop_skip [OF False] by blast
    with False Cons.IH show ?thesis
      by (simp only: reaches_Cons passed_signature_def) blast
  next
    case True
    then obtain sig where u: "usable_signature (hd records) time s sig" by blast
    obtain st' where eq: "signature_loop os records (hd records) keys time limits (s # rest) st =
      rbind (rrsig_signed_data records sig (sl_max_signed_data_len limits)) (\<lambda>data.
      if list_ex (key_accepts os sig data) keys then Inr (verified_of records (hd records) s sig time)
      else signature_loop os records (hd records) keys time limits rest
        (st'\<lparr>scan_key := scan_key st \<or> list_ex (\<lambda>r. \<exists>key. usable_key sig r key) keys\<rparr>))"
      using signature_loop_usable [OF u] by blast
    have only: "\<And>b. usable_signature (hd records) time s b \<longleftrightarrow> b = sig" using u usable_signature_unique by blast
    show ?thesis
      unfolding eq reaches_Cons passed_signature_def only
      by (cases "rrsig_signed_data records sig (sl_max_signed_data_len limits)")
        (auto simp: Cons.IH signature_accepts_def passed_signature_def [abs_def])
  qed
qed

section \<open>RRsets\<close>

definition wf_rrset :: "resource_record list \<Rightarrow> bool" where
  "wf_rrset records \<longleftrightarrow> records \<noteq> [] \<and> rr_type (hd records) \<noteq> RtRrsig \<and> rr_type (hd records) \<noteq> RtOpt \<and>
     (\<forall>r \<in> set records. rr_name r = rr_name (hd records) \<and> rr_type r = rr_type (hd records) \<and> rr_class r = CLASS_IN)"

lemma wf_rrset_member:
  "wf_rrset records \<Longrightarrow> r \<in> set records \<Longrightarrow>
     rr_name r = rr_name (hd records) \<and> rr_type r = rr_type (hd records) \<and> rr_class r = CLASS_IN"
  unfolding wf_rrset_def by blast

definition within_limits ::
  "dnssec_limits \<Rightarrow> resource_record list \<Rightarrow> resource_record list \<Rightarrow> resource_record list \<Rightarrow> bool" where
  "within_limits limits records signatures keys \<longleftrightarrow>
     length records \<le> sl_max_rrset_records limits \<and> length signatures \<le> sl_max_signatures limits \<and>
     length keys \<le> sl_max_keys limits"

lemma verify_rrset_eq:
  "verify_rrset os records signatures keys time limits =
     (if records = [] then Inl EmptyRrset
      else if \<not> within_limits limits records signatures keys then Inl DnssecLimit
      else if \<not> wf_rrset records then Inl RrsetMismatch
      else signature_loop os records (hd records) keys time limits signatures scan_start)"
  by (cases records) (auto simp: verify_rrset_def within_limits_def wf_rrset_def list_ex_iff not_le)

lemma verify_rrset_Inr:
  "verify_rrset os records signatures keys time limits = Inr v \<longleftrightarrow>
     within_limits limits records signatures keys \<and> wf_rrset records \<and>
     reaches (passed_signature os records keys time limits)
       (\<lambda>s. \<exists>sig. usable_signature (hd records) time s sig \<and> signature_accepts os records keys limits sig \<and>
          v = verified_of records (hd records) s sig time) signatures"
  by (simp add: verify_rrset_eq signature_loop_Inr) (auto simp: wf_rrset_def)

lemma verify_rrset_sound:
  assumes "verify_rrset os records signatures keys time limits = Inr v"
  obtains s sig where "s \<in> set signatures" and "usable_signature (hd records) time s sig"
    and "signature_accepts os records keys limits sig" and "v = verified_of records (hd records) s sig time"
    and "wf_rrset records"
  using assms unfolding verify_rrset_Inr by (blast elim: reachesE)

subsection \<open>Errors\<close>

text \<open>What the scan has seen, as a function of the signature records: the flags of the loop are exactly
  these existential statements.\<close>

definition saw :: "(resource_record \<Rightarrow> rrsig \<Rightarrow> bool) \<Rightarrow> resource_record list \<Rightarrow> bool" where
  "saw P signatures \<longleftrightarrow> (\<exists>s \<in> set signatures. \<exists>sig. P s sig)"

lemma saw_simps [simp]:
  "\<not> saw P []"
  "saw P (s # rest) \<longleftrightarrow> (\<exists>sig. P s sig) \<or> saw P rest"
  by (auto simp: saw_def)

definition matched_signature ::
  "resource_record \<Rightarrow> u32 \<Rightarrow> resource_record list \<Rightarrow> resource_record \<Rightarrow> rrsig \<Rightarrow> bool" where
  "matched_signature rec1 time keys s sig \<longleftrightarrow>
     usable_signature rec1 time s sig \<and> (\<exists>r \<in> set keys. \<exists>key. usable_key sig r key)"

definition first_unsupported :: "resource_record \<Rightarrow> u32 \<Rightarrow> resource_record list \<Rightarrow> u8 option" where
  "first_unsupported rec1 time signatures =
     map_option (\<lambda>s. rs_algorithm (THE sig. current_signature rec1 time s sig))
       (find (\<lambda>s. \<exists>sig. current_signature rec1 time s sig \<and> \<not> supported_algorithm (rs_algorithm sig)) signatures)"

lemma current_signature_the: "current_signature rec1 time s sig \<Longrightarrow> (THE sig. current_signature rec1 time s sig) = sig"
  by (rule the_equality) (auto simp: signature_defs)

lemma first_unsupported_Some:
  assumes "saw (current_signature rec1 time) signatures" and "\<not> saw (usable_signature rec1 time) signatures"
  shows "\<exists>s \<in> set signatures. \<exists>sig. current_signature rec1 time s sig \<and> \<not> supported_algorithm (rs_algorithm sig) \<and>
    first_unsupported rec1 time signatures = Some (rs_algorithm sig)"
proof -
  let ?P = "\<lambda>s. \<exists>sig. current_signature rec1 time s sig \<and> \<not> supported_algorithm (rs_algorithm sig)"
  from assms have "find ?P signatures \<noteq> None"
    by (auto simp: saw_def usable_signature_def find_None_iff)
  then obtain s where s: "find ?P signatures = Some s" by blast
  then obtain sig where "s \<in> set signatures" "current_signature rec1 time s sig" "\<not> supported_algorithm (rs_algorithm sig)"
    by (auto simp: find_Some_iff)
  with s show ?thesis by (auto simp: first_unsupported_def current_signature_the)
qed

text \<open>When no usable signature is accepted and none of the signed data is refused, the error is the first of
  the reasons in the order of the source.\<close>

definition scan_view ::
  "resource_record \<Rightarrow> u32 \<Rightarrow> resource_record list \<Rightarrow> resource_record list \<Rightarrow> rrset_scan \<Rightarrow> bool \<times> bool \<times> bool \<times> bool \<times> u8 option" where
  "scan_view rec1 time keys signatures st =
     (scan_covering st \<noteq> 0 \<or> saw (covering_signature rec1) signatures,
      scan_current st \<or> saw (current_signature rec1 time) signatures,
      scan_supported st \<or> saw (usable_signature rec1 time) signatures,
      scan_key st \<or> saw (matched_signature rec1 time keys) signatures,
      (case scan_unsupported st of Some a \<Rightarrow> Some a | None \<Rightarrow> first_unsupported rec1 time signatures))"

definition view_error :: "bool \<times> bool \<times> bool \<times> bool \<times> u8 option \<Rightarrow> dnssec_error" where
  "view_error view = (case view of (covering, current, supported, key, unsupported) \<Rightarrow>
     if \<not> covering then MissingSignature else if \<not> current then SignatureTime
     else if \<not> supported then UnsupportedAlgorithm (case unsupported of None \<Rightarrow> 0 | Some a \<Rightarrow> a)
     else if \<not> key then MissingKey else SignatureMismatch)"

lemma scan_error_view: "scan_error st = view_error (scan_view rec1 time keys [] st)"
  by (simp add: scan_error_def view_error_def scan_view_def first_unsupported_def split: option.split)

lemma scan_view_step:
  assumes "\<And>sig. usable_signature rec1 time s sig \<Longrightarrow>
    \<exists>data. rrsig_signed_data records sig (sl_max_signed_data_len limits) = Inr data \<and> \<not> list_ex (key_accepts os sig data) keys"
  shows "\<exists>st'. signature_loop os records rec1 keys time limits (s # rest) st =
      signature_loop os records rec1 keys time limits rest st' \<and>
    scan_view rec1 time keys rest st' = scan_view rec1 time keys (s # rest) st"
proof (cases "rrsig_for s (rr_name rec1) (rr_type rec1)")
  case None
  then have "\<And>sig. \<not> covering_signature rec1 s sig" by (simp add: covering_signature_def)
  then show ?thesis
    using None
    by (intro exI [of _ st])
      (simp add: scan_view_def first_unsupported_def usable_signature_def current_signature_def matched_signature_def
        split: option.split)
next
  case (Some sig)
  have only: "\<And>b. covering_signature rec1 s b \<longleftrightarrow> b = sig \<and> unat (rs_labels sig) = length (labels (rr_name rec1))"
    using Some by (auto simp: covering_signature_def)
  show ?thesis
  proof (cases "usable_signature rec1 time s sig")
    case True
    obtain data where d: "rrsig_signed_data records sig (sl_max_signed_data_len limits) = Inr data"
      "\<not> list_ex (key_accepts os sig data) keys" using assms [OF True] by blast
    have c: "unat (rs_labels sig) = length (labels (rr_name rec1))"
        "serial_in_window time (rs_inception sig) (rs_expiration sig)" "supported_algorithm (rs_algorithm sig)"
      using True by (auto simp: signature_defs)
    show ?thesis
      using Some c d only
      by (intro exI [of _ "st\<lparr>scan_covering := usize_saturating_add (scan_covering st) 1, scan_current := True,
          scan_supported := True, scan_key := scan_key st \<or> list_ex (\<lambda>r. \<exists>key. usable_key sig r key) keys\<rparr>"])
        (auto simp: scan_view_def Let_def key_loop_eq first_unsupported_def usable_signature_def current_signature_def
          matched_signature_def usize_saturating_add_def usize_max_def list_ex_iff split: option.splits)
  next
    case False
    show ?thesis
    proof (cases "current_signature rec1 time s sig")
      case True
      with False have c: "unat (rs_labels sig) = length (labels (rr_name rec1))"
        "serial_in_window time (rs_inception sig) (rs_expiration sig)" "\<not> supported_algorithm (rs_algorithm sig)"
        by (auto simp: signature_defs)
      show ?thesis
        using Some c only current_signature_the [OF True]
        by (intro exI [of _ "st\<lparr>scan_covering := usize_saturating_add (scan_covering st) 1, scan_current := True,
            scan_unsupported := (case scan_unsupported st of None \<Rightarrow> Some (rs_algorithm sig) | Some a \<Rightarrow> Some a)\<rparr>"])
          (auto simp: scan_view_def Let_def first_unsupported_def usable_signature_def current_signature_def
            matched_signature_def usize_saturating_add_def usize_max_def split: option.splits)
    next
      case nc: False
      show ?thesis
      proof (cases "unat (rs_labels sig) = length (labels (rr_name rec1))")
        case True
        with nc Some have "\<not> serial_in_window time (rs_inception sig) (rs_expiration sig)"
          by (auto simp: signature_defs)
        then show ?thesis
          using Some True only
          by (intro exI [of _ "st\<lparr>scan_covering := usize_saturating_add (scan_covering st) 1\<rparr>"])
            (auto simp: scan_view_def Let_def first_unsupported_def usable_signature_def current_signature_def
              matched_signature_def usize_saturating_add_def usize_max_def split: option.splits)
      next
        case False
        then show ?thesis
          using Some only
          by (intro exI [of _ st])
            (auto simp: scan_view_def Let_def first_unsupported_def usable_signature_def current_signature_def
              matched_signature_def split: option.splits)
      qed
    qed
  qed
qed

text \<open>The outcome of a verification, every branch: the condition of acceptance, and what each error says of
  the inputs.\<close>

lemma signature_loop_view:
  assumes "\<And>s sig. s \<in> set signatures \<Longrightarrow> usable_signature rec1 time s sig \<Longrightarrow>
    \<exists>data. rrsig_signed_data records sig (sl_max_signed_data_len limits) = Inr data \<and> \<not> list_ex (key_accepts os sig data) keys"
  shows "signature_loop os records rec1 keys time limits signatures st =
    Inl (view_error (scan_view rec1 time keys signatures st))"
  using assms
proof (induction signatures arbitrary: st)
  case Nil
  show ?case by (simp add: scan_error_view [of st rec1 time keys])
next
  case (Cons s rest)
  obtain st' where "signature_loop os records rec1 keys time limits (s # rest) st =
      signature_loop os records rec1 keys time limits rest st'"
    "scan_view rec1 time keys rest st' = scan_view rec1 time keys (s # rest) st"
    using scan_view_step [of rec1 time s records limits os keys rest st] Cons.prems [of s] by auto
  moreover have "signature_loop os records rec1 keys time limits rest st' =
      Inl (view_error (scan_view rec1 time keys rest st'))"
    by (rule Cons.IH) (rule Cons.prems, simp_all)
  ultimately show ?case by (simp only:)
qed

lemma signature_loop_Inl_data:
  assumes "signature_loop os records rec1 keys time limits signatures st = Inl e"
    and "s \<in> set signatures" and "usable_signature rec1 time s sig"
    and "rrsig_signed_data records sig (sl_max_signed_data_len limits) = Inl e' \<or> signature_accepts os records keys limits sig"
  shows "\<exists>s \<in> set signatures. \<exists>sig. usable_signature rec1 time s sig \<and>
    rrsig_signed_data records sig (sl_max_signed_data_len limits) = Inl e"
  using assms
proof (induction signatures arbitrary: st)
  case (Cons r rest)
  show ?case
  proof (cases "\<exists>b. usable_signature rec1 time r b")
    case False
    with Cons.prems have "s \<in> set rest" by auto
    with signature_loop_skip [OF False, of os records keys limits rest st] Cons show ?thesis by (metis list.set_intros(2))
  next
    case True
    then obtain b where u: "usable_signature rec1 time r b" by blast
    obtain st' where eq: "signature_loop os records rec1 keys time limits (r # rest) st =
      rbind (rrsig_signed_data records b (sl_max_signed_data_len limits)) (\<lambda>data.
      if list_ex (key_accepts os b data) keys then Inr (verified_of records rec1 r b time)
      else signature_loop os records rec1 keys time limits rest
        (st'\<lparr>scan_key := scan_key st \<or> list_ex (\<lambda>r. \<exists>key. usable_key b r key) keys\<rparr>))"
      using signature_loop_usable [OF u] by blast
    show ?thesis
    proof (cases "rrsig_signed_data records b (sl_max_signed_data_len limits)")
      case (Inl d)
      with eq Cons.prems(1) u show ?thesis by auto
    next
      case (Inr data)
      with eq Cons.prems(1) have no: "\<not> list_ex (key_accepts os b data) keys"
        and rest: "signature_loop os records rec1 keys time limits rest
          (st'\<lparr>scan_key := scan_key st \<or> list_ex (\<lambda>r. \<exists>key. usable_key b r key) keys\<rparr>) = Inl e"
        by (auto split: if_splits)
      have "s \<noteq> r"
        using Cons.prems(3,4) usable_signature_unique [OF u] Inr no by (auto simp: signature_accepts_def)
      with Cons.prems have "s \<in> set rest" by simp
      from Cons.IH [OF rest this Cons.prems(3,4)] show ?thesis by auto
    qed
  qed
qed simp

section \<open>Lifetimes\<close>

lemma iter_min_le: "x \<in> set xs \<Longrightarrow> iter_min xs \<le> x"
proof -
  have "foldl min a ys \<le> a \<and> (\<forall>y \<in> set ys. foldl min a ys \<le> y)" for a :: u32 and ys
  proof (induction ys arbitrary: a)
    case (Cons y ys)
    from Cons.IH [of "min a y"] show ?case by auto
  qed simp
  then show "x \<in> set xs \<Longrightarrow> iter_min xs \<le> x" by (cases xs) (auto simp: iter_min_def)
qed

lemma unat_u32_sum: "unat (ucast (t :: u32) + ucast (x :: u32) :: u64) = unat t + unat x"
  using unsigned_less [of t, where 'a = nat] unsigned_less [of x, where 'a = nat]
  by (simp add: unat_word_ariths unsigned_ucast_eq take_bit_nat_eq_self)

lemma unat_u32_sum_1: "unat (ucast (t :: u32) + ucast (x :: u32) + 1 :: u64) = unat t + unat x + 1"
  using unsigned_less [of t, where 'a = nat] unsigned_less [of x, where 'a = nat]
  by (simp add: unat_word_ariths unsigned_ucast_eq take_bit_nat_eq_self)

lemma unat_u32_u64 [simp]: "unat (ucast (t :: u32) :: u64) = unat t"
  using unat_u32_sum [of t 0] by simp

lemma records_expire_at_le:
  "r \<in> set records \<Longrightarrow> unat (records_expire_at records t) \<le> unat t + unat (rr_ttl r)"
  using iter_min_le [of "rr_ttl r" "map rr_ttl records"]
  by (simp add: records_expire_at_def unat_u32_sum word_le_nat_alt)

lemma unat_min: "unat (min a b :: u64) = min (unat a) (unat b)"
  by (simp add: min_def word_le_nat_alt)

lemma unat_max: "unat (max a b :: u64) = max (unat a) (unat b)"
  by (simp add: max_def word_le_nat_alt)

lemma rrset_expires_at_le:
  "r \<in> set records \<Longrightarrow> unat (rrset_expires_at records s sig t) \<le> unat t + unat (rr_ttl r)"
  "unat (rrset_expires_at records s sig t) \<le> unat t + unat (rr_ttl s)"
  "unat (rrset_expires_at records s sig t) \<le> unat t + unat (rs_original_ttl sig)"
  "unat (rrset_expires_at records s sig t) \<le> unat t + unat (rs_expiration sig - t) + 1"
  using iter_min_le [of _ "map rr_ttl records @ [rr_ttl s, rs_original_ttl sig]"]
  by (simp_all add: rrset_expires_at_def unat_min unat_u32_sum unat_u32_sum_1 word_le_nat_alt min_le_iff_disj)

text \<open>An instant at which the evidence is fresh is not after the expiration, in serial arithmetic.\<close>

lemma of_nat_u32: "m < 2 ^ 32 \<Longrightarrow> unat (of_nat m :: u32) = m"
  by (simp add: unat_of_nat take_bit_nat_eq_self)

lemma serial_le_later:
  assumes "serial_le t e" and "unat t \<le> n" and "n \<le> unat t + unat (e - t)"
  shows "serial_le (of_nat n) e"
proof -
  have d: "unat (e - t) < 2 ^ 31"
    using assms(1) by (auto simp: serial_le_def word_less_nat_alt)
  have m: "unat (of_nat (n - unat t) :: u32) = n - unat t"
    using assms(2,3) d by (intro of_nat_u32) simp
  have eq: "e - of_nat n = (e - t) - of_nat (n - unat t)"
    using assms(2) by (simp add: of_nat_diff)
  have "of_nat (n - unat t) \<le> e - t" unfolding word_le_nat_alt m using assms(3) by linarith
  then have "unat ((e - t) - of_nat (n - unat t)) = unat (e - t) - (n - unat t)"
    using m by (simp only: unat_sub)
  with d show ?thesis unfolding serial_le_def eq word_less_nat_alt by (simp add: less_imp_diff_less)
qed

section \<open>Delegations\<close>

definition ds_candidate :: "dns_name \<Rightarrow> dnskey \<Rightarrow> resource_record \<Rightarrow> ds \<Rightarrow> bool" where
  "ds_candidate owner key r d \<longleftrightarrow>
     rr_rdata r = RdDs d \<and> rr_name r = owner \<and> rr_class r = CLASS_IN \<and> rr_type r = RtDs \<and>
     ds_key_tag d = dnskey_tag key \<and> ds_algorithm d = dk_algorithm key"

lemma digest_ds_Inl: "digest_ds os ty data = Inl e \<Longrightarrow> e = UnsupportedDigest ty"
  by (auto simp: digest_ds_def rbind_eq_Inl result_inv split: if_splits)

lemma ds_loop_no_candidate:
  "\<nexists>d. ds_candidate owner key r d \<Longrightarrow> ds_loop os owner key input (r # rest) sc un = ds_loop os owner key input rest sc un"
  by (auto simp: ds_candidate_def split: rdata.split)

lemma ds_loop_candidate:
  assumes "openssl_laws os" and "ds_candidate owner key r d"
  shows "ds_loop os owner key input (r # rest) sc un =
     (case digest_ds os (ds_digest_type d) input of
         Inl e \<Rightarrow> ds_loop os owner key input rest True
           (case un of None \<Rightarrow> Some (ds_digest_type d) | Some u \<Rightarrow> Some u)
       | Inr g \<Rightarrow> if length g \<noteq> length (ds_digest d) then None else if g = ds_digest d then Some (Inr ())
            else ds_loop os owner key input rest True un)"
proof (cases "digest_ds os (ds_digest_type d) input")
  case (Inl e)
  with digest_ds_Inl [OF Inl] assms show ?thesis by (simp add: ds_candidate_def)
next
  case (Inr g)
  with assms show ?thesis by (simp add: ds_candidate_def openssl_laws_def)
qed

text \<open>A comparison that is reached: the candidates before it have an unsupported digest type, or a digest of
  the right length that differs.\<close>

definition ds_passed :: "'key openssl \<Rightarrow> dns_name \<Rightarrow> dnskey \<Rightarrow> bytes \<Rightarrow> resource_record \<Rightarrow> bool" where
  "ds_passed os owner key input r \<longleftrightarrow>
     (\<forall>d g. ds_candidate owner key r d \<longrightarrow> digest_ds os (ds_digest_type d) input = Inr g \<longrightarrow>
        length g = length (ds_digest d) \<and> g \<noteq> ds_digest d)"

definition ds_compared ::
  "(bytes \<Rightarrow> bytes \<Rightarrow> bool) \<Rightarrow> 'key openssl \<Rightarrow> dns_name \<Rightarrow> dnskey \<Rightarrow> bytes \<Rightarrow> resource_record \<Rightarrow> bool" where
  "ds_compared P os owner key input r \<longleftrightarrow>
     (\<exists>d g. ds_candidate owner key r d \<and> digest_ds os (ds_digest_type d) input = Inr g \<and> P g (ds_digest d))"

lemma ds_candidate_unique: "ds_candidate owner key r d \<Longrightarrow> ds_candidate owner key r d' \<Longrightarrow> d = d'"
  by (simp add: ds_candidate_def)

lemma ds_loop_iff:
  assumes "openssl_laws os"
  shows "(ds_loop os owner key input records sc un = None \<longleftrightarrow>
      reaches (ds_passed os owner key input) (ds_compared (\<lambda>g d. length g \<noteq> length d) os owner key input) records) \<and>
    (ds_loop os owner key input records sc un = Some (Inr ()) \<longleftrightarrow>
      reaches (ds_passed os owner key input) (ds_compared (\<lambda>g d. g = d) os owner key input) records)"
proof (induction records arbitrary: sc un)
  case (Cons r rest)
  show ?case
  proof (cases "\<exists>d. ds_candidate owner key r d")
    case False
    with ds_loop_no_candidate [OF False, of os input rest sc un] Cons.IH show ?thesis
      by (simp del: ds_loop.simps add: reaches_Cons ds_passed_def ds_compared_def)
  next
    case True
    then obtain d where c: "ds_candidate owner key r d" by blast
    have only: "\<And>d'. ds_candidate owner key r d' \<longleftrightarrow> d' = d" using c ds_candidate_unique by blast
    show ?thesis
      using Cons.IH
      by (cases "digest_ds os (ds_digest_type d) input")
        (auto simp del: ds_loop.simps simp: ds_loop_candidate [OF assms c] reaches_Cons ds_passed_def ds_compared_def only)
  qed
qed simp

lemma verify_ds_eq:
  "verify_ds os owner key records =
     (if dk_protocol key \<noteq> 3 \<or> dk_flags key AND 0x0080 \<noteq> 0 then Some (Inl InvalidKey)
      else case name_encode owner [] of Inl _ \<Rightarrow> Some (Inl UnsupportedRdata)
      | Inr w \<Rightarrow> ds_loop os owner key (w @ encode_dnskey key) records False None)"
  by (simp add: verify_ds_def split: sum.split)

text \<open>A DS record authenticates a key: it names the key and its digest is the digest of the owner and the key.\<close>

definition ds_authenticates :: "'key openssl \<Rightarrow> dns_name \<Rightarrow> dnskey \<Rightarrow> resource_record \<Rightarrow> bool" where
  "ds_authenticates os owner key r \<longleftrightarrow>
     (\<exists>w. name_encode owner [] = Inr w \<and> ds_compared (\<lambda>g d. g = d) os owner key (w @ encode_dnskey key) r)"

lemma verify_ds_sound:
  assumes "openssl_laws os" and "verify_ds os owner key records = Some (Inr ())"
  shows "dk_protocol key = 3 \<and> dk_flags key AND 0x0080 = 0 \<and> (\<exists>r \<in> set records. ds_authenticates os owner key r)"
  using assms ds_loop_iff [OF assms(1)]
  by (auto simp: verify_ds_eq ds_authenticates_def elim!: reachesE split: if_splits sum.splits)

section \<open>Chains of trust\<close>

definition trust_link ::
  "'key openssl \<Rightarrow> dnssec_limits \<Rightarrow> dns_name \<Rightarrow> resource_record list \<Rightarrow> resource_record list \<Rightarrow> u32 \<Rightarrow> bool" where
  "trust_link os limits zone ds dnskeys time \<longleftrightarrow>
     wf_rrset dnskeys \<and> rr_type (hd dnskeys) = RtDnskey \<and> rr_name (hd dnskeys) = zone \<and>
     (\<exists>kr \<in> set dnskeys. \<exists>key s sig. dnskey_for kr zone = Some key \<and> dk_flags key AND 0x0100 \<noteq> 0 \<and>
        dk_flags key AND 0x0080 = 0 \<and> dk_protocol key = 3 \<and>
        (\<exists>r \<in> set ds. ds_authenticates os zone key r) \<and>
        usable_signature (hd dnskeys) time s sig \<and> signature_accepts os dnskeys [kr] limits sig)"

lemma dnskey_for_Some:
  "dnskey_for r owner = Some key \<longleftrightarrow>
     rr_name r = owner \<and> rr_class r = CLASS_IN \<and> rr_type r = RtDnskey \<and> rr_rdata r = RdDnskey key"
  by (auto simp: dnskey_for_def split: rdata.splits)

lemma dnskeys_loop_Inr:
  assumes "dnskeys_loop os zone ds dnskeys signatures time limits rest saw_ds = Some (Inr a)"
  shows "\<exists>kr \<in> set rest. \<exists>key covering v. set covering \<subseteq> set signatures \<and>
    dnskey_for kr zone = Some key \<and> dk_flags key AND 0x0100 \<noteq> 0 \<and> verify_ds os zone key ds = Some (Inr ()) \<and> verify_rrset os dnskeys covering [kr] time limits = Inr v \<and>
    a = \<lparr>ak_zone = zone, ak_records = dnskeys, ak_delegation_key_tag = dnskey_tag key,
         ak_delegation_algorithm = dk_algorithm key, ak_observed_at_unix = ucast time,
         ak_expires_at_unix = min (vr_expires_at_unix v) (records_expire_at ds time)\<rparr>"
  using assms
proof (induction rest arbitrary: saw_ds)
  case (Cons kr rest)
  note IH = Cons.IH
  let ?loop = "dnskeys_loop os zone ds dnskeys signatures time limits"
  show ?case
  proof (cases "\<exists>saw. ?loop rest saw = Some (Inr a)")
    case False
    from Cons.prems False show ?thesis
      by (auto simp: Let_def split: option.splits if_splits sum.splits bind_splits intro: exI [of _ "filter _ signatures"])
  qed (use IH in \<open>fastforce simp del: dnskeys_loop.simps\<close>)
qed simp

text \<open>
  A link of a chain of trust is the delegation of a zone: its DS records, its key records, both with their
  signatures, and the time of the authentication.  The DS records of the first link come from the trust
  anchor and have no signatures.
\<close>

record delegation =
  dg_zone :: dns_name
  dg_ds :: signed_rrset
  dg_dnskeys :: signed_rrset
  dg_time :: u32

text \<open>At the instant \<open>now\<close> a signature accepted at \<open>time\<close> is still in force: it has not expired in serial
  arithmetic, and neither the TTL of its record nor the original TTL it certifies has run out.\<close>

definition signature_alive :: "u32 \<Rightarrow> resource_record \<Rightarrow> rrsig \<Rightarrow> u64 \<Rightarrow> bool" where
  "signature_alive time s sig now \<longleftrightarrow> serial_le (ucast now) (rs_expiration sig) \<and>
     unat now < unat time + unat (rr_ttl s) \<and> unat now < unat time + unat (rs_original_ttl sig)"

text \<open>One of the signatures is accepted under one of the keys and is in force at every instant of a lifetime.\<close>

definition signed_while ::
  "'key openssl \<Rightarrow> dnssec_limits \<Rightarrow> (u64 \<Rightarrow> bool) \<Rightarrow> resource_record list \<Rightarrow> resource_record list \<Rightarrow>
   resource_record list \<Rightarrow> u32 \<Rightarrow> bool" where
  "signed_while os limits life records signatures keys time \<longleftrightarrow>
     (\<exists>s \<in> set signatures. \<exists>sig. usable_signature (hd records) time s sig \<and>
        signature_accepts os records keys limits sig \<and> (\<forall>now. life now \<longrightarrow> signature_alive time s sig now))"

text \<open>A zone key that a DS record has the digest of signs the key set, and neither this signature nor a TTL
  of the DS and key records runs out during the lifetime.\<close>

definition trust_link_while :: "'key openssl \<Rightarrow> dnssec_limits \<Rightarrow> (u64 \<Rightarrow> bool) \<Rightarrow> delegation \<Rightarrow> bool" where
  "trust_link_while os limits life d \<longleftrightarrow> (let dnskeys = sr_records (dg_dnskeys d); ds = sr_records (dg_ds d) in
     wf_rrset dnskeys \<and> rr_type (hd dnskeys) = RtDnskey \<and> rr_name (hd dnskeys) = dg_zone d \<and>
     (\<exists>kr \<in> set dnskeys. \<exists>key. dnskey_for kr (dg_zone d) = Some key \<and> dk_flags key AND 0x0100 \<noteq> 0 \<and>
        dk_flags key AND 0x0080 = 0 \<and> dk_protocol key = 3 \<and>
        (\<exists>r \<in> set ds. ds_authenticates os (dg_zone d) key r) \<and>
        signed_while os limits life dnskeys (sr_signatures (dg_dnskeys d)) [kr] (dg_time d)) \<and>
     (\<forall>now. life now \<longrightarrow> unat (dg_time d) \<le> unat now \<and>
        (\<forall>r \<in> set ds \<union> set dnskeys. unat now < unat (dg_time d) + unat (rr_ttl r))))"

text \<open>The DS records of a zone are signed by a key of the zone above it, throughout the lifetime.\<close>

definition trust_step_while ::
  "'key openssl \<Rightarrow> dnssec_limits \<Rightarrow> (u64 \<Rightarrow> bool) \<Rightarrow> delegation \<Rightarrow> delegation \<Rightarrow> bool" where
  "trust_step_while os limits life parent d \<longleftrightarrow> (let ds = sr_records (dg_ds d) in
     wf_rrset ds \<and> rr_name (hd ds) = dg_zone d \<and> rr_type (hd ds) = RtDs \<and>
     signed_while os limits life ds (sr_signatures (dg_ds d)) (sr_records (dg_dnskeys parent)) (dg_time d))"

lemma signed_while_mono:
  "signed_while os limits life records signatures keys time \<Longrightarrow> (\<And>now. life' now \<Longrightarrow> life now) \<Longrightarrow>
     signed_while os limits life' records signatures keys time"
  unfolding signed_while_def by blast

lemma trust_link_while_mono:
  "trust_link_while os limits life d \<Longrightarrow> (\<And>now. life' now \<Longrightarrow> life now) \<Longrightarrow> trust_link_while os limits life' d"
  unfolding trust_link_while_def Let_def by (blast intro: signed_while_mono)

lemma trust_step_while_mono:
  "trust_step_while os limits life p d \<Longrightarrow> (\<And>now. life' now \<Longrightarrow> life now) \<Longrightarrow> trust_step_while os limits life' p d"
  unfolding trust_step_while_def Let_def by (blast intro: signed_while_mono)

lemma signature_alive_before:
  assumes "usable_signature r time s sig" and "time' = ucast time" and "time' \<le> now"
    and "now < rrset_expires_at records s sig time"
  shows "signature_alive time s sig now"
proof -
  have now: "unat time \<le> unat now" "unat now < unat (rrset_expires_at records s sig time)"
    using assms(2-) by (simp_all add: word_le_nat_alt word_less_nat_alt)
  have "serial_le time (rs_expiration sig)" using assms(1) by (simp add: signature_defs serial_in_window_def)
  moreover have "unat now \<le> unat time + unat (rs_expiration sig - time)"
    using now(2) rrset_expires_at_le(4) [of records s sig time] by linarith
  ultimately have "serial_le (of_nat (unat now)) (rs_expiration sig)" using now(1) by (intro serial_le_later)
  then show ?thesis
    using now(2) rrset_expires_at_le(2,3) [of records s sig time] by (simp add: signature_alive_def)
qed

text \<open>Verified records are signed for as long as their evidence is fresh.\<close>

lemma verify_rrset_signed_while:
  assumes "verify_rrset os records signatures keys time limits = Inr v"
  shows "signed_while os limits (rrset_fresh_at v) records signatures keys time"
proof -
  from assms obtain s sig where s: "s \<in> set signatures" "usable_signature (hd records) time s sig"
    "signature_accepts os records keys limits sig" "v = verified_of records (hd records) s sig time"
    by (rule verify_rrset_sound)
  then have "signature_alive time s sig now" if "rrset_fresh_at v now" for now
    using that by (intro signature_alive_before [OF s(2) refl, of now records]) (simp_all add: rrset_fresh_at_def verified_of_def)
  with s(1-3) show ?thesis unfolding signed_while_def by blast
qed

lemma authenticate_dnskeys_Inr:
  assumes os: "openssl_laws os" and a: "authenticate_dnskeys os zone ds dnskeys signatures time limits = Some (Inr a)"
  obtains kr key covering v where "kr \<in> set dnskeys" and "dnskey_for kr zone = Some key"
    and "dk_flags key AND 0x0100 \<noteq> 0" and "dk_flags key AND 0x0080 = 0" and "dk_protocol key = 3"
    and "\<exists>r \<in> set ds. ds_authenticates os zone key r" and "set covering \<subseteq> set signatures"
    and "wf_rrset dnskeys" and "rr_type (hd dnskeys) = RtDnskey" and "rr_name (hd dnskeys) = zone"
    and "verify_rrset os dnskeys covering [kr] time limits = Inr v" and "vr_observed_at_unix v = ucast time"
    and "ak_zone a = zone" and "ak_records a = dnskeys" and "ak_observed_at_unix a = ucast time"
    and "ak_expires_at_unix a = min (vr_expires_at_unix v) (records_expire_at ds time)"
    and "\<And>r. r \<in> set ds \<union> set dnskeys \<Longrightarrow> unat (ak_expires_at_unix a) \<le> unat time + unat (rr_ttl r)"
proof -
  from a have loop: "dnskeys_loop os zone ds dnskeys signatures time limits dnskeys False = Some (Inr a)"
    by (simp add: authenticate_dnskeys_def split: if_splits)
  from dnskeys_loop_Inr [OF loop] obtain kr key covering v where cov: "set covering \<subseteq> set signatures" and
    kr: "kr \<in> set dnskeys" "dnskey_for kr zone = Some key" "dk_flags key AND 0x0100 \<noteq> 0"
      "verify_ds os zone key ds = Some (Inr ())"
    and v: "verify_rrset os dnskeys covering [kr] time limits = Inr v"
    and a_eq: "a = \<lparr>ak_zone = zone, ak_records = dnskeys, ak_delegation_key_tag = dnskey_tag key,
         ak_delegation_algorithm = dk_algorithm key, ak_observed_at_unix = ucast time,
         ak_expires_at_unix = min (vr_expires_at_unix v) (records_expire_at ds time)\<rparr>" by blast
  from v obtain s sig where s: "v = verified_of dnskeys (hd dnskeys) s sig time" "wf_rrset dnskeys" by (rule verify_rrset_sound)
  have hd_key: "rr_type (hd dnskeys) = RtDnskey \<and> rr_name (hd dnskeys) = zone"
    using s(2) kr(1,2) unfolding wf_rrset_def dnskey_for_Some by metis
  have "unat (ak_expires_at_unix a) \<le> unat time + unat (rr_ttl r)" if "r \<in> set ds \<union> set dnskeys" for r
    using that records_expire_at_le [of r ds time] rrset_expires_at_le(1) [of r dnskeys s sig time] s(1)
    by (auto simp: a_eq unat_min verified_of_def min_le_iff_disj)
  with hd_key verify_ds_sound [OF os kr(4)] show thesis
    using s by (intro that [OF kr(1-3) _ _ _ cov s(2) _ _ v]) (simp_all add: a_eq verified_of_def)
qed

lemma authenticate_dnskeys_sound:
  assumes os: "openssl_laws os" and a: "authenticate_dnskeys os zone ds dnskeys signatures time limits = Some (Inr a)"
  shows "trust_link os limits zone ds dnskeys time \<and> ak_zone a = zone \<and> ak_records a = dnskeys \<and>
    ak_observed_at_unix a = ucast time \<and>
    (\<forall>r \<in> set ds \<union> set dnskeys. unat (ak_expires_at_unix a) \<le> unat time + unat (rr_ttl r))"
  using os a
proof (cases rule: authenticate_dnskeys_Inr)
  case (1 kr key covering v)
  from 1(11) obtain s sig where "usable_signature (hd dnskeys) time s sig" "signature_accepts os dnskeys [kr] limits sig"
    by (rule verify_rrset_sound)
  with 1(1-6,8-10) have "trust_link os limits zone ds dnskeys time" unfolding trust_link_def by blast
  with 1(13-15,17) show ?thesis by blast
qed

text \<open>The link holds for as long as the key set is fresh.\<close>

lemma authenticate_dnskeys_link:
  assumes os: "openssl_laws os"
    and a: "authenticate_dnskeys os (dg_zone d) (sr_records (dg_ds d)) (sr_records (dg_dnskeys d))
      (sr_signatures (dg_dnskeys d)) (dg_time d) limits = Some (Inr a)"
  shows "trust_link_while os limits (keys_fresh_at a) d"
  using os a
proof (cases rule: authenticate_dnskeys_Inr)
  case (1 kr key covering v)
  have "signed_while os limits (keys_fresh_at a) (sr_records (dg_dnskeys d)) covering [kr] (dg_time d)"
    using verify_rrset_signed_while [OF 1(11)]
    by (rule signed_while_mono) (simp add: keys_fresh_at_def rrset_fresh_at_def 1(12,15,16))
  then have "signed_while os limits (keys_fresh_at a) (sr_records (dg_dnskeys d)) (sr_signatures (dg_dnskeys d)) [kr] (dg_time d)"
    using 1(7) unfolding signed_while_def by blast
  moreover have "unat (dg_time d) \<le> unat now \<and> unat now < unat (ak_expires_at_unix a)" if "keys_fresh_at a now" for now
    using that 1(15) by (simp add: keys_fresh_at_def word_le_nat_alt word_less_nat_alt)
  ultimately show ?thesis
    unfolding trust_link_while_def Let_def using 1(1-6,8-10,17) by (meson less_le_trans)
qed

text \<open>
  \<open>trust_path os limits path a\<close>: the key set \<open>a\<close> is authenticated by the delegations of the path, one by one.
\<close>

inductive trust_path :: "'key openssl \<Rightarrow> dnssec_limits \<Rightarrow> delegation list \<Rightarrow> authenticated_dnskeys \<Rightarrow> bool" for os limits where
  trust_anchor: "authenticate_dnskeys os zone ds (sr_records dnskeys) (sr_signatures dnskeys) time limits = Some (Inr a) \<Longrightarrow>
    trust_path os limits [\<lparr>dg_zone = zone, dg_ds = \<lparr>sr_records = ds, sr_signatures = []\<rparr>, dg_dnskeys = dnskeys, dg_time = time\<rparr>] a"
| trust_child: "trust_path os limits path parent \<Longrightarrow>
    authenticate_child_dnskeys os parent zone ds dnskeys time limits = Some (Inr a) \<Longrightarrow>
    trust_path os limits (path @ [\<lparr>dg_zone = zone, dg_ds = ds, dg_dnskeys = dnskeys, dg_time = time\<rparr>]) a"

lemma authenticate_child_Inr:
  assumes "authenticate_child_dnskeys os parent zone ds dnskeys time limits = Some (Inr a)"
  obtains v c where "keys_fresh_at parent (ucast time)"
    and "verify_rrset os (sr_records ds) (sr_signatures ds) (ak_records parent) time limits = Inr v"
    and "vr_owner v = zone" and "vr_record_type v = RtDs"
    and "authenticate_dnskeys os zone (sr_records ds) (sr_records dnskeys) (sr_signatures dnskeys) time limits = Some (Inr c)"
    and "a = c\<lparr>ak_observed_at_unix := max (max (ak_observed_at_unix c) (ak_observed_at_unix parent)) (vr_observed_at_unix v),
      ak_expires_at_unix := min (min (ak_expires_at_unix c) (ak_expires_at_unix parent))
        (min (vr_expires_at_unix v) (ak_expires_at_unix parent))\<rparr>"
proof -
  note defs = authenticate_child_dnskeys_def verify_rrset_with_keys_def
  obtain v where fresh: "keys_fresh_at parent (ucast time)"
    and v: "verify_rrset os (sr_records ds) (sr_signatures ds) (ak_records parent) time limits = Inr v"
    using assms
    by (cases "verify_rrset os (sr_records ds) (sr_signatures ds) (ak_records parent) time limits")
      (auto simp: defs split: if_splits)
  with assms have "vr_owner v = zone" "vr_record_type v = RtDs"
    by (auto simp: defs split: if_splits)
  moreover from this assms v fresh obtain c where
    c: "authenticate_dnskeys os zone (sr_records ds) (sr_records dnskeys) (sr_signatures dnskeys) time limits = Some (Inr c)"
    by (auto simp: defs result_inv)
  ultimately show thesis
    using assms v fresh by (intro that [OF fresh v _ _ c]) (simp_all add: defs)
qed

text \<open>The key set of a path is the one of its last zone, and every link and every step of the path holds for as
  long as the key set is fresh.\<close>

lemma trust_path_sound:
  assumes os: "openssl_laws os" and path: "trust_path os limits path a"
  shows "path \<noteq> [] \<and> ak_zone a = dg_zone (last path) \<and> ak_records a = sr_records (dg_dnskeys (last path)) \<and>
    list_all (trust_link_while os limits (keys_fresh_at a)) path \<and>
    successively (trust_step_while os limits (keys_fresh_at a)) path"
  using path
proof induction
  case (trust_anchor zone ds dnskeys time a)
  let ?d = "\<lparr>dg_zone = zone, dg_ds = \<lparr>sr_records = ds, sr_signatures = []\<rparr>, dg_dnskeys = dnskeys, dg_time = time\<rparr>"
  from authenticate_dnskeys_sound [OF os trust_anchor] authenticate_dnskeys_link [OF os, of ?d limits a] trust_anchor
  show ?case by simp
next
  case (trust_child path parent zone ds dnskeys time a)
  let ?d = "\<lparr>dg_zone = zone, dg_ds = ds, dg_dnskeys = dnskeys, dg_time = time\<rparr>"
  from trust_child.hyps(2) obtain v c where
    v: "verify_rrset os (sr_records ds) (sr_signatures ds) (ak_records parent) time limits = Inr v"
      "vr_owner v = zone" "vr_record_type v = RtDs"
    and c: "authenticate_dnskeys os zone (sr_records ds) (sr_records dnskeys) (sr_signatures dnskeys) time limits = Some (Inr c)"
    and a: "a = c\<lparr>ak_observed_at_unix := max (max (ak_observed_at_unix c) (ak_observed_at_unix parent)) (vr_observed_at_unix v),
      ak_expires_at_unix := min (min (ak_expires_at_unix c) (ak_expires_at_unix parent))
        (min (vr_expires_at_unix v) (ak_expires_at_unix parent))\<rparr>"
    by (rule authenticate_child_Inr)
  have shorter: "keys_fresh_at a now \<Longrightarrow> keys_fresh_at parent now" "keys_fresh_at a now \<Longrightarrow> keys_fresh_at c now"
    "keys_fresh_at a now \<Longrightarrow> rrset_fresh_at v now" for now
    by (simp_all add: a keys_fresh_at_def rrset_fresh_at_def)
  from v(1) have "wf_rrset (sr_records ds)" "rr_name (hd (sr_records ds)) = zone" "rr_type (hd (sr_records ds)) = RtDs"
    using v(2,3) by (auto elim!: verify_rrset_sound simp: verified_of_def)
  then have "trust_step_while os limits (keys_fresh_at a) (last path) ?d"
    using signed_while_mono [OF verify_rrset_signed_while [OF v(1)] shorter(3)] trust_child.IH
    by (simp add: trust_step_while_def)
  moreover have "trust_link_while os limits (keys_fresh_at a) ?d"
    using authenticate_dnskeys_link [OF os, of ?d limits c] c by (auto intro: trust_link_while_mono shorter(2))
  moreover have "list_all (trust_link_while os limits (keys_fresh_at a)) path"
    using trust_child.IH by (auto elim!: list.pred_mono_strong intro: trust_link_while_mono shorter(1))
  moreover have "successively (trust_step_while os limits (keys_fresh_at a)) path"
    using trust_child.IH by (auto elim!: successively_mono intro: trust_step_while_mono shorter(1))
  ultimately show ?case
    using trust_child.IH authenticate_dnskeys_sound [OF os c] by (simp add: successively_append_iff a)
qed

section \<open>A signed zone\<close>

text \<open>A zone with one key, for concrete inputs: digests are the identity and the signature \<open>[1]\<close> verifies.\<close>

definition sample_os :: "bytes openssl" where
  "sample_os =
     \<lparr>os_hash = (\<lambda>_ data. Some data), os_memcmp_eq = (\<lambda>a b. if length a = length b then Some (a = b) else None),
      os_rsa_key = (\<lambda>_. Some), os_ec_key = (\<lambda>_ _. None), os_raw_key = (\<lambda>_ _. None), os_ecdsa_der = (\<lambda>_ _. None),
      os_verify_digest = (\<lambda>_ _ _ _ signature. Some (signature = [1])), os_verify_oneshot = (\<lambda>_ _ _. None)\<rparr>"

definition sample_zone :: dns_name where
  "sample_zone = Name [[97]]"

definition sample_key :: dnskey where
  "sample_key = \<lparr>dk_flags = 0x0101, dk_protocol = 3, dk_algorithm = 8, dk_public_key = [1, 3, 5]\<rparr>"

definition sample_ds :: "bytes \<Rightarrow> resource_record" where
  "sample_ds digest = \<lparr>rr_name = sample_zone, rr_type = RtDs, rr_class = CLASS_IN, rr_ttl = 60,
     rr_rdata = RdDs \<lparr>ds_key_tag = 2572, ds_algorithm = 8, ds_digest_type = 2, ds_digest = digest\<rparr>\<rparr>"

definition sample_digest :: bytes where
  "sample_digest = [1, 97, 0, 1, 1, 3, 8, 1, 3, 5]"

definition sample_key_record :: resource_record where
  "sample_key_record = \<lparr>rr_name = sample_zone, rr_type = RtDnskey, rr_class = CLASS_IN, rr_ttl = 60,
     rr_rdata = RdDnskey sample_key\<rparr>"

definition sample_a_record :: resource_record where
  "sample_a_record = \<lparr>rr_name = sample_zone, rr_type = RtA, rr_class = CLASS_IN, rr_ttl = 60,
     rr_rdata = RdA (Ipv4Addr 1 2 3 4)\<rparr>"

definition sample_rrsig :: "record_type \<Rightarrow> bytes \<Rightarrow> rrsig" where
  "sample_rrsig ty signature = \<lparr>rs_type_covered = ty, rs_algorithm = 8, rs_labels = 1, rs_original_ttl = 60,
     rs_expiration = 2000, rs_inception = 1000, rs_key_tag = 2572, rs_signer = sample_zone, rs_signature = signature\<rparr>"

definition sample_signature :: "record_type \<Rightarrow> bytes \<Rightarrow> resource_record" where
  "sample_signature ty signature = \<lparr>rr_name = sample_zone, rr_type = RtRrsig, rr_class = CLASS_IN, rr_ttl = 60,
     rr_rdata = RdRrsig (sample_rrsig ty signature)\<rparr>"

lemma sample_os_laws: "openssl_laws sample_os"
  by (simp add: openssl_laws_def sample_os_def)

definition sample_verified :: verified_rrset where
  "sample_verified = \<lparr>vr_owner = sample_zone, vr_record_type = RtA, vr_key_tag = 2572, vr_algorithm = 8,
     vr_inception = 1000, vr_expiration = 2000, vr_observed_at_unix = 1500, vr_expires_at_unix = 1560\<rparr>"

definition sample_keys :: authenticated_dnskeys where
  "sample_keys = \<lparr>ak_zone = sample_zone, ak_records = [sample_key_record], ak_delegation_key_tag = 2572,
     ak_delegation_algorithm = 8, ak_observed_at_unix = 1500, ak_expires_at_unix = 1560\<rparr>"

lemmas sample_defs = sample_os_def sample_zone_def sample_key_def sample_ds_def sample_digest_def
  sample_key_record_def sample_a_record_def sample_rrsig_def sample_signature_def

lemmas signed_data_eval = rrsig_signed_data_def canonical_signed_data_def signature_prefix_def canonical_record_def
  canonical_owner_def canonical_rdata_def canonical_pair_def encode_name_def name_encode_def name_wire_len_def
  MAX_WIRE_NAME_LEN_def MAX_LABEL_LEN_def U16_MAX_def usize_saturating_add_def usize_max_def write_u16_def
  write_u32_def encode_dnskey_def encode_ds_def

lemma sample_tag [simp]: "dnskey_tag sample_key = 2572"
  by code_simp

lemma sample_signed_data:
  "\<exists>d. rrsig_signed_data [sample_a_record] (sample_rrsig RtA sg) (sl_max_signed_data_len default_dnssec_limits) = Inr d"
  "\<exists>d. rrsig_signed_data [sample_key_record] (sample_rrsig RtDnskey sg) (sl_max_signed_data_len default_dnssec_limits) = Inr d"
  by (simp_all add: signed_data_eval sample_defs default_dnssec_limits_def)

lemma sample_usable_key: "usable_key (sample_rrsig ty sg) sample_key_record key \<longleftrightarrow> key = sample_key"
  using sample_tag by (auto simp: usable_key_def dnskey_for_def sample_rrsig_def sample_key_record_def sample_key_def)

lemma sample_verify_signature: "verify_signature sample_os 8 [1, 3, 5] data sg \<longleftrightarrow> sg = [1]"
  by (simp add: verify_signature_def algorithm_numbers verify_rsa_def rsa_components_def usize_max_def slice_range_def
      slice_get_def sample_os_def verify_digest_def)

lemma sample_key_accepts: "key_accepts sample_os (sample_rrsig ty sg) data sample_key_record \<longleftrightarrow> sg = [1]"
  by (simp add: key_accepts_def sample_usable_key) (simp add: sample_rrsig_def sample_key_def sample_verify_signature)

lemma sample_usable_signature:
  assumes "r = sample_a_record \<and> ty = RtA \<or> r = sample_key_record \<and> ty = RtDnskey"
  shows "usable_signature r 1500 (sample_signature ty sg) sig \<longleftrightarrow> sig = sample_rrsig ty sg"
  using assms by (auto simp: signature_defs rrsig_for_def serial_in_window_def serial_le_def supported_algorithm_def
      algorithm_numbers sample_signature_def sample_rrsig_def sample_a_record_def sample_key_record_def sample_zone_def)

lemma signed_sample_wf: "wf_rrset [sample_a_record]" "wf_rrset [sample_key_record]"
  "length ss \<le> 1 \<Longrightarrow> within_limits default_dnssec_limits [r] ss [k]"
  by (simp_all add: wf_rrset_def within_limits_def default_dnssec_limits_def sample_a_record_def sample_key_record_def)

lemma sample_a_verified:
  "verify_rrset sample_os [sample_a_record] [sample_signature RtA [1]] [sample_key_record] 1500 default_dnssec_limits
     = Inr sample_verified"
proof -
  have "verified_of [sample_a_record] sample_a_record (sample_signature RtA [1]) (sample_rrsig RtA [1]) 1500 = sample_verified"
    by (simp add: verified_of_def sample_verified_def rrset_expires_at_def iter_min_def sample_defs)
  then show ?thesis
    unfolding verify_rrset_Inr reaches_Cons using sample_signed_data(1) [of "[1]"]
    by (auto simp: signed_sample_wf sample_usable_signature signature_accepts_def sample_key_accepts)
qed

lemma sample_keys_verified:
  "\<exists>v. verify_rrset sample_os [sample_key_record] [sample_signature RtDnskey [1]] [sample_key_record] 1500
     default_dnssec_limits = Inr v \<and> vr_expires_at_unix v = 1560"
proof -
  let ?v = "verified_of [sample_key_record] sample_key_record (sample_signature RtDnskey [1]) (sample_rrsig RtDnskey [1]) 1500"
  have "vr_expires_at_unix ?v = 1560"
    by (simp add: verified_of_def rrset_expires_at_def iter_min_def sample_defs)
  moreover have "verify_rrset sample_os [sample_key_record] [sample_signature RtDnskey [1]] [sample_key_record] 1500
     default_dnssec_limits = Inr ?v"
    unfolding verify_rrset_Inr reaches_Cons using sample_signed_data(2) [of "[1]"]
    by (auto simp: signed_sample_wf sample_usable_signature signature_accepts_def sample_key_accepts)
  ultimately show ?thesis by blast
qed

lemma sample_a_with_keys:
  "verify_rrset_with_keys sample_os sample_keys [sample_a_record] [sample_signature RtA [1]] 1500
     default_dnssec_limits = Inr sample_verified"
  using sample_a_verified
  by (simp add: verify_rrset_with_keys_def sample_keys_def keys_fresh_at_def sample_verified_def)

lemma sample_mismatch:
  "\<exists>e. verify_rrset sample_os [sample_a_record] [sample_signature RtA [2]] [sample_key_record] 1500 default_dnssec_limits
     = Inl e"
proof (cases "verify_rrset sample_os [sample_a_record] [sample_signature RtA [2]] [sample_key_record] 1500 default_dnssec_limits")
  case (Inr v)
  then show ?thesis
    unfolding verify_rrset_Inr reaches_Cons
    by (auto simp: sample_usable_signature signature_accepts_def sample_key_accepts)
qed simp

lemma sample_ds_verified: "verify_ds sample_os sample_zone sample_key [sample_ds sample_digest] = Some (Inr ())"
  using sample_tag
  by (simp add: verify_ds_def digest_ds_def name_encode_def name_wire_len_def MAX_WIRE_NAME_LEN_def MAX_LABEL_LEN_def
      encode_dnskey_def write_u16_def be_bytes_2 sample_defs)

lemma sample_keys_authenticated:
  "authenticate_dnskeys sample_os sample_zone [sample_ds sample_digest] [sample_key_record]
     [sample_signature RtDnskey [1]] 1500 default_dnssec_limits = Some (Inr sample_keys)"
proof -
  obtain v where v: "verify_rrset sample_os [sample_key_record] [sample_signature RtDnskey [1]] [sample_key_record] 1500
     default_dnssec_limits = Inr v" "vr_expires_at_unix v = 1560" using sample_keys_verified by blast
  have key: "dnskey_for sample_key_record sample_zone = Some sample_key" "dk_flags sample_key AND 0x0100 \<noteq> 0"
    "dk_algorithm sample_key = 8" "records_expire_at [sample_ds sample_digest] 1500 = 1560"
    "rrsig_for (sample_signature RtDnskey [1]) sample_zone RtDnskey = Some (sample_rrsig RtDnskey [1])"
    "rs_key_tag (sample_rrsig RtDnskey [1]) = 2572" "rs_algorithm (sample_rrsig RtDnskey [1]) = 8"
    by (simp_all add: sample_defs dnskey_for_def records_expire_at_def iter_min_def rrsig_for_def)
  show ?thesis
    using v key sample_ds_verified by (simp add: authenticate_dnskeys_def sample_keys_def Let_def)
qed

definition sample_delegation :: delegation where
  "sample_delegation = \<lparr>dg_zone = sample_zone, dg_ds = \<lparr>sr_records = [sample_ds sample_digest], sr_signatures = []\<rparr>,
     dg_dnskeys = \<lparr>sr_records = [sample_key_record], sr_signatures = [sample_signature RtDnskey [1]]\<rparr>, dg_time = 1500\<rparr>"

lemma sample_path:
  "trust_path sample_os default_dnssec_limits [sample_delegation] sample_keys"
  using trust_anchor [of sample_os sample_zone "[sample_ds sample_digest]" "dg_dnskeys sample_delegation" 1500
      default_dnssec_limits sample_keys] sample_keys_authenticated
  by (simp add: sample_delegation_def)

section \<open>Properties\<close>

text \<open>C30: An RRset is accepted exactly when it is one class-IN RRset of a signable type within the limits, and
  some signature record reached by the scan covers its owner, type and label count, is current, of a
  supported algorithm, and verifies the canonical data under a usable key of the signer (right protocol,
  not revoked, matching algorithm and tag).  Signature records before it fail under every key, and their
  data are within bounds.  The evidence is that of this signature.\<close>

theorem rrset_verification_exact:
  "verify_rrset os records signatures keys time limits = Inr v \<longleftrightarrow>
     within_limits limits records signatures keys \<and> wf_rrset records \<and>
     (\<exists>pre s post sig. signatures = pre @ s # post \<and> list_all (passed_signature os records keys time limits) pre \<and>
        usable_signature (hd records) time s sig \<and> signature_accepts os records keys limits sig \<and>
        v = verified_of records (hd records) s sig time)"
  unfolding verify_rrset_Inr reaches_def list_all_iff by blast

text \<open>Every refusal of an RRset has its true reason: no records, too many, not one RRset, signed data that
  cannot be formed for a usable signature, and otherwise no usable signature is accepted and the error names
  the first step at which all signatures failed.\<close>

lemma rrset_errors_exact:
  assumes "verify_rrset os records signatures keys time limits = Inl e"
  shows "e = EmptyRrset \<and> records = [] \<or> e = DnssecLimit \<and> \<not> within_limits limits records signatures keys \<or>
    e = RrsetMismatch \<and> records \<noteq> [] \<and> \<not> wf_rrset records \<or>
    (\<exists>s \<in> set signatures. \<exists>sig. usable_signature (hd records) time s sig \<and>
       rrsig_signed_data records sig (sl_max_signed_data_len limits) = Inl e) \<or>
    (\<forall>s \<in> set signatures. passed_signature os records keys time limits s) \<and>
      (if \<not> saw (covering_signature (hd records)) signatures then e = MissingSignature
       else if \<not> saw (current_signature (hd records) time) signatures then e = SignatureTime
       else if \<not> saw (usable_signature (hd records) time) signatures then
         (\<exists>s \<in> set signatures. \<exists>sig. current_signature (hd records) time s sig \<and>
            \<not> supported_algorithm (rs_algorithm sig) \<and> e = UnsupportedAlgorithm (rs_algorithm sig))
       else if \<not> saw (matched_signature (hd records) time keys) signatures then e = MissingKey
       else e = SignatureMismatch)"
proof (cases "within_limits limits records signatures keys \<and> wf_rrset records \<and>
    (\<forall>s \<in> set signatures. passed_signature os records keys time limits s)")
  case False
  show ?thesis
  proof (cases "within_limits limits records signatures keys \<and> wf_rrset records")
    case True
    with False obtain s sig where s: "s \<in> set signatures" "usable_signature (hd records) time s sig"
      "\<nexists>data. rrsig_signed_data records sig (sl_max_signed_data_len limits) = Inr data \<and> \<not> list_ex (key_accepts os sig data) keys"
      unfolding passed_signature_def by blast
    then obtain e' where "rrsig_signed_data records sig (sl_max_signed_data_len limits) = Inl e' \<or>
        signature_accepts os records keys limits sig"
      by (cases "rrsig_signed_data records sig (sl_max_signed_data_len limits)") (auto simp: signature_accepts_def)
    moreover have "records \<noteq> []" using True by (simp add: wf_rrset_def)
    then have "signature_loop os records (hd records) keys time limits signatures scan_start = Inl e"
      using assms True unfolding verify_rrset_eq by simp
    ultimately show ?thesis using signature_loop_Inl_data s(1,2) by blast
  qed (use assms in \<open>auto simp: verify_rrset_eq split: if_splits\<close>)
next
  case True
  then have "signature_loop os records (hd records) keys time limits signatures scan_start =
      Inl (view_error (scan_view (hd records) time keys signatures scan_start))"
    by (intro signature_loop_view) (auto simp: passed_signature_def)
  moreover have "records \<noteq> []" using True by (simp add: wf_rrset_def)
  ultimately have e: "e = view_error (scan_view (hd records) time keys signatures scan_start)"
    using assms True by (simp add: verify_rrset_eq)
  have un: "\<exists>s \<in> set signatures. \<exists>sig. current_signature (hd records) time s sig \<and>
      \<not> supported_algorithm (rs_algorithm sig) \<and> first_unsupported (hd records) time signatures = Some (rs_algorithm sig)"
    if "saw (current_signature (hd records) time) signatures" "\<not> saw (usable_signature (hd records) time) signatures"
    using that by (rule first_unsupported_Some)
  show ?thesis
  proof (intro disjI2 conjI)
    show "\<forall>s \<in> set signatures. passed_signature os records keys time limits s" using True by blast
  qed (use un in \<open>auto simp: e view_error_def scan_view_def scan_start_def; metis\<close>)
qed

lemma rrset_errors_exact_witness:
  "verify_rrset sample_os [sample_a_record] [sample_signature RtA [2]] [sample_key_record] 1500 default_dnssec_limits
     = Inl SignatureMismatch"
proof -
  obtain e where e: "verify_rrset sample_os [sample_a_record] [sample_signature RtA [2]] [sample_key_record] 1500
      default_dnssec_limits = Inl e" using sample_mismatch by blast
  have "saw (usable_signature sample_a_record 1500) [sample_signature RtA [2]]"
    "saw (matched_signature sample_a_record 1500 [sample_key_record]) [sample_signature RtA [2]]"
    using sample_usable_key [of RtA "[2]" sample_key] by (auto simp: sample_usable_signature matched_signature_def)
  moreover from this have "saw (current_signature sample_a_record 1500) [sample_signature RtA [2]]"
    "saw (covering_signature sample_a_record) [sample_signature RtA [2]]"
    by (auto simp: usable_signature_def current_signature_def)
  ultimately have "e = SignatureMismatch"
    using rrset_errors_exact [OF e] sample_signed_data(1) [of "[2]"]
    by (auto simp: signed_sample_wf sample_usable_signature simp del: saw_simps)
  with e show ?thesis by simp
qed

text \<open>C5: Every authenticated key set rests on an unbroken chain.  Each zone's key set is one DNSKEY RRset, signed
  by a zone key of it that is neither revoked nor of another protocol and whose digest a DS record of the
  zone has; each DS RRset after the first is signed by a key of the zone above.  A set of records verified
  with the keys is signed by a key of the last zone.  At every instant at which the evidence of these records
  is fresh, each of these signatures (the one of the records, the one of every key set and the one of every
  DS RRset after the first) has not expired in serial arithmetic and neither the TTL of its record nor its
  original TTL has run out, and no TTL of the records, the DS records and the key records has run out.\<close>

theorem chain_of_trust_sound:
  assumes os: "openssl_laws os" and path: "trust_path os limits path a"
    and v: "verify_rrset_with_keys os a records signatures time limits = Inr v"
  shows "path \<noteq> [] \<and> list_all (trust_link_while os limits (rrset_fresh_at v)) path \<and>
    successively (trust_step_while os limits (rrset_fresh_at v)) path \<and>
    wf_rrset records \<and> vr_owner v = rr_name (hd records) \<and> vr_record_type v = rr_type (hd records) \<and>
    signed_while os limits (rrset_fresh_at v) records signatures (sr_records (dg_dnskeys (last path))) time \<and>
    (\<forall>now. rrset_fresh_at v now \<longrightarrow> unat time \<le> unat now \<and> serial_le (ucast now) (vr_expiration v) \<and>
       (\<forall>r \<in> set records. unat now < unat time + unat (rr_ttl r)))"
proof -
  note chain = trust_path_sound [OF os path]
  from v obtain w where fresh: "keys_fresh_at a (ucast time)"
    and w: "verify_rrset os records signatures (ak_records a) time limits = Inr w"
    and v_eq: "v = w\<lparr>vr_expires_at_unix := min (vr_expires_at_unix w) (ak_expires_at_unix a)\<rparr>"
    by (auto simp: verify_rrset_with_keys_def result_inv split: if_splits)
  from w obtain s sig where s: "usable_signature (hd records) time s sig"
    and w_eq: "w = verified_of records (hd records) s sig time" and wf: "wf_rrset records" by (rule verify_rrset_sound)
  have life: "rrset_fresh_at w now" "keys_fresh_at a now" "unat time \<le> unat now"
    "unat now < unat (rrset_expires_at records s sig time)" "signature_alive time s sig now"
    if "rrset_fresh_at v now" for now
    using that fresh signature_alive_before [OF s refl, of now records]
    by (auto simp: rrset_fresh_at_def keys_fresh_at_def v_eq w_eq verified_of_def word_le_nat_alt word_less_nat_alt unat_min)
  have "list_all (trust_link_while os limits (rrset_fresh_at v)) path"
    using chain by (auto elim!: list.pred_mono_strong intro: trust_link_while_mono life(2))
  moreover have "successively (trust_step_while os limits (rrset_fresh_at v)) path"
    using chain by (auto elim!: successively_mono intro: trust_step_while_mono life(2))
  moreover have "signed_while os limits (rrset_fresh_at v) records signatures (sr_records (dg_dnskeys (last path))) time"
    using signed_while_mono [OF verify_rrset_signed_while [OF w] life(1)] chain by simp
  moreover have "unat now < unat time + unat (rr_ttl r)" if "rrset_fresh_at v now" "r \<in> set records" for now r
    using life(4) [OF that(1)] rrset_expires_at_le(1) [OF that(2), of s sig time] by (rule less_le_trans)
  moreover have "serial_le (ucast now) (vr_expiration v)" if "rrset_fresh_at v now" for now
    using life(5) [OF that] by (simp add: signature_alive_def v_eq w_eq verified_of_def)
  ultimately show ?thesis
    using chain wf life(3) by (auto simp: v_eq w_eq verified_of_def)
qed

theorem chain_of_trust_sound_witness:
  "trust_link_while sample_os default_dnssec_limits (rrset_fresh_at sample_verified) sample_delegation \<and>
   {now. rrset_fresh_at sample_verified now} \<subseteq> {now. unat now < 1560}"
  using chain_of_trust_sound [OF sample_os_laws sample_path sample_a_with_keys]
  by (auto simp: sample_a_record_def)

text \<open>C31: The DS check reports a result exactly when the comparison of digests is defined: it panics exactly when the
  first digest comparison that is not passed over has a record digest of another length than its digest type
  has, and it accepts exactly when that comparison is an equality.\<close>

theorem ds_check_exact:
  assumes "openssl_laws os" and "dk_protocol key = 3" and "dk_flags key AND 0x0080 = 0" and "name_encode owner [] = Inr w"
  shows "(verify_ds os owner key records = None \<longleftrightarrow>
      (\<exists>pre r post. records = pre @ r # post \<and> list_all (ds_passed os owner key (w @ encode_dnskey key)) pre \<and>
         ds_compared (\<lambda>digest recorded. length digest \<noteq> length recorded) os owner key (w @ encode_dnskey key) r)) \<and>
    (verify_ds os owner key records = Some (Inr ()) \<longleftrightarrow>
      (\<exists>pre r post. records = pre @ r # post \<and> list_all (ds_passed os owner key (w @ encode_dnskey key)) pre \<and>
         ds_compared (\<lambda>digest recorded. digest = recorded) os owner key (w @ encode_dnskey key) r))"
  using assms(2-) ds_loop_iff [OF assms(1), of owner key "w @ encode_dnskey key" records False None]
  unfolding verify_ds_eq reaches_def list_all_iff by (simp add: conj_commute)

theorem ds_check_exact_witness:
  "verify_ds sample_os sample_zone sample_key [sample_ds []] = None"
proof -
  let ?w = "[1, 97, 0] :: bytes"
  have k: "dk_protocol sample_key = 3" "dk_flags sample_key AND 0x0080 = 0" "name_encode sample_zone [] = Inr ?w"
    by (simp_all add: sample_defs name_encode_def name_wire_len_def MAX_WIRE_NAME_LEN_def MAX_LABEL_LEN_def)
  have "ds_candidate sample_zone sample_key (sample_ds []) \<lparr>ds_key_tag = 2572, ds_algorithm = 8, ds_digest_type = 2, ds_digest = []\<rparr>"
    using sample_tag by (simp add: ds_candidate_def sample_defs)
  then have "ds_compared (\<lambda>digest recorded. length digest \<noteq> length recorded) sample_os sample_zone sample_key
      (?w @ encode_dnskey sample_key) (sample_ds [])"
    unfolding ds_compared_def
    by (intro exI [of _ "\<lparr>ds_key_tag = 2572, ds_algorithm = 8, ds_digest_type = 2, ds_digest = []\<rparr>"]
        exI [of _ "?w @ encode_dnskey sample_key"]) (simp add: digest_ds_def sample_os_def)
  then have "\<exists>pre r post. [sample_ds []] = pre @ r # post \<and>
      list_all (ds_passed sample_os sample_zone sample_key (?w @ encode_dnskey sample_key)) pre \<and>
      ds_compared (\<lambda>digest recorded. length digest \<noteq> length recorded) sample_os sample_zone sample_key
      (?w @ encode_dnskey sample_key) r"
    by (intro exI [of _ "[]"] exI [of _ "sample_ds []"]) simp
  with ds_check_exact [OF sample_os_laws k, of "[sample_ds []]"] show ?thesis by blast
qed

end
