(* ===== verification/Dnssec_Canonical.thy ===== *)
theory Dnssec_Canonical
  imports Dnssec_Laws "HOL-Library.Product_Lexorder"
begin

unbundle bit_operations_syntax

text \<open>
  The order of the records in the signed data of an RRset.  The source sorts the encoded records, in which
  the length of the data comes before the data; RFC 4034 (6.3) orders the records of an RRset by their data.
  The two agree when all data have the same length.
\<close>

section \<open>Sorting through a monotone encoding\<close>

lemma insort_key_eq:
  assumes "\<And>y. y \<in> set ys \<Longrightarrow> f x \<le> f y \<longleftrightarrow> k x \<le> k y"
  shows "insort_key f x ys = insort_key k x ys"
  using assms by (induction ys) auto

lemma insort_map: "insort (f x) (map f ys) = map f (insort_key f x ys)"
  by (induction ys) auto

lemma sort_map:
  assumes "\<And>x y. x \<in> set xs \<Longrightarrow> y \<in> set xs \<Longrightarrow> f x \<le> f y \<longleftrightarrow> k x \<le> k y"
  shows "sort (map f xs) = map f (sort_key k xs)"
proof -
  have "sort_key f xs = sort_key k xs"
    using assms
  proof (induction xs)
    case (Cons x xs)
    then have "insort_key f x (sort_key k xs) = insort_key k x (sort_key k xs)" by (intro insort_key_eq) simp
    with Cons show ?case by simp
  qed simp
  moreover have "sort (map f xs) = map f (sort_key f xs)" by (induction xs) (simp_all add: insort_map)
  ultimately show ?thesis by simp
qed

lemma append_le_cancel: "(pre @ xs :: 'a :: linorder list) \<le> pre @ ys \<longleftrightarrow> xs \<le> ys"
  by (induction pre) simp_all

lemma append_le_same_length:
  "length as = length bs \<Longrightarrow> (as @ xs :: 'a :: linorder list) \<le> bs @ ys \<longleftrightarrow> as < bs \<or> as = bs \<and> xs \<le> ys"
  by (induction as bs rule: list_induct2) auto

lemma be_bytes_less: "be_bytes 2 (v :: u16) < be_bytes 2 w \<longleftrightarrow> v < w"
proof -
  have split: "unat v = unat (drop_bit 8 v) * 256 + unat (ucast v :: u8)" for v :: u16
    using unsigned_less [of v, where 'a = nat]
    by (simp add: unsigned_drop_bit_eq unsigned_ucast_eq drop_bit_eq_div [where 'a = nat] take_bit_eq_mod)
  have hi: "unat (ucast (drop_bit 8 v) :: u8) = unat (drop_bit 8 v)" for v :: u16
    using unsigned_less [of v, where 'a = nat]
    by (simp add: unsigned_ucast_eq unsigned_drop_bit_eq drop_bit_eq_div [where 'a = nat] take_bit_nat_eq_self)
  have "v < w \<longleftrightarrow> unat (drop_bit 8 v) < unat (drop_bit 8 w) \<or>
      unat (drop_bit 8 v) = unat (drop_bit 8 w) \<and> unat (ucast v :: u8) < unat (ucast w :: u8)"
    using unsigned_less [of "ucast v :: u8", where 'a = nat] unsigned_less [of "ucast w :: u8", where 'a = nat]
    by (simp only: word_less_nat_alt split [of v] split [of w]) auto
  then show ?thesis
    by (simp only: be_bytes_2 Cons_less_Cons word_less_nat_alt word_unat_eq_iff hi) simp
qed

section \<open>The order of the source\<close>

definition record_frame :: "bytes \<Rightarrow> record_type \<Rightarrow> u32 \<Rightarrow> bytes \<Rightarrow> bytes" where
  "record_frame owner ty ttl rd =
     owner @ be_bytes 2 (code ty) @ be_bytes 2 CLASS_IN @ be_bytes 4 ttl @ be_bytes 2 (of_nat (length rd) :: u16) @ rd"

lemma record_frame_le:
  assumes "length rd \<le> 65535" and "length rd' \<le> 65535"
  shows "record_frame owner ty ttl rd \<le> record_frame owner ty ttl rd' \<longleftrightarrow> (length rd, rd) \<le> (length rd', rd')"
proof -
  have n: "unat (of_nat (length rd) :: u16) = length rd" "unat (of_nat (length rd') :: u16) = length rd'"
    using assms by (simp_all add: unat_of_nat take_bit_nat_eq_self)
  then have "(of_nat (length rd) :: u16) = of_nat (length rd') \<longleftrightarrow> length rd = length rd'" by metis
  moreover have "be_bytes 2 (v :: u16) = be_bytes 2 w \<longleftrightarrow> v = w" for v w by (metis be_word_widths(1))
  ultimately show ?thesis
    by (auto simp: record_frame_def append_le_cancel append_le_same_length be_bytes_less word_less_nat_alt n)
qed

lemma canonical_record_Inr:
  "canonical_record r sig = Inr b \<longleftrightarrow>
     (\<exists>owner rd. canonical_owner (rr_name r) (unat (rs_labels sig)) = Inr owner \<and> canonical_rdata r = Inr rd \<and>
        length rd \<le> U16_MAX \<and>
        b = owner @ be_bytes 2 (code (rr_type r)) @ be_bytes 2 (rr_class r) @ be_bytes 4 (rs_original_ttl sig) @
            be_bytes 2 (of_nat (length rd) :: u16) @ rd)"
  by (auto simp: canonical_record_def result_inv Let_def write_u16_def write_u32_def not_less split: if_splits)

lemma collect_results_Inr:
  "collect_results rs = Inr xs \<longleftrightarrow> list_all2 (\<lambda>r x. r = Inr x) rs xs"
  by (induction rs arbitrary: xs) (auto simp: result_inv list_all2_Cons1)

lemma append_bounded_Inr:
  "append_bounded maximum rs out = Inr d \<Longrightarrow> d = out @ concat rs"
  by (induction rs arbitrary: out) (fastforce split: if_splits)+

text \<open>The encodings of one RRset are frames around its data.\<close>

lemma rrset_frames:
  assumes wf: "wf_rrset records"
    and all: "list_all2 (\<lambda>r b. canonical_record r sig = Inr b) records bs"
  shows "\<exists>owner rds. canonical_owner (rr_name (hd records)) (unat (rs_labels sig)) = Inr owner \<and>
    list_all2 (\<lambda>r rd. canonical_rdata r = Inr rd) records rds \<and> list_all (\<lambda>rd. length rd \<le> U16_MAX) rds \<and>
    bs = map (record_frame owner (rr_type (hd records)) (rs_original_ttl sig)) rds"
proof -
  from wf all obtain r rs b where "records = r # rs" and "canonical_record r sig = Inr b"
    by (cases records) (auto simp: wf_rrset_def list_all2_Cons1)
  then obtain owner where owner: "canonical_owner (rr_name (hd records)) (unat (rs_labels sig)) = Inr owner"
    by (auto simp: canonical_record_Inr)
  have "\<exists>rds. list_all2 (\<lambda>r rd. canonical_rdata r = Inr rd) rs rds \<and> list_all (\<lambda>rd. length rd \<le> U16_MAX) rds \<and>
      bs = map (record_frame owner (rr_type (hd records)) (rs_original_ttl sig)) rds"
    if "list_all2 (\<lambda>r b. canonical_record r sig = Inr b) rs bs" "set rs \<subseteq> set records" for rs bs
    using that
  proof (induction rs bs rule: list_all2_induct)
    case (Cons r rs b bs)
    then obtain rds where rds: "list_all2 (\<lambda>r rd. canonical_rdata r = Inr rd) rs rds" "list_all (\<lambda>rd. length rd \<le> U16_MAX) rds"
      "bs = map (record_frame owner (rr_type (hd records)) (rs_original_ttl sig)) rds" by auto
    have "rr_name r = rr_name (hd records)" "rr_type r = rr_type (hd records)" "rr_class r = CLASS_IN"
      using wf_rrset_member [OF wf] Cons.prems by simp_all
    with Cons.hyps(1) owner obtain rd where "canonical_rdata r = Inr rd" "length rd \<le> U16_MAX"
      "b = record_frame owner (rr_type (hd records)) (rs_original_ttl sig) rd"
      by (auto simp: canonical_record_Inr record_frame_def)
    with rds show ?case by (intro exI [of _ "rd # rds"]) simp
  qed simp
  from this [OF all] owner show ?thesis by blast
qed

lemma signed_data_frames:
  assumes wf: "wf_rrset records" and d: "rrsig_signed_data records sig maximum = Inr d"
  shows "\<exists>prefix owner rds. signature_prefix sig = Inr prefix \<and>
    canonical_owner (rr_name (hd records)) (unat (rs_labels sig)) = Inr owner \<and>
    list_all2 (\<lambda>r rd. canonical_rdata r = Inr rd) records rds \<and>
    d = prefix @ concat (map (record_frame owner (rr_type (hd records)) (rs_original_ttl sig))
          (sort_key (\<lambda>rd. (length rd, rd)) rds)) \<and>
    ((\<exists>n. list_all (\<lambda>rd. length rd = n) rds) \<longrightarrow> sort_key (\<lambda>rd. (length rd, rd)) rds = sort rds)"
proof -
  from d obtain prefix bs where p: "signature_prefix sig = Inr prefix"
    and bs: "list_all2 (\<lambda>r b. canonical_record r sig = Inr b) records bs"
    and d_eq: "append_bounded maximum (sort bs) prefix = Inr d"
    by (auto simp: rrsig_signed_data_def canonical_signed_data_def result_inv collect_results_Inr list.rel_map)
  from rrset_frames [OF wf bs] obtain owner rds where f:
    "canonical_owner (rr_name (hd records)) (unat (rs_labels sig)) = Inr owner"
    "list_all2 (\<lambda>r rd. canonical_rdata r = Inr rd) records rds" "list_all (\<lambda>rd. length rd \<le> U16_MAX) rds"
    "bs = map (record_frame owner (rr_type (hd records)) (rs_original_ttl sig)) rds" by blast
  have "sort bs = map (record_frame owner (rr_type (hd records)) (rs_original_ttl sig)) (sort_key (\<lambda>rd. (length rd, rd)) rds)"
    unfolding f(4) using f(3) by (intro sort_map record_frame_le) (auto simp: list_all_iff U16_MAX_def)
  moreover have "sort_key (\<lambda>rd. (length rd, rd)) rds = sort rds" if "\<exists>n. list_all (\<lambda>rd. length rd = n) rds"
  proof -
    have "sort (map id rds) = map id (sort_key (\<lambda>rd. (length rd, rd)) rds)"
      using that by (intro sort_map) (auto simp: list_all_iff)
    then show ?thesis by simp
  qed
  ultimately show ?thesis using p f append_bounded_Inr [OF d_eq]
    by (intro exI [of _ prefix] exI [of _ owner] exI [of _ rds]) simp
qed

section \<open>Two name servers\<close>

definition sample_ns :: "bytes list \<Rightarrow> resource_record" where
  "sample_ns target = \<lparr>rr_name = sample_zone, rr_type = RtNs, rr_class = CLASS_IN, rr_ttl = 60, rr_rdata = RdNs (Name target)\<rparr>"

lemma sample_ns_data:
  "\<exists>d. rrsig_signed_data [sample_ns [[122]], sample_ns [[97], [98]]] (sample_rrsig RtNs [1]) 1000 = Inr d"
  by (simp add: signed_data_eval sample_defs sample_ns_def)

lemma sample_ns_rdata:
  "list_all2 (\<lambda>r rd. canonical_rdata r = Inr rd) [sample_ns [[122]], sample_ns [[97], [98]]] rds \<longleftrightarrow>
     rds = [[1, 122, 0], [1, 97, 1, 98, 0]]"
  by (auto simp: sample_ns_def signed_data_eval list_all2_Cons1)

lemma sample_ns_wf: "wf_rrset [sample_ns [[122]], sample_ns [[97], [98]]]"
  by (simp add: wf_rrset_def sample_ns_def)

text \<open>The name servers \<open>z.\<close> and \<open>a.b.\<close> of one RRset are signed in this order, while their canonical order is
  the other one.\<close>

lemma canonical_order_diverges:
  "\<exists>prefix owner d. signature_prefix (sample_rrsig RtNs [1]) = Inr prefix \<and> canonical_owner sample_zone 1 = Inr owner \<and>
     rrsig_signed_data [sample_ns [[122]], sample_ns [[97], [98]]] (sample_rrsig RtNs [1]) 1000 = Inr d \<and>
     d = prefix @ record_frame owner RtNs 60 [1, 122, 0] @ record_frame owner RtNs 60 [1, 97, 1, 98, 0] \<and>
     sort [[1, 122, 0], [1, 97, 1, 98, 0 :: u8]] = [[1, 97, 1, 98, 0], [1, 122, 0]]"
proof -
  let ?rs = "[sample_ns [[122]], sample_ns [[97], [98]]]"
  obtain d where d: "rrsig_signed_data ?rs (sample_rrsig RtNs [1]) 1000 = Inr d" using sample_ns_data by blast
  from signed_data_frames [OF sample_ns_wf d] obtain prefix owner where
    "signature_prefix (sample_rrsig RtNs [1]) = Inr prefix" "canonical_owner sample_zone 1 = Inr owner"
    "d = prefix @ concat (map (record_frame owner RtNs 60) (sort_key (\<lambda>rd. (length rd, rd)) [[1, 122, 0], [1, 97, 1, 98, 0]]))"
    by (auto simp: sample_ns_rdata sample_rrsig_def) (simp add: sample_ns_def)
  with d show ?thesis by simp
qed

section \<open>Property\<close>

text \<open>C32: The signed data of an RRset are the signature fields followed by its records in the order of first
  the length of their data and then the data; when all data have the same length, this is the canonical
  order of RFC 4034, by the data alone.\<close>

theorem signed_data_order:
  assumes "wf_rrset records" and "rrsig_signed_data records sig maximum = Inr d"
  shows "\<exists>prefix owner rds. signature_prefix sig = Inr prefix \<and>
    canonical_owner (rr_name (hd records)) (unat (rs_labels sig)) = Inr owner \<and>
    list_all2 (\<lambda>r rd. canonical_rdata r = Inr rd) records rds \<and>
    d = prefix @ concat (map (record_frame owner (rr_type (hd records)) (rs_original_ttl sig))
          (sort_key (\<lambda>rd. (length rd, rd)) rds)) \<and>
    ((\<exists>n. list_all (\<lambda>rd. length rd = n) rds) \<longrightarrow> sort_key (\<lambda>rd. (length rd, rd)) rds = sort rds)"
  using assms by (rule signed_data_frames)

theorem signed_data_order_witness:
  "\<exists>prefix owner. signature_prefix (sample_rrsig RtA [1]) = Inr prefix \<and> canonical_owner sample_zone 1 = Inr owner \<and>
     rrsig_signed_data [sample_a_record] (sample_rrsig RtA [1]) (sl_max_signed_data_len default_dnssec_limits) =
       Inr (prefix @ record_frame owner RtA 60 [1, 2, 3, 4])"
proof -
  obtain d where d: "rrsig_signed_data [sample_a_record] (sample_rrsig RtA [1]) (sl_max_signed_data_len default_dnssec_limits) = Inr d"
    using sample_signed_data(1) by blast
  have rd: "canonical_rdata sample_a_record = Inr rd \<longleftrightarrow> rd = [1, 2, 3, 4]" for rd
    by (auto simp: canonical_rdata_def canonical_pair_def sample_a_record_def)
  from signed_data_order [OF signed_sample_wf(1) d] d show ?thesis
    by (auto simp: list_all2_Cons1 rd sample_rrsig_def) (simp add: sample_a_record_def)
qed

end
