(* ===== verification/Dnssec_Denial.thy ===== *)
theory Dnssec_Denial
  imports Dnssec
begin

unbundle bit_operations_syntax

text \<open>
  Authenticated denial of existence (src/crates/hns-dnssec/src/lib.rs): type bitmaps, the canonical order
  of names and the intervals of NSEC and NSEC3 records, base32hex owner labels, the NSEC3 hash, and the two
  proof checkers.  The records are taken to be signature-authenticated by the caller.
\<close>

section \<open>Names and intervals\<close>

datatype cmp_ordering = OrdLess | OrdEqual | OrdGreater

definition bytes_cmp :: "bytes \<Rightarrow> bytes \<Rightarrow> cmp_ordering" where
  "bytes_cmp left right = (if left < right then OrdLess else if left = right then OrdEqual else OrdGreater)"

fun labels_cmp :: "bytes list \<Rightarrow> bytes list \<Rightarrow> cmp_ordering" where
  "labels_cmp (l # ls) (r # rs) = (case bytes_cmp l r of OrdEqual \<Rightarrow> labels_cmp ls rs | other \<Rightarrow> other)"
| "labels_cmp [] (r # rs) = OrdLess"
| "labels_cmp (l # ls) [] = OrdGreater"
| "labels_cmp [] [] = OrdEqual"

definition canonical_name_cmp :: "dns_name \<Rightarrow> dns_name \<Rightarrow> cmp_ordering" where
  "canonical_name_cmp left right = labels_cmp (rev (labels left)) (rev (labels right))"

definition canonical_interval_contains :: "dns_name \<Rightarrow> dns_name \<Rightarrow> dns_name \<Rightarrow> bool" where
  "canonical_interval_contains owner next candidate =
     (let owner_to_next = canonical_name_cmp owner next;
          owner_to_candidate = canonical_name_cmp owner candidate;
          candidate_to_next = canonical_name_cmp candidate next
      in if owner_to_next = OrdLess then owner_to_candidate = OrdLess \<and> candidate_to_next = OrdLess
         else owner_to_candidate = OrdLess \<or> candidate_to_next = OrdLess)"

definition hash_interval_contains :: "bytes \<Rightarrow> bytes \<Rightarrow> bytes \<Rightarrow> bool" where
  "hash_interval_contains owner next candidate =
     (if owner < next then owner < candidate \<and> candidate < next else owner < candidate \<or> candidate < next)"

definition ancestor :: "dns_name \<Rightarrow> usize \<Rightarrow> dns_name option" where
  "ancestor name start =
     Option.bind (slice_from (labels name) start) (\<lambda>ls. case from_labels ls of Inl _ \<Rightarrow> None | Inr n \<Rightarrow> Some n)"

definition wildcard_of :: "dns_name \<Rightarrow> (dnssec_error, dns_name) result" where
  "wildcard_of name = map_err (\<lambda>_. DenialMismatch) (from_labels ([42] # labels name))"

definition is_suffix :: "dns_name \<Rightarrow> dns_name \<Rightarrow> bool" where
  "is_suffix name suffix \<longleftrightarrow>
     slice_from (labels name) (length (labels name) - length (labels suffix)) = Some (labels suffix)"

section \<open>Type bitmaps\<close>

function bitmap_loop :: "bytes \<Rightarrow> u8 \<Rightarrow> usize \<Rightarrow> usize \<Rightarrow> (dnssec_error, bool) result" where
  "bitmap_loop bitmap window low cursor =
     (if cursor < length bitmap then
        rbind (ok_or DenialMismatch (slice_get bitmap cursor)) (\<lambda>block_window.
        rbind (ok_or DenialMismatch (slice_get bitmap (usize_saturating_add cursor 1))) (\<lambda>len.
        if unat len = 0 \<or> unat len > 32 then Inl DenialMismatch
        else let start = usize_saturating_add cursor 2 in
        rbind (ok_or DnssecLimit (usize_add start (unat len))) (\<lambda>stop.
        rbind (ok_or DenialMismatch (slice_range bitmap start stop)) (\<lambda>block.
        if block_window = window then
          Inr (case slice_get block (low div 8) of None \<Rightarrow> False | Some byte \<Rightarrow> byte AND drop_bit (low mod 8) 0x80 \<noteq> 0)
        else bitmap_loop bitmap window low stop))))
      else Inr False)"
  by pat_completeness auto

termination
  by (relation "measure (\<lambda>(bitmap, window, low, cursor). length bitmap - cursor)")
    (auto simp: result_inv usize_saturating_add_def slice_range_eq_Some min_def split: if_splits)

definition bitmap_contains :: "bytes \<Rightarrow> u16 \<Rightarrow> (dnssec_error, bool) result" where
  "bitmap_contains bitmap record_type =
     bitmap_loop bitmap (ucast (drop_bit 8 record_type)) (unat (record_type AND 0xff)) 0"

text \<open>The condition on the bitmaps that both proof checkers share, with its short-circuit evaluation.\<close>

definition types_denied :: "bytes \<Rightarrow> record_type \<Rightarrow> (dnssec_error, bool) result" where
  "types_denied bitmap qtype =
     rbind (bitmap_contains bitmap (code qtype)) (\<lambda>has_type.
     if has_type then Inr False
     else if qtype = RtCname then Inr True
     else rbind (bitmap_contains bitmap (code RtCname)) (\<lambda>has_cname. Inr (\<not> has_cname)))"

section \<open>NSEC\<close>

definition valid_nsec :: "resource_record \<Rightarrow> (resource_record \<times> nsec) option" where
  "valid_nsec record =
     (if rr_class record \<noteq> CLASS_IN \<or> rr_type record \<noteq> RtNsec then None
      else case rr_rdata record of RdNsec nsec \<Rightarrow> Some (record, nsec) | _ \<Rightarrow> None)"

fun filter_map :: "('a \<Rightarrow> 'b option) \<Rightarrow> 'a list \<Rightarrow> 'b list" where
  "filter_map f [] = []"
| "filter_map f (x # xs) = (case f x of None \<Rightarrow> filter_map f xs | Some y \<Rightarrow> y # filter_map f xs)"

fun nsec_nodata_loop ::
  "dns_name \<Rightarrow> record_type \<Rightarrow> bool \<Rightarrow> (resource_record \<times> nsec) list \<Rightarrow> (dnssec_error, bool) result" where
  "nsec_nodata_loop qname qtype is_name_error [] = Inr False"
| "nsec_nodata_loop qname qtype is_name_error ((record, nsec) # rest) =
     (if rr_name record = qname \<and> \<not> is_name_error then
        rbind (types_denied (ns_type_bitmaps nsec) qtype) (\<lambda>denied.
        if denied then Inr True else nsec_nodata_loop qname qtype is_name_error rest)
      else nsec_nodata_loop qname qtype is_name_error rest)"

definition verify_nsec_denial ::
  "dns_name \<Rightarrow> record_type \<Rightarrow> resource_record list \<Rightarrow> bool \<Rightarrow> dnssec_limits \<Rightarrow> (dnssec_error, denial) result" where
  "verify_nsec_denial qname qtype records response_is_name_error limits =
     (if length records > sl_max_denial_records limits then Inl DnssecLimit
      else let nsecs = filter_map valid_nsec records in
      rbind (nsec_nodata_loop qname qtype response_is_name_error nsecs) (\<lambda>no_data.
      if no_data then Inr NoData
      else if \<not> response_is_name_error then Inl DenialMismatch
      else
      rbind (ok_or DenialMismatch (find (\<lambda>start. case ancestor qname start of None \<Rightarrow> False
          | Some candidate \<Rightarrow> list_ex (\<lambda>(record, _). rr_name record = candidate) nsecs)
          [1..<Suc (length (labels qname))])) (\<lambda>closest_start.
      rbind (ok_or DenialMismatch (ancestor qname (closest_start - 1))) (\<lambda>next_closer.
      rbind (ok_or DenialMismatch (ancestor qname closest_start)) (\<lambda>closest.
      rbind (wildcard_of closest) (\<lambda>wildcard.
      if list_ex (\<lambda>(record, nsec). canonical_interval_contains (rr_name record) (ns_next_domain nsec) next_closer) nsecs \<and>
         list_ex (\<lambda>(record, nsec). canonical_interval_contains (rr_name record) (ns_next_domain nsec) wildcard) nsecs
      then Inr NameError
      else Inl DenialMismatch))))))"

section \<open>NSEC3\<close>

definition digest_sha1_many :: "'key openssl \<Rightarrow> bytes list \<Rightarrow> (dnssec_error, bytes) result" where
  "digest_sha1_many os parts = ok_or (UnsupportedDigest 1) (os_hash os MdSha1 (concat parts))"

fun nsec3_rounds :: "'key openssl \<Rightarrow> bytes \<Rightarrow> nat \<Rightarrow> bytes \<Rightarrow> (dnssec_error, bytes) result" where
  "nsec3_rounds os salt 0 val = Inr val"
| "nsec3_rounds os salt (Suc n) val = rbind (digest_sha1_many os [val, salt]) (nsec3_rounds os salt n)"

definition nsec3_hash ::
  "'key openssl \<Rightarrow> dns_name \<Rightarrow> bytes \<Rightarrow> u16 \<Rightarrow> dnssec_limits \<Rightarrow> (dnssec_error, bytes) result" where
  "nsec3_hash os name salt iterations limits =
     (if iterations > sl_max_nsec3_iterations limits \<or> length salt > 255 then Inl DnssecLimit
      else rbind (map_err (\<lambda>_. UnsupportedRdata) (name_encode name [])) (\<lambda>canonical_name.
      rbind (digest_sha1_many os [canonical_name, salt]) (\<lambda>val.
      rbind (nsec3_rounds os salt (unat iterations) val) (\<lambda>val.
      if length val = 20 then Inr val else Inl (UnsupportedDigest 1)))))"

definition base32hex_digit :: "u8 \<Rightarrow> u8 option" where
  "base32hex_digit byte =
     (let upper = (if 97 \<le> byte \<and> byte \<le> 122 then byte - 32 else byte) in
      if 48 \<le> upper \<and> upper \<le> 57 then Some (byte - 48)
      else if 65 \<le> upper \<and> upper \<le> 86 then Some (upper - 65 + 10)
      else None)"

function base32hex_drain :: "bytes \<Rightarrow> u32 \<Rightarrow> u8 \<Rightarrow> bytes \<times> u32 \<times> u8" where
  "base32hex_drain out accumulator nbits =
     (if nbits \<ge> 8 then
        let nbits = nbits - 8 in
        base32hex_drain (out @ [ucast (drop_bit (unat nbits) accumulator AND 0xff)])
          (accumulator AND (push_bit (unat nbits) 1 - 1)) nbits
      else (out, accumulator, nbits))"
  by pat_completeness auto

termination
  by (relation "measure (\<lambda>(out, accumulator, nbits). unat nbits)")
    (auto simp: word_le_nat_alt unat_sub)

definition base32hex_step :: "bytes \<times> u32 \<times> u8 \<Rightarrow> u8 \<Rightarrow> (bytes \<times> u32 \<times> u8) option" where
  "base32hex_step s byte =
     (case s of (out, accumulator, nbits) \<Rightarrow>
      Option.bind (base32hex_digit byte) (\<lambda>digit.
      Some (base32hex_drain out (push_bit 5 accumulator OR ucast digit)
        (if unat nbits + 5 \<le> 255 then nbits + 5 else 255))))"

fun base32hex_loop :: "bytes \<Rightarrow> bytes \<times> u32 \<times> u8 \<Rightarrow> (bytes \<times> u32 \<times> u8) option" where
  "base32hex_loop [] s = Some s"
| "base32hex_loop (byte # rest) s = Option.bind (base32hex_step s byte) (base32hex_loop rest)"

definition decode_base32hex :: "bytes \<Rightarrow> bytes option" where
  "decode_base32hex input =
     Option.bind (base32hex_loop input ([], 0, 0)) (\<lambda>(out, accumulator, nbits).
     if nbits \<noteq> 0 \<and> accumulator \<noteq> 0 then None else Some out)"

definition nsec3_owner_hash :: "dns_name \<Rightarrow> dns_name \<Rightarrow> bytes option" where
  "nsec3_owner_hash owner zone =
     Option.bind (usize_add (length (labels zone)) 1) (\<lambda>expected.
     if length (labels owner) \<noteq> expected then None
     else Option.bind (slice_from (labels owner) 1) (\<lambda>rest.
     if rest \<noteq> labels zone then None
     else Option.bind (slice_get (labels owner) 0) (\<lambda>label1.
     Option.bind (decode_base32hex label1) (\<lambda>decoded.
     if length decoded = 20 then Some decoded else None))))"

definition valid_nsec3_record :: "resource_record \<Rightarrow> nsec3 option" where
  "valid_nsec3_record record =
     (if rr_class record \<noteq> CLASS_IN \<or> rr_type record \<noteq> RtNsec3 then None
      else case rr_rdata record of RdNsec3 nsec3 \<Rightarrow> Some nsec3 | _ \<Rightarrow> None)"

definition validate_nsec3 :: "nsec3 \<Rightarrow> dnssec_limits \<Rightarrow> (dnssec_error, unit) result" where
  "validate_nsec3 record limits =
     (if n3_hash_algorithm record \<noteq> 1 \<or> n3_flags record AND NOT 1 \<noteq> 0 \<or>
         n3_iterations record > sl_max_nsec3_iterations limits \<or> length (n3_salt record) > 255 \<or>
         length (n3_next_hashed_owner record) \<noteq> 20
      then Inl DenialMismatch else Inr ())"

fun nsec3_entries ::
  "dns_name \<Rightarrow> dnssec_limits \<Rightarrow> resource_record list \<Rightarrow> (dnssec_error, (bytes \<times> nsec3) list) result" where
  "nsec3_entries zone limits [] = Inr []"
| "nsec3_entries zone limits (record # rest) =
     (case valid_nsec3_record record of
        None \<Rightarrow> nsec3_entries zone limits rest
      | Some nsec3 \<Rightarrow>
          rbind (validate_nsec3 nsec3 limits) (\<lambda>_.
          case nsec3_owner_hash (rr_name record) zone of
            None \<Rightarrow> nsec3_entries zone limits rest
          | Some owner_hash \<Rightarrow>
              rbind (nsec3_entries zone limits rest) (\<lambda>entries. Inr ((owner_hash, nsec3) # entries))))"

fun nsec3_nodata_loop ::
  "bytes \<Rightarrow> record_type \<Rightarrow> bool \<Rightarrow> (bytes \<times> nsec3) list \<Rightarrow> (dnssec_error, bool) result" where
  "nsec3_nodata_loop query_hash qtype is_name_error [] = Inr False"
| "nsec3_nodata_loop query_hash qtype is_name_error ((owner_hash, nsec3) # rest) =
     (if owner_hash = query_hash \<and> \<not> is_name_error then
        rbind (types_denied (n3_type_bitmaps nsec3) qtype) (\<lambda>denied.
        if denied then Inr True else nsec3_nodata_loop query_hash qtype is_name_error rest)
      else nsec3_nodata_loop query_hash qtype is_name_error rest)"

definition nsec3_covers :: "(bytes \<times> nsec3) list \<Rightarrow> bytes \<Rightarrow> bool" where
  "nsec3_covers entries h =
     list_ex (\<lambda>(owner, record). n3_flags record = 0 \<and> hash_interval_contains owner (n3_next_hashed_owner record) h) entries"

definition nsec3_name_error ::
  "'key openssl \<Rightarrow> dns_name \<Rightarrow> dns_name \<Rightarrow> (bytes \<times> nsec3) list \<Rightarrow> nsec3 \<Rightarrow> dnssec_limits \<Rightarrow>
   (dnssec_error, denial) result" where
  "nsec3_name_error os zone qname entries rec1 limits =
     (let salt = n3_salt rec1; iterations = n3_iterations rec1 in
      rbind (ok_or DenialMismatch (find (\<lambda>start. case ancestor qname start of None \<Rightarrow> False
          | Some candidate \<Rightarrow>
              (case nsec3_hash os candidate salt iterations limits of Inl _ \<Rightarrow> False
               | Inr h \<Rightarrow> list_ex (\<lambda>(owner_hash, _). owner_hash = h) entries))
          [1..<Suc (length (labels qname) - length (labels zone))])) (\<lambda>closest_start.
      rbind (ok_or DenialMismatch (ancestor qname (closest_start - 1))) (\<lambda>next_closer.
      rbind (ok_or DenialMismatch (ancestor qname closest_start)) (\<lambda>closest.
      rbind (wildcard_of closest) (\<lambda>wildcard.
      rbind (nsec3_hash os next_closer salt iterations limits) (\<lambda>next_hash.
      rbind (nsec3_hash os wildcard salt iterations limits) (\<lambda>wildcard_hash.
      if nsec3_covers entries next_hash \<and> nsec3_covers entries wildcard_hash then Inr NameError
      else Inl DenialMismatch)))))))"

definition verify_nsec3_denial ::
  "'key openssl \<Rightarrow> dns_name \<Rightarrow> dns_name \<Rightarrow> record_type \<Rightarrow> resource_record list \<Rightarrow> bool \<Rightarrow> dnssec_limits \<Rightarrow>
   (dnssec_error, denial) result" where
  "verify_nsec3_denial os zone qname qtype records response_is_name_error limits =
     (if length records > sl_max_denial_records limits then Inl DnssecLimit
      else if \<not> is_suffix qname zone then Inl DenialMismatch
      else rbind (nsec3_entries zone limits records) (\<lambda>entries.
      case entries of
        [] \<Rightarrow> Inl DenialMismatch
      | (_, rec1) # _ \<Rightarrow>
          if list_ex (\<lambda>(_, record). n3_hash_algorithm record \<noteq> n3_hash_algorithm rec1 \<or>
               n3_iterations record \<noteq> n3_iterations rec1 \<or> n3_salt record \<noteq> n3_salt rec1) entries
          then Inl DenialMismatch
          else
          rbind (nsec3_hash os qname (n3_salt rec1) (n3_iterations rec1) limits) (\<lambda>query_hash.
          rbind (nsec3_nodata_loop query_hash qtype response_is_name_error entries) (\<lambda>no_data.
          if no_data then Inr NoData
          else if \<not> response_is_name_error then Inl DenialMismatch
          else nsec3_name_error os zone qname entries rec1 limits))))"

end
