(* ===== verification/Dnssec_Denial_Laws.thy ===== *)
theory Dnssec_Denial_Laws
  imports Dnssec_Denial Dnssec_Laws "HOL-Library.Sublist"
begin

unbundle bit_operations_syntax

text \<open>
  What an accepted denial proof says of a zone.  A zone is a set of names that own records together with the
  types they own; NSEC and NSEC3 records are truthful when they name an owner and nothing lies in the
  interval they span.  NSEC3 proofs are sound.  NSEC name errors are sound for the next closer name and for
  the wildcard, and for the queried name unless an empty non-terminal stands between.
\<close>

section \<open>The canonical order\<close>

definition canonical_key :: "dns_name \<Rightarrow> bytes list" where
  "canonical_key n = rev (labels n)"

lemma labels_cmp_less: "labels_cmp a b = OrdLess \<longleftrightarrow> a < b"
  by (induction a b rule: labels_cmp.induct) (auto simp: bytes_cmp_def split: cmp_ordering.split)

lemma canonical_name_cmp_less: "canonical_name_cmp a b = OrdLess \<longleftrightarrow> canonical_key a < canonical_key b"
  by (simp add: canonical_name_cmp_def canonical_key_def labels_cmp_less)

text \<open>An interval of a ring: between owner and next, wrapping around when next is not above owner.\<close>

definition in_ring :: "'a :: linorder \<Rightarrow> 'a \<Rightarrow> 'a \<Rightarrow> bool" where
  "in_ring owner next x \<longleftrightarrow> (if owner < next then owner < x \<and> x < next else owner < x \<or> x < next)"

lemma canonical_interval_ring:
  "canonical_interval_contains owner next x \<longleftrightarrow> in_ring (canonical_key owner) (canonical_key next) (canonical_key x)"
  by (simp add: canonical_interval_contains_def in_ring_def canonical_name_cmp_less Let_def)

lemma hash_interval_ring: "hash_interval_contains owner next x \<longleftrightarrow> in_ring owner next x"
  by (simp add: hash_interval_contains_def in_ring_def)

text \<open>Names at or below a name form the extensions of its key; they stay on its side of every key that is not
  one of them.\<close>

lemma less_append: "(a :: 'a :: linorder list) < p \<Longrightarrow> a < p @ xs"
  by (induction a p rule: list_induct2') auto

lemma append_less: "(p :: 'a :: linorder list) < b \<Longrightarrow> \<not> prefix p b \<Longrightarrow> p @ xs < b"
  by (induction p b rule: list_induct2') auto

lemma in_ring_below:
  fixes owner nxt p :: "'a :: linorder list"
  assumes "in_ring owner nxt p" and "\<not> prefix p nxt"
  shows "in_ring owner nxt (p @ xs)"
  using assms by (auto simp: in_ring_def split: if_splits intro: less_append append_less)

section \<open>Ancestors\<close>

lemma canonical_label_wf: "wf_label l \<Longrightarrow> canonical_label l = l"
  by (simp add: wf_label_def)

lemma from_labels_wf: "wf_name (Name ls) \<Longrightarrow> from_labels ls = Inr (Name ls)"
  by (auto simp: from_labels_Inr wf_name_def list_all_iff canonical_label_wf intro!: map_idI [symmetric])

lemma wf_name_drop: "wf_name n \<Longrightarrow> wf_name (Name (drop s (labels n)))"
proof -
  assume wf: "wf_name n"
  have "labels_len (labels n) = labels_len (take s (labels n)) + labels_len (drop s (labels n))"
    by (metis append_take_drop_id labels_len_def map_append sum_list_append)
  with wf show ?thesis by (auto simp: wf_name_def name_wire_len_eq list_all_iff dest: in_set_dropD)
qed

lemma ancestor_wf:
  "wf_name n \<Longrightarrow> ancestor n s = (if s \<le> length (labels n) then Some (Name (drop s (labels n))) else None)"
  by (simp add: ancestor_def slice_from_def from_labels_wf [OF wf_name_drop])

lemma wildcard_of_Inr:
  "wf_name n \<Longrightarrow> wildcard_of n = Inr w \<Longrightarrow> w = Name ([42] # labels n)"
  by (auto simp: wildcard_of_def map_err_eq_Inr from_labels_Inr wf_name_def list_all_iff canonical_label_wf
      canonical_label_def [of "[42]"] to_ascii_lowercase_def intro: map_idI)

section \<open>Zones\<close>

record zone_view =
  zv_owners :: "dns_name set"
  zv_types :: "dns_name \<Rightarrow> u16 set"

definition truthful_bitmap :: "bytes \<Rightarrow> u16 set \<Rightarrow> bool" where
  "truthful_bitmap bm tys \<longleftrightarrow> (\<forall>ty b. bitmap_contains bm ty = Inr b \<longrightarrow> (b \<longleftrightarrow> ty \<in> tys))"

definition truthful_nsec :: "zone_view \<Rightarrow> resource_record \<Rightarrow> nsec \<Rightarrow> bool" where
  "truthful_nsec z r n \<longleftrightarrow>
     rr_name r \<in> zv_owners z \<and>
     (\<forall>x \<in> zv_owners z. \<not> in_ring (canonical_key (rr_name r)) (canonical_key (ns_next_domain n)) (canonical_key x)) \<and>
     truthful_bitmap (ns_type_bitmaps n) (zv_types z (rr_name r))"

lemma types_denied_True:
  assumes "types_denied bm qtype = Inr True" and "truthful_bitmap bm tys"
  shows "code qtype \<notin> tys \<and> (qtype \<noteq> RtCname \<longrightarrow> code RtCname \<notin> tys)"
  using assms by (auto simp: types_denied_def truthful_bitmap_def result_inv split: if_splits)

lemma nsec_nodata_loop_True:
  "nsec_nodata_loop qname qtype ne nsecs = Inr True \<Longrightarrow>
     \<not> ne \<and> (\<exists>(r, n) \<in> set nsecs. rr_name r = qname \<and> types_denied (ns_type_bitmaps n) qtype = Inr True)"
  by (induction qname qtype ne nsecs rule: nsec_nodata_loop.induct) (auto simp: result_inv split: if_splits)

lemma find_Some_in: "find P xs = Some x \<Longrightarrow> P x \<and> x \<in> set xs"
  by (metis find_Some_iff nth_mem)

lemma set_filter_map: "set (filter_map f xs) = {y. \<exists>x \<in> set xs. f x = Some y}"
  by (induction xs) (auto split: option.splits)

lemma valid_nsec_Some:
  "valid_nsec r = Some (r', n) \<longleftrightarrow> r' = r \<and> rr_class r = CLASS_IN \<and> rr_type r = RtNsec \<and> rr_rdata r = RdNsec n"
  by (cases "rr_rdata r") (auto simp: valid_nsec_def)

text \<open>What an accepted name error has found: the closest encloser that owns an NSEC record, the name below it on
  the way to the queried name and the wildcard, both covered.\<close>

lemma verify_nsec_NameError:
  assumes wf: "wf_name qname" and v: "verify_nsec_denial qname qtype records ne limits = Inr NameError"
  obtains start where "ne" and "1 \<le> start" and "start \<le> length (labels qname)"
    and "\<exists>(r, n) \<in> set (filter_map valid_nsec records). rr_name r = Name (drop start (labels qname))"
    and "\<exists>(r, n) \<in> set (filter_map valid_nsec records).
      canonical_interval_contains (rr_name r) (ns_next_domain n) (Name (drop (start - 1) (labels qname)))"
    and "\<exists>(r, n) \<in> set (filter_map valid_nsec records).
      canonical_interval_contains (rr_name r) (ns_next_domain n) (Name ([42] # drop start (labels qname)))"
proof -
  let ?nsecs = "filter_map valid_nsec records"
  from v obtain start nc cl wc where ne: "ne"
    and find: "find (\<lambda>start. case ancestor qname start of None \<Rightarrow> False
          | Some candidate \<Rightarrow> list_ex (\<lambda>(record, _). rr_name record = candidate) ?nsecs)
          [1..<Suc (length (labels qname))] = Some start"
    and nc: "ancestor qname (start - 1) = Some nc" and cl: "ancestor qname start = Some cl" and wc: "wildcard_of cl = Inr wc"
    and cov: "list_ex (\<lambda>(record, nsec). canonical_interval_contains (rr_name record) (ns_next_domain nsec) nc) ?nsecs"
      "list_ex (\<lambda>(record, nsec). canonical_interval_contains (rr_name record) (ns_next_domain nsec) wc) ?nsecs"
    by (auto simp: verify_nsec_denial_def Let_def result_inv split: if_splits)
  from find_Some_in [OF find] have start: "1 \<le> start" "start \<le> length (labels qname)"
    "list_ex (\<lambda>(record, _). rr_name record = cl) ?nsecs" using cl by auto
  have eqs: "nc = Name (drop (start - 1) (labels qname))" "cl = Name (drop start (labels qname))"
    using nc cl by (auto simp: ancestor_wf [OF wf] split: if_splits)
  moreover have "wc = Name ([42] # labels cl)"
    using wildcard_of_Inr [OF _ wc] wf_name_drop [OF wf] eqs by simp
  ultimately show thesis using ne start cov by (intro that [of start]) (auto simp: list_ex_iff)
qed

text \<open>A truthful record that covers a name covers everything below it that its next owner does not reach.\<close>

lemma truthful_below:
  assumes "truthful_nsec z r n"
    and "in_ring (canonical_key (rr_name r)) (canonical_key (ns_next_domain n)) (rev nc)"
    and "x \<in> zv_owners z" and "\<not> suffix nc (labels (ns_next_domain n))"
  shows "\<not> suffix nc (labels x)"
proof
  assume "suffix nc (labels x)"
  then obtain pre where "canonical_key x = rev nc @ rev pre" by (auto simp: suffix_def canonical_key_def)
  with in_ring_below [OF assms(2)] assms(4)
  have "in_ring (canonical_key (rr_name r)) (canonical_key (ns_next_domain n)) (canonical_key x)"
    by (simp add: suffix_to_prefix canonical_key_def)
  with assms(1,3) show False by (simp add: truthful_nsec_def)
qed

lemma verify_nsec_NoData:
  assumes "verify_nsec_denial qname qtype records ne limits = Inr NoData"
  shows "\<not> ne \<and> (\<exists>(r, n) \<in> set (filter_map valid_nsec records). rr_name r = qname \<and> types_denied (ns_type_bitmaps n) qtype = Inr True)"
  using assms
  by (intro nsec_nodata_loop_True) (auto simp: verify_nsec_denial_def Let_def result_inv split: if_splits)

text \<open>C34: An accepted NSEC proof says the truth about the zone.  No data: the name owns records, none of the
  queried type and no alias.  Name error: the closest encloser owns records, and neither the next closer
  name nor the wildcard of the closest encloser does; the queried name and everything else at or below the
  next closer name is absent too, unless the next owner of a record of the proof lies there, that is, unless
  the next closer name is an empty non-terminal.\<close>

theorem nsec_denial_sound:
  assumes wf: "wf_name qname"
    and truthful: "\<And>r n. valid_nsec r = Some (r, n) \<Longrightarrow> r \<in> set records \<Longrightarrow> truthful_nsec z r n"
    and v: "verify_nsec_denial qname qtype records ne limits = Inr d"
  shows "case d of
      NoData \<Rightarrow> \<not> ne \<and> qname \<in> zv_owners z \<and> code qtype \<notin> zv_types z qname \<and>
        (qtype = RtCname \<or> code RtCname \<notin> zv_types z qname)
    | NameError \<Rightarrow> ne \<and> (\<exists>start. 1 \<le> start \<and> start \<le> length (labels qname) \<and>
        Name (drop start (labels qname)) \<in> zv_owners z \<and> Name (drop (start - 1) (labels qname)) \<notin> zv_owners z \<and>
        Name ([42] # drop start (labels qname)) \<notin> zv_owners z \<and>
        ((\<forall>r \<in> set records. \<forall>n. valid_nsec r = Some (r, n) \<longrightarrow>
            \<not> suffix (drop (start - 1) (labels qname)) (labels (ns_next_domain n))) \<longrightarrow>
         (\<forall>x \<in> zv_owners z. \<not> suffix (drop (start - 1) (labels qname)) (labels x))))"
proof -
  have nsecs: "r \<in> set records \<and> valid_nsec r = Some (r, n)" if "(r, n) \<in> set (filter_map valid_nsec records)" for r n
    using that by (auto simp: set_filter_map valid_nsec_Some)
  have owner: "rr_name r \<in> zv_owners z"
    and free: "x \<in> zv_owners z \<Longrightarrow> \<not> in_ring (canonical_key (rr_name r)) (canonical_key (ns_next_domain n)) (canonical_key x)"
    and bm: "truthful_bitmap (ns_type_bitmaps n) (zv_types z (rr_name r))"
    if "(r, n) \<in> set (filter_map valid_nsec records)" for r n x
    using nsecs [OF that] truthful by (auto simp: truthful_nsec_def)
  show ?thesis
  proof (cases d)
    case NoData
    with v have "verify_nsec_denial qname qtype records ne limits = Inr NoData" by simp
    from verify_nsec_NoData [OF this] obtain r n where r: "(r, n) \<in> set (filter_map valid_nsec records)"
      "rr_name r = qname" "types_denied (ns_type_bitmaps n) qtype = Inr True" "\<not> ne" by blast
    with types_denied_True [OF r(3) bm [OF r(1)]] owner [OF r(1)] NoData show ?thesis by auto
  next
    case NameError
    with v have "verify_nsec_denial qname qtype records ne limits = Inr NameError" by simp
    from wf this obtain start where s: "ne" "1 \<le> start" "start \<le> length (labels qname)"
      "\<exists>(r, n) \<in> set (filter_map valid_nsec records). rr_name r = Name (drop start (labels qname))"
      and nc: "\<exists>(r, n) \<in> set (filter_map valid_nsec records).
        canonical_interval_contains (rr_name r) (ns_next_domain n) (Name (drop (start - 1) (labels qname)))"
      and wc: "\<exists>(r, n) \<in> set (filter_map valid_nsec records).
        canonical_interval_contains (rr_name r) (ns_next_domain n) (Name ([42] # drop start (labels qname)))"
      by (rule verify_nsec_NameError)
    let ?nc = "drop (start - 1) (labels qname)"
    from nc obtain r n where rn: "(r, n) \<in> set (filter_map valid_nsec records)"
      "in_ring (canonical_key (rr_name r)) (canonical_key (ns_next_domain n)) (rev ?nc)"
      by (auto simp: canonical_interval_ring canonical_key_def)
    have below: "\<not> suffix ?nc (labels x)" if "x \<in> zv_owners z" "\<not> suffix ?nc (labels (ns_next_domain n))" for x
      using truthful_below [OF _ rn(2) that] nsecs [OF rn(1)] truthful by blast
    have "Name ?nc \<notin> zv_owners z" using free [OF rn(1), of "Name ?nc"] rn(2) by (auto simp: canonical_key_def)
    moreover have "Name ([42] # drop start (labels qname)) \<notin> zv_owners z"
      using wc free by (auto simp: canonical_interval_ring)
    moreover have "Name (drop start (labels qname)) \<in> zv_owners z" using s(4) owner by fastforce
    ultimately show ?thesis
      using NameError s(1-3) below nsecs [OF rn(1)] by (auto intro!: exI [of _ start])
  qed
qed

text \<open>A zone with a host \<open>w\<close> and its service name \<open>_443._tcp.w\<close>; \<open>_tcp.w\<close> is an empty non-terminal.\<close>

definition host_w :: dns_name where
  "host_w = Name [[119]]"

definition service_w :: dns_name where
  "service_w = Name [[95, 52, 52, 51], [95, 116, 99, 112], [119]]"

definition nsec_w :: resource_record where
  "nsec_w = \<lparr>rr_name = host_w, rr_type = RtNsec, rr_class = CLASS_IN, rr_ttl = 60,
     rr_rdata = RdNsec \<lparr>ns_next_domain = service_w, ns_type_bitmaps = [0, 6, 0x40, 0, 0, 0, 0, 3]\<rparr>\<rparr>"

definition zone_w :: zone_view where
  "zone_w = \<lparr>zv_owners = {host_w, service_w},
     zv_types = (\<lambda>_. {ty. bitmap_contains [0, 6, 0x40, 0, 0, 0, 0, 3] ty = Inr True})\<rparr>"

lemma nsec_w_truthful: "valid_nsec r = Some (r, n) \<Longrightarrow> r \<in> set [nsec_w] \<Longrightarrow> truthful_nsec zone_w r n"
  by (auto simp: valid_nsec_Some nsec_w_def truthful_nsec_def zone_w_def truthful_bitmap_def in_ring_def)

lemma wf_service_w: "wf_name service_w" "wf_name host_w"
  by (simp_all add: wf_name_def service_w_def host_w_def name_wire_len_def MAX_WIRE_NAME_LEN_def wf_label_def
      canonical_label_def to_ascii_lowercase_def MAX_LABEL_LEN_def)

lemma bitmap_w: "bitmap_contains [0, 6, 0x40, 0, 0, 0, 0, 3] 52 = Inr False" "bitmap_contains [0, 6, 0x40, 0, 0, 0, 0, 3] 5 = Inr False"
  by (simp_all add: bitmap_contains_def usize_saturating_add_def usize_max_def slice_get_def slice_range_def Let_def)

lemma nodata_w: "verify_nsec_denial host_w RtTlsa [nsec_w] False default_dnssec_limits = Inr NoData"
  by (simp add: verify_nsec_denial_def default_dnssec_limits_def valid_nsec_def nsec_w_def types_denied_def bitmap_w Let_def)

text \<open>An empty non-terminal defeats the name error check: the record of \<open>w\<close>, which truthfully points to
  \<open>_443._tcp.w\<close>, is accepted as a proof that \<open>_443._tcp.w\<close> does not exist.\<close>

lemma nsec_name_error_unsound:
  "wf_name service_w \<and> service_w \<in> zv_owners zone_w \<and>
   (\<forall>r n. valid_nsec r = Some (r, n) \<longrightarrow> r \<in> set [nsec_w] \<longrightarrow> truthful_nsec zone_w r n) \<and>
   verify_nsec_denial service_w RtTlsa [nsec_w] True default_dnssec_limits = Inr NameError"
proof -
  let ?cov = "canonical_interval_contains host_w service_w"
  have anc: "ancestor service_w (Suc 0) = Some (Name [[95, 116, 99, 112], [119]])" "ancestor service_w 2 = Some host_w"
    using ancestor_wf [OF wf_service_w(1)] by (simp_all add: service_w_def host_w_def)
  have wc: "wildcard_of host_w = Inr (Name [[42], [119]])"
    by (simp add: wildcard_of_def from_labels_def host_w_def MAX_LABEL_LEN_def MAX_WIRE_NAME_LEN_def usize_max_def
        canonical_label_def to_ascii_lowercase_def)
  have cov: "?cov (Name [[95, 116, 99, 112], [119]])" "?cov (Name [[42], [119]])"
    by (simp_all add: canonical_interval_ring in_ring_def canonical_key_def host_w_def service_w_def)
  have nsecs: "filter_map valid_nsec [nsec_w] = [(nsec_w, \<lparr>ns_next_domain = service_w, ns_type_bitmaps = [0, 6, 0x40, 0, 0, 0, 0, 3]\<rparr>)]"
    by (simp add: valid_nsec_def nsec_w_def)
  have name: "rr_name nsec_w = host_w" by (simp add: nsec_w_def)
  have range: "[1..<Suc (length (labels service_w))] = [1, 2, 3]" by (simp add: service_w_def upt_rec)
  have "host_w \<noteq> Name [[95, 116, 99, 112], [119]]" by (simp add: host_w_def)
  then have "verify_nsec_denial service_w RtTlsa [nsec_w] True default_dnssec_limits = Inr NameError"
    unfolding verify_nsec_denial_def nsecs range
    by (simp add: default_dnssec_limits_def Let_def name anc wc cov)
  then show ?thesis using wf_service_w nsec_w_truthful by (simp add: zone_w_def)
qed

theorem nsec_denial_sound_witness:
  "host_w \<in> zv_owners zone_w \<and> 52 \<notin> zv_types zone_w host_w"
  using nsec_denial_sound [OF wf_service_w(2) nsec_w_truthful nodata_w] by simp

section \<open>NSEC3\<close>

definition truthful_nsec3 :: "'key openssl \<Rightarrow> dnssec_limits \<Rightarrow> zone_view \<Rightarrow> bytes \<Rightarrow> nsec3 \<Rightarrow> bool" where
  "truthful_nsec3 os limits z h n \<longleftrightarrow>
     (\<exists>x \<in> zv_owners z. nsec3_hash os x (n3_salt n) (n3_iterations n) limits = Inr h \<and>
        truthful_bitmap (n3_type_bitmaps n) (zv_types z x)) \<and>
     (n3_flags n = 0 \<longrightarrow> (\<forall>y \<in> zv_owners z. \<forall>hy. nsec3_hash os y (n3_salt n) (n3_iterations n) limits = Inr hy \<longrightarrow>
        \<not> in_ring h (n3_next_hashed_owner n) hy))"

text \<open>An NSEC3 chain has a record for every name of the zone, empty non-terminals included.\<close>

definition ancestors_closed :: "dns_name \<Rightarrow> zone_view \<Rightarrow> bool" where
  "ancestors_closed zone z \<longleftrightarrow>
     (\<forall>x \<in> zv_owners z. \<forall>k. k \<le> length (labels x) - length (labels zone) \<longrightarrow> Name (drop k (labels x)) \<in> zv_owners z)"

text \<open>With this salt and this number of iterations, no name of the zone has the hash of another name that is the
  queried name or an ancestor of it.\<close>

definition collision_free :: "'key openssl \<Rightarrow> dnssec_limits \<Rightarrow> zone_view \<Rightarrow> dns_name \<Rightarrow> bytes \<Rightarrow> u16 \<Rightarrow> bool" where
  "collision_free os limits z qname salt iterations \<longleftrightarrow>
     (\<forall>x \<in> zv_owners z. \<forall>k \<le> length (labels qname). \<forall>h.
        nsec3_hash os x salt iterations limits = Inr h \<longrightarrow>
        nsec3_hash os (Name (drop k (labels qname))) salt iterations limits = Inr h \<longrightarrow> x = Name (drop k (labels qname)))"

lemma nsec3_entries_Inr:
  "nsec3_entries zone limits records = Inr entries \<Longrightarrow> (h, n) \<in> set entries \<Longrightarrow>
     \<exists>r \<in> set records. valid_nsec3_record r = Some n \<and> nsec3_owner_hash (rr_name r) zone = Some h"
  by (induction records arbitrary: entries) (fastforce simp: result_inv split: option.splits)+

text \<open>A hash that an entry has is the hash of a name of the zone, and a covered hash is not.\<close>

definition truthful_entries ::
  "'key openssl \<Rightarrow> dnssec_limits \<Rightarrow> zone_view \<Rightarrow> bytes \<Rightarrow> u16 \<Rightarrow> (bytes \<times> nsec3) list \<Rightarrow> bool" where
  "truthful_entries os limits z salt iterations entries \<longleftrightarrow>
     (\<forall>(h, n) \<in> set entries. truthful_nsec3 os limits z h n \<and> n3_iterations n = iterations \<and> n3_salt n = salt)"

lemma nsec3_known:
  assumes "truthful_entries os limits z salt iterations entries"
    and free: "\<forall>(h, n) \<in> set entries. collision_free os limits z qname (n3_salt n) (n3_iterations n)"
    and "\<exists>n. (h, n) \<in> set entries" and "k \<le> length (labels qname)"
    and "nsec3_hash os (Name (drop k (labels qname))) salt iterations limits = Inr h"
  shows "Name (drop k (labels qname)) \<in> zv_owners z"
proof -
  from assms(1,3) obtain x n where "x \<in> zv_owners z" "nsec3_hash os x salt iterations limits = Inr h"
    "(h, n) \<in> set entries" "n3_salt n = salt" "n3_iterations n = iterations"
    by (auto simp: truthful_entries_def truthful_nsec3_def)
  with free assms(4,5) show ?thesis unfolding collision_free_def by fast
qed

lemma nsec3_uncovered:
  assumes "truthful_entries os limits z salt iterations entries"
    and "nsec3_hash os y salt iterations limits = Inr hy" and "nsec3_covers entries hy"
  shows "y \<notin> zv_owners z"
  using assms by (fastforce simp: nsec3_covers_def list_ex_iff hash_interval_ring truthful_entries_def truthful_nsec3_def)

lemma nsec3_nodata_loop_True:
  "nsec3_nodata_loop h qtype ne entries = Inr True \<Longrightarrow>
     \<not> ne \<and> (\<exists>(o', n) \<in> set entries. o' = h \<and> types_denied (n3_type_bitmaps n) qtype = Inr True)"
  by (induction h qtype ne entries rule: nsec3_nodata_loop.induct) (auto simp: result_inv split: if_splits)

lemma verify_nsec3_Inr:
  assumes "verify_nsec3_denial os zone qname qtype records ne limits = Inr d"
  obtains entries n1 hq no_data where "nsec3_entries zone limits records = Inr entries" and "is_suffix qname zone"
    and "\<forall>e \<in> set entries. n3_iterations (snd e) = n3_iterations n1 \<and> n3_salt (snd e) = n3_salt n1"
    and "nsec3_hash os qname (n3_salt n1) (n3_iterations n1) limits = Inr hq"
    and "nsec3_nodata_loop hq qtype ne entries = Inr no_data"
    and "if no_data then d = NoData else ne \<and> nsec3_name_error os zone qname entries n1 limits = Inr d"
proof -
  from assms obtain entries where e: "nsec3_entries zone limits records = Inr entries"
    by (auto simp: verify_nsec3_denial_def result_inv split: if_splits)
  with assms obtain h1 n1 rest where entries: "entries = (h1, n1) # rest"
    by (cases entries) (auto simp: verify_nsec3_denial_def result_inv split: if_splits)
  from assms obtain hq no_data where "nsec3_hash os qname (n3_salt n1) (n3_iterations n1) limits = Inr hq"
    "nsec3_nodata_loop hq qtype ne entries = Inr no_data" "is_suffix qname zone"
    "if no_data then d = NoData else ne \<and> nsec3_name_error os zone qname entries n1 limits = Inr d"
    "\<not> list_ex (\<lambda>(_, record). n3_hash_algorithm record \<noteq> n3_hash_algorithm n1 \<or>
       n3_iterations record \<noteq> n3_iterations n1 \<or> n3_salt record \<noteq> n3_salt n1) entries"
    by (auto simp: verify_nsec3_denial_def e entries result_inv split: if_splits)
  then show thesis using e by (intro that [of entries n1 hq no_data]) (auto simp: list_ex_iff)
qed

lemma nsec3_name_error_Inr:
  assumes wf: "wf_name qname" and v: "nsec3_name_error os zone qname entries n1 limits = Inr d"
  obtains start hc hn hw where "d = NameError" and "1 \<le> start"
    and "start \<le> length (labels qname) - length (labels zone)"
    and "nsec3_hash os (Name (drop start (labels qname))) (n3_salt n1) (n3_iterations n1) limits = Inr hc"
    and "\<exists>n. (hc, n) \<in> set entries"
    and "nsec3_hash os (Name (drop (start - 1) (labels qname))) (n3_salt n1) (n3_iterations n1) limits = Inr hn"
    and "nsec3_covers entries hn"
    and "nsec3_hash os (Name ([42] # drop start (labels qname))) (n3_salt n1) (n3_iterations n1) limits = Inr hw"
    and "nsec3_covers entries hw"
proof -
  from v obtain start nc cl wc hn hw where d: "d = NameError"
    and find: "find (\<lambda>start. case ancestor qname start of None \<Rightarrow> False
          | Some candidate \<Rightarrow>
              (case nsec3_hash os candidate (n3_salt n1) (n3_iterations n1) limits of Inl _ \<Rightarrow> False
               | Inr h \<Rightarrow> list_ex (\<lambda>(owner_hash, _). owner_hash = h) entries))
          [1..<Suc (length (labels qname) - length (labels zone))] = Some start"
    and nc: "ancestor qname (start - 1) = Some nc" and cl: "ancestor qname start = Some cl" and wc: "wildcard_of cl = Inr wc"
    and h: "nsec3_hash os nc (n3_salt n1) (n3_iterations n1) limits = Inr hn" "nsec3_covers entries hn"
      "nsec3_hash os wc (n3_salt n1) (n3_iterations n1) limits = Inr hw" "nsec3_covers entries hw"
    by (auto simp: nsec3_name_error_def Let_def result_inv split: if_splits)
  from find_Some_in [OF find] have start: "1 \<le> start" "start \<le> length (labels qname) - length (labels zone)" by auto
  from find_Some_in [OF find] cl obtain hc where
    hc: "nsec3_hash os cl (n3_salt n1) (n3_iterations n1) limits = Inr hc" "list_ex (\<lambda>(owner_hash, _). owner_hash = hc) entries"
    by (cases "nsec3_hash os cl (n3_salt n1) (n3_iterations n1) limits") auto
  then have "\<exists>n. (hc, n) \<in> set entries" by (auto simp: list_ex_iff)
  note start = start hc(1) this
  have eqs: "nc = Name (drop (start - 1) (labels qname))" "cl = Name (drop start (labels qname))"
    using nc cl by (auto simp: ancestor_wf [OF wf] split: if_splits)
  moreover have "wc = Name ([42] # labels cl)"
    using wildcard_of_Inr [OF _ wc] wf_name_drop [OF wf] eqs by simp
  ultimately show thesis using d start h by (intro that [of start hc hn hw]) simp_all
qed

text \<open>C33: An accepted NSEC3 proof says the truth about the zone, given that its records do and that, with
  the salt and the iterations of each of its records, the hash does not map a name of the zone and another name
  that is the queried name or an ancestor of it to the same value.  No data: the name
  exists and owns neither the queried type nor an alias.  Name error: the queried name does not exist, nor
  does the next closer name or the wildcard of the closest encloser, which exists; only records without
  opt-out count.\<close>

theorem nsec3_denial_sound:
  assumes wf: "wf_name qname" and closed: "ancestors_closed zone z"
    and free: "\<And>r n. r \<in> set records \<Longrightarrow> valid_nsec3_record r = Some n \<Longrightarrow>
      collision_free os limits z qname (n3_salt n) (n3_iterations n)"
    and truthful: "\<And>r n h. r \<in> set records \<Longrightarrow> valid_nsec3_record r = Some n \<Longrightarrow>
      nsec3_owner_hash (rr_name r) zone = Some h \<Longrightarrow> truthful_nsec3 os limits z h n"
    and v: "verify_nsec3_denial os zone qname qtype records ne limits = Inr d"
  shows "case d of
      NoData \<Rightarrow> \<not> ne \<and> qname \<in> zv_owners z \<and> code qtype \<notin> zv_types z qname \<and>
        (qtype = RtCname \<or> code RtCname \<notin> zv_types z qname)
    | NameError \<Rightarrow> ne \<and> qname \<notin> zv_owners z \<and>
        (\<exists>start. 1 \<le> start \<and> start \<le> length (labels qname) - length (labels zone) \<and>
           Name (drop start (labels qname)) \<in> zv_owners z \<and> Name (drop (start - 1) (labels qname)) \<notin> zv_owners z \<and>
           Name ([42] # drop start (labels qname)) \<notin> zv_owners z)"
proof -
  from v obtain entries n1 hq no_data where e: "nsec3_entries zone limits records = Inr entries" and "is_suffix qname zone"
    and same: "\<forall>e \<in> set entries. n3_iterations (snd e) = n3_iterations n1 \<and> n3_salt (snd e) = n3_salt n1"
    and hq: "nsec3_hash os qname (n3_salt n1) (n3_iterations n1) limits = Inr hq"
    and nd: "nsec3_nodata_loop hq qtype ne entries = Inr no_data"
    and d: "if no_data then d = NoData else ne \<and> nsec3_name_error os zone qname entries n1 limits = Inr d"
    by (rule verify_nsec3_Inr)
  let ?hash = "\<lambda>x. nsec3_hash os x (n3_salt n1) (n3_iterations n1) limits"
  have t: "truthful_entries os limits z (n3_salt n1) (n3_iterations n1) entries"
    using nsec3_entries_Inr [OF e] truthful same by (fastforce simp: truthful_entries_def)
  have free': "\<forall>(h, n) \<in> set entries. collision_free os limits z qname (n3_salt n) (n3_iterations n)"
    using nsec3_entries_Inr [OF e] free by blast
  note known = nsec3_known [OF t free'] and uncovered = nsec3_uncovered [OF t]
  show ?thesis
  proof (cases no_data)
    case True
    with nd nsec3_nodata_loop_True obtain n where n: "(hq, n) \<in> set entries"
      "types_denied (n3_type_bitmaps n) qtype = Inr True" "\<not> ne" by fastforce
    from t n(1) obtain x where x: "x \<in> zv_owners z" "?hash x = Inr hq"
      "truthful_bitmap (n3_type_bitmaps n) (zv_types z x)" by (auto simp: truthful_entries_def truthful_nsec3_def)
    have par: "n3_salt n = n3_salt n1" "n3_iterations n = n3_iterations n1" using same n(1) by auto
    have "x = Name (drop 0 (labels qname))"
      using bspec [OF free' n(1), simplified, unfolded par] x(1,2) hq unfolding collision_free_def by (metis dns_name.collapse drop0 le0)
    with x types_denied_True [OF n(2) x(3)] n(3) d True show ?thesis by auto
  next
    case False
    with d have ne: "ne" and err: "nsec3_name_error os zone qname entries n1 limits = Inr d" by auto
    from nsec3_name_error_Inr [OF wf err] obtain start hc hn hw where s: "d = NameError" "1 \<le> start"
      "start \<le> length (labels qname) - length (labels zone)"
      and cl: "?hash (Name (drop start (labels qname))) = Inr hc" "\<exists>n. (hc, n) \<in> set entries"
      and nc: "?hash (Name (drop (start - 1) (labels qname))) = Inr hn" "nsec3_covers entries hn"
      and wc: "?hash (Name ([42] # drop start (labels qname))) = Inr hw" "nsec3_covers entries hw" by metis
    have "Name (drop (start - 1) (labels qname)) \<notin> zv_owners z" by (rule uncovered [OF nc])
    moreover from this have "qname \<notin> zv_owners z"
      using closed s(2,3) unfolding ancestors_closed_def by (metis diff_le_self order_trans)
    moreover have "Name (drop start (labels qname)) \<in> zv_owners z"
      using known [OF cl(2) _ cl(1)] s(3) by linarith
    ultimately show ?thesis using uncovered [OF wc] ne s by auto
  qed
qed

text \<open>A zone with the single name \<open>w\<close> under a digest that pads its input.\<close>

definition padded_os :: "bytes openssl" where
  "padded_os = sample_os\<lparr>os_hash := (\<lambda>_ data. Some (take 20 (data @ replicate 20 0)))\<rparr>"

definition nsec3_w :: resource_record where
  "nsec3_w = \<lparr>rr_name = Name [[48, 53, 114, 103] @ replicate 28 48], rr_type = RtNsec3, rr_class = CLASS_IN, rr_ttl = 60,
     rr_rdata = RdNsec3 \<lparr>n3_hash_algorithm = 1, n3_flags = 0, n3_iterations = 0, n3_salt = [],
       n3_next_hashed_owner = replicate 20 0, n3_type_bitmaps = [0, 6, 0x40, 0, 0, 0, 0, 3]\<rparr>\<rparr>"

definition zone3_w :: zone_view where
  "zone3_w = \<lparr>zv_owners = {host_w, Name []},
     zv_types = (\<lambda>_. {ty. bitmap_contains [0, 6, 0x40, 0, 0, 0, 0, 3] ty = Inr True})\<rparr>"

lemma decode_w: "decode_base32hex ([48, 53, 114, 103] @ replicate 28 48) = Some (1 # 119 # replicate 18 0)"
  by code_simp

lemma nsec3_w_owner: "nsec3_owner_hash (rr_name nsec3_w) (Name []) = Some (1 # 119 # replicate 18 0)"
  using decode_w by (simp add: nsec3_owner_hash_def nsec3_w_def usize_max_def)

lemma padded_rounds: "length val = 20 \<Longrightarrow> nsec3_rounds padded_os salt n val = Inr val"
  by (induction n) (simp_all add: digest_sha1_many_def padded_os_def)

lemma padded_hash:
  assumes "wf_name x" and "nsec3_hash padded_os x salt iterations limits = Inr h"
  shows "h = take 20 (name_wire x @ salt @ replicate 20 0)"
proof -
  let ?h = "take 20 (name_wire x @ salt @ replicate 20 0)"
  have "digest_sha1_many padded_os [name_wire x, salt] = Inr ?h" by (simp add: digest_sha1_many_def padded_os_def)
  moreover have "length ?h = 20" by simp
  ultimately show ?thesis
    using assms by (auto simp: nsec3_hash_def name_encode_wf padded_rounds split: if_splits)
qed

lemma padded_hash_w:
  "nsec3_hash padded_os host_w [] 0 default_dnssec_limits = Inr (1 # 119 # replicate 18 0)"
  "nsec3_hash padded_os (Name []) [] 0 default_dnssec_limits = Inr (replicate 20 0)"
proof -
  have pads: "take 20 ([1, 119, 0] @ replicate 20 0) = 1 # 119 # replicate 18 (0 :: u8)"
    "take 20 ([0] @ replicate 20 0) = replicate 20 (0 :: u8)" by code_simp+
  have names: "name_encode host_w [] = Inr [1, 119, 0]" "name_encode (Name []) [] = Inr [0]"
    by (simp_all add: host_w_def name_encode_def name_wire_len_def MAX_WIRE_NAME_LEN_def MAX_LABEL_LEN_def)
  have digests: "digest_sha1_many padded_os [[1, 119, 0], []] = Inr (1 # 119 # replicate 18 0)"
    "digest_sha1_many padded_os [[0], []] = Inr (replicate 20 0)"
    unfolding digest_sha1_many_def padded_os_def using pads by simp_all
  show "nsec3_hash padded_os host_w [] 0 default_dnssec_limits = Inr (1 # 119 # replicate 18 0)"
    "nsec3_hash padded_os (Name []) [] 0 default_dnssec_limits = Inr (replicate 20 0)"
    by (simp_all add: nsec3_hash_def names digests default_dnssec_limits_def)
qed

lemma zone3_w_laws:
  "ancestors_closed (Name []) zone3_w" "collision_free padded_os default_dnssec_limits zone3_w host_w salt iterations"
proof -
  show "ancestors_closed (Name []) zone3_w"
    by (auto simp: ancestors_closed_def zone3_w_def host_w_def le_Suc_eq)
  have root: "wf_name (Name [])" by (simp add: wf_name_def name_wire_len_def MAX_WIRE_NAME_LEN_def)
  have "hd h = 1" if "nsec3_hash padded_os host_w salt it lim = Inr h" for salt it lim h
    using padded_hash [OF wf_service_w(2) that] by (simp add: host_w_def name_wire_def)
  moreover have "hd h = 0" if "nsec3_hash padded_os (Name []) salt it lim = Inr h" for salt it lim h
    using padded_hash [OF root that] by (simp add: name_wire_def)
  ultimately show "collision_free padded_os default_dnssec_limits zone3_w host_w salt iterations"
    unfolding collision_free_def zone3_w_def
    by (auto simp: le_Suc_eq host_w_def) (metis zero_neq_one)+
qed

lemma nsec3_w_truthful:
  assumes "r \<in> set [nsec3_w]" and "valid_nsec3_record r = Some n" and "nsec3_owner_hash (rr_name r) (Name []) = Some h"
  shows "truthful_nsec3 padded_os default_dnssec_limits zone3_w h n"
proof -
  have n: "n3_salt n = []" "n3_iterations n = 0" "n3_type_bitmaps n = [0, 6, 0x40, 0, 0, 0, 0, 3]"
      "n3_next_hashed_owner n = replicate 20 0" and h: "h = 1 # 119 # replicate 18 0"
    using assms nsec3_w_owner by (auto simp: valid_nsec3_record_def nsec3_w_def)
  have "\<not> in_ring h (replicate 20 0) h" "\<not> in_ring h (replicate 20 0) (replicate 20 (0 :: u8))"
    by (simp_all add: in_ring_def h eval_nat_numeral)
  then show ?thesis
    unfolding truthful_nsec3_def n using h padded_hash_w by (auto simp: zone3_w_def truthful_bitmap_def)
qed

lemma nodata3_w:
  "verify_nsec3_denial padded_os (Name []) host_w RtTlsa [nsec3_w] False default_dnssec_limits = Inr NoData"
proof -
  have e: "nsec3_entries (Name []) default_dnssec_limits [nsec3_w] =
      Inr [(1 # 119 # replicate 18 0, \<lparr>n3_hash_algorithm = 1, n3_flags = 0, n3_iterations = 0, n3_salt = [],
       n3_next_hashed_owner = replicate 20 0, n3_type_bitmaps = [0, 6, 0x40, 0, 0, 0, 0, 3]\<rparr>)]"
    using nsec3_w_owner
    by (simp add: valid_nsec3_record_def nsec3_w_def validate_nsec3_def default_dnssec_limits_def)
  show ?thesis
    unfolding verify_nsec3_denial_def e
    using padded_hash_w(1) by (simp add: is_suffix_def default_dnssec_limits_def types_denied_def bitmap_w slice_from_def host_w_def)
qed

theorem nsec3_denial_sound_witness:
  "host_w \<in> zv_owners zone3_w \<and> 52 \<notin> zv_types zone3_w host_w"
  using nsec3_denial_sound [OF wf_service_w(2) zone3_w_laws nsec3_w_truthful nodata3_w] by simp

end
