(* ===== verification/Hns_Encoding.thy ===== *)
theory Hns_Encoding
  imports Prelude
begin

text \<open>
  The interface of the crate hns-encoding, which is not part of the repository: the cursor decoder and the
  growing encoder the light client uses.  Their operations are the fields of \<open>decoder_lib\<close> and
  \<open>encoder_lib\<close>, arguments of the definitions that call them; \<open>decoder_laws\<close> and \<open>encoder_laws\<close> state
  what is relied on.
\<close>

record ('d, 'x) decoder_lib =
  de_new :: "bytes \<Rightarrow> 'd"
  de_read_u8 :: "'d \<Rightarrow> ('x, u8 \<times> 'd) result"
  de_read_slice :: "'d \<Rightarrow> usize \<Rightarrow> ('x, bytes \<times> 'd) result"
  de_read_array :: "usize \<Rightarrow> 'd \<Rightarrow> ('x, bytes \<times> 'd) result"
  de_read_u16_le :: "'d \<Rightarrow> ('x, u16 \<times> 'd) result"
  de_read_u32_le :: "'d \<Rightarrow> ('x, u32 \<times> 'd) result"
  de_read_u64_le :: "'d \<Rightarrow> ('x, u64 \<times> 'd) result"
  de_read_compact_size :: "'d \<Rightarrow> ('x, u64 \<times> 'd) result"
  de_read_compact_usize :: "'d \<Rightarrow> usize \<Rightarrow> string \<Rightarrow> ('x, usize \<times> 'd) result"
  de_read_varbytes :: "'d \<Rightarrow> usize \<Rightarrow> string \<Rightarrow> ('x, bytes \<times> 'd) result"
  de_finish :: "'d \<Rightarrow> ('x, unit) result"

record 'e encoder_lib =
  en_with_capacity :: "usize \<Rightarrow> 'e"
  en_put_u8 :: "'e \<Rightarrow> u8 \<Rightarrow> 'e"
  en_put_u16_le :: "'e \<Rightarrow> u16 \<Rightarrow> 'e"
  en_put_u32_le :: "'e \<Rightarrow> u32 \<Rightarrow> 'e"
  en_put_u64_le :: "'e \<Rightarrow> u64 \<Rightarrow> 'e"
  en_put_bytes :: "'e \<Rightarrow> bytes \<Rightarrow> 'e"
  en_put_varbytes :: "'e \<Rightarrow> bytes \<Rightarrow> 'e"
  en_into_bytes :: "'e \<Rightarrow> bytes"

section \<open>What is relied on\<close>

text \<open>
  \<open>view\<close> is the input a decoder has not read.  A read takes exactly the encoding of its result off the
  front, and succeeds when the encoding of an admissible value is there; \<open>finish\<close> accepts exactly an
  exhausted input.  Every \<open>put\<close> appends the encoding of its argument.
\<close>

definition takes :: "('d \<Rightarrow> bytes) \<Rightarrow> ('d \<Rightarrow> ('x, 'a \<times> 'd) result) \<Rightarrow> ('a \<Rightarrow> bytes) \<Rightarrow> ('a \<Rightarrow> bool) \<Rightarrow> bool" where
  "takes view f put ok \<longleftrightarrow>
     (\<forall>d x d'. f d = Inr (x, d') \<longrightarrow> ok x \<and> view d = put x @ view d') \<and>
     (\<forall>d x rest. ok x \<longrightarrow> view d = put x @ rest \<longrightarrow> (\<exists>d'. f d = Inr (x, d') \<and> view d' = rest))"

definition decoder_laws :: "('d, 'x) decoder_lib \<Rightarrow> ('d \<Rightarrow> bytes) \<Rightarrow> bool" where
  "decoder_laws D view \<longleftrightarrow>
     (\<forall>bs. view (de_new D bs) = bs) \<and> takes view (de_read_u8 D) (\<lambda>b. [b]) (\<lambda>_. True) \<and>
     (\<forall>n. takes view (\<lambda>d. de_read_slice D d n) (\<lambda>x. x) (\<lambda>x. length x = n)) \<and>
     (\<forall>n. takes view (de_read_array D n) (\<lambda>x. x) (\<lambda>x. length x = n)) \<and>
     takes view (de_read_u16_le D) (le_bytes 2) (\<lambda>_. True) \<and> takes view (de_read_u32_le D) (le_bytes 4) (\<lambda>_. True) \<and>
     takes view (de_read_u64_le D) (le_bytes 8) (\<lambda>_. True) \<and>
     (\<forall>d. de_finish D d = Inr () \<longleftrightarrow> view d = [])"

definition encoder_laws :: "'e encoder_lib \<Rightarrow> bool" where
  "encoder_laws E \<longleftrightarrow> (\<forall>n. en_into_bytes E (en_with_capacity E n) = []) \<and>
     (\<forall>e v. en_into_bytes E (en_put_u8 E e v) = en_into_bytes E e @ [v]) \<and>
     (\<forall>e v. en_into_bytes E (en_put_u16_le E e v) = en_into_bytes E e @ le_bytes 2 v) \<and>
     (\<forall>e v. en_into_bytes E (en_put_u32_le E e v) = en_into_bytes E e @ le_bytes 4 v) \<and>
     (\<forall>e v. en_into_bytes E (en_put_u64_le E e v) = en_into_bytes E e @ le_bytes 8 v) \<and>
     (\<forall>e v. en_into_bytes E (en_put_bytes E e v) = en_into_bytes E e @ v)"

lemma takesD: "takes view f put ok \<Longrightarrow> f d = Inr (x, d') \<Longrightarrow> ok x \<and> view d = put x @ view d'"
  unfolding takes_def by blast

lemma takesI: "takes view f put ok \<Longrightarrow> view d = put x @ rest \<Longrightarrow> ok x \<Longrightarrow> \<exists>d'. f d = Inr (x, d') \<and> view d' = rest"
  unfolding takes_def by blast

lemma takes_map_err: "takes view f put ok \<Longrightarrow> takes view (\<lambda>d. map_err h (f d)) put ok"
  unfolding takes_def by (fastforce simp: result_inv)

text \<open>Reads in sequence, and reads followed by a rearrangement of what was read.\<close>

definition both :: "('d \<Rightarrow> ('x, 'a \<times> 'd) result) \<Rightarrow> ('d \<Rightarrow> ('x, 'b \<times> 'd) result) \<Rightarrow> 'd \<Rightarrow> ('x, ('a \<times> 'b) \<times> 'd) result" where
  "both f g d = rbind (f d) (\<lambda>(x, d). rbind (g d) (\<lambda>(y, d). Inr ((x, y), d)))"

lemma takes_both:
  assumes "takes view f p ok" and "takes view g q ok'"
  shows "takes view (both f g) (\<lambda>(x, y). p x @ q y) (\<lambda>(x, y). ok x \<and> ok' y)"
  unfolding takes_def
proof (intro conjI allI impI)
  fix d xy d' assume "both f g d = Inr (xy, d')"
  then obtain d1 where "f d = Inr (fst xy, d1)" "g d1 = Inr (snd xy, d')" by (auto simp: both_def result_inv)
  from takesD [OF assms(1) this(1)] takesD [OF assms(2) this(2)]
  show "case xy of (x, y) \<Rightarrow> ok x \<and> ok' y" "view d = (case xy of (x, y) \<Rightarrow> p x @ q y) @ view d'" by (simp_all add: split_def)
next
  fix d xy rest assume ok: "case xy of (x, y) \<Rightarrow> ok x \<and> ok' y" and v: "view d = (case xy of (x, y) \<Rightarrow> p x @ q y) @ rest"
  obtain x y where xy: "xy = (x, y)" by (cases xy)
  from takesI [OF assms(1), of d x "q y @ rest"] ok v obtain d1 where "f d = Inr (x, d1)" "view d1 = q y @ rest" by (auto simp: xy)
  moreover from takesI [OF assms(2) this(2)] ok obtain d2 where "g d1 = Inr (y, d2)" "view d2 = rest" by (auto simp: xy)
  ultimately show "\<exists>d'. both f g d = Inr (xy, d') \<and> view d' = rest" by (simp add: both_def xy)
qed

lemma takes_rearranged:
  assumes "takes view f p ok" and "\<And>x. ok x \<Longrightarrow> ok' (h x) \<and> p' (h x) = p x" and "\<And>y. ok' y \<Longrightarrow> ok (k y) \<and> h (k y) = y"
  shows "takes view (\<lambda>d. rbind (f d) (\<lambda>(x, d). Inr (h x, d))) p' ok'"
  unfolding takes_def
proof (intro conjI allI impI)
  fix d y d' assume "rbind (f d) (\<lambda>(x, d). Inr (h x, d)) = Inr (y, d')"
  then show "ok' y" "view d = p' y @ view d'" using takesD [OF assms(1)] assms(2) by (auto simp: result_inv)
next
  fix d y rest assume "ok' y" and "view d = p' y @ rest"
  moreover from this(1) assms(2,3) have "ok (k y)" "p' y = p (k y)" "h (k y) = y" by (metis, metis, metis)
  ultimately show "\<exists>d'. rbind (f d) (\<lambda>(x, d). Inr (h x, d)) = Inr (y, d') \<and> view d' = rest"
    using takesI [OF assms(1), of d "k y" rest] by auto
qed

lemma decoder_lawsD:
  assumes "decoder_laws D view"
  shows "view (de_new D bs) = bs" "takes view (de_read_u8 D) (\<lambda>b. [b]) (\<lambda>_. True)"
    "takes view (\<lambda>d. de_read_slice D d n) (\<lambda>x. x) (\<lambda>x. length x = n)"
    "takes view (de_read_array D n) (\<lambda>x. x) (\<lambda>x. length x = n)" "takes view (de_read_u16_le D) (le_bytes 2) (\<lambda>_. True)"
    "takes view (de_read_u32_le D) (le_bytes 4) (\<lambda>_. True)" "takes view (de_read_u64_le D) (le_bytes 8) (\<lambda>_. True)"
    "de_finish D d = Inr u \<longleftrightarrow> view d = []"
  using assms by (simp_all add: decoder_laws_def)

lemma encoder_lawsD [simp]:
  assumes "encoder_laws E"
  shows "en_into_bytes E (en_with_capacity E n) = []" "en_into_bytes E (en_put_u8 E e b) = en_into_bytes E e @ [b]"
    "en_into_bytes E (en_put_u16_le E e v) = en_into_bytes E e @ le_bytes 2 v"
    "en_into_bytes E (en_put_u32_le E e w) = en_into_bytes E e @ le_bytes 4 w"
    "en_into_bytes E (en_put_u64_le E e x) = en_into_bytes E e @ le_bytes 8 x"
    "en_into_bytes E (en_put_bytes E e bs) = en_into_bytes E e @ bs"
  using assms by (simp_all add: encoder_laws_def)

text \<open>
  A count is written in the canonical compact form: one byte below 253, otherwise a marker and the shortest
  of two, four or eight bytes that holds it.  A reader with a bound accepts exactly the canonical form of a
  count within the bound; byte strings carry their length in front.
\<close>

definition compact_size :: "nat \<Rightarrow> bytes" where
  "compact_size n =
     (if n < 253 then [of_nat n]
      else if n < 2 ^ 16 then 0xfd # le_bytes 2 (of_nat n :: u64)
      else if n < 2 ^ 32 then 0xfe # le_bytes 4 (of_nat n :: u64)
      else 0xff # le_bytes 8 (of_nat n :: u64))"

definition varbytes :: "bytes \<Rightarrow> bytes" where
  "varbytes bs = compact_size (length bs) @ bs"

definition var_decoder_laws :: "('d, 'x) decoder_lib \<Rightarrow> ('d \<Rightarrow> bytes) \<Rightarrow> bool" where
  "var_decoder_laws D view \<longleftrightarrow>
     (\<forall>m s. takes view (\<lambda>d. de_read_compact_usize D d m s) compact_size (\<lambda>n. n \<le> m \<and> n \<le> usize_max)) \<and>
     (\<forall>m s. takes view (\<lambda>d. de_read_varbytes D d m s) varbytes (\<lambda>x. length x \<le> m \<and> length x \<le> usize_max))"

definition var_encoder_laws :: "'e encoder_lib \<Rightarrow> bool" where
  "var_encoder_laws E \<longleftrightarrow> (\<forall>e v. en_into_bytes E (en_put_varbytes E e v) = en_into_bytes E e @ varbytes v)"

lemma var_decoder_lawsD:
  assumes "var_decoder_laws D view"
  shows "takes view (\<lambda>d. de_read_compact_usize D d m s) compact_size (\<lambda>n. n \<le> m \<and> n \<le> usize_max)"
    "takes view (\<lambda>d. de_read_varbytes D d m s) varbytes (\<lambda>x. length x \<le> m \<and> length x \<le> usize_max)"
  using assms by (simp_all add: var_decoder_laws_def)

lemma var_encoder_lawsD [simp]:
  "var_encoder_laws E \<Longrightarrow> en_into_bytes E (en_put_varbytes E e v) = en_into_bytes E e @ varbytes v"
  by (simp add: var_encoder_laws_def)

section \<open>Lists of bytes as decoder and encoder\<close>

definition list_take :: "bytes \<Rightarrow> usize \<Rightarrow> (unit, bytes \<times> bytes) result" where
  "list_take d n = (if n \<le> length d then Inr (take n d, drop n d) else Inl ())"

text \<open>A compact count is read by its marker, and refused unless it is the canonical form of its value.\<close>

definition compact_width :: "u8 \<Rightarrow> nat" where
  "compact_width b = (if b < 0xfd then 0 else if b = 0xfd then 2 else if b = 0xfe then 4 else 8)"

definition list_compact :: "bytes \<Rightarrow> usize \<Rightarrow> (unit, usize \<times> bytes) result" where
  "list_compact d m = rbind (list_take d 1) (\<lambda>(b, d). rbind (list_take d (compact_width (hd b))) (\<lambda>(v, d).
     let n = (if v = [] then unat (hd b) else unat (le_word v :: u64))
     in if n \<le> m \<and> compact_size n = b @ v then Inr (n, d) else Inl ()))"

definition list_decoder :: "(bytes, unit) decoder_lib" where
  "list_decoder = \<lparr>de_new = \<lambda>bs. bs, de_read_u8 = \<lambda>d. rbind (list_take d 1) (\<lambda>(b, d). Inr (hd b, d)),
     de_read_slice = list_take, de_read_array = \<lambda>n d. list_take d n,
     de_read_u16_le = \<lambda>d. rbind (list_take d 2) (\<lambda>(b, d). Inr (le_word b, d)),
     de_read_u32_le = \<lambda>d. rbind (list_take d 4) (\<lambda>(b, d). Inr (le_word b, d)),
     de_read_u64_le = \<lambda>d. rbind (list_take d 8) (\<lambda>(b, d). Inr (le_word b, d)),
     de_read_compact_size = \<lambda>d. rbind (list_take d 1) (\<lambda>(b, d). Inr (le_word b, d)),
     de_read_compact_usize = \<lambda>d m _. list_compact d m,
     de_read_varbytes = \<lambda>d m _. rbind (list_compact d m) (\<lambda>(n, d). list_take d n),
     de_finish = \<lambda>d. if d = [] then Inr () else Inl ()\<rparr>"

definition list_encoder :: "bytes encoder_lib" where
  "list_encoder = \<lparr>en_with_capacity = \<lambda>_. [], en_put_u8 = \<lambda>e b. e @ [b], en_put_u16_le = \<lambda>e v. e @ le_bytes 2 v,
     en_put_u32_le = \<lambda>e v. e @ le_bytes 4 v, en_put_u64_le = \<lambda>e v. e @ le_bytes 8 v, en_put_bytes = (@),
     en_put_varbytes = \<lambda>e v. e @ varbytes v, en_into_bytes = \<lambda>e. e\<rparr>"

lemma list_encoder_laws: "encoder_laws list_encoder"
  by (simp add: encoder_laws_def list_encoder_def)

lemma list_take_append: "n = length x \<Longrightarrow> list_take (x @ rest) n = Inr (x, rest)"
  by (simp add: list_take_def)

lemma list_take_word:
  assumes "LENGTH('w :: len) = 8 * k"
  shows "takes (\<lambda>d. d) (\<lambda>d. rbind (list_take d k) (\<lambda>(b, d). Inr (le_word b :: 'w word, d))) (le_bytes k) (\<lambda>_. True)"
proof -
  have "d = le_bytes k x @ d'" if "k \<le> length d" "x = le_word (take k d)" "d' = drop k d" for d d' :: bytes and x :: "'w word"
    using that assms le_bytes_le_word [of "take k d" k, where 'w = 'w] by simp
  then show ?thesis
    using assms by (auto simp: takes_def list_take_append le_word_le_bytes result_inv list_take_def split: if_splits)
qed

lemma list_decoder_laws: "decoder_laws list_decoder (\<lambda>d. d)"
proof -
  have "takes (\<lambda>d. d) (\<lambda>d. list_take d n) (\<lambda>x. x) (\<lambda>x. length x = n)" for n
    by (auto simp: takes_def list_take_def split: if_splits)
  moreover have "takes (\<lambda>d. d) (\<lambda>d. rbind (list_take d 1) (\<lambda>(b, d). Inr (hd b, d))) (\<lambda>b. [b]) (\<lambda>_. True)"
    by (auto simp: takes_def list_take_def result_inv take_Suc drop_Suc Suc_le_length_iff split: if_splits)
  ultimately show ?thesis
    using list_take_word [where 'w = 16 and k = 2] list_take_word [where 'w = 32 and k = 4] list_take_word [where 'w = 64 and k = 8]
    by (auto simp: decoder_laws_def list_decoder_def)
qed

lemma list_var_encoder_laws: "var_encoder_laws list_encoder"
  by (simp add: var_encoder_laws_def list_encoder_def)

lemma le_word_prefix:
  assumes "k \<le> 8"
  shows "le_word (le_bytes k w) = take_bit (8 * k) (w :: u64)"
proof (rule bit_word_eqI)
  fix n assume "n < LENGTH(64)"
  moreover have "8 * (n div 8) + n mod 8 = n" by simp
  ultimately show "bit (le_word (le_bytes k w) :: u64) n \<longleftrightarrow> bit (take_bit (8 * k) w) n"
    using assms by (auto simp: bit_le_word le_bytes_def bit_simps)
qed

lemma le_word_count:
  assumes "k \<le> 8" and "n < 2 ^ (8 * k)"
  shows "unat (le_word (le_bytes k (of_nat n :: u64)) :: u64) = n"
  using assms power_increasing [of "8 * k" 64 "2 :: nat"]
  by (simp add: le_word_prefix unsigned_take_bit_eq unsigned_of_nat take_bit_nat_eq_self min_def)

lemma compact_size_cases:
  assumes "n \<le> usize_max"
  obtains (small) "n < 253" "compact_size n = [of_nat n]"
    | (large) b k where "compact_size n = b # le_bytes k (of_nat n :: u64)" "compact_width b = k" "0 < k" "k \<le> 8" "n < 2 ^ (8 * k)"
proof -
  consider "n < 253" | "253 \<le> n" "n < 2 ^ 16" | "2 ^ 16 \<le> n" "n < 2 ^ 32" | "2 ^ 32 \<le> n" by linarith
  then show thesis
    using assms by cases (auto simp: compact_size_def compact_width_def usize_max_def intro: small large)
qed

lemma list_compact_takes: "takes (\<lambda>d. d) (\<lambda>d. list_compact d m) compact_size (\<lambda>n. n \<le> m \<and> n \<le> usize_max)"
  unfolding takes_def
proof (intro conjI allI impI)
  fix d n d' assume "list_compact d m = Inr (n, d')"
  then obtain b d1 v where t: "list_take d 1 = Inr (b, d1)" "list_take d1 (compact_width (hd b)) = Inr (v, d')"
      and n: "n \<le> m" "compact_size n = b @ v" "n = (if v = [] then unat (hd b) else unat (le_word v :: u64))"
    by (auto simp: list_compact_def result_inv Let_def split: if_splits)
  have "x = y @ z" if "list_take x k = Inr (y, z)" for x y z k using that by (auto simp: list_take_def split: if_splits)
  from this [OF t(1)] this [OF t(2)] have "d = b @ v @ d'" by simp
  with n show "n \<le> m" "d = compact_size n @ d'" by simp_all
  have "unat (hd b) < 256" using unsigned_less [where 'a = nat, of "hd b"] by simp
  with n(3) unat_u64_le [of "le_word v"] show "n \<le> usize_max" by (simp add: usize_max_def u64_max_def)
next
  fix d n rest assume ok: "n \<le> m \<and> n \<le> usize_max" and d: "d = compact_size n @ rest"
  then have "n \<le> usize_max" by simp
  then have "list_compact d m = Inr (n, rest)"
  proof (cases rule: compact_size_cases)
    case small
    moreover from this have "unat (of_nat n :: u8) = n" "(of_nat n :: u8) < 0xfd"
      by (simp_all add: unsigned_of_nat take_bit_nat_eq_self word_less_nat_alt)
    ultimately show ?thesis using ok by (simp add: d list_compact_def list_take_def compact_width_def)
  next
    case (large b k)
    then have "le_bytes k (of_nat n :: u64) \<noteq> []" by (auto simp: le_bytes_def)
    with large show ?thesis using ok le_word_count [OF large(4,5)]
      by (simp add: d list_compact_def list_take_def)
  qed
  then show "\<exists>d'. list_compact d m = Inr (n, d') \<and> d' = rest" by simp
qed

lemma list_var_decoder_laws: "var_decoder_laws list_decoder (\<lambda>d. d)"
proof -
  have "takes (\<lambda>d. d) (\<lambda>d. rbind (list_compact d m) (\<lambda>(n, d). list_take d n)) varbytes
      (\<lambda>x. length x \<le> m \<and> length x \<le> usize_max)" for m
    unfolding takes_def
  proof (intro conjI allI impI)
    fix d x d' assume "rbind (list_compact d m) (\<lambda>(n, d). list_take d n) = Inr (x, d')"
    then obtain n d1 where "list_compact d m = Inr (n, d1)" "list_take d1 n = Inr (x, d')" by (auto simp: result_inv)
    with takesD [OF list_compact_takes this(1)]
    show "length x \<le> m" "length x \<le> usize_max" "d = varbytes x @ d'"
      by (auto simp: list_take_def varbytes_def split: if_splits)
  next
    fix d x rest assume "length x \<le> m \<and> length x \<le> usize_max" and "d = varbytes x @ rest"
    then show "\<exists>d'. rbind (list_compact d m) (\<lambda>(n, d). list_take d n) = Inr (x, d') \<and> d' = rest"
      using takesI [OF list_compact_takes, of d "length x" "x @ rest" m] by (auto simp: varbytes_def list_take_append)
  qed
  then show ?thesis using list_compact_takes by (simp add: var_decoder_laws_def list_decoder_def)
qed

end
