(* ===== verification/Light_Snapshot.thy ===== *)
theory Light_Snapshot
  imports Light_Chain_Laws Hns_Encoding
begin

text \<open>
  Checkpoints of the light header chain (src/crates/hns-light-chain/src/lib.rs): the encoding of the retained
  history, its restoration with a rollback floor, and the checks of the restored history.  Chainwork values
  and their 32-byte form come from hns-primitives: they are the fields of \<open>work_lib\<close>.
\<close>

section \<open>Model\<close>

record 'w work_lib =
  wk_zero :: 'w
  wk_to_be_bytes :: "'w \<Rightarrow> bytes"
  wk_from_be_bytes :: "bytes \<Rightarrow> 'w"

record 'w chain_snapshot_floor =
  sf_minimum_height :: u32
  sf_minimum_chainwork :: 'w

definition MAX_LIGHT_CHAIN_SNAPSHOT_BYTES :: usize where
  "MAX_LIGHT_CHAIN_SNAPSHOT_BYTES = 64 * 1024"

definition LIGHT_CHAIN_SNAPSHOT_MAGIC :: bytes where
  "LIGHT_CHAIN_SNAPSHOT_MAGIC = ascii ''HNS-LIGHT-CHAIN-SNAPSHOT'' @ [0]"

definition LIGHT_CHAIN_SNAPSHOT_SCHEMA :: u16 where
  "LIGHT_CHAIN_SNAPSHOT_SCHEMA = 1"

definition LIGHT_CHAIN_SNAPSHOT_CHECKSUM_DOMAIN :: bytes where
  "LIGHT_CHAIN_SNAPSHOT_CHECKSUM_DOMAIN = ascii ''HNS-LIGHT-CHAIN-SNAPSHOT-V1'' @ [0]"

definition snapshot_checksum :: "digest \<Rightarrow> bytes \<Rightarrow> bytes" where
  "snapshot_checksum blake2b payload = blake2b_256 blake2b [LIGHT_CHAIN_SNAPSHOT_CHECKSUM_DOMAIN, payload]"

definition encode_header_entry :: "'e encoder_lib \<Rightarrow> 'w work_lib \<Rightarrow> 'e \<Rightarrow> 'w header_entry \<Rightarrow> 'e" where
  "encode_header_entry E W encoder entry =
     (let encoder = en_put_u32_le E encoder (he_height entry);
          encoder = en_put_bytes E encoder (he_hash entry);
          encoder = en_put_bytes E encoder (he_previous_block entry);
          encoder = en_put_bytes E encoder (he_tree_root entry);
          encoder = en_put_bytes E encoder (he_merkle_root entry);
          encoder = en_put_u64_le E encoder (he_time entry);
          encoder = en_put_u32_le E encoder (he_bits entry)
      in en_put_bytes E encoder (wk_to_be_bytes W (he_chainwork entry)))"

definition encode_authenticated_snapshot ::
  "('h, 'w, 'x) consensus \<Rightarrow> 'e encoder_lib \<Rightarrow> 'w work_lib \<Rightarrow> digest \<Rightarrow> 'w light_chain \<Rightarrow> ('x light_chain_error, bytes) result" where
  "encode_authenticated_snapshot C E W blake2b c =
     (let encoder = en_with_capacity E MAX_LIGHT_CHAIN_SNAPSHOT_BYTES;
          encoder = en_put_bytes E encoder LIGHT_CHAIN_SNAPSHOT_MAGIC;
          encoder = en_put_u16_le E encoder LIGHT_CHAIN_SNAPSHOT_SCHEMA;
          encoder = en_put_u8 E encoder (cs_network_id C (lc_network c))
      in if max_headers_per_batch (lc_limits c) > 4294967295 then Inl InvalidSnapshot
      else let encoder = en_put_u32_le E encoder (of_nat (max_headers_per_batch (lc_limits c)))
      in if length (lc_history c) > 65535 then Inl InvalidSnapshot
      else let encoder = en_put_u16_le E encoder (of_nat (length (lc_history c)));
               encoder = foldl (encode_header_entry E W) encoder (lc_history c);
               snapshot_bytes = en_into_bytes E encoder;
               snapshot_bytes = snapshot_bytes @ snapshot_checksum blake2b snapshot_bytes
      in if length snapshot_bytes > MAX_LIGHT_CHAIN_SNAPSHOT_BYTES then Inl SnapshotTooLarge
      else Inr snapshot_bytes)"

definition decode_network :: "u8 \<Rightarrow> ('x light_chain_error, light_network) result" where
  "decode_network i =
     (if i = 0 then Inr MainNet else if i = 1 then Inr TestNet else if i = 2 then Inr RegTest
      else if i = 3 then Inr SimNet else Inl InvalidSnapshot)"

definition decode_header_entry ::
  "('d, 'x) decoder_lib \<Rightarrow> 'w work_lib \<Rightarrow> 'd \<Rightarrow> ('x light_chain_error, 'w header_entry \<times> 'd) result" where
  "decode_header_entry D W d = map_err LcNameStateDecode (
     rbind (de_read_u32_le D d) (\<lambda>(height, d).
     rbind (de_read_array D 32 d) (\<lambda>(hash, d).
     rbind (de_read_array D 32 d) (\<lambda>(previous_block, d).
     rbind (de_read_array D 32 d) (\<lambda>(tree_root, d).
     rbind (de_read_array D 32 d) (\<lambda>(merkle_root, d).
     rbind (de_read_u64_le D d) (\<lambda>(time, d).
     rbind (de_read_u32_le D d) (\<lambda>(b, d).
     rbind (de_read_array D 32 d) (\<lambda>(work, d).
     Inr (\<lparr>he_height = height, he_hash = hash, he_previous_block = previous_block, he_tree_root = tree_root,
           he_merkle_root = merkle_root, he_time = time, he_bits = b, he_chainwork = wk_from_be_bytes W work\<rparr>, d))))))))))"

fun decode_entries ::
  "('d, 'x) decoder_lib \<Rightarrow> 'w work_lib \<Rightarrow> nat \<Rightarrow> 'd \<Rightarrow> ('x light_chain_error, 'w header_entry list \<times> 'd) result" where
  "decode_entries D W 0 d = Inr ([], d)"
| "decode_entries D W (Suc n) d =
     rbind (decode_header_entry D W d) (\<lambda>(e, d).
     rbind (decode_entries D W n d) (\<lambda>(es, d). Inr (e # es, d)))"

definition validate_snapshot_pair :: "'w :: linorder header_entry \<Rightarrow> 'w header_entry \<Rightarrow> ('x light_chain_error, unit) result" where
  "validate_snapshot_pair previous succ =
     (if u32_checked_add (he_height previous) 1 \<noteq> Some (he_height succ) \<or> he_previous_block succ \<noteq> he_hash previous \<or>
         he_chainwork succ \<le> he_chainwork previous \<or> he_bits succ = 0
      then Inl InvalidSnapshot else Inr ())"

fun validate_windows :: "'w :: linorder header_entry list \<Rightarrow> ('x light_chain_error, unit) result" where
  "validate_windows (previous # succ # rest) =
     rbind (validate_snapshot_pair previous succ) (\<lambda>_. validate_windows (succ # rest))"
| "validate_windows _ = Inr ()"

definition validate_snapshot_history ::
  "('h, 'w :: linorder, 'x) consensus \<Rightarrow> 'w work_lib \<Rightarrow> light_network \<Rightarrow> chain_limits \<Rightarrow> 'w header_entry list \<Rightarrow>
   'w chain_snapshot_floor \<Rightarrow> ('x light_chain_error, unit) result" where
  "validate_snapshot_history C W network limits history floor =
     (if history = [] then Inl InvalidSnapshot
      else let first = hd history; tip = last history;
               expected_length = min (unat (he_height tip) + 1) REQUIRED_DIFFICULTY_HISTORY
      in if length history \<noteq> expected_length then Inl InvalidSnapshot
      else if list_ex (\<lambda>e. he_hash e = hash_zero \<or> he_bits e = 0 \<or> he_chainwork e = wk_zero W) history then Inl InvalidSnapshot
      else if he_height tip < sf_minimum_height floor \<or> he_chainwork tip < sf_minimum_chainwork floor then Inl SnapshotRollback
      else rbind (if he_height first = 0 then
           rbind (from_genesis C network (cs_genesis_time C network) limits) (\<lambda>expected.
           if first \<noteq> lc_tip expected then Inl InvalidSnapshot else Inr ())
         else Inr ()) (\<lambda>_.
      validate_windows history))"

definition decode_authenticated_snapshot ::
  "('h, 'w :: linorder, 'x) consensus \<Rightarrow> ('d, 'x) decoder_lib \<Rightarrow> 'w work_lib \<Rightarrow> digest \<Rightarrow> bytes \<Rightarrow> light_network \<Rightarrow>
   'w chain_snapshot_floor \<Rightarrow> ('x light_chain_error, 'w light_chain) result" where
  "decode_authenticated_snapshot C D W blake2b input expected_network floor =
     (if length input > MAX_LIGHT_CHAIN_SNAPSHOT_BYTES then Inl SnapshotTooLarge
      else if length input < 32 then Inl InvalidSnapshot
      else let payload_length = length input - 32; payload = take payload_length input;
               encoded_checksum = drop payload_length input
      in if encoded_checksum \<noteq> snapshot_checksum blake2b payload then Inl SnapshotChecksumMismatch
      else rbind (map_err LcNameStateDecode (de_read_slice D (de_new D payload) (length LIGHT_CHAIN_SNAPSHOT_MAGIC))) (\<lambda>(magic, d).
      if magic \<noteq> LIGHT_CHAIN_SNAPSHOT_MAGIC then Inl UnsupportedSnapshot
      else rbind (map_err LcNameStateDecode (de_read_u16_le D d)) (\<lambda>(schema, d).
      if schema \<noteq> LIGHT_CHAIN_SNAPSHOT_SCHEMA then Inl UnsupportedSnapshot
      else rbind (map_err LcNameStateDecode (de_read_u8 D d)) (\<lambda>(i, d).
      rbind (decode_network i) (\<lambda>network.
      if network \<noteq> expected_network then Inl SnapshotNetworkMismatch
      else rbind (map_err LcNameStateDecode (de_read_u32_le D d)) (\<lambda>(max_headers, d).
      rbind (chain_limits_validate \<lparr>max_headers_per_batch = unat max_headers\<rparr>) (\<lambda>limits.
      rbind (map_err LcNameStateDecode (de_read_u16_le D d)) (\<lambda>(count, d).
      if unat count = 0 \<or> unat count > REQUIRED_DIFFICULTY_HISTORY then Inl InvalidSnapshot
      else rbind (decode_entries D W (unat count) d) (\<lambda>(history, d).
      rbind (map_err LcNameStateDecode (de_finish D d)) (\<lambda>_.
      rbind (validate_snapshot_history C W expected_network limits history floor) (\<lambda>_.
      Inr \<lparr>lc_network = network, lc_limits = limits, lc_history = history, lc_tip = last history\<rparr>)))))))))))"

section \<open>Entries\<close>

text \<open>What is relied on of chainwork values: their 32-byte form is faithful.\<close>

definition work_laws :: "'w work_lib \<Rightarrow> bool" where
  "work_laws W \<longleftrightarrow> (\<forall>w. length (wk_to_be_bytes W w) = 32 \<and> wk_from_be_bytes W (wk_to_be_bytes W w) = w) \<and>
     (\<forall>bs. length bs = 32 \<longrightarrow> wk_to_be_bytes W (wk_from_be_bytes W bs) = bs)"

definition entry_wire :: "'w work_lib \<Rightarrow> 'w header_entry \<Rightarrow> bytes" where
  "entry_wire W e = le_bytes 4 (he_height e) @ he_hash e @ he_previous_block e @ he_tree_root e @ he_merkle_root e @
     le_bytes 8 (he_time e) @ le_bytes 4 (he_bits e) @ wk_to_be_bytes W (he_chainwork e)"

definition entry_sized :: "'w header_entry \<Rightarrow> bool" where
  "entry_sized e \<longleftrightarrow> list_all (\<lambda>h. length h = 32) [he_hash e, he_previous_block e, he_tree_root e, he_merkle_root e]"

lemma length_entry_wire: "work_laws W \<Longrightarrow> entry_sized e \<Longrightarrow> length (entry_wire W e) = 176"
  by (simp add: entry_wire_def entry_sized_def work_laws_def)

lemma encode_entries_bytes:
  "encoder_laws E \<Longrightarrow> en_into_bytes E (foldl (encode_header_entry E W) e es) = en_into_bytes E e @ concat (map (entry_wire W) es)"
  by (induction es arbitrary: e) (simp_all add: encode_header_entry_def entry_wire_def Let_def)

lemma decode_header_entry_takes:
  assumes laws: "decoder_laws D view" and W: "work_laws W"
  shows "takes view (decode_header_entry D W) (entry_wire W) entry_sized"
proof -
  note L = decoder_lawsD [OF laws]
  let ?hash = "de_read_array D 32"
  let ?f = "both (de_read_u32_le D) (both ?hash (both ?hash (both ?hash (both ?hash (both (de_read_u64_le D)
     (both (de_read_u32_le D) ?hash))))))"
  let ?entry = "\<lambda>(h, a, b, c, m, t, bt, w). \<lparr>he_height = h, he_hash = a, he_previous_block = b, he_tree_root = c,
     he_merkle_root = m, he_time = t, he_bits = bt, he_chainwork = wk_from_be_bytes W w\<rparr>"
  have eq: "decode_header_entry D W = (\<lambda>d. map_err LcNameStateDecode (rbind (?f d) (\<lambda>(x, d). Inr (?entry x, d))))"
    by (rule ext) (simp add: decode_header_entry_def both_def rbind_assoc split_def)
  have "takes view (\<lambda>d. rbind (?f d) (\<lambda>(x, d). Inr (?entry x, d))) (entry_wire W) entry_sized"
    by (rule takes_rearranged [where k = "\<lambda>e. (he_height e, he_hash e, he_previous_block e, he_tree_root e, he_merkle_root e,
          he_time e, he_bits e, wk_to_be_bytes W (he_chainwork e))"])
      (rule takes_both L | use W in \<open>auto simp: entry_wire_def entry_sized_def work_laws_def\<close>)+
  then show ?thesis unfolding eq by (rule takes_map_err)
qed

lemma decode_entries_takes:
  assumes e: "takes view (decode_header_entry D W) p ok"
  shows "takes view (decode_entries D W n) (\<lambda>es. concat (map p es)) (\<lambda>es. length es = n \<and> list_all ok es)"
proof (induction n)
  case 0
  then show ?case by (auto simp: takes_def)
next
  case (Suc n)
  have eq: "decode_entries D W (Suc n) = (\<lambda>d. rbind (both (decode_header_entry D W) (decode_entries D W n) d)
      (\<lambda>(x, d). Inr (case x of (e, es) \<Rightarrow> e # es, d)))"
    by (rule ext) (simp add: both_def rbind_assoc split_def)
  show ?case unfolding eq
    by (rule takes_rearranged [where k = "\<lambda>es. (hd es, tl es)", OF takes_both [OF e Suc.IH]])
      (auto simp: length_Suc_conv)
qed

section \<open>What is written\<close>

definition snapshot_payload :: "('h, 'w, 'x) consensus \<Rightarrow> 'w work_lib \<Rightarrow> 'w light_chain \<Rightarrow> bytes" where
  "snapshot_payload C W c = LIGHT_CHAIN_SNAPSHOT_MAGIC @ le_bytes 2 LIGHT_CHAIN_SNAPSHOT_SCHEMA @
     [cs_network_id C (lc_network c)] @ le_bytes 4 (of_nat (max_headers_per_batch (lc_limits c)) :: u32) @
     le_bytes 2 (of_nat (length (lc_history c)) :: u16) @ concat (map (entry_wire W) (lc_history c))"

lemma length_magic: "length LIGHT_CHAIN_SNAPSHOT_MAGIC = 25"
  by (simp add: LIGHT_CHAIN_SNAPSHOT_MAGIC_def ascii_def)

lemma length_entries:
  "work_laws W \<Longrightarrow> list_all entry_sized es \<Longrightarrow> length (concat (map (entry_wire W) es)) = 176 * length es"
  by (induction es) (simp_all add: length_entry_wire)

lemma encode_snapshot_eq:
  assumes "encoder_laws E" and "work_laws W" and "\<And>bs. length (blake2b bs) = 32" and "list_all entry_sized (lc_history c)"
    and "max_headers_per_batch (lc_limits c) \<le> MAX_HEADERS_PER_BATCH_LIMIT" and "length (lc_history c) \<le> REQUIRED_DIFFICULTY_HISTORY"
  shows "encode_authenticated_snapshot C E W blake2b c =
    Inr (snapshot_payload C W c @ snapshot_checksum blake2b (snapshot_payload C W c))"
proof -
  have "length (snapshot_payload C W c @ snapshot_checksum blake2b (snapshot_payload C W c)) \<le> MAX_LIGHT_CHAIN_SNAPSHOT_BYTES"
    using assms(3,6) length_entries [OF assms(2,4)]
    by (simp add: snapshot_payload_def snapshot_checksum_def blake2b_256_def length_magic MAX_LIGHT_CHAIN_SNAPSHOT_BYTES_def
        REQUIRED_DIFFICULTY_HISTORY_def)
  moreover have "max_headers_per_batch (lc_limits c) \<le> 4294967295" "length (lc_history c) \<le> 65535"
    using assms(5,6) by (simp_all add: MAX_HEADERS_PER_BATCH_LIMIT_def REQUIRED_DIFFICULTY_HISTORY_def)
  ultimately show ?thesis
    using assms(1) by (simp add: encode_authenticated_snapshot_def Let_def encode_entries_bytes snapshot_payload_def)
qed

section \<open>What is checked\<close>

definition entry_live :: "'w work_lib \<Rightarrow> 'w header_entry \<Rightarrow> bool" where
  "entry_live W e \<longleftrightarrow> he_hash e \<noteq> hash_zero \<and> he_bits e \<noteq> 0 \<and> he_chainwork e \<noteq> wk_zero W"

lemma validate_pair_iff:
  "validate_snapshot_pair a b = Inr () \<longleftrightarrow> extends a b \<and> he_bits b \<noteq> 0"
proof -
  have "u32_checked_add (he_height a) 1 = Some (he_height b) \<longleftrightarrow> unat (he_height b) = Suc (unat (he_height a))"
    using u32_bound [of "he_height b"] u32_add_unat [of "he_height a" 1] by (auto simp: u32_checked_add_Some word_unat_eq_iff)
  then show ?thesis by (auto simp: validate_snapshot_pair_def extends_def not_le)
qed

lemma validate_windows_iff:
  "list_all (entry_live W) es \<Longrightarrow> validate_windows es = Inr () \<longleftrightarrow> successively extends es"
  by (induction es rule: validate_windows.induct) (auto simp: result_inv validate_pair_iff entry_live_def)

definition snapshot_ready ::
  "('h, 'w :: linorder, 'x) consensus \<Rightarrow> 'w work_lib \<Rightarrow> 'w chain_snapshot_floor \<Rightarrow> 'w light_chain \<Rightarrow> bool" where
  "snapshot_ready C W floor c \<longleftrightarrow>
     lc_history c \<noteq> [] \<and> lc_tip c = last (lc_history c) \<and>
     length (lc_history c) = min (Suc (unat (he_height (lc_tip c)))) REQUIRED_DIFFICULTY_HISTORY \<and>
     successively extends (lc_history c) \<and> list_all entry_sized (lc_history c) \<and> list_all (entry_live W) (lc_history c) \<and>
     (he_height (hd (lc_history c)) = 0 \<longrightarrow> (\<exists>g. from_genesis C (lc_network c) (cs_genesis_time C (lc_network c)) (lc_limits c) = Inr g \<and>
        hd (lc_history c) = lc_tip g)) \<and>
     sf_minimum_height floor \<le> he_height (lc_tip c) \<and> sf_minimum_chainwork floor \<le> he_chainwork (lc_tip c) \<and>
     1 \<le> max_headers_per_batch (lc_limits c) \<and> max_headers_per_batch (lc_limits c) \<le> MAX_HEADERS_PER_BATCH_LIMIT"

lemma validate_history_iff:
  "validate_snapshot_history C W n limits es floor = Inr () \<longleftrightarrow>
     es \<noteq> [] \<and> length es = min (Suc (unat (he_height (last es)))) REQUIRED_DIFFICULTY_HISTORY \<and> list_all (entry_live W) es \<and>
     sf_minimum_height floor \<le> he_height (last es) \<and> sf_minimum_chainwork floor \<le> he_chainwork (last es) \<and>
     (he_height (hd es) = 0 \<longrightarrow> (\<exists>g. from_genesis C n (cs_genesis_time C n) limits = Inr g \<and> hd es = lc_tip g)) \<and>
     successively extends es"
proof -
  have "list_ex (\<lambda>e. he_hash e = hash_zero \<or> he_bits e = 0 \<or> he_chainwork e = wk_zero W) es \<longleftrightarrow> \<not> list_all (entry_live W) es"
    by (auto simp: list_ex_iff list_all_iff entry_live_def)
  then show ?thesis using validate_windows_iff [of W es]
    by (auto simp: validate_snapshot_history_def Let_def result_inv not_less)
qed

section \<open>What is restored\<close>

text \<open>The external crates number the networks as the reader of a checkpoint expects, and the digest has 32 bytes.\<close>

definition snapshot_laws :: "('h, 'w, 'x) consensus \<Rightarrow> 'w work_lib \<Rightarrow> digest \<Rightarrow> bool" where
  "snapshot_laws C W blake2b \<longleftrightarrow> map (cs_network_id C) [MainNet, TestNet, RegTest, SimNet] = [0, 1, 2, 3] \<and>
     work_laws W \<and> (\<forall>bs. length (blake2b bs) = 32)"

lemma decode_network_iff:
  "snapshot_laws C W blake2b \<Longrightarrow> decode_network i = Inr n \<longleftrightarrow> i = cs_network_id C n"
  by (cases n) (auto simp: decode_network_def snapshot_laws_def)

lemma chain_limits_validate_iff:
  "chain_limits_validate l = Inr l' \<longleftrightarrow> l' = l \<and> 1 \<le> max_headers_per_batch l \<and> max_headers_per_batch l \<le> MAX_HEADERS_PER_BATCH_LIMIT"
  by (auto simp: chain_limits_validate_def)

lemma snapshot_numbers:
  "n \<le> MAX_HEADERS_PER_BATCH_LIMIT \<Longrightarrow> unat (of_nat n :: u32) = n"
  "m \<le> REQUIRED_DIFFICULTY_HISTORY \<Longrightarrow> unat (of_nat m :: u16) = m"
  by (simp_all add: unat_of_nat MAX_HEADERS_PER_BATCH_LIMIT_def REQUIRED_DIFFICULTY_HISTORY_def)

lemma decode_snapshot_sound:
  fixes C :: "('h, 'w :: linorder, 'x) consensus"
  assumes laws: "snapshot_laws C W blake2b" and D: "decoder_laws D view"
    and ok: "decode_authenticated_snapshot C D W blake2b input n floor = Inr c"
  shows "lc_network c = n \<and> snapshot_ready C W floor c \<and>
    input = snapshot_payload C W c @ snapshot_checksum blake2b (snapshot_payload C W c)"
proof -
  let ?payload = "take (length input - 32) input"
  from ok obtain d1 d2 i d3 mx d4 ct d5 d6 where
    sum: "drop (length input - 32) input = snapshot_checksum blake2b ?payload"
    and 1: "de_read_slice D (de_new D ?payload) (length LIGHT_CHAIN_SNAPSHOT_MAGIC) = Inr (LIGHT_CHAIN_SNAPSHOT_MAGIC, d1)"
      "de_read_u16_le D d1 = Inr (LIGHT_CHAIN_SNAPSHOT_SCHEMA, d2)" "de_read_u8 D d2 = Inr (i, d3)"
      "decode_network i = (Inr n :: ('x light_chain_error, light_network) result)" "de_read_u32_le D d3 = Inr (mx, d4)"
      "de_read_u16_le D d4 = Inr (ct, d5)" "decode_entries D W (unat ct) d5 = Inr (lc_history c, d6)" "de_finish D d6 = Inr ()"
    and lim: "chain_limits_validate \<lparr>max_headers_per_batch = unat mx\<rparr> = (Inr (lc_limits c) :: ('x light_chain_error, chain_limits) result)"
    and hist: "validate_snapshot_history C W n (lc_limits c) (lc_history c) floor = Inr ()"
    and c: "lc_network c = n" "lc_tip c = last (lc_history c)"
    by (auto simp: decode_authenticated_snapshot_def Let_def result_inv split: if_splits)
  note L = decoder_lawsD [OF D]
  have W: "work_laws W" using laws by (simp add: snapshot_laws_def)
  note E = decode_entries_takes [OF decode_header_entry_takes [OF D W]]
  have mx: "max_headers_per_batch (lc_limits c) = unat mx" "snapshot_ready C W floor c"
    using lim hist c takesD [OF E 1(7)] by (auto simp: chain_limits_validate_iff validate_history_iff snapshot_ready_def)
  moreover have "i = cs_network_id C n" using 1(4) decode_network_iff [OF laws] by blast
  ultimately have "?payload = snapshot_payload C W c"
    using takesD [OF L(3) 1(1)] takesD [OF L(5) 1(2)] takesD [OF L(2) 1(3)] takesD [OF L(6) 1(5)] takesD [OF L(5) 1(6)]
      takesD [OF E 1(7)] 1(8) c(1) by (simp add: L(1,8) snapshot_payload_def)
  with sum mx(2) c(1) show ?thesis by (metis append_take_drop_id)
qed

lemma decode_snapshot_complete:
  fixes C :: "('h, 'w :: linorder, 'x) consensus"
  assumes laws: "snapshot_laws C W blake2b" and D: "decoder_laws D view" and ready: "snapshot_ready C W floor c"
    and input: "input = snapshot_payload C W c @ snapshot_checksum blake2b (snapshot_payload C W c)"
    and size: "length input \<le> MAX_LIGHT_CHAIN_SNAPSHOT_BYTES"
  shows "decode_authenticated_snapshot C D W blake2b input (lc_network c) floor = Inr c"
proof -
  note L = decoder_lawsD [OF D]
  have W: "work_laws W" using laws by (simp add: snapshot_laws_def)
  note E = decode_entries_takes [OF decode_header_entry_takes [OF D W]]
  have len: "length (lc_history c) \<le> REQUIRED_DIFFICULTY_HISTORY" "max_headers_per_batch (lc_limits c) \<le> MAX_HEADERS_PER_BATCH_LIMIT"
    using ready by (simp_all add: snapshot_ready_def)
  define mx ct where "mx = (of_nat (max_headers_per_batch (lc_limits c)) :: u32)" and "ct = (of_nat (length (lc_history c)) :: u16)"
  have num: "unat mx = max_headers_per_batch (lc_limits c)" "unat ct = length (lc_history c)"
    using len by (simp_all add: mx_def ct_def snapshot_numbers)
  let ?es = "concat (map (entry_wire W) (lc_history c))" and ?p = "snapshot_payload C W c"
  have p: "view (de_new D ?p) = LIGHT_CHAIN_SNAPSHOT_MAGIC @ le_bytes 2 LIGHT_CHAIN_SNAPSHOT_SCHEMA @
      [cs_network_id C (lc_network c)] @ le_bytes 4 mx @ le_bytes 2 ct @ ?es" by (simp add: L(1) snapshot_payload_def mx_def ct_def)
  obtain d1 where 1: "de_read_slice D (de_new D ?p) (length LIGHT_CHAIN_SNAPSHOT_MAGIC) = Inr (LIGHT_CHAIN_SNAPSHOT_MAGIC, d1)"
    and v1: "view d1 = le_bytes 2 LIGHT_CHAIN_SNAPSHOT_SCHEMA @ [cs_network_id C (lc_network c)] @ le_bytes 4 mx @ le_bytes 2 ct @ ?es"
    using takesI [OF L(3) p] by blast
  obtain d2 where 2: "de_read_u16_le D d1 = Inr (LIGHT_CHAIN_SNAPSHOT_SCHEMA, d2)"
    and v2: "view d2 = [cs_network_id C (lc_network c)] @ le_bytes 4 mx @ le_bytes 2 ct @ ?es" using takesI [OF L(5) v1] by blast
  obtain d3 where 3: "de_read_u8 D d2 = Inr (cs_network_id C (lc_network c), d3)"
    and v3: "view d3 = le_bytes 4 mx @ le_bytes 2 ct @ ?es" using takesI [OF L(2) v2] by blast
  obtain d4 where 4: "de_read_u32_le D d3 = Inr (mx, d4)" and v4: "view d4 = le_bytes 2 ct @ ?es" using takesI [OF L(6) v3] by blast
  obtain d5 where 5: "de_read_u16_le D d4 = Inr (ct, d5)" and v5: "view d5 = ?es @ []" using takesI [OF L(5) v4] by auto
  obtain d6 where 6: "decode_entries D W (unat ct) d5 = Inr (lc_history c, d6)" and "view d6 = []"
    using takesI [OF E v5, of "unat ct"] ready by (auto simp: num snapshot_ready_def)
  then have 7: "de_finish D d6 = Inr ()" by (simp add: L(8))
  have "decode_network (cs_network_id C (lc_network c)) = (Inr (lc_network c) :: ('x light_chain_error, light_network) result)"
    using decode_network_iff [OF laws] by blast
  moreover have "chain_limits_validate \<lparr>max_headers_per_batch = unat mx\<rparr> = (Inr (lc_limits c) :: ('x light_chain_error, chain_limits) result)"
    using ready num by (simp add: chain_limits_validate_iff snapshot_ready_def)
  moreover have "validate_snapshot_history C W (lc_network c) (lc_limits c) (lc_history c) floor = Inr ()"
    using ready by (auto simp: validate_history_iff snapshot_ready_def)
  moreover have "take (length input - 32) input = ?p" "drop (length input - 32) input = snapshot_checksum blake2b ?p" "32 \<le> length input"
    using input laws by (simp_all add: snapshot_laws_def snapshot_checksum_def blake2b_256_def)
  moreover have "0 < unat ct \<and> unat ct \<le> REQUIRED_DIFFICULTY_HISTORY" "lc_tip c = last (lc_history c)"
    using ready len num by (simp_all add: snapshot_ready_def REQUIRED_DIFFICULTY_HISTORY_def)
  ultimately show ?thesis using 1 2 3 4 5 6 7 size
    by (simp add: decode_authenticated_snapshot_def Let_def)
qed

lemma snapshot_ready_wf:
  assumes C: "consensus_laws C" and ready: "snapshot_ready C W floor c"
  shows "chain_wf C c"
proof -
  have "he_hash (hd (lc_history c)) = cs_genesis_hash C (lc_network c)" if h: "he_height (hd (lc_history c)) = 0"
  proof -
    from ready h obtain g where g: "from_genesis C (lc_network c) (cs_genesis_time C (lc_network c)) (lc_limits c) = Inr g"
      "hd (lc_history c) = lc_tip g" by (auto simp: snapshot_ready_def)
    with from_genesis_wf [OF C g(1)] show ?thesis
      using C by (auto simp: from_genesis_def Let_def result_inv entry_from_header_def consensus_laws_def)
  qed
  with ready show ?thesis by (auto simp: snapshot_ready_def chain_wf_def)
qed

section \<open>Sample\<close>

definition sample_consensus :: "(hash \<times> hash, 256 word, unit) consensus" where
  "sample_consensus =
     \<lparr>cs_network_id = (\<lambda>n. case n of MainNet \<Rightarrow> 0 | TestNet \<Rightarrow> 1 | RegTest \<Rightarrow> 2 | SimNet \<Rightarrow> 3),
      cs_genesis_header = (\<lambda>_. (hash_zero, replicate 32 1)), cs_genesis_hash = (\<lambda>_. replicate 32 1),
      cs_genesis_time = (\<lambda>_. 5), cs_pow_bits = (\<lambda>_. 7), cs_target_window = (\<lambda>_. 144),
      cs_validate_header = (\<lambda>_ h ctx. if fst h = ctx_previous_block ctx then Inr 1 else Inl ()),
      cs_expected_next_bits = (\<lambda>_ _ tip _ _. Inr (dp_bits tip)),
      cs_work_add = (\<lambda>a b. if a < a + b then Inr (a + b) else Inl ()),
      cs_block_hash = snd, cs_previous_block = fst, cs_tree_root = fst, cs_merkle_root = snd,
      cs_time = (\<lambda>_. 5), cs_bits = (\<lambda>_. 7)\<rparr>"

definition word_work :: "256 word work_lib" where
  "word_work = \<lparr>wk_zero = 0, wk_to_be_bytes = be_bytes 32, wk_from_be_bytes = be_word\<rparr>"

definition zero_digest :: digest where
  "zero_digest bs = replicate 32 0"

definition sample_tip :: "256 word header_entry" where
  "sample_tip = \<lparr>he_height = 0, he_hash = replicate 32 1, he_previous_block = hash_zero, he_tree_root = hash_zero,
     he_merkle_root = replicate 32 1, he_time = 5, he_bits = 7, he_chainwork = 1\<rparr>"

definition sample_light_chain :: "256 word light_chain" where
  "sample_light_chain = \<lparr>lc_network = RegTest, lc_limits = \<lparr>max_headers_per_batch = 2\<rparr>, lc_history = [sample_tip], lc_tip = sample_tip\<rparr>"

definition sample_floor :: "256 word chain_snapshot_floor" where
  "sample_floor = \<lparr>sf_minimum_height = 0, sf_minimum_chainwork = 1\<rparr>"

lemma sample_snapshot_laws: "snapshot_laws sample_consensus word_work zero_digest"
  by (simp add: snapshot_laws_def sample_consensus_def work_laws_def word_work_def be_word_be_bytes be_bytes_be_word zero_digest_def)

lemma sample_consensus_laws: "consensus_laws sample_consensus"
  by (simp add: consensus_laws_def sample_consensus_def)

lemma sample_genesis: "from_genesis sample_consensus RegTest 5 \<lparr>max_headers_per_batch = 2\<rparr> = Inr sample_light_chain"
  by (simp add: from_genesis_def chain_limits_validate_def MAX_HEADERS_PER_BATCH_LIMIT_def sample_consensus_def
      entry_from_header_def sample_light_chain_def sample_tip_def Let_def)

lemma sample_ready: "snapshot_ready sample_consensus word_work sample_floor sample_light_chain"
proof -
  have "cs_genesis_time sample_consensus RegTest = 5" by (simp add: sample_consensus_def)
  then show ?thesis using sample_genesis
    by (simp add: snapshot_ready_def sample_light_chain_def sample_tip_def sample_floor_def entry_sized_def entry_live_def
        word_work_def hash_zero_def REQUIRED_DIFFICULTY_HISTORY_def MAX_HEADERS_PER_BATCH_LIMIT_def)
qed

section \<open>Properties\<close>

text \<open>C8: A checkpoint is restored exactly when it is the encoding of the restored chain, and that chain is of the expected
  network, complete, linked, sized, live, anchored at the genesis block if it reaches it, and not below the
  floor.  So every such chain survives being stored, and nothing else is ever restored.\<close>

theorem snapshot_exact:
  assumes laws: "snapshot_laws C W blake2b" and D: "decoder_laws D view" and E: "encoder_laws E"
  shows "decode_authenticated_snapshot C D W blake2b input n floor = Inr c \<longleftrightarrow>
    lc_network c = n \<and> snapshot_ready C W floor c \<and> encode_authenticated_snapshot C E W blake2b c = Inr input"
proof -
  have enc: "encode_authenticated_snapshot C E W blake2b c = Inr (snapshot_payload C W c @ snapshot_checksum blake2b (snapshot_payload C W c))"
    if "snapshot_ready C W floor c"
    using that laws by (intro encode_snapshot_eq [OF E]) (auto simp: snapshot_ready_def snapshot_laws_def)
  have size: "length input \<le> MAX_LIGHT_CHAIN_SNAPSHOT_BYTES" if "encode_authenticated_snapshot C E W blake2b c = Inr input"
    using that by (auto simp: encode_authenticated_snapshot_def Let_def split: if_splits)
  show ?thesis
  proof
    assume "decode_authenticated_snapshot C D W blake2b input n floor = Inr c"
    with decode_snapshot_sound [OF laws D this] enc
    show "lc_network c = n \<and> snapshot_ready C W floor c \<and> encode_authenticated_snapshot C E W blake2b c = Inr input" by simp
  next
    assume r: "lc_network c = n \<and> snapshot_ready C W floor c \<and> encode_authenticated_snapshot C E W blake2b c = Inr input"
    with enc have "input = snapshot_payload C W c @ snapshot_checksum blake2b (snapshot_payload C W c)" by simp
    with decode_snapshot_complete [OF laws D _ this] r size
    show "decode_authenticated_snapshot C D W blake2b input n floor = Inr c" by blast
  qed
qed

theorem snapshot_exact_witness:
  "\<exists>input. encode_authenticated_snapshot sample_consensus list_encoder word_work zero_digest sample_light_chain = Inr input \<and>
     decode_authenticated_snapshot sample_consensus list_decoder word_work zero_digest input RegTest sample_floor = Inr sample_light_chain"
proof -
  have "\<exists>input. encode_authenticated_snapshot sample_consensus list_encoder word_work zero_digest sample_light_chain =
      (Inr input :: (unit light_chain_error, bytes) result)"
    using sample_ready sample_snapshot_laws
    by (subst encode_snapshot_eq [OF list_encoder_laws]) (auto simp: snapshot_ready_def snapshot_laws_def)
  moreover have "lc_network sample_light_chain = RegTest" by (simp add: sample_light_chain_def)
  ultimately show ?thesis
    using snapshot_exact [OF sample_snapshot_laws list_decoder_laws list_encoder_laws] sample_ready by blast
qed

text \<open>A restored chain satisfies the invariant of the header chain, so it keeps satisfying it under every further
  sequence of operations, and its tip never falls below the floor it was restored with.\<close>

lemma restored_chain_invariant:
  assumes C: "consensus_laws C" and laws: "snapshot_laws C W blake2b" and D: "decoder_laws D view"
    and ok: "decode_authenticated_snapshot C D W blake2b input n floor = Inr c"
  shows "chain_wf C (foldl (light_exec C) c ops) \<and>
    sf_minimum_height floor \<le> he_height (lc_tip (foldl (light_exec C) c ops)) \<and> sf_minimum_chainwork floor \<le> he_chainwork (lc_tip c)"
proof -
  have ready: "snapshot_ready C W floor c" using decode_snapshot_sound [OF laws D ok] by blast
  have inv: "consensus_laws C \<and> chain_wf C c" using C snapshot_ready_wf [OF C ready] by blast
  have "he_height (lc_tip c) \<le> he_height (lc_tip (foldl (light_exec C) c ops))"
    using header_chain.run_rank [OF inv, of ops] by (simp add: word_le_nat_alt)
  moreover have "sf_minimum_height floor \<le> he_height (lc_tip c)" "sf_minimum_chainwork floor \<le> he_chainwork (lc_tip c)"
    using ready unfolding snapshot_ready_def by blast+
  ultimately show ?thesis using header_chain.run_inv [OF inv, of ops] by auto
qed

lemma restored_chain_invariant_witness:
  "chain_wf sample_consensus (foldl (light_exec sample_consensus) sample_light_chain [DoAppend (replicate 32 1, replicate 32 2) 9])"
proof -
  obtain input where "decode_authenticated_snapshot sample_consensus list_decoder word_work zero_digest input
      (lc_network sample_light_chain) sample_floor = Inr sample_light_chain"
    using decode_snapshot_complete [OF sample_snapshot_laws list_decoder_laws sample_ready refl]
    by (auto simp: snapshot_payload_def sample_light_chain_def snapshot_checksum_def blake2b_256_def zero_digest_def
        MAX_LIGHT_CHAIN_SNAPSHOT_BYTES_def length_magic entry_wire_def word_work_def sample_tip_def hash_zero_def)
  then show ?thesis by (rule restored_chain_invariant [OF sample_consensus_laws sample_snapshot_laws list_decoder_laws, THEN conjunct1])
qed

end
