(* ===== verification/Hns_Resource.thy ===== *)
theory Hns_Resource
  imports Light_Chain Ip_Addr Hns_Encoding
begin

unbundle bit_operations_syntax

text \<open>
  Name resources of the light chain (src/crates/hns-light-chain/src/lib.rs): the reader of HSD resources with
  its compressed names, the decoder of committed name states and the verification of one name against a
  currency-checked anchor.

  The crates hns-covenants and hns-urkel-proof are not part of the repository; the operations used of them
  are the fields of \<open>name_lib\<close>, an argument of the definitions that call them.
\<close>

section \<open>Interfaces of the external crates\<close>

record ('p, 'x) name_lib =
  nl_max_resource_size :: usize
  nl_hash_name :: "bytes \<Rightarrow> ('x, hash) result"
  nl_validate_name :: "bytes \<Rightarrow> bool"
  nl_resource_new :: "bytes \<Rightarrow> ('x, unit) result"
  nl_proof_decode :: "bytes \<Rightarrow> ('x, 'p) result"
  nl_proof_verify :: "'p \<Rightarrow> hash \<Rightarrow> hash \<Rightarrow> ('x, bytes option) result"

section \<open>Resources\<close>

definition MAX_KNOWN_RESOURCE_KIND :: u8 where "MAX_KNOWN_RESOURCE_KIND = 6"

definition NAME_STATE_KNOWN_FIELD_BITS :: u16 where "NAME_STATE_KNOWN_FIELD_BITS = 0x03ff"

definition MAX_RESOURCE_NAME_LABELS :: usize where "MAX_RESOURCE_NAME_LABELS = 127"

definition MAX_RESOURCE_NAME_JUMPS :: usize where "MAX_RESOURCE_NAME_JUMPS = 16"

datatype resource_name = ResourceName (rn_labels: "bytes list")

record delegation_signer =
  sg_key_tag :: u16
  sg_algorithm :: u8
  sg_digest_type :: u8
  sg_digest :: bytes

datatype hns_resource_record =
  HrDs delegation_signer | HrNs resource_name | HrGlue4 resource_name ipv4_addr | HrGlue6 resource_name ipv6_addr
| HrSynth4 ipv4_addr | HrSynth6 ipv6_addr | HrTxt "bytes list"

record hns_resource =
  hr_raw :: bytes
  hr_records :: "hns_resource_record list"

record resource_reader =
  rx_input :: bytes
  rx_position :: usize
  rx_known_name_offsets :: "usize list"

type_synonym ('x, 'a) reading = "('x light_chain_error, 'a \<times> resource_reader) result"

definition resource_reader_new :: "bytes \<Rightarrow> resource_reader" where
  "resource_reader_new input = \<lparr>rx_input = input, rx_position = 0, rx_known_name_offsets = []\<rparr>"

definition is_finished :: "resource_reader \<Rightarrow> bool" where
  "is_finished r \<longleftrightarrow> rx_position r = length (rx_input r)"

definition reader_read_array :: "usize \<Rightarrow> resource_reader \<Rightarrow> ('x, bytes) reading" where
  "reader_read_array len r =
     rbind (ok_or ResourceTruncated (usize_add (rx_position r) len)) (\<lambda>stop.
     rbind (ok_or ResourceTruncated (slice_range (rx_input r) (rx_position r) stop)) (\<lambda>bs.
     Inr (bs, r\<lparr>rx_position := stop\<rparr>)))"

definition reader_read_u8 :: "resource_reader \<Rightarrow> ('x, u8) reading" where
  "reader_read_u8 r = rbind (reader_read_array 1 r) (\<lambda>(bs, r). Inr (bs ! 0, r))"

definition reader_read_u16_be :: "resource_reader \<Rightarrow> ('x, u16) reading" where
  "reader_read_u16_be r = rbind (reader_read_array 2 r) (\<lambda>(bs, r). Inr (be_word bs, r))"

definition read_length_prefixed_bytes :: "resource_reader \<Rightarrow> ('x, bytes) reading" where
  "read_length_prefixed_bytes r =
     rbind (reader_read_u8 r) (\<lambda>(len, r). reader_read_array (unat len) r)"

lemma fresh_card:
  assumes "cursor \<notin> set visited" and "cursor < (n :: nat)"
  shows "card ({..<n} - set (visited @ [cursor])) < card ({..<n} - set visited)"
proof -
  have "{..<n} - set (visited @ [cursor]) = ({..<n} - set visited) - {cursor}" by auto
  moreover have "card (({..<n} - set visited) - {cursor}) < card ({..<n} - set visited)"
    using assms by (intro card_Diff1_less) simp_all
  ultimately show ?thesis by (simp only:)
qed

function resource_name_loop ::
  "bytes \<Rightarrow> usize list \<Rightarrow> usize \<Rightarrow> usize option \<Rightarrow> bytes list \<Rightarrow> usize \<Rightarrow> usize \<Rightarrow> usize list \<Rightarrow>
   ('x light_chain_error, bytes list \<times> usize \<times> usize list) result"
where
  "resource_name_loop input known cursor resume ls expanded jumps visited =
     (if cursor \<in> set visited then Inl ResourceNameCompressionLoop
      else rbind (ok_or ResourceTruncated (slice_get input cursor)) (\<lambda>len.
      if len AND 0xc0 = 0xc0 then
        rbind (ok_or ResourceTruncated (slice_get input (cursor + 1))) (\<lambda>second.
        let target = push_bit 8 (unat (len AND 0x3f)) OR unat second in
        if cursor \<le> target \<or> target \<notin> set known then Inl InvalidResourceNamePointer
        else if jumps + 1 > MAX_RESOURCE_NAME_JUMPS then Inl ResourceNameJumpLimit
        else resource_name_loop input known target
               (case resume of None \<Rightarrow> Some (cursor + 2) | Some r \<Rightarrow> Some r) ls expanded (jumps + 1) (visited @ [cursor]))
      else if len AND 0xc0 \<noteq> 0 then Inl InvalidResourceName
      else if len = 0 then
        Inr (ls, (case resume of None \<Rightarrow> cursor + 1 | Some r \<Rightarrow> r), known @ [cursor])
      else if unat len > 63 \<or> length ls \<ge> MAX_RESOURCE_NAME_LABELS then Inl InvalidResourceName
      else rbind (ok_or InvalidResourceName (usize_add expanded (unat len + 1))) (\<lambda>expanded.
        if expanded > 255 then Inl InvalidResourceName
        else rbind (ok_or ResourceTruncated (usize_add (cursor + 1) (unat len))) (\<lambda>stop.
        rbind (ok_or ResourceTruncated (slice_range input (cursor + 1) stop)) (\<lambda>label.
        resource_name_loop input (known @ [cursor]) stop resume (ls @ [label]) expanded jumps (visited @ [cursor]))))))"
  by pat_completeness auto

termination
proof (relation "measure (\<lambda>(input, known, cursor, resume, ls, expanded, jumps, visited).
    card ({..<length input} - set visited))", goal_cases)
  case 1
  then show ?case by simp
next
  case (2 input known cursor resume ls expanded jumps visited)
  then show ?case by (auto simp: result_inv simp del: set_append intro!: fresh_card)
next
  case (3 input known cursor resume ls expanded jumps visited)
  then show ?case by (auto simp: result_inv simp del: set_append intro!: fresh_card)
qed

declare resource_name_loop.simps [simp del]

definition reader_read_name :: "resource_reader \<Rightarrow> ('x, resource_name) reading" where
  "reader_read_name r =
     rbind (resource_name_loop (rx_input r) (rx_known_name_offsets r) (rx_position r) None [] 1 0 []) (\<lambda>(ls, pos, known).
     Inr (ResourceName ls, r\<lparr>rx_position := pos, rx_known_name_offsets := known\<rparr>))"

fun read_strings :: "nat \<Rightarrow> resource_reader \<Rightarrow> ('x, bytes list) reading" where
  "read_strings 0 r = Inr ([], r)"
| "read_strings (Suc n) r =
     rbind (read_length_prefixed_bytes r) (\<lambda>(s, r).
     rbind (read_strings n r) (\<lambda>(ss, r). Inr (s # ss, r)))"

text \<open>The addresses are built from the four or sixteen bytes that \<open>read_array\<close> returns.\<close>

definition read_ipv4 :: "resource_reader \<Rightarrow> ('x, ipv4_addr) reading" where
  "read_ipv4 r = rbind (reader_read_array 4 r) (\<lambda>(bs, r). Inr (the (v4_from_octets bs), r))"

definition read_ipv6 :: "resource_reader \<Rightarrow> ('x, ipv6_addr) reading" where
  "read_ipv6 r = rbind (reader_read_array 16 r) (\<lambda>(bs, r). Inr (the (v6_from_octets bs), r))"

definition read_resource_record ::
  "u8 \<Rightarrow> resource_reader \<Rightarrow> ('x, hns_resource_record) reading" where
  "read_resource_record kind r =
     (if kind = 0 then
        rbind (reader_read_u16_be r) (\<lambda>(key_tag, r).
        rbind (reader_read_u8 r) (\<lambda>(algorithm, r).
        rbind (reader_read_u8 r) (\<lambda>(digest_type, r).
        rbind (read_length_prefixed_bytes r) (\<lambda>(digest, r).
        Inr (HrDs \<lparr>sg_key_tag = key_tag, sg_algorithm = algorithm, sg_digest_type = digest_type, sg_digest = digest\<rparr>, r)))))
      else if kind = 1 then rbind (reader_read_name r) (\<lambda>(name, r). Inr (HrNs name, r))
      else if kind = 2 then
        rbind (reader_read_name r) (\<lambda>(name, r). rbind (read_ipv4 r) (\<lambda>(address, r). Inr (HrGlue4 name address, r)))
      else if kind = 3 then
        rbind (reader_read_name r) (\<lambda>(name, r). rbind (read_ipv6 r) (\<lambda>(address, r). Inr (HrGlue6 name address, r)))
      else if kind = 4 then rbind (read_ipv4 r) (\<lambda>(address, r). Inr (HrSynth4 address, r))
      else if kind = 5 then rbind (read_ipv6 r) (\<lambda>(address, r). Inr (HrSynth6 address, r))
      else
        rbind (reader_read_u8 r) (\<lambda>(count, r).
        rbind (read_strings (unat count) r) (\<lambda>(strings, r). Inr (HrTxt strings, r))))"

lemma reader_read_u8_Inr:
  "reader_read_u8 r = Inr (b, r') \<Longrightarrow> rx_position r < length (rx_input r) \<and> rx_position r' = rx_position r + 1 \<and> rx_input r' = rx_input r"
  by (auto simp: reader_read_u8_def reader_read_array_def result_inv slice_range_eq_Some)

section \<open>What a name denotes\<close>

text \<open>
  \<open>name_at input c ls p\<close>: the compressed name at offset \<open>c\<close> spells the labels \<open>ls\<close>, and its own bytes end
  before offset \<open>p\<close>.
\<close>

inductive name_at :: "bytes \<Rightarrow> usize \<Rightarrow> bytes list \<Rightarrow> usize \<Rightarrow> bool" for input where
  name_at_root: "c < length input \<Longrightarrow> input ! c = 0 \<Longrightarrow> name_at input c [] (c + 1)"
| name_at_label:
    "input ! c = len \<Longrightarrow> len \<noteq> 0 \<Longrightarrow> len AND 0xc0 = 0 \<Longrightarrow> c + 1 + unat len \<le> length input \<Longrightarrow>
     name_at input (c + 1 + unat len) ls p \<Longrightarrow>
     name_at input c (take (unat len) (drop (c + 1) input) # ls) p"
| name_at_pointer:
    "c + 1 < length input \<Longrightarrow> input ! c AND 0xc0 = 0xc0 \<Longrightarrow>
     target = push_bit 8 (unat (input ! c AND 0x3f)) OR unat (input ! (c + 1)) \<Longrightarrow> target < c \<Longrightarrow>
     name_at input target ls q \<Longrightarrow> name_at input c ls (c + 2)"

lemma resource_name_loop_cases [consumes 1, case_names root label pointer]:
  assumes "resource_name_loop input known cursor resume ls expanded jumps visited =
     (Inr (out, p, known') :: ('x light_chain_error, bytes list \<times> usize \<times> usize list) result)"
  obtains "cursor < length input" "input ! cursor = 0" "out = ls"
      "p = (case resume of None \<Rightarrow> cursor + 1 | Some r \<Rightarrow> r)" "known' = known @ [cursor]"
  | len where "cursor \<notin> set visited" "input ! cursor = len" "len \<noteq> 0" "len AND 0xc0 = 0" "unat len \<le> 63"
      "cursor + 1 + unat len \<le> length input" "length ls < MAX_RESOURCE_NAME_LABELS" "expanded + (unat len + 1) \<le> 255"
      "resource_name_loop input (known @ [cursor]) (cursor + 1 + unat len) resume
         (ls @ [take (unat len) (drop (cursor + 1) input)]) (expanded + (unat len + 1)) jumps (visited @ [cursor])
       = (Inr (out, p, known') :: ('x light_chain_error, bytes list \<times> usize \<times> usize list) result)"
  | target where "cursor \<notin> set visited" "cursor + 1 < length input" "input ! cursor AND 0xc0 = 0xc0"
      "target = push_bit 8 (unat (input ! cursor AND 0x3f)) OR unat (input ! (cursor + 1))" "target < cursor"
      "target \<in> set known" "jumps < MAX_RESOURCE_NAME_JUMPS"
      "resource_name_loop input known target (case resume of None \<Rightarrow> Some (cursor + 2) | Some r \<Rightarrow> Some r)
         ls expanded (jumps + 1) (visited @ [cursor])
       = (Inr (out, p, known') :: ('x light_chain_error, bytes list \<times> usize \<times> usize list) result)"
  using assms
  by (subst (asm) resource_name_loop.simps)
    (auto simp: result_inv Let_def slice_get_def slice_range_def split: if_splits)

definition expanded_len :: "bytes list \<Rightarrow> nat" where
  "expanded_len ls = sum_list (map (\<lambda>l. length l + 1) ls)"

definition label_ok :: "bytes \<Rightarrow> bool" where
  "label_ok l \<longleftrightarrow> 1 \<le> length l \<and> length l \<le> 63"

lemma expanded_len_simps [simp]: "expanded_len [] = 0" "expanded_len (l # ls) = length l + 1 + expanded_len ls"
  by (simp_all add: expanded_len_def)

lemma resource_name_loop_sound:
  assumes "resource_name_loop input known cursor resume ls expanded jumps visited =
     (Inr (out, p, known') :: ('x light_chain_error, bytes list \<times> usize \<times> usize list) result)"
    and "expanded \<le> 255"
  shows "\<exists>tail q. out = ls @ tail \<and> name_at input cursor tail q \<and> list_all label_ok tail \<and>
     expanded + expanded_len tail \<le> 255 \<and> p = (case resume of None \<Rightarrow> q | Some r \<Rightarrow> r)"
  using assms
proof (induction "card ({..<length input} - set visited)" arbitrary: known cursor resume ls expanded jumps visited rule: less_induct)
  case less
  from less.prems(1) show ?case
  proof (cases rule: resource_name_loop_cases)
    case root
    then show ?thesis using less.prems(2) by (auto intro: name_at_root)
  next
    case (label len)
    let ?l = "take (unat len) (drop (cursor + 1) input)"
    from less.hyps [OF fresh_card label(9) label(8)] label obtain tail q where
      "out = ls @ ?l # tail" and tail: "name_at input (cursor + 1 + unat len) tail q" "list_all label_ok tail"
      "expanded + (unat len + 1) + expanded_len tail \<le> 255" and "p = (case resume of None \<Rightarrow> q | Some r \<Rightarrow> r)"
      by auto
    moreover have "name_at input cursor (?l # tail) q" using label tail(1) by (intro name_at_label) simp_all
    moreover have "length ?l = unat len" using label(6) by simp
    moreover have "label_ok ?l"
      using label(3,5) \<open>length ?l = unat len\<close> unat_gt_0 [of len] by (simp add: label_ok_def)
    ultimately show ?thesis by (intro exI [of _ "?l # tail"] exI [of _ q]) simp
  next
    case (pointer target)
    from less.hyps [OF fresh_card pointer(8) less.prems(2)] pointer obtain tail q where
      "out = ls @ tail" "name_at input target tail q" "list_all label_ok tail" "expanded + expanded_len tail \<le> 255"
      "p = (case resume of None \<Rightarrow> cursor + 2 | Some r \<Rightarrow> r)"
      by (auto split: option.splits)
    with pointer show ?thesis by (blast intro: name_at_pointer)
  qed
qed

lemma name_at_bounds: "name_at input c ls p \<Longrightarrow> c < p \<and> p \<le> length input"
  by (induction rule: name_at.induct) auto

definition wf_resource_name :: "resource_name \<Rightarrow> bool" where
  "wf_resource_name n \<longleftrightarrow> list_all label_ok (rn_labels n) \<and> expanded_len (rn_labels n) + 1 \<le> 255"

lemma reader_read_name_sound:
  assumes "reader_read_name r = (Inr (n, r') :: ('x, resource_name) reading)"
  shows "rx_input r' = rx_input r \<and> name_at (rx_input r) (rx_position r) (rn_labels n) (rx_position r') \<and> wf_resource_name n"
  using assms
  by (auto simp: reader_read_name_def result_inv wf_resource_name_def dest!: resource_name_loop_sound)

section \<open>What a resource denotes\<close>

text \<open>\<open>bytes_at input c bs p\<close>: the bytes \<open>bs\<close> stand at \<open>c\<close> and end before \<open>p\<close>.\<close>

definition bytes_at :: "bytes \<Rightarrow> usize \<Rightarrow> bytes \<Rightarrow> usize \<Rightarrow> bool" where
  "bytes_at input c bs p \<longleftrightarrow> p = c + length bs \<and> p \<le> length input \<and> take (length bs) (drop c input) = bs"

lemma bytes_at_append:
  "bytes_at input c xs q \<Longrightarrow> bytes_at input q ys p \<Longrightarrow> bytes_at input c (xs @ ys) p"
  by (auto simp: bytes_at_def take_add [symmetric] add.commute) (metis add.commute take_add drop_drop)

lemma reader_read_array_sound:
  "reader_read_array len r = Inr (bs, r') \<Longrightarrow> rx_input r' = rx_input r \<and> length bs = len \<and>
     bytes_at (rx_input r) (rx_position r) bs (rx_position r')"
  by (auto simp: reader_read_array_def result_inv slice_range_eq_Some bytes_at_def)

lemma reader_read_u8_sound:
  "reader_read_u8 r = Inr (b, r') \<Longrightarrow> rx_input r' = rx_input r \<and> bytes_at (rx_input r) (rx_position r) [b] (rx_position r')"
  by (auto simp: reader_read_u8_def result_inv length_Suc_conv dest!: reader_read_array_sound)

definition prefixed :: "bytes \<Rightarrow> bytes" where
  "prefixed s = of_nat (length s) # s"

lemma read_length_prefixed_bytes_sound:
  assumes "read_length_prefixed_bytes r = (Inr (bs, r') :: ('x, bytes) reading)"
  shows "rx_input r' = rx_input r \<and> length bs < 256 \<and> bytes_at (rx_input r) (rx_position r) (prefixed bs) (rx_position r')"
proof -
  from assms obtain len r1 where 1: "reader_read_u8 r = (Inr (len, r1) :: ('x, u8) reading)"
    and 2: "reader_read_array (unat len) r1 = (Inr (bs, r') :: ('x, bytes) reading)"
    by (auto simp: read_length_prefixed_bytes_def result_inv)
  from reader_read_u8_sound [OF 1] reader_read_array_sound [OF 2] bytes_at_append [of _ _ "[len]" _ bs]
  show ?thesis using unsigned_less [where 'a = nat, of len] by (auto simp: prefixed_def)
qed

lemma read_strings_sound:
  "read_strings n r = (Inr (ss, r') :: ('x, bytes list) reading) \<Longrightarrow> rx_position r \<le> length (rx_input r) \<Longrightarrow> rx_input r' = rx_input r \<and> length ss = n \<and> (\<forall>s \<in> set ss. length s < 256) \<and>
     bytes_at (rx_input r) (rx_position r) (concat (map prefixed ss)) (rx_position r')"
proof (induction n arbitrary: r ss)
  case 0
  then show ?case by (auto simp: bytes_at_def)
next
  case (Suc n)
  then obtain s r1 rest where 1: "read_length_prefixed_bytes r = (Inr (s, r1) :: ('x, bytes) reading)"
    and 2: "read_strings n r1 = (Inr (rest, r') :: ('x, bytes list) reading)" and ss: "ss = s # rest" by (auto simp: result_inv)
  note s = read_length_prefixed_bytes_sound [OF 1]
  then have "rx_position r1 \<le> length (rx_input r1)" by (auto simp: bytes_at_def)
  from Suc.IH [OF 2 this] s ss show ?case by (auto intro: bytes_at_append)
qed

lemma octets_of_bytes:
  "length bs = 4 \<Longrightarrow> v4_octets (the (v4_from_octets bs)) = bs"
  "length bs = 16 \<Longrightarrow> v6_octets (the (v6_from_octets bs)) = bs"
  by (cases bs rule: v4_from_octets.cases; simp) (cases bs rule: v6_from_octets.cases; simp add: v6_octets_from)

lemma read_address_sound:
  "read_ipv4 r = (Inr (a, r') :: ('x, ipv4_addr) reading) \<Longrightarrow> rx_input r' = rx_input r \<and> bytes_at (rx_input r) (rx_position r) (v4_octets a) (rx_position r')"
  "read_ipv6 r = (Inr (b, r') :: ('x, ipv6_addr) reading) \<Longrightarrow> rx_input r' = rx_input r \<and> bytes_at (rx_input r) (rx_position r) (v6_octets b) (rx_position r')"
  by (auto simp: read_ipv4_def read_ipv6_def result_inv octets_of_bytes
      dest!: reader_read_array_sound)

lemma reader_read_u16_be_sound:
  "reader_read_u16_be r = (Inr (w, r') :: ('x, u16) reading) \<Longrightarrow> rx_input r' = rx_input r \<and> bytes_at (rx_input r) (rx_position r) (be_bytes 2 w) (rx_position r')"
  by (auto simp: reader_read_u16_be_def result_inv be_bytes_be_word dest!: reader_read_array_sound)

fun record_at :: "bytes \<Rightarrow> usize \<Rightarrow> hns_resource_record \<Rightarrow> usize \<Rightarrow> bool" where
  "record_at input c (HrDs s) p \<longleftrightarrow> length (sg_digest s) < 256 \<and>
     bytes_at input c ([0] @ be_bytes 2 (sg_key_tag s) @ [sg_algorithm s] @ [sg_digest_type s] @ prefixed (sg_digest s)) p"
| "record_at input c (HrNs n) p \<longleftrightarrow> bytes_at input c [1] (c + 1) \<and> name_at input (c + 1) (rn_labels n) p"
| "record_at input c (HrGlue4 n a) p \<longleftrightarrow> bytes_at input c [2] (c + 1) \<and>
     (\<exists>q. name_at input (c + 1) (rn_labels n) q \<and> bytes_at input q (v4_octets a) p)"
| "record_at input c (HrGlue6 n a) p \<longleftrightarrow> bytes_at input c [3] (c + 1) \<and>
     (\<exists>q. name_at input (c + 1) (rn_labels n) q \<and> bytes_at input q (v6_octets a) p)"
| "record_at input c (HrSynth4 a) p \<longleftrightarrow> bytes_at input c ([4] @ v4_octets a) p"
| "record_at input c (HrSynth6 a) p \<longleftrightarrow> bytes_at input c ([5] @ v6_octets a) p"
| "record_at input c (HrTxt ss) p \<longleftrightarrow> length ss < 256 \<and> (\<forall>s \<in> set ss. length s < 256) \<and>
     bytes_at input c ([6] @ [of_nat (length ss)] @ concat (map prefixed ss)) p"

fun record_names :: "hns_resource_record \<Rightarrow> resource_name list" where
  "record_names (HrNs n) = [n]"
| "record_names (HrGlue4 n a) = [n]"
| "record_names (HrGlue6 n a) = [n]"
| "record_names _ = []"

lemma bytes_at_one: "bytes_at input c [b] p \<Longrightarrow> p = c + 1 \<and> c < length input"
  by (auto simp: bytes_at_def)

lemma u8_kinds: "(k :: u8) \<le> 6 \<Longrightarrow> k \<in> {0, 1, 2, 3, 4, 5, 6}"
  by (simp add: word_le_nat_alt word_unat_eq_iff) linarith

lemma read_ds_sound:
  assumes "rbind (reader_read_u16_be r) (\<lambda>(key_tag, r).
        rbind (reader_read_u8 r) (\<lambda>(algorithm, r).
        rbind (reader_read_u8 r) (\<lambda>(digest_type, r).
        rbind (read_length_prefixed_bytes r) (\<lambda>(digest, r).
        Inr (HrDs \<lparr>sg_key_tag = key_tag, sg_algorithm = algorithm, sg_digest_type = digest_type, sg_digest = digest\<rparr>, r)))))
      = (Inr (x, r') :: ('x, hns_resource_record) reading)"
    and c: "bytes_at (rx_input r) c [0] (rx_position r)"
  shows "rx_input r' = rx_input r \<and> record_at (rx_input r) c x (rx_position r') \<and> record_names x = []"
proof -
  from assms(1) obtain t r1 a r2 d r3 dg where
    1: "reader_read_u16_be r = (Inr (t, r1) :: ('x, u16) reading)" and 2: "reader_read_u8 r1 = (Inr (a, r2) :: ('x, u8) reading)"
    and 3: "reader_read_u8 r2 = (Inr (d, r3) :: ('x, u8) reading)"
    and 4: "read_length_prefixed_bytes r3 = (Inr (dg, r') :: ('x, bytes) reading)"
    and x: "x = HrDs \<lparr>sg_key_tag = t, sg_algorithm = a, sg_digest_type = d, sg_digest = dg\<rparr>"
    by (auto simp: result_inv)
  note s = reader_read_u16_be_sound [OF 1] reader_read_u8_sound [OF 2] reader_read_u8_sound [OF 3]
    read_length_prefixed_bytes_sound [OF 4]
  have "bytes_at (rx_input r) c ([0] @ be_bytes 2 t @ [a] @ [d] @ prefixed dg) (rx_position r')"
    using s by (intro bytes_at_append [OF c] bytes_at_append [of _ _ "be_bytes 2 t" "rx_position r1"]
        bytes_at_append [of _ _ "[a]" "rx_position r2"] bytes_at_append [of _ _ "[d]" "rx_position r3"]) simp_all
  with s x show ?thesis by simp
qed

lemma read_txt_sound:
  assumes "rbind (reader_read_u8 r) (\<lambda>(count, r).
        rbind (read_strings (unat count) r) (\<lambda>(strings, r). Inr (HrTxt strings, r)))
      = (Inr (x, r') :: ('x, hns_resource_record) reading)"
    and c: "bytes_at (rx_input r) c [6] (rx_position r)"
  shows "rx_input r' = rx_input r \<and> record_at (rx_input r) c x (rx_position r') \<and> record_names x = []"
proof -
  from assms(1) obtain n r1 ss where 1: "reader_read_u8 r = (Inr (n, r1) :: ('x, u8) reading)"
    and 2: "read_strings (unat n) r1 = (Inr (ss, r') :: ('x, bytes list) reading)" and x: "x = HrTxt ss"
    by (auto simp: result_inv)
  note n = reader_read_u8_sound [OF 1]
  then have "rx_position r1 \<le> length (rx_input r1)" by (auto simp: bytes_at_def)
  note s = read_strings_sound [OF 2 this]
  then have "bytes_at (rx_input r) c ([6] @ [of_nat (length ss)] @ concat (map prefixed ss)) (rx_position r')"
    using n by (intro bytes_at_append [OF c] bytes_at_append [of _ _ "[of_nat (length ss)]" "rx_position r1"]) simp_all
  with s n x unsigned_less [where 'a = nat, of n] show ?thesis by simp
qed

lemma read_resource_record_sound:
  assumes "read_resource_record kind r = (Inr (x, r') :: ('x, hns_resource_record) reading)"
    and c: "bytes_at (rx_input r) c [kind] (rx_position r)" and "kind \<le> 6"
  shows "rx_input r' = rx_input r \<and> record_at (rx_input r) c x (rx_position r') \<and> list_all wf_resource_name (record_names x)"
proof -
  have pos: "rx_position r = c + 1" using bytes_at_one [OF c] by simp
  consider "kind = 0" | "kind = 1" | "kind = 2" | "kind = 3" | "kind = 4" | "kind = 5" | "kind = 6"
    using u8_kinds [OF assms(3)] by blast
  then show ?thesis
  proof cases
    case 1
    with assms(1) c show ?thesis using read_ds_sound [of r x r' c] by (auto simp: read_resource_record_def)
  next
    case 2
    with assms(1) c pos show ?thesis by (auto simp: read_resource_record_def result_inv dest!: reader_read_name_sound)
  next
    case 3
    with assms(1) c pos show ?thesis
      by (fastforce simp: read_resource_record_def result_inv dest!: reader_read_name_sound read_address_sound)
  next
    case 4
    with assms(1) c pos show ?thesis
      by (fastforce simp: read_resource_record_def result_inv dest!: reader_read_name_sound read_address_sound)
  next
    case 5
    with assms(1) c show ?thesis
      by (auto simp: read_resource_record_def result_inv simp del: append.simps dest!: read_address_sound intro: bytes_at_append)
  next
    case 6
    with assms(1) c show ?thesis
      by (auto simp: read_resource_record_def result_inv simp del: append.simps dest!: read_address_sound intro: bytes_at_append)
  next
    case 7
    with assms(1) c show ?thesis using read_txt_sound [of r x r' c] by (auto simp: read_resource_record_def)
  qed
qed

lemma record_at_bounds: "record_at input c x p \<Longrightarrow> c < p \<and> p \<le> length input"
  by (cases x) (auto simp: bytes_at_def dest: name_at_bounds)

section \<open>Decoding\<close>

function decode_records :: "resource_reader \<Rightarrow> hns_resource_record list \<Rightarrow> ('x, hns_resource_record list) reading" where
  "decode_records r records =
     (if is_finished r then Inr (records, r)
      else rbind (reader_read_u8 r) (\<lambda>(kind, r).
      if kind > MAX_KNOWN_RESOURCE_KIND then Inl (UnknownResourceRecord kind)
      else rbind (read_resource_record kind r) (\<lambda>(x, r). decode_records r (records @ [x]))))"
  by pat_completeness auto

termination
proof (relation "measure (\<lambda>(r, records). length (rx_input r) - rx_position r)", goal_cases)
  case 1
  then show ?case by simp
next
  case (2 r records p kind r1 q x r2)
  then have k: "reader_read_u8 r = (Inr (kind, r1) :: ('a, u8) reading)" "kind \<le> 6"
    and x: "read_resource_record kind r1 = (Inr (x, r2) :: ('a, hns_resource_record) reading)"
    by (simp_all add: MAX_KNOWN_RESOURCE_KIND_def not_less)
  note u = reader_read_u8_sound [OF k(1)]
  then have "bytes_at (rx_input r1) (rx_position r) [kind] (rx_position r1)" by simp
  from read_resource_record_sound [OF x this k(2)] u show ?case by (auto dest!: record_at_bounds)
qed

declare decode_records.simps [simp del]

definition resource_decode :: "('p, 'x) name_lib \<Rightarrow> bytes \<Rightarrow> ('x light_chain_error, hns_resource) result" where
  "resource_decode L raw =
     (if length raw > nl_max_resource_size L then Inl (ResourceTooLarge (length raw))
      else rbind (reader_read_u8 (resource_reader_new raw)) (\<lambda>(version, r).
      if version \<noteq> 0 then Inl UnsupportedResourceVersion
      else rbind (decode_records r []) (\<lambda>(records, r).
      rbind (map_err LcCovenant (nl_resource_new L raw)) (\<lambda>_.
      Inr \<lparr>hr_raw = raw, hr_records = records\<rparr>))))"

definition delegation_signers :: "hns_resource \<Rightarrow> delegation_signer list" where
  "delegation_signers res = List.map_filter (\<lambda>x. case x of HrDs ds \<Rightarrow> Some ds | _ \<Rightarrow> None) (hr_records res)"

record decoded_name_state =
  ds_resource :: bytes
  ds_height :: u32
  ds_renewal :: u32

text \<open>The optional fields of a name state; an event height is never above the tip.\<close>

fun event_heights :: "('d, 'x) decoder_lib \<Rightarrow> u16 \<Rightarrow> u32 \<Rightarrow> nat list \<Rightarrow> 'd \<Rightarrow> ('x light_chain_error, 'd) result" where
  "event_heights D field tip_height [] d = Inr d"
| "event_heights D field tip_height (b # bs) d =
     (if field AND push_bit b 1 \<noteq> 0 then
        rbind (map_err LcNameStateDecode (de_read_u32_le D d)) (\<lambda>(event_height, d).
        if event_height > tip_height then Inl FutureNameState else event_heights D field tip_height bs d)
      else event_heights D field tip_height bs d)"

definition optional_fields :: "('d, 'x) decoder_lib \<Rightarrow> u16 \<Rightarrow> u32 \<Rightarrow> 'd \<Rightarrow> ('x light_chain_error, 'd) result" where
  "optional_fields D field tip_height d =
     rbind (if field AND push_bit 0 1 \<noteq> 0 then
         rbind (map_err LcNameStateDecode (de_read_array D 32 d)) (\<lambda>(_, d).
         rbind (map_err LcNameStateDecode (de_read_compact_size D d)) (\<lambda>(owner_index, d).
         if owner_index > 0xffffffff then Inl InvalidNameStateValue else Inr d))
       else Inr d) (\<lambda>d.
     rbind (if field AND push_bit 1 1 \<noteq> 0 then
         rbind (map_err LcNameStateDecode (de_read_compact_size D d)) (\<lambda>(_, d). Inr d) else Inr d) (\<lambda>d.
     rbind (if field AND push_bit 2 1 \<noteq> 0 then
         rbind (map_err LcNameStateDecode (de_read_compact_size D d)) (\<lambda>(_, d). Inr d) else Inr d) (\<lambda>d.
     rbind (event_heights D field tip_height [3, 4, 5] d) (\<lambda>d.
     if field AND push_bit 6 1 \<noteq> 0 then
       rbind (map_err LcNameStateDecode (de_read_compact_size D d)) (\<lambda>(v, d).
       if v > 0xffffffff then Inl InvalidNameStateValue else Inr d)
     else Inr d))))"

definition decode_name_state ::
  "('d, 'x) decoder_lib \<Rightarrow> ('p, 'x) name_lib \<Rightarrow> bytes \<Rightarrow> bytes \<Rightarrow> u32 \<Rightarrow> ('x light_chain_error, decoded_name_state) result" where
  "decode_name_state D L raw expected_name tip_height =
     rbind (map_err LcNameStateDecode (de_read_u8 D (de_new D raw))) (\<lambda>(name_length, d).
     rbind (map_err LcNameStateDecode (de_read_slice D d (unat name_length))) (\<lambda>(name, d).
     if name \<noteq> expected_name \<or> \<not> nl_validate_name L name then Inl NameStateNameMismatch
     else rbind (map_err LcNameStateDecode (de_read_u16_le D d)) (\<lambda>(resource_length, d).
     if resource_length = 0 then Inl MissingResource
     else if unat resource_length > nl_max_resource_size L then Inl (ResourceTooLarge (unat resource_length))
     else rbind (map_err LcNameStateDecode (de_read_slice D d (unat resource_length))) (\<lambda>(resource, d).
     rbind (map_err LcNameStateDecode (de_read_u32_le D d)) (\<lambda>(height, d).
     rbind (map_err LcNameStateDecode (de_read_u32_le D d)) (\<lambda>(renewal, d).
     rbind (map_err LcNameStateDecode (de_read_u16_le D d)) (\<lambda>(field, d).
     if field AND NOT NAME_STATE_KNOWN_FIELD_BITS \<noteq> 0 then Inl UnknownNameStateField
     else if height > tip_height \<or> renewal > tip_height then Inl FutureNameState
     else rbind (optional_fields D field tip_height d) (\<lambda>d.
     rbind (map_err LcNameStateDecode (de_finish D d)) (\<lambda>_.
     Inr \<lparr>ds_resource = resource, ds_height = height, ds_renewal = renewal\<rparr>)))))))))"

record 'w verified_hns_resource =
  vh_anchor :: "'w hns_anchor"
  vh_name_hash :: hash
  vh_name :: bytes
  vh_state_height :: u32
  vh_renewal_height :: u32
  vh_resource :: hns_resource

definition verify_name_resource ::
  "('d, 'x) decoder_lib \<Rightarrow> ('p, 'x) name_lib \<Rightarrow> 'w current_chain \<Rightarrow> bytes \<Rightarrow> bytes \<Rightarrow>
   ('x light_chain_error, 'w verified_hns_resource) result" where
  "verify_name_resource D L chain name proof_bytes =
     rbind (map_err LcCovenant (nl_hash_name L name)) (\<lambda>name_hash.
     rbind (map_err LcUrkel (nl_proof_decode L proof_bytes)) (\<lambda>proof.
     rbind (map_err LcUrkel (nl_proof_verify L proof (an_tree_root (cc_anchor chain)) name_hash)) (\<lambda>found.
     rbind (ok_or NameNotFound found) (\<lambda>name_state.
     rbind (decode_name_state D L name_state name (an_height (cc_anchor chain))) (\<lambda>decoded.
     rbind (resource_decode L (ds_resource decoded)) (\<lambda>resource.
     Inr \<lparr>vh_anchor = cc_anchor chain, vh_name_hash = name_hash, vh_name = name,
          vh_state_height = ds_height decoded, vh_renewal_height = ds_renewal decoded, vh_resource = resource\<rparr>))))))"

end
