(* ===== verification/Resolver.thy ===== *)
theory Resolver
  imports Dnssec Dns_Query Icann_Dane Hns_Resource
begin

unbundle bit_operations_syntax

text \<open>
  The TLSA resolver (src/crates/hns-resolver/src/lib.rs): DNSSEC authorities built from verified HNS resources,
  and the bounded chase of DNSSEC-verified CNAME records from a service owner to its TLSA records.

  A method with \<open>&mut self\<close> returns the resolution it leaves behind together with its result; a resolution
  that fails part of the way keeps the steps it has taken, as in the source.  \<open>None\<close> is a panic of the
  underlying digest comparison.
\<close>

section \<open>Types\<close>

definition HTTPS_PORT :: u16 where "HTTPS_PORT = 443"

definition DEFAULT_MAX_CNAME_HOPS :: usize where "DEFAULT_MAX_CNAME_HOPS = 16"

definition DEFAULT_MAX_TLSA_RECORDS :: usize where "DEFAULT_MAX_TLSA_RECORDS = 64"

definition HNS_RESOURCE_TTL :: u32 where "HNS_RESOURCE_TTL = 21600"

record 'w hns_authority_evidence =
  ev_anchor :: "'w hns_anchor"
  ev_zone :: dns_name
  ev_validation_time :: u32
  ev_expires_at_unix :: u64

record 'w hns_dnssec_authority =
  au_evidence :: "'w hns_authority_evidence"
  au_keys :: authenticated_dnskeys

record resolver_limits =
  rl_max_cname_hops :: usize
  rl_max_tlsa_records :: usize
  rl_dnssec :: dnssec_limits

definition default_resolver_limits :: resolver_limits where
  "default_resolver_limits =
     \<lparr>rl_max_cname_hops = DEFAULT_MAX_CNAME_HOPS, rl_max_tlsa_records = DEFAULT_MAX_TLSA_RECORDS,
      rl_dnssec = default_dnssec_limits\<rparr>"

record verified_cname =
  vc_owner :: dns_name
  vc_target :: dns_name
  vc_rrset :: verified_rrset

record 'w validated_tlsa =
  vt_requested_owner :: dns_name
  vt_terminal_owner :: dns_name
  vt_base_domain :: dns_name
  vt_base_domain_ascii :: bytes
  vt_records :: "tlsa list"
  vt_cname_chain :: "verified_cname list"
  vt_rrset :: verified_rrset
  vt_hns_authority :: "'w hns_authority_evidence option"
  vt_validated_at_unix :: u64
  vt_expires_at_unix :: u64

definition tlsa_fresh_at :: "'w validated_tlsa \<Rightarrow> u64 \<Rightarrow> bool" where
  "tlsa_fresh_at v now \<longleftrightarrow> vt_validated_at_unix v \<le> now \<and> now < vt_expires_at_unix v"

datatype 'w resolution_step = FollowCname dns_name | Complete "'w validated_tlsa"

datatype 'w authority_binding = BindUnset | BindGeneric | BindHns "'w hns_authority_evidence"

record 'w tlsa_resolution =
  tr_requested_owner :: dns_name
  tr_current_owner :: dns_name
  tr_base_domain :: dns_name
  tr_base_domain_ascii :: bytes
  tr_visited :: "dns_name set"
  tr_cname_chain :: "verified_cname list"
  tr_completed :: bool
  tr_limits :: resolver_limits
  tr_authority_binding :: "'w authority_binding"

datatype resolver_error =
  RvWire wire_error | RvDnssec dnssec_error | InvalidServiceName | WrongQuery | UnsuccessfulResponse | MissingTlsa
| CnameCoexistsWithData | CnameLoop | CnameLimit | MalformedAnswer | RvLimit | AlreadyComplete | MissingHnsDs
| InvalidHnsZone | AnchorTimeMismatch | HnsZoneMismatch | AuthorityChanged

section \<open>Helpers\<close>

definition name_is_suffix :: "dns_name \<Rightarrow> dns_name \<Rightarrow> bool" where
  "name_is_suffix name sfx \<longleftrightarrow> slice_from (labels name) (length (labels name) - length (labels sfx)) = Some (labels sfx)"

fun ascii_host_loop :: "nat \<Rightarrow> bytes list \<Rightarrow> bytes \<Rightarrow> (resolver_error, bytes) result" where
  "ascii_host_loop index [] out = Inr out"
| "ascii_host_loop index (label # rest) out =
     (if label = [] \<or> length label > 63 \<or> \<not> is_ascii_alphanumeric (hd label) \<or> \<not> is_ascii_alphanumeric (last label) \<or>
         list_ex (\<lambda>byte. \<not> is_ascii_alphanumeric byte \<and> byte \<noteq> 45) label
      then Inl InvalidServiceName
      else ascii_host_loop (index + 1) rest ((if index \<noteq> 0 then out @ [46] else out) @ label))"

definition ascii_host :: "dns_name \<Rightarrow> (resolver_error, bytes) result" where
  "ascii_host name = (if is_root name then Inl InvalidServiceName else ascii_host_loop 0 (labels name) [])"

definition matching_records :: "message \<Rightarrow> dns_name \<Rightarrow> record_type \<Rightarrow> resource_record list" where
  "matching_records message owner record_type =
     filter (\<lambda>record. rr_name record = owner \<and> rr_type record = record_type \<and> rr_class record = CLASS_IN) (m_answers message)"

definition matching_signatures :: "message \<Rightarrow> dns_name \<Rightarrow> record_type \<Rightarrow> resource_record list" where
  "matching_signatures message owner record_type =
     filter (\<lambda>record. rr_name record = owner \<and> rr_type record = RtRrsig \<and> rr_class record = CLASS_IN \<and>
       (case rr_rdata record of RdRrsig signature \<Rightarrow> rs_type_covered signature = record_type | _ \<Rightarrow> False))
       (m_answers message @ m_authorities message)"

definition has_owner_data :: "message \<Rightarrow> dns_name \<Rightarrow> bool" where
  "has_owner_data message owner = list_ex (\<lambda>record. rr_name record = owner \<and> rr_class record = CLASS_IN) (m_answers message)"

fun keyset_loop ::
  "'key openssl \<Rightarrow> dns_name \<Rightarrow> resource_record list \<Rightarrow> resource_record list \<Rightarrow> u32 \<Rightarrow> dnssec_limits \<Rightarrow>
   authenticated_dnskeys list \<Rightarrow> dnssec_error \<Rightarrow> (resolver_error, verified_rrset) result" where
  "keyset_loop os owner records signatures validation_time limits [] last_error = Inl (RvDnssec last_error)"
| "keyset_loop os owner records signatures validation_time limits (keyset # rest) last_error =
     (if \<not> name_is_suffix owner (ak_zone keyset)
      then keyset_loop os owner records signatures validation_time limits rest last_error
      else case verify_rrset_with_keys os keyset records signatures validation_time limits of
        Inr verified \<Rightarrow> Inr verified
      | Inl e \<Rightarrow> keyset_loop os owner records signatures validation_time limits rest e)"

definition verify_with_any_keyset ::
  "'key openssl \<Rightarrow> authenticated_dnskeys list \<Rightarrow> resource_record list \<Rightarrow> resource_record list \<Rightarrow> u32 \<Rightarrow> dnssec_limits \<Rightarrow>
   (resolver_error, verified_rrset) result" where
  "verify_with_any_keyset os keysets records signatures validation_time limits =
     rbind (ok_or MalformedAnswer (map_option rr_name (slice_get records 0))) (\<lambda>owner.
     keyset_loop os owner records signatures validation_time limits keysets MissingKey)"

definition retained_hns_authority :: "'w authority_binding \<Rightarrow> 'w hns_authority_evidence option" where
  "retained_hns_authority b = (case b of BindHns evidence \<Rightarrow> Some evidence | _ \<Rightarrow> None)"

definition validated_tlsa_expiry :: "verified_cname list \<Rightarrow> verified_rrset \<Rightarrow> 'w hns_authority_evidence option \<Rightarrow> u64" where
  "validated_tlsa_expiry cname_chain terminal hns_authority =
     (case map (\<lambda>edge. vr_expires_at_unix (vc_rrset edge)) cname_chain @ [vr_expires_at_unix terminal] @
           (case hns_authority of None \<Rightarrow> [] | Some e \<Rightarrow> [ev_expires_at_unix e]) of
        [] \<Rightarrow> vr_expires_at_unix terminal
      | x # xs \<Rightarrow> foldl min x xs)"

section \<open>HNS authorities\<close>

definition trusted_ds_records :: "dns_name \<Rightarrow> hns_resource \<Rightarrow> resource_record list" where
  "trusted_ds_records zone resource =
     map (\<lambda>sg. \<lparr>rr_name = zone, rr_type = RtDs, rr_class = CLASS_IN, rr_ttl = HNS_RESOURCE_TTL,
       rr_rdata = RdDs \<lparr>ds_key_tag = sg_key_tag sg, ds_algorithm = sg_algorithm sg, ds_digest_type = sg_digest_type sg,
         ds_digest = sg_digest sg\<rparr>\<rparr>) (delegation_signers resource)"

definition hns_authenticate ::
  "'key openssl \<Rightarrow> 'w verified_hns_resource \<Rightarrow> resource_record list \<Rightarrow> resource_record list \<Rightarrow> u32 \<Rightarrow> dnssec_limits \<Rightarrow>
   (resolver_error, 'w hns_dnssec_authority) result option" where
  "hns_authenticate os resource dnskeys signatures validation_time limits =
     (let anchor = vh_anchor resource in
      if an_validated_at anchor \<noteq> ucast validation_time \<or> ucast validation_time > an_valid_until anchor
      then Some (Inl AnchorTimeMismatch)
      else case from_labels [vh_name resource] of
        Inl _ \<Rightarrow> Some (Inl InvalidHnsZone)
      | Inr zone \<Rightarrow>
          let trusted_ds = trusted_ds_records zone (vh_resource resource) in
          if trusted_ds = [] then Some (Inl MissingHnsDs)
          else map_option (\<lambda>r. rbind (map_err RvDnssec r) (\<lambda>keys.
            Inr \<lparr>au_evidence = \<lparr>ev_anchor = anchor, ev_zone = zone, ev_validation_time = validation_time,
                  ev_expires_at_unix = min (ak_expires_at_unix keys) (u64_saturating_add (an_valid_until anchor) 1)\<rparr>,
                 au_keys = keys\<rparr>))
            (authenticate_dnskeys os zone trusted_ds dnskeys signatures validation_time limits))"

section \<open>Resolutions\<close>

definition for_service ::
  "dns_name \<Rightarrow> u16 \<Rightarrow> tlsa_transport \<Rightarrow> resolver_limits \<Rightarrow> (resolver_error, 'w tlsa_resolution) result" where
  "for_service base_domain port transport limits =
     rbind (ascii_host base_domain) (\<lambda>base_domain_ascii.
     rbind (map_err (\<lambda>_. InvalidServiceName) (tlsa_owner_derive base_domain_ascii port transport)) (\<lambda>service_owner.
     rbind (map_err (\<lambda>_. InvalidServiceName) (from_ascii (to_resolver_name service_owner))) (\<lambda>requested_owner.
     Inr \<lparr>tr_requested_owner = requested_owner, tr_current_owner = requested_owner, tr_base_domain = base_domain,
          tr_base_domain_ascii = base_domain_ascii, tr_visited = {requested_owner}, tr_cname_chain = [],
          tr_completed = False, tr_limits = limits, tr_authority_binding = BindUnset\<rparr>)))"

definition for_https :: "dns_name \<Rightarrow> resolver_limits \<Rightarrow> (resolver_error, 'w tlsa_resolution) result" where
  "for_https base_domain limits = for_service base_domain HTTPS_PORT TlsaTcp limits"

definition resolution_query :: "'w tlsa_resolution \<Rightarrow> u16 \<Rightarrow> (resolver_error, query) result" where
  "resolution_query s i = map_err RvWire (query_new i (tr_current_owner s) RtTlsa)"

definition tlsa_of :: "resource_record \<Rightarrow> (resolver_error, tlsa) result" where
  "tlsa_of record = (case rr_rdata record of RdTlsa tlsa \<Rightarrow> Inr tlsa | _ \<Rightarrow> Inl MalformedAnswer)"

definition complete_tlsa ::
  "'key openssl \<Rightarrow> message \<Rightarrow> authenticated_dnskeys list \<Rightarrow> u32 \<Rightarrow> 'w tlsa_resolution \<Rightarrow>
   'w tlsa_resolution \<times> (resolver_error, 'w resolution_step) result" where
  "complete_tlsa os message keysets validation_time s =
     (let tlsa_records = matching_records message (tr_current_owner s) RtTlsa in
      if length tlsa_records > rl_max_tlsa_records (tr_limits s) then (s, Inl RvLimit)
      else case verify_with_any_keyset os keysets tlsa_records (matching_signatures message (tr_current_owner s) RtTlsa)
          validation_time (rl_dnssec (tr_limits s)) of
        Inl e \<Rightarrow> (s, Inl e)
      | Inr verified \<Rightarrow>
          (case collect_results (map tlsa_of tlsa_records) of
             Inl e \<Rightarrow> (s, Inl e)
           | Inr records \<Rightarrow>
               let hns_authority = retained_hns_authority (tr_authority_binding s);
                   expires_at_unix = validated_tlsa_expiry (tr_cname_chain s) verified hns_authority
               in (s\<lparr>tr_completed := True\<rparr>, Inr (Complete
                    \<lparr>vt_requested_owner = tr_requested_owner s, vt_terminal_owner = tr_current_owner s,
                     vt_base_domain = tr_base_domain s, vt_base_domain_ascii = tr_base_domain_ascii s,
                     vt_records = records, vt_cname_chain = tr_cname_chain s, vt_rrset = verified,
                     vt_hns_authority = hns_authority, vt_validated_at_unix = ucast validation_time,
                     vt_expires_at_unix = expires_at_unix\<rparr>))))"

text \<open>One CNAME record is followed: the resolution after it, or the error.\<close>

definition follow_cname ::
  "'key openssl \<Rightarrow> message \<Rightarrow> authenticated_dnskeys list \<Rightarrow> u32 \<Rightarrow> 'w tlsa_resolution \<Rightarrow>
   (resolver_error, 'w tlsa_resolution) result" where
  "follow_cname os message keysets validation_time s =
     (let cname_records = matching_records message (tr_current_owner s) RtCname in
      if length cname_records \<noteq> 1 then Inl (if cname_records = [] then MissingTlsa else MalformedAnswer)
      else if length (tr_cname_chain s) \<ge> rl_max_cname_hops (tr_limits s) then Inl CnameLimit
      else rbind (verify_with_any_keyset os keysets cname_records (matching_signatures message (tr_current_owner s) RtCname)
          validation_time (rl_dnssec (tr_limits s))) (\<lambda>verified.
      rbind (case rr_rdata (hd cname_records) of RdCname target \<Rightarrow> Inr target | _ \<Rightarrow> Inl MalformedAnswer) (\<lambda>target.
      if target \<in> tr_visited s then Inl CnameLoop
      else Inr (s\<lparr>tr_visited := insert target (tr_visited s),
                 tr_cname_chain := tr_cname_chain s @ [\<lparr>vc_owner = tr_current_owner s, vc_target = target, vc_rrset = verified\<rparr>],
                 tr_current_owner := target\<rparr>))))"

lemma follow_cname_Inr:
  "follow_cname os message keysets time s = Inr s' \<Longrightarrow>
     tr_limits s' = tr_limits s \<and> length (tr_cname_chain s') = Suc (length (tr_cname_chain s)) \<and>
     length (tr_cname_chain s) < rl_max_cname_hops (tr_limits s)"
  by (auto simp: follow_cname_def Let_def result_inv split: if_splits)

function accept_loop ::
  "'key openssl \<Rightarrow> message \<Rightarrow> authenticated_dnskeys list \<Rightarrow> u32 \<Rightarrow> 'w tlsa_resolution \<Rightarrow>
   'w tlsa_resolution \<times> (resolver_error, 'w resolution_step) result" where
  "accept_loop os message keysets validation_time s =
     (let tlsa_records = matching_records message (tr_current_owner s) RtTlsa;
          cname_records = matching_records message (tr_current_owner s) RtCname
      in if tlsa_records \<noteq> [] \<and> cname_records \<noteq> [] then (s, Inl CnameCoexistsWithData)
      else if tlsa_records \<noteq> [] then complete_tlsa os message keysets validation_time s
      else case follow_cname os message keysets validation_time s of
        Inl e \<Rightarrow> (s, Inl e)
      | Inr s' \<Rightarrow>
          if \<not> has_owner_data message (tr_current_owner s') then (s', Inr (FollowCname (tr_current_owner s')))
          else accept_loop os message keysets validation_time s')"
  by pat_completeness auto

termination
  by (relation "measure (\<lambda>(os, message, keysets, time, s). rl_max_cname_hops (tr_limits s) - length (tr_cname_chain s))")
    (auto dest!: follow_cname_Inr)

declare accept_loop.simps [simp del]

definition accept_response_inner ::
  "'key openssl \<Rightarrow> 'w tlsa_resolution \<Rightarrow> query \<Rightarrow> message \<Rightarrow> authenticated_dnskeys list \<Rightarrow> u32 \<Rightarrow> 'w authority_binding \<Rightarrow>
   'w tlsa_resolution \<times> (resolver_error, 'w resolution_step) result" where
  "accept_response_inner os s query message keysets validation_time authority_binding =
     (if tr_completed s then (s, Inl AlreadyComplete)
      else if q_name (query_question query) \<noteq> tr_current_owner s \<or> q_type (query_question query) \<noteq> RtTlsa \<or>
         q_class (query_question query) \<noteq> CLASS_IN then (s, Inl WrongQuery)
      else case correlate query message of
        Inl e \<Rightarrow> (s, Inl (RvWire e))
      | Inr _ \<Rightarrow>
          if rcode (hdr_flags (m_header message)) \<noteq> 0 then (s, Inl UnsuccessfulResponse)
          else if tr_authority_binding s = BindUnset
          then accept_loop os message keysets validation_time (s\<lparr>tr_authority_binding := authority_binding\<rparr>)
          else if tr_authority_binding s = authority_binding then accept_loop os message keysets validation_time s
          else (s, Inl AuthorityChanged))"

definition accept_response ::
  "'key openssl \<Rightarrow> 'w tlsa_resolution \<Rightarrow> query \<Rightarrow> message \<Rightarrow> authenticated_dnskeys list \<Rightarrow> u32 \<Rightarrow>
   'w tlsa_resolution \<times> (resolver_error, 'w resolution_step) result" where
  "accept_response os s query message keysets validation_time =
     accept_response_inner os s query message keysets validation_time BindGeneric"

definition accept_hns_response ::
  "'key openssl \<Rightarrow> 'w tlsa_resolution \<Rightarrow> query \<Rightarrow> message \<Rightarrow> 'w hns_dnssec_authority \<Rightarrow>
   'w tlsa_resolution \<times> (resolver_error, 'w resolution_step) result" where
  "accept_hns_response os s query message authority =
     (if \<not> name_is_suffix (tr_base_domain s) (ev_zone (au_evidence authority)) then (s, Inl HnsZoneMismatch)
      else accept_response_inner os s query message [au_keys authority] (ev_validation_time (au_evidence authority))
        (BindHns (au_evidence authority)))"

end
