(* ===== verification/Resolver_Laws.thy ===== *)
theory Resolver_Laws
  imports Resolver Dnssec_Laws "HOL-Library.Sublist"
begin

unbundle bit_operations_syntax

text \<open>
  Correctness of the TLSA resolver: whatever responses a resolution is given, a completed one is a bounded,
  loop-free path of CNAME records from the service owner to the TLSA records, each record set verified under
  a key set of an enclosing zone that was supplied for the one authority the resolution is bound to.
\<close>

section \<open>Record sets\<close>

lemma name_is_suffix_iff: "name_is_suffix name z \<longleftrightarrow> suffix (labels z) (labels name)"
  by (auto simp: name_is_suffix_def slice_from_def suffix_def) (metis append_take_drop_id)

lemma keyset_loop_Inr:
  "keyset_loop os owner records signatures time limits keysets e = Inr v \<Longrightarrow>
     \<exists>ks \<in> set keysets. name_is_suffix owner (ak_zone ks) \<and> verify_rrset_with_keys os ks records signatures time limits = Inr v"
  by (induction keysets arbitrary: e) (auto split: if_splits sum.splits)

text \<open>A use is an authority with a key set and a time that was supplied for it.\<close>

type_synonym 'w key_use = "'w authority_binding \<times> authenticated_dnskeys \<times> u32"

definition attested ::
  "'key openssl \<Rightarrow> dnssec_limits \<Rightarrow> 'w key_use set \<Rightarrow> 'w authority_binding \<Rightarrow> resource_record list \<Rightarrow> verified_rrset \<Rightarrow> bool" where
  "attested os limits K b records v \<longleftrightarrow> (\<exists>ks t signatures. (b, ks, t) \<in> K \<and> records \<noteq> [] \<and>
     suffix (labels (ak_zone ks)) (labels (rr_name (hd records))) \<and>
     verify_rrset_with_keys os ks records signatures t limits = Inr v)"

lemma verify_with_any_keyset_attested:
  assumes "verify_with_any_keyset os keysets records signatures t limits = Inr v" and "\<forall>ks \<in> set keysets. (b, ks, t) \<in> K"
  shows "attested os limits K b records v"
proof -
  from assms(1) have "records \<noteq> []" and "keyset_loop os (rr_name (hd records)) records signatures t limits keysets MissingKey = Inr v"
    by (auto simp: verify_with_any_keyset_def result_inv slice_get_def hd_conv_nth split: if_splits)
  with keyset_loop_Inr assms(2) show ?thesis unfolding attested_def name_is_suffix_iff by metis
qed

lemma attested_mono: "attested os limits K b records v \<Longrightarrow> K \<subseteq> K' \<Longrightarrow> attested os limits K' b records v"
  unfolding attested_def by blast

section \<open>Paths\<close>

fun cname_path :: "dns_name \<Rightarrow> verified_cname list \<Rightarrow> dns_name \<Rightarrow> bool" where
  "cname_path a [] b \<longleftrightarrow> a = b"
| "cname_path a (e # es) b \<longleftrightarrow> vc_owner e = a \<and> cname_path (vc_target e) es b"

lemma cname_path_snoc: "cname_path a (es @ [e]) b \<longleftrightarrow> cname_path a es (vc_owner e) \<and> b = vc_target e"
  by (induction es arbitrary: a) auto

definition edge_ok ::
  "'key openssl \<Rightarrow> dnssec_limits \<Rightarrow> 'w key_use set \<Rightarrow> 'w authority_binding \<Rightarrow> verified_cname \<Rightarrow> bool" where
  "edge_ok os limits K b e \<longleftrightarrow> (\<exists>r. rr_name r = vc_owner e \<and> rr_type r = RtCname \<and> rr_rdata r = RdCname (vc_target e) \<and>
     attested os limits K b [r] (vc_rrset e))"

definition resolution_inv :: "'key openssl \<Rightarrow> 'w key_use set \<times> 'w tlsa_resolution \<Rightarrow> bool" where
  "resolution_inv os = (\<lambda>(K, s).
     tr_visited s = set (tr_requested_owner s # map vc_target (tr_cname_chain s)) \<and>
     distinct (tr_requested_owner s # map vc_target (tr_cname_chain s)) \<and>
     cname_path (tr_requested_owner s) (tr_cname_chain s) (tr_current_owner s) \<and>
     length (tr_cname_chain s) \<le> rl_max_cname_hops (tr_limits s) \<and>
     (tr_authority_binding s = BindUnset \<longrightarrow> tr_cname_chain s = []) \<and>
     list_all (edge_ok os (rl_dnssec (tr_limits s)) K (tr_authority_binding s)) (tr_cname_chain s))"

lemma edge_ok_mono: "edge_ok os limits K b e \<Longrightarrow> K \<subseteq> K' \<Longrightarrow> edge_ok os limits K' b e"
  unfolding edge_ok_def by (meson attested_mono)

lemma resolution_inv_mono: "resolution_inv os (K, s) \<Longrightarrow> K \<subseteq> K' \<Longrightarrow> resolution_inv os (K', s)"
  unfolding resolution_inv_def by (auto simp: list_all_iff intro: edge_ok_mono)

lemma matching_records_in:
  "r \<in> set (matching_records m owner ty) \<Longrightarrow> rr_name r = owner \<and> rr_type r = ty \<and> rr_class r = CLASS_IN"
  by (simp add: matching_records_def)

lemma follow_cname_inv:
  assumes f: "follow_cname os m keysets t s = Inr s'" and inv: "resolution_inv os (K, s)"
    and K: "\<forall>ks \<in> set keysets. (tr_authority_binding s, ks, t) \<in> K" and b: "tr_authority_binding s \<noteq> BindUnset"
  shows "resolution_inv os (K, s')"
proof -
  from f obtain r v target where r: "matching_records m (tr_current_owner s) RtCname = [r]"
    and hops: "length (tr_cname_chain s) < rl_max_cname_hops (tr_limits s)"
    and v: "verify_with_any_keyset os keysets [r] (matching_signatures m (tr_current_owner s) RtCname) t (rl_dnssec (tr_limits s)) = Inr v"
    and target: "rr_rdata r = RdCname target" "target \<notin> tr_visited s"
    and s': "s' = s\<lparr>tr_visited := insert target (tr_visited s),
      tr_cname_chain := tr_cname_chain s @ [\<lparr>vc_owner = tr_current_owner s, vc_target = target, vc_rrset = v\<rparr>], tr_current_owner := target\<rparr>"
    by (auto simp: follow_cname_def Let_def result_inv length_Suc_conv split: if_splits rdata.splits)
  have "edge_ok os (rl_dnssec (tr_limits s)) K (tr_authority_binding s) \<lparr>vc_owner = tr_current_owner s, vc_target = target, vc_rrset = v\<rparr>"
    using verify_with_any_keyset_attested [OF v K] target(1) matching_records_in [of r m "tr_current_owner s" RtCname] r
    by (auto simp: edge_ok_def)
  with inv hops target(2) b show ?thesis by (auto simp: resolution_inv_def s' cname_path_snoc)
qed

lemma follow_cname_keeps:
  "follow_cname os m keysets t s = Inr s' \<Longrightarrow> tr_requested_owner s' = tr_requested_owner s \<and> tr_base_domain s' = tr_base_domain s \<and>
     tr_limits s' = tr_limits s \<and> tr_authority_binding s' = tr_authority_binding s \<and> tr_completed s' = tr_completed s"
  by (auto simp: follow_cname_def Let_def result_inv split: if_splits)

section \<open>Results\<close>

definition tlsa_ok :: "'key openssl \<Rightarrow> 'w key_use set \<Rightarrow> 'w tlsa_resolution \<Rightarrow> 'w validated_tlsa \<Rightarrow> bool" where
  "tlsa_ok os K s v \<longleftrightarrow> resolution_inv os (K, s) \<and> tr_authority_binding s \<noteq> BindUnset \<and>
     vt_requested_owner v = tr_requested_owner s \<and> vt_terminal_owner v = tr_current_owner s \<and> vt_base_domain v = tr_base_domain s \<and>
     vt_cname_chain v = tr_cname_chain s \<and> vt_hns_authority v = retained_hns_authority (tr_authority_binding s) \<and>
     vt_expires_at_unix v = validated_tlsa_expiry (vt_cname_chain v) (vt_rrset v) (vt_hns_authority v) \<and>
     (\<exists>rs. attested os (rl_dnssec (tr_limits s)) K (tr_authority_binding s) rs (vt_rrset v) \<and>
        length rs \<le> rl_max_tlsa_records (tr_limits s) \<and>
        list_all2 (\<lambda>r tlsa. rr_name r = vt_terminal_owner v \<and> rr_type r = RtTlsa \<and> rr_rdata r = RdTlsa tlsa) rs (vt_records v))"

lemma tlsa_okD:
  assumes "tlsa_ok os K s v"
  shows "vt_requested_owner v = tr_requested_owner s \<and> vt_base_domain v = tr_base_domain s \<and>
    cname_path (vt_requested_owner v) (vt_cname_chain v) (vt_terminal_owner v) \<and>
    distinct (vt_requested_owner v # map vc_target (vt_cname_chain v)) \<and> length (vt_cname_chain v) \<le> rl_max_cname_hops (tr_limits s) \<and>
    (\<exists>b. b \<noteq> BindUnset \<and> vt_hns_authority v = retained_hns_authority b \<and>
       list_all (edge_ok os (rl_dnssec (tr_limits s)) K b) (vt_cname_chain v) \<and>
       (\<exists>rs. attested os (rl_dnssec (tr_limits s)) K b rs (vt_rrset v) \<and> length rs \<le> rl_max_tlsa_records (tr_limits s) \<and>
          list_all2 (\<lambda>r tlsa. rr_name r = vt_terminal_owner v \<and> rr_type r = RtTlsa \<and> rr_rdata r = RdTlsa tlsa) rs (vt_records v)))"
proof -
  have inv: "resolution_inv os (K, s)" and eqs: "vt_requested_owner v = tr_requested_owner s" "vt_terminal_owner v = tr_current_owner s"
    "vt_base_domain v = tr_base_domain s" "vt_cname_chain v = tr_cname_chain s" using assms by (simp_all add: tlsa_ok_def)
  have "list_all (edge_ok os (rl_dnssec (tr_limits s)) K (tr_authority_binding s)) (vt_cname_chain v)"
    using inv by (simp add: resolution_inv_def eqs)
  with assms have "\<exists>b. b \<noteq> BindUnset \<and> vt_hns_authority v = retained_hns_authority b \<and>
       list_all (edge_ok os (rl_dnssec (tr_limits s)) K b) (vt_cname_chain v) \<and>
       (\<exists>rs. attested os (rl_dnssec (tr_limits s)) K b rs (vt_rrset v) \<and> length rs \<le> rl_max_tlsa_records (tr_limits s) \<and>
          list_all2 (\<lambda>r tlsa. rr_name r = vt_terminal_owner v \<and> rr_type r = RtTlsa \<and> rr_rdata r = RdTlsa tlsa) rs (vt_records v))"
    unfolding tlsa_ok_def by blast
  moreover have "cname_path (vt_requested_owner v) (vt_cname_chain v) (vt_terminal_owner v)"
    "distinct (vt_requested_owner v # map vc_target (vt_cname_chain v))" "length (vt_cname_chain v) \<le> rl_max_cname_hops (tr_limits s)"
    using inv unfolding resolution_inv_def eqs by simp_all
  ultimately show ?thesis using eqs by blast
qed

lemma collect_results_all2: "collect_results rs = Inr xs \<longleftrightarrow> rs = map Inr xs"
  by (induction rs arbitrary: xs) (auto simp: result_inv)

lemma complete_tlsa_cases:
  assumes "complete_tlsa os m keysets t s = (s', r)" and inv: "resolution_inv os (K, s)" and b: "tr_authority_binding s \<noteq> BindUnset"
    and K: "\<forall>ks \<in> set keysets. (tr_authority_binding s, ks, t) \<in> K"
  shows "(s' = s \<and> (\<exists>e. r = Inl e)) \<or> (s' = s\<lparr>tr_completed := True\<rparr> \<and> (\<exists>v. r = Inr (Complete v) \<and> tlsa_ok os K s v \<and> vt_validated_at_unix v = ucast t))"
proof (cases r)
  case (Inl e)
  with assms(1) show ?thesis by (auto simp: complete_tlsa_def Let_def split: if_splits sum.splits)
next
  case (Inr x)
  let ?rs = "matching_records m (tr_current_owner s) RtTlsa"
  from assms(1) Inr obtain v xs where len: "length ?rs \<le> rl_max_tlsa_records (tr_limits s)"
    and v: "verify_with_any_keyset os keysets ?rs (matching_signatures m (tr_current_owner s) RtTlsa) t (rl_dnssec (tr_limits s)) = Inr v"
    and xs: "map tlsa_of ?rs = map Inr xs" and s': "s' = s\<lparr>tr_completed := True\<rparr>"
    and x: "x = Complete \<lparr>vt_requested_owner = tr_requested_owner s, vt_terminal_owner = tr_current_owner s, vt_base_domain = tr_base_domain s,
       vt_base_domain_ascii = tr_base_domain_ascii s, vt_records = xs, vt_cname_chain = tr_cname_chain s, vt_rrset = v,
       vt_hns_authority = retained_hns_authority (tr_authority_binding s), vt_validated_at_unix = ucast t,
       vt_expires_at_unix = validated_tlsa_expiry (tr_cname_chain s) v (retained_hns_authority (tr_authority_binding s))\<rparr>"
    by (auto simp: complete_tlsa_def Let_def collect_results_all2 split: if_splits sum.splits)
  have "list_all2 (\<lambda>r tlsa. rr_name r = tr_current_owner s \<and> rr_type r = RtTlsa \<and> rr_rdata r = RdTlsa tlsa) ?rs xs"
    unfolding list_all2_conv_all_nth
  proof (intro conjI allI impI)
    show len: "length ?rs = length xs" using arg_cong [OF xs, of length] by simp
    fix i assume i: "i < length ?rs"
    have "tlsa_of (?rs ! i) = Inr (xs ! i)" using arg_cong [OF xs, of "\<lambda>l. l ! i"] i len by simp
    then show "rr_rdata (?rs ! i) = RdTlsa (xs ! i)" by (auto simp: tlsa_of_def split: rdata.splits)
    show "rr_name (?rs ! i) = tr_current_owner s" "rr_type (?rs ! i) = RtTlsa" using matching_records_in [OF nth_mem [OF i]] by simp_all
  qed
  with verify_with_any_keyset_attested [OF v K] inv b len Inr x s' show ?thesis by (auto simp: tlsa_ok_def)
qed

lemma accept_loop_sound:
  assumes "accept_loop os m keysets t s = (s', r)" and "resolution_inv os (K, s)" and "tr_authority_binding s \<noteq> BindUnset"
    and "\<forall>ks \<in> set keysets. (tr_authority_binding s, ks, t) \<in> K" and "\<not> tr_completed s"
  shows "resolution_inv os (K, s') \<and> tr_requested_owner s' = tr_requested_owner s \<and> tr_base_domain s' = tr_base_domain s \<and>
    tr_limits s' = tr_limits s \<and> tr_authority_binding s' = tr_authority_binding s \<and> (tr_completed s' \<longleftrightarrow> (\<exists>v. r = Inr (Complete v))) \<and>
    (\<forall>v. r = Inr (Complete v) \<longrightarrow> tlsa_ok os K s' v \<and> vt_validated_at_unix v = ucast t) \<and>
    (\<forall>n. r = Inr (FollowCname n) \<longrightarrow> n = tr_current_owner s')"
  using assms
proof (induction os m keysets t s rule: accept_loop.induct)
  case (1 os m keysets t s)
  let ?tlsa = "matching_records m (tr_current_owner s) RtTlsa" and ?cname = "matching_records m (tr_current_owner s) RtCname"
  consider "?tlsa \<noteq> [] \<and> ?cname \<noteq> []" | "?tlsa \<noteq> []" "?cname = []" | "?tlsa = []" by blast
  then show ?case
  proof cases
    case 1
    then show ?thesis using "1.prems" by (subst (asm) accept_loop.simps) auto
  next
    case 2
    then have "complete_tlsa os m keysets t s = (s', r)" using "1.prems"(1) by (subst (asm) accept_loop.simps) simp
    from complete_tlsa_cases [OF this "1.prems"(2-4)] "1.prems" show ?thesis
      by (auto simp: tlsa_ok_def resolution_inv_def)
  next
    case 3
    show ?thesis
    proof (cases "follow_cname os m keysets t s")
      case (Inl e)
      then show ?thesis using 3 "1.prems" by (subst (asm) accept_loop.simps) auto
    next
      case (Inr s1)
      note keeps = follow_cname_keeps [OF Inr] and inv = follow_cname_inv [OF Inr "1.prems"(2,4,3)]
      show ?thesis
      proof (cases "has_owner_data m (tr_current_owner s1)")
        case False
        then show ?thesis using 3 Inr "1.prems" keeps inv by (subst (asm) accept_loop.simps) auto
      next
        case True
        then have "accept_loop os m keysets t s1 = (s', r)" using 3 Inr "1.prems"(1) by (subst (asm) accept_loop.simps) simp
        with "1.IH" [OF refl refl _ _ Inr] True 3 inv keeps "1.prems" show ?thesis by simp
      qed
    qed
  qed
qed

section \<open>Operations\<close>

datatype 'w resolver_op =
  AcceptOp query message "authenticated_dnskeys list" u32
| AcceptHnsOp query message "'w hns_dnssec_authority"

fun resolver_exec ::
  "'key openssl \<Rightarrow> 'w tlsa_resolution \<Rightarrow> 'w resolver_op \<Rightarrow> 'w tlsa_resolution \<times> (resolver_error, 'w resolution_step) result" where
  "resolver_exec os s (AcceptOp q m keysets t) = accept_response os s q m keysets t"
| "resolver_exec os s (AcceptHnsOp q m a) = accept_hns_response os s q m a"

fun op_uses :: "'w resolver_op \<Rightarrow> 'w key_use set" where
  "op_uses (AcceptOp q m keysets t) = (\<lambda>ks. (BindGeneric, ks, t)) ` set keysets"
| "op_uses (AcceptHnsOp q m a) = {(BindHns (au_evidence a), au_keys a, ev_validation_time (au_evidence a))}"

definition resolver_step ::
  "'key openssl \<Rightarrow> 'w key_use set \<times> 'w tlsa_resolution \<Rightarrow> 'w resolver_op \<Rightarrow> 'w key_use set \<times> 'w tlsa_resolution" where
  "resolver_step os Ks op = (fst Ks \<union> op_uses op, fst (resolver_exec os (snd Ks) op))"

lemma accept_inner_sound:
  assumes "accept_response_inner os s q m keysets t b = (s', r)" and inv: "resolution_inv os (K, s)"
    and "\<forall>ks \<in> set keysets. (b, ks, t) \<in> K" and "b \<noteq> BindUnset"
  shows "resolution_inv os (K, s') \<and> tr_requested_owner s' = tr_requested_owner s \<and> tr_base_domain s' = tr_base_domain s \<and>
    tr_limits s' = tr_limits s \<and> (tr_completed s \<longrightarrow> s' = s \<and> r = Inl AlreadyComplete) \<and>
    (tr_authority_binding s \<noteq> BindUnset \<longrightarrow> tr_authority_binding s' = tr_authority_binding s) \<and>
    (\<forall>v. r = Inr (Complete v) \<longrightarrow> tlsa_ok os K s' v \<and> tr_authority_binding s' = b \<and> tr_completed s' \<and> vt_validated_at_unix v = ucast t)"
proof -
  have start: "resolution_inv os (K, s\<lparr>tr_authority_binding := b\<rparr>)" if "tr_authority_binding s = BindUnset"
    using inv that by (auto simp: resolution_inv_def)
  consider (refused) e where "s' = s" "r = Inl e" "tr_completed s \<longrightarrow> e = AlreadyComplete"
    | (unset) "\<not> tr_completed s" "tr_authority_binding s = BindUnset" "accept_loop os m keysets t (s\<lparr>tr_authority_binding := b\<rparr>) = (s', r)"
    | (same) "\<not> tr_completed s" "tr_authority_binding s = b" "accept_loop os m keysets t s = (s', r)"
    using assms(1) by (auto simp: accept_response_inner_def split: if_splits sum.splits)
  then show ?thesis
  proof cases
    case refused
    then show ?thesis using inv by simp
  next
    case unset
    from accept_loop_sound [OF unset(3) start [OF unset(2)]] assms(3,4) unset show ?thesis by simp
  next
    case same
    from accept_loop_sound [OF same(3) inv] assms(3,4) same show ?thesis by simp
  qed
qed

lemma resolver_exec_sound:
  assumes "resolver_exec os s op = (s', r)" and inv: "resolution_inv os (K, s)" and "op_uses op \<subseteq> K"
  shows "resolution_inv os (K, s') \<and> tr_requested_owner s' = tr_requested_owner s \<and> tr_base_domain s' = tr_base_domain s \<and>
    tr_limits s' = tr_limits s \<and> (tr_completed s \<longrightarrow> s' = s) \<and> (\<forall>v. r = Inr (Complete v) \<longrightarrow> tlsa_ok os K s' v \<and> tr_completed s')"
proof (cases op)
  case (AcceptOp q m keysets t)
  with accept_inner_sound [of os s q m keysets t BindGeneric s' r K] assms show ?thesis
    by (auto simp: accept_response_def)
next
  case (AcceptHnsOp q m a)
  with accept_inner_sound [of os s q m "[au_keys a]" "ev_validation_time (au_evidence a)" "BindHns (au_evidence a)" s' r K] assms
  show ?thesis by (auto simp: accept_hns_response_def split: if_splits)
qed

lemma resolver_step_inv: "resolution_inv os Ks \<Longrightarrow> resolution_inv os (resolver_step os Ks op)"
  using resolver_exec_sound [of os "snd Ks" op _ _ "fst Ks \<union> op_uses op"]
    resolution_inv_mono [of os "fst Ks" "snd Ks" "fst Ks \<union> op_uses op"]
  by (cases "resolver_exec os (snd Ks) op") (auto simp: resolver_step_def)

interpretation tlsa_resolver: guarded_machine "resolver_step os" "resolution_inv os" "\<lambda>Ks. tr_completed (snd Ks)"
proof
  fix Ks op assume "resolution_inv os Ks"
  then show "resolution_inv os (resolver_step os Ks op)" by (rule resolver_step_inv)
next
  fix Ks op assume inv: "resolution_inv os Ks" and "tr_completed (snd Ks)"
  with resolver_exec_sound [of os "snd Ks" op _ _ "fst Ks \<union> op_uses op"]
    resolution_inv_mono [of os "fst Ks" "snd Ks" "fst Ks \<union> op_uses op"]
  show "tr_completed (snd (resolver_step os Ks op))"
    by (cases "resolver_exec os (snd Ks) op") (auto simp: resolver_step_def)
qed

section \<open>Runs\<close>

definition run_resolver :: "'key openssl \<Rightarrow> 'w tlsa_resolution \<Rightarrow> 'w resolver_op list \<Rightarrow> 'w tlsa_resolution" where
  "run_resolver os s ops = foldl (\<lambda>s op. fst (resolver_exec os s op)) s ops"

definition all_uses :: "'w resolver_op list \<Rightarrow> 'w key_use set" where
  "all_uses ops = \<Union> (op_uses ` set ops)"

lemma resolver_steps_run: "foldl (resolver_step os) (K, s) ops = (K \<union> all_uses ops, run_resolver os s ops)"
  by (induction ops arbitrary: K s) (auto simp: resolver_step_def all_uses_def run_resolver_def)

lemma for_service_inv:
  "for_service base port transport limits = Inr s \<Longrightarrow> resolution_inv os ({}, s) \<and> tr_base_domain s = base \<and> tr_limits s = limits \<and> \<not> tr_completed s"
  by (auto simp: for_service_def result_inv resolution_inv_def)

lemma run_resolver_keeps:
  "resolution_inv os (K, s) \<Longrightarrow> tr_requested_owner (run_resolver os s ops) = tr_requested_owner s \<and>
     tr_base_domain (run_resolver os s ops) = tr_base_domain s \<and> tr_limits (run_resolver os s ops) = tr_limits s"
proof (induction ops arbitrary: K s)
  case (Cons op ops)
  have inv: "resolution_inv os (K \<union> op_uses op, s)" by (rule resolution_inv_mono [OF Cons.prems]) simp
  obtain s1 r where e: "resolver_exec os s op = (s1, r)" by (cases "resolver_exec os s op")
  from resolver_exec_sound [OF e inv] Cons.IH [of "K \<union> op_uses op" s1] e show ?case by (simp add: run_resolver_def)
qed (simp add: run_resolver_def)

lemma resolver_run_sound:
  assumes s0: "for_service base port transport limits = Inr s0"
    and e: "resolver_exec os (run_resolver os s0 ops) op = (s, r)"
  shows "resolution_inv os (all_uses (ops @ [op]), s) \<and> tr_requested_owner s = tr_requested_owner s0 \<and> tr_base_domain s = base \<and>
    tr_limits s = limits \<and> (\<forall>v. r = Inr (Complete v) \<longrightarrow> tlsa_ok os (all_uses (ops @ [op])) s v \<and> tr_completed s)"
proof -
  note inv = for_service_inv [OF s0, of os]
  have "resolution_inv os (all_uses ops, run_resolver os s0 ops)"
    using tlsa_resolver.run_inv [of os "({}, s0)" ops] inv by (simp add: resolver_steps_run)
  then have "resolution_inv os (all_uses (ops @ [op]), run_resolver os s0 ops)"
    by (rule resolution_inv_mono) (auto simp: all_uses_def)
  moreover have "op_uses op \<subseteq> all_uses (ops @ [op])" by (simp add: all_uses_def)
  ultimately show ?thesis using resolver_exec_sound [OF e] run_resolver_keeps [of os "{}" s0 ops] inv by simp
qed

lemma foldl_min_le: "foldl min x xs \<le> (x :: u64) \<and> (\<forall>y \<in> set xs. foldl min x xs \<le> y)"
proof (induction xs arbitrary: x)
  case (Cons a xs)
  from Cons.IH [of "min x a"] show ?case by auto
qed simp

lemma expiry_le:
  "x \<in> set (map (\<lambda>e. vr_expires_at_unix (vc_rrset e)) chain @ [vr_expires_at_unix terminal] @ (case h of None \<Rightarrow> [] | Some e \<Rightarrow> [ev_expires_at_unix e])) \<Longrightarrow>
     validated_tlsa_expiry chain terminal h \<le> x"
  unfolding validated_tlsa_expiry_def
  by (cases "map (\<lambda>e. vr_expires_at_unix (vc_rrset e)) chain @ [vr_expires_at_unix terminal] @ (case h of None \<Rightarrow> [] | Some e \<Rightarrow> [ev_expires_at_unix e])")
    (simp_all only: list.case, auto simp: foldl_min_le)

section \<open>HNS authorities\<close>

lemma hns_authenticate_sound:
  assumes "hns_authenticate os vr dnskeys signatures t limits = Some (Inr a)"
  shows "from_labels [vh_name vr] = Inr (ev_zone (au_evidence a)) \<and> ev_anchor (au_evidence a) = vh_anchor vr \<and>
    ev_validation_time (au_evidence a) = t \<and> an_validated_at (vh_anchor vr) = ucast t \<and> ucast t \<le> an_valid_until (vh_anchor vr) \<and>
    authenticate_dnskeys os (ev_zone (au_evidence a)) (trusted_ds_records (ev_zone (au_evidence a)) (vh_resource vr)) dnskeys signatures t limits =
      Some (Inr (au_keys a)) \<and>
    ev_expires_at_unix (au_evidence a) = min (ak_expires_at_unix (au_keys a)) (u64_saturating_add (an_valid_until (vh_anchor vr)) 1)"
  using assms by (auto simp: hns_authenticate_def Let_def result_inv not_less split: if_splits sum.splits)

lemma trusted_ds_committed:
  "r \<in> set (trusted_ds_records zone res) \<Longrightarrow> \<exists>sg. HrDs sg \<in> set (hr_records res) \<and> rr_name r = zone \<and>
     rr_rdata r = RdDs \<lparr>ds_key_tag = sg_key_tag sg, ds_algorithm = sg_algorithm sg, ds_digest_type = sg_digest_type sg, ds_digest = sg_digest sg\<rparr>"
  by (auto simp: trusted_ds_records_def delegation_signers_def List.map_filter_def split: hns_resource_record.splits)

text \<open>The uses of a run whose every response was offered with one authority.\<close>

definition hns_only :: "'w hns_dnssec_authority \<Rightarrow> 'w resolver_op list \<Rightarrow> bool" where
  "hns_only a ops \<longleftrightarrow> list_all (\<lambda>op. case op of AcceptHnsOp q m a' \<Rightarrow> a' = a | AcceptOp _ _ _ _ \<Rightarrow> False) ops"

lemma hns_only_uses: "hns_only a ops \<Longrightarrow> (b, ks, t) \<in> all_uses ops \<Longrightarrow>
    b = BindHns (au_evidence a) \<and> ks = au_keys a \<and> t = ev_validation_time (au_evidence a)"
  by (auto simp: hns_only_def all_uses_def list_all_iff split: resolver_op.splits) (metis op_uses.simps(2) resolver_op.exhaust singletonD prod.inject)+

lemma hns_exec_complete:
  assumes "resolver_exec os s (AcceptHnsOp q m a) = (s', Inr (Complete v))" and "resolution_inv os (K, s)"
  shows "suffix (labels (ev_zone (au_evidence a))) (labels (tr_base_domain s)) \<and>
    vt_hns_authority v = Some (au_evidence a) \<and> vt_validated_at_unix v = ucast (ev_validation_time (au_evidence a))"
proof -
  let ?K = "K \<union> op_uses (AcceptHnsOp q m a)"
  have "resolution_inv os (?K, s)" by (rule resolution_inv_mono [OF assms(2)]) blast
  moreover from assms(1) have e: "accept_response_inner os s q m [au_keys a] (ev_validation_time (au_evidence a)) (BindHns (au_evidence a)) =
      (s', Inr (Complete v))" and z: "name_is_suffix (tr_base_domain s) (ev_zone (au_evidence a))"
    by (auto simp: accept_hns_response_def split: if_splits)
  ultimately have "tlsa_ok os ?K s' v \<and> tr_authority_binding s' = BindHns (au_evidence a) \<and>
      vt_validated_at_unix v = ucast (ev_validation_time (au_evidence a))"
    using accept_inner_sound [OF e] by simp
  with z show ?thesis by (auto simp: tlsa_ok_def retained_hns_authority_def name_is_suffix_iff)
qed

lemma attested_by_authority:
  assumes os: "openssl_laws os" and keys: "authenticate_dnskeys os zone ds dnskeys signatures t dl = Some (Inr (au_keys a))"
    and hns: "hns_only a ops" and t: "ev_validation_time (au_evidence a) = t" and at: "attested os limits (all_uses ops) b rs v"
  shows "suffix (labels zone) (labels (rr_name (hd rs))) \<and> wf_rrset rs \<and>
    (\<exists>sr sig. usable_signature (hd rs) t sr sig \<and> signature_accepts os rs dnskeys limits sig) \<and>
    (\<forall>r \<in> set rs. unat (vr_expires_at_unix v) \<le> unat t + unat (rr_ttl r))"
proof -
  note k = authenticate_dnskeys_sound [OF os keys]
  from at obtain ks t' sigs where use: "(b, ks, t') \<in> all_uses ops" and z: "suffix (labels (ak_zone ks)) (labels (rr_name (hd rs)))"
    and v: "verify_rrset_with_keys os ks rs sigs t' limits = Inr v" unfolding attested_def by blast
  have [simp]: "ks = au_keys a" "t' = t" using hns_only_uses [OF hns use] t by simp_all
  from v obtain w where w: "verify_rrset os rs sigs dnskeys t limits = Inr w"
    and vw: "vr_expires_at_unix v \<le> vr_expires_at_unix w" using k by (auto simp: verify_rrset_with_keys_def result_inv split: if_splits)
  from w obtain sr sig where "usable_signature (hd rs) t sr sig" "signature_accepts os rs dnskeys limits sig"
    "w = verified_of rs (hd rs) sr sig t" "wf_rrset rs" by (rule verify_rrset_sound)
  moreover from this(3) vw have "unat (vr_expires_at_unix v) \<le> unat t + unat (rr_ttl r)" if "r \<in> set rs" for r
    using rrset_expires_at_le(1) [OF that, of sr sig t] by (simp add: verified_of_def word_le_nat_alt)
  ultimately show ?thesis using z k by auto
qed

lemma edges_by_authority:
  assumes os: "openssl_laws os" and keys: "authenticate_dnskeys os zone ds dnskeys signatures t dl = Some (Inr (au_keys a))"
    and hns: "hns_only a ops" and t: "ev_validation_time (au_evidence a) = t"
    and edges: "list_all (edge_ok os limits (all_uses ops) b) chain"
  shows "list_all (\<lambda>c. suffix (labels zone) (labels (vc_owner c))) chain"
  using edges unfolding list_all_iff
proof (intro ballI)
  fix c assume "c \<in> set chain" "\<forall>c \<in> set chain. edge_ok os limits (all_uses ops) b c"
  then obtain r where "rr_name r = vc_owner c" "attested os limits (all_uses ops) b [r] (vc_rrset c)" unfolding edge_ok_def by blast
  with attested_by_authority [OF os keys hns t this(2)] show "suffix (labels zone) (labels (vc_owner c))" by simp
qed

lemma fresh_until:
  "(now :: u64) < min k (u64_saturating_add m 1) \<Longrightarrow> now \<le> m"
proof -
  assume "now < min k (u64_saturating_add m 1)"
  then have "unat now < unat (u64_saturating_add m 1)" by (simp add: word_less_nat_alt unat_min)
  also have "\<dots> \<le> unat m + 1"
  proof (cases "unat m + 1 \<le> u64_max")
    case True
    then have "u64_saturating_add m 1 = m + 1" "m \<noteq> - 1" using unat_u64_max by (auto simp: u64_saturating_add_def)
    then show ?thesis by (simp add: unat_succ)
  next
    case False
    then show ?thesis using unat_u64_le [of "u64_saturating_add m 1"] by simp
  qed
  finally show "now \<le> m" by (simp add: word_le_nat_alt)
qed

section \<open>Sample\<close>

definition sample_tlsa_owner :: dns_name where
  "sample_tlsa_owner = Name [[95, 52, 52, 51], [95, 116, 99, 112], [97]]"

definition sample_tlsa_record :: resource_record where
  "sample_tlsa_record = \<lparr>rr_name = sample_tlsa_owner, rr_type = RtTlsa, rr_class = CLASS_IN, rr_ttl = 60,
     rr_rdata = RdTlsa \<lparr>tlsa_usage = 3, tlsa_selector = 1, tlsa_matching_type = 1, tlsa_association_data = [9]\<rparr>\<rparr>"

definition sample_tlsa_rrsig :: rrsig where
  "sample_tlsa_rrsig = (sample_rrsig RtTlsa [1])\<lparr>rs_labels := 3\<rparr>"

definition sample_tlsa_signature :: resource_record where
  "sample_tlsa_signature = \<lparr>rr_name = sample_tlsa_owner, rr_type = RtRrsig, rr_class = CLASS_IN, rr_ttl = 60,
     rr_rdata = RdRrsig sample_tlsa_rrsig\<rparr>"

definition sample_tlsa_query :: query where
  "sample_tlsa_query = \<lparr>query_id = 7, query_question = \<lparr>q_name = sample_tlsa_owner, q_type = RtTlsa, q_class = CLASS_IN\<rparr>\<rparr>"

definition sample_tlsa_response :: message where
  "sample_tlsa_response = \<lparr>m_header = \<lparr>hdr_id = 7, hdr_flags = Flags 0x8000, question_count = 1, answer_count = 2, authority_count = 0,
       additional_count = 0\<rparr>, m_questions = [query_question sample_tlsa_query], m_answers = [sample_tlsa_record, sample_tlsa_signature],
     m_authorities = [], m_additionals = []\<rparr>"

definition sample_resolution :: "nat tlsa_resolution" where
  "sample_resolution = \<lparr>tr_requested_owner = sample_tlsa_owner, tr_current_owner = sample_tlsa_owner, tr_base_domain = sample_zone,
     tr_base_domain_ascii = [97], tr_visited = {sample_tlsa_owner}, tr_cname_chain = [], tr_completed = False,
     tr_limits = default_resolver_limits, tr_authority_binding = BindUnset\<rparr>"

lemma sample_for_https: "for_service sample_zone 443 TlsaTcp default_resolver_limits = Inr sample_resolution"
proof -
  have "ascii_host sample_zone = Inr [97]" by (simp add: ascii_host_def sample_zone_def is_root_def is_ascii_alphanumeric_def)
  moreover have "tlsa_owner_derive [97] 443 TlsaTcp = Inr \<lparr>to_host = [97], to_resolver_name = [95, 52, 52, 51, 46, 95, 116, 99, 112, 46, 97],
      to_fqdn = [95, 52, 52, 51, 46, 95, 116, 99, 112, 46, 97, 46], to_port = 443, to_transport = TlsaTcp\<rparr>" by code_simp
  moreover have "from_ascii [95, 52, 52, 51, 46, 95, 116, 99, 112, 46, 97] = Inr sample_tlsa_owner"
    by (simp add: from_ascii_def strip_dot_def from_labels_def usize_add_def usize_max_def sample_tlsa_owner_def canonical_label_def
        to_ascii_lowercase_def labels_len_def MAX_LABEL_LEN_def MAX_WIRE_NAME_LEN_def)
  ultimately show ?thesis by (simp add: for_service_def sample_resolution_def)
qed

lemma sample_tlsa_verified:
  "verify_rrset_with_keys sample_os sample_keys [sample_tlsa_record] [sample_tlsa_signature] 1500 default_dnssec_limits =
     Inr (verified_of [sample_tlsa_record] sample_tlsa_record sample_tlsa_signature sample_tlsa_rrsig 1500)"
proof -
  have data: "\<exists>d. rrsig_signed_data [sample_tlsa_record] sample_tlsa_rrsig (sl_max_signed_data_len default_dnssec_limits) = Inr d"
    by (simp add: signed_data_eval sample_defs sample_tlsa_rrsig_def sample_tlsa_record_def sample_tlsa_owner_def default_dnssec_limits_def)
  have accepts: "key_accepts sample_os sample_tlsa_rrsig d sample_key_record" for d
    using sample_key_accepts [of RtTlsa "[1]" d] by (simp add: key_accepts_def usable_key_def sample_tlsa_rrsig_def)
  have use: "usable_signature sample_tlsa_record 1500 sample_tlsa_signature sig \<longleftrightarrow> sig = sample_tlsa_rrsig" for sig
    by (auto simp: signature_defs rrsig_for_def serial_in_window_def serial_le_def supported_algorithm_def algorithm_numbers
        sample_tlsa_signature_def sample_tlsa_rrsig_def sample_rrsig_def sample_tlsa_record_def sample_tlsa_owner_def)
  have wf: "wf_rrset [sample_tlsa_record]" "within_limits default_dnssec_limits [sample_tlsa_record] [sample_tlsa_signature] [sample_key_record]"
    by (simp_all add: wf_rrset_def within_limits_def default_dnssec_limits_def sample_tlsa_record_def)
  have "verify_rrset sample_os [sample_tlsa_record] [sample_tlsa_signature] [sample_key_record] 1500 default_dnssec_limits =
      Inr (verified_of [sample_tlsa_record] sample_tlsa_record sample_tlsa_signature sample_tlsa_rrsig 1500)"
    unfolding verify_rrset_Inr reaches_Cons using data accepts by (auto simp: use signature_accepts_def wf)
  moreover have "vr_expires_at_unix (verified_of [sample_tlsa_record] sample_tlsa_record sample_tlsa_signature sample_tlsa_rrsig 1500) = 1560"
    by (simp add: verified_of_def rrset_expires_at_def iter_min_def sample_tlsa_record_def sample_tlsa_signature_def sample_tlsa_rrsig_def sample_rrsig_def)
  ultimately show ?thesis by (simp add: verify_rrset_with_keys_def sample_keys_def keys_fresh_at_def)
qed

definition sample_hns_evidence :: "nat hns_authority_evidence" where
  "sample_hns_evidence = \<lparr>ev_anchor = \<lparr>an_network = RegTest, an_height = 9, an_block_hash = [], an_tree_root = [7], an_chainwork = 1,
       an_validated_at = 1500, an_valid_until = 1600\<rparr>, ev_zone = sample_zone, ev_validation_time = 1500, ev_expires_at_unix = 1560\<rparr>"

definition sample_authority :: "nat hns_dnssec_authority" where
  "sample_authority = \<lparr>au_evidence = sample_hns_evidence, au_keys = sample_keys\<rparr>"

lemma sample_matching:
  "matching_records sample_tlsa_response sample_tlsa_owner RtTlsa = [sample_tlsa_record]"
  "matching_records sample_tlsa_response sample_tlsa_owner RtCname = []"
  "matching_signatures sample_tlsa_response sample_tlsa_owner RtTlsa = [sample_tlsa_signature]"
  by (simp_all add: matching_records_def matching_signatures_def sample_tlsa_response_def sample_tlsa_record_def sample_tlsa_signature_def
      sample_tlsa_rrsig_def sample_rrsig_def)

lemma sample_completes:
  "\<exists>s v. resolver_exec sample_os sample_resolution (AcceptHnsOp sample_tlsa_query sample_tlsa_response sample_authority) = (s, Inr (Complete v)) \<and>
     vt_records v = [\<lparr>tlsa_usage = 3, tlsa_selector = 1, tlsa_matching_type = 1, tlsa_association_data = [9]\<rparr>] \<and>
     vt_hns_authority v = Some sample_hns_evidence"
proof -
  have cor: "\<exists>c. correlate sample_tlsa_query sample_tlsa_response = Inr c"
    by (simp add: correlate_def sample_tlsa_query_def sample_tlsa_response_def is_response_def opcode_def truncated_def Let_def)
  have "name_is_suffix sample_zone sample_zone" "name_is_suffix sample_tlsa_owner sample_zone" "rcode (hdr_flags (m_header sample_tlsa_response)) = 0"
    by (simp_all add: name_is_suffix_def sample_zone_def sample_tlsa_owner_def rcode_def sample_tlsa_response_def)
  then have "verify_with_any_keyset sample_os [sample_keys] [sample_tlsa_record] [sample_tlsa_signature] 1500 default_dnssec_limits =
      Inr (verified_of [sample_tlsa_record] sample_tlsa_record sample_tlsa_signature sample_tlsa_rrsig 1500)"
    using sample_tlsa_verified by (simp add: verify_with_any_keyset_def sample_keys_def) (simp add: sample_tlsa_record_def)
  moreover have "tlsa_of sample_tlsa_record = Inr \<lparr>tlsa_usage = 3, tlsa_selector = 1, tlsa_matching_type = 1, tlsa_association_data = [9]\<rparr>"
    by (simp add: tlsa_of_def sample_tlsa_record_def)
  ultimately show ?thesis
    using cor \<open>name_is_suffix sample_zone sample_zone\<close> \<open>rcode _ = 0\<close>
    by (auto simp: accept_hns_response_def accept_response_inner_def sample_resolution_def sample_authority_def sample_hns_evidence_def
        sample_tlsa_query_def accept_loop.simps [of _ sample_tlsa_response] complete_tlsa_def sample_matching default_resolver_limits_def
        DEFAULT_MAX_TLSA_RECORDS_def retained_hns_authority_def Let_def)
qed

section \<open>Properties\<close>

text \<open>C4: Whatever responses a resolution is given, if it completes then the result belongs to the requested service; its
  CNAME records lead without repetition from the service owner to the owner of the TLSA records, in at most
  the allowed number of hops; every record set on the way, and the TLSA record set, was verified under a key
  set of an enclosing zone supplied for the one authority the result is bound to; the result expires no later
  than any of its parts; and the completed resolution never changes again.\<close>

theorem tlsa_resolution_sound:
  assumes s0: "for_service base port transport limits = Inr s0"
    and e: "resolver_exec os (run_resolver os s0 ops) op = (s, Inr (Complete v))"
  shows "vt_base_domain v = base \<and> vt_requested_owner v = tr_requested_owner s0 \<and>
    cname_path (vt_requested_owner v) (vt_cname_chain v) (vt_terminal_owner v) \<and>
    distinct (vt_requested_owner v # map vc_target (vt_cname_chain v)) \<and> length (vt_cname_chain v) \<le> rl_max_cname_hops limits \<and>
    (\<exists>b. b \<noteq> BindUnset \<and> vt_hns_authority v = retained_hns_authority b \<and>
       list_all (edge_ok os (rl_dnssec limits) (all_uses (ops @ [op])) b) (vt_cname_chain v) \<and>
       (\<exists>rs. attested os (rl_dnssec limits) (all_uses (ops @ [op])) b rs (vt_rrset v) \<and> length rs \<le> rl_max_tlsa_records limits \<and>
          list_all2 (\<lambda>r tlsa. rr_name r = vt_terminal_owner v \<and> rr_type r = RtTlsa \<and> rr_rdata r = RdTlsa tlsa) rs (vt_records v))) \<and>
    list_all (\<lambda>c. vt_expires_at_unix v \<le> vr_expires_at_unix (vc_rrset c)) (vt_cname_chain v) \<and>
    vt_expires_at_unix v \<le> vr_expires_at_unix (vt_rrset v) \<and>
    (case vt_hns_authority v of None \<Rightarrow> True | Some ev \<Rightarrow> vt_expires_at_unix v \<le> ev_expires_at_unix ev) \<and>
    fst (resolver_exec os s later) = s"
proof -
  note run = resolver_run_sound [OF s0 e]
  then have ok: "tlsa_ok os (all_uses (ops @ [op])) s v" and done_s: "tr_completed s" by simp_all
  have exp: "vt_expires_at_unix v = validated_tlsa_expiry (vt_cname_chain v) (vt_rrset v) (vt_hns_authority v)"
    using ok by (simp add: tlsa_ok_def)
  have "list_all (\<lambda>c. vt_expires_at_unix v \<le> vr_expires_at_unix (vc_rrset c)) (vt_cname_chain v)"
    "vt_expires_at_unix v \<le> vr_expires_at_unix (vt_rrset v)"
    "case vt_hns_authority v of None \<Rightarrow> True | Some ev \<Rightarrow> vt_expires_at_unix v \<le> ev_expires_at_unix ev"
    unfolding list_all_iff exp by (auto intro!: expiry_le split: option.split)
  moreover have "resolution_inv os (all_uses (ops @ [op]) \<union> op_uses later, s)"
    by (rule resolution_inv_mono [of _ "all_uses (ops @ [op])"]) (use run in auto)
  then have "fst (resolver_exec os s later) = s"
    using resolver_exec_sound [of os s later] done_s by (cases "resolver_exec os s later") (metis fst_conv sup_ge2)
  moreover have same: "tr_limits s = limits" "tr_requested_owner s = tr_requested_owner s0" "tr_base_domain s = base" using run by simp_all
  ultimately show ?thesis using tlsa_okD [OF ok, unfolded same] by blast
qed

lemma retained_Some: "retained_hns_authority b = Some ev \<longleftrightarrow> b = BindHns ev"
  "Some ev = retained_hns_authority b \<longleftrightarrow> b = BindHns ev"
  by (auto simp: retained_hns_authority_def split: authority_binding.splits)

theorem tlsa_resolution_sound_witness:
  "\<exists>s v rs. resolver_exec sample_os sample_resolution (AcceptHnsOp sample_tlsa_query sample_tlsa_response sample_authority) = (s, Inr (Complete v)) \<and>
     attested sample_os default_dnssec_limits (all_uses [AcceptHnsOp sample_tlsa_query sample_tlsa_response sample_authority])
       (BindHns sample_hns_evidence) rs (vt_rrset v) \<and> length rs = 1"
proof -
  let ?op = "AcceptHnsOp sample_tlsa_query sample_tlsa_response sample_authority"
  from sample_completes obtain s v where e: "resolver_exec sample_os sample_resolution ?op = (s, Inr (Complete v))"
    and v: "vt_records v = [\<lparr>tlsa_usage = 3, tlsa_selector = 1, tlsa_matching_type = 1, tlsa_association_data = [9]\<rparr>]"
      "vt_hns_authority v = Some sample_hns_evidence" by blast
  from e have "resolver_exec sample_os (run_resolver sample_os sample_resolution []) ?op = (s, Inr (Complete v))"
    by (simp add: run_resolver_def)
  from tlsa_resolution_sound [OF sample_for_https this] obtain b rs where "vt_hns_authority v = retained_hns_authority b"
    "attested sample_os (rl_dnssec default_resolver_limits) (all_uses ([] @ [?op])) b rs (vt_rrset v)"
    "list_all2 (\<lambda>r tlsa. rr_name r = vt_terminal_owner v \<and> rr_type r = RtTlsa \<and> rr_rdata r = RdTlsa tlsa) rs (vt_records v)" by blast
  then have "attested sample_os default_dnssec_limits (all_uses [?op]) (BindHns sample_hns_evidence) rs (vt_rrset v)" "length rs = 1"
    using v by (auto simp: retained_Some default_resolver_limits_def dest: list_all2_lengthD)
  with e show ?thesis by blast
qed

end
