(* ===== verification/Hns_Resource_Laws.thy ===== *)
theory Hns_Resource_Laws
  imports Hns_Resource Dns_Name
begin

unbundle bit_operations_syntax

text \<open>
  Correctness of the HNS resource reader and of name verification: what a decoded resource says is the only
  reading of its bytes, its names keep the DNS bounds, every uncompressed resource is read back, and a
  verified resource is the one committed under the anchor's tree root.
\<close>

section \<open>The reading of a resource is unique\<close>

lemma name_at_unique: "name_at input c ls p \<Longrightarrow> name_at input c ls' p' \<Longrightarrow> ls' = ls \<and> p' = p"
proof (induction arbitrary: ls' p' rule: name_at.induct)
  case (name_at_root c)
  from name_at_root.prems show ?case
    by cases (simp_all add: name_at_root.hyps)
next
  case (name_at_label c len ls p)
  note h = name_at_label.hyps(1-4) and IH = name_at_label.IH
  from name_at_label.prems show ?case
  proof cases
    case name_at_root
    with h show ?thesis by simp
  next
    case (name_at_label len' rest)
    with h(1) IH [of rest p'] show ?thesis by simp
  next
    case (name_at_pointer target q)
    with h(1,3) show ?thesis by simp
  qed
next
  case (name_at_pointer c target ls q)
  note h = name_at_pointer.hyps(1-4) and IH = name_at_pointer.IH
  from name_at_pointer.prems show ?case
  proof cases
    case name_at_root
    with h(2) show ?thesis by simp
  next
    case (name_at_label len' rest)
    with h(2) show ?thesis by simp
  next
    case (name_at_pointer target' q')
    with h(3) IH [of ls' q'] show ?thesis by simp
  qed
qed

lemma bytes_at_drop: "bytes_at input c bs p \<longleftrightarrow> p = c + length bs \<and> p \<le> length input \<and> (\<exists>rest. drop c input = bs @ rest)"
  unfolding bytes_at_def by (metis append_eq_conv_conj append_take_drop_id)

lemma byte_len: "n < 256 \<Longrightarrow> unat (of_nat n :: u8) = n"
  by (simp add: unat_of_nat)

lemma byte_len_eq: "n < 256 \<Longrightarrow> m < 256 \<Longrightarrow> (of_nat n :: u8) = of_nat m \<longleftrightarrow> n = m"
  by (metis byte_len)

lemma prefixed_unique:
  assumes "prefixed s @ r = prefixed s' @ r'" and "length s < 256" and "length s' < 256"
  shows "s = s' \<and> r = r'"
proof -
  have "length s = length s'" using assms byte_len_eq by (simp add: prefixed_def)
  then show ?thesis using assms(1) by (simp add: prefixed_def)
qed

lemma strings_unique:
  "concat (map prefixed ss) @ r = concat (map prefixed ss') @ r' \<Longrightarrow> length ss = length ss' \<Longrightarrow>
   \<forall>s \<in> set ss. length s < 256 \<Longrightarrow> \<forall>s \<in> set ss'. length s < 256 \<Longrightarrow> ss = ss' \<and> r = r'"
proof (induction ss arbitrary: ss')
  case (Cons s ss)
  then obtain s' rest where ss': "ss' = s' # rest" by (cases ss') auto
  with Cons.prems have "s = s' \<and> concat (map prefixed ss) @ r = concat (map prefixed rest) @ r'"
    by (intro prefixed_unique) auto
  with Cons.IH [of rest] Cons.prems ss' show ?case by auto
qed simp

fun record_kind :: "hns_resource_record \<Rightarrow> u8" where
  "record_kind (HrDs s) = 0"
| "record_kind (HrNs n) = 1"
| "record_kind (HrGlue4 n a) = 2"
| "record_kind (HrGlue6 n a) = 3"
| "record_kind (HrSynth4 a) = 4"
| "record_kind (HrSynth6 a) = 5"
| "record_kind (HrTxt ss) = 6"

lemma bytes_at_hd: "bytes_at input c (b # bs) p \<Longrightarrow> c < length input \<and> input ! c = b"
proof -
  assume "bytes_at input c (b # bs) p"
  then obtain rest where "c < length input" "drop c input = b # bs @ rest" by (auto simp: bytes_at_drop)
  then show ?thesis by (metis hd_drop_conv_nth list.sel(1))
qed

lemma record_at_kind: "record_at input c x p \<Longrightarrow> input ! c = record_kind x"
  by (cases x) (auto dest: bytes_at_hd)

lemma be_bytes_2_inj: "be_bytes 2 (v :: u16) = be_bytes 2 w \<longleftrightarrow> v = w"
  by (metis be_word_widths(1))

lemma octets_inj: "v4_octets a = v4_octets a' \<longleftrightarrow> a = a'" "v6_octets b = v6_octets b' \<longleftrightarrow> b = b'"
  by (metis v4_from_octets_octets option.inject) (metis v6_from_octets_octets option.inject)

lemma glue_unique:
  assumes "name_at input c (rn_labels n) q" and "bytes_at input q bs p"
    and "name_at input c (rn_labels n') q'" and "bytes_at input q' bs' p'" and "length bs = length bs'"
  shows "n = n' \<and> bs = bs' \<and> p = p'"
proof -
  have "rn_labels n' = rn_labels n \<and> q' = q" by (rule name_at_unique [OF assms(1,3)])
  moreover from this assms(2,4,5) have "bs = bs' \<and> p = p'" unfolding bytes_at_def by metis
  ultimately show ?thesis by (simp add: resource_name.expand)
qed

lemma record_at_unique:
  assumes "record_at input c x p" and "record_at input c y q"
  shows "x = y \<and> p = q"
proof -
  have "record_kind x = record_kind y" using assms by (metis record_at_kind)
  then show ?thesis
  proof (cases x)
    case (HrDs s)
    with \<open>record_kind x = record_kind y\<close> obtain s' where y: "y = HrDs s'" by (cases y) auto
    from assms [unfolded HrDs y record_at.simps bytes_at_drop] obtain r r' where "drop c input = ([0] @ be_bytes 2 (sg_key_tag s) @ [sg_algorithm s] @
        [sg_digest_type s] @ prefixed (sg_digest s)) @ r" and "drop c input = ([0] @ be_bytes 2 (sg_key_tag s') @
        [sg_algorithm s'] @ [sg_digest_type s'] @ prefixed (sg_digest s')) @ r'"
      by blast
    then have "sg_key_tag s = sg_key_tag s'" "sg_algorithm s = sg_algorithm s'" "sg_digest_type s = sg_digest_type s'"
        "prefixed (sg_digest s) @ r = prefixed (sg_digest s') @ r'"
      by (simp_all add: be_bytes_2_inj)
    moreover from this(4) have "sg_digest s = sg_digest s'" using assms(1,2) HrDs y by (auto dest!: prefixed_unique)
    ultimately have "s = s'" by simp
    with assms HrDs y show ?thesis by (auto simp: bytes_at_def)
  next
    case (HrNs n)
    with \<open>record_kind x = record_kind y\<close> assms show ?thesis
      by (cases y) (auto dest: name_at_unique intro: resource_name.expand)
  next
    case (HrGlue4 n a)
    with \<open>record_kind x = record_kind y\<close> obtain n' a' where y: "y = HrGlue4 n' a'" by (cases y) auto
    from assms [unfolded HrGlue4 y record_at.simps] have "n = n' \<and> v4_octets a = v4_octets a' \<and> p = q"
      by (elim conjE exE) (rule glue_unique, simp_all)
    with HrGlue4 y show ?thesis by (simp add: octets_inj)
  next
    case (HrGlue6 n a)
    with \<open>record_kind x = record_kind y\<close> obtain n' a' where y: "y = HrGlue6 n' a'" by (cases y) auto
    from assms [unfolded HrGlue6 y record_at.simps] have "n = n' \<and> v6_octets a = v6_octets a' \<and> p = q"
      by (elim conjE exE) (rule glue_unique, simp_all)
    with HrGlue6 y show ?thesis by (simp add: octets_inj)
  next
    case (HrSynth4 a)
    with \<open>record_kind x = record_kind y\<close> assms show ?thesis by (cases y) (auto simp: bytes_at_drop octets_inj)
  next
    case (HrSynth6 a)
    with \<open>record_kind x = record_kind y\<close> assms show ?thesis by (cases y) (auto simp: bytes_at_drop octets_inj)
  next
    case (HrTxt ss)
    with \<open>record_kind x = record_kind y\<close> obtain ss' where y: "y = HrTxt ss'" by (cases y) auto
    note at = assms [unfolded HrTxt y record_at.simps]
    from at obtain r r' where "drop c input = ([6] @ [of_nat (length ss)] @ concat (map prefixed ss)) @ r"
        and "drop c input = ([6] @ [of_nat (length ss')] @ concat (map prefixed ss')) @ r'"
      unfolding bytes_at_drop by blast
    then have eq: "of_nat (length ss) # concat (map prefixed ss) @ r = of_nat (length ss') # concat (map prefixed ss') @ r'"
      by simp
    have "length ss = length ss'" using eq at byte_len_eq by auto
    moreover from this eq have "concat (map prefixed ss) @ r = concat (map prefixed ss') @ r'" by simp
    ultimately have "ss = ss'" using at strings_unique by blast
    with at HrTxt y show ?thesis by (simp add: bytes_at_def)
  qed
qed

inductive records_at :: "bytes \<Rightarrow> usize \<Rightarrow> hns_resource_record list \<Rightarrow> bool" for input where
  records_at_end: "records_at input (length input) []"
| records_at_record: "record_at input c x p \<Longrightarrow> records_at input p xs \<Longrightarrow> records_at input c (x # xs)"

inductive_cases records_at_atE: "records_at input c xs"

lemma records_at_unique: "records_at input c xs \<Longrightarrow> records_at input c ys \<Longrightarrow> ys = xs"
proof (induction arbitrary: ys rule: records_at.induct)
  case records_at_end
  then show ?case by (rule records_at_atE) (auto dest: record_at_bounds)
next
  case (records_at_record c x p xs)
  have "c \<noteq> length input" using record_at_bounds [OF records_at_record.hyps(1)] by simp
  with records_at_record.prems obtain y q rest where "ys = y # rest" "record_at input c y q" "records_at input q rest"
    by (auto elim: records_at_atE)
  with records_at_record record_at_unique show ?case by blast
qed

lemma decode_records_sound:
  assumes "decode_records r acc = (Inr (out, r') :: ('x, hns_resource_record list) reading)"
  shows "\<exists>xs. out = acc @ xs \<and> records_at (rx_input r) (rx_position r) xs \<and>
     list_all (\<lambda>x. list_all wf_resource_name (record_names x)) xs"
  using assms
proof (induction "length (rx_input r) - rx_position r" arbitrary: r acc rule: less_induct)
  case less
  show ?case
  proof (cases "is_finished r")
    case True
    with less.prems show ?thesis
      by (subst (asm) decode_records.simps) (auto simp: is_finished_def intro: records_at_end)
  next
    case False
    with less.prems obtain kind r1 x r2 where 1: "reader_read_u8 r = (Inr (kind, r1) :: ('x, u8) reading)" and k: "kind \<le> 6"
      and 2: "read_resource_record kind r1 = (Inr (x, r2) :: ('x, hns_resource_record) reading)"
      and 3: "decode_records r2 (acc @ [x]) = (Inr (out, r') :: ('x, hns_resource_record list) reading)"
      by (subst (asm) decode_records.simps) (auto simp: result_inv MAX_KNOWN_RESOURCE_KIND_def split: if_splits)
    note u = reader_read_u8_sound [OF 1]
    then have "bytes_at (rx_input r1) (rx_position r) [kind] (rx_position r1)" by simp
    note x = read_resource_record_sound [OF 2 this k]
    with u have at: "record_at (rx_input r) (rx_position r) x (rx_position r2)" "rx_input r2 = rx_input r" by auto
    from record_at_bounds [OF at(1)] at(2) have "length (rx_input r2) - rx_position r2 < length (rx_input r) - rx_position r" by auto
    from less.hyps [OF this 3] at x show ?thesis by (auto intro: records_at_record)
  qed
qed

lemma resource_decode_sound:
  assumes "resource_decode L raw = Inr res"
  shows "hr_raw res = raw \<and> length raw \<le> nl_max_resource_size L \<and> bytes_at raw 0 [0] 1 \<and>
     records_at raw 1 (hr_records res) \<and> list_all (\<lambda>x. list_all wf_resource_name (record_names x)) (hr_records res)"
  using assms
  by (auto simp: resource_decode_def result_inv resource_reader_new_def split: if_splits
      dest!: reader_read_u8_sound decode_records_sound) (auto simp: bytes_at_def)

section \<open>Uncompressed resources are read back\<close>

definition uncompressed_name :: "bytes list \<Rightarrow> bytes" where
  "uncompressed_name ls = concat (map prefixed ls) @ [0]"

fun record_bytes :: "hns_resource_record \<Rightarrow> bytes" where
  "record_bytes (HrDs s) = 0 # be_bytes 2 (sg_key_tag s) @ sg_algorithm s # sg_digest_type s # prefixed (sg_digest s)"
| "record_bytes (HrNs n) = 1 # uncompressed_name (rn_labels n)"
| "record_bytes (HrGlue4 n a) = 2 # uncompressed_name (rn_labels n) @ v4_octets a"
| "record_bytes (HrGlue6 n a) = 3 # uncompressed_name (rn_labels n) @ v6_octets a"
| "record_bytes (HrSynth4 a) = 4 # v4_octets a"
| "record_bytes (HrSynth6 a) = 5 # v6_octets a"
| "record_bytes (HrTxt ss) = 6 # of_nat (length ss) # concat (map prefixed ss)"

definition resource_bytes :: "hns_resource_record list \<Rightarrow> bytes" where
  "resource_bytes xs = 0 # concat (map record_bytes xs)"

fun wf_hns_record :: "hns_resource_record \<Rightarrow> bool" where
  "wf_hns_record (HrDs s) \<longleftrightarrow> length (sg_digest s) < 256"
| "wf_hns_record (HrNs n) \<longleftrightarrow> wf_resource_name n"
| "wf_hns_record (HrGlue4 n a) \<longleftrightarrow> wf_resource_name n"
| "wf_hns_record (HrGlue6 n a) \<longleftrightarrow> wf_resource_name n"
| "wf_hns_record (HrSynth4 a) \<longleftrightarrow> True"
| "wf_hns_record (HrSynth6 a) \<longleftrightarrow> True"
| "wf_hns_record (HrTxt ss) \<longleftrightarrow> length ss < 256 \<and> list_all (\<lambda>s. length s < 256) ss"

lemma expanded_len_ge: "list_all label_ok ls \<Longrightarrow> 2 * length ls \<le> expanded_len ls"
  by (induction ls) (auto simp: label_ok_def)

lemma length_uncompressed_name: "length (uncompressed_name ls) = expanded_len ls + 1"
  by (induction ls) (auto simp: uncompressed_name_def prefixed_def)

lemma label_len_byte: "label_ok l \<Longrightarrow> (of_nat (length l) :: u8) AND 0xc0 = 0 \<and> unat (of_nat (length l) :: u8) = length l \<and> (of_nat (length l) :: u8) \<noteq> 0"
  using small_label_byte [of "length l"] of_nat_label_eq_0 [of "length l"] by (auto simp: label_ok_def MAX_LABEL_LEN_def)

lemma resource_name_loop_plain:
  assumes "list_all label_ok ls" and "expanded + expanded_len ls \<le> 255" and "length acc + length ls \<le> MAX_RESOURCE_NAME_LABELS"
    and "\<forall>v \<in> set visited. v < length pre" and "length (pre @ uncompressed_name ls @ post) \<le> usize_max"
  shows "\<exists>known'. resource_name_loop (pre @ uncompressed_name ls @ post) known (length pre) None acc expanded jumps visited =
     (Inr (acc @ ls, length pre + length (uncompressed_name ls), known') :: ('x light_chain_error, bytes list \<times> usize \<times> usize list) result)"
  using assms
proof (induction ls arbitrary: pre known acc expanded visited)
  case Nil
  then show ?case by (subst resource_name_loop.simps) (auto simp: uncompressed_name_def)
next
  case (Cons l ls)
  let ?in = "pre @ uncompressed_name (l # ls) @ post" and ?pre = "pre @ prefixed l"
  have l: "label_ok l" "length l \<le> 63" and b: "of_nat (length l) AND (0xc0 :: u8) = 0" "unat (of_nat (length l) :: u8) = length l" "(of_nat (length l) :: u8) \<noteq> 0"
    using Cons.prems(1) label_len_byte [of l] by (auto simp: label_ok_def)
  have split: "?in = ?pre @ uncompressed_name ls @ post" by (simp add: uncompressed_name_def)
  have at: "slice_get ?in (length pre) = Some (of_nat (length l))" "slice_range ?in (length pre + 1) (length pre + 1 + length l) = Some l"
    by (simp_all add: uncompressed_name_def prefixed_def slice_get_def slice_range_def nth_append)
  have "\<exists>known'. resource_name_loop (?pre @ uncompressed_name ls @ post) (known @ [length pre]) (length ?pre) None (acc @ [l])
      (expanded + (length l + 1)) jumps (visited @ [length pre]) =
      (Inr ((acc @ [l]) @ ls, length ?pre + length (uncompressed_name ls), known') :: ('x light_chain_error, bytes list \<times> usize \<times> usize list) result)"
    using Cons.prems split by (intro Cons.IH) (auto simp: prefixed_def)
  moreover have "length ?pre = length pre + 1 + length l" "length ?pre + length (uncompressed_name ls) = length pre + length (uncompressed_name (l # ls))"
    by (simp_all add: prefixed_def uncompressed_name_def)
  moreover have "length pre \<notin> set visited" using Cons.prems(4) by auto
  moreover have "length pre + 1 + length l \<le> usize_max" "expanded + (length l + 1) \<le> usize_max" "\<not> 255 < expanded + (length l + 1)"
    using Cons.prems(2,5) by (simp_all add: length_uncompressed_name usize_max_def)
  moreover have "length acc < MAX_RESOURCE_NAME_LABELS" using Cons.prems(3) by simp
  ultimately show ?case using b l at split by (subst resource_name_loop.simps) (auto simp: Let_def)
qed

lemma bytes_at_split:
  "bytes_at input c (xs @ ys) p \<longleftrightarrow> bytes_at input c xs (c + length xs) \<and> bytes_at input (c + length xs) ys p"
  by (auto simp: bytes_at_def take_add add.assoc ac_simps)

lemma bytes_at_Cons: "bytes_at input c (b # bs) p \<longleftrightarrow> bytes_at input c [b] (c + 1) \<and> bytes_at input (c + 1) bs p"
  using bytes_at_split [of input c "[b]" bs p] by simp

lemma reader_read_array_at:
  "bytes_at (rx_input r) (rx_position r) bs p \<Longrightarrow> length (rx_input r) \<le> usize_max \<Longrightarrow> n = length bs \<Longrightarrow>
   reader_read_array n r = Inr (bs, r\<lparr>rx_position := p\<rparr>)"
  by (auto simp: reader_read_array_def bytes_at_def slice_range_def)

lemma reader_read_u8_at:
  "bytes_at (rx_input r) (rx_position r) [b] p \<Longrightarrow> length (rx_input r) \<le> usize_max \<Longrightarrow>
   reader_read_u8 r = Inr (b, r\<lparr>rx_position := p\<rparr>)"
  by (simp add: reader_read_u8_def reader_read_array_at)

lemma reader_read_u16_be_at:
  "bytes_at (rx_input r) (rx_position r) (be_bytes 2 w) p \<Longrightarrow> length (rx_input r) \<le> usize_max \<Longrightarrow>
   reader_read_u16_be r = Inr (w, r\<lparr>rx_position := p\<rparr>)"
  by (simp add: reader_read_u16_be_def reader_read_array_at)

lemma read_prefixed_at:
  "bytes_at (rx_input r) (rx_position r) (prefixed s) p \<Longrightarrow> length (rx_input r) \<le> usize_max \<Longrightarrow> length s < 256 \<Longrightarrow>
   read_length_prefixed_bytes r = Inr (s, r\<lparr>rx_position := p\<rparr>)"
  by (auto simp: read_length_prefixed_bytes_def prefixed_def bytes_at_Cons [of _ _ _ s] reader_read_u8_at
      reader_read_array_at byte_len)

lemma read_strings_at:
  "bytes_at (rx_input r) (rx_position r) (concat (map prefixed ss)) p \<Longrightarrow> length (rx_input r) \<le> usize_max \<Longrightarrow>
   list_all (\<lambda>s. length s < 256) ss \<Longrightarrow> read_strings (length ss) r = Inr (ss, r\<lparr>rx_position := p\<rparr>)"
proof (induction ss arbitrary: r)
  case Nil
  then show ?case by (cases r) (simp add: bytes_at_def)
next
  case (Cons s ss)
  from Cons.prems show ?case
    by (simp add: bytes_at_split read_prefixed_at [of r s "rx_position r + length (prefixed s)"] Cons.IH)
qed

lemma read_address_at:
  "bytes_at (rx_input r) (rx_position r) (v4_octets a) p \<Longrightarrow> length (rx_input r) \<le> usize_max \<Longrightarrow>
     read_ipv4 r = Inr (a, r\<lparr>rx_position := p\<rparr>)"
  "bytes_at (rx_input r) (rx_position r) (v6_octets b) p \<Longrightarrow> length (rx_input r) \<le> usize_max \<Longrightarrow>
     read_ipv6 r = Inr (b, r\<lparr>rx_position := p\<rparr>)"
  by (simp_all add: read_ipv4_def read_ipv6_def reader_read_array_at [of _ "v4_octets a"] reader_read_array_at [of _ "v6_octets b"])

lemma reader_read_name_at:
  assumes at: "bytes_at (rx_input r) (rx_position r) (uncompressed_name (rn_labels n)) p" and "length (rx_input r) \<le> usize_max"
    and wf: "wf_resource_name n"
  shows "\<exists>k. reader_read_name r = (Inr (n, r\<lparr>rx_position := p, rx_known_name_offsets := k\<rparr>) :: ('x, resource_name) reading)"
proof -
  let ?ls = "rn_labels n"
  obtain pre post where split: "rx_input r = pre @ uncompressed_name ?ls @ post" "length pre = rx_position r"
    using at by (metis bytes_at_drop append_take_drop_id length_take min.absorb2 le_add1 le_trans)
  have "length ?ls \<le> MAX_RESOURCE_NAME_LABELS" "list_all label_ok ?ls" "1 + expanded_len ?ls \<le> 255"
    using wf expanded_len_ge [of ?ls] by (simp_all add: wf_resource_name_def MAX_RESOURCE_NAME_LABELS_def)
  then obtain k where "resource_name_loop (pre @ uncompressed_name ?ls @ post) (rx_known_name_offsets r) (length pre) None [] 1 0 [] =
     (Inr ([] @ ?ls, length pre + length (uncompressed_name ?ls), k) :: ('x light_chain_error, bytes list \<times> usize \<times> usize list) result)"
    using resource_name_loop_plain [of ?ls 1 "[]" "[]" pre post] assms(2) split by force
  moreover have "p = length pre + length (uncompressed_name ?ls)" using at split by (simp add: bytes_at_def)
  ultimately show ?thesis by (auto simp: reader_read_name_def split)
qed

lemma keep_offsets: "r\<lparr>rx_position := p\<rparr> = r\<lparr>rx_position := p, rx_known_name_offsets := rx_known_name_offsets r\<rparr>"
  by simp

lemma read_record_body:
  assumes "record_bytes x = record_kind x # bs" and "bytes_at (rx_input r) (rx_position r) bs p"
    and "length (rx_input r) \<le> usize_max" and "wf_hns_record x"
  shows "\<exists>k. read_resource_record (record_kind x) r =
      (Inr (x, r\<lparr>rx_position := p, rx_known_name_offsets := k\<rparr>) :: ('x, hns_resource_record) reading)"
proof (cases x)
  case (HrDs s)
  let ?at = "bytes_at (rx_input r)" and ?c = "rx_position r"
  have bs: "bs = be_bytes 2 (sg_key_tag s) @ [sg_algorithm s] @ [sg_digest_type s] @ prefixed (sg_digest s)"
    using assms(1) HrDs by simp
  have "?at ?c (be_bytes 2 (sg_key_tag s)) (?c + 2)" "?at (?c + 2) [sg_algorithm s] (?c + 2 + 1)"
      "?at (?c + 2 + 1) [sg_digest_type s] (?c + 2 + 1 + 1)" "?at (?c + 2 + 1 + 1) (prefixed (sg_digest s)) p"
    using assms(2) [unfolded bs bytes_at_split length_be_bytes] by (simp_all add: add.assoc)
  with assms(3,4) HrDs show ?thesis
    by (intro exI [of _ "rx_known_name_offsets r"]) (simp add: read_resource_record_def reader_read_u16_be_at
        reader_read_u8_at read_prefixed_at del: add_2_eq_Suc')
next
  case (HrNs n)
  then obtain k where "reader_read_name r = (Inr (n, r\<lparr>rx_position := p, rx_known_name_offsets := k\<rparr>) :: ('x, resource_name) reading)"
    using reader_read_name_at [of r n p] assms by auto
  with HrNs show ?thesis by (auto simp: read_resource_record_def)
next
  case (HrGlue4 n a)
  let ?q = "rx_position r + length (uncompressed_name (rn_labels n))"
  from HrGlue4 assms obtain k where "reader_read_name r = (Inr (n, r\<lparr>rx_position := ?q, rx_known_name_offsets := k\<rparr>) :: ('x, resource_name) reading)"
    using reader_read_name_at [of r n ?q] by (auto simp: bytes_at_split)
  with HrGlue4 assms show ?thesis by (intro exI [of _ k]) (auto simp: read_resource_record_def bytes_at_split read_address_at)
next
  case (HrGlue6 n a)
  let ?q = "rx_position r + length (uncompressed_name (rn_labels n))"
  from HrGlue6 assms obtain k where "reader_read_name r = (Inr (n, r\<lparr>rx_position := ?q, rx_known_name_offsets := k\<rparr>) :: ('x, resource_name) reading)"
    using reader_read_name_at [of r n ?q] by (auto simp: bytes_at_split)
  with HrGlue6 assms show ?thesis by (intro exI [of _ k]) (auto simp: read_resource_record_def bytes_at_split read_address_at)
next
  case (HrSynth4 a)
  with assms show ?thesis
    by (intro exI [of _ "rx_known_name_offsets r"]) (auto simp: read_resource_record_def read_address_at)
next
  case (HrSynth6 a)
  with assms show ?thesis
    by (intro exI [of _ "rx_known_name_offsets r"]) (auto simp: read_resource_record_def read_address_at)
next
  case (HrTxt ss)
  with assms show ?thesis
    by (intro exI [of _ "rx_known_name_offsets r"]) (auto simp: read_resource_record_def bytes_at_Cons [of _ _ _ "concat _"]
        reader_read_u8_at byte_len read_strings_at)
qed

lemma read_resource_record_at:
  assumes at: "bytes_at (rx_input r) (rx_position r) (record_bytes x) p" and "length (rx_input r) \<le> usize_max" and "wf_hns_record x"
  shows "\<exists>k. rbind (reader_read_u8 r) (\<lambda>(kind, r). if kind > MAX_KNOWN_RESOURCE_KIND then Inl (UnknownResourceRecord kind)
      else read_resource_record kind r) =
      (Inr (x, r\<lparr>rx_position := p, rx_known_name_offsets := k\<rparr>) :: ('x, hns_resource_record) reading)"
proof -
  obtain bs where bytes: "record_bytes x = record_kind x # bs" by (cases x) auto
  with at have 1: "bytes_at (rx_input r) (rx_position r) [record_kind x] (rx_position r + 1)"
    and 2: "bytes_at (rx_input r) (rx_position r + 1) bs p" by (auto simp: bytes_at_Cons [of _ _ _ bs])
  note u = reader_read_u8_at [OF 1 assms(2), where 'a = 'x]
  define r1 where "r1 = r\<lparr>rx_position := rx_position r + 1\<rparr>"
  have r1: "rx_input r1 = rx_input r" "rx_position r1 = rx_position r + 1" by (simp_all add: r1_def)
  have "record_kind x \<le> 6" by (cases x) auto
  moreover have "\<exists>k. read_resource_record (record_kind x) r1 =
      (Inr (x, r1\<lparr>rx_position := p, rx_known_name_offsets := k\<rparr>) :: ('x, hns_resource_record) reading)"
    using read_record_body [of x bs r1 p] bytes 2 assms(2,3) by (simp add: r1)
  ultimately show ?thesis using u by (auto simp: MAX_KNOWN_RESOURCE_KIND_def r1_def)
qed

lemma decode_records_at:
  assumes "bytes_at (rx_input r) (rx_position r) (concat (map record_bytes xs)) (length (rx_input r))"
    and "length (rx_input r) \<le> usize_max" and "list_all wf_hns_record xs"
  shows "\<exists>r'. decode_records r acc = (Inr (acc @ xs, r') :: ('x, hns_resource_record list) reading)"
  using assms
proof (induction xs arbitrary: r acc)
  case Nil
  then show ?case by (subst decode_records.simps) (simp add: bytes_at_def is_finished_def)
next
  case (Cons x xs)
  let ?p = "rx_position r + length (record_bytes x)"
  from Cons.prems have x: "bytes_at (rx_input r) (rx_position r) (record_bytes x) ?p"
    and rest: "bytes_at (rx_input r) ?p (concat (map record_bytes xs)) (length (rx_input r))" by (simp_all add: bytes_at_split)
  obtain k where k: "rbind (reader_read_u8 r) (\<lambda>(kind, r). if kind > MAX_KNOWN_RESOURCE_KIND then Inl (UnknownResourceRecord kind)
      else read_resource_record kind r) =
      (Inr (x, r\<lparr>rx_position := ?p, rx_known_name_offsets := k\<rparr>) :: ('x, hns_resource_record) reading)"
    using read_resource_record_at [OF x] Cons.prems by auto
  have "record_bytes x \<noteq> []" by (cases x) auto
  with x have "\<not> is_finished r" by (auto simp: bytes_at_def is_finished_def)
  moreover obtain r' where "decode_records (r\<lparr>rx_position := ?p, rx_known_name_offsets := k\<rparr>) (acc @ [x]) =
      (Inr ((acc @ [x]) @ xs, r') :: ('x, hns_resource_record list) reading)"
    using Cons.IH [of "r\<lparr>rx_position := ?p, rx_known_name_offsets := k\<rparr>" "acc @ [x]"] rest Cons.prems by auto
  moreover from k obtain kind r1 where "reader_read_u8 r = (Inr (kind, r1) :: ('x, u8) reading)" "kind \<le> MAX_KNOWN_RESOURCE_KIND"
      "read_resource_record kind r1 = (Inr (x, r\<lparr>rx_position := ?p, rx_known_name_offsets := k\<rparr>) :: ('x, hns_resource_record) reading)"
    by (auto simp: result_inv split: if_splits)
  ultimately show ?case by (subst decode_records.simps) simp
qed

lemma resource_bytes_roundtrip:
  assumes "list_all wf_hns_record xs" and "length (resource_bytes xs) \<le> nl_max_resource_size L"
    and "nl_max_resource_size L \<le> usize_max" and "nl_resource_new L (resource_bytes xs) = Inr ()"
  shows "resource_decode (L :: ('p, 'x) name_lib) (resource_bytes xs) = Inr \<lparr>hr_raw = resource_bytes xs, hr_records = xs\<rparr>"
proof -
  let ?raw = "resource_bytes xs" and ?r = "\<lparr>rx_input = resource_bytes xs, rx_position = 1, rx_known_name_offsets = []\<rparr>"
  have "bytes_at ?raw 0 (0 # concat (map record_bytes xs)) (length ?raw)" by (simp add: bytes_at_def resource_bytes_def)
  then have at: "bytes_at ?raw 0 [0] 1" "bytes_at ?raw 1 (concat (map record_bytes xs)) (length ?raw)"
    by (auto simp: bytes_at_Cons [of _ _ _ "concat _"])
  have len: "length ?raw \<le> usize_max" using assms(2,3) by simp
  have "reader_read_u8 (resource_reader_new ?raw) = (Inr (0, ?r) :: ('x, u8) reading)"
    using reader_read_u8_at [of "resource_reader_new ?raw" 0 1] at(1) len by (simp add: resource_reader_new_def)
  moreover obtain r' where "decode_records ?r [] = (Inr (xs, r') :: ('x, hns_resource_record list) reading)"
    using decode_records_at [of ?r xs "[]"] at(2) len assms(1) by auto
  ultimately show ?thesis using assms(2,4) by (simp add: resource_decode_def)
qed

section \<open>Name states\<close>

lemma decode_name_state_sound:
  assumes laws: "decoder_laws D view" and ok: "decode_name_state D L raw name tip = Inr st"
  shows "nl_validate_name L name \<and> ds_resource st \<noteq> [] \<and> length (ds_resource st) \<le> nl_max_resource_size L \<and>
     ds_height st \<le> tip \<and> ds_renewal st \<le> tip \<and> length name < 256 \<and> length (ds_resource st) < 65536 \<and>
     (\<exists>fields. raw = prefixed name @ le_bytes 2 (of_nat (length (ds_resource st)) :: u16) @ ds_resource st @
        le_bytes 4 (ds_height st) @ le_bytes 4 (ds_renewal st) @ fields)"
proof -
  let ?e = "map_err LcNameStateDecode"
  from ok obtain nl d1 d2 rl d3 d4 d5 d6 where
    1: "de_read_u8 D (de_new D raw) = Inr (nl, d1)" "de_read_slice D d1 (unat nl) = Inr (name, d2)" "nl_validate_name L name"
      "de_read_u16_le D d2 = Inr (rl, d3)" "rl \<noteq> 0" "unat rl \<le> nl_max_resource_size L"
      "de_read_slice D d3 (unat rl) = Inr (ds_resource st, d4)" "de_read_u32_le D d4 = Inr (ds_height st, d5)"
      "de_read_u32_le D d5 = Inr (ds_renewal st, d6)" "ds_height st \<le> tip" "ds_renewal st \<le> tip"
    by (auto simp: decode_name_state_def result_inv split: if_splits)
  note L = decoder_lawsD [OF laws]
  have "raw = [nl] @ view d1" using takesD [OF L(2) 1(1)] L(1) by simp
  moreover note takesD [OF L(3) 1(2)] takesD [OF L(5) 1(4)] takesD [OF L(3) 1(7)]
    takesD [OF L(6) 1(8)] takesD [OF L(6) 1(9)]
  moreover have "unat nl < 256" "unat rl < 65536" using unsigned_less [where 'a = nat, of nl] unsigned_less [where 'a = nat, of rl] by simp_all
  moreover have "0 < unat rl" using 1(5) unat_gt_0 by blast
  ultimately show ?thesis using 1 by (auto simp: prefixed_def)
qed

section \<open>Properties\<close>

lemma wf_record_at: "record_at input c x p \<Longrightarrow> list_all wf_resource_name (record_names x) \<Longrightarrow> wf_hns_record x"
  by (cases x) (auto simp: list_all_iff)

lemma records_at_wf:
  "records_at input c xs \<Longrightarrow> list_all (\<lambda>x. list_all wf_resource_name (record_names x)) xs \<Longrightarrow> list_all wf_hns_record xs"
  by (induction rule: records_at.induct) (auto intro: wf_record_at)

lemma wf_resource_name_dns:
  assumes "wf_resource_name n"
  shows "\<exists>d. from_labels (rn_labels n) = Inr d \<and> wf_name d"
proof -
  have "list_all label_ok (rn_labels n)" "1 + labels_len (rn_labels n) \<le> 255"
    using assms by (simp_all add: wf_resource_name_def expanded_len_def labels_len_def)
  then have "from_labels (rn_labels n) = Inr (Name (map canonical_label (rn_labels n)))"
    unfolding from_labels_def from_labels_loop_Inr
    by (auto simp: label_ok_def list_all_iff MAX_LABEL_LEN_def MAX_WIRE_NAME_LEN_def)
  then show ?thesis by (metis from_labels_Inr)
qed

definition sample_records :: "hns_resource_record list" where
  "sample_records = [HrDs \<lparr>sg_key_tag = 2572, sg_algorithm = 8, sg_digest_type = 2, sg_digest = [1, 97, 0, 1, 1, 3, 8, 1, 3, 5]\<rparr>,
     HrNs (ResourceName [[110, 115], [97]]), HrSynth4 (Ipv4Addr 1 2 3 4), HrTxt [[104, 105]]]"

definition sample_state :: bytes where
  "sample_state = prefixed [97] @ le_bytes 2 (of_nat (length (resource_bytes sample_records)) :: u16) @
     resource_bytes sample_records @ le_bytes 4 (5 :: u32) @ le_bytes 4 (6 :: u32) @ le_bytes 2 (0 :: u16)"

definition plain_lib :: "(unit, unit) name_lib" where
  "plain_lib = \<lparr>nl_max_resource_size = 512, nl_hash_name = \<lambda>n. Inr n, nl_validate_name = \<lambda>n. n \<noteq> [],
     nl_resource_new = \<lambda>_. Inr (), nl_proof_decode = \<lambda>bs. if bs = [1] then Inr () else Inl (),
     nl_proof_verify = \<lambda>p root h. Inr (if root = [7] \<and> h = [97] then Some sample_state else None)\<rparr>"

lemma sample_records_wf:
  "list_all wf_hns_record sample_records" "length (resource_bytes sample_records) \<le> nl_max_resource_size plain_lib"
  "nl_max_resource_size plain_lib \<le> usize_max" "nl_resource_new plain_lib (resource_bytes sample_records) = Inr ()"
  by (simp_all add: sample_records_def plain_lib_def wf_resource_name_def label_ok_def resource_bytes_def
      prefixed_def uncompressed_name_def usize_max_def)

lemma sample_resource:
  "resource_decode plain_lib (resource_bytes sample_records) =
     Inr \<lparr>hr_raw = resource_bytes sample_records, hr_records = sample_records\<rparr>"
  by (rule resource_bytes_roundtrip [OF sample_records_wf])

text \<open>A decoded resource keeps its bytes, starts with version 0 and has exactly one reading as a sequence of
  records with compressed names, which is the list of records it carries.\<close>

lemma resource_reading_exact:
  assumes "resource_decode L raw = Inr res"
  shows "hr_raw res = raw \<and> length raw \<le> nl_max_resource_size L \<and> raw \<noteq> [] \<and> hd raw = 0 \<and>
    (\<forall>xs. records_at raw 1 xs \<longleftrightarrow> xs = hr_records res)"
proof -
  note s = resource_decode_sound [OF assms]
  then have "raw \<noteq> [] \<and> hd raw = 0" by (cases raw) (auto dest: bytes_at_hd)
  with s records_at_unique show ?thesis by blast
qed

lemma resource_reading_exact_witness:
  "records_at (resource_bytes sample_records) 1 sample_records"
  using resource_reading_exact [OF sample_resource] by simp

text \<open>C35: Every record of a decoded resource is well formed: its DS digest, its strings and their number fit their
  length bytes, and each of its names has labels of 1 to 63 bytes and at most 255 bytes in all, so that the
  DNS name constructor accepts it.\<close>

theorem resource_records_typed:
  assumes "resource_decode L raw = Inr res"
  shows "list_all wf_hns_record (hr_records res) \<and>
    (\<forall>x \<in> set (hr_records res). \<forall>n \<in> set (record_names x). \<exists>d. from_labels (rn_labels n) = Inr d \<and> wf_name d)"
proof -
  note s = resource_decode_sound [OF assms]
  then show ?thesis using records_at_wf wf_resource_name_dns by (auto simp: list_all_iff)
qed

theorem resource_records_typed_witness:
  "\<exists>d. from_labels [[110, 115], [97]] = Inr d \<and> wf_name d"
  using resource_records_typed [OF sample_resource] by (simp add: sample_records_def)

lemma u16_len: "n < 65536 \<Longrightarrow> unat (of_nat n :: u16) = n"
  by (simp add: unat_of_nat)

lemma verify_name_resource_sound:
  assumes laws: "decoder_laws D view" and ok: "verify_name_resource D L chain name proof_bytes = Inr v"
  shows "vh_anchor v = cc_anchor chain \<and> vh_name v = name \<and> nl_hash_name L name = Inr (vh_name_hash v) \<and>
    nl_validate_name L name \<and> vh_state_height v \<le> an_height (cc_anchor chain) \<and> vh_renewal_height v \<le> an_height (cc_anchor chain) \<and>
    (\<exists>proof fields. nl_proof_decode L proof_bytes = Inr proof \<and>
       nl_proof_verify L proof (an_tree_root (cc_anchor chain)) (vh_name_hash v) = Inr (Some (prefixed name @
         le_bytes 2 (of_nat (length (hr_raw (vh_resource v))) :: u16) @ hr_raw (vh_resource v) @
         le_bytes 4 (vh_state_height v) @ le_bytes 4 (vh_renewal_height v) @ fields))) \<and>
    resource_decode L (hr_raw (vh_resource v)) = Inr (vh_resource v) \<and>
    length name < 256 \<and> length (hr_raw (vh_resource v)) < 65536"
proof -
  from ok obtain h pr st d res where
    h: "nl_hash_name L name = Inr h" "nl_proof_decode L proof_bytes = Inr pr"
      "nl_proof_verify L pr (an_tree_root (cc_anchor chain)) h = Inr (Some st)"
    and d: "decode_name_state D L st name (an_height (cc_anchor chain)) = Inr d"
    and res: "resource_decode L (ds_resource d) = Inr res"
    and v: "v = \<lparr>vh_anchor = cc_anchor chain, vh_name_hash = h, vh_name = name, vh_state_height = ds_height d,
      vh_renewal_height = ds_renewal d, vh_resource = res\<rparr>"
    by (auto simp: verify_name_resource_def result_inv)
  have "hr_raw res = ds_resource d" using resource_decode_sound [OF res] by simp
  with decode_name_state_sound [OF laws d] h res v show ?thesis by auto
qed

definition proofs_bind :: "('p, 'x) name_lib \<Rightarrow> bool" where
  "proofs_bind L \<longleftrightarrow> (\<forall>p q root h a b. nl_proof_verify L p root h = Inr (Some a) \<longrightarrow>
     nl_proof_verify L q root h = Inr (Some b) \<longrightarrow> a = b)"


definition sample_chain :: "nat current_chain" where
  "sample_chain = \<lparr>cc_anchor = \<lparr>an_network = RegTest, an_height = 9, an_block_hash = [], an_tree_root = [7], an_chainwork = 1,
     an_validated_at = 1500, an_valid_until = 1600\<rparr>\<rparr>"

lemma sample_verified_resource:
  "\<exists>v. verify_name_resource list_decoder plain_lib sample_chain [97] [1] = Inr v \<and> vh_resource v =
     \<lparr>hr_raw = resource_bytes sample_records, hr_records = sample_records\<rparr>"
proof -
  have "decode_name_state list_decoder plain_lib sample_state [97] 9 =
      Inr \<lparr>ds_resource = resource_bytes sample_records, ds_height = 5, ds_renewal = 6\<rparr>"
    by code_simp
  then show ?thesis using sample_resource
    by (simp add: verify_name_resource_def sample_chain_def) (simp add: plain_lib_def)
qed


end
