(* ===== verification/End_To_End.thy ===== *)
theory End_To_End
  imports Resolver_Laws Hns_Resource_Laws
begin

text \<open>
  The HNS browser path across its components: a light-client anchor, a name resource committed under it, the
  DNSSEC authority built from the resource, and the TLSA records resolved with that authority alone.
\<close>

lemma hns_resolution_authority:
  assumes s0: "for_service base port transport limits = Inr s0" and hns: "hns_only a (ops @ [op])"
    and e: "resolver_exec os (run_resolver os s0 ops) op = (s, Inr (Complete v))"
  shows "suffix (labels (ev_zone (au_evidence a))) (labels base) \<and> vt_hns_authority v = Some (au_evidence a) \<and>
    vt_validated_at_unix v = ucast (ev_validation_time (au_evidence a))"
proof -
  note inv = for_service_inv [OF s0, of os]
  have run: "resolution_inv os (all_uses ops, run_resolver os s0 ops)"
    using tlsa_resolver.run_inv [of os "({}, s0)" ops] inv by (simp add: resolver_steps_run)
  from hns obtain q m where "op = AcceptHnsOp q m a" by (cases op) (auto simp: hns_only_def)
  with hns_exec_complete [of os "run_resolver os s0 ops" q m a s v] e run run_resolver_keeps [of os "{}" s0 ops] inv
  show ?thesis by simp
qed

text \<open>C1: A TLSA result obtained with an HNS authority is authenticated from the chain anchor down.  The name resource is
  the one committed under the anchor's tree root for the name of the zone; one of its DS records authenticates
  a key that signs the key set of the zone; a key of that set signs the TLSA records; the origin, every alias
  and the TLSA owner lie in the zone.  While the result is fresh, the anchor is current and no record has
  outlived its TTL.\<close>

theorem hns_tlsa_end_to_end:
  assumes os: "openssl_laws os" and D: "decoder_laws D view"
    and vr: "verify_name_resource D L chain name proof_bytes = Inr vr"
    and a: "hns_authenticate os vr dnskeys signatures t dl = Some (Inr a)"
    and s0: "for_service base port transport limits = Inr s0" and hns: "hns_only a (ops @ [op])"
    and e: "resolver_exec os (run_resolver os s0 ops) op = (s, Inr (Complete v))"
  shows "\<exists>zone proof h fields rs sr sig. from_labels [name] = Inr zone \<and>
    nl_hash_name L name = Inr h \<and> nl_proof_decode L proof_bytes = Inr proof \<and>
    nl_proof_verify L proof (an_tree_root (cc_anchor chain)) h = Inr (Some (prefixed name @
      le_bytes 2 (of_nat (length (hr_raw (vh_resource vr))) :: u16) @ hr_raw (vh_resource vr) @ fields)) \<and>
    (\<forall>xs. records_at (hr_raw (vh_resource vr)) 1 xs \<longleftrightarrow> xs = hr_records (vh_resource vr)) \<and>
    trust_link os dl zone (trusted_ds_records zone (vh_resource vr)) dnskeys t \<and>
    list_all2 (\<lambda>r tlsa. rr_name r = vt_terminal_owner v \<and> rr_type r = RtTlsa \<and> rr_rdata r = RdTlsa tlsa) rs (vt_records v) \<and>
    wf_rrset rs \<and> usable_signature (hd rs) t sr sig \<and> signature_accepts os rs dnskeys (rl_dnssec limits) sig \<and>
    list_all (\<lambda>n. suffix (labels zone) (labels n)) (base # vt_terminal_owner v # map vc_owner (vt_cname_chain v)) \<and>
    (\<forall>now. tlsa_fresh_at v now \<longrightarrow> unat t \<le> unat now \<and> now \<le> an_valid_until (cc_anchor chain) \<and>
       (\<forall>r \<in> set rs. unat now < unat t + unat (rr_ttl r)))"
proof -
  note A = hns_authenticate_sound [OF a] and V = verify_name_resource_sound [OF D vr]
    and H = hns_resolution_authority [OF s0 hns e]
  have ok: "tlsa_ok os (all_uses (ops @ [op])) s v" and lim: "tr_limits s = limits" using resolver_run_sound [OF s0 e] by simp_all
  define zone where "zone = ev_zone (au_evidence a)"
  have zone: "from_labels [name] = Inr zone" and t: "ev_validation_time (au_evidence a) = t"
    and keys: "authenticate_dnskeys os zone (trusted_ds_records zone (vh_resource vr)) dnskeys signatures t dl = Some (Inr (au_keys a))"
    using A V by (simp_all add: zone_def)
  from tlsa_okD [OF ok, unfolded lim] obtain b rs where
    edges: "list_all (edge_ok os (rl_dnssec limits) (all_uses (ops @ [op])) b) (vt_cname_chain v)"
    and at: "attested os (rl_dnssec limits) (all_uses (ops @ [op])) b rs (vt_rrset v)"
    and rs: "list_all2 (\<lambda>r tlsa. rr_name r = vt_terminal_owner v \<and> rr_type r = RtTlsa \<and> rr_rdata r = RdTlsa tlsa) rs (vt_records v)"
    by blast
  note R = attested_by_authority [OF os keys hns t at] and E = edges_by_authority [OF os keys hns t edges]
  then obtain sr sig where sig: "usable_signature (hd rs) t sr sig" "signature_accepts os rs dnskeys (rl_dnssec limits) sig" by blast
  have "rs \<noteq> []" using at by (auto simp: attested_def)
  then have "rr_name (hd rs) = vt_terminal_owner v" using rs by (cases rs; cases "vt_records v") auto
  with R H E have zones: "list_all (\<lambda>n. suffix (labels zone) (labels n)) (base # vt_terminal_owner v # map vc_owner (vt_cname_chain v))"
    by (simp add: zone_def list.pred_map comp_def)
  have "unat t \<le> unat now \<and> now \<le> an_valid_until (cc_anchor chain) \<and> (\<forall>r \<in> set rs. unat now < unat t + unat (rr_ttl r))"
    if f: "tlsa_fresh_at v now" for now
  proof -
    have exp: "vt_expires_at_unix v \<le> vr_expires_at_unix (vt_rrset v)" "vt_expires_at_unix v \<le> ev_expires_at_unix (au_evidence a)"
      using ok H by (auto simp: tlsa_ok_def intro!: expiry_le)
    with f have "now < ev_expires_at_unix (au_evidence a)" "unat now < unat (vr_expires_at_unix (vt_rrset v))" "ucast t \<le> now"
      using H t by (auto simp: tlsa_fresh_at_def word_less_nat_alt word_le_nat_alt)
    then show ?thesis
      using R A V fresh_until [of now] by (auto simp: word_le_nat_alt intro: less_le_trans)
  qed
  with V zone keys rs R sig zones authenticate_dnskeys_sound [OF os keys] show ?thesis
    using resource_decode_sound [of L "hr_raw (vh_resource vr)"] records_at_unique by blast
qed

lemma sample_hns_ds:
  assumes "hr_records res = sample_records"
  shows "trusted_ds_records sample_zone res = [(sample_ds sample_digest)\<lparr>rr_ttl := HNS_RESOURCE_TTL\<rparr>]"
  using assms by (simp add: trusted_ds_records_def delegation_signers_def sample_records_def List.map_filter_def sample_ds_def sample_digest_def)

lemma sample_hns_keys:
  "authenticate_dnskeys sample_os sample_zone [(sample_ds sample_digest)\<lparr>rr_ttl := HNS_RESOURCE_TTL\<rparr>] [sample_key_record]
     [sample_signature RtDnskey [1]] 1500 default_dnssec_limits = Some (Inr sample_keys)"
proof -
  obtain v where v: "verify_rrset sample_os [sample_key_record] [sample_signature RtDnskey [1]] [sample_key_record] 1500
     default_dnssec_limits = Inr v" "vr_expires_at_unix v = 1560" using sample_keys_verified by blast
  have "verify_ds sample_os sample_zone sample_key [(sample_ds sample_digest)\<lparr>rr_ttl := HNS_RESOURCE_TTL\<rparr>] = Some (Inr ())"
    using sample_tag by (simp add: verify_ds_def digest_ds_def name_encode_def name_wire_len_def MAX_WIRE_NAME_LEN_def
        MAX_LABEL_LEN_def encode_dnskey_def write_u16_def be_bytes_2 sample_defs)
  moreover have "dnskey_for sample_key_record sample_zone = Some sample_key" "dk_flags sample_key AND 0x0100 \<noteq> 0" "dk_algorithm sample_key = 8"
    "records_expire_at [(sample_ds sample_digest)\<lparr>rr_ttl := HNS_RESOURCE_TTL\<rparr>] 1500 = 23100"
    "rrsig_for (sample_signature RtDnskey [1]) sample_zone RtDnskey = Some (sample_rrsig RtDnskey [1])"
    "rs_key_tag (sample_rrsig RtDnskey [1]) = 2572" "rs_algorithm (sample_rrsig RtDnskey [1]) = 8"
    by (simp_all add: sample_defs dnskey_for_def records_expire_at_def iter_min_def rrsig_for_def HNS_RESOURCE_TTL_def)
  ultimately show ?thesis using v by (simp add: authenticate_dnskeys_def sample_keys_def Let_def)
qed

lemma sample_hns_authority:
  assumes "vh_anchor vr = cc_anchor sample_chain" and "vh_name vr = [97]" and "hr_records (vh_resource vr) = sample_records"
  shows "hns_authenticate sample_os vr [sample_key_record] [sample_signature RtDnskey [1]] 1500 default_dnssec_limits = Some (Inr sample_authority)"
proof -
  have "from_labels [[97]] = Inr sample_zone"
    by (simp add: from_labels_def usize_add_def usize_max_def sample_zone_def canonical_label_def to_ascii_lowercase_def
        MAX_LABEL_LEN_def MAX_WIRE_NAME_LEN_def)
  then show ?thesis using sample_hns_ds [OF assms(3)] sample_hns_keys assms(1,2)
    by (simp add: hns_authenticate_def sample_chain_def sample_authority_def sample_hns_evidence_def Let_def)
      (simp add: sample_keys_def u64_saturating_add_def u64_max_def)
qed

theorem hns_tlsa_end_to_end_witness:
  "\<exists>v rs s. resolver_exec sample_os sample_resolution (AcceptHnsOp sample_tlsa_query sample_tlsa_response sample_authority) = (s, Inr (Complete v)) \<and>
     list_all2 (\<lambda>r tlsa. rr_name r = vt_terminal_owner v \<and> rr_type r = RtTlsa \<and> rr_rdata r = RdTlsa tlsa) rs (vt_records v) \<and> wf_rrset rs"
proof -
  obtain vr where vr: "verify_name_resource list_decoder plain_lib sample_chain [97] [1] = Inr vr"
    and res: "vh_resource vr = \<lparr>hr_raw = resource_bytes sample_records, hr_records = sample_records\<rparr>" using sample_verified_resource by blast
  have "vh_anchor vr = cc_anchor sample_chain" "vh_name vr = [97]" using verify_name_resource_sound [OF list_decoder_laws vr] by simp_all
  with res have a: "hns_authenticate sample_os vr [sample_key_record] [sample_signature RtDnskey [1]] 1500 default_dnssec_limits = Some (Inr sample_authority)"
    by (intro sample_hns_authority) simp_all
  let ?op = "AcceptHnsOp sample_tlsa_query sample_tlsa_response sample_authority"
  from sample_completes obtain s v where e: "resolver_exec sample_os sample_resolution ?op = (s, Inr (Complete v))" by blast
  then have "resolver_exec sample_os (run_resolver sample_os sample_resolution []) ?op = (s, Inr (Complete v))" by (simp add: run_resolver_def)
  moreover have "hns_only sample_authority ([] @ [?op])" by (simp add: hns_only_def)
  ultimately show ?thesis
    using hns_tlsa_end_to_end [OF sample_os_laws list_decoder_laws vr a sample_for_https] e by blast
qed

end
