(* ===== verification/Bloom.thy ===== *)
theory Bloom
  imports Hash Hns_Encoding
begin

unbundle bit_operations_syntax

text \<open>
  The Bloom filter a wallet installs on its peers (src/crates/hns-light-wallet/src/lib.rs): construction,
  insertion, membership, the wire form and the two filter packets.  The packet type comes from the crate
  hns-p2p-wire and is a parameter.  A remainder by zero panics in Rust: \<open>bloom_insert\<close> and
  \<open>bloom_contains\<close> return \<open>None\<close> there.  Filters are shown to be exact for the bit positions of what was
  inserted, hence without false negatives, and the wire form is a bijection between the filters that keep
  the policy and the payloads that are accepted.
\<close>

section \<open>Model\<close>

definition MAX_BLOOM_FILTER_BYTES :: usize where
  "MAX_BLOOM_FILTER_BYTES = 36000"

definition MAX_BLOOM_HASH_FUNCTIONS :: u32 where
  "MAX_BLOOM_HASH_FUNCTIONS = 50"

definition MAX_FILTER_ADD_ELEMENT_BYTES :: usize where
  "MAX_FILTER_ADD_ELEMENT_BYTES = 520"

definition BLOOM_TWEAK_MULTIPLIER :: u32 where
  "BLOOM_TWEAK_MULTIPLIER = 0xfba4c795"

datatype 'x bloom_error =
  ZeroExpectedItems | InvalidFalsePositiveRate | FilterTooLarge | TooManyHashFunctions | ZeroHashFunctions
| EmptyFilter | InvalidUpdate | ElementTooLarge | BloomDecode 'x | BloomInvariant

datatype bloom_update = UpdateNone | UpdateAll | UpdatePubkeyOnly

definition bloom_update_code :: "bloom_update \<Rightarrow> u8" where
  "bloom_update_code u = (case u of UpdateNone \<Rightarrow> 0 | UpdateAll \<Rightarrow> 1 | UpdatePubkeyOnly \<Rightarrow> 2)"

definition bloom_update_try_from :: "u8 \<Rightarrow> ('x bloom_error, bloom_update) result" where
  "bloom_update_try_from v =
     (if v = 0 then Inr UpdateNone else if v = 1 then Inr UpdateAll else if v = 2 then Inr UpdatePubkeyOnly
      else Inl InvalidUpdate)"

record hsd_bloom_filter =
  bf_bytes :: bytes
  bf_hash_functions :: u32
  bf_tweak :: u32
  bf_update :: bloom_update

definition bloom_new :: "usize \<Rightarrow> u32 \<Rightarrow> u32 \<Rightarrow> bloom_update \<Rightarrow> ('x bloom_error, hsd_bloom_filter) result" where
  "bloom_new size_bits hash_functions tweak update =
     (let size_bits = max size_bits 8 in
      if size_bits > MAX_BLOOM_FILTER_BYTES * 8 then Inl FilterTooLarge
      else let hash_functions = max hash_functions 1 in
      if hash_functions > MAX_BLOOM_HASH_FUNCTIONS then Inl TooManyHashFunctions
      else let size_bytes = (size_bits - (size_bits AND 7)) div 8 in
      Inr \<lparr>bf_bytes = replicate size_bytes 0, bf_hash_functions = hash_functions, bf_tweak = tweak, bf_update = update\<rparr>)"

definition bloom_size_bits :: "hsd_bloom_filter \<Rightarrow> usize" where
  "bloom_size_bits f = length (bf_bytes f) * 8"

subsection \<open>MurmurHash3\<close>

definition rotate_left :: "nat \<Rightarrow> u32 \<Rightarrow> u32" where
  "rotate_left n w = push_bit n w OR drop_bit (32 - n) w"

definition murmur_scramble :: "u32 \<Rightarrow> u32" where
  "murmur_scramble word = rotate_left 15 (word * 0xcc9e2d51) * 0x1b873593"

definition murmur_block :: "u32 \<Rightarrow> bytes \<Rightarrow> u32" where
  "murmur_block hash chunk =
     rotate_left 13 (hash XOR murmur_scramble (le_word chunk)) * 5 + 0xe6546b64"

definition murmur_tail :: "bytes \<Rightarrow> u32" where
  "murmur_tail remainder =
     (let tail = (case slice_get remainder 2 of Some byte \<Rightarrow> push_bit 16 (ucast byte) | None \<Rightarrow> 0);
          tail = (case slice_get remainder 1 of Some byte \<Rightarrow> tail XOR push_bit 8 (ucast byte) | None \<Rightarrow> tail)
      in case slice_get remainder 0 of Some byte \<Rightarrow> murmur_scramble (tail XOR ucast byte) | None \<Rightarrow> 0)"

definition murmur3 :: "bytes \<Rightarrow> u32 \<Rightarrow> u32" where
  "murmur3 value seed =
     (let hash = foldl murmur_block seed (chunks_exact 4 value);
          remainder = drop (length value div 4 * 4) value;
          hash = (if remainder \<noteq> [] then hash XOR murmur_tail remainder else hash);
          hash = hash XOR of_nat (length value);
          hash = hash XOR drop_bit 16 hash;
          hash = hash * 0x85ebca6b;
          hash = hash XOR drop_bit 13 hash;
          hash = hash * 0xc2b2ae35
      in hash XOR drop_bit 16 hash)"

definition bloom_hash :: "bytes \<Rightarrow> u32 \<Rightarrow> u32 \<Rightarrow> u32" where
  "bloom_hash value fn tweak = murmur3 value (fn * BLOOM_TWEAK_MULTIPLIER + tweak)"

subsection \<open>Insertion and membership\<close>

fun insert_loop :: "bytes \<Rightarrow> u32 \<Rightarrow> usize \<Rightarrow> u32 list \<Rightarrow> bytes \<Rightarrow> bytes \<times> ('x bloom_error, unit) result" where
  "insert_loop value tweak nbits [] bs = (bs, Inr ())"
| "insert_loop value tweak nbits (fn # fns) bs =
     (let index = unat (bloom_hash value fn tweak) mod nbits in
      case slice_get bs (drop_bit 3 index) of
        None \<Rightarrow> (bs, Inl BloomInvariant)
      | Some byte \<Rightarrow> insert_loop value tweak nbits fns (bs[drop_bit 3 index := byte OR push_bit (index AND 7) 1]))"

definition bloom_functions :: "hsd_bloom_filter \<Rightarrow> u32 list" where
  "bloom_functions f = map of_nat [0..<unat (bf_hash_functions f)]"

definition bloom_insert ::
  "hsd_bloom_filter \<Rightarrow> bytes \<Rightarrow> (hsd_bloom_filter \<times> ('x bloom_error, unit) result) option" where
  "bloom_insert f value =
     (let size = bloom_size_bits f in
      if size = 0 \<and> bloom_functions f \<noteq> [] then None
      else case insert_loop value (bf_tweak f) size (bloom_functions f) (bf_bytes f) of
        (bs, r) \<Rightarrow> Some (f\<lparr>bf_bytes := bs\<rparr>, r))"

definition bloom_contains :: "hsd_bloom_filter \<Rightarrow> bytes \<Rightarrow> bool option" where
  "bloom_contains f value =
     (let size = bloom_size_bits f in
      if size = 0 \<and> bloom_functions f \<noteq> [] then None
      else Some (list_all (\<lambda>fn.
        let index = unat (bloom_hash value fn (bf_tweak f)) mod size in
        case slice_get (bf_bytes f) (drop_bit 3 index) of
          None \<Rightarrow> False
        | Some byte \<Rightarrow> byte AND push_bit (index AND 7) 1 \<noteq> 0) (bloom_functions f)))"

subsection \<open>Wire form\<close>

definition bloom_encode :: "'e encoder_lib \<Rightarrow> hsd_bloom_filter \<Rightarrow> bytes" where
  "bloom_encode E f =
     (let encoder = en_with_capacity E (length (bf_bytes f) + 12);
          encoder = en_put_varbytes E encoder (bf_bytes f);
          encoder = en_put_u32_le E encoder (bf_hash_functions f);
          encoder = en_put_u32_le E encoder (bf_tweak f);
          encoder = en_put_u8 E encoder (bloom_update_code (bf_update f))
      in en_into_bytes E encoder)"

definition bloom_decode_strict :: "('d, 'x) decoder_lib \<Rightarrow> bytes \<Rightarrow> ('x bloom_error, hsd_bloom_filter) result" where
  "bloom_decode_strict D input =
     rbind (map_err BloomDecode (de_read_varbytes D (de_new D input) MAX_BLOOM_FILTER_BYTES ''bloom filter'')) (\<lambda>(bs, d).
     rbind (map_err BloomDecode (de_read_u32_le D d)) (\<lambda>(hash_functions, d).
     rbind (map_err BloomDecode (de_read_u32_le D d)) (\<lambda>(tweak, d).
     rbind (map_err BloomDecode (de_read_u8 D d)) (\<lambda>(update, d).
     rbind (bloom_update_try_from update) (\<lambda>update.
     rbind (map_err BloomDecode (de_finish D d)) (\<lambda>_.
     if bs = [] then Inl EmptyFilter
     else if hash_functions = 0 then Inl ZeroHashFunctions
     else if hash_functions > MAX_BLOOM_HASH_FUNCTIONS then Inl TooManyHashFunctions
     else Inr \<lparr>bf_bytes = bs, bf_hash_functions = hash_functions, bf_tweak = tweak, bf_update = update\<rparr>))))))"

record 'p filter_packets =
  pk_filter_load :: "bytes \<Rightarrow> 'p"
  pk_filter_add :: "bytes \<Rightarrow> 'p"

definition load_packet :: "'e encoder_lib \<Rightarrow> 'p filter_packets \<Rightarrow> hsd_bloom_filter \<Rightarrow> 'p" where
  "load_packet E K f = pk_filter_load K (bloom_encode E f)"

definition add_packet ::
  "'e encoder_lib \<Rightarrow> 'p filter_packets \<Rightarrow> hsd_bloom_filter \<Rightarrow> bytes \<Rightarrow>
   (hsd_bloom_filter \<times> ('x bloom_error, 'p) result) option" where
  "add_packet E K f value =
     (if length value > MAX_FILTER_ADD_ELEMENT_BYTES then Some (f, Inl ElementTooLarge)
      else case bloom_insert f value of
        None \<Rightarrow> None
      | Some (f, Inl e) \<Rightarrow> Some (f, Inl e)
      | Some (f, Inr _) \<Rightarrow>
          let encoder = en_put_varbytes E (en_with_capacity E (length value + 9)) value in
          Some (f, Inr (pk_filter_add K (en_into_bytes E encoder))))"

section \<open>The filter as a set of bit positions\<close>

definition wf_bloom :: "hsd_bloom_filter \<Rightarrow> bool" where
  "wf_bloom f \<longleftrightarrow> bf_bytes f \<noteq> [] \<and> length (bf_bytes f) \<le> MAX_BLOOM_FILTER_BYTES \<and>
     0 < bf_hash_functions f \<and> bf_hash_functions f \<le> MAX_BLOOM_HASH_FUNCTIONS"

definition bytes_bits :: "bytes \<Rightarrow> nat set" where
  "bytes_bits bs = {i. i < length bs * 8 \<and> bit (bs ! (i div 8)) (i mod 8)}"

definition value_positions :: "u32 \<Rightarrow> usize \<Rightarrow> u32 list \<Rightarrow> bytes \<Rightarrow> nat set" where
  "value_positions tweak nbits fns value = (\<lambda>fn. unat (bloom_hash value fn tweak) mod nbits) ` set fns"

definition bloom_positions :: "hsd_bloom_filter \<Rightarrow> bytes \<Rightarrow> nat set" where
  "bloom_positions f = value_positions (bf_tweak f) (bloom_size_bits f) (bloom_functions f)"

lemma index_parts: "drop_bit 3 i = i div 8" "i AND 7 = i mod 8" for i :: nat
  using take_bit_eq_mod [of 3 i] take_bit_eq_mask [of 3 i] by (simp_all add: drop_bit_eq_div mask_eq_exp_minus_1)

lemma set_byte_bits:
  assumes "i < length bs * 8"
  shows "bytes_bits (bs[i div 8 := bs ! (i div 8) OR 2 ^ (i mod 8)]) = insert i (bytes_bits bs)"
proof -
  have "i div 8 < length bs" using assms by (simp add: less_mult_imp_div_less)
  moreover have "j = i" if "j div 8 = i div 8" "j mod 8 = i mod 8" for j using that by (metis div_mod_decomp)
  ultimately show ?thesis using assms by (auto simp: bytes_bits_def nth_list_update bit_simps)
qed

lemma insert_loop_exact:
  assumes "nbits = length bs * 8" and "0 < nbits"
  shows "\<exists>bs'. insert_loop value tweak nbits fns bs = (bs', Inr () :: ('x bloom_error, unit) result) \<and> length bs' = length bs \<and>
    bytes_bits bs' = bytes_bits bs \<union> value_positions tweak nbits fns value"
  using assms
proof (induction fns arbitrary: bs)
  case Nil
  then show ?case by (simp add: value_positions_def)
next
  case (Cons fn fns)
  define i where "i = unat (bloom_hash value fn tweak) mod nbits"
  have i: "i < length bs * 8" using Cons.prems by (simp add: i_def)
  then have "i div 8 < length bs" by (simp add: less_mult_imp_div_less)
  then have "insert_loop value tweak nbits (fn # fns) bs =
      (insert_loop :: _ \<Rightarrow> _ \<Rightarrow> _ \<Rightarrow> _ \<Rightarrow> _ \<Rightarrow> _ \<times> ('x bloom_error, unit) result) value tweak nbits fns (bs[i div 8 := bs ! (i div 8) OR 2 ^ (i mod 8)])"
    by (simp add: i_def [symmetric] index_parts)
  moreover have "value_positions tweak nbits (fn # fns) value = insert i (value_positions tweak nbits fns value)"
    by (simp add: value_positions_def i_def)
  ultimately show ?case
    using Cons.IH [of "bs[i div 8 := bs ! (i div 8) OR 2 ^ (i mod 8)]"] Cons.prems set_byte_bits [OF i] by (auto simp del: insert_loop.simps)
qed

lemma bloom_insert_exact:
  assumes "wf_bloom f"
  shows "\<exists>f'. bloom_insert f value = Some (f', Inr () :: ('x bloom_error, unit) result) \<and> wf_bloom f' \<and> bloom_positions f' = bloom_positions f \<and>
    bytes_bits (bf_bytes f') = bytes_bits (bf_bytes f) \<union> bloom_positions f value \<and>
    f' = f\<lparr>bf_bytes := bf_bytes f'\<rparr>"
proof -
  have pos: "0 < bloom_size_bits f" using assms by (simp add: wf_bloom_def bloom_size_bits_def)
  obtain bs' where "insert_loop value (bf_tweak f) (bloom_size_bits f) (bloom_functions f) (bf_bytes f) = (bs', Inr () :: ('x bloom_error, unit) result)"
      and l: "length bs' = length (bf_bytes f)"
      and "bytes_bits bs' = bytes_bits (bf_bytes f) \<union> bloom_positions f value"
    using insert_loop_exact [of "bloom_size_bits f" "bf_bytes f" "value" "bf_tweak f" "bloom_functions f"] pos
    by (auto simp: bloom_size_bits_def bloom_positions_def)
  moreover have "bs' \<noteq> []" using l assms by (auto simp: wf_bloom_def)
  moreover have "bloom_positions (f\<lparr>bf_bytes := bs'\<rparr>) = bloom_positions f"
    using l by (simp add: bloom_positions_def bloom_size_bits_def bloom_functions_def)
  ultimately show ?thesis using assms pos
    by (intro exI [of _ "f\<lparr>bf_bytes := bs'\<rparr>"]) (simp add: bloom_insert_def wf_bloom_def Let_def)
qed

lemma bloom_contains_exact:
  assumes "wf_bloom f"
  shows "bloom_contains f value = Some (bloom_positions f value \<subseteq> bytes_bits (bf_bytes f))"
proof -
  have pos: "0 < bloom_size_bits f" using assms by (simp add: wf_bloom_def bloom_size_bits_def)
  have "(case slice_get (bf_bytes f) (drop_bit 3 i) of None \<Rightarrow> False | Some byte \<Rightarrow> byte AND push_bit (i AND 7) 1 \<noteq> 0) \<longleftrightarrow>
      i \<in> bytes_bits (bf_bytes f)" if "i < bloom_size_bits f" for i
    using that by (simp add: bloom_size_bits_def bytes_bits_def index_parts byte_bit less_mult_imp_div_less)
  with pos show ?thesis
    by (auto simp: bloom_contains_def bloom_positions_def value_positions_def Let_def list_all_iff)
qed

section \<open>Sequences of insertions\<close>

fun bloom_run :: "hsd_bloom_filter \<Rightarrow> bytes list \<Rightarrow> hsd_bloom_filter option" where
  "bloom_run f [] = Some f"
| "bloom_run f (v # vs) =
     (case bloom_insert f v :: (hsd_bloom_filter \<times> (unit bloom_error, unit) result) option of
        Some (f', Inr _) \<Rightarrow> bloom_run f' vs
      | _ \<Rightarrow> None)"

lemma bloom_run_exact:
  assumes "wf_bloom f"
  shows "\<exists>f'. bloom_run f vs = Some f' \<and> wf_bloom f' \<and> bloom_positions f' = bloom_positions f \<and>
    bytes_bits (bf_bytes f') = bytes_bits (bf_bytes f) \<union> (\<Union>v \<in> set vs. bloom_positions f v)"
  using assms
proof (induction vs arbitrary: f)
  case (Cons v vs)
  obtain f1 where f1: "bloom_insert f v = Some (f1, Inr () :: (unit bloom_error, unit) result)" "wf_bloom f1"
      "bloom_positions f1 = bloom_positions f" "bytes_bits (bf_bytes f1) = bytes_bits (bf_bytes f) \<union> bloom_positions f v"
    using bloom_insert_exact [OF Cons.prems] by blast
  with Cons.IH [OF f1(2)] show ?case by (simp add: Un_assoc)
qed simp

lemma bloom_new_wf:
  assumes "bloom_new n k t u = Inr f"
  shows "wf_bloom f \<and> bytes_bits (bf_bytes f) = {} \<and> length (bf_bytes f) = max n 8 div 8"
proof -
  define m where "m = max n 8"
  have "(m - m mod 8) div 8 = m div 8" by (simp add: minus_mod_eq_mult_div)
  with assms have f: "f = \<lparr>bf_bytes = replicate (m div 8) 0, bf_hash_functions = max k 1, bf_tweak = t, bf_update = u\<rparr>"
      and m: "m \<le> MAX_BLOOM_FILTER_BYTES * 8" and k: "\<not> MAX_BLOOM_HASH_FUNCTIONS < max k 1"
    by (auto simp: bloom_new_def Let_def index_parts simp flip: m_def split: if_splits)
  have "0 < m div 8" by (simp add: m_def max_def div_greater_zero_iff)
  moreover have "m div 8 \<le> MAX_BLOOM_FILTER_BYTES" using div_le_mono [OF m, of 8] by simp
  moreover have "0 < max k 1" by (rule less_le_trans [of _ 1]) simp_all
  moreover have "bytes_bits (replicate l 0) = {}" for l by (auto simp: bytes_bits_def less_mult_imp_div_less)
  moreover have "max k 1 \<le> MAX_BLOOM_HASH_FUNCTIONS" using k by (simp only: not_less)
  ultimately show ?thesis by (simp add: f wf_bloom_def m_def del: max.bounded_iff less_max_iff_disj)
qed

section \<open>The wire form\<close>

lemma bloom_update_Inr [result_inv]: "bloom_update_try_from v = Inr u \<longleftrightarrow> v = bloom_update_code u"
  by (cases u) (auto simp: bloom_update_try_from_def bloom_update_code_def)

lemma bloom_update_codes [simp]: "bloom_update_try_from (bloom_update_code u) = Inr u"
  by (simp add: bloom_update_Inr)

lemma bloom_encode_eq:
  assumes "encoder_laws E" and "var_encoder_laws E"
  shows "bloom_encode E f =
    varbytes (bf_bytes f) @ le_bytes 4 (bf_hash_functions f) @ le_bytes 4 (bf_tweak f) @ [bloom_update_code (bf_update f)]"
  using assms by (simp add: bloom_encode_def)

lemma bloom_decode_strict_Inr:
  assumes D: "decoder_laws D view" "var_decoder_laws D view"
  shows "bloom_decode_strict D bs = Inr f \<longleftrightarrow> wf_bloom f \<and> bs =
    varbytes (bf_bytes f) @ le_bytes 4 (bf_hash_functions f) @ le_bytes 4 (bf_tweak f) @ [bloom_update_code (bf_update f)]"
    (is "?l \<longleftrightarrow> ?r")
proof
  note t = var_decoder_lawsD(2) [OF D(2), of MAX_BLOOM_FILTER_BYTES "''bloom filter''"] decoder_lawsD(6) [OF D(1)] decoder_lawsD(2) [OF D(1)]
  assume ?l
  then obtain d1 d2 d3 d4 where "de_read_varbytes D (de_new D bs) MAX_BLOOM_FILTER_BYTES ''bloom filter'' = Inr (bf_bytes f, d1)"
      "de_read_u32_le D d1 = Inr (bf_hash_functions f, d2)" "de_read_u32_le D d2 = Inr (bf_tweak f, d3)"
      "de_read_u8 D d3 = Inr (bloom_update_code (bf_update f), d4)" "de_finish D d4 = Inr ()"
      and "bf_bytes f \<noteq> []" "bf_hash_functions f \<noteq> 0" "\<not> bf_hash_functions f > MAX_BLOOM_HASH_FUNCTIONS"
    by (auto simp: bloom_decode_strict_def result_inv split: if_splits)
  with takesD [OF t(1) this(1)] takesD [OF t(2) this(2)] takesD [OF t(2) this(3)] takesD [OF t(3) this(4)] show ?r
    by (auto simp: decoder_lawsD(1,8) [OF D(1)] wf_bloom_def word_greater_zero_iff)
next
  note t = var_decoder_lawsD(2) [OF D(2), of MAX_BLOOM_FILTER_BYTES "''bloom filter''"] decoder_lawsD(6) [OF D(1)] decoder_lawsD(2) [OF D(1)]
  assume r: ?r
  then have "length (bf_bytes f) \<le> MAX_BLOOM_FILTER_BYTES \<and> length (bf_bytes f) \<le> usize_max"
    by (simp add: wf_bloom_def MAX_BLOOM_FILTER_BYTES_def usize_max_def)
  then obtain d1 where 1: "de_read_varbytes D (de_new D bs) MAX_BLOOM_FILTER_BYTES ''bloom filter'' = Inr (bf_bytes f, d1)"
      "view d1 = le_bytes 4 (bf_hash_functions f) @ le_bytes 4 (bf_tweak f) @ [bloom_update_code (bf_update f)]"
    using takesI [OF t(1), of "de_new D bs" "bf_bytes f"] r by (auto simp: decoder_lawsD(1) [OF D(1)])
  moreover obtain d2 where 2: "de_read_u32_le D d1 = Inr (bf_hash_functions f, d2)"
      "view d2 = le_bytes 4 (bf_tweak f) @ [bloom_update_code (bf_update f)]"
    using takesI [OF t(2) 1(2)] by auto
  moreover obtain d3 where 3: "de_read_u32_le D d2 = Inr (bf_tweak f, d3)" "view d3 = [bloom_update_code (bf_update f)]"
    using takesI [OF t(2) 2(2)] by auto
  moreover obtain d4 where "de_read_u8 D d3 = Inr (bloom_update_code (bf_update f), d4)" "view d4 = []"
    using takesI [OF t(3), of d3 "bloom_update_code (bf_update f)" "[]"] 3(2) by auto
  moreover from this have "de_finish D d4 = Inr ()" by (simp add: decoder_lawsD(8) [OF D(1)])
  ultimately show ?l using r
    by (auto simp: bloom_decode_strict_def wf_bloom_def word_greater_zero_iff)
qed

section \<open>Properties\<close>

text \<open>C39: A filter made by the constructor accepts every sequence of insertions, without panic and without
  reaching its internal error, and then contains exactly the values whose bit positions are covered by the
  positions of the inserted values.  In particular it has no false negatives, and its size is the requested
  one rounded down to bytes, at least one byte and within policy.\<close>

theorem bloom_membership_exact:
  assumes "bloom_new n k t u = Inr f"
  shows "\<exists>f'. bloom_run f vs = Some f' \<and> wf_bloom f' \<and> bloom_size_bits f = 8 * (max n 8 div 8) \<and>
    (\<forall>w. bloom_contains f' w = Some (bloom_positions f w \<subseteq> (\<Union>v \<in> set vs. bloom_positions f v))) \<and>
    (\<forall>w \<in> set vs. bloom_contains f' w = Some True)"
proof -
  note new = bloom_new_wf [OF assms]
  obtain f' where f': "bloom_run f vs = Some f'" "wf_bloom f'" "bloom_positions f' = bloom_positions f"
      "bytes_bits (bf_bytes f') = (\<Union>v \<in> set vs. bloom_positions f v)"
    using bloom_run_exact [of f vs] new by auto
  have "bloom_contains f' w = Some (bloom_positions f w \<subseteq> (\<Union>v \<in> set vs. bloom_positions f v))" for w
    using bloom_contains_exact [OF f'(2), of w] f'(3,4) by simp
  with f'(1,2) new show ?thesis by (auto simp: bloom_size_bits_def)
qed

definition sample_filter :: hsd_bloom_filter where
  "sample_filter = \<lparr>bf_bytes = replicate 3 0, bf_hash_functions = 5, bf_tweak = 0, bf_update = UpdateAll\<rparr>"

theorem bloom_membership_exact_witness:
  "\<exists>f'. bloom_run sample_filter [[7, 9], []] = Some f' \<and> bloom_contains f' [7, 9] = Some True"
proof -
  have "(bloom_new 24 5 0 UpdateAll :: (unit bloom_error, _) result) = Inr sample_filter"
    by (simp add: bloom_new_def sample_filter_def MAX_BLOOM_FILTER_BYTES_def MAX_BLOOM_HASH_FUNCTIONS_def index_parts)
  from bloom_membership_exact [OF this, of "[[7, 9], []]"] show ?thesis by auto
qed

text \<open>The wire form of filters is exact: a payload is accepted exactly when it is the encoding of a
  filter within the size and hash policies, and then decoded to that filter.\<close>

lemma bloom_wire_exact:
  assumes "decoder_laws D view" and "var_decoder_laws D view" and "encoder_laws E" and "var_encoder_laws E"
  shows "bloom_decode_strict D bs = Inr f \<longleftrightarrow> wf_bloom f \<and> bs = bloom_encode E f"
  using bloom_decode_strict_Inr [OF assms(1,2)] bloom_encode_eq [OF assms(3,4)] by simp

lemma bloom_wire_exact_witness:
  "bloom_decode_strict list_decoder (bloom_encode list_encoder sample_filter) = Inr sample_filter"
  using bloom_wire_exact [OF list_decoder_laws list_var_decoder_laws list_encoder_laws list_var_encoder_laws]
  by (simp add: wf_bloom_def sample_filter_def MAX_BLOOM_FILTER_BYTES_def MAX_BLOOM_HASH_FUNCTIONS_def)

text \<open>Adding an element returns the packet for exactly that element, and the peer's copy is refused or changed
  like the local one.\<close>

lemma add_packet_exact:
  assumes "wf_bloom f" and "encoder_laws E" and "var_encoder_laws E"
  shows "\<exists>f'. add_packet E K f v = Some (f', if length v \<le> 520 then Inr (pk_filter_add K (varbytes v)) else Inl (ElementTooLarge :: 'x bloom_error)) \<and>
    wf_bloom f' \<and> bytes_bits (bf_bytes f') = bytes_bits (bf_bytes f) \<union> (if length v \<le> 520 then bloom_positions f v else {})"
proof -
  obtain f' where "bloom_insert f v = Some (f', Inr () :: ('x bloom_error, unit) result)" "wf_bloom f'"
      "bytes_bits (bf_bytes f') = bytes_bits (bf_bytes f) \<union> bloom_positions f v"
    using bloom_insert_exact [OF assms(1), of v] by blast
  then show ?thesis using assms by (simp add: add_packet_def MAX_FILTER_ADD_ELEMENT_BYTES_def)
qed

lemma murmur3_vector: "murmur3 (ascii ''hello'') 0 = 0x248bfa47"
  by code_simp

end
