(* ===== verification/Merkle_Block.thy ===== *)
theory Merkle_Block
  imports Light_Chain Hns_Encoding
begin

unbundle bit_operations_syntax

text \<open>
  Filtered-block evidence (src/crates/hns-light-wallet/src/lib.rs): the header anchor a wallet trusts, the
  MerkleBlock payload of a peer and the partial Merkle tree in it.  The header type with its size, decoder
  and hashes, and the byte decoder, are external and parameters of the definitions, as is BLAKE2b.  The
  height of a tree is at most 15, so the shift in \<open>tree_width\<close> is a power of two.
\<close>

section \<open>Model\<close>

definition div_ceil :: "usize \<Rightarrow> usize \<Rightarrow> usize" where
  "div_ceil a b = (a + (b - 1)) div b"

definition MAX_FILTERED_BLOCK_TRANSACTIONS :: usize where
  "MAX_FILTERED_BLOCK_TRANSACTIONS = 1000000 div 60"

definition MAX_PARTIAL_MERKLE_FLAG_BYTES :: usize where
  "MAX_PARTIAL_MERKLE_FLAG_BYTES = div_ceil (MAX_FILTERED_BLOCK_TRANSACTIONS * 2) 8"

record ('h, 'x) header_codec =
  hc_size :: usize
  hc_decode :: "bytes \<Rightarrow> ('x, 'h) result"

definition MAX_MERKLE_BLOCK_PAYLOAD_BYTES :: "('h, 'x) header_codec \<Rightarrow> usize" where
  "MAX_MERKLE_BLOCK_PAYLOAD_BYTES K =
     hc_size K + 4 + 9 + MAX_FILTERED_BLOCK_TRANSACTIONS * 32 + 9 + MAX_PARTIAL_MERKLE_FLAG_BYTES"

datatype (plugins only: code) 'x wallet_evidence_error =
  EmptyBlockRequest | TooManyBlockRequests | EmptyPeerViews | PeerViewHeaderMismatch | PeerViewTransactionMismatch
| PeerViewConflict | MerkleBlockTooLarge | WeDecode 'x | WeHeader 'x | WrongHeader | ZeroTransactions
| TooManyTransactions | TooManyHashes | FlagsTooSmall | ExhaustedFlags | ExhaustedHashes | UnusedFlagBits
| UnusedHashes | MerkleRootMismatch | DuplicateMatchedTransaction | UnexpectedTransaction
| DuplicateTransactionIndex | MissingTransactions | WeTransaction 'x | WeArithmeticOverflow

record wallet_header_anchor =
  wa_height :: u32
  wa_hash :: hash
  wa_previous_block :: hash
  wa_tree_root :: hash
  wa_merkle_root :: hash
  wa_time :: u64

definition from_validated_header :: "('h, 'w, 'x) consensus \<Rightarrow> u32 \<Rightarrow> 'h \<Rightarrow> wallet_header_anchor" where
  "from_validated_header C height header =
     \<lparr>wa_height = height, wa_hash = cs_block_hash C header, wa_previous_block = cs_previous_block C header,
      wa_tree_root = cs_tree_root C header, wa_merkle_root = cs_merkle_root C header, wa_time = cs_time C header\<rparr>"

definition anchor_from_entry :: "'w header_entry \<Rightarrow> wallet_header_anchor" where
  "anchor_from_entry entry =
     \<lparr>wa_height = he_height entry, wa_hash = he_hash entry, wa_previous_block = he_previous_block entry,
      wa_tree_root = he_tree_root entry, wa_merkle_root = he_merkle_root entry, wa_time = he_time entry\<rparr>"

record matched_transaction =
  mt_hash :: hash
  mt_index :: u32

record wallet_block_evidence =
  we_header :: wallet_header_anchor
  we_total_transactions :: u32
  we_matches :: "matched_transaction list"

subsection \<open>Hashing\<close>

definition merkle_empty :: "digest \<Rightarrow> hash" where
  "merkle_empty blake2b = blake2b_256 blake2b [[]]"

definition merkle_leaf :: "digest \<Rightarrow> hash \<Rightarrow> hash" where
  "merkle_leaf blake2b hash = blake2b_256 blake2b [[0], hash]"

definition merkle_internal :: "digest \<Rightarrow> hash \<Rightarrow> hash \<Rightarrow> hash" where
  "merkle_internal blake2b left right = blake2b_256 blake2b [[1], left, right]"

definition tree_width :: "usize \<Rightarrow> usize \<Rightarrow> usize" where
  "tree_width count height = div_ceil count (2 ^ height)"

subsection \<open>The reader of partial trees\<close>

record partial_tree_reader =
  pr_total :: usize
  pr_flags :: bytes
  pr_hashes :: "hash list"
  pr_bits_used :: usize
  pr_hashes_used :: usize
  pr_matches :: "matched_transaction list"
  pr_matched_hashes :: "hash set"

definition read_bit :: "partial_tree_reader \<Rightarrow> ('x wallet_evidence_error, bool \<times> partial_tree_reader) result" where
  "read_bit r =
     rbind (ok_or ExhaustedFlags (slice_get (pr_flags r) (pr_bits_used r div 8))) (\<lambda>byte.
     let b = (byte AND push_bit (pr_bits_used r mod 8) 1 \<noteq> 0) in
     rbind (ok_or WeArithmeticOverflow (usize_add (pr_bits_used r) 1)) (\<lambda>n.
     Inr (b, r\<lparr>pr_bits_used := n\<rparr>)))"

definition read_hash :: "partial_tree_reader \<Rightarrow> ('x wallet_evidence_error, hash \<times> partial_tree_reader) result" where
  "read_hash r =
     rbind (ok_or ExhaustedHashes (slice_get (pr_hashes r) (pr_hashes_used r))) (\<lambda>hash.
     rbind (ok_or WeArithmeticOverflow (usize_add (pr_hashes_used r) 1)) (\<lambda>n.
     Inr (hash, r\<lparr>pr_hashes_used := n\<rparr>)))"

definition checked_sub :: "usize \<Rightarrow> usize \<Rightarrow> usize option" where
  "checked_sub a b = (if b \<le> a then Some (a - b) else None)"

definition checked_mul :: "usize \<Rightarrow> usize \<Rightarrow> usize option" where
  "checked_mul a b = (if a * b \<le> usize_max then Some (a * b) else None)"

function traverse ::
  "digest \<Rightarrow> usize \<Rightarrow> usize \<Rightarrow> partial_tree_reader \<Rightarrow> ('x wallet_evidence_error, hash \<times> partial_tree_reader) result" where
  "traverse blake2b height position r =
     rbind (read_bit r) (\<lambda>(parent, r).
     if height = 0 \<or> \<not> parent then
       rbind (read_hash r) (\<lambda>(hash, r).
       if height = 0 \<and> parent then
         if hash \<in> pr_matched_hashes r then Inl DuplicateMatchedTransaction
         else let r = r\<lparr>pr_matched_hashes := insert hash (pr_matched_hashes r)\<rparr>
         in if position > 4294967295 then Inl WeArithmeticOverflow
         else let r = r\<lparr>pr_matches := pr_matches r @ [\<lparr>mt_hash = hash, mt_index = of_nat position\<rparr>]\<rparr>
         in Inr (merkle_leaf blake2b hash, r)
       else Inr (hash, r))
     else
       rbind (ok_or WeArithmeticOverflow (checked_sub height 1)) (\<lambda>child_height.
       rbind (ok_or WeArithmeticOverflow (checked_mul position 2)) (\<lambda>left_position.
       rbind (traverse blake2b child_height left_position r) (\<lambda>(left, r).
       rbind (ok_or WeArithmeticOverflow (usize_add left_position 1)) (\<lambda>right_position.
       rbind (if right_position < tree_width (pr_total r) child_height
              then traverse blake2b child_height (left_position + 1) r
              else Inr (merkle_empty blake2b, r)) (\<lambda>(right, r).
       Inr (merkle_internal blake2b left right, r)))))))"
  by pat_completeness auto
termination
  by (relation "measure (\<lambda>(_, h, _, _). h)") (auto simp: checked_sub_def result_inv split: if_splits)

declare traverse.simps [simp del]

subsection \<open>Decoding\<close>

lemma less_div_ceil: "0 < b \<Longrightarrow> p < div_ceil n b \<longleftrightarrow> p * b < n"
  using less_eq_div_iff_mult_less_eq [of b "Suc p" "n + (b - 1)"] by (auto simp: div_ceil_def Suc_le_eq)

lemma less_tree_width: "p < tree_width count height \<longleftrightarrow> p * 2 ^ height < count"
  by (simp add: tree_width_def less_div_ceil)

lemma tree_width_gt_1: "1 < tree_width count height \<Longrightarrow> height < count"
  using order.strict_trans [OF less_exp [of height], of count] by (simp add: less_tree_width)

function tree_height :: "usize \<Rightarrow> usize \<Rightarrow> ('x wallet_evidence_error, usize) result" where
  "tree_height count height =
     (if tree_width count height > 1 then
        rbind (ok_or WeArithmeticOverflow (usize_add height 1)) (\<lambda>height. tree_height count height)
      else Inr height)"
  by pat_completeness auto
termination
  by (relation "measure (\<lambda>(n, h). n - h)") (use tree_width_gt_1 in \<open>auto simp: result_inv intro: diff_less_mono2\<close>)

declare tree_height.simps [simp del]

fun read_hashes :: "('d, 'x) decoder_lib \<Rightarrow> nat \<Rightarrow> 'd \<Rightarrow> ('x, hash list \<times> 'd) result" where
  "read_hashes D 0 d = Inr ([], d)"
| "read_hashes D (Suc n) d =
     rbind (de_read_array D 32 d) (\<lambda>(h, d). rbind (read_hashes D n d) (\<lambda>(hs, d). Inr (h # hs, d)))"

record decoded_partial_merkle =
  dp_total_transactions :: u32
  dp_matches :: "matched_transaction list"

definition check_partial_tree ::
  "digest \<Rightarrow> u32 \<Rightarrow> hash list \<Rightarrow> bytes \<Rightarrow> hash \<Rightarrow> ('x wallet_evidence_error, decoded_partial_merkle) result" where
  "check_partial_tree blake2b total_transactions hashes flags merkle_root =
     (let count = unat total_transactions in
      if length hashes > count then Inl TooManyHashes
      else if min (length flags * 8) usize_max < length hashes then Inl FlagsTooSmall
      else
        rbind (tree_height count 0) (\<lambda>height.
        let reader = \<lparr>pr_total = count, pr_flags = flags, pr_hashes = hashes, pr_bits_used = 0, pr_hashes_used = 0,
                      pr_matches = [], pr_matched_hashes = {}\<rparr> in
        rbind (traverse blake2b height 0 reader) (\<lambda>(root, reader).
        if div_ceil (pr_bits_used reader) 8 \<noteq> length flags then Inl UnusedFlagBits
        else if pr_hashes_used reader \<noteq> length hashes then Inl UnusedHashes
        else if root \<noteq> merkle_root then Inl MerkleRootMismatch
        else Inr \<lparr>dp_total_transactions = total_transactions, dp_matches = pr_matches reader\<rparr>)))"

definition decode_partial_merkle ::
  "('d, 'x) decoder_lib \<Rightarrow> ('h, 'w, 'x) consensus \<Rightarrow> ('h, 'x) header_codec \<Rightarrow> digest \<Rightarrow> bytes \<Rightarrow> hash \<Rightarrow> hash \<Rightarrow>
   ('x wallet_evidence_error, decoded_partial_merkle) result" where
  "decode_partial_merkle D C K blake2b input expected_hash expected_merkle_root =
     (if length input > MAX_MERKLE_BLOCK_PAYLOAD_BYTES K then Inl MerkleBlockTooLarge
      else
        rbind (map_err WeDecode (de_read_slice D (de_new D input) (hc_size K))) (\<lambda>(header_bytes, d).
        rbind (map_err WeHeader (hc_decode K header_bytes)) (\<lambda>header.
        if cs_block_hash C header \<noteq> expected_hash \<or> cs_merkle_root C header \<noteq> expected_merkle_root then Inl WrongHeader
        else
          rbind (map_err WeDecode (de_read_u32_le D d)) (\<lambda>(total_transactions, d).
          if unat total_transactions = 0 then Inl ZeroTransactions
          else if unat total_transactions > MAX_FILTERED_BLOCK_TRANSACTIONS then Inl TooManyTransactions
          else
            rbind (map_err WeDecode (de_read_compact_usize D d (unat total_transactions) ''partial Merkle hashes'')) (\<lambda>(hash_count, d).
            rbind (map_err WeDecode (read_hashes D hash_count d)) (\<lambda>(hashes, d).
            rbind (map_err WeDecode (de_read_varbytes D d MAX_PARTIAL_MERKLE_FLAG_BYTES ''partial Merkle flags'')) (\<lambda>(flags, d).
            rbind (map_err WeDecode (de_finish D d)) (\<lambda>_.
            check_partial_tree blake2b total_transactions hashes flags (cs_merkle_root C header))))))))) "

definition decode_for_anchor ::
  "('d, 'x) decoder_lib \<Rightarrow> ('h, 'w, 'x) consensus \<Rightarrow> ('h, 'x) header_codec \<Rightarrow> digest \<Rightarrow> bytes \<Rightarrow> wallet_header_anchor \<Rightarrow>
   ('x wallet_evidence_error, wallet_block_evidence) result" where
  "decode_for_anchor D C K blake2b input header =
     rbind (decode_partial_merkle D C K blake2b input (wa_hash header) (wa_merkle_root header)) (\<lambda>decoded.
     Inr \<lparr>we_header = header, we_total_transactions = dp_total_transactions decoded, we_matches = dp_matches decoded\<rparr>)"

definition decode_for_header ::
  "('d, 'x) decoder_lib \<Rightarrow> ('h, 'w, 'x) consensus \<Rightarrow> ('h, 'x) header_codec \<Rightarrow> digest \<Rightarrow> bytes \<Rightarrow> 'w header_entry \<Rightarrow>
   ('x wallet_evidence_error, wallet_block_evidence) result" where
  "decode_for_header D C K blake2b input header = decode_for_anchor D C K blake2b input (anchor_from_entry header)"

end
