(* ===== verification/Wallet_Block.thy ===== *)
theory Wallet_Block
  imports Merkle_Block "HOL-Library.List_Lexorder" "HOL-Library.Product_Lexorder"
begin

text \<open>
  Correlation of transactions with filtered-block evidence and the union of peer views
  (src/crates/hns-light-wallet/src/lib.rs).  A \<open>BTreeMap\<close> is the list of its entries in key order; what the
  clients rely on of it is the locale \<open>ordered_map\<close>.  Transactions and their hash come from the crate
  hns-transaction, packets from hns-p2p-wire: they are parameters.
\<close>

section \<open>Ordered maps\<close>

fun bt_insert :: "'k :: linorder \<Rightarrow> 'v \<Rightarrow> ('k \<times> 'v) list \<Rightarrow> ('k \<times> 'v) list" where
  "bt_insert k v [] = [(k, v)]"
| "bt_insert k v ((k', v') # m) =
     (if k < k' then (k, v) # (k', v') # m else if k = k' then (k, v) # m else (k', v') # bt_insert k v m)"

definition bt_remove :: "'k \<Rightarrow> ('k \<times> 'v) list \<Rightarrow> ('k \<times> 'v) list" where
  "bt_remove k m = filter (\<lambda>(k', _). k' \<noteq> k) m"

definition bt_ordered :: "('k :: linorder \<times> 'v) list \<Rightarrow> bool" where
  "bt_ordered m \<longleftrightarrow> sorted_wrt (<) (map fst m)"

locale ordered_map =
  fixes lookup :: "'m \<Rightarrow> 'k :: linorder \<Rightarrow> 'v option"
    and insert_key :: "'k \<Rightarrow> 'v \<Rightarrow> 'm \<Rightarrow> 'm"
    and remove_key :: "'k \<Rightarrow> 'm \<Rightarrow> 'm"
    and entries :: "'m \<Rightarrow> ('k \<times> 'v) list"
    and ok :: "'m \<Rightarrow> bool"
  assumes ok_insert: "ok m \<Longrightarrow> ok (insert_key k v m)" and ok_remove: "ok m \<Longrightarrow> ok (remove_key k m)"
    and lookup_insert: "ok m \<Longrightarrow> lookup (insert_key k v m) = (lookup m)(k \<mapsto> v)"
    and lookup_remove: "ok m \<Longrightarrow> lookup (remove_key k m) = (lookup m)(k := None)"
    and entries_ordered: "ok m \<Longrightarrow> sorted_wrt (<) (map fst (entries m))"
    and entries_lookup: "ok m \<Longrightarrow> (k, v) \<in> set (entries m) \<longleftrightarrow> lookup m k = Some v"
begin

lemma distinct_keys: "ok m \<Longrightarrow> distinct (map fst (entries m))"
  using entries_ordered strict_sorted_iff by blast

text \<open>An ordered map is determined by its look-ups.\<close>

lemma entries_eq:
  assumes "ok m" and "sorted_wrt (<) (map fst xs)" and "map_of xs = lookup m"
  shows "entries m = xs"
proof -
  have d: "distinct (map fst xs)" using assms(2) strict_sorted_iff by blast
  have "map_of (entries m) = map_of xs"
  proof
    fix k show "map_of (entries m) k = map_of xs k"
      using distinct_keys [OF assms(1)] entries_lookup [OF assms(1)] assms(3)
      by (cases "map_of (entries m) k") (metis map_of_eq_Some_iff not_Some_eq, metis map_of_eq_Some_iff)
  qed
  then have "set (entries m) = set xs"
    using map_of_inject_set [OF distinct_keys [OF assms(1)] d] by simp
  then have "sorted_list_of_set (set (map fst (entries m))) = sorted_list_of_set (set (map fst xs))" by simp
  then have "map fst (entries m) = map fst xs"
    using sorted_list_of_set.idem_if_sorted_distinct entries_ordered [OF assms(1)] assms(2) strict_sorted_iff by metis
  moreover have v: "snd e = the (map_of xs (fst e))" if "e \<in> set xs" for e
    using that map_of_is_SomeI [OF d, of "fst e" "snd e"] by simp
  moreover from this have "snd e = the (map_of xs (fst e))" if "e \<in> set (entries m)" for e
    using that \<open>set (entries m) = set xs\<close> by simp
  ultimately show ?thesis
    by (intro nth_equalityI) (metis length_map, metis length_map nth_map nth_mem prod_eqI)
qed

lemma entries_Nil_iff: "ok m \<Longrightarrow> entries m = [] \<longleftrightarrow> lookup m = (\<lambda>_. None)"
  using entries_eq [of m "[]"] entries_lookup [of m] by (auto simp: fun_eq_iff) (metis not_Some_eq)

end

lemma bt_insert_keys: "set (map fst (bt_insert k v m)) = insert k (set (map fst m))"
  by (induction m rule: bt_insert.induct) auto

lemma bt_insert_ordered: "bt_ordered m \<Longrightarrow> bt_ordered (bt_insert k v m)"
proof (induction k v m rule: bt_insert.induct)
  case (2 k v k' v' m)
  then show ?case using bt_insert_keys [of k v m] by (fastforce simp: bt_ordered_def)
qed (simp add: bt_ordered_def)

lemma bt_insert_lookup: "bt_ordered m \<Longrightarrow> map_of (bt_insert k v m) = (map_of m)(k \<mapsto> v)"
proof (induction k v m rule: bt_insert.induct)
  case (2 k v k' v' m)
  then show ?case by (auto simp: bt_ordered_def fun_eq_iff)
qed simp

lemma bt_remove_lookup: "map_of (bt_remove k m) = (map_of m)(k := None)"
  by (induction m) (auto simp: bt_remove_def fun_eq_iff)

lemma bt_remove_ordered: "bt_ordered m \<Longrightarrow> bt_ordered (bt_remove k m)"
  by (simp add: bt_ordered_def bt_remove_def sorted_wrt_map sorted_wrt_filter)

interpretation bt: ordered_map map_of bt_insert bt_remove "\<lambda>m. m" bt_ordered
proof unfold_locales
  fix m :: "('a \<times> 'b) list" and k v assume "bt_ordered m"
  then have "distinct (map fst m)" using strict_sorted_iff by (auto simp: bt_ordered_def)
  then show "(k, v) \<in> set m \<longleftrightarrow> map_of m k = Some v" by simp
qed (simp_all add: bt_insert_ordered bt_remove_ordered bt_insert_lookup bt_remove_lookup, simp add: bt_ordered_def)

section \<open>Collecting the transactions of a block\<close>

record 'tx filtered_block_collector =
  fc_evidence :: wallet_block_evidence
  fc_pending :: "(hash \<times> u32) list"
  fc_transactions :: "(u32 \<times> 'tx) list"

record 'tx verified_wallet_block =
  vb_evidence :: wallet_block_evidence
  vb_transactions :: "'tx list"

fun pending_loop ::
  "matched_transaction list \<Rightarrow> (hash \<times> u32) list \<Rightarrow> ('x wallet_evidence_error, (hash \<times> u32) list) result" where
  "pending_loop [] pending = Inr pending"
| "pending_loop (m # ms) pending =
     (if map_of pending (mt_hash m) \<noteq> None then Inl DuplicateMatchedTransaction
      else pending_loop ms (bt_insert (mt_hash m) (mt_index m) pending))"

definition collector_new ::
  "wallet_block_evidence \<Rightarrow> ('x wallet_evidence_error, 'tx filtered_block_collector) result" where
  "collector_new evidence =
     rbind (pending_loop (we_matches evidence) []) (\<lambda>pending.
     Inr \<lparr>fc_evidence = evidence, fc_pending = pending, fc_transactions = []\<rparr>)"

definition evidence_collect ::
  "wallet_block_evidence \<Rightarrow> ('x wallet_evidence_error, 'tx filtered_block_collector) result" where
  "evidence_collect evidence = collector_new evidence"

definition remaining_matches :: "'tx filtered_block_collector \<Rightarrow> usize" where
  "remaining_matches c = length (fc_pending c)"

definition admit_transaction ::
  "('tx \<Rightarrow> ('x, hash) result) \<Rightarrow> 'tx filtered_block_collector \<Rightarrow> 'tx \<Rightarrow>
   'tx filtered_block_collector \<times> ('x wallet_evidence_error, usize) result" where
  "admit_transaction transaction_hash c tx =
     (case transaction_hash tx of
        Inl e \<Rightarrow> (c, Inl (WeTransaction e))
      | Inr hash \<Rightarrow>
          (case map_of (fc_pending c) hash of
             None \<Rightarrow> (c, Inl UnexpectedTransaction)
           | Some index \<Rightarrow>
               let old = map_of (fc_transactions c) index;
                   c = c\<lparr>fc_pending := bt_remove hash (fc_pending c), fc_transactions := bt_insert index tx (fc_transactions c)\<rparr>
               in if old \<noteq> None then (c, Inl DuplicateTransactionIndex) else (c, Inr (length (fc_pending c)))))"

definition collector_finish ::
  "'tx filtered_block_collector \<Rightarrow> ('x wallet_evidence_error, 'tx verified_wallet_block) result" where
  "collector_finish c =
     (if fc_pending c \<noteq> [] then Inl MissingTransactions
      else Inr \<lparr>vb_evidence = fc_evidence c, vb_transactions = map snd (fc_transactions c)\<rparr>)"

section \<open>Merging peer views\<close>

record 'tx merge_state =
  mg_matches :: "(u32 \<times> matched_transaction) list"
  mg_positions :: "(hash \<times> u32) list"
  mg_transactions :: "(hash \<times> 'tx) list"

fun index_transactions ::
  "('tx \<Rightarrow> ('x, hash) result) \<Rightarrow> 'tx list \<Rightarrow> (hash \<times> 'tx) list \<Rightarrow> ('x wallet_evidence_error, (hash \<times> 'tx) list) result" where
  "index_transactions transaction_hash [] block_transactions = Inr block_transactions"
| "index_transactions transaction_hash (tx # txs) block_transactions =
     rbind (map_err WeTransaction (transaction_hash tx)) (\<lambda>hash.
     if map_of block_transactions hash \<noteq> None then Inl PeerViewTransactionMismatch
     else index_transactions transaction_hash txs (bt_insert hash tx block_transactions))"

fun merge_matches ::
  "matched_transaction list \<Rightarrow> (hash \<times> 'tx) list \<Rightarrow> 'tx merge_state \<Rightarrow>
   ('x wallet_evidence_error, (hash \<times> 'tx) list \<times> 'tx merge_state) result" where
  "merge_matches [] block_transactions s = Inr (block_transactions, s)"
| "merge_matches (m # ms) block_transactions s =
     (case map_of block_transactions (mt_hash m) of
        None \<Rightarrow> Inl PeerViewTransactionMismatch
      | Some tx \<Rightarrow>
          let block_transactions = bt_remove (mt_hash m) block_transactions in
          if (case map_of (mg_positions s) (mt_hash m) of None \<Rightarrow> False | Some position \<Rightarrow> position \<noteq> mt_index m) \<or>
             (case map_of (mg_matches s) (mt_index m) of None \<Rightarrow> False | Some existing \<Rightarrow> mt_hash existing \<noteq> mt_hash m) \<or>
             (case map_of (mg_transactions s) (mt_hash m) of None \<Rightarrow> False | Some existing \<Rightarrow> existing \<noteq> tx)
          then Inl PeerViewConflict
          else merge_matches ms block_transactions
            \<lparr>mg_matches = bt_insert (mt_index m) m (mg_matches s), mg_positions = bt_insert (mt_hash m) (mt_index m) (mg_positions s),
             mg_transactions = bt_insert (mt_hash m) tx (mg_transactions s)\<rparr>)"

fun merge_blocks ::
  "('tx \<Rightarrow> ('x, hash) result) \<Rightarrow> wallet_header_anchor \<Rightarrow> u32 \<Rightarrow> 'tx verified_wallet_block list \<Rightarrow> 'tx merge_state \<Rightarrow>
   ('x wallet_evidence_error, 'tx merge_state) result" where
  "merge_blocks transaction_hash header total_transactions [] s = Inr s"
| "merge_blocks transaction_hash header total_transactions (b # bs) s =
     (if we_header (vb_evidence b) \<noteq> header \<or> we_total_transactions (vb_evidence b) \<noteq> total_transactions
      then Inl PeerViewHeaderMismatch
      else if length (vb_transactions b) \<noteq> length (we_matches (vb_evidence b)) then Inl PeerViewTransactionMismatch
      else
        rbind (index_transactions transaction_hash (vb_transactions b) []) (\<lambda>block_transactions.
        rbind (merge_matches (we_matches (vb_evidence b)) block_transactions s) (\<lambda>(block_transactions, s).
        if block_transactions \<noteq> [] then Inl PeerViewTransactionMismatch
        else merge_blocks transaction_hash header total_transactions bs s)))"

fun merged_transactions ::
  "matched_transaction list \<Rightarrow> (hash \<times> 'tx) list \<Rightarrow> ('x wallet_evidence_error, 'tx list \<times> (hash \<times> 'tx) list) result" where
  "merged_transactions [] transactions = Inr ([], transactions)"
| "merged_transactions (m # ms) transactions =
     rbind (ok_or PeerViewTransactionMismatch (map_of transactions (mt_hash m))) (\<lambda>tx.
     rbind (merged_transactions ms (bt_remove (mt_hash m) transactions)) (\<lambda>(txs, transactions).
     Inr (tx # txs, transactions)))"

definition merge_peer_views ::
  "('tx \<Rightarrow> ('x, hash) result) \<Rightarrow> 'tx verified_wallet_block list \<Rightarrow> ('x wallet_evidence_error, 'tx verified_wallet_block) result" where
  "merge_peer_views transaction_hash blocks =
     (case blocks of
        [] \<Rightarrow> Inl EmptyPeerViews
      | first # _ \<Rightarrow>
          let header = we_header (vb_evidence first);
              total_transactions = we_total_transactions (vb_evidence first)
          in rbind (merge_blocks transaction_hash header total_transactions blocks
               \<lparr>mg_matches = [], mg_positions = [], mg_transactions = []\<rparr>) (\<lambda>s.
          let matches = map snd (mg_matches s)
          in rbind (merged_transactions matches (mg_transactions s)) (\<lambda>(txs, transactions).
          if transactions \<noteq> [] then Inl PeerViewTransactionMismatch
          else Inr \<lparr>vb_evidence = \<lparr>we_header = header, we_total_transactions = total_transactions, we_matches = matches\<rparr>,
                    vb_transactions = txs\<rparr>)))"

section \<open>Requests\<close>

record ('i, 'p) inventory_packets =
  ip_max_items :: usize
  ip_filtered_block :: "hash \<Rightarrow> 'i"
  ip_get_data :: "'i list \<Rightarrow> 'p"

definition request_filtered_blocks ::
  "('i, 'p) inventory_packets \<Rightarrow> 'w header_entry list \<Rightarrow> ('x wallet_evidence_error, 'p) result" where
  "request_filtered_blocks P headers =
     (if headers = [] then Inl EmptyBlockRequest
      else if length headers > ip_max_items P then Inl TooManyBlockRequests
      else Inr (ip_get_data P (map (\<lambda>entry. ip_filtered_block P (he_hash entry)) headers)))"

end
