(* ===== verification/Merkle_Laws.thy ===== *)
theory Merkle_Laws
  imports Merkle_Block "HOL-Library.Sublist"
begin

unbundle bit_operations_syntax

text \<open>
  What an accepted MerkleBlock means.  A partial tree is a datatype; the traversal reads exactly the flags and
  hashes of the tree it returns the root of.  The transactions of a block commit to their hashes by the
  level-wise Merkle tree of Handshake.  For a digest without collisions on the inputs hashed, every
  accepted match is the transaction at its index of the committed block; and every selection of the
  transactions of a block within the size limits has an accepted payload that reports exactly it.
\<close>

section \<open>Partial trees\<close>

datatype partial_tree =
  PRoot hash
| PLeaf hash
| PEdge partial_tree
| PNode partial_tree partial_tree

fun partial_hash :: "digest \<Rightarrow> partial_tree \<Rightarrow> hash" where
  "partial_hash H (PRoot h) = h"
| "partial_hash H (PLeaf h) = merkle_leaf H h"
| "partial_hash H (PEdge l) = merkle_internal H (partial_hash H l) (merkle_empty H)"
| "partial_hash H (PNode l r) = merkle_internal H (partial_hash H l) (partial_hash H r)"

fun partial_flags :: "partial_tree \<Rightarrow> bool list" where
  "partial_flags (PRoot h) = [False]"
| "partial_flags (PLeaf h) = [True]"
| "partial_flags (PEdge l) = True # partial_flags l"
| "partial_flags (PNode l r) = True # partial_flags l @ partial_flags r"

fun partial_hashes :: "partial_tree \<Rightarrow> hash list" where
  "partial_hashes (PRoot h) = [h]"
| "partial_hashes (PLeaf h) = [h]"
| "partial_hashes (PEdge l) = partial_hashes l"
| "partial_hashes (PNode l r) = partial_hashes l @ partial_hashes r"

fun partial_matches :: "nat \<Rightarrow> partial_tree \<Rightarrow> matched_transaction list" where
  "partial_matches p (PRoot h) = []"
| "partial_matches p (PLeaf h) = [\<lparr>mt_hash = h, mt_index = of_nat p\<rparr>]"
| "partial_matches p (PEdge l) = partial_matches (p * 2) l"
| "partial_matches p (PNode l r) = partial_matches (p * 2) l @ partial_matches (p * 2 + 1) r"

text \<open>The shape of a partial tree below position \<open>p\<close> of the row at height \<open>k\<close> of a block of \<open>n\<close> transactions.\<close>

fun shaped :: "nat \<Rightarrow> nat \<Rightarrow> nat \<Rightarrow> partial_tree \<Rightarrow> bool" where
  "shaped n k p (PRoot h) = True"
| "shaped n k p (PLeaf h) = (k = 0)"
| "shaped n k p (PEdge l) = (0 < k \<and> shaped n (k - 1) (p * 2) l \<and> tree_width n (k - 1) \<le> p * 2 + 1)"
| "shaped n k p (PNode l r) =
     (0 < k \<and> shaped n (k - 1) (p * 2) l \<and> p * 2 + 1 < tree_width n (k - 1) \<and> shaped n (k - 1) (p * 2 + 1) r)"

section \<open>The reader\<close>

definition byte_flags :: "u8 \<Rightarrow> bool list" where
  "byte_flags b = map (bit b) [0..<8]"

definition flag_bits :: "bytes \<Rightarrow> bool list" where
  "flag_bits bs = concat (map byte_flags bs)"

definition bits_left :: "partial_tree_reader \<Rightarrow> bool list" where
  "bits_left r = drop (pr_bits_used r) (flag_bits (pr_flags r))"

definition hashes_left :: "partial_tree_reader \<Rightarrow> hash list" where
  "hashes_left r = drop (pr_hashes_used r) (pr_hashes r)"

lemma length_flag_bits [simp]: "length (flag_bits bs) = length bs * 8"
  by (induction bs) (simp_all add: flag_bits_def byte_flags_def)

lemma nth_flag_bits: "i < length bs * 8 \<Longrightarrow> flag_bits bs ! i \<longleftrightarrow> bit (bs ! (i div 8)) (i mod 8)"
proof (induction bs arbitrary: i)
  case (Cons b bs)
  show ?case
  proof (cases "i < 8")
    case False
    then have "i div 8 = Suc ((i - 8) div 8)" "i mod 8 = (i - 8) mod 8" by (simp_all add: le_div_geq le_mod_geq)
    then show ?thesis using Cons.IH [of "i - 8"] Cons.prems False by (simp add: flag_bits_def byte_flags_def nth_append)
  qed (simp add: flag_bits_def byte_flags_def nth_append)
qed simp

definition reader_fits :: "partial_tree_reader \<Rightarrow> bool" where
  "reader_fits r \<longleftrightarrow> length (pr_flags r) * 8 \<le> usize_max \<and> length (pr_hashes r) \<le> usize_max"

definition readable :: "partial_tree_reader \<Rightarrow> nat \<Rightarrow> partial_tree \<Rightarrow> bool" where
  "readable r p t \<longleftrightarrow> prefix (partial_flags t) (bits_left r) \<and> prefix (partial_hashes t) (hashes_left r) \<and>
     distinct (map mt_hash (partial_matches p t)) \<and> mt_hash ` set (partial_matches p t) \<inter> pr_matched_hashes r = {}"

definition advance :: "partial_tree_reader \<Rightarrow> nat \<Rightarrow> partial_tree \<Rightarrow> partial_tree_reader" where
  "advance r p t = r\<lparr>pr_bits_used := pr_bits_used r + length (partial_flags t),
     pr_hashes_used := pr_hashes_used r + length (partial_hashes t), pr_matches := pr_matches r @ partial_matches p t,
     pr_matched_hashes := pr_matched_hashes r \<union> mt_hash ` set (partial_matches p t)\<rparr>"

definition bit_read :: "partial_tree_reader \<Rightarrow> partial_tree_reader" where
  "bit_read r = r\<lparr>pr_bits_used := pr_bits_used r + 1\<rparr>"

lemma prefix_append_iff: "prefix (xs @ ys) zs \<longleftrightarrow> prefix xs zs \<and> prefix ys (drop (length xs) zs)"
  by (auto simp: prefix_def)

lemma prefix_Cons_iff: "prefix (x # ys) zs \<longleftrightarrow> prefix [x] zs \<and> prefix ys (drop 1 zs)"
  by (cases zs) auto

lemma prefix_single: "prefix [x] (drop n zs) \<longleftrightarrow> n < length zs \<and> zs ! n = x"
  by (cases "n < length zs") (auto simp: Cons_nth_drop_Suc [symmetric])

lemma reader_left [simp]:
  "bits_left (bit_read r) = drop 1 (bits_left r)" "hashes_left (bit_read r) = hashes_left r"
  "pr_total (bit_read r) = pr_total r" "reader_fits (bit_read r) = reader_fits r"
  "pr_matched_hashes (bit_read r) = pr_matched_hashes r"
  "bits_left (advance r p t) = drop (length (partial_flags t)) (bits_left r)"
  "hashes_left (advance r p t) = drop (length (partial_hashes t)) (hashes_left r)"
  "pr_total (advance r p t) = pr_total r" "reader_fits (advance r p t) = reader_fits r"
  "pr_matched_hashes (advance r p t) = pr_matched_hashes r \<union> mt_hash ` set (partial_matches p t)"
  by (simp_all add: bit_read_def advance_def bits_left_def hashes_left_def reader_fits_def add.commute)

lemma read_bit_eq:
  assumes "reader_fits r"
  shows "read_bit r = (case bits_left r of [] \<Rightarrow> Inl ExhaustedFlags | b # _ \<Rightarrow> Inr (b, bit_read r))"
proof (cases "pr_bits_used r < length (pr_flags r) * 8")
  case True
  then have "bits_left r = bit (pr_flags r ! (pr_bits_used r div 8)) (pr_bits_used r mod 8) # drop (Suc (pr_bits_used r)) (flag_bits (pr_flags r))"
    by (simp add: bits_left_def Cons_nth_drop_Suc [symmetric] nth_flag_bits)
  with True assms show ?thesis
    by (simp add: read_bit_def less_mult_imp_div_less byte_bit bit_read_def reader_fits_def)
next
  case False
  then have "bits_left r = []" by (simp add: bits_left_def)
  moreover from False have "length (pr_flags r) \<le> pr_bits_used r div 8" by (simp add: less_eq_div_iff_mult_less_eq)
  ultimately show ?thesis by (simp add: read_bit_def slice_get_def)
qed

lemma read_hash_eq:
  assumes "reader_fits r"
  shows "read_hash r = (case hashes_left r of [] \<Rightarrow> Inl ExhaustedHashes
     | h # _ \<Rightarrow> Inr (h, r\<lparr>pr_hashes_used := pr_hashes_used r + 1\<rparr>))"
  using assms
  by (cases "pr_hashes_used r < length (pr_hashes r)")
    (simp_all add: read_hash_def hashes_left_def Cons_nth_drop_Suc [symmetric] reader_fits_def slice_get_def)

lemma readable_simps:
  "readable r p (PRoot h) \<longleftrightarrow> prefix [False] (bits_left r) \<and> prefix [h] (hashes_left r)"
  "readable r p (PLeaf h) \<longleftrightarrow> prefix [True] (bits_left r) \<and> prefix [h] (hashes_left r) \<and> h \<notin> pr_matched_hashes r"
  "readable r p (PEdge l) \<longleftrightarrow> prefix [True] (bits_left r) \<and> readable (bit_read r) (p * 2) l"
  "readable r p (PNode l t) \<longleftrightarrow> prefix [True] (bits_left r) \<and> readable (bit_read r) (p * 2) l \<and>
     readable (advance (bit_read r) (p * 2) l) (p * 2 + 1) t"
  unfolding readable_def partial_flags.simps partial_hashes.simps partial_matches.simps
  by (simp, simp) (subst prefix_Cons_iff, simp,
      subst prefix_Cons_iff, unfold prefix_append_iff reader_left distinct_append map_append, auto)

lemma advance_simps:
  "advance r p (PEdge l) = advance (bit_read r) (p * 2) l"
  "advance r p (PNode l t) = advance (advance (bit_read r) (p * 2) l) (p * 2 + 1) t"
  by (simp_all add: advance_def bit_read_def Un_assoc image_Un)

section \<open>The traversal\<close>

lemma traverse_root:
  assumes "reader_fits r" and "prefix [False] (bits_left r)"
  shows "traverse H k p r = Inr (h, r') \<longleftrightarrow> prefix [h] (hashes_left r) \<and> r' = advance r p (PRoot h)"
proof -
  have "reader_fits (bit_read r)" "hashes_left (bit_read r) = hashes_left r" using assms(1) by simp_all
  with assms show ?thesis unfolding traverse.simps [of H k]
    by (cases "bits_left r"; cases "hashes_left r")
      (auto simp: read_bit_eq read_hash_eq advance_def bit_read_def)
qed

lemma traverse_leaf:
  assumes "reader_fits r" and "prefix [True] (bits_left r)"
  shows "traverse H 0 p r = Inr (h, r') \<longleftrightarrow> (\<exists>x. prefix [x] (hashes_left r) \<and> x \<notin> pr_matched_hashes r \<and> p \<le> 4294967295 \<and>
       h = merkle_leaf H x \<and> r' = advance r p (PLeaf x))"
proof -
  have "reader_fits (bit_read r)" "hashes_left (bit_read r) = hashes_left r" using assms(1) by simp_all
  with assms show ?thesis unfolding traverse.simps [of H 0]
    by (cases "bits_left r"; cases "hashes_left r")
      (auto simp: read_bit_eq read_hash_eq advance_def bit_read_def Let_def split: if_splits)
qed

lemma traverse_node:
  assumes "reader_fits r" and "prefix [True] (bits_left r)"
  shows "traverse H (Suc k) p r = (Inr (h, r') :: ('x wallet_evidence_error, _) result) \<longleftrightarrow> p * 2 + 1 \<le> usize_max \<and>
     (\<exists>l r1. traverse H k (p * 2) (bit_read r) = (Inr (l, r1) :: ('x wallet_evidence_error, _) result) \<and>
       (if p * 2 + 1 < tree_width (pr_total r1) k
        then \<exists>t. traverse H k (p * 2 + 1) r1 = (Inr (t, r') :: ('x wallet_evidence_error, _) result) \<and> h = merkle_internal H l t
        else r' = r1 \<and> h = merkle_internal H l (merkle_empty H)))"
proof -
  define L where "L = (traverse H k (p * 2) (bit_read r) :: ('x wallet_evidence_error, _) result)"
  have "read_bit r = (Inr (True, bit_read r) :: ('x wallet_evidence_error, _) result)"
    using assms by (cases "bits_left r") (simp_all add: read_bit_eq)
  then have eq: "traverse H (Suc k) p r = rbind (ok_or WeArithmeticOverflow (checked_mul p 2)) (\<lambda>q. rbind
      (traverse H k q (bit_read r) :: ('x wallet_evidence_error, _) result) (\<lambda>(left, r).
       rbind (ok_or WeArithmeticOverflow (usize_add q 1)) (\<lambda>right_position.
       rbind (if right_position < tree_width (pr_total r) k then traverse H k (q + 1) r else Inr (merkle_empty H, r)) (\<lambda>(right, r).
       Inr (merkle_internal H left right, r)))))"
    unfolding traverse.simps [of H "Suc k"] by (simp add: checked_sub_def)
  show ?thesis
  proof (cases "p * 2 + 1 \<le> usize_max")
    case True
    then show ?thesis
    proof (cases L)
      case (Inr a)
      obtain l r1 where "a = (l, r1)" by (cases a)
      with True Inr show ?thesis
        by (cases "p * 2 + 1 < tree_width (pr_total r1) k")
          (auto simp: eq checked_mul_def result_inv simp flip: L_def split del: if_split)
    qed (simp add: eq checked_mul_def flip: L_def)
  qed (auto simp: eq checked_mul_def usize_add_def result_inv)
qed

lemma traverse_empty: "reader_fits r \<Longrightarrow> bits_left r = [] \<Longrightarrow> traverse H k p r = Inl ExhaustedFlags"
  by (simp add: traverse.simps [of H k] read_bit_eq)

lemma traverse_flag:
  assumes "traverse H k p r = Inr (h, r')" and "reader_fits r"
  obtains (root) "prefix [False] (bits_left r)" | (leaf) "prefix [True] (bits_left r)" "k = 0"
    | (node) j where "prefix [True] (bits_left r)" "k = Suc j"
  using assms by (cases "bits_left r"; cases k; cases "hd (bits_left r)") (auto simp: traverse_empty)

lemma traverse_reads:
  assumes "traverse H k p r = (Inr (h, r') :: ('x wallet_evidence_error, _) result)" and "reader_fits r"
  shows "\<exists>t. shaped (pr_total r) k p t \<and> readable r p t \<and> h = partial_hash H t \<and> r' = advance r p t"
  using assms
proof (induction k arbitrary: p r h r' rule: less_induct)
  case (less k)
  from less.prems show ?case
  proof (cases rule: traverse_flag)
    case root
    with less.prems have "prefix [h] (hashes_left r)" "r' = advance r p (PRoot h)" by (simp_all add: traverse_root)
    with root show ?thesis by (intro exI [of _ "PRoot h"]) (simp add: readable_simps)
  next
    case leaf
    with less.prems obtain x where "prefix [x] (hashes_left r)" "x \<notin> pr_matched_hashes r" "h = merkle_leaf H x" "r' = advance r p (PLeaf x)"
      by (auto simp: traverse_leaf)
    with leaf show ?thesis by (intro exI [of _ "PLeaf x"]) (simp add: readable_simps)
  next
    case (node j)
    with less.prems obtain l r1 where l: "traverse H j (p * 2) (bit_read r) = (Inr (l, r1) :: ('x wallet_evidence_error, _) result)"
      and c: "if p * 2 + 1 < tree_width (pr_total r1) j
        then \<exists>t. traverse H j (p * 2 + 1) r1 = (Inr (t, r') :: ('x wallet_evidence_error, _) result) \<and> h = merkle_internal H l t
        else r' = r1 \<and> h = merkle_internal H l (merkle_empty H)"
      by (auto simp: traverse_node)
    obtain tl where tl: "shaped (pr_total r) j (p * 2) tl" "readable (bit_read r) (p * 2) tl" "l = partial_hash H tl"
        "r1 = advance (bit_read r) (p * 2) tl"
      using less.IH [OF _ l] node less.prems(2) by auto
    show ?thesis
    proof (cases "p * 2 + 1 < tree_width (pr_total r) j")
      case True
      with c tl obtain t where t: "traverse H j (p * 2 + 1) r1 = (Inr (t, r') :: ('x wallet_evidence_error, _) result)"
          "h = merkle_internal H l t" by auto
      obtain tr where "shaped (pr_total r) j (p * 2 + 1) tr" "readable r1 (p * 2 + 1) tr" "t = partial_hash H tr"
          "r' = advance r1 (p * 2 + 1) tr"
        using less.IH [OF _ t(1)] node less.prems(2) tl(4) by auto
      with tl t node True show ?thesis by (intro exI [of _ "PNode tl tr"]) (simp add: readable_simps advance_simps)
    next
      case False
      with c tl node show ?thesis by (intro exI [of _ "PEdge tl"]) (simp add: readable_simps advance_simps)
    qed
  qed
qed

lemma child_position:
  assumes "p < tree_width n (Suc j)" and "n \<le> 4294967295"
  shows "p * 2 < tree_width n j \<and> p * 2 + 1 \<le> usize_max"
proof
  show w: "p * 2 < tree_width n j" using assms(1) by (simp add: less_tree_width algebra_simps)
  have "p * 2 \<le> p * 2 * 2 ^ j" by simp
  also have "\<dots> < n" using w by (simp add: less_tree_width)
  finally show "p * 2 + 1 \<le> usize_max" using assms(2) by (simp add: usize_max_def)
qed

lemma traverse_tree:
  assumes "shaped (pr_total r) k p t" and "readable r p t" and "reader_fits r" and "p < tree_width (pr_total r) k"
    and "pr_total r \<le> 4294967295"
  shows "traverse H k p r = Inr (partial_hash H t, advance r p t)"
  using assms
proof (induction t arbitrary: k p r)
  case (PRoot h)
  then show ?case by (simp add: traverse_root readable_simps)
next
  case (PLeaf h)
  then show ?case by (auto simp: traverse_leaf readable_simps less_tree_width)
next
  case (PEdge l)
  then obtain j where "k = Suc j" by (cases k) auto
  with PEdge child_position [of p "pr_total r" j] show ?case by (simp add: traverse_node readable_simps advance_simps)
next
  case (PNode l t)
  then obtain j where "k = Suc j" by (cases k) auto
  with PNode child_position [of p "pr_total r" j] show ?case by (simp add: traverse_node readable_simps advance_simps)
qed

section \<open>The committed tree\<close>

fun merkle_level :: "digest \<Rightarrow> hash list \<Rightarrow> hash list" where
  "merkle_level H (x # y # zs) = merkle_internal H x y # merkle_level H zs"
| "merkle_level H [x] = [merkle_internal H x (merkle_empty H)]"
| "merkle_level H [] = []"

fun level_inputs :: "digest \<Rightarrow> hash list \<Rightarrow> bytes list" where
  "level_inputs H (x # y # zs) = (1 # x @ y) # level_inputs H zs"
| "level_inputs H [x] = [1 # x @ merkle_empty H]"
| "level_inputs H [] = []"

function levels :: "nat \<Rightarrow> nat" where
  "levels n = (if n \<le> 1 then 0 else Suc (levels ((n + 1) div 2)))"
  by pat_completeness auto
termination
  by (relation "measure id") auto

declare levels.simps [simp del]

definition block_row :: "digest \<Rightarrow> hash list \<Rightarrow> nat \<Rightarrow> hash list" where
  "block_row H txs k = (merkle_level H ^^ k) (map (merkle_leaf H) txs)"

definition block_root :: "digest \<Rightarrow> hash list \<Rightarrow> hash" where
  "block_root H txs = block_row H txs (levels (length txs)) ! 0"

definition block_inputs :: "digest \<Rightarrow> hash list \<Rightarrow> bytes set" where
  "block_inputs H txs = insert [] (Cons 0 ` set txs \<union>
     (\<Union>k \<in> {..<levels (length txs)}. set (level_inputs H (block_row H txs k))))"

fun partial_inputs :: "digest \<Rightarrow> partial_tree \<Rightarrow> bytes set" where
  "partial_inputs H (PRoot h) = {}"
| "partial_inputs H (PLeaf h) = {0 # h}"
| "partial_inputs H (PEdge l) = {[], 1 # partial_hash H l @ merkle_empty H} \<union> partial_inputs H l"
| "partial_inputs H (PNode l r) = {1 # partial_hash H l @ partial_hash H r} \<union> partial_inputs H l \<union> partial_inputs H r"

lemma merkle_hashes: "merkle_empty H = H []" "merkle_leaf H h = H (0 # h)" "merkle_internal H l r = H (1 # l @ r)"
  by (simp_all add: merkle_empty_def merkle_leaf_def merkle_internal_def blake2b_256_def)

definition right_sibling :: "digest \<Rightarrow> hash list \<Rightarrow> nat \<Rightarrow> hash" where
  "right_sibling H xs p = (if p * 2 + 1 < length xs then xs ! (p * 2 + 1) else merkle_empty H)"

lemma length_merkle_level: "length (merkle_level H xs) = (length xs + 1) div 2"
  by (induction H xs rule: merkle_level.induct) simp_all

lemma nth_merkle_level:
  "p < (length xs + 1) div 2 \<Longrightarrow> merkle_level H xs ! p = merkle_internal H (xs ! (p * 2)) (right_sibling H xs p) \<and>
     1 # xs ! (p * 2) @ right_sibling H xs p \<in> set (level_inputs H xs)"
proof (induction H xs arbitrary: p rule: merkle_level.induct)
  case (1 H x y zs)
  have "right_sibling H (x # y # zs) (Suc q) = right_sibling H zs q" for q by (simp add: right_sibling_def)
  with 1 show ?case by (cases p) (auto simp: right_sibling_def [of H "x # y # zs" 0])
qed (simp_all add: right_sibling_def)

lemma div_ceil_2: "div_ceil n 2 = (n + 1) div 2"
  by (simp add: div_ceil_def)

lemma nat_eq_less: "(\<And>p. p < m \<longleftrightarrow> p < n) \<Longrightarrow> m = (n :: nat)"
  by (metis less_irrefl nat_neq_iff)

lemma tree_width_Suc: "tree_width n (Suc k) = (tree_width n k + 1) div 2"
proof (rule nat_eq_less)
  fix p show "p < tree_width n (Suc k) \<longleftrightarrow> p < (tree_width n k + 1) div 2"
    using less_div_ceil [of 2 p "tree_width n k"] by (simp add: div_ceil_2 less_tree_width algebra_simps)
qed

lemma tree_width_0 [simp]: "tree_width n 0 = n"
  by (simp add: tree_width_def div_ceil_def)

lemma length_block_row: "length (block_row H txs k) = tree_width (length txs) k"
  by (induction k) (simp_all add: block_row_def length_merkle_level tree_width_Suc)

lemma block_row_0: "block_row H txs 0 = map (merkle_leaf H) txs"
  by (simp add: block_row_def)

lemma nth_block_row_Suc:
  assumes "p < tree_width (length txs) (Suc k)"
  shows "block_row H txs (Suc k) ! p = merkle_internal H (block_row H txs k ! (p * 2)) (right_sibling H (block_row H txs k) p) \<and>
    1 # block_row H txs k ! (p * 2) @ right_sibling H (block_row H txs k) p \<in> set (level_inputs H (block_row H txs k))"
  using assms nth_merkle_level [of p "block_row H txs k" H] by (simp add: length_block_row tree_width_Suc) (simp add: block_row_def)

lemma tree_width_levels: "0 < n \<Longrightarrow> tree_width n (k + levels (tree_width n k)) = 1"
proof (induction "tree_width n k" arbitrary: k rule: less_induct)
  case less
  show ?case
  proof (cases "tree_width n k \<le> 1")
    case True
    moreover have "0 < tree_width n k" using less.prems by (simp add: less_tree_width)
    ultimately show ?thesis by (simp add: levels.simps)
  next
    case False
    then have "tree_width n (Suc k) < tree_width n k" by (simp add: tree_width_Suc)
    with less.hyps [of "Suc k"] less.prems False show ?thesis
      by (simp add: levels.simps [of "tree_width n k"] tree_width_Suc)
  qed
qed

lemma tree_height_levels:
  assumes "n \<le> usize_max"
  shows "tree_height n k = Inr (k + levels (tree_width n k))"
proof (induction "tree_width n k" arbitrary: k rule: less_induct)
  case less
  show ?case
  proof (cases "1 < tree_width n k")
    case True
    then have "tree_width n (Suc k) < tree_width n k" by (simp add: tree_width_Suc)
    moreover have "k + 1 \<le> usize_max" using tree_width_gt_1 [OF True] assms by simp
    ultimately show ?thesis using less.hyps [of "Suc k"] True
      by (simp add: tree_height.simps [of n k] levels.simps [of "tree_width n k"] tree_width_Suc)
  qed (simp add: tree_height.simps [of n k] levels.simps [of "tree_width n k"])
qed

section \<open>Soundness\<close>

lemma length_partial_hash:
  assumes "\<forall>x. length (H x) = 32" and "list_all (\<lambda>h. length h = 32) (partial_hashes t)"
  shows "length (partial_hash H t) = 32"
  using assms by (cases t) (simp_all add: merkle_hashes)

lemma length_nth_block_row:
  assumes "\<forall>x. length (H x) = 32" and "p < tree_width (length txs) k"
  shows "length (block_row H txs k ! p) = 32"
  using assms nth_block_row_Suc [of p txs] by (cases k) (simp_all add: block_row_0 merkle_hashes)

text \<open>A node of a committed block is the digest of an input of the block, a leaf or a pair.\<close>

lemma block_row_input:
  assumes "p < tree_width (length txs) k" and "k \<le> levels (length txs)"
  shows "case k of 0 \<Rightarrow> block_row H txs 0 ! p = H (0 # txs ! p) \<and> 0 # txs ! p \<in> block_inputs H txs
    | Suc j \<Rightarrow> block_row H txs k ! p = H (1 # block_row H txs j ! (p * 2) @ right_sibling H (block_row H txs j) p) \<and>
        1 # block_row H txs j ! (p * 2) @ right_sibling H (block_row H txs j) p \<in> block_inputs H txs"
proof (cases k)
  case 0
  with assms show ?thesis by (simp add: block_row_0 merkle_hashes block_inputs_def)
next
  case (Suc j)
  with assms nth_block_row_Suc [of p txs j H] show ?thesis by (auto simp: merkle_hashes block_inputs_def)
qed

lemma empty_has_no_matches:
  assumes "partial_hash H t = H []" and "inj_on H (block_inputs H txs \<union> partial_inputs H t)"
  shows "partial_matches p t = []"
proof (rule ccontr)
  assume n: "partial_matches p t \<noteq> []"
  obtain x where "x \<noteq> []" "x \<in> partial_inputs H t" "partial_hash H t = H x"
    using n by (cases t) (auto simp: merkle_hashes)
  moreover have "[] \<in> block_inputs H txs" by (simp add: block_inputs_def)
  ultimately show False using assms inj_onD [OF assms(2), of x "[]"] by simp
qed

lemma inj_on_inputs:
  "inj_on H (A \<union> partial_inputs H (PNode l r)) \<Longrightarrow> inj_on H (A \<union> partial_inputs H l) \<and> inj_on H (A \<union> partial_inputs H r)"
  "inj_on H (A \<union> partial_inputs H (PEdge l)) \<Longrightarrow> inj_on H (A \<union> partial_inputs H l)"
  by (auto intro: inj_on_subset)

lemma committed_pair:
  assumes "H (1 # L @ R) = block_row H txs k ! p" and "p < tree_width (length txs) k" and "k \<le> levels (length txs)"
    and "inj_on H (block_inputs H txs \<union> A)" and "1 # L @ R \<in> A" and "length L = 32" and len: "\<forall>x. length (H x) = 32"
  obtains j where "k = Suc j" "L = block_row H txs j ! (p * 2)" "R = right_sibling H (block_row H txs j) p"
    "p * 2 < tree_width (length txs) j"
proof (cases k)
  case 0
  with assms block_row_input [OF assms(2,3), of H] inj_onD [OF assms(4), of "1 # L @ R" "0 # txs ! p"] show thesis by simp
next
  case (Suc j)
  let ?x = "1 # block_row H txs j ! (p * 2) @ right_sibling H (block_row H txs j) p"
  have x: "block_row H txs k ! p = H ?x" "?x \<in> block_inputs H txs" using block_row_input [OF assms(2,3), of H] Suc by simp_all
  have eq: "1 # L @ R = ?x"
    by (rule inj_onD [OF assms(4)]) (use assms(1,5) x in \<open>simp_all only: Un_iff\<close>, blast+)
  have w: "p * 2 < tree_width (length txs) j" using assms(2) Suc by (simp add: less_tree_width algebra_simps)
  with eq length_nth_block_row [OF len w] assms(6) Suc that show thesis by simp
qed

lemma partial_sound:
  assumes "shaped n k' p t" and "partial_hash H t = block_row H txs k ! p" and "p < tree_width (length txs) k"
    and "p < tree_width n k'" and "k \<le> levels (length txs)" and "inj_on H (block_inputs H txs \<union> partial_inputs H t)"
    and "list_all (\<lambda>h. length h = 32) (partial_hashes t)" and "m \<in> set (partial_matches p t)"
    and len: "\<forall>x. length (H x) = 32"
  shows "k = k' \<and> (\<exists>q. q < length txs \<and> q < n \<and> m = \<lparr>mt_hash = txs ! q, mt_index = of_nat q\<rparr>)"
  using assms(1-8)
proof (induction t arbitrary: k k' p)
  case (PRoot h)
  then show ?case by simp
next
  case (PLeaf h)
  note i = block_row_input [OF PLeaf.prems(3,5), of H]
  show ?case
  proof (cases k)
    case 0
    with i PLeaf.prems inj_onD [OF PLeaf.prems(6), of "0 # h" "0 # txs ! p"] have "h = txs ! p" by (simp add: merkle_hashes)
    with PLeaf.prems 0 show ?thesis by auto
  next
    case (Suc j)
    with i PLeaf.prems inj_onD [OF PLeaf.prems(6), of "0 # h" "1 # block_row H txs j ! (p * 2) @ right_sibling H (block_row H txs j) p"]
    show ?thesis by (simp add: merkle_hashes)
  qed
next
  case (PEdge l)
  obtain i where i: "k' = Suc i" using PEdge.prems(1) by (cases k') auto
  have l: "length (partial_hash H l) = 32" using length_partial_hash [OF len] PEdge.prems(7) by simp
  have h: "H (1 # partial_hash H l @ merkle_empty H) = block_row H txs k ! p" using PEdge.prems(2) by (simp add: merkle_hashes)
  obtain j where j: "k = Suc j" "partial_hash H l = block_row H txs j ! (p * 2)" "p * 2 < tree_width (length txs) j"
    by (rule committed_pair [OF h PEdge.prems(3,5,6) _ l len]) auto
  have "p * 2 < tree_width n i" using PEdge.prems(4) i by (simp add: less_tree_width algebra_simps)
  with PEdge.IH [of i "p * 2" j] PEdge.prems inj_on_inputs(2) [OF PEdge.prems(6)] i j show ?case by simp
next
  case (PNode l r)
  obtain i where i: "k' = Suc i" using PNode.prems(1) by (cases k') auto
  have l: "length (partial_hash H l) = 32" using length_partial_hash [OF len] PNode.prems(7) by simp
  have h: "H (1 # partial_hash H l @ partial_hash H r) = block_row H txs k ! p" using PNode.prems(2) by (simp add: merkle_hashes)
  obtain j where j: "k = Suc j" "partial_hash H l = block_row H txs j ! (p * 2)" "p * 2 < tree_width (length txs) j"
      "partial_hash H r = right_sibling H (block_row H txs j) p"
    by (rule committed_pair [OF h PNode.prems(3,5,6) _ l len]) auto
  note inj = inj_on_inputs(1) [OF PNode.prems(6)]
  have w: "p * 2 < tree_width n i" "p * 2 + 1 < tree_width n i" using PNode.prems(1,4) i by (simp_all add: less_tree_width algebra_simps)
  show ?case
  proof (cases "m \<in> set (partial_matches (p * 2) l)")
    case True
    with PNode.IH(1) [of i "p * 2" j] PNode.prems inj i j w show ?thesis by simp
  next
    case False
    then have m: "m \<in> set (partial_matches (p * 2 + 1) r)" using PNode.prems(8) by simp
    then have "partial_hash H r \<noteq> H []" using empty_has_no_matches [of H r txs "p * 2 + 1"] inj by auto
    with j(4) have "p * 2 + 1 < tree_width (length txs) j" "partial_hash H r = block_row H txs j ! (p * 2 + 1)"
      by (auto simp: right_sibling_def length_block_row merkle_hashes split: if_splits)
    with PNode.IH(2) [of i "p * 2 + 1" j] PNode.prems inj i j w m show ?thesis by simp
  qed
qed

section \<open>Which payloads are accepted\<close>

lemma shaped_hashes:
  assumes "shaped n k p t" and "p < tree_width n k"
  shows "length (partial_hashes t) + p * 2 ^ k \<le> n \<and> length (partial_hashes t) \<le> 2 ^ k"
  using assms
proof (induction t arbitrary: k p)
  case (PEdge l)
  then obtain j where "k = Suc j" by (cases k) auto
  with PEdge.IH [of j "p * 2"] PEdge.prems show ?case by (auto simp: less_tree_width algebra_simps)
next
  case (PNode l r)
  then obtain j where "k = Suc j" by (cases k) auto
  with PNode.IH(1) [of j "p * 2"] PNode.IH(2) [of j "p * 2 + 1"] PNode.prems show ?case
    by (auto simp: less_tree_width algebra_simps)
qed (auto simp: less_tree_width)

lemma hashes_le_flags: "length (partial_hashes t) \<le> length (partial_flags t)"
  by (induction t) simp_all

definition flags_for :: "partial_tree \<Rightarrow> bytes \<Rightarrow> bool" where
  "flags_for t flags \<longleftrightarrow> prefix (partial_flags t) (flag_bits flags) \<and> length flags = div_ceil (length (partial_flags t)) 8"

definition block_tree :: "nat \<Rightarrow> partial_tree \<Rightarrow> bool" where
  "block_tree n t \<longleftrightarrow> shaped n (levels n) 0 t \<and> distinct (map mt_hash (partial_matches 0 t))"

definition start_reader :: "u32 \<Rightarrow> bytes \<Rightarrow> hash list \<Rightarrow> partial_tree_reader" where
  "start_reader n flags hashes = \<lparr>pr_total = unat n, pr_flags = flags, pr_hashes = hashes, pr_bits_used = 0, pr_hashes_used = 0,
    pr_matches = [], pr_matched_hashes = {}\<rparr>"

lemma start_reader_simps [simp]:
  "bits_left (start_reader n flags hashes) = flag_bits flags" "hashes_left (start_reader n flags hashes) = hashes"
  "pr_total (start_reader n flags hashes) = unat n" "pr_matched_hashes (start_reader n flags hashes) = {}"
  "pr_bits_used (advance (start_reader n flags hashes) p t) = length (partial_flags t)"
  "pr_hashes_used (advance (start_reader n flags hashes) p t) = length (partial_hashes t)"
  "pr_matches (advance (start_reader n flags hashes) p t) = partial_matches p t"
  by (simp_all add: start_reader_def bits_left_def hashes_left_def advance_def)

lemma unat_u32: "unat (n :: u32) \<le> 4294967295"
  using unsigned_less [where 'a = nat, of n] by simp

lemma start_reader_fits: "length flags * 8 \<le> usize_max \<Longrightarrow> length hashes \<le> unat n \<Longrightarrow> reader_fits (start_reader n flags hashes)"
  using unat_u32 [of n] by (simp add: reader_fits_def start_reader_def usize_max_def)

lemma check_partial_tree_start:
  "check_partial_tree H n hashes flags root = (Inr d :: ('x wallet_evidence_error, _) result) \<longleftrightarrow>
    length hashes \<le> unat n \<and> length hashes \<le> min (length flags * 8) usize_max \<and>
    (\<exists>r'. traverse H (levels (unat n)) 0 (start_reader n flags hashes) = (Inr (root, r') :: ('x wallet_evidence_error, _) result) \<and>
      div_ceil (pr_bits_used r') 8 = length flags \<and> pr_hashes_used r' = length hashes \<and>
      d = \<lparr>dp_total_transactions = n, dp_matches = pr_matches r'\<rparr>)"
proof -
  have "tree_height (unat n) 0 = (Inr (levels (unat n)) :: ('x wallet_evidence_error, _) result)"
    using tree_height_levels [of "unat n" 0] unat_u32 [of n] by (simp add: usize_max_def)
  then show ?thesis by (auto simp: check_partial_tree_def Let_def result_inv simp flip: start_reader_def split: if_splits)
qed

lemma check_partial_tree_Inr:
  assumes n: "0 < unat n" and flags: "length flags * 8 \<le> usize_max"
  shows "check_partial_tree H n hashes flags root = (Inr d :: ('x wallet_evidence_error, _) result) \<longleftrightarrow>
    (\<exists>t. block_tree (unat n) t \<and> hashes = partial_hashes t \<and> flags_for t flags \<and> partial_hash H t = root \<and>
      d = \<lparr>dp_total_transactions = n, dp_matches = partial_matches 0 t\<rparr>)" (is "?l \<longleftrightarrow> ?r")
proof
  assume ?l
  then obtain r' where len: "length hashes \<le> unat n"
      and r': "traverse H (levels (unat n)) 0 (start_reader n flags hashes) = (Inr (root, r') :: ('x wallet_evidence_error, _) result)"
        "div_ceil (pr_bits_used r') 8 = length flags" "pr_hashes_used r' = length hashes"
        "d = \<lparr>dp_total_transactions = n, dp_matches = pr_matches r'\<rparr>"
    unfolding check_partial_tree_start by blast
  from traverse_reads [OF r'(1) start_reader_fits [OF flags len]] obtain t where t: "shaped (unat n) (levels (unat n)) 0 t"
      "readable (start_reader n flags hashes) 0 t" "root = partial_hash H t" "r' = advance (start_reader n flags hashes) 0 t"
    by auto
  then have "prefix (partial_hashes t) hashes" "length (partial_hashes t) = length hashes"
    using r'(3) by (simp_all add: readable_def)
  then have "hashes = partial_hashes t" by (auto simp: prefix_def)
  with t r' show ?r by (intro exI [of _ t]) (simp add: block_tree_def flags_for_def readable_def)
next
  assume ?r
  then obtain t where t: "shaped (unat n) (levels (unat n)) 0 t" "distinct (map mt_hash (partial_matches 0 t))"
      "hashes = partial_hashes t" "flags_for t flags" "partial_hash H t = root"
      "d = \<lparr>dp_total_transactions = n, dp_matches = partial_matches 0 t\<rparr>" by (auto simp: block_tree_def)
  have w: "0 < tree_width (unat n) (levels (unat n))" using n by (simp add: less_tree_width)
  have len: "length hashes \<le> unat n" using shaped_hashes [OF t(1) w] t(3) by simp
  have "length (partial_flags t) \<le> length flags * 8"
    using t(4) prefix_length_le [of "partial_flags t" "flag_bits flags"] by (simp add: flags_for_def)
  then have "length hashes \<le> length flags * 8" using hashes_le_flags [of t] t(3) by simp
  moreover have "readable (start_reader n flags hashes) 0 t" using t by (simp add: readable_def flags_for_def)
  then have "traverse H (levels (unat n)) 0 (start_reader n flags hashes) =
      (Inr (root, advance (start_reader n flags hashes) 0 t) :: ('x wallet_evidence_error, _) result)"
    using traverse_tree [of "start_reader n flags hashes" "levels (unat n)" 0 t H] t(1,5) w unat_u32 start_reader_fits [OF flags len] by simp
  ultimately show ?l using t len flags unfolding check_partial_tree_start by (simp add: flags_for_def)
qed

definition merkle_payload :: "bytes \<Rightarrow> u32 \<Rightarrow> hash list \<Rightarrow> bytes \<Rightarrow> bytes" where
  "merkle_payload header n hashes flags =
     header @ le_bytes 4 n @ compact_size (length hashes) @ concat hashes @ varbytes flags"

definition all_hashes :: "hash list \<Rightarrow> bool" where
  "all_hashes hs \<longleftrightarrow> list_all (\<lambda>h. length h = 32) hs"

lemma read_hashes_takes:
  assumes "decoder_laws D view"
  shows "takes view (read_hashes D n) concat (\<lambda>hs. length hs = n \<and> all_hashes hs)"
proof (induction n)
  case 0
  show ?case by (auto simp: takes_def all_hashes_def)
next
  case (Suc n)
  have eq: "read_hashes D (Suc n) = (\<lambda>d. rbind (both (de_read_array D 32) (read_hashes D n) d) (\<lambda>(x, d). Inr (fst x # snd x, d)))"
    by (auto simp: both_def rbind_def split: sum.splits)
  show ?case unfolding eq
    by (rule takes_rearranged [where k = "\<lambda>hs. (hd hs, tl hs)", OF takes_both [OF decoder_lawsD(4) [OF assms, of 32] Suc]])
      (auto simp: all_hashes_def length_Suc_conv)
qed

definition accepted_header :: "('h, 'w, 'x) consensus \<Rightarrow> ('h, 'x) header_codec \<Rightarrow> bytes \<Rightarrow> hash \<Rightarrow> hash \<Rightarrow> bool" where
  "accepted_header C K bs block_hash root \<longleftrightarrow> length bs = hc_size K \<and>
     (\<exists>header. hc_decode K bs = Inr header \<and> cs_block_hash C header = block_hash \<and> cs_merkle_root C header = root)"

definition payload_parts ::
  "('h, 'w, 'x) consensus \<Rightarrow> ('h, 'x) header_codec \<Rightarrow> digest \<Rightarrow> bytes \<Rightarrow> hash \<Rightarrow> hash \<Rightarrow> decoded_partial_merkle \<Rightarrow> bool" where
  "payload_parts C K H input block_hash root d \<longleftrightarrow> length input \<le> MAX_MERKLE_BLOCK_PAYLOAD_BYTES K \<and>
    (\<exists>bs n hashes flags. accepted_header C K bs block_hash root \<and> 0 < unat n \<and> unat n \<le> MAX_FILTERED_BLOCK_TRANSACTIONS \<and>
      input = merkle_payload bs n hashes flags \<and> length hashes \<le> unat n \<and> all_hashes hashes \<and>
      length flags \<le> MAX_PARTIAL_MERKLE_FLAG_BYTES \<and>
      check_partial_tree H n hashes flags root = (Inr d :: ('x wallet_evidence_error, _) result))"

lemma decode_partial_merkle_D:
  fixes C :: "('h, 'w, 'x) consensus"
  assumes D: "decoder_laws D view" "var_decoder_laws D view" and l: "decode_partial_merkle D C K H input block_hash root = Inr d"
  shows "payload_parts C K H input block_hash root d"
proof -
  note t = decoder_lawsD(3) [OF D(1), of "hc_size K"] decoder_lawsD(6) [OF D(1)]
  note u = decode_partial_merkle_def result_inv not_less
  obtain bs d1 where len: "length input \<le> MAX_MERKLE_BLOCK_PAYLOAD_BYTES K"
      and 1: "de_read_slice D (de_new D input) (hc_size K) = Inr (bs, d1)"
    using l by (auto simp: u split: if_splits)
  obtain header where h: "hc_decode K bs = Inr header" "cs_block_hash C header = block_hash" "cs_merkle_root C header = root"
    using l 1 by (auto simp: u split: if_splits)
  obtain n d2 where 2: "de_read_u32_le D d1 = Inr (n, d2)" "unat n \<noteq> 0" "unat n \<le> MAX_FILTERED_BLOCK_TRANSACTIONS"
    using l 1 h by (auto simp: u split: if_splits)
  obtain c d3 where 3: "de_read_compact_usize D d2 (unat n) ''partial Merkle hashes'' = Inr (c, d3)"
    using l 1 h 2 by (auto simp: u split: if_splits)
  obtain hashes d4 where 4: "read_hashes D c d3 = Inr (hashes, d4)"
    using l 1 h 2 3 by (auto simp: u split: if_splits)
  obtain flags d5 where 5: "de_read_varbytes D d4 MAX_PARTIAL_MERKLE_FLAG_BYTES ''partial Merkle flags'' = Inr (flags, d5)" "de_finish D d5 = Inr ()"
        "check_partial_tree H n hashes flags root = (Inr d :: ('x wallet_evidence_error, _) result)"
    using l 1 h 2 3 4 by (auto simp: u split: if_splits)
  from takesD [OF t(1) 1] takesD [OF t(2) 2(1)] takesD [OF var_decoder_lawsD(1) [OF D(2)] 3]
    takesD [OF read_hashes_takes [OF D(1)] 4] takesD [OF var_decoder_lawsD(2) [OF D(2)] 5(1)] 5(2)
  have "input = merkle_payload bs n hashes flags \<and> length hashes \<le> unat n \<and> all_hashes hashes \<and>
      length flags \<le> MAX_PARTIAL_MERKLE_FLAG_BYTES \<and> length bs = hc_size K"
    by (auto simp: decoder_lawsD(1,8) [OF D(1)] merkle_payload_def)
  with len h 2 5(3) show ?thesis by (auto simp: accepted_header_def payload_parts_def)
qed

lemma decode_partial_merkle_I:
  fixes C :: "('h, 'w, 'x) consensus"
  assumes D: "decoder_laws D view" "var_decoder_laws D view" and r: "payload_parts C K H input block_hash root d"
  shows "decode_partial_merkle D C K H input block_hash root = Inr d"
proof -
  note t = decoder_lawsD(3) [OF D(1), of "hc_size K"] decoder_lawsD(6) [OF D(1)]
  from r obtain bs n hashes flags header where len: "length input \<le> MAX_MERKLE_BLOCK_PAYLOAD_BYTES K" "length bs = hc_size K"
      and h: "hc_decode K bs = Inr header" "cs_block_hash C header = block_hash" "cs_merkle_root C header = root"
      and n: "unat n \<noteq> 0" "unat n \<le> MAX_FILTERED_BLOCK_TRANSACTIONS"
      and i: "input = merkle_payload bs n hashes flags" "length hashes \<le> unat n" "all_hashes hashes"
        "length flags \<le> MAX_PARTIAL_MERKLE_FLAG_BYTES" "check_partial_tree H n hashes flags root = (Inr d :: ('x wallet_evidence_error, _) result)"
    by (auto simp: accepted_header_def payload_parts_def)
  have u: "length hashes \<le> usize_max" "length flags \<le> usize_max"
    using i(2,4) unat_u32 [of n] by (simp_all add: usize_max_def MAX_PARTIAL_MERKLE_FLAG_BYTES_def MAX_FILTERED_BLOCK_TRANSACTIONS_def div_ceil_def)
  obtain d1 where 1: "de_read_slice D (de_new D input) (hc_size K) = Inr (bs, d1)"
      "view d1 = le_bytes 4 n @ compact_size (length hashes) @ concat hashes @ varbytes flags"
    using takesI [OF t(1), of "de_new D input" bs] len i(1) by (auto simp: decoder_lawsD(1) [OF D(1)] merkle_payload_def)
  obtain d2 where 2: "de_read_u32_le D d1 = Inr (n, d2)" "view d2 = compact_size (length hashes) @ concat hashes @ varbytes flags"
    using takesI [OF t(2) 1(2)] by auto
  obtain d3 where 3: "de_read_compact_usize D d2 (unat n) ''partial Merkle hashes'' = Inr (length hashes, d3)" "view d3 = concat hashes @ varbytes flags"
    using takesI [OF var_decoder_lawsD(1) [OF D(2)] 2(2)] i(2) u by auto
  obtain d4 where 4: "read_hashes D (length hashes) d3 = Inr (hashes, d4)" "view d4 = varbytes flags"
    using takesI [OF read_hashes_takes [OF D(1)] 3(2)] i(3) by auto
  obtain d5 where 5: "de_read_varbytes D d4 MAX_PARTIAL_MERKLE_FLAG_BYTES ''partial Merkle flags'' = Inr (flags, d5)" "view d5 = []"
    using takesI [OF var_decoder_lawsD(2) [OF D(2)], of d4 flags "[]"] 4(2) i(4) u by auto
  have "de_finish D d5 = Inr ()" using 5(2) by (simp add: decoder_lawsD(8) [OF D(1)])
  with 1 2 3 4 5 h n i len show ?thesis by (simp add: decode_partial_merkle_def)
qed

end
