(* ===== verification/Merkle_Properties.thy ===== *)
theory Merkle_Properties
  imports Merkle_Laws Light_Chain_Laws
begin

unbundle bit_operations_syntax

text \<open>
  Soundness and completeness of filtered-block evidence: the order of the matches, the partial tree an honest
  peer builds for a selection of transactions, and the number of flags it needs.
\<close>

section \<open>The order of the matches\<close>

lemma partial_matches_order:
  assumes "shaped n k p t" and "p < tree_width n k" and "n \<le> 4294967295"
  shows "sorted_wrt (<) (map mt_index (partial_matches p t)) \<and>
    (\<forall>m \<in> set (partial_matches p t). p * 2 ^ k \<le> unat (mt_index m) \<and> unat (mt_index m) < (p + 1) * 2 ^ k)"
  using assms
proof (induction t arbitrary: k p)
  case (PLeaf h)
  then have "unat (of_nat p :: u32) = p" by (simp add: unsigned_of_nat take_bit_nat_eq_self)
  with PLeaf show ?case by simp
next
  case (PEdge l)
  then obtain j where j: "k = Suc j" by (cases k) auto
  with PEdge.IH [of j "p * 2"] PEdge.prems have "sorted_wrt (<) (map mt_index (partial_matches (p * 2) l))"
      "\<forall>m \<in> set (partial_matches (p * 2) l). p * 2 * 2 ^ j \<le> unat (mt_index m) \<and> unat (mt_index m) < (p * 2 + 1) * 2 ^ j"
    by (simp_all add: less_tree_width algebra_simps)
  with j show ?case by (fastforce simp: algebra_simps)
next
  case (PNode l r)
  then obtain j where j: "k = Suc j" by (cases k) auto
  have l: "sorted_wrt (<) (map mt_index (partial_matches (p * 2) l))"
      "\<forall>m \<in> set (partial_matches (p * 2) l). p * 2 * 2 ^ j \<le> unat (mt_index m) \<and> unat (mt_index m) < (p * 2 + 1) * 2 ^ j"
    using PNode.IH(1) [of j "p * 2"] PNode.prems j by (simp_all add: less_tree_width algebra_simps)
  have r: "sorted_wrt (<) (map mt_index (partial_matches (p * 2 + 1) r))"
      "\<forall>m \<in> set (partial_matches (p * 2 + 1) r). (p * 2 + 1) * 2 ^ j \<le> unat (mt_index m) \<and> unat (mt_index m) < (p * 2 + 2) * 2 ^ j"
    using PNode.IH(2) [of j "p * 2 + 1"] PNode.prems j by simp_all
  have "mt_index x < mt_index y" if "x \<in> set (partial_matches (p * 2) l)" "y \<in> set (partial_matches (p * 2 + 1) r)" for x y
    using l(2) r(2) that unfolding word_less_nat_alt by (meson less_le_trans)
  then show ?case using l r j by (fastforce simp: sorted_wrt_append algebra_simps)
qed simp

section \<open>Honest partial trees\<close>

definition under :: "nat \<Rightarrow> nat \<Rightarrow> nat \<Rightarrow> nat list" where
  "under n k p = [p * 2 ^ k..<min n ((p + 1) * 2 ^ k)]"

fun honest_tree :: "digest \<Rightarrow> hash list \<Rightarrow> (nat \<Rightarrow> bool) \<Rightarrow> nat \<Rightarrow> nat \<Rightarrow> partial_tree" where
  "honest_tree H txs sel 0 p = (if sel p then PLeaf (txs ! p) else PRoot (merkle_leaf H (txs ! p)))"
| "honest_tree H txs sel (Suc k) p =
     (if list_ex sel (under (length txs) (Suc k) p)
      then if p * 2 + 1 < tree_width (length txs) k
        then PNode (honest_tree H txs sel k (p * 2)) (honest_tree H txs sel k (p * 2 + 1))
        else PEdge (honest_tree H txs sel k (p * 2))
      else PRoot (block_row H txs (Suc k) ! p))"

definition selected :: "hash list \<Rightarrow> (nat \<Rightarrow> bool) \<Rightarrow> nat list \<Rightarrow> matched_transaction list" where
  "selected txs sel is = map (\<lambda>i. \<lparr>mt_hash = txs ! i, mt_index = of_nat i\<rparr>) (filter sel is)"

lemma upt_split: "a \<le> b \<Longrightarrow> b \<le> c \<Longrightarrow> [a..<c] = [a..<b] @ [b..<c]"
  using upt_add_eq_append [of a b "c - b"] by simp

lemma under_Suc:
  assumes "p < tree_width n (Suc k)"
  shows "under n (Suc k) p = under n k (p * 2) @ (if p * 2 + 1 < tree_width n k then under n k (p * 2 + 1) else [])"
proof -
  define a b c where abc: "a = p * 2 * 2 ^ k" "b = (p * 2 + 1) * 2 ^ k" "c = (p * 2 + 1 + 1) * 2 ^ k"
  have eqs: "p * 2 ^ Suc k = a" "(p + 1) * 2 ^ Suc k = c" and le: "a \<le> b" "b \<le> c" by (simp_all add: abc algebra_simps)
  have w: "p * 2 + 1 < tree_width n k \<longleftrightarrow> b < n" by (simp add: less_tree_width abc)
  have "[a..<min n c] = [a..<min n b] @ (if b < n then [b..<min n c] else [])"
    using le upt_split [of a b "min n c"] by (auto simp: min_def)
  then show ?thesis unfolding under_def eqs w by (simp only: abc)
qed

lemma honest_tree_shaped:
  assumes "p < tree_width (length txs) k"
  shows "shaped (length txs) k p (honest_tree H txs sel k p)"
  using assms
proof (induction k arbitrary: p)
  case (Suc k)
  moreover have "p * 2 < tree_width (length txs) k" using Suc.prems by (simp add: less_tree_width algebra_simps)
  ultimately show ?case by simp
qed simp

lemma honest_tree_hash:
  assumes "p < tree_width (length txs) k"
  shows "partial_hash H (honest_tree H txs sel k p) = block_row H txs k ! p"
  using assms
proof (induction k arbitrary: p)
  case 0
  then show ?case by (simp add: block_row_0)
next
  case (Suc k)
  moreover have "p * 2 < tree_width (length txs) k" using Suc.prems by (simp add: less_tree_width algebra_simps)
  ultimately show ?case using nth_block_row_Suc [OF Suc.prems, of H] by (simp add: right_sibling_def length_block_row)
qed

lemma honest_tree_matches:
  assumes "p < tree_width (length txs) k"
  shows "partial_matches p (honest_tree H txs sel k p) = selected txs sel (under (length txs) k p)"
  using assms
proof (induction k arbitrary: p)
  case 0
  then have "min (length txs) (p + 1) = p + 1" by simp
  then show ?case by (simp add: under_def selected_def)
next
  case (Suc k)
  have w: "p * 2 < tree_width (length txs) k" using Suc.prems by (simp add: less_tree_width algebra_simps)
  have "filter sel is = []" if "\<not> list_ex sel is" for "is" using that by (induction "is") auto
  with Suc.IH w show ?case using under_Suc [OF Suc.prems] by (auto simp: selected_def simp del: filter_append) (auto simp: selected_def)
qed

section \<open>Flags of honest trees\<close>

definition pack_byte :: "bool list \<Rightarrow> u8" where
  "pack_byte bs = horner_sum of_bool 2 bs"

definition pack_flags :: "bool list \<Rightarrow> bytes" where
  "pack_flags bs = map (\<lambda>i. pack_byte (take 8 (drop (8 * i) bs))) [0..<div_ceil (length bs) 8]"

lemma length_pack_flags [simp]: "length (pack_flags bs) = div_ceil (length bs) 8"
  by (simp add: pack_flags_def)

lemma le_div_ceil_mult: "n \<le> div_ceil n 8 * 8"
  by (simp add: div_ceil_def)

lemma pack_flags_prefix: "prefix bs (flag_bits (pack_flags bs))"
proof -
  have "take (length bs) (flag_bits (pack_flags bs)) = bs"
  proof (rule nth_equalityI)
    show l: "length (take (length bs) (flag_bits (pack_flags bs))) = length bs" using le_div_ceil_mult [of "length bs"] by simp
    fix i assume "i < length (take (length bs) (flag_bits (pack_flags bs)))"
    then have i: "i < length bs" using l by simp
    then have j: "i div 8 < div_ceil (length bs) 8" by (simp add: less_div_ceil)
    have m: "i mod 8 < length bs - 8 * (i div 8)" using i mult_div_mod_eq [of 8 i] by linarith
    have "bit (pack_byte (take 8 (drop (8 * (i div 8)) bs))) (i mod 8) \<longleftrightarrow> bs ! i"
      using i m by (simp add: pack_byte_def bit_horner_sum_bit_word_iff)
    then show "take (length bs) (flag_bits (pack_flags bs)) ! i = bs ! i"
      using i j le_div_ceil_mult [of "length bs"] by (simp add: nth_flag_bits) (simp add: pack_flags_def)
  qed
  then show ?thesis by (metis take_is_prefix)
qed

lemma flags_for_pack: "flags_for t (pack_flags (partial_flags t))"
  by (simp add: flags_for_def pack_flags_prefix)

text \<open>Every node of a partial tree costs one flag: at most two per transaction below it and one per level.\<close>

lemma shaped_flags:
  assumes "shaped n k p t" and "p < tree_width n k"
  shows "length (partial_flags t) \<le> 2 * (n - p * 2 ^ k) + k \<and> length (partial_flags t) + 1 \<le> 2 * 2 ^ k"
  using assms
proof (induction t arbitrary: k p)
  case (PRoot h)
  moreover have "1 \<le> (2 :: nat) ^ k" by simp
  ultimately show ?case by (simp only: less_tree_width partial_flags.simps list.size) linarith
next
  case (PEdge l)
  then obtain j where "k = Suc j" by (cases k) auto
  with PEdge.IH [of j "p * 2"] PEdge.prems show ?case by (auto simp: less_tree_width algebra_simps)
next
  case (PNode l r)
  then obtain j where j: "k = Suc j" by (cases k) auto
  have "(p * 2 + 1) * 2 ^ j < n" using PNode.prems(1) j by (simp add: less_tree_width)
  with PNode.IH(1) [of j "p * 2"] PNode.IH(2) [of j "p * 2 + 1"] PNode.prems j show ?case
    by (auto simp: less_tree_width algebra_simps)
qed (auto simp: less_tree_width)

text \<open>When every transaction is selected the whole tree is sent.\<close>

definition full_flags :: "hash list \<Rightarrow> nat \<Rightarrow> nat \<Rightarrow> nat" where
  "full_flags txs k p = length (partial_flags (honest_tree (\<lambda>x. x) txs (\<lambda>_. True) k p))"

lemma full_flags_Suc:
  assumes "p < tree_width (length txs) (Suc k)"
  shows "full_flags txs (Suc k) p = Suc (full_flags txs k (p * 2) +
    (if p * 2 + 1 < tree_width (length txs) k then full_flags txs k (p * 2 + 1) else 0))"
proof -
  have "p * 2 ^ Suc k \<in> set (under (length txs) (Suc k) p)" using assms by (simp add: under_def less_tree_width)
  then have "list_ex (\<lambda>_. True) (under (length txs) (Suc k) p)" unfolding list_ex_iff by blast
  then show ?thesis by (simp add: full_flags_def)
qed

lemma full_flags_complete: "(p + 1) * 2 ^ k \<le> length txs \<Longrightarrow> full_flags txs k p + 1 = 2 * 2 ^ k"
proof (induction k arbitrary: p)
  case 0
  then show ?case by (simp add: full_flags_def)
next
  case (Suc k)
  have "(p * 2 + 1) * 2 ^ k < (p + 1) * 2 ^ Suc k" "p * 2 ^ Suc k < (p + 1) * 2 ^ Suc k" by simp_all
  with Suc.prems have "p * 2 + 1 < tree_width (length txs) k" "p < tree_width (length txs) (Suc k)"
    unfolding less_tree_width by linarith+
  moreover have "full_flags txs k (p * 2) + 1 = 2 * 2 ^ k" "full_flags txs k (p * 2 + 1) + 1 = 2 * 2 ^ k"
    using Suc.prems by (intro Suc.IH; simp)+
  ultimately show ?case by (simp add: full_flags_Suc)
qed

section \<open>Levels\<close>

lemma levels_le: "n \<le> 2 ^ k \<Longrightarrow> levels n \<le> k"
proof (induction k arbitrary: n)
  case (Suc k)
  then have "levels ((n + 1) div 2) \<le> k" by (intro Suc.IH) simp
  then show ?case by (simp add: levels.simps [of n])
qed (simp add: levels.simps)

lemma levels_gt: "2 ^ k < n \<Longrightarrow> k < levels n"
proof (induction k arbitrary: n)
  case (Suc k)
  then have "k < levels ((n + 1) div 2)" by (intro Suc.IH) simp
  moreover have "1 < n" using Suc.prems one_le_power [of "2 :: nat" "Suc k"] by linarith
  ultimately show ?case by (simp add: levels.simps [of n])
qed (simp add: levels.simps)

lemma root_width: "0 < n \<Longrightarrow> tree_width n (levels n) = 1"
  using tree_width_levels [of n 0] by simp

section \<open>Evidence\<close>

definition evidence_inputs ::
  "('h, 'w, 'x) consensus \<Rightarrow> ('h, 'x) header_codec \<Rightarrow> digest \<Rightarrow> bytes \<Rightarrow> wallet_header_anchor \<Rightarrow> bytes set" where
  "evidence_inputs C K H input anchor = \<Union> {partial_inputs H t | t. \<exists>bs n flags.
     accepted_header C K bs (wa_hash anchor) (wa_merkle_root anchor) \<and> block_tree (unat n) t \<and>
     all_hashes (partial_hashes t) \<and> flags_for t flags \<and> input = merkle_payload bs n (partial_hashes t) flags}"

lemma decode_for_anchor_tree:
  fixes C :: "('h, 'w, 'x) consensus"
  assumes "decoder_laws D view" and "var_decoder_laws D view" and "decode_for_anchor D C K H input anchor = Inr ev"
  obtains t where "we_header ev = anchor" "block_tree (unat (we_total_transactions ev)) t" "0 < unat (we_total_transactions ev)"
    "all_hashes (partial_hashes t)" "we_matches ev = partial_matches 0 t" "partial_hash H t = wa_merkle_root anchor"
    "partial_inputs H t \<subseteq> evidence_inputs C K H input anchor"
proof -
  obtain d where d: "decode_partial_merkle D C K H input (wa_hash anchor) (wa_merkle_root anchor) = Inr d"
      and ev: "ev = \<lparr>we_header = anchor, we_total_transactions = dp_total_transactions d, we_matches = dp_matches d\<rparr>"
    using assms(3) by (auto simp: decode_for_anchor_def result_inv)
  from decode_partial_merkle_D [OF assms(1,2) d] obtain bs n hashes flags where
      p: "accepted_header C K bs (wa_hash anchor) (wa_merkle_root anchor)" "0 < unat n"
        "input = merkle_payload bs n hashes flags" "all_hashes hashes" "length flags \<le> MAX_PARTIAL_MERKLE_FLAG_BYTES"
      and c: "check_partial_tree H n hashes flags (wa_merkle_root anchor) = (Inr d :: ('x wallet_evidence_error, _) result)"
    unfolding payload_parts_def by blast
  have "length flags * 8 \<le> usize_max"
    using p(5) by (simp add: MAX_PARTIAL_MERKLE_FLAG_BYTES_def MAX_FILTERED_BLOCK_TRANSACTIONS_def div_ceil_def usize_max_def)
  with c p(2) obtain t where t: "block_tree (unat n) t" "hashes = partial_hashes t" "flags_for t flags"
      "partial_hash H t = wa_merkle_root anchor" "d = \<lparr>dp_total_transactions = n, dp_matches = partial_matches 0 t\<rparr>"
    by (auto simp: check_partial_tree_Inr)
  have "partial_inputs H t \<subseteq> evidence_inputs C K H input anchor"
    unfolding evidence_inputs_def using p t by blast
  with p t that [of t] ev show thesis by simp
qed

lemma all_hashes_honest:
  assumes "all_hashes txs" and "\<forall>x. length (H x) = 32" and "p < tree_width (length txs) k"
  shows "all_hashes (partial_hashes (honest_tree H txs sel k p))"
  using assms(3)
proof (induction k arbitrary: p)
  case 0
  then show ?case using assms(1,2) by (simp add: all_hashes_def merkle_hashes list_all_length)
next
  case (Suc k)
  have "p * 2 < tree_width (length txs) k" using Suc.prems by (simp add: less_tree_width algebra_simps)
  with Suc length_nth_block_row [OF assms(2) Suc.prems] show ?case by (simp add: all_hashes_def)
qed

definition honest_payload :: "digest \<Rightarrow> bytes \<Rightarrow> hash list \<Rightarrow> (nat \<Rightarrow> bool) \<Rightarrow> bytes" where
  "honest_payload H header txs sel =
     (let t = honest_tree H txs sel (levels (length txs)) 0
      in merkle_payload header (of_nat (length txs)) (partial_hashes t) (pack_flags (partial_flags t)))"

lemma length_compact_size: "length (compact_size n) \<le> 9"
  by (simp add: compact_size_def)

lemma length_concat_hashes: "all_hashes hs \<Longrightarrow> length (concat hs) = length hs * 32"
  by (induction hs) (simp_all add: all_hashes_def)

lemma honest_payload_fits:
  assumes "all_hashes hashes" and "length hashes \<le> 16660" and "length bs = hc_size K" and "length flags \<le> 4167"
  shows "length (merkle_payload bs n hashes flags) \<le> MAX_MERKLE_BLOCK_PAYLOAD_BYTES K"
  using assms length_compact_size [of "length hashes"] length_compact_size [of "length flags"]
  by (simp add: merkle_payload_def varbytes_def length_concat_hashes MAX_MERKLE_BLOCK_PAYLOAD_BYTES_def
      MAX_PARTIAL_MERKLE_FLAG_BYTES_def MAX_FILTERED_BLOCK_TRANSACTIONS_def div_ceil_def)

lemma payload_accepted:
  fixes C :: "('h, 'w, 'x) consensus"
  assumes "decoder_laws D view" "var_decoder_laws D view" and h: "accepted_header C K bs (wa_hash anchor) (wa_merkle_root anchor)"
    and "0 < unat n" "unat n \<le> MAX_FILTERED_BLOCK_TRANSACTIONS" and "all_hashes hashes" "length hashes \<le> unat n" "length hashes \<le> 16660"
    and f: "length flags \<le> 4167"
    and "check_partial_tree H n hashes flags (wa_merkle_root anchor) = (Inr d :: ('x wallet_evidence_error, _) result)"
  shows "decode_for_anchor D C K H (merkle_payload bs n hashes flags) anchor =
    Inr \<lparr>we_header = anchor, we_total_transactions = dp_total_transactions d, we_matches = dp_matches d\<rparr>"
proof -
  have "length flags \<le> MAX_PARTIAL_MERKLE_FLAG_BYTES"
    using f by (simp add: MAX_PARTIAL_MERKLE_FLAG_BYTES_def MAX_FILTERED_BLOCK_TRANSACTIONS_def div_ceil_def)
  moreover have "length (merkle_payload bs n hashes flags) \<le> MAX_MERKLE_BLOCK_PAYLOAD_BYTES K"
    by (rule honest_payload_fits [OF assms(6,8) _ f]) (use h in \<open>simp add: accepted_header_def\<close>)
  ultimately have "payload_parts C K H (merkle_payload bs n hashes flags) (wa_hash anchor) (wa_merkle_root anchor) d"
    unfolding payload_parts_def using assms by blast
  then show ?thesis by (simp add: decode_for_anchor_def decode_partial_merkle_I [OF assms(1,2)])
qed

lemma under_all: "0 < n \<Longrightarrow> under n (levels n) 0 = [0..<n]"
  using less_tree_width [of 1 n "levels n"] by (simp add: under_def root_width not_less min_absorb1)

lemma honest_payload_accepted:
  fixes C :: "('h, 'w, 'x) consensus"
  assumes D: "decoder_laws D view" "var_decoder_laws D view" and h: "accepted_header C K header (wa_hash anchor) (wa_merkle_root anchor)"
    and root: "wa_merkle_root anchor = block_root H txs" and n: "txs \<noteq> []" "length txs \<le> 16660"
    and len: "\<forall>x. length (H x) = 32" "all_hashes txs" and dist: "distinct (map mt_hash (selected txs sel [0..<length txs]))"
  shows "decode_for_anchor D C K H (honest_payload H header txs sel) anchor =
    Inr \<lparr>we_header = anchor, we_total_transactions = of_nat (length txs), we_matches = selected txs sel [0..<length txs]\<rparr>"
proof -
  let ?n = "length txs" and ?u = "of_nat (length txs) :: u32"
  define t where "t = honest_tree H txs sel (levels ?n) 0"
  have u: "unat ?u = ?n" using n(2) by (simp add: unsigned_of_nat take_bit_nat_eq_self)
  have w: "0 < tree_width ?n (levels ?n)" using n(1) by (simp add: root_width)
  have m: "partial_matches 0 t = selected txs sel [0..<?n]"
    using honest_tree_matches [OF w, of H sel] n(1) by (simp add: t_def under_all)
  have sh: "shaped ?n (levels ?n) 0 t" unfolding t_def by (rule honest_tree_shaped [OF w])
  then have tree: "block_tree (unat ?u) t" using dist by (simp add: block_tree_def u m)
  have hashes: "all_hashes (partial_hashes t)" "length (partial_hashes t) \<le> ?n"
    using all_hashes_honest [OF len(2,1) w] shaped_hashes [OF sh w] by (simp_all add: t_def)
  have "levels ?n \<le> 15" using n(2) by (intro levels_le) simp
  then have "length (partial_flags t) \<le> 33335" using shaped_flags [OF sh w] n(2) by simp
  then have flags: "length (pack_flags (partial_flags t)) \<le> 4167"
    using div_le_mono [of "length (partial_flags t) + 7" 33342 8] by (simp add: div_ceil_def)
  have root': "partial_hash H t = wa_merkle_root anchor"
    using honest_tree_hash [OF w, of H sel] root by (simp add: t_def block_root_def)
  have "check_partial_tree H ?u (partial_hashes t) (pack_flags (partial_flags t)) (wa_merkle_root anchor) =
      (Inr \<lparr>dp_total_transactions = ?u, dp_matches = selected txs sel [0..<?n]\<rparr> :: ('x wallet_evidence_error, _) result)"
    using tree flags_for_pack [of t] root' m flags n(1) by (subst check_partial_tree_Inr) (auto simp: u usize_max_def)
  with payload_accepted [OF D h _ _ hashes(1) _ _ flags this] hashes(2) n
  show ?thesis by (simp add: honest_payload_def Let_def u MAX_FILTERED_BLOCK_TRANSACTIONS_def flip: t_def)
qed

lemma evidence_true:
  assumes "decoder_laws D view" and "var_decoder_laws D view" and "decode_for_anchor D C K H input anchor = Inr ev"
    and root: "wa_merkle_root anchor = block_root H txs" "txs \<noteq> []"
    and len: "\<forall>x. length (H x) = 32" and inj: "inj_on H (block_inputs H txs \<union> evidence_inputs C K H input anchor)"
  shows "we_header ev = anchor \<and> sorted_wrt (<) (map mt_index (we_matches ev)) \<and>
    (\<forall>m \<in> set (we_matches ev). unat (mt_index m) < length txs \<and> mt_hash m = txs ! unat (mt_index m) \<and>
       levels (unat (we_total_transactions ev)) = levels (length txs))"
proof -
  obtain t where t: "we_header ev = anchor" "block_tree (unat (we_total_transactions ev)) t" "0 < unat (we_total_transactions ev)"
      "all_hashes (partial_hashes t)" "we_matches ev = partial_matches 0 t" "partial_hash H t = wa_merkle_root anchor"
      "partial_inputs H t \<subseteq> evidence_inputs C K H input anchor"
    by (rule decode_for_anchor_tree [OF assms(1-3)])
  let ?n = "unat (we_total_transactions ev)"
  have sh: "shaped ?n (levels ?n) 0 t" using t(2) by (simp add: block_tree_def)
  have w: "0 < tree_width ?n (levels ?n)" "0 < tree_width (length txs) (levels (length txs))"
    using t(3) root(2) by (simp_all add: root_width)
  have i: "inj_on H (block_inputs H txs \<union> partial_inputs H t)" by (rule inj_on_subset [OF inj]) (use t(7) in blast)
  have r: "partial_hash H t = block_row H txs (levels (length txs)) ! 0" using t(6) root(1) by (simp add: block_root_def)
  have "unat (mt_index m) < length txs \<and> mt_hash m = txs ! unat (mt_index m) \<and> levels ?n = levels (length txs)"
    if m: "m \<in> set (we_matches ev)" for m
  proof -
    obtain q where "levels (length txs) = levels ?n" "q < length txs" "q < ?n" "m = \<lparr>mt_hash = txs ! q, mt_index = of_nat q\<rparr>"
      using partial_sound [OF sh r w(2,1) le_refl i] t(4,5) m len by (auto simp: all_hashes_def)
    moreover from this unat_u32 [of "we_total_transactions ev"] have "unat (of_nat q :: u32) = q"
      by (simp add: unsigned_of_nat take_bit_nat_eq_self)
    ultimately show ?thesis by simp
  qed
  with t(1,5) partial_matches_order [OF sh w(1) unat_u32] show ?thesis by simp
qed

section \<open>A concrete block\<close>

definition toy_hash :: digest where
  "toy_hash x = (if length x = 33 then drop 1 x else replicate 32 0)"

definition toy_transaction :: hash where
  "toy_transaction = replicate 32 7"

definition toy_codec :: "(hash \<times> hash, unit) header_codec" where
  "toy_codec = \<lparr>hc_size = 32, hc_decode = \<lambda>bs. Inr (hash_zero, bs)\<rparr>"

definition toy_anchor :: wallet_header_anchor where
  "toy_anchor = \<lparr>wa_height = 1, wa_hash = toy_transaction, wa_previous_block = hash_zero, wa_tree_root = hash_zero,
     wa_merkle_root = toy_transaction, wa_time = 5\<rparr>"

definition toy_payload :: bytes where
  "toy_payload = honest_payload toy_hash toy_transaction [toy_transaction] (\<lambda>_. True)"

lemma toy_hash_length: "\<forall>x. length (toy_hash x) = 32"
  by (simp add: toy_hash_def)

lemma toy_levels [simp]: "levels (Suc 0) = 0"
  by (simp add: levels.simps)

lemma toy_root: "wa_merkle_root toy_anchor = block_root toy_hash [toy_transaction]"
  by (simp add: toy_anchor_def block_root_def block_row_0 merkle_hashes toy_hash_def toy_transaction_def)

lemma toy_header: "accepted_header toy_consensus toy_codec toy_transaction (wa_hash toy_anchor) (wa_merkle_root toy_anchor)"
  by (simp add: accepted_header_def toy_codec_def toy_consensus_def toy_anchor_def toy_transaction_def)

lemma toy_inputs: "evidence_inputs toy_consensus toy_codec toy_hash toy_payload toy_anchor \<subseteq> {0 # toy_transaction}"
proof -
  have "partial_inputs toy_hash t \<subseteq> {0 # toy_transaction}"
    if h: "accepted_header toy_consensus toy_codec bs (wa_hash toy_anchor) (wa_merkle_root toy_anchor)" and t: "block_tree (unat n) t"
      "all_hashes (partial_hashes t)" "toy_payload = merkle_payload bs n (partial_hashes t) flags" for t bs n flags
  proof -
    have "length bs = length toy_transaction" using h by (simp add: accepted_header_def toy_codec_def toy_transaction_def)
    with t(3) have "n = 1 \<and> compact_size (length (partial_hashes t)) @ concat (partial_hashes t) @ varbytes flags =
        compact_size 1 @ toy_transaction @ varbytes (pack_flags [True])"
      using le_word_widths(2) [of n] le_word_widths(2) [of 1]
      by (auto simp: toy_payload_def honest_payload_def merkle_payload_def)
    moreover from this t(1) obtain x where "t = PRoot x \<or> t = PLeaf x" by (cases t) (auto simp: block_tree_def)
    ultimately show ?thesis using t(2) by (auto simp: all_hashes_def toy_transaction_def)
  qed
  then show ?thesis unfolding evidence_inputs_def by blast
qed

lemma toy_decoded:
  "decode_for_anchor list_decoder toy_consensus toy_codec toy_hash toy_payload toy_anchor =
     Inr \<lparr>we_header = toy_anchor, we_total_transactions = 1, we_matches = [\<lparr>mt_hash = toy_transaction, mt_index = 0\<rparr>]\<rparr>"
  using honest_payload_accepted [OF list_decoder_laws list_var_decoder_laws toy_header toy_root _ _ toy_hash_length, of "\<lambda>_. True"]
  by (simp add: toy_payload_def selected_def all_hashes_def toy_transaction_def)

lemma toy_injective:
  "inj_on toy_hash (block_inputs toy_hash [toy_transaction] \<union> evidence_inputs toy_consensus toy_codec toy_hash toy_payload toy_anchor)"
  by (rule inj_on_subset [of _ "{[], 0 # toy_transaction}"])
    (use toy_inputs in \<open>auto simp: block_inputs_def toy_hash_def toy_transaction_def\<close>)

section \<open>Properties\<close>

text \<open>C17: Filtered-block evidence is sound.  Whatever a peer sends, if it is accepted for an anchor whose Merkle
  root commits the transactions of a block, then every reported match is the transaction of the block at the
  reported index, the indices are strictly increasing, and the claimed number of transactions has as many
  tree levels as the block when there is a match.  The digest has 32-byte outputs and no collision on the
  inputs hashed for the block and for the payload.\<close>

theorem merkle_block_sound:
  assumes "decoder_laws D view" and "var_decoder_laws D view" and "decode_for_anchor D C K H input anchor = Inr ev"
    and root: "wa_merkle_root anchor = block_root H txs" "txs \<noteq> []"
    and len: "\<forall>x. length (H x) = 32" and inj: "inj_on H (block_inputs H txs \<union> evidence_inputs C K H input anchor)"
  shows "we_header ev = anchor \<and> sorted_wrt (<) (map mt_index (we_matches ev)) \<and>
    (\<forall>m \<in> set (we_matches ev). unat (mt_index m) < length txs \<and> mt_hash m = txs ! unat (mt_index m) \<and>
       levels (unat (we_total_transactions ev)) = levels (length txs))"
  using assms by (rule evidence_true)

theorem merkle_block_sound_witness:
  "\<exists>ev. decode_for_anchor list_decoder toy_consensus toy_codec toy_hash toy_payload toy_anchor = Inr ev \<and>
     we_matches ev = [\<lparr>mt_hash = toy_transaction, mt_index = 0\<rparr>] \<and>
     set (map mt_hash (we_matches ev)) \<subseteq> {x. x = [toy_transaction] ! 0}"
  using merkle_block_sound [OF list_decoder_laws list_var_decoder_laws toy_decoded toy_root _ toy_hash_length toy_injective] toy_decoded
  by simp

text \<open>C36: Filtered-block evidence is complete.  For every block of at most 16660 transactions and every selection
  of them, the payload an honest peer builds is accepted for the block's anchor and reports exactly the
  selected transactions with their indices, provided their hashes are distinct.\<close>

theorem merkle_block_complete:
  fixes C :: "('h, 'w, 'x) consensus"
  assumes D: "decoder_laws D view" "var_decoder_laws D view" and h: "accepted_header C K header (wa_hash anchor) (wa_merkle_root anchor)"
    and root: "wa_merkle_root anchor = block_root H txs" and n: "txs \<noteq> []" "length txs \<le> 16660"
    and len: "\<forall>x. length (H x) = 32" "all_hashes txs" and dist: "distinct (map mt_hash (selected txs sel [0..<length txs]))"
  shows "decode_for_anchor D C K H (honest_payload H header txs sel) anchor =
    Inr \<lparr>we_header = anchor, we_total_transactions = of_nat (length txs), we_matches = selected txs sel [0..<length txs]\<rparr>"
  by (rule honest_payload_accepted [OF assms])

theorem merkle_block_complete_witness:
  "decode_for_anchor list_decoder toy_consensus toy_codec toy_hash toy_payload toy_anchor =
     Inr \<lparr>we_header = toy_anchor, we_total_transactions = 1, we_matches = [\<lparr>mt_hash = toy_transaction, mt_index = 0\<rparr>]\<rparr>"
  using merkle_block_complete [OF list_decoder_laws list_var_decoder_laws toy_header toy_root _ _ toy_hash_length, of "\<lambda>_. True"]
  by (simp add: toy_payload_def selected_def all_hashes_def toy_transaction_def)

text \<open>The number of transactions is not authenticated: an anchor's own root is accepted as a tree without
  matches for every claimed number within the bound.\<close>

lemma total_not_authenticated:
  fixes C :: "('h, 'w, 'x) consensus"
  assumes D: "decoder_laws D view" "var_decoder_laws D view" and h: "accepted_header C K header (wa_hash anchor) (wa_merkle_root anchor)"
    and n: "0 < unat n" "unat n \<le> MAX_FILTERED_BLOCK_TRANSACTIONS" and len: "length (wa_merkle_root anchor) = 32"
  shows "decode_for_anchor D C K H (merkle_payload header n [wa_merkle_root anchor] [0]) anchor =
    Inr \<lparr>we_header = anchor, we_total_transactions = n, we_matches = []\<rparr>"
proof -
  have "flags_for (PRoot (wa_merkle_root anchor)) [0]" by (simp add: flags_for_def flag_bits_def byte_flags_def div_ceil_def upt_rec)
  then have "check_partial_tree H n [wa_merkle_root anchor] [0] (wa_merkle_root anchor) =
      (Inr \<lparr>dp_total_transactions = n, dp_matches = []\<rparr> :: ('x wallet_evidence_error, _) result)"
    using n by (subst check_partial_tree_Inr) (auto simp: usize_max_def block_tree_def intro!: exI [of _ "PRoot (wa_merkle_root anchor)"])
  with payload_accepted [OF D h n _ _ _ _ this] n len show ?thesis by (simp add: all_hashes_def)
qed

text \<open>A block of the maximal number of transactions, all of them matched, needs more flags than the bound on flag
  bytes allows.\<close>

lemma full_block_flags:
  assumes "length txs = MAX_FILTERED_BLOCK_TRANSACTIONS"
  shows "full_flags txs (levels (length txs)) 0 = 33341 \<and> 8 * MAX_PARTIAL_MERKLE_FLAG_BYTES = 33336"
proof
  have n: "length txs = 16666" using assms by (simp add: MAX_FILTERED_BLOCK_TRANSACTIONS_def)
  have l: "levels 16666 = 15" by (simp add: levels.simps)
  have f: "full_flags txs k p = 2 * 2 ^ k - 1" if "(p + 1) * 2 ^ k \<le> 16666" for k p
    using full_flags_complete [of p k txs] that n by simp
  have r: "full_flags txs (Suc k) p = Suc (full_flags txs k (p * 2))" if "p * 2 * 2 ^ k < 16666" "16666 \<le> (p * 2 + 1) * 2 ^ k" for k p
    using full_flags_Suc [of p txs k] that by (simp add: n less_tree_width algebra_simps)
  have b: "full_flags txs (Suc k) p = Suc (full_flags txs k (p * 2) + full_flags txs k (p * 2 + 1))" if "(p * 2 + 1) * 2 ^ k < 16666" for k p
    using full_flags_Suc [of p txs k] that by (simp add: n less_tree_width algebra_simps)
  show "full_flags txs (levels (length txs)) 0 = 33341"
    using b [of 0 14] r [of 1 13] r [of 2 12] r [of 4 11] r [of 8 10] r [of 16 9] b [of 32 8] r [of 65 7] r [of 130 6] r [of 260 5] b [of 520 4] b [of 1041 3] r [of 2083 2] r [of 4166 1]
    by (simp add: n l f flip: numeral_2_eq_2)
  show "8 * MAX_PARTIAL_MERKLE_FLAG_BYTES = 33336"
    by (simp add: MAX_PARTIAL_MERKLE_FLAG_BYTES_def MAX_FILTERED_BLOCK_TRANSACTIONS_def div_ceil_def)
qed

end
