(* ===== verification/Wallet_Laws.thy ===== *)
theory Wallet_Laws
  imports Wallet_Block Merkle_Properties
begin

text \<open>
  The collector delivers exactly the proven matches: it finishes when a transaction was seen for every
  match, with the first one seen for each in the order of the block.  The union of peer views is exact and
  keeps that correlation, so that what a wallet persists is what the anchors of its headers commit.
\<close>

section \<open>The collector\<close>

definition good_matches :: "matched_transaction list \<Rightarrow> bool" where
  "good_matches ms \<longleftrightarrow> distinct (map mt_hash ms) \<and> sorted_wrt (<) (map mt_index ms)"

definition first_with :: "('tx \<Rightarrow> ('x, hash) result) \<Rightarrow> 'tx list \<Rightarrow> hash \<Rightarrow> 'tx option" where
  "first_with txh txs h = find (\<lambda>tx. txh tx = Inr h) txs"

definition missing :: "matched_transaction list \<Rightarrow> (hash \<Rightarrow> 'tx option) \<Rightarrow> hash \<Rightarrow> u32 option" where
  "missing ms f h = (if f h = None then map_of (map (\<lambda>m. (mt_hash m, mt_index m)) ms) h else None)"

definition found :: "matched_transaction list \<Rightarrow> (hash \<Rightarrow> 'tx option) \<Rightarrow> u32 \<Rightarrow> 'tx option" where
  "found ms f i = Option.bind (map_of (map (\<lambda>m. (mt_index m, mt_hash m)) ms) i) f"

lemma match_mem: "\<lparr>mt_hash = h, mt_index = i\<rparr> \<in> S \<longleftrightarrow> (\<exists>m \<in> S. mt_hash m = h \<and> mt_index m = i)"
proof
  assume "\<exists>m \<in> S. mt_hash m = h \<and> mt_index m = i"
  then obtain m where "m \<in> S" "mt_hash m = h" "mt_index m = i" by blast
  then show "\<lparr>mt_hash = h, mt_index = i\<rparr> \<in> S" by (cases m) simp
qed (auto intro: bexI [rotated])

lemma good_matches_hash:
  "good_matches ms \<Longrightarrow> map_of (map (\<lambda>m. (mt_hash m, mt_index m)) ms) h = Some i \<longleftrightarrow> \<lparr>mt_hash = h, mt_index = i\<rparr> \<in> set ms"
proof -
  assume "good_matches ms"
  then have "distinct (map fst (map (\<lambda>m. (mt_hash m, mt_index m)) ms))" by (simp add: good_matches_def comp_def)
  then show ?thesis by (subst map_of_eq_Some_iff) (auto simp: match_mem image_iff)
qed

lemma good_matches_index:
  "good_matches ms \<Longrightarrow> map_of (map (\<lambda>m. (mt_index m, mt_hash m)) ms) i = Some h \<longleftrightarrow> \<lparr>mt_hash = h, mt_index = i\<rparr> \<in> set ms"
proof -
  assume "good_matches ms"
  then have "distinct (map fst (map (\<lambda>m. (mt_index m, mt_hash m)) ms))" by (simp add: good_matches_def comp_def strict_sorted_iff)
  then show ?thesis by (subst map_of_eq_Some_iff) (auto simp: match_mem image_iff)
qed

lemma good_matches_inj:
  assumes "good_matches ms" and "\<lparr>mt_hash = h, mt_index = i\<rparr> \<in> set ms" and "\<lparr>mt_hash = h', mt_index = i'\<rparr> \<in> set ms"
  shows "h = h' \<longleftrightarrow> i = i'"
proof
  assume "h = h'"
  then show "i = i'" using assms(2,3) unfolding good_matches_hash [OF assms(1), symmetric] by simp
next
  assume "i = i'"
  then show "h = h'" using assms(2,3) unfolding good_matches_index [OF assms(1), symmetric] by simp
qed

lemma missing_update: "missing ms (f(h \<mapsto> tx)) = (missing ms f)(h := None)"
  by (auto simp: missing_def fun_eq_iff)

lemma found_update:
  assumes "good_matches ms" and "missing ms f h = Some i"
  shows "found ms (f(h \<mapsto> tx)) = (found ms f)(i \<mapsto> tx) \<and> found ms f i = None"
proof -
  have m: "\<lparr>mt_hash = h, mt_index = i\<rparr> \<in> set ms" "f h = None"
    using assms good_matches_hash [OF assms(1)] by (auto simp: missing_def split: if_splits)
  then have i: "map_of (map (\<lambda>m. (mt_index m, mt_hash m)) ms) i = Some h" using good_matches_index [OF assms(1)] by simp
  have "map_of (map (\<lambda>m. (mt_index m, mt_hash m)) ms) j \<noteq> Some h" if "j \<noteq> i" for j
    using that good_matches_index [OF assms(1)] good_matches_inj [OF assms(1) m(1)] by blast
  then have "found ms (f(h \<mapsto> tx)) j = ((found ms f)(i \<mapsto> tx)) j" for j
    using i by (cases "map_of (map (\<lambda>m. (mt_index m, mt_hash m)) ms) j") (auto simp: found_def)
  with i m show ?thesis by (auto simp: found_def fun_eq_iff)
qed

definition collecting :: "wallet_block_evidence \<Rightarrow> (hash \<Rightarrow> 'tx option) \<Rightarrow> 'tx filtered_block_collector \<Rightarrow> bool" where
  "collecting ev f c \<longleftrightarrow> fc_evidence c = ev \<and> bt_ordered (fc_pending c) \<and> bt_ordered (fc_transactions c) \<and>
     map_of (fc_pending c) = missing (we_matches ev) f \<and> map_of (fc_transactions c) = found (we_matches ev) f"

lemma pending_loop_distinct:
  assumes "bt_ordered pending" and "distinct (map mt_hash ms)" and "\<forall>m \<in> set ms. map_of pending (mt_hash m) = None"
  shows "\<exists>p. pending_loop ms pending = (Inr p :: ('x wallet_evidence_error, _) result) \<and> bt_ordered p \<and>
    map_of p = map_of pending ++ map_of (map (\<lambda>m. (mt_hash m, mt_index m)) ms)"
  using assms
proof (induction ms arbitrary: pending)
  case (Cons m ms)
  have none: "\<forall>m' \<in> set ms. map_of (bt_insert (mt_hash m) (mt_index m) pending) (mt_hash m') = None"
  proof
    fix m' assume "m' \<in> set ms"
    then have "mt_hash m' \<noteq> mt_hash m" using Cons.prems(2) by (metis distinct.simps(2) image_eqI image_set list.simps(9))
    with Cons.prems \<open>m' \<in> set ms\<close> show "map_of (bt_insert (mt_hash m) (mt_index m) pending) (mt_hash m') = None"
      by (simp add: bt_insert_lookup)
  qed
  have d: "distinct (map mt_hash ms)" using Cons.prems(2) by simp
  from Cons.IH [OF bt_insert_ordered [OF Cons.prems(1)] d none] obtain p where
      p: "pending_loop ms (bt_insert (mt_hash m) (mt_index m) pending) = (Inr p :: ('x wallet_evidence_error, _) result)" "bt_ordered p"
        "map_of p = (map_of pending)(mt_hash m \<mapsto> mt_index m) ++ map_of (map (\<lambda>m. (mt_hash m, mt_index m)) ms)"
    unfolding bt_insert_lookup [OF Cons.prems(1)] by blast
  have "map_of (map (\<lambda>m. (mt_hash m, mt_index m)) ms) (mt_hash m) = None"
    using Cons.prems(2) by (simp add: map_of_eq_None_iff image_image)
  with p Cons.prems(3) show ?case by (auto simp: fun_eq_iff map_add_def split: option.splits)
qed simp

lemma collector_new_collecting:
  assumes "good_matches (we_matches ev)"
  shows "\<exists>c. collector_new ev = (Inr c :: ('x wallet_evidence_error, _) result) \<and> collecting ev (\<lambda>_. None) c"
proof -
  obtain p where "pending_loop (we_matches ev) [] = (Inr p :: ('x wallet_evidence_error, _) result)" "bt_ordered p"
      "map_of p = map_of (map (\<lambda>m. (mt_hash m, mt_index m)) (we_matches ev))"
    using pending_loop_distinct [of "[]" "we_matches ev"] assms by (auto simp: good_matches_def bt_ordered_def)
  then show ?thesis
    by (auto simp: collector_new_def collecting_def missing_def found_def bt_ordered_def fun_eq_iff bind_eq_None_conv split: bind_splits)
qed

lemma admit_collecting:
  assumes "collecting ev f c" and "good_matches (we_matches ev)"
  shows "collecting ev (case txh tx of Inl _ \<Rightarrow> f | Inr h \<Rightarrow> if f h = None then f(h \<mapsto> tx) else f) (fst (admit_transaction txh c tx)) \<and>
    snd (admit_transaction txh c tx) \<noteq> Inl DuplicateTransactionIndex"
proof (cases "txh tx")
  case (Inr h)
  show ?thesis
  proof (cases "missing (we_matches ev) f h")
    case None
    then have "missing (we_matches ev) (f(h \<mapsto> tx)) = missing (we_matches ev) f"
        "f h = None \<Longrightarrow> found (we_matches ev) (f(h \<mapsto> tx)) = found (we_matches ev) f"
      using good_matches_index [OF assms(2), of _ h] good_matches_hash [OF assms(2), of h]
      by (auto simp: missing_def found_def fun_eq_iff split: if_splits bind_splits)
    then show ?thesis using assms(1) Inr None by (simp add: collecting_def admit_transaction_def)
  next
    case (Some i)
    then have "f h = None" by (simp add: missing_def split: if_splits)
    with Some assms Inr found_update [OF assms(2) Some, of tx] show ?thesis
      by (simp add: collecting_def admit_transaction_def Let_def missing_update bt_insert_ordered bt_remove_ordered bt_insert_lookup
          bt_remove_lookup)
  qed
qed (use assms in \<open>simp add: collecting_def admit_transaction_def\<close>)

definition collect_run :: "('tx \<Rightarrow> ('x, hash) result) \<Rightarrow> 'tx filtered_block_collector \<Rightarrow> 'tx list \<Rightarrow> 'tx filtered_block_collector" where
  "collect_run txh c txs = foldl (\<lambda>c tx. fst (admit_transaction txh c tx)) c txs"

lemma first_with_append:
  "first_with txh (txs @ [tx]) = (case txh tx of Inl _ \<Rightarrow> first_with txh txs
     | Inr h \<Rightarrow> if first_with txh txs h = None then (first_with txh txs)(h \<mapsto> tx) else first_with txh txs)"
proof -
  have "find P (xs @ [x]) = (case find P xs of None \<Rightarrow> if P x then Some x else None | Some y \<Rightarrow> Some y)" for P :: "'a \<Rightarrow> bool" and xs x
    by (induction xs) auto
  then show ?thesis by (auto simp: first_with_def fun_eq_iff split: sum.splits option.splits)
qed

lemma collect_run_collecting:
  assumes "collecting ev (\<lambda>_. None) c" and "good_matches (we_matches ev)"
  shows "collecting ev (first_with txh txs) (collect_run txh c txs)"
proof (induction txs rule: rev_induct)
  case (snoc tx txs)
  then show ?case using admit_collecting [OF snoc assms(2), where txh = txh and tx = tx] by (simp add: collect_run_def first_with_append)
qed (use assms in \<open>simp add: collect_run_def first_with_def\<close>)

lemma found_all:
  "\<forall>m \<in> set ms. f (mt_hash m) \<noteq> None \<Longrightarrow> map_of (map (\<lambda>m. (mt_index m, the (f (mt_hash m)))) ms) = found ms f"
  by (induction ms) (auto simp: found_def fun_eq_iff)

lemma collecting_finish:
  assumes "collecting ev f c" and "good_matches (we_matches ev)"
  shows "collector_finish c = (if \<forall>m \<in> set (we_matches ev). f (mt_hash m) \<noteq> None
    then Inr \<lparr>vb_evidence = ev, vb_transactions = map (\<lambda>m. the (f (mt_hash m))) (we_matches ev)\<rparr>
    else Inl MissingTransactions)"
proof -
  have c: "bt_ordered (fc_pending c)" "bt_ordered (fc_transactions c)" "map_of (fc_pending c) = missing (we_matches ev) f"
      "map_of (fc_transactions c) = found (we_matches ev) f" "fc_evidence c = ev"
    using assms(1) by (simp_all add: collecting_def)
  have "fc_pending c = [] \<longleftrightarrow> (\<forall>m \<in> set (we_matches ev). f (mt_hash m) \<noteq> None)"
    unfolding bt.entries_Nil_iff [OF c(1)] c(3)
    by (auto simp: missing_def fun_eq_iff map_of_eq_None_iff image_iff split: if_splits)
  moreover have "fc_transactions c = map (\<lambda>m. (mt_index m, the (f (mt_hash m)))) (we_matches ev)"
    if "\<forall>m \<in> set (we_matches ev). f (mt_hash m) \<noteq> None"
    using found_all [OF that] assms(2) by (intro bt.entries_eq [OF c(2)]) (simp_all add: c(4) good_matches_def comp_def)
  ultimately show ?thesis using c(5) by (simp add: collector_finish_def comp_def)
qed

section \<open>Peer views\<close>

definition verified :: "('tx \<Rightarrow> ('x, hash) result) \<Rightarrow> 'tx verified_wallet_block \<Rightarrow> bool" where
  "verified txh b \<longleftrightarrow> good_matches (we_matches (vb_evidence b)) \<and>
     map txh (vb_transactions b) = map (Inr \<circ> mt_hash) (we_matches (vb_evidence b))"

definition view_of :: "'tx verified_wallet_block \<Rightarrow> (matched_transaction \<times> 'tx) set" where
  "view_of b = set (zip (we_matches (vb_evidence b)) (vb_transactions b))"

definition agree :: "matched_transaction \<times> 'tx \<Rightarrow> matched_transaction \<times> 'tx \<Rightarrow> bool" where
  "agree x y \<longleftrightarrow> (mt_hash (fst x) = mt_hash (fst y) \<longleftrightarrow> mt_index (fst x) = mt_index (fst y)) \<and>
     (mt_hash (fst x) = mt_hash (fst y) \<longrightarrow> snd x = snd y)"

definition consistent :: "(matched_transaction \<times> 'tx) set \<Rightarrow> bool" where
  "consistent U \<longleftrightarrow> (\<forall>x \<in> U. \<forall>y \<in> U. agree x y)"

definition merge_ok :: "'tx merge_state \<Rightarrow> (matched_transaction \<times> 'tx) set \<Rightarrow> bool" where
  "merge_ok s U \<longleftrightarrow> bt_ordered (mg_matches s) \<and> bt_ordered (mg_positions s) \<and> bt_ordered (mg_transactions s) \<and>
     (\<forall>i m. map_of (mg_matches s) i = Some m \<longleftrightarrow> mt_index m = i \<and> (\<exists>tx. (m, tx) \<in> U)) \<and>
     (\<forall>h i. map_of (mg_positions s) h = Some i \<longleftrightarrow> (\<exists>m tx. (m, tx) \<in> U \<and> mt_hash m = h \<and> mt_index m = i)) \<and>
     (\<forall>h tx. map_of (mg_transactions s) h = Some tx \<longleftrightarrow> (\<exists>m. (m, tx) \<in> U \<and> mt_hash m = h))"

lemma agree_refl: "agree x x" and agree_sym: "agree x y \<Longrightarrow> agree y x"
  by (auto simp: agree_def)

lemma consistent_insert: "consistent U \<Longrightarrow> consistent (insert x U) \<longleftrightarrow> (\<forall>y \<in> U. agree x y)"
  unfolding consistent_def using agree_refl agree_sym by blast

lemma consistent_mono: "consistent U \<Longrightarrow> V \<subseteq> U \<Longrightarrow> consistent V"
  unfolding consistent_def by blast

lemma case_option_ex: "(case x of None \<Rightarrow> False | Some y \<Rightarrow> P y) \<longleftrightarrow> (\<exists>y. x = Some y \<and> P y)"
  by (cases x) auto

lemma merge_okD:
  assumes "merge_ok s U"
  shows "map_of (mg_matches s) i = Some m \<longleftrightarrow> mt_index m = i \<and> (\<exists>tx. (m, tx) \<in> U)"
    "map_of (mg_positions s) h = Some i \<longleftrightarrow> (\<exists>m tx. (m, tx) \<in> U \<and> mt_hash m = h \<and> mt_index m = i)"
    "map_of (mg_transactions s) h = Some tx \<longleftrightarrow> (\<exists>m. (m, tx) \<in> U \<and> mt_hash m = h)"
  using assms unfolding merge_ok_def by blast+

lemma merge_conflict:
  assumes "merge_ok s U" and "consistent U"
  shows "((case map_of (mg_positions s) (mt_hash m) of None \<Rightarrow> False | Some position \<Rightarrow> position \<noteq> mt_index m) \<or>
     (case map_of (mg_matches s) (mt_index m) of None \<Rightarrow> False | Some existing \<Rightarrow> mt_hash existing \<noteq> mt_hash m) \<or>
     (case map_of (mg_transactions s) (mt_hash m) of None \<Rightarrow> False | Some existing \<Rightarrow> existing \<noteq> tx)) \<longleftrightarrow>
    \<not> consistent (insert (m, tx) U)" (is "?l \<longleftrightarrow> _")
proof -
  have "?l \<longleftrightarrow> (\<exists>m' tx'. (m', tx') \<in> U \<and> mt_hash m' = mt_hash m \<and> mt_index m' \<noteq> mt_index m) \<or>
      (\<exists>m' tx'. (m', tx') \<in> U \<and> mt_index m' = mt_index m \<and> mt_hash m' \<noteq> mt_hash m) \<or>
      (\<exists>m' tx'. (m', tx') \<in> U \<and> mt_hash m' = mt_hash m \<and> tx' \<noteq> tx)"
    unfolding case_option_ex merge_okD [OF assms(1)] by blast
  also have "\<dots> \<longleftrightarrow> (\<exists>m' tx'. (m', tx') \<in> U \<and> \<not> agree (m, tx) (m', tx'))"
    unfolding ex_disj_distrib [symmetric] by (intro arg_cong [where f = Ex] ext) (auto simp: agree_def)
  finally have "?l \<longleftrightarrow> (\<exists>y \<in> U. \<not> agree (m, tx) y)" by (simp add: Bex_def)
  then show ?thesis unfolding consistent_insert [OF assms(2)] by blast
qed

lemma match_eqI: "mt_hash m = mt_hash m' \<Longrightarrow> mt_index m = mt_index m' \<Longrightarrow> m = (m' :: matched_transaction)"
  by simp

lemma merge_ok_insert:
  assumes "merge_ok s U" and "consistent (insert (m, tx) U)"
  shows "merge_ok \<lparr>mg_matches = bt_insert (mt_index m) m (mg_matches s), mg_positions = bt_insert (mt_hash m) (mt_index m) (mg_positions s),
      mg_transactions = bt_insert (mt_hash m) tx (mg_transactions s)\<rparr> (insert (m, tx) U)"
proof -
  have a: "mt_hash m' = mt_hash m \<longleftrightarrow> mt_index m' = mt_index m" "mt_hash m' = mt_hash m \<Longrightarrow> tx' = tx" if "(m', tx') \<in> U" for m' tx'
  proof -
    have "agree (m', tx') (m, tx)" using assms(2) that by (simp add: consistent_def)
    then show "mt_hash m' = mt_hash m \<longleftrightarrow> mt_index m' = mt_index m" "mt_hash m' = mt_hash m \<Longrightarrow> tx' = tx"
      unfolding agree_def fst_conv snd_conv by blast+
  qed
  have m: "m' = m" if "(m', tx') \<in> U" "mt_index m' = mt_index m" for m' tx' using a(1) [OF that(1)] that(2) by (intro match_eqI) blast+
  have o: "bt_ordered (mg_matches s)" "bt_ordered (mg_positions s)" "bt_ordered (mg_transactions s)"
    using assms(1) by (simp_all add: merge_ok_def)
  have "((map_of (mg_matches s))(mt_index m \<mapsto> m)) i = Some m' \<longleftrightarrow> mt_index m' = i \<and> (\<exists>tx'. (m', tx') \<in> insert (m, tx) U)" for i m'
    using m by (cases "i = mt_index m") (auto simp: merge_okD [OF assms(1)])
  moreover have "((map_of (mg_positions s))(mt_hash m \<mapsto> mt_index m)) h = Some i \<longleftrightarrow>
      (\<exists>m' tx'. (m', tx') \<in> insert (m, tx) U \<and> mt_hash m' = h \<and> mt_index m' = i)" for h i
  proof (cases "h = mt_hash m")
    case True
    have "mt_index m' = mt_index m" if "(m', tx') \<in> U" "mt_hash m' = mt_hash m" for m' tx' using a(1) that by blast
    then show ?thesis using True by auto
  qed (auto simp: merge_okD [OF assms(1)])
  moreover have "((map_of (mg_transactions s))(mt_hash m \<mapsto> tx)) h = Some tx' \<longleftrightarrow>
      (\<exists>m'. (m', tx') \<in> insert (m, tx) U \<and> mt_hash m' = h)" for h tx'
    using a(2) by (cases "h = mt_hash m") (auto simp: merge_okD [OF assms(1)])
  ultimately show ?thesis using o unfolding merge_ok_def by (simp add: bt_insert_ordered bt_insert_lookup)
qed

lemma index_transactions_zip:
  assumes "bt_ordered bt" and "map txh txs = map Inr hs" and "distinct hs" and "\<forall>h \<in> set hs. map_of bt h = None"
  shows "\<exists>bt'. index_transactions txh txs bt = Inr bt' \<and> bt_ordered bt' \<and> map_of bt' = map_of bt ++ map_of (zip hs txs)"
  using assms
proof (induction txs arbitrary: hs bt)
  case (Cons tx txs)
  then obtain h hs' where hs: "hs = h # hs'" "txh tx = Inr h" "map txh txs = map Inr hs'" by (cases hs) auto
  have "\<forall>h' \<in> set hs'. map_of (bt_insert h tx bt) h' = None" using Cons.prems hs by (auto simp: bt_insert_lookup)
  moreover have "distinct hs'" using Cons.prems(3) hs(1) by simp
  ultimately obtain bt' where
      bt': "index_transactions txh txs (bt_insert h tx bt) = Inr bt'" "bt_ordered bt'"
        "map_of bt' = (map_of bt)(h \<mapsto> tx) ++ map_of (zip hs' txs)"
    using Cons.IH [OF bt_insert_ordered [OF Cons.prems(1)] hs(3)] unfolding bt_insert_lookup [OF Cons.prems(1)] by blast
  have "map_of (zip hs' txs) h = None" using Cons.prems(3) hs(1) by (auto simp: map_of_eq_None_iff dest: set_zip_leftD)
  with bt' Cons.prems(4) hs show ?case by (auto simp: fun_eq_iff map_add_def split: option.splits)
qed auto

lemma merge_matches_exact:
  assumes "bt_ordered bt" and "map_of bt = map_of (zip (map mt_hash ms) txs)" and "length ms = length txs"
    and "distinct (map mt_hash ms)" and "merge_ok s U" and "consistent U"
  shows "if consistent (U \<union> set (zip ms txs))
    then \<exists>s'. merge_matches ms bt s = (Inr ([], s') :: ('x wallet_evidence_error, _) result) \<and> merge_ok s' (U \<union> set (zip ms txs))
    else merge_matches ms bt s = (Inl PeerViewConflict :: ('x wallet_evidence_error, _) result)"
  using assms
proof (induction ms arbitrary: txs bt s U)
  case Nil
  then have "bt = []" by simp
  with Nil show ?case by simp
next
  case (Cons m ms)
  then obtain tx txs' where txs: "txs = tx # txs'" by (cases txs) auto
  have h: "map_of bt (mt_hash m) = Some tx" using Cons.prems(2) txs by simp
  have n: "map_of (zip (map mt_hash ms) txs') (mt_hash m) = None"
    using Cons.prems(4) by (auto simp: map_of_eq_None_iff dest!: set_zip_leftD)
  have bt': "map_of (bt_remove (mt_hash m) bt) = map_of (zip (map mt_hash ms) txs')"
    using Cons.prems(2) txs n by (auto simp: bt_remove_lookup fun_eq_iff)
  have U: "U \<union> set (zip (m # ms) txs) = insert (m, tx) U \<union> set (zip ms txs')" using txs by auto
  show ?case
  proof (cases "consistent (insert (m, tx) U)")
    case True
    let ?s = "\<lparr>mg_matches = bt_insert (mt_index m) m (mg_matches s), mg_positions = bt_insert (mt_hash m) (mt_index m) (mg_positions s),
      mg_transactions = bt_insert (mt_hash m) tx (mg_transactions s)\<rparr>"
    have "merge_matches (m # ms) bt s = (merge_matches ms (bt_remove (mt_hash m) bt) ?s :: ('x wallet_evidence_error, _) result)"
      using h merge_conflict [OF Cons.prems(5,6), of m tx] True by (simp add: Let_def)
    moreover have "length ms = length txs'" "distinct (map mt_hash ms)" using Cons.prems(3,4) txs by simp_all
    ultimately show ?thesis unfolding U
      using Cons.IH [OF bt_remove_ordered [OF Cons.prems(1)] bt' _ _ merge_ok_insert [OF Cons.prems(5) True] True] by presburger
  next
    case False
    then have "\<not> consistent (insert (m, tx) U \<union> set (zip ms txs'))" using consistent_mono by blast
    then show ?thesis using h merge_conflict [OF Cons.prems(5,6), of m tx] False unfolding U by (simp add: Let_def)
  qed
qed

lemma merge_blocks_exact:
  fixes txh :: "'tx \<Rightarrow> ('x, hash) result"
  assumes "\<forall>b \<in> set bs. verified txh b \<and> we_header (vb_evidence b) = header \<and> we_total_transactions (vb_evidence b) = total_txs"
    and "merge_ok s U" and "consistent U"
  shows "if consistent (U \<union> (\<Union>b \<in> set bs. view_of b))
    then \<exists>s'. merge_blocks txh header total_txs bs s = Inr s' \<and> merge_ok s' (U \<union> (\<Union>b \<in> set bs. view_of b))
    else merge_blocks txh header total_txs bs s = Inl PeerViewConflict"
  using assms
proof (induction bs arbitrary: s U)
  case (Cons b bs)
  let ?ms = "we_matches (vb_evidence b)" and ?txs = "vb_transactions b"
  have v: "good_matches ?ms" "map txh ?txs = map Inr (map mt_hash ?ms)" using Cons.prems(1) by (simp_all add: verified_def)
  then have len: "length ?ms = length ?txs" by (metis length_map)
  have d: "distinct (map mt_hash ?ms)" using v(1) by (simp add: good_matches_def)
  obtain bt where bt: "index_transactions txh ?txs [] = Inr bt" "bt_ordered bt" "map_of bt = map_of (zip (map mt_hash ?ms) ?txs)"
    using index_transactions_zip [OF _ v(2) d, of "[]"] by (auto simp: bt_ordered_def)
  note step = merge_matches_exact [OF bt(2,3) len d Cons.prems(2,3), where 'x = 'x]
  have U: "U \<union> (\<Union>b \<in> set (b # bs). view_of b) = (U \<union> set (zip ?ms ?txs)) \<union> (\<Union>b \<in> set bs. view_of b)"
    by (auto simp: view_of_def)
  show ?case
  proof (cases "consistent (U \<union> set (zip ?ms ?txs))")
    case True
    with step obtain s' where s': "merge_matches ?ms bt s = (Inr ([], s') :: ('x wallet_evidence_error, _) result)" "merge_ok s' (U \<union> set (zip ?ms ?txs))" by auto
    have eq: "merge_blocks txh header total_txs (b # bs) s = merge_blocks txh header total_txs bs s'"
      using Cons.prems(1) len bt(1) s'(1) by simp
    have "\<forall>b \<in> set bs. verified txh b \<and> we_header (vb_evidence b) = header \<and> we_total_transactions (vb_evidence b) = total_txs"
      using Cons.prems(1) by simp
    then show ?thesis unfolding U eq by (rule Cons.IH [OF _ s'(2) True])
  next
    case False
    then have "\<not> consistent (U \<union> set (zip ?ms ?txs) \<union> (\<Union>b \<in> set bs. view_of b))" using consistent_mono by blast
    moreover have "merge_matches ?ms bt s = (Inl PeerViewConflict :: ('x wallet_evidence_error, _) result)" using step False by simp
    ultimately show ?thesis unfolding U using Cons.prems(1) len bt(1) by simp
  qed
qed simp

lemma merged_transactions_exact:
  assumes "bt_ordered bt" and "distinct (map mt_hash ms)" and "dom (map_of bt) = mt_hash ` set ms"
  shows "merged_transactions ms bt =
    (Inr (map (\<lambda>m. the (map_of bt (mt_hash m))) ms, []) :: ('x wallet_evidence_error, _) result)"
  using assms
proof (induction ms arbitrary: bt)
  case (Cons m ms)
  have "mt_hash m \<in> dom (map_of bt)" using Cons.prems(3) by simp
  then obtain tx where tx: "map_of bt (mt_hash m) = Some tx" by blast
  have n: "mt_hash m \<notin> mt_hash ` set ms" using Cons.prems(2) by simp
  have "dom (map_of (bt_remove (mt_hash m) bt)) = mt_hash ` set ms"
    unfolding bt_remove_lookup using Cons.prems(3) n by simp
  then have "merged_transactions ms (bt_remove (mt_hash m) bt) =
      (Inr (map (\<lambda>m'. the (map_of (bt_remove (mt_hash m) bt) (mt_hash m'))) ms, []) :: ('x wallet_evidence_error, _) result)"
    using Cons.IH [OF bt_remove_ordered [OF Cons.prems(1)]] Cons.prems(2) by simp
  moreover have "map (\<lambda>m'. the (map_of (bt_remove (mt_hash m) bt) (mt_hash m'))) ms = map (\<lambda>m'. the (map_of bt (mt_hash m'))) ms"
    unfolding bt_remove_lookup using n by (intro map_cong refl) (metis fun_upd_other imageI)
  ultimately show ?case using tx by simp
qed simp

text \<open>The view determines a verified block up to its anchor and total.\<close>

lemma merge_ok_matches:
  assumes "merge_ok s U" and "consistent U"
  shows "good_matches (map snd (mg_matches s)) \<and> set (map snd (mg_matches s)) = fst ` U \<and>
    dom (map_of (mg_transactions s)) = mt_hash ` fst ` U"
proof -
  have o: "bt_ordered (mg_matches s)" using assms(1) by (simp add: merge_ok_def)
  have e: "(i, m) \<in> set (mg_matches s) \<longleftrightarrow> mt_index m = i \<and> (\<exists>tx. (m, tx) \<in> U)" for i m
    using bt.entries_lookup [OF o] merge_okD(1) [OF assms(1)] by simp
  have "map mt_index (map snd (mg_matches s)) = map fst (mg_matches s)" using e by auto
  then have s: "sorted_wrt (<) (map mt_index (map snd (mg_matches s)))" using o by (simp only: bt_ordered_def)
  have set: "set (map snd (mg_matches s)) = fst ` U" using e by force
  have "inj_on mt_hash (fst ` U)"
  proof (rule inj_onI)
    fix x y assume "x \<in> fst ` U" "y \<in> fst ` U" and h: "mt_hash x = mt_hash y"
    then obtain p q where pq: "p \<in> U" "q \<in> U" "x = fst p" "y = fst q" by blast
    then have "agree p q" using assms(2) unfolding consistent_def by blast
    with h pq have "mt_index x = mt_index y" unfolding agree_def by blast
    with h show "x = y" by (rule match_eqI)
  qed
  moreover have "distinct (map snd (mg_matches s))"
    using s by (metis distinct_map strict_sorted_iff)
  ultimately have "distinct (map mt_hash (map snd (mg_matches s)))" using set by (simp only: distinct_map)
  moreover have "dom (map_of (mg_transactions s)) = mt_hash ` fst ` U" using merge_okD(3) [OF assms(1)] by (force simp: dom_def)
  ultimately show ?thesis using s set by (simp add: good_matches_def)
qed

lemma verified_length: "verified txh b \<Longrightarrow> length (we_matches (vb_evidence b)) = length (vb_transactions b)"
  unfolding verified_def by (metis length_map)

definition block_index :: "'tx verified_wallet_block \<Rightarrow> (u32 \<times> matched_transaction \<times> 'tx) list" where
  "block_index b = map (\<lambda>p. (mt_index (fst p), p)) (zip (we_matches (vb_evidence b)) (vb_transactions b))"

lemma block_index_ordered:
  assumes "verified txh b"
  shows "bt_ordered (block_index b)"
proof -
  have "map fst (block_index b) = map mt_index (map fst (zip (we_matches (vb_evidence b)) (vb_transactions b)))"
    by (simp add: block_index_def comp_def)
  also have "\<dots> = map mt_index (we_matches (vb_evidence b))" using verified_length [OF assms] by simp
  finally show ?thesis using assms by (simp add: bt_ordered_def verified_def good_matches_def)
qed

lemma verified_unique:
  assumes "verified txh b" and "verified txh b'" and "view_of b = view_of b'"
    and "we_header (vb_evidence b) = we_header (vb_evidence b')"
    and "we_total_transactions (vb_evidence b) = we_total_transactions (vb_evidence b')"
  shows "b = b'"
proof -
  have "set (block_index b) = set (block_index b')" using assms(3) by (simp add: block_index_def view_of_def)
  then have "map_of (block_index b) i = Some p \<longleftrightarrow> map_of (block_index b') i = Some p" for i p
    using bt.entries_lookup [OF block_index_ordered [OF assms(1)], of i p] bt.entries_lookup [OF block_index_ordered [OF assms(2)], of i p]
    by simp
  then have "map_of (block_index b) = map_of (block_index b')" by (intro ext) (metis not_Some_eq)
  then have "block_index b' = block_index b"
    using block_index_ordered [OF assms(1)] by (intro bt.entries_eq [OF block_index_ordered [OF assms(2)]]) (simp_all add: bt_ordered_def)
  then have "map snd (block_index b) = map snd (block_index b')" by simp
  then have z: "zip (we_matches (vb_evidence b)) (vb_transactions b) = zip (we_matches (vb_evidence b')) (vb_transactions b')"
    by (simp add: block_index_def comp_def)
  have "we_matches (vb_evidence b) = we_matches (vb_evidence b')" "vb_transactions b = vb_transactions b'"
    using arg_cong [OF z, of "map fst"] arg_cong [OF z, of "map snd"] verified_length [OF assms(1)] verified_length [OF assms(2)] by simp_all
  with assms(4,5) show ?thesis by simp
qed

lemma merge_blocks_headers:
  "merge_blocks txh header total_txs bs s = Inr s' \<Longrightarrow>
   \<forall>b \<in> set bs. we_header (vb_evidence b) = header \<and> we_total_transactions (vb_evidence b) = total_txs"
proof (induction bs arbitrary: s)
  case (Cons b bs)
  from Cons.prems have "we_header (vb_evidence b) = header \<and> we_total_transactions (vb_evidence b) = total_txs"
    by (simp split: if_splits)
  moreover from Cons.prems obtain s1 where "merge_blocks txh header total_txs bs s1 = Inr s'"
    by (auto simp: result_inv split: if_splits)
  ultimately show ?case using Cons.IH by simp
qed simp

lemma zip_map_snd: "zip xs (map f xs) = map (\<lambda>x. (x, f x)) xs"
  by (induction xs) simp_all

lemma merge_result:
  fixes txh :: "'tx \<Rightarrow> ('x, hash) result"
  assumes "merge_ok s U" and "consistent U" and txh: "\<And>m tx. (m, tx) \<in> U \<Longrightarrow> txh tx = Inr (mt_hash m)"
  shows "\<exists>txs. merged_transactions (map snd (mg_matches s)) (mg_transactions s) = (Inr (txs, []) :: ('x wallet_evidence_error, _) result) \<and>
    map txh txs = map (Inr \<circ> mt_hash) (map snd (mg_matches s)) \<and> set (zip (map snd (mg_matches s)) txs) = U"
proof -
  let ?ms = "map snd (mg_matches s)" and ?f = "\<lambda>m. the (map_of (mg_transactions s) (mt_hash m))"
  note m = merge_ok_matches [OF assms(1,2)]
  have o: "bt_ordered (mg_transactions s)" using assms(1) by (simp add: merge_ok_def)
  have f: "(m, ?f m) \<in> U \<and> (\<forall>tx. (m, tx) \<in> U \<longrightarrow> tx = ?f m)" if "m \<in> fst ` U" for m
  proof -
    have "map_of (mg_transactions s) (mt_hash m) = Some tx" if "(m, tx) \<in> U" for tx using that merge_okD(3) [OF assms(1)] by blast
    with that show ?thesis by auto
  qed
  have "merged_transactions ?ms (mg_transactions s) = (Inr (map ?f ?ms, []) :: ('x wallet_evidence_error, _) result)"
    using m by (intro merged_transactions_exact [OF o]) (simp_all add: good_matches_def image_image)
  moreover have "txh (?f m) = Inr (mt_hash m)" if "m \<in> set ?ms" for m using that m f txh by blast
  then have "map txh (map ?f ?ms) = map (Inr \<circ> mt_hash) ?ms" by simp
  moreover have "set (zip ?ms (map ?f ?ms)) = (\<lambda>m. (m, ?f m)) ` fst ` U" unfolding zip_map_snd using m by (simp only: set_map)
  moreover have "(\<lambda>m. (m, ?f m)) ` fst ` U = U" using f by force
  ultimately show ?thesis by blast
qed

lemma view_hashes:
  assumes "verified txh b" and "(m, tx) \<in> view_of b"
  shows "txh tx = Inr (mt_hash m)"
proof -
  obtain i where i: "i < length (vb_transactions b)" "m = we_matches (vb_evidence b) ! i" "tx = vb_transactions b ! i"
    using assms(2) by (auto simp: view_of_def set_zip)
  have "map txh (vb_transactions b) ! i = map (Inr \<circ> mt_hash) (we_matches (vb_evidence b)) ! i"
    using assms(1) by (simp add: verified_def)
  with i verified_length [OF assms(1)] show ?thesis by simp
qed

lemma merge_peer_views_agreeing:
  fixes txh :: "'tx \<Rightarrow> ('x, hash) result"
  assumes ne: "blocks \<noteq> []" and b: "\<forall>b \<in> set blocks. verified txh b \<and> we_header (vb_evidence b) = header \<and>
      we_total_transactions (vb_evidence b) = total_txs"
  shows "if consistent (\<Union>b \<in> set blocks. view_of b)
    then \<exists>vb. merge_peer_views txh blocks = Inr vb \<and> verified txh vb \<and> view_of vb = (\<Union>b \<in> set blocks. view_of b) \<and>
      we_header (vb_evidence vb) = header \<and> we_total_transactions (vb_evidence vb) = total_txs
    else merge_peer_views txh blocks = Inl PeerViewConflict"
proof -
  let ?s = "\<lparr>mg_matches = [], mg_positions = [], mg_transactions = []\<rparr> :: 'tx merge_state" and ?U = "\<Union>b \<in> set blocks. view_of b"
  have "merge_ok ?s {}" "consistent ({} :: (matched_transaction \<times> 'tx) set)" by (simp_all add: merge_ok_def consistent_def bt_ordered_def)
  note r = merge_blocks_exact [OF b this, simplified]
  obtain c cs where c: "blocks = c # cs" using ne by (cases blocks) auto
  then have h: "we_header (vb_evidence c) = header" "we_total_transactions (vb_evidence c) = total_txs" using b by simp_all
  show ?thesis
  proof (cases "consistent ?U")
    case True
    with r obtain s where s: "merge_blocks txh header total_txs blocks ?s = Inr s" "merge_ok s ?U" by auto
    have "txh tx = Inr (mt_hash m)" if u: "(m, tx) \<in> ?U" for m tx
    proof -
      obtain b' where "b' \<in> set blocks" "(m, tx) \<in> view_of b'" using u by blast
      with b show ?thesis by (intro view_hashes [of txh b']) simp_all
    qed
    from merge_result [OF s(2) True this] obtain txs where
        "merged_transactions (map snd (mg_matches s)) (mg_transactions s) = (Inr (txs, []) :: ('x wallet_evidence_error, _) result) \<and>
        map txh txs = map (Inr \<circ> mt_hash) (map snd (mg_matches s)) \<and> set (zip (map snd (mg_matches s)) txs) = ?U" by (rule exE)
    with True s merge_ok_matches [OF s(2) True] h show ?thesis
      by (simp add: merge_peer_views_def c Let_def verified_def view_of_def)
  next
    case False
    with r h show ?thesis by (simp add: merge_peer_views_def c Let_def)
  qed
qed

section \<open>What collecting and merging return\<close>

lemma collector_delivers:
  fixes txh :: "'tx \<Rightarrow> ('x, hash) result"
  assumes "good_matches (we_matches ev)"
  shows "\<exists>c. (evidence_collect ev :: ('x wallet_evidence_error, _) result) = Inr c \<and>
    (collector_finish (collect_run txh c txs) :: ('x wallet_evidence_error, _) result) =
      (if \<forall>m \<in> set (we_matches ev). \<exists>tx \<in> set txs. txh tx = Inr (mt_hash m)
       then Inr \<lparr>vb_evidence = ev, vb_transactions = map (\<lambda>m. the (find (\<lambda>tx. txh tx = Inr (mt_hash m)) txs)) (we_matches ev)\<rparr>
       else Inl MissingTransactions)"
proof -
  obtain c :: "'tx filtered_block_collector" where c: "collector_new ev = (Inr c :: ('x wallet_evidence_error, _) result)"
      "collecting ev (\<lambda>_. None) c" using collector_new_collecting [OF assms] by blast
  have "first_with txh txs h \<noteq> None \<longleftrightarrow> (\<exists>tx \<in> set txs. txh tx = Inr h)" for h
    by (simp add: first_with_def find_None_iff Bex_def)
  with collecting_finish [OF collect_run_collecting [OF c(2) assms, of txh txs] assms] c(1) show ?thesis
    by (simp add: evidence_collect_def first_with_def cong: if_cong)
qed

lemma merge_is_union:
  fixes txh :: "'tx \<Rightarrow> ('x, hash) result"
  assumes "blocks \<noteq> []" and "\<forall>b \<in> set blocks. verified txh b"
  shows "merge_peer_views txh blocks = Inr vb \<longleftrightarrow>
    (\<forall>b \<in> set blocks. we_header (vb_evidence b) = we_header (vb_evidence vb) \<and>
       we_total_transactions (vb_evidence b) = we_total_transactions (vb_evidence vb)) \<and>
    consistent (\<Union>b \<in> set blocks. view_of b) \<and> verified txh vb \<and> view_of vb = (\<Union>b \<in> set blocks. view_of b)" (is "?l \<longleftrightarrow> ?r")
proof
  assume ?l
  obtain c cs where c: "blocks = c # cs" using assms(1) by (cases blocks) auto
  define header total_txs where h: "header = we_header (vb_evidence c)" "total_txs = we_total_transactions (vb_evidence c)"
  from \<open>?l\<close> obtain s where "merge_blocks txh header total_txs blocks \<lparr>mg_matches = [], mg_positions = [], mg_transactions = []\<rparr> = Inr s"
    by (auto simp: merge_peer_views_def c h Let_def result_inv simp del: merge_blocks.simps)
  from merge_blocks_headers [OF this] assms(2)
  have "\<forall>b \<in> set blocks. verified txh b \<and> we_header (vb_evidence b) = header \<and> we_total_transactions (vb_evidence b) = total_txs" by blast
  with merge_peer_views_agreeing [OF assms(1) this] \<open>?l\<close> show ?r by (auto split: if_splits)
next
  assume r: ?r
  then have "\<forall>b \<in> set blocks. verified txh b \<and> we_header (vb_evidence b) = we_header (vb_evidence vb) \<and>
      we_total_transactions (vb_evidence b) = we_total_transactions (vb_evidence vb)" using assms(2) by blast
  from merge_peer_views_agreeing [OF assms(1) this] r obtain vb' where vb': "merge_peer_views txh blocks = Inr vb'" "verified txh vb'"
      "view_of vb' = view_of vb" "we_header (vb_evidence vb') = we_header (vb_evidence vb)"
      "we_total_transactions (vb_evidence vb') = we_total_transactions (vb_evidence vb)" by auto
  with r verified_unique [of txh vb' vb] show ?l by blast
qed

section \<open>From payloads to wallet blocks\<close>

lemma decode_good_matches:
  assumes "decoder_laws D view" and "var_decoder_laws D view" and "decode_for_anchor D C K H input anchor = Inr ev"
  shows "good_matches (we_matches ev) \<and> we_header ev = anchor"
proof -
  obtain t where t: "we_header ev = anchor" "block_tree (unat (we_total_transactions ev)) t" "0 < unat (we_total_transactions ev)"
      "we_matches ev = partial_matches 0 t"
    by (rule decode_for_anchor_tree [OF assms])
  with partial_matches_order [of "unat (we_total_transactions ev)" "levels (unat (we_total_transactions ev))" 0 t]
  show ?thesis by (simp add: block_tree_def good_matches_def root_width unat_u32)
qed

definition peer_view ::
  "('d, 'x) decoder_lib \<Rightarrow> ('h, 'w, 'x) consensus \<Rightarrow> ('h, 'x) header_codec \<Rightarrow> digest \<Rightarrow> ('tx \<Rightarrow> ('x, hash) result) \<Rightarrow>
   wallet_header_anchor \<Rightarrow> bytes \<Rightarrow> 'tx verified_wallet_block \<Rightarrow> bool" where
  "peer_view D C K H txh anchor input b \<longleftrightarrow> (\<exists>ev c txs. decode_for_anchor D C K H input anchor = Inr ev \<and>
     (evidence_collect ev :: ('x wallet_evidence_error, _) result) = Inr c \<and>
     (collector_finish (collect_run txh c txs) :: ('x wallet_evidence_error, _) result) = Inr b)"

lemma peer_view_verified:
  fixes C :: "('h, 'w, 'x) consensus"
  assumes "decoder_laws D view" and "var_decoder_laws D view" and "peer_view D C K H txh anchor input b"
  shows "verified txh b \<and> decode_for_anchor D C K H input anchor = Inr (vb_evidence b)"
proof -
  from assms(3) obtain ev c txs where d: "decode_for_anchor D C K H input anchor = Inr ev"
      and c: "(evidence_collect ev :: ('x wallet_evidence_error, _) result) = Inr c"
        "(collector_finish (collect_run txh c txs) :: ('x wallet_evidence_error, _) result) = Inr b"
    unfolding peer_view_def by blast
  have g: "good_matches (we_matches ev)" using decode_good_matches [OF assms(1,2) d] by simp
  from collector_delivers [OF g, of txh txs] c have a: "\<forall>m \<in> set (we_matches ev). \<exists>tx \<in> set txs. txh tx = Inr (mt_hash m)"
      and b: "b = \<lparr>vb_evidence = ev, vb_transactions = map (\<lambda>m. the (find (\<lambda>tx. txh tx = Inr (mt_hash m)) txs)) (we_matches ev)\<rparr>"
    by (auto split: if_splits)
  have "txh (the (find (\<lambda>tx. txh tx = Inr h) txs)) = Inr h" if "\<exists>tx \<in> set txs. txh tx = Inr h" for h
  proof (cases "find (\<lambda>tx. txh tx = Inr h) txs")
    case None
    with that show ?thesis by (auto simp only: find_None_iff)
  next
    case (Some tx)
    then have "txh tx = Inr h" by (auto simp only: find_Some_iff)
    with Some show ?thesis by simp
  qed
  with a g b d show ?thesis by (simp add: verified_def)
qed

section \<open>An example\<close>

definition toy_txh :: "hash \<Rightarrow> (unit, hash) result" where
  "toy_txh tx = Inr tx"

definition toy_evidence :: wallet_block_evidence where
  "toy_evidence = \<lparr>we_header = toy_anchor, we_total_transactions = 1, we_matches = [\<lparr>mt_hash = toy_transaction, mt_index = 0\<rparr>]\<rparr>"

definition toy_block :: "hash verified_wallet_block" where
  "toy_block = \<lparr>vb_evidence = toy_evidence, vb_transactions = [toy_transaction]\<rparr>"

lemma toy_good: "good_matches (we_matches toy_evidence)"
  by (simp add: good_matches_def toy_evidence_def)

lemma toy_verified: "verified toy_txh toy_block"
  using toy_good by (simp add: verified_def toy_block_def toy_evidence_def toy_txh_def)

lemma toy_view: "peer_view list_decoder toy_consensus toy_codec toy_hash toy_txh toy_anchor toy_payload toy_block"
  using collector_delivers [OF toy_good, of toy_txh "[toy_transaction]"] toy_decoded
  unfolding peer_view_def toy_evidence_def [symmetric]
  by (fastforce simp: toy_block_def toy_evidence_def toy_txh_def)

lemma toy_consistent: "consistent (view_of toy_block)"
  by (simp add: consistent_def agree_def view_of_def toy_block_def toy_evidence_def)

lemma toy_merged: "merge_peer_views toy_txh [toy_block, toy_block] = Inr toy_block"
  using merge_is_union [of "[toy_block, toy_block]" toy_txh toy_block] toy_verified toy_consistent by simp

section \<open>Properties\<close>

text \<open>C12: What a wallet learns of a block is what the block's header commits.  When payloads of any number of peers are
  decoded for one anchor, their transactions collected and the views merged, the merged block has the
  anchor, its indices are strictly increasing and its transactions hash, one by one, to the transactions of
  the committed block at these indices; nothing that one of the peers proved is lost.\<close>

theorem wallet_block_sound:
  fixes C :: "('h, 'w, 'x) consensus" and txh :: "'tx \<Rightarrow> ('x, hash) result"
  assumes D: "decoder_laws D view" "var_decoder_laws D view" and v: "list_all2 (peer_view D C K H txh anchor) inputs blocks"
    and m: "merge_peer_views txh blocks = Inr vb" and root: "wa_merkle_root anchor = block_root H txs" "txs \<noteq> []"
    and len: "\<forall>x. length (H x) = 32"
    and inj: "\<forall>input \<in> set inputs. inj_on H (block_inputs H txs \<union> evidence_inputs C K H input anchor)"
  shows "we_header (vb_evidence vb) = anchor \<and> sorted_wrt (<) (map mt_index (we_matches (vb_evidence vb))) \<and>
    map txh (vb_transactions vb) = map (\<lambda>m. Inr (txs ! unat (mt_index m))) (we_matches (vb_evidence vb)) \<and>
    (\<forall>m \<in> set (we_matches (vb_evidence vb)). unat (mt_index m) < length txs) \<and>
    (\<Union>b \<in> set blocks. set (zip (we_matches (vb_evidence b)) (vb_transactions b))) \<subseteq>
      set (zip (we_matches (vb_evidence vb)) (vb_transactions vb))"
proof -
  have b: "verified txh b \<and> we_header (vb_evidence b) = anchor \<and>
      (\<forall>m \<in> set (we_matches (vb_evidence b)). unat (mt_index m) < length txs \<and> mt_hash m = txs ! unat (mt_index m))" if "b \<in> set blocks" for b
  proof -
    from that obtain i where "i < length blocks" "b = blocks ! i" by (auto simp: in_set_conv_nth)
    with v have i: "inputs ! i \<in> set inputs" "peer_view D C K H txh anchor (inputs ! i) b"
      by (simp_all add: list_all2_lengthD list_all2_nthD2)
    note p = peer_view_verified [OF D i(2)]
    show ?thesis using p evidence_true [OF D _ root len, where C = C and K = K and input = "inputs ! i" and ev = "vb_evidence b"] inj i(1) by blast
  qed
  have ne: "blocks \<noteq> []" using m by (auto simp: merge_peer_views_def)
  then obtain b0 where "b0 \<in> set blocks" by (cases blocks) auto
  from merge_is_union [OF ne, of txh vb] b m have r: "\<forall>b \<in> set blocks. we_header (vb_evidence b) = we_header (vb_evidence vb)"
      "verified txh vb" "view_of vb = (\<Union>b \<in> set blocks. view_of b)" by blast+
  have "fst ` view_of b = set (we_matches (vb_evidence b))" if "verified txh b" for b
    using verified_length [OF that] by (metis image_set map_fst_zip view_of_def)
  with r b have "set (we_matches (vb_evidence vb)) = (\<Union>b \<in> set blocks. set (we_matches (vb_evidence b)))"
    by (metis (no_types, lifting) SUP_cong image_UN)
  with b have t: "\<forall>m \<in> set (we_matches (vb_evidence vb)). unat (mt_index m) < length txs \<and> mt_hash m = txs ! unat (mt_index m)" by blast
  then have "map txh (vb_transactions vb) = map (\<lambda>m. Inr (txs ! unat (mt_index m))) (we_matches (vb_evidence vb))"
    using r(2) by (simp add: verified_def)
  with r b t \<open>b0 \<in> set blocks\<close> show ?thesis by (auto simp: verified_def good_matches_def view_of_def)
qed

theorem wallet_block_sound_witness:
  "\<exists>vb. merge_peer_views toy_txh [toy_block, toy_block] = Inr vb \<and>
     map toy_txh (vb_transactions vb) = map (\<lambda>m. Inr ([toy_transaction] ! unat (mt_index m))) (we_matches (vb_evidence vb)) \<and>
     toy_transaction \<in> set (vb_transactions vb)"
proof -
  obtain vb where vb: "merge_peer_views toy_txh [toy_block, toy_block] = Inr vb" using toy_merged by blast
  have "list_all2 (peer_view list_decoder toy_consensus toy_codec toy_hash toy_txh toy_anchor)
      [toy_payload, toy_payload] [toy_block, toy_block]" using toy_view by simp
  from wallet_block_sound [OF list_decoder_laws list_var_decoder_laws this vb toy_root _ toy_hash_length] toy_injective
  have "map toy_txh (vb_transactions vb) = map (\<lambda>m. Inr ([toy_transaction] ! unat (mt_index m))) (we_matches (vb_evidence vb)) \<and>
      view_of toy_block \<subseteq> view_of vb" by (simp add: view_of_def)
  moreover have "(\<lparr>mt_hash = toy_transaction, mt_index = 0\<rparr>, toy_transaction) \<in> view_of toy_block"
    by (simp add: view_of_def toy_block_def toy_evidence_def)
  ultimately show ?thesis using vb by (auto simp: view_of_def dest: set_zip_rightD)
qed

text \<open>C37: The collector correlates exactly.  For evidence with distinct hashes in block order and every sequence of
  transaction packets, whatever their order, repetitions or foreign entries, finishing succeeds exactly when
  every proven match was delivered, and the block then holds the evidence and, in block order, the first
  delivered transaction for each match; otherwise it is refused as incomplete.\<close>

theorem collector_exact:
  fixes txh :: "'tx \<Rightarrow> ('x, hash) result"
  assumes "good_matches (we_matches ev)"
  shows "\<exists>c. (evidence_collect ev :: ('x wallet_evidence_error, _) result) = Inr c \<and>
    (collector_finish (collect_run txh c txs) :: ('x wallet_evidence_error, _) result) =
      (if \<forall>m \<in> set (we_matches ev). \<exists>tx \<in> set txs. txh tx = Inr (mt_hash m)
       then Inr \<lparr>vb_evidence = ev, vb_transactions = map (\<lambda>m. the (find (\<lambda>tx. txh tx = Inr (mt_hash m)) txs)) (we_matches ev)\<rparr>
       else Inl MissingTransactions)"
  using assms by (rule collector_delivers)

theorem collector_exact_witness:
  "\<exists>c. (evidence_collect toy_evidence :: (unit wallet_evidence_error, _) result) = Inr c \<and>
     (collector_finish (collect_run toy_txh c [hash_zero, toy_transaction, toy_transaction]) :: (unit wallet_evidence_error, _) result) =
       Inr toy_block"
  using collector_exact [OF toy_good, of toy_txh "[hash_zero, toy_transaction, toy_transaction]"]
  by (simp add: toy_block_def toy_evidence_def toy_txh_def hash_zero_def toy_transaction_def)

text \<open>C38: The union of peer views is exact.  For verified blocks, merging returns a block exactly when all views have
  its anchor and its total and no two of them disagree on the position, the hash or the bytes of a
  transaction; the returned block is then the verified one whose matches and transactions are those of all
  views together.\<close>

theorem merge_peer_views_exact:
  fixes txh :: "'tx \<Rightarrow> ('x, hash) result"
  assumes "blocks \<noteq> []" and "\<forall>b \<in> set blocks. verified txh b"
  shows "merge_peer_views txh blocks = Inr vb \<longleftrightarrow>
    (\<forall>b \<in> set blocks. we_header (vb_evidence b) = we_header (vb_evidence vb) \<and>
       we_total_transactions (vb_evidence b) = we_total_transactions (vb_evidence vb)) \<and>
    consistent (\<Union>b \<in> set blocks. view_of b) \<and> verified txh vb \<and> view_of vb = (\<Union>b \<in> set blocks. view_of b)" (is "?l \<longleftrightarrow> ?r")
  using assms by (rule merge_is_union)

theorem merge_peer_views_exact_witness:
  "merge_peer_views toy_txh [toy_block, toy_block] = Inr toy_block"
  using merge_peer_views_exact [of "[toy_block, toy_block]" toy_txh toy_block] toy_verified toy_consistent by simp

end
