(* ===== verification/Light_Sync.thy ===== *)
theory Light_Sync
  imports Light_Chain "HOL-Library.AList"
begin

text \<open>
  Header synchronisation with several peers (src/crates/hns-light-sync/src/lib.rs): the tracked peers with
  their failure scores, the rounds that put one locator to a set of peers, the validation of their answers on
  copies of the chain, the choice of the answer with the greatest work and the agreement it needs.

  A \<open>HashMap\<close> is an association list with distinct keys and a \<open>HashSet\<close> a distinct list.  The order in which
  the code visits them is unspecified, so an operation that iterates takes it as the argument \<open>it\<close>, which
  rearranges the keys.  The bound \<open>MAX_HEADERS\<close> of the external crate hns-p2p-wire is an argument.  A method
  with \<open>&mut self\<close> returns the state that it leaves behind; \<open>begin_round\<close> is \<open>None\<close> if the block locator of
  the chain does not return.
\<close>

section \<open>Configuration, peers and rounds\<close>

definition DEFAULT_MAX_PEERS :: usize where
  "DEFAULT_MAX_PEERS = 8"

definition DEFAULT_MINIMUM_PEER_AGREEMENT :: usize where
  "DEFAULT_MINIMUM_PEER_AGREEMENT = 2"

definition DEFAULT_ROUND_TIMEOUT_SECONDS :: u64 where
  "DEFAULT_ROUND_TIMEOUT_SECONDS = 20"

definition DEFAULT_MAX_PEER_FAILURES :: u32 where
  "DEFAULT_MAX_PEER_FAILURES = 3"

type_synonym peer_id = bytes

record sync_config =
  sc_max_peers :: usize
  sc_minimum_peer_agreement :: usize
  sc_round_timeout_seconds :: u64
  sc_max_peer_failures :: u32

definition default_sync_config :: sync_config where
  "default_sync_config =
     \<lparr>sc_max_peers = DEFAULT_MAX_PEERS, sc_minimum_peer_agreement = DEFAULT_MINIMUM_PEER_AGREEMENT,
      sc_round_timeout_seconds = DEFAULT_ROUND_TIMEOUT_SECONDS, sc_max_peer_failures = DEFAULT_MAX_PEER_FAILURES\<rparr>"

datatype (plugins only: code) 'x sync_error =
  SeChain "'x light_chain_error" | InvalidConfig | PeerLimit | DuplicatePeer | UnknownPeer | PeerBanned | InsufficientPeers
| RoundAlreadyActive | NoActiveRound | StaleRound | RoundExpired | PeerNotRequested | DuplicateResponse | HeaderResponseLimit
| RoundIncomplete | InsufficientResponses | NoValidCandidate | AmbiguousBestChain | InsufficientAgreement | NotCurrent
| SeGenerationExhausted | SeTimeOverflow

definition sync_config_validate :: "sync_config \<Rightarrow> ('x sync_error, sync_config) result" where
  "sync_config_validate c =
     (if sc_max_peers c = 0 \<or> sc_max_peers c > 64 \<or> sc_minimum_peer_agreement c = 0 \<or>
         sc_minimum_peer_agreement c > sc_max_peers c \<or> sc_round_timeout_seconds c = 0 \<or>
         sc_round_timeout_seconds c > 300 \<or> sc_max_peer_failures c = 0
      then Inl InvalidConfig else Inr c)"

datatype sync_state = HeaderSyncing | HeaderCurrent | SyncDegraded

record peer_record =
  pe_advertised_height :: u32
  pe_failures :: u32
  pe_successes :: u64
  pe_banned :: bool

record sync_peer_status =
  sp_id :: peer_id
  sp_advertised_height :: u32
  sp_failures :: u32
  sp_successes :: u64
  sp_banned :: bool

record locator_packet =
  lp_locator :: "hash list"
  lp_stop :: hash

record header_round_request =
  rq_generation :: u64
  rq_packet :: locator_packet
  rq_base_height :: u32
  rq_base_hash :: hash
  rq_deadline :: u64

record 'h sync_round =
  ro_request :: header_round_request
  ro_requested :: "peer_id list"
  ro_responses :: "(peer_id \<times> 'h list) list"

record 'w sync_status =
  ss_state :: sync_state
  ss_generation :: u64
  ss_tip :: "'w header_entry"
  ss_peers :: usize
  ss_active_peers :: usize
  ss_round_active :: bool

record ('h, 'w) header_round_outcome =
  oc_status :: "'w sync_status"
  oc_accepted_headers :: "'h list"

record ('h, 'w) header_sync =
  hs_config :: sync_config
  hs_chain :: "'w light_chain"
  hs_state :: sync_state
  hs_generation :: u64
  hs_peers :: "(peer_id \<times> peer_record) list"
  hs_round :: "'h sync_round option"

section \<open>Operations\<close>

subsection \<open>Construction and peers\<close>

definition sync_from_chain :: "'w light_chain \<Rightarrow> sync_config \<Rightarrow> ('x sync_error, ('h, 'w) header_sync) result" where
  "sync_from_chain chain config =
     rbind (sync_config_validate config) (\<lambda>config.
     Inr \<lparr>hs_config = config, hs_chain = chain, hs_state = HeaderSyncing, hs_generation = 1, hs_peers = [], hs_round = None\<rparr>)"

definition sync_from_genesis ::
  "('h, 'w, 'x) consensus \<Rightarrow> light_network \<Rightarrow> u64 \<Rightarrow> chain_limits \<Rightarrow> sync_config \<Rightarrow>
   ('x sync_error, ('h, 'w) header_sync) result" where
  "sync_from_genesis C network now limits config =
     rbind (sync_config_validate config) (\<lambda>config.
     rbind (map_err SeChain (from_genesis C network now limits)) (\<lambda>chain.
     Inr \<lparr>hs_config = config, hs_chain = chain, hs_state = HeaderSyncing, hs_generation = 1, hs_peers = [], hs_round = None\<rparr>))"

definition header_sync_status :: "('h, 'w) header_sync \<Rightarrow> 'w sync_status" where
  "header_sync_status s =
     \<lparr>ss_state = hs_state s, ss_generation = hs_generation s, ss_tip = lc_tip (hs_chain s), ss_peers = length (hs_peers s),
      ss_active_peers = length (filter (\<lambda>record. \<not> pe_banned record) (map snd (hs_peers s))),
      ss_round_active = (hs_round s \<noteq> None)\<rparr>"

definition add_peer ::
  "('h, 'w) header_sync \<Rightarrow> peer_id \<Rightarrow> u32 \<Rightarrow> ('h, 'w) header_sync \<times> ('x sync_error, unit) result" where
  "add_peer s peer advertised_height =
     (if map_of (hs_peers s) peer \<noteq> None then (s, Inl DuplicatePeer)
      else if length (hs_peers s) \<ge> sc_max_peers (hs_config s) then (s, Inl PeerLimit)
      else (s\<lparr>hs_peers := AList.update peer
              \<lparr>pe_advertised_height = advertised_height, pe_failures = 0, pe_successes = 0, pe_banned = False\<rparr> (hs_peers s)\<rparr>, Inr ()))"

definition remove_peer :: "('h, 'w) header_sync \<Rightarrow> peer_id \<Rightarrow> ('h, 'w) header_sync \<times> bool" where
  "remove_peer s peer =
     (let s' = (case hs_round s of
          None \<Rightarrow> s
        | Some r \<Rightarrow> s\<lparr>hs_round := Some (r\<lparr>ro_requested := removeAll peer (ro_requested r), ro_responses := AList.delete peer (ro_responses r)\<rparr>)\<rparr>)
      in (s'\<lparr>hs_peers := AList.delete peer (hs_peers s)\<rparr>, map_of (hs_peers s) peer \<noteq> None))"

definition update_peer_height ::
  "('h, 'w) header_sync \<Rightarrow> peer_id \<Rightarrow> u32 \<Rightarrow> ('h, 'w) header_sync \<times> ('x sync_error, unit) result" where
  "update_peer_height s peer advertised_height =
     (if map_of (hs_peers s) peer = None then (s, Inl UnknownPeer)
      else
        let s' = s\<lparr>hs_peers := AList.map_entry peer (\<lambda>record. record\<lparr>pe_advertised_height := advertised_height\<rparr>) (hs_peers s)\<rparr>
        in (if advertised_height > he_height (lc_tip (hs_chain s)) then s'\<lparr>hs_state := HeaderSyncing\<rparr> else s', Inr ()))"

subsection \<open>Rounds\<close>

fun check_requested :: "(peer_id \<times> peer_record) list \<Rightarrow> peer_id list \<Rightarrow> ('x sync_error, unit) result" where
  "check_requested peers [] = Inr ()"
| "check_requested peers (peer # ids) =
     rbind (ok_or UnknownPeer (map_of peers peer)) (\<lambda>record.
     if pe_banned record then Inl PeerBanned else check_requested peers ids)"

definition begin_round ::
  "('h, 'w, 'x) consensus \<Rightarrow> (peer_id list \<Rightarrow> peer_id list) \<Rightarrow> ('h, 'w) header_sync \<Rightarrow> peer_id list \<Rightarrow> u64 \<Rightarrow>
   (('h, 'w) header_sync \<times> ('x sync_error, header_round_request) result) option" where
  "begin_round C it s selected_peers now =
     (if hs_round s \<noteq> None then Some (s, Inl RoundAlreadyActive)
      else
        let requested = remdups selected_peers in
        if length requested \<noteq> length selected_peers \<or> length requested < sc_minimum_peer_agreement (hs_config s)
        then Some (s, Inl InsufficientPeers)
        else case rbind (check_requested (hs_peers s) (it requested)) (\<lambda>_.
                  rbind (ok_or SeGenerationExhausted (u64_checked_add (hs_generation s) 1)) (\<lambda>generation.
                  rbind (ok_or SeTimeOverflow (u64_checked_add now (sc_round_timeout_seconds (hs_config s)))) (\<lambda>deadline.
                  Inr (generation, deadline)))) of
               Inl e \<Rightarrow> Some (s, Inl e)
             | Inr (generation, deadline) \<Rightarrow>
                 (case locator C (hs_chain s) of
                    None \<Rightarrow> None
                  | Some l \<Rightarrow>
                      let tip = lc_tip (hs_chain s);
                          request = \<lparr>rq_generation = generation, rq_packet = \<lparr>lp_locator = l, lp_stop = hash_zero\<rparr>,
                                     rq_base_height = he_height tip, rq_base_hash = he_hash tip, rq_deadline = deadline\<rparr>
                      in Some (s\<lparr>hs_round := Some \<lparr>ro_request = request, ro_requested = requested, ro_responses = []\<rparr>,
                                 hs_generation := generation\<rparr>, Inr request)))"

definition abandon_uncommitted_round :: "('h, 'w) header_sync \<Rightarrow> ('h, 'w) header_sync \<times> bool" where
  "abandon_uncommitted_round s = (s\<lparr>hs_round := None\<rparr>, hs_round s \<noteq> None)"

definition submit_headers ::
  "usize \<Rightarrow> ('h, 'w) header_sync \<Rightarrow> u64 \<Rightarrow> peer_id \<Rightarrow> 'h list \<Rightarrow> u64 \<Rightarrow>
   ('h, 'w) header_sync \<times> ('x sync_error, unit) result" where
  "submit_headers max_headers s generation peer headers now =
     (case hs_round s of
        None \<Rightarrow> (s, Inl NoActiveRound)
      | Some r \<Rightarrow>
          if generation \<noteq> rq_generation (ro_request r) then (s, Inl StaleRound)
          else if now > rq_deadline (ro_request r) then (s, Inl RoundExpired)
          else if peer \<notin> set (ro_requested r) then (s, Inl PeerNotRequested)
          else if length headers > max_headers then (s, Inl HeaderResponseLimit)
          else if map_of (ro_responses r) peer \<noteq> None then (s, Inl DuplicateResponse)
          else (s\<lparr>hs_round := Some (r\<lparr>ro_responses := AList.update peer headers (ro_responses r)\<rparr>)\<rparr>, Inr ()))"

subsection \<open>Peer scores\<close>

definition record_failure :: "('h, 'w) header_sync \<Rightarrow> peer_id \<Rightarrow> ('h, 'w) header_sync" where
  "record_failure s peer =
     s\<lparr>hs_peers := AList.map_entry peer (\<lambda>record.
        let record = record\<lparr>pe_failures := u32_saturating_add (pe_failures record) 1\<rparr>
        in if pe_failures record \<ge> sc_max_peer_failures (hs_config s) then record\<lparr>pe_banned := True\<rparr> else record) (hs_peers s)\<rparr>"

definition record_success :: "('h, 'w) header_sync \<Rightarrow> peer_id \<Rightarrow> ('h, 'w) header_sync" where
  "record_success s peer =
     s\<lparr>hs_peers := AList.map_entry peer (\<lambda>record.
        record\<lparr>pe_successes := u64_saturating_add (pe_successes record) 1, pe_failures := u32_saturating_sub (pe_failures record) 1\<rparr>)
        (hs_peers s)\<rparr>"

subsection \<open>The end of a round\<close>

type_synonym ('h, 'w) round_candidate = "peer_id \<times> 'h list \<times> 'w light_chain"

definition iterate :: "(peer_id list \<Rightarrow> peer_id list) \<Rightarrow> (peer_id \<times> 'v) list \<Rightarrow> (peer_id \<times> 'v) list" where
  "iterate it m = map (\<lambda>p. (p, the (map_of m p))) (it (map fst m))"

definition validated_candidate :: "('h, 'w, 'x) consensus \<Rightarrow> 'w light_chain \<Rightarrow> 'h list \<Rightarrow> u64 \<Rightarrow> 'w light_chain option" where
  "validated_candidate C chain headers now =
     (if headers = [] then Some chain
      else case append_batch C chain headers now of (candidate, Inr _) \<Rightarrow> Some candidate | (_, Inl _) \<Rightarrow> None)"

fun candidate_loop ::
  "('h, 'w, 'x) consensus \<Rightarrow> u64 \<Rightarrow> (peer_id \<times> 'h list) list \<Rightarrow> ('h, 'w) header_sync \<Rightarrow>
   ('h, 'w) header_sync \<times> ('h, 'w) round_candidate list" where
  "candidate_loop C now [] s = (s, [])"
| "candidate_loop C now ((peer, headers) # responses) s =
     (case validated_candidate C (hs_chain s) headers now of
        Some candidate \<Rightarrow> (case candidate_loop C now responses s of (s', candidates) \<Rightarrow> (s', (peer, headers, candidate) # candidates))
      | None \<Rightarrow> candidate_loop C now responses (record_failure s peer))"

definition candidate_work :: "('h, 'w) round_candidate \<Rightarrow> 'w" where
  "candidate_work x = he_chainwork (lc_tip (snd (snd x)))"

definition candidate_hash :: "('h, 'w) round_candidate \<Rightarrow> hash" where
  "candidate_hash x = he_hash (lc_tip (snd (snd x)))"

definition maximum_work :: "('h, 'w :: linorder) round_candidate list \<Rightarrow> 'w option" where
  "maximum_work candidates =
     (case map candidate_work candidates of [] \<Rightarrow> None | w # ws \<Rightarrow> Some (foldl max w ws))"

definition select_best ::
  "usize \<Rightarrow> ('h, 'w :: linorder) round_candidate list \<Rightarrow> ('x sync_error, hash) result" where
  "select_best minimum candidates =
     rbind (ok_or NoValidCandidate (maximum_work candidates)) (\<lambda>maximum.
     let best_hashes = remdups (map candidate_hash (filter (\<lambda>x. candidate_work x = maximum) candidates)) in
     case best_hashes of
       [best_hash] \<Rightarrow>
         if length (filter (\<lambda>x. candidate_hash x = best_hash) candidates) < minimum then Inl InsufficientAgreement
         else Inr best_hash
     | _ \<Rightarrow> Inl AmbiguousBestChain)"

definition reports_current :: "('h, 'w) header_sync \<Rightarrow> ('h, 'w) round_candidate list \<Rightarrow> bool \<Rightarrow> bool \<Rightarrow> bool" where
  "reports_current s supporters unchanged all_requested_responded =
     (let tip_height = he_height (lc_tip (hs_chain s));
          no_extension_advertised = list_all (\<lambda>(_, record). pe_banned record \<or> pe_advertised_height record \<le> tip_height) (hs_peers s)
      in unchanged \<and> all_requested_responded \<and> no_extension_advertised \<and>
         list_all (\<lambda>(peer, headers, _). headers = [] \<and>
           (case map_of (hs_peers s) peer of None \<Rightarrow> False | Some record \<Rightarrow> pe_advertised_height record \<le> tip_height)) supporters)"

definition install_winner ::
  "('h, 'w) header_sync \<Rightarrow> ('h, 'w) round_candidate list \<Rightarrow> hash \<Rightarrow> bool \<Rightarrow>
   ('h, 'w) header_sync \<times> ('x sync_error, ('h, 'w) header_round_outcome) result" where
  "install_winner s candidates best_hash all_requested_responded =
     (case find (\<lambda>x. candidate_hash x = best_hash) candidates of
        None \<Rightarrow> (s, Inl NoValidCandidate)
      | Some (_, accepted_headers, winner) \<Rightarrow>
          let supporters = filter (\<lambda>x. candidate_hash x = best_hash) candidates;
              unchanged = (he_hash (lc_tip winner) = he_hash (lc_tip (hs_chain s)));
              s = foldl record_success s (map fst supporters);
              s = s\<lparr>hs_chain := winner\<rparr>;
              s = s\<lparr>hs_state :=
                if reports_current s supporters unchanged all_requested_responded then HeaderCurrent else HeaderSyncing\<rparr>
          in (s, Inr \<lparr>oc_status = header_sync_status s, oc_accepted_headers = accepted_headers\<rparr>))"

definition finish_round_with_headers ::
  "('h, 'w :: linorder, 'x) consensus \<Rightarrow> (peer_id list \<Rightarrow> peer_id list) \<Rightarrow> ('h, 'w) header_sync \<Rightarrow> u64 \<Rightarrow>
   ('h, 'w) header_sync \<times> ('x sync_error, ('h, 'w) header_round_outcome) result" where
  "finish_round_with_headers C it s now =
     (case hs_round s of
        None \<Rightarrow> (s, Inl NoActiveRound)
      | Some r \<Rightarrow>
          let s = s\<lparr>hs_round := None\<rparr> in
          if length (ro_responses r) < sc_minimum_peer_agreement (hs_config s) then
            if now \<le> rq_deadline (ro_request r) then (s\<lparr>hs_round := Some r\<rparr>, Inl RoundIncomplete)
            else (s\<lparr>hs_state := SyncDegraded\<rparr>, Inl InsufficientResponses)
          else if he_hash (lc_tip (hs_chain s)) \<noteq> rq_base_hash (ro_request r) \<or>
                  he_height (lc_tip (hs_chain s)) \<noteq> rq_base_height (ro_request r)
          then (s, Inl StaleRound)
          else
            let all_requested_responded = (length (ro_responses r) = length (ro_requested r)) in
            case candidate_loop C now (iterate it (ro_responses r)) s of (s, candidates) \<Rightarrow>
              case select_best (sc_minimum_peer_agreement (hs_config s)) candidates of
                Inl e \<Rightarrow> (s\<lparr>hs_state := SyncDegraded\<rparr>, Inl e)
              | Inr best_hash \<Rightarrow> install_winner s candidates best_hash all_requested_responded)"

definition finish_round ::
  "('h, 'w :: linorder, 'x) consensus \<Rightarrow> (peer_id list \<Rightarrow> peer_id list) \<Rightarrow> ('h, 'w) header_sync \<Rightarrow> u64 \<Rightarrow>
   ('h, 'w) header_sync \<times> ('x sync_error, 'w sync_status) result" where
  "finish_round C it s now =
     (case finish_round_with_headers C it s now of (s', r) \<Rightarrow> (s', rbind r (\<lambda>outcome. Inr (oc_status outcome))))"

subsection \<open>Reading the state\<close>

definition sync_require_current ::
  "('h, 'w :: linorder) header_sync \<Rightarrow> 'w currency_policy \<Rightarrow> ('x sync_error, 'w current_chain) result" where
  "sync_require_current s policy =
     (if hs_state s \<noteq> HeaderCurrent then Inl NotCurrent else map_err SeChain (require_current (hs_chain s) policy))"

definition peer_statuses :: "(peer_id list \<Rightarrow> peer_id list) \<Rightarrow> ('h, 'w) header_sync \<Rightarrow> sync_peer_status list" where
  "peer_statuses it s =
     map (\<lambda>(peer, record). \<lparr>sp_id = peer, sp_advertised_height = pe_advertised_height record, sp_failures = pe_failures record,
            sp_successes = pe_successes record, sp_banned = pe_banned record\<rparr>) (iterate it (hs_peers s))"

end
