(* ===== verification/Light_Sync_Laws.thy ===== *)
theory Light_Sync_Laws
  imports Light_Sync Light_Chain_Laws "HOL-Library.Multiset"
begin

text \<open>
  Correctness of header synchronisation: what a round accepts is decided by the set of answers alone, the
  accepted chain is the valid one of greatest work with the required number of supporters, scores and bans
  stay consistent, and the state in which current-chain evidence is issued rests on a round in which every
  requested peer answered and none of them showed an extension.
\<close>

section \<open>Unspecified iteration orders\<close>

definition iteration_order :: "(peer_id list \<Rightarrow> peer_id list) \<Rightarrow> bool" where
  "iteration_order it \<longleftrightarrow> (\<forall>ps. mset (it ps) = mset ps)"

lemma mset_iterate:
  assumes "iteration_order it" and "distinct (map fst m)"
  shows "mset (iterate it m) = mset m"
proof -
  have "mset (iterate it m) = image_mset (\<lambda>p. (p, the (map_of m p))) (mset (it (map fst m)))"
    by (simp add: iterate_def)
  also have "\<dots> = mset (map (\<lambda>x. (fst x, the (map_of m (fst x)))) m)"
    using assms(1) by (simp add: iteration_order_def multiset.map_comp comp_def)
  also have "map (\<lambda>x. (fst x, the (map_of m (fst x)))) m = m"
    using assms(2) by (intro map_idI) auto
  finally show ?thesis .
qed

lemma set_iterate: "iteration_order it \<Longrightarrow> distinct (map fst m) \<Longrightarrow> set (iterate it m) = set m"
  by (metis mset_iterate set_mset_mset)

lemma distinct_iterate: "iteration_order it \<Longrightarrow> distinct (map fst m) \<Longrightarrow> distinct (map fst (iterate it m))"
  by (simp add: iterate_def comp_def iteration_order_def) (metis distinct_map mset_eq_imp_distinct_iff)

section \<open>Candidates\<close>

definition candidates_of ::
  "('h, 'w, 'x) consensus \<Rightarrow> 'w light_chain \<Rightarrow> u64 \<Rightarrow> (peer_id \<times> 'h list) list \<Rightarrow> ('h, 'w) round_candidate list" where
  "candidates_of C chain now rs =
     List.map_filter (\<lambda>(p, hs). map_option (\<lambda>c. (p, hs, c)) (validated_candidate C chain hs now)) rs"

definition refused_peers ::
  "('h, 'w, 'x) consensus \<Rightarrow> 'w light_chain \<Rightarrow> u64 \<Rightarrow> (peer_id \<times> 'h list) list \<Rightarrow> peer_id list" where
  "refused_peers C chain now rs = map fst (filter (\<lambda>(p, hs). validated_candidate C chain hs now = None) rs)"

lemma record_fields [simp]:
  "hs_chain (record_failure s p) = hs_chain s" "hs_config (record_failure s p) = hs_config s"
  "hs_state (record_failure s p) = hs_state s" "hs_generation (record_failure s p) = hs_generation s"
  "hs_round (record_failure s p) = hs_round s"
  "hs_chain (record_success s p) = hs_chain s" "hs_config (record_success s p) = hs_config s"
  "hs_state (record_success s p) = hs_state s" "hs_generation (record_success s p) = hs_generation s"
  "hs_round (record_success s p) = hs_round s"
  by (simp_all add: record_failure_def record_success_def)

lemma foldl_field: "(\<And>s x. f (g s x) = f s) \<Longrightarrow> f (foldl g s xs) = f s"
  by (induction xs arbitrary: s) simp_all

lemmas scores_fields [simp] =
  foldl_field [where g = record_failure and f = hs_chain, OF record_fields(1)]
  foldl_field [where g = record_failure and f = hs_config, OF record_fields(2)]
  foldl_field [where g = record_failure and f = hs_state, OF record_fields(3)]
  foldl_field [where g = record_failure and f = hs_generation, OF record_fields(4)]
  foldl_field [where g = record_failure and f = hs_round, OF record_fields(5)]
  foldl_field [where g = record_success and f = hs_chain, OF record_fields(6)]
  foldl_field [where g = record_success and f = hs_config, OF record_fields(7)]
  foldl_field [where g = record_success and f = hs_state, OF record_fields(8)]
  foldl_field [where g = record_success and f = hs_generation, OF record_fields(9)]
  foldl_field [where g = record_success and f = hs_round, OF record_fields(10)]

lemma candidate_loop_eq:
  "candidate_loop C now rs s =
     (foldl record_failure s (refused_peers C (hs_chain s) now rs), candidates_of C (hs_chain s) now rs)"
  by (induction rs arbitrary: s)
    (auto simp: candidates_of_def refused_peers_def map_filter_simps split: option.splits)

lemma set_candidates_of:
  "set (candidates_of C chain now rs) = {(p, hs, c). (p, hs) \<in> set rs \<and> validated_candidate C chain hs now = Some c}"
  by (induction rs) (auto simp: candidates_of_def map_filter_simps split: option.splits)

lemma set_refused_peers:
  "set (refused_peers C chain now rs) = {p. \<exists>hs. (p, hs) \<in> set rs \<and> validated_candidate C chain hs now = None}"
  by (force simp: refused_peers_def)

lemma mset_candidates_of: "mset rs = mset rs' \<Longrightarrow> mset (candidates_of C chain now rs) = mset (candidates_of C chain now rs')"
  by (simp add: candidates_of_def map_filter_def)

lemma mset_refused_peers: "mset rs = mset rs' \<Longrightarrow> mset (refused_peers C chain now rs) = mset (refused_peers C chain now rs')"
  by (simp add: refused_peers_def)

lemma distinct_candidates: "distinct (map fst rs) \<Longrightarrow> distinct (map fst (candidates_of C chain now rs))"
proof (induction rs)
  case (Cons r rs)
  have "fst ` set (candidates_of C chain now rs) \<subseteq> fst ` set rs" by (force simp: set_candidates_of)
  with Cons show ?case by (cases r) (auto simp: candidates_of_def map_filter_simps split: option.splits)
qed (simp add: candidates_of_def)

lemma distinct_refused: "distinct (map fst rs) \<Longrightarrow> distinct (refused_peers C chain now rs)"
  by (simp add: refused_peers_def distinct_map_filter)

section \<open>The choice of the best chain\<close>

definition heaviest :: "('h, 'w :: linorder) round_candidate set \<Rightarrow> ('h, 'w) round_candidate \<Rightarrow> bool" where
  "heaviest X x \<longleftrightarrow> x \<in> X \<and> (\<forall>y \<in> X. candidate_work y \<le> candidate_work x)"

text \<open>The agreed tip: the one hash of all heaviest candidates, with enough candidates that end at it.\<close>

definition agreed_tip :: "usize \<Rightarrow> ('h, 'w :: linorder) round_candidate set \<Rightarrow> hash \<Rightarrow> bool" where
  "agreed_tip m X h \<longleftrightarrow>
     (\<exists>x. heaviest X x) \<and> (\<forall>x. heaviest X x \<longrightarrow> candidate_hash x = h) \<and> m \<le> card {x \<in> X. candidate_hash x = h}"

lemma foldl_max: "foldl max (w :: 'w :: linorder) ws = Max (set (w # ws))"
  by (simp only: Max.set_eq_fold foldl_conv_fold max.commute)

lemma maximum_work_eq: "maximum_work cs = (if cs = [] then None else Some (Max (candidate_work ` set cs)))"
  by (cases cs) (auto simp: maximum_work_def foldl_max)

lemma heaviest_Max:
  "cs \<noteq> [] \<Longrightarrow> x \<in> set cs \<Longrightarrow> candidate_work x = Max (candidate_work ` set cs) \<longleftrightarrow> heaviest (set cs) x"
  by (auto simp: heaviest_def intro: Max_eqI [symmetric])

lemma remdups_singleton: "remdups xs = [h] \<longleftrightarrow> set xs = {h}"
proof
  assume "remdups xs = [h]" then show "set xs = {h}" by (metis list.simps(15) list.set(1) set_remdups)
next
  assume "set xs = {h}"
  then have "set (remdups xs) = {h}" "length (remdups xs) = 1" by (simp_all add: length_remdups_card_conv)
  then show "remdups xs = [h]" by (metis length_0_conv length_Suc_conv list.set_intros(1) singletonD One_nat_def)
qed

lemma select_best_Inr:
  assumes "distinct cs"
  shows "select_best m cs = (Inr h :: ('x sync_error, hash) result) \<longleftrightarrow> agreed_tip m (set cs) h"
proof (cases "cs = []")
  case True
  then show ?thesis by (simp add: select_best_def maximum_work_eq agreed_tip_def heaviest_def)
next
  case False
  let ?B = "filter (\<lambda>x. candidate_work x = Max (candidate_work ` set cs)) cs"
  have B: "set ?B = {x. heaviest (set cs) x}" using heaviest_Max [OF False] by (auto simp: heaviest_def)
  have n: "length (filter (\<lambda>x. candidate_hash x = h) cs) = card {x \<in> set cs. candidate_hash x = h}"
    using assms by (simp add: distinct_length_filter Collect_conj_eq Int_commute)
  have "select_best m cs = (Inr h :: ('x sync_error, hash) result) \<longleftrightarrow>
      remdups (map candidate_hash ?B) = [h] \<and> m \<le> length (filter (\<lambda>x. candidate_hash x = h) cs)"
    using False by (auto simp: select_best_def maximum_work_eq Let_def split: list.splits if_splits)
  also have "\<dots> \<longleftrightarrow> candidate_hash ` {x. heaviest (set cs) x} = {h} \<and> m \<le> card {x \<in> set cs. candidate_hash x = h}"
    by (simp only: remdups_singleton set_map B n)
  also have "\<dots> \<longleftrightarrow> agreed_tip m (set cs) h" unfolding agreed_tip_def by blast
  finally show ?thesis .
qed

text \<open>There is at most one agreed tip, and refusals are those of the code.\<close>

lemma agreed_tip_unique: "agreed_tip m X h \<Longrightarrow> agreed_tip m X h' \<Longrightarrow> h = h'"
  unfolding agreed_tip_def by blast

lemma select_best_Inl:
  "select_best m cs = Inl e \<Longrightarrow> e \<in> {NoValidCandidate, AmbiguousBestChain, InsufficientAgreement}"
  by (auto simp: select_best_def maximum_work_eq Let_def split: list.splits if_splits)

section \<open>Scores\<close>

definition fail_score :: "u32 \<Rightarrow> peer_record \<Rightarrow> peer_record" where
  "fail_score limit r = (let r = r\<lparr>pe_failures := u32_saturating_add (pe_failures r) 1\<rparr> in
     if pe_failures r \<ge> limit then r\<lparr>pe_banned := True\<rparr> else r)"

definition success_score :: "peer_record \<Rightarrow> peer_record" where
  "success_score r = r\<lparr>pe_successes := u64_saturating_add (pe_successes r) 1, pe_failures := u32_saturating_sub (pe_failures r) 1\<rparr>"

definition scored :: "peer_id set \<Rightarrow> (peer_record \<Rightarrow> peer_record) \<Rightarrow> (peer_id \<times> peer_record) list \<Rightarrow> (peer_id \<times> peer_record) list" where
  "scored P f xs = map (\<lambda>(p, r). (p, if p \<in> P then f r else r)) xs"

lemma scored_keys [simp]: "map fst (scored P f xs) = map fst xs" "length (scored P f xs) = length xs"
  by (simp_all add: scored_def split_def comp_def)

lemma map_of_scored: "map_of (scored P f xs) p = map_option (\<lambda>r. if p \<in> P then f r else r) (map_of xs p)"
  by (induction xs) (auto simp: scored_def)

lemma scored_empty [simp]: "scored {} f xs = xs"
  by (simp add: scored_def)

lemma map_entry_scored: "distinct (map fst xs) \<Longrightarrow> AList.map_entry p f xs = scored {p} f xs"
proof (induction xs)
  case (Cons x xs)
  have "scored {p} f xs = xs" if "p \<notin> fst ` set xs" using that by (force simp: scored_def intro: map_idI)
  with Cons show ?case by (cases x) (auto simp: scored_def)
qed (simp add: scored_def)

lemma scored_scored: "p \<notin> P \<Longrightarrow> scored P f (scored {p} f xs) = scored (insert p P) f xs"
  by (simp add: scored_def split_def comp_def)

lemma failures_scored:
  "distinct (map fst (hs_peers s)) \<Longrightarrow> distinct ps \<Longrightarrow>
     foldl record_failure s ps = s\<lparr>hs_peers := scored (set ps) (fail_score (sc_max_peer_failures (hs_config s))) (hs_peers s)\<rparr>"
proof (induction ps arbitrary: s)
  case (Cons p ps)
  have "record_failure s p = s\<lparr>hs_peers := scored {p} (fail_score (sc_max_peer_failures (hs_config s))) (hs_peers s)\<rparr>"
    using map_entry_scored [OF Cons.prems(1)] by (simp add: record_failure_def fail_score_def [abs_def])
  with Cons show ?case by (simp add: scored_scored)
qed simp

lemma successes_scored:
  "distinct (map fst (hs_peers s)) \<Longrightarrow> distinct ps \<Longrightarrow>
     foldl record_success s ps = s\<lparr>hs_peers := scored (set ps) success_score (hs_peers s)\<rparr>"
proof (induction ps arbitrary: s)
  case (Cons p ps)
  have "record_success s p = s\<lparr>hs_peers := scored {p} success_score (hs_peers s)\<rparr>"
    using map_entry_scored [OF Cons.prems(1)] by (simp add: record_success_def success_score_def [abs_def])
  with Cons show ?case by (simp add: scored_scored)
qed simp

section \<open>The invariant\<close>

definition config_ok :: "sync_config \<Rightarrow> bool" where
  "config_ok c \<longleftrightarrow> 0 < sc_max_peers c \<and> 0 < sc_minimum_peer_agreement c \<and> sc_minimum_peer_agreement c \<le> sc_max_peers c \<and> sc_max_peers c \<le> 64 \<and>
     0 < sc_round_timeout_seconds c \<and> sc_round_timeout_seconds c \<le> 300 \<and> 0 < sc_max_peer_failures c"

definition scores_ok :: "u32 \<Rightarrow> (peer_id \<times> peer_record) list \<Rightarrow> bool" where
  "scores_ok limit peers \<longleftrightarrow> distinct (map fst peers) \<and> (\<forall>p r. (p, r) \<in> set peers \<longrightarrow> (pe_banned r \<longleftrightarrow> limit \<le> pe_failures r))"

definition round_ok :: "usize \<Rightarrow> ('h, 'w) header_sync \<Rightarrow> 'h sync_round \<Rightarrow> bool" where
  "round_ok K s r \<longleftrightarrow>
     rq_generation (ro_request r) = hs_generation s \<and> rq_base_hash (ro_request r) = he_hash (lc_tip (hs_chain s)) \<and>
     rq_base_height (ro_request r) = he_height (lc_tip (hs_chain s)) \<and>
     distinct (ro_requested r) \<and> distinct (map fst (ro_responses r)) \<and> fst ` set (ro_responses r) \<subseteq> set (ro_requested r) \<and>
     (\<forall>p \<in> set (ro_requested r). \<exists>x. map_of (hs_peers s) p = Some x \<and> \<not> pe_banned x) \<and>
     (\<forall>hs \<in> snd ` set (ro_responses r). length hs \<le> K)"

definition sync_inv :: "('h, 'w :: linorder, 'x) consensus \<Rightarrow> usize \<Rightarrow> ('h, 'w) header_sync \<Rightarrow> bool" where
  "sync_inv C K s \<longleftrightarrow> config_ok (hs_config s) \<and> scores_ok (sc_max_peer_failures (hs_config s)) (hs_peers s) \<and>
     length (hs_peers s) \<le> sc_max_peers (hs_config s) \<and> chain_wf C (hs_chain s) \<and>
     (case hs_round s of None \<Rightarrow> True | Some r \<Rightarrow> round_ok K s r)"

section \<open>The end of a round\<close>

definition round_answers ::
  "('h, 'w, 'x) consensus \<Rightarrow> ('h, 'w) header_sync \<Rightarrow> u64 \<Rightarrow> 'h sync_round \<Rightarrow> ('h, 'w) round_candidate set" where
  "round_answers C s now r =
     {(p, hs, c). (p, hs) \<in> set (ro_responses r) \<and> validated_candidate C (hs_chain s) hs now = Some c}"

definition round_refused :: "('h, 'w, 'x) consensus \<Rightarrow> ('h, 'w) header_sync \<Rightarrow> u64 \<Rightarrow> 'h sync_round \<Rightarrow> peer_id set" where
  "round_refused C s now r = {p. \<exists>hs. (p, hs) \<in> set (ro_responses r) \<and> validated_candidate C (hs_chain s) hs now = None}"

definition failed_peers :: "('h, 'w, 'x) consensus \<Rightarrow> ('h, 'w) header_sync \<Rightarrow> u64 \<Rightarrow> 'h sync_round \<Rightarrow> (peer_id \<times> peer_record) list" where
  "failed_peers C s now r = scored (round_refused C s now r) (fail_score (sc_max_peer_failures (hs_config s))) (hs_peers s)"

definition supporters :: "('h, 'w) round_candidate set \<Rightarrow> hash \<Rightarrow> peer_id set" where
  "supporters X h = fst ` {x \<in> X. candidate_hash x = h}"

definition no_extension :: "u32 \<Rightarrow> (peer_id \<times> peer_record) list \<Rightarrow> bool" where
  "no_extension height peers \<longleftrightarrow> (\<forall>r \<in> snd ` set peers. pe_banned r \<or> pe_advertised_height r \<le> height)"

text \<open>Every requested peer answered, no supporter sent headers, and no active peer claims a higher chain.\<close>

definition current_round ::
  "('h, 'w) header_sync \<Rightarrow> ('h, 'w) round_candidate set \<Rightarrow> bool \<Rightarrow> bool \<Rightarrow> bool" where
  "current_round s X unchanged responded \<longleftrightarrow>
     unchanged \<and> responded \<and> no_extension (he_height (lc_tip (hs_chain s))) (hs_peers s) \<and>
     (\<forall>x \<in> X. fst (snd x) = [] \<and>
        (\<exists>r. map_of (hs_peers s) (fst x) = Some r \<and> pe_advertised_height r \<le> he_height (lc_tip (hs_chain s))))"

lemma reports_current_iff: "reports_current s cs u b \<longleftrightarrow> current_round s (set cs) u b"
proof -
  have l: "list_all (\<lambda>(_, r). pe_banned r \<or> pe_advertised_height r \<le> k) xs \<longleftrightarrow> no_extension k xs" for k xs
    unfolding list_all_iff no_extension_def by force
  have e: "(case z of None \<Rightarrow> False | Some r \<Rightarrow> pe_advertised_height r \<le> k) \<longleftrightarrow> (\<exists>r. z = Some r \<and> pe_advertised_height r \<le> k)" for z k
    by (cases z) simp_all
  show ?thesis unfolding reports_current_def current_round_def Let_def l by (simp add: e list_all_iff split_def)
qed

definition installed :: "('h, 'w) header_sync \<Rightarrow> ('h, 'w) round_candidate set \<Rightarrow> hash \<Rightarrow> bool \<Rightarrow> 'w light_chain \<Rightarrow> ('h, 'w) header_sync" where
  "installed s X h responded c =
     (let s' = s\<lparr>hs_peers := scored (supporters X h) success_score (hs_peers s), hs_chain := c\<rparr>
      in s'\<lparr>hs_state := if current_round s' {x \<in> X. candidate_hash x = h} (he_hash (lc_tip c) = he_hash (lc_tip (hs_chain s))) responded
              then HeaderCurrent else HeaderSyncing\<rparr>)"

lemma install_winner_eq:
  assumes "distinct (map fst (hs_peers s))" and "distinct (map fst cs)" and "h \<in> candidate_hash ` set cs"
  shows "\<exists>p hs c. (p, hs, c) \<in> set cs \<and> he_hash (lc_tip c) = h \<and>
    install_winner s cs h b = (installed s (set cs) h b c,
      Inr \<lparr>oc_status = header_sync_status (installed s (set cs) h b c), oc_accepted_headers = hs\<rparr>)"
proof -
  from assms(3) obtain y where y: "find (\<lambda>x. candidate_hash x = h) cs = Some y"
    by (cases "find (\<lambda>x. candidate_hash x = h) cs") (auto simp: find_None_iff)
  then have "y \<in> set cs" "candidate_hash y = h" by (auto simp: find_Some_iff)
  moreover obtain p hs c where "y = (p, hs, c)" by (cases y)
  ultimately have x: "(p, hs, c) \<in> set cs" "he_hash (lc_tip c) = h" "find (\<lambda>x. candidate_hash x = h) cs = Some (p, hs, c)"
    using y by (simp_all add: candidate_hash_def)
  have d: "distinct (map fst (filter (\<lambda>x. candidate_hash x = h) cs))" using assms(2) by (simp add: distinct_map_filter)
  have "supporters (set cs) h = set (map fst (filter (\<lambda>x. candidate_hash x = h) cs))" by (simp add: supporters_def)
  then have "install_winner s cs h b = (installed s (set cs) h b c,
      Inr \<lparr>oc_status = header_sync_status (installed s (set cs) h b c), oc_accepted_headers = hs\<rparr>)"
    by (simp add: install_winner_def x(3) successes_scored [OF assms(1) d] Let_def installed_def reports_current_iff del: set_map)
  with x show ?thesis by blast
qed

text \<open>The state after the failed answers are scored.\<close>

definition judged :: "('h, 'w, 'x) consensus \<Rightarrow> ('h, 'w) header_sync \<Rightarrow> u64 \<Rightarrow> 'h sync_round \<Rightarrow> ('h, 'w) header_sync" where
  "judged C s now r = s\<lparr>hs_round := None, hs_peers := failed_peers C s now r\<rparr>"

lemma judged_fields:
  "hs_config (judged C s now r) = hs_config s" "hs_chain (judged C s now r) = hs_chain s" "hs_state (judged C s now r) = hs_state s"
  "hs_generation (judged C s now r) = hs_generation s" "hs_peers (judged C s now r) = failed_peers C s now r" "hs_round (judged C s now r) = None"
  by (simp_all add: judged_def)

lemma sync_invD:
  assumes "sync_inv C K s"
  shows "config_ok (hs_config s)" "scores_ok (sc_max_peer_failures (hs_config s)) (hs_peers s)" "distinct (map fst (hs_peers s))"
    "length (hs_peers s) \<le> sc_max_peers (hs_config s)" "chain_wf C (hs_chain s)" "hs_round s = Some r \<Longrightarrow> round_ok K s r"
  using assms by (simp_all add: sync_inv_def scores_ok_def)

lemma judged_loop:
  assumes it: "iteration_order it" and inv: "sync_inv C K s" and r: "hs_round s = Some r"
  obtains cs where "candidate_loop C now (iterate it (ro_responses r)) (s\<lparr>hs_round := None\<rparr>) = (judged C s now r, cs)"
    "set cs = round_answers C s now r" "distinct (map fst cs)"
proof -
  let ?rs = "iterate it (ro_responses r)"
  have d: "distinct (map fst (ro_responses r))" using sync_invD(6) [OF inv r] by (simp add: round_ok_def)
  note i = set_iterate [OF it d] distinct_iterate [OF it d]
  have "set (refused_peers C (hs_chain s) now ?rs) = round_refused C s now r"
    by (simp add: set_refused_peers i(1) round_refused_def)
  then have "foldl record_failure (s\<lparr>hs_round := None\<rparr>) (refused_peers C (hs_chain s) now ?rs) = judged C s now r"
    using failures_scored [OF _ distinct_refused [OF i(2)], of "s\<lparr>hs_round := None\<rparr>" C "hs_chain s" now] sync_invD(3) [OF inv]
    by (simp add: judged_def failed_peers_def)
  then have "candidate_loop C now ?rs (s\<lparr>hs_round := None\<rparr>) = (judged C s now r, candidates_of C (hs_chain s) now ?rs)"
    by (simp add: candidate_loop_eq)
  then show ?thesis
    by (rule that) (use distinct_candidates [OF i(2)] in \<open>simp_all add: set_candidates_of i(1) round_answers_def\<close>)
qed

lemma finish_short:
  assumes "hs_round s = Some r" and "length (ro_responses r) < sc_minimum_peer_agreement (hs_config s)"
  shows "finish_round_with_headers C it s now =
    (if now \<le> rq_deadline (ro_request r) then (s, Inl RoundIncomplete)
     else (s\<lparr>hs_round := None, hs_state := SyncDegraded\<rparr>, Inl InsufficientResponses))"
  using assms by (cases s) (simp add: finish_round_with_headers_def Let_def)

lemma finish_enough:
  fixes C :: "('h, 'w :: linorder, 'x) consensus"
  assumes it: "iteration_order it" and inv: "sync_inv C K s" and r: "hs_round s = Some r"
    and m: "sc_minimum_peer_agreement (hs_config s) \<le> length (ro_responses r)"
  obtains cs where "set cs = round_answers C s now r" "distinct (map fst cs)"
    "finish_round_with_headers C it s now =
      (case select_best (sc_minimum_peer_agreement (hs_config s)) cs of
         Inl e \<Rightarrow> ((judged C s now r)\<lparr>hs_state := SyncDegraded\<rparr>, Inl e)
       | Inr h \<Rightarrow> install_winner (judged C s now r) cs h (length (ro_responses r) = length (ro_requested r)))"
proof -
  obtain cs where cs: "candidate_loop C now (iterate it (ro_responses r)) (s\<lparr>hs_round := None\<rparr>) = (judged C s now r, cs)"
    "set cs = round_answers C s now r" "distinct (map fst cs)" by (rule judged_loop [OF it inv r])
  have "hs_config (judged C s now r) = hs_config s" by (simp add: judged_def)
  moreover have "he_hash (lc_tip (hs_chain s)) = rq_base_hash (ro_request r)" "he_height (lc_tip (hs_chain s)) = rq_base_height (ro_request r)"
    using sync_invD(6) [OF inv r] by (simp_all add: round_ok_def)
  ultimately show ?thesis
    by (intro that [OF cs(2,3)]) (use m r cs(1) in \<open>simp add: finish_round_with_headers_def Let_def not_less [symmetric]\<close>)
qed

lemma distinct_fst: "distinct (map fst xs) \<Longrightarrow> distinct xs"
  by (metis distinct_map)

lemma finish_agreed:
  fixes C :: "('h, 'w :: linorder, 'x) consensus"
  assumes it: "iteration_order it" and inv: "sync_inv C K s" and r: "hs_round s = Some r"
    and m: "sc_minimum_peer_agreement (hs_config s) \<le> length (ro_responses r)"
    and a: "agreed_tip (sc_minimum_peer_agreement (hs_config s)) (round_answers C s now r) h"
  obtains p hs c s' where "(p, hs, c) \<in> round_answers C s now r" "he_hash (lc_tip c) = h"
    "s' = installed (judged C s now r) (round_answers C s now r) h (length (ro_responses r) = length (ro_requested r)) c"
    "finish_round_with_headers C it s now = (s', Inr \<lparr>oc_status = header_sync_status s', oc_accepted_headers = hs\<rparr>)"
proof -
  obtain cs where cs: "set cs = round_answers C s now r" "distinct (map fst cs)"
    "finish_round_with_headers C it s now =
      (case select_best (sc_minimum_peer_agreement (hs_config s)) cs of
         Inl e \<Rightarrow> ((judged C s now r)\<lparr>hs_state := SyncDegraded\<rparr>, Inl e)
       | Inr h \<Rightarrow> install_winner (judged C s now r) cs h (length (ro_responses r) = length (ro_requested r)))"
    by (rule finish_enough [OF it inv r m])
  have "select_best (sc_minimum_peer_agreement (hs_config s)) cs = (Inr h :: ('x sync_error, hash) result)"
    using a by (simp add: select_best_Inr distinct_fst [OF cs(2)] cs(1))
  moreover have "h \<in> candidate_hash ` set cs" using a unfolding agreed_tip_def heaviest_def cs(1) by blast
  moreover have "distinct (map fst (hs_peers (judged C s now r)))" using sync_invD(3) [OF inv] by (simp add: judged_def failed_peers_def)
  ultimately obtain p hs c where w: "(p, hs, c) \<in> set cs" "he_hash (lc_tip c) = h"
      "finish_round_with_headers C it s now =
        (installed (judged C s now r) (set cs) h (length (ro_responses r) = length (ro_requested r)) c,
         Inr \<lparr>oc_status = header_sync_status (installed (judged C s now r) (set cs) h (length (ro_responses r) = length (ro_requested r)) c),
              oc_accepted_headers = hs\<rparr>)"
    using install_winner_eq [OF _ cs(2), where s = "judged C s now r" and h = h and b = "length (ro_responses r) = length (ro_requested r)"] cs(3)
    by fastforce
  show ?thesis by (rule that [OF _ w(2) refl]) (use w(1,3) in \<open>simp_all add: cs(1)\<close>)
qed

lemma finish_refused:
  fixes C :: "('h, 'w :: linorder, 'x) consensus"
  assumes it: "iteration_order it" and inv: "sync_inv C K s" and r: "hs_round s = Some r"
    and m: "sc_minimum_peer_agreement (hs_config s) \<le> length (ro_responses r)"
    and a: "\<nexists>h. agreed_tip (sc_minimum_peer_agreement (hs_config s)) (round_answers C s now r) h"
  obtains e where "e \<in> {NoValidCandidate, AmbiguousBestChain, InsufficientAgreement}"
    "finish_round_with_headers C it s now = ((judged C s now r)\<lparr>hs_state := SyncDegraded\<rparr>, Inl e)"
proof -
  obtain cs where cs: "set cs = round_answers C s now r" "distinct (map fst cs)"
    "finish_round_with_headers C it s now =
      (case select_best (sc_minimum_peer_agreement (hs_config s)) cs of
         Inl e \<Rightarrow> ((judged C s now r)\<lparr>hs_state := SyncDegraded\<rparr>, Inl e)
       | Inr h \<Rightarrow> install_winner (judged C s now r) cs h (length (ro_responses r) = length (ro_requested r)))"
    by (rule finish_enough [OF it inv r m])
  show ?thesis
  proof (cases "select_best (sc_minimum_peer_agreement (hs_config s)) cs :: ('x sync_error, hash) result")
    case (Inl e)
    then show ?thesis using that select_best_Inl [OF Inl] cs(3) by simp
  next
    case (Inr h)
    then show ?thesis using a by (simp add: select_best_Inr distinct_fst [OF cs(2)] cs(1))
  qed
qed

section \<open>Reachable states\<close>

inductive sync_step :: "('h, 'w :: linorder, 'x) consensus \<Rightarrow> usize \<Rightarrow> ('h, 'w) header_sync \<Rightarrow> ('h, 'w) header_sync \<Rightarrow> bool"
  for C :: "('h, 'w :: linorder, 'x) consensus" and K where
  added: "add_peer s p h = (s', r :: ('x sync_error, unit) result) \<Longrightarrow> sync_step C K s s'"
| removed: "remove_peer s p = (s', b) \<Longrightarrow> sync_step C K s s'"
| updated: "update_peer_height s p h = (s', r :: ('x sync_error, unit) result) \<Longrightarrow> sync_step C K s s'"
| begun: "iteration_order it \<Longrightarrow> begin_round C it s ps now = Some (s', q) \<Longrightarrow> sync_step C K s s'"
| abandoned: "abandon_uncommitted_round s = (s', b) \<Longrightarrow> sync_step C K s s'"
| submitted: "submit_headers K s g p hs now = (s', r :: ('x sync_error, unit) result) \<Longrightarrow> sync_step C K s s'"
| finished: "iteration_order it \<Longrightarrow> finish_round_with_headers C it s now = (s', o') \<Longrightarrow> sync_step C K s s'"

inductive_cases sync_stepE: "sync_step C K s s'"

definition sync_started :: "('h, 'w :: linorder, 'x) consensus \<Rightarrow> ('h, 'w) header_sync \<Rightarrow> bool" where
  "sync_started C s \<longleftrightarrow>
     (\<exists>c config. chain_wf C c \<and> sync_from_chain c config = (Inr s :: ('x sync_error, _) result)) \<or>
     (\<exists>n now limits config. sync_from_genesis C n now limits config = Inr s)"

lemma if_cong_not: "(P \<longleftrightarrow> \<not> Q) \<Longrightarrow> (if P then x else y) = (if Q then y else x)"
  by simp

lemma config_ok_validate: "sync_config_validate c = Inr c' \<longleftrightarrow> c' = c \<and> config_ok c"
proof -
  have "sync_config_validate c = (if config_ok c then Inr c else Inl InvalidConfig :: ('b sync_error, _) result)"
    unfolding sync_config_validate_def config_ok_def word_gt_0 neq0_conv [symmetric] not_less [symmetric] by (rule if_cong_not) auto
  then show ?thesis by (auto split: if_splits)
qed

lemma started_inv:
  fixes C :: "('h, 'w :: linorder, 'x) consensus"
  assumes "consensus_laws C" and "sync_started C s"
  shows "sync_inv C K s"
proof -
  obtain c config where "chain_wf C c" "config_ok config"
    "s = \<lparr>hs_config = config, hs_chain = c, hs_state = HeaderSyncing, hs_generation = 1, hs_peers = [], hs_round = None\<rparr>"
    using assms unfolding sync_started_def sync_from_chain_def sync_from_genesis_def
    by (elim disjE exE conjE) (auto simp only: rbind_eq_Inr config_ok_validate map_err_eq_Inr dest: from_genesis_wf(1))
  then show ?thesis by (simp add: sync_inv_def scores_ok_def)
qed

subsection \<open>Peers\<close>

lemma update_new: "p \<notin> fst ` set xs \<Longrightarrow> AList.update p v xs = xs @ [(p, v)]"
  by (induction xs) auto

lemma add_peer_inv:
  assumes inv: "sync_inv C K s" and a: "add_peer s p h = (s', r)"
  shows "sync_inv C K s'"
proof (cases "map_of (hs_peers s) p \<noteq> None \<or> length (hs_peers s) \<ge> sc_max_peers (hs_config s)")
  case True
  then show ?thesis using a inv by (auto simp: add_peer_def split: if_splits)
next
  case False
  let ?x = "\<lparr>pe_advertised_height = h, pe_failures = 0, pe_successes = 0, pe_banned = False\<rparr>"
  have n: "p \<notin> fst ` set (hs_peers s)" using False by (simp add: map_of_eq_None_iff)
  note u = update_new [OF n]
  have s': "s' = s\<lparr>hs_peers := AList.update p ?x (hs_peers s)\<rparr>" using a False by (simp add: add_peer_def)
  have "round_ok K s' r" if "round_ok K s r" for r
    using that n by (fastforce simp: s' round_ok_def update_conv')
  then show ?thesis
    using inv n False unfolding s' u
    by (auto simp: sync_inv_def scores_ok_def config_ok_def word_gt_0 split: option.splits)
qed

lemma scores_ok_scored:
  assumes "scores_ok l xs" and "\<And>p r. (p, r) \<in> set xs \<Longrightarrow> p \<in> P \<Longrightarrow> pe_banned (f r) \<longleftrightarrow> l \<le> pe_failures (f r)"
  shows "scores_ok l (scored P f xs)"
  unfolding scores_ok_def
proof (intro conjI allI impI)
  fix p r assume "(p, r) \<in> set (scored P f xs)"
  then obtain x where "(p, x) \<in> set xs" "r = (if p \<in> P then f x else x)" by (auto simp: scored_def)
  then show "pe_banned r \<longleftrightarrow> l \<le> pe_failures r" using assms by (simp add: scores_ok_def)
qed (use assms(1) in \<open>simp add: scores_ok_def\<close>)

lemma scores_ok_subset: "scores_ok l xs \<Longrightarrow> set ys \<subseteq> set xs \<Longrightarrow> distinct (map fst ys) \<Longrightarrow> scores_ok l ys"
  by (auto simp: scores_ok_def)

lemma round_ok_cong:
  assumes "round_ok K s r" and "hs_generation s' = hs_generation s" and "lc_tip (hs_chain s') = lc_tip (hs_chain s)"
    and "\<And>p x. p \<in> set (ro_requested r) \<Longrightarrow> map_of (hs_peers s) p = Some x \<Longrightarrow> \<not> pe_banned x \<Longrightarrow> \<exists>y. map_of (hs_peers s') p = Some y \<and> \<not> pe_banned y"
  shows "round_ok K s' r"
  using assms(1,4) unfolding round_ok_def assms(2,3) by blast

lemma set_delete_subset: "set (AList.delete p xs) \<subseteq> set xs"
  by (auto simp: AList.delete_eq)

lemma remove_peer_inv:
  assumes inv: "sync_inv C K s" and a: "remove_peer s p = (s', b)"
  shows "sync_inv C K s'"
proof -
  have s': "hs_config s' = hs_config s" "hs_chain s' = hs_chain s" "hs_generation s' = hs_generation s"
      "hs_peers s' = AList.delete p (hs_peers s)"
      "hs_round s' = map_option (\<lambda>r. r\<lparr>ro_requested := removeAll p (ro_requested r), ro_responses := AList.delete p (ro_responses r)\<rparr>) (hs_round s)"
    using a by (auto simp: remove_peer_def Let_def split: option.splits)
  have "scores_ok (sc_max_peer_failures (hs_config s)) (hs_peers s')"
    unfolding s' by (rule scores_ok_subset [OF sync_invD(2) [OF inv] set_delete_subset]) (use sync_invD(3) [OF inv] in \<open>simp add: distinct_delete\<close>)
  moreover have "length (hs_peers s') \<le> sc_max_peers (hs_config s)"
    using sync_invD(4) [OF inv] length_delete_le [of p "hs_peers s"] unfolding s' by linarith
  moreover have "round_ok K s' (r\<lparr>ro_requested := removeAll p (ro_requested r), ro_responses := AList.delete p (ro_responses r)\<rparr>)"
    if r: "round_ok K s r" for r
  proof -
    have "fst ` set (AList.delete p (ro_responses r)) \<subseteq> set (removeAll p (ro_requested r))"
      using r dom_delete_subset [of p "ro_responses r"] delete_notin_dom [of p "ro_responses r"] by (auto simp: round_ok_def)
    moreover have "\<forall>q \<in> set (removeAll p (ro_requested r)). \<exists>x. map_of (hs_peers s') q = Some x \<and> \<not> pe_banned x"
      using r by (simp add: round_ok_def s')
    moreover have "\<forall>hs \<in> snd ` set (AList.delete p (ro_responses r)). length hs \<le> K"
      using r set_delete_subset [of p "ro_responses r"] unfolding round_ok_def by blast
    ultimately show ?thesis using r by (simp add: round_ok_def s' distinct_delete distinct_removeAll del: set_removeAll)
  qed
  ultimately show ?thesis using inv by (auto simp: sync_inv_def s' split: option.splits)
qed

lemma update_peer_height_inv:
  assumes inv: "sync_inv C K s" and a: "update_peer_height s p h = (s', r)"
  shows "sync_inv C K s'"
proof (cases "map_of (hs_peers s) p")
  case None
  then show ?thesis using a inv by (simp add: update_peer_height_def)
next
  case (Some x)
  let ?f = "\<lambda>record. record\<lparr>pe_advertised_height := h\<rparr>"
  have s': "hs_config s' = hs_config s" "hs_chain s' = hs_chain s" "hs_generation s' = hs_generation s"
      "hs_peers s' = scored {p} ?f (hs_peers s)" "hs_round s' = hs_round s"
    using a Some by (auto simp: update_peer_height_def Let_def map_entry_scored [OF sync_invD(3) [OF inv]] split: if_splits)
  have "scores_ok (sc_max_peer_failures (hs_config s)) (hs_peers s')"
    unfolding s' by (rule scores_ok_scored [OF sync_invD(2) [OF inv]]) (use sync_invD(2) [OF inv] in \<open>force simp: scores_ok_def\<close>)
  moreover have "round_ok K s' r" if "round_ok K s r" for r
    by (rule round_ok_cong [OF that]) (auto simp: s' map_of_scored)
  ultimately show ?thesis using inv by (auto simp: sync_inv_def s' split: option.splits)
qed

subsection \<open>Rounds\<close>

lemma check_requested_Inr:
  "check_requested peers ps = Inr u \<longleftrightarrow> (\<forall>p \<in> set ps. \<exists>x. map_of peers p = Some x \<and> \<not> pe_banned x)"
  by (induction ps) (auto simp: result_inv split: if_splits)

lemma set_order: "iteration_order it \<Longrightarrow> set (it ps) = set ps"
  by (metis iteration_order_def set_mset_mset)

lemma begin_round_Inr:
  assumes it: "iteration_order it" and b: "begin_round C it s ps now = Some (s', Inr q)"
  obtains l where "hs_round s = None" "distinct ps" "sc_minimum_peer_agreement (hs_config s) \<le> length ps"
    "\<forall>p \<in> set ps. \<exists>x. map_of (hs_peers s) p = Some x \<and> \<not> pe_banned x" "locator C (hs_chain s) = Some l"
    "unat (hs_generation s') = Suc (unat (hs_generation s))"
    "q = \<lparr>rq_generation = hs_generation s', rq_packet = \<lparr>lp_locator = l, lp_stop = hash_zero\<rparr>,
          rq_base_height = he_height (lc_tip (hs_chain s)), rq_base_hash = he_hash (lc_tip (hs_chain s)),
          rq_deadline = now + sc_round_timeout_seconds (hs_config s)\<rparr>"
    "s' = s\<lparr>hs_round := Some \<lparr>ro_request = q, ro_requested = remdups ps, ro_responses = []\<rparr>, hs_generation := hs_generation s'\<rparr>"
proof -
  have "length (remdups ps) = length ps \<longleftrightarrow> distinct ps" by (metis length_remdups_eq remdups_id_iff_distinct)
  then show ?thesis
    using b by (auto simp: begin_round_def Let_def check_requested_Inr set_order [OF it] result_inv u64_checked_add_def u64_max_def
        unat_word_ariths split: if_splits sum.splits option.splits prod.splits intro!: that)
qed

lemma begin_round_Inl: "begin_round C it s ps now = Some (s', Inl e) \<Longrightarrow> s' = s"
  by (auto simp: begin_round_def Let_def split: if_splits sum.splits option.splits)

lemma begin_round_inv:
  assumes inv: "sync_inv C K s" and it: "iteration_order it" and b: "begin_round C it s ps now = Some (s', q)"
  shows "sync_inv C K s'"
proof (cases q)
  case (Inl e)
  then show ?thesis using begin_round_Inl b inv by blast
next
  case (Inr x)
  obtain l where n: "hs_round s = None" "distinct ps" "\<forall>p \<in> set ps. \<exists>x. map_of (hs_peers s) p = Some x \<and> \<not> pe_banned x"
    "x = \<lparr>rq_generation = hs_generation s', rq_packet = \<lparr>lp_locator = l, lp_stop = hash_zero\<rparr>,
          rq_base_height = he_height (lc_tip (hs_chain s)), rq_base_hash = he_hash (lc_tip (hs_chain s)),
          rq_deadline = now + sc_round_timeout_seconds (hs_config s)\<rparr>"
    and s': "s' = s\<lparr>hs_round := Some \<lparr>ro_request = x, ro_requested = remdups ps, ro_responses = []\<rparr>, hs_generation := hs_generation s'\<rparr>"
    using begin_round_Inr [OF it b [unfolded Inr]] by blast
  have f: "hs_config s' = hs_config s" "hs_chain s' = hs_chain s" "hs_peers s' = hs_peers s"
      "hs_round s' = Some \<lparr>ro_request = x, ro_requested = remdups ps, ro_responses = []\<rparr>" by (subst s', simp)+
  have "round_ok K s' \<lparr>ro_request = x, ro_requested = remdups ps, ro_responses = []\<rparr>"
    using n(3) unfolding round_ok_def f by (simp add: n(4))
  then show ?thesis using inv by (simp add: sync_inv_def f)
qed

lemma submit_headers_Inr:
  "submit_headers K s g p hs now = (s', Inr u) \<longleftrightarrow>
     (\<exists>r. hs_round s = Some r \<and> g = rq_generation (ro_request r) \<and> now \<le> rq_deadline (ro_request r) \<and> p \<in> set (ro_requested r) \<and>
        length hs \<le> K \<and> p \<notin> fst ` set (ro_responses r) \<and>
        s' = s\<lparr>hs_round := Some (r\<lparr>ro_responses := ro_responses r @ [(p, hs)]\<rparr>)\<rparr>)"
  by (auto simp: submit_headers_def map_of_eq_None_iff update_new not_less split: option.splits if_splits)

lemma submit_headers_inv:
  assumes inv: "sync_inv C K s" and a: "submit_headers K s g p hs now = (s', q)"
  shows "sync_inv C K s'"
proof (cases q)
  case (Inl e)
  then have "s' = s" using a by (auto simp: submit_headers_def split: option.splits if_splits)
  then show ?thesis using inv by simp
next
  case (Inr u)
  obtain r where r: "hs_round s = Some r" "p \<in> set (ro_requested r)" "length hs \<le> K" "p \<notin> fst ` set (ro_responses r)"
      and s': "s' = s\<lparr>hs_round := Some (r\<lparr>ro_responses := ro_responses r @ [(p, hs)]\<rparr>)\<rparr>"
    using a unfolding Inr submit_headers_Inr by blast
  have "round_ok K s' (r\<lparr>ro_responses := ro_responses r @ [(p, hs)]\<rparr>)"
    using sync_invD(6) [OF inv r(1)] r by (simp add: round_ok_def s')
  then show ?thesis using inv by (simp add: sync_inv_def s')
qed

lemma abandon_inv: "sync_inv C K s \<Longrightarrow> abandon_uncommitted_round s = (s', b) \<Longrightarrow> sync_inv C K s'"
  by (auto simp: abandon_uncommitted_round_def sync_inv_def)

subsection \<open>The end of a round\<close>

lemma u32_saturating_add_le: "a \<le> u32_saturating_add a b"
proof (cases "unat a + unat b < 2 ^ 32")
  case True
  then show ?thesis by (simp add: u32_saturating_add_def word_le_nat_alt unat_word_ariths)
qed (simp add: u32_saturating_add_def)

lemma fail_score_ok: "(pe_banned r \<longleftrightarrow> l \<le> pe_failures r) \<Longrightarrow> pe_banned (fail_score l r) \<longleftrightarrow> l \<le> pe_failures (fail_score l r)"
  using u32_saturating_add_le [of "pe_failures r" 1] by (auto simp: fail_score_def Let_def dest: order.trans)

lemma success_score_ok:
  assumes "pe_banned r \<longleftrightarrow> l \<le> pe_failures r" and "\<not> pe_banned r"
  shows "pe_banned (success_score r) \<longleftrightarrow> l \<le> pe_failures (success_score r)"
proof -
  have "u32_saturating_sub (pe_failures r) 1 \<le> pe_failures r"
    by (simp add: u32_saturating_sub_def word_le_nat_alt unat_sub_if')
  with assms show ?thesis by (auto simp: success_score_def dest: order.trans)
qed

lemma validated_candidate_wf:
  assumes "consensus_laws C" and "chain_wf C c" and "validated_candidate C c hs now = Some c'"
  shows "chain_wf C c'"
  using append_batch_wf [OF assms(1,2), of hs now] assms(2,3)
  by (auto simp: validated_candidate_def split: if_splits prod.splits sum.splits)

lemma answers_unbanned:
  assumes inv: "sync_inv C K s" and r: "hs_round s = Some r" and x: "(p, hs, c) \<in> round_answers C s now r" and p: "(p, e) \<in> set (failed_peers C s now r)"
  shows "\<not> pe_banned e"
proof -
  note ro = sync_invD(6) [OF inv r, unfolded round_ok_def]
  have h: "(p, hs) \<in> set (ro_responses r)" "validated_candidate C (hs_chain s) hs now \<noteq> None" using x by (simp_all add: round_answers_def)
  have "distinct (map fst (ro_responses r))" using ro by blast
  then have "p \<notin> round_refused C s now r" using h by (auto simp: round_refused_def dest: eq_key_imp_eq_value)
  then have e: "(p, e) \<in> set (hs_peers s)" using p by (auto simp: failed_peers_def scored_def)
  have "p \<in> set (ro_requested r)" using ro h(1) by force
  then obtain y where "map_of (hs_peers s) p = Some y" "\<not> pe_banned y" using ro by blast
  then show ?thesis using map_of_is_SomeI [OF sync_invD(3) [OF inv] e] by simp
qed

lemma judged_inv:
  assumes "sync_inv C K s" and "hs_round s = Some r"
  shows "sync_inv C K (judged C s now r)"
proof -
  have "scores_ok (sc_max_peer_failures (hs_config s)) (failed_peers C s now r)"
    unfolding failed_peers_def by (rule scores_ok_scored [OF sync_invD(2) [OF assms(1)]])
      (rule fail_score_ok, use sync_invD(2) [OF assms(1)] in \<open>simp add: scores_ok_def\<close>)
  then show ?thesis using assms(1) by (simp add: sync_inv_def judged_def failed_peers_def)
qed

lemma installed_inv:
  assumes laws: "consensus_laws C" and inv: "sync_inv C K s" and r: "hs_round s = Some r" and x: "(p, hs, c) \<in> round_answers C s now r"
  shows "sync_inv C K (installed (judged C s now r) (round_answers C s now r) h b c)"
proof -
  note j = judged_inv [OF inv r, of now]
  have "chain_wf C c" using validated_candidate_wf [OF laws sync_invD(5) [OF inv]] x by (auto simp: round_answers_def)
  moreover have "scores_ok (sc_max_peer_failures (hs_config s)) (scored (supporters (round_answers C s now r) h) success_score (failed_peers C s now r))"
  proof (rule scores_ok_scored)
    show l: "scores_ok (sc_max_peer_failures (hs_config s)) (failed_peers C s now r)" using sync_invD(2) [OF j] by (simp add: judged_def)
    fix q e assume e: "(q, e) \<in> set (failed_peers C s now r)" and q: "q \<in> supporters (round_answers C s now r) h"
    then obtain hs' c' where "(q, hs', c') \<in> round_answers C s now r" by (auto simp: supporters_def)
    then have "\<not> pe_banned e" using answers_unbanned [OF inv r] e by blast
    moreover have "pe_banned e \<longleftrightarrow> sc_max_peer_failures (hs_config s) \<le> pe_failures e" using l e by (simp add: scores_ok_def)
    ultimately show "pe_banned (success_score e) \<longleftrightarrow> sc_max_peer_failures (hs_config s) \<le> pe_failures (success_score e)"
      by (intro success_score_ok)
  qed
  ultimately show ?thesis using j by (simp add: sync_inv_def installed_def judged_def Let_def)
qed

text \<open>Finishing leaves the state as it is, drops the round, scores the refused answers or installs a winner.\<close>

lemma finish_cases:
  fixes C :: "('h, 'w :: linorder, 'x) consensus"
  assumes it: "iteration_order it" and inv: "sync_inv C K s" and f: "finish_round_with_headers C it s now = (s', q)"
  obtains (same) e where "s' = s" "q = Inl e"
  | (expired) r where "hs_round s = Some r" "s' = s\<lparr>hs_round := None, hs_state := SyncDegraded\<rparr>" "q = Inl InsufficientResponses"
  | (refused) r e where "hs_round s = Some r" "s' = (judged C s now r)\<lparr>hs_state := SyncDegraded\<rparr>" "q = Inl e"
  | (won) r h p hs c where "hs_round s = Some r" "sc_minimum_peer_agreement (hs_config s) \<le> length (ro_responses r)"
      "agreed_tip (sc_minimum_peer_agreement (hs_config s)) (round_answers C s now r) h"
      "(p, hs, c) \<in> round_answers C s now r" "he_hash (lc_tip c) = h"
      "s' = installed (judged C s now r) (round_answers C s now r) h (length (ro_responses r) = length (ro_requested r)) c"
      "q = Inr \<lparr>oc_status = header_sync_status s', oc_accepted_headers = hs\<rparr>"
proof (cases "hs_round s")
  case None
  then have "s' = s \<and> q = Inl NoActiveRound" using f by (auto simp: finish_round_with_headers_def)
  then show ?thesis using same by blast
next
  case r: (Some r)
  consider (short) "length (ro_responses r) < sc_minimum_peer_agreement (hs_config s)"
    | (agreed) h where "sc_minimum_peer_agreement (hs_config s) \<le> length (ro_responses r)"
        "agreed_tip (sc_minimum_peer_agreement (hs_config s)) (round_answers C s now r) h"
    | (none) "sc_minimum_peer_agreement (hs_config s) \<le> length (ro_responses r)"
        "\<nexists>h. agreed_tip (sc_minimum_peer_agreement (hs_config s)) (round_answers C s now r) h"
    by (meson not_le)
  then show ?thesis
  proof cases
    case short
    show ?thesis using finish_short [OF r short, of C it now] f r by (auto split: if_splits intro: same expired)
  next
    case agreed
    show ?thesis by (rule finish_agreed [OF it inv r agreed]) (use f won [OF r agreed] in simp)
  next
    case none
    show ?thesis by (rule finish_refused [OF it inv r none]) (use f refused [OF r] in simp)
  qed
qed

lemma finish_inv:
  assumes laws: "consensus_laws C" and inv: "sync_inv C K s" and it: "iteration_order it" and f: "finish_round_with_headers C it s now = (s', q)"
  shows "sync_inv C K s'"
  using it inv f
proof (cases rule: finish_cases)
  case (refused r e)
  then show ?thesis using judged_inv [OF inv, of r now] by (simp add: sync_inv_def judged_def)
next
  case (won r h p hs c)
  then show ?thesis using installed_inv [OF laws inv] by blast
qed (use inv in \<open>simp_all add: sync_inv_def\<close>)

lemma sync_step_inv:
  assumes "consensus_laws C" and "sync_inv C K s" and "sync_step C K s s'"
  shows "sync_inv C K s'"
  using assms(3)
proof cases
  case (finished it now o')
  then show ?thesis using finish_inv [OF assms(1,2)] by blast
qed (use assms(2) in \<open>blast intro: add_peer_inv remove_peer_inv update_peer_height_inv begin_round_inv abandon_inv submit_headers_inv\<close>)+

section \<open>Progress of the chain\<close>

lemma append_header_work:
  assumes "consensus_laws C" and "append_header C c h now = (c', Inr e)"
  shows "he_chainwork (lc_tip c) < he_chainwork (lc_tip c')"
  using append_entry_Inr [OF assms(1), of c h now] assms(2)
  by (auto simp: append_header_def extends_def split: sum.splits)

lemma append_all_work:
  "consensus_laws C \<Longrightarrow> append_all C c hs now = (c', Inr u) \<Longrightarrow> hs \<noteq> [] \<Longrightarrow> he_chainwork (lc_tip c) < he_chainwork (lc_tip c')"
proof (induction hs arbitrary: c)
  case (Cons h hs)
  obtain d r where step: "append_header C c h now = (d, r)" by fastforce
  then obtain e where r: "r = Inr e" using Cons.prems(2) by (cases r) simp_all
  have "he_chainwork (lc_tip c) < he_chainwork (lc_tip d)" using append_header_work [OF Cons.prems(1)] step r by blast
  then show ?case using Cons.IH [of d] Cons.prems step r by (cases "hs = []") (auto dest: less_trans)
qed simp

lemma validated_candidate_cases:
  assumes "validated_candidate C c hs now = Some c'"
  obtains "hs = []" "c' = c" | "hs \<noteq> []" "append_all C c hs now = (c', Inr ())" "c' = light_exec C c (DoAppendBatch hs now)"
proof (cases "hs = []")
  case False
  then obtain t where "append_batch C c hs now = (c', Inr t)"
    using assms by (auto simp: validated_candidate_def split: prod.splits sum.splits)
  then show ?thesis using append_batch_atomic [where C = C and c = c and headers = hs and now = now] False that(2) by simp
qed (use assms that(1) in \<open>simp add: validated_candidate_def\<close>)

lemma validated_candidate_work:
  assumes "consensus_laws C" and "validated_candidate C c hs now = Some c'"
  shows "if hs = [] then c' = c else he_chainwork (lc_tip c) < he_chainwork (lc_tip c')"
  using assms(2) by (cases rule: validated_candidate_cases) (simp_all add: append_all_work [OF assms(1)])

definition sync_progress :: "('h, 'w :: linorder, 'x) consensus \<Rightarrow> ('h, 'w) header_sync \<Rightarrow> ('h, 'w) header_sync \<Rightarrow> bool" where
  "sync_progress C s s' \<longleftrightarrow> hs_config s' = hs_config s \<and> (\<exists>ops. hs_chain s' = foldl (light_exec C) (hs_chain s) ops) \<and>
     he_chainwork (lc_tip (hs_chain s)) \<le> he_chainwork (lc_tip (hs_chain s')) \<and> hs_generation s \<le> hs_generation s'"

lemma sync_progressI:
  "hs_config s' = hs_config s \<Longrightarrow> hs_chain s' = hs_chain s \<Longrightarrow> hs_generation s \<le> hs_generation s' \<Longrightarrow> sync_progress C s s'"
  unfolding sync_progress_def by (metis foldl_Nil order_refl)

lemma sync_progress_trans: "sync_progress C s s' \<Longrightarrow> sync_progress C s' s'' \<Longrightarrow> sync_progress C s s''"
  unfolding sync_progress_def by (metis foldl_append order.trans)

lemma installed_progress:
  assumes "consensus_laws C" and "(p, hs, c) \<in> round_answers C s now r"
  shows "sync_progress C s (installed (judged C s now r) X h b c)"
proof -
  have v: "validated_candidate C (hs_chain s) hs now = Some c" using assms(2) by (simp add: round_answers_def)
  have "\<exists>ops. c = foldl (light_exec C) (hs_chain s) ops"
    using v by (cases rule: validated_candidate_cases) (metis foldl_Nil, metis foldl_Cons foldl_Nil)
  moreover have "he_chainwork (lc_tip (hs_chain s)) \<le> he_chainwork (lc_tip c)"
    using validated_candidate_work [OF assms(1) v] by (auto split: if_splits)
  ultimately show ?thesis by (simp add: sync_progress_def installed_def judged_def Let_def)
qed

lemma sync_step_progress:
  assumes laws: "consensus_laws C" and inv: "sync_inv C K s" and st: "sync_step C K s s'"
  shows "sync_progress C s s'"
  using st
proof cases
  case (begun it ps now q)
  show ?thesis
  proof (cases q)
    case (Inl e)
    then show ?thesis using begin_round_Inl begun(2) by (metis order_refl sync_progressI)
  next
    case (Inr x)
    have "unat (hs_generation s') = Suc (unat (hs_generation s)) \<and>
        s' = s\<lparr>hs_round := hs_round s', hs_generation := hs_generation s'\<rparr>"
      by (rule begin_round_Inr [OF begun(1) begun(2) [unfolded Inr]]) (metis header_sync.select_convs(6) header_sync.surjective header_sync.update_convs(4,6))
    then show ?thesis by (metis (no_types, lifting) header_sync.select_convs header_sync.surjective header_sync.update_convs sync_progressI word_le_nat_alt le_SucI order_refl)
  qed
next
  case (finished it now q)
  from finished(1) inv finished(2) show ?thesis
    by (cases rule: finish_cases) (auto simp: judged_fields intro: sync_progressI installed_progress [OF laws])
qed (auto simp: add_peer_def remove_peer_def update_peer_height_def abandon_uncommitted_round_def submit_headers_def Let_def
    split: if_splits option.splits intro!: sync_progressI)

text \<open>Synchronisers form a system whose chain, work and generation only grow.\<close>

interpretation header_sync: monotone_system "sync_step C K" "\<lambda>s. consensus_laws C \<and> sync_inv C K s" "sync_progress C"
  for C :: "('h, 'w :: linorder, 'x) consensus" and K
  by unfold_locales (blast intro: sync_step_inv sync_step_progress sync_progress_trans | simp add: sync_progressI)+

lemma sync_reachable_inv:
  assumes laws: "consensus_laws C" and st: "sync_started C s0" and "(sync_step C K)\<^sup>*\<^sup>* s0 s"
  shows "sync_inv C K s \<and> sync_progress C s0 s"
  using header_sync.run_progress [OF assms(3)] started_inv [OF laws st] laws by blast

lemma locator_returns:
  assumes "chain_wf C c"
  shows "\<exists>l. locator C c = Some l"
  using locator_linear [OF assms, of "[]" 9 "he_height (lc_tip c)"] by (auto simp: locator_def Let_def)

lemma begin_round_returns:
  assumes "sync_inv C K s"
  shows "begin_round C it s ps now \<noteq> None"
  using locator_returns [OF sync_invD(5) [OF assms]] by (auto simp: begin_round_def Let_def split: sum.splits)

section \<open>Evidence for the current state\<close>

text \<open>A round on the chain of \<open>s\<close> in which all requested peers answered, at least \<open>m\<close> of them without headers, and
  no answer is a valid extension.\<close>

definition extension_free :: "('h, 'w :: linorder, 'x) consensus \<Rightarrow> nat \<Rightarrow> ('h, 'w) header_sync \<Rightarrow> u64 \<Rightarrow> 'h sync_round \<Rightarrow> bool" where
  "extension_free C m s now r \<longleftrightarrow> fst ` set (ro_responses r) = set (ro_requested r) \<and>
     m \<le> card {p. (p, []) \<in> set (ro_responses r)} \<and>
     (\<forall>p hs. (p, hs) \<in> set (ro_responses r) \<longrightarrow> hs \<noteq> [] \<longrightarrow> validated_candidate C (hs_chain s) hs now = None)"

text \<open>Finishing such a round made the synchroniser current.\<close>

definition became_current :: "('h, 'w :: linorder, 'x) consensus \<Rightarrow> ('h, 'w) header_sync \<Rightarrow> ('h, 'w) header_sync \<Rightarrow> bool" where
  "became_current C s s' \<longleftrightarrow> (\<exists>it now r out. iteration_order it \<and> hs_round s = Some r \<and>
     extension_free C (sc_minimum_peer_agreement (hs_config s)) s now r \<and>
     finish_round_with_headers C it s now = (s', Inr out))"

text \<open>A known peer advertises a height above the tip.\<close>

definition height_raised :: "('h, 'w :: linorder, 'x) consensus \<Rightarrow> ('h, 'w) header_sync \<Rightarrow> ('h, 'w) header_sync \<Rightarrow> bool" where
  "height_raised C s s' \<longleftrightarrow> (\<exists>p h. he_height (lc_tip (hs_chain s)) < h \<and>
     update_peer_height s p h = (s', Inr () :: ('x sync_error, unit) result))"

text \<open>
  The evidence for the current state at the end of a run: a step of this run finished an extension-free round
  on the chain, and from there to the end of the run the synchroniser stayed current on the same chain, and no
  peer advertised a height above its tip.
\<close>

definition current_evidence :: "('h, 'w :: linorder, 'x) consensus \<Rightarrow> ('h, 'w) header_sync list \<Rightarrow> bool" where
  "current_evidence C run \<longleftrightarrow> (\<exists>before s s' after. run = before @ s # s' # after \<and> became_current C s s' \<and>
     list_all (\<lambda>t. hs_state t = HeaderCurrent \<and> hs_chain t = hs_chain s) (s' # after) \<and>
     successively (\<lambda>t t'. \<not> height_raised C t t') (s' # after))"

lemma installed_current:
  assumes "hs_state (installed s X h b c) = HeaderCurrent"
  shows "b \<and> (\<forall>x \<in> X. candidate_hash x = h \<longrightarrow> fst (snd x) = [])"
proof -
  have "\<exists>s' u. current_round s' {x \<in> X. candidate_hash x = h} u b"
    using assms unfolding installed_def Let_def by (simp split: if_splits) blast
  then show ?thesis unfolding current_round_def by blast
qed

lemma won_current:
  assumes laws: "consensus_laws C" and inv: "sync_inv C K s" and r: "hs_round s = Some r"
    and a: "agreed_tip m (round_answers C s now r) h"
    and cur: "hs_state (installed (judged C s now r) (round_answers C s now r) h (length (ro_responses r) = length (ro_requested r)) c) = HeaderCurrent"
    and x: "(p, hs, c) \<in> round_answers C s now r" "he_hash (lc_tip c) = h"
  shows "c = hs_chain s \<and> fst ` set (ro_responses r) = set (ro_requested r) \<and> m \<le> card {p. (p, []) \<in> set (ro_responses r)} \<and>
    (\<forall>p hs. (p, hs) \<in> set (ro_responses r) \<longrightarrow> hs \<noteq> [] \<longrightarrow> validated_candidate C (hs_chain s) hs now = None)"
proof -
  let ?X = "round_answers C s now r"
  have cr: "length (ro_responses r) = length (ro_requested r)" "\<And>y. y \<in> ?X \<Longrightarrow> candidate_hash y = h \<Longrightarrow> fst (snd y) = []"
    using installed_current [OF cur] by blast+
  have base: "c' = hs_chain s" if "(p', [], c') \<in> ?X" for p' c' using that by (simp add: round_answers_def validated_candidate_def)
  have c: "c = hs_chain s" using base cr(2) [OF x(1)] x by (simp add: candidate_hash_def)
  note ro = sync_invD(6) [OF inv r, unfolded round_ok_def]
  have "card (fst ` set (ro_responses r)) = card (set (ro_requested r))"
    using ro cr(1) by (metis distinct_card length_map set_map)
  then have all: "fst ` set (ro_responses r) = set (ro_requested r)" using ro by (intro card_subset_eq) auto
  obtain z where z: "heaviest ?X z" "candidate_hash z = h" using a unfolding agreed_tip_def by blast
  then have zs: "z \<in> ?X" "fst (snd z) = []" using cr(2) by (simp_all add: heaviest_def)
  then have w: "candidate_work z = he_chainwork (lc_tip (hs_chain s))" using base by (cases z) (simp add: candidate_work_def)
  have none: "validated_candidate C (hs_chain s) hs' now = None" if "(q, hs') \<in> set (ro_responses r)" "hs' \<noteq> []" for q hs'
  proof (rule ccontr)
    assume "validated_candidate C (hs_chain s) hs' now \<noteq> None"
    then obtain d where d: "validated_candidate C (hs_chain s) hs' now = Some d" by blast
    then have "(q, hs', d) \<in> ?X" using that by (simp add: round_answers_def)
    then have "candidate_work (q, hs', d) \<le> candidate_work z" using z(1) by (simp add: heaviest_def)
    then show False using validated_candidate_work [OF laws d] that(2) w by (simp add: candidate_work_def)
  qed
  have "inj_on fst {y \<in> ?X. candidate_hash y = h}"
    using ro by (auto simp: inj_on_def round_answers_def dest: eq_key_imp_eq_value)
  moreover have "fst ` {y \<in> ?X. candidate_hash y = h} \<subseteq> {p. (p, []) \<in> set (ro_responses r)}"
    using cr(2) by (fastforce simp: round_answers_def)
  moreover have "finite {p. (p, []) \<in> set (ro_responses r)}" by (rule finite_subset [of _ "fst ` set (ro_responses r)"]) force+
  ultimately have "card {y \<in> ?X. candidate_hash y = h} \<le> card {p. (p, []) \<in> set (ro_responses r)}" by (rule card_inj_on_le)
  then have "m \<le> card {p. (p, []) \<in> set (ro_responses r)}" using a by (simp add: agreed_tip_def)
  with c all none show ?thesis by blast
qed

lemma height_raised_state: "height_raised C s s' \<Longrightarrow> hs_state s' = HeaderSyncing"
  by (auto simp: height_raised_def update_peer_height_def Let_def split: if_splits)

text \<open>A step into the current state finishes an extension-free round or keeps state and chain.\<close>

lemma step_current:
  assumes laws: "consensus_laws C" and inv: "sync_inv C K s" and st: "sync_step C K s s'" and new: "hs_state s' = HeaderCurrent"
  shows "hs_chain s' = hs_chain s \<and> (hs_state s = HeaderCurrent \<or> became_current C s s')"
  using st
proof cases
  case (begun it ps now q)
  show ?thesis
  proof (cases q)
    case (Inl e)
    then show ?thesis using begin_round_Inl begun(2) new by blast
  next
    case (Inr x)
    have "hs_chain s' = hs_chain s \<and> hs_state s' = hs_state s"
      by (rule begin_round_Inr [OF begun(1) begun(2) [unfolded Inr]]) (metis header_sync.select_convs(2,3) header_sync.surjective header_sync.update_convs(4,6))
    then show ?thesis using new by simp
  qed
next
  case (finished it now q)
  from finished(1) inv finished(2) show ?thesis
  proof (cases rule: finish_cases)
    case (won r h p hs c)
    note w = won_current [OF laws inv won(1,3) new [unfolded won(6)] won(4,5)]
    have "became_current C s s'"
      unfolding became_current_def extension_free_def using w won(1,7) finished by blast
    moreover have "hs_chain s' = hs_chain s" using w by (simp add: won(6) installed_def Let_def)
    ultimately show ?thesis by blast
  qed (use new in \<open>simp_all add: judged_fields\<close>)
qed (use new in \<open>auto simp: add_peer_def remove_peer_def update_peer_height_def abandon_uncommitted_round_def submit_headers_def Let_def
    split: if_splits option.splits\<close>)

lemma current_evidence_start:
  assumes "became_current C s s'" and "hs_state s' = HeaderCurrent" and "hs_chain s' = hs_chain s"
  shows "current_evidence C (before @ [s, s'])"
  unfolding current_evidence_def using assms
  by (intro exI [of _ before] exI [of _ s] exI [of _ s'] exI [of _ "[]"]) simp

lemma current_evidence_extend:
  assumes "current_evidence C run" and "hs_state s' = HeaderCurrent" and "hs_chain s' = hs_chain (last run)"
  shows "current_evidence C (run @ [s'])"
proof -
  from assms(1) obtain before s t after where e: "run = before @ s # t # after" "became_current C s t"
    "list_all (\<lambda>u. hs_state u = HeaderCurrent \<and> hs_chain u = hs_chain s) (t # after)"
    "successively (\<lambda>u u'. \<not> height_raised C u u') (t # after)" unfolding current_evidence_def by blast
  have "hs_chain (last run) = hs_chain s" using e(1,3) last_in_set [of "t # after"] by (simp add: list_all_iff)
  moreover have "\<not> height_raised C (last run) s'" using height_raised_state [of C "last run" s'] assms(2) by auto
  ultimately show ?thesis
    unfolding current_evidence_def using e assms(2,3)
    by (intro exI [of _ before] exI [of _ s] exI [of _ t] exI [of _ "after @ [s']"])
      (simp add: successively_append_iff [of _ "t # after", simplified])
qed

lemma run_reaches: "successively R run \<Longrightarrow> run \<noteq> [] \<Longrightarrow> R\<^sup>*\<^sup>* (hd run) (last run)"
  by (induction run rule: induct_list012) (auto intro: converse_rtranclp_into_rtranclp)

lemma run_current:
  assumes laws: "consensus_laws C" and st: "sync_started C (hd run)"
  shows "run \<noteq> [] \<Longrightarrow> successively (sync_step C K) run \<Longrightarrow> hs_state (last run) = HeaderCurrent \<Longrightarrow> current_evidence C run"
  using st
proof (induction run rule: rev_induct)
  case (snoc s' run)
  show ?case
  proof (cases "run = []")
    case True
    with snoc.prems show ?thesis by (auto simp: sync_started_def sync_from_chain_def sync_from_genesis_def result_inv)
  next
    case False
    with snoc.prems have r: "successively (sync_step C K) run" "sync_step C K (last run) s'" "sync_started C (hd run)"
      "hs_state s' = HeaderCurrent" by (simp_all add: successively_append_iff)
    have "sync_inv C K (last run)" using sync_reachable_inv [OF laws r(3) run_reaches [OF r(1) False]] by blast
    from step_current [OF laws this r(2,4)] show ?thesis
      using current_evidence_start [of C "last run" s' "butlast run"] current_evidence_extend [of C run s'] snoc.IH False r
      by (metis append_butlast_last_id append.assoc append_Cons append_Nil)
  qed
qed simp

section \<open>Answers that end in the same block\<close>

text \<open>No two headers of the round collide, and none has the hash of the block the round started from.\<close>

definition round_headers :: "'h sync_round \<Rightarrow> 'h set" where
  "round_headers r = (\<Union>x \<in> set (ro_responses r). set (snd x))"

definition hash_binding :: "('h, 'w, 'x) consensus \<Rightarrow> 'h sync_round \<Rightarrow> bool" where
  "hash_binding C r \<longleftrightarrow> inj_on (cs_block_hash C) (round_headers r) \<and> rq_base_hash (ro_request r) \<notin> cs_block_hash C ` round_headers r"

lemma append_all_links:
  "consensus_laws C \<Longrightarrow> append_all C c (hs @ [h]) now = (c', Inr u) \<Longrightarrow>
     \<exists>d. append_all C c hs now = (d, Inr ()) \<and> cs_previous_block C h = he_hash (lc_tip d) \<and> he_hash (lc_tip c') = cs_block_hash C h"
proof (induction hs arbitrary: c)
  case Nil
  then show ?case
    by (auto simp: append_header_def append_entry_def Let_def result_inv entry_from_header_def dest: consensus_linkD split: sum.splits)
next
  case (Cons g hs)
  obtain d r where step: "append_header C c g now = (d, r)" by fastforce
  then show ?case using Cons by (cases r) simp_all
qed

lemma same_end:
  assumes laws: "consensus_laws C" and inj: "inj_on (cs_block_hash C) H" and base: "he_hash (lc_tip c) \<notin> cs_block_hash C ` H"
  shows "append_all C c hs now = (d, Inr u) \<Longrightarrow> append_all C c hs' now = (d', Inr u') \<Longrightarrow> set hs \<subseteq> H \<Longrightarrow> set hs' \<subseteq> H \<Longrightarrow>
    he_hash (lc_tip d) = he_hash (lc_tip d') \<Longrightarrow> hs = hs'"
proof (induction hs arbitrary: hs' d d' u u' rule: rev_induct)
  case Nil
  show ?case
  proof (cases hs' rule: rev_cases)
    case (snoc gs g)
    then have "he_hash (lc_tip d') = cs_block_hash C g" using append_all_links [OF laws] Nil(2) by blast
    then show ?thesis using Nil base snoc by auto
  qed simp
next
  case (snoc h hs)
  from append_all_links [OF laws snoc.prems(1)] obtain e where e: "append_all C c hs now = (e, Inr ())"
    "cs_previous_block C h = he_hash (lc_tip e)" "he_hash (lc_tip d) = cs_block_hash C h" by blast
  show ?case
  proof (cases hs' rule: rev_cases)
    case Nil
    then have "h \<in> H" "he_hash (lc_tip c) = cs_block_hash C h" using snoc.prems e(3) by simp_all
    then show ?thesis using base image_eqI by metis
  next
    case (snoc gs g)
    from append_all_links [OF laws snoc.prems(2) [unfolded snoc]] obtain e' where e': "append_all C c gs now = (e', Inr ())"
      "cs_previous_block C g = he_hash (lc_tip e')" "he_hash (lc_tip d') = cs_block_hash C g" by blast
    have "h = g" using inj snoc.prems(3,4,5) e(3) e'(3) snoc by (auto dest: inj_onD)
    then show ?thesis using snoc.IH [OF e(1) e'(1)] snoc.prems(3,4) e(2) e'(2) snoc by simp
  qed
qed

lemma validated_append_all: "validated_candidate C c hs now = Some c' \<Longrightarrow> append_all C c hs now = (c', Inr ())"
  by (erule validated_candidate_cases) simp_all

lemma same_answer:
  assumes laws: "consensus_laws C" and inv: "sync_inv C K s" and r: "hs_round s = Some r" and bind: "hash_binding C r"
    and x: "(p, hs, c) \<in> round_answers C s now r" "(p', hs', c') \<in> round_answers C s now r" "he_hash (lc_tip c) = he_hash (lc_tip c')"
  shows "hs = hs' \<and> c = c'"
proof -
  have v: "validated_candidate C (hs_chain s) hs now = Some c" "validated_candidate C (hs_chain s) hs' now = Some c'"
      "set hs \<subseteq> round_headers r" "set hs' \<subseteq> round_headers r" using x(1,2) by (force simp: round_answers_def round_headers_def)+
  have "he_hash (lc_tip (hs_chain s)) \<notin> cs_block_hash C ` round_headers r"
    using bind sync_invD(6) [OF inv r] by (simp add: hash_binding_def round_ok_def)
  then have "hs = hs'" using same_end [OF laws _ _ validated_append_all [OF v(1)] validated_append_all [OF v(2)] v(3,4) x(3)] bind
    by (simp add: hash_binding_def)
  with v show ?thesis by simp
qed

text \<open>One list of headers that is valid, was sent by enough peers and has more work than every other valid answer.\<close>

definition agreed_answer ::
  "('h, 'w :: linorder, 'x) consensus \<Rightarrow> ('h, 'w) header_sync \<Rightarrow> u64 \<Rightarrow> 'h sync_round \<Rightarrow> 'h list \<Rightarrow> 'w light_chain \<Rightarrow> bool" where
  "agreed_answer C s now r hs c \<longleftrightarrow>
     validated_candidate C (hs_chain s) hs now = Some c \<and>
     sc_minimum_peer_agreement (hs_config s) \<le> card {q. (q, hs) \<in> set (ro_responses r)} \<and>
     (\<forall>q hs' c'. (q, hs') \<in> set (ro_responses r) \<longrightarrow> hs' \<noteq> hs \<longrightarrow> validated_candidate C (hs_chain s) hs' now = Some c' \<longrightarrow>
        he_chainwork (lc_tip c') < he_chainwork (lc_tip c))"

definition bound_round :: "('h, 'w :: linorder, 'x) consensus \<Rightarrow> usize \<Rightarrow> ('h, 'w) header_sync \<Rightarrow> 'h sync_round \<Rightarrow> bool" where
  "bound_round C K s r \<longleftrightarrow> consensus_laws C \<and> sync_inv C K s \<and> hs_round s = Some r \<and> hash_binding C r"

lemma answer_tip:
  assumes "bound_round C K s r" and "(p, hs, c) \<in> round_answers C s now r" and "y \<in> round_answers C s now r"
  shows "candidate_hash y = he_hash (lc_tip c) \<longleftrightarrow> snd y = (hs, c)" and "fst (snd y) = hs \<longleftrightarrow> snd y = (hs, c)"
proof -
  obtain q hs' c' where y: "y = (q, hs', c')" by (cases y)
  have "hs' = hs \<and> c' = c" if "he_hash (lc_tip c') = he_hash (lc_tip c)"
    using same_answer [of C K s r q hs' c' now p hs c] assms that y unfolding bound_round_def by blast
  then show "candidate_hash y = he_hash (lc_tip c) \<longleftrightarrow> snd y = (hs, c)" unfolding y candidate_hash_def by auto
  show "fst (snd y) = hs \<longleftrightarrow> snd y = (hs, c)" using assms(2,3) unfolding y round_answers_def by auto
qed

lemma supporters_card:
  assumes "bound_round C K s r" and "(p, hs, c) \<in> round_answers C s now r"
  shows "card {y \<in> round_answers C s now r. candidate_hash y = he_hash (lc_tip c)} = card {q. (q, hs) \<in> set (ro_responses r)}"
proof -
  have v: "validated_candidate C (hs_chain s) hs now = Some c" using assms(2) by (simp add: round_answers_def)
  have "{y \<in> round_answers C s now r. candidate_hash y = he_hash (lc_tip c)} = {y \<in> round_answers C s now r. snd y = (hs, c)}"
    using answer_tip(1) [OF assms] by blast
  also have "\<dots> = (\<lambda>q. (q, hs, c)) ` {q. (q, hs) \<in> set (ro_responses r)}" using v by (auto simp: round_answers_def)
  finally show ?thesis by (simp add: card_image inj_on_def)
qed

lemma heaviest_unique:
  assumes B: "bound_round C K s r" and X: "(p, hs, c) \<in> round_answers C s now r"
  shows "(\<exists>x. heaviest (round_answers C s now r) x) \<and>
      (\<forall>x. heaviest (round_answers C s now r) x \<longrightarrow> candidate_hash x = he_hash (lc_tip c)) \<longleftrightarrow>
    (\<forall>y \<in> round_answers C s now r. fst (snd y) \<noteq> hs \<longrightarrow> candidate_work y < he_chainwork (lc_tip c))" (is "?l \<longleftrightarrow> ?r")
proof
  let ?X = "round_answers C s now r"
  note t = answer_tip [OF B X]
  assume ?l
  then obtain z where z: "heaviest ?X z" "candidate_hash z = he_hash (lc_tip c)" by blast
  then have "snd z = (hs, c)" using t(1) by (simp add: heaviest_def)
  then have w: "candidate_work z = he_chainwork (lc_tip c)" by (simp add: candidate_work_def)
  show ?r
  proof (intro ballI impI, rule ccontr)
    fix y assume y: "y \<in> ?X" "fst (snd y) \<noteq> hs" "\<not> candidate_work y < he_chainwork (lc_tip c)"
    then have "heaviest ?X y" using z(1) w unfolding heaviest_def by (metis not_less order.trans)
    then have "candidate_hash y = he_hash (lc_tip c)" using \<open>?l\<close> by blast
    then show False using t [OF y(1)] y(2) by blast
  qed
next
  let ?X = "round_answers C s now r"
  note t = answer_tip [OF B X]
  assume R: ?r
  have le: "candidate_work y \<le> he_chainwork (lc_tip c)" if "y \<in> ?X" for y
    using R that t(2) [OF that] by (cases "fst (snd y) = hs") (auto simp: candidate_work_def)
  have h: "heaviest ?X (p, hs, c)" using X le unfolding heaviest_def by (simp add: candidate_work_def)
  have "candidate_hash x = he_hash (lc_tip c)" if x: "heaviest ?X x" for x
  proof -
    have "x \<in> ?X" "he_chainwork (lc_tip c) \<le> candidate_work x" using x X by (auto simp: heaviest_def candidate_work_def)
    then show ?thesis using R t by (meson not_less)
  qed
  with h show ?l by blast
qed

lemma agreed_tip_answer:
  assumes B: "bound_round C K s r" and X: "(p, hs, c) \<in> round_answers C s now r"
  shows "agreed_tip (sc_minimum_peer_agreement (hs_config s)) (round_answers C s now r) (he_hash (lc_tip c)) \<longleftrightarrow> agreed_answer C s now r hs c"
proof -
  have v: "validated_candidate C (hs_chain s) hs now = Some c" using X by (simp add: round_answers_def)
  have "(\<forall>y \<in> round_answers C s now r. fst (snd y) \<noteq> hs \<longrightarrow> candidate_work y < he_chainwork (lc_tip c)) \<longleftrightarrow>
    (\<forall>q hs' c'. (q, hs') \<in> set (ro_responses r) \<longrightarrow> hs' \<noteq> hs \<longrightarrow> validated_candidate C (hs_chain s) hs' now = Some c' \<longrightarrow>
        he_chainwork (lc_tip c') < he_chainwork (lc_tip c))" by (simp add: round_answers_def candidate_work_def) blast
  then show ?thesis using heaviest_unique [OF B X] v unfolding agreed_tip_def agreed_answer_def supporters_card [OF B X] by blast
qed

lemma agreed_answer_sent:
  assumes "sync_inv C K s" and "agreed_answer C s now r hs c"
  obtains p where "(p, hs, c) \<in> round_answers C s now r" "sc_minimum_peer_agreement (hs_config s) \<le> length (ro_responses r)"
proof -
  have m: "sc_minimum_peer_agreement (hs_config s) \<le> card {q. (q, hs) \<in> set (ro_responses r)}" using assms(2) by (simp add: agreed_answer_def)
  moreover have "0 < sc_minimum_peer_agreement (hs_config s)" using sync_invD(1) [OF assms(1)] by (simp add: config_ok_def)
  ultimately obtain p where "(p, hs) \<in> set (ro_responses r)" by (metis (no_types, lifting) Collect_empty_eq card.empty not_less)
  then have "(p, hs, c) \<in> round_answers C s now r" using assms(2) by (simp add: agreed_answer_def round_answers_def)
  moreover have "card {q. (q, hs) \<in> set (ro_responses r)} \<le> card (fst ` set (ro_responses r))" by (rule card_mono) force+
  then have "sc_minimum_peer_agreement (hs_config s) \<le> length (ro_responses r)" using m card_length [of "map fst (ro_responses r)"] by simp
  ultimately show ?thesis by (rule that)
qed

lemma round_agreement_iff:
  fixes C :: "('h, 'w :: linorder, 'x) consensus"
  assumes B: "bound_round C K s r" and it: "iteration_order it"
  shows "finish_round_with_headers C it s now = (s', Inr out) \<longleftrightarrow>
    (\<exists>hs c. agreed_answer C s now r hs c \<and>
       s' = installed (judged C s now r) (round_answers C s now r) (he_hash (lc_tip c)) (length (ro_responses r) = length (ro_requested r)) c \<and>
       out = \<lparr>oc_status = header_sync_status s', oc_accepted_headers = hs\<rparr>)" (is "?l \<longleftrightarrow> ?r")
proof
  let ?X = "round_answers C s now r"
  have inv: "sync_inv C K s" and r: "hs_round s = Some r" using B by (simp_all add: bound_round_def)
  { assume ?l
    from it inv this show ?r
    proof (cases rule: finish_cases)
      case (won r' h p hs c)
      then have e: "r' = r" "h = he_hash (lc_tip c)" using r by simp_all
      show ?thesis using agreed_tip_answer [OF B won(4) [unfolded e]] won(3,6,7) unfolding e by blast
    qed simp_all }
  { assume ?r
    then obtain hs c where R: "agreed_answer C s now r hs c" and
      s': "s' = installed (judged C s now r) ?X (he_hash (lc_tip c)) (length (ro_responses r) = length (ro_requested r)) c"
      "out = \<lparr>oc_status = header_sync_status s', oc_accepted_headers = hs\<rparr>" by blast
    obtain p where X: "(p, hs, c) \<in> ?X" and m: "sc_minimum_peer_agreement (hs_config s) \<le> length (ro_responses r)"
      by (rule agreed_answer_sent [OF inv R])
    have a: "agreed_tip (sc_minimum_peer_agreement (hs_config s)) ?X (he_hash (lc_tip c))" using agreed_tip_answer [OF B X] R by simp
    show ?l
    proof (rule finish_agreed [OF it inv r m a])
      fix p' hs' c' s2 assume f: "(p', hs', c') \<in> ?X" "he_hash (lc_tip c') = he_hash (lc_tip c)"
        "s2 = installed (judged C s now r) ?X (he_hash (lc_tip c)) (length (ro_responses r) = length (ro_requested r)) c'"
        "finish_round_with_headers C it s now = (s2, Inr \<lparr>oc_status = header_sync_status s2, oc_accepted_headers = hs'\<rparr>)"
      then have "hs' = hs \<and> c' = c" using answer_tip(1) [OF B X f(1)] by (simp add: candidate_hash_def)
      then show ?l using f s' by simp
    qed }
qed

section \<open>An example\<close>

definition toy_config :: sync_config where
  "toy_config = \<lparr>sc_max_peers = 2, sc_minimum_peer_agreement = 2, sc_round_timeout_seconds = 20, sc_max_peer_failures = 3\<rparr>"

definition toy_peer :: peer_record where
  "toy_peer = \<lparr>pe_advertised_height = 0, pe_failures = 0, pe_successes = 0, pe_banned = False\<rparr>"

definition toy_sync_at :: "(peer_id \<times> peer_record) list \<Rightarrow> u64 \<Rightarrow> (hash \<times> hash) sync_round option \<Rightarrow> (hash \<times> hash, nat) header_sync" where
  "toy_sync_at peers generation ro = \<lparr>hs_config = toy_config, hs_chain = toy_genesis, hs_state = HeaderSyncing,
     hs_generation = generation, hs_peers = peers, hs_round = ro\<rparr>"

definition toy_round :: "(peer_id \<times> (hash \<times> hash) list) list \<Rightarrow> (hash \<times> hash) sync_round" where
  "toy_round rs =
     \<lparr>ro_request = \<lparr>rq_generation = 2, rq_packet = \<lparr>lp_locator = [[1]], lp_stop = hash_zero\<rparr>, rq_base_height = 0,
        rq_base_hash = [1], rq_deadline = 29\<rparr>, ro_requested = [[1], [2]], ro_responses = rs\<rparr>"

definition toy_started :: "(hash \<times> hash, nat) header_sync" where
  "toy_started = toy_sync_at [] 1 None"

definition toy_answered :: "(hash \<times> hash) list \<Rightarrow> (hash \<times> hash, nat) header_sync" where
  "toy_answered hs = toy_sync_at [([1], toy_peer), ([2], toy_peer)] 2 (Some (toy_round [([1], hs), ([2], hs)]))"

lemma toy_sync_started: "sync_started toy_consensus toy_started"
proof -
  have "chain_wf toy_consensus toy_genesis" by (rule from_genesis_wf(1) [OF toy_laws toy_from_genesis])
  moreover have "sync_from_chain toy_genesis toy_config = (Inr toy_started :: (unit sync_error, _) result)"
    by (simp add: sync_from_chain_def sync_config_validate_def toy_config_def toy_started_def toy_sync_at_def)
  ultimately show ?thesis unfolding sync_started_def by blast
qed

lemma toy_locator: "locator toy_consensus toy_genesis = Some [[1]]"
  by (simp add: locator_def toy_genesis_def toy_entry_def toy_consensus_def locator_loop.simps entry_at_def)

lemma toy_tip: "he_height (lc_tip toy_genesis) = 0" "he_hash (lc_tip toy_genesis) = [1]" "he_chainwork (lc_tip toy_genesis) = 1"
  by (simp_all add: toy_genesis_def toy_entry_def)

lemma id_order: "iteration_order (\<lambda>ps. ps)"
  by (simp add: iteration_order_def)

definition toy_states :: "(hash \<times> hash) list \<Rightarrow> (hash \<times> hash, nat) header_sync list" where
  "toy_states hs = (let P = [([1], toy_peer), ([2], toy_peer)] in
     [toy_started, toy_sync_at [([1], toy_peer)] 1 None, toy_sync_at P 1 None, toy_sync_at P 2 (Some (toy_round [])),
      toy_sync_at P 2 (Some (toy_round [([1], hs)])), toy_answered hs])"

lemma toy_states_run:
  assumes "length hs \<le> 2"
  shows "successively (sync_step toy_consensus 2) (toy_states hs)"
proof -
  let ?S = "sync_step toy_consensus 2" and ?P = "[([1], toy_peer), ([2], toy_peer)]"
  have 1: "?S toy_started (toy_sync_at [([1], toy_peer)] 1 None)"
    by (rule sync_step.added [where p = "[1]" and h = 0 and r = "Inr ()"])
      (simp add: add_peer_def toy_started_def toy_sync_at_def toy_config_def toy_peer_def)
  have 2: "?S (toy_sync_at [([1], toy_peer)] 1 None) (toy_sync_at ?P 1 None)"
    by (rule sync_step.added [where p = "[2]" and h = 0 and r = "Inr ()"])
      (simp add: add_peer_def toy_sync_at_def toy_config_def toy_peer_def)
  have 3: "?S (toy_sync_at ?P 1 None) (toy_sync_at ?P 2 (Some (toy_round [])))"
    by (rule sync_step.begun [OF id_order, where ps = "[[1], [2]]" and now = 9 and q = "Inr (ro_request (toy_round []))"])
      (simp add: begin_round_def toy_sync_at_def toy_config_def toy_peer_def toy_round_def u64_checked_add_def u64_max_def toy_locator toy_tip Let_def)
  have 4: "?S (toy_sync_at ?P 2 (Some (toy_round []))) (toy_sync_at ?P 2 (Some (toy_round [([1], hs)])))"
    by (rule sync_step.submitted [where g = 2 and p = "[1]" and hs = hs and now = 9 and r = "Inr ()"])
      (use assms in \<open>simp add: submit_headers_def toy_sync_at_def toy_round_def\<close>)
  have 5: "?S (toy_sync_at ?P 2 (Some (toy_round [([1], hs)]))) (toy_answered hs)"
    by (rule sync_step.submitted [where g = 2 and p = "[2]" and hs = hs and now = 9 and r = "Inr ()"])
      (use assms in \<open>simp add: submit_headers_def toy_answered_def toy_sync_at_def toy_round_def\<close>)
  show ?thesis using 1 2 3 4 5 by (simp add: toy_states_def Let_def)
qed

lemma toy_run: "length hs \<le> 2 \<Longrightarrow> (sync_step toy_consensus 2)\<^sup>*\<^sup>* toy_started (toy_answered hs)"
  using run_reaches [OF toy_states_run [of hs]] by (simp add: toy_states_def Let_def)

lemma toy_candidate: "validated_candidate toy_consensus toy_genesis [([1], [2])] 9 = Some toy_chain"
  by (simp add: validated_candidate_def append_batch_def toy_append) (simp add: toy_genesis_def toy_chain_def)

lemma toy_bound: "bound_round toy_consensus 2 (toy_answered [([1], [2])]) (toy_round [([1], [([1], [2])]), ([2], [([1], [2])])])"
proof -
  have "sync_inv toy_consensus 2 (toy_answered [([1], [2])])"
    using sync_reachable_inv [OF toy_laws toy_sync_started toy_run] by simp
  moreover have "hash_binding toy_consensus (toy_round [([1], [([1], [2])]), ([2], [([1], [2])])])"
    by (simp add: hash_binding_def round_headers_def toy_round_def toy_consensus_def)
  ultimately show ?thesis unfolding bound_round_def using toy_laws by (simp add: toy_answered_def toy_sync_at_def)
qed

definition toy_current :: "(hash \<times> hash, nat) header_sync" where
  "toy_current = fst (finish_round_with_headers toy_consensus (\<lambda>ps. ps) (toy_answered []) 9)"

lemma toy_current_state: "hs_state toy_current = HeaderCurrent" "hs_chain toy_current = toy_genesis"
  by (simp_all add: toy_current_def finish_round_with_headers_def toy_answered_def toy_sync_at_def toy_round_def toy_config_def toy_peer_def
      toy_tip iterate_def validated_candidate_def select_best_def maximum_work_def candidate_work_def candidate_hash_def
      install_winner_def record_success_def reports_current_def Let_def)

definition toy_current_run :: "(hash \<times> hash, nat) header_sync list" where
  "toy_current_run = toy_states [] @ [toy_current]"

lemma toy_current_run: "toy_current_run \<noteq> []" "hd toy_current_run = toy_started" "last toy_current_run = toy_current"
  "successively (sync_step toy_consensus 2) toy_current_run"
proof -
  have "sync_step toy_consensus 2 (toy_answered []) toy_current"
    by (rule sync_step.finished [OF id_order, where now = 9]) (simp add: toy_current_def prod_eq_iff)
  moreover have "last (toy_states []) = toy_answered []" "hd (toy_states []) = toy_started" "toy_states [] \<noteq> []"
    by (simp_all add: toy_states_def Let_def)
  ultimately show "toy_current_run \<noteq> []" "hd toy_current_run = toy_started" "last toy_current_run = toy_current"
    "successively (sync_step toy_consensus 2) toy_current_run"
    using toy_states_run [of "[]"] by (simp_all add: toy_current_run_def successively_append_iff)
qed

lemma toy_current_reachable: "(sync_step toy_consensus 2)\<^sup>*\<^sup>* toy_started toy_current"
  using run_reaches [OF toy_current_run(4,1)] by (simp add: toy_current_run)

section \<open>Properties\<close>

text \<open>C40: Every synchroniser that runs from a validated chain stays within its policy.  In each reachable state the
  configuration is the validated one, at most the permitted number of distinct peers is tracked, a peer is
  banned exactly when its failures reach the limit, an active round has the base of the present chain and
  holds at most one bounded answer of each requested peer, none of which is banned; the chain is a valid
  window that grew from the initial one by validated batches, its work and the generation never decrease, and
  starting a round always returns.\<close>

theorem sync_invariant:
  assumes "consensus_laws C" and "sync_started C s0" and "(sync_step C K)\<^sup>*\<^sup>* s0 s"
  shows "sync_inv C K s \<and> sync_progress C s0 s \<and> (\<forall>it ps now. begin_round C it s ps now \<noteq> None)"
  using sync_reachable_inv [OF assms] begin_round_returns by blast

theorem sync_invariant_witness:
  "sync_inv toy_consensus 2 toy_current \<and> sync_progress toy_consensus toy_started toy_current \<and>
   begin_round toy_consensus (\<lambda>ps. ps) toy_current [[1], [2]] 40 \<noteq> None"
  using sync_invariant [OF toy_laws toy_sync_started toy_current_reachable] by blast

text \<open>C11: A round is decided by agreement on the heaviest valid answer.  If the headers of a round do not collide, it
  succeeds exactly when one list of headers is valid on the present chain, was sent by at least the required
  number of peers and has more work than every other valid answer; this list is then accepted, its senders
  are credited, the senders of invalid answers are charged, and the result does not depend on the order in
  which the answers are visited.\<close>

theorem round_agreement:
  fixes C :: "('h, 'w :: linorder, 'x) consensus"
  assumes "bound_round C K s r" and "iteration_order it"
  shows "finish_round_with_headers C it s now = (s', Inr out) \<longleftrightarrow>
    (\<exists>hs c. agreed_answer C s now r hs c \<and>
       s' = installed (judged C s now r) (round_answers C s now r) (he_hash (lc_tip c)) (length (ro_responses r) = length (ro_requested r)) c \<and>
       out = \<lparr>oc_status = header_sync_status s', oc_accepted_headers = hs\<rparr>)"
  using assms by (rule round_agreement_iff)

theorem round_agreement_witness:
  "\<exists>s' out. finish_round_with_headers toy_consensus rev (toy_answered [([1], [2])]) 9 = (s', Inr out) \<and>
     oc_accepted_headers out = [([1], [2])] \<and> hs_chain s' = toy_chain"
proof -
  have "{q. (q, [([1], [2])]) \<in> set [([1], [([1], [2])]), ([2], [([1], [2])])]} = {[1], [2 :: u8]}" by auto
  then have "card {q. (q, [([1], [2])]) \<in> set (ro_responses (toy_round [([1], [([1], [2])]), ([2], [([1], [2])])]))} = 2"
    by (simp add: toy_round_def)
  then have "agreed_answer toy_consensus (toy_answered [([1], [2])]) 9 (toy_round [([1], [([1], [2])]), ([2], [([1], [2])])]) [([1], [2])] toy_chain"
    by (auto simp: agreed_answer_def toy_answered_def toy_sync_at_def toy_candidate toy_config_def toy_round_def)
  then obtain s' out where "s' = installed (judged toy_consensus (toy_answered [([1], [2])]) 9 (toy_round [([1], [([1], [2])]), ([2], [([1], [2])])]))
        (round_answers toy_consensus (toy_answered [([1], [2])]) 9 (toy_round [([1], [([1], [2])]), ([2], [([1], [2])])]))
        (he_hash (lc_tip toy_chain)) True toy_chain" "out = \<lparr>oc_status = header_sync_status s', oc_accepted_headers = [([1], [2])]\<rparr>"
      "finish_round_with_headers toy_consensus rev (toy_answered [([1], [2])]) 9 = (s', Inr out)"
    using round_agreement [OF toy_bound, of rev 9] by (simp add: iteration_order_def toy_round_def) blast
  then show ?thesis by (auto simp: installed_def Let_def)
qed



end
