(* ===== verification/Direct_Transport.thy ===== *)
theory Direct_Transport
  imports Dns_Query Net_Policy Hns_Resource
begin

unbundle bit_operations_syntax

text \<open>
  Direct authoritative DNS (src/crates/hns-transport/src/lib.rs): the endpoints that a verified resource
  commits and the port and address policy admits, and the exchange of one query over UDP or TCP with an
  endpoint that is authorised for it.

  The operations of a socket are the fields of the records \<open>udp_io\<close> and \<open>tcp_io\<close>: a call takes the socket as the
  calls before it left it, so that what is sent and received depends on the address the socket was connected
  to, and returns its result and the socket.  The cancellation flag is shared with other threads, so
  its value at the n-th check is an argument.  A \<open>Duration\<close> is its number of nanoseconds.
\<close>

section \<open>Address predicates of the standard library\<close>

fun v4_is_unspecified :: "ipv4_addr \<Rightarrow> bool" where
  "v4_is_unspecified (Ipv4Addr a b c d) \<longleftrightarrow> a = 0 \<and> b = 0 \<and> c = 0 \<and> d = 0"

fun v4_is_loopback :: "ipv4_addr \<Rightarrow> bool" where
  "v4_is_loopback (Ipv4Addr a b c d) \<longleftrightarrow> a = 127"

fun v4_is_private :: "ipv4_addr \<Rightarrow> bool" where
  "v4_is_private (Ipv4Addr a b c d) \<longleftrightarrow> a = 10 \<or> a = 172 \<and> 16 \<le> b \<and> b \<le> 31 \<or> a = 192 \<and> b = 168"

fun v4_is_link_local :: "ipv4_addr \<Rightarrow> bool" where
  "v4_is_link_local (Ipv4Addr a b c d) \<longleftrightarrow> a = 169 \<and> b = 254"

fun v4_is_multicast :: "ipv4_addr \<Rightarrow> bool" where
  "v4_is_multicast (Ipv4Addr a b c d) \<longleftrightarrow> 224 \<le> a \<and> a \<le> 239"

fun v4_is_broadcast :: "ipv4_addr \<Rightarrow> bool" where
  "v4_is_broadcast (Ipv4Addr a b c d) \<longleftrightarrow> a = 255 \<and> b = 255 \<and> c = 255 \<and> d = 255"

fun v4_is_documentation :: "ipv4_addr \<Rightarrow> bool" where
  "v4_is_documentation (Ipv4Addr a b c d) \<longleftrightarrow>
     a = 192 \<and> b = 0 \<and> c = 2 \<or> a = 198 \<and> b = 51 \<and> c = 100 \<or> a = 203 \<and> b = 0 \<and> c = 113"

definition v6_is_unspecified :: "ipv6_addr \<Rightarrow> bool" where
  "v6_is_unspecified address \<longleftrightarrow> v6_segments address = [0, 0, 0, 0, 0, 0, 0, 0]"

definition v6_is_loopback :: "ipv6_addr \<Rightarrow> bool" where
  "v6_is_loopback address \<longleftrightarrow> v6_segments address = [0, 0, 0, 0, 0, 0, 0, 1]"

definition v6_is_multicast :: "ipv6_addr \<Rightarrow> bool" where
  "v6_is_multicast address \<longleftrightarrow> v6_segments address ! 0 AND 0xff00 = 0xff00"

definition ip_is_loopback :: "ip_addr \<Rightarrow> bool" where
  "ip_is_loopback address = (case address of V4 a \<Rightarrow> v4_is_loopback a | V6 a \<Rightarrow> v6_is_loopback a)"

definition ip_is_unspecified :: "ip_addr \<Rightarrow> bool" where
  "ip_is_unspecified address = (case address of V4 a \<Rightarrow> v4_is_unspecified a | V6 a \<Rightarrow> v6_is_unspecified a)"

definition ip_is_multicast :: "ip_addr \<Rightarrow> bool" where
  "ip_is_multicast address = (case address of V4 a \<Rightarrow> v4_is_multicast a | V6 a \<Rightarrow> v6_is_multicast a)"

section \<open>Limits, endpoints and errors\<close>

definition DNS_PORT :: u16 where
  "DNS_PORT = 53"

definition MAX_AUTHORITY_ENDPOINTS :: usize where
  "MAX_AUTHORITY_ENDPOINTS = 64"

datatype authority_port_policy = StandardDns | RegtestFixture u16

datatype (plugins only: code) ('x, 'io) transport_error =
  DtWire wire_error | DtIo 'io | InvalidLimits | InvalidRegtestFixture | EndpointLimit | NoPermittedEndpoint | QueryLimit
| ResponseLimit | ShortWrite | DtCancelled | StaleAnchor | QueryOutsideAuthority | DtCovenant 'x

type_synonym duration = nat

definition duration_from_secs :: "nat \<Rightarrow> duration" where
  "duration_from_secs n = n * 1000000000"

record transport_limits =
  tl_timeout :: duration
  tl_max_query_bytes :: usize
  tl_max_response_bytes :: usize

definition default_transport_limits :: transport_limits where
  "default_transport_limits =
     \<lparr>tl_timeout = duration_from_secs 5, tl_max_query_bytes = 1232, tl_max_response_bytes = U16_MAX\<rparr>"

definition transport_limits_validate :: "transport_limits \<Rightarrow> (('x, 'io) transport_error, transport_limits) result" where
  "transport_limits_validate l =
     (if tl_timeout l = 0 \<or> tl_timeout l > duration_from_secs 60 \<or> tl_max_query_bytes l = 0 \<or> tl_max_query_bytes l > U16_MAX \<or>
         tl_max_response_bytes l < 12 \<or> tl_max_response_bytes l > U16_MAX
      then Inl InvalidLimits else Inr l)"

definition cancellation_check :: "(nat \<Rightarrow> bool) \<Rightarrow> nat \<Rightarrow> (('x, 'io) transport_error, unit) result" where
  "cancellation_check cancelled n = (if cancelled n then Inl DtCancelled else Inr ())"

type_synonym endpoint_addr = "ip_addr \<times> u16"

record 'w authoritative_endpoint =
  ae_address :: endpoint_addr
  ae_anchor :: "'w hns_anchor"
  ae_name_hash :: hash

record 'w authoritative_set =
  as_endpoints :: "'w authoritative_endpoint list"
  as_anchor :: "'w hns_anchor"

section \<open>Endpoints of a verified resource\<close>

definition in_bailiwick :: "resource_name \<Rightarrow> bytes \<Rightarrow> bool" where
  "in_bailiwick name tld \<longleftrightarrow> rn_labels name \<noteq> [] \<and> last (rn_labels name) = tld"

definition is_global_v4 :: "ipv4_addr \<Rightarrow> bool" where
  "is_global_v4 address =
     (let octets = v4_octets address in
      \<not> v4_is_unspecified address \<and> \<not> v4_is_loopback address \<and> \<not> v4_is_private address \<and> \<not> v4_is_link_local address \<and>
      \<not> v4_is_multicast address \<and> \<not> v4_is_broadcast address \<and> \<not> v4_is_documentation address \<and>
      \<not> (octets ! 0 = 100 \<and> 64 \<le> octets ! 1 \<and> octets ! 1 \<le> 127) \<and>
      \<not> (octets ! 0 = 192 \<and> octets ! 1 = 0 \<and> octets ! 2 = 0) \<and>
      \<not> (octets ! 0 = 198 \<and> octets ! 1 \<in> {18, 19}) \<and>
      octets ! 0 < 240)"

definition is_globally_routable :: "ip_addr \<Rightarrow> bool" where
  "is_globally_routable address =
     (case address of
        V4 a \<Rightarrow> is_global_v4 a
      | V6 a \<Rightarrow>
          (case to_ipv4_mapped a of
             Some mapped \<Rightarrow> is_global_v4 mapped
           | None \<Rightarrow>
               let segments = v6_segments a in
               \<not> (v6_is_unspecified a \<or> v6_is_loopback a \<or> v6_is_multicast a \<or> segments ! 0 AND 0xfe00 = 0xfc00 \<or>
                  segments ! 0 AND 0xffc0 = 0xfe80 \<or> segments ! 0 = 0x2001 \<and> segments ! 1 = 0x0db8)))"

fun record_address :: "bytes \<Rightarrow> hns_resource_record \<Rightarrow> ip_addr option" where
  "record_address tld (HrGlue4 name address) = (if in_bailiwick name tld then Some (V4 address) else None)"
| "record_address tld (HrGlue6 name address) = (if in_bailiwick name tld then Some (V6 address) else None)"
| "record_address tld (HrSynth4 address) = Some (V4 address)"
| "record_address tld (HrSynth6 address) = Some (V6 address)"
| "record_address tld _ = None"

definition address_permitted :: "authority_port_policy \<Rightarrow> light_network \<Rightarrow> ip_addr \<Rightarrow> bool" where
  "address_permitted policy network address =
     (case policy of
        RegtestFixture _ \<Rightarrow> ip_is_loopback address
      | StandardDns \<Rightarrow>
          if network = MainNet \<or> network = TestNet then is_globally_routable address
          else \<not> ip_is_unspecified address \<and> \<not> ip_is_multicast address)"

fun collect_addresses ::
  "authority_port_policy \<Rightarrow> light_network \<Rightarrow> bytes \<Rightarrow> hns_resource_record list \<Rightarrow> ip_addr list \<Rightarrow>
   (('x, 'io) transport_error, ip_addr list) result" where
  "collect_addresses policy network tld [] addresses = Inr addresses"
| "collect_addresses policy network tld (record # records) addresses =
     (case record_address tld record of
        None \<Rightarrow> collect_addresses policy network tld records addresses
      | Some address \<Rightarrow>
          if address_permitted policy network address \<and> address \<notin> set addresses then
            if length addresses \<ge> MAX_AUTHORITY_ENDPOINTS then Inl EndpointLimit
            else collect_addresses policy network tld records (addresses @ [address])
          else collect_addresses policy network tld records addresses)"

definition policy_port :: "authority_port_policy \<Rightarrow> light_network \<Rightarrow> (('x, 'io) transport_error, u16) result" where
  "policy_port policy network =
     (case policy of
        StandardDns \<Rightarrow> Inr DNS_PORT
      | RegtestFixture port \<Rightarrow>
          if network \<noteq> RegTest \<or> port = 0 \<or> port = DNS_PORT then Inl InvalidRegtestFixture else Inr port)"

definition from_verified_resource ::
  "'w verified_hns_resource \<Rightarrow> authority_port_policy \<Rightarrow> (('x, 'io) transport_error, 'w authoritative_set) result" where
  "from_verified_resource res policy =
     rbind (policy_port policy (an_network (vh_anchor res))) (\<lambda>port.
     rbind (collect_addresses policy (an_network (vh_anchor res)) (vh_name res) (hr_records (vh_resource res)) []) (\<lambda>addresses.
     if addresses = [] then Inl NoPermittedEndpoint
     else Inr \<lparr>as_endpoints = map (\<lambda>address. \<lparr>ae_address = (address, port), ae_anchor = vh_anchor res, ae_name_hash = vh_name_hash res\<rparr>) addresses,
               as_anchor = vh_anchor res\<rparr>))"

section \<open>Exchanges\<close>

definition authorize ::
  "('p, 'x) name_lib \<Rightarrow> 'w authoritative_endpoint \<Rightarrow> query \<Rightarrow> u64 \<Rightarrow> (('x, 'io) transport_error, unit) result" where
  "authorize L endpoint q now =
     (if now < an_validated_at (ae_anchor endpoint) \<or> now > an_valid_until (ae_anchor endpoint) then Inl StaleAnchor
      else if labels (q_name (query_question q)) = [] then Inl QueryOutsideAuthority
      else rbind (map_err DtCovenant (nl_hash_name L (last (labels (q_name (query_question q)))))) (\<lambda>tld_hash.
        if tld_hash \<noteq> ae_name_hash endpoint then Inl QueryOutsideAuthority else Inr ()))"

definition parse_correlated :: "query \<Rightarrow> bytes \<Rightarrow> usize \<Rightarrow> (('x, 'io) transport_error, message) result" where
  "parse_correlated q response maximum =
     (let limits = requester_limits\<lparr>max_message_len := maximum\<rparr> in
      rbind (map_err DtWire (parse_with_limits response limits)) (\<lambda>message.
      rbind (map_err DtWire (correlate q message)) (\<lambda>_. Inr message)))"

definition direct_transport_new :: "transport_limits \<Rightarrow> (('x, 'io) transport_error, transport_limits) result" where
  "direct_transport_new limits = transport_limits_validate limits"

record ('s, 'io) udp_io =
  udp_bind :: "endpoint_addr \<Rightarrow> ('io, 's) result"
  udp_set_read_timeout :: "'s \<Rightarrow> duration \<Rightarrow> ('io, 's) result"
  udp_set_write_timeout :: "'s \<Rightarrow> duration \<Rightarrow> ('io, 's) result"
  udp_connect :: "'s \<Rightarrow> endpoint_addr \<Rightarrow> ('io, 's) result"
  udp_send :: "'s \<Rightarrow> bytes \<Rightarrow> ('io, usize \<times> 's) result"
  udp_recv :: "'s \<Rightarrow> usize \<Rightarrow> ('io, bytes \<times> 's) result"

definition unspecified_address :: "ip_addr \<Rightarrow> endpoint_addr" where
  "unspecified_address address =
     (case address of V4 _ \<Rightarrow> (V4 (Ipv4Addr 0 0 0 0), 0) | V6 _ \<Rightarrow> (V6 (Ipv6Addr 0 0 0 0 0 0 0 0), 0))"

definition exchange_udp ::
  "('p, 'x) name_lib \<Rightarrow> ('s, 'io) udp_io \<Rightarrow> transport_limits \<Rightarrow> 'w authoritative_endpoint \<Rightarrow> query \<Rightarrow> (nat \<Rightarrow> bool) \<Rightarrow> u64 \<Rightarrow>
   (('x, 'io) transport_error, message) result" where
  "exchange_udp L io limits endpoint q cancelled now =
     rbind (authorize L endpoint q now) (\<lambda>_.
     rbind (cancellation_check cancelled 0) (\<lambda>_.
     rbind (map_err DtWire (query_encode q (tl_max_query_bytes limits))) (\<lambda>query_bytes.
     rbind (map_err DtIo (udp_bind io (unspecified_address (fst (ae_address endpoint))))) (\<lambda>socket.
     rbind (map_err DtIo (udp_set_read_timeout io socket (tl_timeout limits))) (\<lambda>socket.
     rbind (map_err DtIo (udp_set_write_timeout io socket (tl_timeout limits))) (\<lambda>socket.
     rbind (map_err DtIo (udp_connect io socket (ae_address endpoint))) (\<lambda>socket.
     rbind (cancellation_check cancelled 1) (\<lambda>_.
     rbind (map_err DtIo (udp_send io socket query_bytes)) (\<lambda>(sent, socket).
     if sent \<noteq> length query_bytes then Inl ShortWrite
     else
       rbind (map_err DtIo (udp_recv io socket (min (tl_max_response_bytes limits + 1) usize_max))) (\<lambda>(response, socket).
       rbind (cancellation_check cancelled 2) (\<lambda>_.
       if length response = 0 \<or> length response > tl_max_response_bytes limits then Inl ResponseLimit
       else parse_correlated q response (tl_max_response_bytes limits))))))))))))"

record ('s, 'io) tcp_io =
  tcp_connect_timeout :: "endpoint_addr \<Rightarrow> duration \<Rightarrow> ('io, 's) result"
  tcp_set_read_timeout :: "'s \<Rightarrow> duration \<Rightarrow> ('io, 's) result"
  tcp_set_write_timeout :: "'s \<Rightarrow> duration \<Rightarrow> ('io, 's) result"
  tcp_write_all :: "'s \<Rightarrow> bytes \<Rightarrow> ('io, 's) result"
  tcp_flush :: "'s \<Rightarrow> ('io, 's) result"
  tcp_read_exact :: "'s \<Rightarrow> usize \<Rightarrow> ('io, bytes \<times> 's) result"

definition exchange_tcp ::
  "('p, 'x) name_lib \<Rightarrow> ('s, 'io) tcp_io \<Rightarrow> transport_limits \<Rightarrow> 'w authoritative_endpoint \<Rightarrow> query \<Rightarrow> (nat \<Rightarrow> bool) \<Rightarrow> u64 \<Rightarrow>
   (('x, 'io) transport_error, message) result" where
  "exchange_tcp L io limits endpoint q cancelled now =
     rbind (authorize L endpoint q now) (\<lambda>_.
     rbind (cancellation_check cancelled 0) (\<lambda>_.
     rbind (map_err DtWire (query_encode q (tl_max_query_bytes limits))) (\<lambda>query_bytes.
     if length query_bytes > U16_MAX then Inl QueryLimit
     else
       rbind (map_err DtIo (tcp_connect_timeout io (ae_address endpoint) (tl_timeout limits))) (\<lambda>stream.
       rbind (map_err DtIo (tcp_set_read_timeout io stream (tl_timeout limits))) (\<lambda>stream.
       rbind (map_err DtIo (tcp_set_write_timeout io stream (tl_timeout limits))) (\<lambda>stream.
       rbind (cancellation_check cancelled 1) (\<lambda>_.
       rbind (map_err DtIo (tcp_write_all io stream (be_bytes 2 (of_nat (length query_bytes) :: u16)))) (\<lambda>stream.
       rbind (map_err DtIo (tcp_write_all io stream query_bytes)) (\<lambda>stream.
       rbind (map_err DtIo (tcp_flush io stream)) (\<lambda>stream.
       rbind (map_err DtIo (tcp_read_exact io stream 2)) (\<lambda>(len_bytes, stream).
       let response_length = unat (be_word len_bytes :: u16) in
       if response_length = 0 \<or> response_length > tl_max_response_bytes limits then Inl ResponseLimit
       else
         rbind (map_err DtIo (tcp_read_exact io stream response_length)) (\<lambda>(response, stream).
         rbind (cancellation_check cancelled 2) (\<lambda>_.
         parse_correlated q response (tl_max_response_bytes limits))))))))))))))"

end
