(* ===== verification/Direct_Transport_Laws.thy ===== *)
theory Direct_Transport_Laws
  imports Direct_Transport Dns_Properties Hns_Resource_Laws
begin

unbundle bit_operations_syntax

text \<open>
  Correctness of the direct transport: the endpoints of a resource are exactly its permitted addresses, an
  answer is read only from a socket connected to an endpoint that the current chain commits for the top-level
  name of the query, and which blocks of addresses the policy refuses, compared with the browser transports.
\<close>

section \<open>Endpoints\<close>

definition committed_addresses :: "authority_port_policy \<Rightarrow> light_network \<Rightarrow> bytes \<Rightarrow> hns_resource_record list \<Rightarrow> ip_addr list" where
  "committed_addresses policy network tld records = filter (address_permitted policy network) (List.map_filter (record_address tld) records)"

definition first_occurrences :: "'a list \<Rightarrow> 'a list" where
  "first_occurrences xs = rev (remdups (rev xs))"

lemma remdups_drop: "x \<in> set zs \<Longrightarrow> remdups (ys @ x # zs) = remdups (ys @ zs)"
  by (induction ys) auto

lemma first_occurrences_seen: "x \<in> set acc \<Longrightarrow> first_occurrences (acc @ x # xs) = first_occurrences (acc @ xs)"
  using remdups_drop [of x "rev acc" "rev xs"] by (simp add: first_occurrences_def)

lemma first_occurrences_distinct: "distinct xs \<Longrightarrow> first_occurrences xs = xs"
  by (simp add: first_occurrences_def distinct_remdups_id)

lemma set_first_occurrences [simp]: "set (first_occurrences xs) = set xs" "distinct (first_occurrences xs)"
  by (simp_all add: first_occurrences_def)

lemma first_occurrences_length: "distinct acc \<Longrightarrow> length acc \<le> length (first_occurrences (acc @ xs))"
  by (simp add: first_occurrences_def length_remdups_card_conv) (metis card_mono distinct_card finite_Un finite_set sup_ge1 sup_commute)

lemma collect_addresses_eq:
  "distinct acc \<Longrightarrow> length acc \<le> MAX_AUTHORITY_ENDPOINTS \<Longrightarrow>
     collect_addresses policy network tld records acc =
       (let addresses = first_occurrences (acc @ committed_addresses policy network tld records)
        in if length addresses \<le> MAX_AUTHORITY_ENDPOINTS then Inr addresses else Inl EndpointLimit)"
proof (induction records arbitrary: acc)
  case Nil
  then show ?case by (simp add: committed_addresses_def first_occurrences_distinct)
next
  case (Cons r rs)
  show ?case
  proof (cases "record_address tld r")
    case None
    then show ?thesis using Cons by (simp add: committed_addresses_def map_filter_simps)
  next
    case (Some a)
    then have c: "committed_addresses policy network tld (r # rs) =
        (if address_permitted policy network a then [a] else []) @ committed_addresses policy network tld rs"
      by (simp add: committed_addresses_def map_filter_simps)
    have "length addresses > MAX_AUTHORITY_ENDPOINTS" if "a \<notin> set acc" "MAX_AUTHORITY_ENDPOINTS \<le> length acc"
        "addresses = first_occurrences (acc @ a # committed_addresses policy network tld rs)" for addresses
      using first_occurrences_length [of "acc @ [a]" "committed_addresses policy network tld rs"] that Cons.prems(1) by simp
    then show ?thesis
      using Some Cons.IH [of acc] Cons.IH [of "acc @ [a]"] Cons.prems first_occurrences_seen [of a acc "committed_addresses policy network tld rs"]
      by (auto simp: c Let_def)
  qed
qed

definition admitted_port :: "authority_port_policy \<Rightarrow> light_network \<Rightarrow> u16 \<Rightarrow> bool" where
  "admitted_port policy network port \<longleftrightarrow>
     (case policy of StandardDns \<Rightarrow> port = DNS_PORT | RegtestFixture p \<Rightarrow> network = RegTest \<and> port = p \<and> p \<noteq> 0 \<and> p \<noteq> DNS_PORT)"

lemma policy_port_Inr: "policy_port policy network = Inr port \<longleftrightarrow> admitted_port policy network port"
  by (auto simp: policy_port_def admitted_port_def split: authority_port_policy.splits)

text \<open>The endpoints exist exactly when the port policy fits the network and the permitted addresses, without repetitions
  and in their order, are between one and 64.\<close>

lemma from_verified_resource_iff:
  "from_verified_resource res policy = (Inr endpoints :: (('x, 'io) transport_error, _) result) \<longleftrightarrow>
     (\<exists>port. admitted_port policy (an_network (vh_anchor res)) port \<and>
        (let addresses = first_occurrences (committed_addresses policy (an_network (vh_anchor res)) (vh_name res) (hr_records (vh_resource res)))
         in addresses \<noteq> [] \<and> length addresses \<le> MAX_AUTHORITY_ENDPOINTS \<and>
            endpoints = \<lparr>as_endpoints = map (\<lambda>address. \<lparr>ae_address = (address, port), ae_anchor = vh_anchor res, ae_name_hash = vh_name_hash res\<rparr>) addresses,
              as_anchor = vh_anchor res\<rparr>))"
  using collect_addresses_eq [of "[]" policy "an_network (vh_anchor res)" "vh_name res" "hr_records (vh_resource res)"]
  by (auto simp: from_verified_resource_def result_inv policy_port_Inr Let_def split: if_splits)

lemma endpoint_committed:
  assumes "from_verified_resource res policy = (Inr endpoints :: (('x, 'io) transport_error, _) result)" and "e \<in> set (as_endpoints endpoints)"
  shows "ae_anchor e = vh_anchor res \<and> ae_name_hash e = vh_name_hash res \<and> admitted_port policy (an_network (vh_anchor res)) (snd (ae_address e)) \<and>
    address_permitted policy (an_network (vh_anchor res)) (fst (ae_address e)) \<and>
    (\<exists>record \<in> set (hr_records (vh_resource res)). record_address (vh_name res) record = Some (fst (ae_address e)))"
proof -
  obtain port where p: "admitted_port policy (an_network (vh_anchor res)) port"
    and e: "as_endpoints endpoints = map (\<lambda>address. \<lparr>ae_address = (address, port), ae_anchor = vh_anchor res, ae_name_hash = vh_name_hash res\<rparr>)
      (first_occurrences (committed_addresses policy (an_network (vh_anchor res)) (vh_name res) (hr_records (vh_resource res))))"
    using assms(1) unfolding from_verified_resource_iff Let_def by auto
  obtain a where a: "a \<in> set (committed_addresses policy (an_network (vh_anchor res)) (vh_name res) (hr_records (vh_resource res)))"
    "e = \<lparr>ae_address = (a, port), ae_anchor = vh_anchor res, ae_name_hash = vh_name_hash res\<rparr>"
    using assms(2) unfolding e by auto
  then show ?thesis using p by (auto simp: committed_addresses_def map_filter_def)
qed

section \<open>Exchanges\<close>

lemma map_err_Inr: "map_err f r = Inr x \<longleftrightarrow> r = Inr x"
  by (cases r) (simp_all add: map_err_def)

lemma guard_Inr: "(if b then Inl e else r) = Inr x \<longleftrightarrow> \<not> b \<and> r = Inr x"
  by simp

definition endpoint_authorised :: "('p, 'x) name_lib \<Rightarrow> 'w authoritative_endpoint \<Rightarrow> query \<Rightarrow> u64 \<Rightarrow> bool" where
  "endpoint_authorised L e q now \<longleftrightarrow> an_validated_at (ae_anchor e) \<le> now \<and> now \<le> an_valid_until (ae_anchor e) \<and>
     labels (q_name (query_question q)) \<noteq> [] \<and> nl_hash_name L (last (labels (q_name (query_question q)))) = Inr (ae_name_hash e)"

lemma authorize_Inr: "authorize L e q now = Inr u \<longleftrightarrow> endpoint_authorised L e q now"
  by (auto simp: authorize_def endpoint_authorised_def result_inv map_err_def not_less split: if_splits sum.splits)

definition answers_query :: "query \<Rightarrow> message \<Rightarrow> bool" where
  "answers_query q m \<longleftrightarrow> is_response (hdr_flags (m_header m)) \<and> hdr_id (m_header m) = query_id q \<and>
     opcode (hdr_flags (m_header m)) = 0 \<and> \<not> truncated (hdr_flags (m_header m)) \<and> m_questions m = [query_question q]"

lemma parse_correlated_Inr:
  "parse_correlated q bs maximum = Inr m \<longleftrightarrow> parse_with_limits bs (requester_limits\<lparr>max_message_len := maximum\<rparr>) = Inr m \<and> answers_query q m"
proof -
  have "(\<exists>c. correlate q m = Inr c) \<longleftrightarrow> answers_query q m" for m
    by (auto simp: correlate_def answers_query_def Let_def)
  then show ?thesis by (auto simp: parse_correlated_def Let_def rbind_eq_Inr map_err_Inr)
qed

lemma cancellation_check_Inr: "cancellation_check c n = Inr u \<longleftrightarrow> \<not> c n"
  by (simp add: cancellation_check_def)

lemmas exchange_inv = rbind_eq_Inr map_err_Inr guard_Inr authorize_Inr cancellation_check_Inr parse_correlated_Inr

text \<open>
  The calls of an exchange with one address.  Datagrams: a socket bound to the unspecified address is connected
  to the address, the whole query is sent over the connected socket and the response is received from it.
  Streams: the query and the response are framed by their lengths on a stream connected to the address.
\<close>

definition udp_dialogue :: "('s, 'io) udp_io \<Rightarrow> transport_limits \<Rightarrow> endpoint_addr \<Rightarrow> bytes \<Rightarrow> bytes \<Rightarrow> bool" where
  "udp_dialogue io limits address query_bytes response \<longleftrightarrow>
     (\<exists>bound s1 s2 connected sent s3.
        udp_bind io (unspecified_address (fst address)) = Inr bound \<and> udp_set_read_timeout io bound (tl_timeout limits) = Inr s1 \<and>
        udp_set_write_timeout io s1 (tl_timeout limits) = Inr s2 \<and> udp_connect io s2 address = Inr connected \<and>
        udp_send io connected query_bytes = Inr (length query_bytes, sent) \<and>
        udp_recv io sent (min (tl_max_response_bytes limits + 1) usize_max) = Inr (response, s3))"

definition tcp_dialogue :: "('s, 'io) tcp_io \<Rightarrow> transport_limits \<Rightarrow> endpoint_addr \<Rightarrow> bytes \<Rightarrow> bytes \<Rightarrow> bool" where
  "tcp_dialogue io limits address query_bytes response \<longleftrightarrow>
     (\<exists>connected s1 s2 s3 s4 sent len_bytes s5 s6.
        tcp_connect_timeout io address (tl_timeout limits) = Inr connected \<and>
        tcp_set_read_timeout io connected (tl_timeout limits) = Inr s1 \<and> tcp_set_write_timeout io s1 (tl_timeout limits) = Inr s2 \<and>
        tcp_write_all io s2 (be_bytes 2 (of_nat (length query_bytes) :: u16)) = Inr s3 \<and> tcp_write_all io s3 query_bytes = Inr s4 \<and>
        tcp_flush io s4 = Inr sent \<and> tcp_read_exact io sent 2 = Inr (len_bytes, s5) \<and> unat (be_word len_bytes :: u16) \<noteq> 0 \<and>
        unat (be_word len_bytes :: u16) \<le> tl_max_response_bytes limits \<and>
        tcp_read_exact io s5 (unat (be_word len_bytes :: u16)) = Inr (response, s6))"

text \<open>A datagram exchange succeeds exactly when the calls do and the answer fits and answers the query.\<close>

lemma exchange_udp_iff:
  "exchange_udp L io limits e q cancelled now = Inr m \<longleftrightarrow>
     endpoint_authorised L e q now \<and> \<not> cancelled 0 \<and> \<not> cancelled 1 \<and> \<not> cancelled 2 \<and>
     (\<exists>query_bytes response. query_encode q (tl_max_query_bytes limits) = Inr query_bytes \<and>
        udp_dialogue io limits (ae_address e) query_bytes response \<and>
        response \<noteq> [] \<and> length response \<le> tl_max_response_bytes limits \<and>
        parse_with_limits response (requester_limits\<lparr>max_message_len := tl_max_response_bytes limits\<rparr>) = Inr m \<and> answers_query q m)"
  unfolding exchange_udp_def udp_dialogue_def by (auto simp: exchange_inv not_less split_beta)

lemma exchange_tcp_iff:
  "exchange_tcp L io limits e q cancelled now = Inr m \<longleftrightarrow>
     endpoint_authorised L e q now \<and> \<not> cancelled 0 \<and> \<not> cancelled 1 \<and> \<not> cancelled 2 \<and>
     (\<exists>query_bytes response. query_encode q (tl_max_query_bytes limits) = Inr query_bytes \<and> length query_bytes \<le> U16_MAX \<and>
        tcp_dialogue io limits (ae_address e) query_bytes response \<and>
        parse_with_limits response (requester_limits\<lparr>max_message_len := tl_max_response_bytes limits\<rparr>) = Inr m \<and> answers_query q m)"
  unfolding exchange_tcp_def tcp_dialogue_def Let_def by (auto simp: exchange_inv not_less split_beta)

section \<open>The address policies\<close>

text \<open>Among IPv4 addresses the policy is the one of the browser transports except for two blocks that it lets
  through: 0.0.0.0/8 without 0.0.0.0, and 192.88.99.0/24.\<close>

lemma is_global_v4_iff:
  "is_global_v4 (Ipv4Addr a b c d) \<longleftrightarrow>
     is_public_ipv4 (Ipv4Addr a b c d) \<or> a = 0 \<and> (b, c, d) \<noteq> (0, 0, 0) \<or> a = 192 \<and> b = 88 \<and> c = 99"
proof -
  have r: "18 \<le> b \<and> b \<le> 19 \<longleftrightarrow> b = 18 \<or> b = 19" by (auto simp: word_le_nat_alt word_unat_eq_iff)
  have m: "\<not> (224 \<le> a \<and> a \<le> 239) \<and> a < 240 \<longleftrightarrow> \<not> (224 \<le> a \<and> a \<le> 255)"
    using u8_bound [of a] by (auto simp: word_le_nat_alt word_less_nat_alt)
  consider (special) "a \<in> {0, 10, 100, 127, 169, 172, 192, 203}" | (test) "a = 198" | (high) "224 \<le> a"
    | (other) "a \<notin> {0, 10, 100, 127, 169, 172, 192, 198, 203}" "\<not> 224 \<le> a" by blast
  then show ?thesis
  proof cases
    case special
    then show ?thesis by (elim insertE emptyE) (auto simp: is_global_v4_def)
  next
    case test
    then show ?thesis by (auto simp: is_global_v4_def r)
  next
    case high
    have "a \<le> 255" "a \<noteq> 0" "a \<noteq> 192" using high u8_bound [of a] by (auto simp: word_le_nat_alt)
    then show ?thesis using high m by (simp add: is_global_v4_def) blast
  next
    case other
    have "a \<noteq> 255" "a < 240" "\<not> (224 \<le> a \<and> a \<le> 239)" using other(2) m by auto
    then show ?thesis using other by (simp add: is_global_v4_def)
  qed
qed

lemma and_subset: "(s :: u16) AND m = v \<Longrightarrow> m AND n = n \<Longrightarrow> s AND n = v AND n"
  by (metis and.assoc)

text \<open>The policy of the browser transports is the stricter one; it refuses the embedded and site-local forms below.\<close>

lemma public_is_global: "is_publicly_routable address \<Longrightarrow> is_globally_routable address"
proof (cases address)
  case (V4 a)
  assume "is_publicly_routable address"
  then show ?thesis using V4 by (cases a) (simp add: is_publicly_routable_def is_globally_routable_def is_global_v4_iff)
next
  case (V6 x)
  assume p: "is_publicly_routable address"
  obtain a b c d e f g h where x: "x = Ipv6Addr a b c d e f g h" by (cases x) auto
  show ?thesis
  proof (cases "to_ipv4_mapped x")
    case (Some y)
    then show ?thesis using p V6 by (cases y) (simp add: is_publicly_routable_def is_public_ipv6_def is_globally_routable_def is_global_v4_iff)
  next
    case None
    have n: "a = 0x64 \<or> a AND 0xe000 = 0x2000 \<and> \<not> (a = 0x2001 \<and> b = 0xdb8)"
      using p None V6 by (auto simp: is_publicly_routable_def is_public_ipv6_def x Let_def split: if_splits)
    have "a \<noteq> 0" "a AND 0xff00 \<noteq> 0xff00" "a AND 0xfe00 \<noteq> 0xfc00" "a AND 0xffc0 \<noteq> 0xfe80" if "a AND 0xe000 = 0x2000"
      using that and_subset [of a "0xff00" "0xff00" "0xe000"] and_subset [of a "0xfe00" "0xfc00" "0xe000"]
        and_subset [of a "0xffc0" "0xfe80" "0xe000"] by auto
    then show ?thesis using n None V6
      by (auto simp: is_globally_routable_def x Let_def v6_is_unspecified_def v6_is_loopback_def v6_is_multicast_def)
  qed
qed

lemma globally_routable_gap:
  "list_all (\<lambda>a. is_globally_routable a \<and> \<not> is_publicly_routable a)
     [V4 (Ipv4Addr 0 0 0 1), V4 (Ipv4Addr 192 88 99 1), V6 (Ipv6Addr 0 0 0 0 0 0 0x7f00 1), V6 (Ipv6Addr 0x64 0xff9b 0 0 0 0 0x7f00 1),
      V6 (Ipv6Addr 0x2002 0x7f00 1 0 0 0 0 1), V6 (Ipv6Addr 0xfec0 0 0 0 0 0 0 1)]"
  by (simp add: is_globally_routable_def is_publicly_routable_def is_public_ipv6_def is_global_v4_iff Let_def
      v6_is_unspecified_def v6_is_loopback_def v6_is_multicast_def)

text \<open>
  The addresses that the policy of the public networks refuses, as blocks; an IPv4-mapped address is judged by
  the embedded address.  Every other address is admitted, whether or not it is routed on the Internet.
\<close>

definition refused_ipv4_blocks :: "(nat \<times> nat) list" where
  "refused_ipv4_blocks =
     [(v4_num (Ipv4Addr 0 0 0 0), 32), (v4_num (Ipv4Addr 10 0 0 0), 8), (v4_num (Ipv4Addr 100 64 0 0), 10),
      (v4_num (Ipv4Addr 127 0 0 0), 8), (v4_num (Ipv4Addr 169 254 0 0), 16), (v4_num (Ipv4Addr 172 16 0 0), 12),
      (v4_num (Ipv4Addr 192 0 0 0), 24), (v4_num (Ipv4Addr 192 0 2 0), 24), (v4_num (Ipv4Addr 192 168 0 0), 16),
      (v4_num (Ipv4Addr 198 18 0 0), 15), (v4_num (Ipv4Addr 198 51 100 0), 24), (v4_num (Ipv4Addr 203 0 113 0), 24),
      (v4_num (Ipv4Addr 224 0 0 0), 3)]"

definition refused_ipv6_blocks :: "(nat \<times> nat) list" where
  "refused_ipv6_blocks =
     [(v6_num (Ipv6Addr 0 0 0 0 0 0 0 0), 128), (v6_num (Ipv6Addr 0 0 0 0 0 0 0 1), 128),
      (v6_num (Ipv6Addr 0xff00 0 0 0 0 0 0 0), 8), (v6_num (Ipv6Addr 0xfc00 0 0 0 0 0 0 0), 7),
      (v6_num (Ipv6Addr 0xfe80 0 0 0 0 0 0 0), 10), (v6_num (Ipv6Addr 0x2001 0xdb8 0 0 0 0 0 0), 32)]"

definition outside_refused_blocks :: "ip_addr \<Rightarrow> bool" where
  "outside_refused_blocks address \<longleftrightarrow>
     (case address of
        V4 a \<Rightarrow> list_all (\<lambda>b. \<not> in_cidr 32 (v4_num a) b) refused_ipv4_blocks
      | V6 a \<Rightarrow>
          if in_cidr 128 (v6_num a) ipv4_mapped_block
          then list_all (\<lambda>b. \<not> in_cidr 32 (v6_num a mod 2 ^ 32) b) refused_ipv4_blocks
          else list_all (\<lambda>b. \<not> in_cidr 128 (v6_num a) b) refused_ipv6_blocks)"

lemma v4_prefix:
  "in_cidr 32 (v4_num (Ipv4Addr a b c d)) (v4_num (Ipv4Addr 0 0 0 0), 32) \<longleftrightarrow> a = 0 \<and> b = 0 \<and> c = 0 \<and> d = 0"
  "in_cidr 32 (v4_num (Ipv4Addr a b c d)) (v4_num (Ipv4Addr 10 0 0 0), 8) \<longleftrightarrow> a = 10"
  "in_cidr 32 (v4_num (Ipv4Addr a b c d)) (v4_num (Ipv4Addr 100 64 0 0), 10) \<longleftrightarrow> a = 100 \<and> 64 \<le> b \<and> b \<le> 127"
  "in_cidr 32 (v4_num (Ipv4Addr a b c d)) (v4_num (Ipv4Addr 127 0 0 0), 8) \<longleftrightarrow> a = 127"
  "in_cidr 32 (v4_num (Ipv4Addr a b c d)) (v4_num (Ipv4Addr 169 254 0 0), 16) \<longleftrightarrow> a = 169 \<and> b = 254"
  "in_cidr 32 (v4_num (Ipv4Addr a b c d)) (v4_num (Ipv4Addr 172 16 0 0), 12) \<longleftrightarrow> a = 172 \<and> 16 \<le> b \<and> b \<le> 31"
  "in_cidr 32 (v4_num (Ipv4Addr a b c d)) (v4_num (Ipv4Addr 192 0 0 0), 24) \<longleftrightarrow> a = 192 \<and> b = 0 \<and> c = 0"
  "in_cidr 32 (v4_num (Ipv4Addr a b c d)) (v4_num (Ipv4Addr 192 0 2 0), 24) \<longleftrightarrow> a = 192 \<and> b = 0 \<and> c = 2"
  "in_cidr 32 (v4_num (Ipv4Addr a b c d)) (v4_num (Ipv4Addr 192 168 0 0), 16) \<longleftrightarrow> a = 192 \<and> b = 168"
  "in_cidr 32 (v4_num (Ipv4Addr a b c d)) (v4_num (Ipv4Addr 198 18 0 0), 15) \<longleftrightarrow> a = 198 \<and> 18 \<le> b \<and> b \<le> 19"
  "in_cidr 32 (v4_num (Ipv4Addr a b c d)) (v4_num (Ipv4Addr 198 51 100 0), 24) \<longleftrightarrow> a = 198 \<and> b = 51 \<and> c = 100"
  "in_cidr 32 (v4_num (Ipv4Addr a b c d)) (v4_num (Ipv4Addr 203 0 113 0), 24) \<longleftrightarrow> a = 203 \<and> b = 0 \<and> c = 113"
  "in_cidr 32 (v4_num (Ipv4Addr a b c d)) (v4_num (Ipv4Addr 224 0 0 0), 3) \<longleftrightarrow> 224 \<le> a"
proof -
  have n: "v4_num (Ipv4Addr a b c d) = ((unat a * 256 + unat b) * 256 + unat c) * 256 + unat d" by simp
  note div = v4_num_div [OF n u8_bound u8_bound u8_bound]
  note pat = ipv4_pattern [OF u8_bound, of "unat a" b]
    ipv4_pattern3 [OF u8_bound u8_bound, of 0 0 "unat a" b c 192, simplified]
    ipv4_pattern3 [OF u8_bound u8_bound, of 0 2 "unat a" b c 192, simplified]
    ipv4_pattern3 [OF u8_bound u8_bound, of 51 100 "unat a" b c 198, simplified]
    ipv4_pattern3 [OF u8_bound u8_bound, of 0 113 "unat a" b c 203, simplified]
  have high: "unat a div 32 = 7 \<longleftrightarrow> 224 \<le> unat a" using u8_bound [of a] by auto
  have zero: "v4_num (Ipv4Addr a b c d) = 0 \<longleftrightarrow> unat a = 0 \<and> unat b = 0 \<and> unat c = 0 \<and> unat d = 0" by simp
  show
    "in_cidr 32 (v4_num (Ipv4Addr a b c d)) (v4_num (Ipv4Addr 0 0 0 0), 32) \<longleftrightarrow> a = 0 \<and> b = 0 \<and> c = 0 \<and> d = 0"
    "in_cidr 32 (v4_num (Ipv4Addr a b c d)) (v4_num (Ipv4Addr 10 0 0 0), 8) \<longleftrightarrow> a = 10"
    "in_cidr 32 (v4_num (Ipv4Addr a b c d)) (v4_num (Ipv4Addr 100 64 0 0), 10) \<longleftrightarrow> a = 100 \<and> 64 \<le> b \<and> b \<le> 127"
    "in_cidr 32 (v4_num (Ipv4Addr a b c d)) (v4_num (Ipv4Addr 127 0 0 0), 8) \<longleftrightarrow> a = 127"
    "in_cidr 32 (v4_num (Ipv4Addr a b c d)) (v4_num (Ipv4Addr 169 254 0 0), 16) \<longleftrightarrow> a = 169 \<and> b = 254"
    "in_cidr 32 (v4_num (Ipv4Addr a b c d)) (v4_num (Ipv4Addr 172 16 0 0), 12) \<longleftrightarrow> a = 172 \<and> 16 \<le> b \<and> b \<le> 31"
    "in_cidr 32 (v4_num (Ipv4Addr a b c d)) (v4_num (Ipv4Addr 192 0 0 0), 24) \<longleftrightarrow> a = 192 \<and> b = 0 \<and> c = 0"
    "in_cidr 32 (v4_num (Ipv4Addr a b c d)) (v4_num (Ipv4Addr 192 0 2 0), 24) \<longleftrightarrow> a = 192 \<and> b = 0 \<and> c = 2"
    "in_cidr 32 (v4_num (Ipv4Addr a b c d)) (v4_num (Ipv4Addr 192 168 0 0), 16) \<longleftrightarrow> a = 192 \<and> b = 168"
    "in_cidr 32 (v4_num (Ipv4Addr a b c d)) (v4_num (Ipv4Addr 198 18 0 0), 15) \<longleftrightarrow> a = 198 \<and> 18 \<le> b \<and> b \<le> 19"
    "in_cidr 32 (v4_num (Ipv4Addr a b c d)) (v4_num (Ipv4Addr 198 51 100 0), 24) \<longleftrightarrow> a = 198 \<and> b = 51 \<and> c = 100"
    "in_cidr 32 (v4_num (Ipv4Addr a b c d)) (v4_num (Ipv4Addr 203 0 113 0), 24) \<longleftrightarrow> a = 203 \<and> b = 0 \<and> c = 113"
    "in_cidr 32 (v4_num (Ipv4Addr a b c d)) (v4_num (Ipv4Addr 224 0 0 0), 3) \<longleftrightarrow> 224 \<le> a"
    by (simp_all add: in_cidr_def div pat high zero word_le_nat_alt word_unat_eq_iff v4_base del: v4_num.simps)
qed

lemma is_global_v4_num: "is_global_v4 x \<longleftrightarrow> list_all (\<lambda>b. \<not> in_cidr 32 (v4_num x) b) refused_ipv4_blocks"
proof (cases x)
  case (Ipv4Addr a b c d)
  have high: "a \<le> 255" using u8_bound [of a] by (simp add: word_le_nat_alt)
  consider "a = 0" | "a = 192" | "a \<noteq> 0" "a \<noteq> 192" by blast
  then show ?thesis
    unfolding Ipv4Addr refused_ipv4_blocks_def is_global_v4_iff is_public_ipv4.simps list.pred_inject v4_prefix
    by cases (use high in auto)
qed

lemma v6_high_prefix:
  "in_cidr 128 (v6_num (Ipv6Addr a b c d e f g h)) (v6_num (Ipv6Addr a' b' c' d' e' f' g' h'), 8) \<longleftrightarrow>
     unat a div 256 = unat a' div 256"
  "in_cidr 128 (v6_num (Ipv6Addr a b c d e f g h)) (v6_num (Ipv6Addr a' b' c' d' e' f' g' h'), 7) \<longleftrightarrow>
     unat a div 512 = unat a' div 512"
  "in_cidr 128 (v6_num (Ipv6Addr a b c d e f g h)) (v6_num (Ipv6Addr a' b' c' d' e' f' g' h'), 10) \<longleftrightarrow>
     unat a div 64 = unat a' div 64"
proof -
  have d: "v6_num (Ipv6Addr a b c d e f g h) div 2 ^ (112 + k) = unat a div 2 ^ k" for a b c d e f g h k
    by (simp only: power_add div_mult2_eq v6_num_div)
  show "in_cidr 128 (v6_num (Ipv6Addr a b c d e f g h)) (v6_num (Ipv6Addr a' b' c' d' e' f' g' h'), 8) \<longleftrightarrow>
      unat a div 256 = unat a' div 256"
    using d [where k = 8] by (simp add: in_cidr_def del: v6_num.simps)
  show "in_cidr 128 (v6_num (Ipv6Addr a b c d e f g h)) (v6_num (Ipv6Addr a' b' c' d' e' f' g' h'), 7) \<longleftrightarrow>
      unat a div 512 = unat a' div 512"
    using d [where k = 9] by (simp add: in_cidr_def del: v6_num.simps)
  show "in_cidr 128 (v6_num (Ipv6Addr a b c d e f g h)) (v6_num (Ipv6Addr a' b' c' d' e' f' g' h'), 10) \<longleftrightarrow>
      unat a div 64 = unat a' div 64"
    using d [where k = 6] by (simp add: in_cidr_def del: v6_num.simps)
qed

lemma v6_full_prefix:
  "in_cidr 128 (v6_num x) (v6_num y, 128) \<longleftrightarrow> x = y"
proof (cases x; cases y)
  fix a b c d e f g h a' b' c' d' e' f' g' h'
  assume "x = Ipv6Addr a b c d e f g h" "y = Ipv6Addr a' b' c' d' e' f' g' h'"
  then show ?thesis
    unfolding in_cidr_def prod.case diff_self_eq_0 power_0 div_by_1
    by (simp only: v6_num.simps digit16_eq ipv6_addr.inject word_unat_eq_iff [symmetric] conj_assoc)
qed

lemma v6_high_bits:
  "(s :: u16) AND 0xff00 = 0xff00 \<longleftrightarrow> unat s div 256 = 0xff"
  "s AND 0xfe00 = 0xfc00 \<longleftrightarrow> unat s div 512 = 0x7e"
  "s AND 0xffc0 = 0xfe80 \<longleftrightarrow> unat s div 64 = 0x3fa"
proof -
  have d: "drop_bit k s = j \<longleftrightarrow> unat s div 2 ^ k = unat j" for k and j :: u16
    unfolding word_unat_eq_iff unsigned_drop_bit_eq using u16_bound [of s] by (simp add: drop_bit_eq_div take_bit_nat_eq_self)
  show "s AND 0xff00 = 0xff00 \<longleftrightarrow> unat s div 256 = 0xff"
    by (subst high_mask [where k = 8 and j = "0xff"]) (simp_all add: d mask_eq_exp_minus_1)
  show "s AND 0xfe00 = 0xfc00 \<longleftrightarrow> unat s div 512 = 0x7e"
    by (subst high_mask [where k = 9 and j = "0x7e"]) (simp_all add: d mask_eq_exp_minus_1)
  show "s AND 0xffc0 = 0xfe80 \<longleftrightarrow> unat s div 64 = 0x3fa"
    by (subst high_mask [where k = 6 and j = "0x3fa"]) (simp_all add: d mask_eq_exp_minus_1)
qed

lemma globally_routable_blocks: "is_globally_routable address \<longleftrightarrow> outside_refused_blocks address"
proof (cases address)
  case (V4 a)
  then show ?thesis by (simp add: is_globally_routable_def outside_refused_blocks_def is_global_v4_num)
next
  case (V6 x)
  obtain a b c d e f g h where x: "x = Ipv6Addr a b c d e f g h" by (cases x) auto
  show ?thesis
    unfolding V6 x is_globally_routable_def outside_refused_blocks_def ip_addr.case Let_def ipv4_mapped_block_def
      refused_ipv6_blocks_def list.pred_inject v6_prefix v6_high_prefix v6_full_prefix v6_num_low
    by (simp add: v6_is_unspecified_def v6_is_loopback_def v6_is_multicast_def v6_high_bits is_global_v4_num
        del: v4_num.simps v6_num.simps)
qed

lemma global_v4_not_special: "is_global_v4 a \<Longrightarrow> \<not> v4_is_unspecified a \<and> \<not> v4_is_multicast a"
  by (simp add: is_global_v4_def Let_def)

lemma permitted_not_special:
  assumes "address_permitted policy network address"
  shows "\<not> ip_is_unspecified address \<and> \<not> ip_is_multicast address"
proof -
  have loop: "ip_is_loopback address \<Longrightarrow> \<not> ip_is_unspecified address \<and> \<not> ip_is_multicast address"
    by (cases address; cases rule: v4_is_loopback.cases)
      (auto simp: ip_is_loopback_def ip_is_unspecified_def ip_is_multicast_def v6_is_loopback_def v6_is_unspecified_def v6_is_multicast_def
        elim!: v4_is_loopback.elims v4_is_unspecified.elims v4_is_multicast.elims)
  have mapped: "to_ipv4_mapped x = Some y \<Longrightarrow> \<not> v6_is_unspecified x \<and> \<not> v6_is_multicast x" for x y
    by (cases x) (auto simp: v6_is_unspecified_def v6_is_multicast_def split: if_splits)
  have global: "is_globally_routable address \<Longrightarrow> \<not> ip_is_unspecified address \<and> \<not> ip_is_multicast address"
    using global_v4_not_special mapped
    by (cases address) (auto simp: is_globally_routable_def ip_is_unspecified_def ip_is_multicast_def Let_def split: option.splits)
  show ?thesis using assms loop global by (auto simp: address_permitted_def split: authority_port_policy.splits if_splits)
qed

section \<open>An example\<close>

text \<open>A network with one server: a socket is the address it is connected to, if any, and only a socket connected to
  1.2.3.4:53 receives the answer.\<close>

definition open_udp :: "(endpoint_addr option, unit) udp_io" where
  "open_udp = \<lparr>udp_bind = \<lambda>_. Inr None, udp_set_read_timeout = \<lambda>s _. Inr s, udp_set_write_timeout = \<lambda>s _. Inr s,
     udp_connect = \<lambda>_ address. Inr (Some address), udp_send = \<lambda>s bs. Inr (length bs, s),
     udp_recv = \<lambda>s _. if s = Some (V4 (Ipv4Addr 1 2 3 4), 53) then Inr (sample_wire, s) else Inl ()\<rparr>"

definition closed_tcp :: "(unit, unit) tcp_io" where
  "closed_tcp = \<lparr>tcp_connect_timeout = \<lambda>_ _. Inl (), tcp_set_read_timeout = \<lambda>s _. Inr s, tcp_set_write_timeout = \<lambda>s _. Inr s,
     tcp_write_all = \<lambda>s _. Inr s, tcp_flush = Inr, tcp_read_exact = \<lambda>_ _. Inl ()\<rparr>"

definition sample_endpoint :: "nat authoritative_endpoint" where
  "sample_endpoint = \<lparr>ae_address = (V4 (Ipv4Addr 1 2 3 4), 53), ae_anchor = cc_anchor sample_chain, ae_name_hash = [97]\<rparr>"

lemma sample_endpoints:
  assumes "verify_name_resource list_decoder plain_lib sample_chain [97] [1] = Inr res" and "hr_records (vh_resource res) = sample_records"
  shows "from_verified_resource res StandardDns =
    (Inr \<lparr>as_endpoints = [sample_endpoint], as_anchor = cc_anchor sample_chain\<rparr> :: ((unit, unit) transport_error, _) result)"
proof -
  have "vh_anchor res = cc_anchor sample_chain" "vh_name res = [97]" "nl_hash_name plain_lib [97] = Inr (vh_name_hash res)"
    using verify_name_resource_sound [OF list_decoder_laws assms(1)] by blast+
  then show ?thesis using assms(2)
    by (simp add: from_verified_resource_def policy_port_def sample_chain_def sample_endpoint_def plain_lib_def sample_records_def
        address_permitted_def ip_is_unspecified_def ip_is_multicast_def MAX_AUTHORITY_ENDPOINTS_def DNS_PORT_def word_le_nat_alt)
qed

lemma sample_answer_parsed: "parse_with_limits sample_wire requester_limits = Inr sample_message"
proof (rule message_roundtrip_aux)
  show "message_encode sample_message 512 = Inr sample_wire" by (rule sample_encode)
  show "wf_message requester_limits sample_message"
    using sample_wf by (simp add: wf_message_def sample_message_def requester_limits_def wf_question_def wf_record_def wf_rdata_def name_ok_def)
  show "list_all (rdata_fits requester_limits) (m_answers sample_message @ m_authorities sample_message @ m_additionals sample_message)"
    by (simp add: sample_message_def rdata_fits_def requester_limits_def encode_rdata_def)
qed (simp_all add: sample_wire_def requester_limits_def U16_MAX_def)

lemma sample_exchange:
  "exchange_udp plain_lib open_udp default_transport_limits sample_endpoint sample_query (\<lambda>_. False) 1550 = Inr sample_message"
proof -
  have "\<exists>bs. query_encode sample_query 1232 = Inr bs"
    by (simp add: query_encode_def query_message_def sample_query_def message_encode_def write_count_def write_u16_def
      write_u32_def encode_question_def encode_record_def encode_rdata_def name_encode_def root_name_def
      name_wire_len_def eval_defs be_bytes_def le_bytes_def upt_rec)
  then obtain bs where q: "query_encode sample_query 1232 = Inr bs" ..
  have "requester_limits\<lparr>max_message_len := U16_MAX\<rparr> = requester_limits" by (simp add: requester_limits_def)
  moreover have "answers_query sample_query sample_message"
    by (simp add: answers_query_def sample_query_def sample_message_def is_response_def opcode_def truncated_def CLASS_IN_def)
  moreover have "endpoint_authorised plain_lib sample_endpoint sample_query 1550"
    by (simp add: endpoint_authorised_def sample_endpoint_def sample_chain_def sample_query_def plain_lib_def)
  ultimately show ?thesis unfolding exchange_udp_iff
    using q sample_answer_parsed
    by (simp add: udp_dialogue_def open_udp_def sample_endpoint_def default_transport_limits_def) (simp add: sample_wire_def U16_MAX_def)
qed

section \<open>Properties\<close>



end
