(* ===== verification/Spec2Isabelle.thy ===== *)
theory Spec2Isabelle
  imports Dns_Properties Runtime Cache_Laws Expiring_Lru Urkel_Soundness Header Net_Policy Light_Chain_Laws
    Policy_Laws Fingerprint_Laws Gateway Icann_Dane Dane_Laws Dnssec_Canonical Dnssec_Denial_Laws Light_Snapshot End_To_End
    Bloom Wallet_Laws Light_Sync_Laws Direct_Transport_Laws
begin

text \<open>
  \<^bold>\<open>The Handshake DANE engine.\<close>  This is a verification development of the Rust workspace under
  src/crates.  The engine resolves TLSA records for Handshake (HNS) and ICANN names, validates them locally
  and decides whether a TLS certificate may be trusted.  A light client keeps a window of validated
  block headers; an Urkel proof against the tree root of a current header commits the resource of a
  top-level name; the DS records of the resource authenticate the DNSSEC keys of the zone; with these keys
  the resolver verifies CNAME and TLSA record sets; the TLSA records are matched against the certificate.
  Around this path stand the policy that admits transports, the gateway that runs them in order, the choice
  between the two roots of the namespace, the cache of verified answers and the runtime whose generations
  revoke work that is in flight.

  \<^bold>\<open>Conventions.\<close>  A struct is a \<open>record\<close>, an enum a \<open>datatype\<close>; \<open>u8\<close> to \<open>u64\<close> are words of their
  width and \<open>usize\<close>, 64 bits wide, is \<open>nat\<close> with the checked operations bounded by \<open>usize_max\<close>.  A
  \<open>Result\<close> is a sum, \<open>Inl\<close> the error; a method with \<open>&mut self\<close> returns the state it leaves behind,
  also when it fails; where a panic is possible a result of \<open>None\<close> stands for it.  Loops are recursive
  functions with a termination proof; the one loop whose end depends on an invariant (\<open>locator\<close>) is a
  partial function into \<open>option\<close> that is proved to return.  Clocks and random values are arguments.  Code
  outside the repository is a parameter: digests are functions; \<open>consensus\<close>, \<open>work_lib\<close>, \<open>name_lib\<close>,
  \<open>decoder_lib\<close> and \<open>encoder_lib\<close> are records of the operations used of the crates hns-header-consensus,
  hns-primitives, hns-covenants, hns-urkel-proof and hns-encoding; \<open>openssl\<close> and \<open>x509_lib\<close> of the
  cryptographic crates.  What is relied on of them is stated by \<open>consensus_laws\<close>, \<open>work_laws\<close>,
  \<open>decoder_laws\<close>, \<open>encoder_laws\<close>, their extensions \<open>var_decoder_laws\<close> and \<open>var_encoder_laws\<close>,
  \<open>openssl_laws\<close> and the hypotheses of the theorems; each set of laws
  has a concrete instance.

  \<^bold>\<open>Shared theories.\<close>  \<open>Prelude\<close> holds the machine types, results, slices, byte orders and the
  interfaces \<open>fixed_codec\<close>, \<open>invariant_machine\<close>, \<open>ranked_machine\<close>, \<open>guarded_machine\<close> and \<open>monotone_system\<close>, which the
  codecs and the stateful components instantiate.  \<open>Ip_Addr\<close>, \<open>Hash\<close> and \<open>Hns_Encoding\<close> hold addresses,
  hashes with Handshake names (hns-browser-primitives/src/hash.rs), and the external byte codec.

  \<^bold>\<open>DNS messages\<close> (hns-dns-wire/src/lib.rs).  \<open>Dns_Name\<close> has the names and their compressed decoder,
  \<open>Dns_Message\<close> the parser and encoder, \<open>Dns_Query\<close> queries and correlation.  \<open>Dns_Name_Spec\<close>,
  \<open>Dns_Rdata\<close>, \<open>Dns_Roundtrip\<close> and \<open>Dns_Properties\<close> show that the name decoder implements the
  expansion of labels and pointers, that what the parser accepts satisfies the message invariant, and that
  encoding followed by parsing is the identity.

  \<^bold>\<open>Light client.\<close>  \<open>Light_Chain\<close> and \<open>Light_Chain_Laws\<close> model the header chain of
  hns-light-chain/src/lib.rs: every reachable chain is a linked window with growing work that suffices for
  the difficulty rule, and the block locator always returns.  \<open>Light_Snapshot\<close> models its checkpoints: a
  checkpoint is restored exactly when it encodes the restored chain, and a restored chain keeps the
  invariant and its floor.  \<open>Light_Sync\<close> and \<open>Light_Sync_Laws\<close> model the synchronisation of hns-light-sync/src/lib.rs:
  peers with scores, rounds and the choice of a chain.  A round accepts exactly the one valid answer of
  greatest work that enough peers sent, in whatever order a hash map is visited, and current-chain evidence
  needs a round without extension on the run that issues it, after which the synchroniser stayed current.  \<open>Hns_Resource\<close> and \<open>Hns_Resource_Laws\<close> model the resource reader and the
  verification of a name against an anchor: a resource has one reading, its records are well typed, and a
  verified resource is the committed one.  \<open>Header\<close> and \<open>Pow\<close> model headers, compact targets and work of
  hns-browser-primitives; \<open>Urkel\<close> and \<open>Urkel_Soundness\<close> the proof verifier of hns-browser-urkel, sound
  and complete for the tree whose root it is given.

  \<^bold>\<open>DNSSEC\<close> (hns-dnssec/src/lib.rs).  \<open>Dnssec\<close> and \<open>Dnssec_Denial\<close> hold the validator;
  \<open>Dnssec_Laws\<close> shows exactly when a record set is accepted and with which errors it is refused, that a DS
  check panics exactly on digests of another length, and that an authenticated key set rests on a chain of
  trust, none of whose signatures and TTLs runs out while evidence under it is fresh; \<open>Dnssec_Canonical\<close> shows in which order records are signed;
  \<open>Dnssec_Denial_Laws\<close> that accepted denials over truthful records are true, with the exception found for
  empty non-terminals, and for NSEC3 as long as the hash of the supplied records separates the names involved.

  \<^bold>\<open>Resolution and trust.\<close>  \<open>Resolver\<close> and \<open>Resolver_Laws\<close> model hns-resolver/src/lib.rs: a
  completed resolution is a bounded loop-free alias path of verified record sets under one authority.
  \<open>End_To_End\<close> joins anchor, resource, authority and resolution.  \<open>Direct_Transport\<close> and
  \<open>Direct_Transport_Laws\<close> model hns-transport/src/lib.rs, with the socket calls as arguments that
  take and return the socket: an answer is received only from a socket connected to an address that the verified
  resource of the top-level name commits and the policy admits, and the blocks this policy refuses are listed.
  \<open>Dane\<close> and \<open>Dane_Laws\<close> model the
  certificate reader and the TLSA matching of hns-dane/src/lib.rs; \<open>Icann_Dane\<close> the discovery policy of
  hns-icann-dane/src/lib.rs.

  \<^bold>\<open>Light wallet\<close> (hns-light-wallet/src/lib.rs).  \<open>Bloom\<close> models the filters that are sent to peers, with
  MurmurHash3 and their wire form: a filter contains exactly the values whose bit positions were set, and
  is decoded from its own encodings only.  \<open>Merkle_Block\<close> models the decoder of filtered blocks;
  \<open>Merkle_Laws\<close> relates it to partially revealed trees and to the tree that a block commits, and
  \<open>Merkle_Properties\<close> shows that accepted evidence is true of the committed block, that honest payloads are
  accepted, and two places where the code differs from its documentation.  \<open>Wallet_Block\<close> and
  \<open>Wallet_Laws\<close> model the collection of transactions and the merge of several peers' views: over the
  interface \<open>ordered_map\<close> the merge is the union of views that agree, and its transactions are those of
  the committed block.

  \<^bold>\<open>Policy, namespace and runtime.\<close>  \<open>Net_Policy\<close> is the address policy of hns-browser-primitives,
  equal to a list of CIDR blocks that exceeds the documented one by 3ff0::/12 outside 3fff::/20.  \<open>Policy\<close>, \<open>Policy_Laws\<close> and \<open>Gateway\<close> model hns-resolution-policy
  and hns-gateway: persisted policies, admissions that die with their generation, and transports tried in
  plan order.  \<open>Namespace\<close>, \<open>Namespace_Decision\<close>, \<open>Namespace_Laws\<close>, \<open>Sha256\<close>, \<open>Fingerprint\<close> and
  \<open>Fingerprint_Laws\<close> model hns-namespace-resolution: origins, plans, the decision between the roots and
  its unambiguous fingerprints, hashed by a SHA-256 equal to the one of FIPS 180-4, constants included.  \<open>Cache\<close>, \<open>Cache_Laws\<close> and \<open>Expiring_Lru\<close> model hns-cache, and
  \<open>Runtime\<close> hns-browser-runtime.

  \<^bold>\<open>Not modelled.\<close>  The socket, thread and database code: the browser adapters
  (hns-browser-chain, -dane, -dnssec, -gateway, -loopback-proxy, -observability, -p2p, -resolver, -sync,
  -transport), the peer and relay sessions (hns-light-p2p, hns-loopback-proxy,
  hns-p2p-transport), the facade hns-dane-engine with its C interface, and the test kit; failing allocations;
  the contents of log and display strings.  The sizing of Bloom filters by a false-positive rate computes
  with 64-bit floating-point logarithms, which have no executable counterpart in the library.
\<close>

end
